(* ===== verification/Cco_Prelude.thy ===== *)
theory Cco_Prelude
  imports Main "HOL-Library.Word"
begin

text \<open>
  Shared vocabulary of the development: the machine integer types of the C code, the
  collections of rewrite rules the component proofs extend, and generic facts on
  lists, options and powers of two that several components use.
\<close>

section \<open>Machine integers\<close>

unbundle bit_operations_syntax

type_synonym u8 = "8 word"
type_synonym u16 = "16 word"
type_synonym u32 = "32 word"
type_synonym u64 = "64 word"

section \<open>Collections of rules\<close>

named_theorems enc_simps \<open>byte counts and contents of the emission primitives\<close>
named_theorems cfg_simps \<open>what the control flow graph operations leave unchanged\<close>
named_theorems ir_simps \<open>selectors of freshly built IR objects\<close>

section \<open>Masks and powers of two\<close>

lemma and_mask_eq_mod:
  fixes n :: nat
  shows "n AND (2 ^ k - 1) = n mod 2 ^ k"
proof -
  have "n AND mask k = n mod 2 ^ k"
    by (simp only: take_bit_eq_mask [symmetric] take_bit_eq_mod)
  then show ?thesis by (simp only: mask_eq_exp_minus_1)
qed

lemma and_minus_one_eq_mod:
  fixes n c :: nat
  assumes "c = 2 ^ k"
  shows "n AND (c - 1) = n mod c"
  using assms and_mask_eq_mod by simp

section \<open>Lists\<close>

definition count_if :: "('a \<Rightarrow> bool) \<Rightarrow> 'a list \<Rightarrow> nat" where
  "count_if P xs = length (filter P xs)"

lemma count_if_Nil [simp]: "count_if P [] = 0"
  by (simp add: count_if_def)

lemma count_if_Cons [simp]: "count_if P (x # xs) = (if P x then 1 else 0) + count_if P xs"
  by (simp add: count_if_def)

lemma count_if_append [simp]: "count_if P (xs @ ys) = count_if P xs + count_if P ys"
  by (simp add: count_if_def)

lemma count_if_replicate [simp]: "count_if P (replicate n x) = (if P x then n else 0)"
  by (simp add: count_if_def)

lemma count_if_le_length: "count_if P xs \<le> length xs"
  by (simp add: count_if_def)

lemma count_if_update:
  assumes "i < length xs"
  shows "count_if P (xs[i := y]) + (if P (xs ! i) then 1 else 0)
       = count_if P xs + (if P y then 1 else 0)"
  using assms
proof (induction xs arbitrary: i)
  case Nil
  then show ?case by simp
next
  case (Cons x xs)
  then show ?case by (cases i) (auto simp: add.commute add.left_commute)
qed

lemma count_if_full: "count_if P xs = length xs \<Longrightarrow> x \<in> set xs \<Longrightarrow> P x"
proof (induction xs)
  case Nil
  then show ?case by simp
next
  case (Cons y ys)
  have "count_if P ys \<le> length ys" by (rule count_if_le_length)
  with Cons.prems(1) have "P y" and "count_if P ys = length ys"
    by (auto split: if_splits)
  with Cons show ?case by auto
qed

lemma count_if_less_ex:
  assumes "count_if P xs < length xs"
  shows "\<exists>i < length xs. \<not> P (xs ! i)"
proof (rule ccontr)
  assume "\<not> ?thesis"
  then have "\<forall>x \<in> set xs. P x" by (auto simp: in_set_conv_nth)
  then have "filter P xs = xs" by simp
  with assms show False by (simp add: count_if_def)
qed

lemma map_filter_map_cong:
  assumes "\<And>x. x \<in> set xs \<Longrightarrow> g (h x) = f x"
  shows "List.map_filter g (map h xs) = List.map_filter f xs"
  using assms by (induction xs) (auto split: option.split)

lemma map_update_same: "k x = k (xs ! r) \<Longrightarrow> map k (xs[r := x]) = map k xs"
  by (cases "r < length xs") (simp_all add: map_update list_update_same_conv list_update_beyond)

lemma find_SomeD: "List.find P xs = Some x \<Longrightarrow> x \<in> set xs \<and> P x"
  by (auto simp: find_Some_iff)

section \<open>Text as the C library prints it\<close>

text \<open>\<open>%d\<close> of a natural number and of an integer, and what \<open>snprintf\<close> leaves in a buffer of \<open>n\<close> bytes.\<close>

fun decimal :: "nat \<Rightarrow> string" where
  "decimal n = (if n < 10 then [char_of (48 + n)] else decimal (n div 10) @ [char_of (48 + n mod 10)])"

declare decimal.simps [simp del]

definition decimal_int :: "int \<Rightarrow> string" where
  "decimal_int z = (if z < 0 then ''-'' @ decimal (nat (- z)) else decimal (nat z))"

definition snprintf_buf :: "nat \<Rightarrow> string \<Rightarrow> string" where
  "snprintf_buf n s = take (n - 1) s"

definition undecimal :: "string \<Rightarrow> nat" where
  "undecimal s = foldl (\<lambda>a c. 10 * a + (of_char c - 48)) 0 s"

lemma decimal_length: "n < 10 ^ Suc k \<Longrightarrow> length (decimal n) \<le> Suc k"
proof (induction k arbitrary: n)
  case (Suc k)
  then show ?case by (subst decimal.simps) (auto simp: less_mult_imp_div_less)
qed (subst decimal.simps, simp)

lemma undecimal_decimal: "undecimal (decimal n) = n"
proof (induction n rule: decimal.induct)
  case (1 n)
  show ?case
  proof (cases "n < 10")
    case True
    then show ?thesis by (simp add: decimal.simps [of n] undecimal_def)
  next
    case False
    then have "undecimal (decimal (n div 10)) = n div 10" using 1 by simp
    then show ?thesis using False
      by (simp add: decimal.simps [of n] undecimal_def)
  qed
qed

lemma decimal_inj: "decimal m = decimal n \<Longrightarrow> m = n"
  by (metis undecimal_decimal)

lemma decimal_chars: "c \<in> set (decimal n) \<Longrightarrow> 48 \<le> (of_char c :: nat) \<and> (of_char c :: nat) \<le> 57"
proof (induction n rule: decimal.induct)
  case (1 n)
  show ?case
  proof (cases "n < 10")
    case True
    then show ?thesis using "1.prems" by (simp add: decimal.simps [of n])
  next
    case False
    have m: "n mod 10 < 10" by simp
    from "1.prems" False have "c \<in> set (decimal (n div 10)) \<or> c = char_of (48 + n mod 10)"
      by (subst (asm) decimal.simps) (simp add: disj_commute)
    then show ?thesis
    proof
      assume "c \<in> set (decimal (n div 10))"
      then show ?thesis using 1(1) False by simp
    next
      assume "c = char_of (48 + n mod 10)"
      then show ?thesis using m by simp
    qed
  qed
qed

lemma decimal_no_dot: "CHR ''.'' \<notin> set (decimal n)"
  using decimal_chars [of "CHR ''.''" n] by auto

text \<open>A name that ends in a dot and a number names that number.\<close>

lemma dotted_number_inj:
  assumes "p @ CHR ''.'' # decimal m = q @ CHR ''.'' # decimal n"
  shows "m = n"
proof -
  have tail: "takeWhile (\<lambda>c. c \<noteq> CHR ''.'') (rev (r @ CHR ''.'' # decimal k)) = rev (decimal k)" for r k
  proof -
    have "takeWhile (\<lambda>c. c \<noteq> CHR ''.'') (rev (decimal k) @ CHR ''.'' # rev r) = rev (decimal k)"
      using decimal_no_dot [of k] by (subst takeWhile_append2) auto
    then show ?thesis by simp
  qed
  have "rev (decimal m) = rev (decimal n)" using tail [of p m] tail [of q n] assms by metis
  then show ?thesis using decimal_inj by simp
qed

section \<open>Running operations, and refinement of runs\<close>

text \<open>
  A component is driven by a list of inputs. A concrete step may fail to return (\<open>None\<close>) or
  end the program with an error (\<open>Inl\<close>); the run stops there. The abstract step is total.
\<close>

fun run_concrete :: "('c \<Rightarrow> 'i \<Rightarrow> ('e + 'c \<times> 'o) option) \<Rightarrow> 'c \<Rightarrow> 'i list
    \<Rightarrow> ('o list \<times> ('e + 'c)) option" where
  "run_concrete step c [] = Some ([], Inr c)"
| "run_concrete step c (i # is) =
     (case step c i of
        None \<Rightarrow> None
      | Some (Inl e) \<Rightarrow> Some ([], Inl e)
      | Some (Inr (c', out)) \<Rightarrow>
          map_option (\<lambda>(outs, r). (out # outs, r)) (run_concrete step c' is))"

fun run_abstract :: "('a \<Rightarrow> 'i \<Rightarrow> 'e + 'a \<times> 'o) \<Rightarrow> 'a \<Rightarrow> 'i list \<Rightarrow> 'o list \<times> ('e + 'a)" where
  "run_abstract step a [] = ([], Inr a)"
| "run_abstract step a (i # is) =
     (case step a i of
        Inl e \<Rightarrow> ([], Inl e)
      | Inr (a', out) \<Rightarrow> (case run_abstract step a' is of (outs, r) \<Rightarrow> (out # outs, r)))"

locale run_refinement =
  fixes invar :: "'c \<Rightarrow> bool"
    and abs :: "'c \<Rightarrow> 'a"
    and valid :: "'a \<Rightarrow> 'i \<Rightarrow> bool"
    and cstep :: "'c \<Rightarrow> 'i \<Rightarrow> ('e + 'c \<times> 'o) option"
    and astep :: "'a \<Rightarrow> 'i \<Rightarrow> 'e + 'a \<times> 'o"
  assumes step_error: "\<lbrakk> invar c; valid (abs c) i; astep (abs c) i = Inl e \<rbrakk> \<Longrightarrow> cstep c i = Some (Inl e)"
    and step_return: "\<lbrakk> invar c; valid (abs c) i; astep (abs c) i = Inr (a', out) \<rbrakk> \<Longrightarrow>
      \<exists>c'. cstep c i = Some (Inr (c', out)) \<and> invar c' \<and> abs c' = a'"
    and valid_kept: "\<lbrakk> valid a i; astep a j = Inr (a', out) \<rbrakk> \<Longrightarrow> valid a' i"
begin

text \<open>Every run of valid inputs returns, with the outputs and the outcome of the abstract run.\<close>

lemma run_refines:
  assumes "invar c" and "\<forall>i \<in> set is. valid (abs c) i"
  shows "\<exists>r. run_concrete cstep c is = Some (fst (run_abstract astep (abs c) is), r) \<and>
           map_sum id abs r = snd (run_abstract astep (abs c) is) \<and>
           (\<forall>c'. r = Inr c' \<longrightarrow> invar c')"
  using assms
proof (induction "is" arbitrary: c)
  case Nil
  then show ?case by simp
next
  case (Cons i "is")
  show ?case
  proof (cases "astep (abs c) i")
    case (Inl e)
    with step_error [of c i e] Cons.prems show ?thesis by simp
  next
    case (Inr p)
    obtain a' out where p: "p = (a', out)" by (cases p)
    from step_return [of c i a' out] Cons.prems Inr p obtain c' where c':
      "cstep c i = Some (Inr (c', out))" "invar c'" "abs c' = a'" by auto
    have "\<forall>i \<in> set is. valid (abs c') i" using Cons.prems(2) valid_kept Inr p c'(3) by auto
    from Cons.IH [OF c'(2) this] c' Inr p show ?thesis by (auto split: prod.split)
  qed
qed

end

end
