(* ===== verification/Ir.thy ===== *)
theory Ir
  imports Cco_Prelude
begin

text \<open>
  The intermediate representation of \<open>src/ir/ir.h\<close> and the construction functions of
  \<open>src/ir/ir.c\<close>: types, values, instructions, basic blocks with their control flow edges,
  functions and modules, and the builder that appends instructions.

  A C pointer to a basic block is a handle: the position of the block among all blocks its
  function ever created (\<open>fn_heap\<close>). The linked list of the blocks of the function is the list
  \<open>fn_order\<close> of handles; the pointers \<open>first_block\<close> and \<open>last_block\<close> are its ends. The doubly
  linked list of instructions of a block is the list \<open>bb_insts\<close>. The growing arrays are lists.
  A pointer that may be NULL is an option. Values and types are never written after their
  construction, so they are modelled by what they hold. Register numbers and block numbers
  count up from 0 and are modelled without a bound. A value always has a type.
\<close>

section \<open>Types\<close>

datatype ir_type_kind =
    IR_TYPE_VOID | IR_TYPE_I32 | IR_TYPE_I64 | IR_TYPE_F64 | IR_TYPE_BOOL | IR_TYPE_CHAR
  | IR_TYPE_PTR | IR_TYPE_STRUCT | IR_TYPE_ARRAY

text \<open>
  A struct type without a name is only equal to itself, so it carries the address of its object.
\<close>

datatype ir_type =
    Ty_Void | Ty_I32 | Ty_I64 | Ty_F64 | Ty_Bool | Ty_Char
  | Ty_Ptr "ir_type option"
  | Ty_Struct string
  | Ty_Struct_Anon nat
  | Ty_Array "ir_type option" int

fun ir_kind :: "ir_type \<Rightarrow> ir_type_kind" where
  "ir_kind Ty_Void = IR_TYPE_VOID"
| "ir_kind Ty_I32 = IR_TYPE_I32"
| "ir_kind Ty_I64 = IR_TYPE_I64"
| "ir_kind Ty_F64 = IR_TYPE_F64"
| "ir_kind Ty_Bool = IR_TYPE_BOOL"
| "ir_kind Ty_Char = IR_TYPE_CHAR"
| "ir_kind (Ty_Ptr e) = IR_TYPE_PTR"
| "ir_kind (Ty_Struct n) = IR_TYPE_STRUCT"
| "ir_kind (Ty_Struct_Anon a) = IR_TYPE_STRUCT"
| "ir_kind (Ty_Array e s) = IR_TYPE_ARRAY"

fun ir_elem_type :: "ir_type \<Rightarrow> ir_type option" where
  "ir_elem_type (Ty_Ptr e) = e"
| "ir_elem_type (Ty_Array e s) = e"
| "ir_elem_type _ = None"

fun ir_type_equals :: "ir_type \<Rightarrow> ir_type \<Rightarrow> bool" where
  "ir_type_equals (Ty_Ptr None) b = (ir_kind b = IR_TYPE_PTR)"
| "ir_type_equals (Ty_Ptr (Some e)) b =
     (case b of Ty_Ptr None \<Rightarrow> True | Ty_Ptr (Some e') \<Rightarrow> ir_type_equals e e' | _ \<Rightarrow> False)"
| "ir_type_equals (Ty_Struct n) b = (case b of Ty_Struct m \<Rightarrow> n = m | _ \<Rightarrow> False)"
| "ir_type_equals (Ty_Struct_Anon n) b = (case b of Ty_Struct_Anon m \<Rightarrow> n = m | _ \<Rightarrow> False)"
| "ir_type_equals (Ty_Array None s) b =
     (case b of Ty_Array e' s' \<Rightarrow> s = s' \<and> e' = None | _ \<Rightarrow> False)"
| "ir_type_equals (Ty_Array (Some e) s) b =
     (case b of Ty_Array (Some e') s' \<Rightarrow> s = s' \<and> ir_type_equals e e' | _ \<Rightarrow> False)"
| "ir_type_equals Ty_Void b = (ir_kind b = IR_TYPE_VOID)"
| "ir_type_equals Ty_I32 b = (ir_kind b = IR_TYPE_I32)"
| "ir_type_equals Ty_I64 b = (ir_kind b = IR_TYPE_I64)"
| "ir_type_equals Ty_F64 b = (ir_kind b = IR_TYPE_F64)"
| "ir_type_equals Ty_Bool b = (ir_kind b = IR_TYPE_BOOL)"
| "ir_type_equals Ty_Char b = (ir_kind b = IR_TYPE_CHAR)"

fun ir_type_to_string :: "ir_type option \<Rightarrow> string" where
  "ir_type_to_string None = ''unknown''"
| "ir_type_to_string (Some Ty_Void) = ''void''"
| "ir_type_to_string (Some Ty_I32) = ''i32''"
| "ir_type_to_string (Some Ty_I64) = ''i64''"
| "ir_type_to_string (Some Ty_F64) = ''f64''"
| "ir_type_to_string (Some Ty_Bool) = ''bool''"
| "ir_type_to_string (Some Ty_Char) = ''char''"
| "ir_type_to_string (Some (Ty_Ptr e)) = ''ptr''"
| "ir_type_to_string (Some (Ty_Struct n)) = n"
| "ir_type_to_string (Some (Ty_Struct_Anon a)) = ''struct''"
| "ir_type_to_string (Some (Ty_Array e s)) = ''array''"

definition ir_type_void :: ir_type where "ir_type_void = Ty_Void"
definition ir_type_i32 :: ir_type where "ir_type_i32 = Ty_I32"
definition ir_type_i64 :: ir_type where "ir_type_i64 = Ty_I64"
definition ir_type_f64 :: ir_type where "ir_type_f64 = Ty_F64"
definition ir_type_bool :: ir_type where "ir_type_bool = Ty_Bool"
definition ir_type_char :: ir_type where "ir_type_char = Ty_Char"
definition ir_type_ptr :: "ir_type option \<Rightarrow> ir_type" where "ir_type_ptr elem = Ty_Ptr elem"

text \<open>The address of the new object only matters where the struct has no name.\<close>

definition ir_type_struct :: "nat \<Rightarrow> string option \<Rightarrow> ir_type" where
  "ir_type_struct addr name = (case name of Some n \<Rightarrow> Ty_Struct n | None \<Rightarrow> Ty_Struct_Anon addr)"

definition ir_type_array :: "ir_type option \<Rightarrow> int \<Rightarrow> ir_type" where
  "ir_type_array elem n = Ty_Array elem n"

lemmas ir_type_defs = ir_type_void_def ir_type_i32_def ir_type_i64_def ir_type_f64_def
  ir_type_bool_def ir_type_char_def ir_type_ptr_def ir_type_struct_def ir_type_array_def

section \<open>Values\<close>

text \<open>
  The kind of a value with the member of the union that the kind selects. A double is the
  64 bits that represent it.
\<close>

datatype ir_value_kind =
    IR_VAL_CONST_INT u64
  | IR_VAL_CONST_FLOAT u64
  | IR_VAL_CONST_BOOL bool
  | IR_VAL_CONST_CHAR char
  | IR_VAL_CONST_STRING "string option"
  | IR_VAL_REG
  | IR_VAL_VAR
  | IR_VAL_PARAM
  | IR_VAL_GLOBAL

record ir_value =
  v_kind :: ir_value_kind
  v_type :: ir_type
  v_id :: nat
  v_name :: "string option"

definition ir_val_const_int :: "ir_type option \<Rightarrow> u64 \<Rightarrow> ir_value" where
  "ir_val_const_int ty v = \<lparr>v_kind = IR_VAL_CONST_INT v,
     v_type = (case ty of Some t \<Rightarrow> t | None \<Rightarrow> ir_type_i32), v_id = 0, v_name = None\<rparr>"

definition ir_val_const_float :: "u64 \<Rightarrow> ir_value" where
  "ir_val_const_float v =
     \<lparr>v_kind = IR_VAL_CONST_FLOAT v, v_type = ir_type_f64, v_id = 0, v_name = None\<rparr>"

definition ir_val_const_bool :: "bool \<Rightarrow> ir_value" where
  "ir_val_const_bool v =
     \<lparr>v_kind = IR_VAL_CONST_BOOL v, v_type = ir_type_bool, v_id = 0, v_name = None\<rparr>"

definition ir_val_const_char :: "char \<Rightarrow> ir_value" where
  "ir_val_const_char v =
     \<lparr>v_kind = IR_VAL_CONST_CHAR v, v_type = ir_type_char, v_id = 0, v_name = None\<rparr>"

definition ir_val_const_string :: "string option \<Rightarrow> ir_value" where
  "ir_val_const_string s = \<lparr>v_kind = IR_VAL_CONST_STRING s,
     v_type = ir_type_ptr (Some ir_type_char), v_id = 0, v_name = None\<rparr>"

definition ir_val_reg :: "ir_type \<Rightarrow> nat \<Rightarrow> ir_value" where
  "ir_val_reg ty reg = \<lparr>v_kind = IR_VAL_REG, v_type = ty, v_id = reg, v_name = None\<rparr>"

definition ir_val_var :: "ir_type \<Rightarrow> string option \<Rightarrow> ir_value" where
  "ir_val_var ty name = \<lparr>v_kind = IR_VAL_VAR, v_type = ty, v_id = 0, v_name = name\<rparr>"

definition ir_val_param :: "ir_type \<Rightarrow> nat \<Rightarrow> string option \<Rightarrow> ir_value" where
  "ir_val_param ty idx name = \<lparr>v_kind = IR_VAL_PARAM, v_type = ty, v_id = idx, v_name = name\<rparr>"

definition ir_val_global :: "ir_type \<Rightarrow> string option \<Rightarrow> ir_value" where
  "ir_val_global ty name = \<lparr>v_kind = IR_VAL_GLOBAL, v_type = ty, v_id = 0, v_name = name\<rparr>"

lemmas ir_val_defs = ir_val_const_int_def ir_val_const_float_def ir_val_const_bool_def
  ir_val_const_char_def ir_val_const_string_def ir_val_reg_def ir_val_var_def
  ir_val_param_def ir_val_global_def

section \<open>Instructions\<close>

datatype (plugins only: size code) ir_opcode =
    IR_OP_ALLOCA | IR_OP_LOAD | IR_OP_STORE
  | IR_OP_CONST
  | IR_OP_ADD | IR_OP_SUB | IR_OP_MUL | IR_OP_DIV | IR_OP_MOD | IR_OP_NEG
  | IR_OP_EQ | IR_OP_NE | IR_OP_LT | IR_OP_LE | IR_OP_GT | IR_OP_GE
  | IR_OP_AND | IR_OP_OR | IR_OP_NOT
  | IR_OP_GET_FIELD | IR_OP_SET_FIELD | IR_OP_GET_INDEX | IR_OP_SET_INDEX
  | IR_OP_CALL | IR_OP_PRINT | IR_OP_ALLOC | IR_OP_FREE | IR_OP_RELEASE
  | IR_OP_PHI
  | IR_OP_BR | IR_OP_CONDBR | IR_OP_RET

primrec ir_opcode_to_string :: "ir_opcode \<Rightarrow> string" where
  "ir_opcode_to_string IR_OP_ALLOCA = ''alloca''"
| "ir_opcode_to_string IR_OP_LOAD = ''load''"
| "ir_opcode_to_string IR_OP_STORE = ''store''"
| "ir_opcode_to_string IR_OP_CONST = ''const''"
| "ir_opcode_to_string IR_OP_ADD = ''add''"
| "ir_opcode_to_string IR_OP_SUB = ''sub''"
| "ir_opcode_to_string IR_OP_MUL = ''mul''"
| "ir_opcode_to_string IR_OP_DIV = ''div''"
| "ir_opcode_to_string IR_OP_MOD = ''mod''"
| "ir_opcode_to_string IR_OP_NEG = ''neg''"
| "ir_opcode_to_string IR_OP_EQ = ''eq''"
| "ir_opcode_to_string IR_OP_NE = ''ne''"
| "ir_opcode_to_string IR_OP_LT = ''lt''"
| "ir_opcode_to_string IR_OP_LE = ''le''"
| "ir_opcode_to_string IR_OP_GT = ''gt''"
| "ir_opcode_to_string IR_OP_GE = ''ge''"
| "ir_opcode_to_string IR_OP_AND = ''and''"
| "ir_opcode_to_string IR_OP_OR = ''or''"
| "ir_opcode_to_string IR_OP_NOT = ''not''"
| "ir_opcode_to_string IR_OP_GET_FIELD = ''get_field''"
| "ir_opcode_to_string IR_OP_SET_FIELD = ''set_field''"
| "ir_opcode_to_string IR_OP_GET_INDEX = ''get_index''"
| "ir_opcode_to_string IR_OP_SET_INDEX = ''set_index''"
| "ir_opcode_to_string IR_OP_CALL = ''call''"
| "ir_opcode_to_string IR_OP_PRINT = ''print''"
| "ir_opcode_to_string IR_OP_ALLOC = ''alloc''"
| "ir_opcode_to_string IR_OP_FREE = ''free''"
| "ir_opcode_to_string IR_OP_RELEASE = ''release''"
| "ir_opcode_to_string IR_OP_PHI = ''phi''"
| "ir_opcode_to_string IR_OP_BR = ''br''"
| "ir_opcode_to_string IR_OP_CONDBR = ''condbr''"
| "ir_opcode_to_string IR_OP_RET = ''ret''"

definition ir_is_terminator :: "ir_opcode \<Rightarrow> bool" where
  "ir_is_terminator opc \<longleftrightarrow> opc = IR_OP_BR \<or> opc = IR_OP_CONDBR \<or> opc = IR_OP_RET"

text \<open>\<open>phi_blocks\<close> and \<open>phi_values\<close> are the two components of \<open>i_phis\<close>; their length is \<open>phi_count\<close>.\<close>

record ir_inst =
  i_op :: ir_opcode
  i_type :: ir_type
  i_result :: "ir_value option"
  i_lhs :: "ir_value option"
  i_rhs :: "ir_value option"
  i_callee :: "string option"
  i_args :: "ir_value list"
  i_true :: "nat option"
  i_false :: "nat option"
  i_phis :: "(nat option \<times> ir_value option) list"
  i_field_name :: "string option"
  i_field_index :: int
  i_class :: "string option"
  i_is_array :: bool
  i_line :: int
  i_col :: int

definition create_instruction :: "ir_opcode \<Rightarrow> ir_type \<Rightarrow> ir_inst" where
  "create_instruction opc ty = \<lparr>i_op = opc, i_type = ty, i_result = None, i_lhs = None,
     i_rhs = None, i_callee = None, i_args = [], i_true = None, i_false = None, i_phis = [],
     i_field_name = None, i_field_index = -1, i_class = None, i_is_array = False,
     i_line = 0, i_col = 0\<rparr>"

definition ir_phi_add_incoming ::
  "ir_inst \<Rightarrow> nat option \<Rightarrow> ir_value option \<Rightarrow> ir_inst" where
  "ir_phi_add_incoming phi b v =
     (if i_op phi \<noteq> IR_OP_PHI then phi else phi\<lparr>i_phis := i_phis phi @ [(b, v)]\<rparr>)"

section \<open>Basic blocks, functions, modules\<close>

record ir_block =
  bb_name :: string
  bb_id :: nat
  bb_insts :: "ir_inst list"
  bb_preds :: "nat list"
  bb_succs :: "nat list"

definition last_inst :: "ir_block \<Rightarrow> ir_inst option" where
  "last_inst bb = (if bb_insts bb = [] then None else Some (last (bb_insts bb)))"

record ir_param =
  p_name :: "string option"
  p_type :: ir_type
  p_value :: ir_value

record ir_function =
  fn_name :: string
  fn_return_type :: ir_type
  fn_params :: "ir_param list"
  fn_entry :: "nat option"
  fn_heap :: "ir_block list"
  fn_order :: "nat list"
  fn_block_count :: nat
  fn_next_reg :: nat
  fn_next_block :: nat

record ir_struct_decl =
  st_name :: string
  st_fields :: "(string \<times> ir_type) list"
  st_is_class :: bool

record ir_module =
  m_name :: string
  m_structs :: "ir_struct_decl list"
  m_functions :: "ir_function list"

text \<open>The block a handle points to, and an update of that block.\<close>

definition block_at :: "ir_function \<Rightarrow> nat \<Rightarrow> ir_block" where
  "block_at f b = fn_heap f ! b"

definition update_block :: "nat \<Rightarrow> (ir_block \<Rightarrow> ir_block) \<Rightarrow> ir_function \<Rightarrow> ir_function" where
  "update_block b g f =
     (if b < length (fn_heap f) then f\<lparr>fn_heap := (fn_heap f)[b := g (fn_heap f ! b)]\<rparr> else f)"

definition fn_blocks :: "ir_function \<Rightarrow> ir_block list" where
  "fn_blocks f = map (block_at f) (fn_order f)"

definition ir_module_create :: "string option \<Rightarrow> ir_module" where
  "ir_module_create name = \<lparr>m_name = (case name of Some n \<Rightarrow> n | None \<Rightarrow> ''module''),
     m_structs = [], m_functions = []\<rparr>"

definition ir_module_add_struct :: "ir_module \<Rightarrow> string \<Rightarrow> bool \<Rightarrow> ir_module" where
  "ir_module_add_struct m name is_class =
     m\<lparr>m_structs := \<lparr>st_name = name, st_fields = [], st_is_class = is_class\<rparr> # m_structs m\<rparr>"

definition ir_struct_add_field :: "ir_struct_decl \<Rightarrow> string \<Rightarrow> ir_type \<Rightarrow> ir_struct_decl" where
  "ir_struct_add_field st name ty = st\<lparr>st_fields := st_fields st @ [(name, ty)]\<rparr>"

definition ir_module_find_struct :: "ir_module \<Rightarrow> string \<Rightarrow> ir_struct_decl option" where
  "ir_module_find_struct m name = List.find (\<lambda>s. st_name s = name) (m_structs m)"

definition ir_new_function :: "string \<Rightarrow> ir_type option \<Rightarrow> ir_function" where
  "ir_new_function name ty = \<lparr>fn_name = name,
     fn_return_type = (case ty of Some t \<Rightarrow> t | None \<Rightarrow> ir_type_void), fn_params = [],
     fn_entry = None, fn_heap = [], fn_order = [], fn_block_count = 0, fn_next_reg = 0,
     fn_next_block = 0\<rparr>"

definition ir_function_create :: "ir_module \<Rightarrow> string \<Rightarrow> ir_type option \<Rightarrow> ir_module" where
  "ir_function_create m name ty = m\<lparr>m_functions := m_functions m @ [ir_new_function name ty]\<rparr>"

definition ir_function_add_param :: "ir_function \<Rightarrow> string option \<Rightarrow> ir_type \<Rightarrow> ir_function" where
  "ir_function_add_param f name ty = f\<lparr>fn_params := fn_params f @
     [\<lparr>p_name = name, p_type = ty, p_value = ir_val_param ty (length (fn_params f)) name\<rparr>]\<rparr>"

definition ir_module_find_function :: "ir_module \<Rightarrow> string \<Rightarrow> ir_function option" where
  "ir_module_find_function m name = List.find (\<lambda>f. fn_name f = name) (m_functions m)"

definition block_label :: "string option \<Rightarrow> nat \<Rightarrow> string" where
  "block_label prefix n = snprintf_buf 128
     (case prefix of
        Some p \<Rightarrow>
          if p = '''' then ''block.'' @ decimal n
          else if p = ''entry'' \<and> n = 0 then ''entry''
          else p @ ''.'' @ decimal n
      | None \<Rightarrow> ''block.'' @ decimal n)"

definition ir_block_create :: "ir_function \<Rightarrow> string option \<Rightarrow> ir_function \<times> nat" where
  "ir_block_create f prefix =
     (let b = length (fn_heap f);
          bb = \<lparr>bb_name = block_label prefix (fn_next_block f), bb_id = fn_next_block f,
                bb_insts = [], bb_preds = [], bb_succs = []\<rparr>
      in (f\<lparr>fn_heap := fn_heap f @ [bb], fn_order := fn_order f @ [b],
            fn_entry := (if fn_order f = [] then Some b else fn_entry f),
            fn_next_block := fn_next_block f + 1, fn_block_count := fn_block_count f + 1\<rparr>, b))"

text \<open>An alloca goes in front of a terminator that ends the block; everything else at the end.\<close>

definition ir_block_add_instruction :: "ir_inst \<Rightarrow> ir_block \<Rightarrow> ir_block" where
  "ir_block_add_instruction inst bb =
     (if i_op inst = IR_OP_ALLOCA \<and> bb_insts bb \<noteq> [] \<and> ir_is_terminator (i_op (last (bb_insts bb)))
      then bb\<lparr>bb_insts := butlast (bb_insts bb) @ [inst, last (bb_insts bb)]\<rparr>
      else bb\<lparr>bb_insts := bb_insts bb @ [inst]\<rparr>)"

definition ir_block_add_successor :: "nat \<Rightarrow> nat \<Rightarrow> ir_function \<Rightarrow> ir_function" where
  "ir_block_add_successor src dst f =
     (if dst \<in> set (bb_succs (block_at f src)) then f
      else let f = update_block src (\<lambda>bb. bb\<lparr>bb_succs := bb_succs bb @ [dst]\<rparr>) f
           in if src \<in> set (bb_preds (block_at f dst)) then f
              else update_block dst (\<lambda>bb. bb\<lparr>bb_preds := bb_preds bb @ [src]\<rparr>) f)"

definition clear_edges :: "ir_block \<Rightarrow> ir_block" where
  "clear_edges bb = bb\<lparr>bb_succs := [], bb_preds := []\<rparr>"

definition add_edge_to :: "nat \<Rightarrow> nat option \<Rightarrow> ir_function \<Rightarrow> ir_function" where
  "add_edge_to src dst f = (case dst of Some d \<Rightarrow> ir_block_add_successor src d f | None \<Rightarrow> f)"

definition add_block_edges :: "nat \<Rightarrow> ir_function \<Rightarrow> ir_function" where
  "add_block_edges b f =
     (case last_inst (block_at f b) of
        None \<Rightarrow> f
      | Some i \<Rightarrow>
          if i_op i = IR_OP_BR then add_edge_to b (i_true i) f
          else if i_op i = IR_OP_CONDBR
          then add_edge_to b (i_false i) (add_edge_to b (i_true i) f)
          else f)"

definition ir_recompute_cfg :: "ir_function \<Rightarrow> ir_function" where
  "ir_recompute_cfg f =
     fold add_block_edges (fn_order f) (fold (\<lambda>b. update_block b clear_edges) (fn_order f) f)"

section \<open>The builder\<close>

text \<open>The function under construction and the insertion block.\<close>

record ir_builder =
  bd_fn :: ir_function
  bd_block :: "nat option"

definition ir_builder_init :: "ir_function \<Rightarrow> ir_builder" where
  "ir_builder_init f = \<lparr>bd_fn = f, bd_block = None\<rparr>"

definition ir_builder_set_insert_block :: "nat option \<Rightarrow> ir_builder \<Rightarrow> ir_builder" where
  "ir_builder_set_insert_block b bd = bd\<lparr>bd_block := b\<rparr>"

definition ir_builder_next_reg :: "ir_type \<Rightarrow> ir_builder \<Rightarrow> ir_builder \<times> ir_value" where
  "ir_builder_next_reg ty bd =
     (bd\<lparr>bd_fn := (bd_fn bd)\<lparr>fn_next_reg := fn_next_reg (bd_fn bd) + 1\<rparr>\<rparr>,
      ir_val_reg ty (fn_next_reg (bd_fn bd)))"

definition builder_append :: "ir_inst \<Rightarrow> ir_builder \<Rightarrow> ir_builder" where
  "builder_append inst bd =
     (case bd_block bd of
        None \<Rightarrow> bd
      | Some b \<Rightarrow> bd\<lparr>bd_fn := update_block b (ir_block_add_instruction inst) (bd_fn bd)\<rparr>)"

definition builder_edge :: "nat option \<Rightarrow> ir_builder \<Rightarrow> ir_builder" where
  "builder_edge dst bd =
     (case bd_block bd of
        None \<Rightarrow> bd
      | Some b \<Rightarrow> bd\<lparr>bd_fn := add_edge_to b dst (bd_fn bd)\<rparr>)"

text \<open>Every emission returns the builder and the instruction it appended.\<close>

definition emit_result :: "ir_type \<Rightarrow> ir_inst \<Rightarrow> ir_builder \<Rightarrow> ir_builder \<times> ir_inst" where
  "emit_result ty inst bd =
     (let (bd, r) = ir_builder_next_reg ty bd; inst = inst\<lparr>i_result := Some r\<rparr>
      in (builder_append inst bd, inst))"

definition emit_plain :: "ir_inst \<Rightarrow> ir_builder \<Rightarrow> ir_builder \<times> ir_inst" where
  "emit_plain inst bd = (builder_append inst bd, inst)"

definition ir_emit_alloca :: "ir_type \<Rightarrow> string option \<Rightarrow> ir_builder \<Rightarrow> ir_builder \<times> ir_inst" where
  "ir_emit_alloca ty name =
     emit_plain ((create_instruction IR_OP_ALLOCA (ir_type_ptr (Some ty)))
       \<lparr>i_result := Some (ir_val_var (ir_type_ptr (Some ty)) name)\<rparr>)"

definition ir_emit_load :: "ir_type \<Rightarrow> ir_value option \<Rightarrow> ir_builder \<Rightarrow> ir_builder \<times> ir_inst" where
  "ir_emit_load ty ptr = emit_result ty ((create_instruction IR_OP_LOAD ty)\<lparr>i_lhs := ptr\<rparr>)"

definition ir_emit_store ::
  "ir_value option \<Rightarrow> ir_value option \<Rightarrow> ir_builder \<Rightarrow> ir_builder \<times> ir_inst" where
  "ir_emit_store v ptr =
     emit_plain ((create_instruction IR_OP_STORE ir_type_void)\<lparr>i_lhs := v, i_rhs := ptr\<rparr>)"

definition emit_const :: "ir_type \<Rightarrow> ir_value \<Rightarrow> ir_builder \<Rightarrow> ir_builder \<times> ir_inst" where
  "emit_const ty v = emit_result ty ((create_instruction IR_OP_CONST ty)\<lparr>i_lhs := Some v\<rparr>)"

definition ir_emit_const_int :: "ir_type option \<Rightarrow> u64 \<Rightarrow> ir_builder \<Rightarrow> ir_builder \<times> ir_inst" where
  "ir_emit_const_int ty v =
     (let t = (case ty of Some t \<Rightarrow> t | None \<Rightarrow> ir_type_i32)
      in emit_const t (ir_val_const_int (Some t) v))"

definition ir_emit_const_float :: "u64 \<Rightarrow> ir_builder \<Rightarrow> ir_builder \<times> ir_inst" where
  "ir_emit_const_float v = emit_const ir_type_f64 (ir_val_const_float v)"

definition ir_emit_const_bool :: "bool \<Rightarrow> ir_builder \<Rightarrow> ir_builder \<times> ir_inst" where
  "ir_emit_const_bool v = emit_const ir_type_bool (ir_val_const_bool v)"

definition ir_emit_const_char :: "char \<Rightarrow> ir_builder \<Rightarrow> ir_builder \<times> ir_inst" where
  "ir_emit_const_char v = emit_const ir_type_char (ir_val_const_char v)"

definition ir_emit_const_string :: "string option \<Rightarrow> ir_builder \<Rightarrow> ir_builder \<times> ir_inst" where
  "ir_emit_const_string s = emit_const (ir_type_ptr (Some ir_type_char)) (ir_val_const_string s)"

definition ir_emit_binary ::
  "ir_opcode \<Rightarrow> ir_type \<Rightarrow> ir_value option \<Rightarrow> ir_value option \<Rightarrow> ir_builder \<Rightarrow> ir_builder \<times> ir_inst" where
  "ir_emit_binary opc ty l r =
     emit_result ty ((create_instruction opc ty)\<lparr>i_lhs := l, i_rhs := r\<rparr>)"

definition ir_emit_unary ::
  "ir_opcode \<Rightarrow> ir_type \<Rightarrow> ir_value option \<Rightarrow> ir_builder \<Rightarrow> ir_builder \<times> ir_inst" where
  "ir_emit_unary opc ty v = emit_result ty ((create_instruction opc ty)\<lparr>i_lhs := v\<rparr>)"

definition ir_emit_call ::
  "string option \<Rightarrow> ir_type \<Rightarrow> ir_value list \<Rightarrow> ir_builder \<Rightarrow> ir_builder \<times> ir_inst" where
  "ir_emit_call callee ty args =
     (let inst = (create_instruction IR_OP_CALL ty)\<lparr>i_callee := callee, i_args := args\<rparr>
      in if ir_kind ty \<noteq> IR_TYPE_VOID then emit_result ty inst else emit_plain inst)"

definition ir_emit_print :: "ir_value option \<Rightarrow> ir_builder \<Rightarrow> ir_builder \<times> ir_inst" where
  "ir_emit_print v = emit_plain ((create_instruction IR_OP_PRINT ir_type_void)\<lparr>i_lhs := v\<rparr>)"

definition ir_emit_free :: "ir_value option \<Rightarrow> bool \<Rightarrow> ir_builder \<Rightarrow> ir_builder \<times> ir_inst" where
  "ir_emit_free ptr is_array =
     emit_plain ((create_instruction IR_OP_FREE ir_type_void)\<lparr>i_lhs := ptr, i_is_array := is_array\<rparr>)"

definition ir_emit_release ::
  "ir_value option \<Rightarrow> string option \<Rightarrow> bool \<Rightarrow> ir_builder \<Rightarrow> ir_builder \<times> ir_inst" where
  "ir_emit_release ptr cls is_array =
     emit_plain ((create_instruction IR_OP_RELEASE ir_type_void)
       \<lparr>i_lhs := ptr, i_class := cls, i_is_array := is_array\<rparr>)"

definition ir_emit_br :: "nat option \<Rightarrow> ir_builder \<Rightarrow> ir_builder \<times> ir_inst" where
  "ir_emit_br target bd =
     (let (bd, inst) = emit_plain ((create_instruction IR_OP_BR ir_type_void)\<lparr>i_true := target\<rparr>) bd
      in (builder_edge target bd, inst))"

definition ir_emit_condbr ::
  "ir_value option \<Rightarrow> nat option \<Rightarrow> nat option \<Rightarrow> ir_builder \<Rightarrow> ir_builder \<times> ir_inst" where
  "ir_emit_condbr cond t e bd =
     (let (bd, inst) = emit_plain ((create_instruction IR_OP_CONDBR ir_type_void)
            \<lparr>i_lhs := cond, i_true := t, i_false := e\<rparr>) bd
      in (builder_edge e (builder_edge t bd), inst))"

definition ir_emit_ret :: "ir_value option \<Rightarrow> ir_builder \<Rightarrow> ir_builder \<times> ir_inst" where
  "ir_emit_ret v =
     emit_plain ((create_instruction IR_OP_RET (case v of Some w \<Rightarrow> v_type w | None \<Rightarrow> ir_type_void))
       \<lparr>i_lhs := v\<rparr>)"

definition ir_emit_ret_void :: "ir_builder \<Rightarrow> ir_builder \<times> ir_inst" where
  "ir_emit_ret_void = emit_plain ((create_instruction IR_OP_RET ir_type_void)\<lparr>i_lhs := None\<rparr>)"

definition ir_emit_phi :: "ir_type \<Rightarrow> ir_builder \<Rightarrow> ir_builder \<times> ir_inst" where
  "ir_emit_phi ty = emit_result ty (create_instruction IR_OP_PHI ty)"

lemmas ir_emit_defs = ir_emit_alloca_def ir_emit_load_def ir_emit_store_def emit_const_def
  ir_emit_const_int_def ir_emit_const_float_def ir_emit_const_bool_def ir_emit_const_char_def
  ir_emit_const_string_def ir_emit_binary_def ir_emit_unary_def ir_emit_call_def
  ir_emit_print_def ir_emit_free_def ir_emit_release_def ir_emit_br_def ir_emit_condbr_def
  ir_emit_ret_def ir_emit_ret_void_def ir_emit_phi_def

section \<open>Type equality\<close>

text \<open>The relation the function decides: equal up to pointers without an element type.\<close>

inductive same_type :: "ir_type \<Rightarrow> ir_type \<Rightarrow> bool" where
  same: "same_type t t"
| opaque_l: "same_type (Ty_Ptr None) (Ty_Ptr e)"
| opaque_r: "same_type (Ty_Ptr e) (Ty_Ptr None)"
| ptr: "same_type a b \<Longrightarrow> same_type (Ty_Ptr (Some a)) (Ty_Ptr (Some b))"
| array: "same_type a b \<Longrightarrow> same_type (Ty_Array (Some a) s) (Ty_Array (Some b) s)"

lemma ir_type_equals_refl [simp]: "ir_type_equals t t"
proof (induction t)
  case (Ty_Ptr e)
  then show ?case by (cases e) auto
next
  case (Ty_Array e s)
  then show ?case by (cases e) auto
qed auto

lemma ir_type_equals_kind: "ir_type_equals a b \<Longrightarrow> ir_kind a = ir_kind b"
  by (induction a b rule: ir_type_equals.induct) (auto split: ir_type.splits)

lemma ir_type_equals_same: "ir_type_equals a b \<Longrightarrow> same_type a b"
proof (induction a b rule: ir_type_equals.induct)
  case (1 b)
  then show ?case by (cases b) (auto intro: same_type.intros)
next
  case (2 e b)
  then show ?case by (cases b) (auto intro: same_type.intros split: option.splits)
next
  case (6 e s b)
  then show ?case by (cases b) (auto intro: same_type.intros split: option.splits)
next
  case (5 s b)
  then show ?case by (cases b) (auto intro: same_type.intros)
qed (auto intro: same_type.intros split: ir_type.splits elim: ir_kind.elims)

lemma same_type_equals: "same_type a b \<Longrightarrow> ir_type_equals a b"
proof (induction rule: same_type.induct)
  case (opaque_r e)
  then show ?case by (cases e) auto
qed auto

lemma ir_type_equals_sym: "ir_type_equals a b \<longleftrightarrow> ir_type_equals b a"
proof -
  have "same_type a b \<Longrightarrow> same_type b a" for a b
    by (induction rule: same_type.induct) (auto intro: same_type.intros)
  then show ?thesis using ir_type_equals_same same_type_equals by blast
qed

end
