(* ===== verification/Ir_Cfg.thy ===== *)
theory Ir_Cfg
  imports Ir "HOL-Library.Multiset"
begin

text \<open>
  What the construction functions of \<open>src/ir/ir.c\<close> promise: the control flow edges that
  \<open>ir_recompute_cfg\<close> leaves are those of the terminators, every function the builder
  produces is well formed, labels tell blocks apart, and type equality is structural
  equality up to opaque pointers.
\<close>

section \<open>Block updates\<close>

lemma length_update_block [simp]: "length (fn_heap (update_block b g f)) = length (fn_heap f)"
  by (simp add: update_block_def)

lemma block_at_update_block:
  "block_at (update_block b g f) x =
     (if x = b \<and> b < length (fn_heap f) then g (block_at f b) else block_at f x)"
  by (auto simp: update_block_def block_at_def)

lemma update_block_keeps [simp, cfg_simps]:
  "fn_order (update_block b g f) = fn_order f"
  "fn_entry (update_block b g f) = fn_entry f"
  "fn_block_count (update_block b g f) = fn_block_count f"
  "fn_next_reg (update_block b g f) = fn_next_reg f"
  "fn_next_block (update_block b g f) = fn_next_block f"
  "fn_name (update_block b g f) = fn_name f"
  "fn_params (update_block b g f) = fn_params f"
  "fn_return_type (update_block b g f) = fn_return_type f"
  by (simp_all add: update_block_def)

abbreviation succs :: "ir_function \<Rightarrow> nat \<Rightarrow> nat list" where
  "succs f b \<equiv> bb_succs (block_at f b)"

abbreviation preds :: "ir_function \<Rightarrow> nat \<Rightarrow> nat list" where
  "preds f b \<equiv> bb_preds (block_at f b)"

abbreviation insts :: "ir_function \<Rightarrow> nat \<Rightarrow> ir_inst list" where
  "insts f b \<equiv> bb_insts (block_at f b)"

text \<open>Everything of a function but the edges.\<close>

definition same_but_edges :: "ir_function \<Rightarrow> ir_function \<Rightarrow> bool" where
  "same_but_edges f g \<longleftrightarrow>
     length (fn_heap g) = length (fn_heap f) \<and> fn_order g = fn_order f \<and> fn_entry g = fn_entry f \<and>
     fn_block_count g = fn_block_count f \<and> fn_next_reg g = fn_next_reg f \<and>
     fn_next_block g = fn_next_block f \<and> fn_name g = fn_name f \<and> fn_params g = fn_params f \<and>
     fn_return_type g = fn_return_type f \<and>
     (\<forall>b. clear_edges (block_at g b) = clear_edges (block_at f b))"

lemma same_but_edges_refl [simp, intro]: "same_but_edges f f"
  by (simp add: same_but_edges_def)

lemma same_but_edges_trans: "same_but_edges f g \<Longrightarrow> same_but_edges g h \<Longrightarrow> same_but_edges f h"
  by (simp add: same_but_edges_def)

lemma same_but_edges_update:
  "(\<And>bb. clear_edges (g bb) = clear_edges bb) \<Longrightarrow> same_but_edges f (update_block b g f)"
  by (simp add: same_but_edges_def block_at_update_block)

lemma same_but_edges_fold:
  "(\<And>x f. same_but_edges f (g x f)) \<Longrightarrow> same_but_edges f (fold g xs f)"
  by (induction xs arbitrary: f) (auto intro: same_but_edges_trans)

lemma same_but_edges_block:
  assumes "same_but_edges f g"
  shows "insts g b = insts f b" "bb_name (block_at g b) = bb_name (block_at f b)"
    "bb_id (block_at g b) = bb_id (block_at f b)"
proof -
  have "clear_edges (block_at g b) = clear_edges (block_at f b)"
    using assms by (simp add: same_but_edges_def)
  then show "insts g b = insts f b" "bb_name (block_at g b) = bb_name (block_at f b)"
    "bb_id (block_at g b) = bb_id (block_at f b)"
    by (auto simp: clear_edges_def dest: arg_cong [of _ _ bb_insts] arg_cong [of _ _ bb_name]
          arg_cong [of _ _ bb_id])
qed

lemma same_but_edges_length: "same_but_edges f g \<Longrightarrow> length (fn_heap g) = length (fn_heap f)"
  by (simp add: same_but_edges_def)

section \<open>Adding one edge\<close>

lemma add_successor_same_but_edges: "same_but_edges f (ir_block_add_successor a d f)"
  unfolding ir_block_add_successor_def Let_def
  by (auto intro!: same_but_edges_trans [OF same_but_edges_update same_but_edges_update]
        same_but_edges_update simp: clear_edges_def)

lemma add_successor_succs:
  assumes "a < length (fn_heap f)"
  shows "succs (ir_block_add_successor a d f) x =
    (if x = a \<and> d \<notin> set (succs f a) then succs f a @ [d] else succs f x)"
  using assms by (auto simp: ir_block_add_successor_def Let_def block_at_update_block)

lemma add_successor_preds:
  assumes "a < length (fn_heap f)" and "y < length (fn_heap f)"
  shows "preds (ir_block_add_successor a d f) y =
    (if y = d \<and> d \<notin> set (succs f a) \<and> a \<notin> set (preds f d) then preds f d @ [a] else preds f y)"
  using assms by (auto simp: ir_block_add_successor_def Let_def block_at_update_block)

definition dedup_onto :: "nat list \<Rightarrow> nat list \<Rightarrow> nat list" where
  "dedup_onto ss ts = foldl (\<lambda>ss d. if d \<in> set ss then ss else ss @ [d]) ss ts"

lemma set_dedup_onto: "set (dedup_onto ss ts) = set ss \<union> set ts"
  by (induction ts arbitrary: ss) (auto simp: dedup_onto_def)

lemma distinct_dedup_onto: "distinct ss \<Longrightarrow> distinct (dedup_onto ss ts)"
  by (induction ts arbitrary: ss) (auto simp: dedup_onto_def)

lemma add_edges_succs:
  assumes "a < length (fn_heap f)"
  shows "succs (fold (ir_block_add_successor a) ts f) x =
    (if x = a then dedup_onto (succs f a) ts else succs f x)"
  using assms
proof (induction ts arbitrary: f)
  case Nil
  then show ?case by (simp add: dedup_onto_def)
next
  case (Cons d ts)
  let ?g = "ir_block_add_successor a d f"
  have len: "length (fn_heap ?g) = length (fn_heap f)"
    using add_successor_same_but_edges by (rule same_but_edges_length)
  have "succs (fold (ir_block_add_successor a) (d # ts) f) x =
      (if x = a then dedup_onto (succs ?g a) ts else succs ?g x)"
    using Cons.IH [of ?g] Cons.prems len by simp
  then show ?case using Cons.prems by (simp add: add_successor_succs dedup_onto_def)
qed

lemma add_edges_preds:
  assumes "a < length (fn_heap f)" and "y < length (fn_heap f)"
  shows "preds (fold (ir_block_add_successor a) ts f) y =
    (if y \<in> set ts \<and> y \<notin> set (succs f a) \<and> a \<notin> set (preds f y) then preds f y @ [a] else preds f y)"
  using assms
proof (induction ts arbitrary: f)
  case Nil
  then show ?case by simp
next
  case (Cons d ts)
  let ?g = "ir_block_add_successor a d f"
  have len: "length (fn_heap ?g) = length (fn_heap f)"
    using add_successor_same_but_edges by (rule same_but_edges_length)
  have "preds (fold (ir_block_add_successor a) (d # ts) f) y =
      (if y \<in> set ts \<and> y \<notin> set (succs ?g a) \<and> a \<notin> set (preds ?g y) then preds ?g y @ [a]
       else preds ?g y)"
    using Cons.IH [of ?g] Cons.prems len by simp
  then show ?case using Cons.prems by (auto simp: add_successor_succs add_successor_preds)
qed

lemma add_edges_same_but_edges: "same_but_edges f (fold (ir_block_add_successor a) ts f)"
  by (rule same_but_edges_fold) (rule add_successor_same_but_edges)

section \<open>Recomputing all edges\<close>

text \<open>The blocks an instruction, and the last instruction of a block, can jump to.\<close>

definition inst_targets :: "ir_inst \<Rightarrow> nat list" where
  "inst_targets i =
     (if i_op i = IR_OP_BR then (case i_true i of Some t \<Rightarrow> [t] | None \<Rightarrow> [])
      else if i_op i = IR_OP_CONDBR
      then (case i_true i of Some t \<Rightarrow> [t] | None \<Rightarrow> []) @ (case i_false i of Some t \<Rightarrow> [t] | None \<Rightarrow> [])
      else [])"

definition block_targets :: "ir_function \<Rightarrow> nat \<Rightarrow> nat list" where
  "block_targets f b = (case last_inst (block_at f b) of None \<Rightarrow> [] | Some i \<Rightarrow> inst_targets i)"

lemma add_edge_to_fold:
  "add_edge_to a d f = fold (ir_block_add_successor a) (case d of Some t \<Rightarrow> [t] | None \<Rightarrow> []) f"
  by (simp add: add_edge_to_def split: option.split)

lemma add_block_edges_fold:
  "add_block_edges b f = fold (ir_block_add_successor b) (block_targets f b) f"
  by (simp add: add_block_edges_def block_targets_def inst_targets_def add_edge_to_fold split: option.split)

lemma block_targets_same:
  "same_but_edges f g \<Longrightarrow> block_targets g b = block_targets f b"
  by (simp add: block_targets_def last_inst_def same_but_edges_block)

lemma clear_all_edges:
  assumes "set bs \<subseteq> {..<length (fn_heap f)}"
  shows "block_at (fold (\<lambda>b. update_block b clear_edges) bs f) x =
    (if x \<in> set bs then clear_edges (block_at f x) else block_at f x)"
  using assms
  by (induction bs arbitrary: f) (auto simp: block_at_update_block clear_edges_def)

lemma add_all_edges:
  assumes "set bs \<subseteq> {..<length (fn_heap f)}" and "distinct bs"
    and "\<forall>b \<in> set bs. succs f b = []"
    and "y < length (fn_heap f)" and "set (preds f y) \<inter> set bs = {}"
  shows "same_but_edges f (fold add_block_edges bs f) \<and>
    (\<forall>x. succs (fold add_block_edges bs f) x =
       (if x \<in> set bs then dedup_onto [] (block_targets f x) else succs f x)) \<and>
    preds (fold add_block_edges bs f) y = preds f y @ filter (\<lambda>a. y \<in> set (block_targets f a)) bs"
  using assms
proof (induction bs arbitrary: f)
  case Nil
  then show ?case by simp
next
  case (Cons a bs)
  define g where "g = fold (ir_block_add_successor a) (block_targets f a) f"
  have sg: "same_but_edges f g" unfolding g_def by (rule add_edges_same_but_edges)
  have len: "length (fn_heap g) = length (fn_heap f)" using sg by (rule same_but_edges_length)
  have t: "block_targets g b = block_targets f b" for b using sg by (rule block_targets_same)
  have sc: "succs g x = (if x = a then dedup_onto [] (block_targets f a) else succs f x)" for x
    unfolding g_def using Cons.prems by (simp add: add_edges_succs)
  have pr: "preds g y = preds f y @ (if y \<in> set (block_targets f a) then [a] else [])"
    unfolding g_def using Cons.prems by (auto simp: add_edges_preds)
  have st: "fold add_block_edges (a # bs) f = fold add_block_edges bs g"
    by (simp add: add_block_edges_fold g_def)
  have "same_but_edges g (fold add_block_edges bs g) \<and>
    (\<forall>x. succs (fold add_block_edges bs g) x =
       (if x \<in> set bs then dedup_onto [] (block_targets g x) else succs g x)) \<and>
    preds (fold add_block_edges bs g) y = preds g y @ filter (\<lambda>a. y \<in> set (block_targets g a)) bs"
  proof (rule Cons.IH)
    show "\<forall>b\<in>set bs. succs g b = []" using Cons.prems sc by auto
    show "set (preds g y) \<inter> set bs = {}" using Cons.prems pr by auto
  qed (use Cons.prems len in auto)
  then show ?case unfolding st using same_but_edges_trans [OF sg] Cons.prems sc pr t by auto
qed

lemma recompute_cfg_spec:
  assumes "distinct (fn_order f)" and "set (fn_order f) \<subseteq> {..<length (fn_heap f)}"
  shows "same_but_edges f (ir_recompute_cfg f) \<and>
    (\<forall>b \<in> set (fn_order f).
       succs (ir_recompute_cfg f) b = dedup_onto [] (block_targets f b) \<and>
       preds (ir_recompute_cfg f) b = filter (\<lambda>a. b \<in> set (block_targets f a)) (fn_order f))"
proof -
  define g where "g = fold (\<lambda>b. update_block b clear_edges) (fn_order f) f"
  have sg: "same_but_edges f g" unfolding g_def
    by (rule same_but_edges_fold) (rule same_but_edges_update, simp add: clear_edges_def)
  have len: "length (fn_heap g) = length (fn_heap f)" using sg by (rule same_but_edges_length)
  have ord: "fn_order g = fn_order f" using sg by (simp add: same_but_edges_def)
  have t: "block_targets g b = block_targets f b" for b using sg by (rule block_targets_same)
  have at: "block_at g x = (if x \<in> set (fn_order f) then clear_edges (block_at f x) else block_at f x)" for x
    unfolding g_def using clear_all_edges assms(2) by blast
  have r: "ir_recompute_cfg f = fold add_block_edges (fn_order f) g"
    by (simp add: ir_recompute_cfg_def g_def)
  have *: "same_but_edges g (ir_recompute_cfg f) \<and>
      (\<forall>x. succs (ir_recompute_cfg f) x =
         (if x \<in> set (fn_order f) then dedup_onto [] (block_targets g x) else succs g x)) \<and>
      preds (ir_recompute_cfg f) y = preds g y @ filter (\<lambda>a. y \<in> set (block_targets g a)) (fn_order f)"
    if "y \<in> set (fn_order f)" for y
    unfolding r using that assms len at by (intro add_all_edges) (auto simp: clear_edges_def)
  show ?thesis
  proof (cases "fn_order f = []")
    case True
    then show ?thesis using r sg by simp
  next
    case False
    then obtain y where "y \<in> set (fn_order f)" by (cases "fn_order f") auto
    then have "same_but_edges f (ir_recompute_cfg f)" using * sg same_but_edges_trans by blast
    moreover have "succs (ir_recompute_cfg f) b = dedup_onto [] (block_targets f b) \<and>
       preds (ir_recompute_cfg f) b = filter (\<lambda>a. b \<in> set (block_targets f a)) (fn_order f)"
      if "b \<in> set (fn_order f)" for b
      using * [OF that] that at [of b] t by (simp add: clear_edges_def)
    ultimately show ?thesis by blast
  qed
qed

section \<open>Functions under construction\<close>

text \<open>The register an instruction defines, and how often a function defines a register.\<close>

definition reg_result :: "ir_inst \<Rightarrow> nat option" where
  "reg_result i =
     (case i_result i of
        Some v \<Rightarrow> if v_kind v = IR_VAL_REG then Some (v_id v) else None
      | None \<Rightarrow> None)"

definition reg_defs :: "ir_function \<Rightarrow> nat \<Rightarrow> nat" where
  "reg_defs f r =
     sum_list (map (\<lambda>bb. count_if (\<lambda>i. reg_result i = Some r) (bb_insts bb)) (fn_heap f))"

text \<open>
  What holds of a function while the builder makes it: the blocks are numbered in order and the
  first one is the entry, a block is labelled with its number, every register is defined at most
  once, and the edges of a block are the targets of its instructions, recorded at both ends.
\<close>

definition edges_ok :: "ir_function \<Rightarrow> bool" where
  "edges_ok f \<longleftrightarrow>
     (\<forall>b < length (fn_heap f). bb_id (block_at f b) = b \<and>
        (\<exists>p. bb_name (block_at f b) = block_label p b) \<and>
        distinct (succs f b) \<and> distinct (preds f b) \<and>
        set (succs f b) \<subseteq> {..<length (fn_heap f)} \<and> set (preds f b) \<subseteq> {..<length (fn_heap f)} \<and>
        set (succs f b) = (\<Union>i \<in> set (insts f b). set (inst_targets i))) \<and>
     (\<forall>a < length (fn_heap f). \<forall>b < length (fn_heap f). b \<in> set (succs f a) \<longleftrightarrow> a \<in> set (preds f b))"

definition built_ok :: "ir_function \<Rightarrow> bool" where
  "built_ok f \<longleftrightarrow>
     fn_order f = [0..<length (fn_heap f)] \<and>
     fn_entry f = (if fn_heap f = [] then None else Some 0) \<and>
     fn_block_count f = length (fn_heap f) \<and> fn_next_block f = length (fn_heap f) \<and>
     edges_ok f \<and>
     (\<forall>r. reg_defs f r \<le> (if r < fn_next_reg f then 1 else 0))"

lemma edges_ok_heap: "fn_heap g = fn_heap f \<Longrightarrow> edges_ok g = edges_ok f"
  by (simp only: edges_ok_def block_at_def)

lemma reg_defs_update_block:
  assumes "b < length (fn_heap f)"
    and "\<And>bb. count_if (\<lambda>i. reg_result i = Some r) (bb_insts (g bb)) =
           count_if (\<lambda>i. reg_result i = Some r) (bb_insts bb) + k"
  shows "reg_defs (update_block b g f) r = reg_defs f r + k"
proof -
  let ?c = "\<lambda>bb. count_if (\<lambda>i. reg_result i = Some r) (bb_insts bb)"
  have le: "?c (fn_heap f ! b) \<le> sum_list (map ?c (fn_heap f))"
    using assms(1) by (intro member_le_sum_list) auto
  have "sum_list ((map ?c (fn_heap f))[b := ?c (fn_heap f ! b) + k]) = sum_list (map ?c (fn_heap f)) + k"
    using assms(1) le by (subst sum_list_update) auto
  then show ?thesis using assms by (simp add: reg_defs_def update_block_def map_update)
qed

lemma reg_defs_same: "same_but_edges f g \<Longrightarrow> reg_defs g r = reg_defs f r"
proof -
  assume s: "same_but_edges f g"
  have "map (\<lambda>bb. count_if (\<lambda>i. reg_result i = Some r) (bb_insts bb)) (fn_heap g) =
        map (\<lambda>bb. count_if (\<lambda>i. reg_result i = Some r) (bb_insts bb)) (fn_heap f)"
    using same_but_edges_length [OF s] same_but_edges_block(1) [OF s]
    by (intro nth_equalityI) (auto simp: block_at_def)
  then show ?thesis by (simp add: reg_defs_def)
qed

lemma add_instruction_edges [simp]:
  "bb_succs (ir_block_add_instruction i bb) = bb_succs bb"
  "bb_preds (ir_block_add_instruction i bb) = bb_preds bb"
  "bb_id (ir_block_add_instruction i bb) = bb_id bb"
  "bb_name (ir_block_add_instruction i bb) = bb_name bb"
  by (simp_all add: ir_block_add_instruction_def)

lemma add_instruction_set [simp]:
  "set (bb_insts (ir_block_add_instruction i bb)) = insert i (set (bb_insts bb))"
proof (cases "bb_insts bb = []")
  case False
  then have "set (bb_insts bb) = insert (last (bb_insts bb)) (set (butlast (bb_insts bb)))"
    using append_butlast_last_id [of "bb_insts bb"]
    by (metis Un_insert_right insert_commute list.simps(15) set_append sup_bot.right_neutral empty_set)
  then show ?thesis by (auto simp: ir_block_add_instruction_def)
qed (simp add: ir_block_add_instruction_def)

lemma add_instruction_count [simp]:
  "count_if P (bb_insts (ir_block_add_instruction i bb)) = count_if P (bb_insts bb) + (if P i then 1 else 0)"
proof (cases "bb_insts bb = []")
  case False
  then have "count_if P (bb_insts bb) = count_if P (butlast (bb_insts bb)) + count_if P [last (bb_insts bb)]"
    using append_butlast_last_id [of "bb_insts bb"] by (metis count_if_append)
  then show ?thesis by (auto simp: ir_block_add_instruction_def)
qed (simp add: ir_block_add_instruction_def)

text \<open>Every emission appends an instruction, counts its register and records its edges.\<close>

definition emitted :: "nat \<Rightarrow> ir_inst \<Rightarrow> ir_function \<Rightarrow> ir_function" where
  "emitted b i f = fold (ir_block_add_successor b) (inst_targets i) (update_block b (ir_block_add_instruction i) f)"

lemma block_at_next_reg [simp]: "block_at (f\<lparr>fn_next_reg := n\<rparr>) b = block_at f b"
  by (simp add: block_at_def)

lemma emitted_ok:
  assumes ok: "built_ok f" and b: "b < length (fn_heap f)"
    and t: "set (inst_targets i) \<subseteq> {..<length (fn_heap f)}"
    and r: "(reg_result i = None \<and> n = fn_next_reg f) \<or>
            (reg_result i = Some (fn_next_reg f) \<and> n = fn_next_reg f + 1)"
  shows "built_ok (emitted b i (f\<lparr>fn_next_reg := n\<rparr>))"
proof -
  define f1 where "f1 = f\<lparr>fn_next_reg := n\<rparr>"
  define g where "g = update_block b (ir_block_add_instruction i) f1"
  define h where "h = emitted b i f1"
  have h: "h = fold (ir_block_add_successor b) (inst_targets i) g" by (simp add: h_def g_def emitted_def)
  have lg: "length (fn_heap g) = length (fn_heap f)" by (simp add: g_def f1_def)
  have s: "same_but_edges g h" unfolding h by (rule add_edges_same_but_edges)
  have lh: "length (fn_heap h) = length (fn_heap f)" using s lg same_but_edges_length by simp
  have g_at: "succs g x = succs f x" "preds g x = preds f x" "bb_id (block_at g x) = bb_id (block_at f x)"
    "bb_name (block_at g x) = bb_name (block_at f x)"
    "set (insts g x) = (if x = b then insert i (set (insts f b)) else set (insts f x))" for x
    using b by (auto simp: g_def f1_def block_at_update_block)
  have h_at: "bb_id (block_at h x) = bb_id (block_at f x)"
    "bb_name (block_at h x) = bb_name (block_at f x)"
    "set (insts h x) = (if x = b then insert i (set (insts f b)) else set (insts f x))" for x
    using same_but_edges_block [OF s] g_at by auto
  have sc: "succs h x = (if x = b then dedup_onto (succs f b) (inst_targets i) else succs f x)" for x
    unfolding h using b lg g_at by (simp add: add_edges_succs)
  have pr: "preds h y = (if y \<in> set (inst_targets i) \<and> y \<notin> set (succs f b) \<and> b \<notin> set (preds f y)
       then preds f y @ [b] else preds f y)" if "y < length (fn_heap f)" for y
    unfolding h using b lg g_at that by (simp add: add_edges_preds)
  have fields: "fn_order h = fn_order f" "fn_entry h = fn_entry f" "fn_block_count h = fn_block_count f"
    "fn_next_block h = fn_next_block f" "fn_next_reg h = n"
    using s by (auto simp: same_but_edges_def g_def f1_def)
  have eh: "(fn_heap h = []) = (fn_heap f = [])" using lh by (metis length_0_conv)
  have defs: "reg_defs h x = reg_defs f x + (if reg_result i = Some x then 1 else 0)" for x
  proof -
    have "reg_defs h x = reg_defs g x" using s by (rule reg_defs_same)
    also have "\<dots> = reg_defs f1 x + (if reg_result i = Some x then 1 else 0)"
      unfolding g_def using b by (intro reg_defs_update_block) (auto simp: f1_def)
    also have "reg_defs f1 x = reg_defs f x" by (simp add: reg_defs_def f1_def)
    finally show ?thesis .
  qed
  have blk: "bb_id (block_at f x) = x" "distinct (succs f x)" "distinct (preds f x)"
     "set (succs f x) \<subseteq> {..<length (fn_heap f)}" "set (preds f x) \<subseteq> {..<length (fn_heap f)}"
     "set (succs f x) = (\<Union>i \<in> set (insts f x). set (inst_targets i))"
     "\<exists>p. bb_name (block_at f x) = block_label p x" if "x < length (fn_heap f)" for x
    using ok that unfolding built_ok_def edges_ok_def by blast+
  have edge: "y \<in> set (succs f x) \<longleftrightarrow> x \<in> set (preds f y)"
    if "x < length (fn_heap f)" "y < length (fn_heap f)" for x y
    using ok that unfolding built_ok_def edges_ok_def by blast
  have rd: "reg_defs f x \<le> (if x < fn_next_reg f then 1 else 0)" for x
    using ok unfolding built_ok_def by blast
  have "edges_ok h" unfolding edges_ok_def lh
  proof (intro conjI allI impI)
    fix x assume x: "x < length (fn_heap f)"
    show "bb_id (block_at h x) = x" using blk x h_at by simp
    show "\<exists>p. bb_name (block_at h x) = block_label p x" using blk x h_at by simp
    show "distinct (succs h x)" using blk x b by (simp add: sc distinct_dedup_onto)
    show "distinct (preds h x)" using blk x by (simp add: pr)
    show "set (succs h x) \<subseteq> {..<length (fn_heap f)}"
      using blk(4) x b t by (auto simp: sc set_dedup_onto split: if_splits)
    show "set (preds h x) \<subseteq> {..<length (fn_heap f)}" using blk(5) x b by (auto simp: pr)
    show "set (succs h x) = (\<Union>i \<in> set (insts h x). set (inst_targets i))"
      using blk(6) [OF x] by (cases "x = b") (simp_all add: sc h_at set_dedup_onto Un_commute)
    fix y assume y: "y < length (fn_heap f)"
    show "y \<in> set (succs h x) \<longleftrightarrow> x \<in> set (preds h y)"
      using edge [OF x y] edge [OF b y] y by (auto simp: sc pr set_dedup_onto)
  qed
  moreover have "reg_defs h x \<le> (if x < n then 1 else 0)" for x
    using rd [of x] r defs [of x] by (auto split: if_splits)
  ultimately have "built_ok h" using ok fields eh lh by (simp add: built_ok_def)
  then show ?thesis by (simp add: h_def f1_def)
qed

definition builder_ok :: "ir_builder \<Rightarrow> bool" where
  "builder_ok bd \<longleftrightarrow> built_ok (bd_fn bd) \<and>
     (case bd_block bd of Some b \<Rightarrow> b < length (fn_heap (bd_fn bd)) | None \<Rightarrow> True)"

lemma length_emitted [simp]: "length (fn_heap (emitted b i f)) = length (fn_heap f)"
  unfolding emitted_def
  using same_but_edges_length [OF add_edges_same_but_edges
      [of "update_block b (ir_block_add_instruction i) f" b "inst_targets i"]] by simp

lemma built_ok_next_reg:
  assumes "built_ok f" and "fn_next_reg f \<le> n"
  shows "built_ok (f\<lparr>fn_next_reg := n\<rparr>)"
proof -
  have d: "reg_defs (f\<lparr>fn_next_reg := n\<rparr>) r = reg_defs f r" for r by (simp add: reg_defs_def)
  have "reg_defs f r \<le> (if r < n then 1 else 0)" for r
  proof -
    have "reg_defs f r \<le> (if r < fn_next_reg f then 1 else 0)"
      using assms(1) unfolding built_ok_def by blast
    then show ?thesis using assms(2) by (simp split: if_splits)
  qed
  with assms(1) d edges_ok_heap [of "f\<lparr>fn_next_reg := n\<rparr>" f] show ?thesis
    unfolding built_ok_def by simp
qed

lemma append_builder_ok:
  assumes ok: "builder_ok bd" and t: "inst_targets i = []"
    and r: "(reg_result i = None \<and> n = fn_next_reg (bd_fn bd)) \<or>
            (reg_result i = Some (fn_next_reg (bd_fn bd)) \<and> n = fn_next_reg (bd_fn bd) + 1)"
  shows "builder_ok (builder_append i (bd\<lparr>bd_fn := (bd_fn bd)\<lparr>fn_next_reg := n\<rparr>\<rparr>))"
proof (cases "bd_block bd")
  case None
  then show ?thesis using ok r built_ok_next_reg [of "bd_fn bd" n]
    by (auto simp: builder_ok_def builder_append_def)
next
  case (Some b)
  then have "built_ok (emitted b i ((bd_fn bd)\<lparr>fn_next_reg := n\<rparr>))"
    using ok r t by (intro emitted_ok) (auto simp: builder_ok_def)
  then show ?thesis using ok Some t by (simp add: builder_ok_def builder_append_def emitted_def)
qed

lemma emit_plain_ok:
  assumes "builder_ok bd" and "reg_result i = None" and "inst_targets i = []"
  shows "builder_ok (fst (emit_plain i bd))"
  using append_builder_ok [of bd i "fn_next_reg (bd_fn bd)"] assms by (simp add: emit_plain_def)

lemma inst_targets_result [simp]: "inst_targets (i\<lparr>i_result := r\<rparr>) = inst_targets i"
  by (auto simp: inst_targets_def)

lemma emit_result_ok:
  assumes "builder_ok bd" and "inst_targets i = []"
  shows "builder_ok (fst (emit_result ty i bd))"
  using append_builder_ok [of bd "i\<lparr>i_result := Some (ir_val_reg ty (fn_next_reg (bd_fn bd)))\<rparr>"
      "fn_next_reg (bd_fn bd) + 1"] assms
  by (simp add: emit_result_def ir_builder_next_reg_def reg_result_def ir_val_reg_def Let_def)

lemma branch_ok:
  assumes ok: "builder_ok bd" and r: "reg_result i = None"
    and t: "set (inst_targets i) \<subseteq> {..<length (fn_heap (bd_fn bd))}"
  shows "builder_ok (case bd_block bd of None \<Rightarrow> bd | Some b \<Rightarrow> bd\<lparr>bd_fn := emitted b i (bd_fn bd)\<rparr>)"
proof (cases "bd_block bd")
  case None
  then show ?thesis using ok by simp
next
  case (Some b)
  then have "built_ok (emitted b i ((bd_fn bd)\<lparr>fn_next_reg := fn_next_reg (bd_fn bd)\<rparr>))"
    using ok r t by (intro emitted_ok) (auto simp: builder_ok_def)
  then show ?thesis using ok Some by (simp add: builder_ok_def)
qed

lemma emit_br_emitted:
  "fst (ir_emit_br t bd) = (case bd_block bd of None \<Rightarrow> bd
     | Some b \<Rightarrow> bd\<lparr>bd_fn := emitted b ((create_instruction IR_OP_BR ir_type_void)\<lparr>i_true := t\<rparr>) (bd_fn bd)\<rparr>)"
  by (simp add: ir_emit_br_def emit_plain_def builder_append_def builder_edge_def emitted_def
      inst_targets_def create_instruction_def add_edge_to_fold split: option.split)

lemma emit_condbr_emitted:
  "fst (ir_emit_condbr c t e bd) = (case bd_block bd of None \<Rightarrow> bd
     | Some b \<Rightarrow> bd\<lparr>bd_fn := emitted b ((create_instruction IR_OP_CONDBR ir_type_void)
          \<lparr>i_lhs := c, i_true := t, i_false := e\<rparr>) (bd_fn bd)\<rparr>)"
  by (simp add: ir_emit_condbr_def emit_plain_def builder_append_def builder_edge_def emitted_def
      inst_targets_def create_instruction_def add_edge_to_fold split: option.split)

lemma create_block_ok:
  assumes "built_ok f"
  shows "built_ok (fst (ir_block_create f p))"
proof -
  define g where "g = fst (ir_block_create f p)"
  have l: "length (fn_heap g) = Suc (length (fn_heap f))" and gh: "fn_heap g \<noteq> []"
    by (simp_all add: g_def ir_block_create_def Let_def)
  have old: "block_at g b = block_at f b" if "b < length (fn_heap f)" for b
    using that by (simp add: g_def ir_block_create_def Let_def block_at_def nth_append)
  have new: "succs g (length (fn_heap f)) = []" "preds g (length (fn_heap f)) = []"
    "insts g (length (fn_heap f)) = []" "bb_id (block_at g (length (fn_heap f))) = fn_next_block f"
    "bb_name (block_at g (length (fn_heap f))) = block_label p (fn_next_block f)"
    by (simp_all add: g_def ir_block_create_def Let_def block_at_def)
  have r: "reg_defs g r = reg_defs f r" for r
    by (simp add: g_def ir_block_create_def Let_def reg_defs_def)
  have o: "fn_order f = [0..<length (fn_heap f)]" "fn_next_block f = length (fn_heap f)"
    "fn_block_count f = length (fn_heap f)" "fn_entry f = (if fn_heap f = [] then None else Some 0)"
    using assms by (auto simp: built_ok_def)
  have fields: "fn_order g = [0..<length (fn_heap g)]" "fn_next_block g = length (fn_heap g)"
    "fn_block_count g = length (fn_heap g)" "fn_entry g = Some 0" "fn_next_reg g = fn_next_reg f"
    using o by (simp_all add: g_def ir_block_create_def Let_def)
  have blk: "bb_id (block_at f x) = x" "distinct (succs f x)" "distinct (preds f x)"
     "set (succs f x) \<subseteq> {..<length (fn_heap f)}" "set (preds f x) \<subseteq> {..<length (fn_heap f)}"
     "set (succs f x) = (\<Union>i \<in> set (insts f x). set (inst_targets i))"
     "\<exists>p. bb_name (block_at f x) = block_label p x" if "x < length (fn_heap f)" for x
    using assms that unfolding built_ok_def edges_ok_def by blast+
  have edge: "y \<in> set (succs f x) \<longleftrightarrow> x \<in> set (preds f y)"
    if "x < length (fn_heap f)" "y < length (fn_heap f)" for x y
    using assms that unfolding built_ok_def edges_ok_def by blast
  have "edges_ok g" unfolding edges_ok_def
  proof (intro conjI allI impI)
    fix b assume "b < length (fn_heap g)"
    then consider (old) "b < length (fn_heap f)" | (new) "b = length (fn_heap f)" using l by linarith
    note cs = this
    show "bb_id (block_at g b) = b" by (cases rule: cs) (simp_all add: old new o blk(1))
    show "\<exists>p. bb_name (block_at g b) = block_label p b"
      using blk(7) new(5) o by (cases rule: cs) (auto simp: old)
    show "distinct (succs g b)" by (cases rule: cs) (simp_all add: old new blk(2))
    show "distinct (preds g b)" by (cases rule: cs) (simp_all add: old new blk(3))
    show "set (succs g b) = (\<Union>i \<in> set (insts g b). set (inst_targets i))"
      by (cases rule: cs) (simp_all add: old new blk(6) [symmetric])
    show "set (succs g b) \<subseteq> {..<length (fn_heap g)}"
      using blk(4) l by (cases rule: cs) (force simp: old new)+
    show "set (preds g b) \<subseteq> {..<length (fn_heap g)}"
      using blk(5) l by (cases rule: cs) (force simp: old new)+
    fix a assume a: "a < length (fn_heap g)"
    show "a \<in> set (succs g b) \<longleftrightarrow> b \<in> set (preds g a)"
    proof (cases "a < length (fn_heap f)")
      case True
      then show ?thesis using edge [of b a] blk(5) [of a] by (cases rule: cs) (auto simp: old new)
    next
      case False
      then have "a = length (fn_heap f)" using a l by simp
      then show ?thesis using blk(4) [of b] by (cases rule: cs) (auto simp: old new)
    qed
  qed
  moreover have "reg_defs g r \<le> (if r < fn_next_reg g then 1 else 0)" for r
    using assms r [of r] fields(5) unfolding built_ok_def by simp
  ultimately have "built_ok g" using fields gh by (simp add: built_ok_def)
  then show ?thesis by (simp add: g_def)
qed

section \<open>Sequences of builder calls\<close>

text \<open>One call of the construction interface; branches name blocks that exist.\<close>

inductive builder_step :: "ir_builder \<Rightarrow> ir_builder \<Rightarrow> bool" where
  new_block: "builder_step bd (bd\<lparr>bd_fn := fst (ir_block_create (bd_fn bd) p)\<rparr>)"
| add_param: "builder_step bd (bd\<lparr>bd_fn := ir_function_add_param (bd_fn bd) name ty\<rparr>)"
| set_block: "b < length (fn_heap (bd_fn bd)) \<Longrightarrow> builder_step bd (ir_builder_set_insert_block (Some b) bd)"
| no_block: "builder_step bd (ir_builder_set_insert_block None bd)"
| alloca: "builder_step bd (fst (ir_emit_alloca ty name bd))"
| load: "builder_step bd (fst (ir_emit_load ty ptr bd))"
| store: "builder_step bd (fst (ir_emit_store v ptr bd))"
| const_int: "builder_step bd (fst (ir_emit_const_int oty w bd))"
| const_float: "builder_step bd (fst (ir_emit_const_float w bd))"
| const_bool: "builder_step bd (fst (ir_emit_const_bool q bd))"
| const_char: "builder_step bd (fst (ir_emit_const_char c bd))"
| const_string: "builder_step bd (fst (ir_emit_const_string s bd))"
| binary: "builder_step bd (fst (ir_emit_binary opc ty v w' bd))"
| unary: "builder_step bd (fst (ir_emit_unary opc ty v bd))"
| call: "builder_step bd (fst (ir_emit_call callee ty args bd))"
| print: "builder_step bd (fst (ir_emit_print v bd))"
| free: "builder_step bd (fst (ir_emit_free v q bd))"
| release: "builder_step bd (fst (ir_emit_release v cls q bd))"
| br: "t < length (fn_heap (bd_fn bd)) \<Longrightarrow> builder_step bd (fst (ir_emit_br (Some t) bd))"
| condbr: "\<lbrakk> t < length (fn_heap (bd_fn bd)); e < length (fn_heap (bd_fn bd)) \<rbrakk> \<Longrightarrow>
    builder_step bd (fst (ir_emit_condbr v (Some t) (Some e) bd))"
| ret: "builder_step bd (fst (ir_emit_ret v bd))"
| ret_void: "builder_step bd (fst (ir_emit_ret_void bd))"
| phi: "builder_step bd (fst (ir_emit_phi ty bd))"

lemmas emission_simps = create_instruction_def inst_targets_def reg_result_def ir_val_var_def

lemma builder_step_ok: "builder_step bd bd' \<Longrightarrow> builder_ok bd \<Longrightarrow> builder_ok bd'"
proof (induction rule: builder_step.induct)
  case (new_block bd p)
  then show ?case using create_block_ok [of "bd_fn bd" p]
    by (auto simp: builder_ok_def ir_block_create_def Let_def split: option.splits)
next
  case (add_param bd name ty)
  then show ?case
    using edges_ok_heap [of "ir_function_add_param (bd_fn bd) name ty" "bd_fn bd"]
    by (simp add: builder_ok_def built_ok_def ir_function_add_param_def reg_defs_def split: option.splits)
next
  case (call bd callee ty args)
  then show ?case
    by (auto simp: ir_emit_call_def Let_def emission_simps intro!: emit_plain_ok emit_result_ok)
next
  case (br t bd)
  then show ?case
    by (simp only: emit_br_emitted) (auto intro!: branch_ok simp: emission_simps)
next
  case (condbr t bd e v)
  then show ?case
    by (simp only: emit_condbr_emitted) (auto intro!: branch_ok simp: emission_simps)
next
  case (set_block b bd)
  then show ?case by (simp add: builder_ok_def ir_builder_set_insert_block_def)
next
  case (no_block bd)
  then show ?case by (simp add: builder_ok_def ir_builder_set_insert_block_def)
qed (auto simp: ir_emit_defs Let_def emission_simps intro!: emit_plain_ok emit_result_ok)

lemma builder_run_ok: "builder_step\<^sup>*\<^sup>* bd bd' \<Longrightarrow> builder_ok bd \<Longrightarrow> builder_ok bd'"
  by (induction rule: rtranclp_induct) (auto intro: builder_step_ok)

lemma new_builder_ok: "builder_ok (ir_builder_init (ir_new_function name ty))"
  by (simp add: builder_ok_def built_ok_def edges_ok_def ir_builder_init_def ir_new_function_def reg_defs_def)

section \<open>Terminators stay last\<close>

definition terminator_last :: "ir_inst list \<Rightarrow> bool" where
  "terminator_last is \<longleftrightarrow> list_all (\<lambda>i. \<not> ir_is_terminator (i_op i)) (butlast is)"

definition terminators_last :: "ir_function \<Rightarrow> bool" where
  "terminators_last f \<longleftrightarrow> (\<forall>b < length (fn_heap f). terminator_last (bb_insts (block_at f b)))"

text \<open>The block at the insertion point has no terminator yet.\<close>

definition open_at :: "ir_builder \<Rightarrow> bool" where
  "open_at bd \<longleftrightarrow>
     (case bd_block bd of
        None \<Rightarrow> True
      | Some b \<Rightarrow> (case last_inst (block_at (bd_fn bd) b) of Some i \<Rightarrow> \<not> ir_is_terminator (i_op i) | None \<Rightarrow> True))"

text \<open>A call of a careful client: into a block that has its terminator it emits allocas only.\<close>

inductive careful_step :: "ir_builder \<Rightarrow> ir_builder \<Rightarrow> bool" where
  emission: "open_at bd \<Longrightarrow> builder_step bd bd' \<Longrightarrow> careful_step bd bd'"
| late_alloca: "careful_step bd (fst (ir_emit_alloca ty name bd))"
| careful_block: "careful_step bd (bd\<lparr>bd_fn := fst (ir_block_create (bd_fn bd) p)\<rparr>)"
| careful_set: "b < length (fn_heap (bd_fn bd)) \<Longrightarrow> careful_step bd (ir_builder_set_insert_block (Some b) bd)"
| careful_leave: "careful_step bd (ir_builder_set_insert_block None bd)"

lemma careful_builder_step: "careful_step bd bd' \<Longrightarrow> builder_step bd bd'"
  by (induction rule: careful_step.induct) (auto intro: builder_step.intros)

lemma add_instruction_last:
  assumes "terminator_last (bb_insts bb)"
    and "i_op i = IR_OP_ALLOCA \<or> (case last_inst bb of Some j \<Rightarrow> \<not> ir_is_terminator (i_op j) | None \<Rightarrow> True)"
  shows "terminator_last (bb_insts (ir_block_add_instruction i bb))"
proof (cases "bb_insts bb" rule: rev_cases)
  case Nil
  then show ?thesis by (simp add: ir_block_add_instruction_def terminator_last_def)
next
  case (snoc js j)
  have "\<not> ir_is_terminator IR_OP_ALLOCA" by (simp add: ir_is_terminator_def)
  then show ?thesis using assms snoc
    by (auto simp: ir_block_add_instruction_def terminator_last_def last_inst_def butlast_append)
qed

lemma append_last:
  assumes "terminators_last (bd_fn bd)" and "i_op i = IR_OP_ALLOCA \<or> open_at bd"
  shows "terminators_last (bd_fn (builder_append i bd))"
proof (cases "bd_block bd")
  case (Some b)
  have "i_op i = IR_OP_ALLOCA \<or> (case last_inst (block_at (bd_fn bd) b) of Some j \<Rightarrow> \<not> ir_is_terminator (i_op j) | None \<Rightarrow> True)"
    using assms(2) Some by (simp add: open_at_def)
  then show ?thesis using assms(1) Some add_instruction_last [of "block_at (bd_fn bd) b" i]
    by (auto simp: terminators_last_def builder_append_def block_at_update_block)
qed (use assms in \<open>simp add: builder_append_def\<close>)

lemma emit_last:
  assumes "terminators_last (bd_fn bd)" and "i_op i = IR_OP_ALLOCA \<or> open_at bd"
  shows "terminators_last (bd_fn (fst (emit_plain i bd)))" and "terminators_last (bd_fn (fst (emit_result ty i bd)))"
proof -
  show "terminators_last (bd_fn (fst (emit_plain i bd)))" using append_last [OF assms] by (simp add: emit_plain_def)
  let ?bd = "bd\<lparr>bd_fn := (bd_fn bd)\<lparr>fn_next_reg := fn_next_reg (bd_fn bd) + 1\<rparr>\<rparr>"
  have "terminators_last (bd_fn ?bd)" "open_at ?bd = open_at bd"
    using assms(1) by (simp_all add: terminators_last_def open_at_def split: option.split)
  then show "terminators_last (bd_fn (fst (emit_result ty i bd)))"
    using append_last [of ?bd "i\<lparr>i_result := Some (ir_val_reg ty (fn_next_reg (bd_fn bd)))\<rparr>"] assms(2)
    by (simp add: emit_result_def ir_builder_next_reg_def Let_def)
qed

lemma branch_last:
  assumes "terminators_last (bd_fn bd)" and "open_at bd"
  shows "terminators_last (bd_fn (case bd_block bd of None \<Rightarrow> bd | Some b \<Rightarrow> bd\<lparr>bd_fn := emitted b i (bd_fn bd)\<rparr>))"
proof (cases "bd_block bd")
  case (Some b)
  have same: "same_but_edges (update_block b (ir_block_add_instruction i) (bd_fn bd)) (emitted b i (bd_fn bd))"
    unfolding emitted_def by (rule add_edges_same_but_edges)
  have "terminators_last (update_block b (ir_block_add_instruction i) (bd_fn bd))"
    using append_last [OF assms(1), of i] assms(2) Some by (simp add: builder_append_def)
  then show ?thesis using Some same_but_edges_block(1) [OF same] by (simp add: terminators_last_def)
qed (use assms in simp)

lemma create_block_last:
  assumes "terminators_last f"
  shows "terminators_last (fst (ir_block_create f p))"
  using assms by (auto simp: terminators_last_def ir_block_create_def Let_def block_at_def nth_append terminator_last_def less_Suc_eq)

lemma builder_step_last:
  "builder_step bd bd' \<Longrightarrow> open_at bd \<Longrightarrow> terminators_last (bd_fn bd) \<Longrightarrow> terminators_last (bd_fn bd')"
proof (induction rule: builder_step.induct)
  case (add_param bd name ty)
  then show ?case by (auto simp: terminators_last_def ir_function_add_param_def block_at_def split: option.splits)
next
  case (br t bd)
  then show ?case by (simp only: emit_br_emitted) (rule branch_last)
next
  case (condbr t bd e v)
  then show ?case by (simp only: emit_condbr_emitted) (rule branch_last)
qed (auto simp: ir_emit_defs Let_def ir_builder_set_insert_block_def intro!: emit_last create_block_last)

lemma careful_step_last: "careful_step bd bd' \<Longrightarrow> terminators_last (bd_fn bd) \<Longrightarrow> terminators_last (bd_fn bd')"
proof (induction rule: careful_step.induct)
  case (late_alloca bd ty name)
  then show ?case by (simp add: ir_emit_alloca_def emit_last create_instruction_def)
qed (auto intro: builder_step_last create_block_last simp: ir_builder_set_insert_block_def)

lemma careful_run:
  "careful_step\<^sup>*\<^sup>* bd bd' \<Longrightarrow> builder_step\<^sup>*\<^sup>* bd bd' \<and> (terminators_last (bd_fn bd) \<longrightarrow> terminators_last (bd_fn bd'))"
  by (induction rule: rtranclp_induct) (auto intro: careful_step_last careful_builder_step rtranclp.rtrancl_into_rtrancl)

section \<open>Labels\<close>

lemma block_label_entry_or_dotted:
  assumes "length (block_label p n) < 127"
  shows "(block_label p n = ''entry'' \<and> n = 0) \<or> (\<exists>q. block_label p n = q @ CHR ''.'' # decimal n)"
proof -
  have cut: "length (snprintf_buf 128 s) < 127 \<Longrightarrow> snprintf_buf 128 s = s" for s
    by (auto simp: snprintf_buf_def)
  have dot: "\<exists>q. ''block.'' @ decimal n = q @ CHR ''.'' # decimal n"
    by (rule exI [of _ "''block''"]) simp
  show ?thesis
  proof (cases p)
    case None
    then show ?thesis using assms cut [of "''block.'' @ decimal n"] dot by (simp add: block_label_def)
  next
    case (Some l)
    show ?thesis
    proof (cases "l = ''entry'' \<and> n = 0")
      case True
      then show ?thesis using Some by (simp add: block_label_def snprintf_buf_def)
    next
      case False
      have "\<exists>s. block_label p n = snprintf_buf 128 s \<and> (\<exists>q. s = q @ CHR ''.'' # decimal n)"
      proof (cases "l = ''''")
        case True
        then show ?thesis using Some dot by (auto simp: block_label_def)
      next
        case l: False
        then show ?thesis using Some False by (auto simp: block_label_def)
      qed
      then obtain s where s: "block_label p n = snprintf_buf 128 s" "\<exists>q. s = q @ CHR ''.'' # decimal n"
        by blast
      have "snprintf_buf 128 s = s" using cut assms s(1) by simp
      then show ?thesis using s by simp
    qed
  qed
qed

lemma block_label_inj:
  assumes "length (block_label p m) < 127" and "block_label p m = block_label q n"
  shows "m = n"
proof -
  have e: "''entry'' \<noteq> r @ CHR ''.'' # decimal k" for r k
  proof
    assume h: "''entry'' = r @ CHR ''.'' # decimal k"
    have "CHR ''.'' \<in> set (r @ CHR ''.'' # decimal k)" by simp
    then have "CHR ''.'' \<in> set ''entry''" by (simp only: h [symmetric])
    then show False by simp
  qed
  have n: "length (block_label q n) < 127" using assms by simp
  from block_label_entry_or_dotted [OF assms(1)] block_label_entry_or_dotted [OF n] assms(2) e
  show ?thesis by (metis dotted_number_inj)
qed

section \<open>Properties\<close>

text \<open>C31. The edges that \<open>ir_recompute_cfg\<close> leaves: the successors of a block are the targets of
  its last instruction without repetition, in order; its predecessors are the blocks that have
  it as a target, in the order of the function. Nothing but the edges changes.\<close>

theorem recompute_cfg_edges:
  assumes "distinct (fn_order f)" and "set (fn_order f) \<subseteq> {..<length (fn_heap f)}"
    and "b \<in> set (fn_order f)"
  shows "bb_succs (block_at (ir_recompute_cfg f) b) = dedup_onto [] (block_targets f b) \<and>
    bb_preds (block_at (ir_recompute_cfg f) b) = filter (\<lambda>a. b \<in> set (block_targets f a)) (fn_order f) \<and>
    same_but_edges f (ir_recompute_cfg f)"
  using recompute_cfg_spec [OF assms(1,2)] assms(3) by blast

definition two_blocks :: ir_function where
  "two_blocks = (ir_new_function ''f'' None)\<lparr>fn_heap :=
     [\<lparr>bb_name = ''entry'', bb_id = 0,
       bb_insts = [(create_instruction IR_OP_BR Ty_Void)\<lparr>i_true := Some 1\<rparr>], bb_preds = [], bb_succs = []\<rparr>,
      \<lparr>bb_name = ''loop.1'', bb_id = 1,
       bb_insts = [(create_instruction IR_OP_CONDBR Ty_Void)\<lparr>i_true := Some 1, i_false := Some 0\<rparr>],
       bb_preds = [], bb_succs = []\<rparr>], fn_order := [0, 1], fn_entry := Some 0\<rparr>"

theorem recompute_cfg_edges_witness:
  "bb_succs (block_at (ir_recompute_cfg two_blocks) 1) = dedup_onto [] (block_targets two_blocks 1) \<and>
    bb_preds (block_at (ir_recompute_cfg two_blocks) 1) =
      filter (\<lambda>a. 1 \<in> set (block_targets two_blocks a)) (fn_order two_blocks) \<and>
    same_but_edges two_blocks (ir_recompute_cfg two_blocks)"
  by (rule recompute_cfg_edges) (simp_all add: two_blocks_def)

text \<open>C32. Whatever sequence of calls of the construction interface makes a function, it is well
  formed: blocks numbered in order from the entry, every register defined at most once and
  below the register counter, edges recorded at both ends and equal to the branch targets. If besides the
  client emits nothing but allocas into a block that has its terminator, no block has a
  terminator before its last instruction: late allocas go in front of it.\<close>

theorem builder_functions_ok:
  assumes "builder_step\<^sup>*\<^sup>* (ir_builder_init (ir_new_function name ty)) bd"
  shows "built_ok (bd_fn bd) \<and>
    (careful_step\<^sup>*\<^sup>* (ir_builder_init (ir_new_function name ty)) bd \<longrightarrow> terminators_last (bd_fn bd))"
proof -
  have "terminators_last (bd_fn (ir_builder_init (ir_new_function name ty)))"
    by (simp add: terminators_last_def ir_builder_init_def ir_new_function_def)
  then show ?thesis using builder_run_ok [OF assms new_builder_ok] careful_run by (auto simp: builder_ok_def)
qed

definition sample_builder :: ir_builder where
  "sample_builder =
     (let bd = ir_builder_init (ir_new_function ''f'' None);
          bd = bd\<lparr>bd_fn := fst (ir_block_create (bd_fn bd) (Some ''entry''))\<rparr>;
          bd = ir_builder_set_insert_block (Some 0) bd;
          bd = fst (ir_emit_br (Some 0) bd)
      in fst (ir_emit_alloca Ty_I32 (Some ''x'') bd))"

lemma sample_builder_run: "careful_step\<^sup>*\<^sup>* (ir_builder_init (ir_new_function ''f'' None)) sample_builder"
proof -
  let ?b0 = "ir_builder_init (ir_new_function ''f'' None)"
  let ?b1 = "?b0\<lparr>bd_fn := fst (ir_block_create (bd_fn ?b0) (Some ''entry''))\<rparr>"
  let ?b2 = "ir_builder_set_insert_block (Some 0) ?b1"
  let ?b3 = "fst (ir_emit_br (Some 0) ?b2)"
  have "careful_step\<^sup>*\<^sup>* ?b0 ?b1" by (rule r_into_rtranclp) (rule careful_step.careful_block)
  also have "careful_step ?b1 ?b2"
    by (rule careful_step.careful_set) (simp add: ir_block_create_def Let_def)
  also have "careful_step ?b2 ?b3"
  proof (rule careful_step.emission)
    show "open_at ?b2"
      by (simp add: open_at_def ir_builder_set_insert_block_def ir_block_create_def Let_def last_inst_def block_at_def
          ir_builder_init_def ir_new_function_def)
    show "builder_step ?b2 ?b3"
      by (rule builder_step.br) (simp add: ir_block_create_def Let_def ir_builder_set_insert_block_def)
  qed
  also have "careful_step ?b3 (fst (ir_emit_alloca Ty_I32 (Some ''x'') ?b3))"
    by (rule careful_step.late_alloca)
  finally show ?thesis by (simp only: sample_builder_def Let_def)
qed

theorem builder_functions_ok_witness: "built_ok (bd_fn sample_builder) \<and> terminators_last (bd_fn sample_builder)"
  using builder_functions_ok [of "''f''" None sample_builder] careful_run [OF sample_builder_run] sample_builder_run by blast

text \<open>The labels of two blocks of a function that the builder made differ, unless they are
  cut off at the 127 characters of the label buffer.\<close>

theorem builder_labels_distinct:
  assumes "builder_step\<^sup>*\<^sup>* (ir_builder_init (ir_new_function name ty)) bd"
    and "a < length (fn_heap (bd_fn bd))" and "b < length (fn_heap (bd_fn bd))" and "a \<noteq> b"
    and "length (bb_name (block_at (bd_fn bd) a)) < 127"
  shows "bb_name (block_at (bd_fn bd) a) \<noteq> bb_name (block_at (bd_fn bd) b)"
proof -
  have "edges_ok (bd_fn bd)"
    using builder_run_ok [OF assms(1) new_builder_ok] by (simp add: builder_ok_def built_ok_def)
  then have e: "\<exists>p. bb_name (block_at (bd_fn bd) c) = block_label p c" if "c < length (fn_heap (bd_fn bd))" for c
    using that by (simp add: edges_ok_def)
  obtain p q where n: "bb_name (block_at (bd_fn bd) a) = block_label p a"
    "bb_name (block_at (bd_fn bd) b) = block_label q b"
    using e [OF assms(2)] e [OF assms(3)] by (elim exE) (rule that)
  have "length (block_label p a) < 127" using assms(5) n(1) by simp
  then have "block_label p a = block_label q b \<Longrightarrow> a = b" by (rule block_label_inj)
  then show ?thesis using assms(4) unfolding n by blast
qed

definition two_block_builder :: ir_builder where
  "two_block_builder =
     (let bd = ir_builder_init (ir_new_function ''f'' None);
          bd = bd\<lparr>bd_fn := fst (ir_block_create (bd_fn bd) (Some ''entry''))\<rparr>
      in bd\<lparr>bd_fn := fst (ir_block_create (bd_fn bd) (Some ''entry''))\<rparr>)"

lemma two_block_builder_run:
  "builder_step\<^sup>*\<^sup>* (ir_builder_init (ir_new_function ''f'' None)) two_block_builder"
  unfolding two_block_builder_def Let_def
  by (rule converse_rtranclp_into_rtranclp [OF builder_step.new_block r_into_rtranclp
        [of builder_step, OF builder_step.new_block]])

theorem builder_labels_distinct_witness:
  "bb_name (block_at (bd_fn two_block_builder) 0) \<noteq> bb_name (block_at (bd_fn two_block_builder) 1)"
  by (rule builder_labels_distinct [OF two_block_builder_run])
    (simp_all add: two_block_builder_def ir_builder_init_def ir_new_function_def ir_block_create_def
      block_at_def block_label_def snprintf_buf_def)

text \<open>Type equality is structural equality up to pointers without an element type. An opaque
  pointer equals every pointer, so it is reflexive and symmetric but not transitive.\<close>

theorem type_equality_up_to_opaque:
  "(ir_type_equals a b \<longleftrightarrow> same_type a b) \<and> (ir_type_equals a b \<longleftrightarrow> ir_type_equals b a) \<and>
   ir_type_equals (ir_type_ptr (Some ir_type_i32)) (ir_type_ptr None) \<and>
   ir_type_equals (ir_type_ptr None) (ir_type_ptr (Some ir_type_f64)) \<and>
   \<not> ir_type_equals (ir_type_ptr (Some ir_type_i32)) (ir_type_ptr (Some ir_type_f64))"
  using ir_type_equals_same [of a b] same_type_equals [of a b] ir_type_equals_sym [of a b]
  by (auto simp: ir_type_defs)

end
