(* ===== verification/Ir_Verify.thy ===== *)
theory Ir_Verify
  imports Ir_Cfg
begin

text \<open>
  The verifier of \<open>src/ir/ir_verify.c\<close>, with its messages, and the typing judgement it decides.
  A check returns the message of the first rule that is broken, or \<open>None\<close>. The checks of one
  instruction are grouped by opcode as in the switch of \<open>verify_instruction\<close>.
\<close>

section \<open>Messages\<close>

definition newline :: string where "newline = [CHR 0x0A]"

definition set_error :: "string option \<Rightarrow> string option \<Rightarrow> string option \<Rightarrow> string \<Rightarrow> string" where
  "set_error fnn bbn inn detail = snprintf_buf 1024
     (''Cco IR verification failed:'' @ newline @
      ''  function: '' @ (case fnn of Some s \<Rightarrow> s | None \<Rightarrow> ''<unknown>'') @ newline @
      ''  block: '' @ (case bbn of Some s \<Rightarrow> s | None \<Rightarrow> ''<unknown>'') @ newline @
      ''  instruction: '' @ (case inn of Some s \<Rightarrow> s | None \<Rightarrow> ''<none>'') @ newline @
      ''  error: '' @ snprintf_buf 512 detail @ newline)"

definition ty_str :: "ir_type \<Rightarrow> string" where
  "ty_str t = ir_type_to_string (Some t)"

section \<open>Checks of one instruction\<close>

definition block_exists_in_fn :: "ir_function \<Rightarrow> nat option \<Rightarrow> bool" where
  "block_exists_in_fn f t = (case t of Some b \<Rightarrow> b \<in> set (fn_order f) | None \<Rightarrow> False)"

definition is_numeric_type :: "ir_type_kind \<Rightarrow> bool" where
  "is_numeric_type k \<longleftrightarrow> k = IR_TYPE_I32 \<or> k = IR_TYPE_I64 \<or> k = IR_TYPE_F64"

definition check_alloca :: "ir_inst \<Rightarrow> string option" where
  "check_alloca i =
     (case i_result i of
        None \<Rightarrow> Some ''alloca result must be a pointer type''
      | Some r \<Rightarrow> if ir_kind (v_type r) \<noteq> IR_TYPE_PTR
                 then Some ''alloca result must be a pointer type'' else None)"

definition check_load :: "ir_inst \<Rightarrow> string option" where
  "check_load i =
     (case i_lhs i of
        None \<Rightarrow> Some ''load requires pointer operand''
      | Some p \<Rightarrow>
          if ir_kind (v_type p) \<noteq> IR_TYPE_PTR
          then Some (''load source is not a pointer type (got '' @ ty_str (v_type p) @ '')'')
          else (case i_result i of
              None \<Rightarrow> Some ''load requires a destination result register''
            | Some r \<Rightarrow>
                (case ir_elem_type (v_type p) of
                   None \<Rightarrow> None
                 | Some e \<Rightarrow>
                     if \<not> ir_type_equals (v_type r) e
                     then Some (''load result type ('' @ ty_str (v_type r) @
                       '') does not match pointer element type ('' @ ty_str e @ '')'')
                     else None)))"

definition check_store :: "ir_inst \<Rightarrow> string option" where
  "check_store i =
     (case (i_lhs i, i_rhs i) of
        (Some v, Some p) \<Rightarrow>
          if ir_kind (v_type p) \<noteq> IR_TYPE_PTR
          then Some (''store destination is not a pointer (got '' @ ty_str (v_type p) @ '')'')
          else (case ir_elem_type (v_type p) of
              None \<Rightarrow> None
            | Some e \<Rightarrow>
                if \<not> ir_type_equals (v_type v) e
                then Some (''stored value type ('' @ ty_str (v_type v) @
                  '') does not match destination pointer element type ('' @ ty_str e @ '')'')
                else None)
      | _ \<Rightarrow> Some ''store requires value and destination pointer operands'')"

definition check_const :: "ir_inst \<Rightarrow> string option" where
  "check_const i =
     (case (i_lhs i, i_result i) of
        (Some v, Some r) \<Rightarrow>
          if \<not> ir_type_equals (v_type v) (v_type r)
          then Some ''const value type does not match result type'' else None
      | _ \<Rightarrow> Some ''const requires literal value and result register'')"

fun check_phi_operands :: "ir_type \<Rightarrow> nat \<Rightarrow> (nat option \<times> ir_value option) list \<Rightarrow> string option" where
  "check_phi_operands rt n [] = None"
| "check_phi_operands rt n ((None, v) # ops) = Some (''phi operand '' @ decimal n @ '' has null block'')"
| "check_phi_operands rt n ((Some b, None) # ops) = Some (''phi operand '' @ decimal n @ '' has null value'')"
| "check_phi_operands rt n ((Some b, Some v) # ops) =
     (if \<not> ir_type_equals rt (v_type v)
      then Some (''phi incoming value type ('' @ ty_str (v_type v) @
        '') does not match phi result type ('' @ ty_str rt @ '')'')
      else check_phi_operands rt (n + 1) ops)"

definition check_phi :: "ir_inst \<Rightarrow> string option" where
  "check_phi i =
     (case i_result i of
        None \<Rightarrow> Some ''phi requires result register''
      | Some r \<Rightarrow>
          if i_phis i = [] then Some ''phi must have at least one incoming value''
          else check_phi_operands (v_type r) 0 (i_phis i))"

definition check_arith :: "ir_inst \<Rightarrow> string option" where
  "check_arith i =
     (case (i_lhs i, i_rhs i, i_result i) of
        (Some a, Some b, Some r) \<Rightarrow>
          if \<not> ir_type_equals (v_type a) (v_type b)
          then Some (''operand types do not match ('' @ ty_str (v_type a) @ '' vs '' @
            ty_str (v_type b) @ '')'')
          else if \<not> is_numeric_type (ir_kind (v_type a))
          then Some (''arithmetic operands must be numeric (got '' @ ty_str (v_type a) @ '')'')
          else if \<not> ir_type_equals (v_type r) (v_type a)
          then Some (''result type ('' @ ty_str (v_type r) @ '') does not match operand type ('' @
            ty_str (v_type a) @ '')'')
          else None
      | _ \<Rightarrow> Some ''binary arithmetic requires lhs, rhs, and result'')"

definition check_neg :: "ir_inst \<Rightarrow> string option" where
  "check_neg i =
     (case (i_lhs i, i_result i) of
        (Some a, Some r) \<Rightarrow>
          if \<not> is_numeric_type (ir_kind (v_type a)) then Some ''negation operand must be numeric''
          else if \<not> ir_type_equals (v_type r) (v_type a)
          then Some ''result type does not match negation operand type''
          else None
      | _ \<Rightarrow> Some ''negation requires operand and result'')"

definition check_compare :: "ir_inst \<Rightarrow> string option" where
  "check_compare i =
     (case (i_lhs i, i_rhs i, i_result i) of
        (Some a, Some b, Some r) \<Rightarrow>
          if \<not> ir_type_equals (v_type a) (v_type b)
          then Some (''comparison operand types do not match ('' @ ty_str (v_type a) @ '' vs '' @
            ty_str (v_type b) @ '')'')
          else if ir_kind (v_type r) \<noteq> IR_TYPE_BOOL
          then Some ''comparison result type must be bool''
          else None
      | _ \<Rightarrow> Some ''comparison requires lhs, rhs, and result'')"

definition check_logical :: "ir_inst \<Rightarrow> string option" where
  "check_logical i =
     (case (i_lhs i, i_rhs i, i_result i) of
        (Some a, Some b, Some r) \<Rightarrow>
          if ir_kind (v_type a) \<noteq> IR_TYPE_BOOL \<or> ir_kind (v_type b) \<noteq> IR_TYPE_BOOL
          then Some ''logical op operands must be bool''
          else if ir_kind (v_type r) \<noteq> IR_TYPE_BOOL then Some ''logical op result must be bool''
          else None
      | _ \<Rightarrow> Some ''logical op requires lhs, rhs, and result'')"

definition check_not :: "ir_inst \<Rightarrow> string option" where
  "check_not i =
     (case (i_lhs i, i_result i) of
        (Some a, Some r) \<Rightarrow>
          if ir_kind (v_type a) \<noteq> IR_TYPE_BOOL \<or> ir_kind (v_type r) \<noteq> IR_TYPE_BOOL
          then Some ''not operand and result must be bool'' else None
      | _ \<Rightarrow> Some ''not requires operand and result'')"

text \<open>The arguments of a call against the parameters of a callee with as many parameters.\<close>

fun check_args :: "string \<Rightarrow> nat \<Rightarrow> ir_value list \<Rightarrow> ir_param list \<Rightarrow> string option" where
  "check_args callee n (a # as) (p # ps) =
     (if \<not> ir_type_equals (v_type a) (p_type p)
      then Some (''argument '' @ decimal n @ '' type ('' @ ty_str (v_type a) @
        '') does not match parameter type ('' @ ty_str (p_type p) @ '') in call to @'' @ callee)
      else check_args callee (n + 1) as ps)"
| "check_args callee n _ _ = None"

definition check_call :: "ir_module option \<Rightarrow> ir_inst \<Rightarrow> string option" where
  "check_call m i =
     (case i_callee i of
        None \<Rightarrow> Some ''call missing callee name''
      | Some callee \<Rightarrow>
          (case m of
             None \<Rightarrow> None
           | Some md \<Rightarrow>
               (case ir_module_find_function md callee of
                  None \<Rightarrow> None
                | Some g \<Rightarrow>
                    if length (fn_params g) \<noteq> length (i_args i)
                    then Some (''callee @'' @ callee @ '' expects '' @ decimal (length (fn_params g)) @
                      '' arguments, got '' @ decimal (length (i_args i)))
                    else (case check_args callee 0 (i_args i) (fn_params g) of
                        Some e \<Rightarrow> Some e
                      | None \<Rightarrow>
                          if \<not> ir_type_equals (i_type i) (fn_return_type g)
                          then Some (''call return type ('' @ ty_str (i_type i) @
                            '') does not match function @'' @ callee @ '' return type ('' @
                            ty_str (fn_return_type g) @ '')'')
                          else None))))"

text \<open>A branch target of another function has no name in the model.\<close>

definition check_br :: "ir_function \<Rightarrow> ir_inst \<Rightarrow> string option" where
  "check_br f i =
     (case i_true i of
        None \<Rightarrow> Some ''unconditional branch missing target block''
      | Some t \<Rightarrow>
          if \<not> block_exists_in_fn f (Some t)
          then Some (''branch target block '' @ [CHR 0x27] @
            (if t < length (fn_heap f) then bb_name (block_at f t) else ''<unknown>'') @ [CHR 0x27] @
            '' does not exist in function'')
          else None)"

definition check_condbr :: "ir_function \<Rightarrow> ir_inst \<Rightarrow> string option" where
  "check_condbr f i =
     (case i_lhs i of
        None \<Rightarrow> Some ''conditional branch missing condition operand''
      | Some c \<Rightarrow>
          if ir_kind (v_type c) \<noteq> IR_TYPE_BOOL
          then Some (''conditional branch condition must be bool (got '' @ ty_str (v_type c) @ '')'')
          else if i_true i = None \<or> i_false i = None
          then Some ''conditional branch missing true or false target block''
          else if \<not> block_exists_in_fn f (i_true i) \<or> \<not> block_exists_in_fn f (i_false i)
          then Some ''conditional branch target block does not exist in function''
          else None)"

definition check_ret :: "ir_function \<Rightarrow> ir_inst \<Rightarrow> string option" where
  "check_ret f i =
     (if ir_kind (fn_return_type f) = IR_TYPE_VOID
      then (case i_lhs i of
          Some v \<Rightarrow> if ir_kind (v_type v) \<noteq> IR_TYPE_VOID
                   then Some ''void function cannot return a value'' else None
        | None \<Rightarrow> None)
      else (case i_lhs i of
          None \<Rightarrow> Some (''non-void function must return a value (expected '' @
            ty_str (fn_return_type f) @ '')'')
        | Some v \<Rightarrow>
            if \<not> ir_type_equals (v_type v) (fn_return_type f)
            then Some (''returned value type ('' @ ty_str (v_type v) @
              '') does not match function return type ('' @ ty_str (fn_return_type f) @ '')'')
            else None))"

definition check_print :: "ir_inst \<Rightarrow> string option" where
  "check_print i =
     (if i_lhs i = None then Some ''print instruction missing value operand'' else None)"

definition check_dealloc :: "ir_inst \<Rightarrow> string option" where
  "check_dealloc i =
     (case i_lhs i of
        None \<Rightarrow> Some ''deallocation requires pointer operand''
      | Some v \<Rightarrow> if ir_kind (v_type v) \<noteq> IR_TYPE_PTR
                 then Some ''deallocation requires pointer operand'' else None)"

definition instruction_detail :: "ir_module option \<Rightarrow> ir_function \<Rightarrow> ir_inst \<Rightarrow> string option" where
  "instruction_detail m f i =
     (case i_op i of
        IR_OP_ALLOCA \<Rightarrow> check_alloca i
      | IR_OP_LOAD \<Rightarrow> check_load i
      | IR_OP_STORE \<Rightarrow> check_store i
      | IR_OP_CONST \<Rightarrow> check_const i
      | IR_OP_PHI \<Rightarrow> check_phi i
      | IR_OP_ADD \<Rightarrow> check_arith i
      | IR_OP_SUB \<Rightarrow> check_arith i
      | IR_OP_MUL \<Rightarrow> check_arith i
      | IR_OP_DIV \<Rightarrow> check_arith i
      | IR_OP_MOD \<Rightarrow> check_arith i
      | IR_OP_NEG \<Rightarrow> check_neg i
      | IR_OP_EQ \<Rightarrow> check_compare i
      | IR_OP_NE \<Rightarrow> check_compare i
      | IR_OP_LT \<Rightarrow> check_compare i
      | IR_OP_LE \<Rightarrow> check_compare i
      | IR_OP_GT \<Rightarrow> check_compare i
      | IR_OP_GE \<Rightarrow> check_compare i
      | IR_OP_AND \<Rightarrow> check_logical i
      | IR_OP_OR \<Rightarrow> check_logical i
      | IR_OP_NOT \<Rightarrow> check_not i
      | IR_OP_CALL \<Rightarrow> check_call m i
      | IR_OP_BR \<Rightarrow> check_br f i
      | IR_OP_CONDBR \<Rightarrow> check_condbr f i
      | IR_OP_RET \<Rightarrow> check_ret f i
      | IR_OP_PRINT \<Rightarrow> check_print i
      | IR_OP_FREE \<Rightarrow> check_dealloc i
      | IR_OP_RELEASE \<Rightarrow> check_dealloc i
      | _ \<Rightarrow> None)"

definition verify_instruction ::
  "ir_module option \<Rightarrow> ir_function \<Rightarrow> ir_block \<Rightarrow> ir_inst \<Rightarrow> string option" where
  "verify_instruction m f bb i =
     map_option (set_error (Some (fn_name f)) (Some (bb_name bb)) (Some (ir_opcode_to_string (i_op i))))
       (instruction_detail m f i)"

section \<open>Blocks, functions, modules\<close>

text \<open>The instructions of a block, front to back; \<open>seen\<close> tells that a non-phi was seen.\<close>

fun verify_insts ::
  "ir_module option \<Rightarrow> ir_function \<Rightarrow> ir_block \<Rightarrow> bool \<Rightarrow> ir_inst list \<Rightarrow> string option" where
  "verify_insts m f bb seen [] = None"
| "verify_insts m f bb seen (i # rest) =
     (if i_op i = IR_OP_PHI \<and> seen
      then Some (set_error (Some (fn_name f)) (Some (bb_name bb)) (Some ''phi'')
        ''phi instruction appears after non-phi instruction in basic block'')
      else if ir_is_terminator (i_op i) \<and> rest \<noteq> []
      then Some (set_error (Some (fn_name f)) (Some (bb_name bb)) (Some (ir_opcode_to_string (i_op i)))
        ''terminator instruction must be the last instruction in basic block'')
      else (case verify_instruction m f bb i of
          Some e \<Rightarrow> Some e
        | None \<Rightarrow> verify_insts m f bb (seen \<or> i_op i \<noteq> IR_OP_PHI) rest))"

definition verify_block :: "ir_module option \<Rightarrow> ir_function \<Rightarrow> ir_block \<Rightarrow> string option" where
  "verify_block m f bb =
     (if bb_insts bb = []
      then Some (set_error (Some (fn_name f)) (Some (bb_name bb)) None ''basic block has no instructions'')
      else (case verify_insts m f bb False (bb_insts bb) of
          Some e \<Rightarrow> Some e
        | None \<Rightarrow>
            if \<not> ir_is_terminator (i_op (last (bb_insts bb)))
            then Some (set_error (Some (fn_name f)) (Some (bb_name bb))
              (Some (ir_opcode_to_string (i_op (last (bb_insts bb)))))
              ''basic block does not end with a terminator instruction'')
            else None))"

fun first_error :: "('a \<Rightarrow> string option) \<Rightarrow> 'a list \<Rightarrow> string option" where
  "first_error check [] = None"
| "first_error check (x # xs) = (case check x of Some e \<Rightarrow> Some e | None \<Rightarrow> first_error check xs)"

definition ir_verify_function :: "ir_module option \<Rightarrow> ir_function \<Rightarrow> string option" where
  "ir_verify_function m f =
     (if fn_order f = []
      then Some (set_error (Some (fn_name f)) None None ''function has no basic blocks'')
      else if fn_entry f \<noteq> Some (hd (fn_order f))
      then Some (set_error (Some (fn_name f)) None None ''entry block is not the first block'')
      else first_error (verify_block m f) (fn_blocks f))"

definition ir_verify_module :: "ir_module \<Rightarrow> string option" where
  "ir_verify_module m = first_error (ir_verify_function (Some m)) (m_functions m)"

section \<open>The typing judgement\<close>

lemma ir_type_equals_iff: "ir_type_equals a b \<longleftrightarrow> same_type a b"
  using ir_type_equals_same same_type_equals by blast

definition numeric :: "ir_type \<Rightarrow> bool" where
  "numeric t \<longleftrightarrow> t \<in> {Ty_I32, Ty_I64, Ty_F64}"

lemma ir_kind_simps [simp]:
  "ir_kind t = IR_TYPE_BOOL \<longleftrightarrow> t = Ty_Bool"
  "ir_kind t = IR_TYPE_VOID \<longleftrightarrow> t = Ty_Void"
  "ir_kind t = IR_TYPE_PTR \<longleftrightarrow> (\<exists>e. t = Ty_Ptr e)"
  "is_numeric_type (ir_kind t) \<longleftrightarrow> numeric t"
  by (cases t; simp add: is_numeric_type_def numeric_def)+

text \<open>Two numeric types are the same only if they are equal.\<close>

lemma same_type_numeric [simp]:
  "numeric a \<Longrightarrow> same_type a b \<longleftrightarrow> b = a" "numeric a \<Longrightarrow> same_type b a \<longleftrightarrow> b = a"
  by (auto simp: numeric_def elim: same_type.cases intro: same_type.same)

definition points_to :: "ir_type \<Rightarrow> ir_type \<Rightarrow> bool" where
  "points_to p t \<longleftrightarrow> (\<exists>e. p = Ty_Ptr e \<and> (\<forall>u. e = Some u \<longrightarrow> same_type t u))"

inductive typed_inst :: "ir_module option \<Rightarrow> ir_function \<Rightarrow> ir_inst \<Rightarrow> bool" for m f where
  alloca: "\<lbrakk> i_op i = IR_OP_ALLOCA; i_result i = Some r; v_type r = Ty_Ptr e \<rbrakk> \<Longrightarrow> typed_inst m f i"
| load: "\<lbrakk> i_op i = IR_OP_LOAD; i_lhs i = Some p; i_result i = Some r; points_to (v_type p) (v_type r) \<rbrakk>
    \<Longrightarrow> typed_inst m f i"
| store: "\<lbrakk> i_op i = IR_OP_STORE; i_lhs i = Some v; i_rhs i = Some p; points_to (v_type p) (v_type v) \<rbrakk>
    \<Longrightarrow> typed_inst m f i"
| const: "\<lbrakk> i_op i = IR_OP_CONST; i_lhs i = Some v; i_result i = Some r; same_type (v_type v) (v_type r) \<rbrakk>
    \<Longrightarrow> typed_inst m f i"
| arith: "\<lbrakk> i_op i \<in> {IR_OP_ADD, IR_OP_SUB, IR_OP_MUL, IR_OP_DIV, IR_OP_MOD};
      i_lhs i = Some a; i_rhs i = Some b; i_result i = Some r;
      numeric (v_type a); v_type b = v_type a; v_type r = v_type a \<rbrakk> \<Longrightarrow> typed_inst m f i"
| neg: "\<lbrakk> i_op i = IR_OP_NEG; i_lhs i = Some a; i_result i = Some r;
      numeric (v_type a); v_type r = v_type a \<rbrakk> \<Longrightarrow> typed_inst m f i"
| compare: "\<lbrakk> i_op i \<in> {IR_OP_EQ, IR_OP_NE, IR_OP_LT, IR_OP_LE, IR_OP_GT, IR_OP_GE};
      i_lhs i = Some a; i_rhs i = Some b; i_result i = Some r;
      same_type (v_type a) (v_type b); v_type r = Ty_Bool \<rbrakk> \<Longrightarrow> typed_inst m f i"
| logical: "\<lbrakk> i_op i \<in> {IR_OP_AND, IR_OP_OR}; i_lhs i = Some a; i_rhs i = Some b; i_result i = Some r;
      v_type a = Ty_Bool; v_type b = Ty_Bool; v_type r = Ty_Bool \<rbrakk> \<Longrightarrow> typed_inst m f i"
| not: "\<lbrakk> i_op i = IR_OP_NOT; i_lhs i = Some a; i_result i = Some r;
      v_type a = Ty_Bool; v_type r = Ty_Bool \<rbrakk> \<Longrightarrow> typed_inst m f i"
| call_known: "\<lbrakk> i_op i = IR_OP_CALL; i_callee i = Some callee; m = Some md;
      ir_module_find_function md callee = Some g;
      list_all2 (\<lambda>a p. same_type (v_type a) (p_type p)) (i_args i) (fn_params g);
      same_type (i_type i) (fn_return_type g) \<rbrakk> \<Longrightarrow> typed_inst m f i"
| call_unknown: "\<lbrakk> i_op i = IR_OP_CALL; i_callee i = Some callee;
      \<And>md. m = Some md \<Longrightarrow> ir_module_find_function md callee = None \<rbrakk> \<Longrightarrow> typed_inst m f i"
| print: "\<lbrakk> i_op i = IR_OP_PRINT; i_lhs i = Some v \<rbrakk> \<Longrightarrow> typed_inst m f i"
| dealloc: "\<lbrakk> i_op i \<in> {IR_OP_FREE, IR_OP_RELEASE}; i_lhs i = Some v; v_type v = Ty_Ptr e \<rbrakk>
    \<Longrightarrow> typed_inst m f i"
| phi: "\<lbrakk> i_op i = IR_OP_PHI; i_result i = Some r; i_phis i \<noteq> [];
      list_all (\<lambda>(b, v). b \<noteq> None \<and> (\<exists>w. v = Some w \<and> same_type (v_type r) (v_type w))) (i_phis i) \<rbrakk>
    \<Longrightarrow> typed_inst m f i"
| br: "\<lbrakk> i_op i = IR_OP_BR; i_true i = Some t; t \<in> set (fn_order f) \<rbrakk> \<Longrightarrow> typed_inst m f i"
| condbr: "\<lbrakk> i_op i = IR_OP_CONDBR; i_lhs i = Some c; v_type c = Ty_Bool;
      i_true i = Some t; i_false i = Some e; t \<in> set (fn_order f); e \<in> set (fn_order f) \<rbrakk>
    \<Longrightarrow> typed_inst m f i"
| ret_void: "\<lbrakk> i_op i = IR_OP_RET; fn_return_type f = Ty_Void;
      \<And>v. i_lhs i = Some v \<Longrightarrow> v_type v = Ty_Void \<rbrakk> \<Longrightarrow> typed_inst m f i"
| ret: "\<lbrakk> i_op i = IR_OP_RET; fn_return_type f \<noteq> Ty_Void; i_lhs i = Some v;
      same_type (v_type v) (fn_return_type f) \<rbrakk> \<Longrightarrow> typed_inst m f i"
| no_check: "i_op i \<in> {IR_OP_GET_FIELD, IR_OP_SET_FIELD, IR_OP_GET_INDEX, IR_OP_SET_INDEX, IR_OP_ALLOC}
    \<Longrightarrow> typed_inst m f i"

lemma check_phi_operands_None:
  "check_phi_operands rt n ops = None \<longleftrightarrow>
     list_all (\<lambda>(b, v). b \<noteq> None \<and> (\<exists>w. v = Some w \<and> same_type rt (v_type w))) ops"
  by (induction rt n ops rule: check_phi_operands.induct) (auto simp: ir_type_equals_iff)

lemma check_args_None:
  "length as = length ps \<Longrightarrow> check_args callee n as ps = None \<longleftrightarrow>
     list_all2 (\<lambda>a p. same_type (v_type a) (p_type p)) as ps"
  by (induction callee n as ps rule: check_args.induct) (auto simp: ir_type_equals_iff)

lemma check_args_ok:
  "list_all2 (\<lambda>a p. same_type (v_type a) (p_type p)) as ps \<Longrightarrow> check_args callee n as ps = None"
  using check_args_None list_all2_lengthD by blast

lemmas check_defs = check_alloca_def check_load_def check_store_def check_const_def check_phi_def
  check_arith_def check_neg_def check_compare_def check_logical_def check_not_def check_call_def
  check_br_def check_condbr_def check_ret_def check_print_def check_dealloc_def

lemma points_to_simps: "points_to (Ty_Ptr e) t \<longleftrightarrow> (case e of None \<Rightarrow> True | Some u \<Rightarrow> same_type t u)"
  "points_to p t \<Longrightarrow> \<exists>e. p = Ty_Ptr e"
  by (auto simp: points_to_def split: option.splits)

lemma instruction_detail_None: "instruction_detail m f i = None \<longleftrightarrow> typed_inst m f i"
proof (cases "i_op i")
  case IR_OP_LOAD
  show ?thesis unfolding typed_inst.simps [of m f i] using IR_OP_LOAD
    by (auto simp: instruction_detail_def check_load_def ir_type_equals_iff points_to_def
          split: option.splits if_splits)
next
  case IR_OP_STORE
  show ?thesis unfolding typed_inst.simps [of m f i] using IR_OP_STORE
    by (auto simp: instruction_detail_def check_store_def ir_type_equals_iff points_to_def
          split: option.splits if_splits)
next
  case IR_OP_CALL
  show ?thesis unfolding typed_inst.simps [of m f i] using IR_OP_CALL
    by (auto simp: instruction_detail_def check_call_def ir_type_equals_iff check_args_None check_args_ok
          split: option.splits if_splits dest: list_all2_lengthD)
qed (auto simp: typed_inst.simps [of m f i] instruction_detail_def check_defs ir_type_equals_iff
       block_exists_in_fn_def check_phi_operands_None split: option.splits if_splits)

section \<open>Well-formed blocks and functions\<close>

text \<open>Phis, then other instructions, then the one terminator; all of them typed.\<close>

definition well_formed_block :: "ir_module option \<Rightarrow> ir_function \<Rightarrow> ir_block \<Rightarrow> bool" where
  "well_formed_block m f bb \<longleftrightarrow>
     (\<exists>phis body t. bb_insts bb = phis @ body @ [t] \<and>
        (\<forall>i \<in> set phis. i_op i = IR_OP_PHI) \<and>
        (\<forall>i \<in> set body. i_op i \<noteq> IR_OP_PHI \<and> \<not> ir_is_terminator (i_op i)) \<and>
        ir_is_terminator (i_op t)) \<and>
     (\<forall>i \<in> set (bb_insts bb). typed_inst m f i)"

definition well_formed_function :: "ir_module option \<Rightarrow> ir_function \<Rightarrow> bool" where
  "well_formed_function m f \<longleftrightarrow>
     fn_order f \<noteq> [] \<and> fn_entry f = Some (hd (fn_order f)) \<and>
     (\<forall>b \<in> set (fn_order f). well_formed_block m f (block_at f b))"

lemma verify_instruction_None: "verify_instruction m f bb i = None \<longleftrightarrow> typed_inst m f i"
  by (simp add: verify_instruction_def instruction_detail_None)

text \<open>The instructions after the leading phis, and that none of them is a phi.\<close>

definition drop_phis :: "ir_inst list \<Rightarrow> ir_inst list" where
  "drop_phis is = dropWhile (\<lambda>i. i_op i = IR_OP_PHI) is"

definition no_phi :: "ir_inst list \<Rightarrow> bool" where
  "no_phi is \<longleftrightarrow> (\<forall>i \<in> set is. i_op i \<noteq> IR_OP_PHI)"

lemma drop_phis_simps [simp]:
  "drop_phis [] = []"
  "drop_phis (i # is) = (if i_op i = IR_OP_PHI then drop_phis is else i # is)"
  by (simp_all add: drop_phis_def)

lemma no_phi_simps [simp]:
  "no_phi []" "no_phi (i # is) \<longleftrightarrow> i_op i \<noteq> IR_OP_PHI \<and> no_phi is"
  by (simp_all add: no_phi_def)

lemma terminator_not_phi: "ir_is_terminator IR_OP_PHI = False"
  by (simp add: ir_is_terminator_def)

lemma verify_insts_None:
  "verify_insts m f bb seen is = None \<longleftrightarrow>
     no_phi (if seen then is else drop_phis is) \<and>
     (\<forall>i \<in> set (butlast is). \<not> ir_is_terminator (i_op i)) \<and> (\<forall>i \<in> set is. typed_inst m f i)"
proof (induction "is" arbitrary: seen)
  case Nil
  then show ?case by simp
next
  case (Cons i rest)
  show ?case
  proof (cases "typed_inst m f i")
    case False
    then obtain e where "verify_instruction m f bb i = Some e"
      using verify_instruction_None [of m f bb i] by auto
    then show ?thesis using False by simp
  next
    case True
    then have v: "verify_instruction m f bb i = None" by (simp add: verify_instruction_None)
    show ?thesis
    proof (cases "i_op i = IR_OP_PHI")
      case phi: True
      then show ?thesis using v True Cons.IH [of seen] terminator_not_phi by (cases "rest = []") auto
    next
      case False
      then show ?thesis using v True Cons.IH [of True] by (cases "rest = []") auto
    qed
  qed
qed

lemma phis_first_split:
  assumes "is \<noteq> []" and "ir_is_terminator (i_op (last is))"
    and "no_phi (drop_phis is)"
    and "\<forall>i \<in> set (butlast is). \<not> ir_is_terminator (i_op i)"
  shows "\<exists>phis body t. is = phis @ body @ [t] \<and> (\<forall>i \<in> set phis. i_op i = IR_OP_PHI) \<and>
     (\<forall>i \<in> set body. i_op i \<noteq> IR_OP_PHI \<and> \<not> ir_is_terminator (i_op i)) \<and> ir_is_terminator (i_op t)"
proof -
  define phis where "phis = takeWhile (\<lambda>i. i_op i = IR_OP_PHI) is"
  define rest where "rest = drop_phis is"
  have split: "is = phis @ rest" by (simp add: phis_def rest_def drop_phis_def)
  have ph: "\<forall>i \<in> set phis. i_op i = IR_OP_PHI" unfolding phis_def by (auto dest: set_takeWhileD)
  have "rest \<noteq> []"
  proof
    assume "rest = []"
    then have "last is \<in> set phis" using split assms(1) last_in_set [of "is"] by simp
    then have "i_op (last is) = IR_OP_PHI" using ph by blast
    then show False using assms(2) terminator_not_phi by simp
  qed
  then have r: "rest = butlast rest @ [last rest]" "last is = last rest"
    "butlast is = phis @ butlast rest" using split by (simp_all add: butlast_append)
  have "is = phis @ butlast rest @ [last rest]" using split r(1) by simp
  moreover have "\<forall>i \<in> set (butlast rest). i_op i \<noteq> IR_OP_PHI \<and> \<not> ir_is_terminator (i_op i)"
  proof
    fix i assume i: "i \<in> set (butlast rest)"
    then have "i_op i \<noteq> IR_OP_PHI" using assms(3) in_set_butlastD unfolding rest_def [symmetric] no_phi_def by metis
    moreover have "i \<in> set (butlast is)" using i r(3) by simp
    ultimately show "i_op i \<noteq> IR_OP_PHI \<and> \<not> ir_is_terminator (i_op i)" using assms(4) by blast
  qed
  moreover have "ir_is_terminator (i_op (last rest))" using assms(2) r(2) by simp
  ultimately show ?thesis using ph by blast
qed

lemma phis_first_join:
  assumes "\<forall>i \<in> set phis. i_op i = IR_OP_PHI" and "no_phi (body @ [t])"
  shows "drop_phis (phis @ body @ [t]) = body @ [t]"
proof -
  have "drop_phis (body @ [t]) = body @ [t]" using assms(2) by (cases body) auto
  then show ?thesis using assms(1) by (induction phis) auto
qed

lemma verify_block_None: "verify_block m f bb = None \<longleftrightarrow> well_formed_block m f bb"
proof
  assume "verify_block m f bb = None"
  then have "bb_insts bb \<noteq> []" "verify_insts m f bb False (bb_insts bb) = None"
    "ir_is_terminator (i_op (last (bb_insts bb)))"
    by (auto simp: verify_block_def split: if_splits option.splits)
  note h = this
  have v: "no_phi (drop_phis (bb_insts bb))"
    "\<forall>i \<in> set (butlast (bb_insts bb)). \<not> ir_is_terminator (i_op i)"
    "\<forall>i \<in> set (bb_insts bb). typed_inst m f i"
    using h(2) [unfolded verify_insts_None] by simp_all
  show "well_formed_block m f bb"
    unfolding well_formed_block_def using phis_first_split [OF h(1,3) v(1,2)] v(3) by (rule conjI)
next
  assume "well_formed_block m f bb"
  then obtain phis body t where d: "bb_insts bb = phis @ body @ [t]"
    "\<forall>i \<in> set phis. i_op i = IR_OP_PHI"
    "\<forall>i \<in> set body. i_op i \<noteq> IR_OP_PHI \<and> \<not> ir_is_terminator (i_op i)"
    "ir_is_terminator (i_op t)" "\<forall>i \<in> set (bb_insts bb). typed_inst m f i"
    by (auto simp: well_formed_block_def)
  have t: "i_op t \<noteq> IR_OP_PHI" using d(4) terminator_not_phi by metis
  have n: "\<forall>i \<in> set phis. \<not> ir_is_terminator (i_op i)" using d(2) terminator_not_phi by simp
  have "verify_insts m f bb False (bb_insts bb) = None"
    unfolding verify_insts_None
  proof (intro conjI)
    have np: "no_phi (body @ [t])" using d(3) t by (auto simp: no_phi_def)
    then have "drop_phis (bb_insts bb) = body @ [t]"
      unfolding d(1) using d(2) by (intro phis_first_join)
    then show "no_phi (if False then bb_insts bb else drop_phis (bb_insts bb))" using np by simp
    show "\<forall>i \<in> set (butlast (bb_insts bb)). \<not> ir_is_terminator (i_op i)"
      unfolding d(1) using d(3) n by (auto simp: butlast_append)
  qed (rule d(5))
  then show "verify_block m f bb = None" using d by (simp add: verify_block_def)
qed

lemma first_error_None: "first_error check xs = None \<longleftrightarrow> (\<forall>x \<in> set xs. check x = None)"
  by (induction xs) (auto split: option.splits)

lemma first_error_Some:
  "first_error check xs = Some e \<longleftrightarrow>
     (\<exists>pre x post. xs = pre @ x # post \<and> (\<forall>y \<in> set pre. check y = None) \<and> check x = Some e)"
proof (induction xs)
  case Nil
  then show ?case by simp
next
  case (Cons a xs)
  show ?case
  proof (cases "check a")
    case None
    then have "first_error check (a # xs) = Some e \<longleftrightarrow>
      (\<exists>pre x post. xs = pre @ x # post \<and> (\<forall>y \<in> set pre. check y = None) \<and> check x = Some e)"
      using Cons by simp
    also have "\<dots> \<longleftrightarrow> (\<exists>pre x post. a # xs = pre @ x # post \<and> (\<forall>y \<in> set pre. check y = None) \<and> check x = Some e)"
      using None by (auto simp: Cons_eq_append_conv) (metis set_ConsD)+
    finally show ?thesis .
  next
    case (Some e')
    have "\<exists>pre x post. a # xs = pre @ x # post \<and> (\<forall>y \<in> set pre. check y = None) \<and> check x = Some e'"
      using Some by (intro exI [of _ "[]"] exI [of _ a] exI [of _ xs]) simp
    then show ?thesis using Some by (auto simp: Cons_eq_append_conv)
  qed
qed

lemma verify_function_None: "ir_verify_function m f = None \<longleftrightarrow> well_formed_function m f"
  by (auto simp: ir_verify_function_def well_formed_function_def first_error_None fn_blocks_def
      verify_block_None)

section \<open>Properties\<close>

text \<open>The verifier accepts an instruction exactly when a rule of the typing judgement gives it
  a type, whatever block it stands in.\<close>

theorem verify_instruction_typing: "verify_instruction m f bb i = None \<longleftrightarrow> typed_inst m f i"
  by (rule verify_instruction_None)

text \<open>C6. The verifier accepts exactly the well-formed functions: the entry is the first block,
  and every block is phis, other instructions and one terminator, all typed.\<close>

theorem verify_function_well_formed:
  "ir_verify_function m f = None \<longleftrightarrow>
     fn_order f \<noteq> [] \<and> fn_entry f = Some (hd (fn_order f)) \<and>
     list_all (\<lambda>b. well_formed_block m f (block_at f b)) (fn_order f)"
  using verify_function_None by (simp add: well_formed_function_def list_all_iff)

definition verified_sample :: ir_function where
  "verified_sample = two_blocks\<lparr>fn_heap :=
     [(block_at two_blocks 0),
      (block_at two_blocks 1)\<lparr>bb_insts := [(create_instruction IR_OP_CONDBR Ty_Void)
         \<lparr>i_lhs := Some (ir_val_const_bool True), i_true := Some 1, i_false := Some 0\<rparr>]\<rparr>]\<rparr>"

lemmas verified_sample_eval = verified_sample_def two_blocks_def block_at_def ir_new_function_def
  create_instruction_def

lemma verified_sample_ok: "ir_verify_function None verified_sample = None"
  by (simp add: verified_sample_eval ir_verify_function_def fn_blocks_def verify_block_def
      verify_instruction_def instruction_detail_def check_br_def check_condbr_def
      block_exists_in_fn_def ir_is_terminator_def ir_val_const_bool_def ir_type_bool_def)

text \<open>C33. Control cannot leave a function that the verifier accepts except by returning: after
  the edges are recomputed, the successors of a block are blocks of the function, and only a
  block that ends in a return has none.\<close>

theorem verified_control_stays_inside:
  assumes "ir_verify_function m f = None"
    and "distinct (fn_order f)" and "set (fn_order f) \<subseteq> {..<length (fn_heap f)}"
    and "b \<in> set (fn_order f)"
  shows "set (bb_succs (block_at (ir_recompute_cfg f) b)) \<subseteq> set (fn_order f) \<and>
    (bb_succs (block_at (ir_recompute_cfg f) b) = [] \<longleftrightarrow> i_op (last (bb_insts (block_at f b))) = IR_OP_RET)"
proof -
  have "well_formed_block m f (block_at f b)"
    using assms(1,4) by (simp add: verify_function_None well_formed_function_def)
  then obtain t xs where t: "bb_insts (block_at f b) = xs @ [t]" "ir_is_terminator (i_op t)"
    "typed_inst m f t"
    unfolding well_formed_block_def by (metis append.assoc in_set_conv_decomp)
  have tg: "block_targets f b = inst_targets t" using t(1) by (simp add: block_targets_def last_inst_def)
  have s: "bb_succs (block_at (ir_recompute_cfg f) b) = dedup_onto [] (inst_targets t)"
    using recompute_cfg_spec [OF assms(2,3)] assms(4) tg by simp
  have e: "dedup_onto [] ts = [] \<longleftrightarrow> ts = []" for ts
    using set_dedup_onto [of "[]" ts] by auto
  from t(2) have "i_op t = IR_OP_BR \<or> i_op t = IR_OP_CONDBR \<or> i_op t = IR_OP_RET"
    by (simp add: ir_is_terminator_def)
  then show ?thesis unfolding s e set_dedup_onto using t(1,3)
    by (elim disjE) (auto simp: typed_inst.simps [of m f t] inst_targets_def)
qed

theorem verified_control_stays_inside_witness:
  "set (bb_succs (block_at (ir_recompute_cfg verified_sample) 1)) \<subseteq> set (fn_order verified_sample) \<and>
    (bb_succs (block_at (ir_recompute_cfg verified_sample) 1) = [] \<longleftrightarrow>
      i_op (last (bb_insts (block_at verified_sample 1))) = IR_OP_RET)"
  by (rule verified_control_stays_inside [OF verified_sample_ok]) (simp_all add: verified_sample_eval)

text \<open>A module is rejected with the message of the first function that is not well formed.\<close>

theorem verify_module_reports_first:
  "ir_verify_module m = Some e \<longleftrightarrow>
     (\<exists>pre f post. m_functions m = pre @ f # post \<and>
        list_all (well_formed_function (Some m)) pre \<and> ir_verify_function (Some m) f = Some e \<and>
        \<not> well_formed_function (Some m) f)"
proof -
  have "(ir_verify_function (Some m) f = Some e) =
    (ir_verify_function (Some m) f = Some e \<and> \<not> well_formed_function (Some m) f)" for f
    using verify_function_None [of "Some m" f] by auto
  then show ?thesis
    unfolding ir_verify_module_def first_error_Some verify_function_None list_all_iff by metis
qed

end
