(* ===== verification/Ir_Opt.thy ===== *)
theory Ir_Opt
  imports Ir_Verify "HOL-Library.While_Combinator" "HOL-Library.Signed_Division"
begin

text \<open>
  The optimiser of \<open>src/ir/ir_opt.c\<close>: its six passes and the driver that repeats them. A pass
  returns the function and whether it changed something. Values are compared by content where the
  code first compares pointers. Sums, differences and products of doubles are a parameter, as bit
  patterns; the tests and comparisons of doubles are defined on the bit patterns. \<open>None\<close> stands for
  behaviour that C leaves undefined: a signed overflow while folding.
\<close>

section \<open>Doubles\<close>

record float_ops =
  fp_add :: "u64 \<Rightarrow> u64 \<Rightarrow> u64"
  fp_sub :: "u64 \<Rightarrow> u64 \<Rightarrow> u64"
  fp_mul :: "u64 \<Rightarrow> u64 \<Rightarrow> u64"
  fp_div :: "u64 \<Rightarrow> u64 \<Rightarrow> u64"

definition f64_magnitude :: "u64 \<Rightarrow> nat" where
  "f64_magnitude x = unat (x AND 0x7FFFFFFFFFFFFFFF)"

definition f64_isfinite :: "u64 \<Rightarrow> bool" where
  "f64_isfinite x \<longleftrightarrow> f64_magnitude x < 0x7FF0000000000000"

definition f64_isnan :: "u64 \<Rightarrow> bool" where
  "f64_isnan x \<longleftrightarrow> f64_magnitude x > 0x7FF0000000000000"

definition f64_neg :: "u64 \<Rightarrow> u64" where
  "f64_neg x = x XOR 0x8000000000000000"

text \<open>The order of the doubles, with one zero.\<close>

definition f64_rank :: "u64 \<Rightarrow> int" where
  "f64_rank x = (if bit x 63 then - int (f64_magnitude x) else int (f64_magnitude x))"

definition f64_eq :: "u64 \<Rightarrow> u64 \<Rightarrow> bool" where
  "f64_eq x y \<longleftrightarrow> \<not> f64_isnan x \<and> \<not> f64_isnan y \<and> f64_rank x = f64_rank y"

definition f64_less :: "u64 \<Rightarrow> u64 \<Rightarrow> bool" where
  "f64_less x y \<longleftrightarrow> \<not> f64_isnan x \<and> \<not> f64_isnan y \<and> f64_rank x < f64_rank y"

definition f64_le :: "u64 \<Rightarrow> u64 \<Rightarrow> bool" where
  "f64_le x y \<longleftrightarrow> f64_less x y \<or> f64_eq x y"

section \<open>Values and instructions\<close>

definition same_value :: "ir_value option \<Rightarrow> ir_value option \<Rightarrow> bool" where
  "same_value a b =
     (if a = b then True
      else case (a, b) of
        (Some x, Some y) \<Rightarrow>
          (case (v_kind x, v_kind y) of
             (IR_VAL_REG, IR_VAL_REG) \<Rightarrow> v_id x = v_id y
           | (IR_VAL_VAR, IR_VAL_VAR) \<Rightarrow> v_name x \<noteq> None \<and> v_name x = v_name y
           | (IR_VAL_CONST_INT m, IR_VAL_CONST_INT n) \<Rightarrow> m = n
           | (IR_VAL_CONST_BOOL p, IR_VAL_CONST_BOOL q) \<Rightarrow> p = q
           | (IR_VAL_CONST_FLOAT p, IR_VAL_CONST_FLOAT q) \<Rightarrow> f64_eq p q
           | (IR_VAL_CONST_CHAR c, IR_VAL_CONST_CHAR d) \<Rightarrow> c = d
           | (IR_VAL_CONST_STRING s, IR_VAL_CONST_STRING t) \<Rightarrow> s \<noteq> None \<and> s = t
           | _ \<Rightarrow> False)
      | _ \<Rightarrow> False)"

text \<open>An operand that exists is replaced if it is the old value.\<close>

definition replace_operand :: "ir_value \<Rightarrow> ir_value \<Rightarrow> ir_value option \<Rightarrow> ir_value option" where
  "replace_operand old new v = (if v \<noteq> None \<and> same_value v (Some old) then Some new else v)"

definition replace_value_uses_in_inst :: "ir_value \<Rightarrow> ir_value \<Rightarrow> ir_inst \<Rightarrow> ir_inst" where
  "replace_value_uses_in_inst old new i =
     i\<lparr>i_lhs := replace_operand old new (i_lhs i), i_rhs := replace_operand old new (i_rhs i),
       i_args := map (\<lambda>a. if same_value (Some a) (Some old) then new else a) (i_args i)\<rparr>"

definition uses_value :: "ir_value \<Rightarrow> ir_inst \<Rightarrow> bool" where
  "uses_value v i \<longleftrightarrow> i_lhs i \<noteq> None \<and> same_value (i_lhs i) (Some v) \<or> i_rhs i \<noteq> None \<and> same_value (i_rhs i) (Some v) \<or>
     list_ex (\<lambda>a. same_value (Some a) (Some v)) (i_args i)"

text \<open>All instructions of the blocks of a function, in order.\<close>

definition map_insts :: "(ir_inst \<Rightarrow> ir_inst) \<Rightarrow> ir_function \<Rightarrow> ir_function" where
  "map_insts g f = fold (\<lambda>b. update_block b (\<lambda>bb. bb\<lparr>bb_insts := map g (bb_insts bb)\<rparr>)) (fn_order f) f"

definition fn_insts :: "ir_function \<Rightarrow> ir_inst list" where
  "fn_insts f = concat (map (\<lambda>b. bb_insts (block_at f b)) (fn_order f))"

definition replace_value_uses_in_fn :: "ir_value \<Rightarrow> ir_value \<Rightarrow> ir_function \<Rightarrow> ir_function \<times> bool" where
  "replace_value_uses_in_fn old new f =
     (map_insts (replace_value_uses_in_inst old new) f, list_ex (uses_value old) (fn_insts f))"

definition to_const :: "ir_value option \<Rightarrow> ir_inst \<Rightarrow> ir_inst" where
  "to_const v i = i\<lparr>i_op := IR_OP_CONST, i_lhs := v, i_rhs := None\<rparr>"

section \<open>Constant folding\<close>

datatype fold_outcome = Keep | Folded ir_value | Overflow

definition int_operands :: "ir_inst \<Rightarrow> (u64 \<times> u64) option" where
  "int_operands i =
     (case (map_option v_kind (i_lhs i), map_option v_kind (i_rhs i)) of
        (Some (IR_VAL_CONST_INT a), Some (IR_VAL_CONST_INT b)) \<Rightarrow> Some (a, b) | _ \<Rightarrow> None)"

definition float_operands :: "ir_inst \<Rightarrow> (u64 \<times> u64) option" where
  "float_operands i =
     (case (map_option v_kind (i_lhs i), map_option v_kind (i_rhs i)) of
        (Some (IR_VAL_CONST_FLOAT a), Some (IR_VAL_CONST_FLOAT b)) \<Rightarrow> Some (a, b) | _ \<Rightarrow> None)"

definition bool_operands :: "ir_inst \<Rightarrow> (bool \<times> bool) option" where
  "bool_operands i =
     (case (map_option v_kind (i_lhs i), map_option v_kind (i_rhs i)) of
        (Some (IR_VAL_CONST_BOOL a), Some (IR_VAL_CONST_BOOL b)) \<Rightarrow> Some (a, b) | _ \<Rightarrow> None)"

text \<open>A result of type \<open>int64_t\<close>.\<close>

definition int_result :: "ir_inst \<Rightarrow> int \<Rightarrow> fold_outcome" where
  "int_result i r =
     (if - (2 ^ 63) \<le> r \<and> r < 2 ^ 63 then Folded (ir_val_const_int (Some (i_type i)) (word_of_int r)) else Overflow)"

definition fold_int_arith :: "ir_inst \<Rightarrow> fold_outcome" where
  "fold_int_arith i =
     (case int_operands i of
        None \<Rightarrow> Keep
      | Some (a, b) \<Rightarrow>
          if i_op i = IR_OP_ADD then int_result i (sint a + sint b)
          else if i_op i = IR_OP_SUB then int_result i (sint a - sint b)
          else if i_op i = IR_OP_MUL then int_result i (sint a * sint b)
          else if i_op i = IR_OP_DIV then (if b \<noteq> 0 then int_result i (sint a sdiv sint b) else Keep)
          else if i_op i = IR_OP_MOD
          then (if b = 0 then Keep
                else if sint a = - (2 ^ 63) \<and> sint b = - 1 then Overflow
                else int_result i (sint a smod sint b))
          else Keep)"

definition fold_neg :: "ir_inst \<Rightarrow> fold_outcome" where
  "fold_neg i =
     (if i_op i = IR_OP_NEG
      then (case map_option v_kind (i_lhs i) of
              Some (IR_VAL_CONST_INT a) \<Rightarrow> int_result i (- sint a)
            | Some (IR_VAL_CONST_FLOAT a) \<Rightarrow> Folded (ir_val_const_float (f64_neg a))
            | _ \<Rightarrow> Keep)
      else Keep)"

definition float_result :: "u64 \<Rightarrow> fold_outcome" where
  "float_result r = (if f64_isfinite r then Folded (ir_val_const_float r) else Keep)"

definition fold_float_arith :: "float_ops \<Rightarrow> ir_inst \<Rightarrow> fold_outcome" where
  "fold_float_arith fp i =
     (case float_operands i of
        None \<Rightarrow> Keep
      | Some (a, b) \<Rightarrow>
          if \<not> f64_isfinite a \<or> \<not> f64_isfinite b then Keep
          else if i_op i = IR_OP_ADD then float_result (fp_add fp a b)
          else if i_op i = IR_OP_SUB then float_result (fp_sub fp a b)
          else if i_op i = IR_OP_MUL then float_result (fp_mul fp a b)
          else if i_op i = IR_OP_DIV then (if f64_eq b 0 then Keep else float_result (fp_div fp a b))
          else Keep)"

definition bool_result :: "bool \<Rightarrow> fold_outcome" where
  "bool_result r = Folded (ir_val_const_bool r)"

definition fold_int_compare :: "ir_inst \<Rightarrow> fold_outcome" where
  "fold_int_compare i =
     (case int_operands i of
        None \<Rightarrow> Keep
      | Some (a, b) \<Rightarrow>
          if i_op i = IR_OP_EQ then bool_result (a = b)
          else if i_op i = IR_OP_NE then bool_result (a \<noteq> b)
          else if i_op i = IR_OP_LT then bool_result (sint a < sint b)
          else if i_op i = IR_OP_LE then bool_result (sint a \<le> sint b)
          else if i_op i = IR_OP_GT then bool_result (sint a > sint b)
          else if i_op i = IR_OP_GE then bool_result (sint a \<ge> sint b)
          else Keep)"

definition fold_float_compare :: "ir_inst \<Rightarrow> fold_outcome" where
  "fold_float_compare i =
     (case float_operands i of
        None \<Rightarrow> Keep
      | Some (a, b) \<Rightarrow>
          if \<not> f64_isfinite a \<or> \<not> f64_isfinite b then Keep
          else if i_op i = IR_OP_EQ then bool_result (f64_eq a b)
          else if i_op i = IR_OP_NE then bool_result (\<not> f64_eq a b)
          else if i_op i = IR_OP_LT then bool_result (f64_less a b)
          else if i_op i = IR_OP_LE then bool_result (f64_le a b)
          else if i_op i = IR_OP_GT then bool_result (f64_less b a)
          else if i_op i = IR_OP_GE then bool_result (f64_le b a)
          else Keep)"

definition fold_logical :: "ir_inst \<Rightarrow> fold_outcome" where
  "fold_logical i =
     (case bool_operands i of
        None \<Rightarrow> Keep
      | Some (a, b) \<Rightarrow>
          if i_op i = IR_OP_AND then bool_result (a \<and> b)
          else if i_op i = IR_OP_OR then bool_result (a \<or> b)
          else Keep)"

definition fold_not :: "ir_inst \<Rightarrow> fold_outcome" where
  "fold_not i =
     (if i_op i = IR_OP_NOT
      then (case map_option v_kind (i_lhs i) of Some (IR_VAL_CONST_BOOL a) \<Rightarrow> bool_result (\<not> a) | _ \<Rightarrow> Keep)
      else Keep)"

fun first_fold :: "fold_outcome list \<Rightarrow> fold_outcome" where
  "first_fold [] = Keep"
| "first_fold (r # rs) = (if r = Keep then first_fold rs else r)"

definition fold_rules :: "float_ops \<Rightarrow> ir_inst \<Rightarrow> fold_outcome" where
  "fold_rules fp i = first_fold [fold_int_arith i, fold_neg i, fold_float_arith fp i, fold_int_compare i,
     fold_float_compare i, fold_logical i, fold_not i]"

definition fold_inst :: "float_ops \<Rightarrow> ir_inst \<Rightarrow> (ir_inst \<times> bool) option" where
  "fold_inst fp i =
     (if i_result i = None then Some (i, False)
      else case fold_rules fp i of
             Keep \<Rightarrow> Some (i, False)
           | Folded v \<Rightarrow> Some (to_const (Some v) i, True)
           | Overflow \<Rightarrow> None)"

fun fold_insts :: "float_ops \<Rightarrow> ir_inst list \<Rightarrow> (ir_inst list \<times> bool) option" where
  "fold_insts fp [] = Some ([], False)"
| "fold_insts fp (i # is) =
     (case (fold_inst fp i, fold_insts fp is) of
        (Some (i, c), Some (is, d)) \<Rightarrow> Some (i # is, c \<or> d) | _ \<Rightarrow> None)"

fun fold_blocks :: "float_ops \<Rightarrow> nat list \<Rightarrow> ir_function \<times> bool \<Rightarrow> (ir_function \<times> bool) option" where
  "fold_blocks fp [] s = Some s"
| "fold_blocks fp (b # bs) (f, c) =
     (case fold_insts fp (bb_insts (block_at f b)) of
        None \<Rightarrow> None
      | Some (is, d) \<Rightarrow> fold_blocks fp bs (update_block b (\<lambda>bb. bb\<lparr>bb_insts := is\<rparr>) f, c \<or> d))"

definition ir_opt_constant_folding :: "float_ops \<Rightarrow> ir_function \<Rightarrow> (ir_function \<times> bool) option" where
  "ir_opt_constant_folding fp f = fold_blocks fp (fn_order f) (f, False)"

section \<open>Constant propagation\<close>

definition is_reg :: "nat \<Rightarrow> ir_value option \<Rightarrow> bool" where
  "is_reg bound v = (case v of Some w \<Rightarrow> v_kind w = IR_VAL_REG \<and> v_id w < bound | None \<Rightarrow> False)"

definition max_id :: "ir_function \<Rightarrow> nat" where
  "max_id f = fn_next_reg f + 1"

definition def_count :: "ir_function \<Rightarrow> nat \<Rightarrow> nat" where
  "def_count f n = count_if (\<lambda>i. is_reg (max_id f) (i_result i) \<and> v_id (the (i_result i)) = n) (fn_insts f)"

definition is_literal :: "ir_value \<Rightarrow> bool" where
  "is_literal v = (case v_kind v of
     IR_VAL_CONST_INT n \<Rightarrow> True | IR_VAL_CONST_FLOAT n \<Rightarrow> True | IR_VAL_CONST_BOOL b \<Rightarrow> True
   | IR_VAL_CONST_CHAR c \<Rightarrow> True | IR_VAL_CONST_STRING s \<Rightarrow> True | _ \<Rightarrow> False)"

definition note_const :: "ir_function \<Rightarrow> ir_inst \<Rightarrow> (nat \<Rightarrow> ir_value option) \<Rightarrow> nat \<Rightarrow> ir_value option" where
  "note_const f i cmap =
     (case (i_result i, i_lhs i) of
        (Some r, Some v) \<Rightarrow>
          if i_op i = IR_OP_CONST \<and> v_id r < max_id f \<and> def_count f (v_id r) = 1 \<and> is_literal v
          then cmap(v_id r := Some v) else cmap
      | _ \<Rightarrow> cmap)"

definition const_map :: "ir_function \<Rightarrow> nat \<Rightarrow> ir_value option" where
  "const_map f = fold (note_const f) (fn_insts f) (\<lambda>_. None)"

definition known_const :: "ir_function \<Rightarrow> ir_value option \<Rightarrow> ir_value option" where
  "known_const f v = (if is_reg (max_id f) v then const_map f (v_id (the v)) else None)"

definition propagate_operand :: "ir_function \<Rightarrow> ir_value option \<Rightarrow> ir_value option" where
  "propagate_operand f v = (case known_const f v of Some c \<Rightarrow> Some c | None \<Rightarrow> v)"

definition propagate_inst :: "ir_function \<Rightarrow> ir_inst \<Rightarrow> ir_inst" where
  "propagate_inst f i =
     (if i_op i = IR_OP_CONST then i
      else i\<lparr>i_lhs := propagate_operand f (i_lhs i), i_rhs := propagate_operand f (i_rhs i),
             i_args := map (\<lambda>a. the (propagate_operand f (Some a))) (i_args i)\<rparr>)"

definition propagates :: "ir_function \<Rightarrow> ir_inst \<Rightarrow> bool" where
  "propagates f i \<longleftrightarrow> i_op i \<noteq> IR_OP_CONST \<and>
     (known_const f (i_lhs i) \<noteq> None \<or> known_const f (i_rhs i) \<noteq> None \<or>
      list_ex (\<lambda>a. known_const f (Some a) \<noteq> None) (i_args i))"

definition ir_opt_constant_propagation :: "ir_function \<Rightarrow> ir_function \<times> bool" where
  "ir_opt_constant_propagation f = (map_insts (propagate_inst f) f, list_ex (propagates f) (fn_insts f))"

section \<open>Algebraic simplification\<close>

text \<open>
  A rule either puts a constant in place of the instruction, or replaces all uses of its result by
  one of its operands and makes it a copy of that operand.
\<close>

datatype simplification = No_Rule | Constant ir_value | Use_Lhs | Use_Rhs

definition is_int :: "int \<Rightarrow> ir_value option \<Rightarrow> bool" where
  "is_int n v = (case map_option v_kind v of Some (IR_VAL_CONST_INT m) \<Rightarrow> m = word_of_int n | _ \<Rightarrow> False)"

definition algebraic_rule :: "ir_inst \<Rightarrow> simplification" where
  "algebraic_rule i =
     (let zero = Constant (ir_val_const_int (Some (i_type i)) 0)
      in if i_rhs i = None then No_Rule
         else if i_op i = IR_OP_ADD
         then (if is_int 0 (i_rhs i) then Use_Lhs else if is_int 0 (i_lhs i) then Use_Rhs else No_Rule)
         else if i_op i = IR_OP_SUB
         then (if is_int 0 (i_rhs i) then Use_Lhs else if same_value (i_lhs i) (i_rhs i) then zero else No_Rule)
         else if i_op i = IR_OP_MUL
         then (if is_int 1 (i_rhs i) then Use_Lhs else if is_int 1 (i_lhs i) then Use_Rhs
               else if is_int 0 (i_rhs i) \<or> is_int 0 (i_lhs i) then zero else No_Rule)
         else if i_op i = IR_OP_DIV then (if is_int 1 (i_rhs i) then Use_Lhs else No_Rule)
         else if (i_op i = IR_OP_EQ \<or> i_op i = IR_OP_NE) \<and> same_value (i_lhs i) (i_rhs i)
         then Constant (ir_val_const_bool (i_op i = IR_OP_EQ))
         else No_Rule)"

definition inst_at :: "ir_function \<Rightarrow> nat \<Rightarrow> nat \<Rightarrow> ir_inst" where
  "inst_at f b k = bb_insts (block_at f b) ! k"

definition update_inst :: "nat \<Rightarrow> nat \<Rightarrow> (ir_inst \<Rightarrow> ir_inst) \<Rightarrow> ir_function \<Rightarrow> ir_function" where
  "update_inst b k g = update_block b (\<lambda>bb. bb\<lparr>bb_insts := (bb_insts bb)[k := g (bb_insts bb ! k)]\<rparr>)"

text \<open>The operand is the one of before the replacement; what becomes the constant is read after it.\<close>

definition simplify_at :: "nat \<times> nat \<Rightarrow> ir_function \<times> bool \<Rightarrow> ir_function \<times> bool" where
  "simplify_at = (\<lambda>(b, k) (f, changed).
     let i = inst_at f b k
     in case (i_result i, i_lhs i) of
          (Some r, Some l) \<Rightarrow>
            (case algebraic_rule i of
               No_Rule \<Rightarrow> (f, changed)
             | Constant v \<Rightarrow> (update_inst b k (to_const (Some v)) f, True)
             | Use_Lhs \<Rightarrow>
                 (update_inst b k (\<lambda>i. to_const (i_lhs i) i) (fst (replace_value_uses_in_fn r l f)), True)
             | Use_Rhs \<Rightarrow>
                 (update_inst b k (\<lambda>i. to_const (i_rhs i) i) (fst (replace_value_uses_in_fn r (the (i_rhs i)) f)), True))
        | _ \<Rightarrow> (f, changed))"

definition positions :: "ir_function \<Rightarrow> (nat \<times> nat) list" where
  "positions f = concat (map (\<lambda>b. map (Pair b) [0..<length (bb_insts (block_at f b))]) (fn_order f))"

definition ir_opt_algebraic_simplification :: "ir_function \<Rightarrow> ir_function \<times> bool" where
  "ir_opt_algebraic_simplification f = fold simplify_at (positions f) (f, False)"

section \<open>Forwarding of stored values\<close>

text \<open>At most 64 slots of a block, by name, with the value stored last. A call forgets them.\<close>

type_synonym slot_map = "(string \<times> ir_value option) list"

definition note_store :: "string \<Rightarrow> ir_value option \<Rightarrow> slot_map \<Rightarrow> slot_map" where
  "note_store nm v m =
     (if list_ex (\<lambda>e. fst e = nm) m then map (\<lambda>e. if fst e = nm then (nm, v) else e) m
      else if length m < 64 then m @ [(nm, v)] else m)"

definition slot_value :: "slot_map \<Rightarrow> string \<Rightarrow> ir_value option" where
  "slot_value m nm = (case List.find (\<lambda>e. fst e = nm \<and> snd e \<noteq> None) m of Some e \<Rightarrow> snd e | None \<Rightarrow> None)"

definition value_name :: "ir_value option \<Rightarrow> string option" where
  "value_name v = (case v of Some w \<Rightarrow> v_name w | None \<Rightarrow> None)"

definition forward_at :: "nat \<times> nat \<Rightarrow> (ir_function \<times> bool) \<times> slot_map \<Rightarrow> (ir_function \<times> bool) \<times> slot_map" where
  "forward_at = (\<lambda>(b, k) ((f, changed), m).
     let i = inst_at f b k
     in if i_op i = IR_OP_STORE \<and> value_name (i_rhs i) \<noteq> None
        then ((f, changed), note_store (the (value_name (i_rhs i))) (i_lhs i) m)
        else if i_op i = IR_OP_LOAD \<and> value_name (i_lhs i) \<noteq> None \<and> i_result i \<noteq> None
        then (case slot_value m (the (value_name (i_lhs i))) of
                Some v \<Rightarrow>
                  (case replace_value_uses_in_fn (the (i_result i)) v f of (f, c) \<Rightarrow> ((f, changed \<or> c), m))
              | None \<Rightarrow> ((f, changed), m))
        else if i_op i = IR_OP_CALL then ((f, changed), [])
        else ((f, changed), m))"

definition forward_block :: "nat \<Rightarrow> ir_function \<times> bool \<Rightarrow> ir_function \<times> bool" where
  "forward_block b s = fst (fold forward_at (map (Pair b) [0..<length (bb_insts (block_at (fst s) b))]) (s, []))"

definition ir_opt_copy_propagation :: "ir_function \<Rightarrow> ir_function \<times> bool" where
  "ir_opt_copy_propagation f = fold forward_block (fn_order f) (f, False)"

section \<open>Dead code elimination\<close>

definition is_instruction_side_effecting :: "ir_opcode \<Rightarrow> bool" where
  "is_instruction_side_effecting opc \<longleftrightarrow>
     opc \<in> {IR_OP_CALL, IR_OP_PRINT, IR_OP_STORE, IR_OP_ALLOCA, IR_OP_SET_FIELD, IR_OP_SET_INDEX, IR_OP_ALLOC,
       IR_OP_FREE, IR_OP_RELEASE, IR_OP_BR, IR_OP_CONDBR, IR_OP_RET}"

definition use_count :: "ir_function \<Rightarrow> nat \<Rightarrow> nat" where
  "use_count f n = count_if (\<lambda>v. is_reg (max_id f) v \<and> v_id (the v) = n)
     (concat (map (\<lambda>i. i_lhs i # i_rhs i # map Some (i_args i)) (fn_insts f)))"

definition is_dead :: "ir_function \<Rightarrow> ir_inst \<Rightarrow> bool" where
  "is_dead f i \<longleftrightarrow> is_reg (max_id f) (i_result i) \<and> use_count f (v_id (the (i_result i))) = 0 \<and>
     \<not> is_instruction_side_effecting (i_op i)"

text \<open>One round removes what the use counts of its start say is dead.\<close>

definition remove_dead :: "ir_function \<Rightarrow> ir_function" where
  "remove_dead f = fold (\<lambda>b. update_block b (\<lambda>bb. bb\<lparr>bb_insts := filter (\<lambda>i. \<not> is_dead f i) (bb_insts bb)\<rparr>)) (fn_order f) f"

definition dce_round :: "(ir_function \<times> bool) \<times> bool \<Rightarrow> (ir_function \<times> bool) \<times> bool" where
  "dce_round = (\<lambda>((f, local), any).
     let removed = list_ex (is_dead f) (fn_insts f) in ((remove_dead f, removed), any \<or> removed))"

definition ir_opt_dead_code_elimination :: "ir_function \<Rightarrow> (ir_function \<times> bool) option" where
  "ir_opt_dead_code_elimination f =
     map_option (\<lambda>((f, local), any). (f, any)) (while_option (\<lambda>s. snd (fst s)) dce_round ((f, True), False))"

section \<open>Branches and unreachable blocks\<close>

definition branch_to :: "nat option \<Rightarrow> ir_inst \<Rightarrow> ir_inst" where
  "branch_to t i = i\<lparr>i_op := IR_OP_BR, i_true := t, i_false := None, i_lhs := None\<rparr>"

text \<open>The value of a condition that is a literal.\<close>

definition const_condition :: "ir_value option \<Rightarrow> bool option" where
  "const_condition v = (case map_option v_kind v of
     Some (IR_VAL_CONST_BOOL b) \<Rightarrow> Some b | Some (IR_VAL_CONST_INT n) \<Rightarrow> Some (n \<noteq> 0) | _ \<Rightarrow> None)"

definition simplify_branch :: "ir_inst \<Rightarrow> ir_inst" where
  "simplify_branch i =
     (if i_op i \<noteq> IR_OP_CONDBR then i
      else case const_condition (i_lhs i) of
             Some c \<Rightarrow> branch_to (if c then i_true i else i_false i) i
           | None \<Rightarrow> if i_true i = i_false i then branch_to (i_true i) i else i)"

definition simplifies_branch :: "ir_inst \<Rightarrow> bool" where
  "simplifies_branch i \<longleftrightarrow> i_op i = IR_OP_CONDBR \<and> (const_condition (i_lhs i) \<noteq> None \<or> i_true i = i_false i)"

definition simplify_last :: "ir_block \<Rightarrow> ir_block" where
  "simplify_last bb =
     (if bb_insts bb = [] then bb else bb\<lparr>bb_insts := butlast (bb_insts bb) @ [simplify_branch (last (bb_insts bb))]\<rparr>)"

definition simplify_branches :: "ir_function \<Rightarrow> ir_function \<times> bool" where
  "simplify_branches f =
     (fold (\<lambda>b. update_block b simplify_last) (fn_order f) f,
      list_ex (\<lambda>b. bb_insts (block_at f b) \<noteq> [] \<and> simplifies_branch (last (bb_insts (block_at f b)))) (fn_order f))"

text \<open>The breadth first search marks block numbers below the size of its arrays.\<close>

definition max_blocks :: "ir_function \<Rightarrow> nat" where
  "max_blocks f = max (fn_next_block f) (fn_block_count f) + 16"

definition mark_block :: "ir_function \<Rightarrow> nat \<Rightarrow> bool list \<times> nat list \<Rightarrow> bool list \<times> nat list" where
  "mark_block f s = (\<lambda>(reach, queue).
     let n = bb_id (block_at f s)
     in if n < length reach \<and> \<not> reach ! n then (reach[n := True], queue @ [s]) else (reach, queue))"

definition visit_next :: "ir_function \<Rightarrow> bool list \<times> nat list \<Rightarrow> bool list \<times> nat list" where
  "visit_next f = (\<lambda>(reach, queue). fold (mark_block f) (bb_succs (block_at f (hd queue))) (reach, tl queue))"

definition start_marks :: "ir_function \<Rightarrow> bool list \<times> nat list" where
  "start_marks f =
     (case fn_entry f of
        Some e \<Rightarrow> mark_block f e (replicate (max_blocks f) False, [])
      | None \<Rightarrow> (replicate (max_blocks f) False, []))"

definition reachable_marks :: "ir_function \<Rightarrow> bool list option" where
  "reachable_marks f = map_option fst (while_option (\<lambda>s. snd s \<noteq> []) (visit_next f) (start_marks f))"

definition keep_block :: "ir_function \<Rightarrow> bool list \<Rightarrow> nat \<Rightarrow> bool" where
  "keep_block f reach b \<longleftrightarrow>
     Some b = fn_entry f \<or> \<not> bb_id (block_at f b) < length reach \<or> reach ! bb_id (block_at f b)"

definition remove_unreachable :: "bool list \<Rightarrow> ir_function \<Rightarrow> ir_function \<times> bool" where
  "remove_unreachable reach f =
     (let kept = filter (keep_block f reach) (fn_order f)
      in (f\<lparr>fn_order := kept, fn_block_count := fn_block_count f - (length (fn_order f) - length kept)\<rparr>,
          kept \<noteq> fn_order f))"

definition ir_opt_cfg_simplification :: "ir_function \<Rightarrow> (ir_function \<times> bool) option" where
  "ir_opt_cfg_simplification f =
     (case simplify_branches f of
        (f, c) \<Rightarrow>
          let f = ir_recompute_cfg f
          in (case reachable_marks f of
                None \<Rightarrow> None
              | Some reach \<Rightarrow>
                  (case remove_unreachable reach f of (f, d) \<Rightarrow> Some (ir_recompute_cfg f, c \<or> d))))"

section \<open>The driver\<close>

record ir_opt_options =
  opt_level :: int
  verify_each_pass :: bool

text \<open>One iteration; \<open>None\<close> if a pass overflows or does not end.\<close>

definition optimize_once :: "float_ops \<Rightarrow> ir_function \<Rightarrow> (ir_function \<times> bool) option" where
  "optimize_once fp f =
     (let (f, c1) = ir_opt_copy_propagation f;
          (f, c2) = ir_opt_constant_propagation f
      in case ir_opt_constant_folding fp f of
           None \<Rightarrow> None
         | Some (f, c3) \<Rightarrow>
             (case ir_opt_algebraic_simplification f of
                (f, c4) \<Rightarrow>
                  (case ir_opt_dead_code_elimination f of
                     None \<Rightarrow> None
                   | Some (f, c5) \<Rightarrow>
                       (case ir_opt_cfg_simplification f of
                          None \<Rightarrow> None
                        | Some (f, c6) \<Rightarrow> Some (f, c1 \<or> c2 \<or> c3 \<or> c4 \<or> c5 \<or> c6)))))"

text \<open>The result is the error of the verifier or the function.\<close>

definition final_check :: "ir_module option \<Rightarrow> ir_function \<Rightarrow> string + ir_function" where
  "final_check m f = (case ir_verify_function m f of Some e \<Rightarrow> Inl e | None \<Rightarrow> Inr f)"

fun optimize_iterations :: "nat \<Rightarrow> float_ops \<Rightarrow> ir_opt_options \<Rightarrow> ir_module option \<Rightarrow> ir_function \<Rightarrow> (string + ir_function) option" where
  "optimize_iterations 0 fp opts m f = Some (final_check m f)"
| "optimize_iterations (Suc k) fp opts m f =
     (case optimize_once fp f of
        None \<Rightarrow> None
      | Some (f, changed) \<Rightarrow>
          (case (if verify_each_pass opts then ir_verify_function m f else None) of
             Some e \<Rightarrow> Some (Inl e)
           | None \<Rightarrow> if changed then optimize_iterations k fp opts m f else Some (final_check m f)))"

definition ir_optimize_function ::
  "float_ops \<Rightarrow> ir_opt_options option \<Rightarrow> ir_module option \<Rightarrow> ir_function \<Rightarrow> (string + ir_function) option" where
  "ir_optimize_function fp opts m f =
     (case opts of
        None \<Rightarrow> Some (Inr f)
      | Some os \<Rightarrow>
          if opt_level os \<le> 0 then Some (Inr f)
          else (case ir_verify_function m f of
                  Some e \<Rightarrow> Some (Inl e)
                | None \<Rightarrow> optimize_iterations 10 fp os m f))"

text \<open>The functions of a module in order, until one fails.\<close>

fun optimize_functions ::
  "float_ops \<Rightarrow> ir_opt_options option \<Rightarrow> ir_module \<Rightarrow> ir_function list \<Rightarrow> (string + ir_function list) option" where
  "optimize_functions fp opts m [] = Some (Inr [])"
| "optimize_functions fp opts m (f # fs) =
     (case ir_optimize_function fp opts (Some m) f of
        None \<Rightarrow> None
      | Some (Inl e) \<Rightarrow> Some (Inl e)
      | Some (Inr g) \<Rightarrow>
          (case optimize_functions fp opts m fs of
             None \<Rightarrow> None
           | Some (Inl e) \<Rightarrow> Some (Inl e)
           | Some (Inr gs) \<Rightarrow> Some (Inr (g # gs))))"

definition ir_optimize_module ::
  "float_ops \<Rightarrow> ir_opt_options option \<Rightarrow> ir_module \<Rightarrow> (string + ir_module) option" where
  "ir_optimize_module fp opts m =
     map_option (map_sum id (\<lambda>fs. m\<lparr>m_functions := fs\<rparr>)) (optimize_functions fp opts m (m_functions m))"

end
