(* ===== verification/Ir_Semantics.thy ===== *)
theory Ir_Semantics
  imports Ir_Opt
begin

text \<open>
  A reference semantics of the intermediate representation, against which the optimiser is judged.
  Registers hold values; memory, calls, output and aggregates are a parameter, the \<open>world\<close>. It follows the C
  that \<open>src/ir/ir_codegen_c.c\<close> prints: registers have the types of their results, a literal that is
  assigned is converted to the type of the register, and an execution is stuck at an arithmetic result that the
  type cannot hold and at a division by zero, as it is at an undefined register. Phis have no
  meaning here: they are gone when these passes run.
\<close>

section \<open>Values\<close>

datatype val =
    VInt int | VFloat u64 | VBool bool | VChar char | VStr string | VSlot string | VRef nat

type_synonym regs = "nat \<Rightarrow> val option"

text \<open>What the instructions do to memory: \<open>None\<close> is undefined. An effect may have a result.\<close>

record 'm world =
  w_param :: "nat \<Rightarrow> val option"
  w_global :: "string \<Rightarrow> val option"
  w_load :: "'m \<Rightarrow> val \<Rightarrow> val option"
  w_store :: "'m \<Rightarrow> val \<Rightarrow> val \<Rightarrow> 'm option"
  w_read :: "ir_inst \<Rightarrow> val list \<Rightarrow> 'm \<Rightarrow> val option"
  w_effect :: "ir_inst \<Rightarrow> val list \<Rightarrow> 'm \<Rightarrow> (val option \<times> 'm) option"
  w_compare :: "ir_opcode \<Rightarrow> val \<Rightarrow> val \<Rightarrow> bool option"
  w_float :: float_ops

definition eval_value :: "'m world \<Rightarrow> regs \<Rightarrow> ir_value \<Rightarrow> val option" where
  "eval_value w regs v =
     (case v_kind v of
        IR_VAL_CONST_INT n \<Rightarrow> Some (VInt (sint n))
      | IR_VAL_CONST_FLOAT x \<Rightarrow> Some (VFloat x)
      | IR_VAL_CONST_BOOL b \<Rightarrow> Some (VBool b)
      | IR_VAL_CONST_CHAR c \<Rightarrow> Some (VChar c)
      | IR_VAL_CONST_STRING s \<Rightarrow> Some (VStr (case s of Some t \<Rightarrow> t | None \<Rightarrow> ''''))
      | IR_VAL_REG \<Rightarrow> regs (v_id v)
      | IR_VAL_VAR \<Rightarrow> map_option VSlot (v_name v)
      | IR_VAL_PARAM \<Rightarrow> w_param w (v_id v)
      | IR_VAL_GLOBAL \<Rightarrow> (case v_name v of Some s \<Rightarrow> w_global w s | None \<Rightarrow> None))"

definition eval_operand :: "'m world \<Rightarrow> regs \<Rightarrow> ir_value option \<Rightarrow> val option" where
  "eval_operand w regs v = (case v of Some u \<Rightarrow> eval_value w regs u | None \<Rightarrow> None)"

text \<open>All operands that are there.\<close>

fun eval_values :: "'m world \<Rightarrow> regs \<Rightarrow> ir_value list \<Rightarrow> val list option" where
  "eval_values w regs [] = Some []"
| "eval_values w regs (v # vs) =
     (case (eval_value w regs v, eval_values w regs vs) of (Some x, Some xs) \<Rightarrow> Some (x # xs) | _ \<Rightarrow> None)"

definition operands :: "ir_inst \<Rightarrow> ir_value list" where
  "operands i = List.map_filter id [i_lhs i, i_rhs i] @ i_args i"

section \<open>Operations\<close>

definition in_range :: "ir_type \<Rightarrow> int \<Rightarrow> bool" where
  "in_range ty r \<longleftrightarrow> (if ir_kind ty = IR_TYPE_I32 then - (2 ^ 31) \<le> r \<and> r < 2 ^ 31 else - (2 ^ 63) \<le> r \<and> r < 2 ^ 63)"

definition checked :: "ir_type \<Rightarrow> int \<Rightarrow> val option" where
  "checked ty r = (if in_range ty r then Some (VInt r) else None)"

definition eval_int :: "ir_type \<Rightarrow> ir_opcode \<Rightarrow> int \<Rightarrow> int \<Rightarrow> val option" where
  "eval_int ty opc x y =
     (if opc = IR_OP_ADD then checked ty (x + y)
      else if opc = IR_OP_SUB then checked ty (x - y)
      else if opc = IR_OP_MUL then checked ty (x * y)
      else if opc = IR_OP_DIV then (if y = 0 then None else checked ty (x sdiv y))
      else if opc = IR_OP_MOD then (if y = 0 \<or> \<not> in_range ty (x sdiv y) then None else checked ty (x smod y))
      else None)"

definition eval_float :: "float_ops \<Rightarrow> ir_opcode \<Rightarrow> u64 \<Rightarrow> u64 \<Rightarrow> val option" where
  "eval_float fp opc x y =
     (if opc = IR_OP_ADD then Some (VFloat (fp_add fp x y))
      else if opc = IR_OP_SUB then Some (VFloat (fp_sub fp x y))
      else if opc = IR_OP_MUL then Some (VFloat (fp_mul fp x y))
      else if opc = IR_OP_DIV then Some (VFloat (fp_div fp x y))
      else None)"

definition eval_arith :: "'m world \<Rightarrow> ir_type \<Rightarrow> ir_opcode \<Rightarrow> val \<Rightarrow> val \<Rightarrow> val option" where
  "eval_arith w ty opc a b =
     (case (a, b) of
        (VInt x, VInt y) \<Rightarrow> eval_int ty opc x y
      | (VFloat x, VFloat y) \<Rightarrow> eval_float (w_float w) opc x y
      | _ \<Rightarrow> None)"

definition int_compare :: "ir_opcode \<Rightarrow> int \<Rightarrow> int \<Rightarrow> bool" where
  "int_compare opc x y =
     (if opc = IR_OP_EQ then x = y else if opc = IR_OP_NE then x \<noteq> y else if opc = IR_OP_LT then x < y
      else if opc = IR_OP_LE then x \<le> y else if opc = IR_OP_GT then x > y else x \<ge> y)"

definition float_compare :: "ir_opcode \<Rightarrow> u64 \<Rightarrow> u64 \<Rightarrow> bool" where
  "float_compare opc x y =
     (if opc = IR_OP_EQ then f64_eq x y else if opc = IR_OP_NE then \<not> f64_eq x y
      else if opc = IR_OP_LT then f64_less x y else if opc = IR_OP_LE then f64_le x y
      else if opc = IR_OP_GT then f64_less y x else f64_le y x)"

definition eval_compare :: "'m world \<Rightarrow> ir_opcode \<Rightarrow> val \<Rightarrow> val \<Rightarrow> val option" where
  "eval_compare w opc a b =
     (case (a, b) of
        (VInt x, VInt y) \<Rightarrow> Some (VBool (int_compare opc x y))
      | (VFloat x, VFloat y) \<Rightarrow> Some (VBool (float_compare opc x y))
      | _ \<Rightarrow> map_option VBool (w_compare w opc a b))"

definition eval_logical :: "ir_opcode \<Rightarrow> val \<Rightarrow> val \<Rightarrow> val option" where
  "eval_logical opc a b =
     (case (a, b) of
        (VBool p, VBool q) \<Rightarrow> Some (VBool (if opc = IR_OP_AND then p \<and> q else p \<or> q))
      | _ \<Rightarrow> None)"

definition eval_neg :: "ir_type \<Rightarrow> val \<Rightarrow> val option" where
  "eval_neg ty a = (case a of VInt x \<Rightarrow> checked ty (- x) | VFloat x \<Rightarrow> Some (VFloat (f64_neg x)) | _ \<Rightarrow> None)"

definition eval_not :: "val \<Rightarrow> val option" where
  "eval_not a = (case a of VBool p \<Rightarrow> Some (VBool (\<not> p)) | _ \<Rightarrow> None)"

definition binary :: "(val \<Rightarrow> val \<Rightarrow> 'a option) \<Rightarrow> val option \<Rightarrow> val option \<Rightarrow> 'a option" where
  "binary g a b = (case (a, b) of (Some x, Some y) \<Rightarrow> g x y | _ \<Rightarrow> None)"

text \<open>The instruction without what may change from one version of it to the next.\<close>

definition skeleton :: "ir_inst \<Rightarrow> ir_inst" where
  "skeleton i = i\<lparr>i_result := None, i_lhs := None, i_rhs := None, i_args := []\<rparr>"

text \<open>The type of the register that receives the result.\<close>

definition result_type :: "ir_inst \<Rightarrow> ir_type" where
  "result_type i = (case i_result i of Some r \<Rightarrow> v_type r | None \<Rightarrow> i_type i)"

text \<open>
  A literal is printed as a long and converted when it is assigned: to 32 bits, if the register is an \<open>int32_t\<close>.
  A register that is copied is one of the same type.
\<close>

definition to_type :: "ir_type \<Rightarrow> val \<Rightarrow> val" where
  "to_type ty x = (case x of VInt n \<Rightarrow> if ir_kind ty = IR_TYPE_I32 then VInt (signed_take_bit 31 n) else x | _ \<Rightarrow> x)"

definition literal_operand :: "ir_value option \<Rightarrow> bool" where
  "literal_operand v \<longleftrightarrow> (case v of Some u \<Rightarrow> is_literal u | None \<Rightarrow> False)"

definition assigned :: "'m world \<Rightarrow> regs \<Rightarrow> ir_type \<Rightarrow> ir_value option \<Rightarrow> val option" where
  "assigned w regs ty v = map_option (if literal_operand v then to_type ty else id) (eval_operand w regs v)"

text \<open>The value of an instruction that only computes one; \<open>None\<close> for the others.\<close>

definition pure_value :: "'m world \<Rightarrow> ir_inst \<Rightarrow> regs \<Rightarrow> 'm \<Rightarrow> val option" where
  "pure_value w i regs m =
     (let a = eval_operand w regs (i_lhs i); b = eval_operand w regs (i_rhs i)
      in case i_op i of
           IR_OP_CONST \<Rightarrow> assigned w regs (result_type i) (i_lhs i)
         | IR_OP_LOAD \<Rightarrow> Option.bind a (w_load w m)
         | IR_OP_ADD \<Rightarrow> binary (eval_arith w (result_type i) IR_OP_ADD) a b
         | IR_OP_SUB \<Rightarrow> binary (eval_arith w (result_type i) IR_OP_SUB) a b
         | IR_OP_MUL \<Rightarrow> binary (eval_arith w (result_type i) IR_OP_MUL) a b
         | IR_OP_DIV \<Rightarrow> binary (eval_arith w (result_type i) IR_OP_DIV) a b
         | IR_OP_MOD \<Rightarrow> binary (eval_arith w (result_type i) IR_OP_MOD) a b
         | IR_OP_NEG \<Rightarrow> Option.bind a (eval_neg (result_type i))
         | IR_OP_EQ \<Rightarrow> binary (eval_compare w IR_OP_EQ) a b
         | IR_OP_NE \<Rightarrow> binary (eval_compare w IR_OP_NE) a b
         | IR_OP_LT \<Rightarrow> binary (eval_compare w IR_OP_LT) a b
         | IR_OP_LE \<Rightarrow> binary (eval_compare w IR_OP_LE) a b
         | IR_OP_GT \<Rightarrow> binary (eval_compare w IR_OP_GT) a b
         | IR_OP_GE \<Rightarrow> binary (eval_compare w IR_OP_GE) a b
         | IR_OP_AND \<Rightarrow> binary (eval_logical IR_OP_AND) a b
         | IR_OP_OR \<Rightarrow> binary (eval_logical IR_OP_OR) a b
         | IR_OP_NOT \<Rightarrow> Option.bind a eval_not
         | IR_OP_GET_FIELD \<Rightarrow> Option.bind (eval_values w regs (operands i)) (\<lambda>vs. w_read w (skeleton i) vs m)
         | IR_OP_GET_INDEX \<Rightarrow> Option.bind (eval_values w regs (operands i)) (\<lambda>vs. w_read w (skeleton i) vs m)
         | _ \<Rightarrow> None)"

section \<open>Execution\<close>

datatype 'm outcome = Next regs 'm | Goto nat regs 'm | Done "val option" 'm

definition set_result :: "ir_inst \<Rightarrow> val option \<Rightarrow> regs \<Rightarrow> regs" where
  "set_result i v regs =
     (case i_result i of Some r \<Rightarrow> if v_kind r = IR_VAL_REG then regs(v_id r := v) else regs | None \<Rightarrow> regs)"

definition goto :: "nat option \<Rightarrow> regs \<Rightarrow> 'm \<Rightarrow> 'm outcome option" where
  "goto t regs m = map_option (\<lambda>b. Goto b regs m) t"

definition truth :: "val \<Rightarrow> bool option" where
  "truth v = (case v of VBool b \<Rightarrow> Some b | VInt n \<Rightarrow> Some (n \<noteq> 0) | _ \<Rightarrow> None)"

definition has_effect :: "ir_opcode \<Rightarrow> bool" where
  "has_effect opc \<longleftrightarrow> opc \<in> {IR_OP_ALLOCA, IR_OP_CALL, IR_OP_PRINT, IR_OP_ALLOC, IR_OP_FREE, IR_OP_RELEASE,
     IR_OP_SET_FIELD, IR_OP_SET_INDEX}"

definition step :: "'m world \<Rightarrow> ir_inst \<Rightarrow> regs \<Rightarrow> 'm \<Rightarrow> 'm outcome option" where
  "step w i regs m =
     (if i_op i = IR_OP_BR then goto (i_true i) regs m
      else if i_op i = IR_OP_CONDBR
      then Option.bind (Option.bind (eval_operand w regs (i_lhs i)) truth)
             (\<lambda>c. goto (if c then i_true i else i_false i) regs m)
      else if i_op i = IR_OP_RET
      then (case i_lhs i of
              None \<Rightarrow> Some (Done None m)
            | Some v \<Rightarrow> map_option (\<lambda>x. Done (Some x) m) (eval_value w regs v))
      else if i_op i = IR_OP_STORE
      then Option.bind (binary (w_store w m) (eval_operand w regs (i_rhs i)) (eval_operand w regs (i_lhs i))) (\<lambda>m. Some (Next regs m))
      else if has_effect (i_op i)
      then Option.bind (eval_values w regs (operands i)) (\<lambda>vs.
             Option.bind (w_effect w (skeleton i) vs m) (\<lambda>(v, m). Some (Next (set_result i v regs) m)))
      else map_option (\<lambda>v. Next (set_result i (Some v) regs) m) (pure_value w i regs m))"

fun exec_insts :: "'m world \<Rightarrow> ir_inst list \<Rightarrow> regs \<Rightarrow> 'm \<Rightarrow> 'm outcome option" where
  "exec_insts w [] regs m = None"
| "exec_insts w (i # is) regs m =
     (case step w i regs m of Some (Next regs m) \<Rightarrow> exec_insts w is regs m | r \<Rightarrow> r)"

text \<open>A run from a block of the function with at most that many blocks: the returned value and the final memory.\<close>

fun run :: "'m world \<Rightarrow> ir_function \<Rightarrow> nat \<Rightarrow> nat \<Rightarrow> regs \<Rightarrow> 'm \<Rightarrow> (val option \<times> 'm) option" where
  "run w f 0 b regs m = None"
| "run w f (Suc k) b regs m =
     (if b \<notin> set (fn_order f) then None
      else case exec_insts w (bb_insts (block_at f b)) regs m of
             Some (Goto c regs m) \<Rightarrow> run w f k c regs m
           | Some (Done v m) \<Rightarrow> Some (v, m)
           | _ \<Rightarrow> None)"

text \<open>What a call of the function does.\<close>

definition call_result :: "'m world \<Rightarrow> ir_function \<Rightarrow> nat \<Rightarrow> 'm \<Rightarrow> (val option \<times> 'm) option" where
  "call_result w f k m = (case fn_entry f of Some b \<Rightarrow> run w f k b Map.empty m | None \<Rightarrow> None)"

end
