(* ===== verification/Ir_Simulation.thy ===== *)
theory Ir_Simulation
  imports Ir_Semantics
begin

text \<open>
  The passes against the reference semantics. A pass is judged by a simulation between the
  registers of a run before and after it: the same registers for constant folding and branch
  simplification, an invariant on constant registers for propagation, agreement on the used
  registers for dead code elimination.
\<close>

section \<open>Updates of all blocks\<close>

definition order_ok :: "ir_function \<Rightarrow> bool" where
  "order_ok f \<longleftrightarrow> distinct (fn_order f) \<and> set (fn_order f) \<subseteq> {..<length (fn_heap f)}"

lemma fold_updates_keep [simp]:
  "fn_order (fold (\<lambda>b. update_block b (h b)) bs f) = fn_order f"
  "fn_entry (fold (\<lambda>b. update_block b (h b)) bs f) = fn_entry f"
  "fn_next_reg (fold (\<lambda>b. update_block b (h b)) bs f) = fn_next_reg f"
  "length (fn_heap (fold (\<lambda>b. update_block b (h b)) bs f)) = length (fn_heap f)"
  by (induction bs arbitrary: f) simp_all

lemma block_at_fold_updates:
  assumes "distinct bs" and "set bs \<subseteq> {..<length (fn_heap f)}"
  shows "block_at (fold (\<lambda>b. update_block b (h b)) bs f) c = (if c \<in> set bs then h c (block_at f c) else block_at f c)"
  using assms
proof (induction bs arbitrary: f)
  case (Cons b bs)
  show ?case using Cons.IH [of "update_block b (h b) f"] Cons.prems by (auto simp: block_at_update_block)
qed simp

lemma map_insts_keeps [simp]:
  "fn_order (map_insts g f) = fn_order f" "fn_entry (map_insts g f) = fn_entry f" "fn_next_reg (map_insts g f) = fn_next_reg f"
  "length (fn_heap (map_insts g f)) = length (fn_heap f)"
  by (simp_all add: map_insts_def)

lemma map_insts_block:
  "order_ok f \<Longrightarrow> b \<in> set (fn_order f) \<Longrightarrow> bb_insts (block_at (map_insts g f) b) = map g (bb_insts (block_at f b))"
  by (simp add: map_insts_def order_ok_def block_at_fold_updates)

lemma in_fn_insts: "b \<in> set (fn_order f) \<Longrightarrow> i \<in> set (bb_insts (block_at f b)) \<Longrightarrow> i \<in> set (fn_insts f)"
  by (auto simp: fn_insts_def)

section \<open>Simulation\<close>

definition outcome_rel :: "(regs \<Rightarrow> regs \<Rightarrow> bool) \<Rightarrow> 'm outcome \<Rightarrow> 'm outcome \<Rightarrow> bool" where
  "outcome_rel R p q = (case (p, q) of
     (Next r m, Next r' m') \<Rightarrow> R r r' \<and> m = m'
   | (Goto b r m, Goto b' r' m') \<Rightarrow> b = b' \<and> R r r' \<and> m = m'
   | (Done v m, Done v' m') \<Rightarrow> v = v' \<and> m = m'
   | _ \<Rightarrow> False)"

definition sim_inst :: "'m world \<Rightarrow> (regs \<Rightarrow> regs \<Rightarrow> bool) \<Rightarrow> ir_inst \<Rightarrow> ir_inst \<Rightarrow> bool" where
  "sim_inst w R i j \<longleftrightarrow> (\<forall>r r' m p. R r r' \<longrightarrow> step w i r m = Some p \<longrightarrow> (\<exists>q. step w j r' m = Some q \<and> outcome_rel R p q))"

definition sim_insts :: "'m world \<Rightarrow> (regs \<Rightarrow> regs \<Rightarrow> bool) \<Rightarrow> ir_inst list \<Rightarrow> ir_inst list \<Rightarrow> bool" where
  "sim_insts w R xs ys \<longleftrightarrow>
     (\<forall>r r' m p. R r r' \<longrightarrow> exec_insts w xs r m = Some p \<longrightarrow> (\<exists>q. exec_insts w ys r' m = Some q \<and> outcome_rel R p q))"

lemma sim_insts_Nil: "sim_insts w R [] ys"
  by (simp add: sim_insts_def)

lemma sim_insts_Cons:
  assumes "sim_inst w R i j" and "sim_insts w R xs ys"
  shows "sim_insts w R (i # xs) (j # ys)"
proof (unfold sim_insts_def, intro allI impI)
  fix r r' m p
  assume R: "R r r'" and ex: "exec_insts w (i # xs) r m = Some p"
  then obtain p1 where p1: "step w i r m = Some p1" by (cases "step w i r m") auto
  then obtain q1 where q1: "step w j r' m = Some q1" "outcome_rel R p1 q1" using assms(1) R unfolding sim_inst_def by blast
  show "\<exists>q. exec_insts w (j # ys) r' m = Some q \<and> outcome_rel R p q"
  proof (cases p1)
    case (Next s m1)
    then obtain s' where "q1 = Next s' m1" "R s s'" using q1(2) by (cases q1) (auto simp: outcome_rel_def)
    then show ?thesis using assms(2) ex p1 q1(1) Next unfolding sim_insts_def by auto
  next
    case (Goto b s m1)
    then show ?thesis using ex p1 q1 by (cases q1) (auto simp: outcome_rel_def)
  next
    case (Done v m1)
    then show ?thesis using ex p1 q1 by (cases q1) (auto simp: outcome_rel_def)
  qed
qed

lemma sim_insts_map: "\<forall>i \<in> set xs. sim_inst w R i (g i) \<Longrightarrow> sim_insts w R xs (map g xs)"
  by (induction xs) (auto intro: sim_insts_Nil sim_insts_Cons)

text \<open>Blocks that simulate each other give runs that do; \<open>V\<close> holds of the blocks that are visited.\<close>

lemma run_simulates:
  assumes sim: "\<And>b. V b \<Longrightarrow> b \<in> set (fn_order f) \<Longrightarrow>
      b \<in> set (fn_order g) \<and> sim_insts w R (bb_insts (block_at f b)) (bb_insts (block_at g b))"
    and next_block: "\<And>b c r m r' m'. V b \<Longrightarrow> b \<in> set (fn_order f) \<Longrightarrow>
      exec_insts w (bb_insts (block_at f b)) r m = Some (Goto c r' m') \<Longrightarrow> V c"
  shows "V b \<Longrightarrow> R r r' \<Longrightarrow> run w f k b r m = Some res \<Longrightarrow> run w g k b r' m = Some res"
proof (induction k arbitrary: b r r' m)
  case (Suc k)
  let ?xs = "bb_insts (block_at f b)" and ?ys = "bb_insts (block_at g b)"
  have b: "b \<in> set (fn_order f)" using Suc.prems(3) by (auto split: if_splits)
  have S: "b \<in> set (fn_order g)" "sim_insts w R ?xs ?ys" using sim [OF Suc.prems(1) b] by simp_all
  obtain p where p: "exec_insts w ?xs r m = Some p" using Suc.prems(3) b by (cases "exec_insts w ?xs r m") auto
  then obtain q where q: "exec_insts w ?ys r' m = Some q" "outcome_rel R p q"
    using S(2) Suc.prems(2) unfolding sim_insts_def by blast
  show ?case
  proof (cases p)
    case (Next s m1)
    then show ?thesis using Suc.prems(3) b p by simp
  next
    case (Goto c s m1)
    then obtain s' where s: "q = Goto c s' m1" "R s s'" using q(2) by (cases q) (auto simp: outcome_rel_def)
    have "run w f k c s m1 = Some res" using Suc.prems(3) b p Goto by simp
    then show ?thesis using Suc.IH [OF next_block [OF Suc.prems(1) b, of r m c s m1] s(2)] p Goto q(1) s(1) S(1) by simp
  next
    case (Done v m1)
    then show ?thesis using Suc.prems(3) b p q S(1) by (cases q) (auto simp: outcome_rel_def)
  qed
qed simp

lemma outcome_rel_refl: "(\<And>r. R r r) \<Longrightarrow> outcome_rel R p p"
  by (simp add: outcome_rel_def split: outcome.split)

lemma outcome_rel_eq [simp]: "outcome_rel (=) p q \<longleftrightarrow> p = q"
  by (cases p; cases q) (auto simp: outcome_rel_def)

text \<open>A pass that keeps what every instruction of every block does.\<close>

lemma call_simulates:
  assumes "fn_entry g = fn_entry f" and "R Map.empty Map.empty"
    and "\<And>b. b \<in> set (fn_order f) \<Longrightarrow>
      b \<in> set (fn_order g) \<and> sim_insts w R (bb_insts (block_at f b)) (bb_insts (block_at g b))"
    and "call_result w f k m = Some res"
  shows "call_result w g k m = Some res"
  using assms run_simulates [of "\<lambda>_. True" f g w R]
  by (auto simp: call_result_def split: option.splits)

section \<open>Constant folding\<close>

lemma first_fold_cases: "first_fold rs = r \<Longrightarrow> r = Keep \<or> r \<in> set rs"
  by (induction rs) (auto split: if_splits)

lemma eval_const_int: "eval_value w regs (ir_val_const_int ty v) = Some (VInt (sint v))"
  by (simp add: eval_value_def ir_val_const_int_def)

lemma eval_const_float: "eval_value w regs (ir_val_const_float v) = Some (VFloat v)"
  by (simp add: eval_value_def ir_val_const_float_def)

lemma eval_const_bool: "eval_value w regs (ir_val_const_bool v) = Some (VBool v)"
  by (simp add: eval_value_def ir_val_const_bool_def)

lemma sint_of_int: "- (2 ^ 63) \<le> r \<Longrightarrow> r < 2 ^ 63 \<Longrightarrow> sint (word_of_int r :: u64) = r"
  by (simp add: sint_sbintrunc' signed_take_bit_int_eq_self)

lemma operands_eval:
  "int_operands i = Some (a, b) \<Longrightarrow> eval_operand w r (i_lhs i) = Some (VInt (sint a)) \<and> eval_operand w r (i_rhs i) = Some (VInt (sint b))"
  "float_operands i = Some (a', b') \<Longrightarrow> eval_operand w r (i_lhs i) = Some (VFloat a') \<and> eval_operand w r (i_rhs i) = Some (VFloat b')"
  "bool_operands i = Some (p, q) \<Longrightarrow> eval_operand w r (i_lhs i) = Some (VBool p) \<and> eval_operand w r (i_rhs i) = Some (VBool q)"
  by (auto simp: int_operands_def float_operands_def bool_operands_def eval_operand_def eval_value_def
      split: option.splits ir_value_kind.splits)

lemma eval_literal [simp]:
  "v_kind z = IR_VAL_CONST_INT n \<Longrightarrow> eval_value w r z = Some (VInt (sint n))"
  "v_kind z = IR_VAL_CONST_FLOAT x \<Longrightarrow> eval_value w r z = Some (VFloat x)"
  "v_kind z = IR_VAL_CONST_BOOL b \<Longrightarrow> eval_value w r z = Some (VBool b)"
  by (simp_all add: eval_value_def)

text \<open>What an operation computes has the type of its register, so that assigning it as a literal does not change it.\<close>

lemma to_type_simps [simp]:
  "to_type ty (VBool p) = VBool p" "to_type ty (VFloat x) = VFloat x" "to_type ty (VChar c) = VChar c" "to_type ty (VStr t) = VStr t"
  by (simp_all add: to_type_def)

lemma checked_fits: "checked ty z = Some x \<Longrightarrow> to_type ty x = x"
  by (auto simp: checked_def in_range_def to_type_def signed_take_bit_int_eq_self split: if_splits)

lemma eval_fits:
  "eval_int ty opc a b = Some x \<Longrightarrow> to_type ty x = x" "eval_float fp opc c d = Some x \<Longrightarrow> to_type ty x = x"
  "eval_arith w ty opc p q = Some x \<Longrightarrow> to_type ty x = x" "eval_neg ty p = Some x \<Longrightarrow> to_type ty x = x"
  "eval_compare w opc p q = Some x \<Longrightarrow> to_type ty x = x" "eval_logical opc p q = Some x \<Longrightarrow> to_type ty x = x"
  "eval_not p = Some x \<Longrightarrow> to_type ty x = x"
  by (auto simp: eval_int_def eval_float_def eval_arith_def eval_neg_def eval_compare_def eval_logical_def eval_not_def
      dest: checked_fits split: if_splits val.splits)

lemma pure_value_fits:
  assumes "pure_value w i r m = Some x" and "i_op i \<notin> {IR_OP_CONST, IR_OP_LOAD, IR_OP_GET_FIELD, IR_OP_GET_INDEX}"
  shows "to_type (result_type i) x = x"
  using assms by (cases "i_op i") (auto simp: pure_value_def Let_def binary_def bind_eq_Some_conv dest: eval_fits split: option.splits)

lemma assigned_eq: "eval_operand w r' v = eval_operand w r v \<Longrightarrow> assigned w r' ty v = assigned w r ty v"
  by (simp add: assigned_def)

lemma assigned_None [simp]: "assigned w r ty v = None \<longleftrightarrow> eval_operand w r v = None"
  by (simp add: assigned_def)

text \<open>A fold puts the value that the instruction computes, if it computes one.\<close>

definition folds_to :: "'m world \<Rightarrow> ir_inst \<Rightarrow> ir_value \<Rightarrow> bool" where
  "folds_to w i v \<longleftrightarrow> \<not> has_effect (i_op i) \<and> i_op i \<notin> {IR_OP_BR, IR_OP_CONDBR, IR_OP_RET, IR_OP_STORE} \<and>
     i_op i \<notin> {IR_OP_CONST, IR_OP_LOAD, IR_OP_GET_FIELD, IR_OP_GET_INDEX} \<and>
     (\<forall>r m x. pure_value w i r m = Some x \<longrightarrow> eval_value w r v = Some x)"

lemma folds_toI:
  assumes "i_op i = opc" and "\<not> has_effect opc" and "opc \<notin> {IR_OP_BR, IR_OP_CONDBR, IR_OP_RET, IR_OP_STORE}"
    and "opc \<notin> {IR_OP_CONST, IR_OP_LOAD, IR_OP_GET_FIELD, IR_OP_GET_INDEX}"
    and "\<And>r m x. pure_value w i r m = Some x \<Longrightarrow> eval_value w r v = Some x"
  shows "folds_to w i v"
  using assms by (simp add: folds_to_def)

lemma int_result_value:
  assumes "int_result i z = Folded v" and "checked ty z = Some x"
  shows "eval_value w r v = Some x"
  using assms sint_of_int [of z] by (auto simp: int_result_def checked_def eval_const_int split: if_splits)

lemma fold_int_arith_value: "fold_int_arith i = Folded v \<Longrightarrow> folds_to w i v"
  by (auto simp: fold_int_arith_def folds_to_def has_effect_def pure_value_def binary_def operands_eval eval_arith_def
      eval_int_def intro: int_result_value split: option.splits if_splits)

lemma fold_neg_value: "fold_neg i = Folded v \<Longrightarrow> folds_to w i v"
  by (auto simp: fold_neg_def folds_to_def has_effect_def pure_value_def eval_operand_def
      eval_neg_def eval_const_float intro: int_result_value split: option.splits if_splits ir_value_kind.splits)

lemma fold_float_arith_value: "fold_float_arith (w_float w) i = Folded v \<Longrightarrow> folds_to w i v"
  by (auto simp: fold_float_arith_def folds_to_def has_effect_def pure_value_def binary_def operands_eval eval_arith_def
      eval_float_def float_result_def eval_const_float split: option.splits if_splits)

lemma sint_inj: "sint a = sint b \<Longrightarrow> a = (b :: u64)"
  by (rule signed_word_eqI)

lemma fold_compare_value:
  "fold_int_compare i = Folded v \<Longrightarrow> folds_to w i v" "fold_float_compare i = Folded v \<Longrightarrow> folds_to w i v"
  by (auto simp: fold_int_compare_def fold_float_compare_def folds_to_def has_effect_def pure_value_def binary_def
      operands_eval eval_compare_def int_compare_def float_compare_def bool_result_def eval_const_bool dest!: sint_inj split: option.splits if_splits)

lemma fold_logical_value: "fold_logical i = Folded v \<Longrightarrow> folds_to w i v"
  by (auto simp: fold_logical_def folds_to_def has_effect_def pure_value_def binary_def operands_eval eval_logical_def
      bool_result_def eval_const_bool split: option.splits if_splits)

lemma fold_not_value: "fold_not i = Folded v \<Longrightarrow> folds_to w i v"
  by (auto simp: fold_not_def folds_to_def has_effect_def pure_value_def eval_operand_def
      eval_not_def bool_result_def eval_const_bool split: option.splits if_splits ir_value_kind.splits)

lemma fold_rules_value:
  assumes "fold_rules (w_float w) i = Folded v"
  shows "folds_to w i v"
proof -
  have "Folded v \<in> set [fold_int_arith i, fold_neg i, fold_float_arith (w_float w) i, fold_int_compare i,
     fold_float_compare i, fold_logical i, fold_not i]"
    using first_fold_cases [OF assms [unfolded fold_rules_def]] by blast
  then show ?thesis
    by (auto intro: fold_int_arith_value [OF sym] fold_neg_value [OF sym] fold_float_arith_value [OF sym]
        fold_compare_value [OF sym] fold_logical_value [OF sym] fold_not_value [OF sym])
qed

lemma sim_inst_const:
  assumes "folds_to w i v"
  shows "sim_inst w (=) i (to_const (Some v) i)"
proof -
  have "step w i r m = map_option (\<lambda>v. Next (set_result i (Some v) r) m) (pure_value w i r m)" for r m
    using assms by (auto simp: step_def folds_to_def)
  moreover have "step w (to_const (Some v) i) r m = Some (Next (set_result i (Some x) r) m)" if "pure_value w i r m = Some x" for r m x
  proof -
    have "eval_value w r v = Some x" "to_type (result_type i) x = x"
      using pure_value_fits [OF that] that assms by (auto simp: folds_to_def)
    then have "assigned w r (result_type i) (Some v) = Some x" by (simp add: assigned_def eval_operand_def)
    moreover have "result_type (to_const (Some v) i) = result_type i" by (simp add: to_const_def result_type_def split: option.split)
    ultimately show ?thesis by (simp add: step_def to_const_def has_effect_def pure_value_def set_result_def)
  qed
  ultimately show ?thesis using assms by (auto simp: sim_inst_def folds_to_def)
qed

lemma sim_inst_refl: "(\<And>r. R r r) \<Longrightarrow> (\<And>r r'. R r r' \<Longrightarrow> r = r') \<Longrightarrow> sim_inst w R i i"
  by (metis sim_inst_def outcome_rel_refl)

lemma fold_insts_sim: "fold_insts (w_float w) xs = Some (ys, c) \<Longrightarrow> sim_insts w (=) xs ys"
proof (induction xs arbitrary: ys c)
  case (Cons i xs)
  obtain j c1 zs c2 where s: "fold_inst (w_float w) i = Some (j, c1)" "fold_insts (w_float w) xs = Some (zs, c2)" "ys = j # zs"
    using Cons.prems by (cases "fold_inst (w_float w) i"; cases "fold_insts (w_float w) xs") auto
  have "sim_inst w (=) i j"
    using s(1) sim_inst_refl [of "(=)"]
    by (auto simp: fold_inst_def intro: sim_inst_const [OF fold_rules_value] split: if_splits fold_outcome.splits)
  then show ?case using sim_insts_Cons Cons.IH [OF s(2)] s(3) by blast
qed (simp add: sim_insts_Nil)

lemma fold_blocks_sim:
  assumes "fold_blocks (w_float w) bs (f, c) = Some (g, d)" and "distinct bs" and "set bs \<subseteq> {..<length (fn_heap f)}"
  shows "fn_order g = fn_order f \<and> fn_entry g = fn_entry f \<and>
    (\<forall>b. sim_insts w (=) (bb_insts (block_at f b)) (bb_insts (block_at g b)))"
  using assms
proof (induction bs arbitrary: f c)
  case Nil
  have "sim_insts w (=) xs xs" for xs by (simp add: sim_insts_def)
  then show ?case using Nil by simp
next
  case (Cons b bs)
  obtain ys c1 where s: "fold_insts (w_float w) (bb_insts (block_at f b)) = Some (ys, c1)"
      "fold_blocks (w_float w) bs (update_block b (\<lambda>bb. bb\<lparr>bb_insts := ys\<rparr>) f, c \<or> c1) = Some (g, d)"
    using Cons.prems(1) by (auto split: option.splits)
  let ?f = "update_block b (\<lambda>bb. bb\<lparr>bb_insts := ys\<rparr>) f"
  have IH: "fn_order g = fn_order f" "fn_entry g = fn_entry f"
    "\<And>x. sim_insts w (=) (bb_insts (block_at ?f x)) (bb_insts (block_at g x))"
    using Cons.IH [OF s(2)] Cons.prems(2,3) by simp_all
  have "sim_insts w (=) (bb_insts (block_at f x)) (bb_insts (block_at ?f x))" for x
    using fold_insts_sim [OF s(1)] Cons.prems(3) by (auto simp: block_at_update_block sim_insts_def)
  then have "sim_insts w (=) (bb_insts (block_at f x)) (bb_insts (block_at g x))" for x
    using IH(3) [of x] unfolding sim_insts_def by simp
  then show ?case using IH by simp
qed

section \<open>What an instruction does, apart from its result register\<close>

datatype 'm action = Set_Result "val option" 'm | Keep_Regs 'm | Jump nat 'm | Return "val option" 'm

definition action :: "'m world \<Rightarrow> ir_inst \<Rightarrow> regs \<Rightarrow> 'm \<Rightarrow> 'm action option" where
  "action w i r m =
     (if i_op i = IR_OP_BR then map_option (\<lambda>b. Jump b m) (i_true i)
      else if i_op i = IR_OP_CONDBR
      then Option.bind (Option.bind (eval_operand w r (i_lhs i)) truth)
             (\<lambda>c. map_option (\<lambda>b. Jump b m) (if c then i_true i else i_false i))
      else if i_op i = IR_OP_RET
      then (case i_lhs i of
              None \<Rightarrow> Some (Return None m)
            | Some v \<Rightarrow> map_option (\<lambda>x. Return (Some x) m) (eval_value w r v))
      else if i_op i = IR_OP_STORE
      then map_option Keep_Regs (binary (w_store w m) (eval_operand w r (i_rhs i)) (eval_operand w r (i_lhs i)))
      else if has_effect (i_op i)
      then Option.bind (eval_values w r (operands i)) (\<lambda>vs. map_option (\<lambda>(v, m). Set_Result v m) (w_effect w (skeleton i) vs m))
      else map_option (\<lambda>v. Set_Result (Some v) m) (pure_value w i r m))"

definition outcome_of :: "ir_inst \<Rightarrow> regs \<Rightarrow> 'm action \<Rightarrow> 'm outcome" where
  "outcome_of i r a = (case a of Set_Result v m \<Rightarrow> Next (set_result i v r) m | Keep_Regs m \<Rightarrow> Next r m
     | Jump b m \<Rightarrow> Goto b r m | Return v m \<Rightarrow> Done v m)"

lemma step_action: "step w i r m = map_option (outcome_of i r) (action w i r m)"
proof -
  consider "i_op i = IR_OP_BR" | "i_op i = IR_OP_CONDBR" | "i_op i = IR_OP_RET" | "i_op i = IR_OP_STORE"
    | "has_effect (i_op i)" "i_op i \<notin> {IR_OP_BR, IR_OP_CONDBR, IR_OP_RET, IR_OP_STORE}"
    | "i_op i \<notin> {IR_OP_BR, IR_OP_CONDBR, IR_OP_RET, IR_OP_STORE}" "\<not> has_effect (i_op i)" by blast
  then show ?thesis
  proof cases
    case 1
    then show ?thesis by (cases "i_true i") (simp_all add: step_def action_def outcome_of_def goto_def)
  next
    case 2
    then show ?thesis
      by (cases "Option.bind (eval_operand w r (i_lhs i)) truth")
        (simp_all add: step_def action_def outcome_of_def goto_def option.map_comp comp_def)
  next
    case 3
    then show ?thesis
      by (cases "i_lhs i") (simp_all add: step_def action_def outcome_of_def option.map_comp comp_def)
  next
    case 4
    then show ?thesis
      by (cases "binary (w_store w m) (eval_operand w r (i_rhs i)) (eval_operand w r (i_lhs i))")
        (simp_all add: step_def action_def outcome_of_def)
  next
    case 5
    then show ?thesis
      by (cases "Option.bind (eval_values w r (operands i)) (\<lambda>vs. w_effect w (skeleton i) vs m)"; cases "eval_values w r (operands i)")
        (auto simp: step_def action_def outcome_of_def)
  next
    case 6
    then show ?thesis by (simp add: step_def action_def outcome_of_def option.map_comp comp_def)
  qed
qed

text \<open>An instruction whose operands have, wherever they had a value, the same value does the same.\<close>

definition operands_agree :: "'m world \<Rightarrow> ir_inst \<Rightarrow> regs \<Rightarrow> ir_inst \<Rightarrow> regs \<Rightarrow> bool" where
  "operands_agree w i r j r' \<longleftrightarrow> skeleton j = skeleton i \<and> (i_lhs j = None \<longleftrightarrow> i_lhs i = None) \<and>
     (\<forall>x. eval_operand w r (i_lhs i) = Some x \<longrightarrow> eval_operand w r' (i_lhs j) = Some x) \<and>
     (\<forall>x. eval_operand w r (i_rhs i) = Some x \<longrightarrow> eval_operand w r' (i_rhs j) = Some x) \<and>
     result_type j = result_type i \<and>
     (\<forall>ty x. i_op i = IR_OP_CONST \<longrightarrow> assigned w r ty (i_lhs i) = Some x \<longrightarrow> assigned w r' ty (i_lhs j) = Some x) \<and>
     (\<forall>xs. eval_values w r (operands i) = Some xs \<longrightarrow> eval_values w r' (operands j) = Some xs)"

lemma skeleton_fields:
  assumes "skeleton j = skeleton i"
  shows "i_op j = i_op i" "i_type j = i_type i" "i_true j = i_true i" "i_false j = i_false i"
  using arg_cong [OF assms, of i_op] arg_cong [OF assms, of i_type] arg_cong [OF assms, of i_true]
    arg_cong [OF assms, of i_false] by (simp_all add: skeleton_def)

lemma binary_Some: "binary g a b = Some y \<longleftrightarrow> (\<exists>x z. a = Some x \<and> b = Some z \<and> g x z = Some y)"
  by (auto simp: binary_def split: option.split)

lemma pure_value_agrees:
  assumes "operands_agree w i r j r'" and "pure_value w i r m = Some x"
  shows "pure_value w j r' m = Some x"
proof -
  have sk: "skeleton j = skeleton i" using assms(1) by (simp add: operands_agree_def)
  have lhs: "eval_operand w r' (i_lhs j) = Some x" if "eval_operand w r (i_lhs i) = Some x" for x
    using assms(1) that by (simp add: operands_agree_def)
  have rhs: "eval_operand w r' (i_rhs j) = Some x" if "eval_operand w r (i_rhs i) = Some x" for x
    using assms(1) that by (simp add: operands_agree_def)
  have all: "eval_values w r' (operands j) = Some xs" if "eval_values w r (operands i) = Some xs" for xs
    using assms(1) that by (simp add: operands_agree_def)
  have ty: "result_type j = result_type i" using assms(1) by (simp add: operands_agree_def)
  have con: "assigned w r' ty (i_lhs j) = Some x" if "i_op i = IR_OP_CONST" "assigned w r ty (i_lhs i) = Some x" for ty x
    using assms(1) that by (simp add: operands_agree_def)
  have bin: "binary g (eval_operand w r' (i_lhs j)) (eval_operand w r' (i_rhs j)) = Some x"
    if "binary g (eval_operand w r (i_lhs i)) (eval_operand w r (i_rhs i)) = Some x" for g
    using that lhs rhs by (auto simp: binary_Some)
  have un: "Option.bind (eval_operand w r' (i_lhs j)) g = Some x" if "Option.bind (eval_operand w r (i_lhs i)) g = Some x" for g
    using that lhs by (auto simp: bind_eq_Some_conv)
  have rd: "Option.bind (eval_values w r' (operands j)) g = Some x" if "Option.bind (eval_values w r (operands i)) g = Some x" for g
    using that all by (auto simp: bind_eq_Some_conv)
  show ?thesis using assms(2)
    unfolding pure_value_def Let_def skeleton_fields(1,2) [OF sk] sk ty
    by (cases "i_op i") (simp_all only: ir_opcode.case lhs con bin un rd option.distinct)
qed

lemma action_agrees:
  assumes "operands_agree w i r j r'" and "action w i r m = Some a"
  shows "action w j r' m = Some a"
proof -
  note f = assms(1) [unfolded operands_agree_def]
  have lhs: "eval_operand w r' (i_lhs j) = Some x" if "eval_operand w r (i_lhs i) = Some x" for x using f that by blast
  have rhs: "eval_operand w r' (i_rhs j) = Some x" if "eval_operand w r (i_rhs i) = Some x" for x using f that by blast
  have all: "eval_values w r' (operands j) = Some xs" if "eval_values w r (operands i) = Some xs" for xs using f that by blast
  have sk: "skeleton j = skeleton i" and none: "i_lhs j = None \<longleftrightarrow> i_lhs i = None" using f by blast+
  note same = skeleton_fields [OF sk]
  consider "i_op i = IR_OP_BR" | "i_op i = IR_OP_CONDBR" | "i_op i = IR_OP_RET" | "i_op i = IR_OP_STORE"
    | "has_effect (i_op i)" | "i_op i \<notin> {IR_OP_BR, IR_OP_CONDBR, IR_OP_RET, IR_OP_STORE}" "\<not> has_effect (i_op i)" by blast
  then show ?thesis
  proof cases
    case 1
    then show ?thesis using assms(2) same by (simp add: action_def)
  next
    case 2
    from 2 obtain x c b where x: "eval_operand w r (i_lhs i) = Some x" "truth x = Some c"
        "(if c then i_true i else i_false i) = Some b" "a = Jump b m"
      using assms(2) by (auto simp: action_def bind_eq_Some_conv)
    then show ?thesis using 2 same lhs [OF x(1)] by (cases c) (simp_all add: action_def)
  next
    case 3
    then show ?thesis using assms(2) same lhs none
      by (cases "i_lhs i"; cases "i_lhs j") (auto simp: action_def eval_operand_def)
  next
    case 4
    then show ?thesis using assms(2) same lhs rhs by (auto simp: action_def binary_Some)
  next
    case 5
    then have "i_op i \<notin> {IR_OP_BR, IR_OP_CONDBR, IR_OP_RET, IR_OP_STORE}" by (auto simp: has_effect_def)
    then show ?thesis using 5 assms(2) same all sk by (auto simp: action_def bind_eq_Some_conv)
  next
    case 6
    then show ?thesis using assms(2) same pure_value_agrees [OF assms(1)] by (auto simp: action_def)
  qed
qed

lemma sim_instI:
  assumes "i_result j = i_result i"
    and "\<And>r r'. R r r' \<Longrightarrow> operands_agree w i r j r'"
    and "\<And>r r' m v m'. R r r' \<Longrightarrow> action w i r m = Some (Set_Result v m') \<Longrightarrow> R (set_result i v r) (set_result i v r')"
  shows "sim_inst w R i j"
proof (unfold sim_inst_def, intro allI impI)
  fix r r' m p
  assume R: "R r r'" and p: "step w i r m = Some p"
  then obtain a where a: "action w i r m = Some a" "p = outcome_of i r a" by (auto simp: step_action)
  have "step w j r' m = Some (outcome_of j r' a)"
    using action_agrees [OF assms(2) [OF R] a(1)] by (simp add: step_action)
  moreover have "outcome_rel R p (outcome_of j r' a)"
    using a R assms(3) [OF R] assms(1)
    by (cases a) (auto simp: outcome_of_def outcome_rel_def set_result_def)
  ultimately show "\<exists>q. step w j r' m = Some q \<and> outcome_rel R p q" by blast
qed

section \<open>Constant propagation\<close>

definition consts_ok :: "ir_function \<Rightarrow> bool" where
  "consts_ok f \<longleftrightarrow> list_all (\<lambda>i. i_op i = IR_OP_CONST \<longrightarrow> (case i_result i of Some r \<Rightarrow> v_kind r = IR_VAL_REG | None \<Rightarrow> True)) (fn_insts f)"

text \<open>The literals that are assigned fit the type of their register.\<close>

definition literals_fit :: "ir_function \<Rightarrow> bool" where
  "literals_fit f \<longleftrightarrow> list_all (\<lambda>i. i_op i = IR_OP_CONST \<longrightarrow> (case i_lhs i of
     Some v \<Rightarrow> (case v_kind v of IR_VAL_CONST_INT n \<Rightarrow> in_range (result_type i) (sint n) | _ \<Rightarrow> True) | None \<Rightarrow> True)) (fn_insts f)"

lemma literal_fits:
  assumes "literals_fit f" and "i \<in> set (fn_insts f)" and "i_op i = IR_OP_CONST" and "i_lhs i = Some c"
  shows "assigned w r (result_type i) (Some c) = eval_value w r c"
proof -
  have "case v_kind c of IR_VAL_CONST_INT n \<Rightarrow> in_range (result_type i) (sint n) | _ \<Rightarrow> True"
    using assms by (auto simp: literals_fit_def list_all_iff)
  then have "to_type (result_type i) x = x" if "eval_value w r c = Some x" "is_literal c" for x
    using that by (auto simp: to_type_def in_range_def eval_value_def is_literal_def signed_take_bit_int_eq_self
        split: ir_value_kind.splits)
  then show ?thesis by (cases "eval_value w r c") (auto simp: assigned_def literal_operand_def eval_operand_def)
qed

definition const_def :: "ir_function \<Rightarrow> nat \<Rightarrow> ir_value \<Rightarrow> ir_inst \<Rightarrow> bool" where
  "const_def f n c i \<longleftrightarrow> i \<in> set (fn_insts f) \<and> i_op i = IR_OP_CONST \<and> i_lhs i = Some c \<and> is_literal c \<and>
     (\<exists>r. i_result i = Some r \<and> v_id r = n) \<and> n < max_id f \<and> def_count f n = 1"

lemma const_map_def_of:
  assumes "const_map f n = Some c"
  shows "\<exists>i. const_def f n c i"
proof -
  have "\<forall>n c. fold (note_const f) is m n = Some c \<longrightarrow> (\<exists>i. const_def f n c i)"
    if "set is \<subseteq> set (fn_insts f)" "\<forall>n c. m n = Some c \<longrightarrow> (\<exists>i. const_def f n c i)" for "is" m
    using that
  proof (induction "is" arbitrary: m)
    case (Cons i "is")
    have "\<exists>i. const_def f n c i" if "note_const f i m n = Some c" for n c
      using that Cons.prems by (auto simp: note_const_def const_def_def split: option.splits if_splits)
    then show ?case using Cons.IH [of "note_const f i m"] Cons.prems(1) by auto
  qed simp
  from this [of "fn_insts f" "\<lambda>_. None"] show ?thesis using assms by (simp add: const_map_def)
qed

lemma count_if_unique:
  assumes "count_if P xs = 1" and "x \<in> set xs" and "y \<in> set xs" and "P x" and "P y"
  shows "x = y"
  using assms
proof (induction xs)
  case (Cons z xs)
  have none: "count_if P xs = 0 \<Longrightarrow> v \<in> set xs \<Longrightarrow> \<not> P v" for v
    by (auto simp: count_if_def filter_empty_conv)
  show ?case using Cons none by (cases "P z") auto
qed simp

lemma const_def_unique:
  assumes "consts_ok f" and "const_def f n c i" and "j \<in> set (fn_insts f)" and "i_result j = Some r" and "v_kind r = IR_VAL_REG"
    and "v_id r = n"
  shows "j = i"
proof -
  obtain ri where ri: "i_result i = Some ri" "v_id ri = n" using assms(2) by (auto simp: const_def_def)
  then have "v_kind ri = IR_VAL_REG" using assms(1,2) by (auto simp: consts_ok_def list_all_iff const_def_def)
  then show ?thesis
    using assms ri count_if_unique [of _ "fn_insts f" j i] by (auto simp: const_def_def def_count_def is_reg_def)
qed

end
