(* ===== verification/Ir_Opt_Demo.thy ===== *)
theory Ir_Opt_Demo
  imports Ir_Semantics
begin

text \<open>
  A world without memory, and functions on which the properties of the optimiser are exercised.
\<close>

definition null_world :: "unit world" where
  "null_world = \<lparr>w_param = \<lambda>_. None, w_global = \<lambda>_. None, w_load = \<lambda>_ _. None, w_store = \<lambda>_ _ _. None,
     w_read = \<lambda>_ _ _. None, w_effect = \<lambda>_ _ _. None, w_compare = \<lambda>_ _ _. None,
     w_float = \<lparr>fp_add = \<lambda>x y. x, fp_sub = \<lambda>x y. x, fp_mul = \<lambda>x y. x, fp_div = \<lambda>x y. x\<rparr>\<rparr>"

abbreviation int_const :: "u64 \<Rightarrow> ir_value" where
  "int_const n \<equiv> ir_val_const_int (Some Ty_I64) n"

abbreviation int_reg :: "nat \<Rightarrow> ir_value" where
  "int_reg n \<equiv> ir_val_reg Ty_I64 n"

definition demo_inst :: "ir_opcode \<Rightarrow> nat \<Rightarrow> ir_value \<Rightarrow> ir_value option \<Rightarrow> ir_inst" where
  "demo_inst opc r a b = (create_instruction opc Ty_I64)\<lparr>i_result := Some (int_reg r), i_lhs := Some a, i_rhs := b\<rparr>"

definition demo_return :: "ir_value \<Rightarrow> ir_inst" where
  "demo_return v = (create_instruction IR_OP_RET Ty_Void)\<lparr>i_lhs := Some v\<rparr>"

definition demo_branch :: ir_inst where
  "demo_branch = (create_instruction IR_OP_CONDBR Ty_Void)
     \<lparr>i_lhs := Some (ir_val_const_bool True), i_true := Some 1, i_false := Some 2\<rparr>"

definition demo_block :: "nat \<Rightarrow> ir_inst list \<Rightarrow> ir_block" where
  "demo_block n is = \<lparr>bb_name = ''b'', bb_id = n, bb_insts = is, bb_preds = [], bb_succs = []\<rparr>"

definition demo_function :: "ir_inst list list \<Rightarrow> ir_function" where
  "demo_function iss = (ir_new_function ''demo'' (Some Ty_I64))\<lparr>
     fn_heap := map (\<lambda>n. demo_block n (iss ! n)) [0..<length iss], fn_order := [0..<length iss], fn_entry := Some 0,
     fn_next_block := length iss, fn_block_count := length iss, fn_next_reg := 8\<rparr>"

text \<open>A constant that propagates, a sum that folds, an unused result, and a branch on a literal.\<close>

definition demo :: ir_function where
  "demo = demo_function
     [[demo_inst IR_OP_CONST 0 (int_const 7) None, demo_inst IR_OP_ADD 1 (int_reg 0) (Some (int_const 2)),
       demo_inst IR_OP_ADD 2 (int_const 3) (Some (int_const 4)), demo_branch],
      [demo_return (int_reg 1)], [demo_return (int_reg 0)]]"

lemmas demo_insts = demo_inst_def demo_return_def demo_branch_def create_instruction_def ir_val_const_int_def
  ir_val_reg_def ir_val_const_bool_def ir_type_bool_def

lemma demo_parts:
  "fn_order demo = [0, 1, 2]" "fn_entry demo = Some 0" "length (fn_heap demo) = 3" "fn_next_reg demo = 8"
  "fn_next_block demo = 3" "fn_block_count demo = 3" "fn_return_type demo = Ty_I64"
  "bb_insts (block_at demo 0) = [demo_inst IR_OP_CONST 0 (int_const 7) None, demo_inst IR_OP_ADD 1 (int_reg 0) (Some (int_const 2)),
     demo_inst IR_OP_ADD 2 (int_const 3) (Some (int_const 4)), demo_branch]"
  "bb_insts (block_at demo (Suc 0)) = [demo_return (int_reg 1)]" "bb_insts (block_at demo 2) = [demo_return (int_reg 0)]"
  "bb_id (block_at demo 0) = 0" "bb_id (block_at demo (Suc 0)) = 1" "bb_id (block_at demo 2) = 2"
  by (simp_all add: demo_def demo_function_def block_at_def demo_block_def ir_new_function_def eval_nat_numeral
      upt_rec numeral_eq_Suc)

lemmas demo_step = step_def has_effect_def pure_value_def eval_operand_def eval_value_def set_result_def binary_def
  eval_arith_def eval_int_def checked_def in_range_def goto_def truth_def assigned_def literal_operand_def is_literal_def
  to_type_def result_type_def

lemma demo_runs: "call_result null_world demo 2 () = Some (Some (VInt 9), ())"
  by (simp add: call_result_def demo_parts numeral_eq_Suc [of "num.Bit0 num.One"] demo_step demo_insts)

lemma demo_verified: "ir_verify_function None demo = None"
  by (simp add: ir_verify_function_def fn_blocks_def demo_parts verify_block_def verify_instruction_def
      instruction_detail_def check_const_def check_arith_def check_condbr_def check_ret_def block_exists_in_fn_def
      ir_is_terminator_def demo_insts is_numeric_type_def)

end
