(* ===== verification/Ir_Opt_Correct.thy ===== *)
theory Ir_Opt_Correct
  imports Ir_Simulation Ir_Opt_Demo
begin

text \<open>
  Constant folding, constant propagation and dead code elimination preserve what a function does.
\<close>

section \<open>Constant propagation\<close>

definition const_inv :: "ir_function \<Rightarrow> 'm world \<Rightarrow> regs \<Rightarrow> bool" where
  "const_inv f w r \<longleftrightarrow> (\<forall>n c x. const_map f n = Some c \<longrightarrow> r n = Some x \<longrightarrow> eval_value w r c = Some x)"

lemma eval_is_literal: "is_literal c \<Longrightarrow> eval_value w r c = eval_value w r' c"
  by (auto simp: is_literal_def eval_value_def split: ir_value_kind.splits)

lemma const_map_literal: "const_map f n = Some c \<Longrightarrow> is_literal c"
  using const_map_def_of by (fastforce simp: const_def_def)

lemma const_inv_result:
  assumes "consts_ok f" and "i \<in> set (fn_insts f)" and "const_inv f w r" and "action w i r m = Some (Set_Result v m')"
    and "literals_fit f"
  shows "const_inv f w (set_result i v r)"
proof (unfold const_inv_def, intro allI impI)
  fix n c x
  let ?r = "set_result i v r"
  assume c: "const_map f n = Some c" and x: "?r n = Some x"
  have lit: "eval_value w s c = eval_value w r c" for s using eval_is_literal [OF const_map_literal [OF c]] .
  show "eval_value w ?r c = Some x"
  proof (cases "\<exists>ri. i_result i = Some ri \<and> v_kind ri = IR_VAL_REG \<and> v_id ri = n")
    case True
    then obtain ri where ri: "i_result i = Some ri" "v_kind ri = IR_VAL_REG" "v_id ri = n" by blast
    obtain d where d: "const_def f n c d" using const_map_def_of [OF c] by blast
    have "i = d" using const_def_unique [OF assms(1) d assms(2) ri] .
    then have "i_op i = IR_OP_CONST" "i_lhs i = Some c" using d by (simp_all add: const_def_def)
    then have "v = eval_value w r c"
      using assms(4) literal_fits [OF assms(5,2), of c w r]
      by (cases "eval_value w r c") (auto simp: action_def has_effect_def pure_value_def)
    moreover have "v = Some x" using x ri by (simp add: set_result_def)
    ultimately have "eval_value w r c = Some x" by simp
    then show ?thesis by (rule trans [OF lit])
  next
    case False
    then have "?r n = r n" by (auto simp: set_result_def split: option.split)
    then have "r n = Some x" using x by (rule trans [OF sym])
    then have "eval_value w r c = Some x" using assms(3) c unfolding const_inv_def by blast
    then show ?thesis by (rule trans [OF lit])
  qed
qed

lemma eval_values_map:
  assumes "\<And>v x. eval_value w r v = Some x \<Longrightarrow> eval_value w r' (g v) = Some x" and "eval_values w r vs = Some xs"
  shows "eval_values w r' (map g vs) = Some xs"
  using assms(2) by (induction vs arbitrary: xs) (auto split: option.splits dest: assms(1))

lemma operands_map:
  assumes "i_lhs j = map_option g (i_lhs i)" and "i_rhs j = map_option g (i_rhs i)" and "i_args j = map g (i_args i)"
  shows "operands j = map g (operands i)"
  using assms by (cases "i_lhs i"; cases "i_rhs i") (simp_all add: operands_def map_filter_simps)

lemma operands_agree_map:
  assumes "\<And>v x. eval_value w r v = Some x \<Longrightarrow> eval_value w r' (g v) = Some x"
    and "i_lhs j = map_option g (i_lhs i)" and "i_rhs j = map_option g (i_rhs i)" and "i_args j = map g (i_args i)"
    and "skeleton j = skeleton i" and "result_type j = result_type i" and "i_op i \<noteq> IR_OP_CONST"
  shows "operands_agree w i r j r'"
proof -
  have one: "eval_operand w r' (map_option g v) = Some x" if "eval_operand w r v = Some x" for v x
    using that assms(1) by (cases v) (simp_all add: eval_operand_def)
  show ?thesis
    unfolding operands_agree_def using one assms(2-7) eval_values_map [OF assms(1)] operands_map [OF assms(2-4)] by auto
qed

lemma propagated_agree:
  assumes "const_inv f w r"
  shows "operands_agree w i r (propagate_inst f i) r"
proof (cases "i_op i = IR_OP_CONST")
  case True
  then show ?thesis by (simp add: propagate_inst_def operands_agree_def)
next
  case False
  let ?g = "\<lambda>a. the (propagate_operand f (Some a))"
  have map: "propagate_operand f v = map_option ?g v" for v
    by (cases v) (auto simp: propagate_operand_def known_const_def is_reg_def split: option.split)
  have "eval_value w r (?g v) = Some x" if "eval_value w r v = Some x" for v x
  proof (cases "known_const f (Some v)")
    case None
    then show ?thesis using that by (simp add: propagate_operand_def)
  next
    case (Some c)
    then have "v_kind v = IR_VAL_REG" "const_map f (v_id v) = Some c" by (auto simp: known_const_def is_reg_def split: if_splits)
    moreover from this(1) have "r (v_id v) = Some x" using that by (simp add: eval_value_def)
    ultimately show ?thesis using assms Some by (simp add: const_inv_def propagate_operand_def)
  qed
  moreover have "skeleton (propagate_inst f i) = skeleton i" "result_type (propagate_inst f i) = result_type i"
    by (simp_all add: propagate_inst_def skeleton_def result_type_def split: option.split)
  moreover have "i_lhs (propagate_inst f i) = propagate_operand f (i_lhs i)" "i_rhs (propagate_inst f i) = propagate_operand f (i_rhs i)"
      "i_args (propagate_inst f i) = map ?g (i_args i)" using False by (simp_all add: propagate_inst_def)
  ultimately show ?thesis unfolding map [of "i_lhs i"] map [of "i_rhs i"] using False by (blast intro: operands_agree_map [where g = ?g])
qed

lemma propagation_sim:
  assumes "consts_ok f" and "i \<in> set (fn_insts f)" and "literals_fit f"
  shows "sim_inst w (\<lambda>r r'. r' = r \<and> const_inv f w r) i (propagate_inst f i)"
proof (rule sim_instI)
  show "i_result (propagate_inst f i) = i_result i" by (simp add: propagate_inst_def)
next
  fix r r'
  assume "r' = r \<and> const_inv f w r"
  then show "operands_agree w i r (propagate_inst f i) r'" using propagated_agree by blast
next
  fix r r' m v m'
  assume "r' = r \<and> const_inv f w r" and "action w i r m = Some (Set_Result v m')"
  then show "set_result i v r' = set_result i v r \<and> const_inv f w (set_result i v r)"
    using const_inv_result [OF assms(1,2) _ _ assms(3), of w r m v m'] by simp
qed

section \<open>Dead code elimination\<close>

definition used :: "ir_function \<Rightarrow> nat \<Rightarrow> bool" where
  "used f n \<longleftrightarrow> max_id f \<le> n \<or> use_count f n \<noteq> 0"

definition agree_used :: "ir_function \<Rightarrow> regs \<Rightarrow> regs \<Rightarrow> bool" where
  "agree_used f r r' \<longleftrightarrow> (\<forall>n. used f n \<longrightarrow> r' n = r n)"

lemma count_if_zero: "count_if P xs = 0 \<Longrightarrow> y \<in> set xs \<Longrightarrow> \<not> P y"
  by (auto simp: count_if_def filter_empty_conv)

lemma operand_used:
  assumes "i \<in> set (fn_insts f)" and "Some v \<in> set (i_lhs i # i_rhs i # map Some (i_args i))" and "v_kind v = IR_VAL_REG"
  shows "used f (v_id v)"
proof (cases "v_id v < max_id f")
  case True
  have "Some v \<in> set (concat (map (\<lambda>i. i_lhs i # i_rhs i # map Some (i_args i)) (fn_insts f)))" using assms(1,2) by auto
  then have "use_count f (v_id v) \<noteq> 0"
    using count_if_zero [of "\<lambda>x. is_reg (max_id f) x \<and> v_id (the x) = v_id v" _ "Some v"] assms(3) True
    unfolding use_count_def by (fastforce simp: is_reg_def)
  then show ?thesis by (simp add: used_def)
qed (simp add: used_def)

lemma used_agree:
  assumes "i \<in> set (fn_insts f)" and "agree_used f r r'"
  shows "operands_agree w i r i r'"
proof -
  have one: "eval_value w r' v = eval_value w r v" if "Some v \<in> set (i_lhs i # i_rhs i # map Some (i_args i))" for v
    using operand_used [OF assms(1) that] assms(2) by (auto simp: eval_value_def agree_used_def split: ir_value_kind.split)
  have lhs: "eval_operand w r' (i_lhs i) = eval_operand w r (i_lhs i)" "eval_operand w r' (i_rhs i) = eval_operand w r (i_rhs i)"
    using one by (auto simp: eval_operand_def split: option.split)
  have "eval_values w r' vs = eval_values w r vs" if "\<forall>v \<in> set vs. eval_value w r' v = eval_value w r v" for vs
    using that by (induction vs) auto
  moreover have "\<forall>v \<in> set (operands i). eval_value w r' v = eval_value w r v"
    using one by (cases "i_lhs i"; cases "i_rhs i") (auto simp: operands_def map_filter_simps)
  ultimately show ?thesis using lhs by (simp add: operands_agree_def assigned_eq [OF lhs(1)])
qed

lemma kept_sim:
  assumes "i \<in> set (fn_insts f)"
  shows "sim_inst w (agree_used f) i i"
proof (rule sim_instI)
  show "agree_used f r r' \<Longrightarrow> operands_agree w i r i r'" for r r' using used_agree [OF assms] .
  show "agree_used f (set_result i v r) (set_result i v r')" if "agree_used f r r'" for r r' v
    using that by (auto simp: agree_used_def set_result_def split: option.split)
qed simp

lemma dead_step:
  assumes "is_dead f i" and "agree_used f r r'" and "step w i r m = Some p"
  shows "\<exists>s. p = Next s m \<and> agree_used f s r'"
proof -
  obtain ri where ri: "i_result i = Some ri" "v_kind ri = IR_VAL_REG" "v_id ri < max_id f" "use_count f (v_id ri) = 0"
    using assms(1) by (auto simp: is_dead_def is_reg_def split: option.splits)
  have "\<not> has_effect (i_op i)" "i_op i \<notin> {IR_OP_BR, IR_OP_CONDBR, IR_OP_RET, IR_OP_STORE}"
    using assms(1) by (auto simp: is_dead_def is_instruction_side_effecting_def has_effect_def)
  then obtain x where "p = Next (set_result i (Some x) r) m" using assms(3) by (auto simp: step_def)
  moreover have "agree_used f (set_result i (Some x) r) r'"
    using assms(2) ri by (auto simp: agree_used_def set_result_def used_def)
  ultimately show ?thesis by blast
qed

lemma dead_sim:
  assumes "set xs \<subseteq> set (fn_insts f)"
  shows "sim_insts w (agree_used f) xs (filter (\<lambda>i. \<not> is_dead f i) xs)"
  using assms
proof (induction xs)
  case Nil
  show ?case by (simp add: sim_insts_Nil)
next
  case (Cons i xs)
  then have IH: "sim_insts w (agree_used f) xs (filter (\<lambda>i. \<not> is_dead f i) xs)" by simp
  show ?case
  proof (cases "is_dead f i")
    case True
    show ?thesis
    proof (unfold sim_insts_def, intro allI impI)
      fix r r' m p
      assume R: "agree_used f r r'" and ex: "exec_insts w (i # xs) r m = Some p"
      then obtain p1 where p1: "step w i r m = Some p1" by (cases "step w i r m") auto
      then obtain s where s: "p1 = Next s m" "agree_used f s r'" using dead_step [OF True R p1] by blast
      then have "exec_insts w xs s m = Some p" using ex p1 by simp
      then have "\<exists>q. exec_insts w (filter (\<lambda>i. \<not> is_dead f i) xs) r' m = Some q \<and> outcome_rel (agree_used f) p q"
        using IH s(2) unfolding sim_insts_def by blast
      then show "\<exists>q. exec_insts w (filter (\<lambda>i. \<not> is_dead f i) (i # xs)) r' m = Some q \<and> outcome_rel (agree_used f) p q"
        using True by simp
    qed
  next
    case False
    then show ?thesis using sim_insts_Cons [OF kept_sim IH] Cons.prems by simp
  qed
qed

section \<open>Rounds of dead code elimination\<close>

lemma insts_fold_updates:
  assumes "order_ok f" and "b \<in> set (fn_order f)"
  shows "bb_insts (block_at (fold (\<lambda>b. update_block b (\<lambda>bb. bb\<lparr>bb_insts := g (bb_insts bb)\<rparr>)) (fn_order f) f) b) =
    g (bb_insts (block_at f b))"
  using assms block_at_fold_updates [of "fn_order f" f "\<lambda>_ bb. bb\<lparr>bb_insts := g (bb_insts bb)\<rparr>" b] by (simp add: order_ok_def)

lemma remove_dead_keeps [simp]:
  "fn_order (remove_dead f) = fn_order f" "fn_entry (remove_dead f) = fn_entry f" "fn_next_reg (remove_dead f) = fn_next_reg f"
  "length (fn_heap (remove_dead f)) = length (fn_heap f)"
  by (simp_all add: remove_dead_def)

lemma order_ok_remove_dead [simp]: "order_ok (remove_dead f) = order_ok f"
  by (simp add: order_ok_def)

lemma remove_dead_insts:
  assumes "order_ok f"
  shows "fn_insts (remove_dead f) = filter (\<lambda>i. \<not> is_dead f i) (fn_insts f)"
proof -
  have "map (\<lambda>b. bb_insts (block_at (remove_dead f) b)) (fn_order f) =
      map (\<lambda>b. filter (\<lambda>i. \<not> is_dead f i) (bb_insts (block_at f b))) (fn_order f)"
    using insts_fold_updates [OF assms] unfolding remove_dead_def by (intro map_cong) auto
  then show ?thesis unfolding fn_insts_def filter_concat map_map comp_def remove_dead_keeps by (rule arg_cong [of _ _ concat])
qed

lemma is_dead_cong: "fn_insts g = fn_insts f \<Longrightarrow> fn_next_reg g = fn_next_reg f \<Longrightarrow> is_dead g i = is_dead f i"
  by (simp add: is_dead_def max_id_def use_count_def)

lemma remove_dead_preserves:
  assumes "order_ok f" and "call_result w f k m = Some res"
  shows "call_result w (remove_dead f) k m = Some res"
proof (rule call_simulates [where R = "agree_used f", OF _ _ _ assms(2)])
  fix b
  assume b: "b \<in> set (fn_order f)"
  have "set (bb_insts (block_at f b)) \<subseteq> set (fn_insts f)" using b in_fn_insts by blast
  then show "b \<in> set (fn_order (remove_dead f)) \<and>
      sim_insts w (agree_used f) (bb_insts (block_at f b)) (bb_insts (block_at (remove_dead f) b))"
    using b dead_sim insts_fold_updates [OF assms(1) b, of "filter (\<lambda>i. \<not> is_dead f i)"] by (simp add: remove_dead_def)
qed (simp_all add: agree_used_def)

definition dce_inv :: "(ir_function \<Rightarrow> bool) \<Rightarrow> (ir_function \<times> bool) \<times> bool \<Rightarrow> bool" where
  "dce_inv P s \<longleftrightarrow> (case s of ((f, local), any) \<Rightarrow> order_ok f \<and> P f \<and> (\<not> local \<longrightarrow> \<not> list_ex (is_dead f) (fn_insts f)))"

lemma dce_round_inv:
  assumes "\<And>f. order_ok f \<Longrightarrow> P f \<Longrightarrow> P (remove_dead f)" and "dce_inv P s"
  shows "dce_inv P (dce_round s)"
proof -
  obtain f l a where s: "s = ((f, l), a)" by (cases s) auto
  have f: "order_ok f" "P f" using assms(2) s by (simp_all add: dce_inv_def)
  have "\<not> list_ex (is_dead (remove_dead f)) (fn_insts (remove_dead f))" if none: "\<not> list_ex (is_dead f) (fn_insts f)"
  proof -
    have "fn_insts (remove_dead f) = fn_insts f"
      using none by (simp add: remove_dead_insts [OF f(1)] list_ex_iff)
    then show ?thesis using none is_dead_cong [of "remove_dead f" f] by (simp add: list_ex_iff)
  qed
  then show ?thesis using f assms(1) [OF f] by (simp add: s dce_inv_def dce_round_def Let_def)
qed

lemma dce_terminates:
  assumes "order_ok f"
  shows "\<exists>t. while_option (\<lambda>s. snd (fst s)) dce_round ((f, True), False) = Some t"
proof (rule measure_while_option_Some [where P = "\<lambda>s. order_ok (fst (fst s))" and
      f = "\<lambda>s. length (fn_insts (fst (fst s))) + (if snd (fst s) then 1 else 0)"])
  fix s :: "(ir_function \<times> bool) \<times> bool"
  assume s: "order_ok (fst (fst s))" "snd (fst s)"
  obtain f l a where f: "s = ((f, l), a)" by (cases s) auto
  have o: "order_ok f" "l" using s f by simp_all
  have "length (filter (\<lambda>i. \<not> is_dead f i) (fn_insts f)) < length (fn_insts f)" if "list_ex (is_dead f) (fn_insts f)"
    using that length_filter_less [of _ "fn_insts f" "\<lambda>i. \<not> is_dead f i"] by (auto simp: list_ex_iff)
  then show "order_ok (fst (fst (dce_round s))) \<and>
      length (fn_insts (fst (fst (dce_round s)))) + (if snd (fst (dce_round s)) then 1 else 0)
      < length (fn_insts (fst (fst s))) + (if snd (fst s) then 1 else 0)"
    using o by (simp add: f dce_round_def Let_def remove_dead_insts [OF o(1)] le_imp_less_Suc)
qed (use assms in simp)

section \<open>What the first passes preserve\<close>

text \<open>C25. Constant folding preserves the behaviour of a function: a call that returns a value and a memory
  does so after the pass, with the same number of blocks executed.\<close>

theorem constant_folding_preserves:
  assumes "order_ok f" and "ir_opt_constant_folding (w_float w) f = Some (g, c)" and "call_result w f k m = Some res"
  shows "call_result w g k m = Some res"
proof -
  have "fn_order g = fn_order f \<and> fn_entry g = fn_entry f \<and>
      (\<forall>b. sim_insts w (=) (bb_insts (block_at f b)) (bb_insts (block_at g b)))"
    using fold_blocks_sim assms(1,2) unfolding ir_opt_constant_folding_def order_ok_def by blast
  then show ?thesis using call_simulates [where R = "(=)", OF _ _ _ assms(3)] by simp
qed

lemma demo_order_ok: "order_ok demo"
  by (simp add: order_ok_def demo_parts)

lemma demo_folds: "ir_opt_constant_folding fp demo \<noteq> None"
  by (simp add: ir_opt_constant_folding_def demo_parts block_at_update_block fold_inst_def fold_rules_def
      fold_int_arith_def int_operands_def fold_neg_def fold_float_arith_def float_operands_def fold_int_compare_def
      fold_float_compare_def fold_logical_def bool_operands_def fold_not_def int_result_def demo_insts)

theorem constant_folding_preserves_witness:
  "call_result null_world (fst (the (ir_opt_constant_folding (w_float null_world) demo))) 2 () = Some (Some (VInt 9), ())"
proof -
  obtain g c where g: "ir_opt_constant_folding (w_float null_world) demo = Some (g, c)" using demo_folds by fastforce
  show ?thesis using constant_folding_preserves [OF demo_order_ok g demo_runs] g by simp
qed

text \<open>C16. Constant propagation preserves the behaviour of a function whose constant instructions define registers
  and whose literals fit the type of the register they are assigned to: a call that returns a value and a
  memory does so after the pass. Without the second condition it does not: see \<open>wide_literal_changes_result\<close>.\<close>

theorem constant_propagation_preserves:
  assumes "order_ok f" and "consts_ok f" and "literals_fit f" and "call_result w f k m = Some res"
  shows "call_result w (fst (ir_opt_constant_propagation f)) k m = Some res"
proof (rule call_simulates [where R = "\<lambda>r r'. r' = r \<and> const_inv f w r", OF _ _ _ assms(4)])
  fix b
  assume b: "b \<in> set (fn_order f)"
  have "\<forall>i \<in> set (bb_insts (block_at f b)). sim_inst w (\<lambda>r r'. r' = r \<and> const_inv f w r) i (propagate_inst f i)"
    using propagation_sim [OF assms(2) _ assms(3)] in_fn_insts [OF b] by blast
  then show "b \<in> set (fn_order (fst (ir_opt_constant_propagation f))) \<and>
      sim_insts w (\<lambda>r r'. r' = r \<and> const_inv f w r) (bb_insts (block_at f b))
        (bb_insts (block_at (fst (ir_opt_constant_propagation f)) b))"
    using b sim_insts_map map_insts_block [OF assms(1) b] by (simp add: ir_opt_constant_propagation_def)
qed (simp_all add: ir_opt_constant_propagation_def const_inv_def)

theorem constant_propagation_preserves_witness:
  "call_result null_world (fst (ir_opt_constant_propagation demo)) 2 () = Some (Some (VInt 9), ())"
  by (rule constant_propagation_preserves [OF demo_order_ok _ _ demo_runs])
    (simp_all add: consts_ok_def literals_fit_def in_range_def result_type_def fn_insts_def demo_parts demo_insts)

text \<open>C24. Dead code elimination always ends; it leaves no instruction without effect whose result register is
  not used, and every call that returns a value and a memory does so after the pass.\<close>

theorem dead_code_elimination_correct:
  assumes "order_ok f"
  shows "\<exists>g c. ir_opt_dead_code_elimination f = Some (g, c) \<and> \<not> list_ex (is_dead g) (fn_insts g) \<and>
    (\<forall>(w :: 'm world) k m res. call_result w f k m = Some res \<longrightarrow> call_result w g k m = Some res)"
proof -
  obtain t where t: "while_option (\<lambda>s. snd (fst s)) dce_round ((f, True), False) = Some t"
    using dce_terminates [OF assms(1)] by blast
  let ?P = "\<lambda>g. \<forall>(w :: 'm world) k m res. call_result w f k m = Some res \<longrightarrow> call_result w g k m = Some res"
  have "dce_inv ?P t"
  proof (rule while_option_rule [where P = "dce_inv ?P", OF _ t])
    have "?P (remove_dead g)" if "order_ok g" "?P g" for g
    proof (intro allI impI)
      fix w :: "'m world" and k m res
      assume "call_result w f k m = Some res"
      then have "call_result w g k m = Some res" using that(2) by blast
      then show "call_result w (remove_dead g) k m = Some res" by (rule remove_dead_preserves [OF that(1)])
    qed
    then show "dce_inv ?P (dce_round s)" if "dce_inv ?P s" for s using dce_round_inv [OF _ that] by blast
  qed (use assms in \<open>simp add: dce_inv_def\<close>)
  moreover have "\<not> snd (fst t)" using while_option_stop [OF t] .
  ultimately show ?thesis
    using t by (cases t; cases "fst t") (auto simp: ir_opt_dead_code_elimination_def dce_inv_def)
qed

theorem dead_code_elimination_correct_witness:
  "\<exists>g c. ir_opt_dead_code_elimination demo = Some (g, c) \<and> \<not> list_ex (is_dead g) (fn_insts g) \<and>
    call_result null_world g 2 () = Some (Some (VInt 9), ())"
  using dead_code_elimination_correct [where 'm = unit, OF demo_order_ok] demo_runs by blast

section \<open>A literal that does not fit its register\<close>

text \<open>As the lowering makes it, a literal has type i32 whatever its value. Assigned to its register it is cut to 32
  bits; propagated it is not.\<close>

definition wide_literal :: ir_function where
  "wide_literal = demo_function
     [[(create_instruction IR_OP_CONST Ty_I32)\<lparr>i_result := Some (ir_val_reg Ty_I32 0), i_lhs := Some (ir_val_const_int (Some Ty_I32) 5000000000)\<rparr>,
       (create_instruction IR_OP_DIV Ty_I32)\<lparr>i_result := Some (ir_val_reg Ty_I32 1), i_lhs := Some (ir_val_reg Ty_I32 0),
         i_rhs := Some (ir_val_const_int (Some Ty_I32) 4)\<rparr>,
       demo_return (ir_val_reg Ty_I32 1)]]"

theorem wide_literal_changes_result:
  "call_result null_world wide_literal 1 () = Some (Some (VInt 176258176), ()) \<and>
   call_result null_world (fst (ir_opt_constant_propagation wide_literal)) 1 () = Some (Some (VInt 1250000000), ())"
  by code_simp

end
