(* ===== verification/Ir_Opt_Cfg.thy ===== *)
theory Ir_Opt_Cfg
  imports Ir_Opt_Correct
begin

text \<open>
  Branch simplification and the removal of unreachable blocks: the search ends, what it marks is
  closed under successors, and so no execution of a verified function meets a block that is removed.
\<close>

section \<open>Simplified branches\<close>

lemma sint_zero [simp]: "sint (x :: u64) = 0 \<longleftrightarrow> x = 0"
  using sint_inj [of x 0] by auto

lemma const_condition_truth:
  assumes "const_condition v = Some c"
  shows "Option.bind (eval_operand w r v) truth = Some c"
  using assms by (auto simp: const_condition_def eval_operand_def truth_def split: option.splits ir_value_kind.splits)

lemma step_branch_to: "step w (branch_to t i) r m = goto t r m"
  by (simp add: step_def branch_to_def)

lemma simplify_branch_step:
  assumes "step w i r m = Some p"
  shows "step w (simplify_branch i) r m = Some p"
proof (cases "i_op i = IR_OP_CONDBR")
  case True
  then have s: "step w i r m = Option.bind (Option.bind (eval_operand w r (i_lhs i)) truth)
      (\<lambda>c. goto (if c then i_true i else i_false i) r m)" by (simp add: step_def)
  show ?thesis
  proof (cases "const_condition (i_lhs i)")
    case None
    then show ?thesis using True assms s by (auto simp: simplify_branch_def step_branch_to bind_eq_Some_conv split: if_splits)
  next
    case (Some c)
    then have "step w (simplify_branch i) r m = goto (if c then i_true i else i_false i) r m"
      using True by (simp add: simplify_branch_def step_branch_to)
    then show ?thesis using assms unfolding s const_condition_truth [OF Some] by simp
  qed
qed (use assms in \<open>simp add: simplify_branch_def\<close>)

lemma sim_insts_append_last: "sim_insts w (=) (xs @ [i]) (xs @ [simplify_branch i])"
proof (induction xs)
  case Nil
  have "sim_inst w (=) i (simplify_branch i)" using simplify_branch_step by (auto simp: sim_inst_def)
  then show ?case using sim_insts_Cons [OF _ sim_insts_Nil] by simp
next
  case (Cons x xs)
  have "sim_inst w (=) x x" by (simp add: sim_inst_def)
  then show ?case using Cons sim_insts_Cons by fastforce
qed

lemma simplify_last_sim: "sim_insts w (=) (bb_insts bb) (bb_insts (simplify_last bb))"
proof (cases "bb_insts bb = []")
  case False
  then show ?thesis
    using sim_insts_append_last [of w "butlast (bb_insts bb)" "last (bb_insts bb)"] by (simp add: simplify_last_def)
qed (simp add: simplify_last_def sim_insts_Nil)

lemma simplify_last_id [simp]: "bb_id (simplify_last bb) = bb_id bb"
  by (simp add: simplify_last_def)

lemma simplify_branches_block:
  assumes "order_ok f" and "b \<in> set (fn_order f)"
  shows "block_at (fst (simplify_branches f)) b = simplify_last (block_at f b)"
  using assms block_at_fold_updates [of "fn_order f" f "\<lambda>_. simplify_last" b] by (simp add: simplify_branches_def order_ok_def)

lemma fold_updates_next [simp]:
  "fn_next_block (fold (\<lambda>b. update_block b (h b)) bs f) = fn_next_block f"
  "fn_block_count (fold (\<lambda>b. update_block b (h b)) bs f) = fn_block_count f"
  by (induction bs arbitrary: f) (simp_all add: update_block_def)

lemma simplify_branches_keeps [simp]:
  "fn_order (fst (simplify_branches f)) = fn_order f" "fn_entry (fst (simplify_branches f)) = fn_entry f"
  "length (fn_heap (fst (simplify_branches f))) = length (fn_heap f)"
  "max_blocks (fst (simplify_branches f)) = max_blocks f"
  by (simp_all add: simplify_branches_def max_blocks_def)

section \<open>Where execution goes\<close>

text \<open>Only the last instruction of a block of a verified function leaves it.\<close>

definition one_exit :: "ir_inst list \<Rightarrow> bool" where
  "one_exit xs \<longleftrightarrow> xs \<noteq> [] \<and> (\<forall>i \<in> set (butlast xs). \<not> ir_is_terminator (i_op i))"

lemma step_goto:
  assumes "step w i r m = Some (Goto c r' m')"
  shows "c \<in> set (inst_targets i) \<and> ir_is_terminator (i_op i)"
proof -
  obtain a where a: "action w i r m = Some a" "outcome_of i r a = Goto c r' m'" using assms by (auto simp: step_action)
  then have "a = Jump c m'" by (cases a) (simp_all add: outcome_of_def)
  then have j: "action w i r m = Some (Jump c m')" using a by simp
  have "i_op i = IR_OP_BR \<and> i_true i = Some c \<or> i_op i = IR_OP_CONDBR \<and> (i_true i = Some c \<or> i_false i = Some c)"
    using j by (auto simp: action_def bind_eq_Some_conv split: if_splits option.splits)
  then show ?thesis by (auto simp: inst_targets_def ir_is_terminator_def)
qed

lemma exec_goto:
  assumes "one_exit xs" and "exec_insts w xs r m = Some (Goto c r' m')"
  shows "c \<in> set (inst_targets (last xs))"
  using assms
proof (induction xs arbitrary: r m)
  case (Cons i xs)
  obtain p where p: "step w i r m = Some p" using Cons.prems(2) by (cases "step w i r m") auto
  show ?case
  proof (cases "xs = []")
    case True
    then have "p = Goto c r' m'" using Cons.prems(2) p by (cases p) simp_all
    then show ?thesis using True p step_goto [of w i r m c r' m'] by simp
  next
    case False
    then have i: "\<not> ir_is_terminator (i_op i)" "one_exit xs" using Cons.prems(1) by (auto simp: one_exit_def)
    then obtain s m1 where "p = Next s m1" using p Cons.prems(2) step_goto [of w i r m] by (cases p) auto
    then show ?thesis using Cons.IH [OF i(2)] Cons.prems(2) p False by simp
  qed
qed simp

lemma targets_simplify_branch: "set (inst_targets (simplify_branch i)) \<subseteq> set (inst_targets i)"
  by (auto simp: simplify_branch_def inst_targets_def branch_to_def split: option.splits if_splits)

section \<open>The search\<close>

text \<open>Numbers tell the blocks of the function apart and fit the arrays, and successors are blocks of the function.\<close>

definition numbered :: "ir_function \<Rightarrow> bool" where
  "numbered f \<longleftrightarrow> distinct (map (\<lambda>b. bb_id (block_at f b)) (fn_order f)) \<and>
     list_all (\<lambda>b. bb_id (block_at f b) < max_blocks f) (fn_order f)"

definition closed_edges :: "ir_function \<Rightarrow> bool" where
  "closed_edges f \<longleftrightarrow> (\<forall>b \<in> set (fn_order f). set (bb_succs (block_at f b)) \<subseteq> set (fn_order f))"

definition marked :: "ir_function \<Rightarrow> bool list \<Rightarrow> nat \<Rightarrow> bool" where
  "marked f reach b \<longleftrightarrow> reach ! bb_id (block_at f b)"

definition unmarked :: "bool list \<Rightarrow> nat" where
  "unmarked reach = count_if Not reach"

lemma unmarked_update:
  "n < length reach \<Longrightarrow> \<not> reach ! n \<Longrightarrow> Suc (unmarked (reach[n := True])) = unmarked reach"
  by (induction reach arbitrary: n) (auto simp: unmarked_def nth_Cons split: nat.split)

lemma numbered_eq:
  assumes "numbered f" and "a \<in> set (fn_order f)" and "b \<in> set (fn_order f)" and "bb_id (block_at f a) = bb_id (block_at f b)"
  shows "a = b"
  using assms by (auto simp: numbered_def distinct_map dest: inj_onD)

lemma numbered_bound: "numbered f \<Longrightarrow> b \<in> set (fn_order f) \<Longrightarrow> bb_id (block_at f b) < max_blocks f"
  by (simp add: numbered_def list_all_iff)

text \<open>One or more markings: marks are kept, and what is newly marked waits in the queue.\<close>

definition spreads :: "ir_function \<Rightarrow> bool list \<times> nat list \<Rightarrow> bool list \<times> nat list \<Rightarrow> bool" where
  "spreads f s t \<longleftrightarrow> length (fst t) = length (fst s) \<and>
     (\<forall>b \<in> set (fn_order f). marked f (fst s) b \<longrightarrow> marked f (fst t) b) \<and>
     (\<forall>b \<in> set (fn_order f). marked f (fst t) b \<longrightarrow> marked f (fst s) b \<or> b \<in> set (snd t)) \<and>
     (\<forall>b \<in> set (snd t). b \<in> set (snd s) \<or> marked f (fst t) b) \<and>
     set (snd s) \<subseteq> set (snd t) \<and> set (snd t) \<subseteq> set (snd s) \<union> set (fn_order f) \<and>
     2 * unmarked (fst t) + length (snd t) \<le> 2 * unmarked (fst s) + length (snd s)"

lemma spreads_refl: "spreads f s s"
  by (simp add: spreads_def)

lemma spreadsD:
  assumes "spreads f s t"
  shows "length (fst t) = length (fst s)"
    and "b \<in> set (fn_order f) \<Longrightarrow> marked f (fst s) b \<Longrightarrow> marked f (fst t) b"
    and "b \<in> set (fn_order f) \<Longrightarrow> marked f (fst t) b \<Longrightarrow> marked f (fst s) b \<or> b \<in> set (snd t)"
    and "b \<in> set (snd t) \<Longrightarrow> b \<in> set (snd s) \<or> marked f (fst t) b"
    and "set (snd s) \<subseteq> set (snd t)" and "set (snd t) \<subseteq> set (snd s) \<union> set (fn_order f)"
    and "2 * unmarked (fst t) + length (snd t) \<le> 2 * unmarked (fst s) + length (snd s)"
  using assms unfolding spreads_def by blast+

lemma spreads_trans:
  assumes "spreads f s t" and "spreads f t u" and "set (snd t) \<subseteq> set (fn_order f)"
  shows "spreads f s u"
proof -
  note st = spreadsD [OF assms(1)] and tu = spreadsD [OF assms(2)]
  show ?thesis
    unfolding spreads_def
  proof (intro conjI ballI impI)
    show "length (fst u) = length (fst s)" using st(1) tu(1) by simp
    show "marked f (fst u) b" if "b \<in> set (fn_order f)" "marked f (fst s) b" for b using that st(2) tu(2) by blast
    show "marked f (fst s) b \<or> b \<in> set (snd u)" if "b \<in> set (fn_order f)" "marked f (fst u) b" for b
      using that st(3) tu(3,5) by blast
    show "b \<in> set (snd s) \<or> marked f (fst u) b" if "b \<in> set (snd u)" for b
      using that st(4) tu(2,4) assms(3) by blast
    show "set (snd s) \<subseteq> set (snd u)" using st(5) tu(5) by blast
    show "set (snd u) \<subseteq> set (snd s) \<union> set (fn_order f)" using st(6) tu(6) by blast
    show "2 * unmarked (fst u) + length (snd u) \<le> 2 * unmarked (fst s) + length (snd s)" using st(7) tu(7) by linarith
  qed
qed

lemma mark_block_spreads:
  assumes "numbered f" and "length (fst s) = max_blocks f" and "b \<in> set (fn_order f)"
  shows "spreads f s (mark_block f b s) \<and> marked f (fst (mark_block f b s)) b \<and>
    (\<forall>c \<in> set (fn_order f). marked f (fst (mark_block f b s)) c \<longrightarrow> marked f (fst s) c \<or> c = b)"
proof -
  obtain reach queue where s: "s = (reach, queue)" by (cases s)
  let ?n = "bb_id (block_at f b)"
  have n: "?n < length reach" using assms numbered_bound [OF assms(1,3)] by (simp add: s)
  show ?thesis
  proof (cases "reach ! ?n")
    case True
    then show ?thesis by (simp add: s mark_block_def spreads_refl marked_def)
  next
    case False
    then have m: "mark_block f b s = (reach[?n := True], queue @ [b])" using n by (simp add: s mark_block_def Let_def)
    have id: "marked f (reach[?n := True]) c \<longleftrightarrow> c = b \<or> marked f reach c" if "c \<in> set (fn_order f)" for c
      using numbered_eq [OF assms(1) that assms(3)] n by (auto simp: marked_def nth_list_update)
    have "2 * unmarked (reach[?n := True]) + length (queue @ [b]) \<le> 2 * unmarked reach + length queue"
      using unmarked_update [OF n False] by simp
    then show ?thesis unfolding m using assms(3) by (auto simp: spreads_def s id)
  qed
qed

lemma mark_blocks_spread:
  assumes "numbered f"
  shows "set bs \<subseteq> set (fn_order f) \<Longrightarrow> length (fst s) = max_blocks f \<Longrightarrow> set (snd s) \<subseteq> set (fn_order f) \<Longrightarrow>
    spreads f s (fold (mark_block f) bs s) \<and> (\<forall>b \<in> set bs. marked f (fst (fold (mark_block f) bs s)) b) \<and>
    (\<forall>c \<in> set (fn_order f). marked f (fst (fold (mark_block f) bs s)) c \<longrightarrow> marked f (fst s) c \<or> c \<in> set bs)"
proof (induction bs arbitrary: s)
  case (Cons b bs)
  let ?t = "mark_block f b s"
  have b: "b \<in> set (fn_order f)" using Cons.prems by simp
  have g: "spreads f s ?t" "marked f (fst ?t) b"
      "\<forall>c \<in> set (fn_order f). marked f (fst ?t) c \<longrightarrow> marked f (fst s) c \<or> c = b"
    using mark_block_spreads [OF assms Cons.prems(2) b] by simp_all
  have l: "length (fst ?t) = max_blocks f" using g(1) Cons.prems(2) by (simp add: spreads_def)
  have q: "set (snd ?t) \<subseteq> set (fn_order f)" using g(1) Cons.prems(3) unfolding spreads_def by blast
  have IH: "spreads f ?t (fold (mark_block f) bs ?t)" "\<forall>b \<in> set bs. marked f (fst (fold (mark_block f) bs ?t)) b"
      "\<forall>c \<in> set (fn_order f). marked f (fst (fold (mark_block f) bs ?t)) c \<longrightarrow> marked f (fst ?t) c \<or> c \<in> set bs"
    using Cons.IH [OF _ l q] Cons.prems(1) by simp_all
  then have "marked f (fst (fold (mark_block f) bs ?t)) b" using g(2) b by (simp add: spreads_def)
  then show ?case using IH(2,3) g(3) spreads_trans [OF g(1) IH(1) q] by auto
qed (simp add: spreads_refl)

definition block_edges :: "ir_function \<Rightarrow> (nat \<times> nat) set" where
  "block_edges f = {(a, b). b \<in> set (bb_succs (block_at f a))}"

definition search_ok :: "ir_function \<Rightarrow> bool list \<times> nat list \<Rightarrow> bool" where
  "search_ok f s \<longleftrightarrow> length (fst s) = max_blocks f \<and> set (snd s) \<subseteq> set (fn_order f) \<and>
     (\<forall>b \<in> set (snd s). marked f (fst s) b) \<and>
     (\<forall>e. fn_entry f = Some e \<longrightarrow> marked f (fst s) e \<and>
        (\<forall>b \<in> set (fn_order f). marked f (fst s) b \<longrightarrow> (e, b) \<in> (block_edges f)\<^sup>*)) \<and>
     (\<forall>b \<in> set (fn_order f). marked f (fst s) b \<longrightarrow> b \<in> set (snd s) \<or>
        (\<forall>c \<in> set (bb_succs (block_at f b)). marked f (fst s) c))"

lemma visit_next_ok:
  assumes "numbered f" and "closed_edges f" and "fn_entry f = Some e" and "e \<in> set (fn_order f)"
    and "search_ok f s" and "snd s \<noteq> []"
  shows "search_ok f (visit_next f s) \<and>
    2 * unmarked (fst (visit_next f s)) + length (snd (visit_next f s)) < 2 * unmarked (fst s) + length (snd s)"
proof -
  obtain reach b queue where s: "s = (reach, b # queue)" using assms(6) by (cases s; cases "snd s") auto
  have b: "b \<in> set (fn_order f)" and l: "length reach = max_blocks f" using assms(5) by (simp_all add: search_ok_def s)
  let ?t = "fold (mark_block f) (bb_succs (block_at f b)) (reach, queue)"
  have ss: "set (bb_succs (block_at f b)) \<subseteq> set (fn_order f)" using assms(2) b by (simp add: closed_edges_def)
  have q: "set queue \<subseteq> set (fn_order f)" using assms(5) by (simp add: search_ok_def s)
  have t: "spreads f (reach, queue) ?t" "\<forall>c \<in> set (bb_succs (block_at f b)). marked f (fst ?t) c"
      "\<forall>c \<in> set (fn_order f). marked f (fst ?t) c \<longrightarrow> marked f reach c \<or> c \<in> set (bb_succs (block_at f b))"
    using mark_blocks_spread [OF assms(1) ss, of "(reach, queue)"] l q by simp_all
  have from_entry: "(e, c) \<in> (block_edges f)\<^sup>*" if c: "c \<in> set (fn_order f)" "marked f (fst ?t) c" for c
  proof -
    consider "marked f reach c" | "(b, c) \<in> block_edges f" using t(3) c by (auto simp: block_edges_def)
    moreover have "(e, b) \<in> (block_edges f)\<^sup>*" using assms(3,5) b by (simp add: search_ok_def s)
    ultimately show ?thesis using assms(3,5) c(1) by cases (auto simp: search_ok_def s intro: rtrancl_into_rtrancl)
  qed
  have old: "\<forall>c \<in> set queue. marked f reach c" using assms(5) by (simp add: search_ok_def s)
  have waiting: "marked f (fst ?t) c" if "c \<in> set (snd ?t)" for c
    using spreadsD(4) [OF t(1) that] spreadsD(2) [OF t(1), of c] old q by auto
  have v: "visit_next f s = ?t" by (simp add: s visit_next_def)
  have closed: "c \<in> set (snd ?t) \<or> (\<forall>d \<in> set (bb_succs (block_at f c)). marked f (fst ?t) d)"
    if c: "c \<in> set (fn_order f)" "marked f (fst ?t) c" for c
  proof -
    consider "c \<in> set (snd ?t)" | "marked f reach c" using t(1) c by (auto simp: spreads_def)
    then show ?thesis
    proof cases
      case 2
      then consider "c = b" | "c \<in> set queue" | "\<forall>d \<in> set (bb_succs (block_at f c)). marked f reach d"
        using assms(5) c(1) by (auto simp: search_ok_def s)
      then show ?thesis
      proof cases
        case 1
        then show ?thesis using t(2) by simp
      next
        case 2
        then show ?thesis using t(1) by (auto simp: spreads_def)
      next
        case 3
        moreover have "set (bb_succs (block_at f c)) \<subseteq> set (fn_order f)" using assms(2) c(1) by (simp add: closed_edges_def)
        ultimately show ?thesis using t(1) by (auto simp: spreads_def)
      qed
    qed simp
  qed
  have "search_ok f ?t"
    unfolding search_ok_def
  proof (intro conjI)
    show "length (fst ?t) = max_blocks f" using spreadsD(1) [OF t(1)] l by simp
    show "set (snd ?t) \<subseteq> set (fn_order f)" using spreadsD(6) [OF t(1)] q by auto
    show "\<forall>b \<in> set (snd ?t). marked f (fst ?t) b" using waiting by blast
    have "marked f reach e" using assms(3,5) by (simp add: search_ok_def s)
    then show "\<forall>e. fn_entry f = Some e \<longrightarrow> marked f (fst ?t) e \<and>
        (\<forall>b \<in> set (fn_order f). marked f (fst ?t) b \<longrightarrow> (e, b) \<in> (block_edges f)\<^sup>*)"
      using spreadsD(2) [OF t(1), of e] from_entry assms(3,4) by simp
    show "\<forall>b \<in> set (fn_order f). marked f (fst ?t) b \<longrightarrow> b \<in> set (snd ?t) \<or>
        (\<forall>c \<in> set (bb_succs (block_at f b)). marked f (fst ?t) c)" using closed by blast
  qed
  then show ?thesis unfolding v using spreadsD(7) [OF t(1)] by (simp add: s)
qed

lemma start_marks_ok:
  assumes "numbered f" and "fn_entry f = Some e" and "e \<in> set (fn_order f)"
  shows "search_ok f (start_marks f)"
proof -
  let ?s = "(replicate (max_blocks f) False, [] :: nat list)"
  let ?t = "mark_block f e ?s"
  have g: "spreads f ?s ?t" "marked f (fst ?t) e" "\<forall>c \<in> set (fn_order f). marked f (fst ?t) c \<longrightarrow> marked f (fst ?s) c \<or> c = e"
    using mark_block_spreads [OF assms(1) _ assms(3), of ?s] by simp_all
  have none: "\<not> marked f (fst ?s) b" if "b \<in> set (fn_order f)" for b
    using numbered_bound [OF assms(1) that] by (simp add: marked_def)
  have "start_marks f = ?t" by (simp add: start_marks_def assms(2))
  moreover have "search_ok f ?t" using g none assms(2) unfolding search_ok_def spreads_def by auto
  ultimately show ?thesis by simp
qed

lemma reachable_marks_closed:
  assumes "numbered f" and "closed_edges f" and "fn_entry f = Some e" and "e \<in> set (fn_order f)"
  shows "\<exists>reach. reachable_marks f = Some reach \<and> length reach = max_blocks f \<and> marked f reach e \<and>
    (\<forall>b \<in> set (fn_order f). marked f reach b \<longrightarrow> (e, b) \<in> (block_edges f)\<^sup>*) \<and>
    (\<forall>b \<in> set (fn_order f). marked f reach b \<longrightarrow> (\<forall>c \<in> set (bb_succs (block_at f b)). marked f reach c))"
proof -
  have "\<exists>t. while_option (\<lambda>s. snd s \<noteq> []) (visit_next f) (start_marks f) = Some t"
    by (rule measure_while_option_Some [where P = "search_ok f" and f = "\<lambda>s. 2 * unmarked (fst s) + length (snd s)"])
      (use visit_next_ok [OF assms] start_marks_ok [OF assms(1,3,4)] in simp_all)
  then obtain t where t: "while_option (\<lambda>s. snd s \<noteq> []) (visit_next f) (start_marks f) = Some t" by blast
  have "search_ok f t"
    by (rule while_option_rule [where P = "search_ok f", OF _ t])
      (use visit_next_ok [OF assms] start_marks_ok [OF assms(1,3,4)] in simp_all)
  moreover have "snd t = []" using while_option_stop [OF t] by simp
  ultimately show ?thesis using t assms(3) by (auto simp: reachable_marks_def search_ok_def)
qed

section \<open>Verified functions\<close>

lemma typed_targets:
  assumes "typed_inst m f i"
  shows "set (inst_targets i) \<subseteq> set (fn_order f)"
proof (cases "i_op i = IR_OP_BR \<or> i_op i = IR_OP_CONDBR")
  case True
  then show ?thesis using assms by (elim disjE) (auto simp: typed_inst.simps [of m f i] inst_targets_def)
qed (simp add: inst_targets_def)

lemma verified_block:
  assumes "ir_verify_function m f = None" and "b \<in> set (fn_order f)"
  shows "\<exists>xs t. bb_insts (block_at f b) = xs @ [t] \<and> (\<forall>i \<in> set xs. \<not> ir_is_terminator (i_op i)) \<and>
    set (inst_targets t) \<subseteq> set (fn_order f)"
proof -
  have "well_formed_block m f (block_at f b)" using assms by (simp add: verify_function_None well_formed_function_def)
  then obtain phis body t where p: "bb_insts (block_at f b) = phis @ body @ [t]" "\<forall>i \<in> set phis. i_op i = IR_OP_PHI"
      "\<forall>i \<in> set body. i_op i \<noteq> IR_OP_PHI \<and> \<not> ir_is_terminator (i_op i)" "typed_inst m f t"
    unfolding well_formed_block_def by auto
  then show ?thesis
    using typed_targets by (intro exI [of _ "phis @ body"] exI [of _ t]) (auto simp: ir_is_terminator_def)
qed

lemma simplified_block:
  assumes "ir_verify_function m f = None" and "order_ok f" and "b \<in> set (fn_order f)"
  shows "one_exit (bb_insts (block_at (fst (simplify_branches f)) b)) \<and>
    set (inst_targets (last (bb_insts (block_at (fst (simplify_branches f)) b)))) \<subseteq> set (fn_order f) \<and>
    block_targets (fst (simplify_branches f)) b = inst_targets (last (bb_insts (block_at (fst (simplify_branches f)) b)))"
proof -
  obtain xs t where t: "bb_insts (block_at f b) = xs @ [t]" "\<forall>i \<in> set xs. \<not> ir_is_terminator (i_op i)"
      "set (inst_targets t) \<subseteq> set (fn_order f)" using verified_block [OF assms(1,3)] by blast
  have "bb_insts (block_at (fst (simplify_branches f)) b) = xs @ [simplify_branch t]"
    using t(1) by (simp add: simplify_branches_block [OF assms(2,3)] simplify_last_def)
  then show ?thesis using t targets_simplify_branch [of t] by (auto simp: one_exit_def block_targets_def last_inst_def)
qed

lemma recomputed:
  assumes "order_ok f"
  shows "fn_order (ir_recompute_cfg f) = fn_order f" "fn_entry (ir_recompute_cfg f) = fn_entry f"
    "max_blocks (ir_recompute_cfg f) = max_blocks f" "length (fn_heap (ir_recompute_cfg f)) = length (fn_heap f)"
    "bb_insts (block_at (ir_recompute_cfg f) b) = bb_insts (block_at f b)"
    "bb_id (block_at (ir_recompute_cfg f) b) = bb_id (block_at f b)"
    "b \<in> set (fn_order f) \<Longrightarrow> set (bb_succs (block_at (ir_recompute_cfg f) b)) = set (block_targets f b)"
proof -
  have "same_but_edges f (ir_recompute_cfg f)" and
    s: "b \<in> set (fn_order f) \<Longrightarrow> succs (ir_recompute_cfg f) b = dedup_onto [] (block_targets f b)"
    using recompute_cfg_spec [of f] assms by (simp_all add: order_ok_def)
  then show "fn_order (ir_recompute_cfg f) = fn_order f" "fn_entry (ir_recompute_cfg f) = fn_entry f"
    "max_blocks (ir_recompute_cfg f) = max_blocks f" "length (fn_heap (ir_recompute_cfg f)) = length (fn_heap f)"
    "bb_insts (block_at (ir_recompute_cfg f) b) = bb_insts (block_at f b)"
    "bb_id (block_at (ir_recompute_cfg f) b) = bb_id (block_at f b)"
    using same_but_edges_block [of f "ir_recompute_cfg f" b] by (simp_all add: same_but_edges_def max_blocks_def)
  show "b \<in> set (fn_order f) \<Longrightarrow> set (bb_succs (block_at (ir_recompute_cfg f) b)) = set (block_targets f b)"
    using s set_dedup_onto by simp
qed

text \<open>The function with simplified branches and its edges, from which blocks are removed.\<close>

definition branched :: "ir_function \<Rightarrow> ir_function" where
  "branched f = ir_recompute_cfg (fst (simplify_branches f))"

lemma branched_ok:
  assumes "ir_verify_function m f = None" and "order_ok f" and "numbered f"
  shows "fn_order (branched f) = fn_order f" "fn_entry (branched f) = fn_entry f" "order_ok (branched f)"
    "numbered (branched f)" "closed_edges (branched f)"
    "b \<in> set (fn_order f) \<Longrightarrow> one_exit (bb_insts (block_at (branched f) b))"
    "b \<in> set (fn_order f) \<Longrightarrow> set (inst_targets (last (bb_insts (block_at (branched f) b)))) = set (bb_succs (block_at (branched f) b))"
    "b \<in> set (fn_order f) \<Longrightarrow> sim_insts w (=) (bb_insts (block_at f b)) (bb_insts (block_at (branched f) b))"
proof -
  let ?g = "fst (simplify_branches f)"
  have og: "order_ok ?g" using assms(2) by (simp add: order_ok_def)
  note r = recomputed [OF og] and b = simplified_block [OF assms(1,2)]
  show "fn_order (branched f) = fn_order f" "fn_entry (branched f) = fn_entry f" "order_ok (branched f)"
    using og r by (simp_all add: branched_def order_ok_def)
  have "bb_id (block_at (branched f) x) = bb_id (block_at f x)" if "x \<in> set (fn_order f)" for x
    using that r(6) simplify_branches_block [OF assms(2)] by (simp add: branched_def)
  then show "numbered (branched f)"
    using assms(3) r(1,3) unfolding numbered_def by (simp add: branched_def list_all_iff cong: map_cong)
  show "closed_edges (branched f)" using b r(1,7) by (simp add: closed_edges_def branched_def)
  show "b \<in> set (fn_order f) \<Longrightarrow> one_exit (bb_insts (block_at (branched f) b))"
    "b \<in> set (fn_order f) \<Longrightarrow> set (inst_targets (last (bb_insts (block_at (branched f) b)))) = set (bb_succs (block_at (branched f) b))"
    using b [of b] r(5,7) by (simp_all add: branched_def)
  show "b \<in> set (fn_order f) \<Longrightarrow> sim_insts w (=) (bb_insts (block_at f b)) (bb_insts (block_at (branched f) b))"
    using r(5) simplify_branches_block [OF assms(2)] simplify_last_sim by (simp add: branched_def)
qed

text \<open>C15. The simplification of the control flow of a verified function ends and leaves exactly the blocks that
  the simplified branches reach from the entry; every call that returns a value and a memory does so after
  the pass.\<close>

theorem cfg_simplification_correct:
  assumes "ir_verify_function m f = None" and "order_ok f" and "numbered f"
  shows "\<exists>g c. ir_opt_cfg_simplification f = Some (g, c) \<and>
    fn_order g = filter (\<lambda>b. (the (fn_entry f), b) \<in> (block_edges (branched f))\<^sup>*) (fn_order f) \<and>
    (\<forall>(w :: 'm world) k mem res. call_result w f k mem = Some res \<longrightarrow> call_result w g k mem = Some res)"
proof -
  let ?h = "branched f" and ?e = "hd (fn_order f)"
  note h = branched_ok [OF assms(1-3)]
  have e: "fn_entry f = Some ?e" "?e \<in> set (fn_order f)"
    using assms(1) by (simp_all add: verify_function_None well_formed_function_def)
  then obtain reach where reach: "reachable_marks ?h = Some reach" "length reach = max_blocks ?h" "marked ?h reach ?e"
      "\<forall>b \<in> set (fn_order f). marked ?h reach b \<longrightarrow> (?e, b) \<in> (block_edges ?h)\<^sup>*"
      "\<forall>b \<in> set (fn_order f). marked ?h reach b \<longrightarrow> (\<forall>c \<in> set (bb_succs (block_at ?h b)). marked ?h reach c)"
    using reachable_marks_closed [OF h(4,5), of ?e] h(1,2) by auto
  define r where "r = fst (remove_unreachable reach ?h)"
  have kept: "keep_block ?h reach b \<longleftrightarrow> marked ?h reach b" if "b \<in> set (fn_order f)" for b
    using that e h(1,2) reach(2,3) numbered_bound [OF h(4), of b] by (auto simp: keep_block_def marked_def)
  have r: "fn_order r = filter (marked ?h reach) (fn_order f)" "fn_entry r = fn_entry f" "order_ok r"
      "bb_insts (block_at r b) = bb_insts (block_at ?h b)" for b
    using h(1-3) kept by (auto simp: r_def remove_unreachable_def Let_def order_ok_def block_at_def cong: filter_cong)
  note g = recomputed [OF r(3)]
  have "(?e, b) \<in> (block_edges ?h)\<^sup>* \<Longrightarrow> b \<in> set (fn_order f) \<and> marked ?h reach b" for b
  proof (induction rule: rtrancl_induct)
    case (step b c)
    then show ?case using reach(5) h(1,5) by (auto simp: block_edges_def closed_edges_def)
  qed (use e reach(3) in simp)
  then have order: "fn_order r = filter (\<lambda>b. (?e, b) \<in> (block_edges ?h)\<^sup>*) (fn_order f)"
    unfolding r(1) using reach(4) by (intro filter_cong) auto
  have keeps: "call_result w (ir_recompute_cfg r) k mem = Some res" if "call_result w f k mem = Some res"
    for w :: "'m world" and k mem res
  proof -
    have "call_result w ?h k mem = Some res"
      by (rule call_simulates [where R = "(=)", OF _ _ _ that]) (use h(1,2,8) in simp_all)
    then have run: "run w ?h k ?e Map.empty mem = Some res" using h(2) e(1) by (simp add: call_result_def)
    have "run w (ir_recompute_cfg r) k ?e Map.empty mem = Some res"
    proof (rule run_simulates [where V = "marked ?h reach" and R = "(=)", OF _ _ reach(3) refl run])
      fix b
      assume b: "marked ?h reach b" "b \<in> set (fn_order ?h)"
      then show "b \<in> set (fn_order (ir_recompute_cfg r)) \<and>
          sim_insts w (=) (bb_insts (block_at ?h b)) (bb_insts (block_at (ir_recompute_cfg r) b))"
        using h(1) r g(1,5) by (simp add: sim_insts_def)
    next
      fix b c r m r' m'
      assume b: "marked ?h reach b" "b \<in> set (fn_order ?h)"
        and "exec_insts w (bb_insts (block_at ?h b)) r m = Some (Goto c r' m')"
      then show "marked ?h reach c" using exec_goto h(1,6,7) reach(5) by fastforce
    qed
    then show ?thesis using g(2) r(2) e(1) by (simp add: call_result_def)
  qed
  have "\<exists>c. ir_opt_cfg_simplification f = Some (ir_recompute_cfg r, c)"
    using reach(1) by (auto simp: ir_opt_cfg_simplification_def branched_def r_def split: prod.split)
  then show ?thesis using order e(1) g(1) keeps by auto
qed

theorem cfg_simplification_correct_witness:
  "\<exists>g c. ir_opt_cfg_simplification demo = Some (g, c) \<and>
    fn_order g = filter (\<lambda>b. (the (fn_entry demo), b) \<in> (block_edges (branched demo))\<^sup>*) (fn_order demo) \<and>
    call_result null_world g 2 () = Some (Some (VInt 9), ())"
proof -
  have "numbered demo" by (simp add: numbered_def demo_parts max_blocks_def)
  from cfg_simplification_correct [where 'm = unit, OF demo_verified demo_order_ok this] show ?thesis using demo_runs by blast
qed

end
