(* ===== verification/Ir_Opt_Driver.thy ===== *)
theory Ir_Opt_Driver
  imports Ir_Opt_Cfg
begin

text \<open>
  The driver of the optimiser, and executions that show where two of its passes change the result.
\<close>

section \<open>The driver\<close>

lemma final_check_Inr: "final_check m f = Inr g \<Longrightarrow> g = f \<and> ir_verify_function m g = None"
  by (auto simp: final_check_def split: option.splits)

lemma iterations_verified:
  "optimize_iterations k fp os m f = Some (Inr g) \<Longrightarrow> ir_verify_function m g = None"
proof (induction k arbitrary: f)
  case (Suc k)
  obtain h c where h: "optimize_once fp f = Some (h, c)" using Suc.prems by (cases "optimize_once fp f") auto
  have "(if verify_each_pass os then ir_verify_function m h else None) = None"
    using Suc.prems h by (cases "if verify_each_pass os then ir_verify_function m h else None") simp_all
  then show ?case using Suc h final_check_Inr by (cases c) (auto simp del: if_split_asm)
qed (simp add: final_check_Inr)

lemma optimized_verified:
  assumes "ir_optimize_function fp (Some os) m f = Some (Inr g)" and "0 < opt_level os"
  shows "ir_verify_function m f = None \<and> ir_verify_function m g = None"
  using assms iterations_verified by (auto simp: ir_optimize_function_def split: option.splits)

text \<open>C38. At a positive level the optimiser gives back only verified modules: the functions it was given were
  well formed, there are as many as before, and each that it returns is well formed.\<close>

theorem optimized_module_is_verified:
  assumes "ir_optimize_module fp (Some os) m = Some (Inr m')" and "0 < opt_level os"
  shows "ir_verify_module m = None \<and> length (m_functions m') = length (m_functions m) \<and>
    list_all (\<lambda>g. ir_verify_function (Some m) g = None) (m_functions m')"
proof -
  obtain r where "optimize_functions fp (Some os) m (m_functions m) = Some r" "map_sum id (\<lambda>fs. m\<lparr>m_functions := fs\<rparr>) r = Inr m'"
    using assms(1) by (auto simp: ir_optimize_module_def)
  then obtain gs where gs: "optimize_functions fp (Some os) m (m_functions m) = Some (Inr gs)" "m_functions m' = gs"
    by (cases r) auto
  have "first_error (ir_verify_function (Some m)) fs = None \<and> length gs = length fs \<and>
      list_all (\<lambda>g. ir_verify_function (Some m) g = None) gs"
    if "optimize_functions fp (Some os) m fs = Some (Inr gs)" for fs gs
    using that
  proof (induction fs arbitrary: gs)
    case (Cons f fs)
    then show ?case using optimized_verified [OF _ assms(2)] by (fastforce split: option.splits sum.splits)
  qed simp
  then show ?thesis using gs by (simp add: ir_verify_module_def)
qed

section \<open>Registers with more than one definition\<close>

text \<open>After \<open>ir_ssa_deconstruct\<close> a register may be defined more than once. Here \<open>r1 = r0 + 0\<close> becomes a use
  of \<open>r0\<close> after \<open>r0\<close> has changed.\<close>

definition redefined :: ir_function where
  "redefined = demo_function
     [[demo_inst IR_OP_CONST 0 (int_const 1) None, demo_inst IR_OP_ADD 1 (int_reg 0) (Some (int_const 0)),
       demo_inst IR_OP_CONST 0 (int_const 2) None, demo_return (int_reg 1)]]"

lemma redefined_fields:
  "fn_order redefined = [0]" "fn_entry redefined = Some 0" "length (fn_heap redefined) = 1" "fn_return_type redefined = Ty_I64"
  "bb_insts (block_at redefined 0) = [demo_inst IR_OP_CONST 0 (int_const 1) None, demo_inst IR_OP_ADD 1 (int_reg 0) (Some (int_const 0)),
       demo_inst IR_OP_CONST 0 (int_const 2) None, demo_return (int_reg 1)]"
  by (simp_all add: redefined_def demo_function_def block_at_def demo_block_def ir_new_function_def)

lemma redefined_before: "call_result null_world redefined 1 () = Some (Some (VInt 1), ())"
  by (simp add: call_result_def redefined_fields demo_step demo_insts)

lemma update_demo: "update_block 0 (\<lambda>bb. bb\<lparr>bb_insts := h (bb_insts bb)\<rparr>) (demo_function [xs]) = demo_function [h xs]"
  by (simp add: demo_function_def update_block_def demo_block_def)

lemma demo_function_at: "bb_insts (block_at (demo_function [xs]) 0) = xs"
  by (simp add: demo_function_def block_at_def demo_block_def)

lemma map_demo: "map_insts g (demo_function [xs]) = demo_function [map g xs]"
proof -
  have "fn_order (demo_function [xs]) = [0]" by (simp add: demo_function_def)
  then show ?thesis using update_demo [of "map g" xs] by (simp add: map_insts_def)
qed

lemma update_inst_demo: "update_inst 0 k g (demo_function [xs]) = demo_function [xs[k := g (xs ! k)]]"
  using update_demo [of "\<lambda>xs. xs[k := g (xs ! k)]" xs] by (simp add: update_inst_def)

lemma simplified_redefined:
  "fst (ir_opt_algebraic_simplification redefined) = demo_function
     [[demo_inst IR_OP_CONST 0 (int_const 1) None, demo_inst IR_OP_CONST 1 (int_reg 0) None,
       demo_inst IR_OP_CONST 0 (int_const 2) None, demo_return (int_reg 0)]]"
proof -
  have p: "positions redefined = [(0, 0), (0, 1), (0, 2), (0, 3)]"
    by (simp add: positions_def redefined_fields demo_insts upt_rec)
  show ?thesis
    unfolding ir_opt_algebraic_simplification_def redefined_def p [unfolded redefined_def]
    by (simp add: simplify_at_def inst_at_def demo_function_at update_inst_demo map_demo replace_value_uses_in_fn_def Let_def
        algebraic_rule_def is_int_def to_const_def replace_value_uses_in_inst_def replace_operand_def same_value_def demo_insts)
qed

text \<open>The program returns 1; the simplified one returns 2.\<close>

theorem algebraic_simplification_changes_result:
  "ir_verify_function None redefined = None \<and>
   call_result null_world redefined 1 () = Some (Some (VInt 1), ()) \<and>
   call_result null_world (fst (ir_opt_algebraic_simplification redefined)) 1 () = Some (Some (VInt 2), ())"
proof (intro conjI)
  show "ir_verify_function None redefined = None"
    by (simp add: ir_verify_function_def fn_blocks_def redefined_fields verify_block_def verify_instruction_def
      instruction_detail_def check_const_def check_arith_def check_ret_def ir_is_terminator_def demo_insts is_numeric_type_def)
  show "call_result null_world redefined 1 () = Some (Some (VInt 1), ())" by (rule redefined_before)
  have "fn_entry (demo_function [xs]) = Some 0" "fn_order (demo_function [xs]) = [0]" for xs
    by (simp_all add: demo_function_def)
  then show "call_result null_world (fst (ir_opt_algebraic_simplification redefined)) 1 () = Some (Some (VInt 2), ())"
    by (simp add: simplified_redefined call_result_def demo_function_at demo_step demo_insts)
qed

section \<open>Doubles\<close>

text \<open>The rule for \<open>x - x\<close> puts the integer 0 for a difference of doubles, whatever \<open>x\<close> is.\<close>

theorem float_difference_becomes_integer:
  assumes "i_op i = IR_OP_SUB" and "i_lhs i = Some x" and "i_rhs i = Some x" and "v_kind x = IR_VAL_REG" and "regs (v_id x) = Some (VFloat q)"
  shows "pure_value w i regs m = Some (VFloat (fp_sub (w_float w) q q)) \<and>
    algebraic_rule i = Constant (ir_val_const_int (Some (i_type i)) 0)"
  using assms by (simp add: pure_value_def eval_operand_def eval_value_def binary_def eval_arith_def eval_float_def
      result_type_def algebraic_rule_def is_int_def same_value_def Let_def)

text \<open>The rule for \<open>x == x\<close> says true where the comparison of a NaN with itself is false.\<close>

theorem nan_equals_itself:
  assumes "i_op i = IR_OP_EQ" and "i_lhs i = Some x" and "i_rhs i = Some x" and "v_kind x = IR_VAL_REG"
    and "regs (v_id x) = Some (VFloat q)" and "f64_isnan q"
  shows "pure_value w i regs m = Some (VBool False) \<and> algebraic_rule i = Constant (ir_val_const_bool True)"
  using assms by (simp add: pure_value_def eval_operand_def eval_value_def binary_def eval_compare_def float_compare_def
      f64_eq_def algebraic_rule_def same_value_def Let_def)

section \<open>A module that is optimised\<close>

definition tiny :: ir_function where
  "tiny = demo_function [[demo_return (int_const 5)]]"

lemma tiny_fields:
  "fn_order tiny = [0]" "fn_entry tiny = Some 0" "length (fn_heap tiny) = 1" "fn_return_type tiny = Ty_I64"
  "fn_next_block tiny = 1" "fn_block_count tiny = 1"
  "bb_insts (block_at tiny 0) = [demo_return (int_const 5)]" "bb_succs (block_at tiny 0) = []" "bb_preds (block_at tiny 0) = []"
  "bb_id (block_at tiny 0) = 0"
  by (simp_all add: tiny_def demo_function_def block_at_def demo_block_def ir_new_function_def)

lemma tiny_update: "update_block 0 (\<lambda>bb. bb\<lparr>bb_insts := h (bb_insts bb)\<rparr>) tiny = demo_function [h [demo_return (int_const 5)]]"
  by (simp add: tiny_def update_demo)

lemma tiny_passes:
  "ir_opt_copy_propagation tiny = (tiny, False)" "ir_opt_constant_propagation tiny = (tiny, False)"
  "ir_opt_constant_folding fp tiny = Some (tiny, False)" "ir_opt_algebraic_simplification tiny = (tiny, False)"
proof -
  show "ir_opt_copy_propagation tiny = (tiny, False)"
    by (simp add: ir_opt_copy_propagation_def forward_block_def tiny_fields forward_at_def inst_at_def demo_insts)
  have "map_insts g tiny = demo_function [[g (demo_return (int_const 5))]]" for g
    by (simp add: tiny_def map_demo)
  then show "ir_opt_constant_propagation tiny = (tiny, False)"
    by (simp add: ir_opt_constant_propagation_def fn_insts_def tiny_fields propagate_inst_def propagate_operand_def
        known_const_def is_reg_def propagates_def) (simp add: tiny_def demo_insts)
  show "ir_opt_constant_folding fp tiny = Some (tiny, False)"
    using tiny_update [of "\<lambda>_. [demo_return (int_const 5)]"]
    by (simp add: ir_opt_constant_folding_def tiny_fields fold_inst_def demo_insts) (simp add: tiny_def demo_insts)
  show "ir_opt_algebraic_simplification tiny = (tiny, False)"
    by (simp add: ir_opt_algebraic_simplification_def positions_def tiny_fields simplify_at_def inst_at_def demo_insts)
qed

lemma tiny_dce: "ir_opt_dead_code_elimination tiny = Some (tiny, False)"
proof -
  have d: "\<not> is_dead tiny (demo_return (int_const 5))" by (simp add: is_dead_def is_reg_def demo_insts)
  have "remove_dead tiny = tiny"
    using d tiny_update [of "filter (\<lambda>i. \<not> is_dead tiny i)"] by (simp add: remove_dead_def tiny_fields) (simp add: tiny_def)
  then have r: "dce_round ((tiny, True), False) = ((tiny, False), False)"
    using d by (simp add: dce_round_def fn_insts_def tiny_fields)
  have "while_option (\<lambda>s. snd (fst s)) dce_round ((tiny, True), False) = Some ((tiny, False), False)"
    by (subst while_option_unfold) (simp add: r while_option_unfold)
  then show ?thesis by (simp add: ir_opt_dead_code_elimination_def)
qed

lemma tiny_heap: "g (block_at tiny 0) = block_at tiny 0 \<Longrightarrow> update_block 0 g tiny = tiny"
  by (simp add: update_block_def tiny_def demo_function_def block_at_def)

lemma tiny_recompute: "ir_recompute_cfg tiny = tiny"
proof -
  have c: "update_block 0 clear_edges tiny = tiny"
    by (rule tiny_heap) (simp add: clear_edges_def tiny_def demo_function_def block_at_def demo_block_def)
  have "add_block_edges 0 tiny = tiny"
    by (simp add: add_block_edges_def last_inst_def tiny_fields demo_insts)
  then show ?thesis using c by (simp add: ir_recompute_cfg_def tiny_fields)
qed

lemma tiny_cfg: "ir_opt_cfg_simplification tiny = Some (tiny, False)"
proof -
  have "simplify_last (block_at tiny 0) = block_at tiny 0"
    by (simp add: simplify_last_def tiny_fields simplify_branch_def demo_insts tiny_def demo_function_def block_at_def demo_block_def)
  then have b: "simplify_branches tiny = (tiny, False)"
    by (simp add: simplify_branches_def tiny_fields simplifies_branch_def tiny_heap demo_insts)
  have s: "start_marks tiny = (True # replicate 16 False, [0])"
    by (simp add: start_marks_def mark_block_def tiny_fields max_blocks_def numeral_eq_Suc)
  have v: "visit_next tiny (True # replicate 16 False, [0]) = (True # replicate 16 False, [])"
    by (simp add: visit_next_def tiny_fields)
  have "while_option (\<lambda>s. snd s \<noteq> []) (visit_next tiny) (True # replicate 16 False, [0]) = Some (True # replicate 16 False, [])"
    by (subst while_option_unfold) (simp add: v while_option_unfold)
  then have m: "reachable_marks tiny = Some (True # replicate 16 False)" by (simp add: reachable_marks_def s)
  have "remove_unreachable (True # replicate 16 False) tiny = (tiny, False)"
    by (simp add: remove_unreachable_def tiny_fields keep_block_def tiny_def demo_function_def)
  then show ?thesis by (simp add: ir_opt_cfg_simplification_def b m tiny_recompute)
qed

definition tiny_module :: ir_module where
  "tiny_module = (ir_module_create None)\<lparr>m_functions := [tiny]\<rparr>"

lemma tiny_optimized:
  "ir_optimize_module fp (Some \<lparr>opt_level = 1, verify_each_pass = True\<rparr>) tiny_module = Some (Inr tiny_module)"
proof -
  have "ir_verify_function m tiny = None" for m
    by (simp add: ir_verify_function_def fn_blocks_def tiny_fields verify_block_def verify_instruction_def
      instruction_detail_def check_ret_def ir_is_terminator_def demo_insts)
  moreover have "optimize_once fp tiny = Some (tiny, False)"
    by (simp add: optimize_once_def tiny_passes tiny_dce tiny_cfg)
  ultimately show ?thesis
    by (simp add: ir_optimize_module_def tiny_module_def ir_optimize_function_def final_check_def numeral_eq_Suc)
qed

theorem optimized_module_is_verified_witness:
  "ir_verify_module tiny_module = None \<and> length (m_functions tiny_module) = length (m_functions tiny_module) \<and>
    list_all (\<lambda>g. ir_verify_function (Some tiny_module) g = None) (m_functions tiny_module)"
  by (rule optimized_module_is_verified [OF tiny_optimized]) simp

end
