(* ===== verification/Ir_Dominance.thy ===== *)
theory Ir_Dominance
  imports Ir_Verify "HOL-Library.While_Combinator"
begin

text \<open>
  The dominance analysis of \<open>src/ir/ir_dominance.c\<close>: reachability, dominator sets by iteration,
  immediate dominators, the dominator tree, dominance frontiers, the queries and the checker.

  The arrays of the C code are lists over the dense block index, which is the position of a
  block in \<open>fn_order\<close>; \<open>block_count\<close> is taken to be the length of that list. A block that is not
  in the list has no index (\<open>None\<close> for -1). The iteration to a fixpoint is a \<open>while_option\<close>, so
  that the computation returns \<open>None\<close> if it did not end.
\<close>

section \<open>Indices and edges\<close>

definition get_block_index :: "nat list \<Rightarrow> nat \<Rightarrow> nat option" where
  "get_block_index blocks b = List.find (\<lambda>i. blocks ! i = b) [0..<length blocks]"

definition succ_indices :: "ir_function \<Rightarrow> nat \<Rightarrow> nat list" where
  "succ_indices f i = List.map_filter (get_block_index (fn_order f)) (bb_succs (block_at f (fn_order f ! i)))"

definition pred_indices :: "ir_function \<Rightarrow> nat \<Rightarrow> nat list" where
  "pred_indices f i = List.map_filter (get_block_index (fn_order f)) (bb_preds (block_at f (fn_order f ! i)))"

definition entry_index :: "ir_function \<Rightarrow> nat" where
  "entry_index f =
     (case get_block_index (fn_order f) (case fn_entry f of Some b \<Rightarrow> b | None \<Rightarrow> hd (fn_order f)) of
        Some i \<Rightarrow> i | None \<Rightarrow> 0)"

section \<open>Reachability\<close>

text \<open>The queue of the breadth first search; an index is always in range.\<close>

definition visit :: "nat \<Rightarrow> bool list \<times> nat list \<Rightarrow> bool list \<times> nat list" where
  "visit i = (\<lambda>(reach, queue).
     if i < length reach \<and> \<not> reach ! i then (reach[i := True], queue @ [i]) else (reach, queue))"

definition unreached :: "bool list \<Rightarrow> nat" where
  "unreached reach = count_if Not reach"

lemma visit_measure:
  "2 * unreached (fst (visit i s)) + length (snd (visit i s)) \<le> 2 * unreached (fst s) + length (snd s)"
proof (cases s)
  case (Pair reach queue)
  show ?thesis
  proof (cases "i < length reach \<and> \<not> reach ! i")
    case True
    then have "unreached (reach[i := True]) + 1 = unreached reach"
      using count_if_update [of i reach Not True] by (simp add: unreached_def)
    then show ?thesis using True Pair by (simp add: visit_def)
  next
    case False
    then show ?thesis using Pair by (auto simp: visit_def)
  qed
qed

lemma visits_measure:
  "2 * unreached (fst (fold visit is s)) + length (snd (fold visit is s)) \<le> 2 * unreached (fst s) + length (snd s)"
proof (induction "is" arbitrary: s)
  case (Cons i "is")
  show ?case using Cons.IH [of "visit i s"] visit_measure [of i s] by simp
qed simp

function bfs :: "ir_function \<Rightarrow> bool list \<Rightarrow> nat list \<Rightarrow> bool list" where
  "bfs f reach [] = reach"
| "bfs f reach (c # queue) = (case fold visit (succ_indices f c) (reach, queue) of (reach, queue) \<Rightarrow> bfs f reach queue)"
  by pat_completeness auto

termination
proof (relation "measure (\<lambda>(f, reach, queue). 2 * unreached reach + length queue)", goal_cases)
  case (2 f reach c queue reach' queue')
  then show ?case using visits_measure [of "succ_indices f c" "(reach, queue)"] by (auto simp flip: 2)
qed simp

definition reachability :: "ir_function \<Rightarrow> bool list" where
  "reachability f =
     bfs f ((replicate (length (fn_order f)) False)[entry_index f := True]) [entry_index f]"

section \<open>Dominator sets\<close>

definition initial_doms :: "ir_function \<Rightarrow> bool list \<Rightarrow> bool list list" where
  "initial_doms f reach =
     (let n = length (fn_order f); e = entry_index f
      in map (\<lambda>i. if i = e then (replicate n False)[e := True]
                  else if reach ! i then map (\<lambda>j. reach ! j) [0..<n]
                  else replicate n False) [0..<n])"

text \<open>The intersection over the reachable predecessors; the empty set when there is none.\<close>

fun meet_preds :: "nat \<Rightarrow> bool list list \<Rightarrow> nat list \<Rightarrow> bool list" where
  "meet_preds n doms [] = replicate n False"
| "meet_preds n doms (p # ps) = fold (\<lambda>q temp. map2 (\<and>) temp (doms ! q)) ps (doms ! p)"

definition sweep_block ::
  "ir_function \<Rightarrow> bool list \<Rightarrow> nat \<Rightarrow> bool list list \<times> bool \<Rightarrow> bool list list \<times> bool" where
  "sweep_block f reach i = (\<lambda>(doms, changed).
     if i = entry_index f \<or> \<not> reach ! i then (doms, changed)
     else let temp = (meet_preds (length (fn_order f)) doms
                (filter (\<lambda>p. reach ! p) (pred_indices f i)))[i := True]
          in if doms ! i \<noteq> temp then (doms[i := temp], True) else (doms, changed))"

definition sweep :: "ir_function \<Rightarrow> bool list \<Rightarrow> bool list list \<Rightarrow> bool list list \<times> bool" where
  "sweep f reach doms = fold (sweep_block f reach) [0..<length (fn_order f)] (doms, False)"

definition dom_fixpoint :: "ir_function \<Rightarrow> bool list \<Rightarrow> bool list list option" where
  "dom_fixpoint f reach =
     map_option fst (while_option snd (\<lambda>(doms, changed). sweep f reach doms) (initial_doms f reach, True))"

section \<open>Immediate dominators, the tree, frontiers\<close>

definition is_immediate :: "bool list list \<Rightarrow> nat \<Rightarrow> nat \<Rightarrow> nat \<Rightarrow> bool" where
  "is_immediate doms n i c \<longleftrightarrow> c \<noteq> i \<and> doms ! i ! c \<and>
     list_all (\<lambda>d. d = i \<or> d = c \<or> \<not> doms ! i ! d \<or> doms ! c ! d) [0..<n]"

definition find_idom :: "ir_function \<Rightarrow> bool list \<Rightarrow> bool list list \<Rightarrow> nat \<Rightarrow> nat option" where
  "find_idom f reach doms i =
     (if i = entry_index f \<or> \<not> reach ! i then None
      else List.find (is_immediate doms (length (fn_order f)) i) [0..<length (fn_order f)])"

text \<open>A node becomes the last child of its immediate dominator, in the order of the indices.\<close>

definition add_child :: "nat option list \<Rightarrow> nat \<Rightarrow> nat list list \<Rightarrow> nat list list" where
  "add_child idoms i children =
     (case idoms ! i of None \<Rightarrow> children | Some c \<Rightarrow> children[c := children ! c @ [i]])"

definition dom_children :: "nat option list \<Rightarrow> nat list list" where
  "dom_children idoms = fold (add_child idoms) [0..<length idoms] (replicate (length idoms) [])"

text \<open>The recursion over the tree, with a bound on its depth.\<close>

fun compute_depths :: "nat \<Rightarrow> nat list list \<Rightarrow> nat \<Rightarrow> nat \<Rightarrow> nat list \<Rightarrow> nat list option" where
  "compute_depths 0 children node d depths = None"
| "compute_depths (Suc k) children node d depths =
     fold (\<lambda>c acc. Option.bind acc (compute_depths k children c (d + 1))) (children ! node)
       (Some (depths[node := d]))"

definition add_to_df :: "nat \<Rightarrow> nat list \<Rightarrow> nat list" where
  "add_to_df b df = (if b \<in> set df then df else df @ [b])"

definition in_frontier :: "ir_function \<Rightarrow> bool list \<Rightarrow> bool list list \<Rightarrow> nat \<Rightarrow> nat \<Rightarrow> bool" where
  "in_frontier f reach doms x y \<longleftrightarrow>
     reach ! y \<and> list_ex (\<lambda>p. doms ! p ! x) (pred_indices f y) \<and> \<not> (x \<noteq> y \<and> doms ! y ! x)"

definition frontier :: "ir_function \<Rightarrow> bool list \<Rightarrow> bool list list \<Rightarrow> nat \<Rightarrow> nat list" where
  "frontier f reach doms x =
     (if \<not> reach ! x then []
      else fold (\<lambda>y df. if in_frontier f reach doms x y then add_to_df (fn_order f ! y) df else df)
             [0..<length (fn_order f)] [])"

section \<open>The result\<close>

record dom_node =
  dn_block :: nat
  dn_reachable :: bool
  dn_idom :: "nat option"
  dn_children :: "nat list"
  dn_depth :: nat
  dn_dom_by :: "bool list"
  dn_df :: "nat list"

record dom_info =
  di_fn :: ir_function
  di_blocks :: "nat list"
  di_nodes :: "dom_node list"
  di_root :: nat

definition dom_info_of ::
  "ir_function \<Rightarrow> bool list \<Rightarrow> bool list list \<Rightarrow> nat option list \<Rightarrow> nat list \<Rightarrow> dom_info" where
  "dom_info_of f reach doms idoms depths =
     \<lparr>di_fn = f, di_blocks = fn_order f,
      di_nodes = map (\<lambda>i. \<lparr>dn_block = fn_order f ! i, dn_reachable = reach ! i, dn_idom = idoms ! i,
          dn_children = dom_children idoms ! i, dn_depth = depths ! i, dn_dom_by = doms ! i,
          dn_df = frontier f reach doms i\<rparr>) [0..<length (fn_order f)],
      di_root = entry_index f\<rparr>"

text \<open>\<open>None\<close>: the computation does not end. \<open>Some None\<close>: it returns NULL.\<close>

definition ir_dominance_compute :: "ir_function \<Rightarrow> dom_info option option" where
  "ir_dominance_compute f =
     (if fn_order f = [] then Some None
      else let reach = reachability f; n = length (fn_order f)
           in Option.bind (dom_fixpoint f reach) (\<lambda>doms.
                let idoms = map (find_idom f reach doms) [0..<n]
                in Option.bind (compute_depths (n + 1) (dom_children idoms) (entry_index f) 0 (replicate n 0))
                     (\<lambda>depths. Some (Some (dom_info_of f reach doms idoms depths)))))"

section \<open>Queries\<close>

definition ir_dominates :: "dom_info \<Rightarrow> nat \<Rightarrow> nat \<Rightarrow> bool" where
  "ir_dominates di a b \<longleftrightarrow>
     a = b \<or>
     (case (get_block_index (di_blocks di) a, get_block_index (di_blocks di) b) of
        (Some i, Some j) \<Rightarrow> dn_reachable (di_nodes di ! j) \<and> dn_dom_by (di_nodes di ! j) ! i
      | _ \<Rightarrow> False)"

definition ir_strictly_dominates :: "dom_info \<Rightarrow> nat \<Rightarrow> nat \<Rightarrow> bool" where
  "ir_strictly_dominates di a b \<longleftrightarrow> a \<noteq> b \<and> ir_dominates di a b"

definition ir_get_idom :: "dom_info \<Rightarrow> nat \<Rightarrow> nat option" where
  "ir_get_idom di b =
     (case get_block_index (di_blocks di) b of
        None \<Rightarrow> None
      | Some i \<Rightarrow>
          if \<not> dn_reachable (di_nodes di ! i) then None
          else map_option (\<lambda>j. dn_block (di_nodes di ! j)) (dn_idom (di_nodes di ! i)))"

definition ir_get_dominance_frontier :: "dom_info \<Rightarrow> nat \<Rightarrow> nat list" where
  "ir_get_dominance_frontier di b =
     (case get_block_index (di_blocks di) b of
        None \<Rightarrow> []
      | Some i \<Rightarrow> if \<not> dn_reachable (di_nodes di ! i) then [] else dn_df (di_nodes di ! i))"

section \<open>The checker and the dump\<close>

definition node_name :: "dom_info \<Rightarrow> nat \<Rightarrow> string" where
  "node_name di i = bb_name (block_at (di_fn di) (dn_block (di_nodes di ! i)))"

definition quoted :: "string \<Rightarrow> string" where
  "quoted s = [CHR 0x27] @ s @ [CHR 0x27]"

text \<open>
  The walk from a node along the immediate dominators: the node where it stops (the root, or
  \<open>None\<close> past a node without one), or an error after more steps than there are blocks.
\<close>

function idom_walk :: "dom_info \<Rightarrow> nat option \<Rightarrow> nat \<Rightarrow> (string, nat option) sum" where
  "idom_walk di node steps =
     (case node of
        None \<Rightarrow> Inr None
      | Some c \<Rightarrow>
          if c = di_root di then Inr (Some c)
          else if steps + 1 > length (di_nodes di)
          then Inl ''Cycle detected in dominator tree idom chain''
          else idom_walk di (dn_idom (di_nodes di ! c)) (steps + 1))"
  by pat_completeness auto
termination by (relation "measure (\<lambda>(di, node, steps). length (di_nodes di) + 1 - steps)") auto

declare idom_walk.simps [simp del]

definition verify_node :: "dom_info \<Rightarrow> nat \<Rightarrow> string option" where
  "verify_node di i =
     (let n = di_nodes di ! i in
      if \<not> dn_reachable n \<or> i = di_root di then None
      else case dn_idom n of
        None \<Rightarrow> Some (snprintf_buf 256 (''Reachable block '' @ quoted (node_name di i) @
          '' has no immediate dominator''))
      | Some d \<Rightarrow>
          if \<not> ir_strictly_dominates di (dn_block (di_nodes di ! d)) (dn_block n)
          then Some (snprintf_buf 256 (''Block '' @ quoted (node_name di d) @ '' is marked idom of '' @
            quoted (node_name di i) @ '', but does not strictly dominate it''))
          else (case idom_walk di (Some i) 0 of
              Inl e \<Rightarrow> Some e
            | Inr c \<Rightarrow>
                if c \<noteq> Some (di_root di)
                then Some (snprintf_buf 256 (''Block '' @ quoted (node_name di i) @
                  '' does not trace idom path to entry root''))
                else None))"

definition verify_df_entry :: "dom_info \<Rightarrow> nat \<Rightarrow> nat \<Rightarrow> string option" where
  "verify_df_entry di x y =
     (let bx = dn_block (di_nodes di ! x); yn = bb_name (block_at (di_fn di) y) in
      if get_block_index (di_blocks di) y = None then Some ''DF entry block not in function''
      else if ir_strictly_dominates di bx y
      then Some (snprintf_buf 256 (''Invalid DF: '' @ quoted yn @ '' in DF['' @ quoted (node_name di x) @
        ''], but '' @ quoted (node_name di x) @ '' strictly dominates '' @ quoted yn))
      else if \<not> list_ex (ir_dominates di bx) (bb_preds (block_at (di_fn di) y))
      then Some (snprintf_buf 256 (''Invalid DF: '' @ quoted yn @ '' in DF['' @ quoted (node_name di x) @
        ''], but '' @ quoted (node_name di x) @ '' does not dominate any predecessor of '' @ quoted yn))
      else None)"

definition verify_df :: "dom_info \<Rightarrow> nat \<Rightarrow> string option" where
  "verify_df di x =
     (if \<not> dn_reachable (di_nodes di ! x) then None
      else first_error (verify_df_entry di x) (dn_df (di_nodes di ! x)))"

definition ir_dominance_verify :: "dom_info option \<Rightarrow> string option" where
  "ir_dominance_verify info =
     (case info of
        None \<Rightarrow> Some ''Dominance info is NULL''
      | Some di \<Rightarrow>
          if dn_idom (di_nodes di ! di_root di) \<noteq> None
          then Some ''Entry block has an immediate dominator, expected NULL''
          else (case first_error (verify_node di) [0..<length (di_nodes di)] of
              Some e \<Rightarrow> Some e
            | None \<Rightarrow> first_error (verify_df di) [0..<length (di_nodes di)]))"

text \<open>\<open>%-16s\<close> and \<open>%-2d\<close>: padded with blanks on the right.\<close>

definition pad :: "nat \<Rightarrow> string \<Rightarrow> string" where
  "pad w s = s @ replicate (w - length s) CHR '' ''"

definition dump_node :: "dom_info \<Rightarrow> nat \<Rightarrow> string" where
  "dump_node di i =
     (let n = di_nodes di ! i in
      if \<not> dn_reachable n then ''  Block '' @ pad 16 (node_name di i) @ '' [UNREACHABLE]'' @ newline
      else ''  Block '' @ pad 16 (node_name di i) @ '' | idom: '' @
        pad 16 (case dn_idom n of Some d \<Rightarrow> node_name di d | None \<Rightarrow> ''(none)'') @
        '' | depth: '' @ pad 2 (decimal (dn_depth n)) @ '' | DF: {'' @
        concat (map (\<lambda>(k, y). (if k > 0 then '', '' else '''') @ bb_name (block_at (di_fn di) y))
          (enumerate 0 (dn_df n))) @ ''}'' @ newline)"

definition ir_dominance_dump :: "dom_info \<Rightarrow> string" where
  "ir_dominance_dump di =
     ''Dominator Analysis for function @'' @ fn_name (di_fn di) @ '':'' @ newline @
     concat (map (dump_node di) [0..<length (di_nodes di)])"

end
