(* ===== verification/Ir_Ssa.thy ===== *)
theory Ir_Ssa
  imports Ir_Opt Ir_Dominance
begin

text \<open>
  SSA form, \<open>src/ir/ir_ssa.c\<close>: promotion of stack slots to registers with phis, the verifier of SSA
  form, its small optimiser, and the way back by splitting critical edges and copying. \<open>None\<close> stands
  for a loop that does not end or, while folding, for an overflow that C leaves undefined. Values are
  compared by content where the code first compares pointers. A phi has a result; without one the
  copies would go through a null pointer.
\<close>

section \<open>Values and uses\<close>

definition same_val :: "ir_value option \<Rightarrow> ir_value option \<Rightarrow> bool" where
  "same_val a b =
     (if a = b then True
      else case (a, b) of
        (Some x, Some y) \<Rightarrow>
          (case (v_kind x, v_kind y) of
             (IR_VAL_REG, IR_VAL_REG) \<Rightarrow> v_id x = v_id y
           | (IR_VAL_CONST_INT m, IR_VAL_CONST_INT n) \<Rightarrow> m = n
           | (IR_VAL_CONST_BOOL p, IR_VAL_CONST_BOOL q) \<Rightarrow> p = q
           | (IR_VAL_CONST_FLOAT p, IR_VAL_CONST_FLOAT q) \<Rightarrow> f64_eq p q
           | (IR_VAL_CONST_CHAR c, IR_VAL_CONST_CHAR d) \<Rightarrow> c = d
           | (IR_VAL_VAR, IR_VAL_VAR) \<Rightarrow> v_name x \<noteq> None \<and> v_name x = v_name y
           | _ \<Rightarrow> False)
      | _ \<Rightarrow> False)"

definition replace_use :: "ir_value \<Rightarrow> ir_value \<Rightarrow> ir_value option \<Rightarrow> ir_value option" where
  "replace_use old new v = (if v \<noteq> None \<and> same_val v (Some old) then Some new else v)"

definition replace_uses_in_inst :: "ir_value \<Rightarrow> ir_value \<Rightarrow> ir_inst \<Rightarrow> ir_inst" where
  "replace_uses_in_inst old new i =
     i\<lparr>i_lhs := replace_use old new (i_lhs i), i_rhs := replace_use old new (i_rhs i),
       i_args := map (\<lambda>a. if same_val (Some a) (Some old) then new else a) (i_args i),
       i_phis := map (\<lambda>(b, v). (b, replace_use old new v)) (i_phis i)\<rparr>"

definition replace_uses_in_fn :: "ir_value option \<Rightarrow> ir_value option \<Rightarrow> ir_function \<Rightarrow> ir_function" where
  "replace_uses_in_fn old new f =
     (case (old, new) of (Some v, Some w) \<Rightarrow> map_insts (replace_uses_in_inst v w) f | _ \<Rightarrow> f)"

definition remove_at :: "nat \<Rightarrow> nat \<Rightarrow> ir_function \<Rightarrow> ir_function" where
  "remove_at b k = update_block b (\<lambda>bb. bb\<lparr>bb_insts := take k (bb_insts bb) @ drop (Suc k) (bb_insts bb)\<rparr>)"

definition is_phi :: "ir_inst \<Rightarrow> bool" where
  "is_phi i \<longleftrightarrow> i_op i = IR_OP_PHI"

section \<open>Slots that become registers\<close>

text \<open>The stack of the current values of a slot, top first.\<close>

record promoted_var =
  pv_name :: string
  pv_slot :: string
  pv_type :: ir_type
  pv_defs :: "nat list"
  pv_stack :: "ir_value option list"

definition add_def_block :: "nat \<Rightarrow> nat list \<Rightarrow> nat list" where
  "add_def_block b bs = (if b \<in> set bs then bs else bs @ [b])"

definition stack_push :: "ir_value option \<Rightarrow> promoted_var \<Rightarrow> promoted_var" where
  "stack_push v pv = pv\<lparr>pv_stack := v # pv_stack pv\<rparr>"

definition stack_top :: "promoted_var \<Rightarrow> ir_value option" where
  "stack_top pv =
     (case pv_stack pv of
        v # vs \<Rightarrow> v
      | [] \<Rightarrow> Some (if ir_kind (pv_type pv) = IR_TYPE_F64 then ir_val_const_float 0
                else if ir_kind (pv_type pv) = IR_TYPE_BOOL then ir_val_const_bool False
                else ir_val_const_int (Some (pv_type pv)) 0))"

definition stack_pop :: "promoted_var \<Rightarrow> promoted_var" where
  "stack_pop pv = pv\<lparr>pv_stack := tl (pv_stack pv)\<rparr>"

definition is_scalar_promotable :: "ir_type \<Rightarrow> bool" where
  "is_scalar_promotable ty \<longleftrightarrow>
     ir_kind ty \<in> {IR_TYPE_I32, IR_TYPE_I64, IR_TYPE_F64, IR_TYPE_BOOL, IR_TYPE_CHAR, IR_TYPE_PTR}"

definition escapes :: "string \<Rightarrow> ir_inst \<Rightarrow> bool" where
  "escapes s i =
     (if i_op i = IR_OP_LOAD then value_name (i_rhs i) = Some s
      else if i_op i = IR_OP_STORE then value_name (i_lhs i) = Some s
      else value_name (i_lhs i) = Some s \<or> value_name (i_rhs i) = Some s \<or>
        list_ex (\<lambda>a. v_name a = Some s) (i_args i))"

definition is_var_escaped :: "ir_function \<Rightarrow> string \<Rightarrow> bool" where
  "is_var_escaped f s = list_ex (escapes s) (fn_insts f)"

definition promoted_type :: "ir_inst \<Rightarrow> ir_type" where
  "promoted_type i = (case ir_elem_type (i_type i) of Some e \<Rightarrow> e | None \<Rightarrow> i_type i)"

definition promotes :: "ir_function \<Rightarrow> ir_inst \<Rightarrow> bool" where
  "promotes f i \<longleftrightarrow> i_op i = IR_OP_ALLOCA \<and> value_name (i_result i) \<noteq> None \<and>
     is_scalar_promotable (promoted_type i) \<and> \<not> is_var_escaped f (the (value_name (i_result i)))"

definition strip_suffix :: "string \<Rightarrow> string" where
  "strip_suffix s =
     (if CHR ''.'' \<in> set s then rev (tl (dropWhile (\<lambda>c. c \<noteq> CHR ''.'') (rev s))) else s)"

definition stores_to :: "string \<Rightarrow> ir_inst \<Rightarrow> bool" where
  "stores_to s i \<longleftrightarrow> i_op i = IR_OP_STORE \<and> value_name (i_rhs i) = Some s"

definition defining_blocks :: "ir_function \<Rightarrow> string \<Rightarrow> nat list" where
  "defining_blocks f s =
     fold (\<lambda>b bs. if list_ex (stores_to s) (bb_insts (block_at f b)) then add_def_block b bs else bs) (fn_order f) []"

definition promoted_var_of :: "ir_function \<Rightarrow> ir_inst \<Rightarrow> promoted_var" where
  "promoted_var_of f i =
     (let s = the (value_name (i_result i))
      in \<lparr>pv_name = strip_suffix s, pv_slot = s, pv_type = promoted_type i, pv_defs = defining_blocks f s, pv_stack = []\<rparr>)"

definition find_promotable_vars :: "ir_function \<Rightarrow> promoted_var list" where
  "find_promotable_vars f =
     (case fn_entry f of
        None \<Rightarrow> []
      | Some e \<Rightarrow> map (promoted_var_of f) (filter (promotes f) (bb_insts (block_at f e))))"

section \<open>Placing phis\<close>

text \<open>The phi is tagged with its slot in the field for the name of a callee.\<close>

definition new_phi :: "ir_function \<Rightarrow> promoted_var \<Rightarrow> nat list \<Rightarrow> ir_inst" where
  "new_phi f pv ps = (create_instruction IR_OP_PHI (pv_type pv))
     \<lparr>i_result := Some (ir_val_reg (pv_type pv) (fn_next_reg f)), i_callee := Some (pv_slot pv),
      i_phis := map (\<lambda>p. (Some p, None)) ps, i_field_index := 0\<rparr>"

definition insert_phi_node_at_block_front :: "nat \<Rightarrow> promoted_var \<Rightarrow> ir_function \<Rightarrow> ir_function" where
  "insert_phi_node_at_block_front b pv f =
     (if list_ex (\<lambda>i. i_callee i = Some (pv_slot pv)) (takeWhile is_phi (bb_insts (block_at f b))) then f
      else update_block b (\<lambda>bb. bb\<lparr>bb_insts := new_phi f pv (bb_preds bb) # bb_insts bb\<rparr>)
             (f\<lparr>fn_next_reg := fn_next_reg f + 1\<rparr>))"

text \<open>The work list of the iterated dominance frontier, with its two arrays by block number.\<close>

record phi_search =
  ps_queue :: "nat list"
  ps_queued :: "bool list"
  ps_has_phi :: "bool list"
  ps_fn :: ir_function
  ps_count :: nat

definition place_phi :: "promoted_var \<Rightarrow> nat \<Rightarrow> phi_search \<Rightarrow> phi_search" where
  "place_phi pv y st =
     (let n = bb_id (block_at (ps_fn st) y)
      in if n < length (ps_has_phi st) \<and> \<not> ps_has_phi st ! n
         then let st = st\<lparr>ps_has_phi := (ps_has_phi st)[n := True], ps_count := ps_count st + 1,
                ps_fn := insert_phi_node_at_block_front y pv (ps_fn st)\<rparr>
              in if \<not> ps_queued st ! n
                 then st\<lparr>ps_queued := (ps_queued st)[n := True], ps_queue := ps_queue st @ [y]\<rparr>
                 else st
         else st)"

definition place_next :: "dom_info \<Rightarrow> promoted_var \<Rightarrow> phi_search \<Rightarrow> phi_search" where
  "place_next di pv st =
     fold (place_phi pv) (ir_get_dominance_frontier di (hd (ps_queue st))) (st\<lparr>ps_queue := tl (ps_queue st)\<rparr>)"

definition start_search :: "promoted_var \<Rightarrow> ir_function \<times> nat \<Rightarrow> phi_search" where
  "start_search pv = (\<lambda>(f, n).
     let size = fn_block_count f + 16
     in \<lparr>ps_queue = pv_defs pv,
         ps_queued = fold (\<lambda>b q. q[bb_id (block_at f b) := True]) (pv_defs pv) (replicate size False),
         ps_has_phi = replicate size False, ps_fn = f, ps_count = n\<rparr>)"

definition place_phis_of :: "dom_info \<Rightarrow> promoted_var \<Rightarrow> ir_function \<times> nat \<Rightarrow> (ir_function \<times> nat) option" where
  "place_phis_of di pv s =
     map_option (\<lambda>st. (ps_fn st, ps_count st))
       (while_option (\<lambda>st. ps_queue st \<noteq> []) (place_next di pv) (start_search pv s))"

fun place_phi_nodes :: "dom_info \<Rightarrow> promoted_var list \<Rightarrow> ir_function \<times> nat \<Rightarrow> (ir_function \<times> nat) option" where
  "place_phi_nodes di [] s = Some s"
| "place_phi_nodes di (pv # pvs) s = Option.bind (place_phis_of di pv s) (place_phi_nodes di pvs)"

section \<open>Renaming\<close>

text \<open>The first variable of a slot.\<close>

fun update_slot :: "string \<Rightarrow> (promoted_var \<Rightarrow> promoted_var) \<Rightarrow> promoted_var list \<Rightarrow> promoted_var list" where
  "update_slot s g [] = []"
| "update_slot s g (pv # pvs) = (if pv_slot pv = s then g pv # pvs else pv # update_slot s g pvs)"

definition find_slot :: "string option \<Rightarrow> promoted_var list \<Rightarrow> promoted_var option" where
  "find_slot s pvs = List.find (\<lambda>pv. Some (pv_slot pv) = s) pvs"

text \<open>The function, the variables, and the slots that were pushed in the current block.\<close>

record renaming =
  rn_fn :: ir_function
  rn_vars :: "promoted_var list"
  rn_pushed :: "string list"

definition push_value :: "string \<Rightarrow> ir_value option \<Rightarrow> renaming \<Rightarrow> renaming" where
  "push_value s v st = st\<lparr>rn_vars := update_slot s (stack_push v) (rn_vars st), rn_pushed := s # rn_pushed st\<rparr>"

definition push_phi :: "ir_inst \<Rightarrow> renaming \<Rightarrow> renaming" where
  "push_phi i st =
     (if find_slot (i_callee i) (rn_vars st) \<noteq> None then push_value (the (i_callee i)) (i_result i) st else st)"

text \<open>One instruction; the result tells whether it was removed.\<close>

definition rename_inst :: "nat \<Rightarrow> nat \<Rightarrow> renaming \<Rightarrow> renaming \<times> bool" where
  "rename_inst b k st =
     (let i = inst_at (rn_fn st) b k
      in if i_op i = IR_OP_LOAD \<and> value_name (i_lhs i) \<noteq> None
         then (case find_slot (value_name (i_lhs i)) (rn_vars st) of
                 None \<Rightarrow> (st, False)
               | Some pv \<Rightarrow> (st\<lparr>rn_fn := remove_at b k (replace_uses_in_fn (i_result i) (stack_top pv) (rn_fn st))\<rparr>, True))
         else if i_op i = IR_OP_STORE \<and> value_name (i_rhs i) \<noteq> None
         then (case find_slot (value_name (i_rhs i)) (rn_vars st) of
                 None \<Rightarrow> (st, False)
               | Some pv \<Rightarrow> ((push_value (pv_slot pv) (i_lhs i) st)\<lparr>rn_fn := remove_at b k (rn_fn st)\<rparr>, True))
         else (st, False))"

fun rename_insts :: "nat \<Rightarrow> nat \<Rightarrow> nat \<Rightarrow> renaming \<Rightarrow> renaming" where
  "rename_insts 0 b k st = st"
| "rename_insts (Suc n) b k st =
     (case rename_inst b k st of (st, removed) \<Rightarrow> rename_insts n b (if removed then k else Suc k) st)"

fun set_incoming :: "nat \<Rightarrow> ir_value option \<Rightarrow> (nat option \<times> ir_value option) list \<Rightarrow> (nat option \<times> ir_value option) list" where
  "set_incoming b v [] = []"
| "set_incoming b v (e # es) = (if fst e = Some b then (fst e, v) # es else e # set_incoming b v es)"

definition fill_phi :: "nat \<Rightarrow> promoted_var list \<Rightarrow> ir_inst \<Rightarrow> ir_inst" where
  "fill_phi b pvs i =
     (case find_slot (i_callee i) pvs of
        Some pv \<Rightarrow> i\<lparr>i_phis := set_incoming b (stack_top pv) (i_phis i)\<rparr>
      | None \<Rightarrow> i)"

definition map_phis :: "(ir_inst \<Rightarrow> ir_inst) \<Rightarrow> ir_block \<Rightarrow> ir_block" where
  "map_phis g bb = bb\<lparr>bb_insts := map g (takeWhile is_phi (bb_insts bb)) @ dropWhile is_phi (bb_insts bb)\<rparr>"

definition rename_block :: "nat \<Rightarrow> ir_function \<times> promoted_var list \<Rightarrow> renaming" where
  "rename_block b = (\<lambda>(f, pvs).
     let st = fold push_phi (takeWhile is_phi (bb_insts (block_at f b))) \<lparr>rn_fn = f, rn_vars = pvs, rn_pushed = []\<rparr>;
         st = rename_insts (length (bb_insts (block_at f b))) b 0 st
     in st\<lparr>rn_fn := fold (\<lambda>s. update_block s (map_phis (fill_phi b (rn_vars st)))) (bb_succs (block_at f b)) (rn_fn st)\<rparr>)"

definition pop_all :: "string list \<Rightarrow> promoted_var list \<Rightarrow> promoted_var list" where
  "pop_all = fold (\<lambda>s. update_slot s stack_pop)"

text \<open>The recursion over the dominator tree, with a bound on its depth.\<close>

fun rename_dominator_tree ::
  "nat \<Rightarrow> dom_info \<Rightarrow> nat \<Rightarrow> ir_function \<times> promoted_var list \<Rightarrow> (ir_function \<times> promoted_var list) option" where
  "rename_dominator_tree 0 di n s = None"
| "rename_dominator_tree (Suc k) di n s =
     (let node = di_nodes di ! n
      in if \<not> dn_reachable node then Some s
         else let st = rename_block (dn_block node) s
              in map_option (\<lambda>(f, pvs). (f, pop_all (rn_pushed st) pvs))
                   (fold (\<lambda>c acc. Option.bind acc (rename_dominator_tree k di c)) (dn_children node)
                      (Some (rn_fn st, rn_vars st))))"

section \<open>The verifier\<close>

definition max_regs :: "ir_function \<Rightarrow> nat" where
  "max_regs f = fn_next_reg f + 32"

definition defines_reg :: "ir_function \<Rightarrow> nat \<Rightarrow> ir_inst \<Rightarrow> bool" where
  "defines_reg f n i \<longleftrightarrow> is_reg (max_regs f) (i_result i) \<and> v_id (the (i_result i)) = n"

definition redefined_error :: "ir_function \<Rightarrow> nat \<Rightarrow> string" where
  "redefined_error f n = snprintf_buf 256
     (''SSA violation: virtual register %'' @ decimal n @ '' defined multiple times in @'' @ fn_name f)"

fun check_single_defs :: "ir_function \<Rightarrow> nat list \<Rightarrow> ir_inst list \<Rightarrow> string option" where
  "check_single_defs f seen [] = None"
| "check_single_defs f seen (i # is) =
     (if is_reg (max_regs f) (i_result i)
      then let n = v_id (the (i_result i))
           in if n \<in> set seen then Some (redefined_error f n) else check_single_defs f (n # seen) is
      else check_single_defs f seen is)"

text \<open>The block that defines_reg a register, once there is at most one.\<close>

definition def_block :: "ir_function \<Rightarrow> nat \<Rightarrow> nat option" where
  "def_block f n = List.find (\<lambda>b. list_ex (defines_reg f n) (bb_insts (block_at f b))) (fn_order f)"

definition is_register :: "ir_value \<Rightarrow> bool" where
  "is_register v \<longleftrightarrow> v_kind v = IR_VAL_REG"

text \<open>The registers an instruction reads, as many as fit the array.\<close>

definition register_operands :: "ir_inst \<Rightarrow> ir_value list" where
  "register_operands i = take 32 (filter is_register (List.map_filter id [i_lhs i, i_rhs i] @ i_args i))"

definition check_operand :: "ir_function \<Rightarrow> dom_info \<Rightarrow> nat \<Rightarrow> ir_value \<Rightarrow> string option" where
  "check_operand f di b v =
     (case def_block f (v_id v) of
        None \<Rightarrow> Some (snprintf_buf 256
          (''SSA violation: use of undefined virtual register %'' @ decimal (v_id v) @ '' in @'' @ fn_name f))
      | Some d \<Rightarrow>
          if ir_dominates di d b then None
          else Some (snprintf_buf 256
            (''SSA dominance violation: def of %'' @ decimal (v_id v) @ '' in '' @ quoted (bb_name (block_at f d)) @
             '' does not dominate use in '' @ quoted (bb_name (block_at f b)) @ '' (@'' @ fn_name f @ '')'')))"

definition check_uses :: "ir_function \<Rightarrow> dom_info \<Rightarrow> nat \<Rightarrow> ir_inst \<Rightarrow> string option" where
  "check_uses f di b i = (if is_phi i then None else first_error (check_operand f di b) (register_operands i))"

definition check_incoming :: "ir_function \<Rightarrow> nat \<Rightarrow> nat option \<Rightarrow> string option" where
  "check_incoming f b p =
     (if (case p of Some q \<Rightarrow> q \<in> set (bb_preds (block_at f b)) | None \<Rightarrow> False) then None
      else Some (snprintf_buf 256
        (''SSA phi violation: incoming block '' @ quoted (case p of Some q \<Rightarrow> bb_name (block_at f q) | None \<Rightarrow> ''null'') @
         '' is not a predecessor of '' @ quoted (bb_name (block_at f b)) @ '' in @'' @ fn_name f)))"

fun check_phis :: "ir_function \<Rightarrow> nat \<Rightarrow> bool \<Rightarrow> ir_inst list \<Rightarrow> string option" where
  "check_phis f b seen [] = None"
| "check_phis f b seen (i # is) =
     (if is_phi i
      then if seen
           then Some (snprintf_buf 256 (''SSA phi violation: phi node in '' @ quoted (bb_name (block_at f b)) @
                  '' appears after non-phi instruction in @'' @ fn_name f))
           else (case first_error (\<lambda>e. check_incoming f b (fst e)) (i_phis i) of
                   Some e \<Rightarrow> Some e
                 | None \<Rightarrow> check_phis f b seen is)
      else check_phis f b True is)"

definition ssa_errors :: "ir_function \<Rightarrow> dom_info \<Rightarrow> string option" where
  "ssa_errors f di =
     (case check_single_defs f [] (fn_insts f) of
        Some e \<Rightarrow> Some e
      | None \<Rightarrow>
          (case first_error (\<lambda>b. first_error (check_uses f di b) (bb_insts (block_at f b))) (fn_order f) of
             Some e \<Rightarrow> Some e
           | None \<Rightarrow> first_error (\<lambda>b. check_phis f b False (bb_insts (block_at f b))) (fn_order f)))"

text \<open>\<open>None\<close>: the dominance analysis does not end. The second argument is what the caller knows of it.\<close>

definition ir_ssa_verify_function :: "ir_function \<Rightarrow> dom_info option \<Rightarrow> string option option" where
  "ir_ssa_verify_function f di =
     (case di of
        Some d \<Rightarrow> Some (ssa_errors f d)
      | None \<Rightarrow> map_option (\<lambda>r. case r of None \<Rightarrow> Some ''Failed to compute dominator info for verification''
                  | Some d \<Rightarrow> ssa_errors f d) (ir_dominance_compute f))"

fun verify_ssa_functions :: "ir_function list \<Rightarrow> string option option" where
  "verify_ssa_functions [] = Some None"
| "verify_ssa_functions (f # fs) =
     Option.bind (ir_ssa_verify_function f None) (\<lambda>r. case r of Some e \<Rightarrow> Some (Some e) | None \<Rightarrow> verify_ssa_functions fs)"

definition ir_ssa_verify_module :: "ir_module \<Rightarrow> string option option" where
  "ir_ssa_verify_module m = verify_ssa_functions (m_functions m)"

section \<open>Construction\<close>

record ssa_stats =
  promoted_allocas :: nat
  phi_nodes_created :: nat

definition is_promoted_alloca :: "promoted_var list \<Rightarrow> ir_inst \<Rightarrow> bool" where
  "is_promoted_alloca pvs i \<longleftrightarrow> i_op i = IR_OP_ALLOCA \<and> find_slot (value_name (i_result i)) pvs \<noteq> None \<and>
     is_scalar_promotable (promoted_type i)"

definition remove_allocas :: "promoted_var list \<Rightarrow> ir_function \<Rightarrow> ir_function" where
  "remove_allocas pvs f =
     (case fn_entry f of
        None \<Rightarrow> f
      | Some e \<Rightarrow> update_block e (\<lambda>bb. bb\<lparr>bb_insts := filter (\<lambda>i. \<not> is_promoted_alloca pvs i) (bb_insts bb)\<rparr>) f)"

text \<open>The result of a check as the result of a step.\<close>

definition checked_result :: "'a \<Rightarrow> string option option \<Rightarrow> (string + 'a) option" where
  "checked_result x r = map_option (\<lambda>e. case e of Some msg \<Rightarrow> Inl msg | None \<Rightarrow> Inr x) r"

definition promote_slots :: "dom_info \<Rightarrow> ir_function \<Rightarrow> (ir_function \<times> nat) option" where
  "promote_slots di f =
     (let pvs = find_promotable_vars f
      in Option.bind (place_phi_nodes di pvs (f, 0)) (\<lambda>(g, n).
           map_option (\<lambda>(h, _). (ir_recompute_cfg (remove_allocas pvs h), n))
             (rename_dominator_tree (length (di_nodes di) + 1) di (di_root di) (g, pvs))))"

definition ir_ssa_construct_function :: "ir_function \<Rightarrow> (string + ir_function \<times> ssa_stats) option" where
  "ir_ssa_construct_function f =
     (let f = ir_recompute_cfg f; promoted = length (find_promotable_vars f)
      in Option.bind (ir_dominance_compute f) (\<lambda>r.
           case r of
             None \<Rightarrow> Some (Inl ''Failed to compute dominator info for function'')
           | Some di \<Rightarrow>
               if promoted = 0 then Some (Inr (f, \<lparr>promoted_allocas = 0, phi_nodes_created = 0\<rparr>))
               else Option.bind (promote_slots di f) (\<lambda>(g, n).
                      checked_result (g, \<lparr>promoted_allocas = promoted, phi_nodes_created = n\<rparr>) (ir_ssa_verify_function g None))))"

text \<open>The functions of a module in order, until one fails.\<close>

fun each_function :: "(ir_function \<Rightarrow> (string + ir_function) option) \<Rightarrow> ir_function list \<Rightarrow> (string + ir_function list) option" where
  "each_function g [] = Some (Inr [])"
| "each_function g (f # fs) =
     Option.bind (g f) (\<lambda>r. case r of
        Inl e \<Rightarrow> Some (Inl e)
      | Inr f \<Rightarrow> map_option (map_sum id (\<lambda>fs. f # fs)) (each_function g fs))"

definition ir_ssa_construct_module :: "ir_module \<Rightarrow> (string + ir_module) option" where
  "ir_ssa_construct_module m = map_option (map_sum id (\<lambda>fs. m\<lparr>m_functions := fs\<rparr>))
     (each_function (\<lambda>f. map_option (map_sum id fst) (ir_ssa_construct_function f)) (m_functions m))"

section \<open>The small optimiser\<close>

text \<open>A phi whose operands are all the same value or the phi itself.\<close>

definition trivial_phi :: "ir_inst \<Rightarrow> ir_value option" where
  "trivial_phi i =
     (case map snd (i_phis i) of
        v # vs \<Rightarrow>
          if i_result i \<noteq> None \<and> list_all (\<lambda>u. same_val u v \<or> same_val u (i_result i)) vs then v else None
      | [] \<Rightarrow> None)"

fun fold_trivial_phis :: "nat \<Rightarrow> nat \<Rightarrow> nat \<Rightarrow> ir_function \<times> bool \<Rightarrow> ir_function \<times> bool" where
  "fold_trivial_phis 0 b k s = s"
| "fold_trivial_phis (Suc n) b k (f, changed) =
     (let i = inst_at f b k
      in if \<not> is_phi i then (f, changed)
         else case trivial_phi i of
                Some v \<Rightarrow> fold_trivial_phis n b k (remove_at b k (replace_uses_in_fn (i_result i) (Some v) f), True)
              | None \<Rightarrow> fold_trivial_phis n b (Suc k) (f, changed))"

definition fold_block_phis :: "nat \<Rightarrow> ir_function \<times> bool \<Rightarrow> ir_function \<times> bool" where
  "fold_block_phis b s = fold_trivial_phis (length (bb_insts (block_at (fst s) b))) b 0 s"

definition note_ssa_const :: "ir_function \<Rightarrow> ir_inst \<Rightarrow> (nat \<Rightarrow> ir_value option) \<Rightarrow> nat \<Rightarrow> ir_value option" where
  "note_ssa_const f i cmap =
     (case (i_result i, i_lhs i) of
        (Some r, Some v) \<Rightarrow> if i_op i = IR_OP_CONST \<and> v_id r < max_regs f then cmap(v_id r := Some v) else cmap
      | _ \<Rightarrow> cmap)"

definition ssa_const_map :: "ir_function \<Rightarrow> nat \<Rightarrow> ir_value option" where
  "ssa_const_map f = fold (note_ssa_const f) (fn_insts f) (\<lambda>_. None)"

definition ssa_operand :: "ir_function \<Rightarrow> ir_value option \<Rightarrow> ir_value option" where
  "ssa_operand f v =
     (if is_reg (max_regs f) v then (case ssa_const_map f (v_id (the v)) of Some c \<Rightarrow> Some c | None \<Rightarrow> v) else v)"

definition replaces_operand :: "ir_function \<Rightarrow> ir_value option \<Rightarrow> bool" where
  "replaces_operand f v \<longleftrightarrow> is_reg (max_regs f) v \<and> ssa_const_map f (v_id (the v)) \<noteq> None"

definition ssa_propagate_inst :: "ir_function \<Rightarrow> ir_inst \<Rightarrow> ir_inst" where
  "ssa_propagate_inst f i =
     i\<lparr>i_lhs := ssa_operand f (i_lhs i), i_rhs := ssa_operand f (i_rhs i),
       i_args := map (\<lambda>a. the (ssa_operand f (Some a))) (i_args i),
       i_phis := map (\<lambda>(b, v). (b, ssa_operand f v)) (i_phis i)\<rparr>"

definition ssa_propagates :: "ir_function \<Rightarrow> ir_inst \<Rightarrow> bool" where
  "ssa_propagates f i \<longleftrightarrow>
     list_ex (replaces_operand f) (i_lhs i # i_rhs i # map Some (i_args i) @ map snd (i_phis i))"

text \<open>Only arithmetic on integers is folded. The function is the one of before the pass.\<close>

definition ssa_fold_inst :: "ir_function \<Rightarrow> ir_inst \<Rightarrow> (ir_inst \<times> bool) option" where
  "ssa_fold_inst f i =
     (if i_op i = IR_OP_CONST then Some (i, False)
      else let j = ssa_propagate_inst f i
           in case fold_int_arith j of
                Keep \<Rightarrow> Some (j, ssa_propagates f i)
              | Folded v \<Rightarrow> Some (to_const (Some v) j, True)
              | Overflow \<Rightarrow> None)"

fun ssa_fold_insts :: "ir_function \<Rightarrow> ir_inst list \<Rightarrow> (ir_inst list \<times> bool) option" where
  "ssa_fold_insts f [] = Some ([], False)"
| "ssa_fold_insts f (i # is) =
     (case (ssa_fold_inst f i, ssa_fold_insts f is) of
        (Some (i, c), Some (is, d)) \<Rightarrow> Some (i # is, c \<or> d) | _ \<Rightarrow> None)"

fun ssa_fold_blocks :: "ir_function \<Rightarrow> nat list \<Rightarrow> ir_function \<times> bool \<Rightarrow> (ir_function \<times> bool) option" where
  "ssa_fold_blocks f0 [] s = Some s"
| "ssa_fold_blocks f0 (b # bs) (f, c) =
     Option.bind (ssa_fold_insts f0 (bb_insts (block_at f b))) (\<lambda>(is, d).
       ssa_fold_blocks f0 bs (update_block b (\<lambda>bb. bb\<lparr>bb_insts := is\<rparr>) f, c \<or> d))"

definition ssa_use_count :: "ir_function \<Rightarrow> nat \<Rightarrow> nat" where
  "ssa_use_count f n = count_if (\<lambda>v. is_reg (max_regs f) v \<and> v_id (the v) = n)
     (concat (map (\<lambda>i. i_lhs i # i_rhs i # map Some (i_args i) @ map snd (i_phis i)) (fn_insts f)))"

definition is_pure :: "ir_opcode \<Rightarrow> bool" where
  "is_pure opc \<longleftrightarrow> opc \<in> {IR_OP_CONST, IR_OP_ADD, IR_OP_SUB, IR_OP_MUL, IR_OP_DIV, IR_OP_MOD, IR_OP_NEG, IR_OP_EQ, IR_OP_NE,
     IR_OP_LT, IR_OP_LE, IR_OP_GT, IR_OP_GE, IR_OP_AND, IR_OP_OR, IR_OP_NOT, IR_OP_PHI}"

definition ssa_dead :: "ir_function \<Rightarrow> ir_inst \<Rightarrow> bool" where
  "ssa_dead f i \<longleftrightarrow> is_reg (max_regs f) (i_result i) \<and> ssa_use_count f (v_id (the (i_result i))) = 0 \<and> is_pure (i_op i)"

definition ssa_remove_dead :: "ir_function \<Rightarrow> ir_function" where
  "ssa_remove_dead f =
     fold (\<lambda>b. update_block b (\<lambda>bb. bb\<lparr>bb_insts := filter (\<lambda>i. \<not> ssa_dead f i) (bb_insts bb)\<rparr>)) (fn_order f) f"

text \<open>The function, whether it changed, and the error of the verifier.\<close>

definition ir_ssa_optimize_function :: "ir_function \<Rightarrow> (ir_function \<times> bool \<times> string option) option" where
  "ir_ssa_optimize_function f =
     (case fold fold_block_phis (fn_order f) (f, False) of
        (f, c1) \<Rightarrow>
          Option.bind (ssa_fold_blocks f (fn_order f) (f, False)) (\<lambda>(g, c2).
            let h = ssa_remove_dead g
            in map_option (\<lambda>e. (h, c1 \<or> c2 \<or> list_ex (ssa_dead g) (fn_insts g), e)) (ir_ssa_verify_function h None)))"

definition ir_ssa_optimize_module :: "ir_module \<Rightarrow> (string + ir_module) option" where
  "ir_ssa_optimize_module m = map_option (map_sum id (\<lambda>fs. m\<lparr>m_functions := fs\<rparr>))
     (each_function (\<lambda>f. Option.bind (ir_ssa_optimize_function f) (\<lambda>(g, c, e). checked_result g (Some e))) (m_functions m))"

section \<open>Critical edges\<close>

definition has_phi_nodes :: "ir_block \<Rightarrow> bool" where
  "has_phi_nodes bb \<longleftrightarrow> bb_insts bb \<noteq> [] \<and> is_phi (hd (bb_insts bb))"

definition split_name :: "ir_function \<Rightarrow> nat \<Rightarrow> nat \<Rightarrow> string" where
  "split_name f b s = snprintf_buf 64 (''split.'' @ decimal (bb_id (block_at f b)) @ ''.'' @ decimal (bb_id (block_at f s)))"

definition jump_to :: "nat \<Rightarrow> ir_inst" where
  "jump_to s = (create_instruction IR_OP_BR Ty_Void)\<lparr>i_true := Some s, i_field_index := 0\<rparr>"

definition retarget :: "nat \<Rightarrow> nat \<Rightarrow> ir_inst \<Rightarrow> ir_inst" where
  "retarget s x i = i\<lparr>i_true := (if i_true i = Some s then Some x else i_true i),
     i_false := (if i_false i = Some s then Some x else i_false i)\<rparr>"

definition map_last :: "(ir_inst \<Rightarrow> ir_inst) \<Rightarrow> ir_block \<Rightarrow> ir_block" where
  "map_last g bb =
     (if bb_insts bb = [] then bb else bb\<lparr>bb_insts := butlast (bb_insts bb) @ [g (last (bb_insts bb))]\<rparr>)"

definition move_incoming :: "nat \<Rightarrow> nat \<Rightarrow> ir_inst \<Rightarrow> ir_inst" where
  "move_incoming b x i = i\<lparr>i_phis := map (\<lambda>(p, v). (if p = Some b then Some x else p, v)) (i_phis i)\<rparr>"

definition is_critical :: "ir_function \<Rightarrow> nat \<Rightarrow> bool" where
  "is_critical f s \<longleftrightarrow> length (bb_preds (block_at f s)) > 1 \<and> has_phi_nodes (block_at f s)"

definition split_edge :: "nat \<Rightarrow> nat \<Rightarrow> ir_function \<times> nat \<Rightarrow> ir_function \<times> nat" where
  "split_edge b s = (\<lambda>(f, n).
     if is_critical f s
     then (case ir_block_create f (Some (split_name f b s)) of
             (g, x) \<Rightarrow>
               (update_block s (map_phis (move_incoming b x))
                  (update_block b (map_last (retarget s x))
                    (update_block x (ir_block_add_instruction (jump_to s)) g)), n + 1))
     else (f, n))"

definition split_block :: "nat \<Rightarrow> ir_function \<times> nat \<Rightarrow> ir_function \<times> nat" where
  "split_block b st =
     (let ss = bb_succs (block_at (fst st) b) in if length ss > 1 then fold (split_edge b) ss st else st)"

text \<open>The new blocks stand at the end of the list and have no successors when the loop comes to them.\<close>

definition split_critical_edges :: "ir_function \<Rightarrow> ir_function \<times> nat" where
  "split_critical_edges f = (case fold split_block (fn_order f) (f, 0) of (g, n) \<Rightarrow> (ir_recompute_cfg g, n))"

section \<open>Parallel copies\<close>

text \<open>The destination and the source of each copy.\<close>

type_synonym copies = "(ir_value \<times> ir_value option) list"

definition is_blocked :: "copies \<Rightarrow> nat \<Rightarrow> bool" where
  "is_blocked cs i \<longleftrightarrow> list_ex (\<lambda>j. j \<noteq> i \<and> same_val (snd (cs ! j)) (Some (fst (cs ! i)))) [0..<length cs]"

definition copy_inst :: "ir_value \<Rightarrow> ir_value option \<Rightarrow> ir_inst" where
  "copy_inst d s = (create_instruction IR_OP_CONST (v_type d))\<lparr>i_result := Some d, i_lhs := s, i_field_index := 0\<rparr>"

definition value_type :: "ir_value option \<Rightarrow> ir_type" where
  "value_type v = (case v of Some u \<Rightarrow> v_type u | None \<Rightarrow> Ty_Void)"

text \<open>The copies that remain, the next register, and the instructions so far.\<close>

definition copy_step :: "copies \<times> nat \<times> ir_inst list \<Rightarrow> copies \<times> nat \<times> ir_inst list" where
  "copy_step = (\<lambda>(cs, n, is).
     case List.find (\<lambda>i. \<not> is_blocked cs i) [0..<length cs] of
       Some i \<Rightarrow> (take i cs @ drop (Suc i) cs, n, is @ [copy_inst (fst (cs ! i)) (snd (cs ! i))])
     | None \<Rightarrow>
         (let tmp = ir_val_reg (value_type (snd (hd cs))) n
          in ((fst (hd cs), Some tmp) # tl cs, n + 1, is @ [copy_inst tmp (snd (hd cs))])))"

definition sequential_copies :: "copies \<Rightarrow> nat \<Rightarrow> (nat \<times> ir_inst list) option" where
  "sequential_copies cs n = map_option snd (while_option (\<lambda>s. fst s \<noteq> []) copy_step (cs, n, []))"

definition insert_before_terminator :: "ir_inst \<Rightarrow> ir_block \<Rightarrow> ir_block" where
  "insert_before_terminator i bb =
     (if bb_insts bb = [] then ir_block_add_instruction i bb
      else bb\<lparr>bb_insts := butlast (bb_insts bb) @ [i, last (bb_insts bb)]\<rparr>)"

definition emit_sequential_copies_before_term :: "nat \<Rightarrow> copies \<Rightarrow> ir_function \<Rightarrow> ir_function option" where
  "emit_sequential_copies_before_term p cs f =
     map_option (\<lambda>(n, is). update_block p (fold insert_before_terminator is) (f\<lparr>fn_next_reg := n\<rparr>))
       (sequential_copies cs (fn_next_reg f))"

section \<open>Destruction\<close>

definition phi_copy :: "nat \<Rightarrow> ir_inst \<Rightarrow> copies" where
  "phi_copy p i =
     (case (List.find (\<lambda>e. fst e = Some p) (i_phis i), i_result i) of
        (Some (_, v), Some d) \<Rightarrow> if same_val v (Some d) then [] else [(d, v)]
      | _ \<Rightarrow> [])"

text \<open>The array holds 64 copies; the others are dropped.\<close>

definition phi_copies :: "ir_block \<Rightarrow> nat \<Rightarrow> copies" where
  "phi_copies bb p = take 64 (concat (map (phi_copy p) (takeWhile is_phi (bb_insts bb))))"

fun lower_edges :: "nat \<Rightarrow> nat list \<Rightarrow> ir_function \<Rightarrow> ir_function option" where
  "lower_edges b [] f = Some f"
| "lower_edges b (p # ps) f =
     Option.bind (emit_sequential_copies_before_term p (phi_copies (block_at f b) p) f) (lower_edges b ps)"

definition drop_block_phis :: "ir_block \<Rightarrow> ir_block" where
  "drop_block_phis bb = bb\<lparr>bb_insts := dropWhile is_phi (bb_insts bb)\<rparr>"

definition lower_block :: "nat \<Rightarrow> ir_function \<Rightarrow> ir_function option" where
  "lower_block b f =
     (if has_phi_nodes (block_at f b)
      then map_option (update_block b drop_block_phis) (lower_edges b (bb_preds (block_at f b)) f)
      else Some f)"

fun lower_blocks :: "nat list \<Rightarrow> ir_function \<Rightarrow> ir_function option" where
  "lower_blocks [] f = Some f"
| "lower_blocks (b # bs) f = Option.bind (lower_block b f) (lower_blocks bs)"

definition ir_ssa_deconstruct_function :: "ir_module option \<Rightarrow> ir_function \<Rightarrow> (string + ir_function \<times> nat) option" where
  "ir_ssa_deconstruct_function m f =
     (case split_critical_edges f of
        (f, n) \<Rightarrow>
          Option.bind (lower_blocks (fn_order f) f) (\<lambda>f.
            let f = ir_recompute_cfg f in checked_result (f, n) (Some (ir_verify_function m f))))"

definition ir_ssa_deconstruct_module :: "ir_module \<Rightarrow> (string + ir_module) option" where
  "ir_ssa_deconstruct_module m = map_option (map_sum id (\<lambda>fs. m\<lparr>m_functions := fs\<rparr>))
     (each_function (\<lambda>f. map_option (map_sum id fst) (ir_ssa_deconstruct_function (Some m) f)) (m_functions m))"

end
