(* ===== verification/Ir_Loop.thy ===== *)
theory Ir_Loop
  imports Ir_Ssa
begin

text \<open>
  Natural loops, \<open>src/ir/ir_loop.c\<close>: back edges grouped by header, the blocks of each loop by a
  traversal of predecessors, nesting, depth, and preheaders. A loop is an index into the list of
  loops. \<open>None\<close> stands for a traversal that does not end. The dumps and the figures from profiles are
  left out.
\<close>

section \<open>Loops\<close>

record ir_loop =
  lp_id :: nat
  lp_header :: nat
  lp_latches :: "nat list"
  lp_blocks :: "nat list"
  lp_parent :: "nat option"
  lp_children :: "nat list"
  lp_depth :: nat

record loop_info =
  li_fn :: ir_function
  li_loops :: "ir_loop list"

definition create_loop :: "nat \<Rightarrow> nat \<Rightarrow> ir_loop" where
  "create_loop k h =
     \<lparr>lp_id = k, lp_header = h, lp_latches = [], lp_blocks = [], lp_parent = None, lp_children = [], lp_depth = 1\<rparr>"

definition add_once :: "nat \<Rightarrow> nat list \<Rightarrow> nat list" where
  "add_once x xs = (if x \<in> set xs then xs else xs @ [x])"

definition loop_add_latch :: "nat \<Rightarrow> ir_loop \<Rightarrow> ir_loop" where
  "loop_add_latch b l = l\<lparr>lp_latches := add_once b (lp_latches l)\<rparr>"

definition loop_add_block :: "nat \<Rightarrow> ir_loop \<Rightarrow> ir_loop" where
  "loop_add_block b l = l\<lparr>lp_blocks := add_once b (lp_blocks l)\<rparr>"

definition loop_add_child :: "nat \<Rightarrow> nat \<Rightarrow> ir_loop list \<Rightarrow> ir_loop list" where
  "loop_add_child p c ls =
     (if c \<in> set (lp_children (ls ! p)) then ls
      else let ls = ls[p := (ls ! p)\<lparr>lp_children := lp_children (ls ! p) @ [c]\<rparr>]
           in ls[c := (ls ! c)\<lparr>lp_parent := Some p\<rparr>])"

definition ir_loop_contains :: "ir_loop \<Rightarrow> nat \<Rightarrow> bool" where
  "ir_loop_contains l b \<longleftrightarrow> b \<in> set (lp_blocks l)"

section \<open>Back edges and blocks\<close>

text \<open>Pairs of a latch and a header.\<close>

definition back_edges :: "ir_function \<Rightarrow> dom_info \<Rightarrow> (nat \<times> nat) list" where
  "back_edges f di =
     concat (map (\<lambda>b. map (\<lambda>s. (b, s)) (filter (\<lambda>s. ir_dominates di s b) (bb_succs (block_at f b)))) (fn_order f))"

definition visit_pred :: "nat \<Rightarrow> nat list \<times> ir_loop \<Rightarrow> nat list \<times> ir_loop" where
  "visit_pred p = (\<lambda>(wl, l).
     if ir_loop_contains l p then (wl, l)
     else (if p \<noteq> lp_header l then wl @ [p] else wl, loop_add_block p l))"

definition walk_next :: "ir_function \<Rightarrow> nat list \<times> ir_loop \<Rightarrow> nat list \<times> ir_loop" where
  "walk_next f = (\<lambda>(wl, l). fold visit_pred (bb_preds (block_at f (hd wl))) (tl wl, l))"

definition walk_preds :: "ir_function \<Rightarrow> nat \<Rightarrow> ir_loop \<Rightarrow> ir_loop option" where
  "walk_preds f b l = map_option snd (while_option (\<lambda>s. fst s \<noteq> []) (walk_next f) ([b], l))"

definition add_back_edge :: "ir_function \<Rightarrow> nat \<times> nat \<Rightarrow> ir_loop list \<Rightarrow> ir_loop list option" where
  "add_back_edge f e ls =
     (case e of (latch, h) \<Rightarrow>
        let k = (case List.find (\<lambda>k. lp_header (ls ! k) = h) [0..<length ls] of Some k \<Rightarrow> k | None \<Rightarrow> length ls);
            ls = (if k = length ls then ls @ [loop_add_block h (create_loop k h)] else ls);
            l = loop_add_block latch (loop_add_latch latch (ls ! k))
        in if latch \<noteq> h then map_option (\<lambda>l. ls[k := l]) (walk_preds f latch l) else Some (ls[k := l]))"

fun add_back_edges :: "ir_function \<Rightarrow> (nat \<times> nat) list \<Rightarrow> ir_loop list \<Rightarrow> ir_loop list option" where
  "add_back_edges f [] ls = Some ls"
| "add_back_edges f (e # es) ls = Option.bind (add_back_edge f e ls) (add_back_edges f es)"

section \<open>Nesting\<close>

definition inside :: "ir_loop \<Rightarrow> ir_loop \<Rightarrow> bool" where
  "inside l m \<longleftrightarrow> length (lp_blocks l) < length (lp_blocks m) \<and> list_all (ir_loop_contains m) (lp_blocks l)"

definition better_parent :: "ir_loop list \<Rightarrow> nat \<Rightarrow> nat \<Rightarrow> nat option \<Rightarrow> nat option" where
  "better_parent ls i j best =
     (if i \<noteq> j \<and> inside (ls ! i) (ls ! j) \<and>
         (case best of None \<Rightarrow> True | Some p \<Rightarrow> length (lp_blocks (ls ! j)) < length (lp_blocks (ls ! p)))
      then Some j else best)"

definition best_parent :: "ir_loop list \<Rightarrow> nat \<Rightarrow> nat option" where
  "best_parent ls i = fold (better_parent ls i) [0..<length ls] None"

definition nest_loop :: "nat \<Rightarrow> ir_loop list \<Rightarrow> ir_loop list" where
  "nest_loop i ls = (case best_parent ls i of Some p \<Rightarrow> loop_add_child p i ls | None \<Rightarrow> ls)"

definition count_parents :: "ir_loop list \<Rightarrow> nat option \<Rightarrow> nat option" where
  "count_parents ls p = map_option snd
     (while_option (\<lambda>s. fst s \<noteq> None) (\<lambda>(p, d). (lp_parent (ls ! the p), d + 1)) (p, 1))"

fun set_depths :: "nat list \<Rightarrow> ir_loop list \<Rightarrow> ir_loop list option" where
  "set_depths [] ls = Some ls"
| "set_depths (i # is) ls =
     Option.bind (count_parents ls (lp_parent (ls ! i))) (\<lambda>d. set_depths is (ls[i := (ls ! i)\<lparr>lp_depth := d\<rparr>]))"

definition ir_loop_analysis_compute :: "ir_function \<Rightarrow> dom_info \<Rightarrow> loop_info option" where
  "ir_loop_analysis_compute f di =
     Option.bind (add_back_edges f (back_edges f di) []) (\<lambda>ls.
       map_option (\<lambda>ls. \<lparr>li_fn = f, li_loops = ls\<rparr>)
         (set_depths [0..<length ls] (fold nest_loop [0..<length ls] ls)))"

section \<open>Queries\<close>

definition ir_loop_count :: "loop_info \<Rightarrow> nat" where
  "ir_loop_count info = length (li_loops info)"

definition ir_loop_get :: "loop_info \<Rightarrow> int \<Rightarrow> ir_loop option" where
  "ir_loop_get info k = (if k < 0 \<or> int (length (li_loops info)) \<le> k then None else Some (li_loops info ! nat k))"

definition deeper_loop :: "nat \<Rightarrow> ir_loop \<Rightarrow> ir_loop option \<Rightarrow> ir_loop option" where
  "deeper_loop b l best =
     (if ir_loop_contains l b \<and> (case best of None \<Rightarrow> True | Some m \<Rightarrow> lp_depth m < lp_depth l) then Some l else best)"

definition ir_loop_for_block :: "loop_info \<Rightarrow> nat \<Rightarrow> ir_loop option" where
  "ir_loop_for_block info b = fold (deeper_loop b) (li_loops info) None"

definition ir_loop_depth :: "loop_info \<Rightarrow> nat \<Rightarrow> nat" where
  "ir_loop_depth info b = (case ir_loop_for_block info b of Some l \<Rightarrow> lp_depth l | None \<Rightarrow> 0)"

definition ir_loop_get_parent :: "loop_info \<Rightarrow> ir_loop \<Rightarrow> ir_loop option" where
  "ir_loop_get_parent info l = map_option (\<lambda>p. li_loops info ! p) (lp_parent l)"

section \<open>Preheaders\<close>

text \<open>Only 32 predecessors are looked at.\<close>

definition outside_preds :: "ir_function \<Rightarrow> ir_loop \<Rightarrow> nat list" where
  "outside_preds f l = take 32 (filter (\<lambda>p. \<not> ir_loop_contains l p) (bb_preds (block_at f (lp_header l))))"

text \<open>The phi of the preheader takes over the entries of the outside blocks; entries that are missing stay null.\<close>

definition from_outside :: "nat list \<Rightarrow> nat option \<times> ir_value option \<Rightarrow> bool" where
  "from_outside out e \<longleftrightarrow> (case fst e of Some p \<Rightarrow> p \<in> set out | None \<Rightarrow> False)"

definition preheader_phi :: "nat list \<Rightarrow> nat \<Rightarrow> ir_inst \<Rightarrow> ir_inst" where
  "preheader_phi out r i =
     (let es = filter (from_outside out) (i_phis i)
      in (create_instruction IR_OP_PHI (i_type i))
           \<lparr>i_result := Some (ir_val_reg (i_type i) r), i_phis := es @ replicate (length out - length es) (None, None), i_field_index := 0\<rparr>)"

definition header_phi :: "nat list \<Rightarrow> nat \<Rightarrow> nat \<Rightarrow> ir_inst \<Rightarrow> ir_inst" where
  "header_phi out x r i = i\<lparr>i_phis := filter (\<lambda>e. \<not> from_outside out e) (i_phis i) @ [(Some x, Some (ir_val_reg (i_type i) r))]\<rparr>"

text \<open>The phis of the header in order: the new ones for the preheader, last first, and the next register.\<close>

fun split_phis :: "nat list \<Rightarrow> nat \<Rightarrow> ir_inst list \<Rightarrow> nat \<Rightarrow> ir_inst list \<times> ir_inst list \<times> nat" where
  "split_phis out x [] r = ([], [], r)"
| "split_phis out x (i # is) r =
     (case split_phis out x is (r + 1) of
        (new, old, n) \<Rightarrow> (new @ [preheader_phi out r i], header_phi out x r i # old, n))"

definition ir_loop_get_or_create_preheader :: "ir_function \<Rightarrow> ir_loop \<Rightarrow> ir_function \<times> nat" where
  "ir_loop_get_or_create_preheader f l =
     (let h = lp_header l; out = outside_preds f l
      in if length out = 1 \<and> length (bb_succs (block_at f (hd out))) = 1 then (f, hd out)
         else case ir_block_create f (Some (snprintf_buf 64 (''preheader.'' @ bb_name (block_at f h)))) of
           (g, x) \<Rightarrow>
             (let g = update_block x (ir_block_add_instruction (jump_to h)) g;
                  g = fold (\<lambda>p. update_block p (map_last (retarget h x))) out g
              in if length out \<le> 1
                 then (ir_recompute_cfg (update_block h (map_phis (if length out = 1 then move_incoming (hd out) x else id)) g), x)
                 else case split_phis out x (takeWhile is_phi (bb_insts (block_at g h))) (fn_next_reg g) of
                   (new, old, n) \<Rightarrow>
                     (ir_recompute_cfg
                        (update_block x (\<lambda>bb. bb\<lparr>bb_insts := new @ bb_insts bb\<rparr>)
                          (update_block h (\<lambda>bb. bb\<lparr>bb_insts := old @ dropWhile is_phi (bb_insts bb)\<rparr>)
                            (g\<lparr>fn_next_reg := n\<rparr>))), x)))"

end
