(* ===== verification/Ir_Ssa_Opt.thy ===== *)
theory Ir_Ssa_Opt
  imports Ir_Loop
begin

text \<open>
  The optimiser of SSA form, \<open>src/ir/ir_ssa_opt.c\<close>: sparse conditional constant propagation, global
  value numbering, motion of loop-invariant code, removal of dead code, simplification of branches,
  and the driver. As in \<open>Ir_Opt\<close> the arithmetic of doubles is a parameter, values are compared by
  content where the code first compares pointers, and \<open>None\<close> stands for an overflow while folding
  or a loop that does not end. A phi has a value for every block it names. The counters of the
  metrics are left out.
\<close>

section \<open>Values and blocks\<close>

definition opt_same_val :: "ir_value option \<Rightarrow> ir_value option \<Rightarrow> bool" where
  "opt_same_val a b =
     (if a = b then True
      else case (a, b) of
        (Some x, Some y) \<Rightarrow>
          (case (v_kind x, v_kind y) of
             (IR_VAL_REG, IR_VAL_REG) \<Rightarrow> v_id x = v_id y
           | (IR_VAL_CONST_INT m, IR_VAL_CONST_INT n) \<Rightarrow> m = n
           | (IR_VAL_CONST_FLOAT p, IR_VAL_CONST_FLOAT q) \<Rightarrow> f64_eq p q
           | (IR_VAL_CONST_BOOL p, IR_VAL_CONST_BOOL q) \<Rightarrow> p = q
           | (IR_VAL_CONST_CHAR c, IR_VAL_CONST_CHAR d) \<Rightarrow> c = d
           | (IR_VAL_CONST_STRING s, IR_VAL_CONST_STRING t) \<Rightarrow> s \<noteq> None \<and> s = t
           | _ \<Rightarrow> False)
      | _ \<Rightarrow> False)"

definition opt_replace :: "ir_value \<Rightarrow> ir_value \<Rightarrow> ir_value option \<Rightarrow> ir_value option" where
  "opt_replace old new v = (if opt_same_val v (Some old) then Some new else v)"

definition opt_replace_in_inst :: "ir_value \<Rightarrow> ir_value \<Rightarrow> ir_inst \<Rightarrow> ir_inst" where
  "opt_replace_in_inst old new i =
     i\<lparr>i_lhs := opt_replace old new (i_lhs i), i_rhs := opt_replace old new (i_rhs i),
       i_args := map (\<lambda>a. if opt_same_val (Some a) (Some old) then new else a) (i_args i),
       i_phis := map (\<lambda>(b, v). (b, opt_replace old new v)) (i_phis i)\<rparr>"

definition opt_replace_uses :: "ir_value option \<Rightarrow> ir_value option \<Rightarrow> ir_function \<Rightarrow> ir_function" where
  "opt_replace_uses old new f =
     (case (old, new) of
        (Some v, Some w) \<Rightarrow> if opt_same_val (Some v) (Some w) then f else map_insts (opt_replace_in_inst v w) f
      | _ \<Rightarrow> f)"

definition remove_block_from_fn :: "nat \<Rightarrow> ir_function \<Rightarrow> ir_function" where
  "remove_block_from_fn b f =
     (if b \<in> set (fn_order f) then f\<lparr>fn_order := filter (\<lambda>c. c \<noteq> b) (fn_order f), fn_block_count := fn_block_count f - 1\<rparr> else f)"

definition is_pure_operation :: "ir_opcode \<Rightarrow> bool" where
  "is_pure_operation opc \<longleftrightarrow> opc \<in> {IR_OP_CONST, IR_OP_ADD, IR_OP_SUB, IR_OP_MUL, IR_OP_DIV, IR_OP_MOD, IR_OP_NEG,
     IR_OP_EQ, IR_OP_NE, IR_OP_LT, IR_OP_LE, IR_OP_GT, IR_OP_GE, IR_OP_AND, IR_OP_OR, IR_OP_NOT}"

definition is_commutative :: "ir_opcode \<Rightarrow> bool" where
  "is_commutative opc \<longleftrightarrow> opc \<in> {IR_OP_ADD, IR_OP_MUL, IR_OP_EQ, IR_OP_NE, IR_OP_AND, IR_OP_OR}"

text \<open>The size of the arrays over registers.\<close>

definition opt_regs :: "ir_function \<Rightarrow> nat" where
  "opt_regs f = fn_next_reg f + 64"

section \<open>Sparse conditional constant propagation\<close>

datatype lattice = LATTICE_TOP | LATTICE_CONST "ir_value option" | LATTICE_BOT

definition eval_float_op :: "float_ops \<Rightarrow> ir_inst \<Rightarrow> fold_outcome" where
  "eval_float_op fp i =
     (case float_operands i of
        None \<Rightarrow> Keep
      | Some (a, b) \<Rightarrow>
          if i_op i = IR_OP_ADD then Folded (ir_val_const_float (fp_add fp a b))
          else if i_op i = IR_OP_SUB then Folded (ir_val_const_float (fp_sub fp a b))
          else if i_op i = IR_OP_MUL then Folded (ir_val_const_float (fp_mul fp a b))
          else if i_op i = IR_OP_DIV then (if f64_eq b 0 then Keep else Folded (ir_val_const_float (fp_div fp a b)))
          else if i_op i = IR_OP_EQ then bool_result (f64_eq a b)
          else if i_op i = IR_OP_NE then bool_result (\<not> f64_eq a b)
          else if i_op i = IR_OP_LT then bool_result (f64_less a b)
          else if i_op i = IR_OP_LE then bool_result (f64_le a b)
          else if i_op i = IR_OP_GT then bool_result (f64_less b a)
          else if i_op i = IR_OP_GE then bool_result (f64_le b a)
          else Keep)"

definition eval_bool_op :: "ir_inst \<Rightarrow> fold_outcome" where
  "eval_bool_op i =
     (case bool_operands i of
        None \<Rightarrow> Keep
      | Some (a, b) \<Rightarrow>
          if i_op i = IR_OP_AND then bool_result (a \<and> b)
          else if i_op i = IR_OP_OR then bool_result (a \<or> b)
          else if i_op i = IR_OP_EQ then bool_result (a = b)
          else if i_op i = IR_OP_NE then bool_result (a \<noteq> b)
          else Keep)"

text \<open>The instruction with the two values as its operands.\<close>

definition eval_binary_op :: "float_ops \<Rightarrow> ir_inst \<Rightarrow> ir_value option \<Rightarrow> ir_value option \<Rightarrow> fold_outcome" where
  "eval_binary_op fp i l r =
     (let j = i\<lparr>i_lhs := l, i_rhs := r\<rparr> in first_fold [fold_int_arith j, fold_int_compare j, eval_float_op fp j, eval_bool_op j])"

definition eval_unary_op :: "ir_inst \<Rightarrow> ir_value option \<Rightarrow> fold_outcome" where
  "eval_unary_op i v = (let j = i\<lparr>i_lhs := v\<rparr> in first_fold [fold_neg j, fold_not j])"

text \<open>The lattice, the executable blocks and edges by block number, and the two work lists.\<close>

record sccp_state =
  sc_lat :: "lattice list"
  sc_blocks :: "nat set"
  sc_edges :: "(nat \<times> nat) set"
  sc_cfg :: "(nat option \<times> nat) list"
  sc_ssa :: "nat list"

definition value_lattice :: "lattice list \<Rightarrow> ir_value option \<Rightarrow> lattice" where
  "value_lattice lat v =
     (case v of
        None \<Rightarrow> LATTICE_BOT
      | Some u \<Rightarrow>
          if v_kind u = IR_VAL_REG \<and> v_id u < length lat then lat ! v_id u
          else if is_literal u then LATTICE_CONST v
          else LATTICE_BOT)"

fun meet_phi :: "ir_function \<Rightarrow> sccp_state \<Rightarrow> nat \<Rightarrow> (nat option \<times> ir_value option) list \<Rightarrow> lattice \<Rightarrow> lattice" where
  "meet_phi f st n [] acc = acc"
| "meet_phi f st n ((p, v) # es) acc =
     (if (case p of Some q \<Rightarrow> (bb_id (block_at f q), n) \<in> sc_edges st | None \<Rightarrow> False)
      then (case value_lattice (sc_lat st) v of
              LATTICE_BOT \<Rightarrow> LATTICE_BOT
            | LATTICE_TOP \<Rightarrow> meet_phi f st n es acc
            | LATTICE_CONST c \<Rightarrow>
                (case acc of
                   LATTICE_CONST d \<Rightarrow> if opt_same_val d c then meet_phi f st n es acc else LATTICE_BOT
                 | _ \<Rightarrow> meet_phi f st n es (LATTICE_CONST c)))
      else meet_phi f st n es acc)"

definition same_lattice :: "lattice \<Rightarrow> lattice \<Rightarrow> bool" where
  "same_lattice a b =
     (case (a, b) of
        (LATTICE_CONST c, LATTICE_CONST d) \<Rightarrow> opt_same_val c d | _ \<Rightarrow> a = b)"

definition push_reg :: "nat \<Rightarrow> sccp_state \<Rightarrow> sccp_state" where
  "push_reg r st = (if r \<in> set (sc_ssa st) then st else st\<lparr>sc_ssa := sc_ssa st @ [r]\<rparr>)"

definition push_edge :: "nat option \<Rightarrow> nat option \<Rightarrow> sccp_state \<Rightarrow> sccp_state" where
  "push_edge b t st = (case t of Some d \<Rightarrow> st\<lparr>sc_cfg := sc_cfg st @ [(b, d)]\<rparr> | None \<Rightarrow> st)"

definition set_lat :: "nat \<Rightarrow> lattice \<Rightarrow> sccp_state \<Rightarrow> sccp_state" where
  "set_lat r l st = st\<lparr>sc_lat := (sc_lat st)[r := l]\<rparr>"

text \<open>The register an instruction gives a value to; the code does not look at the kind of the result.\<close>

definition result_id :: "sccp_state \<Rightarrow> ir_inst \<Rightarrow> nat option" where
  "result_id st i =
     (case i_result i of Some v \<Rightarrow> if v_id v < length (sc_lat st) then Some (v_id v) else None | None \<Rightarrow> None)"

definition update_phi :: "ir_function \<Rightarrow> nat \<Rightarrow> ir_inst \<Rightarrow> sccp_state \<Rightarrow> sccp_state" where
  "update_phi f b i st =
     (case result_id st i of
        None \<Rightarrow> st
      | Some r \<Rightarrow>
          (let l = meet_phi f st (bb_id (block_at f b)) (i_phis i) LATTICE_TOP
           in if same_lattice (sc_lat st ! r) l then st else push_reg r (set_lat r l st)))"

definition folded_lattice :: "fold_outcome \<Rightarrow> lattice option" where
  "folded_lattice o' = (case o' of Folded v \<Rightarrow> Some (LATTICE_CONST (Some v)) | Keep \<Rightarrow> Some LATTICE_BOT | Overflow \<Rightarrow> None)"

definition eval_pure :: "float_ops \<Rightarrow> sccp_state \<Rightarrow> ir_inst \<Rightarrow> lattice option" where
  "eval_pure fp st i =
     (let l = value_lattice (sc_lat st) (i_lhs i); r = value_lattice (sc_lat st) (i_rhs i)
      in if i_op i = IR_OP_NEG \<or> i_op i = IR_OP_NOT
         then (case l of LATTICE_CONST c \<Rightarrow> folded_lattice (eval_unary_op i c) | _ \<Rightarrow> Some l)
         else if l = LATTICE_BOT \<or> r = LATTICE_BOT then Some LATTICE_BOT
         else (case (l, r) of
                 (LATTICE_CONST c, LATTICE_CONST d) \<Rightarrow> folded_lattice (eval_binary_op fp i c d)
               | _ \<Rightarrow> Some LATTICE_TOP))"

text \<open>The target of a branch whose condition is a constant.\<close>

definition takes_true :: "ir_value option \<Rightarrow> bool" where
  "takes_true c =
     (case map_option v_kind c of Some (IR_VAL_CONST_BOOL b) \<Rightarrow> b | Some (IR_VAL_CONST_INT n) \<Rightarrow> n \<noteq> 0 | _ \<Rightarrow> False)"

definition push_targets :: "nat \<Rightarrow> lattice \<Rightarrow> ir_inst \<Rightarrow> sccp_state \<Rightarrow> sccp_state" where
  "push_targets b c i st =
     (case c of
        LATTICE_CONST v \<Rightarrow> push_edge (Some b) (if takes_true v then i_true i else i_false i) st
      | _ \<Rightarrow> push_edge (Some b) (i_false i) (push_edge (Some b) (i_true i) st))"

text \<open>The first visit of a block.\<close>

definition visit_inst :: "float_ops \<Rightarrow> ir_function \<Rightarrow> nat \<Rightarrow> ir_inst \<Rightarrow> sccp_state \<Rightarrow> sccp_state option" where
  "visit_inst fp f b i st =
     (let rid = result_id st i
      in if i_op i = IR_OP_PHI then Some (update_phi f b i st)
         else if i_op i = IR_OP_CONST \<and> rid \<noteq> None
         then Some (case sc_lat st ! the rid of
                      LATTICE_CONST c \<Rightarrow> st
                    | _ \<Rightarrow> push_reg (the rid) (set_lat (the rid) (LATTICE_CONST (i_lhs i)) st))
         else if is_pure_operation (i_op i) \<and> rid \<noteq> None
         then map_option (\<lambda>l. let st = set_lat (the rid) l st in if l \<noteq> LATTICE_TOP then push_reg (the rid) st else st) (eval_pure fp st i)
         else if i_op i = IR_OP_BR \<and> i_true i \<noteq> None then Some (push_edge (Some b) (i_true i) st)
         else if i_op i = IR_OP_CONDBR \<and> i_lhs i \<noteq> None
         then Some (push_targets b (value_lattice (sc_lat st) (i_lhs i)) i st)
         else Some (case rid of Some r \<Rightarrow> set_lat r LATTICE_BOT st | None \<Rightarrow> st))"

fun visit_insts :: "float_ops \<Rightarrow> ir_function \<Rightarrow> nat \<Rightarrow> ir_inst list \<Rightarrow> sccp_state \<Rightarrow> sccp_state option" where
  "visit_insts fp f b [] st = Some st"
| "visit_insts fp f b (i # is) st = Option.bind (visit_inst fp f b i st) (visit_insts fp f b is)"

definition take_edge :: "float_ops \<Rightarrow> ir_function \<Rightarrow> sccp_state \<Rightarrow> sccp_state option" where
  "take_edge fp f st =
     (case hd (sc_cfg st) of (p, d) \<Rightarrow>
        let n = bb_id (block_at f d); first = n \<notin> sc_blocks st;
            st = st\<lparr>sc_cfg := tl (sc_cfg st), sc_blocks := insert n (sc_blocks st),
              sc_edges := (case p of Some q \<Rightarrow> insert (bb_id (block_at f q), n) (sc_edges st) | None \<Rightarrow> sc_edges st)\<rparr>
        in if first then visit_insts fp f d (bb_insts (block_at f d)) st
           else Some (fold (update_phi f d) (takeWhile is_phi (bb_insts (block_at f d))) st))"

text \<open>The instructions that read a register whose value has changed.\<close>

definition reads_reg :: "nat \<Rightarrow> ir_value option \<Rightarrow> bool" where
  "reads_reg r v \<longleftrightarrow> (case v of Some u \<Rightarrow> v_kind u = IR_VAL_REG \<and> v_id u = r | None \<Rightarrow> False)"

definition uses_reg :: "nat \<Rightarrow> ir_inst \<Rightarrow> bool" where
  "uses_reg r i \<longleftrightarrow> list_ex (reads_reg r) (i_lhs i # i_rhs i # map Some (i_args i) @ map snd (i_phis i))"

definition revisit_inst :: "float_ops \<Rightarrow> ir_function \<Rightarrow> nat \<Rightarrow> nat \<Rightarrow> ir_inst \<Rightarrow> sccp_state \<Rightarrow> sccp_state option" where
  "revisit_inst fp f r b i st =
     (let rid = result_id st i
      in if \<not> uses_reg r i then Some st
         else if i_op i = IR_OP_PHI \<and> rid \<noteq> None then Some (update_phi f b i st)
         else if is_pure_operation (i_op i) \<and> rid \<noteq> None
         then map_option (\<lambda>l. let old = sc_lat st ! the rid; st = set_lat (the rid) l st
                              in if same_lattice l old then st else push_reg (the rid) st) (eval_pure fp st i)
         else if i_op i = IR_OP_CONDBR \<and> reads_reg r (i_lhs i)
         then Some (if sc_lat st ! r = LATTICE_TOP then st else push_targets b (sc_lat st ! r) i st)
         else Some st)"

fun revisit_insts :: "float_ops \<Rightarrow> ir_function \<Rightarrow> nat \<Rightarrow> nat \<Rightarrow> ir_inst list \<Rightarrow> sccp_state \<Rightarrow> sccp_state option" where
  "revisit_insts fp f r b [] st = Some st"
| "revisit_insts fp f r b (i # is) st = Option.bind (revisit_inst fp f r b i st) (revisit_insts fp f r b is)"

fun revisit_blocks :: "float_ops \<Rightarrow> ir_function \<Rightarrow> nat \<Rightarrow> nat list \<Rightarrow> sccp_state \<Rightarrow> sccp_state option" where
  "revisit_blocks fp f r [] st = Some st"
| "revisit_blocks fp f r (b # bs) st =
     Option.bind (if bb_id (block_at f b) \<in> sc_blocks st then revisit_insts fp f r b (bb_insts (block_at f b)) st else Some st)
       (revisit_blocks fp f r bs)"

definition take_reg :: "float_ops \<Rightarrow> ir_function \<Rightarrow> sccp_state \<Rightarrow> sccp_state option" where
  "take_reg fp f st = revisit_blocks fp f (hd (sc_ssa st)) (fn_order f) (st\<lparr>sc_ssa := tl (sc_ssa st)\<rparr>)"

text \<open>One step of the inner loops: registers are looked at once no edge is left and until none is left.\<close>

record sccp_run =
  sr_state :: "sccp_state option"
  sr_regs :: bool

definition sccp_step :: "float_ops \<Rightarrow> ir_function \<Rightarrow> sccp_run \<Rightarrow> sccp_run" where
  "sccp_step fp f s =
     (case sr_state s of
        None \<Rightarrow> s
      | Some st \<Rightarrow>
          if \<not> sr_regs s
          then (if sc_cfg st \<noteq> [] then s\<lparr>sr_state := take_edge fp f st\<rparr> else s\<lparr>sr_regs := True\<rparr>)
          else (if sc_ssa st \<noteq> [] then s\<lparr>sr_state := take_reg fp f st\<rparr> else s\<lparr>sr_regs := False\<rparr>))"

definition sccp_running :: "sccp_run \<Rightarrow> bool" where
  "sccp_running s = (case sr_state s of Some st \<Rightarrow> sc_cfg st \<noteq> [] \<or> sc_ssa st \<noteq> [] | None \<Rightarrow> False)"

definition number_blocks :: "ir_function \<Rightarrow> ir_function" where
  "number_blocks f = fold (\<lambda>(n, b). update_block b (\<lambda>bb. bb\<lparr>bb_id := n\<rparr>)) (zip [0..<length (fn_order f)] (fn_order f)) f"

definition param_lattice :: "ir_function \<Rightarrow> lattice list" where
  "param_lattice f =
     fold (\<lambda>p lat. lat[v_id (p_value p) := LATTICE_BOT]) (fn_params f) (replicate (opt_regs f) LATTICE_TOP)"

definition sccp_start :: "ir_function \<Rightarrow> sccp_state" where
  "sccp_start f = \<lparr>sc_lat = param_lattice f, sc_blocks = {}, sc_edges = {},
     sc_cfg = (case fn_entry f of Some e \<Rightarrow> [(None, e)] | None \<Rightarrow> []), sc_ssa = []\<rparr>"

definition sccp_solve :: "float_ops \<Rightarrow> ir_function \<Rightarrow> sccp_state option" where
  "sccp_solve fp f =
     Option.bind (while_option sccp_running (sccp_step fp f) \<lparr>sr_state = Some (sccp_start f), sr_regs = False\<rparr>) sr_state"

section \<open>Applying what was found\<close>

definition replace_const :: "lattice list \<Rightarrow> nat \<Rightarrow> ir_function \<times> bool \<Rightarrow> ir_function \<times> bool" where
  "replace_const lat r s =
     (case lat ! r of
        LATTICE_CONST (Some v) \<Rightarrow> (opt_replace_uses (Some (ir_val_reg (v_type v) r)) (Some v) (fst s), True)
      | _ \<Rightarrow> s)"

definition decided_branch :: "lattice list \<Rightarrow> ir_inst \<Rightarrow> ir_inst option" where
  "decided_branch lat i =
     (if i_op i = IR_OP_CONDBR
      then (case value_lattice lat (i_lhs i) of
              LATTICE_CONST (Some v) \<Rightarrow>
                Some (i\<lparr>i_op := IR_OP_BR, i_lhs := None, i_true := (if takes_true (Some v) then i_true i else i_false i), i_false := None\<rparr>)
            | _ \<Rightarrow> None)
      else None)"

definition decide_branch :: "sccp_state \<Rightarrow> nat \<Rightarrow> ir_function \<times> bool \<Rightarrow> ir_function \<times> bool" where
  "decide_branch st b = (\<lambda>(f, c).
     if bb_id (block_at f b) \<in> sc_blocks st
     then (case last_inst (block_at f b) of
             Some i \<Rightarrow> (case decided_branch (sc_lat st) i of
                 Some j \<Rightarrow> (update_block b (map_last (\<lambda>_. j)) f, True) | None \<Rightarrow> (f, c))
           | None \<Rightarrow> (f, c))
     else (f, c))"

definition drop_unreached :: "sccp_state \<Rightarrow> nat \<Rightarrow> ir_function \<times> bool \<Rightarrow> ir_function \<times> bool" where
  "drop_unreached st b = (\<lambda>(f, c).
     if bb_id (block_at f b) \<notin> sc_blocks st \<and> fn_entry f \<noteq> Some b then (remove_block_from_fn b f, True) else (f, c))"

definition live_incoming :: "ir_function \<Rightarrow> sccp_state \<Rightarrow> nat \<Rightarrow> nat \<Rightarrow> nat option \<times> ir_value option \<Rightarrow> bool" where
  "live_incoming f st nblocks b e =
     (case fst e of
        Some p \<Rightarrow> bb_id (block_at f p) < nblocks \<and> p \<in> set (bb_preds (block_at f b)) \<and>
          (bb_id (block_at f p), bb_id (block_at f b)) \<in> sc_edges st
      | None \<Rightarrow> False)"

fun prune_phis :: "sccp_state \<Rightarrow> nat \<Rightarrow> nat \<Rightarrow> nat \<Rightarrow> nat \<Rightarrow> ir_function \<times> bool \<Rightarrow> ir_function \<times> bool" where
  "prune_phis st nblocks 0 b k s = s"
| "prune_phis st nblocks (Suc n) b k (f, c) =
     (let i = inst_at f b k; es = filter (live_incoming f st nblocks b) (i_phis i)
      in if length (bb_insts (block_at f b)) \<le> k \<or> \<not> is_phi i then (f, c)
         else if length es = 1 \<and> i_result i \<noteq> None
         then prune_phis st nblocks n b k (remove_at b k (opt_replace_uses (i_result i) (snd (hd es)) f), True)
         else if es = [] \<and> i_result i \<noteq> None then prune_phis st nblocks n b k (remove_at b k f, True)
         else prune_phis st nblocks n b (Suc k)
           (update_block b (\<lambda>bb. bb\<lparr>bb_insts := (bb_insts bb)[k := i\<lparr>i_phis := es\<rparr>]\<rparr>) f, c))"

definition prune_block :: "sccp_state \<Rightarrow> nat \<Rightarrow> nat \<Rightarrow> ir_function \<times> bool \<Rightarrow> ir_function \<times> bool" where
  "prune_block st nblocks b s = prune_phis st nblocks (length (bb_insts (block_at (fst s) b))) b 0 s"

definition sccp_apply :: "sccp_state \<Rightarrow> ir_function \<Rightarrow> ir_function \<times> bool" where
  "sccp_apply st f =
     (let nblocks = length (fn_order f);
          s = fold (replace_const (sc_lat st)) [0..<length (sc_lat st)] (f, False);
          s = fold (decide_branch st) (fn_order f) s;
          s = fold (drop_unreached st) (fn_order f) s;
          f = ir_recompute_cfg (fst s);
          s = fold (prune_block st nblocks) (fn_order f) (f, snd s)
      in (ir_recompute_cfg (fst s), snd s))"

definition ir_ssa_sccp :: "float_ops \<Rightarrow> ir_function \<Rightarrow> (ir_function \<times> bool) option" where
  "ir_ssa_sccp fp f =
     (let f = number_blocks (ir_recompute_cfg f) in map_option (\<lambda>st. sccp_apply st f) (sccp_solve fp f))"

section \<open>Value numbering\<close>

record gvn_entry =
  gv_op :: ir_opcode
  gv_type :: ir_type_kind
  gv_lhs :: int
  gv_rhs :: int
  gv_int :: u64
  gv_float :: u64
  gv_bool :: bool
  gv_leader :: ir_value

definition operand_number :: "ir_value option \<Rightarrow> int" where
  "operand_number v =
     (case v of
        None \<Rightarrow> - 1
      | Some u \<Rightarrow> if v_kind u = IR_VAL_REG then int (v_id u) else if v_kind u = IR_VAL_PARAM then - (int (v_id u) + 10) else - 1)"

definition note_literal :: "ir_value option \<Rightarrow> gvn_entry \<Rightarrow> gvn_entry" where
  "note_literal v e =
     (case map_option v_kind v of
        Some (IR_VAL_CONST_INT n) \<Rightarrow> e\<lparr>gv_int := n\<rparr>
      | Some (IR_VAL_CONST_FLOAT x) \<Rightarrow> e\<lparr>gv_float := x\<rparr>
      | Some (IR_VAL_CONST_BOOL b) \<Rightarrow> e\<lparr>gv_bool := b\<rparr>
      | _ \<Rightarrow> e)"

text \<open>The key of an instruction, with its result as the leader.\<close>

definition gvn_key :: "ir_inst \<Rightarrow> ir_value \<Rightarrow> gvn_entry" where
  "gvn_key i r =
     (let l = operand_number (i_lhs i); m = operand_number (i_rhs i);
          swap = is_commutative (i_op i) \<and> l \<noteq> - 1 \<and> m \<noteq> - 1 \<and> l > m
      in note_literal (i_rhs i) (note_literal (i_lhs i)
           \<lparr>gv_op = i_op i, gv_type = ir_kind (i_type i), gv_lhs = (if swap then m else l), gv_rhs = (if swap then l else m),
            gv_int = 0, gv_float = 0, gv_bool = False, gv_leader = r\<rparr>))"

definition same_key :: "gvn_entry \<Rightarrow> gvn_entry \<Rightarrow> bool" where
  "same_key k e \<longleftrightarrow> gv_op e = gv_op k \<and> gv_type e = gv_type k \<and> gv_lhs e = gv_lhs k \<and> gv_rhs e = gv_rhs k \<and>
     gv_int e = gv_int k \<and> f64_eq (gv_float e) (gv_float k) \<and> gv_bool e = gv_bool k"

text \<open>The scopes as one list, innermost first.\<close>

definition lookup_gvn :: "gvn_entry list \<Rightarrow> gvn_entry \<Rightarrow> gvn_entry option" where
  "lookup_gvn es k = List.find (same_key k) es"

record gvn_state =
  gs_fn :: ir_function
  gs_entries :: "gvn_entry list"
  gs_changed :: bool

text \<open>One instruction; the result tells whether it was removed.\<close>

definition gvn_inst :: "nat \<Rightarrow> nat \<Rightarrow> gvn_state \<Rightarrow> gvn_state \<times> bool" where
  "gvn_inst b k st =
     (let i = inst_at (gs_fn st) b k
      in case i_result i of
           Some r \<Rightarrow>
             if is_pure_operation (i_op i) \<and> v_kind r = IR_VAL_REG
             then (case lookup_gvn (gs_entries st) (gvn_key i r) of
                     Some e \<Rightarrow>
                       (st\<lparr>gs_fn := remove_at b k (opt_replace_uses (Some r) (Some (gv_leader e)) (gs_fn st)), gs_changed := True\<rparr>, True)
                   | None \<Rightarrow> (st\<lparr>gs_entries := gvn_key i r # gs_entries st\<rparr>, False))
             else (st, False)
         | None \<Rightarrow> (st, False))"

fun gvn_insts :: "nat \<Rightarrow> nat \<Rightarrow> nat \<Rightarrow> gvn_state \<Rightarrow> gvn_state" where
  "gvn_insts 0 b k st = st"
| "gvn_insts (Suc n) b k st = (case gvn_inst b k st of (st, removed) \<Rightarrow> gvn_insts n b (if removed then k else Suc k) st)"

text \<open>The recursion over the dominator tree, with a bound on its depth; entries are forgotten on the way up.\<close>

fun gvn_walk_dom_tree :: "nat \<Rightarrow> dom_info \<Rightarrow> nat \<Rightarrow> gvn_state \<Rightarrow> gvn_state option" where
  "gvn_walk_dom_tree 0 di n st = None"
| "gvn_walk_dom_tree (Suc d) di n st =
     (let node = di_nodes di ! n; b = dn_block node;
          st' = gvn_insts (length (bb_insts (block_at (gs_fn st) b))) b 0 st
      in map_option (\<lambda>s. s\<lparr>gs_entries := gs_entries st\<rparr>)
           (fold (\<lambda>c acc. Option.bind acc (gvn_walk_dom_tree d di c)) (dn_children node) (Some st')))"

text \<open>\<open>Some None\<close>: there is no dominator tree.\<close>

definition ir_ssa_gvn_cse :: "ir_function \<Rightarrow> (ir_function \<times> bool) option option" where
  "ir_ssa_gvn_cse f =
     (let f = ir_recompute_cfg f
      in Option.bind (ir_dominance_compute f) (\<lambda>r.
           case r of
             None \<Rightarrow> Some None
           | Some di \<Rightarrow> map_option (\<lambda>st. Some (gs_fn st, gs_changed st))
               (gvn_walk_dom_tree (length (di_nodes di) + 1) di (di_root di) \<lparr>gs_fn = f, gs_entries = [], gs_changed = False\<rparr>)))"

section \<open>Loop-invariant code\<close>

definition invariant_operand :: "bool list \<Rightarrow> ir_value option \<Rightarrow> bool" where
  "invariant_operand marks v \<longleftrightarrow> (is_reg (length marks) v \<longrightarrow> marks ! v_id (the v))"

definition zero_divisor :: "ir_value \<Rightarrow> bool" where
  "zero_divisor v = (case v_kind v of IR_VAL_CONST_INT n \<Rightarrow> n = 0 | IR_VAL_CONST_FLOAT x \<Rightarrow> f64_eq x 0 | _ \<Rightarrow> False)"

definition is_instruction_invariant :: "bool list \<Rightarrow> ir_inst \<Rightarrow> bool" where
  "is_instruction_invariant marks i \<longleftrightarrow> is_pure_operation (i_op i) \<and> i_result i \<noteq> None \<and>
     (i_op i = IR_OP_DIV \<or> i_op i = IR_OP_MOD \<longrightarrow> (case i_rhs i of Some v \<Rightarrow> \<not> zero_divisor v | None \<Rightarrow> False)) \<and>
     invariant_operand marks (i_lhs i) \<and> invariant_operand marks (i_rhs i)"

definition mark_result :: "ir_inst \<Rightarrow> bool list \<Rightarrow> bool list" where
  "mark_result i marks = (if is_reg (length marks) (i_result i) then marks[v_id (the (i_result i)) := True] else marks)"

text \<open>The registers defined outside of the loop and those that have the number of a parameter.\<close>

definition outside_invariants :: "ir_function \<Rightarrow> ir_loop \<Rightarrow> nat \<Rightarrow> bool list" where
  "outside_invariants f l n =
     fold (\<lambda>p marks. marks[v_id (p_value p) := True]) (fn_params f)
       (fold mark_result (concat (map (\<lambda>b. bb_insts (block_at f b)) (filter (\<lambda>b. \<not> ir_loop_contains l b) (fn_order f))))
          (replicate n False))"

definition mark_invariant :: "ir_inst \<Rightarrow> bool list \<times> bool \<Rightarrow> bool list \<times> bool" where
  "mark_invariant i = (\<lambda>(marks, found).
     if is_reg (length marks) (i_result i) \<and> \<not> marks ! v_id (the (i_result i)) \<and> is_instruction_invariant marks i
     then (mark_result i marks, True) else (marks, found))"

definition loop_insts :: "ir_function \<Rightarrow> ir_loop \<Rightarrow> ir_inst list" where
  "loop_insts f l = concat (map (\<lambda>b. bb_insts (block_at f b)) (lp_blocks l))"

definition invariant_registers :: "ir_function \<Rightarrow> ir_loop \<Rightarrow> nat \<Rightarrow> bool list option" where
  "invariant_registers f l n = map_option fst
     (while_option snd (\<lambda>(marks, found). fold mark_invariant (loop_insts f l) (marks, False)) (outside_invariants f l n, True))"

definition hoistable :: "bool list \<Rightarrow> ir_inst \<Rightarrow> bool" where
  "hoistable marks i \<longleftrightarrow> is_reg (length marks) (i_result i) \<and> marks ! v_id (the (i_result i))"

text \<open>In the order of the blocks of the loop, the instructions move in front of the terminator of the preheader.\<close>

definition hoist :: "bool list \<Rightarrow> ir_loop \<Rightarrow> ir_function \<Rightarrow> nat \<Rightarrow> ir_function" where
  "hoist marks l f x =
     (let out = filter (hoistable marks) (loop_insts f l);
          f = fold (\<lambda>b. update_block b (\<lambda>bb. bb\<lparr>bb_insts := filter (\<lambda>i. \<not> hoistable marks i) (bb_insts bb)\<rparr>)) (lp_blocks l) f
      in update_block x (\<lambda>bb. bb\<lparr>bb_insts :=
           (if bb_insts bb = [] then tl out @ take 1 out else butlast (bb_insts bb) @ out @ [last (bb_insts bb)])\<rparr>) f)"

definition licm_loop :: "nat \<Rightarrow> ir_loop \<Rightarrow> ir_function \<times> bool \<Rightarrow> (ir_function \<times> bool) option" where
  "licm_loop n l = (\<lambda>(f, c).
     map_option (\<lambda>marks.
       if list_ex (hoistable marks) (loop_insts f l)
       then (case ir_loop_get_or_create_preheader f l of (g, x) \<Rightarrow> (hoist marks l g x, True)) else (f, c))
     (invariant_registers f l n))"

fun licm_loops :: "nat \<Rightarrow> ir_loop list \<Rightarrow> ir_function \<times> bool \<Rightarrow> (ir_function \<times> bool) option" where
  "licm_loops n [] s = Some s"
| "licm_loops n (l # ls) s = Option.bind (licm_loop n l s) (licm_loops n ls)"

definition ir_ssa_licm :: "ir_function \<Rightarrow> loop_info \<Rightarrow> (ir_function \<times> bool) option" where
  "ir_ssa_licm f info = licm_loops (opt_regs f) (li_loops info) (f, False)"

section \<open>Dead code\<close>

definition opt_use_count :: "nat \<Rightarrow> ir_function \<Rightarrow> nat \<Rightarrow> nat" where
  "opt_use_count bound f n = count_if (\<lambda>v. is_reg bound v \<and> v_id (the v) = n)
     (concat (map (\<lambda>i. i_lhs i # i_rhs i # map Some (i_args i) @ map snd (i_phis i)) (fn_insts f)))"

definition opt_dead :: "nat \<Rightarrow> ir_function \<Rightarrow> ir_inst \<Rightarrow> bool" where
  "opt_dead bound f i \<longleftrightarrow> is_reg bound (i_result i) \<and> opt_use_count bound f (v_id (the (i_result i))) = 0 \<and>
     (is_pure_operation (i_op i) \<or> is_phi i)"

definition ssa_dce_round :: "ir_function \<times> bool \<times> bool \<Rightarrow> ir_function \<times> bool \<times> bool" where
  "ssa_dce_round = (\<lambda>(f, _, any).
     let dead = opt_dead (opt_regs f) f; found = list_ex dead (fn_insts f)
     in (fold (\<lambda>b. update_block b (\<lambda>bb. bb\<lparr>bb_insts := filter (\<lambda>i. \<not> dead i) (bb_insts bb)\<rparr>)) (fn_order f) f, found, any \<or> found))"

definition ir_ssa_dce :: "ir_function \<Rightarrow> (ir_function \<times> bool) option" where
  "ir_ssa_dce f = map_option (\<lambda>(f, _, any). (f, any)) (while_option (\<lambda>(_, again, _). again) ssa_dce_round (f, True, False))"

section \<open>Branches\<close>

definition same_targets :: "ir_inst \<Rightarrow> bool" where
  "same_targets i \<longleftrightarrow> i_op i = IR_OP_CONDBR \<and> i_true i = i_false i \<and> i_true i \<noteq> None"

definition plain_branch :: "ir_inst \<Rightarrow> ir_inst" where
  "plain_branch i = (if same_targets i then i\<lparr>i_op := IR_OP_BR, i_lhs := None, i_false := None\<rparr> else i)"

definition ir_ssa_cfg_simplify :: "ir_function \<Rightarrow> ir_function \<times> bool" where
  "ir_ssa_cfg_simplify f =
     (let f = ir_recompute_cfg f;
          c = list_ex (\<lambda>b. case last_inst (block_at f b) of Some i \<Rightarrow> same_targets i | None \<Rightarrow> False) (fn_order f)
      in (ir_recompute_cfg (fold (\<lambda>b. update_block b (map_last plain_branch)) (fn_order f) f), c))"

section \<open>The driver\<close>

record ssa_options =
  so_optimize :: bool
  so_verify :: bool

text \<open>\<open>Inl\<close> is a failure, with the message if there is one.\<close>

definition opt_verified :: "bool \<Rightarrow> ir_function \<Rightarrow> (string option + ir_function) option" where
  "opt_verified verify f =
     (if verify then map_option (\<lambda>e. case e of Some msg \<Rightarrow> Inl (Some msg) | None \<Rightarrow> Inr f) (ir_ssa_verify_function f None) else Some (Inr f))"

text \<open>A pass and the verifier after it, unless something failed before.\<close>

definition then_pass :: "bool \<Rightarrow> (ir_function \<Rightarrow> (string option + ir_function) option) \<Rightarrow>
    (string option + ir_function) option \<Rightarrow> (string option + ir_function) option" where
  "then_pass verify pass r =
     Option.bind r (\<lambda>s. case s of
        Inl e \<Rightarrow> Some (Inl e)
      | Inr f \<Rightarrow> Option.bind (pass f) (\<lambda>s. case s of Inl e \<Rightarrow> Some (Inl e) | Inr f \<Rightarrow> opt_verified verify f))"

definition gvn_pass :: "ir_function \<Rightarrow> (string option + ir_function) option" where
  "gvn_pass f = map_option (\<lambda>r. case r of Some (g, _) \<Rightarrow> Inr g | None \<Rightarrow> Inl None) (ir_ssa_gvn_cse f)"

definition licm_pass :: "ir_function \<Rightarrow> (string option + ir_function) option" where
  "licm_pass f =
     Option.bind (ir_dominance_compute f) (\<lambda>r.
       case r of
         None \<Rightarrow> Some (Inr f)
       | Some di \<Rightarrow> Option.bind (ir_loop_analysis_compute f di) (\<lambda>info. map_option (\<lambda>s. Inr (fst s)) (ir_ssa_licm f info)))"

definition ir_ssa_advanced_optimize_function ::
  "float_ops \<Rightarrow> bool \<Rightarrow> ir_function \<Rightarrow> (string option + ir_function) option" where
  "ir_ssa_advanced_optimize_function fp verify f =
     (let simplify = (\<lambda>f. Some (Inr (fst (ir_ssa_cfg_simplify f)))); dce = (\<lambda>f. map_option (\<lambda>s. Inr (fst s)) (ir_ssa_dce f))
      in then_pass verify simplify (then_pass verify dce (then_pass verify licm_pass (then_pass verify dce
           (then_pass verify gvn_pass (then_pass verify simplify
             (then_pass verify (\<lambda>f. map_option (\<lambda>s. Inr (fst s)) (ir_ssa_sccp fp f)) (Some (Inr f)))))))))"

fun each_optimized :: "(ir_function \<Rightarrow> (string option + ir_function) option) \<Rightarrow> ir_function list \<Rightarrow>
    (string option + ir_function list) option" where
  "each_optimized g [] = Some (Inr [])"
| "each_optimized g (f # fs) =
     Option.bind (g f) (\<lambda>r. case r of
        Inl e \<Rightarrow> Some (Inl e)
      | Inr f \<Rightarrow> map_option (map_sum id (\<lambda>fs. f # fs)) (each_optimized g fs))"

definition ir_ssa_advanced_optimize_module ::
  "float_ops \<Rightarrow> bool \<Rightarrow> ir_module \<Rightarrow> (string option + ir_module) option" where
  "ir_ssa_advanced_optimize_module fp verify m =
     map_option (map_sum id (\<lambda>fs. m\<lparr>m_functions := fs\<rparr>))
       (each_optimized (ir_ssa_advanced_optimize_function fp verify) (m_functions m))"

section \<open>The pipeline of a function\<close>

text \<open>Without options the function is only brought to SSA form and back.\<close>

definition ir_ssa_pipeline_function ::
  "float_ops \<Rightarrow> ssa_options option \<Rightarrow> ir_module option \<Rightarrow> ir_function \<Rightarrow> (string option + ir_function) option" where
  "ir_ssa_pipeline_function fp opts m f =
     (let optimize = (case opts of Some opt \<Rightarrow> so_optimize opt | None \<Rightarrow> False);
          verify = (case opts of Some opt \<Rightarrow> so_verify opt | None \<Rightarrow> False);
          construct = (\<lambda>f. map_option (map_sum Some fst) (ir_ssa_construct_function f));
          advanced = (if optimize then ir_ssa_advanced_optimize_function fp verify else (\<lambda>f. Some (Inr f)));
          destruct = (\<lambda>f. map_option (map_sum Some fst) (ir_ssa_deconstruct_function m f))
      in then_pass False destruct (then_pass verify advanced (then_pass False construct (Some (Inr f)))))"

end
