(* ===== verification/Ir_Ssa_Copies.thy ===== *)
theory Ir_Ssa_Copies
  imports Ir_Ssa Ir_Simulation Ir_Opt_Demo
begin

text \<open>
  The copies for phis are meant to happen at once. The sequence that replaces them does the same:
  a copy whose destination nobody reads any more is safe, and when there is none, all that is left
  are cycles, and saving one source in a new register opens one of them.
\<close>

section \<open>Sources and destinations\<close>

definition reg_src :: "ir_value option \<Rightarrow> nat option" where
  "reg_src v = (case v of Some u \<Rightarrow> if v_kind u = IR_VAL_REG then Some (v_id u) else None | None \<Rightarrow> None)"

definition dst_id :: "ir_value \<times> ir_value option \<Rightarrow> nat" where
  "dst_id c = v_id (fst c)"

text \<open>Destinations are different registers below the first bound, sources read registers below the second.\<close>

definition copies_ok :: "nat \<Rightarrow> nat \<Rightarrow> copies \<Rightarrow> bool" where
  "copies_ok n0 n cs \<longleftrightarrow> n0 \<le> n \<and> distinct (map dst_id cs) \<and>
     list_all (\<lambda>c. v_kind (fst c) = IR_VAL_REG \<and> dst_id c < n0 \<and> (case reg_src (snd c) of Some k \<Rightarrow> k < n | None \<Rightarrow> True)) cs"

lemma copies_okD:
  assumes "copies_ok n0 n cs"
  shows "n0 \<le> n" and "distinct (map dst_id cs)"
    and "c \<in> set cs \<Longrightarrow> v_kind (fst c) = IR_VAL_REG" and "c \<in> set cs \<Longrightarrow> dst_id c < n0"
    and "c \<in> set cs \<Longrightarrow> reg_src (snd c) = Some k \<Longrightarrow> k < n"
  using assms by (auto simp: copies_ok_def list_all_iff)

lemma same_val_reg: "v_kind d = IR_VAL_REG \<Longrightarrow> same_val v (Some d) \<longleftrightarrow> reg_src v = Some (v_id d)"
  by (auto simp: same_val_def reg_src_def split: option.splits ir_value_kind.splits)

lemma eval_src_upd: "reg_src v \<noteq> Some n \<Longrightarrow> eval_operand w (r(n := x)) v = eval_operand w r v"
  by (auto simp: eval_operand_def eval_value_def reg_src_def split: option.splits ir_value_kind.splits)

lemma assigned_src_upd: "reg_src v \<noteq> Some n \<Longrightarrow> assigned w (r(n := x)) ty v = assigned w r ty v"
  by (simp add: assigned_def eval_src_upd)

lemma assigned_defined: "(\<exists>x. assigned w r ty v = Some x) \<longleftrightarrow> (\<exists>x. eval_operand w r v = Some x)"
  by (simp add: assigned_def)

lemma assigned_reg_src: "reg_src v \<noteq> None \<Longrightarrow> assigned w r ty v = eval_operand w r v"
  by (auto simp: assigned_def literal_operand_def reg_src_def is_literal_def option.map_id split: option.splits ir_value_kind.splits)

section \<open>What straight-line copies do\<close>

fun run_copies :: "'m world \<Rightarrow> ir_inst list \<Rightarrow> regs \<Rightarrow> regs option" where
  "run_copies w [] r = Some r"
| "run_copies w (i # is) r =
     (case i_result i of
        Some d \<Rightarrow> Option.bind (assigned w r (v_type d) (i_lhs i)) (\<lambda>x. run_copies w is (r(v_id d := Some x)))
      | None \<Rightarrow> None)"

lemma run_copies_append: "run_copies w (is @ js) r = Option.bind (run_copies w is r) (run_copies w js)"
  by (induction "is" arbitrary: r) (auto split: option.split)

definition is_copy :: "ir_inst \<Rightarrow> bool" where
  "is_copy i \<longleftrightarrow> i_op i = IR_OP_CONST \<and> (case i_result i of Some d \<Rightarrow> v_kind d = IR_VAL_REG | None \<Rightarrow> False)"

lemma exec_copies:
  assumes "list_all is_copy is" and "run_copies w is r = Some r'"
  shows "exec_insts w (is @ rest) r m = exec_insts w rest r' m"
  using assms
proof (induction "is" arbitrary: r)
  case (Cons i "is")
  obtain d where d: "i_result i = Some d" "v_kind d = IR_VAL_REG" "i_op i = IR_OP_CONST"
    using Cons.prems(1) by (auto simp: is_copy_def split: option.splits)
  obtain x where x: "assigned w r (v_type d) (i_lhs i) = Some x" "run_copies w is (r(v_id d := Some x)) = Some r'"
    using Cons.prems(2) d by (auto split: bind_splits)
  have "step w i r m = Some (Next (r(v_id d := Some x)) m)"
    using d x by (simp add: step_def has_effect_def pure_value_def set_result_def result_type_def)
  then show ?case using Cons.IH [OF _ x(2)] Cons.prems(1) by (simp add: fun_upd_def)
qed simp

section \<open>The loop\<close>

text \<open>The registers after all copies at once.\<close>

definition parallel_result :: "'m world \<Rightarrow> copies \<Rightarrow> regs \<Rightarrow> regs" where
  "parallel_result w cs r k =
     (case List.find (\<lambda>c. dst_id c = k) cs of Some c \<Rightarrow> assigned w r (v_type (fst c)) (snd c) | None \<Rightarrow> r k)"

definition copies_inv :: "'m world \<Rightarrow> nat \<Rightarrow> regs \<Rightarrow> regs \<Rightarrow> copies \<times> nat \<times> ir_inst list \<Rightarrow> bool" where
  "copies_inv w n0 r0 final = (\<lambda>(cs, n, is).
     copies_ok n0 n cs \<and> list_all is_copy is \<and>
     (\<exists>r. run_copies w is r0 = Some r \<and>
        (\<forall>c \<in> set cs. assigned w r (v_type (fst c)) (snd c) = final (dst_id c) \<and> final (dst_id c) \<noteq> None) \<and>
        (\<forall>k < n0. k \<notin> dst_id ` set cs \<longrightarrow> r k = final k)))"

lemma is_blocked_iff:
  assumes "copies_ok n0 n cs" and "i < length cs"
  shows "is_blocked cs i \<longleftrightarrow> (\<exists>j < length cs. j \<noteq> i \<and> reg_src (snd (cs ! j)) = Some (dst_id (cs ! i)))"
proof -
  have "v_kind (fst (cs ! i)) = IR_VAL_REG" using copies_okD(3) [OF assms(1)] assms(2) by simp
  then show ?thesis by (auto simp: is_blocked_def list_ex_iff same_val_reg dst_id_def)
qed

lemma distinct_middle:
  assumes "distinct (map g (xs @ x # ys))"
  shows "c \<in> set (xs @ ys) \<longleftrightarrow> c \<in> set (xs @ x # ys) \<and> g c \<noteq> g x"
proof -
  have "g x \<notin> g ` set (xs @ ys)" using assms by auto
  then have "c \<in> set (xs @ ys) \<Longrightarrow> g c \<noteq> g x" by (metis imageI)
  then show ?thesis by auto
qed

lemma remove_nth_set:
  assumes "i < length cs" and "distinct (map dst_id cs)"
  shows "c \<in> set (take i cs @ drop (Suc i) cs) \<longleftrightarrow> c \<in> set cs \<and> dst_id c \<noteq> dst_id (cs ! i)"
    and "distinct (map dst_id (take i cs @ drop (Suc i) cs))"
proof -
  obtain xs ys where s: "cs = xs @ cs ! i # ys" "take i cs = xs" "drop (Suc i) cs = ys"
    using id_take_nth_drop [OF assms(1)] by blast
  have d: "distinct (map dst_id (xs @ cs ! i # ys))" using assms(2) s(1) by simp
  note m = distinct_middle [OF d, of c]
  show "c \<in> set (take i cs @ drop (Suc i) cs) \<longleftrightarrow> c \<in> set cs \<and> dst_id c \<noteq> dst_id (cs ! i)"
    unfolding s(2,3) m using s(1) by metis
  show "distinct (map dst_id (take i cs @ drop (Suc i) cs))" unfolding s(2,3) using d by simp
qed

lemma copies_ok_remove:
  assumes "copies_ok n0 n cs" and "i < length cs"
  shows "copies_ok n0 n (take i cs @ drop (Suc i) cs)"
  using assms remove_nth_set(2) [OF assms(2) copies_okD(2) [OF assms(1)]]
  by (auto simp: copies_ok_def list_all_iff dest: in_set_takeD in_set_dropD)

lemma parallel_result_dst:
  assumes "distinct (map dst_id cs)" and "c \<in> set cs"
  shows "parallel_result w cs r (dst_id c) = assigned w r (v_type (fst c)) (snd c)"
  using assms by (induction cs) (force simp: parallel_result_def)+

lemma parallel_result_other: "k \<notin> dst_id ` set cs \<Longrightarrow> parallel_result w cs r k = r k"
  by (auto simp: parallel_result_def split: option.split dest: find_SomeD)

text \<open>Emitting a copy that blocks nothing.\<close>

lemma emit_inv:
  assumes inv: "copies_inv w n0 r0 final (cs, n, is)" and i: "i < length cs" "\<not> is_blocked cs i"
  shows "copies_inv w n0 r0 final (take i cs @ drop (Suc i) cs, n, is @ [copy_inst (fst (cs ! i)) (snd (cs ! i))])"
proof -
  let ?c = "cs ! i" and ?cs = "take i cs @ drop (Suc i) cs"
  obtain r where ok: "copies_ok n0 n cs" "list_all is_copy is" and r: "run_copies w is r0 = Some r"
      "\<And>c. c \<in> set cs \<Longrightarrow> assigned w r (v_type (fst c)) (snd c) = final (dst_id c) \<and> final (dst_id c) \<noteq> None"
      "\<And>k. k < n0 \<Longrightarrow> k \<notin> dst_id ` set cs \<Longrightarrow> r k = final k"
    using inv by (auto simp: copies_inv_def)
  have c: "?c \<in> set cs" using i(1) by simp
  note rem = remove_nth_set(1) [OF i(1) copies_okD(2) [OF ok(1)]]
  obtain x where x: "assigned w r (v_type (fst ?c)) (snd ?c) = Some x" "final (dst_id ?c) = Some x" using r(2) [OF c] by auto
  let ?r = "r(dst_id ?c := Some x)"
  have "run_copies w (is @ [copy_inst (fst ?c) (snd ?c)]) r0 = Some ?r"
    using r(1) x by (simp add: run_copies_append copy_inst_def create_instruction_def dst_id_def)
  moreover have "assigned w ?r (v_type (fst d)) (snd d) = final (dst_id d) \<and> final (dst_id d) \<noteq> None" if d: "d \<in> set ?cs" for d
  proof -
    have d': "d \<in> set cs" "dst_id d \<noteq> dst_id ?c" using rem [of d] d by simp_all
    then obtain j where j: "j < length cs" "d = cs ! j" "j \<noteq> i" by (auto simp: in_set_conv_nth)
    then have "reg_src (snd d) \<noteq> Some (dst_id ?c)" using i(2) is_blocked_iff [OF ok(1) i(1)] by auto
    then show ?thesis using r(2) [OF d'(1)] by (simp add: assigned_src_upd)
  qed
  moreover have "?r k = final k" if "k < n0" "k \<notin> dst_id ` set ?cs" for k
  proof (cases "k = dst_id ?c")
    case False
    then have "k \<notin> dst_id ` set cs" using that(2) rem by auto
    then show ?thesis using r(3) that(1) False by simp
  qed (use x in simp)
  moreover have "is_copy (copy_inst (fst ?c) (snd ?c))"
    using copies_okD(3) [OF ok(1) c] by (simp add: is_copy_def copy_inst_def create_instruction_def)
  ultimately show ?thesis using copies_ok_remove [OF ok(1) i(1)] ok(2) unfolding copies_inv_def by auto
qed

text \<open>Saving the source of the first copy.\<close>

lemma save_inv:
  assumes inv: "copies_inv w n0 r0 final (c # cs, n, is)" and src: "reg_src (snd c) \<noteq> None"
  defines "tmp \<equiv> ir_val_reg (value_type (snd c)) n"
  shows "copies_inv w n0 r0 final ((fst c, Some tmp) # cs, n + 1, is @ [copy_inst tmp (snd c)])"
proof -
  obtain r where ok: "copies_ok n0 n (c # cs)" "list_all is_copy is" and r: "run_copies w is r0 = Some r"
      "\<And>d. d \<in> set (c # cs) \<Longrightarrow> assigned w r (v_type (fst d)) (snd d) = final (dst_id d) \<and> final (dst_id d) \<noteq> None"
      "\<And>k. k < n0 \<Longrightarrow> k \<notin> dst_id ` set (c # cs) \<Longrightarrow> r k = final k"
    using inv unfolding copies_inv_def prod.case by metis
  obtain x where x: "eval_operand w r (snd c) = Some x" "final (dst_id c) = Some x"
    using r(2) [of c] by (auto simp: assigned_reg_src [OF src])
  let ?r = "r(n := Some x)"
  have t: "v_kind tmp = IR_VAL_REG" "v_id tmp = n" by (simp_all add: tmp_def ir_val_reg_def)
  have "run_copies w (is @ [copy_inst tmp (snd c)]) r0 = Some ?r"
    using r(1) x t by (simp add: run_copies_append copy_inst_def create_instruction_def assigned_reg_src [OF src])
  moreover have "assigned w ?r (v_type (fst d)) (snd d) = final (dst_id d) \<and> final (dst_id d) \<noteq> None" if "d \<in> set cs" for d
  proof -
    have "reg_src (snd d) \<noteq> Some n" using copies_okD(5) [OF ok(1), of d n] that by auto
    then show ?thesis using r(2) [of d] that by (simp add: assigned_src_upd)
  qed
  moreover have "assigned w ?r ty (Some tmp) = Some x" for ty
    using t by (simp add: assigned_def literal_operand_def is_literal_def eval_operand_def eval_value_def)
  moreover have "?r k = final k" if "k < n0" "k \<notin> dst_id ` set ((fst c, Some tmp) # cs)" for k
    using that r(3) copies_okD(1) [OF ok(1)] by (auto simp: dst_id_def)
  moreover have "is_copy (copy_inst tmp (snd c))" using t by (simp add: is_copy_def copy_inst_def create_instruction_def)
  moreover have "copies_ok n0 (n + 1) ((fst c, Some tmp) # cs)"
    using ok(1) t by (auto simp: copies_ok_def list_all_iff dst_id_def reg_src_def split: option.splits)
  ultimately show ?thesis using ok(2) x unfolding copies_inv_def by (auto simp: dst_id_def)
qed

text \<open>The loop ends: when every destination is still read, every source is a destination.\<close>

definition reads_dst :: "copies \<Rightarrow> ir_value \<times> ir_value option \<Rightarrow> bool" where
  "reads_dst cs c \<longleftrightarrow> (case reg_src (snd c) of Some k \<Rightarrow> k \<in> dst_id ` set cs | None \<Rightarrow> False)"

definition pending :: "copies \<Rightarrow> nat" where
  "pending cs = length cs + count_if (reads_dst cs) cs"

lemma all_blocked:
  assumes ok: "copies_ok n0 n cs" and blocked: "\<And>i. i < length cs \<Longrightarrow> is_blocked cs i"
  shows "\<forall>c \<in> set cs. reads_dst cs c"
proof -
  let ?h = "filter (reads_dst cs) cs" and ?D = "dst_id ` set cs"
  have "?D \<subseteq> (\<lambda>c. the (reg_src (snd c))) ` set ?h"
  proof
    fix k
    assume "k \<in> ?D"
    then obtain i where i: "i < length cs" "k = dst_id (cs ! i)" by (auto simp: in_set_conv_nth)
    then obtain j where j: "j < length cs" "reg_src (snd (cs ! j)) = Some k"
      using blocked is_blocked_iff [OF ok i(1)] by blast
    then have "cs ! j \<in> set ?h" using i by (auto simp: reads_dst_def)
    then show "k \<in> (\<lambda>c. the (reg_src (snd c))) ` set ?h" using j(2) by (metis image_eqI option.sel)
  qed
  then have "card ?D \<le> card (set ?h)" by (metis List.finite_set card_image_le card_mono finite_imageI order_trans)
  moreover have "card ?D = length cs" using copies_okD(2) [OF ok] by (metis distinct_card length_map list.set_map)
  moreover have "card (set ?h) \<le> length ?h" by (rule card_length)
  ultimately have "length cs \<le> length ?h" by simp
  moreover have "length ?h < length cs" if "c \<in> set cs" "\<not> reads_dst cs c" for c using that by (rule length_filter_less)
  ultimately show ?thesis by (metis leD)
qed

lemma count_if_mono_pred: "(\<And>x. x \<in> set xs \<Longrightarrow> P x \<Longrightarrow> Q x) \<Longrightarrow> count_if P xs \<le> count_if Q xs"
  by (induction xs) auto

lemma pending_remove:
  assumes "i < length cs"
  shows "pending (take i cs @ drop (Suc i) cs) < pending cs"
proof -
  obtain xs ys where s: "cs = xs @ cs ! i # ys" "take i cs = xs" "drop (Suc i) cs = ys"
    using id_take_nth_drop [OF assms] by blast
  have "reads_dst (xs @ ys) c \<Longrightarrow> reads_dst cs c" for c
    using arg_cong [OF s(1), of set] by (auto simp: reads_dst_def split: option.splits)
  then have "count_if (reads_dst (xs @ ys)) (xs @ ys) \<le> count_if (reads_dst cs) (xs @ ys)" by (rule count_if_mono_pred)
  moreover have "count_if (reads_dst cs) (xs @ ys) \<le> count_if (reads_dst cs) cs"
    by (subst (2) s(1)) simp
  moreover have "length cs = length xs + length ys + 1" using arg_cong [OF s(1), of length] by simp
  ultimately show ?thesis unfolding s(2,3) pending_def by simp
qed

lemma pending_save:
  assumes ok: "copies_ok n0 n (c # cs)" and c: "reads_dst (c # cs) c" and tmp: "v_kind tmp = IR_VAL_REG" "v_id tmp = n"
  shows "pending ((fst c, Some tmp) # cs) < pending (c # cs)"
proof -
  let ?cs = "(fst c, Some tmp) # cs"
  have d: "dst_id ` set ?cs = dst_id ` set (c # cs)" by (simp add: dst_id_def)
  have same: "reads_dst ?cs = reads_dst (c # cs)" unfolding reads_dst_def d by simp
  have "n \<notin> dst_id ` set (c # cs)" using copies_okD(1,4) [OF ok] by (metis image_iff leD)
  then have "\<not> reads_dst (c # cs) (fst c, Some tmp)" using tmp by (simp add: reads_dst_def reg_src_def)
  then show ?thesis using c unfolding pending_def same by simp
qed

lemma copy_step_inv:
  assumes inv: "copies_inv w n0 r0 final (cs, n, is)" and "cs \<noteq> []"
  shows "copies_inv w n0 r0 final (copy_step (cs, n, is)) \<and> pending (fst (copy_step (cs, n, is))) < pending cs"
proof (cases "List.find (\<lambda>i. \<not> is_blocked cs i) [0..<length cs]")
  case (Some i)
  then have i: "i < length cs" "\<not> is_blocked cs i" by (auto dest: find_SomeD)
  then show ?thesis using emit_inv [OF inv i] pending_remove [OF i(1)] Some by (simp add: copy_step_def)
next
  case None
  obtain c ds where c: "cs = c # ds" using assms(2) by (cases cs) auto
  have ok: "copies_ok n0 n cs" using inv by (simp add: copies_inv_def)
  have "is_blocked cs i" if "i < length cs" for i using None that by (auto simp: find_None_iff)
  then have "reads_dst cs c" using all_blocked [OF ok] c by simp
  then have "pending ((fst c, Some (ir_val_reg (value_type (snd c)) n)) # ds) < pending (c # ds)"
    using pending_save ok c by (simp add: ir_val_reg_def)
  moreover have "reg_src (snd c) \<noteq> None" using \<open>reads_dst cs c\<close> by (auto simp: reads_dst_def split: option.splits)
  ultimately show ?thesis using save_inv [OF inv [unfolded c]] None c by (simp add: copy_step_def Let_def)
qed

lemma sequential_copies_result:
  assumes "copies_ok n n cs" and "\<And>c. c \<in> set cs \<Longrightarrow> eval_operand w r (snd c) \<noteq> None"
  shows "\<exists>n' is r'. sequential_copies cs n = Some (n', is) \<and> n \<le> n' \<and> list_all is_copy is \<and> run_copies w is r = Some r' \<and>
    (\<forall>k < n. r' k = parallel_result w cs r k)"
proof -
  let ?final = "parallel_result w cs r"
  let ?I = "copies_inv w n r ?final"
  have start: "?I (cs, n, [])"
    using assms parallel_result_dst [OF copies_okD(2) [OF assms(1)], of _ w r] parallel_result_other [of _ cs w r]
    by (simp add: copies_inv_def assigned_defined)
  have step: "?I (copy_step s) \<and> pending (fst (copy_step s)) < pending (fst s)" if "?I s" "fst s \<noteq> []" for s
  proof -
    obtain ds k js where s: "s = (ds, k, js)" by (cases s)
    show ?thesis using copy_step_inv [of w n r ?final ds k js] that by (simp add: s)
  qed
  have "\<exists>t. while_option (\<lambda>s. fst s \<noteq> []) copy_step (cs, n, []) = Some t"
    by (rule measure_while_option_Some [where P = ?I and f = "\<lambda>s. pending (fst s)", OF _ start]) (rule step)
  then obtain t where t: "while_option (\<lambda>s. fst s \<noteq> []) copy_step (cs, n, []) = Some t" by blast
  have "?I t" by (rule while_option_rule [where P = ?I, OF _ t]) (use step start in auto)
  moreover have "fst t = []" using while_option_stop [OF t] by simp
  ultimately show ?thesis using t copies_okD(1)
    by (cases t) (auto simp: copies_inv_def sequential_copies_def)
qed

section \<open>Properties\<close>

text \<open>C39. The copies emitted for phis are a parallel assignment: for destinations that are different registers,
  whatever the sources read, cycles included, the loop ends, and running the instructions leaves in
  every old register what all copies at once would; new registers save what a cycle overwrites.\<close>

theorem sequential_copies_are_parallel:
  assumes "copies_ok n n cs" and "list_all (\<lambda>c. eval_operand w r (snd c) \<noteq> None) cs"
  shows "\<exists>n' is r'. sequential_copies cs n = Some (n', is) \<and> n \<le> n' \<and>
    (\<forall>rest m. exec_insts w (is @ rest) r m = exec_insts w rest r' m) \<and>
    (\<forall>k < n. r' k = parallel_result w cs r k)"
proof -
  have "eval_operand w r (snd c) \<noteq> None" if "c \<in> set cs" for c using assms(2) that by (simp add: list_all_iff)
  from sequential_copies_result [OF assms(1) this] obtain n' "is" r' where s: "sequential_copies cs n = Some (n', is)" "n \<le> n'"
      "list_all is_copy is" "run_copies w is r = Some r'" "\<forall>k < n. r' k = parallel_result w cs r k" by blast
  then show ?thesis using exec_copies [OF s(3,4)] by blast
qed

text \<open>Two registers that swap: three copies.\<close>

definition swap_copies :: copies where
  "swap_copies = [(int_reg 0, Some (int_reg 1)), (int_reg 1, Some (int_reg 0))]"

theorem sequential_copies_are_parallel_witness:
  "\<exists>n' is r'. sequential_copies swap_copies 2 = Some (n', is) \<and> 2 \<le> n' \<and>
    (\<forall>rest m. exec_insts null_world (is @ rest) [0 \<mapsto> VInt 5, 1 \<mapsto> VInt 6] m = exec_insts null_world rest r' m) \<and>
    (\<forall>k < 2. r' k = parallel_result null_world swap_copies [0 \<mapsto> VInt 5, 1 \<mapsto> VInt 6] k)"
  by (rule sequential_copies_are_parallel)
    (simp_all add: copies_ok_def swap_copies_def dst_id_def reg_src_def eval_operand_def eval_value_def ir_val_reg_def)

end
