(* ===== verification/Ir_Ssa_Split.thy ===== *)
theory Ir_Ssa_Split
  imports Ir_Ssa_Copies
begin

text \<open>
  The semantics of SSA form, where the phis of a block take their values at once from the block that
  control comes from, and the splitting of critical edges against it.
\<close>

section \<open>Executions of SSA form\<close>

definition phi_value :: "'m world \<Rightarrow> nat \<Rightarrow> regs \<Rightarrow> ir_inst \<Rightarrow> val option" where
  "phi_value w p r i =
     (case List.find (\<lambda>e. fst e = Some p) (i_phis i) of
        Some e \<Rightarrow> assigned w r (result_type i) (snd e) | None \<Rightarrow> None)"

definition phis_of :: "ir_block \<Rightarrow> ir_inst list" where
  "phis_of bb = takeWhile is_phi (bb_insts bb)"

definition body_of :: "ir_block \<Rightarrow> ir_inst list" where
  "body_of bb = dropWhile is_phi (bb_insts bb)"

definition enter_block :: "'m world \<Rightarrow> ir_block \<Rightarrow> nat \<Rightarrow> regs \<Rightarrow> regs option" where
  "enter_block w bb p r =
     (if list_all (\<lambda>i. phi_value w p r i \<noteq> None) (phis_of bb)
      then Some (fold (\<lambda>i. set_result i (phi_value w p r i)) (phis_of bb) r) else None)"

text \<open>A run from the instructions after the phis of a block, with at most that many blocks.\<close>

fun run_ssa :: "'m world \<Rightarrow> ir_function \<Rightarrow> nat \<Rightarrow> nat \<Rightarrow> regs \<Rightarrow> 'm \<Rightarrow> (val option \<times> 'm) option" where
  "run_ssa w f 0 b r m = None"
| "run_ssa w f (Suc k) b r m =
     (if b \<notin> set (fn_order f) then None
      else case exec_insts w (body_of (block_at f b)) r m of
             Some (Goto c r m) \<Rightarrow>
               (case enter_block w (block_at f c) b r of Some r \<Rightarrow> run_ssa w f k c r m | None \<Rightarrow> None)
           | Some (Done v m) \<Rightarrow> Some (v, m)
           | _ \<Rightarrow> None)"

definition ssa_result :: "'m world \<Rightarrow> ir_function \<Rightarrow> nat \<Rightarrow> 'm \<Rightarrow> (val option \<times> 'm) option" where
  "ssa_result w f k m =
     (case fn_entry f of
        Some b \<Rightarrow> if has_phi_nodes (block_at f b) then None else run_ssa w f k b Map.empty m
      | None \<Rightarrow> None)"

lemma run_ssa_more: "run_ssa w f k b r m = Some res \<Longrightarrow> k \<le> n \<Longrightarrow> run_ssa w f n b r m = Some res"
proof (induction k arbitrary: n b r m)
  case (Suc k)
  then obtain j where j: "n = Suc j" "k \<le> j" by (cases n) auto
  show ?case using Suc.prems(1) Suc.IH [OF _ j(2)] by (auto simp: j(1) split: if_splits option.splits outcome.splits)
qed simp

section \<open>The shape of a block\<close>

definition shaped :: "ir_inst list \<Rightarrow> bool" where
  "shaped xs \<longleftrightarrow> xs \<noteq> [] \<and> list_all (\<lambda>i. \<not> ir_is_terminator (i_op i)) (butlast xs) \<and> ir_is_terminator (i_op (last xs))"

lemma terminator_no_phi: "ir_is_terminator (i_op i) \<Longrightarrow> \<not> is_phi i"
  by (auto simp: ir_is_terminator_def is_phi_def)

text \<open>Phis, the other instructions, and the terminator.\<close>

lemma shaped_parts:
  assumes "shaped xs"
  shows "\<exists>ys t. dropWhile is_phi xs = ys @ [t] \<and> last xs = t \<and> xs = takeWhile is_phi xs @ ys @ [t] \<and>
    (\<forall>i \<in> set ys. \<not> ir_is_terminator (i_op i)) \<and> ir_is_terminator (i_op t)"
proof -
  have s: "xs = butlast xs @ [last xs]" "ir_is_terminator (i_op (last xs))"
      "\<forall>i \<in> set (butlast xs). \<not> ir_is_terminator (i_op i)" using assms by (simp_all add: shaped_def list_all_iff)
  have d: "dropWhile is_phi xs = dropWhile is_phi (butlast xs) @ [last xs]"
    using terminator_no_phi [OF s(2)] by (subst s(1)) (auto simp: dropWhile_append)
  have "\<forall>i \<in> set (dropWhile is_phi (butlast xs)). \<not> ir_is_terminator (i_op i)" using s(3) by (auto dest: set_dropWhileD)
  then show ?thesis using d s(2) takeWhile_dropWhile_id [of is_phi xs] by metis
qed

lemma goto_terminator:
  assumes "step w i r m = Some (Goto c r' m')"
  shows "ir_is_terminator (i_op i) \<and> c \<in> set (inst_targets i) \<and> r' = r"
proof -
  obtain a where a: "action w i r m = Some a" "outcome_of i r a = Goto c r' m'" using assms by (auto simp: step_action)
  then have r: "a = Jump c m'" "r' = r" by (cases a; simp add: outcome_of_def)+
  have "i_op i = IR_OP_BR \<and> i_true i = Some c \<or> i_op i = IR_OP_CONDBR \<and> (i_true i = Some c \<or> i_false i = Some c)"
    using a(1) r(1) by (auto simp: action_def bind_eq_Some_conv split: if_splits option.splits)
  then show ?thesis using r(2) by (auto simp: ir_is_terminator_def inst_targets_def)
qed

lemma done_terminator:
  assumes "step w i r m = Some (Done v m')"
  shows "i_op i = IR_OP_RET"
proof -
  obtain a where a: "action w i r m = Some a" "outcome_of i r a = Done v m'" using assms by (auto simp: step_action)
  then have "a = Return v m'" by (cases a) (simp_all add: outcome_of_def)
  then show ?thesis using a(1) by (auto simp: action_def bind_eq_Some_conv split: if_splits option.splits)
qed

lemma plain_step:
  assumes "\<not> ir_is_terminator (i_op i)" and "step w i r m = Some p"
  shows "\<exists>s m'. p = Next s m'"
proof (cases p)
  case (Goto c r' m')
  then show ?thesis using assms goto_terminator [of w i r m c r' m'] by simp
next
  case (Done v m')
  then show ?thesis using assms done_terminator [of w i r m v m'] by (simp add: ir_is_terminator_def)
qed simp

text \<open>What the instructions before the terminator do.\<close>

fun run_plain :: "'m world \<Rightarrow> ir_inst list \<Rightarrow> regs \<Rightarrow> 'm \<Rightarrow> (regs \<times> 'm) option" where
  "run_plain w [] r m = Some (r, m)"
| "run_plain w (i # is) r m = (case step w i r m of Some (Next r m) \<Rightarrow> run_plain w is r m | _ \<Rightarrow> None)"

lemma exec_plain:
  assumes "\<forall>i \<in> set is. \<not> ir_is_terminator (i_op i)"
  shows "exec_insts w (is @ rest) r m = (case run_plain w is r m of Some (r, m) \<Rightarrow> exec_insts w rest r m | None \<Rightarrow> None)"
  using assms
proof (induction "is" arbitrary: r m)
  case (Cons i "is")
  show ?case
  proof (cases "step w i r m")
    case (Some p)
    then obtain s m' where "p = Next s m'" using plain_step Cons.prems by (metis list.set_intros(1))
    then show ?thesis using Cons Some by simp
  qed simp
qed simp

lemma exec_last: "exec_insts w [t] r m = (case step w t r m of Some (Next r m) \<Rightarrow> None | p \<Rightarrow> p)"
  by (auto split: option.split outcome.split)

section \<open>Splitting one edge\<close>

lemma phis_of_map_last:
  assumes "shaped (bb_insts bb)" and "\<And>i. i_op (g i) = i_op i"
  shows "phis_of (map_last g bb) = phis_of bb" "body_of (map_last g bb) = butlast (body_of bb) @ [g (last (body_of bb))]"
    "shaped (bb_insts (map_last g bb))" "last (bb_insts (map_last g bb)) = g (last (bb_insts bb))"
proof -
  let ?xs = "bb_insts bb"
  obtain ys t where t: "dropWhile is_phi ?xs = ys @ [t]" "last ?xs = t" "?xs = takeWhile is_phi ?xs @ ys @ [t]"
      "ir_is_terminator (i_op t)" "\<forall>i \<in> set ys. \<not> ir_is_terminator (i_op i)" using shaped_parts [OF assms(1)] by blast
  have ne: "?xs \<noteq> []" using assms(1) by (simp add: shaped_def)
  have b: "butlast ?xs = takeWhile is_phi ?xs @ ys" by (subst t(3)) (simp add: butlast_append)
  then have i: "bb_insts (map_last g bb) = takeWhile is_phi ?xs @ ys @ [g t]" using ne t(2) by (simp add: map_last_def)
  have gt: "ir_is_terminator (i_op (g t))" using t(4) assms(2) by simp
  have ys: "ys = [] \<or> \<not> is_phi (hd ys)" using t(1) hd_dropWhile [of is_phi ?xs] by (cases ys) auto
  have all: "list_all is_phi (takeWhile is_phi ?xs)" by (auto simp: list_all_iff dest: set_takeWhileD)
  have "takeWhile is_phi (ys @ [g t]) = [] \<and> dropWhile is_phi (ys @ [g t]) = ys @ [g t]"
    using ys terminator_no_phi [OF gt] by (cases ys) auto
  then have "takeWhile is_phi (takeWhile is_phi ?xs @ ys @ [g t]) = takeWhile is_phi ?xs"
      "dropWhile is_phi (takeWhile is_phi ?xs @ ys @ [g t]) = ys @ [g t]"
    using all by (simp_all add: list_all_iff)
  then show "phis_of (map_last g bb) = phis_of bb" "body_of (map_last g bb) = butlast (body_of bb) @ [g (last (body_of bb))]"
    unfolding phis_of_def body_of_def i t(1) by simp_all
  show "last (bb_insts (map_last g bb)) = g (last ?xs)" using i t(2) by simp
  show "shaped (bb_insts (map_last g bb))"
    using assms(1) gt b unfolding shaped_def i by (simp add: butlast_append)
qed

lemma phis_of_map_phis:
  assumes "\<And>i. i_op (g i) = i_op i"
  shows "phis_of (map_phis g bb) = map g (phis_of bb)" "body_of (map_phis g bb) = body_of bb"
proof -
  have g: "is_phi (g i) = is_phi i" for i using assms by (simp add: is_phi_def)
  have h: "takeWhile is_phi (dropWhile is_phi xs) = []" "dropWhile is_phi (dropWhile is_phi xs) = dropWhile is_phi xs" for xs
    by (induction xs) auto
  have a: "is_phi i" if "i \<in> set (map g (takeWhile is_phi (bb_insts bb)))" for i using that g by (auto dest: set_takeWhileD)
  show "phis_of (map_phis g bb) = map g (phis_of bb)" "body_of (map_phis g bb) = body_of bb"
    using takeWhile_append2 [OF a, of _ "\<lambda>i. i"] dropWhile_append2 [OF a, of _ "\<lambda>i. i"] h
    by (simp_all add: phis_of_def body_of_def map_phis_def takeWhile_append dropWhile_append a)
qed

lemma shaped_map_phis:
  assumes "shaped (bb_insts bb)" and "\<And>i. i_op (g i) = i_op i"
  shows "shaped (bb_insts (map_phis g bb))" "last (bb_insts (map_phis g bb)) = last (bb_insts bb)"
proof -
  obtain ys t where t: "dropWhile is_phi (bb_insts bb) = ys @ [t]" "last (bb_insts bb) = t"
      "ir_is_terminator (i_op t)" "\<forall>i \<in> set ys. \<not> ir_is_terminator (i_op i)" using shaped_parts [OF assms(1)] by blast
  have "\<not> ir_is_terminator (i_op i)" if "i \<in> set (map g (takeWhile is_phi (bb_insts bb)))" for i
    using that assms(2) by (auto simp: is_phi_def ir_is_terminator_def dest: set_takeWhileD)
  then show "shaped (bb_insts (map_phis g bb))" "last (bb_insts (map_phis g bb)) = last (bb_insts bb)"
    using t by (auto simp: map_phis_def shaped_def butlast_append list_all_iff)
qed

text \<open>The block that an edge goes through after splitting, and what becomes of an old block.\<close>

definition split_old :: "nat \<Rightarrow> nat \<Rightarrow> nat \<Rightarrow> nat \<Rightarrow> ir_block \<Rightarrow> ir_block" where
  "split_old b s x c bb =
     (if c = s then map_phis (move_incoming b x) else id) ((if c = b then map_last (retarget s x) else id) bb)"

lemma split_edge_blocks:
  assumes "is_critical f s" and "b < length (fn_heap f)" and "s < length (fn_heap f)" and "fn_order f \<noteq> []"
    and g_def: "g = fst (split_edge b s (f, n))" and x_def: "x = length (fn_heap f)"
  shows "fn_order g = fn_order f @ [x]" "fn_entry g = fn_entry f" "fn_next_reg g = fn_next_reg f" "length (fn_heap g) = Suc x"
    "bb_insts (block_at g x) = [jump_to s]" "bb_succs (block_at g x) = []" "bb_preds (block_at g x) = []"
    "c < x \<Longrightarrow> block_at g c = split_old b s x c (block_at f c)"
proof -
  obtain h where h: "ir_block_create f (Some (split_name f b s)) = (h, x)" "fn_order h = fn_order f @ [x]" "fn_entry h = fn_entry f"
      "fn_next_reg h = fn_next_reg f" "length (fn_heap h) = Suc x" "bb_insts (block_at h x) = []" "bb_succs (block_at h x) = []"
      "bb_preds (block_at h x) = []" "\<And>c. c < x \<Longrightarrow> block_at h c = block_at f c"
    using assms(4) by (simp add: ir_block_create_def Let_def x_def block_at_def nth_append)
  have g: "g = update_block s (map_phis (move_incoming b x)) (update_block b (map_last (retarget s x))
      (update_block x (ir_block_add_instruction (jump_to s)) h))" using assms(1) h(1) by (simp add: g_def split_edge_def)
  have j: "ir_block_add_instruction (jump_to s) (block_at h x) = (block_at h x)\<lparr>bb_insts := [jump_to s]\<rparr>"
    using h(6) by (simp add: ir_block_add_instruction_def jump_to_def create_instruction_def)
  have bx: "b \<noteq> x" "s \<noteq> x" using assms(2,3) by (simp_all add: x_def)
  show "fn_order g = fn_order f @ [x]" "fn_entry g = fn_entry f" "fn_next_reg g = fn_next_reg f" "length (fn_heap g) = Suc x"
    using h by (simp_all add: g)
  show "bb_insts (block_at g x) = [jump_to s]" "bb_succs (block_at g x) = []" "bb_preds (block_at g x) = []"
    using h j bx by (simp_all add: g block_at_update_block)
  show "c < x \<Longrightarrow> block_at g c = split_old b s x c (block_at f c)"
    using h bx assms(2,3) by (auto simp: g block_at_update_block split_old_def x_def)
qed

section \<open>A split edge does not change a run\<close>

definition split_ok :: "ir_function \<Rightarrow> bool" where
  "split_ok f \<longleftrightarrow> order_ok f \<and> fn_order f \<noteq> [] \<and>
     (\<forall>b \<in> set (fn_order f). shaped (bb_insts (block_at f b)) \<and>
        (\<forall>i \<in> set (phis_of (block_at f b)). \<forall>e \<in> set (i_phis i). \<forall>p. fst e = Some p \<longrightarrow> p < length (fn_heap f)))"

lemma exec_body_parts:
  assumes "shaped (bb_insts bb)" and "exec_insts w (body_of bb) r m = Some q"
  shows "\<exists>ys t r1 m1. body_of bb = ys @ [t] \<and> (\<forall>i \<in> set ys. \<not> ir_is_terminator (i_op i)) \<and> last (bb_insts bb) = t \<and>
    ir_is_terminator (i_op t) \<and> run_plain w ys r m = Some (r1, m1) \<and> step w t r1 m1 = Some q \<and>
    (\<forall>s n. q \<noteq> Next s n)"
proof -
  obtain ys t where t: "body_of bb = ys @ [t]" "last (bb_insts bb) = t" "\<forall>i \<in> set ys. \<not> ir_is_terminator (i_op i)"
      "ir_is_terminator (i_op t)"
    using shaped_parts [OF assms(1)] unfolding body_of_def by blast
  obtain r1 m1 where r1: "run_plain w ys r m = Some (r1, m1)" "exec_insts w [t] r1 m1 = Some q"
    using assms(2) exec_plain [OF t(3), of w "[t]" r m] unfolding t(1) by (auto split: option.splits)
  then have "step w t r1 m1 = Some q" "\<forall>s n. q \<noteq> Next s n" unfolding exec_last by (auto split: option.splits outcome.splits)
  then show ?thesis using t r1(1) by blast
qed

lemma exec_body_join:
  assumes "run_plain w ys r m = Some (r1, m1)" and "\<forall>i \<in> set ys. \<not> ir_is_terminator (i_op i)"
    and "step w t r1 m1 = Some q" and "\<forall>s n. q \<noteq> Next s n"
  shows "exec_insts w (ys @ [t]) r m = Some q"
  using exec_plain [OF assms(2), of w "[t]" r m] assms(1,3,4) by (cases q) simp_all

lemma retarget_fields [simp]: "i_op (retarget s x i) = i_op i" "i_lhs (retarget s x i) = i_lhs i"
  by (simp_all add: retarget_def)

lemma retarget_step:
  "step w t r m = Some (Goto d r' m') \<Longrightarrow> step w (retarget s x t) r m = Some (Goto (if d = s then x else d) r' m')"
  "step w t r m = Some (Done v m') \<Longrightarrow> step w (retarget s x t) r m = Some (Done v m')"
proof -
  assume a: "step w t r m = Some (Goto d r' m')"
  then consider "i_op t = IR_OP_BR" "i_true t = Some d" "r' = r" "m' = m"
    | c where "i_op t = IR_OP_CONDBR" "Option.bind (eval_operand w r (i_lhs t)) truth = Some c"
        "(if c then i_true t else i_false t) = Some d" "r' = r" "m' = m"
    using goto_terminator [OF a] by (auto simp: ir_is_terminator_def step_def goto_def bind_eq_Some_conv split: option.splits)
  then show "step w (retarget s x t) r m = Some (Goto (if d = s then x else d) r' m')"
  proof cases
    case 1
    then show ?thesis by (simp add: step_def goto_def retarget_def)
  next
    case 2
    then show ?thesis by (cases c) (simp_all add: step_def goto_def retarget_def)
  qed
next
  assume a: "step w t r m = Some (Done v m')"
  have "i_op t = IR_OP_RET" using done_terminator [OF a] .
  then show "step w (retarget s x t) r m = Some (Done v m')" using a by (simp add: step_def)
qed

lemma enter_block_cong:
  assumes "phis_of bb' = map g (phis_of bb)"
    and "\<And>i. i \<in> set (phis_of bb) \<Longrightarrow> i_result (g i) = i_result i \<and> phi_value w q r (g i) = phi_value w p r i"
  shows "enter_block w bb' q r = enter_block w bb p r"
proof -
  have "fold (\<lambda>i. set_result i (phi_value w q r i)) (map g is) s = fold (\<lambda>i. set_result i (phi_value w p r i)) is s"
    if "set is \<subseteq> set (phis_of bb)" for "is" s
    using that by (induction "is" arbitrary: s) (simp_all add: assms(2) set_result_def)
  then show ?thesis using assms by (simp add: enter_block_def list_all_iff)
qed

lemma find_moved:
  assumes "\<forall>e \<in> set es. fst e \<noteq> Some x"
  shows "map_option snd (List.find (\<lambda>e. fst e = Some x) (map (\<lambda>(p, v). (if p = Some b then Some x else p, v)) es)) =
    map_option snd (List.find (\<lambda>e. fst e = Some b) es)"
    and "q \<noteq> x \<Longrightarrow> q \<noteq> b \<Longrightarrow>
      map_option snd (List.find (\<lambda>e. fst e = Some q) (map (\<lambda>(p, v). (if p = Some b then Some x else p, v)) es)) =
      map_option snd (List.find (\<lambda>e. fst e = Some q) es)"
  using assms by (induction es) (auto split: if_splits)

lemma phi_value_snd:
  "phi_value w p r i = (case map_option snd (List.find (\<lambda>e. fst e = Some p) (i_phis i)) of
     Some v \<Rightarrow> assigned w r (result_type i) v | None \<Rightarrow> None)"
  by (simp add: phi_value_def split: option.split)

lemma move_incoming_fields [simp]:
  "i_op (move_incoming b x i) = i_op i" "i_result (move_incoming b x i) = i_result i"
  "result_type (move_incoming b x i) = result_type i"
  by (simp_all add: move_incoming_def result_type_def split: option.split)

lemma phi_value_moved:
  assumes "\<forall>e \<in> set (i_phis i). fst e \<noteq> Some x"
  shows "phi_value w x r (move_incoming b x i) = phi_value w b r i"
    and "q \<noteq> x \<Longrightarrow> q \<noteq> b \<Longrightarrow> phi_value w q r (move_incoming b x i) = phi_value w q r i"
  using find_moved [OF assms] unfolding phi_value_snd move_incoming_fields by (simp_all add: move_incoming_def)

lemma split_old_parts:
  assumes "shaped (bb_insts bb)"
  shows "phis_of (split_old b s x c bb) = (if c = s then map (move_incoming b x) (phis_of bb) else phis_of bb)"
    and "body_of (split_old b s x c bb) =
      (if c = b then butlast (body_of bb) @ [retarget s x (last (body_of bb))] else body_of bb)"
    and "shaped (bb_insts (split_old b s x c bb))"
    and "last (bb_insts (split_old b s x c bb)) = (if c = b then retarget s x (last (bb_insts bb)) else last (bb_insts bb))"
  using assms by (simp_all add: split_old_def phis_of_map_phis phis_of_map_last shaped_map_phis)

lemma split_run:
  assumes ok: "split_ok f" and crit: "is_critical f s" and bs: "b \<in> set (fn_order f)" "s \<in> set (fn_order f)"
    and g: "g = fst (split_edge b s (f, n))"
  shows "run_ssa w f k c r m = Some res \<Longrightarrow> run_ssa w g (2 * k) c r m = Some res"
proof (induction k arbitrary: c r m)
  case (Suc k)
  define x where "x = length (fn_heap f)"
  have lt: "d < x" if "d \<in> set (fn_order f)" for d using ok that by (auto simp: split_ok_def order_ok_def x_def)
  have ne: "fn_order f \<noteq> []" using ok by (simp add: split_ok_def)
  note G = split_edge_blocks [OF crit lt [OF bs(1), unfolded x_def] lt [OF bs(2), unfolded x_def] ne g x_def]
  have c: "c \<in> set (fn_order f)" using Suc.prems by (auto split: if_splits)
  have sh: "shaped (bb_insts (block_at f d))" if "d \<in> set (fn_order f)" for d using ok that by (simp add: split_ok_def)
  have old: "\<forall>e \<in> set (i_phis i). fst e \<noteq> Some x" if "d \<in> set (fn_order f)" "i \<in> set (phis_of (block_at f d))" for d i
    using ok that unfolding split_ok_def x_def by (metis less_irrefl)
  note P = split_old_parts [OF sh]
  have blk: "block_at g d = split_old b s x d (block_at f d)" if "d \<in> set (fn_order f)" for d using G(8) lt that by blast
  obtain q where q: "exec_insts w (body_of (block_at f c)) r m = Some q"
    using Suc.prems c by (cases "exec_insts w (body_of (block_at f c)) r m") auto
  obtain ys t r1 m1 where t: "body_of (block_at f c) = ys @ [t]" "\<forall>i \<in> set ys. \<not> ir_is_terminator (i_op i)"
      "run_plain w ys r m = Some (r1, m1)" "step w t r1 m1 = Some q" "\<forall>s n. q \<noteq> Next s n"
    using exec_body_parts [OF sh [OF c] q] by blast
  have body: "body_of (block_at g c) = ys @ [if c = b then retarget s x t else t]"
    using P(2) [OF c, of b s x c] unfolding blk [OF c] t(1) by simp
  have cg: "c \<in> set (fn_order g)" using c G(1) by simp
  show ?case
  proof (cases q)
    case (Next s' m')
    then show ?thesis using t(5) by blast
  next
    case (Done v m')
    have "step w (if c = b then retarget s x t else t) r1 m1 = Some q" using t(4) retarget_step(2) [of w t r1 m1 v m' s x] Done by simp
    then have "exec_insts w (body_of (block_at g c)) r m = Some q" unfolding body using exec_body_join [OF t(3,2)] t(5) by blast
    then show ?thesis using Suc.prems q Done c cg by simp
  next
    case (Goto d r2 m2)
    obtain r3 where r3: "enter_block w (block_at f d) c r2 = Some r3" "run_ssa w f k d r3 m2 = Some res"
      using Suc.prems q Goto c by (auto split: option.splits)
    have d: "d \<in> set (fn_order f)" using r3(2) by (cases k) (auto split: if_splits)
    have e: "step w (if c = b then retarget s x t else t) r1 m1 = Some (Goto (if c = b \<and> d = s then x else d) r2 m2)"
      using t(4) retarget_step(1) [of w t r1 m1 d r2 m2 s x] Goto by auto
    have ex: "exec_insts w (body_of (block_at g c)) r m = Some (Goto (if c = b \<and> d = s then x else d) r2 m2)"
      unfolding body by (rule exec_body_join [OF t(3,2) e]) simp
    show ?thesis
    proof (cases "c = b \<and> d = s")
      case True
      have v: "phi_value w x r2 (move_incoming b x i) = phi_value w b r2 i" if "i \<in> set (phis_of (block_at f s))" for i
        using phi_value_moved(1) [OF old [OF bs(2) that]] .
      have "enter_block w (block_at g s) x r2 = enter_block w (block_at f s) b r2"
        by (rule enter_block_cong [where g = "move_incoming b x"])
          (use P(1) [OF bs(2), of b s x s] v in \<open>simp_all add: blk [OF bs(2)]\<close>)
      then have s3: "enter_block w (block_at g s) x r2 = Some r3" using r3(1) True by simp
      have xp: "phis_of (block_at g x) = []" "body_of (block_at g x) = [jump_to s]"
        using G(5) by (simp_all add: phis_of_def body_of_def is_phi_def jump_to_def create_instruction_def)
      have "exec_insts w [jump_to s] r2 m2 = Some (Goto s r2 m2)"
        by (simp add: step_def goto_def jump_to_def create_instruction_def)
      then have "run_ssa w g (Suc (2 * k)) x r2 m2 = Some res" using Suc.IH [OF r3(2)] s3 G(1) True xp by simp
      moreover have "enter_block w (block_at g x) c r2 = Some r2" using xp by (simp add: enter_block_def)
      ultimately show ?thesis using ex True cg by simp
    next
      case False
      have "enter_block w (block_at g d) c r2 = enter_block w (block_at f d) c r2"
      proof (cases "d = s")
        case ds: True
        have "c \<noteq> x" "c \<noteq> b" using lt [OF c] False ds by simp_all
        have v: "phi_value w c r2 (move_incoming b x i) = phi_value w c r2 i" if "i \<in> set (phis_of (block_at f d))" for i
          using phi_value_moved(2) [OF old [OF d that] \<open>c \<noteq> x\<close> \<open>c \<noteq> b\<close>] .
        show ?thesis
          by (intro enter_block_cong [where g = "move_incoming b x"])
            (use P(1) [OF d, of b s x d] v ds in \<open>simp_all add: blk [OF bs(2)]\<close>)
      next
        case ds: False
        then show ?thesis
          by (intro enter_block_cong [where g = id]) (use P(1) [OF d, of b s x d] in \<open>simp_all add: blk [OF d]\<close>)
      qed
      then have "enter_block w (block_at g d) c r2 = Some r3" using r3(1) by simp
      moreover have "run_ssa w g (Suc (2 * k)) d r3 m2 = Some res" by (rule run_ssa_more [OF Suc.IH [OF r3(2)]]) simp
      ultimately show ?thesis using ex False cg by auto
    qed
  qed
qed simp

end
