(* ===== verification/Ir_Ssa_Edges.thy ===== *)
theory Ir_Ssa_Edges
  imports Ir_Ssa_Split
begin

text \<open>
  All critical edges: what the loop keeps, and that afterwards a block that has phis is only
  reached from blocks that go nowhere else.
\<close>

section \<open>Functions that can be brought out of SSA form\<close>

definition regs_below :: "nat \<Rightarrow> ir_value option list \<Rightarrow> bool" where
  "regs_below n vs \<longleftrightarrow> list_all (\<lambda>v. case reg_src v of Some k \<Rightarrow> k < n | None \<Rightarrow> True) vs"

text \<open>Phis with different result registers, at most 64 of them; all registers below the bound.\<close>

definition small_block :: "nat \<Rightarrow> ir_block \<Rightarrow> bool" where
  "small_block n bb \<longleftrightarrow> length (phis_of bb) \<le> 64 \<and>
     list_all (\<lambda>i. case i_result i of Some d \<Rightarrow> v_kind d = IR_VAL_REG \<and> v_id d < n | None \<Rightarrow> False) (phis_of bb) \<and>
     distinct (map (\<lambda>i. v_id (the (i_result i))) (phis_of bb)) \<and>
     list_all (\<lambda>i. regs_below n (map snd (i_phis i))) (phis_of bb) \<and>
     list_all (\<lambda>i. regs_below n (i_lhs i # i_rhs i # map Some (i_args i))) (body_of bb)"

definition two_ways :: "ir_inst \<Rightarrow> bool" where
  "two_ways i \<longleftrightarrow> i_op i = IR_OP_CONDBR"

text \<open>
  The function is as SSA construction leaves it: blocks end in their only terminator, edges are
  those of the terminators, a conditional branch goes to two different blocks, and phis stand in
  blocks with more than one predecessor.
\<close>

definition destructible :: "ir_function \<Rightarrow> bool" where
  "destructible f \<longleftrightarrow> order_ok f \<and> fn_order f \<noteq> [] \<and>
     list_all (\<lambda>b. let bb = block_at f b; t = last (bb_insts bb) in
       shaped (bb_insts bb) \<and>
       list_all (\<lambda>i. list_all (\<lambda>e. case fst e of Some p \<Rightarrow> p < length (fn_heap f) | None \<Rightarrow> True) (i_phis i)) (phis_of bb) \<and>
       small_block (fn_next_reg f) bb \<and>
       set (inst_targets t) \<subseteq> set (bb_succs bb) \<and> set (bb_succs bb) \<subseteq> set (fn_order f) \<and>
       (two_ways t \<longrightarrow> length (bb_succs bb) > 1) \<and>
       (phis_of bb \<noteq> [] \<longrightarrow> length (bb_preds bb) > 1)) (fn_order f)"

lemma destructibleD:
  assumes "destructible f"
  shows "order_ok f" "fn_order f \<noteq> []"
    and "b \<in> set (fn_order f) \<Longrightarrow> shaped (bb_insts (block_at f b))"
    and "b \<in> set (fn_order f) \<Longrightarrow> i \<in> set (phis_of (block_at f b)) \<Longrightarrow> e \<in> set (i_phis i) \<Longrightarrow> fst e = Some p \<Longrightarrow> p < length (fn_heap f)"
    and "b \<in> set (fn_order f) \<Longrightarrow> small_block (fn_next_reg f) (block_at f b)"
    and "b \<in> set (fn_order f) \<Longrightarrow> set (inst_targets (last (bb_insts (block_at f b)))) \<subseteq> set (bb_succs (block_at f b))"
    and "b \<in> set (fn_order f) \<Longrightarrow> set (bb_succs (block_at f b)) \<subseteq> set (fn_order f)"
    and "b \<in> set (fn_order f) \<Longrightarrow> two_ways (last (bb_insts (block_at f b))) \<Longrightarrow> length (bb_succs (block_at f b)) > 1"
    and "b \<in> set (fn_order f) \<Longrightarrow> phis_of (block_at f b) \<noteq> [] \<Longrightarrow> length (bb_preds (block_at f b)) > 1"
  using assms by (auto simp: destructible_def Let_def list_all_iff split: option.splits)

lemma destructible_split_ok: "destructible f \<Longrightarrow> split_ok f"
  using destructibleD by (simp add: split_ok_def)

section \<open>What the loop keeps\<close>

lemma has_phi_nodes_iff: "has_phi_nodes bb \<longleftrightarrow> phis_of bb \<noteq> []"
  by (cases "bb_insts bb") (simp_all add: has_phi_nodes_def phis_of_def)

lemma inst_targets_retarget: "inst_targets (retarget s x t) = map (\<lambda>d. if d = s then x else d) (inst_targets t)"
  by (auto simp: inst_targets_def retarget_def split: option.splits)

lemma small_block_split:
  assumes "small_block n bb" and "shaped (bb_insts bb)"
  shows "small_block n (split_old b s x c bb)"
proof -
  note p = split_old_parts [OF assms(2), of b s x c]
  have same: "map snd (i_phis (move_incoming b x i)) = map snd (i_phis i)" for i
    by (simp add: move_incoming_def comp_def case_prod_beta)
  obtain ys t where t: "body_of bb = ys @ [t]" using shaped_parts [OF assms(2)] unfolding body_of_def by blast
  have r: "i_rhs (retarget s x t) = i_rhs t" "i_args (retarget s x t) = i_args t" for t by (simp_all add: retarget_def)
  have b: "list_all (\<lambda>i. regs_below n (i_lhs i # i_rhs i # map Some (i_args i))) (body_of (split_old b s x c bb))"
    using assms(1) unfolding p(2) small_block_def t by (cases "c = b") (simp_all add: r)
  have "map (\<lambda>i. v_id (the (i_result i))) (phis_of (split_old b s x c bb)) = map (\<lambda>i. v_id (the (i_result i))) (phis_of bb)"
    unfolding p(1) by (simp add: comp_def)
  then show ?thesis
    using assms(1) b unfolding small_block_def p(1) by (cases "c = s") (simp_all add: list.pred_map comp_def same)
qed

lemma split_old_edges [simp]:
  "bb_preds (split_old b s x c bb) = bb_preds bb" "bb_succs (split_old b s x c bb) = bb_succs bb"
  by (simp_all add: split_old_def map_phis_def map_last_def)

text \<open>The function in the loop against the one of its start; the third argument is the blocks that are done.\<close>

definition split_inv :: "ir_function \<Rightarrow> nat list \<Rightarrow> ir_function \<Rightarrow> bool" where
  "split_inv f done h \<longleftrightarrow> split_ok h \<and> fn_order h = fn_order f @ [length (fn_heap f)..<length (fn_heap h)] \<and>
     fn_entry h = fn_entry f \<and> fn_next_reg h = fn_next_reg f \<and> length (fn_heap f) \<le> length (fn_heap h) \<and>
     (\<forall>c \<in> set (fn_order f). bb_succs (block_at h c) = bb_succs (block_at f c) \<and> bb_preds (block_at h c) = bb_preds (block_at f c) \<and>
        (phis_of (block_at h c) = [] \<longleftrightarrow> phis_of (block_at f c) = []) \<and>
        i_op (last (bb_insts (block_at h c))) = i_op (last (bb_insts (block_at f c))) \<and>
        (\<forall>d \<in> set (inst_targets (last (bb_insts (block_at h c)))). d \<in> set (bb_succs (block_at f c)) \<or> length (fn_heap f) \<le> d)) \<and>
     (\<forall>x \<in> set [length (fn_heap f)..<length (fn_heap h)]. phis_of (block_at h x) = [] \<and> i_op (last (bb_insts (block_at h x))) = IR_OP_BR) \<and>
     (\<forall>c \<in> set (fn_order h). small_block (fn_next_reg f) (block_at h c)) \<and>
     (\<forall>c \<in> set done. length (bb_succs (block_at f c)) > 1 \<longrightarrow>
        (\<forall>d \<in> set (inst_targets (last (bb_insts (block_at h c)))). d \<in> set (fn_order f) \<longrightarrow> \<not> is_critical f d))"

lemma split_invD:
  assumes "split_inv f done h"
  shows "split_ok h" "fn_order h = fn_order f @ [length (fn_heap f)..<length (fn_heap h)]" "fn_entry h = fn_entry f"
    "fn_next_reg h = fn_next_reg f" "length (fn_heap f) \<le> length (fn_heap h)"
    and "c \<in> set (fn_order f) \<Longrightarrow> bb_succs (block_at h c) = bb_succs (block_at f c)"
    and "c \<in> set (fn_order f) \<Longrightarrow> bb_preds (block_at h c) = bb_preds (block_at f c)"
    and "c \<in> set (fn_order f) \<Longrightarrow> phis_of (block_at h c) = [] \<longleftrightarrow> phis_of (block_at f c) = []"
    and "c \<in> set (fn_order f) \<Longrightarrow> i_op (last (bb_insts (block_at h c))) = i_op (last (bb_insts (block_at f c)))"
    and "c \<in> set (fn_order f) \<Longrightarrow> d \<in> set (inst_targets (last (bb_insts (block_at h c)))) \<Longrightarrow> d \<in> set (bb_succs (block_at f c)) \<or> length (fn_heap f) \<le> d"
    and "length (fn_heap f) \<le> x \<Longrightarrow> x < length (fn_heap h) \<Longrightarrow> phis_of (block_at h x) = []"
    and "length (fn_heap f) \<le> x \<Longrightarrow> x < length (fn_heap h) \<Longrightarrow> i_op (last (bb_insts (block_at h x))) = IR_OP_BR"
    and "c \<in> set (fn_order h) \<Longrightarrow> small_block (fn_next_reg f) (block_at h c)"
    and "c \<in> set done \<Longrightarrow> length (bb_succs (block_at f c)) > 1 \<Longrightarrow> d \<in> set (inst_targets (last (bb_insts (block_at h c)))) \<Longrightarrow>
      d \<in> set (fn_order f) \<Longrightarrow> \<not> is_critical f d"
  using assms unfolding split_inv_def by (simp_all (no_asm_simp) add: atLeastLessThan_iff) blast+

lemma critical_same:
  assumes "split_inv f done h" and "s \<in> set (fn_order f)"
  shows "is_critical h s \<longleftrightarrow> is_critical f s"
  using split_invD(7,8) [OF assms] by (simp add: is_critical_def has_phi_nodes_iff)

section \<open>One edge\<close>

lemma new_block_parts:
  assumes "bb_insts bb = [jump_to s]"
  shows "phis_of bb = []" "body_of bb = [jump_to s]" "shaped (bb_insts bb)" "last (bb_insts bb) = jump_to s"
  using assms by (simp_all add: phis_of_def body_of_def is_phi_def jump_to_def create_instruction_def shaped_def ir_is_terminator_def)

lemma jump_to_fields: "i_op (jump_to s) = IR_OP_BR" "inst_targets (jump_to s) = [s]" "i_true (jump_to s) = Some s"
    "i_lhs (jump_to s) = None" "i_rhs (jump_to s) = None" "i_args (jump_to s) = []"
  by (simp_all add: jump_to_def create_instruction_def inst_targets_def)

lemma small_new_block: "bb_insts bb = [jump_to s] \<Longrightarrow> small_block n bb"
  using new_block_parts [of bb s] by (simp add: small_block_def jump_to_fields regs_below_def reg_src_def)

lemma split_old_op: "i_op (retarget s x t) = i_op t"
  by simp

lemma moved_incoming_below:
  assumes "\<forall>e \<in> set (i_phis i). \<forall>p. fst e = Some p \<longrightarrow> p < n" and "e \<in> set (i_phis (move_incoming b n i))" and "fst e = Some p"
  shows "p < Suc n"
  using assms by (auto simp: move_incoming_def less_Suc_eq split: if_splits)

lemma split_edge_ok:
  assumes ok: "split_ok h" and crit: "is_critical h s" and bs: "b \<in> set (fn_order h)" "s \<in> set (fn_order h)"
    and g: "g = fst (split_edge b s (h, n))"
  shows "split_ok g"
proof -
  define x where "x = length (fn_heap h)"
  have lt: "d < x" if "d \<in> set (fn_order h)" for d using ok that by (auto simp: split_ok_def order_ok_def x_def)
  have ne: "fn_order h \<noteq> []" using ok by (simp add: split_ok_def)
  note G = split_edge_blocks [OF crit lt [OF bs(1), unfolded x_def] lt [OF bs(2), unfolded x_def] ne g x_def]
  have ord: "order_ok g" using ok lt G(1,4) by (auto simp: split_ok_def order_ok_def x_def intro: less_SucI dest: lt)
  have old: "shaped (bb_insts (block_at g c)) \<and> (\<forall>i \<in> set (phis_of (block_at g c)). \<forall>e \<in> set (i_phis i). \<forall>p. fst e = Some p \<longrightarrow> p < Suc x)"
    if c: "c \<in> set (fn_order h)" for c
  proof -
    have sh: "shaped (bb_insts (block_at h c))" using ok c by (simp add: split_ok_def)
    have inc: "\<forall>e \<in> set (i_phis i). \<forall>p. fst e = Some p \<longrightarrow> p < x" if "i \<in> set (phis_of (block_at h c))" for i
      using ok c that unfolding split_ok_def x_def by blast
    note p = split_old_parts [OF sh, of b s x c]
    have "\<forall>e \<in> set (i_phis i). \<forall>q. fst e = Some q \<longrightarrow> q < Suc x" if i: "i \<in> set (phis_of (split_old b s x c (block_at h c)))" for i
    proof (cases "c = s")
      case True
      then obtain j where j: "j \<in> set (phis_of (block_at h c))" "i = move_incoming b x j"
        using i unfolding p(1) by auto
      then show ?thesis using moved_incoming_below [OF inc [OF j(1)]] by blast
    next
      case False
      then show ?thesis using i p(1) inc less_SucI by metis
    qed
    then show ?thesis unfolding G(8) [OF lt [OF c]] using p(3) by blast
  qed
  have new: "shaped (bb_insts (block_at g x)) \<and> phis_of (block_at g x) = []" using new_block_parts [OF G(5)] by blast
  have "shaped (bb_insts (block_at g c)) \<and> (\<forall>i \<in> set (phis_of (block_at g c)). \<forall>e \<in> set (i_phis i). \<forall>p. fst e = Some p \<longrightarrow> p < Suc x)"
    if "c \<in> set (fn_order g)" for c
    using old [of c] new that G(1) by (cases "c = x") auto
  then show ?thesis using ord G(1,4) ne unfolding split_ok_def by simp
qed

text \<open>Runs of the first function that end are runs of the second, perhaps through more blocks.\<close>

definition runs_kept :: "'m world \<Rightarrow> ir_function \<Rightarrow> ir_function \<Rightarrow> bool" where
  "runs_kept w f g \<longleftrightarrow> (\<forall>k c r m res. run_ssa w f k c r m = Some res \<longrightarrow> (\<exists>k'. run_ssa w g k' c r m = Some res))"

lemma runs_kept_refl: "runs_kept w f f"
  by (auto simp: runs_kept_def)

lemma runs_kept_trans: "runs_kept w f g \<Longrightarrow> runs_kept w g h \<Longrightarrow> runs_kept w f h"
  unfolding runs_kept_def by blast

lemma split_edge_inv:
  assumes inv: "split_inv f D h" and D: "\<And>c. c \<in> set D \<Longrightarrow> c \<in> set (fn_order f)" and bs: "b \<in> set (fn_order f)" "s \<in> set (fn_order f)"
    and g: "g = fst (split_edge b s (h, n))"
  shows "split_inv f D g \<and> runs_kept w h g \<and>
    (\<forall>d \<in> set (inst_targets (last (bb_insts (block_at g b)))). d \<in> set (fn_order f) \<longrightarrow>
       d \<in> set (inst_targets (last (bb_insts (block_at h b)))) \<and> \<not> (d = s \<and> is_critical f s))"
proof (cases "is_critical h s")
  case False
  then have "g = h" by (simp add: g split_edge_def)
  then show ?thesis using inv False critical_same [OF inv bs(2)] runs_kept_refl by blast
next
  case crit: True
  define x where "x = length (fn_heap h)"
  note I = split_invD [OF inv]
  have h: "b \<in> set (fn_order h)" "s \<in> set (fn_order h)" using bs I(2) by simp_all
  have lt: "d < x" if "d \<in> set (fn_order h)" for d using I(1) that by (auto simp: split_ok_def order_ok_def x_def)
  have ltf: "c < x" if "c \<in> set (fn_order f)" for c using lt that I(2) by simp
  have ne: "fn_order h \<noteq> []" using I(1) by (simp add: split_ok_def)
  note G = split_edge_blocks [OF crit lt [OF h(1), unfolded x_def] lt [OF h(2), unfolded x_def] ne g x_def]
  note N = new_block_parts [OF G(5)]
  have sh: "shaped (bb_insts (block_at h c))" if "c \<in> set (fn_order h)" for c using I(1) that by (simp add: split_ok_def)
  note P = split_old_parts [OF sh, of _ b s x]
  have low: "x \<notin> set (fn_order f)" using ltf by blast
  have ok: "split_ok g" by (rule split_edge_ok [OF I(1) crit h g])
  have ord: "fn_order g = fn_order f @ [length (fn_heap f)..<length (fn_heap g)]"
    using G(1,4) I(2,5) by (simp add: x_def)
  have last: "last (bb_insts (block_at g c)) = (if c = b then retarget s x (last (bb_insts (block_at h c))) else last (bb_insts (block_at h c)))"
    if "c \<in> set (fn_order h)" for c
    using P(4) [OF that] G(8) [OF lt [OF that]] by simp
  have phis: "phis_of (block_at g c) = [] \<longleftrightarrow> phis_of (block_at h c) = []" if "c \<in> set (fn_order h)" for c
    using P(1) [OF that] G(8) [OF lt [OF that]] by simp
  have tgt: "set (inst_targets (last (bb_insts (block_at g c)))) \<subseteq> insert x (set (inst_targets (last (bb_insts (block_at h c)))))"
    and gone: "c = b \<Longrightarrow> s \<notin> set (inst_targets (last (bb_insts (block_at g c))))"
    if "c \<in> set (fn_order h)" for c
    using last [OF that] lt [OF h(2)] by (auto simp: inst_targets_retarget split: if_splits)
  have inf: "c \<in> set (fn_order h)" if "c \<in> set (fn_order f)" for c using that I(2) by simp
  have newx: "c = x \<or> c < x" if "c < length (fn_heap g)" for c using that G(4) by auto
  have "split_inv f D g"
    unfolding split_inv_def
  proof (intro conjI ballI)
    show "split_ok g" by (rule ok)
    show "fn_order g = fn_order f @ [length (fn_heap f)..<length (fn_heap g)]" by (rule ord)
    show "fn_entry g = fn_entry f" "fn_next_reg g = fn_next_reg f" using G(2,3) I(3,4) by simp_all
    show "length (fn_heap f) \<le> length (fn_heap g)" using G(4) I(5) x_def by simp
  next
    fix c assume c: "c \<in> set (fn_order f)"
    show "bb_succs (block_at g c) = bb_succs (block_at f c)" "bb_preds (block_at g c) = bb_preds (block_at f c)"
      using G(8) [OF ltf [OF c]] I(6,7) [OF c] by simp_all
    show "(phis_of (block_at g c) = []) = (phis_of (block_at f c) = [])" using phis [OF inf [OF c]] I(8) [OF c] by simp
    show "i_op (last (bb_insts (block_at g c))) = i_op (last (bb_insts (block_at f c)))"
      using last [OF inf [OF c]] I(9) [OF c] by (cases "c = b") simp_all
    fix d assume "d \<in> set (inst_targets (last (bb_insts (block_at g c))))"
    then show "d \<in> set (bb_succs (block_at f c)) \<or> length (fn_heap f) \<le> d"
      using tgt [OF inf [OF c]] I(10) [OF c, of d] I(5) x_def by auto
  next
    fix c assume c: "c \<in> set [length (fn_heap f)..<length (fn_heap g)]"
    then have b: "length (fn_heap f) \<le> c" "c = x \<or> c < x" using newx by auto
    show "phis_of (block_at g c) = []" "i_op (last (bb_insts (block_at g c))) = IR_OP_BR"
    proof -
      have "phis_of (block_at g c) = [] \<and> i_op (last (bb_insts (block_at g c))) = IR_OP_BR"
      proof (cases "c = x")
        case True
        then show ?thesis using N jump_to_fields by simp
      next
        case False
        then have c': "c < length (fn_heap h)" "c \<in> set (fn_order h)" using b I(2) x_def by auto
        then show ?thesis using phis [OF c'(2)] last [OF c'(2)] I(11,12) [OF b(1) c'(1)] by (cases "c = b") simp_all
      qed
      then show "phis_of (block_at g c) = []" "i_op (last (bb_insts (block_at g c))) = IR_OP_BR" by blast+
    qed
  next
    fix c assume c: "c \<in> set (fn_order g)"
    show "small_block (fn_next_reg f) (block_at g c)"
    proof (cases "c = x")
      case True
      then show ?thesis using small_new_block [OF G(5)] by simp
    next
      case False
      then have c': "c \<in> set (fn_order h)" using c G(1) by simp
      show ?thesis unfolding G(8) [OF lt [OF c']] by (rule small_block_split [OF I(13) [OF c'] sh [OF c']])
    qed
  next
    fix c assume c: "c \<in> set D"
    show "1 < length (bb_succs (block_at f c)) \<longrightarrow>
        (\<forall>d \<in> set (inst_targets (last (bb_insts (block_at g c)))). d \<in> set (fn_order f) \<longrightarrow> \<not> is_critical f d)"
      using tgt [OF inf [OF D [OF c]]] I(14) [OF c] low by blast
  qed
  moreover have "runs_kept w h g" unfolding runs_kept_def by (intro allI impI exI) (rule split_run [OF I(1) crit h g])
  ultimately show ?thesis using tgt [OF h(1)] gone [OF h(1)] low by blast
qed

section \<open>All edges\<close>

lemma split_edges_inv:
  assumes "split_inv f D h" and "\<And>c. c \<in> set D \<Longrightarrow> c \<in> set (fn_order f)" and "b \<in> set (fn_order f)" and "set ss \<subseteq> set (fn_order f)"
    and "g = fst (fold (split_edge b) ss (h, n))"
  shows "split_inv f D g \<and> runs_kept w h g \<and>
    (\<forall>d \<in> set (inst_targets (last (bb_insts (block_at g b)))). d \<in> set (fn_order f) \<longrightarrow>
       d \<in> set (inst_targets (last (bb_insts (block_at h b)))) \<and> \<not> (d \<in> set ss \<and> is_critical f d))"
  using assms(1,4,5)
proof (induction ss arbitrary: h n)
  case Nil
  then show ?case using runs_kept_refl by simp
next
  case (Cons s ss)
  obtain h1 n1 where h1: "split_edge b s (h, n) = (h1, n1)" by fastforce
  have "s \<in> set (fn_order f)" using Cons.prems(2) by simp
  note one = split_edge_inv [OF Cons.prems(1) assms(2,3) this, of h1 n w, unfolded h1 fst_conv, OF _ refl]
  have "g = fst (fold (split_edge b) ss (h1, n1))" using Cons.prems(3) h1 by simp
  note more = Cons.IH [OF _ _ this]
  show ?case using one more Cons.prems(2) runs_kept_trans by (metis list.set_intros(2) set_ConsD set_subset_Cons subset_trans)
qed

lemma split_block_inv:
  assumes inv: "split_inv f D h" and D: "\<And>c. c \<in> set D \<Longrightarrow> c \<in> set (fn_order f)" and b: "b \<in> set (fn_order f)"
    and f: "destructible f" and g: "g = fst (split_block b (h, n))"
  shows "split_inv f (b # D) g \<and> runs_kept w h g"
proof -
  note I = split_invD [OF inv]
  let ?ss = "bb_succs (block_at f b)"
  have add: "split_inv f (b # D) g'" if "split_inv f D g'"
    "length ?ss > 1 \<Longrightarrow> \<forall>d \<in> set (inst_targets (last (bb_insts (block_at g' b)))). d \<in> set (fn_order f) \<longrightarrow> \<not> is_critical f d" for g'
    using that unfolding split_inv_def by simp
  show ?thesis
  proof (cases "length ?ss > 1")
    case False
    then have "g = h" using g I(6) [OF b] by (simp add: split_block_def)
    then show ?thesis using add [OF inv] False runs_kept_refl by blast
  next
    case True
    have "g = fst (fold (split_edge b) ?ss (h, n))" using g I(6) [OF b] True by (simp add: split_block_def Let_def)
    note all = split_edges_inv [OF inv D b destructibleD(7) [OF f b] this, of w]
    have "\<not> is_critical f d" if "d \<in> set (inst_targets (last (bb_insts (block_at g b))))" "d \<in> set (fn_order f)" for d
    proof -
      have "d < length (fn_heap f)" using destructibleD(1) [OF f] that(2) by (auto simp: order_ok_def)
      then show ?thesis using all that I(10) [OF b, of d] by auto
    qed
    then show ?thesis using all add by blast
  qed
qed

lemma split_blocks_inv:
  assumes "split_inv f D h" and "\<And>c. c \<in> set D \<Longrightarrow> c \<in> set (fn_order f)" and "set bs \<subseteq> set (fn_order f)"
    and "destructible f" and "g = fst (fold split_block bs (h, n))"
  shows "split_inv f (rev bs @ D) g \<and> runs_kept w h g"
  using assms(1,2,3,5)
proof (induction bs arbitrary: h n D)
  case Nil
  then show ?case using runs_kept_refl by simp
next
  case (Cons b bs)
  obtain h1 n1 where h1: "split_block b (h, n) = (h1, n1)" by fastforce
  have b: "b \<in> set (fn_order f)" using Cons.prems(3) by simp
  note one = split_block_inv [OF Cons.prems(1,2) b assms(4), of h1 n w, unfolded h1 fst_conv, OF _ refl]
  have "g = fst (fold split_block bs (h1, n1))" using Cons.prems(4) h1 by simp
  from Cons.IH [OF _ _ _ this, of "b # D"] have "split_inv f (rev bs @ b # D) g \<and> runs_kept w h1 g"
    using one Cons.prems(2,3) b by auto
  then show ?case using one runs_kept_trans by fastforce
qed

lemma split_inv_start:
  assumes "destructible f"
  shows "split_inv f [] f"
proof -
  note F = destructibleD [OF assms]
  show ?thesis unfolding split_inv_def
    using destructible_split_ok [OF assms] F(5) by (auto dest!: F(6))
qed

text \<open>What the lowering of phis relies on.\<close>

definition lowerable :: "ir_function \<Rightarrow> bool" where
  "lowerable f \<longleftrightarrow> order_ok f \<and> fn_order f \<noteq> [] \<and>
     (\<forall>b \<in> set (fn_order f). shaped (bb_insts (block_at f b)) \<and> small_block (fn_next_reg f) (block_at f b) \<and>
        distinct (bb_preds (block_at f b)) \<and> set (bb_preds (block_at f b)) \<subseteq> set (fn_order f) \<and>
        (\<forall>p \<in> set (fn_order f). p \<in> set (bb_preds (block_at f b)) \<longleftrightarrow> b \<in> set (inst_targets (last (bb_insts (block_at f p))))) \<and>
        (phis_of (block_at f b) \<noteq> [] \<longrightarrow>
           (\<forall>p \<in> set (bb_preds (block_at f b)). i_op (last (bb_insts (block_at f p))) = IR_OP_BR)))"

lemma run_ssa_insts:
  assumes "fn_order g = fn_order f" and "\<And>b. bb_insts (block_at g b) = bb_insts (block_at f b)"
  shows "run_ssa w g k b r m = run_ssa w f k b r m"
proof -
  have "enter_block w (block_at g c) p r = enter_block w (block_at f c) p r" for c p r
    by (simp add: enter_block_def phis_of_def assms(2))
  then show ?thesis using assms by (induction k arbitrary: b r m) (simp_all add: body_of_def cong: outcome.case_cong option.case_cong)
qed

lemma split_critical_edges_spec:
  assumes f: "destructible f" and g: "g = fst (split_critical_edges f)"
  shows "lowerable g \<and> runs_kept w f g \<and> fn_entry g = fn_entry f \<and>
    (\<forall>b \<in> set (fn_order f). phis_of (block_at g b) = [] \<longleftrightarrow> phis_of (block_at f b) = [])"
proof -
  define h where "h = fst (fold split_block (fn_order f) (f, 0))"
  have gh: "g = ir_recompute_cfg h" by (simp add: g h_def split_critical_edges_def case_prod_beta)
  have inv: "split_inv f (rev (fn_order f)) h" and runs: "runs_kept w f h"
    using split_blocks_inv [OF split_inv_start [OF f] _ subset_refl f h_def, of w] by simp_all
  note I = split_invD [OF inv] and F = destructibleD [OF f]
  have ord: "order_ok h" "fn_order h \<noteq> []" using I(1) by (simp_all add: split_ok_def)
  have R: "same_but_edges h g" "\<And>b. b \<in> set (fn_order h) \<Longrightarrow> bb_preds (block_at g b) = filter (\<lambda>a. b \<in> set (block_targets h a)) (fn_order h)"
    using recompute_cfg_spec [of h] ord(1) by (auto simp: gh order_ok_def)
  have same: "bb_insts (block_at g b) = bb_insts (block_at h b)" for b using same_but_edges_block(1) [OF R(1)] .
  have flat: "fn_order g = fn_order h" "fn_entry g = fn_entry h" "fn_next_reg g = fn_next_reg h" "length (fn_heap g) = length (fn_heap h)"
    using R(1) by (simp_all add: same_but_edges_def)
  have sh: "shaped (bb_insts (block_at h b))" if "b \<in> set (fn_order h)" for b using I(1) that by (simp add: split_ok_def)
  have bt: "block_targets h b = inst_targets (last (bb_insts (block_at h b)))" if "b \<in> set (fn_order h)" for b
    using sh [OF that] by (simp add: block_targets_def last_inst_def shaped_def)
  have br: "i_op (last (bb_insts (block_at h p))) = IR_OP_BR"
    if b: "b \<in> set (fn_order h)" "phis_of (block_at h b) \<noteq> []" and p: "p \<in> set (fn_order h)" "b \<in> set (inst_targets (last (bb_insts (block_at h p))))"
    for b p
  proof (cases "p \<in> set (fn_order f)")
    case False
    then have "length (fn_heap f) \<le> p" "p < length (fn_heap h)" using p(1) I(2) by auto
    then show ?thesis by (rule I(12))
  next
    case True
    have bf: "b \<in> set (fn_order f)" using b I(2,11) by auto
    have op: "i_op (last (bb_insts (block_at h p))) = IR_OP_BR \<or> i_op (last (bb_insts (block_at h p))) = IR_OP_CONDBR"
      using p(2) by (auto simp: inst_targets_def split: if_splits)
    have "\<not> two_ways (last (bb_insts (block_at f p)))"
    proof
      assume two: "two_ways (last (bb_insts (block_at f p)))"
      have "\<not> is_critical f b" by (rule I(14) [OF _ F(8) [OF True two] p(2) bf]) (use True in simp)
      moreover have "phis_of (block_at f b) \<noteq> []" using I(8) [OF bf] b(2) by simp
      ultimately show False using F(9) [OF bf] by (simp add: is_critical_def has_phi_nodes_iff)
    qed
    then show ?thesis using op I(9) [OF True] by (simp add: two_ways_def)
  qed
  have "lowerable g"
    unfolding lowerable_def flat same phis_of_def
  proof (intro conjI ballI impI)
    show "order_ok g" "fn_order h \<noteq> []" using ord flat by (simp_all add: order_ok_def)
    fix b assume b: "b \<in> set (fn_order h)"
    show "shaped (bb_insts (block_at h b))" by (rule sh [OF b])
    show "small_block (fn_next_reg h) (block_at g b)"
      using I(13) [OF b] I(4) by (simp add: small_block_def phis_of_def body_of_def same)
    show "distinct (bb_preds (block_at g b))" "set (bb_preds (block_at g b)) \<subseteq> set (fn_order h)"
      using R(2) [OF b] ord(1) by (auto simp: order_ok_def)
    show "(p \<in> set (bb_preds (block_at g b))) = (b \<in> set (inst_targets (last (bb_insts (block_at h p)))))" if "p \<in> set (fn_order h)" for p
      using R(2) [OF b] that bt [OF that] by simp
    fix p assume "takeWhile is_phi (bb_insts (block_at h b)) \<noteq> []" "p \<in> set (bb_preds (block_at g b))"
    then show "i_op (last (bb_insts (block_at h p))) = IR_OP_BR"
      using R(2) [OF b] bt br [OF b] by (auto simp: phis_of_def)
  qed
  moreover have "runs_kept w f g"
  proof -
    have "run_ssa w g = run_ssa w h" by (intro ext) (rule run_ssa_insts [OF flat(1) same])
    then show ?thesis using runs by (simp only: runs_kept_def)
  qed
  moreover have "phis_of (block_at g b) = [] \<longleftrightarrow> phis_of (block_at f b) = []" if "b \<in> set (fn_order f)" for b
    using I(8) [OF that] by (simp add: phis_of_def same)
  ultimately show ?thesis using flat(2) I(3) by simp
qed

end
