(* ===== verification/Ir_Ssa_Lower.thy ===== *)
theory Ir_Ssa_Lower
  imports Ir_Ssa_Edges
begin

text \<open>
  Leaving SSA form. Once every block that has phis is only reached by plain jumps, the copies in
  front of a jump do what entering the block does, and the lowered function runs as the SSA form.
\<close>

section \<open>The copies of an edge\<close>

lemma copy_step_ok:
  assumes ok: "copies_ok n0 n cs" and cp: "list_all is_copy is" and ne: "cs \<noteq> []"
    and s: "copy_step (cs, n, is) = (cs', n', is')"
  shows "copies_ok n0 n' cs' \<and> list_all is_copy is' \<and> n \<le> n' \<and> pending cs' < pending cs"
proof (cases "List.find (\<lambda>i. \<not> is_blocked cs i) [0..<length cs]")
  case (Some i)
  then have i: "i < length cs" by (auto dest: find_SomeD)
  have "is_copy (copy_inst (fst (cs ! i)) (snd (cs ! i)))"
    using copies_okD(3) [OF ok, of "cs ! i"] i by (simp add: is_copy_def copy_inst_def create_instruction_def)
  moreover have "cs' = take i cs @ drop (Suc i) cs" "n' = n" "is' = is @ [copy_inst (fst (cs ! i)) (snd (cs ! i))]"
    using s Some by (simp_all add: copy_step_def)
  ultimately show ?thesis using copies_ok_remove [OF ok i] pending_remove [OF i] cp by simp
next
  case None
  obtain c ds where c: "cs = c # ds" using ne by (cases cs) auto
  let ?tmp = "ir_val_reg (value_type (snd c)) n"
  have s': "cs' = (fst c, Some ?tmp) # ds" "n' = n + 1" "is' = is @ [copy_inst ?tmp (snd c)]"
    using s None c by (simp_all add: copy_step_def Let_def)
  have t: "v_kind ?tmp = IR_VAL_REG" "v_id ?tmp = n" by (simp_all add: ir_val_reg_def)
  have "is_blocked cs i" if "i < length cs" for i using None that by (auto simp: find_None_iff)
  then have "reads_dst cs c" using all_blocked [OF ok] c by simp
  then have "pending cs' < pending cs" using pending_save [OF ok [unfolded c] _ t] c s' by simp
  moreover have "copies_ok n0 n' cs'"
    using ok t unfolding s' c by (auto simp: copies_ok_def list_all_iff dst_id_def reg_src_def split: option.splits)
  moreover have "is_copy (copy_inst ?tmp (snd c))" using t by (simp add: is_copy_def copy_inst_def create_instruction_def)
  ultimately show ?thesis using cp s' by simp
qed

lemma sequential_copies_ends:
  assumes "copies_ok n n cs"
  shows "\<exists>n' is. sequential_copies cs n = Some (n', is) \<and> n \<le> n' \<and> list_all is_copy is"
proof -
  let ?I = "\<lambda>(cs, k, is). copies_ok n k cs \<and> list_all is_copy is \<and> n \<le> k"
  have start: "?I (cs, n, [])" using assms by simp
  have step: "?I (copy_step s) \<and> pending (fst (copy_step s)) < pending (fst s)" if "?I s" "fst s \<noteq> []" for s
  proof -
    obtain ds k js where s: "s = (ds, k, js)" by (cases s)
    obtain ds' k' js' where t: "copy_step s = (ds', k', js')" by (cases "copy_step s")
    show ?thesis using copy_step_ok [of n k ds js ds' k' js'] that t by (simp add: s)
  qed
  have "\<exists>t. while_option (\<lambda>s. fst s \<noteq> []) copy_step (cs, n, []) = Some t"
    by (rule measure_while_option_Some [where P = ?I and f = "\<lambda>s. pending (fst s)", OF _ start]) (rule step)
  then obtain t where t: "while_option (\<lambda>s. fst s \<noteq> []) copy_step (cs, n, []) = Some t" by blast
  have "?I t" by (rule while_option_rule [where P = ?I, OF _ t]) (use step start in auto)
  then show ?thesis using t by (cases t) (auto simp: sequential_copies_def)
qed

text \<open>Phis whose results are different registers.\<close>

definition phi_id :: "ir_inst \<Rightarrow> nat" where
  "phi_id i = v_id (the (i_result i))"

definition reg_phi :: "nat \<Rightarrow> ir_inst \<Rightarrow> bool" where
  "reg_phi n i \<longleftrightarrow> (case i_result i of Some d \<Rightarrow> v_kind d = IR_VAL_REG \<and> v_id d < n | None \<Rightarrow> False)"

lemma reg_phiE:
  assumes "reg_phi n i"
  obtains d where "i_result i = Some d" "v_kind d = IR_VAL_REG" "phi_id i = v_id d" "v_id d < n"
  using assms by (auto simp: reg_phi_def phi_id_def split: option.splits)

lemma small_blockD:
  assumes "small_block n bb"
  shows "length (phis_of bb) \<le> 64" "\<forall>i \<in> set (phis_of bb). reg_phi n i" "distinct (map phi_id (phis_of bb))"
    "\<forall>i \<in> set (phis_of bb). regs_below n (map snd (i_phis i))"
    "\<forall>i \<in> set (body_of bb). regs_below n (i_lhs i # i_rhs i # map Some (i_args i))"
  using assms by (auto simp: small_block_def list_all_iff reg_phi_def phi_id_def [abs_def])

lemma phi_copy_length: "length (phi_copy p i) \<le> 1"
  by (simp add: phi_copy_def split: option.split prod.split)

lemma phi_copies_all:
  assumes "length (phis_of bb) \<le> 64"
  shows "phi_copies bb p = concat (map (phi_copy p) (phis_of bb))"
proof -
  have "length (concat (map (phi_copy p) is)) \<le> length is" for "is"
  proof (induction "is")
    case (Cons i "is")
    then show ?case using phi_copy_length [of p i] by simp
  qed simp
  then show ?thesis using assms le_trans unfolding phi_copies_def phis_of_def by (metis take_all)
qed

lemma phi_copy_dst:
  assumes "reg_phi n i" and "c \<in> set (phi_copy p i)"
  shows "v_kind (fst c) = IR_VAL_REG" "dst_id c = phi_id i" "\<exists>e \<in> set (i_phis i). snd c = snd e"
proof -
  obtain d where d: "i_result i = Some d" "v_kind d = IR_VAL_REG" "phi_id i = v_id d" using assms(1) by (rule reg_phiE)
  then obtain e where "List.find (\<lambda>e. fst e = Some p) (i_phis i) = Some e" "c = (d, snd e)"
    using assms(2) by (cases "List.find (\<lambda>e. fst e = Some p) (i_phis i)") (auto simp: phi_copy_def split: if_splits)
  then show "v_kind (fst c) = IR_VAL_REG" "dst_id c = phi_id i" "\<exists>e \<in> set (i_phis i). snd c = snd e"
    using d by (auto simp: dst_id_def dest: find_SomeD)
qed

lemma subset_single: "A \<subseteq> {x} \<Longrightarrow> B \<subseteq> C \<Longrightarrow> x \<notin> C \<Longrightarrow> A \<inter> B = {}" "A \<subseteq> {x} \<Longrightarrow> B \<subseteq> C \<Longrightarrow> A \<union> B \<subseteq> insert x C"
  by blast+

lemma phi_copies_ok:
  assumes "\<forall>i \<in> set is. reg_phi n0 i" and "distinct (map phi_id is)" and "\<forall>i \<in> set is. regs_below n0 (map snd (i_phis i))"
    and "n0 \<le> n"
  shows "copies_ok n n (concat (map (phi_copy p) is))"
proof -
  have d: "distinct (map dst_id (concat (map (phi_copy p) is))) \<and> dst_id ` set (concat (map (phi_copy p) is)) \<subseteq> phi_id ` set is"
    using assms(1,2)
  proof (induction "is")
    case (Cons i "is")
    let ?cs = "concat (map (phi_copy p) is)"
    have one: "distinct (map dst_id (phi_copy p i))" using phi_copy_length [of p i] by (cases "phi_copy p i") auto
    have i: "dst_id ` set (phi_copy p i) \<subseteq> {phi_id i}" using phi_copy_dst(2) Cons.prems(1) by fastforce
    have IH: "distinct (map dst_id ?cs)" "dst_id ` set ?cs \<subseteq> phi_id ` set is" using Cons by simp_all
    have "phi_id i \<notin> phi_id ` set is" using Cons.prems(2) by simp
    then have "dst_id ` set (phi_copy p i) \<inter> dst_id ` set ?cs = {}" by (rule subset_single(1) [OF i IH(2)])
    then have "distinct (map dst_id (phi_copy p i @ ?cs))" using one IH(1) by (simp only: map_append distinct_append set_map)
    moreover have "dst_id ` set (phi_copy p i @ ?cs) \<subseteq> insert (phi_id i) (phi_id ` set is)"
      unfolding set_append image_Un by (rule subset_single(2) [OF i IH(2)])
    ultimately show ?case by simp
  qed simp
  have "v_kind (fst c) = IR_VAL_REG \<and> dst_id c < n \<and> (case reg_src (snd c) of Some k \<Rightarrow> k < n | None \<Rightarrow> True)"
    if c: "c \<in> set (concat (map (phi_copy p) is))" for c
  proof -
    obtain i where i: "i \<in> set is" "c \<in> set (phi_copy p i)" using c by auto
    have r: "reg_phi n0 i" using i(1) assms(1) by blast
    obtain d where "i_result i = Some d" "v_kind d = IR_VAL_REG" "phi_id i = v_id d" "v_id d < n0" using r by (rule reg_phiE)
    moreover obtain e where e: "e \<in> set (i_phis i)" "snd c = snd e" using phi_copy_dst(3) [OF r i(2)] by blast
    moreover have "case reg_src (snd e) of Some k \<Rightarrow> k < n0 | None \<Rightarrow> True"
      using assms(3) i(1) e(1) unfolding regs_below_def by (simp add: list_all_iff)
    ultimately show ?thesis using phi_copy_dst(1,2) [OF r i(2)] assms(4) by (auto split: option.splits)
  qed
  then show ?thesis using d by (simp add: copies_ok_def list_all_iff)
qed

lemma find_id_None: "distinct (map g (i # is)) \<Longrightarrow> List.find (\<lambda>j. g j = g i) is = None"
  by (simp add: find_None_iff) (metis image_eqI)

section \<open>Entering a block is a parallel assignment\<close>

lemma enter_fold:
  assumes "\<forall>i \<in> set is. reg_phi n i" and "distinct (map phi_id is)"
  shows "fold (\<lambda>i. set_result i (phi_value w p r i)) is s k =
    (case List.find (\<lambda>i. phi_id i = k) is of Some i \<Rightarrow> phi_value w p r i | None \<Rightarrow> s k)"
  using assms
proof (induction "is" arbitrary: s)
  case (Cons i "is")
  have ri: "reg_phi n i" using Cons.prems(1) by simp
  obtain d where d: "i_result i = Some d" "v_kind d = IR_VAL_REG" "phi_id i = v_id d" using ri by (rule reg_phiE)
  have s: "set_result i (phi_value w p r i) s = s(phi_id i := phi_value w p r i)" using d by (simp add: set_result_def)
  show ?case
  proof (cases "phi_id i = k")
    case True
    then have "List.find (\<lambda>i. phi_id i = k) is = None" using find_id_None [OF Cons.prems(2)] by simp
    then show ?thesis using Cons True s by simp
  next
    case False
    then show ?thesis using Cons s by (simp split: option.split)
  qed
qed simp

lemma parallel_phis:
  assumes "\<forall>i \<in> set is. reg_phi n i" and "distinct (map phi_id is)" and "\<forall>i \<in> set is. phi_value w p r i \<noteq> None"
  shows "parallel_result w (concat (map (phi_copy p) is)) r k =
    (case List.find (\<lambda>i. phi_id i = k) is of Some i \<Rightarrow> phi_value w p r i | None \<Rightarrow> r k)"
  using assms
proof (induction "is")
  case (Cons i "is")
  have ri: "reg_phi n i" using Cons.prems(1) by simp
  obtain d where d: "i_result i = Some d" "v_kind d = IR_VAL_REG" "phi_id i = v_id d" using ri by (rule reg_phiE)
  obtain e where e: "List.find (\<lambda>e. fst e = Some p) (i_phis i) = Some e"
    using Cons.prems(3) by (auto simp: phi_value_def split: option.splits)
  have v: "phi_value w p r i = assigned w r (v_type d) (snd e)" using e d(1) by (simp add: phi_value_def result_type_def)
  have c: "phi_copy p i = (if same_val (snd e) (Some d) then [] else [(d, snd e)])"
    using e d(1) by (simp add: phi_copy_def case_prod_beta)
  have IH: "parallel_result w (concat (map (phi_copy p) is)) r k =
    (case List.find (\<lambda>i. phi_id i = k) is of Some i \<Rightarrow> phi_value w p r i | None \<Rightarrow> r k)" using Cons by simp
  have none: "List.find (\<lambda>i. phi_id i = k) is = None" if "phi_id i = k"
    using find_id_None [OF Cons.prems(2)] that by simp
  show ?case
  proof (cases "same_val (snd e) (Some d)")
    case True
    then have src: "reg_src (snd e) = Some (v_id d)" by (simp add: same_val_reg [OF d(2)])
    then have "eval_operand w r (snd e) = r (v_id d)"
      by (auto simp: reg_src_def eval_operand_def eval_value_def split: option.splits if_splits)
    then have "assigned w r (v_type d) (snd e) = r (v_id d)" using src by (simp add: assigned_reg_src)
    then show ?thesis using True c IH none v d(3) by auto
  next
    case False
    then show ?thesis using c IH v d(3) by (simp add: parallel_result_def dst_id_def)
  qed
qed (simp add: parallel_result_def)

section \<open>Registers below a bound\<close>

definition agree :: "nat \<Rightarrow> regs \<Rightarrow> regs \<Rightarrow> bool" where
  "agree n r s \<longleftrightarrow> (\<forall>k < n. s k = r k)"

lemma eval_operand_agree: "agree n r s \<Longrightarrow> regs_below n (v # vs) \<Longrightarrow> eval_operand w s v = eval_operand w r v"
  by (auto simp: agree_def regs_below_def reg_src_def eval_operand_def eval_value_def split: option.splits ir_value_kind.splits)

lemma eval_values_agree:
  assumes "agree n r s" and "regs_below n (map Some vs)"
  shows "eval_values w s vs = eval_values w r vs"
  using assms(2)
proof (induction vs)
  case (Cons v vs)
  then have "regs_below n [Some v]" "regs_below n (map Some vs)" by (simp_all add: regs_below_def)
  then show ?case using Cons.IH eval_operand_agree [OF assms(1), of "Some v" "[]" w] by (simp add: eval_operand_def)
qed simp

lemma operands_below:
  assumes "regs_below n (i_lhs i # i_rhs i # map Some (i_args i))"
  shows "regs_below n (map Some (operands i))"
  using assms by (cases "i_lhs i"; cases "i_rhs i") (simp_all add: operands_def List.map_filter_def regs_below_def)

lemma step_agree:
  assumes "agree n r s" and "regs_below n (i_lhs i # i_rhs i # map Some (i_args i))" and "step w i r m = Some q"
  shows "q = Next r' m' \<Longrightarrow> \<exists>s'. step w i s m = Some (Next s' m') \<and> agree n r' s'"
    and "q = Goto b r' m' \<Longrightarrow> step w i s m = Some (Goto b s m')"
    and "q = Done v m' \<Longrightarrow> step w i s m = Some (Done v m')"
proof -
  have "regs_below n [i_rhs i]" using assms(2) by (simp add: regs_below_def)
  then have "operands_agree w i r i s"
    using eval_operand_agree [OF assms(1,2), of w] eval_operand_agree [OF assms(1), of "i_rhs i" "[]" w]
      eval_values_agree [OF assms(1) operands_below [OF assms(2)], of w]
    by (simp add: operands_agree_def assigned_eq [OF eval_operand_agree [OF assms(1,2)]])
  moreover obtain a where a: "action w i r m = Some a" "q = outcome_of i r a" using assms(3) by (auto simp: step_action)
  ultimately have st: "step w i s m = Some (outcome_of i s a)" using action_agrees [of w i r i s m a] by (simp add: step_action)
  show "\<exists>s'. step w i s m = Some (Next s' m') \<and> agree n r' s'" if "q = Next r' m'"
    using st a(2) that assms(1) by (cases a) (auto simp: outcome_of_def agree_def set_result_def split: option.splits)
  show "step w i s m = Some (Goto b s m')" if "q = Goto b r' m'"
    using st a(2) that by (cases a) (simp_all add: outcome_of_def)
  show "step w i s m = Some (Done v m')" if "q = Done v m'"
    using st a(2) that by (cases a) (simp_all add: outcome_of_def)
qed

lemma run_plain_agree:
  assumes "agree n r s" and "\<forall>i \<in> set is. regs_below n (i_lhs i # i_rhs i # map Some (i_args i))"
    and "run_plain w is r m = Some (r', m')"
  shows "\<exists>s'. run_plain w is s m = Some (s', m') \<and> agree n r' s'"
  using assms
proof (induction "is" arbitrary: r s m)
  case (Cons i "is")
  obtain r1 m1 where r1: "step w i r m = Some (Next r1 m1)" "run_plain w is r1 m1 = Some (r', m')"
    using Cons.prems(3) by (auto split: option.splits outcome.splits)
  have i: "regs_below n (i_lhs i # i_rhs i # map Some (i_args i))" using Cons.prems(2) by simp
  obtain s1 where s1: "step w i s m = Some (Next s1 m1)" "agree n r1 s1"
    using step_agree(1) [OF Cons.prems(1) i r1(1) refl] by blast
  have "\<exists>s'. run_plain w is s1 m1 = Some (s', m') \<and> agree n r' s'"
    by (rule Cons.IH [OF s1(2) _ r1(2)]) (use Cons.prems(2) in simp)
  then show ?case using s1(1) by simp
qed simp

section \<open>Lowering the phis\<close>

definition jumps_to :: "ir_function \<Rightarrow> nat \<Rightarrow> nat \<Rightarrow> bool" where
  "jumps_to f c b \<longleftrightarrow> i_op (last (bb_insts (block_at f c))) = IR_OP_BR \<and> i_true (last (bb_insts (block_at f c))) = Some b"

text \<open>The instructions in front of the terminator of a block.\<close>

definition placed :: "ir_function \<Rightarrow> nat set \<Rightarrow> nat \<Rightarrow> ir_inst list \<Rightarrow> bool" where
  "placed f L c mid \<longleftrightarrow> list_all is_copy mid \<and>
     (if c \<in> L then \<exists>b n n'. jumps_to f c b \<and> fn_next_reg f \<le> n \<and> sequential_copies (phi_copies (block_at f b) c) n = Some (n', mid)
      else mid = [])"

text \<open>The blocks \<open>D\<close> have lost their phis, the blocks \<open>L\<close> have got their copies.\<close>

definition lower_inv :: "ir_function \<Rightarrow> nat set \<Rightarrow> nat set \<Rightarrow> ir_function \<Rightarrow> bool" where
  "lower_inv f D L h \<longleftrightarrow> fn_order h = fn_order f \<and> fn_entry h = fn_entry f \<and> length (fn_heap h) = length (fn_heap f) \<and>
     fn_next_reg f \<le> fn_next_reg h \<and>
     (\<forall>c \<in> set (fn_order f). bb_preds (block_at h c) = bb_preds (block_at f c) \<and>
        (\<exists>mid. bb_insts (block_at h c) = (if c \<in> D then [] else phis_of (block_at f c)) @ butlast (body_of (block_at f c)) @ mid @
             [last (bb_insts (block_at f c))] \<and> placed f L c mid))"

lemma phis_in_front:
  assumes "shaped (bb_insts bb)" and "list_all is_copy mid"
  shows "takeWhile is_phi (phis_of bb @ butlast (body_of bb) @ mid @ [last (bb_insts bb)]) = phis_of bb"
    and "dropWhile is_phi (phis_of bb @ butlast (body_of bb) @ mid @ [last (bb_insts bb)]) = butlast (body_of bb) @ mid @ [last (bb_insts bb)]"
    and "phis_of bb \<noteq> [] \<Longrightarrow> is_phi (hd (phis_of bb @ butlast (body_of bb) @ mid @ [last (bb_insts bb)]))"
proof -
  obtain ys t where t: "body_of bb = ys @ [t]" "last (bb_insts bb) = t" "ir_is_terminator (i_op t)"
    using shaped_parts [OF assms(1)] unfolding body_of_def by blast
  have all: "\<forall>i \<in> set (phis_of bb). is_phi i" by (auto simp: phis_of_def dest: set_takeWhileD)
  have ys: "ys = [] \<or> \<not> is_phi (hd ys)"
    using t(1) hd_dropWhile [of is_phi "bb_insts bb"] unfolding body_of_def by (cases ys) auto
  have mid: "mid = [] \<or> \<not> is_phi (hd mid)" using assms(2) by (cases mid) (auto simp: is_copy_def is_phi_def)
  have "takeWhile is_phi (ys @ mid @ [t]) = [] \<and> dropWhile is_phi (ys @ mid @ [t]) = ys @ mid @ [t]"
    using ys mid terminator_no_phi [OF t(3)] by (cases ys; cases mid) auto
  then show "takeWhile is_phi (phis_of bb @ butlast (body_of bb) @ mid @ [last (bb_insts bb)]) = phis_of bb"
      "dropWhile is_phi (phis_of bb @ butlast (body_of bb) @ mid @ [last (bb_insts bb)]) = butlast (body_of bb) @ mid @ [last (bb_insts bb)]"
    using all unfolding t(1,2) butlast_snoc by simp_all
  show "phis_of bb \<noteq> [] \<Longrightarrow> is_phi (hd (phis_of bb @ butlast (body_of bb) @ mid @ [last (bb_insts bb)]))"
    using all by (cases "phis_of bb") auto
qed

lemma insert_copies:
  "bb_insts bb = xs @ [t] \<Longrightarrow> fold insert_before_terminator is bb = bb\<lparr>bb_insts := xs @ is @ [t]\<rparr>"
proof (induction "is" arbitrary: xs bb)
  case (Cons i "is")
  have "insert_before_terminator i bb = bb\<lparr>bb_insts := (xs @ [i]) @ [t]\<rparr>"
    using Cons.prems by (simp add: insert_before_terminator_def)
  then show ?case using Cons.IH [of "insert_before_terminator i bb" "xs @ [i]"] by simp
qed simp

lemma lowerableD:
  assumes "lowerable f"
  shows "order_ok f" "fn_order f \<noteq> []"
    and "b \<in> set (fn_order f) \<Longrightarrow> shaped (bb_insts (block_at f b))"
    and "b \<in> set (fn_order f) \<Longrightarrow> small_block (fn_next_reg f) (block_at f b)"
    and "b \<in> set (fn_order f) \<Longrightarrow> distinct (bb_preds (block_at f b))"
    and "b \<in> set (fn_order f) \<Longrightarrow> set (bb_preds (block_at f b)) \<subseteq> set (fn_order f)"
    and "b \<in> set (fn_order f) \<Longrightarrow> phis_of (block_at f b) \<noteq> [] \<Longrightarrow> p \<in> set (fn_order f) \<Longrightarrow>
      p \<in> set (bb_preds (block_at f b)) \<longleftrightarrow> jumps_to f p b"
    and "b \<in> set (fn_order f) \<Longrightarrow> phis_of (block_at f b) \<noteq> [] \<Longrightarrow> p \<in> set (fn_order f) \<Longrightarrow>
      b \<in> set (inst_targets (last (bb_insts (block_at f p)))) \<Longrightarrow> jumps_to f p b"
proof -
  note l = assms [unfolded lowerable_def]
  show "order_ok f" "fn_order f \<noteq> []" using l by blast+
  assume b: "b \<in> set (fn_order f)"
  note lb = bspec [OF conjunct2 [OF conjunct2 [OF l]] b]
  show "shaped (bb_insts (block_at f b))" "small_block (fn_next_reg f) (block_at f b)" "distinct (bb_preds (block_at f b))"
    "set (bb_preds (block_at f b)) \<subseteq> set (fn_order f)" using lb by simp_all
  assume ph: "phis_of (block_at f b) \<noteq> []" and p: "p \<in> set (fn_order f)"
  have i: "p \<in> set (bb_preds (block_at f b)) \<longleftrightarrow> b \<in> set (inst_targets (last (bb_insts (block_at f p))))" using lb p by simp
  have br: "p \<in> set (bb_preds (block_at f b)) \<Longrightarrow> i_op (last (bb_insts (block_at f p))) = IR_OP_BR" using lb ph by simp
  show t: "jumps_to f p b" if a: "b \<in> set (inst_targets (last (bb_insts (block_at f p))))"
  proof -
    have "i_op (last (bb_insts (block_at f p))) = IR_OP_BR" using br i a by blast
    then show ?thesis using a by (simp add: jumps_to_def inst_targets_def split: option.splits)
  qed
  have "jumps_to f p b \<Longrightarrow> b \<in> set (inst_targets (last (bb_insts (block_at f p))))" by (simp add: jumps_to_def inst_targets_def)
  then show "p \<in> set (bb_preds (block_at f b)) \<longleftrightarrow> jumps_to f p b" using t i by blast
qed

lemma phi_copies_same:
  assumes "takeWhile is_phi (bb_insts bb') = phis_of bb"
  shows "phi_copies bb' p = phi_copies bb p"
  using assms by (simp add: phi_copies_def phis_of_def)

lemma lower_edge_inv:
  assumes f: "lowerable f" and inv: "lower_inv f D L h" and b: "b \<in> set (fn_order f)" "b \<notin> D"
    and p: "p \<in> set (fn_order f)" "p \<notin> L" "jumps_to f p b"
  shows "\<exists>g. emit_sequential_copies_before_term p (phi_copies (block_at h b) p) h = Some g \<and> lower_inv f D (insert p L) g"
proof -
  note F = lowerableD [OF f] and I = inv [unfolded lower_inv_def]
  note B = small_blockD [OF F(4) [OF b(1)]]
  obtain mb where mb: "bb_insts (block_at h b) = phis_of (block_at f b) @ butlast (body_of (block_at f b)) @ mb @ [last (bb_insts (block_at f b))]"
      "list_all is_copy mb" using I b by (auto simp: placed_def)
  have cs: "phi_copies (block_at h b) p = phi_copies (block_at f b) p"
    by (rule phi_copies_same) (use mb(1) phis_in_front(1) [OF F(3) [OF b(1)] mb(2)] in simp)
  have n: "fn_next_reg f \<le> fn_next_reg h" using I by blast
  have "copies_ok (fn_next_reg h) (fn_next_reg h) (phi_copies (block_at f b) p)"
    using phi_copies_ok [OF B(2,3,4) n] phi_copies_all [OF B(1)] by simp
  from sequential_copies_ends [OF this] obtain n' "is" where s: "sequential_copies (phi_copies (block_at f b) p) (fn_next_reg h) = Some (n', is)"
      "fn_next_reg h \<le> n'" "list_all is_copy is" by blast
  define g where "g = update_block p (fold insert_before_terminator is) (h\<lparr>fn_next_reg := n'\<rparr>)"
  have e: "emit_sequential_copies_before_term p (phi_copies (block_at h b) p) h = Some g"
    using s(1) cs by (simp add: emit_sequential_copies_before_term_def g_def)
  have lp: "p < length (fn_heap h)" using F(1) p(1) I by (auto simp: order_ok_def)
  have at: "block_at g c = (if c = p then fold insert_before_terminator is (block_at h p) else block_at h c)" for c
  proof -
    have "block_at (h\<lparr>fn_next_reg := n'\<rparr>) c = block_at h c" for c by (simp add: block_at_def)
    then show ?thesis using lp by (simp add: g_def block_at_update_block)
  qed
  have "lower_inv f D (insert p L) g"
    unfolding lower_inv_def
  proof (intro conjI ballI)
    show "fn_order g = fn_order f" "fn_entry g = fn_entry f" "length (fn_heap g) = length (fn_heap f)" "fn_next_reg f \<le> fn_next_reg g"
      using I s(2) by (simp_all add: g_def)
    fix c assume c: "c \<in> set (fn_order f)"
    obtain mid where mid: "bb_insts (block_at h c) = (if c \<in> D then [] else phis_of (block_at f c)) @ butlast (body_of (block_at f c)) @ mid @
          [last (bb_insts (block_at f c))]" "placed f L c mid" "bb_preds (block_at h c) = bb_preds (block_at f c)" using I c by blast
    have new: "block_at g p = (block_at h p)\<lparr>bb_insts := ((if p \<in> D then [] else phis_of (block_at f p)) @ butlast (body_of (block_at f p))) @ is @
          [last (bb_insts (block_at f p))]\<rparr>" if "c = p"
    proof -
      have "mid = []" using mid(2) that p(2) by (simp add: placed_def)
      then show ?thesis using at [of p] insert_copies [of "block_at h p"] mid(1) that by simp
    qed
    show "bb_preds (block_at g c) = bb_preds (block_at f c)" using mid(3) new at by (cases "c = p") simp_all
    show "\<exists>mid. bb_insts (block_at g c) = (if c \<in> D then [] else phis_of (block_at f c)) @ butlast (body_of (block_at f c)) @ mid @
        [last (bb_insts (block_at f c))] \<and> placed f (insert p L) c mid"
    proof (cases "c = p")
      case True
      have "placed f (insert p L) c is" using s(1,3) n p(3) True unfolding placed_def by auto
      then show ?thesis using new True by auto
    next
      case False
      then show ?thesis using mid at [of c] by (auto simp: placed_def)
    qed
  qed
  then show ?thesis using e by blast
qed

lemma lower_edges_inv:
  assumes f: "lowerable f" and b: "b \<in> set (fn_order f)" "b \<notin> D" and inv: "lower_inv f D L h" and ps: "distinct ps" "set ps \<inter> L = {}"
    and to: "\<And>p. p \<in> set ps \<Longrightarrow> p \<in> set (fn_order f) \<and> jumps_to f p b"
  shows "\<exists>g. lower_edges b ps h = Some g \<and> lower_inv f D (set ps \<union> L) g"
  using inv ps to
proof (induction ps arbitrary: L h)
  case (Cons p ps)
  have p: "p \<in> set (fn_order f)" "p \<notin> L" "jumps_to f p b" using Cons.prems(3,4) by simp_all
  obtain g where g: "emit_sequential_copies_before_term p (phi_copies (block_at h b) p) h = Some g" "lower_inv f D (insert p L) g"
    using lower_edge_inv [OF f Cons.prems(1) b p] by blast
  have "\<exists>g'. lower_edges b ps g = Some g' \<and> lower_inv f D (set ps \<union> insert p L) g'"
    by (rule Cons.IH [OF g(2)]) (use Cons.prems in auto)
  then show ?case using g(1) by simp
qed simp

text \<open>The blocks that have their copies once the blocks in a set are done.\<close>

definition sources :: "ir_function \<Rightarrow> nat set \<Rightarrow> nat set" where
  "sources f D = {p \<in> set (fn_order f). \<exists>b \<in> D. phis_of (block_at f b) \<noteq> [] \<and> jumps_to f p b}"

lemma jumps_to_unique: "jumps_to f p b \<Longrightarrow> jumps_to f p c \<Longrightarrow> b = c"
  by (simp add: jumps_to_def)

lemma lower_inv_no_phis:
  assumes "lower_inv f D L h" and "phis_of (block_at f b) = []"
  shows "lower_inv f (insert b D) L h"
  unfolding lower_inv_def
proof (intro conjI ballI)
  show "fn_order h = fn_order f" "fn_entry h = fn_entry f" "length (fn_heap h) = length (fn_heap f)" "fn_next_reg f \<le> fn_next_reg h"
    using assms(1) by (simp_all add: lower_inv_def)
  fix c assume c: "c \<in> set (fn_order f)"
  show "bb_preds (block_at h c) = bb_preds (block_at f c)" using assms(1) c by (simp add: lower_inv_def)
  show "\<exists>mid. bb_insts (block_at h c) = (if c \<in> insert b D then [] else phis_of (block_at f c)) @ butlast (body_of (block_at f c)) @ mid @
      [last (bb_insts (block_at f c))] \<and> placed f L c mid"
    using assms c by (cases "c = b") (auto simp: lower_inv_def)
qed

lemma drop_phis_inv:
  assumes f: "lowerable f" and inv: "lower_inv f D L h" and b: "b \<in> set (fn_order f)" "b \<notin> D"
  shows "lower_inv f (insert b D) L (update_block b drop_block_phis h)"
  unfolding lower_inv_def
proof (intro conjI ballI)
  note F = lowerableD [OF f] and I = inv [unfolded lower_inv_def]
  show "fn_order (update_block b drop_block_phis h) = fn_order f" "fn_entry (update_block b drop_block_phis h) = fn_entry f"
    "length (fn_heap (update_block b drop_block_phis h)) = length (fn_heap f)" "fn_next_reg f \<le> fn_next_reg (update_block b drop_block_phis h)"
    using I by simp_all
  fix c assume c: "c \<in> set (fn_order f)"
  have lb: "b < length (fn_heap h)" using F(1) b(1) I by (auto simp: order_ok_def)
  have at: "block_at (update_block b drop_block_phis h) c = (if c = b then drop_block_phis (block_at h b) else block_at h c)"
    using lb by (simp add: block_at_update_block)
  show "bb_preds (block_at (update_block b drop_block_phis h) c) = bb_preds (block_at f c)"
    using I c at by (cases "c = b") (simp_all add: drop_block_phis_def)
  obtain mid where mid: "bb_insts (block_at h c) = (if c \<in> D then [] else phis_of (block_at f c)) @ butlast (body_of (block_at f c)) @ mid @
        [last (bb_insts (block_at f c))]" "placed f L c mid" using I c by blast
  show "\<exists>mid. bb_insts (block_at (update_block b drop_block_phis h) c) =
      (if c \<in> insert b D then [] else phis_of (block_at f c)) @ butlast (body_of (block_at f c)) @ mid @
      [last (bb_insts (block_at f c))] \<and> placed f L c mid"
  proof (cases "c = b")
    case True
    have "list_all is_copy mid" using mid(2) by (simp add: placed_def)
    then have "bb_insts (drop_block_phis (block_at h b)) = butlast (body_of (block_at f c)) @ mid @ [last (bb_insts (block_at f c))]"
      using phis_in_front(2) [OF F(3) [OF c]] mid(1) True b(2) by (simp add: drop_block_phis_def)
    then show ?thesis using at mid(2) True by auto
  next
    case False
    then show ?thesis using at mid by auto
  qed
qed

lemma lower_block_inv:
  assumes f: "lowerable f" and inv: "lower_inv f D (sources f D) h" and b: "b \<in> set (fn_order f)" "b \<notin> D"
  shows "\<exists>g. lower_block b h = Some g \<and> lower_inv f (insert b D) (sources f (insert b D)) g"
proof -
  note F = lowerableD [OF f] and I = inv [unfolded lower_inv_def]
  obtain mid where mid: "bb_insts (block_at h b) = phis_of (block_at f b) @ butlast (body_of (block_at f b)) @ mid @ [last (bb_insts (block_at f b))]"
      "list_all is_copy mid" using I b by (auto simp: placed_def)
  have "phis_of (block_at h b) = phis_of (block_at f b)"
    using mid(1) phis_in_front(1) [OF F(3) [OF b(1)] mid(2)] by (simp add: phis_of_def)
  then have has: "has_phi_nodes (block_at h b) \<longleftrightarrow> phis_of (block_at f b) \<noteq> []" by (simp add: has_phi_nodes_iff)
  show ?thesis
  proof (cases "phis_of (block_at f b) = []")
    case True
    then have "sources f (insert b D) = sources f D" by (auto simp: sources_def)
    then show ?thesis using has True lower_inv_no_phis [OF inv True] by (simp add: lower_block_def)
  next
    case False
    let ?ps = "bb_preds (block_at f b)"
    have to: "p \<in> set (fn_order f) \<and> jumps_to f p b" if "p \<in> set ?ps" for p using F(6,7) [OF b(1)] False that by blast
    have "set ?ps \<inter> sources f D = {}"
    proof -
      have "p \<notin> sources f D" if p: "p \<in> set ?ps" for p
        using jumps_to_unique [of f p b] to [OF p] b(2) by (auto simp: sources_def)
      then show ?thesis by blast
    qed
    then obtain g where g: "lower_edges b ?ps h = Some g" "lower_inv f D (set ?ps \<union> sources f D) g"
      using lower_edges_inv [OF f b inv F(5) [OF b(1)] _ to] by blast
    have "set ?ps \<union> sources f D = sources f (insert b D)"
      using to F(7) [OF b(1) False] False by (auto simp: sources_def)
    then have "lower_inv f (insert b D) (sources f (insert b D)) (update_block b drop_block_phis g)"
      using drop_phis_inv [OF f g(2) b] by simp
    moreover have "bb_preds (block_at h b) = ?ps" using I b(1) by blast
    ultimately show ?thesis using has False g(1) by (simp add: lower_block_def)
  qed
qed

lemma lower_blocks_inv:
  assumes f: "lowerable f" and "lower_inv f D (sources f D) h" and "distinct bs" and "set bs \<subseteq> set (fn_order f)" and "set bs \<inter> D = {}"
  shows "\<exists>g. lower_blocks bs h = Some g \<and> lower_inv f (set bs \<union> D) (sources f (set bs \<union> D)) g"
  using assms(2-)
proof (induction bs arbitrary: D h)
  case (Cons b bs)
  have b: "b \<in> set (fn_order f)" "b \<notin> D" using Cons.prems(3,4) by simp_all
  obtain g where g: "lower_block b h = Some g" "lower_inv f (insert b D) (sources f (insert b D)) g"
    using lower_block_inv [OF f Cons.prems(1) b] by blast
  have "\<exists>g'. lower_blocks bs g = Some g' \<and> lower_inv f (set bs \<union> insert b D) (sources f (set bs \<union> insert b D)) g'"
    by (rule Cons.IH [OF g(2)]) (use Cons.prems in auto)
  then show ?case using g(1) by simp
qed simp

lemma lower_start:
  assumes "lowerable f"
  shows "lower_inv f {} (sources f {}) f"
  unfolding lower_inv_def
proof (intro conjI ballI)
  fix c assume c: "c \<in> set (fn_order f)"
  obtain ys t where "body_of (block_at f c) = ys @ [t]" "last (bb_insts (block_at f c)) = t"
      "bb_insts (block_at f c) = phis_of (block_at f c) @ ys @ [t]"
    using shaped_parts [OF lowerableD(3) [OF assms c]] unfolding body_of_def phis_of_def by blast
  then show "\<exists>mid. bb_insts (block_at f c) = (if c \<in> {} then [] else phis_of (block_at f c)) @ butlast (body_of (block_at f c)) @ mid @
      [last (bb_insts (block_at f c))] \<and> placed f (sources f {}) c mid"
    by (intro exI [of _ "[]"]) (simp add: placed_def sources_def)
qed simp_all

section \<open>Runs of the lowered function\<close>

lemma enter_lowered:
  assumes small: "small_block n0 (block_at f b)" and mid: "sequential_copies (phi_copies (block_at f b) p) n = Some (n', mid)" "n0 \<le> n"
    and enter: "enter_block w (block_at f b) p r = Some r1" and a: "agree n0 r s"
  shows "\<exists>s1. run_copies w mid s = Some s1 \<and> agree n0 r1 s1"
proof -
  let ?is = "phis_of (block_at f b)"
  note B = small_blockD [OF small]
  have r1: "r1 = fold (\<lambda>i. set_result i (phi_value w p r i)) ?is r" and some: "\<forall>i \<in> set ?is. phi_value w p r i \<noteq> None"
    using enter by (auto simp: enter_block_def list_all_iff split: if_splits)
  have same: "phi_value w p s i = phi_value w p r i" if "i \<in> set ?is" for i
  proof (cases "List.find (\<lambda>e. fst e = Some p) (i_phis i)")
    case (Some e)
    then have "e \<in> set (i_phis i)" by (auto dest: find_SomeD)
    then have "regs_below n0 [snd e]" using B(4) that by (auto simp: regs_below_def list_all_iff)
    then have "eval_operand w s (snd e) = eval_operand w r (snd e)" by (rule eval_operand_agree [OF a])
    then show ?thesis using Some assigned_eq by (simp add: phi_value_def)
  qed (simp add: phi_value_def)
  let ?cs = "phi_copies (block_at f b) p"
  have cs: "?cs = concat (map (phi_copy p) ?is)" by (rule phi_copies_all [OF B(1)])
  have ok: "copies_ok n n ?cs" unfolding cs by (rule phi_copies_ok [OF B(2,3,4) mid(2)])
  have par: "parallel_result w ?cs s k = (case List.find (\<lambda>i. phi_id i = k) ?is of Some i \<Rightarrow> phi_value w p s i | None \<Rightarrow> s k)" for k
    unfolding cs by (rule parallel_phis [OF B(2,3)]) (use some same in simp)
  have "eval_operand w s (snd c) \<noteq> None" if c: "c \<in> set ?cs" for c
  proof -
    obtain i where i: "i \<in> set ?is" "c \<in> set (phi_copy p i)" using c cs by auto
    then obtain e where "List.find (\<lambda>e. fst e = Some p) (i_phis i) = Some e" "snd c = snd e"
      by (cases "List.find (\<lambda>e. fst e = Some p) (i_phis i)") (auto simp: phi_copy_def split: option.splits if_splits)
    moreover have "phi_value w p s i \<noteq> None" using some same i(1) by simp
    ultimately show ?thesis by (simp add: phi_value_def)
  qed
  from sequential_copies_result [OF ok this] obtain s1 where s1: "run_copies w mid s = Some s1"
      "\<forall>k < n. s1 k = parallel_result w ?cs s k" using mid(1) by auto
  have "s1 k = r1 k" if "k < n0" for k
  proof -
    have "s1 k = parallel_result w ?cs s k" using s1(2) that mid(2) by simp
    moreover have "r1 k = (case List.find (\<lambda>i. phi_id i = k) ?is of Some i \<Rightarrow> phi_value w p r i | None \<Rightarrow> r k)"
      unfolding r1 by (rule enter_fold [OF B(2,3)])
    moreover have "s k = r k" using a that by (simp add: agree_def)
    ultimately show ?thesis using same par by (auto split: option.split dest: find_SomeD)
  qed
  then show ?thesis using s1(1) by (auto simp: agree_def)
qed

text \<open>The lowered function runs through the same blocks.\<close>

lemma lowered_run:
  assumes f: "lowerable f" and inv: "lower_inv f (set (fn_order f)) (sources f (set (fn_order f))) g"
  shows "run_ssa w f k c r m = Some res \<Longrightarrow> agree (fn_next_reg f) r s \<Longrightarrow> run w g k c s m = Some res"
proof (induction k arbitrary: c r s m)
  case (Suc k)
  note F = lowerableD [OF f] and I = inv [unfolded lower_inv_def]
  let ?n = "fn_next_reg f"
  have c: "c \<in> set (fn_order f)" using Suc.prems(1) by (auto split: if_splits)
  note B = small_blockD [OF F(4) [OF c]]
  obtain q where q: "exec_insts w (body_of (block_at f c)) r m = Some q"
    using Suc.prems(1) c by (cases "exec_insts w (body_of (block_at f c)) r m") auto
  obtain ys t r1 m1 where t: "body_of (block_at f c) = ys @ [t]" "\<forall>i \<in> set ys. \<not> ir_is_terminator (i_op i)"
      "last (bb_insts (block_at f c)) = t" "run_plain w ys r m = Some (r1, m1)" "step w t r1 m1 = Some q" "\<forall>s n. q \<noteq> Next s n"
    using exec_body_parts [OF F(3) [OF c] q] by blast
  have below: "\<forall>i \<in> set ys. regs_below ?n (i_lhs i # i_rhs i # map Some (i_args i))"
      "regs_below ?n (i_lhs t # i_rhs t # map Some (i_args t))" using B(5) t(1) by simp_all
  obtain s1 where s1: "run_plain w ys s m = Some (s1, m1)" "agree ?n r1 s1"
    using run_plain_agree [OF Suc.prems(2) below(1) t(4)] by blast
  obtain mid where mid: "bb_insts (block_at g c) = ys @ mid @ [t]" "placed f (sources f (set (fn_order f))) c mid"
    using I c t(1,3) by auto
  have ex: "exec_insts w (bb_insts (block_at g c)) s m = exec_insts w (mid @ [t]) s1 m1"
    using exec_plain [OF t(2), of w "mid @ [t]" s m] s1(1) mid(1) by simp
  have cg: "c \<in> set (fn_order g)" using c I by simp
  have cp: "list_all is_copy mid" using mid(2) by (simp add: placed_def)
  show ?case
  proof (cases q)
    case (Next s' m')
    then show ?thesis using t(6) by blast
  next
    case (Done v m')
    then have "i_op t = IR_OP_RET" using done_terminator [of w t r1 m1 v m'] t(5) by simp
    then have "c \<notin> sources f (set (fn_order f))" using t(3) by (auto simp: sources_def jumps_to_def)
    then have "mid = []" using mid(2) by (simp add: placed_def)
    moreover have "step w t s1 m1 = Some (Done v m')" using step_agree(3) [OF s1(2) below(2) t(5) Done] .
    ultimately have "exec_insts w (bb_insts (block_at g c)) s m = Some (Done v m')" using ex by simp
    moreover have "res = (v, m')" using Suc.prems(1) q Done c by simp
    ultimately show ?thesis using cg by simp
  next
    case (Goto d r2 m2)
    have g: "ir_is_terminator (i_op t)" "d \<in> set (inst_targets t)" "r2 = r1"
      using goto_terminator [of w t r1 m1 d r2 m2] t(5) Goto by simp_all
    obtain r3 where r3: "enter_block w (block_at f d) c r1 = Some r3" "run_ssa w f k d r3 m2 = Some res"
      using Suc.prems(1) q Goto c g(3) by (auto split: option.splits)
    have d: "d \<in> set (fn_order f)" using r3(2) by (cases k) (auto split: if_splits)
    have st: "step w t s2 m1 = Some (Goto d s2 m2)" if "agree ?n r1 s2" for s2
      using step_agree(2) [OF that below(2) t(5) Goto] .
    have "\<exists>s3. exec_insts w (mid @ [t]) s1 m1 = Some (Goto d s3 m2) \<and> agree ?n r3 s3"
    proof (cases "phis_of (block_at f d) = []")
      case True
      have "c \<notin> sources f (set (fn_order f))"
      proof
        assume "c \<in> sources f (set (fn_order f))"
        then obtain e where "phis_of (block_at f e) \<noteq> []" "jumps_to f c e" by (auto simp: sources_def)
        then show False using g(2) True t(3) by (simp add: jumps_to_def inst_targets_def)
      qed
      then have "mid = []" using mid(2) by (simp add: placed_def)
      moreover have "r3 = r1" using r3(1) True by (simp add: enter_block_def)
      ultimately show ?thesis using st [OF s1(2)] s1(2) by simp
    next
      case False
      have j: "jumps_to f c d" by (rule F(8) [OF d False c]) (use g(2) t(3) in simp)
      then have "c \<in> sources f (set (fn_order f))" using c d False by (auto simp: sources_def)
      then obtain b n n' where b: "jumps_to f c b" "?n \<le> n" "sequential_copies (phi_copies (block_at f b) c) n = Some (n', mid)"
        using mid(2) by (auto simp: placed_def)
      have "b = d" by (rule jumps_to_unique [OF b(1) j])
      then obtain s3 where s3: "run_copies w mid s1 = Some s3" "agree ?n r3 s3"
        using enter_lowered [OF F(4) [OF d] _ b(2) r3(1) s1(2)] b(3) by blast
      have "i_op t = IR_OP_BR" "i_true t = Some d" using j t(3) by (simp_all add: jumps_to_def)
      moreover have "m2 = m1" using st [OF s1(2)] calculation by (simp add: step_def goto_def)
      ultimately have "step w t s3 m1 = Some (Goto d s3 m2)" by (simp add: step_def goto_def)
      then show ?thesis using exec_copies [OF cp s3(1), of "[t]" m1] s3(2) by simp
    qed
    then show ?thesis using ex cg Suc.IH [OF r3(2)] by auto
  qed
qed simp

section \<open>Destruction\<close>

lemma run_same_insts:
  assumes "fn_order g = fn_order f" and "\<And>b. bb_insts (block_at g b) = bb_insts (block_at f b)"
  shows "run w g k b r m = run w f k b r m"
  using assms by (induction k arbitrary: b r m) (simp_all cong: outcome.case_cong option.case_cong)

lemma agree_refl: "agree n r r"
  by (simp add: agree_def)

lemma destruction_runs:
  assumes "lowerable s" and "runs_kept w f s" and "fn_entry s = fn_entry f"
    and "lower_inv s (set (fn_order s)) (sources s (set (fn_order s))) h" and "same_but_edges h g"
    and "ssa_result w f k mem = Some res"
  shows "\<exists>k'. call_result w g k' mem = Some res"
proof -
  have og: "fn_order g = fn_order h" "fn_entry g = fn_entry h" using assms(5) by (simp_all add: same_but_edges_def)
  have hs: "fn_entry h = fn_entry s" using assms(4) by (simp add: lower_inv_def)
  obtain e where e: "fn_entry f = Some e" "run_ssa w f k e Map.empty mem = Some res"
    using assms(6) by (auto simp: ssa_result_def split: option.splits if_splits)
  obtain k' where "run_ssa w s k' e Map.empty mem = Some res" using assms(2) e(2) unfolding runs_kept_def by blast
  then have "run w h k' e Map.empty mem = Some res" by (rule lowered_run [OF assms(1,4) _ agree_refl])
  then have "call_result w g k' mem = Some res"
    using run_same_insts [OF og(1) same_but_edges_block(1) [OF assms(5)], of w k' e Map.empty mem] e(1) assms(3) og(2) hs
    by (simp add: call_result_def)
  then show ?thesis by blast
qed

text \<open>C2. Leaving SSA form. The function is one that \<open>destructible\<close> describes: every block ends in its only
  terminator and has at most 64 phis, on different registers; its edges are those of the terminators,
  a conditional branch goes to two different blocks, and phis stand only in blocks with more than one
  predecessor. Then, whether or not any execution returns, the loops end; the result is the lowered
  function, or the error that the verifier of the representation finds in it. In the lowered function no
  block has phis, and for every execution of the SSA form that returns, phis taking their values at once, it
  has one that returns the same value and leaves the same memory.\<close>

theorem ssa_destruction_preserves:
  assumes "destructible f"
  shows "\<exists>g n. ir_ssa_deconstruct_function m f = Some (case ir_verify_function m g of None \<Rightarrow> Inr (g, n) | Some e \<Rightarrow> Inl e) \<and>
    list_all (\<lambda>b. \<not> has_phi_nodes (block_at g b)) (fn_order g) \<and>
    (\<forall>(w :: 'm world) k mem res. ssa_result w f k mem = Some res \<longrightarrow> (\<exists>k'. call_result w g k' mem = Some res))"
proof -
  obtain s n where s: "split_critical_edges f = (s, n)" by fastforce
  then have sf: "s = fst (split_critical_edges f)" by simp
  have low: "lowerable s" and entry: "fn_entry s = fn_entry f" using split_critical_edges_spec [OF assms sf] by blast+
  have runs: "runs_kept w f s" for w :: "'m world" using split_critical_edges_spec [OF assms sf, of w] by blast
  have ord: "order_ok s" by (rule lowerableD(1) [OF low])
  obtain h where h: "lower_blocks (fn_order s) s = Some h" "lower_inv s (set (fn_order s)) (sources s (set (fn_order s))) h"
    using lower_blocks_inv [OF low lower_start [OF low], of "fn_order s"] ord by (auto simp: order_ok_def)
  note H = h(2) [unfolded lower_inv_def]
  define g where "g = ir_recompute_cfg h"
  have flat: "fn_order h = fn_order s" "fn_entry h = fn_entry s" "length (fn_heap h) = length (fn_heap s)" using H by simp_all
  have same: "same_but_edges h g"
    using recompute_cfg_spec [of h] ord flat by (simp add: g_def order_ok_def)
  have insts: "bb_insts (block_at g b) = bb_insts (block_at h b)" for b using same_but_edges_block(1) [OF same] .
  have og: "fn_order g = fn_order h" "fn_entry g = fn_entry h" using same by (simp_all add: same_but_edges_def)
  have res: "ir_ssa_deconstruct_function m f = Some (case ir_verify_function m g of None \<Rightarrow> Inr (g, n) | Some e \<Rightarrow> Inl e)"
    using s h(1) by (simp add: ir_ssa_deconstruct_function_def Let_def g_def [symmetric] checked_result_def split: option.split)
  have "\<not> has_phi_nodes (block_at g b)" if b: "b \<in> set (fn_order s)" for b
  proof -
    obtain mid where mid: "bb_insts (block_at h b) = butlast (body_of (block_at s b)) @ mid @ [last (bb_insts (block_at s b))]"
        "list_all is_copy mid" using H b by (auto simp: placed_def)
    have "dropWhile is_phi (bb_insts (block_at s b)) \<noteq> []" using shaped_parts [OF lowerableD(3) [OF low b]] by (metis snoc_eq_iff_butlast)
    moreover have "bb_insts (block_at h b) =
        dropWhile is_phi (phis_of (block_at s b) @ butlast (body_of (block_at s b)) @ mid @ [last (bb_insts (block_at s b))])"
      using phis_in_front(2) [OF lowerableD(3) [OF low b] mid(2)] mid(1) by simp
    moreover have "\<not> is_phi (hd (dropWhile is_phi xs))" if "dropWhile is_phi xs \<noteq> []" for xs using hd_dropWhile [OF that] .
    ultimately show ?thesis using mid(1) unfolding has_phi_nodes_def insts by (metis Nil_is_append_conv list.distinct(1))
  qed
  then have none: "list_all (\<lambda>b. \<not> has_phi_nodes (block_at g b)) (fn_order g)" using og flat by (simp add: list_all_iff)
  have "\<exists>k'. call_result w g k' mem = Some r" if "ssa_result w f k mem = Some r" for w :: "'m world" and k mem r
    by (rule destruction_runs [OF low runs entry h(2) same that])
  then show ?thesis using res none by blast
qed

text \<open>A loop whose back edge is critical and whose phis swap two registers.\<close>

definition demo_phi :: "nat \<Rightarrow> ir_value \<Rightarrow> ir_value \<Rightarrow> ir_inst" where
  "demo_phi r a b = (create_instruction IR_OP_PHI Ty_I64)\<lparr>i_result := Some (int_reg r), i_phis := [(Some 0, Some a), (Some 1, Some b)]\<rparr>"

definition swap_loop_branch :: ir_inst where
  "swap_loop_branch = (create_instruction IR_OP_CONDBR Ty_Void)
     \<lparr>i_lhs := Some (ir_val_reg Ty_Bool 4), i_true := Some 1, i_false := Some 2\<rparr>"

definition swap_loop :: ir_function where
  "swap_loop = (ir_new_function ''loop'' (Some Ty_I64))\<lparr>
     fn_heap := [\<lparr>bb_name = ''entry'', bb_id = 0, bb_insts = [jump_to 1], bb_preds = [], bb_succs = [1]\<rparr>,
       \<lparr>bb_name = ''loop'', bb_id = 1, bb_insts =
          [demo_phi 0 (int_const 1) (int_reg 1), demo_phi 1 (int_const 2) (int_reg 0), demo_phi 2 (int_const 0) (int_reg 3),
           demo_inst IR_OP_ADD 3 (int_reg 2) (Some (int_const 1)), demo_inst IR_OP_LT 4 (int_reg 3) (Some (int_const 2)), swap_loop_branch],
        bb_preds = [0, 1], bb_succs = [1, 2]\<rparr>,
       \<lparr>bb_name = ''exit'', bb_id = 2, bb_insts = [demo_return (int_reg 0)], bb_preds = [1], bb_succs = []\<rparr>],
     fn_order := [0, 1, 2], fn_entry := Some 0, fn_next_block := 3, fn_block_count := 3, fn_next_reg := 5\<rparr>"

lemmas swap_loop_defs = swap_loop_def demo_phi_def swap_loop_branch_def demo_insts jump_to_def block_at_def ir_new_function_def

lemma swap_loop_destructible: "destructible swap_loop"
  by (simp add: destructible_def swap_loop_defs order_ok_def shaped_def phis_of_def body_of_def is_phi_def small_block_def regs_below_def
      reg_src_def inst_targets_def two_ways_def ir_is_terminator_def Let_def)

lemma swap_loop_parts:
  "fn_order swap_loop = [0, 1, Suc (Suc 0)]" "fn_entry swap_loop = Some 0"
  "phis_of (block_at swap_loop 0) = []" "body_of (block_at swap_loop 0) = [jump_to 1]"
  "phis_of (block_at swap_loop (Suc 0)) =
     [demo_phi 0 (int_const 1) (int_reg 1), demo_phi 1 (int_const 2) (int_reg 0), demo_phi 2 (int_const 0) (int_reg 3)]"
  "body_of (block_at swap_loop (Suc 0)) =
     [demo_inst IR_OP_ADD 3 (int_reg 2) (Some (int_const 1)), demo_inst IR_OP_LT 4 (int_reg 3) (Some (int_const 2)), swap_loop_branch]"
  "phis_of (block_at swap_loop (Suc (Suc 0))) = []" "body_of (block_at swap_loop (Suc (Suc 0))) = [demo_return (int_reg 0)]"
  by (simp_all add: swap_loop_defs phis_of_def body_of_def is_phi_def numeral_eq_Suc)

lemma swap_loop_result: "ssa_result null_world swap_loop (Suc (Suc (Suc (Suc 0)))) () = Some (Some (VInt 2), ())"
proof -
  let ?w = "null_world"
  have "enter_block ?w (block_at swap_loop (Suc 0)) 0 r = Some (r(0 := Some (VInt 1), 1 := Some (VInt 2), 2 := Some (VInt 0)))" for r
    by (simp add: enter_block_def swap_loop_parts phi_value_def demo_phi_def demo_insts demo_step)
  moreover have "enter_block ?w (block_at swap_loop (Suc 0)) (Suc 0) r = Some (r(0 := r 1, 1 := r 0, 2 := r 3))"
    if "r 0 \<noteq> None" "r 1 \<noteq> None" "r 3 \<noteq> None" for r
    using that by (simp add: enter_block_def swap_loop_parts phi_value_def demo_phi_def demo_insts demo_step option.map_id)
  moreover have "enter_block ?w (block_at swap_loop (Suc (Suc 0))) p r = Some r" for p r
    by (simp add: enter_block_def swap_loop_parts)
  moreover have "exec_insts ?w [jump_to 1] r m = Some (Goto (Suc 0) r m)" for r and m :: unit
    by (simp add: demo_insts jump_to_def demo_step)
  moreover have "exec_insts ?w (body_of (block_at swap_loop (Suc 0))) r m =
      Some (Goto (if n + 1 < 2 then Suc 0 else Suc (Suc 0)) (r(3 := Some (VInt (n + 1)), 4 := Some (VBool (n + 1 < 2)))) m)"
    if "r 2 = Some (VInt n)" "0 \<le> n" "n < 10" for r n and m :: unit
    using that by (simp add: swap_loop_parts swap_loop_branch_def demo_insts demo_step eval_compare_def int_compare_def)
  moreover have "exec_insts ?w [demo_return (int_reg 0)] r m = Some (Done (Some x) m)" if "r 0 = Some x" for r x and m :: unit
    using that by (simp add: demo_insts demo_step)
  moreover have "\<not> has_phi_nodes (block_at swap_loop 0)" by (simp add: has_phi_nodes_iff swap_loop_parts)
  ultimately show ?thesis by (simp add: ssa_result_def swap_loop_parts(1-4,8))
qed

theorem ssa_destruction_preserves_witness:
  "\<exists>g n. ir_ssa_deconstruct_function None swap_loop = Some (case ir_verify_function None g of None \<Rightarrow> Inr (g, n) | Some e \<Rightarrow> Inl e) \<and>
    list_all (\<lambda>b. \<not> has_phi_nodes (block_at g b)) (fn_order g) \<and> (\<exists>k'. call_result null_world g k' () = Some (Some (VInt 2), ()))"
  using ssa_destruction_preserves [where 'm = unit, OF swap_loop_destructible, of None] swap_loop_result by blast

end
