(* ===== verification/Ir_Ssa_Dce.thy ===== *)
theory Ir_Ssa_Dce
  imports Ir_Ssa_Opt Ir_Ssa_Lower Ir_Opt_Correct
begin

text \<open>
  Removing dead code from SSA form: it ends, leaves nothing dead, and every execution, phis taking
  their values at once, goes on as before.
\<close>

section \<open>Simulation of SSA form\<close>

definition enter_sim :: "'m world \<Rightarrow> (regs \<Rightarrow> regs \<Rightarrow> bool) \<Rightarrow> ir_block \<Rightarrow> ir_block \<Rightarrow> bool" where
  "enter_sim w R bb bb' \<longleftrightarrow>
     (\<forall>p r r' s. R r r' \<longrightarrow> enter_block w bb p r = Some s \<longrightarrow> (\<exists>s'. enter_block w bb' p r' = Some s' \<and> R s s'))"

lemma ssa_simulates:
  assumes "fn_order g = fn_order f"
    and "\<And>b. b \<in> set (fn_order f) \<Longrightarrow> sim_insts w R (body_of (block_at f b)) (body_of (block_at g b)) \<and>
      enter_sim w R (block_at f b) (block_at g b)"
  shows "run_ssa w f k b r m = Some res \<Longrightarrow> R r r' \<Longrightarrow> run_ssa w g k b r' m = Some res"
proof (induction k arbitrary: b r r' m)
  case (Suc k)
  have b: "b \<in> set (fn_order f)" using Suc.prems(1) by (auto split: if_splits)
  obtain p where p: "exec_insts w (body_of (block_at f b)) r m = Some p"
    using Suc.prems(1) b by (cases "exec_insts w (body_of (block_at f b)) r m") auto
  obtain q where q: "exec_insts w (body_of (block_at g b)) r' m = Some q" "outcome_rel R p q"
    using assms(2) [OF b] Suc.prems(2) p unfolding sim_insts_def by blast
  show ?case
  proof (cases p)
    case (Goto c s n)
    then obtain s' where s': "q = Goto c s' n" "R s s'" using q(2) by (cases q) (auto simp: outcome_rel_def)
    obtain t where t: "enter_block w (block_at f c) b s = Some t" "run_ssa w f k c t n = Some res"
      using Suc.prems(1) p Goto b by (auto split: option.splits)
    have c: "c \<in> set (fn_order f)" using t(2) by (cases k) (auto split: if_splits)
    obtain t' where "enter_block w (block_at g c) b s' = Some t'" "R t t'"
      using assms(2) [OF c] s'(2) t(1) unfolding enter_sim_def by blast
    then show ?thesis using Suc.IH [OF t(2)] q(1) s'(1) b assms(1) by simp
  next
    case (Done v n)
    then have "q = Done v n" using q(2) by (cases q) (auto simp: outcome_rel_def)
    then show ?thesis using Suc.prems(1) p q(1) Done b assms(1) by simp
  next
    case (Next s n)
    then show ?thesis using Suc.prems(1) p b by simp
  qed
qed simp

section \<open>Registers that are read\<close>

definition opt_used :: "ir_function \<Rightarrow> nat \<Rightarrow> bool" where
  "opt_used f n \<longleftrightarrow> opt_regs f \<le> n \<or> opt_use_count (opt_regs f) f n \<noteq> 0"

definition agree_on :: "(nat \<Rightarrow> bool) \<Rightarrow> regs \<Rightarrow> regs \<Rightarrow> bool" where
  "agree_on P r r' \<longleftrightarrow> (\<forall>n. P n \<longrightarrow> r' n = r n)"

definition reads_only :: "(nat \<Rightarrow> bool) \<Rightarrow> ir_value option list \<Rightarrow> bool" where
  "reads_only P vs \<longleftrightarrow> (\<forall>v \<in> set vs. case reg_src v of Some k \<Rightarrow> P k | None \<Rightarrow> True)"

lemma agree_on_operand: "agree_on P r r' \<Longrightarrow> reads_only P vs \<Longrightarrow> v \<in> set vs \<Longrightarrow> eval_operand w r' v = eval_operand w r v"
  by (auto simp: agree_on_def reads_only_def reg_src_def eval_operand_def eval_value_def split: option.splits ir_value_kind.splits)

lemma agree_on_operands:
  assumes "agree_on P r r'" and "reads_only P (i_lhs i # i_rhs i # map Some (i_args i))"
  shows "operands_agree w i r i r'"
proof -
  have "eval_values w r' vs = eval_values w r vs" if "reads_only P (map Some vs)" for vs
    using that
  proof (induction vs)
    case (Cons v vs)
    then show ?case using agree_on_operand [OF assms(1) Cons.prems, of "Some v" w] by (simp add: eval_operand_def reads_only_def)
  qed simp
  moreover have "reads_only P (map Some (operands i))"
    using assms(2) by (cases "i_lhs i"; cases "i_rhs i") (simp_all add: operands_def List.map_filter_def reads_only_def)
  ultimately show ?thesis
    using agree_on_operand [OF assms, of "i_lhs i" w] agree_on_operand [OF assms, of "i_rhs i" w]
    by (simp add: operands_agree_def assigned_eq [OF agree_on_operand [OF assms]])
qed

lemma opt_operand_used:
  assumes "i \<in> set (fn_insts f)"
  shows "reads_only (opt_used f) (i_lhs i # i_rhs i # map Some (i_args i) @ map snd (i_phis i))"
  unfolding reads_only_def
proof
  fix v assume v: "v \<in> set (i_lhs i # i_rhs i # map Some (i_args i) @ map snd (i_phis i))"
  have "opt_used f k" if k: "reg_src v = Some k" for k
  proof (cases "k < opt_regs f")
    case True
    have r: "is_reg (opt_regs f) v \<and> v_id (the v) = k" using k True by (auto simp: reg_src_def is_reg_def split: option.splits if_splits)
    have "v \<in> set (concat (map (\<lambda>i. i_lhs i # i_rhs i # map Some (i_args i) @ map snd (i_phis i)) (fn_insts f)))"
      using assms v by auto
    then have "opt_use_count (opt_regs f) f k \<noteq> 0" 
      using count_if_zero [of "\<lambda>v. is_reg (opt_regs f) v \<and> v_id (the v) = k" _ v] r unfolding opt_use_count_def by blast
    then show ?thesis by (simp add: opt_used_def)
  qed (simp add: opt_used_def)
  then show "case reg_src v of Some k \<Rightarrow> opt_used f k | None \<Rightarrow> True" by (simp split: option.split)
qed

lemma reads_only_append: "reads_only P (vs @ us) \<longleftrightarrow> reads_only P vs \<and> reads_only P us"
  by (auto simp: reads_only_def)

lemma opt_inst_used:
  assumes "i \<in> set (fn_insts f)"
  shows "reads_only (opt_used f) (i_lhs i # i_rhs i # map Some (i_args i))" "reads_only (opt_used f) (map snd (i_phis i))"
  using opt_operand_used [OF assms] by (auto simp: reads_only_def)

abbreviation dead_in :: "ir_function \<Rightarrow> ir_inst \<Rightarrow> bool" where
  "dead_in f \<equiv> opt_dead (opt_regs f) f"

lemma dead_result:
  assumes "dead_in f i" and "agree_on (opt_used f) r r'"
  shows "agree_on (opt_used f) (set_result i v r) r'"
proof -
  obtain d where "i_result i = Some d" "v_kind d = IR_VAL_REG" "v_id d < opt_regs f" "opt_use_count (opt_regs f) f (v_id d) = 0"
    using assms(1) by (auto simp: opt_dead_def is_reg_def split: option.splits)
  then show ?thesis using assms(2) by (auto simp: agree_on_def set_result_def opt_used_def)
qed

lemma kept_result: "agree_on P r r' \<Longrightarrow> agree_on P (set_result i v r) (set_result i v r')"
  by (auto simp: agree_on_def set_result_def split: option.split)

section \<open>One round\<close>

lemma dead_insts_sim:
  assumes "set xs \<subseteq> set (fn_insts f)" and "\<forall>i \<in> set xs. \<not> is_phi i"
  shows "sim_insts w (agree_on (opt_used f)) xs (filter (\<lambda>i. \<not> dead_in f i) xs)"
  using assms
proof (induction xs)
  case Nil
  show ?case by (simp add: sim_insts_Nil)
next
  case (Cons i xs)
  let ?R = "agree_on (opt_used f)"
  have IH: "sim_insts w ?R xs (filter (\<lambda>i. \<not> dead_in f i) xs)" using Cons by simp
  have i: "i \<in> set (fn_insts f)" "\<not> is_phi i" using Cons.prems by simp_all
  show ?case
  proof (cases "dead_in f i")
    case False
    have "sim_inst w ?R i i"
      by (rule sim_instI) (use agree_on_operands [OF _ opt_inst_used(1) [OF i(1)]] kept_result in auto)
    then show ?thesis using sim_insts_Cons [OF _ IH] False by simp
  next
    case True
    have pure: "\<not> has_effect (i_op i)" "i_op i \<notin> {IR_OP_BR, IR_OP_CONDBR, IR_OP_RET, IR_OP_STORE}"
      using True i(2) by (auto simp: opt_dead_def is_pure_operation_def has_effect_def)
    show ?thesis
    proof (unfold sim_insts_def, intro allI impI)
      fix r r' m p
      assume R: "?R r r'" and ex: "exec_insts w (i # xs) r m = Some p"
      then obtain p1 where p1: "step w i r m = Some p1" by (cases "step w i r m") auto
      then obtain x where "p1 = Next (set_result i (Some x) r) m" using pure by (auto simp: step_def)
      then have "exec_insts w xs (set_result i (Some x) r) m = Some p" using ex p1 by simp
      then have "\<exists>q. exec_insts w (filter (\<lambda>i. \<not> dead_in f i) xs) r' m = Some q \<and> outcome_rel ?R p q"
        using IH dead_result [OF True R] unfolding sim_insts_def by blast
      then show "\<exists>q. exec_insts w (filter (\<lambda>i. \<not> dead_in f i) (i # xs)) r' m = Some q \<and> outcome_rel ?R p q"
        using True by simp
    qed
  qed
qed

lemma phi_value_agree:
  assumes "agree_on P r r'" and "reads_only P (map snd (i_phis i))"
  shows "phi_value w p r' i = phi_value w p r i"
proof (cases "List.find (\<lambda>e. fst e = Some p) (i_phis i)")
  case (Some e)
  then have "snd e \<in> set (map snd (i_phis i))" by (auto dest: find_SomeD)
  then show ?thesis using assigned_eq [OF agree_on_operand [OF assms]] Some by (simp add: phi_value_def)
qed (simp add: phi_value_def)

lemma dead_phis_sim:
  assumes "set (phis_of bb) \<subseteq> set (fn_insts f)" and "phis_of bb' = filter (\<lambda>i. \<not> dead_in f i) (phis_of bb)"
  shows "enter_sim w (agree_on (opt_used f)) bb bb'"
  unfolding enter_sim_def
proof (intro allI impI)
  fix p r r' s
  let ?R = "agree_on (opt_used f)"
  assume R: "?R r r'" and s: "enter_block w bb p r = Some s"
  have same: "phi_value w p r' i = phi_value w p r i" if "i \<in> set (phis_of bb)" for i
    using phi_value_agree [OF R opt_inst_used(2)] that assms(1) by blast
  have some: "\<forall>i \<in> set (phis_of bb). phi_value w p r i \<noteq> None" and s': "s = fold (\<lambda>i. set_result i (phi_value w p r i)) (phis_of bb) r"
    using s by (auto simp: enter_block_def list_all_iff split: if_splits)
  have "?R (fold (\<lambda>i. set_result i (phi_value w p r i)) is t) (fold (\<lambda>i. set_result i (phi_value w p r' i)) (filter (\<lambda>i. \<not> dead_in f i) is) t')"
    if "set is \<subseteq> set (phis_of bb)" "?R t t'" for "is" t t'
    using that
  proof (induction "is" arbitrary: t t')
    case (Cons i "is")
    have v: "phi_value w p r' i = phi_value w p r i" using same Cons.prems(1) by simp
    have sub: "set is \<subseteq> set (phis_of bb)" using Cons.prems(1) by simp
    show ?case
    proof (cases "dead_in f i")
      case True
      then show ?thesis using Cons.IH [OF sub dead_result [OF True Cons.prems(2)]] by simp
    next
      case False
      then show ?thesis using Cons.IH [OF sub kept_result [OF Cons.prems(2)]] v by simp
    qed
  qed simp
  then show "\<exists>s'. enter_block w bb' p r' = Some s' \<and> ?R s s'"
    using some same R unfolding enter_block_def assms(2) s' by (auto simp: list_all_iff)
qed

text \<open>Phis stand in front of the other instructions.\<close>

definition phis_first :: "ir_function \<Rightarrow> bool" where
  "phis_first f \<longleftrightarrow> list_all (\<lambda>b. list_all (\<lambda>i. \<not> is_phi i) (body_of (block_at f b))) (fn_order f)"

lemma split_prefix:
  "\<forall>x \<in> set xs. P x \<Longrightarrow> takeWhile P (xs @ ys) = xs @ takeWhile P ys" "\<forall>x \<in> set xs. P x \<Longrightarrow> dropWhile P (xs @ ys) = dropWhile P ys"
  by (induction xs) auto

lemma filter_parts:
  assumes "list_all (\<lambda>i. \<not> is_phi i) (body_of bb)" and "bb_insts bb' = filter P (bb_insts bb)"
  shows "phis_of bb' = filter P (phis_of bb)" "body_of bb' = filter P (body_of bb)"
proof -
  have x: "bb_insts bb' = filter P (phis_of bb) @ filter P (body_of bb)"
    unfolding assms(2) phis_of_def body_of_def filter_append [symmetric] by simp
  have a: "\<forall>i \<in> set (filter P (phis_of bb)). is_phi i" by (auto simp: phis_of_def dest: set_takeWhileD)
  have b: "takeWhile is_phi (filter P (body_of bb)) = []" "dropWhile is_phi (filter P (body_of bb)) = filter P (body_of bb)"
    using assms(1) by (auto simp: list_all_iff takeWhile_eq_Nil_iff dropWhile_eq_self_iff dest!: hd_in_set)
  show "phis_of bb' = filter P (phis_of bb)" "body_of bb' = filter P (body_of bb)"
    using b unfolding phis_of_def [of bb'] body_of_def [of bb'] x split_prefix [OF a] by simp_all
qed

definition without_dead :: "ir_function \<Rightarrow> ir_function" where
  "without_dead f = fold (\<lambda>b. update_block b (\<lambda>bb. bb\<lparr>bb_insts := filter (\<lambda>i. \<not> dead_in f i) (bb_insts bb)\<rparr>)) (fn_order f) f"

lemma ssa_dce_round_eq: "ssa_dce_round (f, a, any) = (without_dead f, list_ex (dead_in f) (fn_insts f), any \<or> list_ex (dead_in f) (fn_insts f))"
  by (simp add: ssa_dce_round_def without_dead_def Let_def)

lemma without_dead_keeps [simp]:
  "fn_order (without_dead f) = fn_order f" "fn_entry (without_dead f) = fn_entry f" "fn_next_reg (without_dead f) = fn_next_reg f"
  "length (fn_heap (without_dead f)) = length (fn_heap f)" "order_ok (without_dead f) = order_ok f"
  by (simp_all add: without_dead_def order_ok_def)

lemma without_dead_block:
  assumes "order_ok f" and "b \<in> set (fn_order f)"
  shows "bb_insts (block_at (without_dead f) b) = filter (\<lambda>i. \<not> dead_in f i) (bb_insts (block_at f b))"
  unfolding without_dead_def by (rule insts_fold_updates [OF assms])

lemma without_dead_insts:
  assumes "order_ok f"
  shows "fn_insts (without_dead f) = filter (\<lambda>i. \<not> dead_in f i) (fn_insts f)"
proof -
  have "map (\<lambda>b. bb_insts (block_at (without_dead f) b)) (fn_order f) =
      map (\<lambda>b. filter (\<lambda>i. \<not> dead_in f i) (bb_insts (block_at f b))) (fn_order f)"
    using without_dead_block [OF assms] by (intro map_cong) auto
  then show ?thesis unfolding fn_insts_def filter_concat map_map comp_def without_dead_keeps by (rule arg_cong [of _ _ concat])
qed

lemma without_dead_ok:
  assumes "order_ok f" and "phis_first f"
  shows "phis_first (without_dead f)" "ssa_result w f k m = Some res \<Longrightarrow> ssa_result w (without_dead f) k m = Some res"
proof -
  have parts: "phis_of (block_at (without_dead f) b) = filter (\<lambda>i. \<not> dead_in f i) (phis_of (block_at f b))"
      "body_of (block_at (without_dead f) b) = filter (\<lambda>i. \<not> dead_in f i) (body_of (block_at f b))" if "b \<in> set (fn_order f)" for b
    using filter_parts [OF _ without_dead_block [OF assms(1) that]] assms(2) that by (simp_all add: phis_first_def list_all_iff)
  then show "phis_first (without_dead f)" using assms(2) by (simp add: phis_first_def list_all_iff)
  have inb: "set (phis_of (block_at f b)) \<subseteq> set (fn_insts f)" "set (body_of (block_at f b)) \<subseteq> set (fn_insts f)"
      "\<forall>i \<in> set (body_of (block_at f b)). \<not> is_phi i" if "b \<in> set (fn_order f)" for b
    using in_fn_insts [OF that] assms(2) that
    by (auto simp: phis_first_def list_all_iff phis_of_def body_of_def dest: set_takeWhileD set_dropWhileD)
  assume res: "ssa_result w f k m = Some res"
  then obtain e where e: "fn_entry f = Some e" "phis_of (block_at f e) = []" "run_ssa w f k e Map.empty m = Some res"
    by (auto simp: ssa_result_def has_phi_nodes_iff split: option.splits if_splits)
  have eo: "e \<in> set (fn_order f)" using e(3) by (cases k) (auto split: if_splits)
  have "run_ssa w (without_dead f) k e Map.empty m = Some res"
    by (rule ssa_simulates [where R = "agree_on (opt_used f)", OF _ _ e(3)])
      (simp_all add: parts inb dead_insts_sim dead_phis_sim agree_on_def)
  then show "ssa_result w (without_dead f) k m = Some res"
    using e parts(1) [OF eo] by (simp add: ssa_result_def has_phi_nodes_iff)
qed

section \<open>The loop\<close>

definition ssa_dce_inv :: "(ir_function \<Rightarrow> bool) \<Rightarrow> ir_function \<times> bool \<times> bool \<Rightarrow> bool" where
  "ssa_dce_inv P s \<longleftrightarrow> (case s of (f, again, any) \<Rightarrow>
     order_ok f \<and> P f \<and> (\<not> again \<longrightarrow> \<not> list_ex (dead_in f) (fn_insts f)))"

lemma dead_in_cong: "fn_insts g = fn_insts f \<Longrightarrow> fn_next_reg g = fn_next_reg f \<Longrightarrow> dead_in g i = dead_in f i"
  by (simp add: opt_dead_def opt_regs_def opt_use_count_def)

lemma ssa_dce_round_ok:
  assumes "\<And>f. order_ok f \<Longrightarrow> P f \<Longrightarrow> P (without_dead f)" and "ssa_dce_inv P s"
  shows "ssa_dce_inv P (ssa_dce_round s)"
proof -
  obtain f a any where s: "s = (f, a, any)" by (cases s)
  have f: "order_ok f" "P f" using assms(2) s by (simp_all add: ssa_dce_inv_def)
  have "\<not> list_ex (dead_in (without_dead f)) (fn_insts (without_dead f))" if none: "\<not> list_ex (dead_in f) (fn_insts f)"
  proof -
    have "fn_insts (without_dead f) = fn_insts f" using none by (simp add: without_dead_insts [OF f(1)] list_ex_iff)
    then show ?thesis using none dead_in_cong [of "without_dead f" f] by (simp add: list_ex_iff)
  qed
  then show ?thesis using f assms(1) [OF f] by (simp add: s ssa_dce_round_eq ssa_dce_inv_def)
qed

lemma ssa_dce_ends:
  assumes "order_ok f"
  shows "\<exists>t. while_option (\<lambda>(_, again, _). again) ssa_dce_round (f, True, False) = Some t"
proof (rule measure_while_option_Some [where P = "\<lambda>s. order_ok (fst s)" and
      f = "\<lambda>(f, again, any). length (fn_insts f) + (if again then 1 else 0)"])
  fix s :: "ir_function \<times> bool \<times> bool"
  assume s: "order_ok (fst s)" "case s of (_, again, _) \<Rightarrow> again"
  obtain f a any where f: "s = (f, a, any)" by (cases s) auto
  have o: "order_ok f" "a" using s f by simp_all
  have "length (filter (\<lambda>i. \<not> dead_in f i) (fn_insts f)) < length (fn_insts f)" if "list_ex (dead_in f) (fn_insts f)"
    using that length_filter_less [of _ "fn_insts f" "\<lambda>i. \<not> dead_in f i"] by (auto simp: list_ex_iff)
  then show "order_ok (fst (ssa_dce_round s)) \<and>
      (case ssa_dce_round s of (f, again, any) \<Rightarrow> length (fn_insts f) + (if again then 1 else 0)) <
      (case s of (f, again, any) \<Rightarrow> length (fn_insts f) + (if again then 1 else 0))"
    using o by (simp add: f ssa_dce_round_eq without_dead_insts [OF o(1)] le_imp_less_Suc)
qed (use assms in simp)

section \<open>Properties\<close>

text \<open>C17. Dead code elimination on SSA form ends and leaves no pure instruction or phi whose register is not
  read, whether or not any execution returns. If phis stand first in their blocks, they do afterwards, and
  every execution that returns, phis taking their values at once, does so with the same value and memory.\<close>

theorem ssa_dce_correct:
  assumes "order_ok f"
  shows "\<exists>g c. ir_ssa_dce f = Some (g, c) \<and> \<not> list_ex (opt_dead (opt_regs g) g) (fn_insts g) \<and>
    (phis_first f \<longrightarrow> phis_first g \<and>
      (\<forall>(w :: 'm world) k m res. ssa_result w f k m = Some res \<longrightarrow> ssa_result w g k m = Some res))"
proof -
  obtain t where t: "while_option (\<lambda>(_, again, _). again) ssa_dce_round (f, True, False) = Some t"
    using ssa_dce_ends [OF assms(1)] by blast
  let ?P = "\<lambda>g. phis_first f \<longrightarrow> phis_first g \<and>
      (\<forall>(w :: 'm world) k m res. ssa_result w f k m = Some res \<longrightarrow> ssa_result w g k m = Some res)"
  have "ssa_dce_inv ?P t"
  proof (rule while_option_rule [where P = "ssa_dce_inv ?P", OF _ t])
    have "?P (without_dead g)" if g: "order_ok g" "?P g" for g
    proof (intro impI conjI allI)
      assume first: "phis_first f"
      then show "phis_first (without_dead g)" using g without_dead_ok(1) by blast
      fix w :: "'m world" and k m res
      assume "ssa_result w f k m = Some res"
      then have "ssa_result w g k m = Some res" and pg: "phis_first g" using g(2) first by blast+
      from this(1) show "ssa_result w (without_dead g) k m = Some res" by (rule without_dead_ok(2) [OF g(1) pg])
    qed
    then show "ssa_dce_inv ?P (ssa_dce_round s)" if "ssa_dce_inv ?P s" for s using ssa_dce_round_ok [OF _ that] by blast
  qed (use assms in \<open>simp add: ssa_dce_inv_def\<close>)
  moreover have "\<not> (case t of (_, again, _) \<Rightarrow> again)" by (rule while_option_stop [OF t])
  ultimately show ?thesis using t by (cases t) (auto simp: ir_ssa_dce_def ssa_dce_inv_def)
qed

lemma swap_loop_phis_first: "phis_first swap_loop"
  by (simp add: phis_first_def swap_loop_parts is_phi_def demo_insts swap_loop_branch_def jump_to_def)

lemma swap_loop_order: "order_ok swap_loop"
  by (simp add: order_ok_def swap_loop_def)

theorem ssa_dce_correct_witness:
  "\<exists>g c. ir_ssa_dce swap_loop = Some (g, c) \<and> \<not> list_ex (opt_dead (opt_regs g) g) (fn_insts g) \<and> phis_first g \<and>
    ssa_result null_world g (Suc (Suc (Suc (Suc 0)))) () = Some (Some (VInt 2), ())"
  using ssa_dce_correct [where 'm = unit, OF swap_loop_order] swap_loop_phis_first swap_loop_result by blast

end
