(* ===== verification/Flow_Graph.thy ===== *)
theory Flow_Graph
  imports Cco_Prelude
begin

text \<open>
  Paths from the entry of a flow graph, reachability and dominance, independent of how a
  component stores its graph: an edge relation \<open>E\<close> and an entry \<open>e\<close>. A path is the list of its
  nodes from the last one back to the entry.
\<close>

inductive entry_path :: "('a \<Rightarrow> 'a \<Rightarrow> bool) \<Rightarrow> 'a \<Rightarrow> 'a list \<Rightarrow> bool" for E e where
  start: "entry_path E e [e]"
| step: "entry_path E e (b # p) \<Longrightarrow> E b c \<Longrightarrow> entry_path E e (c # b # p)"

inductive_cases entry_path_NilE [elim!]: "entry_path E e []"
inductive_simps entry_path_single: "entry_path E e [b]"
inductive_simps entry_path_Cons2: "entry_path E e (c # b # p)"

definition reachable :: "('a \<Rightarrow> 'a \<Rightarrow> bool) \<Rightarrow> 'a \<Rightarrow> 'a \<Rightarrow> bool" where
  "reachable E e b \<longleftrightarrow> (\<exists>p. entry_path E e (b # p))"

text \<open>A node dominates a reachable node if it lies on every path to it.\<close>

definition dominates :: "('a \<Rightarrow> 'a \<Rightarrow> bool) \<Rightarrow> 'a \<Rightarrow> 'a \<Rightarrow> 'a \<Rightarrow> bool" where
  "dominates E e a b \<longleftrightarrow> reachable E e b \<and> (\<forall>p. entry_path E e (b # p) \<longrightarrow> a \<in> set (b # p))"

definition strictly_dominates :: "('a \<Rightarrow> 'a \<Rightarrow> bool) \<Rightarrow> 'a \<Rightarrow> 'a \<Rightarrow> 'a \<Rightarrow> bool" where
  "strictly_dominates E e a b \<longleftrightarrow> dominates E e a b \<and> a \<noteq> b"

definition immediate_dominator :: "('a \<Rightarrow> 'a \<Rightarrow> bool) \<Rightarrow> 'a \<Rightarrow> 'a \<Rightarrow> 'a \<Rightarrow> bool" where
  "immediate_dominator E e d b \<longleftrightarrow> strictly_dominates E e d b \<and>
     (\<forall>a. strictly_dominates E e a b \<longrightarrow> dominates E e a d)"

section \<open>Reachability\<close>

lemma reachable_entry [simp]: "reachable E e e"
  unfolding reachable_def by (blast intro: entry_path.start)

lemma reachable_step: "reachable E e b \<Longrightarrow> E b c \<Longrightarrow> reachable E e c"
  unfolding reachable_def by (blast intro: entry_path.step)

lemma reachable_rtranclp: "reachable E e b \<longleftrightarrow> E\<^sup>*\<^sup>* e b"
proof
  assume "reachable E e b"
  then obtain p where "entry_path E e (b # p)" unfolding reachable_def by blast
  then show "E\<^sup>*\<^sup>* e b"
  proof (induction "b # p" arbitrary: b p rule: entry_path.induct)
    case (step b p c)
    then show ?case by (meson rtranclp.rtrancl_into_rtrancl)
  qed simp
next
  assume "E\<^sup>*\<^sup>* e b"
  then show "reachable E e b" by (induction rule: rtranclp_induct) (auto intro: reachable_step)
qed

lemma entry_path_suffix: "entry_path E e (xs @ b # ys) \<Longrightarrow> entry_path E e (b # ys)"
proof (induction xs)
  case (Cons x xs)
  then show ?case by (cases xs) (auto simp: entry_path_Cons2)
qed simp

lemma entry_path_reachable: "entry_path E e p \<Longrightarrow> b \<in> set p \<Longrightarrow> reachable E e b"
  unfolding reachable_def by (metis entry_path_suffix split_list)

lemma entry_path_splice:
  "entry_path E e (xs @ b # ys) \<Longrightarrow> entry_path E e (b # zs) \<Longrightarrow> entry_path E e (xs @ b # zs)"
proof (induction xs)
  case (Cons x xs)
  then show ?case by (cases xs) (auto simp: entry_path_Cons2)
qed simp

lemma reachable_pred:
  assumes "reachable E e c" and "c \<noteq> e"
  obtains b where "reachable E e b" "E b c"
proof -
  obtain p where p: "entry_path E e (c # p)" using assms(1) unfolding reachable_def by blast
  then show ?thesis
    using assms(2) that unfolding reachable_def by (cases p) (auto simp: entry_path_single entry_path_Cons2)
qed

section \<open>Dominance is a partial order, linear on the dominators of a node\<close>

lemma dominates_refl: "reachable E e b \<Longrightarrow> dominates E e b b"
  by (simp add: dominates_def)

lemma dominates_reachable: "dominates E e a b \<Longrightarrow> reachable E e b"
  by (simp add: dominates_def)

lemma dominator_reachable: "dominates E e a b \<Longrightarrow> reachable E e a"
  using entry_path_reachable unfolding dominates_def reachable_def by metis

lemma entry_path_ends: "entry_path E e p \<Longrightarrow> e \<in> set p"
  by (induction rule: entry_path.induct) auto

lemma dominates_entry: "reachable E e b \<Longrightarrow> dominates E e e b"
  unfolding dominates_def using entry_path_ends [of E e] by blast

lemma dominator_of_entry: "dominates E e a e \<longleftrightarrow> a = e"
proof
  assume "dominates E e a e"
  then have "a \<in> set [e]" using entry_path.start [of E e] unfolding dominates_def by blast
  then show "a = e" by simp
qed (simp add: dominates_refl)

lemma dominates_trans:
  assumes "dominates E e a b" and "dominates E e b c"
  shows "dominates E e a c"
  unfolding dominates_def
proof (intro conjI allI impI)
  fix p assume p: "entry_path E e (c # p)"
  then have "b \<in> set (c # p)" using assms(2) by (simp add: dominates_def)
  then obtain xs ys where s: "c # p = xs @ b # ys" by (metis split_list)
  then have "entry_path E e (b # ys)" using p entry_path_suffix by metis
  then have "a \<in> set (b # ys)" using assms(1) unfolding dominates_def by blast
  then show "a \<in> set (c # p)" unfolding s by auto
qed (use assms(2) in \<open>simp add: dominates_def\<close>)

lemma dominates_antisym:
  assumes "dominates E e a b" and "dominates E e b a"
  shows "a = b"
proof (rule ccontr)
  assume ne: "a \<noteq> b"
  have "\<not> entry_path E e (a # p)" for p
  proof (induction "length p" arbitrary: p rule: less_induct)
    case less
    show ?case
    proof
      assume p: "entry_path E e (a # p)"
      then have "b \<in> set p" using assms(2) ne unfolding dominates_def by force
      then obtain xs ys where s: "p = xs @ b # ys" by (metis split_list)
      then have b: "entry_path E e (b # ys)" using p entry_path_suffix [of E e "a # xs"] by simp
      then have "a \<in> set ys" using assms(1) ne unfolding dominates_def by force
      then obtain us vs where t: "ys = us @ a # vs" by (metis split_list)
      then have "entry_path E e (a # vs)" using b entry_path_suffix [of E e "b # us"] by simp
      moreover have "length vs < length p" using s t by simp
      ultimately show False using less by blast
    qed
  qed
  then show False using assms(2) unfolding dominates_def reachable_def by blast
qed

lemma dominates_linear:
  assumes "dominates E e a c" and "dominates E e b c"
  shows "dominates E e a b \<or> dominates E e b a"
proof (rule ccontr)
  assume no: "\<not> ?thesis"
  have ra: "reachable E e a" and rb: "reachable E e b" using assms dominator_reachable by metis+
  obtain pb where pb: "entry_path E e (b # pb)" "a \<notin> set (b # pb)"
    using no rb unfolding dominates_def by blast
  obtain pa where pa: "entry_path E e (a # pa)" "b \<notin> set (a # pa)"
    using no ra unfolding dominates_def by blast
  obtain p where p: "entry_path E e (c # p)" using assms(1) unfolding dominates_def reachable_def by blast
  have "\<exists>x \<in> set (c # p). x = a \<or> x = b" using assms(1) p unfolding dominates_def by blast
  then obtain xs x ys where s: "c # p = xs @ x # ys" "x = a \<or> x = b" "\<forall>y \<in> set xs. \<not> (y = a \<or> y = b)"
    using split_list_first_prop [of "c # p" "\<lambda>x. x = a \<or> x = b"] by blast
  have "\<exists>zs. entry_path E e (x # zs) \<and> (a \<notin> set (x # zs) \<or> b \<notin> set (x # zs))"
    using s(2) pa pb by blast
  then obtain zs where zs: "entry_path E e (x # zs)" "a \<notin> set (x # zs) \<or> b \<notin> set (x # zs)" by blast
  have q: "entry_path E e (xs @ x # zs)" using entry_path_splice [of E e xs x ys zs] p s(1) zs(1) by simp
  obtain q' where "xs @ x # zs = c # q'" using s(1) by (cases xs) auto
  then have "a \<in> set (xs @ x # zs)" "b \<in> set (xs @ x # zs)"
    using q assms unfolding dominates_def by metis+
  then show False using s(3) zs(2) by auto
qed

lemma finite_dominators: "finite {a. dominates E e a b}"
proof (cases "reachable E e b")
  case True
  then obtain p where "entry_path E e (b # p)" unfolding reachable_def by blast
  then have "{a. dominates E e a b} \<subseteq> set (b # p)" unfolding dominates_def by blast
  then show ?thesis using finite_subset by blast
next
  case False
  then show ?thesis by (simp add: dominates_def)
qed

section \<open>Dominance and the predecessors\<close>

lemma dominates_pred:
  assumes "dominates E e a c" and "a \<noteq> c" and "E b c" and "reachable E e b"
  shows "dominates E e a b"
  unfolding dominates_def
proof (intro conjI allI impI)
  fix p assume "entry_path E e (b # p)"
  then have "entry_path E e (c # b # p)" using assms(3) by (rule entry_path.step)
  then have "a \<in> set (c # b # p)" using assms(1) unfolding dominates_def by blast
  then show "a \<in> set (b # p)" using assms(2) by simp
qed (rule assms(4))

section \<open>The immediate dominator\<close>

lemma immediate_dominator_unique:
  "immediate_dominator E e d b \<Longrightarrow> immediate_dominator E e d' b \<Longrightarrow> d = d'"
  using dominates_antisym unfolding immediate_dominator_def by metis

lemma immediate_dominator_exists:
  assumes "reachable E e b" and "b \<noteq> e"
  shows "\<exists>d. immediate_dominator E e d b"
proof -
  define S where "S = {a. strictly_dominates E e a b}"
  have fin: "finite S" unfolding S_def strictly_dominates_def
    using finite_dominators [of E e b] by (rule rev_finite_subset) blast
  have "e \<in> S" using assms dominates_entry by (simp add: S_def strictly_dominates_def)
  then have "S \<noteq> {}" by blast
  let ?f = "\<lambda>a. card {x. dominates E e x a}"
  have "Max (?f ` S) \<in> ?f ` S" using fin \<open>S \<noteq> {}\<close> by simp
  then obtain d where "d \<in> S" "Max (?f ` S) = ?f d" by blast
  then have d: "d \<in> S" "\<forall>a \<in> S. ?f a \<le> ?f d" using fin by (metis Max_ge finite_imageI imageI)+
  have "dominates E e a d" if a: "a \<in> S" for a
  proof (rule ccontr)
    assume no: "\<not> dominates E e a d"
    then have da: "dominates E e d a"
      using dominates_linear [of E e a b d] a d(1) by (simp add: S_def strictly_dominates_def)
    have "{x. dominates E e x d} \<subset> {x. dominates E e x a}"
    proof
      show "{x. dominates E e x d} \<subseteq> {x. dominates E e x a}" using da dominates_trans by fast
      show "{x. dominates E e x d} \<noteq> {x. dominates E e x a}"
        using no dominates_refl [of E e a] dominates_reachable [OF da] by blast
    qed
    then have "card {x. dominates E e x d} < card {x. dominates E e x a}"
      using finite_dominators by (rule psubset_card_mono [rotated])
    then show False using d(2) a by fastforce
  qed
  then show ?thesis using d(1) unfolding immediate_dominator_def S_def by blast
qed

lemma immediate_dominator_dominators:
  assumes "immediate_dominator E e d b"
  shows "{a. dominates E e a b} = insert b {a. dominates E e a d}" and "\<not> dominates E e b d"
proof -
  have db: "dominates E e d b" "d \<noteq> b" using assms by (simp_all add: immediate_dominator_def strictly_dominates_def)
  show "\<not> dominates E e b d" using dominates_antisym db by metis
  show "{a. dominates E e a b} = insert b {a. dominates E e a d}"
  proof (intro equalityI subsetI)
    fix a assume "a \<in> {a. dominates E e a b}"
    then show "a \<in> insert b {a. dominates E e a d}"
      using assms by (auto simp: immediate_dominator_def strictly_dominates_def)
  next
    fix a assume "a \<in> insert b {a. dominates E e a d}"
    then show "a \<in> {a. dominates E e a b}"
      using db(1) dominates_trans dominates_refl dominates_reachable by fast
  qed
qed

text \<open>How deep a node lies in the dominator tree: the number of its strict dominators.\<close>

definition dom_level :: "('a \<Rightarrow> 'a \<Rightarrow> bool) \<Rightarrow> 'a \<Rightarrow> 'a \<Rightarrow> nat" where
  "dom_level E e b = card {a. strictly_dominates E e a b}"

lemma dom_level_entry [simp]: "dom_level E e e = 0"
  by (simp add: dom_level_def strictly_dominates_def dominator_of_entry)

lemma dom_level_immediate:
  assumes "immediate_dominator E e d b"
  shows "dom_level E e b = dom_level E e d + 1"
proof -
  have strict: "dom_level E e x = card {a. dominates E e a x} - 1" if "reachable E e x" for x
  proof -
    have "{a. strictly_dominates E e a x} = {a. dominates E e a x} - {x}" by (auto simp: strictly_dominates_def)
    then show ?thesis using that dominates_refl [of E e x] finite_dominators by (simp add: dom_level_def)
  qed
  have r: "reachable E e b" "reachable E e d"
    using assms dominates_reachable dominator_reachable
    unfolding immediate_dominator_def strictly_dominates_def by metis+
  have "card {a. dominates E e a b} = card {a. dominates E e a d} + 1"
    using immediate_dominator_dominators [OF assms] finite_dominators [of E e d] by simp
  moreover have "0 < card {a. dominates E e a d}"
    using r(2) dominates_refl [of E e d] finite_dominators [of E e d] by (auto simp: card_gt_0_iff)
  ultimately show ?thesis using strict [OF r(1)] strict [OF r(2)] by simp
qed

end
