(* ===== verification/Chaotic_Iteration.thy ===== *)
theory Chaotic_Iteration
  imports Cco_Prelude "HOL-Library.While_Combinator"
begin

text \<open>
  The analyses of the compiler iterate in the same way: a flag \<open>changed\<close> is cleared, every item
  (block, edge) updates the solution in place and sets the flag if it changed something, and the
  pass is repeated while the flag is set. The locale states what an analysis has to show of
  one update; its lemmas give the end of the iteration and a solution that no update changes.
\<close>

section \<open>Boolean matrices\<close>

text \<open>Solutions are square or rectangular lists of rows; their weight counts the true entries.\<close>

definition square :: "nat \<Rightarrow> bool list list \<Rightarrow> bool" where
  "square n D \<longleftrightarrow> length D = n \<and> (\<forall>i < n. length (D ! i) = n)"

definition total :: "bool list list \<Rightarrow> nat" where
  "total D = sum_list (map (count_if id) D)"

lemma count_if_mono:
  assumes "length xs = length ys" and "\<forall>j < length xs. xs ! j \<longrightarrow> ys ! j" and "xs \<noteq> ys"
  shows "count_if id xs < count_if id ys"
  using assms
proof (induction xs ys rule: list_induct2)
  case (Cons x xs y ys)
  have le: "\<forall>j < length xs. xs ! j \<longrightarrow> ys ! j" and xy: "x \<longrightarrow> y" using Cons.prems(1) by (auto simp: nth_Cons split: nat.splits)
  show ?case
  proof (cases "xs = ys")
    case True
    then show ?thesis using xy Cons.prems(2) by auto
  next
    case False
    then show ?thesis using Cons.IH [OF le] xy by auto
  qed
qed simp

lemma total_update:
  assumes "i < length D" and "count_if id row < count_if id (D ! i)"
  shows "total (D[i := row]) < total D"
proof -
  have "sum_list (map (count_if id) (D[i := row])) =
      sum_list (map (count_if id) D) + count_if id row - count_if id (D ! i)"
    using assms(1) by (simp add: map_update sum_list_update)
  moreover have "count_if id (D ! i) \<le> sum_list (map (count_if id) D)"
    using assms(1) by (intro member_le_sum_list) auto
  ultimately show ?thesis using assms(2) by (simp add: total_def)
qed

lemma count_if_Not: "count_if Not xs = count_if id (map Not xs)"
  by (induction xs) auto

lemma count_if_Not_mono:
  assumes "length xs = length ys" and "\<forall>j < length xs. xs ! j \<longrightarrow> ys ! j" and "xs \<noteq> ys"
  shows "count_if Not ys < count_if Not xs"
proof -
  have "map Not ys \<noteq> map Not xs" using assms(3) inj_map_eq_map [of Not ys xs] by (auto simp: inj_def)
  then show ?thesis
    unfolding count_if_Not using assms by (intro count_if_mono) auto
qed

text \<open>The number of false entries.\<close>

definition missing :: "bool list list \<Rightarrow> nat" where
  "missing D = sum_list (map (count_if Not) D)"

lemma missing_update:
  assumes "i < length D" and "count_if Not row < count_if Not (D ! i)"
  shows "missing (D[i := row]) < missing D"
proof -
  have "sum_list (map (count_if Not) (D[i := row])) =
      sum_list (map (count_if Not) D) + count_if Not row - count_if Not (D ! i)"
    using assms(1) by (simp add: map_update sum_list_update)
  moreover have "count_if Not (D ! i) \<le> sum_list (map (count_if Not) D)"
    using assms(1) by (intro member_le_sum_list) auto
  ultimately show ?thesis using assms(2) by (simp add: missing_def)
qed

section \<open>The iteration\<close>

locale chaotic_iteration =
  fixes step :: "'i \<Rightarrow> 's \<times> bool \<Rightarrow> 's \<times> bool"
    and update :: "'i \<Rightarrow> 's \<Rightarrow> 's"
    and items :: "'i set"
    and invar :: "'s \<Rightarrow> bool"
    and weight :: "'s \<Rightarrow> nat"
  assumes step_update: "\<lbrakk> invar s; i \<in> items \<rbrakk> \<Longrightarrow>
      step i (s, ch) = (if update i s = s then (s, ch) else (update i s, True))"
    and update_invar: "\<lbrakk> invar s; i \<in> items \<rbrakk> \<Longrightarrow> invar (update i s)"
    and update_weight: "\<lbrakk> invar s; i \<in> items; update i s \<noteq> s \<rbrakk> \<Longrightarrow> weight (update i s) < weight s"
begin

lemma pass_result:
  assumes "invar s" and "set is \<subseteq> items" and "fold step is (s, ch) = (s', ch')"
  shows "invar s' \<and> ((s' = s \<and> ch' = ch \<and> (\<forall>i \<in> set is. update i s = s)) \<or> (weight s' < weight s \<and> ch'))"
  using assms
proof (induction "is" arbitrary: s ch)
  case (Cons i "is")
  note st = step_update [OF Cons.prems(1), of i]
  show ?case
  proof (cases "update i s = s")
    case True
    then have "fold step is (s, ch) = (s', ch')" using Cons.prems(2,3) st by simp
    from Cons.IH [OF Cons.prems(1) _ this] Cons.prems(2) True show ?thesis by auto
  next
    case False
    then have s: "fold step is (update i s, True) = (s', ch')" using Cons.prems(2,3) False st by simp
    have "invar (update i s)" "weight (update i s) < weight s"
      using update_invar update_weight Cons.prems(1,2) False by auto
    with Cons.IH [OF _ _ s] Cons.prems(2) show ?thesis by fastforce
  qed
qed auto

lemma iteration_ends:
  assumes "invar s" and "set is \<subseteq> items"
  shows "\<exists>t. while_option snd (\<lambda>(s, ch). fold step is (s, False)) (s, True) = Some (t, False) \<and>
    invar t \<and> (\<forall>i \<in> set is. update i t = t)"
proof -
  let ?P = "\<lambda>s. invar (fst s) \<and> (\<not> snd s \<longrightarrow> (\<forall>i \<in> set is. update i (fst s) = fst s))"
  let ?c = "\<lambda>(s, ch :: bool). fold step is (s, False)"
  let ?m = "\<lambda>s. 2 * weight (fst s) + (if snd s then 1 else 0 :: nat)"
  have st: "?P (?c s) \<and> ?m (?c s) < ?m s" if s: "?P s" "snd s" for s
  proof -
    obtain x ch where x: "s = (x, ch)" by (cases s)
    obtain x' ch' where r: "fold step is (x, False) = (x', ch')" by (cases "fold step is (x, False)")
    from pass_result [OF _ assms(2) r] s x r show ?thesis by auto
  qed
  have init: "?P (s, True)" using assms(1) by simp
  obtain t where t: "while_option snd ?c (s, True) = Some t"
    using measure_while_option_Some [of ?P snd ?c ?m "(s, True)"] st init by blast
  have "?P t" using while_option_rule [of ?P snd ?c "(s, True)" t] st init t by blast
  moreover have "\<not> snd t" using while_option_stop [OF t] .
  ultimately show ?thesis using t by (cases t) auto
qed

end

end
