(* ===== verification/Ir_Dominance_Correct.thy ===== *)
theory Ir_Dominance_Correct
  imports Ir_Dominance Flow_Graph Chaotic_Iteration
begin

text \<open>
  The dominance analysis against the paths of the flow graph: what it marks reachable is what a
  path reaches, its dominator sets are those of all paths, its tree, depths and frontiers follow
  the definitions, it always returns, and its own checker accepts what it computes.
\<close>

section \<open>The graph of a function\<close>

text \<open>What the analysis relies on: the list of blocks has no repetition, the entry is in it, and
  the two ends of every edge between its blocks agree, as \<open>ir_recompute_cfg\<close> leaves them.\<close>

definition cfg_ok :: "ir_function \<Rightarrow> bool" where
  "cfg_ok f \<longleftrightarrow> fn_order f \<noteq> [] \<and> distinct (fn_order f) \<and>
     (\<forall>b. fn_entry f = Some b \<longrightarrow> b \<in> set (fn_order f)) \<and>
     (\<forall>a \<in> set (fn_order f). \<forall>b \<in> set (fn_order f). b \<in> set (succs f a) \<longleftrightarrow> a \<in> set (preds f b))"

definition flow_edge :: "ir_function \<Rightarrow> nat \<Rightarrow> nat \<Rightarrow> bool" where
  "flow_edge f i j \<longleftrightarrow> i < length (fn_order f) \<and> j \<in> set (succ_indices f i)"

abbreviation reach_from_entry :: "ir_function \<Rightarrow> nat \<Rightarrow> bool" where
  "reach_from_entry f \<equiv> reachable (flow_edge f) (entry_index f)"

abbreviation doms :: "ir_function \<Rightarrow> nat \<Rightarrow> nat \<Rightarrow> bool" where
  "doms f \<equiv> dominates (flow_edge f) (entry_index f)"

lemma get_block_index_Some:
  "get_block_index blocks b = Some i \<Longrightarrow> i < length blocks \<and> blocks ! i = b"
  by (auto simp: get_block_index_def find_Some_iff)

lemma get_block_index_None: "get_block_index blocks b = None \<longleftrightarrow> b \<notin> set blocks"
  by (auto simp: get_block_index_def find_None_iff in_set_conv_nth)

lemma get_block_index_nth [simp]:
  "distinct blocks \<Longrightarrow> i < length blocks \<Longrightarrow> get_block_index blocks (blocks ! i) = Some i"
  using get_block_index_Some get_block_index_None
  by (metis distinct_conv_nth not_Some_eq nth_mem)

lemma set_map_filter_index:
  assumes "distinct blocks"
  shows "j \<in> set (List.map_filter (get_block_index blocks) bs) \<longleftrightarrow> j < length blocks \<and> blocks ! j \<in> set bs"
proof -
  have "j \<in> set (List.map_filter (get_block_index blocks) bs) \<longleftrightarrow>
      (\<exists>b \<in> set bs. get_block_index blocks b = Some j)"
    by (force simp: List.map_filter_def)
  also have "\<dots> \<longleftrightarrow> j < length blocks \<and> blocks ! j \<in> set bs"
    using get_block_index_Some [of blocks _ j] get_block_index_nth [OF assms] by blast
  finally show ?thesis .
qed

lemma succ_index_range: "j \<in> set (succ_indices f i) \<Longrightarrow> j < length (fn_order f)"
  using get_block_index_Some by (force simp: succ_indices_def List.map_filter_def)

lemma pred_index_range: "j \<in> set (pred_indices f i) \<Longrightarrow> j < length (fn_order f)"
  using get_block_index_Some by (force simp: pred_indices_def List.map_filter_def)

lemma entry_index_range: "fn_order f \<noteq> [] \<Longrightarrow> entry_index f < length (fn_order f)"
  using get_block_index_Some by (auto simp: entry_index_def split: option.splits)

lemma flow_edge_pred:
  assumes "cfg_ok f" and "i < length (fn_order f)" and "j < length (fn_order f)"
  shows "flow_edge f i j \<longleftrightarrow> i \<in> set (pred_indices f j)"
  using assms by (simp add: cfg_ok_def flow_edge_def succ_indices_def pred_indices_def set_map_filter_index)

lemma flow_edge_range: "flow_edge f i j \<Longrightarrow> i < length (fn_order f) \<and> j < length (fn_order f)"
  using succ_index_range by (auto simp: flow_edge_def)

lemma reachable_range:
  assumes "fn_order f \<noteq> []" and "reach_from_entry f i"
  shows "i < length (fn_order f)"
  using reachable_pred [OF assms(2)] entry_index_range [OF assms(1)] flow_edge_range by metis

lemma recompute_cfg_ok:
  assumes "fn_order f \<noteq> []" and "distinct (fn_order f)" and "set (fn_order f) \<subseteq> {..<length (fn_heap f)}"
    and "\<forall>b. fn_entry f = Some b \<longrightarrow> b \<in> set (fn_order f)"
  shows "cfg_ok (ir_recompute_cfg f)"
proof -
  let ?g = "ir_recompute_cfg f"
  have s: "same_but_edges f ?g" using recompute_cfg_spec [OF assms(2,3)] by blast
  have o: "fn_order ?g = fn_order f" "fn_entry ?g = fn_entry f" using s by (auto simp: same_but_edges_def)
  have "b \<in> set (succs ?g a) \<longleftrightarrow> a \<in> set (preds ?g b)"
    if "a \<in> set (fn_order f)" "b \<in> set (fn_order f)" for a b
    using recompute_cfg_spec [OF assms(2,3)] that by (simp add: set_dedup_onto)
  then show ?thesis using o assms by (simp add: cfg_ok_def)
qed

section \<open>The breadth first search\<close>

lemma visit_apply:
  "visit i (reach, queue) =
     (if i < length reach \<and> \<not> reach ! i then (reach[i := True], queue @ [i]) else (reach, queue))"
  by (simp add: visit_def)

lemma visits_result:
  assumes "fold visit is (reach, queue) = (reach', queue')"
  shows "length reach' = length reach \<and>
    (\<forall>i < length reach. reach' ! i \<longleftrightarrow> reach ! i \<or> i \<in> set is) \<and>
    set queue' = set queue \<union> {i \<in> set is. i < length reach \<and> \<not> reach ! i}"
  using assms
proof (induction "is" arbitrary: reach queue)
  case Nil
  then show ?case by simp
next
  case (Cons i "is")
  show ?case
  proof (cases "i < length reach \<and> \<not> reach ! i")
    case True
    then have "fold visit is (reach[i := True], queue @ [i]) = (reach', queue')"
      using Cons.prems by (simp add: visit_apply)
    from Cons.IH [OF this] True show ?thesis by (auto simp: nth_list_update)
  next
    case False
    then have "fold visit is (reach, queue) = (reach', queue')"
      using Cons.prems False by (auto simp: visit_apply split: if_splits)
    from Cons.IH [OF this] False show ?thesis by auto
  qed
qed

definition bfs_inv :: "ir_function \<Rightarrow> bool list \<Rightarrow> nat list \<Rightarrow> bool" where
  "bfs_inv f reach queue \<longleftrightarrow>
     length reach = length (fn_order f) \<and> (\<forall>i \<in> set queue. i < length reach \<and> reach ! i) \<and>
     (\<forall>i < length reach. reach ! i \<longrightarrow> reach_from_entry f i) \<and>
     (\<forall>i < length reach. reach ! i \<and> i \<notin> set queue \<longrightarrow> (\<forall>j. flow_edge f i j \<longrightarrow> reach ! j)) \<and>
     reach ! entry_index f"

lemma bfs_invD:
  assumes "bfs_inv f reach queue"
  shows "length reach = length (fn_order f)" "i \<in> set queue \<Longrightarrow> i < length reach \<and> reach ! i"
    "i < length reach \<Longrightarrow> reach ! i \<Longrightarrow> reach_from_entry f i"
    "i < length reach \<Longrightarrow> reach ! i \<Longrightarrow> i \<notin> set queue \<Longrightarrow> flow_edge f i j \<Longrightarrow> reach ! j"
    "reach ! entry_index f"
  using assms unfolding bfs_inv_def by blast+

lemma bfs_step:
  assumes inv: "bfs_inv f reach (c # queue)"
    and st: "fold visit (succ_indices f c) (reach, queue) = (reach', queue')"
  shows "bfs_inv f reach' queue'"
proof -
  have v: "length reach' = length reach"
    "\<And>i. i < length reach \<Longrightarrow> reach' ! i \<longleftrightarrow> reach ! i \<or> i \<in> set (succ_indices f c)"
    "set queue' = set queue \<union> {i \<in> set (succ_indices f c). i < length reach \<and> \<not> reach ! i}"
    using visits_result [OF st] by auto
  note old = bfs_invD [OF inv]
  have len: "length reach = length (fn_order f)" and c: "c < length reach" "reach ! c"
    and e: "reach ! entry_index f"
    using old(1) old(2) [of c] old(5) by simp_all
  have ec: "flow_edge f c j \<longleftrightarrow> j \<in> set (succ_indices f c)" for j using c len by (simp add: flow_edge_def)
  have elt: "entry_index f < length reach" using c len entry_index_range by (metis length_0_conv not_less_zero)
  show ?thesis unfolding bfs_inv_def
  proof (intro conjI allI impI ballI)
    fix i assume "i \<in> set queue'"
    then show "i < length reach'" "reach' ! i" using old(2) [of i] v by auto
  next
    fix i assume "i < length reach'" "reach' ! i"
    then show "reach_from_entry f i"
      using v(1,2) old(3) [of i] old(3) [OF c] reachable_step [of "flow_edge f" "entry_index f" c i] ec by auto
  next
    fix i j assume i: "i < length reach'" "reach' ! i \<and> i \<notin> set queue'" and ij: "flow_edge f i j"
    have jl: "j < length reach" using flow_edge_range [OF ij] len by simp
    show "reach' ! j"
    proof (cases "i = c")
      case True
      then show ?thesis using ij ec v(2) [OF jl] by simp
    next
      case False
      have "reach ! i" "i \<notin> set queue" using i v by auto
      then show ?thesis using old(4) [of i j] i v(1,2) jl ij False by simp
    qed
  qed (use len v e elt in auto)
qed

lemma bfs_result:
  assumes "bfs_inv f reach queue" and "fn_order f \<noteq> []"
  shows "length (bfs f reach queue) = length (fn_order f) \<and>
    (\<forall>i < length (fn_order f). bfs f reach queue ! i \<longleftrightarrow> reach_from_entry f i)"
  using assms
proof (induction f reach queue rule: bfs.induct)
  case (1 f reach)
  have "reach ! i" if "reach_from_entry f i" for i
    using that unfolding reachable_rtranclp
  proof (induction rule: rtranclp_induct)
    case base
    then show ?case using bfs_invD(5) [OF 1(1)] by simp
  next
    case (step i j)
    have "i < length reach" using bfs_invD(1) [OF 1(1)] flow_edge_range [OF step(2)] by simp
    then show ?case using bfs_invD(4) [OF 1(1), of i j] step(2,3) by simp
  qed
  then show ?case using bfs_invD(1,3) [OF 1(1)] by auto
next
  case (2 f reach c queue)
  obtain reach' queue' where st: "fold visit (succ_indices f c) (reach, queue) = (reach', queue')"
    by (cases "fold visit (succ_indices f c) (reach, queue)")
  from 2(1) [OF st [symmetric] bfs_step [OF 2(2) st] 2(3)] st show ?case by simp
qed

lemma reachability_result:
  assumes "fn_order f \<noteq> []"
  shows "length (reachability f) = length (fn_order f)"
    and "i < length (fn_order f) \<Longrightarrow> reachability f ! i \<longleftrightarrow> reach_from_entry f i"
proof -
  have "bfs_inv f ((replicate (length (fn_order f)) False)[entry_index f := True]) [entry_index f]"
    using entry_index_range [OF assms] by (auto simp: bfs_inv_def nth_list_update split: if_splits)
  from bfs_result [OF this assms]
  show "length (reachability f) = length (fn_order f)"
    "i < length (fn_order f) \<Longrightarrow> reachability f ! i \<longleftrightarrow> reach_from_entry f i"
    by (auto simp: reachability_def)
qed

section \<open>The iteration over the dominator sets\<close>

definition reached_preds :: "ir_function \<Rightarrow> nat \<Rightarrow> nat list" where
  "reached_preds f i = filter (\<lambda>p. reachability f ! p) (pred_indices f i)"

text \<open>What one visit of a block computes, as a predicate over the indices.\<close>

definition new_dom :: "ir_function \<Rightarrow> bool list list \<Rightarrow> nat \<Rightarrow> nat \<Rightarrow> bool" where
  "new_dom f D i j \<longleftrightarrow> j = i \<or> (reached_preds f i \<noteq> [] \<and> (\<forall>p \<in> set (reached_preds f i). D ! p ! j))"

definition new_row :: "ir_function \<Rightarrow> bool list list \<Rightarrow> nat \<Rightarrow> bool list" where
  "new_row f D i = (meet_preds (length (fn_order f)) D (reached_preds f i))[i := True]"

lemma fold_meet:
  assumes "\<forall>q \<in> set ps. length (D ! q) = n" and "length t = n"
  shows "length (fold (\<lambda>q temp. map2 (\<and>) temp (D ! q)) ps t) = n \<and>
    (\<forall>j < n. fold (\<lambda>q temp. map2 (\<and>) temp (D ! q)) ps t ! j \<longleftrightarrow> t ! j \<and> (\<forall>q \<in> set ps. D ! q ! j))"
  using assms
proof (induction ps arbitrary: t)
  case (Cons p ps)
  then have "length (map2 (\<and>) t (D ! p)) = n" by simp
  from Cons.IH [OF _ this] Cons.prems show ?case by auto
qed simp

lemma new_row_result:
  assumes "square (length (fn_order f)) D" and "i < length (fn_order f)"
  shows "length (new_row f D i) = length (fn_order f) \<and>
    (\<forall>j < length (fn_order f). new_row f D i ! j \<longleftrightarrow> new_dom f D i j)"
proof (cases "reached_preds f i")
  case Nil
  then show ?thesis using assms by (auto simp: new_row_def new_dom_def nth_list_update)
next
  case (Cons p ps)
  have "set (reached_preds f i) \<subseteq> {..<length (fn_order f)}"
    using pred_index_range by (auto simp: reached_preds_def)
  then have l: "\<forall>q \<in> set ps. length (D ! q) = length (fn_order f)" "length (D ! p) = length (fn_order f)"
    using assms(1) Cons by (auto simp: square_def)
  show ?thesis using fold_meet [OF l] assms(2) Cons
    by (auto simp: new_row_def new_dom_def nth_list_update)
qed

definition skipped :: "ir_function \<Rightarrow> nat \<Rightarrow> bool" where
  "skipped f i \<longleftrightarrow> i = entry_index f \<or> \<not> reachability f ! i"

lemma sweep_block_apply:
  "sweep_block f (reachability f) i (D, ch) =
     (if skipped f i \<or> D ! i = new_row f D i then (D, ch) else (D[i := new_row f D i], True))"
  by (simp add: sweep_block_def skipped_def new_row_def reached_preds_def Let_def)

text \<open>
  The invariant: no dominator is ever lost, the skipped rows keep their value, and a visit can
  only clear entries.
\<close>

definition dom_inv :: "ir_function \<Rightarrow> bool list list \<Rightarrow> bool" where
  "dom_inv f D \<longleftrightarrow> square (length (fn_order f)) D \<and>
     (\<forall>i < length (fn_order f). \<forall>j < length (fn_order f).
        (doms f j i \<longrightarrow> D ! i ! j) \<and>
        (skipped f i \<and> D ! i ! j \<longrightarrow> i = entry_index f \<and> j = entry_index f) \<and>
        (\<not> skipped f i \<and> new_dom f D i j \<longrightarrow> D ! i ! j))"

lemma dom_invD:
  assumes "dom_inv f D"
  shows "square (length (fn_order f)) D"
    "\<lbrakk> i < length (fn_order f); j < length (fn_order f); doms f j i \<rbrakk> \<Longrightarrow> D ! i ! j"
    "\<lbrakk> i < length (fn_order f); j < length (fn_order f); skipped f i; D ! i ! j \<rbrakk>
      \<Longrightarrow> i = entry_index f \<and> j = entry_index f"
    "\<lbrakk> i < length (fn_order f); j < length (fn_order f); \<not> skipped f i; new_dom f D i j \<rbrakk> \<Longrightarrow> D ! i ! j"
  using assms unfolding dom_inv_def by blast+

lemma nonempty: "cfg_ok f \<Longrightarrow> fn_order f \<noteq> []"
  by (simp add: cfg_ok_def)

lemma reached_preds_set:
  assumes ok: "cfg_ok f" and i: "i < length (fn_order f)"
  shows "set (reached_preds f i) = {p. flow_edge f p i \<and> reach_from_entry f p}"
proof -
  have "p \<in> set (pred_indices f i) \<longleftrightarrow> flow_edge f p i" for p
    using flow_edge_pred [OF ok _ i, of p] pred_index_range flow_edge_range by metis
  then show ?thesis
    using reachability_result(2) [OF nonempty [OF ok]] flow_edge_range by (auto simp: reached_preds_def)
qed

lemma skipped_iff:
  assumes ok: "cfg_ok f"
  shows "i < length (fn_order f) \<Longrightarrow> skipped f i \<longleftrightarrow> i = entry_index f \<or> \<not> reach_from_entry f i"
  using reachability_result(2) [OF nonempty [OF ok]] by (simp add: skipped_def)

lemma reached_preds_nonempty:
  assumes ok: "cfg_ok f" and i: "i < length (fn_order f)" "\<not> skipped f i"
  shows "reached_preds f i \<noteq> []"
proof -
  have "reach_from_entry f i" "i \<noteq> entry_index f" using i skipped_iff [OF ok i(1)] by auto
  then obtain b where "reach_from_entry f b" "flow_edge f b i" by (rule reachable_pred)
  then show ?thesis using reached_preds_set [OF ok i(1)] by (metis (mono_tags, lifting) empty_iff list.set(1) mem_Collect_eq)
qed

lemma new_dom_dominates:
  assumes ok: "cfg_ok f" and inv: "dom_inv f D" and i: "i < length (fn_order f)" "\<not> skipped f i" and d: "doms f j i"
  shows "new_dom f D i j"
proof (cases "j = i")
  case False
  have j: "j < length (fn_order f)" using reachable_range [OF nonempty [OF ok]] dominator_reachable [OF d] by simp
  have "D ! p ! j" if "p \<in> set (reached_preds f i)" for p
  proof -
    have p: "flow_edge f p i" "reach_from_entry f p" using that reached_preds_set [OF ok i(1)] by simp_all
    have "doms f j p" by (rule dominates_pred [OF d False p])
    then show ?thesis using dom_invD(2) [OF inv] flow_edge_range [OF p(1)] j by blast
  qed
  then show ?thesis unfolding new_dom_def using reached_preds_nonempty [OF ok i] by blast
qed (simp add: new_dom_def)

lemma sweep_block_inv:
  assumes ok: "cfg_ok f" and inv: "dom_inv f D" and i: "i < length (fn_order f)" "\<not> skipped f i" and ne: "D ! i \<noteq> new_row f D i"
  shows "dom_inv f (D[i := new_row f D i]) \<and> total (D[i := new_row f D i]) < total D"
proof -
  note old = dom_invD [OF inv]
  have row: "length (new_row f D i) = length (fn_order f)"
    "\<And>j. j < length (fn_order f) \<Longrightarrow> new_row f D i ! j \<longleftrightarrow> new_dom f D i j"
    using new_row_result [OF old(1) i(1)] by auto
  have len: "length D = length (fn_order f)" "\<And>k. k < length (fn_order f) \<Longrightarrow> length (D ! k) = length (fn_order f)"
    using old(1) by (auto simp: square_def)
  have below: "new_row f D i ! j \<longrightarrow> D ! i ! j" if "j < length (fn_order f)" for j
    using that row(2) old(4) i by blast
  have smaller: "D[i := new_row f D i] ! k ! j \<longrightarrow> D ! k ! j"
    if "k < length (fn_order f)" "j < length (fn_order f)" for k j
    using that below [of j] len by (cases "k = i") auto
  have nd: "new_dom f (D[i := new_row f D i]) k j \<longrightarrow> new_dom f D k j"
    if "k < length (fn_order f)" "j < length (fn_order f)" for k j
    using smaller that reached_preds_set [OF ok that(1)] flow_edge_range unfolding new_dom_def by blast
  have "dom_inv f (D[i := new_row f D i])" unfolding dom_inv_def
  proof (intro conjI allI impI)
    show "square (length (fn_order f)) (D[i := new_row f D i])"
      using len row(1) i(1) by (simp add: square_def nth_list_update)
    fix k j assume k: "k < length (fn_order f)" and j: "j < length (fn_order f)"
    show "D[i := new_row f D i] ! k ! j" if "doms f j k"
      using that old(2) [OF k j] new_dom_dominates [OF ok inv i, of j] row(2) [OF j] len i
      by (cases "k = i") auto
    show "k = entry_index f" "j = entry_index f" if "skipped f k \<and> D[i := new_row f D i] ! k ! j"
      using that smaller [OF k j] old(3) [OF k j] by blast+
    show "D[i := new_row f D i] ! k ! j" if "\<not> skipped f k \<and> new_dom f (D[i := new_row f D i]) k j"
      using that nd [OF k j] old(4) [OF k j] row(2) [OF j] len i by (cases "k = i") auto
  qed
  moreover have "count_if id (new_row f D i) < count_if id (D ! i)"
    using below row(1) len(2) [OF i(1)] ne by (intro count_if_mono) auto
  ultimately show ?thesis using total_update len(1) i(1) by metis
qed

text \<open>The visits as updates of the iteration that all analyses share.\<close>

definition visit_row :: "ir_function \<Rightarrow> nat \<Rightarrow> bool list list \<Rightarrow> bool list list" where
  "visit_row f i D = (if skipped f i then D else D[i := new_row f D i])"

definition stable_row :: "ir_function \<Rightarrow> bool list list \<Rightarrow> nat \<Rightarrow> bool" where
  "stable_row f D i \<longleftrightarrow> skipped f i \<or> D ! i = new_row f D i"

lemma visit_row_stable:
  assumes "dom_inv f D" and "i < length (fn_order f)"
  shows "visit_row f i D = D \<longleftrightarrow> stable_row f D i"
proof -
  have "i < length D" using dom_invD(1) [OF assms(1)] assms(2) by (simp add: square_def)
  then show ?thesis by (auto simp: visit_row_def stable_row_def list_update_same_conv)
qed

interpretation dom_iter: chaotic_iteration "sweep_block f (reachability f)" "visit_row f"
  "{..<length (fn_order f)}" "\<lambda>D. cfg_ok f \<and> dom_inv f D" total for f
proof
  fix D i ch
  assume inv: "cfg_ok f \<and> dom_inv f D" and i: "i \<in> {..<length (fn_order f)}"
  show "sweep_block f (reachability f) i (D, ch) =
      (if visit_row f i D = D then (D, ch) else (visit_row f i D, True))"
    using visit_row_stable [of f D i] inv i
    by (auto simp: sweep_block_apply stable_row_def visit_row_def)
  show "cfg_ok f \<and> dom_inv f (visit_row f i D)"
    using sweep_block_inv [of f D i] visit_row_stable [of f D i] inv i
    by (cases "stable_row f D i") (auto simp: stable_row_def visit_row_def)
  show "total (visit_row f i D) < total D" if "visit_row f i D \<noteq> D"
    using sweep_block_inv [of f D i] visit_row_stable [of f D i] that inv i
    by (auto simp: stable_row_def visit_row_def)
qed

lemma initial_inv:
  assumes ok: "cfg_ok f"
  shows "dom_inv f (initial_doms f (reachability f))"
proof -
  let ?n = "length (fn_order f)" and ?e = "entry_index f"
  have e: "?e < ?n" using entry_index_range [OF nonempty [OF ok]] .
  have at: "initial_doms f (reachability f) ! i ! j =
      (if i = ?e then j = ?e else reach_from_entry f i \<and> reach_from_entry f j)"
    if "i < ?n" "j < ?n" for i j
    using that e reachability_result(2) [OF nonempty [OF ok]] by (auto simp: initial_doms_def Let_def nth_list_update)
  show ?thesis unfolding dom_inv_def
  proof (intro conjI allI impI)
    show "square ?n (initial_doms f (reachability f))"
      by (simp add: square_def initial_doms_def Let_def)
    fix i j assume i: "i < ?n" and j: "j < ?n"
    show "initial_doms f (reachability f) ! i ! j" if "doms f j i"
      using that at [OF i j] dominator_reachable dominates_reachable dominator_of_entry by metis
    show "i = ?e" "j = ?e" if "skipped f i \<and> initial_doms f (reachability f) ! i ! j"
      using that at [OF i j] skipped_iff [OF ok i] by (auto split: if_splits)
    show "initial_doms f (reachability f) ! i ! j"
      if "\<not> skipped f i \<and> new_dom f (initial_doms f (reachability f)) i j"
    proof (cases "j = i")
      case True
      then show ?thesis using that at [OF i j] skipped_iff [OF ok i] by simp
    next
      case False
      then have "\<forall>p \<in> set (reached_preds f i). initial_doms f (reachability f) ! p ! j"
        "reached_preds f i \<noteq> []" using that by (simp_all add: new_dom_def)
      then obtain p where p: "p \<in> set (reached_preds f i)" "initial_doms f (reachability f) ! p ! j"
        by (cases "reached_preds f i") auto
      then have "p < ?n" using reached_preds_set [OF ok i] flow_edge_range by auto
      then have "reach_from_entry f j" using at [of p j] j p(2) by (auto split: if_splits)
      then show ?thesis using that at [OF i j] skipped_iff [OF ok i] by simp
    qed
  qed
qed

text \<open>The iteration ends, in a state that no visit changes.\<close>

lemma dom_fixpoint_ends:
  assumes ok: "cfg_ok f"
  shows "\<exists>D. dom_fixpoint f (reachability f) = Some D \<and> dom_inv f D \<and>
    (\<forall>i < length (fn_order f). stable_row f D i)"
proof -
  have "set [0..<length (fn_order f)] \<subseteq> {..<length (fn_order f)}" by auto
  from dom_iter.iteration_ends [OF conjI [OF ok initial_inv [OF ok]] this]
  obtain D where "while_option snd (\<lambda>(D, ch). sweep f (reachability f) D) (initial_doms f (reachability f), True) =
      Some (D, False)" "dom_inv f D" "\<forall>i \<in> set [0..<length (fn_order f)]. visit_row f i D = D"
    by (auto simp: sweep_def)
  then show ?thesis using visit_row_stable [of f D] by (auto simp: dom_fixpoint_def)
qed

lemma stable_sound:
  assumes ok: "cfg_ok f" and inv: "dom_inv f D" and st: "\<And>i. i < length (fn_order f) \<Longrightarrow> stable_row f D i"
    and p: "entry_path (flow_edge f) (entry_index f) (i # p)"
    and j: "j < length (fn_order f)" "D ! i ! j"
  shows "j \<in> set (i # p)"
  using p j(2)
proof (induction "i # p" arbitrary: i p rule: entry_path.induct)
  case start
  have "skipped f (entry_index f)" by (simp add: skipped_def)
  then show ?case using dom_invD(3) [OF inv entry_index_range [OF nonempty [OF ok]] j(1)] start by simp
next
  case (step b p c)
  have c: "c < length (fn_order f)" "b < length (fn_order f)" using step(3) flow_edge_range by auto
  show ?case
  proof (cases "skipped f c")
    case True
    then show ?thesis using dom_invD(3) [OF inv c(1) j(1)] step(4) by simp
  next
    case False
    then have "new_dom f D c j"
      using st [OF c(1)] new_row_result [OF dom_invD(1) [OF inv] c(1)] step(4) j(1)
      by (auto simp: stable_row_def)
    moreover have "b \<in> set (reached_preds f c)"
      using reached_preds_set [OF ok c(1)] step(1,3) unfolding reachable_def by blast
    ultimately show ?thesis using step(2) unfolding new_dom_def by auto
  qed
qed

lemma dom_fixpoint_dominates:
  assumes ok: "cfg_ok f"
  shows "\<exists>D. dom_fixpoint f (reachability f) = Some D \<and> square (length (fn_order f)) D \<and>
    (\<forall>i < length (fn_order f). \<forall>j < length (fn_order f). D ! i ! j \<longleftrightarrow> doms f j i)"
proof -
  obtain D where D: "dom_fixpoint f (reachability f) = Some D" "dom_inv f D"
    "\<And>i. i < length (fn_order f) \<Longrightarrow> stable_row f D i" using dom_fixpoint_ends [OF ok] by blast
  have "D ! i ! j \<longleftrightarrow> doms f j i" if i: "i < length (fn_order f)" and j: "j < length (fn_order f)" for i j
  proof
    assume d: "D ! i ! j"
    show "doms f j i" unfolding dominates_def
    proof (intro conjI allI impI)
      show "reach_from_entry f i"
        using dom_invD(3) [OF D(2) i j _ d] skipped_iff [OF ok i] by fastforce
    qed (rule stable_sound [OF ok D(2,3) _ j d])
  next
    assume "doms f j i"
    then show "D ! i ! j" using dom_invD(2) [OF D(2) i j] by simp
  qed
  then show ?thesis using D(1) dom_invD(1) [OF D(2)] by blast
qed

end
