(* ===== verification/Ir_Dominance_Tree.thy ===== *)
theory Ir_Dominance_Tree
  imports Ir_Dominance_Correct
begin

text \<open>
  The dominator tree, the depths, the frontiers and the queries, built on the dominator sets
  that \<open>Ir_Dominance_Correct\<close> establishes, and the properties of the whole analysis.
\<close>

definition correct_doms :: "ir_function \<Rightarrow> bool list list \<Rightarrow> bool" where
  "correct_doms f D \<longleftrightarrow> square (length (fn_order f)) D \<and>
     (\<forall>i < length (fn_order f). \<forall>j < length (fn_order f). D ! i ! j \<longleftrightarrow> doms f j i)"

lemma correct_domsD:
  "correct_doms f D \<Longrightarrow> i < length (fn_order f) \<Longrightarrow> j < length (fn_order f) \<Longrightarrow> D ! i ! j \<longleftrightarrow> doms f j i"
  by (simp add: correct_doms_def)

abbreviation idom :: "ir_function \<Rightarrow> nat \<Rightarrow> nat \<Rightarrow> bool" where
  "idom f \<equiv> immediate_dominator (flow_edge f) (entry_index f)"

abbreviation level :: "ir_function \<Rightarrow> nat \<Rightarrow> nat" where
  "level f \<equiv> dom_level (flow_edge f) (entry_index f)"

lemma doms_range:
  assumes "cfg_ok f" and "doms f a b"
  shows "a < length (fn_order f)" "b < length (fn_order f)"
  using reachable_range [OF nonempty [OF assms(1)]] dominator_reachable [OF assms(2)]
    dominates_reachable [OF assms(2)] by auto

lemma idom_doms: "idom f d b \<Longrightarrow> doms f d b \<and> d \<noteq> b"
  by (simp add: immediate_dominator_def strictly_dominates_def)

lemma level_less:
  assumes "cfg_ok f" and "i < length (fn_order f)"
  shows "level f i < length (fn_order f)"
proof -
  have "{a. strictly_dominates (flow_edge f) (entry_index f) a i} \<subseteq> {..<length (fn_order f)} - {i}"
    using doms_range [OF assms(1)] by (auto simp: strictly_dominates_def)
  then have "level f i \<le> card ({..<length (fn_order f)} - {i})"
    unfolding dom_level_def by (intro card_mono) auto
  also have "\<dots> < length (fn_order f)" using assms(2) by simp
  finally show ?thesis .
qed

section \<open>Immediate dominators\<close>

lemma is_immediate_iff:
  assumes ok: "cfg_ok f" and D: "correct_doms f D" and i: "i < length (fn_order f)" and c: "c < length (fn_order f)"
  shows "is_immediate D (length (fn_order f)) i c \<longleftrightarrow> idom f c i"
proof
  assume im: "is_immediate D (length (fn_order f)) i c"
  then have ci: "c \<noteq> i" "doms f c i" using correct_domsD [OF D i c] by (simp_all add: is_immediate_def)
  have "doms f a c" if a: "doms f a i" "a \<noteq> i" for a
  proof (cases "a = c")
    case True
    then show ?thesis using dominator_reachable [OF ci(2)] by (simp add: dominates_refl)
  next
    case False
    have an: "a < length (fn_order f)" using doms_range [OF ok a(1)] by simp
    then have "D ! c ! a"
      using im a False correct_domsD [OF D i an] by (auto simp: is_immediate_def list_all_iff)
    then show ?thesis using correct_domsD [OF D c an] by simp
  qed
  then show "idom f c i" using ci by (simp add: immediate_dominator_def strictly_dominates_def)
next
  assume "idom f c i"
  then show "is_immediate D (length (fn_order f)) i c"
    using correct_domsD [OF D] i c
    by (auto simp: is_immediate_def list_all_iff immediate_dominator_def strictly_dominates_def)
qed

lemma find_idom_iff:
  assumes ok: "cfg_ok f" and D: "correct_doms f D" and i: "i < length (fn_order f)"
  shows "find_idom f (reachability f) D i = Some c \<longleftrightarrow> idom f c i"
proof -
  have r: "reachability f ! i \<longleftrightarrow> reach_from_entry f i"
    using reachability_result(2) [OF nonempty [OF ok] i] .
  show ?thesis
  proof (cases "i = entry_index f \<or> \<not> reach_from_entry f i")
    case True
    have "\<not> idom f c i"
      using True dominates_reachable [of "flow_edge f" "entry_index f" c i]
        dominator_of_entry [of "flow_edge f" "entry_index f" c]
      by (auto simp: immediate_dominator_def strictly_dominates_def)
    then show ?thesis using True r by (auto simp: find_idom_def)
  next
    case False
    then obtain d where d: "idom f d i" using immediate_dominator_exists by metis
    have dn: "d < length (fn_order f)" using doms_range [OF ok] idom_doms [OF d] by blast
    let ?F = "List.find (is_immediate D (length (fn_order f)) i) [0..<length (fn_order f)]"
    have fi: "find_idom f (reachability f) D i = ?F" using False r by (simp add: find_idom_def)
    have "?F \<noteq> None"
      using is_immediate_iff [OF ok D i dn] d dn by (auto simp: find_None_iff)
    then obtain c' where c': "?F = Some c'" by blast
    then have "c' < length (fn_order f)" "is_immediate D (length (fn_order f)) i c'"
      by (auto simp: find_Some_iff)
    then have "idom f c' i" using is_immediate_iff [OF ok D i] by blast
    then show ?thesis using immediate_dominator_unique c' fi by (metis option.inject)
  qed
qed

section \<open>Children and depths\<close>

lemma add_children:
  assumes "\<forall>i \<in> set is. \<forall>c. idoms ! i = Some c \<longrightarrow> c < length ch" and "c < length ch"
  shows "length (fold (add_child idoms) is ch) = length ch \<and>
    fold (add_child idoms) is ch ! c = ch ! c @ filter (\<lambda>i. idoms ! i = Some c) is"
  using assms
proof (induction "is" arbitrary: ch)
  case (Cons i "is")
  have l: "length (add_child idoms i ch) = length ch" by (simp add: add_child_def split: option.split)
  have a: "add_child idoms i ch ! c = ch ! c @ (if idoms ! i = Some c then [i] else [])"
    using Cons.prems by (auto simp: add_child_def nth_list_update split: option.split)
  from Cons.IH [of "add_child idoms i ch"] Cons.prems l a show ?case by simp
qed simp

definition idom_list :: "ir_function \<Rightarrow> bool list list \<Rightarrow> nat option list" where
  "idom_list f D = map (find_idom f (reachability f) D) [0..<length (fn_order f)]"

lemma dom_children_nth:
  assumes ok: "cfg_ok f" and D: "correct_doms f D" and c: "c < length (fn_order f)"
  shows "set (dom_children (idom_list f D) ! c) = {i. idom f c i}"
    and "distinct (dom_children (idom_list f D) ! c)"
proof -
  have len: "length (idom_list f D) = length (fn_order f)" by (simp add: idom_list_def)
  have at: "idom_list f D ! i = Some d \<longleftrightarrow> idom f d i" if "i < length (fn_order f)" for i d
    using find_idom_iff [OF ok D that] that by (simp add: idom_list_def)
  have "\<forall>i \<in> set [0..<length (fn_order f)]. \<forall>d. idom_list f D ! i = Some d \<longrightarrow>
      d < length (replicate (length (fn_order f)) ([] :: nat list))"
    using at doms_range(1) [OF ok] idom_doms by fastforce
  from add_children [OF this, of c] c
  have e: "dom_children (idom_list f D) ! c = filter (\<lambda>i. idom_list f D ! i = Some c) [0..<length (fn_order f)]"
    by (simp add: dom_children_def len)
  show "distinct (dom_children (idom_list f D) ! c)" by (simp add: e)
  have "i < length (fn_order f)" if "idom f c i" for i
    using idom_doms [OF that] doms_range [OF ok] by blast
  then show "set (dom_children (idom_list f D) ! c) = {i. idom f c i}" using at by (auto simp: e)
qed

lemma dominated_by_child:
  assumes "doms f a x" and "a \<noteq> x"
  shows "\<exists>c. idom f a c \<and> doms f c x"
  using assms
proof (induction "level f x" arbitrary: x rule: less_induct)
  case less
  have x: "reach_from_entry f x" "x \<noteq> entry_index f"
    using less.prems dominates_reachable dominator_of_entry by metis+
  then obtain d where d: "idom f d x" using immediate_dominator_exists by metis
  have ad: "doms f a d" using d less.prems by (simp add: immediate_dominator_def strictly_dominates_def)
  show ?case
  proof (cases "a = d")
    case True
    then show ?thesis using d x by (auto intro: dominates_refl)
  next
    case False
    have "level f d < level f x" using dom_level_immediate [OF d] by simp
    then obtain c where "idom f a c" "doms f c d" using less.hyps ad False by blast
    then show ?thesis using idom_doms [OF d] dominates_trans by metis
  qed
qed

lemma children_fold:
  assumes "\<And>c dp. c \<in> set cs \<Longrightarrow> length dp = n \<Longrightarrow>
      \<exists>dp'. g c dp = Some dp' \<and> length dp' = n \<and> (\<forall>x < n. dp' ! x = (if P c x then h x else dp ! x))"
    and "length dp = n"
  shows "\<exists>dp'. fold (\<lambda>c acc. Option.bind acc (g c)) cs (Some dp) = Some dp' \<and> length dp' = n \<and>
    (\<forall>x < n. dp' ! x = (if \<exists>c \<in> set cs. P c x then h x else dp ! x))"
  using assms
proof (induction cs arbitrary: dp)
  case (Cons c cs)
  from Cons.prems(1) [of c dp] Cons.prems(2) obtain dp1 where d1: "g c dp = Some dp1" "length dp1 = n"
    "\<forall>x < n. dp1 ! x = (if P c x then h x else dp ! x)" by auto
  from Cons.IH [of dp1] Cons.prems(1) d1(2) obtain dp2 where
    d2: "fold (\<lambda>c acc. Option.bind acc (g c)) cs (Some dp1) = Some dp2" "length dp2 = n"
    "\<forall>x < n. dp2 ! x = (if \<exists>c \<in> set cs. P c x then h x else dp1 ! x)" by auto
  show ?case using d1 d2 by auto
qed auto

lemma compute_depths_result:
  assumes ok: "cfg_ok f" and D: "correct_doms f D"
    and "reach_from_entry f node" and "length (fn_order f) - level f node < k" and "length dp = length (fn_order f)"
  shows "\<exists>dp'. compute_depths k (dom_children (idom_list f D)) node (level f node) dp = Some dp' \<and>
    length dp' = length (fn_order f) \<and>
    (\<forall>x < length (fn_order f). dp' ! x = (if doms f node x then level f x else dp ! x))"
  using assms(3-5)
proof (induction k arbitrary: node dp)
  case 0
  then show ?case by simp
next
  case (Suc k)
  let ?n = "length (fn_order f)" and ?ch = "dom_children (idom_list f D)"
  have node: "node < ?n" using reachable_range [OF nonempty [OF ok] Suc.prems(1)] .
  note ch = dom_children_nth(1) [OF ok D node]
  have child: "\<exists>dp'. compute_depths k ?ch c (level f node + 1) dp = Some dp' \<and> length dp' = ?n \<and>
      (\<forall>x < ?n. dp' ! x = (if doms f c x then level f x else dp ! x))"
    if "c \<in> set (?ch ! node)" "length dp = ?n" for c dp
  proof -
    have c: "idom f node c" using that(1) ch by simp
    have "reach_from_entry f c" using idom_doms [OF c] dominates_reachable by metis
    moreover have "level f c = level f node + 1" using dom_level_immediate [OF c] .
    moreover have "?n - level f c < k"
      using Suc.prems(2) level_less [OF ok node] dom_level_immediate [OF c] by linarith
    ultimately show ?thesis using Suc.IH [of c dp] that(2) by simp
  qed
  have cover: "doms f node x \<longleftrightarrow> x = node \<or> (\<exists>c \<in> set (?ch ! node). doms f c x)" for x
  proof
    assume "doms f node x"
    then show "x = node \<or> (\<exists>c \<in> set (?ch ! node). doms f c x)"
      using dominated_by_child [of f node x] ch by blast
  next
    assume "x = node \<or> (\<exists>c \<in> set (?ch ! node). doms f c x)"
    then show "doms f node x"
    proof
      assume "x = node"
      then show ?thesis using Suc.prems(1) by (simp add: dominates_refl)
    next
      assume "\<exists>c \<in> set (?ch ! node). doms f c x"
      then show ?thesis using ch idom_doms dominates_trans by (metis mem_Collect_eq)
    qed
  qed
  from children_fold [of "?ch ! node" ?n "\<lambda>c. compute_depths k ?ch c (level f node + 1)" "doms f" "level f"
      "dp[node := level f node]"] child Suc.prems(3)
  obtain dp' where dp': "fold (\<lambda>c acc. Option.bind acc (compute_depths k ?ch c (level f node + 1))) (?ch ! node)
        (Some (dp[node := level f node])) = Some dp'" "length dp' = ?n"
    "\<forall>x < ?n. dp' ! x = (if \<exists>c \<in> set (?ch ! node). doms f c x then level f x else dp[node := level f node] ! x)"
    by auto
  have "dp' ! x = (if doms f node x then level f x else dp ! x)" if "x < ?n" for x
    using dp'(3) that cover [of x] Suc.prems(3) by (cases "x = node") auto
  then show ?case using dp'(1,2) by simp
qed

section \<open>Frontiers\<close>

lemma add_to_df_fold:
  assumes "distinct (map g ys)" and "set (map g ys) \<inter> set df = {}"
  shows "fold (\<lambda>y df. if P y then add_to_df (g y) df else df) ys df = df @ map g (filter P ys)"
  using assms
proof (induction ys arbitrary: df)
  case (Cons y ys)
  then show ?case using Cons.IH [of "if P y then df @ [g y] else df"] by (auto simp: add_to_df_def)
qed simp

lemma in_frontier_iff:
  assumes ok: "cfg_ok f" and D: "correct_doms f D" and x: "x < length (fn_order f)" and y: "y < length (fn_order f)"
  shows "in_frontier f (reachability f) D x y \<longleftrightarrow>
    (\<exists>p. flow_edge f p y \<and> doms f x p) \<and> \<not> strictly_dominates (flow_edge f) (entry_index f) x y"
proof -
  have p: "p \<in> set (pred_indices f y) \<longleftrightarrow> flow_edge f p y" for p
    using flow_edge_pred [OF ok _ y, of p] pred_index_range flow_edge_range by metis
  have "(\<exists>p \<in> set (pred_indices f y). D ! p ! x) \<longleftrightarrow> (\<exists>p. flow_edge f p y \<and> doms f x p)"
    using p correct_domsD [OF D _ x] flow_edge_range by blast
  moreover have "reach_from_entry f y" if "\<exists>p. flow_edge f p y \<and> doms f x p"
    using that dominates_reachable reachable_step by metis
  ultimately show ?thesis
    using correct_domsD [OF D y x] reachability_result(2) [OF nonempty [OF ok] y]
    by (auto simp: in_frontier_def list_ex_iff strictly_dominates_def)
qed

lemma frontier_eq:
  assumes ok: "cfg_ok f"
  shows "frontier f (reachability f) D x =
    (if reachability f ! x
     then map (\<lambda>y. fn_order f ! y) (filter (in_frontier f (reachability f) D x) [0..<length (fn_order f)])
     else [])"
proof -
  have "distinct (map ((!) (fn_order f)) [0..<length (fn_order f)])"
    using ok by (simp add: cfg_ok_def map_nth)
  then show ?thesis
    using add_to_df_fold [of "(!) (fn_order f)" "[0..<length (fn_order f)]" "[]"] by (simp add: frontier_def)
qed

lemma frontier_distinct: "cfg_ok f \<Longrightarrow> distinct (frontier f (reachability f) D x)"
  by (auto simp: frontier_eq cfg_ok_def distinct_map inj_on_def nth_eq_iff_index_eq)

section \<open>The result as a whole\<close>

definition dominance_of :: "ir_function \<Rightarrow> dom_info \<Rightarrow> bool" where
  "dominance_of f di \<longleftrightarrow>
     di_fn di = f \<and> di_blocks di = fn_order f \<and> di_root di = entry_index f \<and>
     length (di_nodes di) = length (fn_order f) \<and>
     (\<forall>i < length (fn_order f).
        dn_block (di_nodes di ! i) = fn_order f ! i \<and>
        (dn_reachable (di_nodes di ! i) \<longleftrightarrow> reach_from_entry f i) \<and>
        (\<forall>j < length (fn_order f). dn_dom_by (di_nodes di ! i) ! j \<longleftrightarrow> doms f j i) \<and>
        (\<forall>d. dn_idom (di_nodes di ! i) = Some d \<longleftrightarrow> idom f d i) \<and>
        set (dn_children (di_nodes di ! i)) = {c. idom f i c} \<and>
        dn_depth (di_nodes di ! i) = (if reach_from_entry f i then level f i else 0) \<and>
        distinct (dn_df (di_nodes di ! i)) \<and>
        (\<forall>b. b \<in> set (dn_df (di_nodes di ! i)) \<longleftrightarrow>
           (\<exists>y < length (fn_order f). b = fn_order f ! y \<and> (\<exists>p. flow_edge f p y \<and> doms f i p) \<and>
              \<not> strictly_dominates (flow_edge f) (entry_index f) i y)))"

lemma dominance_compute_result:
  assumes ok: "cfg_ok f"
  shows "\<exists>di. ir_dominance_compute f = Some (Some di) \<and> dominance_of f di"
proof -
  let ?n = "length (fn_order f)" and ?r = "reachability f"
  obtain D where fx: "dom_fixpoint f ?r = Some D" and D: "correct_doms f D"
    using dom_fixpoint_dominates [OF ok] by (auto simp: correct_doms_def)
  have e: "entry_index f < ?n" using entry_index_range [OF nonempty [OF ok]] .
  obtain dp where dp: "compute_depths (?n + 1) (dom_children (idom_list f D)) (entry_index f) 0 (replicate ?n 0) = Some dp"
    "\<forall>x < ?n. dp ! x = (if doms f (entry_index f) x then level f x else 0)"
    using compute_depths_result [OF ok D reachable_entry, of "?n + 1" "replicate ?n 0"] by auto
  define di where "di = dom_info_of f ?r D (idom_list f D) dp"
  have c: "ir_dominance_compute f = Some (Some di)"
    using nonempty [OF ok] fx dp(1) by (simp add: ir_dominance_compute_def Let_def di_def idom_list_def)
  have r: "?r ! i \<longleftrightarrow> reach_from_entry f i" if "i < ?n" for i
    using reachability_result(2) [OF nonempty [OF ok] that] .
  have el: "doms f (entry_index f) i \<longleftrightarrow> reach_from_entry f i" for i
    using dominates_entry dominates_reachable by metis
  have "dominance_of f di" unfolding dominance_of_def
  proof (intro conjI allI impI)
    fix i assume i: "i < ?n"
    have node: "di_nodes di ! i = \<lparr>dn_block = fn_order f ! i, dn_reachable = ?r ! i, dn_idom = idom_list f D ! i,
          dn_children = dom_children (idom_list f D) ! i, dn_depth = dp ! i, dn_dom_by = D ! i,
          dn_df = frontier f ?r D i\<rparr>"
      using i by (simp add: di_def dom_info_of_def)
    show "dn_block (di_nodes di ! i) = fn_order f ! i" by (simp add: node)
    show "dn_reachable (di_nodes di ! i) \<longleftrightarrow> reach_from_entry f i" using r [OF i] by (simp add: node)
    show "dn_dom_by (di_nodes di ! i) ! j \<longleftrightarrow> doms f j i" if "j < ?n" for j
      using correct_domsD [OF D i that] by (simp add: node)
    show "dn_idom (di_nodes di ! i) = Some d \<longleftrightarrow> idom f d i" for d
      using find_idom_iff [OF ok D i] i by (simp add: node idom_list_def)
    show "set (dn_children (di_nodes di ! i)) = {c. idom f i c}"
      using dom_children_nth(1) [OF ok D i] by (simp add: node)
    show "dn_depth (di_nodes di ! i) = (if reach_from_entry f i then level f i else 0)"
      using dp(2) i el by (simp add: node)
    show "distinct (dn_df (di_nodes di ! i))" using frontier_distinct [OF ok] by (simp add: node)
    fix b
    have fr: "b \<in> set (frontier f ?r D i) \<longleftrightarrow> reach_from_entry f i \<and>
        (\<exists>y < ?n. b = fn_order f ! y \<and> in_frontier f ?r D i y)"
      using r [OF i] by (auto simp: frontier_eq [OF ok])
    have ri: "reach_from_entry f i" if "doms f i p" for p using dominator_reachable [OF that] .
    show "b \<in> set (dn_df (di_nodes di ! i)) \<longleftrightarrow>
        (\<exists>y < ?n. b = fn_order f ! y \<and> (\<exists>p. flow_edge f p y \<and> doms f i p) \<and>
          \<not> strictly_dominates (flow_edge f) (entry_index f) i y)"
      using fr in_frontier_iff [OF ok D i] ri by (auto simp: node)
  qed (simp_all add: di_def dom_info_of_def)
  then show ?thesis using c by blast
qed

section \<open>Queries\<close>

lemma dominance_ofD:
  assumes "dominance_of f di" and "i < length (fn_order f)"
  shows "dn_block (di_nodes di ! i) = fn_order f ! i"
    "dn_reachable (di_nodes di ! i) \<longleftrightarrow> reach_from_entry f i"
    "j < length (fn_order f) \<Longrightarrow> dn_dom_by (di_nodes di ! i) ! j \<longleftrightarrow> doms f j i"
    "dn_idom (di_nodes di ! i) = Some d \<longleftrightarrow> idom f d i"
    "dn_depth (di_nodes di ! i) = (if reach_from_entry f i then level f i else 0)"
    "distinct (dn_df (di_nodes di ! i))"
    "b \<in> set (dn_df (di_nodes di ! i)) \<longleftrightarrow>
       (\<exists>y < length (fn_order f). b = fn_order f ! y \<and> (\<exists>p. flow_edge f p y \<and> doms f i p) \<and>
          \<not> strictly_dominates (flow_edge f) (entry_index f) i y)"
  using assms unfolding dominance_of_def by blast+

lemma dominance_of_fields:
  assumes "dominance_of f di"
  shows "di_fn di = f" "di_blocks di = fn_order f" "di_root di = entry_index f"
    "length (di_nodes di) = length (fn_order f)"
  using assms unfolding dominance_of_def by blast+

lemma dominance_of_computed:
  assumes "cfg_ok f" and "ir_dominance_compute f = Some (Some di)"
  shows "dominance_of f di"
  using dominance_compute_result [OF assms(1)] assms(2) by auto

lemma ir_dominates_iff:
  assumes ok: "cfg_ok f" and di: "dominance_of f di"
    and i: "i < length (fn_order f)" and j: "j < length (fn_order f)"
  shows "ir_dominates di (fn_order f ! i) (fn_order f ! j) \<longleftrightarrow> i = j \<or> doms f i j"
proof -
  have d: "distinct (fn_order f)" using ok by (simp add: cfg_ok_def)
  have "fn_order f ! i = fn_order f ! j \<longleftrightarrow> i = j" using d i j by (simp add: nth_eq_iff_index_eq)
  then show ?thesis
    using dominance_of_fields [OF di] dominance_ofD(2,3) [OF di j] i j d
      dominates_reachable [of "flow_edge f" "entry_index f" i j]
    by (auto simp: ir_dominates_def)
qed

lemma ir_strictly_dominates_iff:
  assumes ok: "cfg_ok f" and di: "dominance_of f di"
    and i: "i < length (fn_order f)" and j: "j < length (fn_order f)"
  shows "ir_strictly_dominates di (fn_order f ! i) (fn_order f ! j) \<longleftrightarrow>
    strictly_dominates (flow_edge f) (entry_index f) i j"
proof -
  have "fn_order f ! i = fn_order f ! j \<longleftrightarrow> i = j"
    using ok i j by (simp add: nth_eq_iff_index_eq cfg_ok_def)
  then show ?thesis
    using ir_dominates_iff [OF assms] by (auto simp: ir_strictly_dominates_def strictly_dominates_def)
qed

section \<open>The checker accepts\<close>

lemma idom_walk_root:
  assumes ok: "cfg_ok f" and di: "dominance_of f di"
    and "reach_from_entry f c" and "steps + level f c \<le> length (fn_order f)"
  shows "idom_walk di (Some c) steps = Inr (Some (entry_index f))"
  using assms(3,4)
proof (induction "level f c" arbitrary: c steps)
  case 0
  have "c = entry_index f"
  proof (rule ccontr)
    assume "c \<noteq> entry_index f"
    then obtain d where "idom f d c" using 0(2) immediate_dominator_exists by metis
    then show False using dom_level_immediate 0(1) by (metis Suc_eq_plus1 nat.simps(3))
  qed
  then show ?case using dominance_of_fields [OF di] by (simp add: idom_walk.simps)
next
  case (Suc k)
  have c: "c < length (fn_order f)" using reachable_range [OF nonempty [OF ok] Suc.prems(1)] .
  have ne: "c \<noteq> entry_index f" using Suc.hyps(2) dom_level_entry [of "flow_edge f" "entry_index f"] by fastforce
  then obtain d where d: "idom f d c" using Suc.prems(1) immediate_dominator_exists by metis
  have l: "level f c = level f d + 1" using dom_level_immediate [OF d] .
  have rd: "reach_from_entry f d" using idom_doms [OF d] dominator_reachable by metis
  have "idom_walk di (Some d) (steps + 1) = Inr (Some (entry_index f))"
    using Suc.hyps(1) [of d "steps + 1"] Suc.hyps(2) Suc.prems(2) l rd by simp
  then show ?case
    using ne l Suc.prems(2) dominance_of_fields [OF di] dominance_ofD(4) [OF di c, of d] d
    by (simp add: idom_walk.simps [of di "Some c"])
qed

lemma verify_node_ok:
  assumes ok: "cfg_ok f" and di: "dominance_of f di" and i: "i < length (fn_order f)"
  shows "verify_node di i = None"
proof (cases "reach_from_entry f i \<and> i \<noteq> entry_index f")
  case False
  then show ?thesis
    using dominance_ofD(2) [OF di i] dominance_of_fields [OF di] by (auto simp: verify_node_def Let_def)
next
  case True
  then obtain d where d: "idom f d i" using immediate_dominator_exists by metis
  have dn: "d < length (fn_order f)" using idom_doms [OF d] doms_range [OF ok] by blast
  have "dn_idom (di_nodes di ! i) = Some d" using dominance_ofD(4) [OF di i] d by simp
  moreover have "ir_strictly_dominates di (dn_block (di_nodes di ! d)) (dn_block (di_nodes di ! i))"
    using ir_strictly_dominates_iff [OF ok di dn i] d dominance_ofD(1) [OF di] dn i
    by (simp add: immediate_dominator_def)
  moreover have "idom_walk di (Some i) 0 = Inr (Some (entry_index f))"
    using idom_walk_root [OF ok di, of i 0] True level_less [OF ok i] by simp
  ultimately show ?thesis
    using dominance_of_fields [OF di] by (simp add: verify_node_def Let_def)
qed

lemma verify_df_ok:
  assumes ok: "cfg_ok f" and di: "dominance_of f di" and x: "x < length (fn_order f)"
  shows "verify_df di x = None"
proof -
  have d: "distinct (fn_order f)" using ok by (simp add: cfg_ok_def)
  have "verify_df_entry di x b = None" if b: "b \<in> set (dn_df (di_nodes di ! x))" for b
  proof -
    obtain y p where y: "y < length (fn_order f)" "b = fn_order f ! y" "flow_edge f p y" "doms f x p"
      "\<not> strictly_dominates (flow_edge f) (entry_index f) x y"
      using b dominance_ofD(7) [OF di x] by blast
    have p: "p < length (fn_order f)" using flow_edge_range [OF y(3)] by simp
    have "p \<in> set (pred_indices f y)" using flow_edge_pred [OF ok p y(1)] y(3) by simp
    then have "fn_order f ! p \<in> set (preds f b)"
      using d y(2) by (simp add: pred_indices_def set_map_filter_index)
    moreover have "ir_dominates di (fn_order f ! x) (fn_order f ! p)"
      using ir_dominates_iff [OF ok di x p] y(4) by simp
    ultimately have "list_ex (ir_dominates di (fn_order f ! x)) (preds f b)"
      by (auto simp: list_ex_iff)
    moreover have "\<not> ir_strictly_dominates di (fn_order f ! x) b"
      using ir_strictly_dominates_iff [OF ok di x y(1)] y(2,5) by simp
    moreover have "get_block_index (di_blocks di) b = Some y"
      using dominance_of_fields [OF di] d y(1,2) by simp
    ultimately show ?thesis
      using dominance_of_fields [OF di] dominance_ofD(1) [OF di x] by (simp add: verify_df_entry_def Let_def)
  qed
  then show ?thesis by (simp add: verify_df_def first_error_None)
qed

lemma dominance_verify_ok:
  assumes ok: "cfg_ok f" and di: "dominance_of f di"
  shows "ir_dominance_verify (Some di) = None"
proof -
  have e: "entry_index f < length (fn_order f)" using entry_index_range [OF nonempty [OF ok]] .
  have "\<not> idom f d (entry_index f)" for d
    using dominator_of_entry [of "flow_edge f" "entry_index f" d]
    by (auto simp: immediate_dominator_def strictly_dominates_def)
  then have "dn_idom (di_nodes di ! entry_index f) = None"
    using dominance_ofD(4) [OF di e] by (metis not_Some_eq)
  moreover have "first_error (verify_node di) [0..<length (fn_order f)] = None"
    "first_error (verify_df di) [0..<length (fn_order f)] = None"
    using verify_node_ok [OF ok di] verify_df_ok [OF ok di] by (simp_all add: first_error_None)
  ultimately show ?thesis using dominance_of_fields [OF di] by (simp add: ir_dominance_verify_def)
qed

section \<open>Properties\<close>

definition dom_sample :: ir_function where
  "dom_sample = ir_recompute_cfg two_blocks"

lemma dom_sample_order: "fn_order dom_sample = [0, 1]"
proof -
  have "same_but_edges two_blocks dom_sample"
    unfolding dom_sample_def using recompute_cfg_spec [of two_blocks] by (simp add: two_blocks_def)
  then show ?thesis by (simp add: same_but_edges_def two_blocks_def)
qed

lemma dom_sample_ok: "cfg_ok dom_sample"
  unfolding dom_sample_def by (rule recompute_cfg_ok) (simp_all add: two_blocks_def)

text \<open>C11. On every function that the IR verifier accepts, once its edges are recomputed, the
  dominance analysis ends, and its own checker accepts the result.\<close>

theorem dominance_returns_and_verifies:
  assumes "ir_verify_function m f = None"
    and "distinct (fn_order f)" and "set (fn_order f) \<subseteq> {..<length (fn_heap f)}"
  shows "\<exists>di. ir_dominance_compute (ir_recompute_cfg f) = Some (Some di) \<and>
    ir_dominance_verify (Some di) = None"
proof -
  have "fn_order f \<noteq> []" "fn_entry f = Some (hd (fn_order f))"
    using assms(1) by (simp_all add: verify_function_None well_formed_function_def)
  then have "cfg_ok (ir_recompute_cfg f)" using assms(2,3) by (intro recompute_cfg_ok) auto
  then show ?thesis using dominance_compute_result dominance_verify_ok by blast
qed

theorem dominance_returns_and_verifies_witness:
  "\<exists>di. ir_dominance_compute (ir_recompute_cfg verified_sample) = Some (Some di) \<and>
    ir_dominance_verify (Some di) = None"
  by (rule dominance_returns_and_verifies [OF verified_sample_ok]) (simp_all add: verified_sample_eval)

text \<open>C4. \<open>ir_dominates\<close> tells whether every path from the entry to a block passes through the
  other; only of a block that no path reaches does it say that the block dominates itself.\<close>

theorem dominates_means_on_every_path:
  assumes "cfg_ok f" and "ir_dominance_compute f = Some (Some di)"
    and "i < length (fn_order f)" and "j < length (fn_order f)"
  shows "ir_dominates di (fn_order f ! i) (fn_order f ! j) \<longleftrightarrow>
    i = j \<or> dominates (flow_edge f) (entry_index f) i j"
  using ir_dominates_iff [OF assms(1) dominance_of_computed [OF assms(1,2)] assms(3,4)] .

theorem dominates_means_on_every_path_witness:
  "\<exists>di. ir_dominance_compute dom_sample = Some (Some di) \<and>
    (ir_dominates di (fn_order dom_sample ! 0) (fn_order dom_sample ! 1) \<longleftrightarrow>
      (0::nat) = 1 \<or> dominates (flow_edge dom_sample) (entry_index dom_sample) 0 1)"
proof -
  obtain di where di: "ir_dominance_compute dom_sample = Some (Some di)"
    using dominance_compute_result [OF dom_sample_ok] by blast
  show ?thesis
    using dominates_means_on_every_path [OF dom_sample_ok di, of 0 1] di by (auto simp: dom_sample_order)
qed

text \<open>What \<open>ir_get_idom\<close> returns, a block for a block.\<close>

lemma ir_get_idom_iff:
  assumes "cfg_ok f" and "dominance_of f di" and "i < length (fn_order f)"
  shows "ir_get_idom di (fn_order f ! i) = Some b \<longleftrightarrow> (\<exists>d < length (fn_order f). b = fn_order f ! d \<and> idom f d i)"
proof -
  note at = dominance_ofD [OF assms(2,3)] and fields = dominance_of_fields [OF assms(2)]
  have d: "d < length (fn_order f) \<and> reach_from_entry f i \<and> dn_block (di_nodes di ! d) = fn_order f ! d" if "idom f d i" for d
  proof -
    have dd: "doms f d i" using idom_doms [OF that] by simp
    have "d < length (fn_order f)" using doms_range(1) [OF assms(1) dd] .
    then show ?thesis using dominance_ofD(1) [OF assms(2)] dominates_reachable [OF dd] by simp
  qed
  have "ir_get_idom di (fn_order f ! i) = Some b \<longleftrightarrow>
      reach_from_entry f i \<and> (\<exists>d. idom f d i \<and> b = dn_block (di_nodes di ! d))"
    using assms(1,3) fields at(2) at(4) by (auto simp: ir_get_idom_def cfg_ok_def)
  also have "\<dots> \<longleftrightarrow> (\<exists>d < length (fn_order f). b = fn_order f ! d \<and> idom f d i)"
  proof
    assume "reach_from_entry f i \<and> (\<exists>d. idom f d i \<and> b = dn_block (di_nodes di ! d))"
    then obtain e where "idom f e i" "b = dn_block (di_nodes di ! e)" by blast
    then show "\<exists>d < length (fn_order f). b = fn_order f ! d \<and> idom f d i" using d [of e] by (intro exI [of _ e]) simp
  next
    assume "\<exists>d < length (fn_order f). b = fn_order f ! d \<and> idom f d i"
    then obtain e where "idom f e i" "b = fn_order f ! e" by blast
    then show "reach_from_entry f i \<and> (\<exists>d. idom f d i \<and> b = dn_block (di_nodes di ! d))" using d [of e] by auto
  qed
  finally show ?thesis .
qed

text \<open>C10. Reachability, immediate dominators and depths: a block is marked reachable when edges
  lead to it from the entry; for every reachable block but the entry, \<open>ir_get_idom\<close> returns the one
  block that strictly dominates it and that all its strict dominators dominate, and for every other block,
  as for one that is not of the function, nothing; the depth is the number of strict dominators.\<close>

theorem dominator_tree:
  assumes "cfg_ok f" and "ir_dominance_compute f = Some (Some di)" and "i < length (fn_order f)"
  shows "(dn_reachable (di_nodes di ! i) \<longleftrightarrow> (flow_edge f)\<^sup>*\<^sup>* (entry_index f) i) \<and>
    (dn_idom (di_nodes di ! i) = None \<longleftrightarrow> i = entry_index f \<or> \<not> dn_reachable (di_nodes di ! i)) \<and>
    (dn_idom (di_nodes di ! i) = Some d \<longleftrightarrow> immediate_dominator (flow_edge f) (entry_index f) d i) \<and>
    (ir_get_idom di (fn_order f ! i) = None \<longleftrightarrow> i = entry_index f \<or> \<not> dn_reachable (di_nodes di ! i)) \<and>
    (ir_get_idom di (fn_order f ! i) = Some b \<longleftrightarrow>
      (\<exists>d < length (fn_order f). b = fn_order f ! d \<and> immediate_dominator (flow_edge f) (entry_index f) d i)) \<and>
    (b \<notin> set (fn_order f) \<longrightarrow> ir_get_idom di b = None) \<and>
    dn_depth (di_nodes di ! i) = card {a. strictly_dominates (flow_edge f) (entry_index f) a i}"
proof -
  note di = dominance_of_computed [OF assms(1,2)]
  note at = dominance_ofD [OF di assms(3)] and fields = dominance_of_fields [OF di]
  have none: "dn_idom (di_nodes di ! i) = None \<longleftrightarrow> i = entry_index f \<or> \<not> reach_from_entry f i"
  proof
    assume "dn_idom (di_nodes di ! i) = None"
    then show "i = entry_index f \<or> \<not> reach_from_entry f i"
      using at(4) immediate_dominator_exists by (metis option.distinct(1))
  next
    assume "i = entry_index f \<or> \<not> reach_from_entry f i"
    then have "\<not> idom f d i" for d
      using idom_doms [of f d i] dominates_reachable [of "flow_edge f" "entry_index f" d i]
        dominator_of_entry [of "flow_edge f" "entry_index f" d] by blast
    then show "dn_idom (di_nodes di ! i) = None" using at(4) by (metis not_Some_eq)
  qed
  moreover have "ir_get_idom di (fn_order f ! i) = None \<longleftrightarrow> dn_idom (di_nodes di ! i) = None"
    using assms(1,3) fields at(2) none by (auto simp: ir_get_idom_def cfg_ok_def)
  moreover have "b \<notin> set (fn_order f) \<longrightarrow> ir_get_idom di b = None"
    using fields by (simp add: ir_get_idom_def get_block_index_None [THEN iffD2])
  moreover have "dn_depth (di_nodes di ! i) = level f i"
    using at(5) by (auto simp: dom_level_def strictly_dominates_def dominates_def)
  ultimately show ?thesis using at(2,4) ir_get_idom_iff [OF assms(1) di assms(3)]
    by (simp add: reachable_rtranclp dom_level_def)
qed

theorem dominator_tree_witness:
  "\<exists>di. ir_dominance_compute dom_sample = Some (Some di) \<and>
    (dn_reachable (di_nodes di ! 1) \<longleftrightarrow> (flow_edge dom_sample)\<^sup>*\<^sup>* (entry_index dom_sample) 1) \<and>
    (ir_get_idom di (fn_order dom_sample ! 1) = None \<longleftrightarrow> 1 = entry_index dom_sample \<or> \<not> dn_reachable (di_nodes di ! 1)) \<and>
    dn_depth (di_nodes di ! 1) =
      card {a. strictly_dominates (flow_edge dom_sample) (entry_index dom_sample) a 1}"
proof -
  obtain di where di: "ir_dominance_compute dom_sample = Some (Some di)"
    using dominance_compute_result [OF dom_sample_ok] by blast
  show ?thesis
    using dominator_tree [OF dom_sample_ok di, of 1] di by (auto simp: dom_sample_order)
qed

text \<open>C34. The dominance frontier of a block is a list without duplicates of the blocks with a predecessor that
  it dominates and that it does not strictly dominate.\<close>

theorem dominance_frontier:
  assumes "cfg_ok f" and "ir_dominance_compute f = Some (Some di)" and "i < length (fn_order f)"
  shows "distinct (ir_get_dominance_frontier di (fn_order f ! i)) \<and>
    (b \<in> set (ir_get_dominance_frontier di (fn_order f ! i)) \<longleftrightarrow>
      (\<exists>j < length (fn_order f). b = fn_order f ! j \<and>
        (\<exists>p. flow_edge f p j \<and> dominates (flow_edge f) (entry_index f) i p) \<and>
        \<not> strictly_dominates (flow_edge f) (entry_index f) i j))"
proof -
  note di = dominance_of_computed [OF assms(1,2)]
  note at = dominance_ofD [OF di assms(3)]
  have df: "ir_get_dominance_frontier di (fn_order f ! i) = (if reach_from_entry f i then dn_df (di_nodes di ! i) else [])"
    using dominance_of_fields [OF di] assms(1,3) at(2) by (simp add: ir_get_dominance_frontier_def cfg_ok_def)
  moreover have "reach_from_entry f i" if "doms f i p" for p using dominator_reachable [OF that] .
  ultimately show ?thesis using at(6) at(7) [of b] by auto
qed

theorem dominance_frontier_witness:
  "\<exists>di. ir_dominance_compute dom_sample = Some (Some di) \<and>
    distinct (ir_get_dominance_frontier di (fn_order dom_sample ! 1)) \<and>
    (0 \<in> set (ir_get_dominance_frontier di (fn_order dom_sample ! 1)) \<longleftrightarrow>
      (\<exists>j < length (fn_order dom_sample). 0 = fn_order dom_sample ! j \<and>
        (\<exists>p. flow_edge dom_sample p j \<and> dominates (flow_edge dom_sample) (entry_index dom_sample) 1 p) \<and>
        \<not> strictly_dominates (flow_edge dom_sample) (entry_index dom_sample) 1 j))"
proof -
  obtain di where di: "ir_dominance_compute dom_sample = Some (Some di)"
    using dominance_compute_result [OF dom_sample_ok] by blast
  show ?thesis
    using dominance_frontier [OF dom_sample_ok di, of 1 0] di by (simp add: dom_sample_order)
qed

end
