(* ===== verification/Ir_Ssa_Defects.thy ===== *)
theory Ir_Ssa_Defects
  imports Ir_Ssa_Dce Ir_Dominance_Tree
begin

text \<open>
  Where the optimiser of SSA form changes what a function does: value numbering takes comparisons
  with different characters for the same, and code motion moves calls and breaks the order of what
  it moves.
\<close>

section \<open>Comparisons with characters\<close>

text \<open>The result of a function of one parameter that compares it with two characters is the second comparison.\<close>

definition char_test :: "nat \<Rightarrow> char \<Rightarrow> ir_inst" where
  "char_test r c = (create_instruction IR_OP_EQ Ty_Bool)
     \<lparr>i_result := Some (ir_val_reg Ty_Bool r), i_lhs := Some (ir_val_param Ty_Char 0 None), i_rhs := Some (ir_val_const_char c)\<rparr>"

definition char_tests :: "char \<Rightarrow> char \<Rightarrow> ir_function" where
  "char_tests c d = (ir_new_function ''f'' (Some Ty_Bool))\<lparr>
     fn_heap := [\<lparr>bb_name = ''entry'', bb_id = 0, bb_insts = [char_test 0 c, char_test 1 d, demo_return (ir_val_reg Ty_Bool 1)],
        bb_preds = [], bb_succs = []\<rparr>],
     fn_order := [0], fn_entry := Some 0, fn_next_block := 1, fn_block_count := 1, fn_next_reg := 2\<rparr>"

definition char_world :: "char \<Rightarrow> unit world" where
  "char_world x = null_world\<lparr>w_param := \<lambda>_. Some (VChar x), w_compare := \<lambda>_ a b. Some (a = b)\<rparr>"

lemma no_children:
  assumes "dominance_of f di" and "length (fn_order f) = 1"
  shows "dn_children (di_nodes di ! 0) = []"
proof -
  have "\<not> idom f 0 c" for c
  proof
    assume "idom f 0 c"
    then have s: "strictly_dominates (flow_edge f) (entry_index f) 0 c" by (simp add: immediate_dominator_def)
    then have "reach_from_entry f c" by (simp add: strictly_dominates_def dominates_def)
    then have "c < 1" using reachable_range [of f] assms(2) by (metis length_0_conv zero_neq_one)
    then show False using s by (simp add: strictly_dominates_def)
  qed
  then show ?thesis using assms by (simp add: dominance_of_def)
qed

lemmas char_tests_defs = char_tests_def char_test_def demo_insts ir_val_param_def ir_val_const_char_def ir_new_function_def

lemma char_tests_cfg: "ir_recompute_cfg (char_tests c d) = char_tests c d"
  by (simp add: ir_recompute_cfg_def add_block_edges_def char_tests_defs block_at_def update_block_def clear_edges_def last_inst_def)

lemma char_tests_ok: "cfg_ok (char_tests c d)"
  by (simp add: cfg_ok_def char_tests_def block_at_def)

definition merged_tests :: "char \<Rightarrow> char \<Rightarrow> ir_function" where
  "merged_tests c d = (char_tests c d)\<lparr>fn_heap := [\<lparr>bb_name = ''entry'', bb_id = 0,
     bb_insts = [char_test 0 c, demo_return (ir_val_reg Ty_Bool 0)], bb_preds = [], bb_succs = []\<rparr>]\<rparr>"

lemma char_tests_at:
  "inst_at (char_tests c d) 0 0 = char_test 0 c" "inst_at (char_tests c d) 0 (Suc 0) = char_test 1 d"
  "inst_at (merged_tests c d) 0 (Suc 0) = demo_return (ir_val_reg Ty_Bool 0)"
  by (simp_all add: inst_at_def char_tests_def merged_tests_def block_at_def)

lemma char_test_fields:
  "i_result (char_test r c) = Some (ir_val_reg Ty_Bool r)" "i_op (char_test r c) = IR_OP_EQ"
  "i_result (demo_return v) = None" "v_kind (ir_val_reg ty r) = IR_VAL_REG"
  by (simp_all add: char_test_def demo_return_def create_instruction_def ir_val_reg_def)

lemma char_test_key: "same_key (gvn_key (char_test r c) u) (gvn_key (char_test q d) v)"
  by (simp add: same_key_def gvn_key_def note_literal_def char_test_def create_instruction_def ir_val_param_def
      ir_val_const_char_def operand_number_def f64_eq_def f64_isnan_def f64_magnitude_def)

lemma replace_in_tests:
  "opt_replace_in_inst (ir_val_reg Ty_Bool 1) (ir_val_reg Ty_Bool 0) (char_test r c) = char_test r c"
  "opt_replace_in_inst (ir_val_reg Ty_Bool 1) (ir_val_reg Ty_Bool 0) (demo_return (ir_val_reg Ty_Bool 1)) = demo_return (ir_val_reg Ty_Bool 0)"
  by (simp_all add: opt_replace_in_inst_def opt_replace_def opt_same_val_def char_test_def demo_return_def create_instruction_def
      ir_val_param_def ir_val_const_char_def ir_val_reg_def)

lemma replaced_tests:
  "remove_at 0 (Suc 0) (opt_replace_uses (Some (ir_val_reg Ty_Bool 1)) (Some (ir_val_reg Ty_Bool 0)) (char_tests c d)) = merged_tests c d"
proof -
  have "\<not> opt_same_val (Some (ir_val_reg Ty_Bool 1)) (Some (ir_val_reg Ty_Bool 0))" by (simp add: opt_same_val_def ir_val_reg_def)
  then show ?thesis
    by (simp add: opt_replace_uses_def map_insts_def char_tests_def merged_tests_def remove_at_def update_block_def replace_in_tests [simplified])
qed

lemma merge_char_tests:
  "gvn_insts 3 0 0 \<lparr>gs_fn = char_tests c d, gs_entries = [], gs_changed = False\<rparr> =
     \<lparr>gs_fn = merged_tests c d, gs_entries = [gvn_key (char_test 0 c) (ir_val_reg Ty_Bool 0)], gs_changed = True\<rparr>"
proof -
  let ?e = "gvn_key (char_test 0 c) (ir_val_reg Ty_Bool 0)"
  have l: "gv_leader ?e = ir_val_reg Ty_Bool 0" by (simp add: gvn_key_def note_literal_def char_test_def create_instruction_def ir_val_param_def ir_val_const_char_def Let_def)
  have pure: "is_pure_operation IR_OP_EQ" by (simp add: is_pure_operation_def)
  have "gvn_inst 0 0 \<lparr>gs_fn = char_tests c d, gs_entries = [], gs_changed = False\<rparr> =
      (\<lparr>gs_fn = char_tests c d, gs_entries = [?e], gs_changed = False\<rparr>, False)"
    by (simp add: gvn_inst_def char_tests_at char_test_fields pure lookup_gvn_def)
  moreover have "gvn_inst 0 (Suc 0) \<lparr>gs_fn = char_tests c d, gs_entries = [?e], gs_changed = False\<rparr> =
      (\<lparr>gs_fn = merged_tests c d, gs_entries = [?e], gs_changed = True\<rparr>, True)"
    using replaced_tests [of c d] by (simp add: gvn_inst_def char_tests_at char_test_fields pure lookup_gvn_def char_test_key l)
  moreover have "gvn_inst 0 (Suc 0) \<lparr>gs_fn = merged_tests c d, gs_entries = [?e], gs_changed = True\<rparr> =
      (\<lparr>gs_fn = merged_tests c d, gs_entries = [?e], gs_changed = True\<rparr>, False)"
    by (simp add: gvn_inst_def char_tests_at char_test_fields)
  ultimately show ?thesis by (simp add: eval_nat_numeral)
qed

lemma gvn_char_tests: "ir_ssa_gvn_cse (char_tests c d) = Some (Some (merged_tests c d, True))"
proof -
  obtain di where di: "ir_dominance_compute (char_tests c d) = Some (Some di)" "dominance_of (char_tests c d) di"
    using dominance_compute_result [OF char_tests_ok] by blast
  have one: "length (fn_order (char_tests c d)) = 1" by (simp add: char_tests_def)
  have node: "di_root di = 0" "length (di_nodes di) = 1" "dn_block (di_nodes di ! 0) = 0"
    using di(2) entry_index_range [of "char_tests c d"] by (simp_all add: dominance_of_def char_tests_def)
  have len: "length (bb_insts (block_at (char_tests c d) 0)) = 3" by (simp add: char_tests_def block_at_def)
  show ?thesis
    using di(1) node no_children [OF di(2) one] merge_char_tests [of c d] len
    by (simp add: ir_ssa_gvn_cse_def Let_def char_tests_cfg)
qed

text \<open>C23. Value numbering ignores characters and strings in its keys: for any two different characters, a
  function that returns whether its parameter is the second one returns, after the pass, whether it
  is the first.\<close>

theorem gvn_merges_char_tests:
  assumes "c \<noteq> d"
  shows "call_result (char_world d) (char_tests c d) 1 () = Some (Some (VBool True), ()) \<and>
    (\<exists>g. ir_ssa_gvn_cse (char_tests c d) = Some (Some (g, True)) \<and>
      call_result (char_world d) g 1 () = Some (Some (VBool False), ()))"
proof -
  have "call_result (char_world d) (char_tests c d) 1 () = Some (Some (VBool True), ())"
    by (simp add: call_result_def char_tests_defs block_at_def demo_step eval_compare_def char_world_def)
  moreover have "call_result (char_world d) (merged_tests c d) 1 () = Some (Some (VBool False), ())"
    using assms by (simp add: call_result_def merged_tests_def char_tests_defs block_at_def demo_step eval_compare_def char_world_def)
  ultimately show ?thesis using gvn_char_tests by blast
qed

theorem gvn_merges_char_tests_witness:
  "call_result (char_world CHR ''b'') (char_tests CHR ''a'' CHR ''b'') 1 () = Some (Some (VBool True), ()) \<and>
    (\<exists>g. ir_ssa_gvn_cse (char_tests CHR ''a'' CHR ''b'') = Some (Some (g, True)) \<and>
      call_result (char_world CHR ''b'') g 1 () = Some (Some (VBool False), ()))"
  by (rule gvn_merges_char_tests) simp

end
