(* ===== verification/Ir_Ssa_Verify.thy ===== *)
theory Ir_Ssa_Verify
  imports Ir_Ssa_Copies Ir_Dominance_Tree
begin

text \<open>
  What the verifier of SSA form checks, in terms of paths of the flow graph instead of its tables.
\<close>

section \<open>SSA form\<close>

text \<open>The registers that a list of instructions defines, in order, and those that an instruction reads, with
  no regard to how the verifier collects them.\<close>

definition defined_regs :: "ir_inst list \<Rightarrow> nat list" where
  "defined_regs is = List.map_filter (\<lambda>i. reg_src (i_result i)) is"

definition read_regs :: "ir_inst \<Rightarrow> nat list" where
  "read_regs i = List.map_filter reg_src (i_lhs i # i_rhs i # map Some (i_args i))"

definition defined_in :: "ir_function \<Rightarrow> nat \<Rightarrow> nat \<Rightarrow> bool" where
  "defined_in f n b \<longleftrightarrow> n \<in> set (defined_regs (bb_insts (block_at f b)))"

definition phis_well_placed :: "ir_function \<Rightarrow> nat \<Rightarrow> bool" where
  "phis_well_placed f b \<longleftrightarrow>
     list_all (\<lambda>i. \<not> is_phi i) (dropWhile is_phi (bb_insts (block_at f b))) \<and>
     list_all (\<lambda>i. list_all (\<lambda>e. \<exists>q. fst e = Some q \<and> q \<in> set (bb_preds (block_at f b))) (i_phis i))
       (takeWhile is_phi (bb_insts (block_at f b)))"

text \<open>
  A register has one definition; each register that an instruction other than a phi reads is defined in the
  same block, before or after the use, or in one that lies on every path to it. What phis read is
  left free: the verifier does not look at it.
\<close>

definition ssa_form :: "ir_function \<Rightarrow> bool" where
  "ssa_form f \<longleftrightarrow> distinct (defined_regs (fn_insts f)) \<and>
     (\<forall>j < length (fn_order f). \<forall>i \<in> set (bb_insts (block_at f (fn_order f ! j))). \<not> is_phi i \<longrightarrow>
        (\<forall>k \<in> set (read_regs i). \<exists>d < length (fn_order f). defined_in f k (fn_order f ! d) \<and>
           (d = j \<or> dominates (flow_edge f) (entry_index f) d j))) \<and>
     (\<forall>b \<in> set (fn_order f). phis_well_placed f b)"

text \<open>The ids that the counter has given out, and instructions whose register operands fit the verifier's array.\<close>

definition regs_numbered :: "ir_function \<Rightarrow> bool" where
  "regs_numbered f \<longleftrightarrow> list_all (\<lambda>k. k < fn_next_reg f + 32) (defined_regs (fn_insts f))"

definition few_operands :: "ir_function \<Rightarrow> bool" where
  "few_operands f \<longleftrightarrow> list_all (\<lambda>i. length (read_regs i) \<le> 32) (fn_insts f)"

section \<open>The checks\<close>

text \<open>The form in the terms of the verifier: the definitions it counts and the operands its array holds.\<close>

definition counted_regs :: "ir_function \<Rightarrow> ir_inst list \<Rightarrow> nat list" where
  "counted_regs f is = map (\<lambda>i. v_id (the (i_result i))) (filter (\<lambda>i. is_reg (max_regs f) (i_result i)) is)"

definition counted_in :: "ir_function \<Rightarrow> nat \<Rightarrow> nat \<Rightarrow> bool" where
  "counted_in f n b \<longleftrightarrow> n \<in> set (counted_regs f (bb_insts (block_at f b)))"

definition checked_form :: "ir_function \<Rightarrow> bool" where
  "checked_form f \<longleftrightarrow> distinct (counted_regs f (fn_insts f)) \<and>
     (\<forall>j < length (fn_order f). \<forall>i \<in> set (bb_insts (block_at f (fn_order f ! j))). \<not> is_phi i \<longrightarrow>
        (\<forall>v \<in> set (register_operands i). \<exists>d < length (fn_order f).
           counted_in f (v_id v) (fn_order f ! d) \<and> (d = j \<or> doms f d j))) \<and>
     (\<forall>b \<in> set (fn_order f). phis_well_placed f b)"

lemma check_single_defs_None:
  "check_single_defs f seen is = None \<longleftrightarrow> distinct (counted_regs f is) \<and> set (counted_regs f is) \<inter> set seen = {}"
  by (induction "is" arbitrary: seen) (auto simp: counted_regs_def Let_def)

lemma check_phis_seen: "check_phis f b True is = None \<longleftrightarrow> list_all (\<lambda>i. \<not> is_phi i) is"
  by (induction "is") auto

lemma check_incoming_None: "check_incoming f b p = None \<longleftrightarrow> (\<exists>q. p = Some q \<and> q \<in> set (bb_preds (block_at f b)))"
  by (auto simp: check_incoming_def split: option.splits)

lemma check_phis_None:
  "check_phis f b False is = None \<longleftrightarrow>
     list_all (\<lambda>i. \<not> is_phi i) (dropWhile is_phi is) \<and>
     list_all (\<lambda>i. list_all (\<lambda>e. \<exists>q. fst e = Some q \<and> q \<in> set (bb_preds (block_at f b))) (i_phis i)) (takeWhile is_phi is)"
proof (induction "is")
  case (Cons i "is")
  show ?case
  proof (cases "is_phi i")
    case True
    have "first_error (\<lambda>e. check_incoming f b (fst e)) (i_phis i) = None \<longleftrightarrow>
        list_all (\<lambda>e. \<exists>q. fst e = Some q \<and> q \<in> set (bb_preds (block_at f b))) (i_phis i)"
      by (simp add: first_error_None check_incoming_None list_all_iff)
    then show ?thesis using Cons True
      by (cases "first_error (\<lambda>e. check_incoming f b (fst e)) (i_phis i)") simp_all
  next
    case False
    then show ?thesis by (simp add: check_phis_seen)
  qed
qed simp

lemma counted_in_iff: "counted_in f n b \<longleftrightarrow> list_ex (defines_reg f n) (bb_insts (block_at f b))"
  by (auto simp: counted_in_def counted_regs_def defines_reg_def list_ex_iff)

lemma distinct_concat_unique:
  assumes "distinct (concat (map g bs))" and "x \<in> set (g a)" and "x \<in> set (g b)" and "a \<in> set bs" and "b \<in> set bs"
  shows "a = b"
  using assms
proof (induction bs)
  case (Cons c bs)
  have d: "set (g c) \<inter> (\<Union>y \<in> set bs. set (g y)) = {}" using Cons.prems(1) by simp
  show ?case
  proof (cases "a = c \<or> b = c")
    case True
    then show ?thesis using d Cons.prems(2-5) by auto
  next
    case False
    then show ?thesis using Cons by simp
  qed
qed simp

lemma one_def_block:
  assumes "distinct (counted_regs f (fn_insts f))" and "counted_in f n a" and "counted_in f n b"
    and "a \<in> set (fn_order f)" and "b \<in> set (fn_order f)"
  shows "a = b"
proof -
  have "counted_regs f (fn_insts f) = concat (map (\<lambda>b. counted_regs f (bb_insts (block_at f b))) (fn_order f))"
    by (simp add: counted_regs_def fn_insts_def filter_concat map_concat comp_def)
  then show ?thesis using distinct_concat_unique assms unfolding counted_in_def by metis
qed

lemma check_operand_None:
  assumes ok: "cfg_ok f" and di: "dominance_of f di" and d: "distinct (counted_regs f (fn_insts f))"
    and j: "j < length (fn_order f)"
  shows "check_operand f di (fn_order f ! j) v = None \<longleftrightarrow>
    (\<exists>d < length (fn_order f). counted_in f (v_id v) (fn_order f ! d) \<and> (d = j \<or> doms f d j))"
proof (cases "def_block f (v_id v)")
  case None
  then have "\<not> counted_in f (v_id v) (fn_order f ! d)" if "d < length (fn_order f)" for d
    using that by (simp add: def_block_def find_None_iff counted_in_iff)
  then show ?thesis using None by (auto simp: check_operand_def)
next
  case (Some b)
  then have b: "b \<in> set (fn_order f)" "counted_in f (v_id v) b"
    by (auto simp: def_block_def counted_in_iff dest: find_SomeD)
  then obtain i where i: "i < length (fn_order f)" "b = fn_order f ! i" by (auto simp: in_set_conv_nth)
  have "check_operand f di (fn_order f ! j) v = None \<longleftrightarrow> i = j \<or> doms f i j"
    using Some i ir_dominates_iff [OF ok di i(1) j] by (simp add: check_operand_def)
  moreover have "e = i" if "e < length (fn_order f)" "counted_in f (v_id v) (fn_order f ! e)" for e
  proof -
    have "fn_order f ! e = fn_order f ! i" using one_def_block [OF d that(2) b(2)] that(1) b(1) i(2) by simp
    then show ?thesis using ok that(1) i(1) by (simp add: cfg_ok_def nth_eq_iff_index_eq)
  qed
  ultimately show ?thesis using b(2) i by blast
qed

lemma all_nth: "(\<forall>x \<in> set xs. P x) \<longleftrightarrow> (\<forall>j < length xs. P (xs ! j))"
  by (auto simp: all_set_conv_all_nth)

lemma ssa_errors_parts:
  "ssa_errors f di = None \<longleftrightarrow> check_single_defs f [] (fn_insts f) = None \<and>
     first_error (\<lambda>b. first_error (check_uses f di b) (bb_insts (block_at f b))) (fn_order f) = None \<and>
     first_error (\<lambda>b. check_phis f b False (bb_insts (block_at f b))) (fn_order f) = None"
  by (simp add: ssa_errors_def split: option.split)

lemma ssa_errors_None:
  assumes "cfg_ok f" and "dominance_of f di"
  shows "ssa_errors f di = None \<longleftrightarrow> checked_form f"
proof (cases "distinct (counted_regs f (fn_insts f))")
  case True
  have "check_uses f di (fn_order f ! j) i = None \<longleftrightarrow>
      (\<not> is_phi i \<longrightarrow> (\<forall>v \<in> set (register_operands i). \<exists>d < length (fn_order f).
         counted_in f (v_id v) (fn_order f ! d) \<and> (d = j \<or> doms f d j)))" if "j < length (fn_order f)" for i j
    using check_operand_None [OF assms True that] by (simp add: check_uses_def first_error_None)
  then have "first_error (\<lambda>b. first_error (check_uses f di b) (bb_insts (block_at f b))) (fn_order f) = None \<longleftrightarrow>
      (\<forall>j < length (fn_order f). \<forall>i \<in> set (bb_insts (block_at f (fn_order f ! j))). \<not> is_phi i \<longrightarrow>
        (\<forall>v \<in> set (register_operands i). \<exists>d < length (fn_order f).
           counted_in f (v_id v) (fn_order f ! d) \<and> (d = j \<or> doms f d j)))"
    unfolding first_error_None all_nth [of "fn_order f"] by blast
  moreover have "first_error (\<lambda>b. check_phis f b False (bb_insts (block_at f b))) (fn_order f) = None \<longleftrightarrow>
      (\<forall>b \<in> set (fn_order f). phis_well_placed f b)"
    unfolding first_error_None check_phis_None phis_well_placed_def by blast
  moreover have "check_single_defs f [] (fn_insts f) = None" using True by (simp add: check_single_defs_None)
  ultimately show ?thesis using True unfolding ssa_errors_parts checked_form_def by simp
next
  case False
  then have "check_single_defs f [] (fn_insts f) \<noteq> None" by (simp add: check_single_defs_None)
  then show ?thesis using False by (auto simp: ssa_errors_def checked_form_def)
qed

section \<open>What the verifier counts and what there is\<close>

lemma counted_regs_filter: "counted_regs f is = filter (\<lambda>k. k < max_regs f) (defined_regs is)"
  by (induction "is")
    (auto simp: counted_regs_def defined_regs_def List.map_filter_def is_reg_def reg_src_def split: option.splits)

lemma counted_regs_numbered:
  assumes "regs_numbered f"
  shows "counted_regs f (fn_insts f) = defined_regs (fn_insts f)"
    and "b \<in> set (fn_order f) \<Longrightarrow> counted_in f k b \<longleftrightarrow> defined_in f k b"
proof -
  have all: "k < max_regs f" if "k \<in> set (defined_regs (fn_insts f))" for k
    using assms that by (simp add: regs_numbered_def list_all_iff max_regs_def)
  then show "counted_regs f (fn_insts f) = defined_regs (fn_insts f)" by (simp add: counted_regs_filter filter_id_conv)
  assume "b \<in> set (fn_order f)"
  then have "set (bb_insts (block_at f b)) \<subseteq> set (fn_insts f)" by (auto simp: fn_insts_def)
  then have "set (defined_regs (bb_insts (block_at f b))) \<subseteq> set (defined_regs (fn_insts f))"
    by (auto simp: defined_regs_def List.map_filter_def)
  then show "counted_in f k b \<longleftrightarrow> defined_in f k b" using all by (auto simp: counted_in_def defined_in_def counted_regs_filter)
qed

lemma register_operands_ids: "map v_id (register_operands i) = take 32 (read_regs i)"
proof -
  have "map v_id (filter is_register vs) = List.map_filter reg_src (map Some vs)" for vs
    by (induction vs) (simp_all add: is_register_def reg_src_def List.map_filter_simps)
  then have "map v_id (filter is_register (List.map_filter id [i_lhs i, i_rhs i] @ i_args i)) = read_regs i"
    by (cases "i_lhs i"; cases "i_rhs i")
      (simp_all add: read_regs_def List.map_filter_simps is_register_def reg_src_def)
  then show ?thesis unfolding register_operands_def take_map [symmetric] by (rule arg_cong)
qed

lemma checked_form_iff:
  assumes "regs_numbered f"
  shows "checked_form f \<longleftrightarrow> distinct (defined_regs (fn_insts f)) \<and>
     (\<forall>j < length (fn_order f). \<forall>i \<in> set (bb_insts (block_at f (fn_order f ! j))). \<not> is_phi i \<longrightarrow>
        (\<forall>k \<in> set (take 32 (read_regs i)). \<exists>d < length (fn_order f). defined_in f k (fn_order f ! d) \<and> (d = j \<or> doms f d j))) \<and>
     (\<forall>b \<in> set (fn_order f). phis_well_placed f b)"
proof -
  have "set (take 32 (read_regs i)) = v_id ` set (register_operands i)" for i
    unfolding register_operands_ids [symmetric] by simp
  moreover have "counted_in f k (fn_order f ! d) \<longleftrightarrow> defined_in f k (fn_order f ! d)" if "d < length (fn_order f)" for k d
    using counted_regs_numbered(2) [OF assms] that by simp
  ultimately show ?thesis unfolding checked_form_def counted_regs_numbered(1) [OF assms] by (simp cong: conj_cong)
qed

lemma checked_form_ssa_form:
  assumes "regs_numbered f"
  shows "ssa_form f \<Longrightarrow> checked_form f" and "few_operands f \<Longrightarrow> checked_form f \<Longrightarrow> ssa_form f"
proof -
  show "ssa_form f \<Longrightarrow> checked_form f"
    unfolding checked_form_iff [OF assms] ssa_form_def by (meson in_set_takeD)
  assume few: "few_operands f"
  have "take 32 (read_regs i) = read_regs i" if "j < length (fn_order f)" "i \<in> set (bb_insts (block_at f (fn_order f ! j)))" for i j
  proof -
    have "i \<in> set (fn_insts f)" using that by (auto simp: fn_insts_def)
    then show ?thesis using few by (simp add: few_operands_def list_all_iff)
  qed
  then show "checked_form f \<Longrightarrow> ssa_form f" unfolding checked_form_iff [OF assms] ssa_form_def by simp
qed

section \<open>Properties\<close>

text \<open>C40. The verifier of SSA form ends. For a function whose registers are numbered by its counter, it accepts
  every one in which each register has one definition, the definition of a register that an
  instruction other than a phi reads is in the same block or on every path to it, and phis stand first in
  their block and name only its predecessors; and it accepts no other, provided that no
  instruction has more than 32 register operands: later ones are not looked at. The values that phis
  take are in neither: a phi may read any register.\<close>

theorem ssa_verify_decides_form:
  assumes "cfg_ok f" and "regs_numbered f"
  shows "\<exists>r. ir_ssa_verify_function f None = Some r \<and> (ssa_form f \<longrightarrow> r = None) \<and>
    (few_operands f \<longrightarrow> r = None \<longrightarrow> ssa_form f)"
proof -
  obtain di where di: "ir_dominance_compute f = Some (Some di)" "dominance_of f di"
    using dominance_compute_result [OF assms(1)] by blast
  then show ?thesis using ssa_errors_None [OF assms(1) di(2)] checked_form_ssa_form [OF assms(2)]
    by (simp add: ir_ssa_verify_function_def)
qed

lemma dom_sample_regs: "regs_numbered dom_sample" "few_operands dom_sample"
  by code_simp+

theorem ssa_verify_decides_form_witness:
  "\<exists>r. ir_ssa_verify_function dom_sample None = Some r \<and> (r = None \<longleftrightarrow> ssa_form dom_sample)"
  using ssa_verify_decides_form [OF dom_sample_ok dom_sample_regs(1)] dom_sample_regs(2) by blast

end
