(* ===== verification/Ir_Loop_Correct.thy ===== *)
theory Ir_Loop_Correct
  imports Ir_Loop Ir_Dominance_Tree
begin

text \<open>
  The loop analysis against natural loops: which loops there are, which blocks each has, how they
  nest, and that the traversals end.
\<close>

section \<open>Natural loops\<close>

text \<open>The header, the latches, and every block with a path to one of them that does not pass through the header.\<close>

inductive natural_loop :: "('a \<Rightarrow> 'a \<Rightarrow> bool) \<Rightarrow> 'a \<Rightarrow> 'a set \<Rightarrow> 'a \<Rightarrow> bool" for E h L where
  header: "natural_loop E h L h"
| latch: "b \<in> L \<Longrightarrow> natural_loop E h L b"
| pred: "natural_loop E h L b \<Longrightarrow> b \<noteq> h \<Longrightarrow> E a b \<Longrightarrow> natural_loop E h L a"

lemma natural_loop_mono: "natural_loop E h L b \<Longrightarrow> L \<subseteq> M \<Longrightarrow> natural_loop E h M b"
  by (induction rule: natural_loop.induct) (auto intro: natural_loop.intros)

lemma natural_loop_least:
  assumes "natural_loop E h L b" and "h \<in> B" and "L \<subseteq> B" and "\<And>b a. b \<in> B \<Longrightarrow> b \<noteq> h \<Longrightarrow> E a b \<Longrightarrow> a \<in> B"
  shows "b \<in> B"
  using assms by (induction rule: natural_loop.induct) auto

text \<open>Paths inside a loop: the header dominates its reachable blocks.\<close>

lemma natural_loop_dominates:
  assumes "natural_loop E h L b" and "\<And>l. l \<in> L \<Longrightarrow> dominates E e h l" and "reachable E e h"
  shows "reachable E e b \<Longrightarrow> dominates E e h b"
  using assms
proof (induction rule: natural_loop.induct)
  case (pred b a)
  show ?case unfolding dominates_def
  proof (intro conjI allI impI)
    fix p assume p: "entry_path E e (a # p)"
    then have q: "entry_path E e (b # a # p)" using pred.hyps(3) by (rule entry_path.step)
    then have "reachable E e b" unfolding reachable_def by blast
    then have "dominates E e h b" using pred by blast
    then have "h \<in> set (b # a # p)" using q unfolding dominates_def by blast
    then show "h \<in> set (a # p)" using pred.hyps(2) by simp
  qed (rule pred.prems(1))
qed (auto intro: dominates_refl)

lemma header_in_outer_loop:
  assumes "natural_loop E h L b" and "dominates E e h g" and "h \<noteq> g" and "dominates E e g b"
  shows "natural_loop E h L g"
proof -
  obtain q where q: "entry_path E e (h # q)" "g \<notin> set (h # q)"
    using assms(2,3) dominates_antisym dominator_reachable unfolding dominates_def by metis
  have "natural_loop E h L g" if "entry_path E e (b # p)" "g \<in> set (b # p)" "natural_loop E h L b" "\<And>r. entry_path E e (b # r) \<Longrightarrow> g \<in> set (b # r)" for b p
    using that
  proof (induction p arbitrary: b)
    case (Cons c p)
    show ?case
    proof (cases "b = g")
      case False
      have bh: "b \<noteq> h" using Cons.prems(4) q by blast
      have s: "entry_path E e (c # p)" "E c b" using Cons.prems(1) by (simp_all add: entry_path_Cons2)
      have "natural_loop E h L c" using Cons.prems(3) bh s(2) by (rule natural_loop.pred)
      moreover have "g \<in> set (c # r)" if "entry_path E e (c # r)" for r
        using Cons.prems(4) [OF entry_path.step [OF that s(2)]] False by simp
      ultimately show ?thesis using Cons.IH [OF s(1)] s(1) by blast
    qed (use Cons.prems(3) in simp)
  qed simp
  moreover obtain p where "entry_path E e (b # p)" using assms(4) unfolding dominates_def reachable_def by blast
  ultimately show ?thesis using assms(1,4) unfolding dominates_def by blast
qed

lemma inner_loop_contained:
  assumes g: "natural_loop E h L g" and gh: "g \<noteq> h" and "\<not> dominates E e g h" and "reachable E e h"
    and M: "\<And>l. l \<in> M \<Longrightarrow> dominates E e g l \<and> E l g" and "reachable E e g"
    and b: "natural_loop E g M b"
  shows "natural_loop E h L b"
  using b
proof (induction rule: natural_loop.induct)
  case (latch b)
  then show ?case using g gh M natural_loop.pred by metis
next
  case (pred b a)
  have "b \<noteq> h" using natural_loop_dominates [of E g M b e] pred.hyps(1) assms M by blast
  then show ?case using pred natural_loop.pred by metis
qed (rule g)

text \<open>Two loops with a reachable block in common are nested.\<close>

lemma natural_loops_nest:
  assumes L: "\<And>l. l \<in> L \<Longrightarrow> dominates E e h l \<and> E l h" and M: "\<And>l. l \<in> M \<Longrightarrow> dominates E e g l \<and> E l g"
    and r: "reachable E e h" "reachable E e g" and b: "natural_loop E h L b" "natural_loop E g M b" "reachable E e b" and ne: "h \<noteq> g"
  shows "(natural_loop E h L g \<and> (\<forall>x. natural_loop E g M x \<longrightarrow> natural_loop E h L x)) \<or>
    (natural_loop E g M h \<and> (\<forall>x. natural_loop E h L x \<longrightarrow> natural_loop E g M x))"
proof -
  have d: "dominates E e h b" "dominates E e g b"
    using natural_loop_dominates b r L M by metis+
  have half: "natural_loop E h L g \<and> (\<forall>x. natural_loop E g M x \<longrightarrow> natural_loop E h L x)"
    if "dominates E e h g" "h \<noteq> g" "reachable E e h" "reachable E e g" "natural_loop E h L b" "dominates E e g b"
      "\<And>l. l \<in> M \<Longrightarrow> dominates E e g l \<and> E l g" for h g L M
  proof -
    have "\<not> dominates E e g h" using that(1,2) dominates_antisym by metis
    moreover have i: "natural_loop E h L g" using header_in_outer_loop [OF that(5,1,2,6)] .
    ultimately show ?thesis using inner_loop_contained [OF i] that by metis
  qed
  show ?thesis using dominates_linear [OF d] half [of h g L M] half [of g h M L] r b d ne L M by metis
qed

section \<open>The blocks of a loop\<close>

text \<open>Edges between blocks, as lists of predecessors, and blocks whose predecessors are blocks of the function.\<close>

abbreviation block_edge :: "ir_function \<Rightarrow> nat \<Rightarrow> nat \<Rightarrow> bool" where
  "block_edge f a b \<equiv> a \<in> set (bb_preds (block_at f b))"

definition preds_inside :: "ir_function \<Rightarrow> bool" where
  "preds_inside f \<longleftrightarrow> (\<forall>b \<in> set (fn_order f). set (bb_preds (block_at f b)) \<subseteq> set (fn_order f) \<and>
     set (bb_succs (block_at f b)) \<subseteq> set (fn_order f))"

lemma visit_preds:
  assumes "lp_header l \<in> set (lp_blocks l)"
  shows "\<exists>ns. fold visit_pred ps (wl, l) = (wl @ ns, l\<lparr>lp_blocks := lp_blocks l @ ns\<rparr>) \<and> distinct ns \<and>
    set ns = set ps - set (lp_blocks l)"
  using assms
proof (induction ps arbitrary: wl l)
  case (Cons p ps)
  show ?case
  proof (cases "p \<in> set (lp_blocks l)")
    case True
    then have "visit_pred p (wl, l) = (wl, l)" by (simp add: visit_pred_def ir_loop_contains_def)
    moreover obtain ns where "fold visit_pred ps (wl, l) = (wl @ ns, l\<lparr>lp_blocks := lp_blocks l @ ns\<rparr>)" "distinct ns"
      "set ns = set ps - set (lp_blocks l)" using Cons.IH [OF Cons.prems] by blast
    ultimately show ?thesis using True by (intro exI [of _ ns]) auto
  next
    case False
    let ?l = "l\<lparr>lp_blocks := lp_blocks l @ [p]\<rparr>"
    have "p \<noteq> lp_header l" using False Cons.prems by auto
    then have "visit_pred p (wl, l) = (wl @ [p], ?l)"
      using False by (simp add: visit_pred_def ir_loop_contains_def loop_add_block_def add_once_def)
    moreover obtain ns where "fold visit_pred ps (wl @ [p], ?l) = ((wl @ [p]) @ ns, ?l\<lparr>lp_blocks := lp_blocks ?l @ ns\<rparr>)" "distinct ns"
      "set ns = set ps - set (lp_blocks ?l)" using Cons.IH [of ?l "wl @ [p]"] Cons.prems by auto
    ultimately show ?thesis using False by (intro exI [of _ "p # ns"]) auto
  qed
qed simp

lemma blocks_inject: "l\<lparr>lp_blocks := bs\<rparr> = l\<lparr>lp_blocks := cs\<rparr> \<longleftrightarrow> bs = cs"
  by (cases l) simp

text \<open>The traversal: blocks found so far belong to the loop, and those whose predecessors are still missing wait.\<close>

definition walk_inv :: "ir_function \<Rightarrow> ir_loop \<Rightarrow> nat set \<Rightarrow> nat list \<times> ir_loop \<Rightarrow> bool" where
  "walk_inv f l L s \<longleftrightarrow> (\<exists>bs. snd s = l\<lparr>lp_blocks := bs\<rparr> \<and> set (lp_blocks l) \<subseteq> set bs \<and> distinct bs \<and>
     set bs \<subseteq> set (fn_order f) \<and> set (fst s) \<subseteq> set bs \<and> lp_header l \<in> set bs \<and> lp_header l \<notin> set (fst s) \<and>
     (\<forall>b \<in> set bs. natural_loop (block_edge f) (lp_header l) L b) \<and>
     (\<forall>b \<in> set bs. b \<noteq> lp_header l \<longrightarrow> b \<notin> set (fst s) \<longrightarrow> set (bb_preds (block_at f b)) \<subseteq> set bs))"

lemma walk_step:
  assumes "walk_inv f l L s" and "fst s \<noteq> []" and inside: "preds_inside f"
  shows "walk_inv f l L (walk_next f s) \<and>
    length (fst (walk_next f s)) + (length (fn_order f) - length (lp_blocks (snd (walk_next f s))))
      < length (fst s) + (length (fn_order f) - length (lp_blocks (snd s)))"
proof -
  obtain b wl where s: "fst s = b # wl" using assms(2) by (cases "fst s") auto
  obtain bs where bs: "snd s = l\<lparr>lp_blocks := bs\<rparr>" "set (lp_blocks l) \<subseteq> set bs" "distinct bs" "set bs \<subseteq> set (fn_order f)"
    "set (fst s) \<subseteq> set bs" "lp_header l \<in> set bs" "lp_header l \<notin> set (fst s)"
    "\<And>b. b \<in> set bs \<Longrightarrow> natural_loop (block_edge f) (lp_header l) L b"
    "\<And>b. b \<in> set bs \<Longrightarrow> b \<noteq> lp_header l \<Longrightarrow> b \<notin> set (fst s) \<Longrightarrow> set (bb_preds (block_at f b)) \<subseteq> set bs"
    using assms(1) unfolding walk_inv_def by blast
  obtain ns where ns: "fold visit_pred (bb_preds (block_at f b)) (wl, snd s) = (wl @ ns, (snd s)\<lparr>lp_blocks := lp_blocks (snd s) @ ns\<rparr>)"
    "distinct ns" "set ns = set (bb_preds (block_at f b)) - set bs"
    using visit_preds [of "snd s" "bb_preds (block_at f b)" wl] bs(1,6) by auto
  have nx: "walk_next f s = (wl @ ns, l\<lparr>lp_blocks := bs @ ns\<rparr>)"
    using ns(1) s bs(1) by (cases s) (simp add: walk_next_def)
  have b: "b \<in> set bs" "b \<noteq> lp_header l" using bs(5,7) s by auto
  have ps: "set (bb_preds (block_at f b)) \<subseteq> set (fn_order f)"
    using inside b(1) bs(4) unfolding preds_inside_def by (meson subsetD)
  have sub: "set (bs @ ns) \<subseteq> set (fn_order f)" using bs(4) ps ns(3) by auto
  have dist: "distinct (bs @ ns)" using bs(3) ns(2,3) by auto
  have nat: "natural_loop (block_edge f) (lp_header l) L c" if "c \<in> set (bs @ ns)" for c
  proof (cases "c \<in> set bs")
    case False
    then have "block_edge f c b" using that ns(3) by auto
    then show ?thesis using bs(8) [OF b(1)] b(2) by (auto intro: natural_loop.pred)
  qed (rule bs(8))
  have closed: "set (bb_preds (block_at f c)) \<subseteq> set (bs @ ns)"
    if "c \<in> set (bs @ ns)" "c \<noteq> lp_header l" "c \<notin> set (wl @ ns)" for c
  proof (cases "c = b")
    case False
    then have "c \<notin> set (fst s)" "c \<in> set bs" using that(1,3) s by auto
    then show ?thesis using bs(9) [of c] that(2) by auto
  qed (use ns(3) in auto)
  have "walk_inv f l L (walk_next f s)" unfolding walk_inv_def nx
    using bs(2,5,6,7) sub dist nat closed ns(3) s by (intro exI [of _ "bs @ ns"]) auto
  moreover have "length (bs @ ns) \<le> length (fn_order f)" using sub dist by (metis card_mono distinct_card card_length finite_set le_trans)
  ultimately show ?thesis using s bs(1) by (auto simp: nx)
qed

lemma walk_result:
  assumes "walk_inv f l L ([b], l)" and "preds_inside f"
  shows "\<exists>bs. walk_preds f b l = Some (l\<lparr>lp_blocks := bs\<rparr>) \<and> walk_inv f l L ([], l\<lparr>lp_blocks := bs\<rparr>)"
proof -
  let ?m = "\<lambda>s. length (fst s) + (length (fn_order f) - length (lp_blocks (snd s)))"
  obtain t where t: "while_option (\<lambda>s. fst s \<noteq> []) (walk_next f) ([b], l) = Some t"
    using measure_while_option_Some [of "walk_inv f l L" "\<lambda>s. fst s \<noteq> []" "walk_next f" ?m] walk_step [OF _ _ assms(2)] assms(1) by blast
  have "walk_inv f l L t" using while_option_rule [OF _ t, of "walk_inv f l L"] walk_step [OF _ _ assms(2)] assms(1) by blast
  moreover have "fst t = []" using while_option_stop [OF t] by simp
  moreover obtain bs where "snd t = l\<lparr>lp_blocks := bs\<rparr>" using calculation(1) unfolding walk_inv_def by blast
  ultimately show ?thesis using t by (intro exI [of _ bs]) (cases t, simp add: walk_preds_def)
qed

text \<open>A loop with these latches and blocks.\<close>

definition loop_of :: "ir_function \<Rightarrow> (nat \<times> nat) set \<Rightarrow> ir_loop \<Rightarrow> bool" where
  "loop_of f es l \<longleftrightarrow> set (lp_latches l) = {b. (b, lp_header l) \<in> es} \<and> distinct (lp_blocks l) \<and>
     set (lp_blocks l) \<subseteq> set (fn_order f) \<and>
     set (lp_blocks l) = {b. natural_loop (block_edge f) (lp_header l) {b. (b, lp_header l) \<in> es} b}"

lemma loop_of_cong:
  assumes "loop_of f es l" "lp_header m = lp_header l" "lp_latches m = lp_latches l" "lp_blocks m = lp_blocks l"
  shows "loop_of f es m"
  using assms(1) unfolding loop_of_def assms(2-4) .

lemma natural_loop_set:
  assumes "h \<in> B" "L \<subseteq> B" "\<And>b. b \<in> B \<Longrightarrow> natural_loop (block_edge f) h L b"
    "\<And>b. b \<in> B \<Longrightarrow> b \<noteq> h \<Longrightarrow> set (bb_preds (block_at f b)) \<subseteq> B"
  shows "B = {b. natural_loop (block_edge f) h L b}"
  using assms natural_loop_least [of "block_edge f" h L _ B] by blast

lemma extend_loop:
  assumes l: "loop_of f es l" and inside: "preds_inside f" and b: "b \<in> set (fn_order f)" "lp_header l \<in> set (fn_order f)"
  defines "m \<equiv> loop_add_block b (loop_add_latch b l)"
  shows "\<exists>bs. (if b \<noteq> lp_header l then walk_preds f b m else Some m) = Some (m\<lparr>lp_blocks := bs\<rparr>) \<and>
    loop_of f (insert (b, lp_header l) es) (m\<lparr>lp_blocks := bs\<rparr>)"
proof -
  let ?h = "lp_header l" and ?L = "insert b {b. (b, lp_header l) \<in> es}"
  have m: "lp_header m = ?h" "set (lp_latches m) = insert b (set (lp_latches l))" "set (lp_blocks m) = insert b (set (lp_blocks l))"
    "distinct (lp_blocks m)"
    using l by (auto simp: m_def loop_add_block_def loop_add_latch_def add_once_def loop_of_def)
  have B: "set (lp_blocks l) = {b. natural_loop (block_edge f) ?h {b. (b, ?h) \<in> es} b}" using l unfolding loop_of_def by blast
  have h: "?h \<in> set (lp_blocks l)" unfolding B by (simp add: natural_loop.header)
  have L: "{b. (b, ?h) \<in> es} \<subseteq> set (lp_blocks l)" unfolding B by (auto intro: natural_loop.latch)
  have cl: "set (bb_preds (block_at f c)) \<subseteq> set (lp_blocks l)" if "c \<in> set (lp_blocks l)" "c \<noteq> ?h" for c
    using that natural_loop.pred [of "block_edge f" ?h _ c] unfolding B by blast
  have nat: "natural_loop (block_edge f) ?h ?L c" if "c \<in> insert b (set (lp_blocks l))" for c
  proof (cases "c = b")
    case False
    then have "natural_loop (block_edge f) ?h {b. (b, ?h) \<in> es} c" using that B by auto
    then show ?thesis by (rule natural_loop_mono) blast
  qed (simp add: natural_loop.latch)
  have sub: "insert b (set (lp_blocks l)) \<subseteq> set (fn_order f)" using l b(1) unfolding loop_of_def by blast
  have l': "set (lp_latches l) = {b. (b, ?h) \<in> es}" using l unfolding loop_of_def by blast
  have built: "loop_of f (insert (b, ?h) es) (m\<lparr>lp_blocks := bs\<rparr>)"
    if bs: "distinct bs" "set bs \<subseteq> set (fn_order f)" "set bs = {b. natural_loop (block_edge f) ?h ?L b}" for bs
  proof -
    have E: "{c. (c, lp_header (m\<lparr>lp_blocks := bs\<rparr>)) \<in> insert (b, ?h) es} = ?L" by (auto simp: m(1))
    show ?thesis unfolding loop_of_def E using m(1,2) l' bs by (intro conjI) simp_all
  qed
  show ?thesis
  proof (cases "b = ?h")
    case True
    then have "insert b (set (lp_blocks l)) = {b. natural_loop (block_edge f) ?h ?L b}"
      using h L cl nat by (intro natural_loop_set) auto
    then have "loop_of f (insert (b, ?h) es) (m\<lparr>lp_blocks := lp_blocks m\<rparr>)" using m(3,4) sub by (intro built) auto
    then show ?thesis using True by (intro exI [of _ "lp_blocks m"]) simp
  next
    case False
    have "walk_inv f m ?L ([b], m)" unfolding walk_inv_def
      using m h sub False nat cl by (intro exI [of _ "lp_blocks m"]) (auto simp: m)
    then obtain bs where bs: "walk_preds f b m = Some (m\<lparr>lp_blocks := bs\<rparr>)" "walk_inv f m ?L ([], m\<lparr>lp_blocks := bs\<rparr>)"
      using walk_result [OF _ inside] by blast
    have i: "set (lp_blocks m) \<subseteq> set bs" "distinct bs" "set bs \<subseteq> set (fn_order f)" "?h \<in> set bs"
      "\<And>c. c \<in> set bs \<Longrightarrow> natural_loop (block_edge f) ?h ?L c"
      "\<And>c. c \<in> set bs \<Longrightarrow> c \<noteq> ?h \<Longrightarrow> set (bb_preds (block_at f c)) \<subseteq> set bs"
      using bs(2) unfolding walk_inv_def snd_conv fst_conv blocks_inject m(1) by auto
    have "?L \<subseteq> set bs" using i(1) m(3) L by auto
    then have "set bs = {b. natural_loop (block_edge f) ?h ?L b}" using i(4,5,6) by (intro natural_loop_set)
    then show ?thesis using bs(1) built [OF i(2,3)] False by auto
  qed
qed

section \<open>The loops of a function\<close>

text \<open>The loops for the edges seen so far: one for each header, not yet nested.\<close>

definition loops_of :: "ir_function \<Rightarrow> (nat \<times> nat) set \<Rightarrow> ir_loop list \<Rightarrow> bool" where
  "loops_of f es ls \<longleftrightarrow> distinct (map lp_header ls) \<and> lp_header ` set ls = snd ` es \<and>
     (\<forall>l \<in> set ls. loop_of f es l \<and> lp_parent l = None \<and> lp_children l = [])"

lemma loop_of_other: "loop_of f es l \<Longrightarrow> lp_header l \<noteq> h \<Longrightarrow> loop_of f (insert (b, h) es) l"
  by (auto simp: loop_of_def)

lemma new_loop: "h \<in> set (fn_order f) \<Longrightarrow> h \<notin> snd ` es \<Longrightarrow> loop_of f es (loop_add_block h (create_loop k h))"
proof -
  assume h: "h \<in> set (fn_order f)" "h \<notin> snd ` es"
  then have n: "{b. (b, h) \<in> es} = {}" by force
  have c: "{b. natural_loop (block_edge f) h {} b} = {h}" by (intro natural_loop_set [symmetric]) (auto intro: natural_loop.header)
  moreover have "lp_header (loop_add_block h (create_loop k h)) = h" "lp_latches (loop_add_block h (create_loop k h)) = []"
    "lp_blocks (loop_add_block h (create_loop k h)) = [h]"
    by (simp_all add: loop_add_block_def create_loop_def add_once_def)
  ultimately show ?thesis using h(1) unfolding loop_of_def by (simp only: n c) simp
qed

lemma add_back_edge_result:
  assumes ls: "loops_of f es ls" and inside: "preds_inside f" and b: "b \<in> set (fn_order f)" "h \<in> set (fn_order f)"
  shows "\<exists>ms. add_back_edge f (b, h) ls = Some ms \<and> loops_of f (insert (b, h) es) ms"
proof -
  define k where "k = (case List.find (\<lambda>k. lp_header (ls ! k) = h) [0..<length ls] of Some k \<Rightarrow> k | None \<Rightarrow> length ls)"
  define ns where "ns = (if k = length ls then ls @ [loop_add_block h (create_loop k h)] else ls)"
  have k: "(k < length ls \<and> lp_header (ls ! k) = h) \<or> (k = length ls \<and> h \<notin> lp_header ` set ls)"
  proof (cases "List.find (\<lambda>k. lp_header (ls ! k) = h) [0..<length ls]")
    case None
    then have "k = length ls" by (simp add: k_def)
    moreover have "h \<notin> lp_header ` set ls" using None by (auto simp: find_None_iff in_set_conv_nth)
    ultimately show ?thesis by simp
  next
    case (Some j)
    then have "k = j" by (simp add: k_def)
    then show ?thesis using Some by (auto simp: find_Some_iff)
  qed
  have D: "distinct (map lp_header ls)" "lp_header ` set ls = snd ` es"
    "\<And>l. l \<in> set ls \<Longrightarrow> loop_of f es l \<and> lp_parent l = None \<and> lp_children l = []"
    using ls unfolding loops_of_def by blast+
  have nw: "lp_header (loop_add_block h (create_loop k h)) = h" "lp_parent (loop_add_block h (create_loop k h)) = None"
    "lp_children (loop_add_block h (create_loop k h)) = []"
    by (simp_all add: loop_add_block_def create_loop_def)
  have kn: "k < length ns" "lp_header (ns ! k) = h" using k nw(1) by (auto simp: ns_def nth_append)
  have dn: "distinct (map lp_header ns)" using k nw(1) D(1) by (auto simp: ns_def)
  have hn: "lp_header ` set ns = insert h (snd ` es)" using k nw(1) D(2) by (auto simp: ns_def)
  have en: "loop_of f es l \<and> lp_parent l = None \<and> lp_children l = []" if "l \<in> set ns" for l
  proof (cases "l \<in> set ls")
    case False
    then have l: "l = loop_add_block h (create_loop k h)" "k = length ls" using that by (auto simp: ns_def split: if_splits)
    then have "h \<notin> snd ` es" using k D(2) by auto
    then show ?thesis using new_loop [OF b(2)] l(1) nw by simp
  qed (rule D(3))
  define m where "m = loop_add_block b (loop_add_latch b (ns ! k))"
  have mk: "loop_of f es (ns ! k)" "lp_parent (ns ! k) = None" "lp_children (ns ! k) = []"
    using en [of "ns ! k"] kn(1) by simp_all
  obtain bs where bs: "(if b \<noteq> h then walk_preds f b m else Some m) = Some (m\<lparr>lp_blocks := bs\<rparr>)"
    "loop_of f (insert (b, h) es) (m\<lparr>lp_blocks := bs\<rparr>)"
    using extend_loop [OF mk(1) inside b(1)] b(2) kn(2) unfolding m_def by auto
  have mf: "lp_header m = h" "lp_parent m = None" "lp_children m = []"
    using mk kn(2) by (simp_all add: m_def loop_add_block_def loop_add_latch_def)
  let ?ms = "ns[k := m\<lparr>lp_blocks := bs\<rparr>]"
  have r: "add_back_edge f (b, h) ls = Some ?ms"
    using bs(1) unfolding add_back_edge_def k_def [symmetric] Let_def prod.case
    by (simp only: ns_def [symmetric] m_def [symmetric]) (auto split: if_splits)
  have "map lp_header ?ms = map lp_header ns" using kn mf(1) by (simp add: map_update list_update_same_conv)
  then have hd: "distinct (map lp_header ?ms)" "lp_header ` set ?ms = snd ` insert (b, h) es"
    using dn hn by (simp_all only: set_map [symmetric]) auto
  have "loop_of f (insert (b, h) es) l \<and> lp_parent l = None \<and> lp_children l = []" if l: "l \<in> set ?ms" for l
  proof -
    obtain i where i: "i < length ns" "l = ?ms ! i" using l unfolding in_set_conv_nth by auto
    show ?thesis
    proof (cases "i = k")
      case False
      then have "l = ns ! i" "lp_header (ns ! i) \<noteq> h"
        using i kn dn nth_eq_iff_index_eq [OF dn, of i k] by auto
      then show ?thesis using en [of l] i(1) loop_of_other by simp
    qed (use i kn bs(2) mf in simp)
  qed
  then show ?thesis using r hd unfolding loops_of_def by blast
qed

lemma add_back_edges_result:
  assumes "loops_of f es ls" and "preds_inside f" and "set new \<subseteq> set (fn_order f) \<times> set (fn_order f)"
  shows "\<exists>ms. add_back_edges f new ls = Some ms \<and> loops_of f (es \<union> set new) ms"
  using assms
proof (induction new arbitrary: ls es)
  case (Cons e new)
  obtain b h where e: "e = (b, h)" by fastforce
  have "b \<in> set (fn_order f)" "h \<in> set (fn_order f)" using Cons.prems(3) e by auto
  then obtain ms where "add_back_edge f (b, h) ls = Some ms" "loops_of f (insert (b, h) es) ms"
    using add_back_edge_result [OF Cons.prems(1,2)] by blast
  then show ?case using Cons.IH [of "insert (b, h) es" ms] Cons.prems(2,3) e by auto
qed simp

lemma back_edges_set:
  "set (back_edges f di) = {(b, h). b \<in> set (fn_order f) \<and> h \<in> set (bb_succs (block_at f b)) \<and> ir_dominates di h b}"
  by (auto simp: back_edges_def)

lemma found_loops:
  assumes "preds_inside f"
  shows "\<exists>ls. add_back_edges f (back_edges f di) [] = Some ls \<and> loops_of f (set (back_edges f di)) ls"
proof -
  have "loops_of f {} []" by (simp add: loops_of_def)
  moreover have "set (back_edges f di) \<subseteq> set (fn_order f) \<times> set (fn_order f)"
    using assms unfolding back_edges_set preds_inside_def by blast
  ultimately show ?thesis using add_back_edges_result [of f "{}" "[]"] assms by simp
qed

section \<open>Nesting\<close>

definition best_of :: "ir_loop list \<Rightarrow> nat \<Rightarrow> nat set \<Rightarrow> nat option \<Rightarrow> bool" where
  "best_of ls i J p = (case p of
      None \<Rightarrow> \<forall>j \<in> J. \<not> inside (ls ! i) (ls ! j)
    | Some p \<Rightarrow> p \<in> J \<and> inside (ls ! i) (ls ! p) \<and>
        (\<forall>j \<in> J. inside (ls ! i) (ls ! j) \<longrightarrow> length (lp_blocks (ls ! p)) \<le> length (lp_blocks (ls ! j))))"

lemma inside_irrefl: "\<not> inside l l"
  by (simp add: inside_def)

lemma inside_blocks: "lp_blocks l = lp_blocks k \<Longrightarrow> lp_blocks m = lp_blocks n \<Longrightarrow> inside l m \<longleftrightarrow> inside k n"
  by (simp add: inside_def ir_loop_contains_def [abs_def])

lemma better_parent_best: "best_of ls i J p \<Longrightarrow> best_of ls i (insert j J) (better_parent ls i j p)"
  by (auto simp: better_parent_def best_of_def inside_irrefl split: option.splits if_splits)

lemma best_parent_best: "best_of ls i {..<length ls} (best_parent ls i)"
proof -
  have "best_of ls i {..<n} (fold (better_parent ls i) [0..<n] None)" for n
    using better_parent_best [of ls i "{..<n}" for n] by (induction n) (simp_all add: best_of_def lessThan_Suc)
  then show ?thesis by (simp add: best_parent_def)
qed

lemma best_parent_Some:
  assumes "best_parent ls i = Some p"
  shows "p < length ls" "inside (ls ! i) (ls ! p)"
    "\<And>j. j < length ls \<Longrightarrow> inside (ls ! i) (ls ! j) \<Longrightarrow> length (lp_blocks (ls ! p)) \<le> length (lp_blocks (ls ! j))"
  using best_parent_best [of ls i] assms by (auto simp: best_of_def)

lemma best_parent_None: "best_parent ls i = None \<Longrightarrow> j < length ls \<Longrightarrow> \<not> inside (ls ! i) (ls ! j)"
  using best_parent_best [of ls i] by (auto simp: best_of_def)

text \<open>Nesting changes only the links between loops.\<close>

definition nested :: "ir_loop list \<Rightarrow> nat \<Rightarrow> ir_loop list \<Rightarrow> bool" where
  "nested ls n ms \<longleftrightarrow> length ms = length ls \<and>
     (\<forall>i < length ls. ms ! i = (ls ! i)\<lparr>lp_parent := if i < n then best_parent ls i else None,
        lp_children := filter (\<lambda>c. best_parent ls c = Some i) [0..<n]\<rparr>)"

lemma best_parent_blocks:
  assumes b: "map lp_blocks ls = map lp_blocks ms" and i: "i < length ls"
  shows "best_parent ls i = best_parent ms i"
proof -
  have len: "length ls = length ms" using b map_eq_imp_length_eq by blast
  have e: "lp_blocks (ls ! j) = lp_blocks (ms ! j)" if "j < length ls" for j
    using b that len by (metis nth_map)
  have c: "inside (ls ! j) (ls ! k) \<longleftrightarrow> inside (ms ! j) (ms ! k)" if "j < length ls" "k < length ls" for j k
    using e that by (intro inside_blocks) simp_all
  have "fold (better_parent ls i) [0..<n] None = fold (better_parent ms i) [0..<n] None \<and>
      (\<forall>p. fold (better_parent ls i) [0..<n] None = Some p \<longrightarrow> p < n)" if "n \<le> length ls" for n
    using that
  proof (induction n)
    case (Suc n)
    then have ih: "fold (better_parent ls i) [0..<n] None = fold (better_parent ms i) [0..<n] None"
      "\<And>p. fold (better_parent ls i) [0..<n] None = Some p \<Longrightarrow> p < n" by auto
    have "better_parent ls i n q = better_parent ms i n q" if "\<And>p. q = Some p \<Longrightarrow> p < n" for q
    proof (cases q)
      case None
      then show ?thesis using Suc.prems i by (simp add: better_parent_def c e)
    next
      case (Some p)
      then have "p < length ls" using that [OF Some] Suc.prems by simp
      then show ?thesis using Suc.prems i Some by (simp add: better_parent_def c e)
    qed
    moreover have "better_parent ls i n q = Some p \<Longrightarrow> p < Suc n" if "\<And>p. q = Some p \<Longrightarrow> p < n" for q p
      using that by (auto simp: better_parent_def less_Suc_eq split: if_splits)
    ultimately show ?case using ih Suc.prems by (simp, metis)
  qed simp
  then show ?thesis using len by (simp add: best_parent_def)
qed

lemma nest_step:
  assumes n: "nested ls n ms" "n < length ls"
  shows "nested ls (Suc n) (nest_loop n ms)"
proof -
  have len: "length ms = length ls" and ms: "\<And>i. i < length ls \<Longrightarrow> ms ! i = (ls ! i)\<lparr>lp_parent := if i < n then best_parent ls i else None,
        lp_children := filter (\<lambda>c. best_parent ls c = Some i) [0..<n]\<rparr>"
    using n(1) by (auto simp: nested_def)
  have "map lp_blocks ms = map lp_blocks ls" using len ms by (intro nth_equalityI) simp_all
  then have bp: "best_parent ms n = best_parent ls n" using best_parent_blocks n(2) len by metis
  show ?thesis
  proof (cases "best_parent ls n")
    case None
    then show ?thesis using len ms bp n(2) by (auto simp: nested_def nest_loop_def less_Suc_eq)
  next
    case (Some p)
    have p: "p < length ls" "p \<noteq> n" using best_parent_Some(1,2) [OF Some] inside_irrefl by auto
    have "n \<notin> set (lp_children (ms ! p))" using p(1) ms by simp
    then have "nest_loop n ms = ms[p := (ms ! p)\<lparr>lp_children := lp_children (ms ! p) @ [n]\<rparr>, n := (ms ! n)\<lparr>lp_parent := Some p\<rparr>]"
      using Some p bp by (simp add: nest_loop_def loop_add_child_def Let_def)
    then show ?thesis using len ms n(2) p Some by (auto simp: nested_def nth_list_update less_Suc_eq)
  qed
qed

lemma nest_result:
  assumes "\<And>l. l \<in> set ls \<Longrightarrow> lp_parent l = None \<and> lp_children l = []"
  shows "nested ls (length ls) (fold nest_loop [0..<length ls] ls)"
proof -
  have "nested ls n (fold nest_loop [0..<n] ls)" if "n \<le> length ls" for n
    using that
  proof (induction n)
    case 0
    then show ?case using assms by (simp add: nested_def)
  next
    case (Suc n)
    then show ?case using nest_step [of ls n] by simp
  qed
  then show ?thesis by simp
qed

section \<open>Depth\<close>

text \<open>Parents have more blocks, so the walk to the outermost loop ends.\<close>

definition links_up :: "ir_loop list \<Rightarrow> bool" where
  "links_up ls \<longleftrightarrow> (\<forall>i p. i < length ls \<longrightarrow> lp_parent (ls ! i) = Some p \<longrightarrow> p < length ls \<and> inside (ls ! i) (ls ! p))"

definition climb :: "ir_loop list \<Rightarrow> nat option \<times> nat \<Rightarrow> (nat option \<times> nat) option" where
  "climb ls = while_option (\<lambda>s. fst s \<noteq> None) (\<lambda>(p, d). (lp_parent (ls ! the p), d + 1))"

lemma climb_simps: "climb ls (None, d) = Some (None, d)" "climb ls (Some p, d) = climb ls (lp_parent (ls ! p), d + 1)"
  unfolding climb_def by (subst while_option_unfold, simp)+

lemma count_parents_climb: "count_parents ls p = map_option snd (climb ls (p, 1))"
  by (simp only: count_parents_def climb_def)

lemma climb_ends:
  assumes "links_up ls" and "\<And>j. j < length ls \<Longrightarrow> length (lp_blocks (ls ! j)) \<le> n" and "i < length ls"
  shows "\<exists>k. \<forall>d. climb ls (lp_parent (ls ! i), d) = Some (None, d + k)"
  using assms(3)
proof (induction "n - length (lp_blocks (ls ! i))" arbitrary: i rule: less_induct)
  case less
  show ?case
  proof (cases "lp_parent (ls ! i)")
    case None
    then show ?thesis by (intro exI [of _ 0]) (simp add: climb_simps)
  next
    case (Some p)
    then have p: "p < length ls" "inside (ls ! i) (ls ! p)" using assms(1) less.prems unfolding links_up_def by blast+
    then have "n - length (lp_blocks (ls ! p)) < n - length (lp_blocks (ls ! i))"
      using assms(2) [OF p(1)] unfolding inside_def by linarith
    then obtain k where k: "\<And>d. climb ls (lp_parent (ls ! p), d) = Some (None, d + k)" using less.hyps p(1) by blast
    have "climb ls (lp_parent (ls ! i), d) = Some (None, d + Suc k)" for d
      using k [of "Suc d"] by (simp add: Some climb_simps)
    then show ?thesis by blast
  qed
qed

definition ups :: "ir_loop list \<Rightarrow> nat \<Rightarrow> nat" where
  "ups ls i = the (count_parents ls (lp_parent (ls ! i)))"

lemma ups_result:
  assumes "links_up ls" and "i < length ls"
  shows "count_parents ls (lp_parent (ls ! i)) = Some (ups ls i)"
    "ups ls i = (case lp_parent (ls ! i) of None \<Rightarrow> 1 | Some p \<Rightarrow> ups ls p + 1)"
proof -
  have n: "length (lp_blocks (ls ! j)) \<le> sum_list (map (length \<circ> lp_blocks) ls)" if "j < length ls" for j
    using that by (intro member_le_sum_list) auto
  have ends: "\<exists>k. \<forall>d. climb ls (lp_parent (ls ! j), d) = Some (None, d + k)" if "j < length ls" for j
    using climb_ends [OF assms(1) n that] by blast
  then obtain k where k: "\<And>d. climb ls (lp_parent (ls ! i), d) = Some (None, d + k)" using assms(2) by blast
  then show "count_parents ls (lp_parent (ls ! i)) = Some (ups ls i)" by (simp add: count_parents_climb ups_def)
  show "ups ls i = (case lp_parent (ls ! i) of None \<Rightarrow> 1 | Some p \<Rightarrow> ups ls p + 1)"
  proof (cases "lp_parent (ls ! i)")
    case None
    then show ?thesis by (simp add: ups_def count_parents_climb climb_simps)
  next
    case (Some p)
    then have p: "p < length ls" using assms unfolding links_up_def by blast
    then obtain k where k: "\<And>d. climb ls (lp_parent (ls ! p), d) = Some (None, d + k)" using ends by blast
    then show ?thesis using Some by (simp add: ups_def count_parents_climb climb_simps)
  qed
qed

lemma set_depths_result:
  assumes up: "links_up ls" and "set is \<subseteq> {..<length ls}" and "length ms = length ls" and "\<And>p. lp_parent (ms ! p) = lp_parent (ls ! p)"
  shows "\<exists>ns. set_depths is ms = Some ns \<and> length ns = length ls \<and>
    (\<forall>j. ns ! j = (if j \<in> set is then (ms ! j)\<lparr>lp_depth := ups ls j\<rparr> else ms ! j))"
  using assms(2-)
proof (induction "is" arbitrary: ms)
  case (Cons i "is")
  let ?ms = "ms[i := (ms ! i)\<lparr>lp_depth := ups ls i\<rparr>]"
  have i: "i < length ms" using Cons.prems by simp
  have eq: "?ms ! j = (if j = i then (ms ! i)\<lparr>lp_depth := ups ls i\<rparr> else ms ! j)" for j using i by (cases "j = i") simp_all
  have "count_parents ms (lp_parent (ms ! i)) = count_parents ls (lp_parent (ls ! i))"
    using Cons.prems(3) by (simp add: count_parents_def)
  then have "count_parents ms (lp_parent (ms ! i)) = Some (ups ls i)" using ups_result(1) [OF up, of i] i Cons.prems(2) by simp
  then have "set_depths (i # is) ms = set_depths is ?ms" by simp
  moreover obtain ns where "set_depths is ?ms = Some ns" "length ns = length ls"
    "\<And>j. ns ! j = (if j \<in> set is then (?ms ! j)\<lparr>lp_depth := ups ls j\<rparr> else ?ms ! j)"
  proof -
    have "lp_parent (?ms ! p) = lp_parent (ls ! p)" for p using Cons.prems(3) [of p] Cons.prems(3) [of i] unfolding eq by (cases "p = i") simp_all
    then have "\<exists>ns. set_depths is ?ms = Some ns \<and> length ns = length ls \<and>
        (\<forall>j. ns ! j = (if j \<in> set is then (?ms ! j)\<lparr>lp_depth := ups ls j\<rparr> else ?ms ! j))"
      using Cons.IH [of ?ms] Cons.prems(1,2) by simp
    then show thesis using that by blast
  qed
  ultimately show ?case using eq by auto
qed simp

section \<open>The analysis as a whole\<close>

text \<open>What the analysis finds: the natural loops of the back edges, and how they nest.\<close>

definition loop_nest :: "ir_loop list \<Rightarrow> bool" where
  "loop_nest ls \<longleftrightarrow> (\<forall>i < length ls.
     best_of ls i {..<length ls} (lp_parent (ls ! i)) \<and>
     lp_children (ls ! i) = filter (\<lambda>c. lp_parent (ls ! c) = Some i) [0..<length ls] \<and>
     lp_depth (ls ! i) = (case lp_parent (ls ! i) of None \<Rightarrow> 1 | Some p \<Rightarrow> lp_depth (ls ! p) + 1))"

lemma loop_analysis_result:
  assumes "preds_inside f"
  shows "\<exists>ls. ir_loop_analysis_compute f di = Some \<lparr>li_fn = f, li_loops = ls\<rparr> \<and> distinct (map lp_header ls) \<and>
    lp_header ` set ls = snd ` set (back_edges f di) \<and> (\<forall>l \<in> set ls. loop_of f (set (back_edges f di)) l) \<and> loop_nest ls"
proof -
  let ?es = "set (back_edges f di)"
  obtain ls where ls: "add_back_edges f (back_edges f di) [] = Some ls" "loops_of f ?es ls"
    using found_loops [OF assms] by blast
  have D: "distinct (map lp_header ls)" "lp_header ` set ls = snd ` ?es"
    "\<And>l. l \<in> set ls \<Longrightarrow> loop_of f ?es l \<and> lp_parent l = None \<and> lp_children l = []"
    using ls(2) unfolding loops_of_def by blast+
  define ms where "ms = fold nest_loop [0..<length ls] ls"
  have ms: "length ms = length ls" "\<And>i. i < length ls \<Longrightarrow> ms ! i = (ls ! i)\<lparr>lp_parent := best_parent ls i,
        lp_children := filter (\<lambda>c. best_parent ls c = Some i) [0..<length ls]\<rparr>"
    using nest_result [of ls] D(3) unfolding ms_def [symmetric] nested_def by auto
  have ins: "inside (ms ! i) (ms ! j) \<longleftrightarrow> inside (ls ! i) (ls ! j)" if "i < length ls" "j < length ls" for i j
    using ms(2) that by (intro inside_blocks) simp_all
  have up: "links_up ms" unfolding links_up_def
  proof (intro allI impI)
    fix i p assume i: "i < length ms" and "lp_parent (ms ! i) = Some p"
    then have b: "best_parent ls i = Some p" using ms by simp
    then have "p < length ls" using best_parent_Some(1) by blast
    then show "p < length ms \<and> inside (ms ! i) (ms ! p)" using best_parent_Some(2) [OF b] ins i ms(1) by simp
  qed
  obtain ns where ns: "set_depths [0..<length ms] ms = Some ns" "length ns = length ms"
    "\<And>j. ns ! j = (if j \<in> set [0..<length ms] then (ms ! j)\<lparr>lp_depth := ups ms j\<rparr> else ms ! j)"
  proof -
    have "set [0..<length ms] \<subseteq> {..<length ms}" by auto
    then show thesis using set_depths_result [OF up _ refl refl, of "[0..<length ms]"] that by blast
  qed
  have nsj: "ns ! j = (ls ! j)\<lparr>lp_parent := best_parent ls j,
        lp_children := filter (\<lambda>c. best_parent ls c = Some j) [0..<length ls], lp_depth := ups ms j\<rparr>" if "j < length ls" for j
    using ns(3) ms that by simp
  have len: "length ns = length ls" using ns(2) ms(1) by simp
  have hd: "map lp_header ns = map lp_header ls" using len nsj by (intro nth_equalityI) simp_all
  have all: "loop_of f ?es l" if "l \<in> set ns" for l
  proof -
    obtain j where j: "j < length ls" "l = ns ! j" using \<open>l \<in> set ns\<close> len unfolding in_set_conv_nth by auto
    have "loop_of f ?es (ls ! j)" using D(3) nth_mem [OF j(1)] by blast
    then show ?thesis unfolding j(2) nsj [OF j(1)] by (rule loop_of_cong) simp_all
  qed
  have nest: "loop_nest ns" unfolding loop_nest_def len
  proof (intro allI impI conjI)
    fix i assume i: "i < length ls"
    have "inside (ns ! i) (ns ! j) \<longleftrightarrow> inside (ls ! i) (ls ! j)" if "j < length ls" for j
      using nsj that i by (intro inside_blocks) simp_all
    then show "best_of ns i {..<length ls} (lp_parent (ns ! i))"
      using best_parent_best [of ls i] nsj i by (auto simp: best_of_def split: option.splits)
    show "lp_children (ns ! i) = filter (\<lambda>c. lp_parent (ns ! c) = Some i) [0..<length ls]"
      using nsj i by (auto intro: filter_cong)
    show "lp_depth (ns ! i) = (case lp_parent (ns ! i) of None \<Rightarrow> 1 | Some p \<Rightarrow> lp_depth (ns ! p) + 1)"
      using ups_result(2) [OF up, of i] nsj i ms best_parent_Some(1) [of ls i] by (auto split: option.splits)
  qed
  have "ir_loop_analysis_compute f di = Some \<lparr>li_fn = f, li_loops = ns\<rparr>"
    using ls(1) ns(1) ms(1) by (simp add: ir_loop_analysis_compute_def ms_def)
  moreover have "lp_header ` set ns = snd ` ?es" using hd D(2) by (metis list.set_map)
  ultimately show ?thesis using hd D(1) all nest by auto
qed

section \<open>Loops and dominance\<close>

text \<open>The blocks of a loop by their positions, and what the analysis knows of a loop.\<close>

abbreviation at :: "ir_function \<Rightarrow> nat \<Rightarrow> nat" where
  "at f i \<equiv> fn_order f ! i"

definition analysed :: "ir_function \<Rightarrow> dom_info \<Rightarrow> bool" where
  "analysed f di \<longleftrightarrow> cfg_ok f \<and> preds_inside f \<and> dominance_of f di"

definition latch_positions :: "ir_function \<Rightarrow> dom_info \<Rightarrow> nat \<Rightarrow> nat set" where
  "latch_positions f di h = {i. flow_edge f i h \<and> (h = i \<or> doms f h i)}"

lemma position: "b \<in> set (fn_order f) \<Longrightarrow> \<exists>i < length (fn_order f). b = at f i"
  by (auto simp: in_set_conv_nth)

lemma edge_positions:
  assumes "cfg_ok f" "i < length (fn_order f)" "j < length (fn_order f)"
  shows "flow_edge f i j \<longleftrightarrow> block_edge f (at f i) (at f j)" "flow_edge f i j \<longleftrightarrow> at f j \<in> set (bb_succs (block_at f (at f i)))"
  using assms flow_edge_pred [OF assms] by (simp_all add: cfg_ok_def flow_edge_def succ_indices_def pred_indices_def set_map_filter_index)

lemma latch_at:
  assumes a: "analysed f di" and "i < length (fn_order f)" "h < length (fn_order f)"
  shows "(at f i, at f h) \<in> set (back_edges f di) \<longleftrightarrow> i \<in> latch_positions f di h"
proof -
  have "cfg_ok f" "dominance_of f di" using a by (simp_all add: analysed_def)
  then show ?thesis using assms(2,3) edge_positions(2) ir_dominates_iff
    by (simp add: back_edges_set latch_positions_def)
qed

lemma loop_positions:
  assumes a: "analysed f di" and l: "loop_of f (set (back_edges f di)) l" and h: "lp_header l = at f h" "h < length (fn_order f)"
    and i: "i < length (fn_order f)"
  shows "at f i \<in> set (lp_blocks l) \<longleftrightarrow> natural_loop (flow_edge f) h (latch_positions f di h) i"
proof -
  have ok: "cfg_ok f" and ins: "preds_inside f" using a by (simp_all add: analysed_def)
  have d: "distinct (fn_order f)" using ok by (simp add: cfg_ok_def)
  let ?L = "{b. (b, at f h) \<in> set (back_edges f di)}"
  have B: "at f i \<in> set (lp_blocks l) \<longleftrightarrow> natural_loop (block_edge f) (at f h) ?L (at f i)"
    using l unfolding loop_of_def h(1) by blast
  have "natural_loop (flow_edge f) h (latch_positions f di h) j"
    if "natural_loop (block_edge f) (at f h) ?L b" "b = at f j" "j < length (fn_order f)" for b j
    using that
  proof (induction arbitrary: j rule: natural_loop.induct)
    case header
    then have "j = h" using d h(2) by (simp add: nth_eq_iff_index_eq)
    then show ?case by (simp add: natural_loop.header)
  next
    case (latch b)
    then show ?case using latch_at [OF a] h(2) by (auto intro: natural_loop.latch)
  next
    case (pred b c)
    have "b \<in> set (lp_blocks l)" using pred.hyps(1) l unfolding loop_of_def h(1) by blast
    then obtain k where k: "k < length (fn_order f)" "b = at f k" using l position unfolding loop_of_def by blast
    have "natural_loop (flow_edge f) h (latch_positions f di h) k" using pred.IH k by blast
    moreover have "k \<noteq> h" using pred.hyps(2) k(2) by auto
    moreover have "flow_edge f j k" using pred.hyps(3) pred.prems k edge_positions(1) [OF ok] by simp
    ultimately show ?case by (rule natural_loop.pred)
  qed
  moreover have "j < length (fn_order f) \<and> natural_loop (block_edge f) (at f h) ?L (at f j)"
    if "natural_loop (flow_edge f) h (latch_positions f di h) j" for j
    using that
  proof (induction rule: natural_loop.induct)
    case header
    then show ?case by (simp add: natural_loop.header h(2))
  next
    case (latch j)
    then have "j < length (fn_order f)" using flow_edge_range by (auto simp: latch_positions_def)
    then show ?case using latch latch_at [OF a] h(2) by (auto intro: natural_loop.latch)
  next
    case (pred k j)
    then have j: "j < length (fn_order f)" "k < length (fn_order f)" using flow_edge_range by blast+
    moreover have "at f k \<noteq> at f h" using pred.hyps(2) d j h(2) by (simp add: nth_eq_iff_index_eq)
    ultimately show ?case using pred edge_positions(1) [OF ok j] by (blast intro: natural_loop.pred)
  qed
  ultimately show ?thesis using B i by blast
qed

text \<open>A loop with a reachable block has a reachable header, which dominates the reachable blocks.\<close>

lemma reachable_header:
  assumes "natural_loop (flow_edge f) h (latch_positions f di h) i" and "reach_from_entry f i"
  shows "reach_from_entry f h"
proof (rule ccontr)
  assume h: "\<not> reach_from_entry f h"
  have "latch_positions f di h \<subseteq> {h}" using h dominator_reachable by (fastforce simp: latch_positions_def)
  then have "i \<in> {h}" using assms(1) by (intro natural_loop_least [of "flow_edge f" h "latch_positions f di h" i "{h}"]) auto
  then show False using h assms(2) by simp
qed

lemma latches_dominated:
  assumes "reach_from_entry f h" and "i \<in> latch_positions f di h"
  shows "doms f h i \<and> flow_edge f i h"
  using assms by (auto simp: latch_positions_def intro: dominates_refl)

definition loop_set :: "ir_function \<Rightarrow> dom_info \<Rightarrow> nat \<Rightarrow> nat set" where
  "loop_set f di h = {i. natural_loop (flow_edge f) h (latch_positions f di h) i}"

lemma loop_sets_nest:
  assumes "i \<in> loop_set f di h" "i \<in> loop_set f di g" "reach_from_entry f i"
  shows "loop_set f di h \<subseteq> loop_set f di g \<or> loop_set f di g \<subseteq> loop_set f di h"
proof (cases "h = g")
  case False
  have r: "reach_from_entry f h" "reach_from_entry f g" using reachable_header assms unfolding loop_set_def by blast+
  have "(natural_loop (flow_edge f) h (latch_positions f di h) g \<and> (\<forall>x. natural_loop (flow_edge f) g (latch_positions f di g) x \<longrightarrow> natural_loop (flow_edge f) h (latch_positions f di h) x)) \<or>
    (natural_loop (flow_edge f) g (latch_positions f di g) h \<and> (\<forall>x. natural_loop (flow_edge f) h (latch_positions f di h) x \<longrightarrow> natural_loop (flow_edge f) g (latch_positions f di g) x))"
    using latches_dominated [OF r(1)] latches_dominated [OF r(2)] assms False r unfolding loop_set_def
    by (intro natural_loops_nest [of _ _ "entry_index f"]) auto
  then show ?thesis unfolding loop_set_def by blast
qed simp

lemma loop_set_header: "h \<in> loop_set f di h"
  by (simp add: loop_set_def natural_loop.header)

lemma loop_set_dominated:
  assumes "i \<in> loop_set f di h" "reach_from_entry f i"
  shows "doms f h i"
  using assms natural_loop_dominates [of "flow_edge f" h _ i "entry_index f"] reachable_header latches_dominated
  unfolding loop_set_def by (metis mem_Collect_eq)

lemma loop_set_range:
  assumes "h < length (fn_order f)"
  shows "loop_set f di h \<subseteq> {..<length (fn_order f)}"
proof
  fix i assume "i \<in> loop_set f di h"
  then have "natural_loop (flow_edge f) h (latch_positions f di h) i" by (simp add: loop_set_def)
  then show "i \<in> {..<length (fn_order f)}"
    using assms flow_edge_range by (induction rule: natural_loop.induct) (auto simp: latch_positions_def)
qed

lemma loop_set_inject:
  assumes "loop_set f di h = loop_set f di g" "reach_from_entry f h"
  shows "h = g"
proof -
  have "h \<in> loop_set f di g" "g \<in> loop_set f di h" using assms(1) loop_set_header by blast+
  moreover have "reach_from_entry f g" using reachable_header calculation(1) assms(2) unfolding loop_set_def by blast
  ultimately show ?thesis using loop_set_dominated assms(2) dominates_antisym by metis
qed

section \<open>Depth and the innermost loop\<close>

text \<open>The loops that the analysis returns, with the position of each header.\<close>

definition computed_loops :: "ir_function \<Rightarrow> dom_info \<Rightarrow> ir_loop list \<Rightarrow> bool" where
  "computed_loops f di ls \<longleftrightarrow> analysed f di \<and> distinct (map lp_header ls) \<and> loop_nest ls \<and>
     (\<forall>l \<in> set ls. loop_of f (set (back_edges f di)) l \<and> lp_header l \<in> set (fn_order f))"

definition header_at :: "ir_function \<Rightarrow> ir_loop \<Rightarrow> nat" where
  "header_at f l = (THE h. h < length (fn_order f) \<and> at f h = lp_header l)"

lemma header_at:
  assumes "computed_loops f di ls" and "l \<in> set ls"
  shows "header_at f l < length (fn_order f)" "at f (header_at f l) = lp_header l"
proof -
  have d: "distinct (fn_order f)" using assms(1) by (simp add: computed_loops_def analysed_def cfg_ok_def)
  have "lp_header l \<in> set (fn_order f)" using assms unfolding computed_loops_def by blast
  then obtain h where h: "h < length (fn_order f)" "lp_header l = at f h" using position by blast
  have "header_at f l = h" unfolding header_at_def
    using h d by (intro the_equality) (auto simp: nth_eq_iff_index_eq)
  then show "header_at f l < length (fn_order f)" "at f (header_at f l) = lp_header l" using h by auto
qed

lemma blocks_at:
  assumes c: "computed_loops f di ls" and l: "l \<in> set ls"
  shows "set (lp_blocks l) = at f ` loop_set f di (header_at f l)"
proof -
  have a: "analysed f di" and lo: "loop_of f (set (back_edges f di)) l" using c l unfolding computed_loops_def by blast+
  note h = header_at [OF c l]
  have lp: "at f i \<in> set (lp_blocks l) \<longleftrightarrow> i \<in> loop_set f di (header_at f l)" if "i < length (fn_order f)" for i
    using loop_positions [OF a lo _ h(1) that] h(2) by (simp add: loop_set_def)
  then show ?thesis using lo position loop_set_range [OF h(1), of di] unfolding loop_of_def
    by (auto simp: subset_iff image_iff) blast+
qed

lemma in_blocks:
  assumes "computed_loops f di ls" "l \<in> set ls" "i < length (fn_order f)"
  shows "at f i \<in> set (lp_blocks l) \<longleftrightarrow> i \<in> loop_set f di (header_at f l)"
  using assms loop_positions [of f di l "header_at f l" i] header_at [OF assms(1,2)]
  unfolding computed_loops_def loop_set_def by auto

text \<open>Loops with a reachable block in common are nested, and equal only if they are the same.\<close>

lemma loops_nested:
  assumes c: "computed_loops f di ls" "l \<in> set ls" "m \<in> set ls"
    and i: "i < length (fn_order f)" "reach_from_entry f i" "at f i \<in> set (lp_blocks l)" "at f i \<in> set (lp_blocks m)"
  shows "set (lp_blocks l) \<subseteq> set (lp_blocks m) \<or> set (lp_blocks m) \<subseteq> set (lp_blocks l)"
  using loop_sets_nest [of i f di "header_at f l" "header_at f m"] i
  unfolding blocks_at [OF c(1,2)] blocks_at [OF c(1,3)] in_blocks [OF c(1,2) i(1), unfolded blocks_at [OF c(1,2)]]
    in_blocks [OF c(1,3) i(1), unfolded blocks_at [OF c(1,3)]]
  by (metis image_mono)

lemma loops_equal:
  assumes c: "computed_loops f di ls" "l \<in> set ls" "m \<in> set ls" and "set (lp_blocks l) = set (lp_blocks m)"
    and "reach_from_entry f (header_at f l)"
  shows "l = m"
proof -
  have inj: "inj_on (at f) {..<length (fn_order f)}"
    using c(1) by (simp add: computed_loops_def analysed_def cfg_ok_def inj_on_nth)
  have "loop_set f di (header_at f l) = loop_set f di (header_at f m)"
    using assms(4) inj loop_set_range header_at(1) c unfolding blocks_at [OF c(1,2)] blocks_at [OF c(1,3)]
    by (metis inj_on_image_eq_iff)
  then have "header_at f l = header_at f m" using loop_set_inject assms(5) by metis
  then have "lp_header l = lp_header m" using header_at(2) c by metis
  then show ?thesis using c by (simp add: computed_loops_def distinct_map inj_on_def)
qed

lemma header_block: "computed_loops f di ls \<Longrightarrow> l \<in> set ls \<Longrightarrow> at f (header_at f l) \<in> set (lp_blocks l)"
  using in_blocks header_at(1) loop_set_header by metis

lemma containing_header:
  assumes "computed_loops f di ls" "l \<in> set ls" "i < length (fn_order f)" "reach_from_entry f i" "at f i \<in> set (lp_blocks l)"
  shows "reach_from_entry f (header_at f l)"
  using assms in_blocks reachable_header unfolding loop_set_def by blast

lemma inside_iff: "distinct (lp_blocks l) \<Longrightarrow> distinct (lp_blocks m) \<Longrightarrow> inside l m \<longleftrightarrow> set (lp_blocks l) \<subset> set (lp_blocks m)"
proof -
  assume d: "distinct (lp_blocks l)" "distinct (lp_blocks m)"
  have "inside l m \<longleftrightarrow> card (set (lp_blocks l)) < card (set (lp_blocks m)) \<and> set (lp_blocks l) \<subseteq> set (lp_blocks m)"
    by (simp add: inside_def ir_loop_contains_def distinct_card d list_all_iff subset_code(1))
  then show ?thesis using psubset_card_mono [of "set (lp_blocks m)" "set (lp_blocks l)"] by auto
qed

definition enclosing :: "ir_loop list \<Rightarrow> nat \<Rightarrow> nat set" where
  "enclosing ls k = {j. j < length ls \<and> set (lp_blocks (ls ! k)) \<subseteq> set (lp_blocks (ls ! j))}"

lemma finite_enclosing [simp]: "finite (enclosing ls k)"
  by (simp add: enclosing_def)

lemma depth_counts:
  assumes c: "computed_loops f di ls" and "k < length ls" and "reach_from_entry f (header_at f (ls ! k))"
  shows "lp_depth (ls ! k) = card (enclosing ls k)"
  using assms(2,3)
proof (induction "length (fn_order f) - length (lp_blocks (ls ! k))" arbitrary: k rule: less_induct)
  case less
  let ?h = "header_at f (ls ! k)"
  have mem: "ls ! j \<in> set ls" if "j < length ls" for j using that by simp
  have d: "distinct (lp_blocks (ls ! j))" "set (lp_blocks (ls ! j)) \<subseteq> set (fn_order f)" if "j < length ls" for j
    using c mem [OF that] unfolding computed_loops_def loop_of_def by blast+
  have dl: "distinct ls" using c by (simp add: computed_loops_def distinct_map)
  have nest: "best_of ls k {..<length ls} (lp_parent (ls ! k))"
    "lp_depth (ls ! k) = (case lp_parent (ls ! k) of None \<Rightarrow> 1 | Some p \<Rightarrow> lp_depth (ls ! p) + 1)"
    using c less.prems(1) unfolding computed_loops_def loop_nest_def by blast+
  have h: "?h < length (fn_order f)" "at f ?h \<in> set (lp_blocks (ls ! k))"
    using header_at(1) header_block c mem less.prems(1) by blast+
  have strict: "inside (ls ! k) (ls ! j)" if "j \<in> enclosing ls k" "j \<noteq> k" for j
  proof -
    have j: "j < length ls" "set (lp_blocks (ls ! k)) \<subseteq> set (lp_blocks (ls ! j))" using that(1) by (simp_all add: enclosing_def)
    have "set (lp_blocks (ls ! k)) \<noteq> set (lp_blocks (ls ! j))"
      using loops_equal [OF c mem mem _ less.prems(2)] less.prems(1) j(1) that(2) dl by (metis nth_eq_iff_index_eq)
    then show ?thesis using inside_iff [OF d(1) d(1)] less.prems(1) j by blast
  qed
  have kk: "k \<in> enclosing ls k" using less.prems(1) by (simp add: enclosing_def)
  show ?case
  proof (cases "lp_parent (ls ! k)")
    case None
    then have "\<not> inside (ls ! k) (ls ! j)" if "j < length ls" for j using nest(1) that by (simp add: best_of_def)
    then have "enclosing ls k = {k}" using strict kk by (auto simp: enclosing_def)
    then show ?thesis using nest(2) None by simp
  next
    case (Some p)
    then have p: "p < length ls" "inside (ls ! k) (ls ! p)"
      "\<And>j. j < length ls \<Longrightarrow> inside (ls ! k) (ls ! j) \<Longrightarrow> length (lp_blocks (ls ! p)) \<le> length (lp_blocks (ls ! j))"
      using nest(1) by (simp_all add: best_of_def)
    have kp: "set (lp_blocks (ls ! k)) \<subset> set (lp_blocks (ls ! p))" using p(1,2) inside_iff d(1) less.prems(1) by blast
    have rp: "reach_from_entry f (header_at f (ls ! p))"
      using containing_header [OF c mem [OF p(1)] h(1) less.prems(2)] h(2) kp by blast
    have "length (lp_blocks (ls ! p)) \<le> length (fn_order f)"
      using d [OF p(1)] by (metis card_mono distinct_card card_length finite_set le_trans)
    then have "lp_depth (ls ! p) = card (enclosing ls p)"
      using less.hyps [OF _ p(1) rp] p(2) unfolding inside_def by linarith
    moreover have "enclosing ls k = insert k (enclosing ls p)"
    proof (intro equalityI subsetI)
      fix j assume j: "j \<in> enclosing ls k"
      show "j \<in> insert k (enclosing ls p)"
      proof (cases "j = k")
        case False
        have jl: "j < length ls" "set (lp_blocks (ls ! k)) \<subseteq> set (lp_blocks (ls ! j))" using j by (simp_all add: enclosing_def)
        have "length (lp_blocks (ls ! p)) \<le> length (lp_blocks (ls ! j))" using p(3) [OF jl(1) strict [OF j False]] .
        then have "\<not> set (lp_blocks (ls ! j)) \<subset> set (lp_blocks (ls ! p))"
          using d(1) [OF p(1)] d(1) [OF jl(1)] psubset_card_mono [of "set (lp_blocks (ls ! p))"] by (metis List.finite_set distinct_card leD)
        moreover have "set (lp_blocks (ls ! p)) \<subseteq> set (lp_blocks (ls ! j)) \<or> set (lp_blocks (ls ! j)) \<subseteq> set (lp_blocks (ls ! p))"
          using loops_nested [OF c mem [OF p(1)] mem [OF jl(1)] h(1) less.prems(2)] h(2) kp jl(2) by blast
        ultimately show ?thesis using jl(1) by (auto simp: enclosing_def)
      qed simp
    next
      fix j assume "j \<in> insert k (enclosing ls p)"
      then show "j \<in> enclosing ls k" using kk kp by (auto simp: enclosing_def)
    qed
    moreover have "k \<notin> enclosing ls p" using kp by (auto simp: enclosing_def)
    ultimately show ?thesis using nest(2) Some by simp
  qed
qed

text \<open>The innermost loop of a block.\<close>

lemma fold_deeper:
  "(case fold (deeper_loop b) ls best of
      None \<Rightarrow> best = None \<and> (\<forall>l \<in> set ls. \<not> ir_loop_contains l b)
    | Some m \<Rightarrow> (best = Some m \<or> (m \<in> set ls \<and> ir_loop_contains m b)) \<and>
        (\<forall>l \<in> set ls. ir_loop_contains l b \<longrightarrow> lp_depth l \<le> lp_depth m) \<and> (\<forall>l. best = Some l \<longrightarrow> lp_depth l \<le> lp_depth m))"
proof (induction ls arbitrary: best)
  case (Cons l ls)
  show ?case using Cons.IH [of "deeper_loop b l best"]
    by (auto simp: deeper_loop_def split: option.splits if_splits)
qed (simp split: option.splits)

lemma loop_for_block_deepest:
  assumes "ir_loop_for_block info b = Some m"
  shows "m \<in> set (li_loops info)" "ir_loop_contains m b"
    "\<And>l. l \<in> set (li_loops info) \<Longrightarrow> ir_loop_contains l b \<Longrightarrow> lp_depth l \<le> lp_depth m"
  using fold_deeper [where b = b and ls = "li_loops info" and best = None] assms by (auto simp: ir_loop_for_block_def)

lemma loop_for_block_None: "ir_loop_for_block info b = None \<Longrightarrow> l \<in> set (li_loops info) \<Longrightarrow> \<not> ir_loop_contains l b"
  using fold_deeper [where b = b and ls = "li_loops info" and best = None] by (simp add: ir_loop_for_block_def)

text \<open>The loop reported for a block is the smallest one around it.\<close>

lemma innermost_smallest:
  assumes c: "computed_loops f di (li_loops info)" and i: "i < length (fn_order f)" "reach_from_entry f i"
    and m: "ir_loop_for_block info (at f i) = Some m" and l: "l \<in> set (li_loops info)" "ir_loop_contains l (at f i)"
  shows "set (lp_blocks m) \<subseteq> set (lp_blocks l)"
proof (rule ccontr)
  let ?ls = "li_loops info"
  assume no: "\<not> ?thesis"
  note md = loop_for_block_deepest [OF m]
  have at: "at f i \<in> set (lp_blocks m)" "at f i \<in> set (lp_blocks l)" using md(2) l(2) by (simp_all add: ir_loop_contains_def)
  have sub: "set (lp_blocks l) \<subset> set (lp_blocks m)" using loops_nested [OF c md(1) l(1) i at] no by blast
  obtain k j where k: "k < length ?ls" "m = ?ls ! k" and j: "j < length ?ls" "l = ?ls ! j"
    using md(1) l(1) unfolding in_set_conv_nth by auto
  have "insert j (enclosing ?ls k) \<subseteq> enclosing ?ls j" using sub j k by (auto simp: enclosing_def)
  then have "card (insert j (enclosing ?ls k)) \<le> card (enclosing ?ls j)" by (intro card_mono) simp_all
  moreover have "j \<notin> enclosing ?ls k" using sub j k by (auto simp: enclosing_def)
  moreover have "lp_depth l = card (enclosing ?ls j)" "lp_depth m = card (enclosing ?ls k)"
    using depth_counts [OF c] containing_header [OF c] i j k l(1) md(1) at by metis+
  ultimately show False using md(3) [OF l] by simp
qed

lemma block_depth:
  assumes c: "computed_loops f di (li_loops info)" and i: "i < length (fn_order f)" "reach_from_entry f i"
  shows "ir_loop_depth info (at f i) = card {l \<in> set (li_loops info). ir_loop_contains l (at f i)}"
proof (cases "ir_loop_for_block info (at f i)")
  case None
  then have "{l \<in> set (li_loops info). ir_loop_contains l (at f i)} = {}" using loop_for_block_None by blast
  then show ?thesis using None by (simp add: ir_loop_depth_def)
next
  case (Some m)
  let ?ls = "li_loops info"
  have dl: "distinct ?ls" using c by (simp add: computed_loops_def distinct_map)
  note m = loop_for_block_deepest [OF Some]
  obtain k where k: "k < length ?ls" "m = ?ls ! k" using m(1) by (auto simp: in_set_conv_nth)
  have contain: "at f i \<in> set (lp_blocks m)" using m(2) by (simp add: ir_loop_contains_def)
  have "enclosing ?ls k = {j. j < length ?ls \<and> at f i \<in> set (lp_blocks (?ls ! j))}"
  proof (intro equalityI subsetI)
    fix j assume j: "j \<in> {j. j < length ?ls \<and> at f i \<in> set (lp_blocks (?ls ! j))}"
    then have jl: "j < length ?ls" "at f i \<in> set (lp_blocks (?ls ! j))" by simp_all
    then show "j \<in> enclosing ?ls k"
      using innermost_smallest [OF c i Some nth_mem [OF jl(1)]] k(2) by (simp add: enclosing_def ir_loop_contains_def)
  qed (use contain k in \<open>auto simp: enclosing_def\<close>)
  then have "card (enclosing ?ls k) = card ((!) ?ls ` {j. j < length ?ls \<and> at f i \<in> set (lp_blocks (?ls ! j))})"
    using dl by (simp add: card_image inj_on_def nth_eq_iff_index_eq)
  also have "(!) ?ls ` {j. j < length ?ls \<and> at f i \<in> set (lp_blocks (?ls ! j))} = {l \<in> set ?ls. ir_loop_contains l (at f i)}"
    by (auto simp: ir_loop_contains_def in_set_conv_nth)
  finally show ?thesis
    using Some depth_counts [OF c k(1)] containing_header [OF c m(1) i contain] k(2) by (simp add: ir_loop_depth_def)
qed

section \<open>Properties\<close>

lemma computed:
  assumes "analysed f di"
  shows "\<exists>ls. ir_loop_analysis_compute f di = Some \<lparr>li_fn = f, li_loops = ls\<rparr> \<and> computed_loops f di ls \<and>
    lp_header ` set ls = snd ` set (back_edges f di)"
proof -
  have inside: "preds_inside f" using assms by (simp add: analysed_def)
  obtain ls where ls: "ir_loop_analysis_compute f di = Some \<lparr>li_fn = f, li_loops = ls\<rparr>" "distinct (map lp_header ls)"
    "lp_header ` set ls = snd ` set (back_edges f di)" "\<And>l. l \<in> set ls \<Longrightarrow> loop_of f (set (back_edges f di)) l" "loop_nest ls"
    using loop_analysis_result [OF inside, of di] by blast
  have "set (back_edges f di) \<subseteq> set (fn_order f) \<times> set (fn_order f)"
    using inside unfolding back_edges_set preds_inside_def by blast
  then have "lp_header l \<in> set (fn_order f)" if "l \<in> set ls" for l using that ls(3) by force
  then show ?thesis using assms ls unfolding computed_loops_def by blast
qed

definition loop_sample :: ir_function where
  "loop_sample = (ir_new_function ''f'' None)\<lparr>
     fn_heap := [\<lparr>bb_name = ''a'', bb_id = 0, bb_insts = [], bb_preds = [], bb_succs = [1]\<rparr>,
       \<lparr>bb_name = ''b'', bb_id = 1, bb_insts = [], bb_preds = [0, 1], bb_succs = [1]\<rparr>],
     fn_order := [0, 1], fn_entry := Some 0\<rparr>"

lemma loop_sample_ok: "cfg_ok loop_sample" "preds_inside loop_sample" "fn_order loop_sample = [0, 1]"
  by (auto simp: loop_sample_def cfg_ok_def preds_inside_def block_at_def)

text \<open>C20. The loop analysis ends. The headers of its loops are the blocks with an edge from a block that they dominate,
  each of them once, the latches are those blocks, and the blocks of a loop are exactly those of the natural loop:
  the header and what reaches a latch without passing through it.\<close>

theorem loops_are_natural:
  assumes "cfg_ok f" and "preds_inside f" and "ir_dominance_compute f = Some (Some di)"
  shows "\<exists>info. ir_loop_analysis_compute f di = Some info \<and> distinct (map lp_header (li_loops info)) \<and>
    lp_header ` set (li_loops info) = {h. \<exists>b \<in> set (fn_order f). h \<in> set (bb_succs (block_at f b)) \<and> ir_dominates di h b} \<and>
    (\<forall>l \<in> set (li_loops info).
       set (lp_latches l) = {b \<in> set (fn_order f). lp_header l \<in> set (bb_succs (block_at f b)) \<and> ir_dominates di (lp_header l) b} \<and>
       (\<forall>b. ir_loop_contains l b \<longleftrightarrow>
          natural_loop (\<lambda>a b. a \<in> set (bb_preds (block_at f b))) (lp_header l) (set (lp_latches l)) b))"
proof -
  have a: "analysed f di" using assms dominance_of_computed by (simp add: analysed_def)
  obtain ls where ls: "ir_loop_analysis_compute f di = Some \<lparr>li_fn = f, li_loops = ls\<rparr>" "computed_loops f di ls"
    "lp_header ` set ls = snd ` set (back_edges f di)" using computed [OF a] by blast
  have l: "set (lp_latches l) = {b. (b, lp_header l) \<in> set (back_edges f di)}"
    "b \<in> set (lp_blocks l) \<longleftrightarrow> natural_loop (block_edge f) (lp_header l) (set (lp_latches l)) b" if "l \<in> set ls" for l b
  proof -
    have "loop_of f (set (back_edges f di)) l" using ls(2) that unfolding computed_loops_def by blast
    note lo = this [unfolded loop_of_def]
    show lat: "set (lp_latches l) = {b. (b, lp_header l) \<in> set (back_edges f di)}" by (rule conjunct1 [OF lo])
    show "b \<in> set (lp_blocks l) \<longleftrightarrow> natural_loop (block_edge f) (lp_header l) (set (lp_latches l)) b"
      unfolding lat using conjunct2 [OF conjunct2 [OF conjunct2 [OF lo]]] by blast
  qed
  have "snd ` set (back_edges f di) = {h. \<exists>b \<in> set (fn_order f). h \<in> set (bb_succs (block_at f b)) \<and> ir_dominates di h b}"
    by (force simp: back_edges_set)
  moreover have "distinct (map lp_header ls)" using ls(2) by (simp add: computed_loops_def)
  moreover have "set (lp_latches l) = {b \<in> set (fn_order f). lp_header l \<in> set (bb_succs (block_at f b)) \<and> ir_dominates di (lp_header l) b}"
    if "l \<in> set ls" for l unfolding l(1) [OF that] by (auto simp: back_edges_set)
  moreover have "ir_loop_contains l b \<longleftrightarrow> natural_loop (block_edge f) (lp_header l) (set (lp_latches l)) b" if "l \<in> set ls" for l b
    using l(2) [OF that] by (simp add: ir_loop_contains_def)
  ultimately show ?thesis using ls(1,3) by (intro exI [of _ "\<lparr>li_fn = f, li_loops = ls\<rparr>"]) simp
qed

theorem loops_are_natural_witness:
  "\<exists>di info. ir_loop_analysis_compute loop_sample di = Some info \<and> distinct (map lp_header (li_loops info)) \<and>
    lp_header ` set (li_loops info) = {1}"
proof -
  obtain di where di: "ir_dominance_compute loop_sample = Some (Some di)" "dominance_of loop_sample di"
    using dominance_compute_result [OF loop_sample_ok(1)] by blast
  have "ir_dominates di (fn_order loop_sample ! 1) (fn_order loop_sample ! 1)"
    using ir_dominates_iff [OF loop_sample_ok(1) di(2), of 1 1] by (simp add: loop_sample_ok(3))
  moreover have "\<not> ir_dominates di (fn_order loop_sample ! 1) (fn_order loop_sample ! 0)"
    using ir_dominates_iff [OF loop_sample_ok(1) di(2), of 1 0] dominator_of_entry [of "flow_edge loop_sample" 0 1]
    by (simp add: loop_sample_ok(3) entry_index_def loop_sample_def get_block_index_def)
  ultimately have "{h. \<exists>b \<in> set (fn_order loop_sample). h \<in> set (bb_succs (block_at loop_sample b)) \<and> ir_dominates di h b} = {1}"
    by (auto simp: loop_sample_ok(3) loop_sample_def block_at_def)
  then show ?thesis using loops_are_natural [OF loop_sample_ok(1,2) di(1)] by auto
qed

text \<open>C21. For a block that the entry reaches: the headers of the loops around it dominate it, of two such loops one contains
  the other, the depth that the analysis reports is the number of these loops, and the loop it
  reports is the innermost one.\<close>

theorem loop_depth_counts_loops:
  assumes "cfg_ok f" and "preds_inside f" and "ir_dominance_compute f = Some (Some di)"
    and "ir_loop_analysis_compute f di = Some info"
    and "i < length (fn_order f)" and "(flow_edge f)\<^sup>*\<^sup>* (entry_index f) i"
  shows "(\<forall>l \<in> set (li_loops info). ir_loop_contains l (fn_order f ! i) \<longrightarrow> ir_dominates di (lp_header l) (fn_order f ! i) \<and>
       (\<forall>m \<in> set (li_loops info). ir_loop_contains m (fn_order f ! i) \<longrightarrow>
          set (lp_blocks l) \<subseteq> set (lp_blocks m) \<or> set (lp_blocks m) \<subseteq> set (lp_blocks l))) \<and>
    ir_loop_depth info (fn_order f ! i) = card {l \<in> set (li_loops info). ir_loop_contains l (fn_order f ! i)} \<and>
    (case ir_loop_for_block info (fn_order f ! i) of
       None \<Rightarrow> \<forall>l \<in> set (li_loops info). \<not> ir_loop_contains l (fn_order f ! i)
     | Some m \<Rightarrow> m \<in> set (li_loops info) \<and> ir_loop_contains m (fn_order f ! i) \<and>
         (\<forall>l \<in> set (li_loops info). ir_loop_contains l (fn_order f ! i) \<longrightarrow> set (lp_blocks m) \<subseteq> set (lp_blocks l)))"
proof -
  have a: "analysed f di" using assms dominance_of_computed by (simp add: analysed_def)
  have c: "computed_loops f di (li_loops info)" using computed [OF a] assms(4) by auto
  have r: "reach_from_entry f i" using assms(6) by (simp add: reachable_rtranclp)
  have dom: "ir_dominates di (lp_header l) (fn_order f ! i)" if l: "l \<in> set (li_loops info)" "ir_loop_contains l (fn_order f ! i)" for l
  proof -
    have "i \<in> loop_set f di (header_at f l)" using in_blocks [OF c l(1) assms(5)] l(2) by (simp add: ir_loop_contains_def)
    then have "doms f (header_at f l) i" using loop_set_dominated r by blast
    then show ?thesis using ir_dominates_iff [OF assms(1) _ header_at(1) [OF c l(1)] assms(5)] header_at(2) [OF c l(1)] a
      by (simp add: analysed_def)
  qed
  have nest: "set (lp_blocks l) \<subseteq> set (lp_blocks m) \<or> set (lp_blocks m) \<subseteq> set (lp_blocks l)"
    if "l \<in> set (li_loops info)" "m \<in> set (li_loops info)" "ir_loop_contains l (fn_order f ! i)" "ir_loop_contains m (fn_order f ! i)" for l m
    using loops_nested [OF c that(1,2) assms(5) r] that(3,4) by (simp add: ir_loop_contains_def)
  have inner: "set (lp_blocks m) \<subseteq> set (lp_blocks l)"
    if m: "ir_loop_for_block info (fn_order f ! i) = Some m" and l: "l \<in> set (li_loops info)" "ir_loop_contains l (fn_order f ! i)" for l m
    using innermost_smallest [OF c assms(5) r m l] .
  have "case ir_loop_for_block info (fn_order f ! i) of
      None \<Rightarrow> \<forall>l \<in> set (li_loops info). \<not> ir_loop_contains l (fn_order f ! i)
    | Some m \<Rightarrow> m \<in> set (li_loops info) \<and> ir_loop_contains m (fn_order f ! i) \<and>
        (\<forall>l \<in> set (li_loops info). ir_loop_contains l (fn_order f ! i) \<longrightarrow> set (lp_blocks m) \<subseteq> set (lp_blocks l))"
  proof (cases "ir_loop_for_block info (fn_order f ! i)")
    case None
    then show ?thesis using loop_for_block_None [OF None] by simp
  next
    case (Some m)
    then show ?thesis using loop_for_block_deepest(1,2) [OF Some] inner [OF Some] by simp
  qed
  then show ?thesis using block_depth [OF c assms(5) r] dom nest by (intro conjI ballI impI)
qed

theorem loop_depth_counts_loops_witness:
  "\<exists>di info. ir_loop_analysis_compute loop_sample di = Some info \<and>
    ir_loop_depth info 1 = card {l \<in> set (li_loops info). ir_loop_contains l 1}"
proof -
  obtain di where di: "ir_dominance_compute loop_sample = Some (Some di)" "dominance_of loop_sample di"
    using dominance_compute_result [OF loop_sample_ok(1)] by blast
  have "analysed loop_sample di" using di(2) loop_sample_ok by (simp add: analysed_def)
  then obtain info where info: "ir_loop_analysis_compute loop_sample di = Some info" using computed by blast
  have "flow_edge loop_sample 0 1"
    using edge_positions(2) [OF loop_sample_ok(1), of 0 1] by (simp add: loop_sample_ok(3)) (simp add: loop_sample_def block_at_def)
  then have "(flow_edge loop_sample)\<^sup>*\<^sup>* (entry_index loop_sample) 1"
    by (simp add: entry_index_def loop_sample_def get_block_index_def r_into_rtranclp)
  then show ?thesis using loop_depth_counts_loops [OF loop_sample_ok(1,2) di(1) info, of 1] info by (auto simp: loop_sample_ok(3))
qed

end
