(* ===== verification/Ir_Profile.thy ===== *)
theory Ir_Profile
  imports Cco_Prelude "HOL-Library.Char_ord" "HOL-Library.List_Lexorder" "HOL-Library.Product_Lexorder"
begin

text \<open>
  Execution profiles, \<open>src/ir/ir_profile.c\<close>: the tables of counts, the queries of the optimiser and
  the code generator, and the text format with its writer and reader. Growing the tables is left out.
  The quotient of two counts as a double is a parameter; the file system is the text of the file, or
  the message of the error that opening it gives. The generator of instrumented C is left out.
\<close>

section \<open>Profiles\<close>

record fn_profile =
  pf_name :: string
  pf_count :: u64
  pf_calls :: u64

record block_profile =
  pb_fn :: string
  pb_bb :: string
  pb_count :: u64

record branch_profile =
  pr_fn :: string
  pr_bb :: string
  pr_true :: u64
  pr_false :: u64

record loop_profile =
  pl_fn :: string
  pl_header :: string
  pl_entries :: u64
  pl_iters :: u64
  pl_avg :: u64

record profile =
  prof_version :: string
  prof_functions :: "fn_profile list"
  prof_blocks :: "block_profile list"
  prof_branches :: "branch_profile list"
  prof_loops :: "loop_profile list"
  prof_max_fn :: u64
  prof_max_block :: u64

definition CCO_PROFILE_MAGIC :: string where
  "CCO_PROFILE_MAGIC = ''CCO_PROFILE_V1''"

definition cco_profile_create :: profile where
  "cco_profile_create = \<lparr>prof_version = CCO_PROFILE_MAGIC, prof_functions = [], prof_blocks = [], prof_branches = [],
     prof_loops = [], prof_max_fn = 0, prof_max_block = 0\<rparr>"

text \<open>The first entry that fits is changed, or a new one appended.\<close>

fun upsert :: "('a \<Rightarrow> bool) \<Rightarrow> ('a \<Rightarrow> 'a) \<Rightarrow> 'a \<Rightarrow> 'a list \<Rightarrow> 'a list" where
  "upsert P g new [] = [new]"
| "upsert P g new (x # xs) = (if P x then g x # xs else x # upsert P g new xs)"

definition fn_is :: "string \<Rightarrow> fn_profile \<Rightarrow> bool" where
  "fn_is f x \<longleftrightarrow> pf_name x = f"

definition block_is :: "string \<Rightarrow> string \<Rightarrow> block_profile \<Rightarrow> bool" where
  "block_is f b x \<longleftrightarrow> pb_fn x = f \<and> pb_bb x = b"

definition branch_is :: "string \<Rightarrow> string \<Rightarrow> branch_profile \<Rightarrow> bool" where
  "branch_is f b x \<longleftrightarrow> pr_fn x = f \<and> pr_bb x = b"

definition loop_is :: "string \<Rightarrow> string \<Rightarrow> loop_profile \<Rightarrow> bool" where
  "loop_is f b x \<longleftrightarrow> pl_fn x = f \<and> pl_header x = b"

section \<open>Queries\<close>

definition cco_profile_get_function_count :: "profile \<Rightarrow> string \<Rightarrow> u64" where
  "cco_profile_get_function_count p f = (case List.find (fn_is f) (prof_functions p) of Some x \<Rightarrow> pf_count x | None \<Rightarrow> 0)"

definition cco_profile_get_block_count :: "profile \<Rightarrow> string \<Rightarrow> string \<Rightarrow> u64" where
  "cco_profile_get_block_count p f b = (case List.find (block_is f b) (prof_blocks p) of Some x \<Rightarrow> pb_count x | None \<Rightarrow> 0)"

definition cco_profile_get_branch_counts :: "profile \<Rightarrow> string \<Rightarrow> string \<Rightarrow> (u64 \<times> u64) option" where
  "cco_profile_get_branch_counts p f b = map_option (\<lambda>x. (pr_true x, pr_false x)) (List.find (branch_is f b) (prof_branches p))"

definition cco_profile_is_function_hot :: "profile \<Rightarrow> string \<Rightarrow> bool" where
  "cco_profile_is_function_hot p f \<longleftrightarrow>
     (let c = cco_profile_get_function_count p f in c \<ge> 1000 \<or> (prof_max_fn p > 0 \<and> c * 10 \<ge> prof_max_fn p))"

definition cco_profile_is_block_cold :: "profile \<Rightarrow> string \<Rightarrow> string \<Rightarrow> bool" where
  "cco_profile_is_block_cold p f b \<longleftrightarrow>
     (let c = cco_profile_get_block_count p f b in c = 0 \<or> (prof_max_block p \<ge> 1000 \<and> c * 1000 < prof_max_block p))"

text \<open>The direction a biased branch takes.\<close>

definition cco_profile_is_branch_biased :: "profile \<Rightarrow> string \<Rightarrow> string \<Rightarrow> bool option" where
  "cco_profile_is_branch_biased p f b =
     (case cco_profile_get_branch_counts p f b of
        None \<Rightarrow> None
      | Some (t, u) \<Rightarrow> if t + u < 10 then None else if t \<ge> 4 * u then Some True else if u \<ge> 4 * t then Some False else None)"

section \<open>Adding counts\<close>

definition cco_profile_add_function :: "string \<Rightarrow> u64 \<Rightarrow> profile \<Rightarrow> profile" where
  "cco_profile_add_function f c p =
     p\<lparr>prof_functions := upsert (fn_is f) (\<lambda>x. x\<lparr>pf_count := pf_count x + c\<rparr>) \<lparr>pf_name = f, pf_count = c, pf_calls = 0\<rparr> (prof_functions p),
       prof_max_fn := max (prof_max_fn p) (cco_profile_get_function_count p f + c)\<rparr>"

definition cco_profile_add_block :: "string \<Rightarrow> string \<Rightarrow> u64 \<Rightarrow> profile \<Rightarrow> profile" where
  "cco_profile_add_block f b c p =
     p\<lparr>prof_blocks := upsert (block_is f b) (\<lambda>x. x\<lparr>pb_count := pb_count x + c\<rparr>) \<lparr>pb_fn = f, pb_bb = b, pb_count = c\<rparr> (prof_blocks p),
       prof_max_block := max (prof_max_block p) (cco_profile_get_block_count p f b + c)\<rparr>"

definition cco_profile_add_branch :: "string \<Rightarrow> string \<Rightarrow> u64 \<Rightarrow> u64 \<Rightarrow> profile \<Rightarrow> profile" where
  "cco_profile_add_branch f b t u p =
     p\<lparr>prof_branches := upsert (branch_is f b) (\<lambda>x. x\<lparr>pr_true := pr_true x + t, pr_false := pr_false x + u\<rparr>)
         \<lparr>pr_fn = f, pr_bb = b, pr_true = t, pr_false = u\<rparr> (prof_branches p)\<rparr>"

definition average :: "(u64 \<Rightarrow> u64 \<Rightarrow> u64) \<Rightarrow> u64 \<Rightarrow> u64 \<Rightarrow> u64" where
  "average quot e i = (if e > 0 then quot i e else 0)"

definition cco_profile_add_loop :: "(u64 \<Rightarrow> u64 \<Rightarrow> u64) \<Rightarrow> string \<Rightarrow> string \<Rightarrow> u64 \<Rightarrow> u64 \<Rightarrow> profile \<Rightarrow> profile" where
  "cco_profile_add_loop quot f b e i p =
     p\<lparr>prof_loops := upsert (loop_is f b)
         (\<lambda>x. x\<lparr>pl_entries := pl_entries x + e, pl_iters := pl_iters x + i, pl_avg := average quot (pl_entries x + e) (pl_iters x + i)\<rparr>)
         \<lparr>pl_fn = f, pl_header = b, pl_entries = e, pl_iters = i, pl_avg = average quot e i\<rparr> (prof_loops p)\<rparr>"

section \<open>Writing\<close>

text \<open>Strings are compared by the values of their characters, as \<open>strcmp\<close> does.\<close>

definition sort_profile :: "profile \<Rightarrow> profile" where
  "sort_profile p = p\<lparr>prof_functions := sort_key pf_name (prof_functions p),
     prof_blocks := sort_key (\<lambda>x. (pb_fn x, pb_bb x)) (prof_blocks p),
     prof_branches := sort_key (\<lambda>x. (pr_fn x, pr_bb x)) (prof_branches p),
     prof_loops := sort_key (\<lambda>x. (pl_fn x, pl_header x)) (prof_loops p)\<rparr>"

abbreviation newline :: char where
  "newline \<equiv> CHR 0x0A"

definition count_text :: "u64 \<Rightarrow> string" where
  "count_text c = decimal (unat c)"

definition fn_line :: "fn_profile \<Rightarrow> string" where
  "fn_line x = ''function '' @ pf_name x @ '' '' @ count_text (pf_count x)"

definition block_line :: "block_profile \<Rightarrow> string" where
  "block_line x = ''block '' @ pb_fn x @ ''.'' @ pb_bb x @ '' '' @ count_text (pb_count x)"

definition branch_lines :: "branch_profile \<Rightarrow> string list" where
  "branch_lines x =
     [''branch '' @ pr_fn x @ ''.'' @ pr_bb x @ '' true '' @ count_text (pr_true x),
      ''branch '' @ pr_fn x @ ''.'' @ pr_bb x @ '' false '' @ count_text (pr_false x)]"

definition loop_line :: "loop_profile \<Rightarrow> string" where
  "loop_line x = ''loop '' @ pl_fn x @ ''.'' @ pl_header x @ '' '' @ count_text (pl_entries x) @ '' '' @ count_text (pl_iters x)"

definition blank_after :: "'a list \<Rightarrow> string list" where
  "blank_after xs = (if xs = [] then [] else [[]])"

definition profile_lines :: "profile \<Rightarrow> string list" where
  "profile_lines p = [CCO_PROFILE_MAGIC, []] @ map fn_line (prof_functions p) @ blank_after (prof_functions p)
     @ map block_line (prof_blocks p) @ blank_after (prof_blocks p)
     @ concat (map branch_lines (prof_branches p)) @ blank_after (prof_branches p) @ map loop_line (prof_loops p)"

definition profile_text :: "profile \<Rightarrow> string" where
  "profile_text p = concat (map (\<lambda>l. l @ [newline]) (profile_lines p))"

text \<open>The text of the file, and the profile, whose tables are sorted in place. The first argument is the error of opening the file.\<close>

definition cco_profile_save :: "string option \<Rightarrow> string \<Rightarrow> profile \<Rightarrow> string + string \<times> profile" where
  "cco_profile_save failed filepath p =
     (case failed of
        Some e \<Rightarrow> Inl (snprintf_buf 256 (''could not open profile output file '' @ [CHR 0x27] @ filepath @ [CHR 0x27] @ '': '' @ e))
      | None \<Rightarrow> let p = sort_profile p in Inr (profile_text p, p))"

section \<open>Reading\<close>

definition isspace :: "char \<Rightarrow> bool" where
  "isspace c \<longleftrightarrow> c \<in> {CHR '' '', CHR 0x09, CHR 0x0A, CHR 0x0B, CHR 0x0C, CHR 0x0D}"

text \<open>What successive calls of \<open>fgets\<close> with a buffer of 1024 bytes return.\<close>

fun fgets_lines :: "string \<Rightarrow> string \<Rightarrow> string list" where
  "fgets_lines acc [] = (if acc = [] then [] else [acc])"
| "fgets_lines acc (c # cs) =
     (if c = newline \<or> length acc = 1022 then (acc @ [c]) # fgets_lines [] cs else fgets_lines (acc @ [c]) cs)"

definition up_to_nul :: "string \<Rightarrow> string" where
  "up_to_nul s = takeWhile (\<lambda>c. c \<noteq> CHR 0x00) s"

definition trim_whitespace :: "string \<Rightarrow> string" where
  "trim_whitespace s = rev (dropWhile isspace (rev (dropWhile isspace s)))"

text \<open>The words that \<open>sscanf\<close> reads, each at most as long as its width.\<close>

fun scan_words :: "nat list \<Rightarrow> string \<Rightarrow> string list" where
  "scan_words [] s = []"
| "scan_words (w # ws) s =
     (let s = dropWhile isspace s; t = takeWhile (\<lambda>c. \<not> isspace c) (take w s)
      in if s = [] then [] else t # scan_words ws (drop (length t) s))"

definition word_of :: "string list \<Rightarrow> nat \<Rightarrow> string" where
  "word_of ts k = (if k < length ts then ts ! k else [])"

definition is_decimal :: "char \<Rightarrow> bool" where
  "is_decimal c \<longleftrightarrow> 48 \<le> (of_char c :: nat) \<and> (of_char c :: nat) \<le> 57"

text \<open>The value, whether all of the string was read, and whether the value was out of range.\<close>

definition strtoull :: "string \<Rightarrow> u64 \<times> bool \<times> bool" where
  "strtoull s =
     (let t = dropWhile isspace s; neg = (t \<noteq> [] \<and> hd t = CHR ''-''); signed = (neg \<or> (t \<noteq> [] \<and> hd t = CHR ''+''));
          u = (if signed then tl t else t); ds = takeWhile is_decimal u; n = undecimal ds
      in if ds = [] then (0, s = [], False)
         else if 2 ^ 64 \<le> int n then (- 1, length ds = length u, True)
         else (if neg then - of_nat n else of_nat n, length ds = length u, False))"

text \<open>The part before the first dot and the part after it, or a default.\<close>

definition split_dot :: "string \<Rightarrow> string \<Rightarrow> string \<times> string" where
  "split_dot s d =
     (if CHR ''.'' \<in> set s then (takeWhile (\<lambda>c. c \<noteq> CHR ''.'') s, tl (dropWhile (\<lambda>c. c \<noteq> CHR ''.'') s)) else (s, d))"

definition quoted_at :: "string \<Rightarrow> string \<Rightarrow> nat \<Rightarrow> string" where
  "quoted_at what s n = snprintf_buf 512 (what @ '' '' @ [CHR 0x27] @ s @ [CHR 0x27] @ '' at line '' @ decimal n)"

definition malformed :: "string \<Rightarrow> nat \<Rightarrow> string \<Rightarrow> string" where
  "malformed what n line = snprintf_buf 512 (''malformed '' @ what @ '' record at line '' @ decimal n @ '': '' @ [CHR 0x27] @ line @ [CHR 0x27])"

definition load_function :: "nat \<Rightarrow> string \<Rightarrow> string list \<Rightarrow> profile \<Rightarrow> string + profile" where
  "load_function n line ts p =
     (if length ts < 3 then Inl (malformed ''function'' n line)
      else case strtoull (word_of ts 2) of (c, all, over) \<Rightarrow>
        if over \<or> \<not> all then Inl (quoted_at ''invalid integer count'' (word_of ts 2) n)
        else Inr (cco_profile_add_function (word_of ts 1) c p))"

definition load_block :: "nat \<Rightarrow> string \<Rightarrow> string list \<Rightarrow> profile \<Rightarrow> string + profile" where
  "load_block n line ts p =
     (if length ts < 3 then Inl (malformed ''block'' n line)
      else case (if length ts = 3 then (split_dot (word_of ts 1) ''entry'', word_of ts 2) else ((word_of ts 1, word_of ts 2), word_of ts 3)) of
        ((f, b), num) \<Rightarrow>
          (case strtoull num of (c, all, _) \<Rightarrow>
             if \<not> all then Inl (quoted_at ''invalid block count'' num n) else Inr (cco_profile_add_block f b c p)))"

definition load_branch :: "nat \<Rightarrow> string \<Rightarrow> string list \<Rightarrow> profile \<Rightarrow> string + profile" where
  "load_branch n line ts p =
     (if length ts < 4 then Inl (malformed ''branch'' n line)
      else case split_dot (word_of ts 1) ''entry'' of (f, b) \<Rightarrow>
        (case strtoull (word_of ts 3) of (c, all, _) \<Rightarrow>
           if \<not> all then Inl (quoted_at ''invalid branch count'' (word_of ts 3) n)
           else if word_of ts 2 = ''true'' \<or> word_of ts 2 = ''1'' then Inr (cco_profile_add_branch f b c 0 p)
           else Inr (cco_profile_add_branch f b 0 c p)))"

definition load_loop :: "(u64 \<Rightarrow> u64 \<Rightarrow> u64) \<Rightarrow> string list \<Rightarrow> profile \<Rightarrow> profile" where
  "load_loop quot ts p =
     (if length ts < 4 then p
      else case split_dot (word_of ts 1) ''loop'' of (f, b) \<Rightarrow>
        cco_profile_add_loop quot f b (fst (strtoull (word_of ts 2))) (fst (strtoull (word_of ts 3))) p)"

definition load_record :: "(u64 \<Rightarrow> u64 \<Rightarrow> u64) \<Rightarrow> nat \<Rightarrow> string \<Rightarrow> profile \<Rightarrow> string + profile" where
  "load_record quot n line p =
     (let ts = scan_words [63, 255, 255, 255] line; tag = word_of ts 0
      in if tag = ''function'' then load_function n line ts p
         else if tag = ''block'' then load_block n line ts p
         else if tag = ''branch'' then load_branch n line ts p
         else if tag = ''loop'' then Inr (load_loop quot ts p)
         else Inl (quoted_at ''unknown profile directive'' tag n))"

fun load_lines :: "(u64 \<Rightarrow> u64 \<Rightarrow> u64) \<Rightarrow> nat \<Rightarrow> bool \<Rightarrow> profile \<Rightarrow> string list \<Rightarrow> string + profile" where
  "load_lines quot n header p [] = (if header then Inr p else Inl ''empty profile file or missing header'')"
| "load_lines quot n header p (l # ls) =
     (let line = trim_whitespace (up_to_nul l)
      in if line = [] \<or> hd line = CHR ''#'' then load_lines quot (n + 1) header p ls
         else if \<not> header
         then (if take 14 line = CCO_PROFILE_MAGIC then load_lines quot (n + 1) True p ls
               else Inl (snprintf_buf 256 (''invalid profile magic: expected '' @ [CHR 0x27] @ CCO_PROFILE_MAGIC @ [CHR 0x27] @ '' at line ''
                      @ decimal n @ '', got '' @ [CHR 0x27] @ line @ [CHR 0x27])))
         else case load_record quot n line p of Inl e \<Rightarrow> Inl e | Inr p \<Rightarrow> load_lines quot (n + 1) header p ls)"

definition cco_profile_load :: "(u64 \<Rightarrow> u64 \<Rightarrow> u64) \<Rightarrow> string + string \<Rightarrow> string \<Rightarrow> string + profile" where
  "cco_profile_load quot content filepath =
     (case content of
        Inl e \<Rightarrow> Inl (snprintf_buf 256 (''could not open profile file '' @ [CHR 0x27] @ filepath @ [CHR 0x27] @ '': '' @ e))
      | Inr s \<Rightarrow> load_lines quot 1 False cco_profile_create (fgets_lines [] s))"

end
