(* ===== verification/Ir_Profile_Roundtrip.thy ===== *)
theory Ir_Profile_Roundtrip
  imports Ir_Profile "HOL-Library.Multiset"
begin

text \<open>
  Profiles accumulate: a count is the sum of what was recorded for it. Writing a profile and reading it back
  gives the same profile, with its tables sorted.
\<close>

section \<open>Words, lines and numbers\<close>

definition plain :: "string \<Rightarrow> bool" where
  "plain s \<longleftrightarrow> (\<forall>c \<in> set s. \<not> isspace c \<and> c \<noteq> CHR 0x00)"

lemma plain_simps [simp]: "plain []" "plain (c # s) \<longleftrightarrow> \<not> isspace c \<and> c \<noteq> CHR 0x00 \<and> plain s" "plain (s @ t) \<longleftrightarrow> plain s \<and> plain t"
  by (auto simp: plain_def)

lemma takeWhile_word: "plain t \<Longrightarrow> r = [] \<or> isspace (hd r) \<Longrightarrow> takeWhile (\<lambda>c. \<not> isspace c) (t @ r) = t"
  by (cases r) (simp_all add: plain_def takeWhile_append)

lemma scan_word:
  assumes "plain t" "t \<noteq> []" "length t \<le> w" "r = [] \<or> isspace (hd r)"
  shows "scan_words (w # ws) (t @ r) = t # scan_words ws r"
proof -
  have "dropWhile isspace (t @ r) = t @ r" using assms(1,2) by (cases t) (simp_all add: plain_def)
  moreover have "takeWhile (\<lambda>c. \<not> isspace c) (take w (t @ r)) = t"
    using takeWhile_word [OF assms(1), of "take (w - length t) r"] assms(3,4) by (cases r) (auto simp: take_Cons')
  ultimately show ?thesis using assms(2) by (simp add: Let_def)
qed

lemma scan_space: "isspace c \<Longrightarrow> scan_words ws (c # r) = scan_words ws r"
  by (cases ws) simp_all

lemma scan_end: "scan_words ws [] = []"
  by (cases ws) simp_all

lemma space: "isspace CHR '' ''"
  by (simp add: isspace_def)

lemma decimal_nonempty: "decimal n \<noteq> []"
  by (simp add: decimal.simps [of n])

lemma decimal_digits: "c \<in> set (decimal n) \<Longrightarrow> is_decimal c"
  using decimal_chars by (simp add: is_decimal_def)

lemma digit_plain: "is_decimal c \<Longrightarrow> \<not> isspace c \<and> c \<noteq> CHR 0x00 \<and> c \<noteq> CHR ''-'' \<and> c \<noteq> CHR ''+''"
  by (auto simp: is_decimal_def isspace_def)

lemma plain_decimal: "plain (decimal n)"
  using decimal_digits digit_plain by (auto simp: plain_def)

lemma count_text_facts: "plain (count_text c)" "count_text c \<noteq> []" "length (count_text c) \<le> 20"
proof -
  have "unat c < 2 ^ 64" using unsigned_less [of c] by simp
  then have "unat c < 10 ^ Suc 19" by simp
  then show "length (count_text c) \<le> 20" using decimal_length [of "unat c" 19] by (simp add: count_text_def)
qed (simp_all add: count_text_def plain_decimal decimal_nonempty)

lemma strtoull_count: "strtoull (count_text c) = (c, True, False)"
proof -
  obtain d ds where d: "count_text c = d # ds" using count_text_facts(2) by (cases "count_text c") auto
  have dd: "is_decimal d" "\<And>x. x \<in> set ds \<Longrightarrow> is_decimal x"
    using decimal_digits [of _ "unat c"] d unfolding count_text_def by auto
  have tw: "takeWhile is_decimal ds = ds" using dd(2) takeWhile_eq_all_conv by blast
  have n: "undecimal (d # ds) = unat c" using undecimal_decimal [of "unat c"] d by (simp add: count_text_def)
  have "uint c < 2 ^ LENGTH(64)" by (rule unsigned_less)
  then have "\<not> 2 ^ 64 \<le> int (unat c)" by simp
  then show ?thesis using dd(1) digit_plain [OF dd(1)] n by (simp add: strtoull_def d tw Let_def)
qed

text \<open>A line as \<open>profile_lines\<close> has it: \<open>fgets\<close> reads it in one piece, and trimming leaves it.\<close>

definition line_ok :: "string \<Rightarrow> bool" where
  "line_ok l \<longleftrightarrow> length l \<le> 1022 \<and> newline \<notin> set l \<and> CHR 0x00 \<notin> set l \<and> (l \<noteq> [] \<longrightarrow> \<not> isspace (hd l) \<and> \<not> isspace (last l))"

lemma fgets_line:
  assumes "newline \<notin> set l" "length acc + length l \<le> 1022"
  shows "fgets_lines acc (l @ newline # r) = (acc @ l @ [newline]) # fgets_lines [] r"
  using assms by (induction l arbitrary: acc) auto

lemma fgets_text:
  assumes "\<And>l. l \<in> set ls \<Longrightarrow> line_ok l"
  shows "fgets_lines [] (concat (map (\<lambda>l. l @ [newline]) ls)) = map (\<lambda>l. l @ [newline]) ls"
  using assms by (induction ls) (simp_all add: line_ok_def fgets_line)

lemma trim_line:
  assumes "line_ok l"
  shows "trim_whitespace (up_to_nul (l @ [newline])) = l"
proof -
  have u: "up_to_nul (l @ [newline]) = l @ [newline]"
    using assms unfolding up_to_nul_def line_ok_def by (intro takeWhile_eq_all_conv [THEN iffD2]) auto
  have nl: "isspace newline" by (simp add: isspace_def)
  show ?thesis
  proof (cases "l = []")
    case False
    then have "dropWhile isspace (l @ [newline]) = l @ [newline]" using assms by (cases l) (simp_all add: line_ok_def)
    moreover have "dropWhile isspace (rev l) = rev l" using assms False by (cases l rule: rev_cases) (simp_all add: line_ok_def)
    ultimately show ?thesis using nl by (simp add: trim_whitespace_def u)
  qed (simp add: trim_whitespace_def up_to_nul_def nl)
qed

section \<open>Reading lines\<close>

definition reads :: "(u64 \<Rightarrow> u64 \<Rightarrow> u64) \<Rightarrow> string list \<Rightarrow> profile \<Rightarrow> profile \<Rightarrow> bool" where
  "reads quot ls p q \<longleftrightarrow> (\<forall>l \<in> set ls. line_ok l) \<and>
     (\<forall>n r. load_lines quot n True p (map (\<lambda>l. l @ [newline]) ls @ r) = load_lines quot (n + length ls) True q r)"

lemma reads_Nil: "reads quot [] p p"
  by (simp add: reads_def)

lemma reads_append: "reads quot ls p q \<Longrightarrow> reads quot ks q r \<Longrightarrow> reads quot (ls @ ks) p r"
  unfolding reads_def by (auto simp: add.assoc)

lemma reads_blank: "reads quot (blank_after xs) p p"
  using trim_line [of "[]"] by (auto simp: reads_def blank_after_def line_ok_def)

lemma reads_record:
  assumes "line_ok l" "l \<noteq> []" "hd l \<noteq> CHR ''#''" "\<And>n. load_record quot n l p = Inr q"
  shows "reads quot [l] p q"
  using assms trim_line [OF assms(1)] by (simp add: reads_def)

lemma reads_map:
  assumes "\<And>x p. x \<in> set xs \<Longrightarrow> reads quot (line x) p (add x p)"
  shows "reads quot (concat (map line xs)) p (fold add xs p)"
  using assms by (induction xs arbitrary: p) (auto intro: reads_Nil reads_append)

text \<open>Names that survive the format.\<close>

definition name_ok :: "string \<Rightarrow> bool" where
  "name_ok f \<longleftrightarrow> plain f \<and> f \<noteq> [] \<and> length f \<le> 255"

definition key_ok :: "string \<Rightarrow> string \<Rightarrow> bool" where
  "key_ok f b \<longleftrightarrow> plain f \<and> plain b \<and> CHR ''.'' \<notin> set f \<and> length f + length b < 255"

lemma split_key: "CHR ''.'' \<notin> set f \<Longrightarrow> split_dot (f @ ''.'' @ b) d = (f, b)"
  by (simp add: split_dot_def takeWhile_append dropWhile_append)

lemma plain_newline: "plain s \<Longrightarrow> newline \<notin> set s \<and> CHR 0x00 \<notin> set s"
  by (auto simp: plain_def isspace_def)

lemma last_count: "\<not> isspace (last (s @ count_text c))"
  using count_text_facts(1,2) [of c] by (simp add: plain_def)

lemmas line_facts = plain_newline count_text_facts space isspace_def last_count

section \<open>Records\<close>

lemma word_of_simps [simp]: "word_of (t # ts) 0 = t" "word_of (t # ts) (Suc k) = word_of ts k" "word_of [] k = []"
  by (simp_all add: word_of_def)

lemma scan_tag:
  assumes "plain t" "t \<noteq> []" "length t \<le> w"
  shows "scan_words (w # ws) (t @ '' '' @ r) = t # scan_words ws r"
  using scan_word [OF assms, of "'' '' @ r" ws] scan_space [OF space] by (simp add: space)

lemma scan_last:
  assumes "plain t" "t \<noteq> []" "length t \<le> w"
  shows "scan_words (w # ws) t = [t]"
  using scan_word [OF assms, of "[]" ws] by (simp add: scan_end)

lemma scan_count: "20 \<le> w \<Longrightarrow> scan_words (w # ws) (count_text c) = [count_text c]"
  using count_text_facts [of c] by (intro scan_last) simp_all

lemma scan_count_tag: "20 \<le> w \<Longrightarrow> scan_words (w # ws) (count_text c @ '' '' @ r) = count_text c # scan_words ws r"
  using count_text_facts [of c] by (intro scan_tag) simp_all

lemma tags: "plain ''true''" "plain ''false''" "plain ''.''"
  by (simp_all add: isspace_def)

lemma scan_tags:
  "scan_words (63 # ws) (''function'' @ '' '' @ r) = ''function'' # scan_words ws r"
  "scan_words (63 # ws) (''block'' @ '' '' @ r) = ''block'' # scan_words ws r"
  "scan_words (63 # ws) (''branch'' @ '' '' @ r) = ''branch'' # scan_words ws r"
  "scan_words (63 # ws) (''loop'' @ '' '' @ r) = ''loop'' # scan_words ws r"
  by (rule scan_tag; simp add: isspace_def)+

lemma scan_counts:
  "scan_words (255 # ws) (count_text c) = [count_text c]"
  "scan_words (255 # ws) (count_text c @ '' '' @ r) = count_text c # scan_words ws r"
  by (rule scan_count scan_count_tag; simp)+

lemmas scan_simps = scan_tags scan_counts

lemma key_word:
  assumes "key_ok f b"
  shows "plain (f @ ''.'' @ b)" "f @ ''.'' @ b \<noteq> []" "length (f @ ''.'' @ b) \<le> 255" "split_dot (f @ ''.'' @ b) d = (f, b)"
  using assms tags(3) split_key by (simp_all add: key_ok_def)

lemma count_line:
  assumes "newline \<notin> set s" "CHR 0x00 \<notin> set s" "s \<noteq> []" "\<not> isspace (hd s)" "length s \<le> 1000"
  shows "line_ok (s @ count_text c)"
proof -
  have "newline \<notin> set (count_text c)" "CHR 0x00 \<notin> set (count_text c)" using plain_newline count_text_facts(1) by blast+
  then show ?thesis using assms last_count [of s c] count_text_facts(3) [of c] by (simp add: line_ok_def)
qed

lemma read_function:
  assumes "name_ok (pf_name x)"
  shows "reads quot [fn_line x] p (cco_profile_add_function (pf_name x) (pf_count x) p)"
proof (rule reads_record)
  have n: "plain (pf_name x)" "pf_name x \<noteq> []" "length (pf_name x) \<le> 255" using assms by (simp_all add: name_ok_def)
  have "line_ok ((''function '' @ pf_name x @ '' '') @ count_text (pf_count x))"
    using n(3) plain_newline [OF n(1)] by (intro count_line) (simp_all add: isspace_def)
  then show "line_ok (fn_line x)" by (simp add: fn_line_def)
  have "fn_line x = ''function'' @ '' '' @ pf_name x @ '' '' @ count_text (pf_count x)" by (simp add: fn_line_def)
  then have ts: "scan_words [63, 255, 255, 255] (fn_line x) = [''function'', pf_name x, count_text (pf_count x)]"
    by (simp only: scan_simps scan_tag [OF n])
  show "load_record quot m (fn_line x) p = Inr (cco_profile_add_function (pf_name x) (pf_count x) p)" for m
    unfolding load_record_def ts by (simp add: load_function_def strtoull_count numeral_2_eq_2)
qed (simp_all add: fn_line_def)

lemma read_block:
  assumes "key_ok (pb_fn x) (pb_bb x)"
  shows "reads quot [block_line x] p (cco_profile_add_block (pb_fn x) (pb_bb x) (pb_count x) p)"
proof (rule reads_record)
  note k = key_word [OF assms]
  have "line_ok ((''block '' @ pb_fn x @ ''.'' @ pb_bb x @ '' '') @ count_text (pb_count x))"
    using k(3) plain_newline [OF k(1)] by (intro count_line) (simp_all add: isspace_def)
  then show "line_ok (block_line x)" by (simp add: block_line_def)
  have "block_line x = ''block'' @ '' '' @ (pb_fn x @ ''.'' @ pb_bb x) @ '' '' @ count_text (pb_count x)" by (simp add: block_line_def)
  then have ts: "scan_words [63, 255, 255, 255] (block_line x) = [''block'', pb_fn x @ ''.'' @ pb_bb x, count_text (pb_count x)]"
    by (simp only: scan_simps scan_tag [OF k(1,2,3)])
  show "load_record quot m (block_line x) p = Inr (cco_profile_add_block (pb_fn x) (pb_bb x) (pb_count x) p)" for m
    unfolding load_record_def ts using k(4) by (simp add: load_block_def strtoull_count numeral_2_eq_2)
qed (simp_all add: block_line_def)

definition add_branch_lines :: "branch_profile \<Rightarrow> profile \<Rightarrow> profile" where
  "add_branch_lines x p = cco_profile_add_branch (pr_fn x) (pr_bb x) 0 (pr_false x) (cco_profile_add_branch (pr_fn x) (pr_bb x) (pr_true x) 0 p)"

lemma read_branch_side:
  assumes k: "key_ok f b" and w: "w = ''true'' \<or> w = ''false''"
  shows "reads quot [''branch '' @ f @ ''.'' @ b @ '' '' @ w @ '' '' @ count_text c] p
    (if w = ''true'' then cco_profile_add_branch f b c 0 p else cco_profile_add_branch f b 0 c p)"
proof (rule reads_record)
  let ?l = "''branch '' @ f @ ''.'' @ b @ '' '' @ w @ '' '' @ count_text c"
  note kw = key_word [OF k]
  have pw: "plain w" "w \<noteq> []" "length w \<le> 255" using w tags(1,2) by auto
  have "line_ok ((''branch '' @ f @ ''.'' @ b @ '' '' @ w @ '' '') @ count_text c)"
    using kw(3) pw(3) plain_newline [OF kw(1)] plain_newline [OF pw(1)] by (intro count_line) (simp_all add: isspace_def)
  then show "line_ok ?l" by simp
  have "?l = ''branch'' @ '' '' @ (f @ ''.'' @ b) @ '' '' @ w @ '' '' @ count_text c" by simp
  then have ts: "scan_words [63, 255, 255, 255] ?l = [''branch'', f @ ''.'' @ b, w, count_text c]"
    by (simp only: scan_simps scan_tag [OF kw(1,2,3)] scan_tag [OF pw])
  show "load_record quot m ?l p = Inr (if w = ''true'' then cco_profile_add_branch f b c 0 p else cco_profile_add_branch f b 0 c p)" for m
    unfolding load_record_def ts using kw(4) w by (auto simp add: load_branch_def strtoull_count numeral_2_eq_2 numeral_3_eq_3)
qed simp_all

lemma read_branch:
  assumes "key_ok (pr_fn x) (pr_bb x)"
  shows "reads quot (branch_lines x) p (add_branch_lines x p)"
proof -
  have "reads quot [''branch '' @ pr_fn x @ ''.'' @ pr_bb x @ '' '' @ ''true'' @ '' '' @ count_text (pr_true x)] p
      (cco_profile_add_branch (pr_fn x) (pr_bb x) (pr_true x) 0 p)"
    using read_branch_side [OF assms, of "''true''" quot "pr_true x" p] by simp
  moreover have "reads quot [''branch '' @ pr_fn x @ ''.'' @ pr_bb x @ '' '' @ ''false'' @ '' '' @ count_text (pr_false x)] q
      (cco_profile_add_branch (pr_fn x) (pr_bb x) 0 (pr_false x) q)" for q
    using read_branch_side [OF assms, of "''false''" quot "pr_false x" q] by simp
  ultimately have "reads quot ([''branch '' @ pr_fn x @ ''.'' @ pr_bb x @ '' '' @ ''true'' @ '' '' @ count_text (pr_true x)] @
      [''branch '' @ pr_fn x @ ''.'' @ pr_bb x @ '' '' @ ''false'' @ '' '' @ count_text (pr_false x)]) p (add_branch_lines x p)"
    unfolding add_branch_lines_def by (rule reads_append)
  then show ?thesis by (simp add: branch_lines_def)
qed

lemma read_loop:
  assumes "key_ok (pl_fn x) (pl_header x)"
  shows "reads quot [loop_line x] p (cco_profile_add_loop quot (pl_fn x) (pl_header x) (pl_entries x) (pl_iters x) p)"
proof (rule reads_record)
  note k = key_word [OF assms]
  have "line_ok ((''loop '' @ pl_fn x @ ''.'' @ pl_header x @ '' '' @ count_text (pl_entries x) @ '' '') @ count_text (pl_iters x))"
    using k(3) count_text_facts(3) [of "pl_entries x"] plain_newline [OF k(1)] plain_newline [OF count_text_facts(1) [of "pl_entries x"]]
    by (intro count_line) (simp_all add: isspace_def)
  then show "line_ok (loop_line x)" by (simp add: loop_line_def)
  have "loop_line x = ''loop'' @ '' '' @ (pl_fn x @ ''.'' @ pl_header x) @ '' '' @ count_text (pl_entries x) @ '' '' @ count_text (pl_iters x)"
    by (simp add: loop_line_def)
  then have ts: "scan_words [63, 255, 255, 255] (loop_line x) = [''loop'', pl_fn x @ ''.'' @ pl_header x, count_text (pl_entries x), count_text (pl_iters x)]"
    by (simp only: scan_simps scan_tag [OF k(1,2,3)])
  show "load_record quot m (loop_line x) p = Inr (cco_profile_add_loop quot (pl_fn x) (pl_header x) (pl_entries x) (pl_iters x) p)" for m
    unfolding load_record_def ts using k(4) by (simp add: load_loop_def strtoull_count numeral_2_eq_2 numeral_3_eq_3)
qed (simp_all add: loop_line_def)

section \<open>Tables\<close>

lemma upsert_cases:
  obtains (absent) "\<forall>x \<in> set xs. \<not> P x" "upsert P g new xs = xs @ [new]" "List.find P xs = None"
  | (present) as y bs where "xs = as @ y # bs" "P y" "List.find P xs = Some y" "upsert P g new xs = as @ g y # bs"
proof -
  have "((\<forall>x \<in> set xs. \<not> P x) \<and> upsert P g new xs = xs @ [new] \<and> List.find P xs = None) \<or>
      (\<exists>as y bs. xs = as @ y # bs \<and> P y \<and> List.find P xs = Some y \<and> upsert P g new xs = as @ g y # bs)"
  proof (induction xs)
    case (Cons x xs)
    show ?case
    proof (cases "P x")
      case True
      then show ?thesis by (intro disjI2 exI [of _ "[]"] exI [of _ x] exI [of _ xs]) simp
    next
      case False
      from Cons.IH show ?thesis
      proof (elim disjE exE conjE)
        fix as y bs assume "xs = as @ y # bs" "P y" "List.find P xs = Some y" "upsert P g new xs = as @ g y # bs"
        then show ?thesis using False by (intro disjI2 exI [of _ "x # as"] exI [of _ y] exI [of _ bs]) simp
      qed (use False in simp)
    qed
  qed simp
  then show thesis using that by blast
qed

lemma find_upsert:
  assumes "\<And>x. P x \<Longrightarrow> P (g x)" "P new"
  shows "List.find P (upsert P g new xs) = Some (case List.find P xs of None \<Rightarrow> new | Some x \<Rightarrow> g x)"
  using assms by (induction xs) auto

lemma find_upsert_other:
  assumes "\<And>x. P x \<Longrightarrow> Q (g x) \<longleftrightarrow> Q x" "\<And>x. P x \<Longrightarrow> \<not> Q x" "P new"
  shows "List.find Q (upsert P g new xs) = List.find Q xs"
  using assms by (induction xs) auto

lemma upsert_new: "(\<And>x. x \<in> set xs \<Longrightarrow> \<not> P x) \<Longrightarrow> upsert P g new xs = xs @ [new]"
  by (induction xs) auto

lemma upsert_last: "(\<And>x. x \<in> set xs \<Longrightarrow> \<not> P x) \<Longrightarrow> P y \<Longrightarrow> upsert P g new (xs @ [y]) = xs @ [g y]"
  by (induction xs) auto

lemma upsert_keys:
  assumes "\<And>x. P x \<longleftrightarrow> key x = k" "\<And>x. P x \<Longrightarrow> P (g x)" "P new" "distinct (map key xs)"
  shows "distinct (map key (upsert P g new xs))"
proof (cases rule: upsert_cases [of xs P g new])
  case absent
  then show ?thesis using assms by auto
next
  case (present as y bs)
  then show ?thesis using assms by auto
qed

lemma upsert_all:
  assumes "\<And>x. x \<in> set xs \<Longrightarrow> Q x" "Q new" "\<And>x. P x \<Longrightarrow> x \<in> set xs \<Longrightarrow> Q (g x)"
  shows "\<forall>x \<in> set (upsert P g new xs). Q x"
proof (cases rule: upsert_cases [of xs P g new])
  case absent
  then show ?thesis using assms(1,2) by auto
next
  case (present as y bs)
  then have "Q (g y)" using assms(3) [of y] by simp
  then show ?thesis using assms(1) present(1,4) by auto
qed

section \<open>A stored profile is read back\<close>

definition storable :: "(u64 \<Rightarrow> u64 \<Rightarrow> u64) \<Rightarrow> profile \<Rightarrow> bool" where
  "storable quot p \<longleftrightarrow> prof_version p = CCO_PROFILE_MAGIC \<and>
     distinct (map pf_name (prof_functions p)) \<and> (\<forall>x \<in> set (prof_functions p). name_ok (pf_name x) \<and> pf_calls x = 0) \<and>
     distinct (map (\<lambda>x. (pb_fn x, pb_bb x)) (prof_blocks p)) \<and> (\<forall>x \<in> set (prof_blocks p). key_ok (pb_fn x) (pb_bb x)) \<and>
     distinct (map (\<lambda>x. (pr_fn x, pr_bb x)) (prof_branches p)) \<and> (\<forall>x \<in> set (prof_branches p). key_ok (pr_fn x) (pr_bb x)) \<and>
     distinct (map (\<lambda>x. (pl_fn x, pl_header x)) (prof_loops p)) \<and>
     (\<forall>x \<in> set (prof_loops p). key_ok (pl_fn x) (pl_header x) \<and> pl_avg x = average quot (pl_entries x) (pl_iters x)) \<and>
     prof_max_fn p = Max (insert 0 (pf_count ` set (prof_functions p))) \<and>
     prof_max_block p = Max (insert 0 (pb_count ` set (prof_blocks p)))"

lemma last_key: "distinct (map key (xs @ [x])) \<Longrightarrow> y \<in> set xs \<Longrightarrow> key y \<noteq> key x"
  by (simp, metis imageI)

lemma Max_snoc: "Max (insert (0::u64) (f ` set (xs @ [x]))) = max (Max (insert 0 (f ` set xs))) (f x)"
proof -
  have "insert 0 (f ` set (xs @ [x])) = insert (f x) (insert 0 (f ` set xs))" by auto
  then show ?thesis by (simp add: max.commute del: Max_insert) (simp add: max.commute)
qed

lemma add_functions:
  assumes "prof_functions p = []" "prof_max_fn p = 0" "distinct (map pf_name xs)" "\<And>x. x \<in> set xs \<Longrightarrow> pf_calls x = 0"
  shows "fold (\<lambda>x. cco_profile_add_function (pf_name x) (pf_count x)) xs p =
    p\<lparr>prof_functions := xs, prof_max_fn := Max (insert 0 (pf_count ` set xs))\<rparr>"
  using assms(3,4)
proof (induction xs rule: rev_induct)
  case Nil
  then show ?case using assms(1,2) by simp
next
  case (snoc x xs)
  have "\<not> fn_is (pf_name x) y" if "y \<in> set xs" for y using last_key [OF snoc.prems(1) that] by (auto simp: fn_is_def)
  then have u: "upsert (fn_is (pf_name x)) g new xs = xs @ [new]" "List.find (fn_is (pf_name x)) xs = None" for g new
    by (simp_all add: upsert_new find_None_iff)
  have "\<lparr>pf_name = pf_name x, pf_count = pf_count x, pf_calls = 0\<rparr> = x" using snoc.prems(2) [of x] by simp
  then show ?case using snoc u Max_snoc [of pf_count xs x] by (simp add: cco_profile_add_function_def cco_profile_get_function_count_def)
qed

lemma add_blocks:
  assumes "prof_blocks p = []" "prof_max_block p = 0" "distinct (map (\<lambda>x. (pb_fn x, pb_bb x)) xs)"
  shows "fold (\<lambda>x. cco_profile_add_block (pb_fn x) (pb_bb x) (pb_count x)) xs p =
    p\<lparr>prof_blocks := xs, prof_max_block := Max (insert 0 (pb_count ` set xs))\<rparr>"
  using assms(3)
proof (induction xs rule: rev_induct)
  case Nil
  then show ?case using assms(1,2) by simp
next
  case (snoc x xs)
  have "\<not> block_is (pb_fn x) (pb_bb x) y" if "y \<in> set xs" for y using last_key [OF snoc.prems(1) that] by (auto simp: block_is_def)
  then have u: "upsert (block_is (pb_fn x) (pb_bb x)) g new xs = xs @ [new]" "List.find (block_is (pb_fn x) (pb_bb x)) xs = None" for g new
    by (simp_all add: upsert_new find_None_iff)
  show ?case using snoc u Max_snoc [of pb_count xs x] by (simp add: cco_profile_add_block_def cco_profile_get_block_count_def)
qed

lemma add_branches:
  assumes "prof_branches p = []" "distinct (map (\<lambda>x. (pr_fn x, pr_bb x)) xs)"
  shows "fold add_branch_lines xs p = p\<lparr>prof_branches := xs\<rparr>"
  using assms(2)
proof (induction xs rule: rev_induct)
  case Nil
  then show ?case using assms(1) by simp
next
  case (snoc x xs)
  have no: "\<not> branch_is (pr_fn x) (pr_bb x) y" if "y \<in> set xs" for y using last_key [OF snoc.prems that] by (auto simp: branch_is_def)
  then have "upsert (branch_is (pr_fn x) (pr_bb x)) g new xs = xs @ [new]" for g new by (simp add: upsert_new)
  moreover have "branch_is (pr_fn x) (pr_bb x) y \<Longrightarrow> upsert (branch_is (pr_fn x) (pr_bb x)) g new (xs @ [y]) = xs @ [g y]" for g new y
    using no by (simp add: upsert_last)
  ultimately show ?case using snoc by (simp add: add_branch_lines_def cco_profile_add_branch_def branch_is_def)
qed

lemma add_loops:
  assumes "prof_loops p = []" "distinct (map (\<lambda>x. (pl_fn x, pl_header x)) xs)"
    "\<And>x. x \<in> set xs \<Longrightarrow> pl_avg x = average quot (pl_entries x) (pl_iters x)"
  shows "fold (\<lambda>x. cco_profile_add_loop quot (pl_fn x) (pl_header x) (pl_entries x) (pl_iters x)) xs p = p\<lparr>prof_loops := xs\<rparr>"
  using assms(2,3)
proof (induction xs rule: rev_induct)
  case Nil
  then show ?case using assms(1) by simp
next
  case (snoc x xs)
  have "\<not> loop_is (pl_fn x) (pl_header x) y" if "y \<in> set xs" for y using last_key [OF snoc.prems(1) that] by (auto simp: loop_is_def)
  then have u: "upsert (loop_is (pl_fn x) (pl_header x)) g new xs = xs @ [new]" for g new by (simp add: upsert_new)
  have "\<lparr>pl_fn = pl_fn x, pl_header = pl_header x, pl_entries = pl_entries x, pl_iters = pl_iters x, pl_avg = average quot (pl_entries x) (pl_iters x)\<rparr> = x"
    using snoc.prems(2) [of x] by simp
  then show ?case using snoc u by (simp add: cco_profile_add_loop_def)
qed

lemma load_stored:
  assumes "storable quot p"
  shows "cco_profile_load quot (Inr (profile_text p)) path = Inr p"
proof -
  note S = assms [unfolded storable_def]
  have f: "reads quot (map fn_line (prof_functions p)) q (fold (\<lambda>x. cco_profile_add_function (pf_name x) (pf_count x)) (prof_functions p) q)" for q
    using reads_map [of "prof_functions p" quot "\<lambda>x. [fn_line x]"] read_function S by simp
  have b: "reads quot (map block_line (prof_blocks p)) q (fold (\<lambda>x. cco_profile_add_block (pb_fn x) (pb_bb x) (pb_count x)) (prof_blocks p) q)" for q
    using reads_map [of "prof_blocks p" quot "\<lambda>x. [block_line x]"] read_block S by simp
  have r: "reads quot (concat (map branch_lines (prof_branches p))) q (fold add_branch_lines (prof_branches p) q)" for q
    using reads_map [of "prof_branches p" quot branch_lines] read_branch S by simp
  have l: "reads quot (map loop_line (prof_loops p)) q
      (fold (\<lambda>x. cco_profile_add_loop quot (pl_fn x) (pl_header x) (pl_entries x) (pl_iters x)) (prof_loops p) q)" for q
    using reads_map [of "prof_loops p" quot "\<lambda>x. [loop_line x]"] read_loop S by simp
  let ?rest = "map fn_line (prof_functions p) @ blank_after (prof_functions p) @ map block_line (prof_blocks p) @ blank_after (prof_blocks p)
     @ concat (map branch_lines (prof_branches p)) @ blank_after (prof_branches p) @ map loop_line (prof_loops p)"
  let ?p1 = "cco_profile_create\<lparr>prof_functions := prof_functions p, prof_max_fn := Max (insert 0 (pf_count ` set (prof_functions p)))\<rparr>"
  let ?p2 = "?p1\<lparr>prof_blocks := prof_blocks p, prof_max_block := Max (insert 0 (pb_count ` set (prof_blocks p)))\<rparr>"
  let ?p3 = "?p2\<lparr>prof_branches := prof_branches p\<rparr>"
  have 1: "reads quot (map fn_line (prof_functions p)) cco_profile_create ?p1"
    using f [of cco_profile_create] add_functions [of cco_profile_create "prof_functions p"] S by (simp add: cco_profile_create_def)
  have 2: "reads quot (map block_line (prof_blocks p)) ?p1 ?p2"
    using b [of ?p1] add_blocks [of ?p1 "prof_blocks p"] S by (simp add: cco_profile_create_def)
  have 3: "reads quot (concat (map branch_lines (prof_branches p))) ?p2 ?p3"
    using r [of ?p2] add_branches [of ?p2 "prof_branches p"] S by (simp add: cco_profile_create_def)
  have "?p3\<lparr>prof_loops := prof_loops p\<rparr> = p" using S by (simp add: cco_profile_create_def)
  moreover have "fold (\<lambda>x. cco_profile_add_loop quot (pl_fn x) (pl_header x) (pl_entries x) (pl_iters x)) (prof_loops p) ?p3 =
      ?p3\<lparr>prof_loops := prof_loops p\<rparr>"
    using S by (intro add_loops) (simp_all add: cco_profile_create_def)
  ultimately have 4: "reads quot (map loop_line (prof_loops p)) ?p3 p" using l [of ?p3] by (simp only:)
  have rest: "reads quot ?rest cco_profile_create p"
    by (rule reads_append [OF 1 reads_append [OF reads_blank reads_append [OF 2 reads_append [OF reads_blank
          reads_append [OF 3 reads_append [OF reads_blank 4]]]]]])
  have magic: "line_ok CCO_PROFILE_MAGIC" "line_ok []" "CCO_PROFILE_MAGIC \<noteq> []" "hd CCO_PROFILE_MAGIC \<noteq> CHR ''#''" "take 14 CCO_PROFILE_MAGIC = CCO_PROFILE_MAGIC"
    by (simp_all add: line_ok_def CCO_PROFILE_MAGIC_def isspace_def)
  have lines: "profile_lines p = CCO_PROFILE_MAGIC # [] # ?rest" by (simp add: profile_lines_def)
  have "line_ok l" if "l \<in> set (profile_lines p)" for l using that magic(1,2) rest unfolding lines reads_def by auto
  then have "fgets_lines [] (profile_text p) = map (\<lambda>l. l @ [newline]) (CCO_PROFILE_MAGIC # [] # ?rest)"
    unfolding profile_text_def lines by (intro fgets_text) blast
  moreover have "load_lines quot (Suc n) True cco_profile_create (map (\<lambda>l. l @ [newline]) ?rest) = Inr p" for n
    using rest [unfolded reads_def, THEN conjunct2, rule_format, of "Suc n" "[]"] by simp
  ultimately show ?thesis using magic trim_line [OF magic(1)] trim_line [OF magic(2)]
    by (simp add: cco_profile_load_def)
qed

section \<open>What is recorded\<close>

datatype profile_event = AtFunction string u64 | AtBlock string string u64 | AtBranch string string u64 u64 | AtLoop string string u64 u64

fun record_event :: "(u64 \<Rightarrow> u64 \<Rightarrow> u64) \<Rightarrow> profile_event \<Rightarrow> profile \<Rightarrow> profile" where
  "record_event quot (AtFunction f c) p = cco_profile_add_function f c p"
| "record_event quot (AtBlock f b c) p = cco_profile_add_block f b c p"
| "record_event quot (AtBranch f b t u) p = cco_profile_add_branch f b t u p"
| "record_event quot (AtLoop f b e i) p = cco_profile_add_loop quot f b e i p"

definition recorded :: "(u64 \<Rightarrow> u64 \<Rightarrow> u64) \<Rightarrow> profile_event list \<Rightarrow> profile" where
  "recorded quot es = fold (record_event quot) es cco_profile_create"

text \<open>The part of an event that belongs to a function, a block, or a side of a branch.\<close>

fun fn_part :: "string \<Rightarrow> profile_event \<Rightarrow> u64" where
  "fn_part f (AtFunction g c) = (if g = f then c else 0)"
| "fn_part f e = 0"

fun block_part :: "string \<Rightarrow> string \<Rightarrow> profile_event \<Rightarrow> u64" where
  "block_part f b (AtBlock g d c) = (if g = f \<and> d = b then c else 0)"
| "block_part f b e = 0"

fun branch_part :: "string \<Rightarrow> string \<Rightarrow> profile_event \<Rightarrow> u64 \<times> u64" where
  "branch_part f b (AtBranch g d t u) = (if g = f \<and> d = b then (t, u) else (0, 0))"
| "branch_part f b e = (0, 0)"

definition names_branch :: "string \<Rightarrow> string \<Rightarrow> profile_event \<Rightarrow> bool" where
  "names_branch f b e \<longleftrightarrow> (\<exists>t u. e = AtBranch f b t u)"

lemma find_same:
  "List.find (fn_is f) (upsert (fn_is f) (\<lambda>x. x\<lparr>pf_count := pf_count x + c\<rparr>) \<lparr>pf_name = f, pf_count = c, pf_calls = 0\<rparr> xs) =
     Some (case List.find (fn_is f) xs of None \<Rightarrow> \<lparr>pf_name = f, pf_count = c, pf_calls = 0\<rparr> | Some x \<Rightarrow> x\<lparr>pf_count := pf_count x + c\<rparr>)"
  "List.find (block_is f b) (upsert (block_is f b) (\<lambda>x. x\<lparr>pb_count := pb_count x + c\<rparr>) \<lparr>pb_fn = f, pb_bb = b, pb_count = c\<rparr> ys) =
     Some (case List.find (block_is f b) ys of None \<Rightarrow> \<lparr>pb_fn = f, pb_bb = b, pb_count = c\<rparr> | Some x \<Rightarrow> x\<lparr>pb_count := pb_count x + c\<rparr>)"
  "List.find (branch_is f b) (upsert (branch_is f b) (\<lambda>x. x\<lparr>pr_true := pr_true x + t, pr_false := pr_false x + u\<rparr>)
       \<lparr>pr_fn = f, pr_bb = b, pr_true = t, pr_false = u\<rparr> zs) =
     Some (case List.find (branch_is f b) zs of None \<Rightarrow> \<lparr>pr_fn = f, pr_bb = b, pr_true = t, pr_false = u\<rparr>
       | Some x \<Rightarrow> x\<lparr>pr_true := pr_true x + t, pr_false := pr_false x + u\<rparr>)"
  by (rule find_upsert; simp add: fn_is_def block_is_def branch_is_def)+

lemma function_count_step:
  "cco_profile_get_function_count (record_event quot e p) f = cco_profile_get_function_count p f + fn_part f e"
proof (cases e)
  case (AtFunction g c)
  show ?thesis
  proof (cases "g = f")
    case True
    then show ?thesis using AtFunction
      by (simp add: cco_profile_add_function_def cco_profile_get_function_count_def find_same split: option.split)
  next
    case False
    then have "List.find (fn_is f) (upsert (fn_is g) h new xs) = List.find (fn_is f) xs"
      if "fn_is g new" "\<And>x. pf_name (h x) = pf_name x" for h new xs
      using that by (intro find_upsert_other) (auto simp: fn_is_def)
    then show ?thesis using AtFunction False
      by (simp add: cco_profile_add_function_def cco_profile_get_function_count_def fn_is_def)
  qed
qed (simp_all add: cco_profile_get_function_count_def cco_profile_add_block_def cco_profile_add_branch_def cco_profile_add_loop_def)

lemma block_count_step:
  "cco_profile_get_block_count (record_event quot e p) f b = cco_profile_get_block_count p f b + block_part f b e"
proof (cases e)
  case (AtBlock g d c)
  show ?thesis
  proof (cases "g = f \<and> d = b")
    case True
    then show ?thesis using AtBlock
      by (simp add: cco_profile_add_block_def cco_profile_get_block_count_def find_same split: option.split)
  next
    case False
    then have "List.find (block_is f b) (upsert (block_is g d) h new xs) = List.find (block_is f b) xs"
      if "block_is g d new" "\<And>x. pb_fn (h x) = pb_fn x" "\<And>x. pb_bb (h x) = pb_bb x" for h new xs
      using that by (intro find_upsert_other) (auto simp: block_is_def)
    then show ?thesis using AtBlock False
      by (auto simp add: cco_profile_add_block_def cco_profile_get_block_count_def block_is_def)
  qed
qed (simp_all add: cco_profile_get_block_count_def cco_profile_add_function_def cco_profile_add_branch_def cco_profile_add_loop_def)

lemma branch_counts_step:
  "cco_profile_get_branch_counts (record_event quot e p) f b =
     (case cco_profile_get_branch_counts p f b of
        Some (t, u) \<Rightarrow> Some (t + fst (branch_part f b e), u + snd (branch_part f b e))
      | None \<Rightarrow> if names_branch f b e then Some (branch_part f b e) else None)"
proof (cases e)
  case (AtBranch g d t u)
  show ?thesis
  proof (cases "g = f \<and> d = b")
    case True
    then show ?thesis using AtBranch
      by (simp add: cco_profile_add_branch_def cco_profile_get_branch_counts_def find_same names_branch_def split: option.split)
  next
    case False
    then have "List.find (branch_is f b) (upsert (branch_is g d) h new xs) = List.find (branch_is f b) xs"
      if "branch_is g d new" "\<And>x. pr_fn (h x) = pr_fn x" "\<And>x. pr_bb (h x) = pr_bb x" for h new xs
      using that by (intro find_upsert_other) (auto simp: branch_is_def)
    then show ?thesis using AtBranch False
      by (auto simp add: cco_profile_add_branch_def cco_profile_get_branch_counts_def branch_is_def names_branch_def split: option.split)
  qed
qed (simp_all add: cco_profile_get_branch_counts_def cco_profile_add_function_def cco_profile_add_block_def cco_profile_add_loop_def names_branch_def split: option.split)

section \<open>Recorded profiles can be stored\<close>

fun event_ok :: "profile_event \<Rightarrow> bool" where
  "event_ok (AtFunction f c) = name_ok f"
| "event_ok (AtBlock f b c) = key_ok f b"
| "event_ok (AtBranch f b t u) = key_ok f b"
| "event_ok (AtLoop f b e i) = key_ok f b"

fun weight :: "profile_event \<Rightarrow> nat" where
  "weight (AtFunction f c) = unat c"
| "weight (AtBlock f b c) = unat c"
| "weight e = 0"

lemma Max_upsert:
  fixes cnt :: "'a \<Rightarrow> u64"
  assumes "cnt new = c" "\<And>y. cnt (g y) = cnt y + c" "old = (case List.find P xs of Some y \<Rightarrow> cnt y | None \<Rightarrow> 0)" "old \<le> old + c"
  shows "Max (insert 0 (cnt ` set (upsert P g new xs))) = max (Max (insert 0 (cnt ` set xs))) (old + c)"
proof (cases rule: upsert_cases [of xs P g new])
  case absent
  then show ?thesis using assms(1,3) Max_snoc [of cnt xs new] by simp
next
  case (present as y bs)
  let ?A = "insert 0 (cnt ` (set as \<union> set bs))"
  have "insert 0 (cnt ` set (upsert P g new xs)) = insert (cnt y + c) ?A" "insert 0 (cnt ` set xs) = insert (cnt y) ?A"
    using present(1,4) assms(2) by auto
  moreover have "Max (insert z ?A) = max z (Max ?A)" for z by (rule Max_insert) auto
  moreover have "old = cnt y" using assms(3) present(3) by simp
  moreover have "max z (cnt y + c) = max (max z (cnt y)) (cnt y + c)" for z using assms(4) calculation(4) by (simp add: max.assoc max.absorb2)
  ultimately show ?thesis by (simp only: max.commute [of _ "Max ?A"])
qed

lemma no_overflow: "unat (a :: u64) + unat b < 2 ^ 64 \<Longrightarrow> a \<le> a + b \<and> unat (a + b) = unat a + unat b"
  by (simp add: unat_word_ariths word_le_nat_alt)

lemma storable_function:
  assumes s: "storable quot p" and n: "name_ok f" and o: "unat (cco_profile_get_function_count p f) + unat c < 2 ^ 64"
  shows "storable quot (cco_profile_add_function f c p)"
proof -
  note S = s [unfolded storable_def]
  let ?u = "upsert (fn_is f) (\<lambda>x. x\<lparr>pf_count := pf_count x + c\<rparr>) \<lparr>pf_name = f, pf_count = c, pf_calls = 0\<rparr> (prof_functions p)"
  have "distinct (map pf_name ?u)" using S by (intro upsert_keys [where k = f]) (simp_all add: fn_is_def)
  moreover have "\<forall>x \<in> set ?u. name_ok (pf_name x) \<and> pf_calls x = 0" using S n by (intro upsert_all) simp_all
  moreover have "Max (insert 0 (pf_count ` set ?u)) = max (prof_max_fn p) (cco_profile_get_function_count p f + c)"
    using S no_overflow [OF o] Max_upsert [of pf_count _ c _ "cco_profile_get_function_count p f" "fn_is f" "prof_functions p"]
    by (simp add: cco_profile_get_function_count_def)
  ultimately show ?thesis using S by (simp add: storable_def cco_profile_add_function_def)
qed

lemma storable_block:
  assumes s: "storable quot p" and n: "key_ok f b" and o: "unat (cco_profile_get_block_count p f b) + unat c < 2 ^ 64"
  shows "storable quot (cco_profile_add_block f b c p)"
proof -
  note S = s [unfolded storable_def]
  let ?u = "upsert (block_is f b) (\<lambda>x. x\<lparr>pb_count := pb_count x + c\<rparr>) \<lparr>pb_fn = f, pb_bb = b, pb_count = c\<rparr> (prof_blocks p)"
  have "distinct (map (\<lambda>x. (pb_fn x, pb_bb x)) ?u)" using S by (intro upsert_keys [where k = "(f, b)"]) (simp_all add: block_is_def)
  moreover have "\<forall>x \<in> set ?u. key_ok (pb_fn x) (pb_bb x)" using S n by (intro upsert_all) simp_all
  moreover have "Max (insert 0 (pb_count ` set ?u)) = max (prof_max_block p) (cco_profile_get_block_count p f b + c)"
    using S no_overflow [OF o] Max_upsert [of pb_count _ c _ "cco_profile_get_block_count p f b" "block_is f b" "prof_blocks p"]
    by (simp add: cco_profile_get_block_count_def)
  ultimately show ?thesis using S by (simp add: storable_def cco_profile_add_block_def)
qed

lemma storable_branch:
  assumes s: "storable quot p" and n: "key_ok f b"
  shows "storable quot (cco_profile_add_branch f b t u p)"
proof -
  note S = s [unfolded storable_def]
  let ?u = "upsert (branch_is f b) (\<lambda>x. x\<lparr>pr_true := pr_true x + t, pr_false := pr_false x + u\<rparr>)
    \<lparr>pr_fn = f, pr_bb = b, pr_true = t, pr_false = u\<rparr> (prof_branches p)"
  have "distinct (map (\<lambda>x. (pr_fn x, pr_bb x)) ?u)" using S by (intro upsert_keys [where k = "(f, b)"]) (simp_all add: branch_is_def)
  moreover have "\<forall>x \<in> set ?u. key_ok (pr_fn x) (pr_bb x)" using S n by (intro upsert_all) simp_all
  ultimately show ?thesis using S by (simp add: storable_def cco_profile_add_branch_def)
qed

lemma storable_loop:
  assumes s: "storable quot p" and n: "key_ok f b"
  shows "storable quot (cco_profile_add_loop quot f b e i p)"
proof -
  note S = s [unfolded storable_def]
  let ?u = "upsert (loop_is f b) (\<lambda>x. x\<lparr>pl_entries := pl_entries x + e, pl_iters := pl_iters x + i, pl_avg := average quot (pl_entries x + e) (pl_iters x + i)\<rparr>)
    \<lparr>pl_fn = f, pl_header = b, pl_entries = e, pl_iters = i, pl_avg = average quot e i\<rparr> (prof_loops p)"
  have "distinct (map (\<lambda>x. (pl_fn x, pl_header x)) ?u)" using S by (intro upsert_keys [where k = "(f, b)"]) (simp_all add: loop_is_def)
  moreover have "\<forall>x \<in> set ?u. key_ok (pl_fn x) (pl_header x) \<and> pl_avg x = average quot (pl_entries x) (pl_iters x)"
    using S n by (intro upsert_all) simp_all
  ultimately show ?thesis using S by (simp add: storable_def cco_profile_add_loop_def)
qed

lemma storable_step:
  assumes "storable quot p" "event_ok e"
    and "\<And>f. unat (cco_profile_get_function_count p f) + weight e < 2 ^ 64" "\<And>f b. unat (cco_profile_get_block_count p f b) + weight e < 2 ^ 64"
  shows "storable quot (record_event quot e p)"
  using assms(2-) storable_function [OF assms(1)] storable_block [OF assms(1)] storable_branch [OF assms(1)] storable_loop [OF assms(1)]
  by (cases e) simp_all

lemma part_weight: "unat (fn_part f e) \<le> weight e" "unat (block_part f b e) \<le> weight e"
  by (cases e; simp)+

lemma recorded_snoc: "recorded quot (es @ [e]) = record_event quot e (recorded quot es)"
  by (simp add: recorded_def)

lemma recorded_storable:
  assumes "\<And>e. e \<in> set es \<Longrightarrow> event_ok e" "sum_list (map weight es) < 2 ^ 64"
  shows "storable quot (recorded quot es) \<and> (\<forall>f. unat (cco_profile_get_function_count (recorded quot es) f) \<le> sum_list (map weight es)) \<and>
    (\<forall>f b. unat (cco_profile_get_block_count (recorded quot es) f b) \<le> sum_list (map weight es))"
  using assms
proof (induction es rule: rev_induct)
  case Nil
  then show ?case by (simp add: recorded_def storable_def cco_profile_create_def cco_profile_get_function_count_def cco_profile_get_block_count_def)
next
  case (snoc e es)
  let ?p = "recorded quot es" and ?n = "sum_list (map weight es)"
  have ih: "storable quot ?p" "\<And>f. unat (cco_profile_get_function_count ?p f) \<le> ?n" "\<And>f b. unat (cco_profile_get_block_count ?p f b) \<le> ?n"
    using snoc by simp_all
  have n: "?n + weight e < 2 ^ 64" using snoc.prems(2) by simp
  have "unat (cco_profile_get_function_count ?p f) + weight e < 2 ^ 64" for f using ih(2) [of f] n by linarith
  moreover have "unat (cco_profile_get_block_count ?p f b) + weight e < 2 ^ 64" for f b using ih(3) [of f b] n by linarith
  ultimately have "storable quot (record_event quot e ?p)" using storable_step [OF ih(1)] snoc.prems(1) [of e] by simp
  moreover have "unat (x + y) \<le> unat x + unat y" for x y :: u64 by (simp add: unat_word_ariths)
  then have "unat (cco_profile_get_function_count ?p f + fn_part f e) \<le> ?n + weight e"
    "unat (cco_profile_get_block_count ?p f b + block_part f b e) \<le> ?n + weight e" for f b
    using ih(2) [of f] ih(3) [of f b] part_weight(1) [of f e] part_weight(2) [of f b e] by (meson add_mono le_trans)+
  ultimately show ?case by (simp add: recorded_snoc function_count_step block_count_step)
qed

section \<open>Sorting\<close>

lemma find_key:
  assumes "distinct (map key xs)" "x \<in> set xs" "\<And>y. P y \<longleftrightarrow> key y = k" "P x"
  shows "List.find P xs = Some x"
  using assms by (induction xs) auto

lemma find_sorted:
  assumes "distinct (map key xs)" "\<And>y. P y \<longleftrightarrow> key y = k"
  shows "List.find P (sort_key ord xs) = List.find P xs"
proof (cases "List.find P xs")
  case None
  then have "List.find P (sort_key ord xs) = None" by (simp add: find_None_iff)
  then show ?thesis using None by simp
next
  case (Some x)
  then have x: "x \<in> set xs" "P x" using find_SomeD by metis+
  have "distinct (map key (sort_key ord xs))" using assms(1) by (simp add: distinct_map)
  then show ?thesis using Some find_key [of key "sort_key ord xs" x P k] x assms(2) by simp
qed

lemma storable_sort: "storable quot p \<Longrightarrow> storable quot (sort_profile p)"
  by (simp add: storable_def sort_profile_def distinct_map)

lemma sorted_counts:
  assumes "storable quot p"
  shows "cco_profile_get_function_count (sort_profile p) f = cco_profile_get_function_count p f"
    "cco_profile_get_block_count (sort_profile p) f b = cco_profile_get_block_count p f b"
    "cco_profile_get_branch_counts (sort_profile p) f b = cco_profile_get_branch_counts p f b"
proof -
  note S = assms [unfolded storable_def]
  have "List.find (fn_is f) (sort_key pf_name (prof_functions p)) = List.find (fn_is f) (prof_functions p)"
    using S by (intro find_sorted [where key = pf_name and k = f]) (simp_all add: fn_is_def)
  then show "cco_profile_get_function_count (sort_profile p) f = cco_profile_get_function_count p f"
    by (simp add: cco_profile_get_function_count_def sort_profile_def)
  have "List.find (block_is f b) (sort_key (\<lambda>x. (pb_fn x, pb_bb x)) (prof_blocks p)) = List.find (block_is f b) (prof_blocks p)"
    using S by (intro find_sorted [where key = "\<lambda>x. (pb_fn x, pb_bb x)" and k = "(f, b)"]) (simp_all add: block_is_def)
  then show "cco_profile_get_block_count (sort_profile p) f b = cco_profile_get_block_count p f b"
    by (simp add: cco_profile_get_block_count_def sort_profile_def)
  have "List.find (branch_is f b) (sort_key (\<lambda>x. (pr_fn x, pr_bb x)) (prof_branches p)) = List.find (branch_is f b) (prof_branches p)"
    using S by (intro find_sorted [where key = "\<lambda>x. (pr_fn x, pr_bb x)" and k = "(f, b)"]) (simp_all add: branch_is_def)
  then show "cco_profile_get_branch_counts (sort_profile p) f b = cco_profile_get_branch_counts p f b"
    by (simp add: cco_profile_get_branch_counts_def sort_profile_def)
qed

text \<open>Tables in strictly ascending order of their names, and two profiles with the same entries.\<close>

definition tables_sorted :: "profile \<Rightarrow> bool" where
  "tables_sorted p \<longleftrightarrow> sorted_wrt (<) (map pf_name (prof_functions p)) \<and>
     sorted_wrt (<) (map (\<lambda>x. (pb_fn x, pb_bb x)) (prof_blocks p)) \<and>
     sorted_wrt (<) (map (\<lambda>x. (pr_fn x, pr_bb x)) (prof_branches p)) \<and>
     sorted_wrt (<) (map (\<lambda>x. (pl_fn x, pl_header x)) (prof_loops p))"

definition same_entries :: "profile \<Rightarrow> profile \<Rightarrow> bool" where
  "same_entries p q \<longleftrightarrow> mset (prof_functions p) = mset (prof_functions q) \<and> mset (prof_blocks p) = mset (prof_blocks q) \<and>
     mset (prof_branches p) = mset (prof_branches q) \<and> mset (prof_loops p) = mset (prof_loops q) \<and>
     prof_version p = prof_version q \<and> prof_max_fn p = prof_max_fn q \<and> prof_max_block p = prof_max_block q"

lemma sort_key_strict: "distinct (map key xs) \<Longrightarrow> sorted_wrt (<) (map key (sort_key key xs))"
  by (simp add: strict_sorted_iff distinct_map)

lemma sort_profile_sorted: "storable quot p \<Longrightarrow> tables_sorted (sort_profile p)"
  unfolding storable_def tables_sorted_def sort_profile_def by (intro conjI) (simp_all add: sort_key_strict)

lemma sort_profile_entries: "same_entries (sort_profile p) p"
  by (simp add: same_entries_def sort_profile_def)

section \<open>Properties\<close>

text \<open>Whatever is recorded in whatever order: the count of a function or a block is the sum of what was
  recorded for it, modulo 2 to the 64, and a branch has counts exactly if it was recorded, one sum for each side.\<close>

theorem profile_counts_accumulate:
  "cco_profile_get_function_count (recorded quot es) f = sum_list (map (fn_part f) es) \<and>
   cco_profile_get_block_count (recorded quot es) f b = sum_list (map (block_part f b) es) \<and>
   cco_profile_get_branch_counts (recorded quot es) f b =
     (if list_ex (names_branch f b) es
      then Some (sum_list (map (fst \<circ> branch_part f b) es), sum_list (map (snd \<circ> branch_part f b) es)) else None)"
proof (induction es rule: rev_induct)
  case Nil
  show ?case by (simp add: recorded_def cco_profile_create_def cco_profile_get_function_count_def cco_profile_get_block_count_def
      cco_profile_get_branch_counts_def)
next
  case (snoc e es)
  have "branch_part f b e = (0, 0)" if "\<not> names_branch f b e" for e
    using that by (cases e) (auto simp: names_branch_def)
  then have zero: "sum_list (map (fst \<circ> branch_part f b) es) = 0 \<and> sum_list (map (snd \<circ> branch_part f b) es) = 0" if "\<not> list_ex (names_branch f b) es"
    using that by (induction es) auto
  show ?case using snoc zero by (auto simp: recorded_snoc function_count_step block_count_step branch_counts_step prod_eq_iff)
qed

text \<open>C22. A profile of names without white space, of functions without dots and of at most 255 characters, whose counts do
  not overflow, survives the file: saving succeeds and sorts the tables by their names; loading the text
  gives the saved profile again; it has the same entries in each of the four tables, functions, blocks,
  branches and loops, as the recorded one, only in that order, and every count that is asked for is the one before.\<close>

theorem profile_file_round_trip:
  assumes "\<And>e. e \<in> set es \<Longrightarrow> event_ok e" and "sum_list (map weight es) < 2 ^ 64"
  shows "\<exists>text p. cco_profile_save None path (recorded quot es) = Inr (text, p) \<and> cco_profile_load quot (Inr text) path = Inr p \<and>
    tables_sorted p \<and> same_entries p (recorded quot es) \<and>
    (\<forall>f. cco_profile_get_function_count p f = cco_profile_get_function_count (recorded quot es) f) \<and>
    (\<forall>f b. cco_profile_get_block_count p f b = cco_profile_get_block_count (recorded quot es) f b) \<and>
    (\<forall>f b. cco_profile_get_branch_counts p f b = cco_profile_get_branch_counts (recorded quot es) f b)"
proof -
  have s: "storable quot (recorded quot es)" using recorded_storable assms by blast
  have "cco_profile_load quot (Inr (profile_text (sort_profile (recorded quot es)))) path = Inr (sort_profile (recorded quot es))"
    by (rule load_stored [OF storable_sort [OF s]])
  then show ?thesis using sorted_counts [OF s] sort_profile_sorted [OF s] sort_profile_entries
    by (simp add: cco_profile_save_def Let_def)
qed

theorem profile_file_round_trip_witness:
  "\<exists>text p. cco_profile_save None ''a.prof'' (recorded (\<lambda>a b. a) [AtFunction ''main'' 3, AtBlock ''main'' ''entry'' 3]) = Inr (text, p) \<and>
    cco_profile_load (\<lambda>a b. a) (Inr text) ''a.prof'' = Inr p \<and> tables_sorted p \<and> cco_profile_get_function_count p ''main'' = 3"
proof -
  have "event_ok e" if "e \<in> set [AtFunction ''main'' 3, AtBlock ''main'' ''entry'' 3]" for e
    using that by (auto simp: name_ok_def key_ok_def isspace_def)
  then have "\<exists>text p. cco_profile_save None ''a.prof'' (recorded (\<lambda>a b. a) [AtFunction ''main'' 3, AtBlock ''main'' ''entry'' 3]) = Inr (text, p) \<and>
      cco_profile_load (\<lambda>a b. a) (Inr text) ''a.prof'' = Inr p \<and> tables_sorted p \<and>
      (\<forall>f. cco_profile_get_function_count p f =
         cco_profile_get_function_count (recorded (\<lambda>a b. a) [AtFunction ''main'' 3, AtBlock ''main'' ''entry'' 3]) f)"
    using profile_file_round_trip [of "[AtFunction ''main'' 3, AtBlock ''main'' ''entry'' 3]" "''a.prof''" "\<lambda>a b. a"] by auto
  moreover have "cco_profile_get_function_count (recorded (\<lambda>a b. a) [AtFunction ''main'' 3, AtBlock ''main'' ''entry'' 3]) ''main'' = 3"
    by (simp add: recorded_def cco_profile_add_function_def cco_profile_add_block_def cco_profile_create_def cco_profile_get_function_count_def fn_is_def)
  ultimately show ?thesis by auto
qed

section \<open>An overflow of the bias test\<close>

text \<open>A branch taken once and not taken 2 to the 62 times counts as biased to the true side.\<close>

theorem branch_bias_wraps:
  "cco_profile_is_branch_biased (cco_profile_add_branch f b 1 (2 ^ 62) cco_profile_create) f b = Some True"
proof -
  have "4 * 2 ^ 62 \<le> (1 :: u64)" "\<not> 1 + 2 ^ 62 < (10 :: u64)" by (simp_all only: word_le_nat_alt word_less_nat_alt) simp_all
  then show ?thesis unfolding cco_profile_is_branch_biased_def cco_profile_get_branch_counts_def
    by (simp only: cco_profile_add_branch_def cco_profile_create_def profile.simps upsert.simps branch_is_def branch_profile.simps
        List.find.simps simp_thms if_True if_False option.case option.map prod.case)
qed

end
