(* ===== verification/Ir_Ipa.thy ===== *)
theory Ir_Ipa
  imports Ir_Ssa_Opt Ir_Profile
begin

text \<open>
  Interprocedural analysis, \<open>src/ir/ir_ipa.c\<close>: the call graph with recursion, reachability, purity and
  inlining cost, inlining guided by a profile, removal of dead functions and the drivers; also the
  pipeline of a module in \<open>ir_ssa.c\<close>, the decision log of \<open>ir_profile.c\<close> and the profile figures of
  loops in \<open>ir_loop.c\<close>. A node of the call graph is the index of its function in the module.
  \<open>None\<close> stands for a loop or a recursion that does not end, for a failed inlining, after which the code
  goes on with a detached instruction, and for a failed clean-up, whose result is not kept. The list of
  incoming calls, which nothing reads, the dumps and the collection of statistics are left out.
\<close>

section \<open>The call graph\<close>

datatype ir_purity = IR_PURITY_UNKNOWN | IR_PURITY_PURE | IR_PURITY_READONLY | IR_PURITY_SIDE_EFFECTING

fun ir_purity_to_string :: "ir_purity \<Rightarrow> string" where
  "ir_purity_to_string IR_PURITY_PURE = ''PURE''"
| "ir_purity_to_string IR_PURITY_READONLY = ''READONLY''"
| "ir_purity_to_string IR_PURITY_SIDE_EFFECTING = ''SIDE_EFFECTING''"
| "ir_purity_to_string IR_PURITY_UNKNOWN = ''UNKNOWN''"

record call_site =
  cs_caller :: nat
  cs_callee :: "nat option"
  cs_inst :: ir_inst
  cs_block :: nat
  cs_const_args :: nat

record cg_node =
  cn_name :: string
  cn_inst_count :: nat
  cn_block_count :: nat
  cn_call_count :: nat
  cn_caller_count :: nat
  cn_recursive :: bool
  cn_in_cycle :: bool
  cn_reachable :: bool
  cn_entry :: bool
  cn_purity :: ir_purity
  cn_can_inline :: bool
  cn_cost :: nat
  cn_sites :: "call_site list"
  cn_index :: "nat option"
  cn_lowlink :: nat
  cn_on_stack :: bool
  cn_scc :: "nat option"

definition count_const_args :: "ir_inst \<Rightarrow> nat" where
  "count_const_args i = (if i_op i = IR_OP_CALL then count_if is_literal (i_args i) else 0)"

definition inst_cost :: "ir_inst \<Rightarrow> nat" where
  "inst_cost i =
     (if i_op i = IR_OP_CONST \<or> i_op i = IR_OP_RET then 0
      else if i_op i = IR_OP_CALL then 3
      else if i_op i \<in> {IR_OP_CONDBR, IR_OP_LOAD, IR_OP_STORE, IR_OP_PRINT, IR_OP_ALLOC, IR_OP_FREE, IR_OP_RELEASE} then 2
      else 1)"

definition calculate_inline_cost :: "ir_function \<Rightarrow> nat" where
  "calculate_inline_cost f = sum_list (map inst_cost (fn_insts f))"

definition find_node :: "cg_node list \<Rightarrow> string option \<Rightarrow> nat option" where
  "find_node ns name =
     (case name of None \<Rightarrow> None | Some s \<Rightarrow> List.find (\<lambda>i. cn_name (ns ! i) = s) [0..<length ns])"

definition new_node :: "ir_function \<Rightarrow> cg_node" where
  "new_node f = \<lparr>cn_name = fn_name f, cn_inst_count = length (fn_insts f), cn_block_count = length (fn_order f),
     cn_call_count = 0, cn_caller_count = 0, cn_recursive = False, cn_in_cycle = False, cn_reachable = (fn_name f = ''main''),
     cn_entry = (fn_name f = ''main''), cn_purity = IR_PURITY_PURE, cn_can_inline = False, cn_cost = 0, cn_sites = [],
     cn_index = None, cn_lowlink = 0, cn_on_stack = False, cn_scc = None\<rparr>"

text \<open>The last function called main.\<close>

definition entry_node :: "ir_module \<Rightarrow> nat option" where
  "entry_node m = List.find (\<lambda>i. fn_name (m_functions m ! i) = ''main'') (rev [0..<length (m_functions m)])"

definition add_call :: "nat \<Rightarrow> nat \<Rightarrow> ir_inst \<Rightarrow> cg_node list \<Rightarrow> cg_node list" where
  "add_call caller b i ns =
     (if i_op i \<noteq> IR_OP_CALL then ns
      else let callee = find_node ns (i_callee i);
               site = \<lparr>cs_caller = caller, cs_callee = callee, cs_inst = i, cs_block = b, cs_const_args = count_const_args i\<rparr>;
               ns = ns[caller := (ns ! caller)\<lparr>cn_call_count := cn_call_count (ns ! caller) + 1, cn_sites := site # cn_sites (ns ! caller)\<rparr>]
           in case callee of
                None \<Rightarrow> ns
              | Some c \<Rightarrow> ns[c := (ns ! c)\<lparr>cn_caller_count := cn_caller_count (ns ! c) + 1,
                    cn_recursive := (cn_recursive (ns ! c) \<or> c = caller)\<rparr>])"

definition add_calls :: "ir_module \<Rightarrow> nat \<Rightarrow> cg_node list \<Rightarrow> cg_node list" where
  "add_calls m caller ns =
     (let f = m_functions m ! caller
      in fold (\<lambda>b. fold (add_call caller b) (bb_insts (block_at f b))) (fn_order f) ns)"

definition linked_nodes :: "ir_module \<Rightarrow> cg_node list" where
  "linked_nodes m = fold (add_calls m) [0..<length (m_functions m)] (map new_node (m_functions m))"

section \<open>Recursion\<close>

record tarjan_state =
  ts_nodes :: "cg_node list"
  ts_index :: nat
  ts_stack :: "nat list"
  ts_scc_count :: nat

definition set_node :: "nat \<Rightarrow> (cg_node \<Rightarrow> cg_node) \<Rightarrow> tarjan_state \<Rightarrow> tarjan_state" where
  "set_node u g ts = ts\<lparr>ts_nodes := (ts_nodes ts)[u := g (ts_nodes ts ! u)]\<rparr>"

definition enter_node :: "nat \<Rightarrow> tarjan_state \<Rightarrow> tarjan_state" where
  "enter_node u ts =
     set_node u (\<lambda>n. n\<lparr>cn_index := Some (ts_index ts), cn_lowlink := ts_index ts, cn_on_stack := True\<rparr>)
       (ts\<lparr>ts_index := ts_index ts + 1, ts_stack := u # ts_stack ts\<rparr>)"

definition lower_link :: "nat \<Rightarrow> nat \<Rightarrow> tarjan_state \<Rightarrow> tarjan_state" where
  "lower_link u k ts = (if k < cn_lowlink (ts_nodes ts ! u) then set_node u (\<lambda>n. n\<lparr>cn_lowlink := k\<rparr>) ts else ts)"

definition leave_stack :: "nat \<Rightarrow> nat \<Rightarrow> tarjan_state \<Rightarrow> tarjan_state" where
  "leave_stack scc w ts = set_node w (\<lambda>n. n\<lparr>cn_on_stack := False, cn_scc := Some scc\<rparr>) ts"

text \<open>The component on top of the stack down to \<open>u\<close>; only 64 nodes of it are kept to be marked.\<close>

definition pop_component :: "nat \<Rightarrow> tarjan_state \<Rightarrow> tarjan_state" where
  "pop_component u ts =
     (let above = takeWhile (\<lambda>w. w \<noteq> u) (ts_stack ts);
          ws = (if u \<in> set (ts_stack ts) then above @ [u] else above);
          kept = take 64 ws; scc = ts_scc_count ts;
          ts = fold (leave_stack scc) ws (ts\<lparr>ts_scc_count := scc + 1, ts_stack := drop (length ws) (ts_stack ts)\<rparr>);
          mark = (\<lambda>w. set_node w (\<lambda>n. n\<lparr>cn_in_cycle := True, cn_can_inline := False\<rparr>))
      in if length kept > 1 then fold mark kept ts
         else if length kept = 1 \<and> cn_recursive (ts_nodes ts ! u) then mark u ts
         else ts)"

text \<open>The recursion, with a bound on its depth.\<close>

fun tarjan_scc :: "nat \<Rightarrow> nat \<Rightarrow> tarjan_state \<Rightarrow> tarjan_state option" where
  "tarjan_scc 0 u ts = None"
| "tarjan_scc (Suc d) u ts =
     map_option (\<lambda>ts. if Some (cn_lowlink (ts_nodes ts ! u)) = cn_index (ts_nodes ts ! u) then pop_component u ts else ts)
       (fold (\<lambda>site acc. Option.bind acc (\<lambda>ts.
            case cs_callee site of
              None \<Rightarrow> Some ts
            | Some v \<Rightarrow>
                (case cn_index (ts_nodes ts ! v) of
                   None \<Rightarrow> map_option (\<lambda>ts. lower_link u (cn_lowlink (ts_nodes ts ! v)) ts) (tarjan_scc d v ts)
                 | Some k \<Rightarrow> Some (if cn_on_stack (ts_nodes ts ! v) then lower_link u k ts else ts))))
          (cn_sites (ts_nodes ts ! u)) (Some (enter_node u ts)))"

definition start_component :: "nat \<Rightarrow> nat \<Rightarrow> tarjan_state \<Rightarrow> tarjan_state option" where
  "start_component n u ts = (if cn_index (ts_nodes ts ! u) = None then tarjan_scc (n + 1) u ts else Some ts)"

definition find_cycles :: "cg_node list \<Rightarrow> cg_node list option" where
  "find_cycles ns =
     map_option ts_nodes
       (fold (\<lambda>u acc. Option.bind acc (start_component (length ns) u)) [0..<length ns]
          (Some \<lparr>ts_nodes = ns, ts_index = 0, ts_stack = [], ts_scc_count = 0\<rparr>))"

section \<open>Reachability and purity\<close>

definition reach_site :: "call_site \<Rightarrow> nat list \<times> cg_node list \<Rightarrow> nat list \<times> cg_node list" where
  "reach_site site = (\<lambda>(queue, ns).
     case cs_callee site of
       None \<Rightarrow> (queue, ns)
     | Some c \<Rightarrow> if cn_reachable (ns ! c) then (queue, ns) else (queue @ [c], ns[c := (ns ! c)\<lparr>cn_reachable := True\<rparr>]))"

definition reach_next :: "nat list \<times> cg_node list \<Rightarrow> nat list \<times> cg_node list" where
  "reach_next = (\<lambda>(queue, ns). fold reach_site (cn_sites (ns ! hd queue)) (tl queue, ns))"

definition mark_reachable :: "nat option \<Rightarrow> cg_node list \<Rightarrow> cg_node list option" where
  "mark_reachable entry ns =
     (case entry of
        None \<Rightarrow> Some (map (\<lambda>n. n\<lparr>cn_reachable := True\<rparr>) ns)
      | Some e \<Rightarrow> map_option snd
          (while_option (\<lambda>s. fst s \<noteq> []) reach_next ([e], ns[e := (ns ! e)\<lparr>cn_reachable := True\<rparr>])))"

definition library_effect :: "string option \<Rightarrow> bool" where
  "library_effect name \<longleftrightarrow> name \<in> {Some ''printf'', Some ''malloc'', Some ''free'', Some ''exit''}"

definition has_effect :: "ir_inst \<Rightarrow> bool" where
  "has_effect i \<longleftrightarrow> i_op i \<in> {IR_OP_PRINT, IR_OP_STORE, IR_OP_ALLOC, IR_OP_FREE, IR_OP_RELEASE} \<or>
     (i_op i = IR_OP_CALL \<and> library_effect (i_callee i))"

definition own_purity :: "ir_function \<Rightarrow> ir_purity" where
  "own_purity f =
     (if list_ex has_effect (fn_insts f) then IR_PURITY_SIDE_EFFECTING
      else if list_ex (\<lambda>i. i_op i = IR_OP_LOAD) (fn_insts f) then IR_PURITY_READONLY else IR_PURITY_PURE)"

text \<open>The purity of a node after a look at its calls.\<close>

fun sites_purity :: "cg_node list \<Rightarrow> call_site list \<Rightarrow> ir_purity \<Rightarrow> ir_purity" where
  "sites_purity ns [] p = p"
| "sites_purity ns (site # sites) p =
     (case cs_callee site of
        None \<Rightarrow> IR_PURITY_SIDE_EFFECTING
      | Some c \<Rightarrow>
          if cn_purity (ns ! c) = IR_PURITY_SIDE_EFFECTING then IR_PURITY_SIDE_EFFECTING
          else if cn_purity (ns ! c) = IR_PURITY_READONLY \<and> p = IR_PURITY_PURE then sites_purity ns sites IR_PURITY_READONLY
          else sites_purity ns sites p)"

definition purity_step :: "nat \<Rightarrow> cg_node list \<times> bool \<Rightarrow> cg_node list \<times> bool" where
  "purity_step i = (\<lambda>(ns, changed).
     let old = cn_purity (ns ! i); new = (if old = IR_PURITY_SIDE_EFFECTING then old else sites_purity ns (cn_sites (ns ! i)) old)
     in (ns[i := (ns ! i)\<lparr>cn_purity := new\<rparr>], changed \<or> new \<noteq> old))"

definition spread_purity :: "cg_node list \<Rightarrow> cg_node list option" where
  "spread_purity ns = map_option fst
     (while_option snd (\<lambda>(ns, _). fold purity_step [0..<length ns] (ns, False)) (ns, True))"

definition IR_DEFAULT_INLINE_THRESHOLD :: nat where
  "IR_DEFAULT_INLINE_THRESHOLD = 35"

definition classify_node :: "ir_function \<times> cg_node \<Rightarrow> cg_node" where
  "classify_node = (\<lambda>(f, n).
     n\<lparr>cn_cost := calculate_inline_cost f,
       cn_can_inline := (\<not> cn_entry n \<and> \<not> cn_recursive n \<and> \<not> cn_in_cycle n \<and> calculate_inline_cost f \<le> IR_DEFAULT_INLINE_THRESHOLD)\<rparr>)"

definition ir_callgraph_build :: "ir_module \<Rightarrow> cg_node list option" where
  "ir_callgraph_build m =
     Option.bind (find_cycles (linked_nodes m)) (\<lambda>ns.
       Option.bind (mark_reachable (entry_node m) ns) (\<lambda>ns.
         map_option (\<lambda>ns. map classify_node (zip (m_functions m) ns))
           (spread_purity (map (\<lambda>(f, n). n\<lparr>cn_purity := own_purity f\<rparr>) (zip (m_functions m) ns)))))"

section \<open>Dead functions\<close>

definition is_dead :: "cg_node list \<Rightarrow> ir_function \<Rightarrow> bool" where
  "is_dead ns f \<longleftrightarrow> (case find_node ns (Some (fn_name f)) of
     Some i \<Rightarrow> \<not> cn_entry (ns ! i) \<and> \<not> cn_reachable (ns ! i) | None \<Rightarrow> False)"

text \<open>The module and the number of functions removed.\<close>

definition ir_ipa_eliminate_dead_functions :: "ir_module \<Rightarrow> cg_node list option \<Rightarrow> (ir_module \<times> nat) option" where
  "ir_ipa_eliminate_dead_functions m cg =
     map_option (\<lambda>ns. (m\<lparr>m_functions := filter (\<lambda>f. \<not> is_dead ns f) (m_functions m)\<rparr>, count_if (is_dead ns) (m_functions m)))
       (case cg of Some ns \<Rightarrow> Some ns | None \<Rightarrow> ir_callgraph_build m)"

section \<open>Inlining a call\<close>

text \<open>Values of the callee in the caller, by register and by parameter.\<close>

definition remap_val :: "nat \<Rightarrow> (nat \<Rightarrow> ir_value option) \<Rightarrow> ir_value list \<Rightarrow> ir_value option \<Rightarrow> ir_value option" where
  "remap_val sz vmap pmap v =
     (case v of
        None \<Rightarrow> None
      | Some u \<Rightarrow>
          if v_kind u = IR_VAL_PARAM \<and> v_id u < length pmap then Some (pmap ! v_id u)
          else if v_kind u = IR_VAL_REG \<and> v_id u < sz \<and> vmap (v_id u) \<noteq> None then vmap (v_id u)
          else v)"

definition param_values :: "ir_function \<Rightarrow> ir_value list \<Rightarrow> ir_value list" where
  "param_values callee args =
     map (\<lambda>k. if k < length args then args ! k else ir_val_const_int (Some (p_type (fn_params callee ! k))) 0) [0..<length (fn_params callee)]"

definition fresh_value :: "nat \<Rightarrow> ir_inst \<Rightarrow> ir_function \<times> (nat \<Rightarrow> ir_value option) \<Rightarrow> ir_function \<times> (nat \<Rightarrow> ir_value option)" where
  "fresh_value sz i = (\<lambda>(f, vmap).
     case i_result i of
       Some r \<Rightarrow>
         if v_kind r = IR_VAL_REG \<and> v_id r < sz
         then (f\<lparr>fn_next_reg := fn_next_reg f + 1\<rparr>, vmap(v_id r := Some (ir_val_reg (v_type r) (fn_next_reg f)))) else (f, vmap)
     | None \<Rightarrow> (f, vmap))"

text \<open>A block that takes a number for its name and another one when it is created.\<close>

definition numbered_block :: "nat \<Rightarrow> string \<Rightarrow> ir_function \<Rightarrow> ir_function \<times> nat" where
  "numbered_block sz prefix f =
     ir_block_create (f\<lparr>fn_next_block := fn_next_block f + 1\<rparr>) (Some (snprintf_buf sz (prefix @ decimal (fn_next_block f))))"

definition clone_block :: "ir_function \<Rightarrow> nat \<Rightarrow> ir_function \<times> (nat \<Rightarrow> nat option) \<Rightarrow> ir_function \<times> (nat \<Rightarrow> nat option)" where
  "clone_block callee b = (\<lambda>(f, bmap).
     case numbered_block 128 (''inl.'' @ fn_name callee @ ''.'' @ bb_name (block_at callee b) @ ''.'') f of
       (f, x) \<Rightarrow> (f, bmap(bb_id (block_at callee b) := Some x)))"

record inline_state =
  in_builder :: ir_builder
  in_vmap :: "nat \<Rightarrow> ir_value option"
  in_rets :: "(nat \<times> ir_value option) list"

record inline_env =
  ie_callee :: ir_function
  ie_size :: nat
  ie_pmap :: "ir_value list"
  ie_bmap :: "nat \<Rightarrow> nat option"
  ie_cont :: nat
  ie_entry :: "nat option"

definition mapped_block :: "inline_env \<Rightarrow> nat option \<Rightarrow> nat option" where
  "mapped_block env t = (case t of Some b \<Rightarrow> ie_bmap env (bb_id (block_at (ie_callee env) b)) | None \<Rightarrow> Some (ie_cont env))"

definition mapped_val :: "inline_env \<Rightarrow> inline_state \<Rightarrow> ir_value option \<Rightarrow> ir_value option" where
  "mapped_val env st v = remap_val (ie_size env) (in_vmap st) (ie_pmap env) v"

text \<open>The result of a copy; the code does not look at the kind of the result it replaces.\<close>

definition mapped_result :: "inline_env \<Rightarrow> inline_state \<Rightarrow> ir_value option \<Rightarrow> ir_value option \<Rightarrow> ir_value option" where
  "mapped_result env st r old = (case r of Some v \<Rightarrow> if v_id v < ie_size env then in_vmap st (v_id v) else old | None \<Rightarrow> old)"

definition clone_ret :: "inline_env \<Rightarrow> nat \<Rightarrow> ir_inst \<Rightarrow> inline_state \<Rightarrow> inline_state" where
  "clone_ret env x i st =
     st\<lparr>in_rets := (if length (in_rets st) < 64 then in_rets st @ [(x, mapped_val env st (i_lhs i))] else in_rets st),
        in_builder := fst (ir_emit_br (Some (ie_cont env)) (in_builder st))\<rparr>"

text \<open>An alloca goes to the entry block of the caller. Its result is a variable, whose number is 0.\<close>

definition clone_alloca :: "inline_env \<Rightarrow> ir_inst \<Rightarrow> inline_state \<Rightarrow> inline_state" where
  "clone_alloca env i st =
     (case ir_emit_alloca (i_type i) (Some (case i_field_name i of Some n \<Rightarrow> n | None \<Rightarrow> ''inl.var''))
             (ir_builder_set_insert_block (ie_entry env) (in_builder st)) of
        (bd, j) \<Rightarrow>
          st\<lparr>in_builder := ir_builder_set_insert_block (bd_block (in_builder st)) bd,
             in_vmap := (case i_result i of
                Some r \<Rightarrow> if v_id r < ie_size env then (in_vmap st)(v_id r := i_result j) else in_vmap st | None \<Rightarrow> in_vmap st)\<rparr>)"

definition mapped_incoming :: "inline_env \<Rightarrow> inline_state \<Rightarrow> nat option \<times> ir_value option \<Rightarrow> ir_inst \<Rightarrow> ir_inst" where
  "mapped_incoming env st e phi =
     (let p = (case fst e of Some b \<Rightarrow> mapped_block env (Some b) | None \<Rightarrow> None); v = mapped_val env st (snd e)
      in if p \<noteq> None \<and> v \<noteq> None then ir_phi_add_incoming phi p v else phi)"

definition clone_phi :: "inline_env \<Rightarrow> ir_inst \<Rightarrow> inline_state \<Rightarrow> inline_state" where
  "clone_phi env i st =
     (case ir_builder_next_reg (i_type i) (in_builder st) of
        (bd, r) \<Rightarrow>
          st\<lparr>in_builder := builder_append
               (fold (mapped_incoming env st) (i_phis i)
                 ((create_instruction IR_OP_PHI (i_type i))\<lparr>i_result := mapped_result env st (i_result i) (Some r)\<rparr>)) bd\<rparr>)"

definition clone_general :: "inline_env \<Rightarrow> nat \<Rightarrow> ir_inst \<Rightarrow> inline_state \<Rightarrow> inline_state" where
  "clone_general env x i st =
     (let j = i\<lparr>i_result := mapped_result env st (i_result i) (i_result i), i_lhs := mapped_val env st (i_lhs i),
                i_rhs := mapped_val env st (i_rhs i), i_args := map (\<lambda>a. the (mapped_val env st (Some a))) (i_args i)\<rparr>
      in st\<lparr>in_builder := (in_builder st)\<lparr>bd_fn := update_block x (ir_block_add_instruction j) (bd_fn (in_builder st))\<rparr>\<rparr>)"

definition clone_inst :: "inline_env \<Rightarrow> nat \<Rightarrow> ir_inst \<Rightarrow> inline_state \<Rightarrow> inline_state" where
  "clone_inst env x i st =
     (if i_op i = IR_OP_RET then clone_ret env x i st
      else if i_op i = IR_OP_ALLOCA then clone_alloca env i st
      else if i_op i = IR_OP_PHI then clone_phi env i st
      else if i_op i = IR_OP_BR then st\<lparr>in_builder := fst (ir_emit_br (mapped_block env (i_true i)) (in_builder st))\<rparr>
      else if i_op i = IR_OP_CONDBR
      then st\<lparr>in_builder := fst (ir_emit_condbr (mapped_val env st (i_lhs i)) (mapped_block env (i_true i)) (mapped_block env (i_false i)) (in_builder st))\<rparr>
      else clone_general env x i st)"

definition clone_insts :: "inline_env \<Rightarrow> nat \<Rightarrow> inline_state \<Rightarrow> inline_state" where
  "clone_insts env b st =
     (let x = the (ie_bmap env (bb_id (block_at (ie_callee env) b)))
      in fold (clone_inst env x) (bb_insts (block_at (ie_callee env) b)) (st\<lparr>in_builder := ir_builder_set_insert_block (Some x) (in_builder st)\<rparr>))"

text \<open>The uses of the result of the call.\<close>

definition replace_result :: "nat \<Rightarrow> ir_value \<Rightarrow> ir_inst \<Rightarrow> ir_inst" where
  "replace_result r w i =
     (let g = (\<lambda>v. case v of Some u \<Rightarrow> if v_kind u = IR_VAL_REG \<and> v_id u = r then Some w else v | None \<Rightarrow> None)
      in i\<lparr>i_lhs := g (i_lhs i), i_rhs := g (i_rhs i), i_args := map (\<lambda>a. the (g (Some a))) (i_args i), i_phis := map (\<lambda>(b, v). (b, g v)) (i_phis i)\<rparr>)"

definition returned_value :: "ir_value \<Rightarrow> ir_value option \<Rightarrow> ir_value" where
  "returned_value r v = (case v of Some w \<Rightarrow> w | None \<Rightarrow> ir_val_const_int (Some (v_type r)) 0)"

definition wire_result :: "ir_value option \<Rightarrow> nat \<Rightarrow> (nat \<times> ir_value option) list \<Rightarrow> ir_function \<Rightarrow> ir_function" where
  "wire_result result cont rets f =
     (case result of
        None \<Rightarrow> f
      | Some r \<Rightarrow>
          if rets = [] then f
          else if length rets = 1 then map_insts (replace_result (v_id r) (returned_value r (snd (hd rets)))) f
          else update_block cont (\<lambda>bb. bb\<lparr>bb_insts :=
                 fold (\<lambda>(b, v) phi. ir_phi_add_incoming phi (Some b) (Some (returned_value r v))) rets
                   ((create_instruction IR_OP_PHI (v_type r))\<lparr>i_result := Some r, i_field_index := 0\<rparr>) # bb_insts bb\<rparr>) f)"

text \<open>The call at position \<open>k\<close> of a block; the new function, before it is verified.\<close>

definition inlined_call :: "ir_function \<Rightarrow> nat \<Rightarrow> nat \<Rightarrow> ir_function \<Rightarrow> ir_function" where
  "inlined_call f b k callee =
     (let call = inst_at f b k; succs = bb_succs (block_at f b);
          (f, cont) = numbered_block 64 ''inline.cont.'' f;
          f = update_block cont (\<lambda>bb. bb\<lparr>bb_insts := drop (Suc k) (bb_insts (block_at f b))\<rparr>) f;
          f = update_block b (\<lambda>bb. bb\<lparr>bb_insts := take k (bb_insts bb)\<rparr>) f;
          f = fold (\<lambda>s. update_block s (map_phis (move_incoming b cont))) succs f;
          sz = fn_next_reg callee + 64;
          (f, vmap) = fold (fresh_value sz) (fn_insts callee) (f, \<lambda>_. None);
          (f, bmap) = fold (clone_block callee) (fn_order callee) (f, \<lambda>_. None);
          env = \<lparr>ie_callee = callee, ie_size = sz, ie_pmap = param_values callee (i_args call), ie_bmap = bmap, ie_cont = cont, ie_entry = fn_entry f\<rparr>;
          bd = ir_builder_set_insert_block (Some b) (ir_builder_init f);
          bd = fst (ir_emit_br (mapped_block env (fn_entry callee)) bd);
          st = fold (clone_insts env) (fn_order callee) \<lparr>in_builder = bd, in_vmap = vmap, in_rets = []\<rparr>
      in ir_recompute_cfg (wire_result (i_result call) cont (in_rets st) (bd_fn (in_builder st))))"

text \<open>\<open>Inl\<close> is the message of the verifier.\<close>

definition inline_call_site :: "ir_function \<Rightarrow> nat \<Rightarrow> nat \<Rightarrow> ir_function \<Rightarrow> (string + ir_function) option" where
  "inline_call_site f b k callee =
     (let g = inlined_call f b k callee
      in map_option (\<lambda>e. case e of Some msg \<Rightarrow> Inl msg | None \<Rightarrow> Inr g) (ir_ssa_verify_function g None))"

section \<open>Decisions\<close>

record inline_decision =
  dc_caller :: string
  dc_callee :: string
  dc_count :: u64
  dc_cost :: nat
  dc_weight :: string
  dc_inlined :: bool
  dc_reason :: string

text \<open>The log, newest first.\<close>

definition cco_profile_record_inline_decision :: "inline_decision \<Rightarrow> inline_decision list \<Rightarrow> inline_decision list" where
  "cco_profile_record_inline_decision d log = d # log"

definition cco_profile_clear_inline_decisions :: "inline_decision list \<Rightarrow> inline_decision list" where
  "cco_profile_clear_inline_decisions log = []"

definition IR_MAX_INLINE_HARD_CEILING :: nat where
  "IR_MAX_INLINE_HARD_CEILING = 80"

definition call_weight :: "profile option \<Rightarrow> string \<Rightarrow> string \<Rightarrow> string \<Rightarrow> u64" where
  "call_weight prof caller block callee =
     (case prof of
        None \<Rightarrow> 0
      | Some p \<Rightarrow>
          (let n = cco_profile_get_block_count p caller block in if n > 0 then n else cco_profile_get_function_count p callee))"

definition weight_class :: "profile option \<Rightarrow> int \<Rightarrow> string \<Rightarrow> string \<Rightarrow> string \<Rightarrow> string \<times> int" where
  "weight_class prof threshold caller block callee =
     (case prof of
        None \<Rightarrow> (''unknown'', threshold)
      | Some p \<Rightarrow>
          (let n = call_weight prof caller block callee
           in if n \<ge> 1000 \<or> cco_profile_is_function_hot p callee
              then (''hot'', min (threshold + 30) (int IR_MAX_INLINE_HARD_CEILING))
              else if n = 0 \<or> cco_profile_is_block_cold p caller block then (''cold'', 15)
              else (''warm'', threshold)))"

definition refusal :: "nat \<Rightarrow> nat \<Rightarrow> cg_node \<Rightarrow> int \<Rightarrow> string option" where
  "refusal caller c n threshold =
     (if c = caller then Some ''self-recursion''
      else if cn_recursive n \<or> cn_in_cycle n then Some ''recursive / cyclic''
      else if cn_entry n then Some ''entry function''
      else if cn_cost n > IR_MAX_INLINE_HARD_CEILING then Some ''size threshold exceeded''
      else if int (cn_cost n) > threshold then Some ''cost exceeds threshold''
      else None)"

text \<open>What is decided for one instruction: nothing to do, an entry for the log, and whether to inline.\<close>

definition decide_call ::
  "cg_node list \<Rightarrow> int \<Rightarrow> profile option \<Rightarrow> nat \<Rightarrow> ir_function \<Rightarrow> nat \<Rightarrow> ir_inst \<Rightarrow> (nat \<times> inline_decision) option" where
  "decide_call ns threshold prof caller f b i =
     (if i_op i \<noteq> IR_OP_CALL then None
      else map_option (\<lambda>c.
        (let name = cn_name (ns ! c); block = bb_name (block_at f b); wc = weight_class prof threshold (fn_name f) block name; no = refusal caller c (ns ! c) (snd wc)
         in (c, \<lparr>dc_caller = fn_name f, dc_callee = name, dc_count = call_weight prof (fn_name f) block name, dc_cost = cn_cost (ns ! c),
               dc_weight = fst wc, dc_inlined = (no = None),
               dc_reason = (case no of Some r \<Rightarrow> r | None \<Rightarrow> if fst wc = ''hot'' then ''hot call within boosted threshold'' else ''within threshold'')\<rparr>)))
        (find_node ns (i_callee i)))"

text \<open>The first call to be inlined, with the decisions up to it.\<close>

fun scan_calls ::
  "(nat \<Rightarrow> ir_inst \<Rightarrow> (nat \<times> inline_decision) option) \<Rightarrow> (nat \<times> nat \<times> ir_inst) list \<Rightarrow> inline_decision list \<Rightarrow> inline_decision list \<times> (nat \<times> nat \<times> nat) option" where
  "scan_calls decide [] log = (log, None)"
| "scan_calls decide ((b, k, i) # rest) log =
     (case decide b i of
        None \<Rightarrow> scan_calls decide rest log
      | Some (c, d) \<Rightarrow>
          (let log = cco_profile_record_inline_decision d log
           in if dc_inlined d then (log, Some (b, k, c)) else scan_calls decide rest log))"

definition located_insts :: "ir_function \<Rightarrow> (nat \<times> nat \<times> ir_inst) list" where
  "located_insts f = concat (map (\<lambda>b. map (\<lambda>k. (b, k, inst_at f b k)) [0..<length (bb_insts (block_at f b))]) (fn_order f))"

record inliner =
  il_fn :: ir_function
  il_count :: nat
  il_log :: "inline_decision list"
  il_again :: bool
  il_failed :: bool

text \<open>One round; the functions of the module are where the callees are found.\<close>

definition inline_round :: "cg_node list \<Rightarrow> int \<Rightarrow> profile option \<Rightarrow> ir_function list \<Rightarrow> nat \<Rightarrow> inliner \<Rightarrow> inliner" where
  "inline_round ns threshold prof fns caller s =
     (case scan_calls (decide_call ns threshold prof caller (il_fn s)) (located_insts (il_fn s)) (il_log s) of
        (log, None) \<Rightarrow> s\<lparr>il_log := log, il_again := False\<rparr>
      | (log, Some (b, k, c)) \<Rightarrow>
          (case inline_call_site (il_fn s) b k (fns ! c) of
             Some (Inr f) \<Rightarrow> s\<lparr>il_fn := f, il_count := il_count s + 1, il_log := log\<rparr>
           | _ \<Rightarrow> s\<lparr>il_again := False, il_failed := True\<rparr>))"

definition ir_ipa_inline_function_pgo ::
  "cg_node list \<Rightarrow> int \<Rightarrow> profile option \<Rightarrow> ir_function list \<Rightarrow> nat \<Rightarrow> inline_decision list \<Rightarrow> (ir_function \<times> nat \<times> inline_decision list) option" where
  "ir_ipa_inline_function_pgo ns threshold prof fns caller log =
     Option.bind (while_option il_again (inline_round ns threshold prof fns caller)
         \<lparr>il_fn = fns ! caller, il_count = 0, il_log = log, il_again = True, il_failed = False\<rparr>)
       (\<lambda>s. if il_failed s then None else Some (il_fn s, il_count s, il_log s))"

definition ir_ipa_inline_function ::
  "cg_node list \<Rightarrow> int \<Rightarrow> ir_function list \<Rightarrow> nat \<Rightarrow> inline_decision list \<Rightarrow> (ir_function \<times> nat \<times> inline_decision list) option" where
  "ir_ipa_inline_function ns threshold fns caller log = ir_ipa_inline_function_pgo ns threshold None fns caller log"

text \<open>All functions in order; \<open>after\<close> is what is done with a function into which something was inlined.\<close>

fun inline_functions ::
  "(ir_function \<Rightarrow> ir_function option) \<Rightarrow> cg_node list \<Rightarrow> int \<Rightarrow> profile option \<Rightarrow> nat list \<Rightarrow>
   ir_function list \<times> nat \<times> inline_decision list \<Rightarrow> (ir_function list \<times> nat \<times> inline_decision list) option" where
  "inline_functions after ns threshold prof [] s = Some s"
| "inline_functions after ns threshold prof (i # is) (fns, n, log) =
     Option.bind (ir_ipa_inline_function_pgo ns threshold prof fns i log) (\<lambda>(f, k, log).
       Option.bind (if k > 0 then after f else Some f) (\<lambda>f. inline_functions after ns threshold prof is (fns[i := f], n + k, log)))"

definition ir_ipa_inline_module_pgo ::
  "ir_module \<Rightarrow> int \<Rightarrow> profile option \<Rightarrow> inline_decision list \<Rightarrow> (ir_module \<times> nat \<times> inline_decision list) option" where
  "ir_ipa_inline_module_pgo m threshold prof log =
     Option.bind (ir_callgraph_build m) (\<lambda>ns.
       map_option (\<lambda>(fns, n, log). (m\<lparr>m_functions := fns\<rparr>, n, log))
         (inline_functions Some ns threshold prof [0..<length (m_functions m)] (m_functions m, 0, log)))"

definition ir_ipa_inline_module :: "ir_module \<Rightarrow> int \<Rightarrow> inline_decision list \<Rightarrow> (ir_module \<times> nat \<times> inline_decision list) option" where
  "ir_ipa_inline_module m threshold log = ir_ipa_inline_module_pgo m threshold None log"

section \<open>Drivers\<close>

record ipa_options =
  io_threshold :: int
  io_inline :: bool
  io_dfe :: bool
  io_profile :: "profile option"

text \<open>The module, the number of inlined calls and of removed functions, and the log.\<close>

definition clean_up :: "float_ops \<Rightarrow> bool \<Rightarrow> ir_function \<Rightarrow> ir_function option" where
  "clean_up fp verify f = Option.bind (ir_ssa_advanced_optimize_function fp verify f) (\<lambda>r. case r of Inr g \<Rightarrow> Some g | Inl e \<Rightarrow> None)"

definition ir_ipa_optimize_module ::
  "float_ops \<Rightarrow> ipa_options option \<Rightarrow> ir_module \<Rightarrow> inline_decision list \<Rightarrow> (ir_module \<times> nat \<times> nat \<times> inline_decision list) option" where
  "ir_ipa_optimize_module fp opts m log =
     (let threshold = (case opts of Some opt \<Rightarrow> if io_threshold opt > 0 then io_threshold opt else int IR_DEFAULT_INLINE_THRESHOLD
                         | None \<Rightarrow> int IR_DEFAULT_INLINE_THRESHOLD);
          inl = (case opts of Some opt \<Rightarrow> io_inline opt | None \<Rightarrow> True);
          dfe = (case opts of Some opt \<Rightarrow> io_dfe opt | None \<Rightarrow> True);
          prof = (case opts of Some opt \<Rightarrow> io_profile opt | None \<Rightarrow> None)
      in Option.bind (ir_callgraph_build m) (\<lambda>ns.
           Option.bind (if inl then inline_functions (clean_up fp True) ns threshold prof [0..<length (m_functions m)] (m_functions m, 0, log)
                        else Some (m_functions m, 0, log)) (\<lambda>(fns, n, log).
             let m = m\<lparr>m_functions := fns\<rparr>
             in if dfe then Option.bind (ir_callgraph_build m) (\<lambda>ns.
                    map_option (\<lambda>(m, r). (m, n, r, log)) (ir_ipa_eliminate_dead_functions m (Some ns)))
                else Some (m, n, 0, log))))"

record module_options =
  mo_ssa :: ssa_options
  mo_level :: int
  mo_inline :: bool
  mo_threshold :: int
  mo_dfe :: bool
  mo_dump_callgraph :: bool
  mo_profile :: "profile option"

definition is_ipa :: "module_options \<Rightarrow> bool" where
  "is_ipa opt \<longleftrightarrow> mo_level opt \<ge> 2 \<or> mo_inline opt \<or> mo_dfe opt \<or> mo_dump_callgraph opt"

text \<open>The steps of the interprocedural pipeline on the list of functions.\<close>

definition inline_step :: "float_ops \<Rightarrow> module_options \<Rightarrow> ir_module \<Rightarrow> inline_decision list \<Rightarrow> (ir_module \<times> inline_decision list) option" where
  "inline_step fp opt m log =
     Option.bind (ir_callgraph_build m) (\<lambda>ns.
       if mo_inline opt \<or> mo_level opt \<ge> 2
       then map_option (\<lambda>(fns, _, log). (m\<lparr>m_functions := fns\<rparr>, log))
              (inline_functions (clean_up fp (so_verify (mo_ssa opt))) ns
                 (if mo_threshold opt > 0 then mo_threshold opt else int IR_DEFAULT_INLINE_THRESHOLD) (mo_profile opt)
                 [0..<length (m_functions m)] (m_functions m, 0, log))
       else Some (m, log))"

definition dfe_step :: "module_options \<Rightarrow> ir_module \<Rightarrow> ir_module option" where
  "dfe_step opt m = (if mo_dfe opt \<or> mo_level opt \<ge> 2 then map_option fst (ir_ipa_eliminate_dead_functions m None) else Some m)"

definition each_step :: "(ir_function \<Rightarrow> (string option + ir_function) option) \<Rightarrow> ir_module \<Rightarrow> (string option + ir_module) option" where
  "each_step g m = map_option (map_sum id (\<lambda>fs. m\<lparr>m_functions := fs\<rparr>)) (each_optimized g (m_functions m))"

definition ir_ssa_pipeline_module ::
  "float_ops \<Rightarrow> module_options option \<Rightarrow> ir_module \<Rightarrow> inline_decision list \<Rightarrow> (string option + ir_module \<times> inline_decision list) option" where
  "ir_ssa_pipeline_module fp opts m log =
     (let keep = (\<lambda>f. Some (Inr f));
          construct = (\<lambda>f. map_option (map_sum Some fst) (ir_ssa_construct_function f));
          destruct = (\<lambda>m f. map_option (map_sum Some fst) (ir_ssa_deconstruct_function (Some m) f));
          andthen = (\<lambda>r g. Option.bind r (\<lambda>s. case s of Inl e \<Rightarrow> Some (Inl e) | Inr x \<Rightarrow> g x));
          single = andthen (each_step (ir_ssa_pipeline_function fp (map_option mo_ssa opts) (Some m)) m) (\<lambda>m. Some (Inr (m, log)))
      in case opts of
           None \<Rightarrow> single
         | Some opt \<Rightarrow>
             if \<not> is_ipa opt then single
             else andthen (each_step construct m) (\<lambda>m.
               andthen (each_step (if so_optimize (mo_ssa opt) then ir_ssa_advanced_optimize_function fp (so_verify (mo_ssa opt)) else keep) m) (\<lambda>m.
                 Option.bind (inline_step fp opt m log) (\<lambda>(m, log).
                   Option.bind (dfe_step opt m) (\<lambda>m.
                     andthen (each_step (if so_verify (mo_ssa opt) then opt_verified True else keep) m) (\<lambda>m.
                       map_option (map_sum id (\<lambda>m. (m, log))) (each_step (destruct m) m)))))))"

section \<open>Profile figures of loops\<close>

record loop_figures =
  lf_entries :: u64
  lf_iterations :: u64
  lf_average :: u64
  lf_hot :: bool

text \<open>The doubles of two counts are a parameter; ten is the double 10.0.\<close>

record count_ops =
  co_quotient :: "u64 \<Rightarrow> u64 \<Rightarrow> u64"
  co_double :: "u64 \<Rightarrow> u64"

definition loop_figures_of :: "count_ops \<Rightarrow> profile \<Rightarrow> ir_function \<Rightarrow> ir_loop \<Rightarrow> loop_figures" where
  "loop_figures_of ops prof f l =
     (let h = cco_profile_get_block_count prof (fn_name f) (bb_name (block_at f (lp_header l)));
          out = sum_list (map (\<lambda>p. cco_profile_get_block_count prof (fn_name f) (bb_name (block_at f p)))
                  (filter (\<lambda>p. \<not> ir_loop_contains l p) (bb_preds (block_at f (lp_header l)))));
          e = (if out = 0 \<and> h > 0 then 1 else out);
          a = (if e > 0 then co_quotient ops h e else co_double ops h)
      in \<lparr>lf_entries = e, lf_iterations = h, lf_average = a, lf_hot = (h \<ge> 1000 \<or> f64_le (co_double ops 10) a)\<rparr>)"

definition ir_loop_apply_profile :: "count_ops \<Rightarrow> profile \<Rightarrow> loop_info \<Rightarrow> loop_figures list" where
  "ir_loop_apply_profile ops prof info = map (loop_figures_of ops prof (li_fn info)) (li_loops info)"

end
