(* ===== verification/Ir_Ipa_Correct.thy ===== *)
theory Ir_Ipa_Correct
  imports Ir_Ipa Chaotic_Iteration
begin

text \<open>
  The call graph of a module whose functions have different names is always built: the
  depth-first search for recursion ends because every call enters a node without a number, the search for reachable functions because every function enters its queue
  once, and the purities because they only get worse. A function is marked reachable if it can be
  called from main, in zero or more steps, and its purity is the worst one of the functions it can call;
  dead function elimination keeps what is reachable.
\<close>

section \<open>Calls between functions\<close>

definition called_names :: "ir_function \<Rightarrow> string option set" where
  "called_names f = i_callee ` {i \<in> set (fn_insts f). i_op i = IR_OP_CALL}"

definition fn_calls :: "ir_module \<Rightarrow> ir_function \<Rightarrow> ir_function \<Rightarrow> bool" where
  "fn_calls m f g \<longleftrightarrow> f \<in> set (m_functions m) \<and> g \<in> set (m_functions m) \<and> Some (fn_name g) \<in> called_names f"

definition has_main :: "ir_module \<Rightarrow> bool" where
  "has_main m \<longleftrightarrow> (\<exists>f \<in> set (m_functions m). fn_name f = ''main'')"

definition is_live :: "ir_module \<Rightarrow> ir_function \<Rightarrow> bool" where
  "is_live m f \<longleftrightarrow> (\<exists>e \<in> set (m_functions m). fn_name e = ''main'' \<and> (fn_calls m)\<^sup>*\<^sup>* e f)"

section \<open>Nodes by name\<close>

lemma find_node_names: "map cn_name ns = map cn_name ns' \<Longrightarrow> find_node ns s = find_node ns' s"
proof (cases s)
  case (Some t)
  assume eq: "map cn_name ns = map cn_name ns'"
  then have l: "length ns = length ns'" using map_eq_imp_length_eq by blast
  have "cn_name (ns ! i) = cn_name (ns' ! i)" if "i < length ns" for i using that eq l by (metis nth_map)
  then have "List.find (\<lambda>i. cn_name (ns ! i) = t) [0..<length ns] = List.find (\<lambda>i. cn_name (ns' ! i) = t) [0..<length ns]"
    by (intro find_cong) auto
  then show ?thesis using l Some by (simp add: find_node_def)
qed (simp add: find_node_def)

lemma find_node_Some: "find_node ns s = Some i \<Longrightarrow> i < length ns \<and> s = Some (cn_name (ns ! i))"
  unfolding find_node_def by (auto simp: find_Some_iff split: option.splits)

lemma find_node_own: "distinct (map cn_name ns) \<Longrightarrow> i < length ns \<Longrightarrow> find_node ns (Some (cn_name (ns ! i))) = Some i"
  unfolding find_node_def by (auto simp: find_Some_iff nth_eq_iff_index_eq distinct_conv_nth intro!: exI [of _ i])

lemma find_node_None: "find_node ns (Some s) = None \<Longrightarrow> i < length ns \<Longrightarrow> cn_name (ns ! i) \<noteq> s"
  unfolding find_node_def by (auto simp: find_None_iff)

section \<open>The edges\<close>

definition callees :: "cg_node list \<Rightarrow> nat \<Rightarrow> nat option set" where
  "callees ns i = set (map cs_callee (cn_sites (ns ! i)))"

definition edge :: "cg_node list \<Rightarrow> nat \<Rightarrow> nat \<Rightarrow> bool" where
  "edge ns i j \<longleftrightarrow> i < length ns \<and> Some j \<in> callees ns i"

text \<open>What the construction of the edges keeps of a list of nodes.\<close>

definition like :: "cg_node list \<Rightarrow> cg_node list \<Rightarrow> bool" where
  "like ns ns' \<longleftrightarrow> map cn_name ns' = map cn_name ns \<and> map cn_entry ns' = map cn_entry ns \<and>
     map cn_reachable ns' = map cn_reachable ns \<and> map cn_index ns' = map cn_index ns"

lemma like_refl [simp]: "like ns ns" by (simp add: like_def)

lemma like_trans: "like a b \<Longrightarrow> like b c \<Longrightarrow> like a c" by (simp add: like_def)

lemma like_length: "like ns ns' \<Longrightarrow> length ns' = length ns"
  unfolding like_def using map_eq_imp_length_eq by blast

lemma like_update:
  "cn_name n = cn_name (ns ! i) \<Longrightarrow> cn_entry n = cn_entry (ns ! i) \<Longrightarrow> cn_reachable n = cn_reachable (ns ! i) \<Longrightarrow>
   cn_index n = cn_index (ns ! i) \<Longrightarrow> like ns (ns[i := n])"
  unfolding like_def by (simp add: map_update_same)

lemma like_update2:
  assumes "like ns (ns[a := x])" and "like (ns[a := x]) ((ns[a := x])[c := y])"
  shows "like ns (ns[a := x, c := y])"
  using assms by (rule like_trans)

lemma add_call_like: "like ns (add_call caller b i ns)"
proof (cases "i_op i = IR_OP_CALL")
  case True
  show ?thesis
  proof (cases "find_node ns (i_callee i)")
    case None
    then show ?thesis using True by (simp add: add_call_def like_update)
  next
    case (Some c)
    have c: "\<not> (i_op i \<noteq> IR_OP_CALL)" using True by simp
    show ?thesis unfolding add_call_def Let_def Some option.case if_not_P [OF c]
      by (rule like_update2; rule like_update) simp_all
  qed
qed (simp add: add_call_def)

lemma add_call_callees:
  assumes "caller < length ns" and "j < length ns"
  shows "callees (add_call caller b i ns) j =
    (if j = caller \<and> i_op i = IR_OP_CALL then insert (find_node ns (i_callee i)) (callees ns j) else callees ns j)"
proof -
  have "map cs_callee (cn_sites (add_call caller b i ns ! j)) =
      (if j = caller \<and> i_op i = IR_OP_CALL then [find_node ns (i_callee i)] else []) @ map cs_callee (cn_sites (ns ! j))"
    using assms unfolding add_call_def Let_def
    by (cases "find_node ns (i_callee i)"; cases "j = caller"; cases "find_node ns (i_callee i) = Some j"; simp add: nth_list_update)
  then show ?thesis unfolding callees_def by (cases "j = caller \<and> i_op i = IR_OP_CALL") (auto simp del: set_map)
qed

lemma fold_add_call:
  assumes "caller < length ns"
  shows "like ns (fold (add_call caller b) is ns) \<and>
    (\<forall>j < length ns. callees (fold (add_call caller b) is ns) j =
       (if j = caller then find_node ns ` i_callee ` {i \<in> set is. i_op i = IR_OP_CALL} \<union> callees ns j else callees ns j))"
  using assms
proof (induction "is" arbitrary: ns)
  case (Cons i "is")
  let ?ns = "add_call caller b i ns"
  have l: "like ns ?ns" by (rule add_call_like)
  then have len: "length ?ns = length ns" by (rule like_length)
  have f: "find_node ?ns = find_node ns" using l by (intro ext find_node_names) (simp add: like_def)
  have IH: "like ?ns (fold (add_call caller b) is ?ns)"
    "\<forall>j < length ns. callees (fold (add_call caller b) is ?ns) j =
       (if j = caller then find_node ns ` i_callee ` {i \<in> set is. i_op i = IR_OP_CALL} \<union> callees ?ns j else callees ?ns j)"
    using Cons.IH [of ?ns] Cons.prems len f by auto
  have "callees (fold (add_call caller b) (i # is) ns) j =
      (if j = caller then find_node ns ` i_callee ` {i' \<in> set (i # is). i_op i' = IR_OP_CALL} \<union> callees ns j else callees ns j)"
    if "j < length ns" for j
    using IH(2) that add_call_callees [OF Cons.prems that, of b i] by (cases "i_op i = IR_OP_CALL") auto
  then show ?case using like_trans [OF l IH(1)] by simp
qed simp

lemma add_calls:
  assumes "caller < length ns"
  shows "like ns (add_calls m caller ns)" and "j < length ns \<Longrightarrow> callees (add_calls m caller ns) j =
       (if j = caller then find_node ns ` called_names (m_functions m ! caller) \<union> callees ns j else callees ns j)"
proof -
  let ?f = "m_functions m ! caller"
  have eq: "add_calls m caller ns = foldl (\<lambda>ns (b, is). fold (add_call caller b) is ns) ns (map (\<lambda>b. (b, bb_insts (block_at ?f b))) (fn_order ?f))"
    unfolding add_calls_def Let_def by (simp add: foldl_conv_fold fold_map comp_def)
  have gen: "like ns (foldl (\<lambda>ns (b, is). fold (add_call caller b) is ns) ns bs) \<and>
      (\<forall>j < length ns. callees (foldl (\<lambda>ns (b, is). fold (add_call caller b) is ns) ns bs) j =
        (if j = caller then find_node ns ` i_callee ` {i \<in> set (concat (map snd bs)). i_op i = IR_OP_CALL} \<union> callees ns j else callees ns j))"
    if "caller < length ns" for bs :: "(nat \<times> ir_inst list) list" and ns
    using that
  proof (induction bs arbitrary: ns)
    case (Cons p bs)
    obtain b xs where p: "p = (b, xs)" by (cases p)
    let ?ns = "fold (add_call caller b) xs ns"
    have l: "like ns ?ns" and e: "\<forall>j < length ns. callees ?ns j = (if j = caller then find_node ns ` i_callee ` {i \<in> set xs. i_op i = IR_OP_CALL} \<union> callees ns j else callees ns j)"
      using fold_add_call [OF Cons.prems, of b xs] by auto
    have f: "find_node ?ns = find_node ns" using l by (intro ext find_node_names) (simp add: like_def)
    have "caller < length ?ns" using like_length [OF l] Cons.prems by simp
    note IH = Cons.IH [OF this]
    have "{i \<in> set (concat (map snd (p # bs))). i_op i = IR_OP_CALL} =
        {i \<in> set xs. i_op i = IR_OP_CALL} \<union> {i \<in> set (concat (map snd bs)). i_op i = IR_OP_CALL}" using p by auto
    then show ?case using IH e like_trans [OF l] p f like_length [OF l] by (auto simp: image_Un Un_assoc Un_left_commute)
  qed simp
  have c: "concat (map snd (map (\<lambda>b. (b, bb_insts (block_at ?f b))) (fn_order ?f))) = fn_insts ?f"
    by (simp add: fn_insts_def comp_def)
  show "like ns (add_calls m caller ns)" "j < length ns \<Longrightarrow> callees (add_calls m caller ns) j =
       (if j = caller then find_node ns ` called_names ?f \<union> callees ns j else callees ns j)"
    using gen [OF assms, of "map (\<lambda>b. (b, bb_insts (block_at ?f b))) (fn_order ?f)"] unfolding eq c called_names_def by auto
qed

lemma fold_add_calls:
  assumes "set is \<subseteq> {..<length ns}" and "distinct is"
  shows "like ns (fold (add_calls m) is ns) \<and> (\<forall>j < length ns. callees (fold (add_calls m) is ns) j =
       (if j \<in> set is then find_node ns ` called_names (m_functions m ! j) \<union> callees ns j else callees ns j))"
  using assms
proof (induction "is" arbitrary: ns)
  case (Cons i "is")
  have i: "i < length ns" using Cons.prems by simp
  let ?ns = "add_calls m i ns"
  note l = add_calls(1) [OF i, of m] and e = add_calls(2) [OF i]
  have f: "find_node ?ns = find_node ns" using l by (intro ext find_node_names) (simp add: like_def)
  have IH: "like ?ns (fold (add_calls m) is ?ns)" "\<forall>j < length ns. callees (fold (add_calls m) is ?ns) j =
       (if j \<in> set is then find_node ns ` called_names (m_functions m ! j) \<union> callees ?ns j else callees ?ns j)"
    using Cons.IH [of ?ns] Cons.prems like_length [OF l] f by auto
  show ?case using IH e Cons.prems(2) like_trans [OF l IH(1)] by auto
qed simp

section \<open>The search for recursion ends\<close>

text \<open>What the search does to the nodes: numbers and marks of recursion.\<close>

definition searched :: "cg_node list \<Rightarrow> cg_node list \<Rightarrow> bool" where
  "searched ns ns' \<longleftrightarrow> map cn_name ns' = map cn_name ns \<and> map cn_entry ns' = map cn_entry ns \<and>
     map cn_reachable ns' = map cn_reachable ns \<and> map cn_sites ns' = map cn_sites ns \<and>
     (\<forall>i < length ns. cn_index (ns ! i) \<noteq> None \<longrightarrow> cn_index (ns' ! i) \<noteq> None)"

lemma searched_refl [simp]: "searched ns ns" by (simp add: searched_def)

lemma searched_length: "searched ns ns' \<Longrightarrow> length ns' = length ns"
  unfolding searched_def using map_eq_imp_length_eq by blast

lemma searched_trans: "searched a b \<Longrightarrow> searched b c \<Longrightarrow> searched a c"
  using searched_length [of a b] by (simp add: searched_def)

lemma searched_sites: "searched ns ns' \<Longrightarrow> i < length ns \<Longrightarrow> cn_sites (ns' ! i) = cn_sites (ns ! i)"
  using searched_length [of ns ns'] unfolding searched_def by (metis nth_map)

lemma searched_set_node:
  assumes "\<And>n. cn_name (g n) = cn_name n \<and> cn_entry (g n) = cn_entry n \<and> cn_reachable (g n) = cn_reachable n \<and>
    cn_sites (g n) = cn_sites n \<and> (cn_index n \<noteq> None \<longrightarrow> cn_index (g n) \<noteq> None)"
  shows "searched (ts_nodes ts) (ts_nodes (set_node u g ts))"
proof -
  have "cn_index ((ts_nodes ts)[u := g (ts_nodes ts ! u)] ! i) \<noteq> None"
    if "i < length (ts_nodes ts)" "cn_index (ts_nodes ts ! i) \<noteq> None" for i
    using that assms [of "ts_nodes ts ! u"] by (cases "i = u") auto
  then show ?thesis using assms unfolding searched_def set_node_def by (simp add: map_update_same)
qed

lemma searched_fold:
  "(\<And>w ts. searched (ts_nodes ts) (ts_nodes (g w ts))) \<Longrightarrow> searched (ts_nodes ts) (ts_nodes (fold g ws ts))"
  by (induction ws arbitrary: ts) (auto intro: searched_trans)

definition unvisited :: "cg_node list \<Rightarrow> nat" where
  "unvisited ns = card {i. i < length ns \<and> cn_index (ns ! i) = None}"

lemma unvisited_mono: "searched ns ns' \<Longrightarrow> unvisited ns' \<le> unvisited ns"
  unfolding unvisited_def using searched_length [of ns ns'] by (auto simp: searched_def intro!: card_mono)

lemma searched_enter: "searched (ts_nodes ts) (ts_nodes (enter_node u ts))"
proof -
  have "searched (ts_nodes t) (ts_nodes (enter_node u ts))" if "t = ts\<lparr>ts_index := ts_index ts + 1, ts_stack := u # ts_stack ts\<rparr>" for t
    unfolding enter_node_def that [symmetric] by (rule searched_set_node) simp
  then show ?thesis by simp
qed

lemma unvisited_enter:
  assumes "u < length (ts_nodes ts)" and "cn_index (ts_nodes ts ! u) = None"
  shows "unvisited (ts_nodes (enter_node u ts)) < unvisited (ts_nodes ts)"
proof -
  let ?A = "\<lambda>ns. {i. i < length ns \<and> cn_index (ns ! i) = None}"
  have s: "?A (ts_nodes (enter_node u ts)) = ?A (ts_nodes ts) - {u}"
    using assms unfolding enter_node_def set_node_def by (auto simp: nth_list_update split: if_splits)
  have "finite (?A (ts_nodes ts))" "u \<in> ?A (ts_nodes ts)" using assms by auto
  then show ?thesis unfolding unvisited_def s by (rule card_Diff1_less)
qed

lemma searched_lower: "searched (ts_nodes ts) (ts_nodes (lower_link u k ts))"
  unfolding lower_link_def by (auto intro!: searched_set_node)

lemma searched_pop: "searched (ts_nodes ts) (ts_nodes (pop_component u ts))"
proof -
  let ?mark = "\<lambda>w. set_node w (\<lambda>n. n\<lparr>cn_in_cycle := True, cn_can_inline := False\<rparr>)"
  have l: "searched (ts_nodes ts) (ts_nodes (fold (leave_stack scc) ws ts))" for scc ws ts
    by (rule searched_fold) (auto simp: leave_stack_def intro!: searched_set_node)
  have m: "searched (ts_nodes ts) (ts_nodes (fold ?mark ws ts))" for ws ts
    by (rule searched_fold) (auto intro!: searched_set_node)
  have m1: "searched (ts_nodes ts) (ts_nodes (?mark w ts))" for w ts by (auto intro!: searched_set_node)
  have l': "searched (ts_nodes ts) (ts_nodes (fold (leave_stack scc) ws (ts\<lparr>ts_scc_count := c, ts_stack := st\<rparr>)))" for scc ws c st
    using l [of "ts\<lparr>ts_scc_count := c, ts_stack := st\<rparr>"] by simp
  show ?thesis unfolding pop_component_def Let_def
    using searched_trans [OF l' m] searched_trans [OF l' m1] l' by (simp split: if_splits)
qed

lemma fold_bind_searched:
  assumes "\<And>x t. x \<in> set xs \<Longrightarrow> searched ns (ts_nodes t) \<Longrightarrow> \<exists>t'. step x t = Some t' \<and> searched (ts_nodes t) (ts_nodes t')"
    and "searched ns (ts_nodes ts)"
  shows "\<exists>t. fold (\<lambda>x acc. Option.bind acc (step x)) xs (Some ts) = Some t \<and> searched (ts_nodes ts) (ts_nodes t)"
  using assms
proof (induction xs arbitrary: ts)
  case (Cons x xs)
  obtain t where t: "step x ts = Some t" "searched (ts_nodes ts) (ts_nodes t)" using Cons.prems by force
  have "\<exists>t'. fold (\<lambda>x acc. Option.bind acc (step x)) xs (Some t) = Some t' \<and> searched (ts_nodes t) (ts_nodes t')"
    using Cons.prems(1) searched_trans [OF Cons.prems(2) t(2)] by (intro Cons.IH) auto
  then show ?case using t searched_trans by auto
qed auto

definition sites_closed :: "cg_node list \<Rightarrow> bool" where
  "sites_closed ns \<longleftrightarrow> (\<forall>i < length ns. \<forall>site \<in> set (cn_sites (ns ! i)). \<forall>v. cs_callee site = Some v \<longrightarrow> v < length ns)"

lemma sites_closed_searched: "sites_closed ns \<Longrightarrow> searched ns ns' \<Longrightarrow> sites_closed ns'"
  unfolding sites_closed_def using searched_length [of ns ns'] searched_sites [of ns ns'] by simp

lemma tarjan_ends:
  assumes "sites_closed (ts_nodes ts)" and "u < length (ts_nodes ts)" and "cn_index (ts_nodes ts ! u) = None" and "unvisited (ts_nodes ts) \<le> d"
  shows "\<exists>t. tarjan_scc d u ts = Some t \<and> searched (ts_nodes ts) (ts_nodes t)"
  using assms
proof (induction d arbitrary: u ts)
  case 0
  then show ?case using unvisited_enter [OF 0(2,3)] by simp
next
  case (Suc d)
  let ?e = "enter_node u ts"
  let ?step = "\<lambda>site ts. case cs_callee site of
              None \<Rightarrow> Some ts
            | Some v \<Rightarrow>
                (case cn_index (ts_nodes ts ! v) of
                   None \<Rightarrow> map_option (\<lambda>ts. lower_link u (cn_lowlink (ts_nodes ts ! v)) ts) (tarjan_scc d v ts)
                 | Some k \<Rightarrow> Some (if cn_on_stack (ts_nodes ts ! v) then lower_link u k ts else ts))"
  have e: "searched (ts_nodes ts) (ts_nodes ?e)" by (rule searched_enter)
  have d: "unvisited (ts_nodes ?e) \<le> d" using unvisited_enter [OF Suc.prems(2,3)] Suc.prems(4) by simp
  have st: "\<exists>t'. ?step site t = Some t' \<and> searched (ts_nodes t) (ts_nodes t')"
    if site: "site \<in> set (cn_sites (ts_nodes ts ! u))" and t: "searched (ts_nodes ?e) (ts_nodes t)" for site t
  proof (cases "cs_callee site")
    case (Some v)
    have v: "v < length (ts_nodes ts)" using Suc.prems(1,2) site Some unfolding sites_closed_def by blast
    have st: "searched (ts_nodes ts) (ts_nodes t)" using searched_trans [OF e t] .
    show ?thesis
    proof (cases "cn_index (ts_nodes t ! v)")
      case None
      have "unvisited (ts_nodes t) \<le> d" using unvisited_mono [OF t] d by simp
      then obtain t' where "tarjan_scc d v t = Some t'" "searched (ts_nodes t) (ts_nodes t')"
        using Suc.IH [OF sites_closed_searched [OF Suc.prems(1) st] _ None] v searched_length [OF st] by auto
      then show ?thesis using Some None searched_trans [OF _ searched_lower] by simp
    qed (use Some searched_lower in simp)
  qed simp
  obtain t where t: "fold (\<lambda>site acc. Option.bind acc (?step site)) (cn_sites (ts_nodes ts ! u)) (Some ?e) = Some t"
      "searched (ts_nodes ?e) (ts_nodes t)"
    using fold_bind_searched [of "cn_sites (ts_nodes ts ! u)" "ts_nodes ?e" ?step ?e, OF st] by auto
  have "searched (ts_nodes ts) (ts_nodes t)" "searched (ts_nodes ts) (ts_nodes (pop_component u t))"
    using searched_trans [OF e t(2)] searched_trans [OF _ searched_pop] by blast+
  then show ?case using t(1) by (simp del: fold_simps)
qed

lemma find_cycles_ends:
  assumes "sites_closed ns"
  shows "\<exists>ns'. find_cycles ns = Some ns' \<and> searched ns ns'"
proof -
  let ?ts = "\<lparr>ts_nodes = ns, ts_index = 0, ts_stack = [], ts_scc_count = 0\<rparr>"
  have st: "\<exists>t'. start_component (length ns) u t = Some t' \<and> searched (ts_nodes t) (ts_nodes t')"
    if u: "u \<in> set [0..<length ns]" and t: "searched ns (ts_nodes t)" for u t
  proof (cases "cn_index (ts_nodes t ! u) = None")
    case True
    have "card {i. i < length ns \<and> cn_index (ts_nodes t ! i) = None} \<le> card {..<length ns}" by (rule card_mono) auto
    then have "unvisited (ts_nodes t) \<le> length ns + 1" using searched_length [OF t] by (simp add: unvisited_def)
    then show ?thesis
      using tarjan_ends [OF sites_closed_searched [OF assms t] _ True] True u searched_length [OF t] by (simp add: start_component_def del: tarjan_scc.simps)
  qed (auto simp add: start_component_def simp del: tarjan_scc.simps)
  have "searched ns (ts_nodes ?ts)" by simp
  from fold_bind_searched [of "[0..<length ns]" ns "start_component (length ns)" ?ts, OF st this]
  show ?thesis unfolding find_cycles_def by auto
qed

section \<open>Reachable functions\<close>

definition marked :: "cg_node list \<Rightarrow> cg_node list \<Rightarrow> bool" where
  "marked ns ns' \<longleftrightarrow> map cn_name ns' = map cn_name ns \<and> map cn_entry ns' = map cn_entry ns \<and> map cn_sites ns' = map cn_sites ns"

lemma marked_refl [simp]: "marked ns ns" by (simp add: marked_def)

lemma marked_trans: "marked a b \<Longrightarrow> marked b c \<Longrightarrow> marked a c" by (simp add: marked_def)

lemma marked_length: "marked ns ns' \<Longrightarrow> length ns' = length ns"
  unfolding marked_def using map_eq_imp_length_eq by blast

lemma marked_sites: "marked ns ns' \<Longrightarrow> i < length ns \<Longrightarrow> cn_sites (ns' ! i) = cn_sites (ns ! i)"
  using marked_length [of ns ns'] unfolding marked_def by (metis nth_map)

lemma marked_entry: "marked ns ns' \<Longrightarrow> i < length ns \<Longrightarrow> cn_entry (ns' ! i) = cn_entry (ns ! i)"
  using marked_length [of ns ns'] unfolding marked_def by (metis nth_map)

lemma marked_update: "cn_name n = cn_name (ns ! i) \<Longrightarrow> cn_entry n = cn_entry (ns ! i) \<Longrightarrow> cn_sites n = cn_sites (ns ! i) \<Longrightarrow> marked ns (ns[i := n])"
  unfolding marked_def by (simp add: map_update_same)

lemma marked_edge: "marked ns ns' \<Longrightarrow> edge ns' = edge ns"
  using marked_length [of ns ns'] marked_sites [of ns ns'] unfolding edge_def callees_def by (auto intro!: ext)

lemma searched_marked: "searched ns ns' \<Longrightarrow> marked ns ns'"
  unfolding searched_def marked_def by simp

definition yet_to_mark :: "cg_node list \<Rightarrow> nat" where
  "yet_to_mark ns = card {i. i < length ns \<and> \<not> cn_reachable (ns ! i)}"

definition site_targets :: "call_site list \<Rightarrow> nat set" where
  "site_targets ss = {c. Some c \<in> cs_callee ` set ss}"

lemma yet_to_mark_update:
  assumes "c < length ns" and "\<not> cn_reachable (ns ! c)"
  shows "Suc (yet_to_mark (ns[c := (ns ! c)\<lparr>cn_reachable := True\<rparr>])) = yet_to_mark ns"
proof -
  let ?A = "\<lambda>ns. {i. i < length ns \<and> \<not> cn_reachable (ns ! i)}"
  have s: "?A (ns[c := (ns ! c)\<lparr>cn_reachable := True\<rparr>]) = ?A ns - {c}" using assms by (auto simp: nth_list_update split: if_splits)
  have "finite (?A ns)" "c \<in> ?A ns" using assms by auto
  then show ?thesis unfolding yet_to_mark_def s by (rule card_Suc_Diff1)
qed

lemma fold_reach_site:
  assumes "site_targets ss \<subseteq> {..<length ns}" and "fold reach_site ss (q, ns) = (q', ns')"
  shows "marked ns ns' \<and> set q' = set q \<union> {c \<in> site_targets ss. \<not> cn_reachable (ns ! c)} \<and>
    (\<forall>i < length ns. cn_reachable (ns' ! i) = (cn_reachable (ns ! i) \<or> i \<in> site_targets ss)) \<and>
    yet_to_mark ns' + length q' = yet_to_mark ns + length q"
  using assms
proof (induction ss arbitrary: q ns)
  case (Cons s ss)
  have t: "site_targets (s # ss) = (case cs_callee s of None \<Rightarrow> {} | Some c \<Rightarrow> {c}) \<union> site_targets ss"
    unfolding site_targets_def by (auto split: option.splits)
  show ?case
  proof (cases "\<exists>c. cs_callee s = Some c \<and> \<not> cn_reachable (ns ! c)")
    case False
    then have "reach_site s (q, ns) = (q, ns)" unfolding reach_site_def by (auto split: option.splits)
    then have IH: "marked ns ns' \<and> set q' = set q \<union> {c \<in> site_targets ss. \<not> cn_reachable (ns ! c)} \<and>
        (\<forall>i < length ns. cn_reachable (ns' ! i) = (cn_reachable (ns ! i) \<or> i \<in> site_targets ss)) \<and>
        yet_to_mark ns' + length q' = yet_to_mark ns + length q"
      using Cons.IH [of ns q] Cons.prems t by auto
    then show ?thesis unfolding t using False by (auto split: option.splits)
  next
    case True
    then obtain c where c: "cs_callee s = Some c" "\<not> cn_reachable (ns ! c)" by blast
    then have lt: "c < length ns" using Cons.prems(1) t by auto
    let ?ns = "ns[c := (ns ! c)\<lparr>cn_reachable := True\<rparr>]"
    have "reach_site s (q, ns) = (q @ [c], ?ns)" using c unfolding reach_site_def by simp
    then have IH: "marked ?ns ns' \<and> set q' = set (q @ [c]) \<union> {d \<in> site_targets ss. \<not> cn_reachable (?ns ! d)} \<and>
        (\<forall>i < length ns. cn_reachable (ns' ! i) = (cn_reachable (?ns ! i) \<or> i \<in> site_targets ss)) \<and>
        yet_to_mark ns' + length q' = yet_to_mark ?ns + length (q @ [c])"
      using Cons.IH [of ?ns "q @ [c]"] Cons.prems t by auto
    have "marked ns ?ns" by (rule marked_update) simp_all
    then have "marked ns ns'" using IH marked_trans by blast
    moreover have "yet_to_mark ns' + length q' = yet_to_mark ns + length q" using IH yet_to_mark_update [OF lt c(2)] by simp
    moreover have "\<forall>i < length ns. cn_reachable (ns' ! i) = (cn_reachable (ns ! i) \<or> i \<in> site_targets (s # ss))"
      using IH c lt unfolding t by (auto simp: nth_list_update)
    moreover have "set q' = set q \<union> {d \<in> site_targets (s # ss). \<not> cn_reachable (ns ! d)}"
      using IH c lt Cons.prems(1) unfolding t by (auto simp: nth_list_update split: if_splits)
    ultimately show ?thesis by blast
  qed
qed (simp add: site_targets_def)

definition bfs_inv :: "cg_node list \<Rightarrow> nat \<Rightarrow> nat list \<times> cg_node list \<Rightarrow> bool" where
  "bfs_inv ns0 e = (\<lambda>(q, ns). marked ns0 ns \<and> cn_reachable (ns ! e) \<and>
     (\<forall>i \<in> set q. i < length ns0 \<and> cn_reachable (ns ! i)) \<and>
     (\<forall>i < length ns0. cn_reachable (ns ! i) \<longrightarrow> (edge ns0)\<^sup>*\<^sup>* e i \<and> (i \<in> set q \<or> (\<forall>j. edge ns0 i j \<longrightarrow> cn_reachable (ns ! j)))))"

lemma edge_targets: "i < length ns \<Longrightarrow> edge ns i j \<longleftrightarrow> j \<in> site_targets (cn_sites (ns ! i))"
  unfolding edge_def callees_def site_targets_def by simp

lemma sites_closed_targets: "sites_closed ns \<Longrightarrow> i < length ns \<Longrightarrow> site_targets (cn_sites (ns ! i)) \<subseteq> {..<length ns}"
  unfolding sites_closed_def site_targets_def by force

lemma reach_next_inv:
  assumes closed: "sites_closed ns0" and inv: "bfs_inv ns0 e (u # q, ns)"
  shows "bfs_inv ns0 e (reach_next (u # q, ns)) \<and>
    yet_to_mark (snd (reach_next (u # q, ns))) + length (fst (reach_next (u # q, ns))) < yet_to_mark ns + length (u # q)"
proof -
  have m: "marked ns0 ns" and u: "u < length ns0" "cn_reachable (ns ! u)" using inv unfolding bfs_inv_def by auto
  have e: "cn_reachable (ns ! e)" using inv unfolding bfs_inv_def by simp
  note len = marked_length [OF m]
  let ?T = "site_targets (cn_sites (ns ! u))"
  have T: "?T \<subseteq> {..<length ns}" "\<And>j. edge ns0 u j \<longleftrightarrow> j \<in> ?T"
    using sites_closed_targets [OF closed u(1)] edge_targets [OF u(1)] marked_sites [OF m u(1)] len by simp_all
  obtain q' ns' where r: "fold reach_site (cn_sites (ns ! u)) (q, ns) = (q', ns')" by fastforce
  have n: "reach_next (u # q, ns) = (q', ns')" unfolding reach_next_def using r by simp
  have F: "marked ns ns'" "set q' = set q \<union> {c \<in> ?T. \<not> cn_reachable (ns ! c)}"
      "\<And>i. i < length ns0 \<Longrightarrow> cn_reachable (ns' ! i) = (cn_reachable (ns ! i) \<or> i \<in> ?T)"
      "yet_to_mark ns' + length q' = yet_to_mark ns + length q"
    using fold_reach_site [OF T(1) r] len by simp_all
  have old: "(edge ns0)\<^sup>*\<^sup>* e i \<and> (i \<in> set (u # q) \<or> (\<forall>j. edge ns0 i j \<longrightarrow> cn_reachable (ns ! j)))"
    if "i < length ns0" "cn_reachable (ns ! i)" for i using inv that unfolding bfs_inv_def by simp
  have lt: "j < length ns0" if "edge ns0 i j" for i j
    using that sites_closed_targets [OF closed, of i] edge_targets [of i ns0 j] unfolding edge_def by auto
  have new: "(edge ns0)\<^sup>*\<^sup>* e i \<and> (i \<in> set q' \<or> (\<forall>j. edge ns0 i j \<longrightarrow> cn_reachable (ns' ! j)))"
    if i: "i < length ns0" "cn_reachable (ns' ! i)" for i
  proof (cases "cn_reachable (ns ! i)")
    case True
    have "\<forall>j. edge ns0 i j \<longrightarrow> cn_reachable (ns' ! j)" if "i \<notin> set q"
    proof (intro allI impI)
      fix j
      assume j: "edge ns0 i j"
      show "cn_reachable (ns' ! j)"
        using old [OF i(1) True] that T(2) F(3) [OF lt [OF j]] j by (cases "i = u") auto
    qed
    then show ?thesis using old [OF i(1) True] F(2) by auto
  next
    case False
    then have "i \<in> ?T" using F(3) i by simp
    then show ?thesis using F(2) False old [OF u] T(2) by (auto intro: rtranclp.rtrancl_into_rtrancl)
  qed
  have q: "\<forall>i \<in> set q'. i < length ns0 \<and> cn_reachable (ns' ! i)"
    using inv F(2,3) T(1) len unfolding bfs_inv_def by auto
  have "e < length ns0 \<Longrightarrow> cn_reachable (ns' ! e)" using e F(3) by simp
  moreover have "e < length ns0"
  proof (rule ccontr)
    assume ge: "\<not> e < length ns0"
    have "(edge ns0)\<^sup>*\<^sup>* e u" using old [OF u] by simp
    then show False using ge u(1) by (cases rule: converse_rtranclpE) (auto simp: edge_def)
  qed
  ultimately show ?thesis unfolding n bfs_inv_def using marked_trans [OF m F(1)] new q F(4) by simp
qed

lemma mark_reachable_from:
  assumes closed: "sites_closed ns" and e: "e < length ns" and fresh: "\<And>i. i < length ns \<Longrightarrow> cn_reachable (ns ! i) \<Longrightarrow> i = e"
  shows "\<exists>ns'. mark_reachable (Some e) ns = Some ns' \<and> marked ns ns' \<and> (\<forall>i < length ns. cn_reachable (ns' ! i) \<longleftrightarrow> (edge ns)\<^sup>*\<^sup>* e i)"
proof -
  let ?s = "([e], ns[e := (ns ! e)\<lparr>cn_reachable := True\<rparr>])"
  let ?b = "\<lambda>s :: nat list \<times> cg_node list. fst s \<noteq> []"
  let ?m = "\<lambda>s :: nat list \<times> cg_node list. yet_to_mark (snd s) + length (fst s)"
  have init: "bfs_inv ns e ?s"
    unfolding bfs_inv_def using e fresh by (auto simp: nth_list_update intro!: marked_update split: if_splits)
  have step: "bfs_inv ns e (reach_next s) \<and> ?m (reach_next s) < ?m s" if "bfs_inv ns e s" "?b s" for s
  proof -
    obtain u q n where "s = (u # q, n)" using \<open>?b s\<close> by (cases s; cases "fst s") auto
    then show ?thesis using reach_next_inv [OF closed, of e u q n] that(1) by simp
  qed
  obtain t where t: "while_option ?b reach_next ?s = Some t"
    using measure_while_option_Some [of "bfs_inv ns e" ?b reach_next ?m ?s] step init by blast
  have inv: "bfs_inv ns e t" using while_option_rule [OF _ t, of "bfs_inv ns e"] step init by blast
  obtain n where n: "t = ([], n)" using while_option_stop [OF t] by (cases t) auto
  have r: "cn_reachable (n ! i)" if "(edge ns)\<^sup>*\<^sup>* e i" for i using that
  proof (induction rule: rtranclp_induct)
    case base
    then show ?case using inv n unfolding bfs_inv_def by simp
  next
    case (step i j)
    then show ?case using inv n unfolding bfs_inv_def by (auto simp: edge_def)
  qed
  have "(edge ns)\<^sup>*\<^sup>* e i" if "i < length ns" "cn_reachable (n ! i)" for i
    using inv n that unfolding bfs_inv_def by simp_all
  moreover have "marked ns n" using inv n unfolding bfs_inv_def by simp
  moreover have "mark_reachable (Some e) ns = Some n" unfolding mark_reachable_def using t n by simp
  ultimately show ?thesis using r by blast
qed

section \<open>Purity\<close>

fun purity_rank :: "ir_purity \<Rightarrow> nat" where
  "purity_rank IR_PURITY_SIDE_EFFECTING = 2"
| "purity_rank IR_PURITY_READONLY = 1"
| "purity_rank _ = 0"

lemma purity_rank_eq:
  "p \<noteq> IR_PURITY_UNKNOWN \<Longrightarrow> q \<noteq> IR_PURITY_UNKNOWN \<Longrightarrow> purity_rank p = purity_rank q \<Longrightarrow> p = q"
  by (cases p; cases q) simp_all

lemma purity_rank_le: "purity_rank p \<le> 2" by (cases p) simp_all

definition site_rank :: "cg_node list \<Rightarrow> nat option \<Rightarrow> nat" where
  "site_rank ns c = (case c of None \<Rightarrow> 2 | Some v \<Rightarrow> purity_rank (cn_purity (ns ! v)))"

lemma sites_purity_rank:
  assumes "p \<noteq> IR_PURITY_UNKNOWN" and "\<And>c. c \<in> site_targets ss \<Longrightarrow> cn_purity (ns ! c) \<noteq> IR_PURITY_UNKNOWN"
  shows "sites_purity ns ss p \<noteq> IR_PURITY_UNKNOWN \<and> purity_rank p \<le> purity_rank (sites_purity ns ss p) \<and>
    (\<forall>s \<in> set ss. site_rank ns (cs_callee s) \<le> purity_rank (sites_purity ns ss p)) \<and>
    (sites_purity ns ss p = p \<or> (\<exists>s \<in> set ss. purity_rank (sites_purity ns ss p) = site_rank ns (cs_callee s)))"
  using assms
proof (induction ss arbitrary: p)
  case (Cons s ss)
  have t: "site_targets (s # ss) = (case cs_callee s of None \<Rightarrow> {} | Some c \<Rightarrow> {c}) \<union> site_targets ss"
    unfolding site_targets_def by (auto split: option.splits)
  have sub: "\<And>c. c \<in> site_targets ss \<Longrightarrow> cn_purity (ns ! c) \<noteq> IR_PURITY_UNKNOWN" using Cons.prems(2) t by auto
  have le: "site_rank ns c \<le> 2" for c unfolding site_rank_def using purity_rank_le by (auto split: option.splits)
  show ?case
  proof (cases "cs_callee s")
    case None
    then show ?thesis using Cons.prems(1) purity_rank_le le by (auto simp: site_rank_def)
  next
    case (Some c)
    show ?thesis
    proof (cases "cn_purity (ns ! c)")
      case IR_PURITY_UNKNOWN
      then show ?thesis using Cons.prems(2) [of c] t Some by simp
    next
      case IR_PURITY_PURE
      then show ?thesis using Some Cons.IH [OF Cons.prems(1) sub] by (auto simp: site_rank_def)
    next
      case IR_PURITY_SIDE_EFFECTING
      then show ?thesis using Some purity_rank_le le by (auto simp: site_rank_def)
    next
      case IR_PURITY_READONLY
      show ?thesis
      proof (cases "p = IR_PURITY_PURE")
        case True
        then show ?thesis using Some IR_PURITY_READONLY Cons.IH [OF _ sub, of IR_PURITY_READONLY] by (auto simp: site_rank_def)
      next
        case False
        then have "1 \<le> purity_rank p" using Cons.prems(1) by (cases p) simp_all
        then show ?thesis using Some IR_PURITY_READONLY False Cons.IH [OF Cons.prems(1) sub] by (auto simp: site_rank_def)
      qed
    qed
  qed
qed simp

text \<open>The worst purity of what can be called.\<close>

definition worst_purity :: "cg_node list \<Rightarrow> nat \<Rightarrow> ir_purity" where
  "worst_purity ns i =
     (if \<exists>j. (edge ns)\<^sup>*\<^sup>* i j \<and> (cn_purity (ns ! j) = IR_PURITY_SIDE_EFFECTING \<or> None \<in> callees ns j) then IR_PURITY_SIDE_EFFECTING
      else if \<exists>j. (edge ns)\<^sup>*\<^sup>* i j \<and> cn_purity (ns ! j) = IR_PURITY_READONLY then IR_PURITY_READONLY
      else IR_PURITY_PURE)"

lemma worst_purity_edge: "edge ns i j \<Longrightarrow> purity_rank (worst_purity ns j) \<le> purity_rank (worst_purity ns i)"
proof -
  assume "edge ns i j"
  then have "(edge ns)\<^sup>*\<^sup>* i k" if "(edge ns)\<^sup>*\<^sup>* j k" for k using that by (rule converse_rtranclp_into_rtranclp)
  then show ?thesis unfolding worst_purity_def by (smt (verit) purity_rank.simps one_le_numeral order_refl zero_le)
qed

lemma worst_purity_unknown: "None \<in> callees ns i \<Longrightarrow> worst_purity ns i = IR_PURITY_SIDE_EFFECTING"
  unfolding worst_purity_def by auto

lemma worst_purity_own: "purity_rank (cn_purity (ns ! i)) \<le> purity_rank (worst_purity ns i)"
  unfolding worst_purity_def by (cases "cn_purity (ns ! i)") auto

definition purity_invar :: "cg_node list \<Rightarrow> cg_node list \<Rightarrow> bool" where
  "purity_invar ns0 ns \<longleftrightarrow> sites_closed ns0 \<and> marked ns0 ns \<and> map cn_reachable ns = map cn_reachable ns0 \<and>
     (\<forall>i < length ns0. cn_purity (ns ! i) \<noteq> IR_PURITY_UNKNOWN \<and>
        purity_rank (cn_purity (ns0 ! i)) \<le> purity_rank (cn_purity (ns ! i)) \<and>
        purity_rank (cn_purity (ns ! i)) \<le> purity_rank (worst_purity ns0 i))"

definition new_purity :: "nat \<Rightarrow> cg_node list \<Rightarrow> ir_purity" where
  "new_purity i ns = (if cn_purity (ns ! i) = IR_PURITY_SIDE_EFFECTING then cn_purity (ns ! i)
     else sites_purity ns (cn_sites (ns ! i)) (cn_purity (ns ! i)))"

definition purity_update :: "nat \<Rightarrow> cg_node list \<Rightarrow> cg_node list" where
  "purity_update i ns = ns[i := (ns ! i)\<lparr>cn_purity := new_purity i ns\<rparr>]"

definition purity_left :: "cg_node list \<Rightarrow> nat" where
  "purity_left ns = sum_list (map (\<lambda>n. 2 - purity_rank (cn_purity n)) ns)"

lemma purity_update_same: "i < length ns \<Longrightarrow> purity_update i ns = ns \<longleftrightarrow> new_purity i ns = cn_purity (ns ! i)"
proof
  assume i: "i < length ns" and eq: "purity_update i ns = ns"
  have "cn_purity (purity_update i ns ! i) = new_purity i ns" using i by (simp add: purity_update_def)
  then show "new_purity i ns = cn_purity (ns ! i)" using eq by simp
next
  assume "new_purity i ns = cn_purity (ns ! i)"
  then show "purity_update i ns = ns" unfolding purity_update_def by simp
qed

lemma purity_step_update: "i < length ns \<Longrightarrow> purity_step i (ns, ch) = (if purity_update i ns = ns then (ns, ch) else (purity_update i ns, True))"
  using purity_update_same [of i ns] unfolding purity_step_def purity_update_def new_purity_def by (auto simp: Let_def)

lemma new_purity_rank:
  assumes inv: "purity_invar ns0 ns" and i: "i < length ns0"
  shows "new_purity i ns \<noteq> IR_PURITY_UNKNOWN" and "purity_rank (cn_purity (ns ! i)) \<le> purity_rank (new_purity i ns)"
    and "c \<in> callees ns0 i \<Longrightarrow> site_rank ns c \<le> purity_rank (new_purity i ns)"
    and "purity_rank (new_purity i ns) \<le> purity_rank (worst_purity ns0 i)"
proof -
  have m: "marked ns0 ns" and closed: "sites_closed ns0" using inv unfolding purity_invar_def by simp_all
  have P: "cn_purity (ns ! j) \<noteq> IR_PURITY_UNKNOWN" "purity_rank (cn_purity (ns ! j)) \<le> purity_rank (worst_purity ns0 j)" if "j < length ns0" for j
    using inv that unfolding purity_invar_def by simp_all
  let ?ss = "cn_sites (ns0 ! i)"
  have T: "site_targets ?ss \<subseteq> {..<length ns0}" by (rule sites_closed_targets [OF closed i])
  have known: "\<And>c. c \<in> site_targets ?ss \<Longrightarrow> cn_purity (ns ! c) \<noteq> IR_PURITY_UNKNOWN" using T P(1) by blast
  note R = sites_purity_rank [of "cn_purity (ns ! i)" ?ss ns, OF P(1) [OF i] known]
  have n: "new_purity i ns = (if cn_purity (ns ! i) = IR_PURITY_SIDE_EFFECTING then cn_purity (ns ! i) else sites_purity ns ?ss (cn_purity (ns ! i)))"
    unfolding new_purity_def marked_sites [OF m i] ..
  have le: "site_rank ns c \<le> 2" for c unfolding site_rank_def using purity_rank_le by (auto split: option.splits)
  have bound: "site_rank ns (cs_callee s) \<le> purity_rank (worst_purity ns0 i)" if s: "s \<in> set ?ss" for s
  proof (cases "cs_callee s")
    case None
    then have "worst_purity ns0 i = IR_PURITY_SIDE_EFFECTING" using s by (intro worst_purity_unknown) (force simp: callees_def)
    then show ?thesis using le by simp
  next
    case (Some c)
    then have c: "edge ns0 i c" using s i unfolding edge_def callees_def by force
    then have "c < length ns0" using T edge_targets [OF i] by blast
    then show ?thesis using P(2) worst_purity_edge [OF c] Some unfolding site_rank_def by fastforce
  qed
  show "new_purity i ns \<noteq> IR_PURITY_UNKNOWN" "purity_rank (cn_purity (ns ! i)) \<le> purity_rank (new_purity i ns)"
    unfolding n using R by auto
  show "site_rank ns c \<le> purity_rank (new_purity i ns)" if "c \<in> callees ns0 i"
    unfolding n using R that le unfolding callees_def by auto
  show "purity_rank (new_purity i ns) \<le> purity_rank (worst_purity ns0 i)"
    unfolding n using R bound P(2) [OF i] by auto
qed

interpretation purity_iter: chaotic_iteration purity_step purity_update "{..<length ns0}" "purity_invar ns0" purity_left
  for ns0 :: "cg_node list"
proof
  fix ns i ch
  assume inv: "purity_invar ns0 ns" and "i \<in> {..<length ns0}"
  then have i: "i < length ns0" and len: "length ns = length ns0" using marked_length unfolding purity_invar_def by auto
  note N = new_purity_rank [OF inv i]
  show "purity_step i (ns, ch) = (if purity_update i ns = ns then (ns, ch) else (purity_update i ns, True))"
    using purity_step_update i len by simp
  have "marked ns (purity_update i ns)" unfolding purity_update_def by (rule marked_update) simp_all
  moreover have "map cn_reachable (purity_update i ns) = map cn_reachable ns" unfolding purity_update_def by (simp add: map_update_same)
  ultimately show "purity_invar ns0 (purity_update i ns)"
    using inv N i len marked_trans unfolding purity_invar_def purity_update_def
    by (simp add: nth_list_update) (meson order_trans)
  assume ne: "purity_update i ns \<noteq> ns"
  have "purity_rank (new_purity i ns) \<noteq> purity_rank (cn_purity (ns ! i))"
    using ne purity_update_same [of i ns] purity_rank_eq [OF N(1), of "cn_purity (ns ! i)"] inv i len unfolding purity_invar_def by auto
  then have lt: "2 - purity_rank (new_purity i ns) < 2 - purity_rank (cn_purity (ns ! i))"
    using N(2) purity_rank_le [of "new_purity i ns"] by linarith
  let ?g = "\<lambda>n. 2 - purity_rank (cn_purity n)"
  have "sum_list ((map ?g ns)[i := 2 - purity_rank (new_purity i ns)]) < sum_list (map ?g ns)"
    using lt i len member_le_sum_list [of "map ?g ns ! i" "map ?g ns"] by (subst sum_list_update) (auto simp: nth_mem)
  then show "purity_left (purity_update i ns) < purity_left ns"
    unfolding purity_left_def purity_update_def by (simp add: map_update)
qed

lemma spread_purity_worst:
  assumes closed: "sites_closed ns" and known: "\<And>i. i < length ns \<Longrightarrow> cn_purity (ns ! i) \<noteq> IR_PURITY_UNKNOWN"
  shows "\<exists>t. spread_purity ns = Some t \<and> marked ns t \<and> map cn_reachable t = map cn_reachable ns \<and>
    (\<forall>i < length ns. cn_purity (t ! i) = worst_purity ns i)"
proof -
  have init: "purity_invar ns ns" unfolding purity_invar_def using assms worst_purity_own by simp
  have upto: "set [0..<length ns] \<subseteq> {..<length ns}" by auto
  let ?fixed = "\<lambda>(s, ch :: bool). fold purity_step [0..<length ns] (s, False)"
  let ?c = "\<lambda>(s, ch :: bool). fold purity_step [0..<length s] (s, False)"
  obtain t where t: "while_option snd ?fixed (ns, True) = Some (t, False)" "purity_invar ns t"
      and stable: "\<forall>i \<in> set [0..<length ns]. purity_update i t = t"
    using purity_iter.iteration_ends [OF init upto] by blast
  have same: "map_option id (while_option snd ?fixed (ns, True)) = while_option snd ?c (id (ns, True))"
  proof (rule while_option_commute_invariant [where P = "\<lambda>s. purity_invar ns (fst s)"])
    fix s :: "cg_node list \<times> bool"
    assume inv: "purity_invar ns (fst s)"
    obtain s' ch' where r: "fold purity_step [0..<length ns] (fst s, False) = (s', ch')" by fastforce
    show "purity_invar ns (fst (?fixed s))"
      using purity_iter.pass_result [OF inv upto r] r by (simp add: case_prod_unfold)
    have "length (fst s) = length ns" using inv marked_length unfolding purity_invar_def by blast
    then show "id (?fixed s) = ?c (id s)" by (simp add: case_prod_unfold)
  qed (use init in simp_all)
  have m: "marked ns t" using t(2) unfolding purity_invar_def by simp
  have N: "purity_rank (cn_purity (t ! i)) \<le> purity_rank (worst_purity ns i)" "cn_purity (t ! i) \<noteq> IR_PURITY_UNKNOWN"
      "purity_rank (cn_purity (ns ! i)) \<le> purity_rank (cn_purity (t ! i))" if "i < length ns" for i
    using t(2) that unfolding purity_invar_def by simp_all
  have sites: "site_rank t c \<le> purity_rank (cn_purity (t ! i))" if "i < length ns" "c \<in> callees ns i" for i c
  proof -
    have "new_purity i t = cn_purity (t ! i)" using stable that(1) purity_update_same [of i t] marked_length [OF m] by simp
    then show ?thesis using new_purity_rank(3) [OF t(2) that] by simp
  qed
  have far: "purity_rank (cn_purity (t ! j)) \<le> purity_rank (cn_purity (t ! i))" if "(edge ns)\<^sup>*\<^sup>* i j" for i j
    using that
  proof (induction rule: converse_rtranclp_induct)
    case (step i k)
    have "purity_rank (cn_purity (t ! k)) \<le> purity_rank (cn_purity (t ! i))"
      using sites [of i "Some k"] step(1) unfolding edge_def site_rank_def by simp
    then show ?case using step by simp
  qed simp
  have "cn_purity (t ! i) = worst_purity ns i" if i: "i < length ns" for i
  proof (rule purity_rank_eq [OF N(2) [OF i]])
    show "worst_purity ns i \<noteq> IR_PURITY_UNKNOWN" unfolding worst_purity_def by simp
    have j: "j < length ns" if "(edge ns)\<^sup>*\<^sup>* i j" for j
      using that i closed sites_closed_targets [of ns] edge_targets [of _ ns] by (cases rule: rtranclp.cases) (auto simp: edge_def)
    have "2 \<le> purity_rank (cn_purity (t ! i))" if r: "(edge ns)\<^sup>*\<^sup>* i j" and "cn_purity (ns ! j) = IR_PURITY_SIDE_EFFECTING \<or> None \<in> callees ns j" for j
      using that(2) far [OF r] N(3) [OF j [OF r]] sites [OF j [OF r], of None] by (auto simp: site_rank_def)
    moreover have "1 \<le> purity_rank (cn_purity (t ! i))" if r: "(edge ns)\<^sup>*\<^sup>* i j" and "cn_purity (ns ! j) = IR_PURITY_READONLY" for j
      using that(2) far [OF r] N(3) [OF j [OF r]] by simp
    ultimately have "purity_rank (worst_purity ns i) \<le> purity_rank (cn_purity (t ! i))" unfolding worst_purity_def by auto
    then show "purity_rank (cn_purity (t ! i)) = purity_rank (worst_purity ns i)" using N(1) [OF i] by simp
  qed
  moreover have "spread_purity ns = Some t" unfolding spread_purity_def using same [unfolded t(1), symmetric] by simp
  ultimately show ?thesis using m t(2) unfolding purity_invar_def by blast
qed

section \<open>The call graph of a module\<close>

definition distinct_names :: "ir_module \<Rightarrow> bool" where
  "distinct_names m \<longleftrightarrow> distinct (map fn_name (m_functions m))"

lemma linked_nodes_like: "like (map new_node (m_functions m)) (linked_nodes m)"
  and linked_nodes_callees: "i < length (m_functions m) \<Longrightarrow>
    callees (linked_nodes m) i = find_node (linked_nodes m) ` called_names (m_functions m ! i)"
proof -
  let ?b = "map new_node (m_functions m)"
  have "set [0..<length (m_functions m)] \<subseteq> {..<length ?b}" "distinct [0..<length (m_functions m)]" by auto
  note F = fold_add_calls [OF this, of m]
  then show l: "like ?b (linked_nodes m)" unfolding linked_nodes_def by simp
  have f: "find_node (linked_nodes m) = find_node ?b" using l by (intro ext find_node_names) (simp add: like_def)
  have e: "callees ?b i = {}" if "i < length (m_functions m)" using that by (simp add: callees_def new_node_def)
  show "callees (linked_nodes m) i = find_node (linked_nodes m) ` called_names (m_functions m ! i)" if "i < length (m_functions m)"
    using F that e [OF that] f unfolding linked_nodes_def by simp
qed

lemma linked_nodes_node:
  shows "length (linked_nodes m) = length (m_functions m)"
    and "map cn_name (linked_nodes m) = map fn_name (m_functions m)"
    and "map cn_reachable (linked_nodes m) = map (\<lambda>f. fn_name f = ''main'') (m_functions m)"
    and "map cn_entry (linked_nodes m) = map (\<lambda>f. fn_name f = ''main'') (m_functions m)"
  using linked_nodes_like [of m] like_length [OF linked_nodes_like [of m]] unfolding like_def by (simp_all add: new_node_def comp_def)

lemma linked_nodes_name: "i < length (m_functions m) \<Longrightarrow> cn_name (linked_nodes m ! i) = fn_name (m_functions m ! i)"
  using linked_nodes_node(1,2) [of m] by (metis nth_map)

lemma linked_nodes_closed: "sites_closed (linked_nodes m)"
  unfolding sites_closed_def
proof (intro allI impI ballI)
  fix i site v
  assume "i < length (linked_nodes m)" "site \<in> set (cn_sites (linked_nodes m ! i))" "cs_callee site = Some v"
  then have "Some v \<in> find_node (linked_nodes m) ` called_names (m_functions m ! i)"
    using linked_nodes_callees [of i m] linked_nodes_node(1) [of m] unfolding callees_def by force
  then show "v < length (linked_nodes m)" using find_node_Some by force
qed

lemma edge_calls:
  assumes "distinct_names m"
  shows "edge (linked_nodes m) i j \<longleftrightarrow> i < length (m_functions m) \<and> j < length (m_functions m) \<and> fn_calls m (m_functions m ! i) (m_functions m ! j)"
proof -
  have d: "distinct (map cn_name (linked_nodes m))" using assms unfolding distinct_names_def linked_nodes_node(2) .
  have "find_node (linked_nodes m) s = Some j \<longleftrightarrow> j < length (m_functions m) \<and> s = Some (fn_name (m_functions m ! j))" for s
    using find_node_Some [of "linked_nodes m" s j] find_node_own [OF d, of j] linked_nodes_node(1) [of m] linked_nodes_name [of j m] by auto
  then have "Some j \<in> find_node (linked_nodes m) ` called_names f \<longleftrightarrow> j < length (m_functions m) \<and> Some (fn_name (m_functions m ! j)) \<in> called_names f" for f
    by (metis (no_types, lifting) image_iff)
  then show ?thesis unfolding edge_def fn_calls_def linked_nodes_node(1) using linked_nodes_callees [of i m] by auto
qed

lemma edges_calls:
  assumes d: "distinct_names m" and i: "i < length (m_functions m)"
  shows "(edge (linked_nodes m))\<^sup>*\<^sup>* i j \<longleftrightarrow> j < length (m_functions m) \<and> (fn_calls m)\<^sup>*\<^sup>* (m_functions m ! i) (m_functions m ! j)"
proof
  assume "(edge (linked_nodes m))\<^sup>*\<^sup>* i j"
  then show "j < length (m_functions m) \<and> (fn_calls m)\<^sup>*\<^sup>* (m_functions m ! i) (m_functions m ! j)"
    by (induction rule: rtranclp_induct) (use i edge_calls [OF d] in \<open>auto intro: rtranclp.rtrancl_into_rtrancl\<close>)
next
  assume a: "j < length (m_functions m) \<and> (fn_calls m)\<^sup>*\<^sup>* (m_functions m ! i) (m_functions m ! j)"
  have inj: "k = l" if "k < length (m_functions m)" "l < length (m_functions m)" "m_functions m ! k = m_functions m ! l" for k l
    using d that unfolding distinct_names_def by (metis distinct_map nth_eq_iff_index_eq)
  have "\<exists>k < length (m_functions m). g = m_functions m ! k \<and> (edge (linked_nodes m))\<^sup>*\<^sup>* i k"
    if "(fn_calls m)\<^sup>*\<^sup>* (m_functions m ! i) g" for g using that
  proof (induction rule: rtranclp_induct)
    case (step g h)
    then obtain k where k: "k < length (m_functions m)" "g = m_functions m ! k" "(edge (linked_nodes m))\<^sup>*\<^sup>* i k" by blast
    obtain l where l: "l < length (m_functions m)" "h = m_functions m ! l"
      using step(2) unfolding fn_calls_def by (auto simp: in_set_conv_nth)
    then have "edge (linked_nodes m) k l" using edge_calls [OF d] k step(2) by simp
    then have "(edge (linked_nodes m))\<^sup>*\<^sup>* i l" using k(3) by simp
    then show ?case using l by blast
  qed (use i in blast)
  then show "(edge (linked_nodes m))\<^sup>*\<^sup>* i j" using a inj by blast
qed

text \<open>What is called outside the module.\<close>

definition calls_unknown :: "ir_module \<Rightarrow> ir_function \<Rightarrow> bool" where
  "calls_unknown m f \<longleftrightarrow> (\<exists>s \<in> called_names f. s \<notin> (\<lambda>g. Some (fn_name g)) ` set (m_functions m))"

definition module_purity :: "ir_module \<Rightarrow> ir_function \<Rightarrow> ir_purity" where
  "module_purity m f =
     (if \<exists>g. (fn_calls m)\<^sup>*\<^sup>* f g \<and> (own_purity g = IR_PURITY_SIDE_EFFECTING \<or> calls_unknown m g) then IR_PURITY_SIDE_EFFECTING
      else if \<exists>g. (fn_calls m)\<^sup>*\<^sup>* f g \<and> own_purity g = IR_PURITY_READONLY then IR_PURITY_READONLY
      else IR_PURITY_PURE)"

lemma unknown_callee: "i < length (m_functions m) \<Longrightarrow> None \<in> callees (linked_nodes m) i \<longleftrightarrow> calls_unknown m (m_functions m ! i)"
proof -
  assume i: "i < length (m_functions m)"
  have "find_node (linked_nodes m) s = None \<longleftrightarrow> s \<notin> (\<lambda>g. Some (fn_name g)) ` set (m_functions m)" for s
  proof (cases s)
    case (Some t)
    have "find_node (linked_nodes m) s = None \<longleftrightarrow> t \<notin> set (map cn_name (linked_nodes m))"
      unfolding find_node_def Some by (force simp add: find_None_iff in_set_conv_nth)
    then show ?thesis unfolding linked_nodes_node(2) Some by auto
  qed (auto simp: find_node_def)
  then show ?thesis unfolding linked_nodes_callees [OF i] calls_unknown_def by (metis (no_types, lifting) image_iff)
qed

lemma calls_index:
  "(fn_calls m)\<^sup>*\<^sup>* (m_functions m ! i) g \<Longrightarrow> i < length (m_functions m) \<Longrightarrow> \<exists>j < length (m_functions m). g = m_functions m ! j"
  by (induction rule: rtranclp_induct) (auto simp: fn_calls_def in_set_conv_nth)

lemma entry_node_Some: "entry_node m = Some e \<Longrightarrow> e < length (m_functions m) \<and> fn_name (m_functions m ! e) = ''main''"
  unfolding entry_node_def by (auto simp: find_Some_iff rev_nth)

lemma entry_node_None: "entry_node m = None \<longleftrightarrow> \<not> has_main m"
  unfolding entry_node_def has_main_def by (auto simp: find_None_iff) (auto simp: in_set_conv_nth)

text \<open>The nodes after the first three parts of the construction.\<close>

lemma reachable_nodes:
  assumes d: "distinct_names m"
  shows "\<exists>ns2. Option.bind (find_cycles (linked_nodes m)) (mark_reachable (entry_node m)) = Some ns2 \<and> marked (linked_nodes m) ns2 \<and>
    (\<forall>i < length (m_functions m). cn_reachable (ns2 ! i) \<longleftrightarrow> (has_main m \<longrightarrow> is_live m (m_functions m ! i)))"
proof -
  let ?n = "length (m_functions m)"
  obtain ns1 where ns1: "find_cycles (linked_nodes m) = Some ns1" "searched (linked_nodes m) ns1"
    using find_cycles_ends [OF linked_nodes_closed] by blast
  note m1 = searched_marked [OF ns1(2)]
  have len: "length ns1 = ?n" using searched_length [OF ns1(2)] linked_nodes_node(1) by simp
  show ?thesis
  proof (cases "entry_node m")
    case None
    let ?ns = "map (\<lambda>n. n\<lparr>cn_reachable := True\<rparr>) ns1"
    have "mark_reachable None ns1 = Some ?ns" by (simp add: mark_reachable_def)
    moreover have "marked ns1 ?ns" by (simp add: marked_def comp_def)
    moreover have "\<not> has_main m" using None entry_node_None by blast
    ultimately show ?thesis using ns1(1) None marked_trans [OF m1] len by simp
  next
    case (Some e)
    note e = entry_node_Some [OF Some]
    have r: "cn_reachable (ns1 ! i) \<longleftrightarrow> fn_name (m_functions m ! i) = ''main''" if "i < ?n" for i
    proof -
      have "map cn_reachable ns1 = map (\<lambda>f. fn_name f = ''main'') (m_functions m)"
        using ns1(2) linked_nodes_node(3) [of m] unfolding searched_def by simp
      then have "map cn_reachable ns1 ! i = (fn_name (m_functions m ! i) = ''main'')" using that by simp
      then show ?thesis using that len by simp
    qed
    have uniq: "i = e" if "i < ?n" "fn_name (m_functions m ! i) = ''main''" for i
      using d that e unfolding distinct_names_def by (metis distinct_conv_nth length_map nth_map)
    have fresh: "\<And>i. i < ?n \<Longrightarrow> cn_reachable (ns1 ! i) \<Longrightarrow> i = e" using r uniq by blast
    obtain ns2 where ns2: "mark_reachable (Some e) ns1 = Some ns2" "marked ns1 ns2"
        "\<forall>i < ?n. cn_reachable (ns2 ! i) \<longleftrightarrow> (edge ns1)\<^sup>*\<^sup>* e i"
      using mark_reachable_from [OF sites_closed_searched [OF linked_nodes_closed ns1(2)], of e, unfolded len, OF conjunct1 [OF e] fresh] by blast
    have "is_live m (m_functions m ! i) \<longleftrightarrow> (edge (linked_nodes m))\<^sup>*\<^sup>* e i" if i: "i < ?n" for i
    proof -
      have "is_live m (m_functions m ! i) \<longleftrightarrow> (fn_calls m)\<^sup>*\<^sup>* (m_functions m ! e) (m_functions m ! i)"
      proof
        assume "is_live m (m_functions m ! i)"
        then obtain k where k: "k < ?n" "fn_name (m_functions m ! k) = ''main''" "(fn_calls m)\<^sup>*\<^sup>* (m_functions m ! k) (m_functions m ! i)"
          unfolding is_live_def by (auto simp: in_set_conv_nth)
        then show "(fn_calls m)\<^sup>*\<^sup>* (m_functions m ! e) (m_functions m ! i)" using uniq by blast
      next
        assume "(fn_calls m)\<^sup>*\<^sup>* (m_functions m ! e) (m_functions m ! i)"
        then show "is_live m (m_functions m ! i)" unfolding is_live_def using e nth_mem by blast
      qed
      then show ?thesis using edges_calls [OF d, of e i] e i by simp
    qed
    moreover have "has_main m" using Some entry_node_None by (metis option.distinct(1))
    ultimately show ?thesis using ns1(1) Some ns2 len marked_trans [OF m1 ns2(2)] marked_edge [OF m1] by simp
  qed
qed

lemma callgraph_nodes:
  assumes d: "distinct_names m"
  shows "\<exists>ns. ir_callgraph_build m = Some ns \<and> marked (linked_nodes m) ns \<and>
    (\<forall>i < length (m_functions m). (cn_reachable (ns ! i) \<longleftrightarrow> (has_main m \<longrightarrow> is_live m (m_functions m ! i))) \<and>
       cn_purity (ns ! i) = module_purity m (m_functions m ! i))"
proof -
  let ?n = "length (m_functions m)"
  obtain ns1 ns2 where ns1: "find_cycles (linked_nodes m) = Some ns1" "mark_reachable (entry_node m) ns1 = Some ns2"
      and m2: "marked (linked_nodes m) ns2"
      and r2: "\<forall>i < ?n. cn_reachable (ns2 ! i) \<longleftrightarrow> (has_main m \<longrightarrow> is_live m (m_functions m ! i))"
    using reachable_nodes [OF d] by (auto simp: bind_eq_Some_conv)
  have l2: "length ns2 = ?n" using marked_length [OF m2] linked_nodes_node(1) by simp
  let ?ns3 = "map (\<lambda>(f, n). n\<lparr>cn_purity := own_purity f\<rparr>) (zip (m_functions m) ns2)"
  have n3: "?ns3 ! i = (ns2 ! i)\<lparr>cn_purity := own_purity (m_functions m ! i)\<rparr>" if "i < ?n" for i using that l2 by simp
  have l3: "length ?ns3 = length ns2" using l2 by simp
  have "marked ns2 ?ns3" unfolding marked_def by (intro conjI nth_equalityI) (use l2 in simp_all)
  then have m3: "marked (linked_nodes m) ?ns3" using marked_trans [OF m2] by blast
  have c3: "sites_closed ?ns3"
    using linked_nodes_closed [of m] marked_length [OF m3] marked_sites [OF m3] unfolding sites_closed_def by simp
  have p3: "cn_purity (?ns3 ! i) = own_purity (m_functions m ! i)" if "i < ?n" for i using n3 [OF that] by simp
  have "own_purity f \<noteq> IR_PURITY_UNKNOWN" for f unfolding own_purity_def by simp
  then have k3: "cn_purity (?ns3 ! i) \<noteq> IR_PURITY_UNKNOWN" if "i < length ?ns3" for i using that p3 l2 l3 by metis
  obtain t where t: "spread_purity ?ns3 = Some t" "marked ?ns3 t" "map cn_reachable t = map cn_reachable ?ns3"
      "\<forall>i < length ?ns3. cn_purity (t ! i) = worst_purity ?ns3 i"
    using spread_purity_worst [OF c3 k3] by blast
  have lt: "length t = ?n" using marked_length [OF t(2)] l2 l3 by simp
  have mt: "marked (linked_nodes m) t" using marked_trans [OF m3 t(2)] .
  let ?ns = "map classify_node (zip (m_functions m) t)"
  have n: "?ns ! i = classify_node (m_functions m ! i, t ! i)" if "i < ?n" for i using that lt by simp
  have "marked t ?ns" unfolding marked_def by (intro conjI nth_equalityI) (use lt in \<open>simp_all add: classify_node_def\<close>)
  then have m: "marked (linked_nodes m) ?ns" using marked_trans [OF mt] by blast
  have b: "ir_callgraph_build m = Some ?ns" unfolding ir_callgraph_build_def using ns1 t(1) by simp
  have reach: "cn_reachable (?ns ! i) \<longleftrightarrow> (has_main m \<longrightarrow> is_live m (m_functions m ! i))" if i: "i < ?n" for i
  proof -
    have "cn_reachable (t ! i) = cn_reachable (?ns3 ! i)" using t(3) i lt l2 l3 by (metis nth_map)
    then show ?thesis using r2 i n3 [OF i] n [OF i] by (simp add: classify_node_def)
  qed
  have pure: "cn_purity (?ns ! i) = module_purity m (m_functions m ! i)" if i: "i < ?n" for i
  proof -
    have e: "edge ?ns3 = edge (linked_nodes m)" by (rule marked_edge [OF m3])
    have c: "None \<in> callees ?ns3 j \<longleftrightarrow> calls_unknown m (m_functions m ! j)" if "j < ?n" for j
      using unknown_callee [OF that] marked_sites [OF m3, of j] that linked_nodes_node(1) [of m] by (simp add: callees_def)
    have ex: "(\<exists>j. (edge ?ns3)\<^sup>*\<^sup>* i j \<and> P (m_functions m ! j) \<and> j < ?n) \<longleftrightarrow> (\<exists>g. (fn_calls m)\<^sup>*\<^sup>* (m_functions m ! i) g \<and> P g)" for P
      unfolding e using edges_calls [OF d i] calls_index [of m i] i by metis
    have lt: "j < ?n" if "(edge ?ns3)\<^sup>*\<^sup>* i j" for j using that edges_calls [OF d i] unfolding e by simp
    have "worst_purity ?ns3 i = module_purity m (m_functions m ! i)"
      unfolding worst_purity_def module_purity_def ex [symmetric] using lt c p3 by (smt (verit, ccfv_threshold))
    then show ?thesis using t(4) i l2 l3 n [OF i] by (simp add: classify_node_def)
  qed
  show ?thesis using b m reach pure by blast
qed

section \<open>The properties\<close>

text \<open>C19. For a module whose functions have different names, the call graph is built in finitely many
  steps, and the purity it gives to a function is the worst one of the functions that can be called
  from it, in zero or more calls: side-effecting as soon as one of them has an effect of its own or
  calls a function that is not in the module, read-only if none of them has and one loads, pure
  otherwise.\<close>

theorem purity_is_worst_of_callees:
  assumes "distinct_names m"
  shows "\<exists>ns. ir_callgraph_build m = Some ns \<and> map cn_name ns = map fn_name (m_functions m) \<and>
    (\<forall>i < length (m_functions m). cn_purity (ns ! i) = module_purity m (m_functions m ! i))"
proof -
  obtain ns where ns: "ir_callgraph_build m = Some ns" "marked (linked_nodes m) ns"
      "\<forall>i < length (m_functions m). cn_purity (ns ! i) = module_purity m (m_functions m ! i)"
    using callgraph_nodes [OF assms] by blast
  then show ?thesis using linked_nodes_node(2) [of m] unfolding marked_def by simp
qed

text \<open>C18. For a module whose functions have different names, dead function elimination ends and keeps
  exactly the functions that main can call, in zero or more calls, and all functions of a module
  without main; it counts the others; and every call of a function that is kept that named a
  function of the module still names one.\<close>

theorem dead_functions_are_removed:
  assumes d: "distinct_names m"
  shows "\<exists>m' n. ir_ipa_eliminate_dead_functions m None = Some (m', n) \<and>
    m_functions m' = filter (\<lambda>f. has_main m \<longrightarrow> is_live m f) (m_functions m) \<and>
    n = length (m_functions m) - length (m_functions m') \<and>
    (\<forall>f \<in> set (m_functions m'). \<forall>g. fn_calls m f g \<longrightarrow> fn_calls m' f g)"
proof -
  obtain ns where ns: "ir_callgraph_build m = Some ns" "marked (linked_nodes m) ns"
      and r: "\<forall>i < length (m_functions m). cn_reachable (ns ! i) \<longleftrightarrow> (has_main m \<longrightarrow> is_live m (m_functions m ! i))"
    using callgraph_nodes [OF d] by blast
  have dead: "is_dead ns f \<longleftrightarrow> \<not> (has_main m \<longrightarrow> is_live m f)" if f: "f \<in> set (m_functions m)" for f
  proof -
    obtain i where i: "i < length (m_functions m)" "f = m_functions m ! i" using f by (auto simp: in_set_conv_nth)
    have names: "map cn_name ns = map cn_name (linked_nodes m)" using ns(2) unfolding marked_def by simp
    have "distinct (map cn_name (linked_nodes m))" using d unfolding distinct_names_def linked_nodes_node(2) .
    then have "find_node ns (Some (fn_name f)) = Some i"
      using find_node_names [OF names] find_node_own [of "linked_nodes m" i] linked_nodes_name [OF i(1)] linked_nodes_node(1) [of m] i by simp
    moreover have "cn_entry (ns ! i) \<longleftrightarrow> fn_name f = ''main''"
    proof -
      have "map cn_entry (linked_nodes m) ! i = (fn_name f = ''main'')" using i by (simp add: linked_nodes_node(4))
      then show ?thesis using marked_entry [OF ns(2), of i] i linked_nodes_node(1) [of m] by simp
    qed
    moreover have "is_live m f" if "fn_name f = ''main''" using that f unfolding is_live_def by blast
    ultimately show ?thesis using r i unfolding is_dead_def by auto
  qed
  let ?m = "m\<lparr>m_functions := filter (\<lambda>f. \<not> is_dead ns f) (m_functions m)\<rparr>"
  have k: "filter (\<lambda>f. \<not> is_dead ns f) (m_functions m) = filter (\<lambda>f. has_main m \<longrightarrow> is_live m f) (m_functions m)"
    using dead by (intro filter_cong) auto
  have e: "ir_ipa_eliminate_dead_functions m None = Some (?m, count_if (is_dead ns) (m_functions m))"
    unfolding ir_ipa_eliminate_dead_functions_def using ns(1) by simp
  have c: "count_if (is_dead ns) (m_functions m) = length (m_functions m) - length (filter (\<lambda>f. \<not> is_dead ns f) (m_functions m))"
    using sum_length_filter_compl [of "is_dead ns" "m_functions m"] by (simp add: count_if_def)
  have calls: "fn_calls ?m f g" if f: "f \<in> set (filter (\<lambda>f. has_main m \<longrightarrow> is_live m f) (m_functions m))" and g: "fn_calls m f g" for f g
  proof -
    have "is_live m g" if "is_live m f" using that g unfolding is_live_def by (meson rtranclp.rtrancl_into_rtrancl)
    then show ?thesis using f g k unfolding fn_calls_def by auto
  qed
  show ?thesis using e c calls k by (intro exI [of _ ?m] exI conjI) simp_all
qed

text \<open>A module: main calls a function that calls a function that loads; another one, which prints, is
  called by a function that nobody calls.\<close>

definition calling :: "string \<Rightarrow> ir_inst list \<Rightarrow> ir_function" where
  "calling name is = (ir_new_function name (Some Ty_I64))\<lparr>
     fn_heap := [\<lparr>bb_name = ''entry'', bb_id = 0, bb_insts = is, bb_preds = [], bb_succs = []\<rparr>],
     fn_order := [0], fn_entry := Some 0, fn_next_block := 1, fn_block_count := 1\<rparr>"

definition call_of :: "string \<Rightarrow> ir_inst" where
  "call_of name = (create_instruction IR_OP_CALL Ty_Void)\<lparr>i_callee := Some name\<rparr>"

definition calling_module :: ir_module where
  "calling_module = (ir_module_create (Some ''m''))\<lparr>m_functions :=
     [calling ''main'' [call_of ''a''], calling ''a'' [call_of ''b'', call_of ''a''], calling ''b'' [create_instruction IR_OP_LOAD Ty_I64],
      calling ''c'' [create_instruction IR_OP_PRINT Ty_Void], calling ''d'' [call_of ''c'']]\<rparr>"

lemma calling_module_names: "distinct_names calling_module"
  by code_simp

theorem purity_is_worst_of_callees_witness:
  "map_option (map cn_purity) (ir_callgraph_build calling_module) =
     Some [IR_PURITY_READONLY, IR_PURITY_READONLY, IR_PURITY_READONLY, IR_PURITY_SIDE_EFFECTING, IR_PURITY_SIDE_EFFECTING] \<and>
   module_purity calling_module (calling ''main'' [call_of ''a'']) = IR_PURITY_READONLY"
proof -
  have c: "map_option (map cn_purity) (ir_callgraph_build calling_module) =
     Some [IR_PURITY_READONLY, IR_PURITY_READONLY, IR_PURITY_READONLY, IR_PURITY_SIDE_EFFECTING, IR_PURITY_SIDE_EFFECTING]"
    by code_simp
  then show ?thesis using purity_is_worst_of_callees [OF calling_module_names] by (auto simp: calling_module_def)
qed

theorem dead_functions_are_removed_witness:
  "map_option (\<lambda>(m, n). (map fn_name (m_functions m), n)) (ir_ipa_eliminate_dead_functions calling_module None) =
     Some ([''main'', ''a'', ''b''], 2) \<and> is_live calling_module (calling ''b'' [create_instruction IR_OP_LOAD Ty_I64])"
proof -
  have c: "map_option (\<lambda>(m, n). (m_functions m, n)) (ir_ipa_eliminate_dead_functions calling_module None) =
      Some ([calling ''main'' [call_of ''a''], calling ''a'' [call_of ''b'', call_of ''a''], calling ''b'' [create_instruction IR_OP_LOAD Ty_I64]], 2)"
    by code_simp
  have h: "has_main calling_module" by code_simp
  obtain m' n where e: "ir_ipa_eliminate_dead_functions calling_module None = Some (m', n)"
      and f: "m_functions m' = filter (\<lambda>f. has_main calling_module \<longrightarrow> is_live calling_module f) (m_functions calling_module)"
    using dead_functions_are_removed [OF calling_module_names] by blast
  have "calling ''b'' [create_instruction IR_OP_LOAD Ty_I64] \<in> set (m_functions m')" using c e by simp
  then show ?thesis using c e f h by (auto simp: calling_def ir_new_function_def)
qed

section \<open>A defect of the inliner\<close>

text \<open>The copy of an alloca takes the place of register 0 in the table of registers, because the result of an
  alloca is a variable, with the number 0: afterwards a use of register 0 of the callee is copied as a
  use of the variable.\<close>

theorem inlined_variable_replaces_register_zero:
  fixes env :: inline_env and callee :: ir_function
  defines "e \<equiv> env\<lparr>ie_size := fn_next_reg callee + 64\<rparr>"
  shows "\<exists>w. mapped_val e (clone_inst e x (snd (ir_emit_alloca ty name bd)) st) (Some (ir_val_reg ty' 0)) = Some w \<and> v_kind w = IR_VAL_VAR"
  unfolding e_def by (simp add: mapped_val_def remap_val_def clone_inst_def clone_alloca_def ir_emit_alloca_def emit_plain_def
      create_instruction_def ir_val_reg_def ir_val_var_def Let_def split: prod.split option.split)

end
