(* ===== verification/X86_Reg.thy ===== *)
theory X86_Reg
  imports Cco_Prelude
begin

text \<open>
  The physical registers of \<open>src/backend/x86_64/x86_64_regalloc.h\<close> and the functions on them of
  \<open>x86_64_regalloc.c\<close>: the enumeration \<open>X86Reg\<close> with its values, names, classes, and the callee-
  and caller-saved sets of the System V ABI. \<open>X86_TOTAL_REG_COUNT\<close>, the last constant of the
  enumeration, is a count and not a register.
\<close>

datatype reg_class = REG_CLASS_INT | REG_CLASS_FLOAT

datatype (plugins only: size code) x86_reg =
    X86_REG_NONE | X86_REG_RAX | X86_REG_RCX | X86_REG_RDX | X86_REG_RBX | X86_REG_RSP
    | X86_REG_RBP | X86_REG_RSI | X86_REG_RDI | X86_REG_R8 | X86_REG_R9 | X86_REG_R10
    | X86_REG_R11 | X86_REG_R12 | X86_REG_R13 | X86_REG_R14 | X86_REG_R15 | X86_REG_XMM0
    | X86_REG_XMM1 | X86_REG_XMM2 | X86_REG_XMM3 | X86_REG_XMM4 | X86_REG_XMM5 | X86_REG_XMM6
    | X86_REG_XMM7 | X86_REG_XMM8 | X86_REG_XMM9 | X86_REG_XMM10 | X86_REG_XMM11
    | X86_REG_XMM12 | X86_REG_XMM13 | X86_REG_XMM14 | X86_REG_XMM15

text \<open>The value of the enumeration constant.\<close>

primrec reg_num :: "x86_reg \<Rightarrow> int" where
  "reg_num X86_REG_NONE = - 1"
| "reg_num X86_REG_RAX = 0"
| "reg_num X86_REG_RCX = 1"
| "reg_num X86_REG_RDX = 2"
| "reg_num X86_REG_RBX = 3"
| "reg_num X86_REG_RSP = 4"
| "reg_num X86_REG_RBP = 5"
| "reg_num X86_REG_RSI = 6"
| "reg_num X86_REG_RDI = 7"
| "reg_num X86_REG_R8 = 8"
| "reg_num X86_REG_R9 = 9"
| "reg_num X86_REG_R10 = 10"
| "reg_num X86_REG_R11 = 11"
| "reg_num X86_REG_R12 = 12"
| "reg_num X86_REG_R13 = 13"
| "reg_num X86_REG_R14 = 14"
| "reg_num X86_REG_R15 = 15"
| "reg_num X86_REG_XMM0 = 16"
| "reg_num X86_REG_XMM1 = 17"
| "reg_num X86_REG_XMM2 = 18"
| "reg_num X86_REG_XMM3 = 19"
| "reg_num X86_REG_XMM4 = 20"
| "reg_num X86_REG_XMM5 = 21"
| "reg_num X86_REG_XMM6 = 22"
| "reg_num X86_REG_XMM7 = 23"
| "reg_num X86_REG_XMM8 = 24"
| "reg_num X86_REG_XMM9 = 25"
| "reg_num X86_REG_XMM10 = 26"
| "reg_num X86_REG_XMM11 = 27"
| "reg_num X86_REG_XMM12 = 28"
| "reg_num X86_REG_XMM13 = 29"
| "reg_num X86_REG_XMM14 = 30"
| "reg_num X86_REG_XMM15 = 31"

definition all_regs :: "x86_reg list" where
  "all_regs =
    [X86_REG_NONE, X86_REG_RAX, X86_REG_RCX, X86_REG_RDX, X86_REG_RBX, X86_REG_RSP,
     X86_REG_RBP, X86_REG_RSI, X86_REG_RDI, X86_REG_R8, X86_REG_R9, X86_REG_R10, X86_REG_R11,
     X86_REG_R12, X86_REG_R13, X86_REG_R14, X86_REG_R15, X86_REG_XMM0, X86_REG_XMM1,
     X86_REG_XMM2, X86_REG_XMM3, X86_REG_XMM4, X86_REG_XMM5, X86_REG_XMM6, X86_REG_XMM7,
     X86_REG_XMM8, X86_REG_XMM9, X86_REG_XMM10, X86_REG_XMM11, X86_REG_XMM12, X86_REG_XMM13,
     X86_REG_XMM14, X86_REG_XMM15]"

lemma reg_num_nth: "all_regs ! nat (reg_num r + 1) = r"
  by (cases r) (simp_all add: all_regs_def)

lemma reg_num_inject [simp]: "reg_num a = reg_num b \<longleftrightarrow> a = b"
  by (metis reg_num_nth)

lemma reg_num_range: "- 1 \<le> reg_num r \<and> reg_num r \<le> 31"
  by (cases r) simp_all

text \<open>Registers are ordered by their values, as the comparisons of the code order them.\<close>

instantiation x86_reg :: linorder
begin

definition less_eq_x86_reg :: "x86_reg \<Rightarrow> x86_reg \<Rightarrow> bool" where
  "a \<le> b \<longleftrightarrow> reg_num a \<le> reg_num b"

definition less_x86_reg :: "x86_reg \<Rightarrow> x86_reg \<Rightarrow> bool" where
  "a < b \<longleftrightarrow> reg_num a < reg_num b"

instance
  by standard (auto simp: less_eq_x86_reg_def less_x86_reg_def)

end

section \<open>Names, classes, saved registers\<close>

definition REG_NAMES_64 :: "string list" where
  "REG_NAMES_64 =
    [''%rax'', ''%rcx'', ''%rdx'', ''%rbx'', ''%rsp'', ''%rbp'', ''%rsi'', ''%rdi'', ''%r8'',
     ''%r9'', ''%r10'', ''%r11'', ''%r12'', ''%r13'', ''%r14'', ''%r15'']"

definition REG_NAMES_32 :: "string list" where
  "REG_NAMES_32 =
    [''%eax'', ''%ecx'', ''%edx'', ''%ebx'', ''%esp'', ''%ebp'', ''%esi'', ''%edi'', ''%r8d'',
     ''%r9d'', ''%r10d'', ''%r11d'', ''%r12d'', ''%r13d'', ''%r14d'', ''%r15d'']"

definition REG_NAMES_8 :: "string list" where
  "REG_NAMES_8 =
    [''%al'', ''%cl'', ''%dl'', ''%bl'', ''%spl'', ''%bpl'', ''%sil'', ''%dil'', ''%r8b'',
     ''%r9b'', ''%r10b'', ''%r11b'', ''%r12b'', ''%r13b'', ''%r14b'', ''%r15b'']"

definition XMM_NAMES :: "string list" where
  "XMM_NAMES =
    [''%xmm0'', ''%xmm1'', ''%xmm2'', ''%xmm3'', ''%xmm4'', ''%xmm5'', ''%xmm6'', ''%xmm7'',
     ''%xmm8'', ''%xmm9'', ''%xmm10'', ''%xmm11'', ''%xmm12'', ''%xmm13'', ''%xmm14'',
     ''%xmm15'']"

definition x86_reg_to_str :: "x86_reg \<Rightarrow> int \<Rightarrow> string" where
  "x86_reg_to_str reg sz =
     (if reg_num reg < 0 then ''%rax''
      else if reg \<ge> X86_REG_XMM0 \<and> reg \<le> X86_REG_XMM15
        then XMM_NAMES ! nat (reg_num reg - reg_num X86_REG_XMM0)
      else if sz = 1 then REG_NAMES_8 ! nat (reg_num reg)
      else if sz = 4 then REG_NAMES_32 ! nat (reg_num reg)
      else REG_NAMES_64 ! nat (reg_num reg))"

definition x86_reg_class :: "x86_reg \<Rightarrow> reg_class" where
  "x86_reg_class reg =
     (if reg \<ge> X86_REG_XMM0 \<and> reg \<le> X86_REG_XMM15 then REG_CLASS_FLOAT else REG_CLASS_INT)"

definition x86_reg_is_callee_saved :: "x86_reg \<Rightarrow> bool" where
  "x86_reg_is_callee_saved reg \<longleftrightarrow>
     reg \<in> {X86_REG_RBX, X86_REG_R12, X86_REG_R13, X86_REG_R14, X86_REG_R15}"

definition x86_reg_is_caller_saved :: "x86_reg \<Rightarrow> bool" where
  "x86_reg_is_caller_saved reg \<longleftrightarrow>
     (if reg_num reg < 0 then False
      else \<not> x86_reg_is_callee_saved reg \<and> reg \<noteq> X86_REG_RSP \<and> reg \<noteq> X86_REG_RBP)"

text \<open>The hardware number of a register (\<open>reg_hw_id\<close> of \<open>x86_64_encode.c\<close>).\<close>

definition reg_hw_id :: "x86_reg \<Rightarrow> u8" where
  "reg_hw_id r =
     (if r \<ge> X86_REG_XMM0 \<and> r \<le> X86_REG_XMM15 then of_int (reg_num r - reg_num X86_REG_XMM0)
      else if r \<ge> X86_REG_RAX \<and> r \<le> X86_REG_R15 then of_int (reg_num r)
      else 0)"

lemmas reg_order_defs = less_eq_x86_reg_def less_x86_reg_def

lemma reg_hw_id_range: "reg_hw_id r < 16"
  by (cases r) (simp_all add: reg_hw_id_def reg_order_defs)

lemma reg_hw_id_unat: "unat (reg_hw_id r) < 16"
  using reg_hw_id_range [of r] by (simp add: word_less_nat_alt)

end
