(* ===== verification/Regalloc.thy ===== *)
theory Regalloc
  imports Ir_Dominance X86_Reg
begin

text \<open>
  The register allocator of \<open>src/backend/x86_64/x86_64_regalloc.c\<close>: block liveness, live
  intervals, linear scan with spilling, and the lookups.

  Blocks are numbered by their position in the function, instructions by their position in the
  concatenation of the blocks. An interval is named by its register, its position in the list of
  intervals; the array of pointers \<open>active\<close> is a list of such names. Positions are unbounded
  integers; a start of \<open>INT_MAX\<close> stands for an interval that nothing has extended yet.
\<close>

section \<open>Register pools\<close>

definition CALLER_SAVED_INT_POOL :: "x86_reg list" where
  "CALLER_SAVED_INT_POOL = [X86_REG_R10, X86_REG_R11]"

definition CALLEE_SAVED_INT_POOL :: "x86_reg list" where
  "CALLEE_SAVED_INT_POOL = [X86_REG_RBX, X86_REG_R12, X86_REG_R13, X86_REG_R14, X86_REG_R15]"

definition FLOAT_POOL :: "x86_reg list" where
  "FLOAT_POOL = [X86_REG_XMM8, X86_REG_XMM9, X86_REG_XMM10, X86_REG_XMM11, X86_REG_XMM12,
     X86_REG_XMM13, X86_REG_XMM0, X86_REG_XMM1, X86_REG_XMM2, X86_REG_XMM3, X86_REG_XMM4,
     X86_REG_XMM5, X86_REG_XMM6, X86_REG_XMM7]"

lemmas pool_defs = CALLER_SAVED_INT_POOL_def CALLEE_SAVED_INT_POOL_def FLOAT_POOL_def

section \<open>Data\<close>

definition INT_MAX :: int where "INT_MAX = 2147483647"

record live_interval =
  li_val_id :: nat
  li_type :: "ir_type option"
  li_class :: reg_class
  li_start :: int
  li_end :: int
  li_crosses :: bool
  li_call_count :: nat
  li_calls :: "int list"
  li_phys :: x86_reg
  li_spilled :: bool
  li_offset :: int

record regalloc_result =
  ra_fn :: ir_function
  ra_total :: nat
  ra_intervals :: "live_interval list"
  ra_used :: "x86_reg \<Rightarrow> bool"
  ra_callee_saved :: "x86_reg list"
  ra_spilled :: nat
  ra_int_spilled :: nat
  ra_float_spilled :: nat
  ra_spill_bytes :: nat
  ra_inst_count :: nat

definition fresh_interval :: "nat \<Rightarrow> live_interval" where
  "fresh_interval v = \<lparr>li_val_id = v, li_type = None, li_class = REG_CLASS_INT, li_start = INT_MAX,
     li_end = -1, li_crosses = False, li_call_count = 0, li_calls = [], li_phys = X86_REG_NONE,
     li_spilled = False, li_offset = 0\<rparr>"

section \<open>Uses and definitions\<close>

definition is_call_op :: "ir_opcode \<Rightarrow> bool" where
  "is_call_op opc \<longleftrightarrow> opc = IR_OP_CALL \<or> opc = IR_OP_PRINT \<or> opc = IR_OP_FREE \<or> opc = IR_OP_RELEASE"

text \<open>The register a value names, if the function has it.\<close>

definition reg_of :: "nat \<Rightarrow> ir_value option \<Rightarrow> nat option" where
  "reg_of n v =
     (case v of
        Some w \<Rightarrow> if v_kind w = IR_VAL_REG \<and> v_id w < n then Some (v_id w) else None
      | None \<Rightarrow> None)"

definition mark_use :: "nat \<Rightarrow> ir_value option \<Rightarrow> bool list \<times> bool list \<Rightarrow> bool list \<times> bool list" where
  "mark_use n v = (\<lambda>(use, def).
     (case reg_of n v of Some r \<Rightarrow> (if def ! r then use else use[r := True], def) | None \<Rightarrow> (use, def)))"

definition mark_def :: "nat \<Rightarrow> ir_value option \<Rightarrow> bool list \<times> bool list \<Rightarrow> bool list \<times> bool list" where
  "mark_def n v = (\<lambda>(use, def).
     (case reg_of n v of Some r \<Rightarrow> (use, def[r := True]) | None \<Rightarrow> (use, def)))"

text \<open>The operands the allocator looks at.\<close>

definition operands :: "ir_inst \<Rightarrow> ir_value option list" where
  "operands i = i_lhs i # i_rhs i # map Some (i_args i)"

definition mark_inst :: "nat \<Rightarrow> ir_inst \<Rightarrow> bool list \<times> bool list \<Rightarrow> bool list \<times> bool list" where
  "mark_inst n i s = mark_def n (i_result i) (fold (mark_use n) (operands i) s)"

definition block_use_def :: "nat \<Rightarrow> ir_block \<Rightarrow> bool list \<times> bool list" where
  "block_use_def n bb = fold (mark_inst n) (bb_insts bb) (replicate n False, replicate n False)"

definition interval_class :: "ir_type \<Rightarrow> reg_class" where
  "interval_class ty = (if ir_kind ty = IR_TYPE_F64 then REG_CLASS_FLOAT else REG_CLASS_INT)"

definition set_type :: "nat \<Rightarrow> ir_inst \<Rightarrow> live_interval list \<Rightarrow> live_interval list" where
  "set_type n i ivs =
     (case i_result i of
        Some w \<Rightarrow>
          (case reg_of n (Some w) of
             Some r \<Rightarrow> ivs[r := (ivs ! r)\<lparr>li_type := Some (v_type w), li_class := interval_class (v_type w)\<rparr>]
           | None \<Rightarrow> ivs)
      | None \<Rightarrow> ivs)"

section \<open>Numbering\<close>

definition all_insts :: "ir_function \<Rightarrow> ir_inst list" where
  "all_insts f = concat (map bb_insts (fn_blocks f))"

definition block_start :: "ir_function \<Rightarrow> nat \<Rightarrow> nat" where
  "block_start f b = length (concat (map bb_insts (take b (fn_blocks f))))"

definition block_end :: "ir_function \<Rightarrow> nat \<Rightarrow> nat" where
  "block_end f b =
     (let s = block_start f b; n = length (bb_insts (fn_blocks f ! b)) in if n > 0 then s + n - 1 else s)"

definition call_positions :: "ir_function \<Rightarrow> int list" where
  "call_positions f = map int (filter (\<lambda>i. is_call_op (i_op (all_insts f ! i))) [0..<length (all_insts f)])"

section \<open>Block liveness\<close>

type_synonym liveness = "(bool list list \<times> bool list list) \<times> bool"

definition merge_out :: "nat \<Rightarrow> nat \<Rightarrow> liveness \<Rightarrow> liveness" where
  "merge_out b s = (\<lambda>((ins, outs), changed).
     let row = map2 (\<or>) (outs ! b) (ins ! s)
     in if row \<noteq> outs ! b then ((ins, outs[b := row]), True) else ((ins, outs), changed))"

definition update_in :: "(bool list \<times> bool list) list \<Rightarrow> nat \<Rightarrow> liveness \<Rightarrow> liveness" where
  "update_in ud b = (\<lambda>((ins, outs), changed).
     let row = map2 (\<lambda>u (out, d). u \<or> (out \<and> \<not> d)) (fst (ud ! b)) (zip (outs ! b) (snd (ud ! b)))
     in if row \<noteq> ins ! b then ((ins[b := row], outs), True) else ((ins, outs), changed))"

definition live_block :: "ir_function \<Rightarrow> (bool list \<times> bool list) list \<Rightarrow> nat \<Rightarrow> liveness \<Rightarrow> liveness" where
  "live_block f ud b st = update_in ud b (fold (merge_out b) (succ_indices f b) st)"

definition live_pass :: "ir_function \<Rightarrow> (bool list \<times> bool list) list \<Rightarrow> liveness \<Rightarrow> liveness" where
  "live_pass f ud = (\<lambda>(sol, changed). fold (live_block f ud) (rev [0..<length (fn_order f)]) (sol, False))"

definition use_defs :: "ir_function \<Rightarrow> (bool list \<times> bool list) list" where
  "use_defs f = map (block_use_def (fn_next_reg f)) (fn_blocks f)"

definition liveness_fixpoint :: "ir_function \<Rightarrow> (bool list list \<times> bool list list) option" where
  "liveness_fixpoint f =
     (let none = replicate (length (fn_order f)) (replicate (fn_next_reg f) False)
      in map_option fst (while_option snd (live_pass f (use_defs f)) ((none, none), True)))"

section \<open>Live intervals\<close>

definition lower_start :: "int \<Rightarrow> live_interval \<Rightarrow> live_interval" where
  "lower_start p iv = (if p < li_start iv then iv\<lparr>li_start := p\<rparr> else iv)"

definition raise_end :: "int \<Rightarrow> live_interval \<Rightarrow> live_interval" where
  "raise_end p iv = (if p > li_end iv then iv\<lparr>li_end := p\<rparr> else iv)"

definition upd :: "nat \<Rightarrow> (live_interval \<Rightarrow> live_interval) \<Rightarrow> live_interval list \<Rightarrow> live_interval list" where
  "upd v g ivs = ivs[v := g (ivs ! v)]"

definition cover_block_reg ::
  "ir_function \<Rightarrow> bool list list \<Rightarrow> bool list list \<Rightarrow> nat \<Rightarrow> nat \<Rightarrow> live_interval list \<Rightarrow> live_interval list" where
  "cover_block_reg f ins outs b v ivs =
     (let s = int (block_start f b);
          ivs = (if ins ! b ! v then upd v (raise_end s \<circ> lower_start s) ivs else ivs)
      in if outs ! b ! v then upd v (raise_end (int (block_end f b))) ivs else ivs)"

definition cover_blocks ::
  "ir_function \<Rightarrow> bool list list \<Rightarrow> bool list list \<Rightarrow> live_interval list \<Rightarrow> live_interval list" where
  "cover_blocks f ins outs ivs =
     fold (\<lambda>b. fold (cover_block_reg f ins outs b) [0..<fn_next_reg f]) [0..<length (fn_order f)] ivs"

definition cover_def :: "nat \<Rightarrow> int \<Rightarrow> ir_value option \<Rightarrow> live_interval list \<Rightarrow> live_interval list" where
  "cover_def n p v ivs =
     (case reg_of n v of Some r \<Rightarrow> upd r (raise_end p \<circ> lower_start p) ivs | None \<Rightarrow> ivs)"

definition cover_use :: "nat \<Rightarrow> int \<Rightarrow> ir_value option \<Rightarrow> live_interval list \<Rightarrow> live_interval list" where
  "cover_use n p v ivs =
     (case reg_of n v of
        Some r \<Rightarrow> upd r (\<lambda>iv. let iv = raise_end p iv
                             in if li_start iv = INT_MAX then iv\<lparr>li_start := p\<rparr> else iv) ivs
      | None \<Rightarrow> ivs)"

definition cover_inst :: "ir_function \<Rightarrow> nat \<Rightarrow> live_interval list \<Rightarrow> live_interval list" where
  "cover_inst f p ivs =
     (let i = all_insts f ! p; n = fn_next_reg f
      in fold (cover_use n (int p)) (operands i) (cover_def n (int p) (i_result i) ivs))"

definition normalize :: "int list \<Rightarrow> live_interval \<Rightarrow> live_interval" where
  "normalize calls iv =
     (let iv = (if li_start iv = INT_MAX then iv\<lparr>li_start := 0, li_end := 0\<rparr> else iv);
          iv = (if li_end iv < li_start iv then iv\<lparr>li_end := li_start iv\<rparr> else iv);
          crossed = take 256 (filter (\<lambda>c. li_start iv < c \<and> li_end iv > c) calls)
      in if crossed \<noteq> []
         then iv\<lparr>li_crosses := True, li_call_count := length crossed, li_calls := crossed\<rparr> else iv)"

definition build_intervals :: "ir_function \<Rightarrow> bool list list \<Rightarrow> bool list list \<Rightarrow> live_interval list" where
  "build_intervals f ins outs =
     (let n = fn_next_reg f;
          ivs = fold (set_type n) (all_insts f) (map fresh_interval [0..<n]);
          ivs = cover_blocks f ins outs ivs;
          ivs = fold (cover_inst f) [0..<length (all_insts f)] ivs
      in map (normalize (call_positions f)) ivs)"

section \<open>Linear scan\<close>

definition compare_start_pos :: "live_interval \<Rightarrow> live_interval \<Rightarrow> int" where
  "compare_start_pos a b =
     (if li_start a \<noteq> li_start b then li_start a - li_start b
      else int (li_val_id a) - int (li_val_id b))"

text \<open>The order that \<open>qsort\<close> establishes with this comparison: by start, ties by number.\<close>

definition sorted_intervals :: "live_interval list \<Rightarrow> nat list" where
  "sorted_intervals ivs = sort_key (\<lambda>v. li_start (ivs ! v)) [0..<length ivs]"

record scan_state =
  sc_ivs :: "live_interval list"
  sc_active :: "nat list"
  sc_busy :: "x86_reg \<Rightarrow> bool"
  sc_used :: "x86_reg \<Rightarrow> bool"

fun expire_loop :: "live_interval list \<Rightarrow> int \<Rightarrow> nat list \<Rightarrow> (x86_reg \<Rightarrow> bool) \<Rightarrow> nat list \<times> (x86_reg \<Rightarrow> bool)" where
  "expire_loop ivs s [] busy = ([], busy)"
| "expire_loop ivs s (a # as) busy =
     (if li_end (ivs ! a) < s
      then expire_loop ivs s as
             (if li_phys (ivs ! a) \<noteq> X86_REG_NONE then busy(li_phys (ivs ! a) := False) else busy)
      else (case expire_loop ivs s as busy of (as', busy') \<Rightarrow> (a # as', busy')))"

definition expire :: "int \<Rightarrow> scan_state \<Rightarrow> scan_state" where
  "expire s st =
     (case expire_loop (sc_ivs st) s (sc_active st) (sc_busy st) of
        (active, busy) \<Rightarrow> st\<lparr>sc_active := active, sc_busy := busy\<rparr>)"

definition reg_pool :: "live_interval \<Rightarrow> x86_reg list" where
  "reg_pool iv =
     (if li_class iv = REG_CLASS_FLOAT then FLOAT_POOL
      else if li_crosses iv then CALLEE_SAVED_INT_POOL @ CALLER_SAVED_INT_POOL
      else CALLER_SAVED_INT_POOL @ CALLEE_SAVED_INT_POOL)"

definition insert_active :: "live_interval list \<Rightarrow> nat \<Rightarrow> nat list \<Rightarrow> nat list" where
  "insert_active ivs v active =
     (let front = takeWhile (\<lambda>a. \<not> li_end (ivs ! a) > li_end (ivs ! v)) active
      in front @ v # drop (length front) active)"

definition assign_reg :: "nat \<Rightarrow> x86_reg \<Rightarrow> scan_state \<Rightarrow> scan_state" where
  "assign_reg v r st =
     (let ivs = upd v (\<lambda>iv. iv\<lparr>li_phys := r\<rparr>) (sc_ivs st)
      in st\<lparr>sc_ivs := ivs, sc_busy := (sc_busy st)(r := True), sc_used := (sc_used st)(r := True),
            sc_active := insert_active ivs v (sc_active st)\<rparr>)"

text \<open>The last active interval of the class, if it ends later, gives its register up.\<close>

definition spill_reg :: "nat \<Rightarrow> scan_state \<Rightarrow> scan_state" where
  "spill_reg v st =
     (let ivs = sc_ivs st;
          here = upd v (\<lambda>iv. iv\<lparr>li_phys := X86_REG_NONE, li_spilled := True\<rparr>) ivs
      in case List.find (\<lambda>a. li_class (ivs ! a) = li_class (ivs ! v)) (rev (sc_active st)) of
           None \<Rightarrow> st\<lparr>sc_ivs := here\<rparr>
         | Some w \<Rightarrow>
             if li_end (ivs ! w) > li_end (ivs ! v)
             then let ivs' = upd w (\<lambda>iv. iv\<lparr>li_phys := X86_REG_NONE, li_spilled := True\<rparr>)
                        (upd v (\<lambda>iv. iv\<lparr>li_phys := li_phys (ivs ! w)\<rparr>) ivs)
                  in st\<lparr>sc_ivs := ivs', sc_active := insert_active ivs' v (remove1 w (sc_active st))\<rparr>
             else st\<lparr>sc_ivs := here\<rparr>)"

definition scan_step :: "nat \<Rightarrow> scan_state \<Rightarrow> scan_state" where
  "scan_step v st =
     (let st = expire (li_start (sc_ivs st ! v)) st
      in case List.find (\<lambda>r. \<not> sc_busy st r) (reg_pool (sc_ivs st ! v)) of
           Some r \<Rightarrow> assign_reg v r st
         | None \<Rightarrow> spill_reg v st)"

definition scan_start :: "live_interval list \<Rightarrow> scan_state" where
  "scan_start ivs = \<lparr>sc_ivs = ivs, sc_active = [], sc_busy = (\<lambda>_. False), sc_used = (\<lambda>_. False)\<rparr>"

definition linear_scan :: "live_interval list \<Rightarrow> scan_state" where
  "linear_scan ivs = fold scan_step (sorted_intervals ivs) (scan_start ivs)"

section \<open>The allocation\<close>

definition needs_slot :: "live_interval \<Rightarrow> bool" where
  "needs_slot iv \<longleftrightarrow> li_spilled iv \<or> (li_crosses iv \<and> x86_reg_is_caller_saved (li_phys iv))"

definition result_of_scan :: "ir_function \<Rightarrow> scan_state \<Rightarrow> regalloc_result" where
  "result_of_scan f st =
     (let slots = filter needs_slot (sc_ivs st)
      in \<lparr>ra_fn = f, ra_total = fn_next_reg f, ra_intervals = sc_ivs st, ra_used = sc_used st,
          ra_callee_saved = filter (sc_used st) CALLEE_SAVED_INT_POOL,
          ra_spilled = length slots,
          ra_int_spilled = length (filter (\<lambda>iv. li_class iv \<noteq> REG_CLASS_FLOAT) slots),
          ra_float_spilled = length (filter (\<lambda>iv. li_class iv = REG_CLASS_FLOAT) slots),
          ra_spill_bytes = length slots * 8, ra_inst_count = length (all_insts f)\<rparr>)"

text \<open>\<open>None\<close> if the liveness iteration did not end; a function without registers is not looked at.\<close>

definition regalloc_run :: "ir_function \<Rightarrow> regalloc_result option" where
  "regalloc_run f =
     (if fn_next_reg f = 0
      then Some \<lparr>ra_fn = f, ra_total = 0, ra_intervals = [], ra_used = (\<lambda>_. False), ra_callee_saved = [],
             ra_spilled = 0, ra_int_spilled = 0, ra_float_spilled = 0, ra_spill_bytes = 0, ra_inst_count = 0\<rparr>
      else map_option (\<lambda>(ins, outs). result_of_scan f (linear_scan (build_intervals f ins outs)))
             (liveness_fixpoint f))"

definition regalloc_get_phys_reg :: "regalloc_result \<Rightarrow> nat \<Rightarrow> x86_reg" where
  "regalloc_get_phys_reg res v = (if v \<ge> ra_total res then X86_REG_NONE else li_phys (ra_intervals res ! v))"

definition regalloc_is_spilled :: "regalloc_result \<Rightarrow> nat \<Rightarrow> bool" where
  "regalloc_is_spilled res v = (if v \<ge> ra_total res then False else li_spilled (ra_intervals res ! v))"

definition regalloc_get_spill_offset :: "regalloc_result \<Rightarrow> nat \<Rightarrow> int" where
  "regalloc_get_spill_offset res v = (if v \<ge> ra_total res then 0 else li_offset (ra_intervals res ! v))"

section \<open>The dump\<close>

definition dump_interval :: "live_interval \<Rightarrow> string" where
  "dump_interval iv =
     ''  %'' @ decimal (li_val_id iv) @ '': class='' @
     (if li_class iv = REG_CLASS_FLOAT then ''FLOAT'' else ''INTEGER'') @
     '' ['' @ decimal_int (li_start iv) @ '', '' @ decimal_int (li_end iv) @ ''] -> '' @
     (if li_phys iv \<noteq> X86_REG_NONE
      then x86_reg_to_str (li_phys iv) 8 @
        (if li_crosses iv
         then if x86_reg_is_caller_saved (li_phys iv)
              then '' (crosses '' @ decimal (li_call_count iv) @ '' calls, caller-save spill ['' @
                decimal_int (li_offset iv) @ ''(%rbp)])''
              else '' (crosses '' @ decimal (li_call_count iv) @ '' calls, callee-preserved)''
         else '''')
      else ''SPILL['' @ decimal_int (li_offset iv) @ ''(%rbp)]'') @ newline"

definition regalloc_dump :: "regalloc_result \<Rightarrow> string" where
  "regalloc_dump res =
     ''=== Register Allocation for Function '' @ quoted (fn_name (ra_fn res)) @ '' (Total Virtual Regs: '' @
     decimal (ra_total res) @ '', Total Insts: '' @ decimal (ra_inst_count res) @ '') ==='' @ newline @
     ''Callee-saved used ('' @ decimal (length (ra_callee_saved res)) @ ''):'' @
     concat (map (\<lambda>r. '' '' @ x86_reg_to_str r 8) (ra_callee_saved res)) @ newline @
     ''Spilled count: '' @ decimal (ra_spilled res) @ '' (INT: '' @ decimal (ra_int_spilled res) @
     '', FLOAT: '' @ decimal (ra_float_spilled res) @ '', Spill bytes: '' @ decimal (ra_spill_bytes res) @ '')'' @
     newline @ concat (map dump_interval (ra_intervals res)) @ replicate 81 CHR ''='' @ newline"

end
