(* ===== verification/X86_Frame.thy ===== *)
theory X86_Frame
  imports Regalloc
begin

unbundle bit_operations_syntax

text \<open>
  The stack frame of \<open>src/backend/x86_64/x86_64_target.c\<close>: a slot for every parameter, local
  variable and spilled register, and the size of the frame. The list of slots has the newest
  first, as the linked list of the code; offsets are unbounded integers. The allocation result is
  returned with the spill offsets the code stores into its intervals.
\<close>

section \<open>Data\<close>

datatype slot_kind = SLOT_VAR | SLOT_SPILL | SLOT_PARAM

record stack_slot =
  sl_kind :: slot_kind
  sl_id :: int
  sl_name :: "string option"
  sl_offset :: int
  sl_size :: int
  sl_type :: "ir_type option"

record frame =
  fr_fn :: ir_function
  fr_regalloc :: "regalloc_result option"
  fr_slots :: "stack_slot list"
  fr_total :: int
  fr_count :: nat
  fr_callee_saved :: "x86_reg list"

definition X86_64_MAX_ARG_REGS :: nat where "X86_64_MAX_ARG_REGS = 6"
definition X86_64_MAX_FLOAT_ARG_REGS :: nat where "X86_64_MAX_FLOAT_ARG_REGS = 8"

section \<open>Lookup\<close>

definition find_var_slot :: "frame \<Rightarrow> string option \<Rightarrow> stack_slot option" where
  "find_var_slot fr name =
     (case name of
        None \<Rightarrow> None
      | Some n \<Rightarrow> List.find (\<lambda>s. sl_kind s = SLOT_VAR \<and> sl_name s = Some n) (fr_slots fr))"

definition find_spill_slot :: "frame \<Rightarrow> int \<Rightarrow> stack_slot option" where
  "find_spill_slot fr n = List.find (\<lambda>s. sl_kind s = SLOT_SPILL \<and> sl_id s = n) (fr_slots fr)"

definition find_param_slot :: "frame \<Rightarrow> int \<Rightarrow> stack_slot option" where
  "find_param_slot fr n = List.find (\<lambda>s. sl_kind s = SLOT_PARAM \<and> sl_id s = n) (fr_slots fr)"

section \<open>Layout\<close>

definition add_fixed_slot ::
  "slot_kind \<Rightarrow> int \<Rightarrow> string option \<Rightarrow> ir_type option \<Rightarrow> int \<Rightarrow> frame \<Rightarrow> frame" where
  "add_fixed_slot kind n name ty off fr =
     fr\<lparr>fr_slots := \<lparr>sl_kind = kind, sl_id = n, sl_name = name, sl_offset = off, sl_size = 8, sl_type = ty\<rparr> # fr_slots fr,
        fr_count := fr_count fr + 1\<rparr>"

text \<open>The counter of the bytes below \<open>%rbp\<close> goes with the frame.\<close>

definition add_slot ::
  "slot_kind \<Rightarrow> int \<Rightarrow> string option \<Rightarrow> ir_type option \<Rightarrow> frame \<times> int \<Rightarrow> frame \<times> int" where
  "add_slot kind n name ty = (\<lambda>(fr, counter).
     (fr\<lparr>fr_slots := \<lparr>sl_kind = kind, sl_id = n, sl_name = name, sl_offset = - (counter + 8), sl_size = 8, sl_type = ty\<rparr>
            # fr_slots fr, fr_count := fr_count fr + 1\<rparr>, counter + 8))"

record param_state =
  ps_frame :: "frame \<times> int"
  ps_int :: nat
  ps_float :: nat
  ps_stack :: nat

definition is_float_param :: "ir_param \<Rightarrow> bool" where
  "is_float_param p \<longleftrightarrow> ir_kind (p_type p) = IR_TYPE_F64"

definition stack_param :: "nat \<Rightarrow> ir_param \<Rightarrow> param_state \<Rightarrow> param_state" where
  "stack_param i p st = st\<lparr>ps_stack := ps_stack st + 1, ps_frame :=
     (case ps_frame st of (fr, counter) \<Rightarrow>
        (add_fixed_slot SLOT_PARAM (int i) (p_name p) (Some (p_type p)) (16 + int (ps_stack st) * 8) fr, counter))\<rparr>"

definition home_param :: "nat \<Rightarrow> ir_param \<Rightarrow> param_state \<Rightarrow> param_state" where
  "home_param i p st =
     st\<lparr>ps_frame := add_slot SLOT_PARAM (int i) (p_name p) (Some (p_type p)) (ps_frame st)\<rparr>"

definition layout_param :: "nat \<times> ir_param \<Rightarrow> param_state \<Rightarrow> param_state" where
  "layout_param = (\<lambda>(i, p) st.
     if is_float_param p
     then if ps_float st < X86_64_MAX_FLOAT_ARG_REGS
          then home_param i p (st\<lparr>ps_float := ps_float st + 1\<rparr>)
          else stack_param i p st
     else if ps_int st < X86_64_MAX_ARG_REGS
          then home_param i p (st\<lparr>ps_int := ps_int st + 1\<rparr>)
          else stack_param i p st)"

definition layout_alloca :: "ir_inst \<Rightarrow> frame \<times> int \<Rightarrow> frame \<times> int" where
  "layout_alloca i st =
     (case i_result i of
        Some w \<Rightarrow>
          if i_op i = IR_OP_ALLOCA \<and> v_kind w = IR_VAL_VAR \<and> find_var_slot (fst st) (v_name w) = None
          then add_slot SLOT_VAR (-1) (v_name w)
                 (Some (case ir_elem_type (v_type w) of Some e \<Rightarrow> e | None \<Rightarrow> v_type w)) st
          else st
      | None \<Rightarrow> st)"

definition layout_spill ::
  "nat \<Rightarrow> (frame \<times> int) \<times> live_interval list \<Rightarrow> (frame \<times> int) \<times> live_interval list" where
  "layout_spill v = (\<lambda>(st, ivs).
     if needs_slot (ivs ! v)
     then let st = add_slot SLOT_SPILL (int v) None (li_type (ivs ! v)) st
          in (st, ivs[v := (ivs ! v)\<lparr>li_offset := sl_offset (hd (fr_slots (fst st)))\<rparr>])
     else (st, ivs))"

definition layout_result :: "ir_inst \<Rightarrow> frame \<times> int \<Rightarrow> frame \<times> int" where
  "layout_result i st =
     (case i_result i of
        Some w \<Rightarrow>
          if v_kind w = IR_VAL_REG \<and> find_spill_slot (fst st) (int (v_id w)) = None
          then add_slot SLOT_SPILL (int (v_id w)) None (Some (v_type w)) st
          else st
      | None \<Rightarrow> st)"

definition empty_frame :: "ir_function \<Rightarrow> regalloc_result option \<Rightarrow> frame" where
  "empty_frame f ra = \<lparr>fr_fn = f, fr_regalloc = ra, fr_slots = [], fr_total = 0, fr_count = 0,
     fr_callee_saved = (case ra of Some res \<Rightarrow> ra_callee_saved res | None \<Rightarrow> [])\<rparr>"

definition layout_params :: "ir_function \<Rightarrow> frame \<times> int \<Rightarrow> param_state" where
  "layout_params f st = fold layout_param (enumerate 0 (fn_params f))
     \<lparr>ps_frame = st, ps_int = 0, ps_float = 0, ps_stack = 0\<rparr>"

definition layout_spills :: "ir_function \<Rightarrow> regalloc_result option \<Rightarrow> frame \<times> int \<Rightarrow> frame \<times> int" where
  "layout_spills f ra st =
     (case ra of
        Some res \<Rightarrow>
          (case fold layout_spill [0..<ra_total res] (st, ra_intervals res) of
             ((fr, counter), ivs) \<Rightarrow> (fr\<lparr>fr_regalloc := Some (res\<lparr>ra_intervals := ivs\<rparr>)\<rparr>, counter))
      | None \<Rightarrow> fold layout_result (all_insts f) st)"

definition frame_size :: "int \<Rightarrow> int \<Rightarrow> int" where
  "frame_size k counter =
     (let raw_locals = counter - k * 8;
          total_needed = k * 8 + raw_locals;
          total_aligned = (total_needed + 15) AND (NOT 15)
      in total_aligned - k * 8)"

definition x86_frame_build :: "ir_function \<Rightarrow> regalloc_result option \<Rightarrow> frame" where
  "x86_frame_build f ra =
     (let fr = empty_frame f ra;
          k = int (length (fr_callee_saved fr));
          st = ps_frame (layout_params f (fr, k * 8));
          st = fold layout_alloca (all_insts f) st;
          (fr, counter) = layout_spills f ra st
      in fr\<lparr>fr_total := frame_size k counter\<rparr>)"

section \<open>Queries\<close>

definition slot_offset :: "stack_slot option \<Rightarrow> (int \<times> int) option" where
  "slot_offset s = map_option (\<lambda>s. (sl_offset s, sl_size s)) s"

definition x86_frame_get_offset :: "frame \<Rightarrow> ir_value \<Rightarrow> (int \<times> int) option" where
  "x86_frame_get_offset fr v =
     (case v_kind v of
        IR_VAL_VAR \<Rightarrow> slot_offset (find_var_slot fr (v_name v))
      | IR_VAL_REG \<Rightarrow> slot_offset (find_spill_slot fr (int (v_id v)))
      | IR_VAL_PARAM \<Rightarrow>
          slot_offset (case find_param_slot fr (int (v_id v)) of
             Some s \<Rightarrow> Some s
           | None \<Rightarrow>
               (case v_name v of
                  Some n \<Rightarrow> List.find (\<lambda>s. sl_kind s = SLOT_PARAM \<and> sl_name s = Some n) (fr_slots fr)
                | None \<Rightarrow> None))
      | _ \<Rightarrow> None)"

definition x86_frame_get_spill_offset :: "frame \<Rightarrow> int \<Rightarrow> int option" where
  "x86_frame_get_spill_offset fr n = map_option sl_offset (find_spill_slot fr n)"

definition x86_reg_name :: "string option \<Rightarrow> int \<Rightarrow> string" where
  "x86_reg_name base sz =
     (if base = Some ''a'' then
        (if sz = 1 then ''%al'' else if sz = 2 then ''%ax'' else if sz = 4 then ''%eax'' else ''%rax'')
      else if base = Some ''c'' then
        (if sz = 1 then ''%cl'' else if sz = 2 then ''%cx'' else if sz = 4 then ''%ecx'' else ''%rcx'')
      else if base = Some ''d'' then
        (if sz = 1 then ''%dl'' else if sz = 2 then ''%dx'' else if sz = 4 then ''%edx'' else ''%rdx'')
      else ''%rax'')"

end
