(* ===== verification/Regalloc_Scan.thy ===== *)
theory Regalloc_Scan
  imports Regalloc
begin

text \<open>
  The linear scan keeps two intervals that share a register apart. The invariant is stated over
  the register and the spill flag of every interval as functions, and over the set of active
  intervals; each step of the scan is one lemma about them.
\<close>

section \<open>The invariant\<close>

definition pool_regs :: "reg_class \<Rightarrow> x86_reg set" where
  "pool_regs c = (if c = REG_CLASS_FLOAT then set FLOAT_POOL
     else set CALLER_SAVED_INT_POOL \<union> set CALLEE_SAVED_INT_POOL)"

lemma set_reg_pool: "set (reg_pool iv) = pool_regs (li_class iv)"
  by (cases "li_class iv") (auto simp: reg_pool_def pool_regs_def)

lemma pool_regs_not_none [simp]: "X86_REG_NONE \<notin> pool_regs c"
  by (simp add: pool_regs_def pool_defs)

lemma pool_regs_class: "r \<in> pool_regs c \<Longrightarrow> x86_reg_class r = c"
  by (cases c) (auto simp: pool_regs_def pool_defs x86_reg_class_def reg_order_defs)

text \<open>\<open>P\<close>: the intervals handled so far; \<open>s\<close>: the start of the last one; \<open>A\<close>: the active ones.\<close>

definition core ::
  "live_interval list \<Rightarrow> nat set \<Rightarrow> int \<Rightarrow> (nat \<Rightarrow> x86_reg) \<Rightarrow> (nat \<Rightarrow> bool) \<Rightarrow> nat set
    \<Rightarrow> (x86_reg \<Rightarrow> bool) \<Rightarrow> (x86_reg \<Rightarrow> bool) \<Rightarrow> bool" where
  "core ivs P s ph sp A busy used \<longleftrightarrow>
     A \<subseteq> P \<and> P \<subseteq> {..<length ivs} \<and>
     (\<forall>a \<in> A. ph a \<noteq> X86_REG_NONE) \<and> inj_on ph A \<and> (\<forall>r. busy r \<longleftrightarrow> r \<in> ph ` A) \<and>
     (\<forall>v \<in> P. ph v \<noteq> X86_REG_NONE \<and> v \<notin> A \<longrightarrow> li_end (ivs ! v) < s) \<and>
     (\<forall>v < length ivs. v \<notin> P \<longrightarrow> ph v = X86_REG_NONE \<and> \<not> sp v) \<and>
     (\<forall>v \<in> P. ph v \<noteq> X86_REG_NONE \<longrightarrow> ph v \<in> pool_regs (li_class (ivs ! v)) \<and> used (ph v)) \<and>
     (\<forall>v \<in> P. sp v \<longleftrightarrow> ph v = X86_REG_NONE) \<and>
     (\<forall>u \<in> P. \<forall>v \<in> P. u \<noteq> v \<and> ph u = ph v \<and> ph u \<noteq> X86_REG_NONE \<longrightarrow>
        li_end (ivs ! u) < li_start (ivs ! v) \<or> li_end (ivs ! v) < li_start (ivs ! u))"

lemma coreD:
  assumes "core ivs P s ph sp A busy used"
  shows "A \<subseteq> P" "P \<subseteq> {..<length ivs}" "a \<in> A \<Longrightarrow> ph a \<noteq> X86_REG_NONE" "inj_on ph A"
    "busy r \<longleftrightarrow> r \<in> ph ` A"
    "\<lbrakk> v \<in> P; ph v \<noteq> X86_REG_NONE; v \<notin> A \<rbrakk> \<Longrightarrow> li_end (ivs ! v) < s"
    "\<lbrakk> v < length ivs; v \<notin> P \<rbrakk> \<Longrightarrow> ph v = X86_REG_NONE \<and> \<not> sp v"
    "\<lbrakk> v \<in> P; ph v \<noteq> X86_REG_NONE \<rbrakk> \<Longrightarrow> ph v \<in> pool_regs (li_class (ivs ! v)) \<and> used (ph v)"
    "v \<in> P \<Longrightarrow> sp v \<longleftrightarrow> ph v = X86_REG_NONE"
    "\<lbrakk> u \<in> P; v \<in> P; u \<noteq> v; ph u = ph v; ph u \<noteq> X86_REG_NONE \<rbrakk> \<Longrightarrow>
       li_end (ivs ! u) < li_start (ivs ! v) \<or> li_end (ivs ! v) < li_start (ivs ! u)"
proof -
  have c: "A \<subseteq> P" "P \<subseteq> {..<length ivs}" "\<forall>a \<in> A. ph a \<noteq> X86_REG_NONE" "inj_on ph A"
    "\<forall>r. busy r \<longleftrightarrow> r \<in> ph ` A"
    "\<forall>v \<in> P. ph v \<noteq> X86_REG_NONE \<and> v \<notin> A \<longrightarrow> li_end (ivs ! v) < s"
    "\<forall>v < length ivs. v \<notin> P \<longrightarrow> ph v = X86_REG_NONE \<and> \<not> sp v"
    "\<forall>v \<in> P. ph v \<noteq> X86_REG_NONE \<longrightarrow> ph v \<in> pool_regs (li_class (ivs ! v)) \<and> used (ph v)"
    "\<forall>v \<in> P. sp v \<longleftrightarrow> ph v = X86_REG_NONE"
    "\<forall>u \<in> P. \<forall>v \<in> P. u \<noteq> v \<and> ph u = ph v \<and> ph u \<noteq> X86_REG_NONE \<longrightarrow>
        li_end (ivs ! u) < li_start (ivs ! v) \<or> li_end (ivs ! v) < li_start (ivs ! u)"
    by (insert assms [unfolded core_def], (elim conjE; assumption)+)
  show "A \<subseteq> P" "P \<subseteq> {..<length ivs}" "inj_on ph A" by (rule c)+
  show "a \<in> A \<Longrightarrow> ph a \<noteq> X86_REG_NONE" using c(3) by blast
  show "busy r \<longleftrightarrow> r \<in> ph ` A" using c(5) by blast
  show "\<lbrakk> v \<in> P; ph v \<noteq> X86_REG_NONE; v \<notin> A \<rbrakk> \<Longrightarrow> li_end (ivs ! v) < s" using c(6) by blast
  show "\<lbrakk> v < length ivs; v \<notin> P \<rbrakk> \<Longrightarrow> ph v = X86_REG_NONE \<and> \<not> sp v" using c(7) by blast
  show "\<lbrakk> v \<in> P; ph v \<noteq> X86_REG_NONE \<rbrakk> \<Longrightarrow> ph v \<in> pool_regs (li_class (ivs ! v)) \<and> used (ph v)"
    using c(8) by blast
  show "v \<in> P \<Longrightarrow> sp v \<longleftrightarrow> ph v = X86_REG_NONE" using c(9) by blast
  show "\<lbrakk> u \<in> P; v \<in> P; u \<noteq> v; ph u = ph v; ph u \<noteq> X86_REG_NONE \<rbrakk> \<Longrightarrow>
       li_end (ivs ! u) < li_start (ivs ! v) \<or> li_end (ivs ! v) < li_start (ivs ! u)"
    using c(10) by blast
qed

lemma core_expire:
  assumes c: "core ivs P s ph sp A busy used" and "s \<le> t"
    and A': "A' = {a \<in> A. \<not> li_end (ivs ! a) < t}"
    and busy': "\<And>r. busy' r \<longleftrightarrow> busy r \<and> \<not> (\<exists>a \<in> A. li_end (ivs ! a) < t \<and> ph a = r)"
  shows "core ivs P t ph sp A' busy' used"
  unfolding core_def
proof (intro conjI ballI allI impI)
  note old = coreD [OF c]
  show "A' \<subseteq> P" "P \<subseteq> {..<length ivs}" using old(1,2) A' by auto
  show "ph a \<noteq> X86_REG_NONE" if "a \<in> A'" for a using that old(3) A' by blast
  show "inj_on ph A'" using old(4) A' by (auto intro: inj_on_subset)
  show "busy' r \<longleftrightarrow> r \<in> ph ` A'" for r
  proof
    assume "busy' r"
    then obtain a where "a \<in> A" "ph a = r" "\<not> li_end (ivs ! a) < t"
      using busy' [of r] old(5) [of r] by blast
    then show "r \<in> ph ` A'" using A' by blast
  next
    assume "r \<in> ph ` A'"
    then obtain a where a: "a \<in> A" "ph a = r" "\<not> li_end (ivs ! a) < t" using A' by blast
    have "b = a" if "b \<in> A" "ph b = r" for b using inj_onD [OF old(4), of b a] that a by simp
    then show "busy' r" using busy' [of r] old(5) [of r] a by blast
  qed
  show "li_end (ivs ! v) < t" if "v \<in> P" "ph v \<noteq> X86_REG_NONE \<and> v \<notin> A'" for v
    using that old(6) [of v] A' \<open>s \<le> t\<close> by fastforce
  show "ph u = X86_REG_NONE" "\<not> sp u" if "u < length ivs" "u \<notin> P" for u
    using that old(7) [of u] by auto
  show "ph u \<in> pool_regs (li_class (ivs ! u))" "used (ph u)" if "u \<in> P" "ph u \<noteq> X86_REG_NONE" for u
    using that old(8) [of u] by auto
  show "sp u \<longleftrightarrow> ph u = X86_REG_NONE" if "u \<in> P" for u using that old(9) [of u] by auto
  show "li_end (ivs ! u) < li_start (ivs ! w) \<or> li_end (ivs ! w) < li_start (ivs ! u)"
    if "u \<in> P" "w \<in> P" "u \<noteq> w \<and> ph u = ph w \<and> ph u \<noteq> X86_REG_NONE" for u w
    using that old(10) [of u w] by blast
qed

lemma core_assign:
  assumes c: "core ivs P (li_start (ivs ! v)) ph sp A busy used"
    and v: "v < length ivs" "v \<notin> P" and r: "r \<in> pool_regs (li_class (ivs ! v))"
    and free: "\<And>a. a \<in> P \<Longrightarrow> ph a = r \<Longrightarrow> a \<notin> A"
    and busy': "busy' = busy(r := True)" and used': "used' = used(r := True)"
  shows "core ivs (insert v P) (li_start (ivs ! v)) (ph(v := r)) sp (insert v A) busy' used'"
proof -
  note old = coreD [OF c]
  have rn: "r \<noteq> X86_REG_NONE" using r by auto
  have va: "v \<notin> A" using old(1) v(2) by blast
  have gone: "li_end (ivs ! u) < li_start (ivs ! v)" if "u \<in> P" "ph u = r" for u
    using old(6) [OF that(1)] free [OF that] that(2) rn by simp
  show ?thesis unfolding core_def
  proof (intro conjI ballI allI impI)
    show "insert v A \<subseteq> insert v P" "insert v P \<subseteq> {..<length ivs}" using old(1,2) v by auto
    show "(ph(v := r)) a \<noteq> X86_REG_NONE" if "a \<in> insert v A" for a using that old(3) rn by auto
    show "inj_on (ph(v := r)) (insert v A)"
      using old(1,4) va free by (auto simp: inj_on_def)
    show "busy' q \<longleftrightarrow> q \<in> (ph(v := r)) ` insert v A" for q
      using old(5) [of q] va by (auto simp: busy' image_iff)
    show "li_end (ivs ! u) < li_start (ivs ! v)"
      if "u \<in> insert v P" "(ph(v := r)) u \<noteq> X86_REG_NONE \<and> u \<notin> insert v A" for u
      using that old(6) [of u] by auto
    show "(ph(v := r)) u = X86_REG_NONE" "\<not> sp u" if "u < length ivs" "u \<notin> insert v P" for u
      using that old(7) [of u] by auto
    show "(ph(v := r)) u \<in> pool_regs (li_class (ivs ! u))" "used' ((ph(v := r)) u)"
      if "u \<in> insert v P" "(ph(v := r)) u \<noteq> X86_REG_NONE" for u
      using that old(8) [of u] r by (auto simp: used')
    show "sp u \<longleftrightarrow> (ph(v := r)) u = X86_REG_NONE" if "u \<in> insert v P" for u
      using that old(9) [of u] old(7) [OF v] rn v(2) by auto
    show "li_end (ivs ! u) < li_start (ivs ! w) \<or> li_end (ivs ! w) < li_start (ivs ! u)"
      if "u \<in> insert v P" "w \<in> insert v P"
        "u \<noteq> w \<and> (ph(v := r)) u = (ph(v := r)) w \<and> (ph(v := r)) u \<noteq> X86_REG_NONE" for u w
      using that old(10) [of u w] gone [of u] gone [of w] by (auto split: if_splits)
  qed
qed

lemma core_spill_self:
  assumes c: "core ivs P (li_start (ivs ! v)) ph sp A busy used" and v: "v < length ivs" "v \<notin> P"
  shows "core ivs (insert v P) (li_start (ivs ! v)) (ph(v := X86_REG_NONE)) (sp(v := True)) A busy used"
proof -
  note old = coreD [OF c]
  have va: "v \<notin> A" using old(1) v(2) by blast
  show ?thesis unfolding core_def
  proof (intro conjI ballI allI impI)
    show "A \<subseteq> insert v P" "insert v P \<subseteq> {..<length ivs}" using old(1,2) v by auto
    show "(ph(v := X86_REG_NONE)) a \<noteq> X86_REG_NONE" if "a \<in> A" for a using that old(3) va by auto
    show "inj_on (ph(v := X86_REG_NONE)) A" using old(4) va by (auto simp: inj_on_def)
    show "busy q \<longleftrightarrow> q \<in> (ph(v := X86_REG_NONE)) ` A" for q
      using old(5) [of q] va by (auto simp: image_iff)
    show "li_end (ivs ! u) < li_start (ivs ! v)"
      if "u \<in> insert v P" "(ph(v := X86_REG_NONE)) u \<noteq> X86_REG_NONE \<and> u \<notin> A" for u
      using that old(6) [of u] by (auto split: if_splits)
    show "(ph(v := X86_REG_NONE)) u = X86_REG_NONE" "\<not> (sp(v := True)) u"
      if "u < length ivs" "u \<notin> insert v P" for u
      using that old(7) [of u] by auto
    show "(ph(v := X86_REG_NONE)) u \<in> pool_regs (li_class (ivs ! u))" "used ((ph(v := X86_REG_NONE)) u)"
      if "u \<in> insert v P" "(ph(v := X86_REG_NONE)) u \<noteq> X86_REG_NONE" for u
      using that old(8) [of u] by (auto split: if_splits)
    show "(sp(v := True)) u \<longleftrightarrow> (ph(v := X86_REG_NONE)) u = X86_REG_NONE" if "u \<in> insert v P" for u
      using that old(9) [of u] by auto
    show "li_end (ivs ! u) < li_start (ivs ! w) \<or> li_end (ivs ! w) < li_start (ivs ! u)"
      if "u \<in> insert v P" "w \<in> insert v P" "u \<noteq> w \<and> (ph(v := X86_REG_NONE)) u = (ph(v := X86_REG_NONE)) w \<and>
          (ph(v := X86_REG_NONE)) u \<noteq> X86_REG_NONE" for u w
      using that old(10) [of u w] by (auto split: if_splits)
  qed
qed

text \<open>Taking the register of an active interval: first that interval is spilled.\<close>

lemma core_evict:
  assumes c: "core ivs P s ph sp A busy used" and w: "w \<in> A"
  shows "core ivs P s (ph(w := X86_REG_NONE)) (sp(w := True)) (A - {w}) (busy(ph w := False)) used"
proof -
  note old = coreD [OF c]
  have wp: "w \<in> P" using w old(1) by blast
  show ?thesis unfolding core_def
  proof (intro conjI ballI allI impI)
    show "A - {w} \<subseteq> P" "P \<subseteq> {..<length ivs}" using old(1,2) by auto
    show "(ph(w := X86_REG_NONE)) a \<noteq> X86_REG_NONE" if "a \<in> A - {w}" for a using that old(3) by auto
    show "inj_on (ph(w := X86_REG_NONE)) (A - {w})" using old(4) by (auto simp: inj_on_def)
    show "(busy(ph w := False)) q \<longleftrightarrow> q \<in> (ph(w := X86_REG_NONE)) ` (A - {w})" for q
      using old(5) [of q] inj_onD [OF old(4)] w by (auto simp: image_iff)
    show "li_end (ivs ! u) < s" if "u \<in> P" "(ph(w := X86_REG_NONE)) u \<noteq> X86_REG_NONE \<and> u \<notin> A - {w}" for u
      using that old(6) [of u] by (auto split: if_splits)
    show "(ph(w := X86_REG_NONE)) u = X86_REG_NONE" "\<not> (sp(w := True)) u" if "u < length ivs" "u \<notin> P" for u
      using that old(7) [of u] wp by auto
    show "(ph(w := X86_REG_NONE)) u \<in> pool_regs (li_class (ivs ! u))" "used ((ph(w := X86_REG_NONE)) u)"
      if "u \<in> P" "(ph(w := X86_REG_NONE)) u \<noteq> X86_REG_NONE" for u
      using that old(8) [of u] by (auto split: if_splits)
    show "(sp(w := True)) u \<longleftrightarrow> (ph(w := X86_REG_NONE)) u = X86_REG_NONE" if "u \<in> P" for u
      using that old(9) [of u] by auto
    show "li_end (ivs ! u) < li_start (ivs ! v) \<or> li_end (ivs ! v) < li_start (ivs ! u)"
      if "u \<in> P" "v \<in> P" "u \<noteq> v \<and> (ph(w := X86_REG_NONE)) u = (ph(w := X86_REG_NONE)) v \<and>
          (ph(w := X86_REG_NONE)) u \<noteq> X86_REG_NONE" for u v
      using that old(10) [of u v] by (auto split: if_splits)
  qed
qed

section \<open>The steps of the scan\<close>

definition unallocated :: "live_interval \<Rightarrow> live_interval" where
  "unallocated iv = iv\<lparr>li_phys := X86_REG_NONE, li_spilled := False\<rparr>"

lemma unallocated_eq:
  assumes "unallocated a = unallocated b"
  shows "li_start a = li_start b" "li_end a = li_end b" "li_class a = li_class b"
    "li_crosses a = li_crosses b" "li_val_id a = li_val_id b" "li_calls a = li_calls b"
    "li_type a = li_type b" "li_offset a = li_offset b" "li_call_count a = li_call_count b"
  using assms by (cases a; cases b; simp add: unallocated_def)+

definition scan_inv :: "live_interval list \<Rightarrow> nat set \<Rightarrow> int \<Rightarrow> scan_state \<Rightarrow> bool" where
  "scan_inv ivs P s st \<longleftrightarrow>
     map unallocated (sc_ivs st) = map unallocated ivs \<and> distinct (sc_active st) \<and>
     core ivs P s (\<lambda>v. li_phys (sc_ivs st ! v)) (\<lambda>v. li_spilled (sc_ivs st ! v)) (set (sc_active st))
       (sc_busy st) (sc_used st)"

lemma same_static:
  assumes "map unallocated ivs' = map unallocated ivs"
  shows "length ivs' = length ivs" and "v < length ivs \<Longrightarrow> unallocated (ivs' ! v) = unallocated (ivs ! v)"
proof -
  show l: "length ivs' = length ivs" using assms by (metis length_map)
  show "v < length ivs \<Longrightarrow> unallocated (ivs' ! v) = unallocated (ivs ! v)" using assms l by (metis nth_map)
qed

lemma length_upd [simp]: "length (upd v g ivs) = length ivs"
  by (simp add: upd_def)

lemma upd_nth: "v < length ivs \<Longrightarrow> upd v g ivs ! u = (if u = v then g (ivs ! v) else ivs ! u)"
  by (simp add: upd_def)

lemma unallocated_upd:
  assumes "unallocated (g (ivs ! v)) = unallocated (ivs ! v)"
  shows "map unallocated (upd v g ivs) = map unallocated ivs"
  using assms by (simp add: upd_def map_update list_update_same_conv)
    (metis list_update_beyond list_update_id map_update not_less)

lemma expire_loop_result:
  assumes "\<forall>a \<in> set act. li_phys (ivs ! a) \<noteq> X86_REG_NONE"
  shows "expire_loop ivs s act busy =
    (filter (\<lambda>a. \<not> li_end (ivs ! a) < s) act,
     \<lambda>r. busy r \<and> \<not> (\<exists>a \<in> set act. li_end (ivs ! a) < s \<and> li_phys (ivs ! a) = r))"
  using assms by (induction act arbitrary: busy) (auto simp: fun_eq_iff)

lemma expire_inv:
  assumes inv: "scan_inv ivs P s st" and "s \<le> t"
  shows "scan_inv ivs P t (expire t st)" and "sc_ivs (expire t st) = sc_ivs st"
proof -
  let ?ph = "\<lambda>v. li_phys (sc_ivs st ! v)" and ?sp = "\<lambda>v. li_spilled (sc_ivs st ! v)"
  have c: "core ivs P s ?ph ?sp (set (sc_active st)) (sc_busy st) (sc_used st)"
    and m: "map unallocated (sc_ivs st) = map unallocated ivs" and d: "distinct (sc_active st)"
    using inv by (simp_all add: scan_inv_def)
  have nn: "\<forall>a \<in> set (sc_active st). li_phys (sc_ivs st ! a) \<noteq> X86_REG_NONE" using coreD(3) [OF c] by blast
  note e = expire_loop_result [OF nn, of t "sc_busy st"]
  show ivs: "sc_ivs (expire t st) = sc_ivs st" by (simp add: expire_def e)
  have en: "li_end (sc_ivs st ! a) = li_end (ivs ! a)" if "a \<in> set (sc_active st)" for a
  proof -
    have "a < length ivs" using that coreD(1,2) [OF c] by blast
    then show ?thesis using unallocated_eq(2) [OF same_static(2) [OF m]] by simp
  qed
  have "core ivs P t ?ph ?sp {a \<in> set (sc_active st). \<not> li_end (ivs ! a) < t}
      (\<lambda>r. sc_busy st r \<and> \<not> (\<exists>a \<in> set (sc_active st). li_end (ivs ! a) < t \<and> ?ph a = r)) (sc_used st)"
    by (rule core_expire [OF c \<open>s \<le> t\<close>]) auto
  moreover have "set (filter (\<lambda>a. \<not> li_end (sc_ivs st ! a) < t) (sc_active st)) =
      {a \<in> set (sc_active st). \<not> li_end (ivs ! a) < t}" using en by auto
  moreover have "(\<exists>a \<in> set (sc_active st). li_end (sc_ivs st ! a) < t \<and> ?ph a = r) \<longleftrightarrow>
      (\<exists>a \<in> set (sc_active st). li_end (ivs ! a) < t \<and> ?ph a = r)" for r using en by auto
  ultimately show "scan_inv ivs P t (expire t st)"
    using m d by (simp add: scan_inv_def expire_def e)
qed

lemma insert_active_set: "set (insert_active ivs v act) = insert v (set act)"
  and insert_active_distinct: "distinct act \<Longrightarrow> v \<notin> set act \<Longrightarrow> distinct (insert_active ivs v act)"
proof -
  let ?b = "takeWhile (\<lambda>a. \<not> li_end (ivs ! a) > li_end (ivs ! v)) act"
  have d: "drop (length ?b) act = dropWhile (\<lambda>a. \<not> li_end (ivs ! a) > li_end (ivs ! v)) act"
    by (simp add: dropWhile_eq_drop)
  have s: "act = ?b @ drop (length ?b) act" by (simp add: d)
  have "set act = set ?b \<union> set (drop (length ?b) act)" by (subst s) (simp only: set_append)
  then show "set (insert_active ivs v act) = insert v (set act)" by (auto simp: insert_active_def Let_def)
  assume "distinct act" "v \<notin> set act"
  then have "distinct (?b @ drop (length ?b) act)" "v \<notin> set (?b @ drop (length ?b) act)" using s by metis+
  then show "distinct (insert_active ivs v act)" by (auto simp: insert_active_def Let_def)
qed

lemma assign_inv:
  assumes inv: "scan_inv ivs P (li_start (ivs ! v)) st" and v: "v < length ivs" "v \<notin> P"
    and r: "r \<in> pool_regs (li_class (ivs ! v))" "\<not> sc_busy st r"
  shows "scan_inv ivs (insert v P) (li_start (ivs ! v)) (assign_reg v r st)"
proof -
  let ?ph = "\<lambda>v. li_phys (sc_ivs st ! v)" and ?sp = "\<lambda>v. li_spilled (sc_ivs st ! v)"
  have c: "core ivs P (li_start (ivs ! v)) ?ph ?sp (set (sc_active st)) (sc_busy st) (sc_used st)"
    and m: "map unallocated (sc_ivs st) = map unallocated ivs" and d: "distinct (sc_active st)"
    using inv by (simp_all add: scan_inv_def)
  have l: "v < length (sc_ivs st)" using same_static(1) [OF m] v(1) by simp
  have va: "v \<notin> set (sc_active st)" using coreD(1) [OF c] v(2) by blast
  have free: "a \<notin> set (sc_active st)" if "a \<in> P" "?ph a = r" for a
    using coreD(5) [OF c, of r] r(2) that(2) by blast
  have "core ivs (insert v P) (li_start (ivs ! v)) (?ph(v := r)) ?sp (insert v (set (sc_active st)))
      ((sc_busy st)(r := True)) ((sc_used st)(r := True))"
    by (rule core_assign [OF c v r(1) free refl refl])
  moreover have "(\<lambda>u. li_phys (upd v (\<lambda>iv. iv\<lparr>li_phys := r\<rparr>) (sc_ivs st) ! u)) = ?ph(v := r)"
    "(\<lambda>u. li_spilled (upd v (\<lambda>iv. iv\<lparr>li_phys := r\<rparr>) (sc_ivs st) ! u)) = ?sp"
    using l by (auto simp: upd_nth fun_eq_iff)
  moreover have "map unallocated (upd v (\<lambda>iv. iv\<lparr>li_phys := r\<rparr>) (sc_ivs st)) = map unallocated ivs"
    using unallocated_upd [of "\<lambda>iv. iv\<lparr>li_phys := r\<rparr>" "sc_ivs st" v] m by (simp add: unallocated_def)
  ultimately show ?thesis
    using d va by (simp add: scan_inv_def assign_reg_def Let_def insert_active_set insert_active_distinct)
qed

lemma spill_inv:
  assumes inv: "scan_inv ivs P (li_start (ivs ! v)) st" and v: "v < length ivs" "v \<notin> P"
  shows "scan_inv ivs (insert v P) (li_start (ivs ! v)) (spill_reg v st)"
proof -
  let ?ph = "\<lambda>v. li_phys (sc_ivs st ! v)" and ?sp = "\<lambda>v. li_spilled (sc_ivs st ! v)"
  let ?spill = "\<lambda>iv. iv\<lparr>li_phys := X86_REG_NONE, li_spilled := True\<rparr>"
  have c: "core ivs P (li_start (ivs ! v)) ?ph ?sp (set (sc_active st)) (sc_busy st) (sc_used st)"
    and m: "map unallocated (sc_ivs st) = map unallocated ivs" and d: "distinct (sc_active st)"
    using inv by (simp_all add: scan_inv_def)
  have l: "v < length (sc_ivs st)" using same_static(1) [OF m] v(1) by simp
  have va: "v \<notin> set (sc_active st)" using coreD(1) [OF c] v(2) by blast
  have su: "unallocated (?spill iv) = unallocated iv" for iv by (simp add: unallocated_def)
  have self: "scan_inv ivs (insert v P) (li_start (ivs ! v)) (st\<lparr>sc_ivs := upd v ?spill (sc_ivs st)\<rparr>)"
  proof -
    have "(\<lambda>u. li_phys (upd v ?spill (sc_ivs st) ! u)) = ?ph(v := X86_REG_NONE)"
      "(\<lambda>u. li_spilled (upd v ?spill (sc_ivs st) ! u)) = ?sp(v := True)"
      using l by (auto simp: upd_nth fun_eq_iff)
    then show ?thesis
      using core_spill_self [OF c v] m d unallocated_upd [of ?spill "sc_ivs st" v] su
      by (simp add: scan_inv_def)
  qed
  show ?thesis
  proof (cases "List.find (\<lambda>a. li_class (sc_ivs st ! a) = li_class (sc_ivs st ! v)) (rev (sc_active st))")
    case None
    then show ?thesis using self by (simp add: spill_reg_def)
  next
    case (Some w)
    then have w: "w \<in> set (sc_active st)" "li_class (sc_ivs st ! w) = li_class (sc_ivs st ! v)"
      using find_SomeD [OF Some] by simp_all
    show ?thesis
    proof (cases "li_end (sc_ivs st ! w) > li_end (sc_ivs st ! v)")
      case False
      then show ?thesis using self Some by (simp add: spill_reg_def)
    next
      case True
      let ?r = "?ph w"
      let ?ivs = "upd w ?spill (upd v (\<lambda>iv. iv\<lparr>li_phys := ?r\<rparr>) (sc_ivs st))"
      have wp: "w \<in> P" "w < length ivs" "w \<noteq> v" using w(1) coreD(1,2) [OF c] v(2) by auto
      have lw: "w < length (sc_ivs st)" using same_static(1) [OF m] wp(2) by simp
      have cls: "li_class (ivs ! w) = li_class (ivs ! v)"
        using w(2) unallocated_eq(3) [OF same_static(2) [OF m wp(2)]]
          unallocated_eq(3) [OF same_static(2) [OF m v(1)]] by simp
      have r: "?r \<noteq> X86_REG_NONE" using coreD(3) [OF c w(1)] .
      have rp: "?r \<in> pool_regs (li_class (ivs ! v))" "sc_used st ?r"
        using coreD(8) [OF c wp(1) r] cls by auto
      have e: "core ivs P (li_start (ivs ! v)) (?ph(w := X86_REG_NONE)) (?sp(w := True))
          (set (sc_active st) - {w}) ((sc_busy st)(?r := False)) (sc_used st)"
        by (rule core_evict [OF c w(1)])
      have free: "a \<notin> set (sc_active st) - {w}" if "a \<in> P" "(?ph(w := X86_REG_NONE)) a = ?r" for a
        using that r inj_onD [OF coreD(4) [OF c], of a w] w(1) by (auto split: if_splits)
      have "sc_busy st ?r" using coreD(5) [OF c, of ?r] w(1) by blast
      then have busy: "sc_busy st = (sc_busy st)(?r := False, ?r := True)" by (simp add: fun_upd_idem)
      have used: "sc_used st = (sc_used st)(?r := True)" using rp(2) by (simp add: fun_upd_idem)
      have "core ivs (insert v P) (li_start (ivs ! v)) (?ph(w := X86_REG_NONE, v := ?r)) (?sp(w := True))
          (insert v (set (sc_active st) - {w})) (sc_busy st) (sc_used st)"
        by (rule core_assign [OF e v rp(1) free busy used])
      moreover have "(\<lambda>u. li_phys (?ivs ! u)) = ?ph(w := X86_REG_NONE, v := ?r)"
        "(\<lambda>u. li_spilled (?ivs ! u)) = ?sp(w := True)"
        using l lw wp(3) by (auto simp: upd_nth fun_eq_iff)
      moreover have "map unallocated ?ivs = map unallocated ivs"
        using unallocated_upd [of ?spill "upd v (\<lambda>iv. iv\<lparr>li_phys := ?r\<rparr>) (sc_ivs st)" w]
          unallocated_upd [of "\<lambda>iv. iv\<lparr>li_phys := ?r\<rparr>" "sc_ivs st" v] m su
        by (simp add: unallocated_def)
      moreover have "distinct (insert_active ?ivs v (remove1 w (sc_active st)))"
        using d va by (intro insert_active_distinct) (auto dest: notin_set_remove1)
      moreover have "set (insert_active ?ivs v (remove1 w (sc_active st))) = insert v (set (sc_active st) - {w})"
        using d by (simp add: insert_active_set)
      ultimately show ?thesis using Some True by (simp add: spill_reg_def scan_inv_def Let_def)
    qed
  qed
qed

lemma scan_step_inv:
  assumes inv: "scan_inv ivs P s st" and v: "v < length ivs" "v \<notin> P" and s: "s \<le> li_start (ivs ! v)"
  shows "scan_inv ivs (insert v P) (li_start (ivs ! v)) (scan_step v st)"
proof -
  have m: "map unallocated (sc_ivs st) = map unallocated ivs" using inv by (simp add: scan_inv_def)
  have same: "li_start (sc_ivs st ! v) = li_start (ivs ! v)" "li_class (sc_ivs st ! v) = li_class (ivs ! v)"
    using unallocated_eq [OF same_static(2) [OF m v(1)]] by simp_all
  define st' where "st' = expire (li_start (ivs ! v)) st"
  have inv': "scan_inv ivs P (li_start (ivs ! v)) st'" and ivs': "sc_ivs st' = sc_ivs st"
    using expire_inv [OF inv s] by (simp_all add: st'_def)
  show ?thesis
  proof (cases "List.find (\<lambda>r. \<not> sc_busy st' r) (reg_pool (sc_ivs st ! v))")
    case None
    then show ?thesis using spill_inv [OF inv' v] same ivs' by (simp add: scan_step_def Let_def st'_def)
  next
    case (Some r)
    then have "r \<in> set (reg_pool (sc_ivs st ! v))" "\<not> sc_busy st' r"
      using find_SomeD [OF Some] by simp_all
    then have "r \<in> pool_regs (li_class (ivs ! v))" "\<not> sc_busy st' r"
      using same(2) by (simp_all add: set_reg_pool)
    then show ?thesis
      using assign_inv [OF inv' v] Some same ivs' by (simp add: scan_step_def Let_def st'_def)
  qed
qed

lemma scan_steps_inv:
  assumes "scan_inv ivs P s st" and "distinct vs" and "set vs \<subseteq> {..<length ivs}" and "set vs \<inter> P = {}"
    and "sorted (map (\<lambda>v. li_start (ivs ! v)) vs)" and "\<forall>v \<in> set vs. s \<le> li_start (ivs ! v)"
  shows "\<exists>t. scan_inv ivs (P \<union> set vs) t (fold scan_step vs st)"
  using assms
proof (induction vs arbitrary: P s st)
  case Nil
  then show ?case by auto
next
  case (Cons v vs)
  have "scan_inv ivs (insert v P) (li_start (ivs ! v)) (scan_step v st)"
    using Cons.prems by (intro scan_step_inv) auto
  from Cons.IH [OF this] Cons.prems show ?case by auto
qed

definition unscanned :: "live_interval list \<Rightarrow> bool" where
  "unscanned ivs \<longleftrightarrow> (\<forall>v < length ivs. li_phys (ivs ! v) = X86_REG_NONE \<and> \<not> li_spilled (ivs ! v))"

text \<open>The order that the comparison function asks for.\<close>

lemma sorted_intervals_order:
  "sorted (map (\<lambda>v. li_start (ivs ! v)) (sorted_intervals ivs))" "distinct (sorted_intervals ivs)"
  "set (sorted_intervals ivs) = {..<length ivs}"
  by (auto simp: sorted_intervals_def)

lemma scan_prefix_inv:
  assumes "unscanned ivs"
  shows "\<exists>t. scan_inv ivs (set (take m (sorted_intervals ivs))) t (fold scan_step (take m (sorted_intervals ivs)) (scan_start ivs))"
proof -
  let ?s = "Min (insert 0 ((\<lambda>v. li_start (ivs ! v)) ` {..<length ivs}))" and ?vs = "sorted_intervals ivs"
  have i: "scan_inv ivs {} ?s (scan_start ivs)"
    using assms by (simp add: scan_inv_def core_def unscanned_def scan_start_def)
  have sub: "set (take m ?vs) \<subseteq> {..<length ivs}" using sorted_intervals_order(3) [of ivs] set_take_subset [of m ?vs] by simp
  have "sorted (map (\<lambda>v. li_start (ivs ! v)) (take m ?vs))"
    using sorted_intervals_order(1) [of ivs] sorted_wrt_take by (metis take_map)
  moreover have "distinct (take m ?vs)" using sorted_intervals_order(2) by (rule distinct_take)
  moreover have "\<forall>v \<in> set (take m ?vs). ?s \<le> li_start (ivs ! v)" using sub by auto
  ultimately show ?thesis using scan_steps_inv [OF i, of "take m ?vs"] sub by simp
qed

lemma linear_scan_inv:
  assumes "unscanned ivs"
  shows "\<exists>t. scan_inv ivs {..<length ivs} t (linear_scan ivs)"
  using scan_prefix_inv [OF assms, of "length (sorted_intervals ivs)"] sorted_intervals_order(3) [of ivs]
  by (simp add: linear_scan_def)

text \<open>What the scan promises of the intervals it returns.\<close>

lemma linear_scan_result:
  assumes "unscanned ivs"
  shows "map unallocated (sc_ivs (linear_scan ivs)) = map unallocated ivs" (is ?static)
    and "\<lbrakk> u < length ivs; v < length ivs; u \<noteq> v;
       li_phys (sc_ivs (linear_scan ivs) ! u) = li_phys (sc_ivs (linear_scan ivs) ! v);
       li_phys (sc_ivs (linear_scan ivs) ! u) \<noteq> X86_REG_NONE \<rbrakk> \<Longrightarrow>
       li_end (ivs ! u) < li_start (ivs ! v) \<or> li_end (ivs ! v) < li_start (ivs ! u)"
    and "v < length ivs \<Longrightarrow> li_spilled (sc_ivs (linear_scan ivs) ! v) \<longleftrightarrow>
       li_phys (sc_ivs (linear_scan ivs) ! v) = X86_REG_NONE"
    and "\<lbrakk> v < length ivs; li_phys (sc_ivs (linear_scan ivs) ! v) \<noteq> X86_REG_NONE \<rbrakk> \<Longrightarrow>
       li_phys (sc_ivs (linear_scan ivs) ! v) \<in> pool_regs (li_class (ivs ! v)) \<and>
       sc_used (linear_scan ivs) (li_phys (sc_ivs (linear_scan ivs) ! v))"
proof -
  obtain t where inv: "scan_inv ivs {..<length ivs} t (linear_scan ivs)" using linear_scan_inv [OF assms] by blast
  show ?static using inv by (simp add: scan_inv_def)
  have c: "core ivs {..<length ivs} t (\<lambda>v. li_phys (sc_ivs (linear_scan ivs) ! v))
      (\<lambda>v. li_spilled (sc_ivs (linear_scan ivs) ! v)) (set (sc_active (linear_scan ivs)))
      (sc_busy (linear_scan ivs)) (sc_used (linear_scan ivs))"
    using inv by (simp add: scan_inv_def)
  note r = coreD [OF c]
  show "\<lbrakk> u < length ivs; v < length ivs; u \<noteq> v;
       li_phys (sc_ivs (linear_scan ivs) ! u) = li_phys (sc_ivs (linear_scan ivs) ! v);
       li_phys (sc_ivs (linear_scan ivs) ! u) \<noteq> X86_REG_NONE \<rbrakk> \<Longrightarrow>
       li_end (ivs ! u) < li_start (ivs ! v) \<or> li_end (ivs ! v) < li_start (ivs ! u)"
    using r(10) [of u v] by simp
  show "v < length ivs \<Longrightarrow> li_spilled (sc_ivs (linear_scan ivs) ! v) \<longleftrightarrow>
       li_phys (sc_ivs (linear_scan ivs) ! v) = X86_REG_NONE"
    using r(9) [of v] by simp
  show "\<lbrakk> v < length ivs; li_phys (sc_ivs (linear_scan ivs) ! v) \<noteq> X86_REG_NONE \<rbrakk> \<Longrightarrow>
       li_phys (sc_ivs (linear_scan ivs) ! v) \<in> pool_regs (li_class (ivs ! v)) \<and>
       sc_used (linear_scan ivs) (li_phys (sc_ivs (linear_scan ivs) ! v))"
    using r(8) [of v] by simp
qed

text \<open>The array of active intervals has 64 places; no more than 21 are ever used.\<close>

lemma active_bound:
  assumes "scan_inv ivs P s st"
  shows "length (sc_active st) \<le> 21"
proof -
  have c: "core ivs P s (\<lambda>v. li_phys (sc_ivs st ! v)) (\<lambda>v. li_spilled (sc_ivs st ! v)) (set (sc_active st))
      (sc_busy st) (sc_used st)" and d: "distinct (sc_active st)"
    using assms by (simp_all add: scan_inv_def)
  let ?ph = "\<lambda>v. li_phys (sc_ivs st ! v)" and ?R = "pool_regs REG_CLASS_INT \<union> pool_regs REG_CLASS_FLOAT"
  have "?ph ` set (sc_active st) \<subseteq> ?R"
  proof
    fix r assume "r \<in> ?ph ` set (sc_active st)"
    then obtain a where a: "a \<in> set (sc_active st)" "r = ?ph a" by blast
    have "a \<in> P" using a(1) coreD(1) [OF c] by blast
    then have "r \<in> pool_regs (li_class (ivs ! a))" using coreD(8) [OF c] coreD(3) [OF c a(1)] a(2) by blast
    then show "r \<in> ?R" by (cases "li_class (ivs ! a)") auto
  qed
  moreover have "card ?R \<le> length (CALLER_SAVED_INT_POOL @ CALLEE_SAVED_INT_POOL @ FLOAT_POOL)"
  proof -
    have "?R = set (CALLER_SAVED_INT_POOL @ CALLEE_SAVED_INT_POOL @ FLOAT_POOL)"
      by (auto simp: pool_regs_def)
    then show ?thesis using card_length by metis
  qed
  moreover have "finite ?R" by (simp add: pool_regs_def)
  ultimately have "card (?ph ` set (sc_active st)) \<le> 21"
    using card_mono [of ?R "?ph ` set (sc_active st)"] by (simp add: pool_defs)
  moreover have "card (?ph ` set (sc_active st)) = card (set (sc_active st))"
    using coreD(4) [OF c] by (rule card_image)
  ultimately show ?thesis using distinct_card [OF d] by simp
qed

end
