(* ===== verification/Regalloc_Liveness.thy ===== *)
theory Regalloc_Liveness
  imports Regalloc Chaotic_Iteration
begin

text \<open>
  The block liveness of the register allocator against the paths of the function: the iteration
  ends, and a register is marked live at the start of a block exactly when some path from there
  reads it before it is written.
\<close>

section \<open>Reads and writes of an instruction\<close>

definition reads :: "nat \<Rightarrow> ir_inst \<Rightarrow> nat set" where
  "reads n i = {r. \<exists>v \<in> set (operands i). reg_of n v = Some r}"

definition writes :: "nat \<Rightarrow> ir_inst \<Rightarrow> nat set" where
  "writes n i = {r. reg_of n (i_result i) = Some r}"

lemma reg_of_range: "reg_of n v = Some r \<Longrightarrow> r < n"
  by (auto simp: reg_of_def split: option.splits if_splits)

lemma reads_range: "r \<in> reads n i \<Longrightarrow> r < n"
  using reg_of_range by (auto simp: reads_def)

lemma writes_range: "r \<in> writes n i \<Longrightarrow> r < n"
  using reg_of_range by (auto simp: writes_def)

lemma mark_uses:
  assumes "length u = n" and "length d = n"
  shows "\<exists>u'. fold (mark_use n) vs (u, d) = (u', d) \<and> length u' = n \<and>
    (\<forall>r < n. u' ! r \<longleftrightarrow> u ! r \<or> (\<not> d ! r \<and> (\<exists>v \<in> set vs. reg_of n v = Some r)))"
  using assms
proof (induction vs arbitrary: u)
  case (Cons v vs)
  define w where "w = fst (mark_use n v (u, d))"
  have w: "mark_use n v (u, d) = (w, d)" by (simp add: w_def mark_use_def split: option.split)
  have l: "length w = n" using Cons.prems by (simp add: w_def mark_use_def split: option.split)
  have wr: "w ! r \<longleftrightarrow> u ! r \<or> (\<not> d ! r \<and> reg_of n v = Some r)" if "r < n" for r
  proof (cases "reg_of n v")
    case (Some x)
    have "x < length u" using reg_of_range [OF Some] Cons.prems(1) by simp
    then show ?thesis using Some by (auto simp: w_def mark_use_def nth_list_update)
  qed (simp add: w_def mark_use_def)
  from Cons.IH [OF l Cons.prems(2)] obtain u' where u': "fold (mark_use n) vs (w, d) = (u', d)" "length u' = n"
    "\<forall>r < n. u' ! r \<longleftrightarrow> w ! r \<or> (\<not> d ! r \<and> (\<exists>v \<in> set vs. reg_of n v = Some r))" by blast
  then show ?case using w wr by auto
qed simp

lemma mark_inst_result:
  assumes "length u = n" and "length d = n"
  shows "\<exists>u' d'. mark_inst n i (u, d) = (u', d') \<and> length u' = n \<and> length d' = n \<and>
    (\<forall>r < n. u' ! r \<longleftrightarrow> u ! r \<or> (\<not> d ! r \<and> r \<in> reads n i)) \<and> (\<forall>r < n. d' ! r \<longleftrightarrow> d ! r \<or> r \<in> writes n i)"
proof -
  obtain u' where u': "fold (mark_use n) (operands i) (u, d) = (u', d)" "length u' = n"
    "\<forall>r < n. u' ! r \<longleftrightarrow> u ! r \<or> (\<not> d ! r \<and> (\<exists>v \<in> set (operands i). reg_of n v = Some r))"
    using mark_uses [OF assms] by blast
  show ?thesis
  proof (cases "reg_of n (i_result i)")
    case (Some x)
    have x: "x < length d" using reg_of_range [OF Some] assms(2) by simp
    have "mark_inst n i (u, d) = (u', d[x := True])" using u'(1) Some by (simp add: mark_inst_def mark_def_def)
    moreover have "d[x := True] ! r \<longleftrightarrow> d ! r \<or> r \<in> writes n i" for r
      using x Some by (auto simp: writes_def nth_list_update)
    ultimately show ?thesis using u'(2,3) assms(2) by (simp add: reads_def)
  next
    case None
    have "mark_inst n i (u, d) = (u', d)" using u'(1) None by (simp add: mark_inst_def mark_def_def)
    then show ?thesis using u'(2,3) assms(2) None by (simp add: reads_def writes_def)
  qed
qed

lemma block_use_def_result:
  "\<exists>u d. fold (mark_inst n) is (u0, d0) = (u, d) \<and> length u = n \<and> length d = n \<and>
    (\<forall>r < n. u ! r \<longleftrightarrow> u0 ! r \<or> (\<not> d0 ! r \<and>
       (\<exists>m < length is. r \<in> reads n (is ! m) \<and> (\<forall>k < m. r \<notin> writes n (is ! k))))) \<and>
    (\<forall>r < n. d ! r \<longleftrightarrow> d0 ! r \<or> (\<exists>i \<in> set is. r \<in> writes n i))"
  if "length u0 = n" and "length d0 = n" for n "is" u0 d0
  using that
proof (induction "is" arbitrary: u0 d0)
  case (Cons i "is")
  from mark_inst_result [OF Cons.prems, of i] obtain u1 d1 where s: "mark_inst n i (u0, d0) = (u1, d1)"
    "length u1 = n" "length d1 = n"
    "\<forall>r < n. u1 ! r \<longleftrightarrow> u0 ! r \<or> (\<not> d0 ! r \<and> r \<in> reads n i)"
    "\<forall>r < n. d1 ! r \<longleftrightarrow> d0 ! r \<or> r \<in> writes n i" by blast
  from Cons.IH [OF s(2,3)] obtain u d where t: "fold (mark_inst n) is (u1, d1) = (u, d)"
    "length u = n" "length d = n"
    "\<forall>r < n. u ! r \<longleftrightarrow> u1 ! r \<or> (\<not> d1 ! r \<and>
       (\<exists>m < length is. r \<in> reads n (is ! m) \<and> (\<forall>k < m. r \<notin> writes n (is ! k))))"
    "\<forall>r < n. d ! r \<longleftrightarrow> d1 ! r \<or> (\<exists>i \<in> set is. r \<in> writes n i)" by blast
  have first: "(\<exists>m < length (i # is). r \<in> reads n ((i # is) ! m) \<and> (\<forall>k < m. r \<notin> writes n ((i # is) ! k))) \<longleftrightarrow>
      r \<in> reads n i \<or> (r \<notin> writes n i \<and>
       (\<exists>m < length is. r \<in> reads n (is ! m) \<and> (\<forall>k < m. r \<notin> writes n (is ! k))))" for r
    by (simp add: Ex_less_Suc2 All_less_Suc2) blast
  have "u ! r \<longleftrightarrow> u0 ! r \<or> (\<not> d0 ! r \<and> (\<exists>m < length (i # is). r \<in> reads n ((i # is) ! m) \<and>
      (\<forall>k < m. r \<notin> writes n ((i # is) ! k))))" if "r < n" for r
    unfolding first using s(4,5) t(4) that by blast
  moreover have "d ! r \<longleftrightarrow> d0 ! r \<or> (\<exists>j \<in> set (i # is). r \<in> writes n j)" if "r < n" for r
    using s(5) t(5) that by auto
  ultimately show ?case using s(1) t(1-3) by simp
qed simp

section \<open>The arrays of a function\<close>

abbreviation insts_at :: "ir_function \<Rightarrow> nat \<Rightarrow> ir_inst list" where
  "insts_at f b \<equiv> bb_insts (fn_blocks f ! b)"

abbreviation regs :: "ir_function \<Rightarrow> nat" where
  "regs \<equiv> fn_next_reg"

abbreviation blocks :: "ir_function \<Rightarrow> nat" where
  "blocks f \<equiv> length (fn_order f)"

lemma length_fn_blocks [simp]: "length (fn_blocks f) = length (fn_order f)"
  by (simp add: fn_blocks_def)

text \<open>Read before any write in the block, and written in the block.\<close>

definition exposed :: "ir_function \<Rightarrow> nat \<Rightarrow> nat \<Rightarrow> bool" where
  "exposed f b r \<longleftrightarrow> (\<exists>m < length (insts_at f b). r \<in> reads (regs f) (insts_at f b ! m) \<and>
     (\<forall>k < m. r \<notin> writes (regs f) (insts_at f b ! k)))"

definition killed :: "ir_function \<Rightarrow> nat \<Rightarrow> nat \<Rightarrow> bool" where
  "killed f b r \<longleftrightarrow> (\<exists>i \<in> set (insts_at f b). r \<in> writes (regs f) i)"

lemma use_defs_nth:
  assumes "b < blocks f"
  shows "length (fst (use_defs f ! b)) = regs f" "length (snd (use_defs f ! b)) = regs f"
    "r < regs f \<Longrightarrow> fst (use_defs f ! b) ! r \<longleftrightarrow> exposed f b r"
    "r < regs f \<Longrightarrow> snd (use_defs f ! b) ! r \<longleftrightarrow> killed f b r"
proof -
  have e: "use_defs f ! b = block_use_def (regs f) (fn_blocks f ! b)"
    using assms by (simp add: use_defs_def)
  show "length (fst (use_defs f ! b)) = regs f" "length (snd (use_defs f ! b)) = regs f"
    "r < regs f \<Longrightarrow> fst (use_defs f ! b) ! r \<longleftrightarrow> exposed f b r"
    "r < regs f \<Longrightarrow> snd (use_defs f ! b) ! r \<longleftrightarrow> killed f b r"
    using block_use_def_result [of "replicate (regs f) False" "regs f" "replicate (regs f) False" "insts_at f b"]
    by (auto simp: e block_use_def_def exposed_def killed_def)
qed

section \<open>Paths\<close>

text \<open>\<open>live_before f r b k\<close>: some path from instruction \<open>k\<close> of block \<open>b\<close> reads \<open>r\<close> before it is written.\<close>

inductive live_before :: "ir_function \<Rightarrow> nat \<Rightarrow> nat \<Rightarrow> nat \<Rightarrow> bool" for f r where
  read: "\<lbrakk> b < blocks f; k < length (insts_at f b); r \<in> reads (regs f) (insts_at f b ! k) \<rbrakk>
    \<Longrightarrow> live_before f r b k"
| in_block: "\<lbrakk> b < blocks f; k + 1 < length (insts_at f b); r \<notin> writes (regs f) (insts_at f b ! k);
    live_before f r b (k + 1) \<rbrakk> \<Longrightarrow> live_before f r b k"
| jump: "\<lbrakk> b < blocks f; k + 1 = length (insts_at f b); r \<notin> writes (regs f) (insts_at f b ! k);
    c \<in> set (succ_indices f b); live_before f r c 0 \<rbrakk> \<Longrightarrow> live_before f r b k"

definition nonempty_blocks :: "ir_function \<Rightarrow> bool" where
  "nonempty_blocks f \<longleftrightarrow> (\<forall>b < blocks f. insts_at f b \<noteq> [])"

lemma live_before_range: "live_before f r b k \<Longrightarrow> b < blocks f \<and> k < length (insts_at f b) \<and> r < regs f"
  by (induction rule: live_before.induct) (auto dest: reads_range)

text \<open>From a later read in the block, and from a successor, back to an earlier instruction.\<close>

lemma live_before_read:
  assumes "b < blocks f" and "m < length (insts_at f b)" and "r \<in> reads (regs f) (insts_at f b ! m)"
    and "k \<le> m" and "\<forall>j. k \<le> j \<and> j < m \<longrightarrow> r \<notin> writes (regs f) (insts_at f b ! j)"
  shows "live_before f r b k"
  using assms(4,5)
proof (induction "m - k" arbitrary: k)
  case 0
  then have "k = m" by simp
  then show ?case using live_before.read [OF assms(1-3)] by simp
next
  case (Suc d)
  then have k: "k < m" by simp
  have l: "live_before f r b (k + 1)"
  proof (rule Suc.hyps(1))
    show "d = m - (k + 1)" using Suc.hyps(2) by simp
    show "k + 1 \<le> m" using k by simp
    show "\<forall>j. k + 1 \<le> j \<and> j < m \<longrightarrow> r \<notin> writes (regs f) (insts_at f b ! j)"
      using Suc.prems(2) by simp
  qed
  have "k + 1 < length (insts_at f b)" using k assms(2) by simp
  moreover have "r \<notin> writes (regs f) (insts_at f b ! k)" using Suc.prems(2) k by blast
  ultimately show ?case by (rule live_before.in_block [OF assms(1) _ _ l])
qed

lemma live_before_through:
  assumes "b < blocks f" and "c \<in> set (succ_indices f b)" and "live_before f r c 0"
    and "k < length (insts_at f b)" and "\<forall>j. k \<le> j \<and> j < length (insts_at f b) \<longrightarrow> r \<notin> writes (regs f) (insts_at f b ! j)"
  shows "live_before f r b k"
  using assms(4,5)
proof (induction "length (insts_at f b) - Suc k" arbitrary: k)
  case 0
  then have "k + 1 = length (insts_at f b)" by simp
  moreover have "r \<notin> writes (regs f) (insts_at f b ! k)" using 0(2,3) by blast
  ultimately show ?case by (rule live_before.jump [OF assms(1) _ _ assms(2,3)])
next
  case (Suc d)
  then have k: "k + 1 < length (insts_at f b)" by simp
  have l: "live_before f r b (k + 1)"
  proof (rule Suc.hyps(1))
    show "d = length (insts_at f b) - Suc (k + 1)" using Suc.hyps(2) by simp
    show "k + 1 < length (insts_at f b)" by (rule k)
    show "\<forall>j. k + 1 \<le> j \<and> j < length (insts_at f b) \<longrightarrow> r \<notin> writes (regs f) (insts_at f b ! j)"
      using Suc.prems(2) by simp
  qed
  have "r \<notin> writes (regs f) (insts_at f b ! k)" using Suc.prems by blast
  then show ?case by (rule live_before.in_block [OF assms(1) k _ l])
qed

section \<open>The iteration\<close>

type_synonym solution = "bool list list \<times> bool list list"

datatype live_item = Merge nat nat | Update_In nat

primrec item_step :: "ir_function \<Rightarrow> live_item \<Rightarrow> liveness \<Rightarrow> liveness" where
  "item_step f (Merge b s) = merge_out b s"
| "item_step f (Update_In b) = update_in (use_defs f) b"

definition out_row :: "solution \<Rightarrow> nat \<Rightarrow> nat \<Rightarrow> bool list" where
  "out_row sol b s = map2 (\<or>) (snd sol ! b) (fst sol ! s)"

definition in_row :: "ir_function \<Rightarrow> solution \<Rightarrow> nat \<Rightarrow> bool list" where
  "in_row f sol b = map2 (\<lambda>u (out, d). u \<or> (out \<and> \<not> d)) (fst (use_defs f ! b)) (zip (snd sol ! b) (snd (use_defs f ! b)))"

primrec item_update :: "ir_function \<Rightarrow> live_item \<Rightarrow> solution \<Rightarrow> solution" where
  "item_update f (Merge b s) sol = (fst sol, (snd sol)[b := out_row sol b s])"
| "item_update f (Update_In b) sol = ((fst sol)[b := in_row f sol b], snd sol)"

definition live_items :: "ir_function \<Rightarrow> live_item list" where
  "live_items f = concat (map (\<lambda>b. map (Merge b) (succ_indices f b) @ [Update_In b]) (rev [0..<blocks f]))"

lemma live_pass_items: "live_pass f (use_defs f) = (\<lambda>(sol, ch). fold (item_step f) (live_items f) (sol, False))"
proof -
  have one: "fold (item_step f) (map (Merge b) (succ_indices f b) @ [Update_In b]) st = live_block f (use_defs f) b st" for b st
    by (simp add: live_block_def fold_map o_def)
  have "fold (item_step f) (concat (map (\<lambda>b. map (Merge b) (succ_indices f b) @ [Update_In b]) bs)) st =
      fold (live_block f (use_defs f)) bs st" for bs st
  proof (induction bs arbitrary: st)
    case (Cons b bs)
    then show ?case using one [of b st] by simp
  qed simp
  then show ?thesis by (simp add: live_pass_def live_items_def fun_eq_iff)
qed

definition shaped :: "ir_function \<Rightarrow> bool list list \<Rightarrow> bool" where
  "shaped f D \<longleftrightarrow> length D = blocks f \<and> (\<forall>b < blocks f. length (D ! b) = regs f)"

text \<open>
  What holds during the iteration: rows only grow, whatever is marked live is live on a path.
\<close>

definition live_inv :: "ir_function \<Rightarrow> solution \<Rightarrow> bool" where
  "live_inv f sol \<longleftrightarrow> nonempty_blocks f \<and> shaped f (fst sol) \<and> shaped f (snd sol) \<and>
     (\<forall>b < blocks f. \<forall>r < regs f.
        (fst sol ! b ! r \<longrightarrow> in_row f sol b ! r \<and> live_before f r b 0) \<and>
        (snd sol ! b ! r \<longrightarrow> (\<exists>c \<in> set (succ_indices f b). live_before f r c 0)))"

lemma live_invD:
  assumes "live_inv f sol"
  shows "nonempty_blocks f" "shaped f (fst sol)" "shaped f (snd sol)"
    "\<lbrakk> b < blocks f; r < regs f; fst sol ! b ! r \<rbrakk> \<Longrightarrow> in_row f sol b ! r"
    "\<lbrakk> b < blocks f; r < regs f; fst sol ! b ! r \<rbrakk> \<Longrightarrow> live_before f r b 0"
    "\<lbrakk> b < blocks f; r < regs f; snd sol ! b ! r \<rbrakk> \<Longrightarrow> \<exists>c \<in> set (succ_indices f b). live_before f r c 0"
  using assms unfolding live_inv_def by blast+

lemma in_row_nth:
  assumes "shaped f (snd sol)" and "b < blocks f" and "r < regs f"
  shows "in_row f sol b ! r \<longleftrightarrow> exposed f b r \<or> (snd sol ! b ! r \<and> \<not> killed f b r)"
  using assms use_defs_nth [OF assms(2)] by (simp add: in_row_def shaped_def)

lemma length_in_row: "shaped f (snd sol) \<Longrightarrow> b < blocks f \<Longrightarrow> length (in_row f sol b) = regs f"
  using use_defs_nth [of b f] by (simp add: in_row_def shaped_def)

lemma out_row_nth:
  assumes "shaped f (fst sol)" and "shaped f (snd sol)" and "b < blocks f" and "s < blocks f"
  shows "length (out_row sol b s) = regs f"
    and "r < regs f \<Longrightarrow> out_row sol b s ! r \<longleftrightarrow> snd sol ! b ! r \<or> fst sol ! s ! r"
  using assms by (simp_all add: out_row_def shaped_def)

lemma shaped_update:
  assumes "shaped f D" and "length row = regs f"
  shows "shaped f (D[b := row])"
proof -
  have "length (D[b := row] ! c) = regs f" if "c < blocks f" for c
    using assms that by (cases "c = b") (auto simp: shaped_def)
  then show ?thesis using assms(1) by (simp add: shaped_def)
qed

lemma exposed_live: "b < blocks f \<Longrightarrow> exposed f b r \<Longrightarrow> live_before f r b 0"
  unfolding exposed_def by (auto intro: live_before_read)

lemma passed_live:
  assumes "nonempty_blocks f" and "b < blocks f" and "\<not> killed f b r"
    and "c \<in> set (succ_indices f b)" and "live_before f r c 0"
  shows "live_before f r b 0"
  using assms by (intro live_before_through [of b f c r 0]) (auto simp: nonempty_blocks_def killed_def)

text \<open>The items of a pass name blocks of the function.\<close>

definition good_items :: "ir_function \<Rightarrow> live_item set" where
  "good_items f = {Merge b s | b s. b < blocks f \<and> s \<in> set (succ_indices f b)} \<union> {Update_In b | b. b < blocks f}"

lemma succ_range:
  assumes "s \<in> set (succ_indices f b)"
  shows "s < blocks f"
proof -
  obtain x where x: "List.find (\<lambda>i. fn_order f ! i = x) [0..<blocks f] = Some s"
    using assms by (auto simp: succ_indices_def List.map_filter_def get_block_index_def)
  show ?thesis using find_SomeD [OF x] by simp
qed

lemma merge_grows:
  assumes inv: "live_inv f sol" and b: "b < blocks f" "s \<in> set (succ_indices f b)"
  shows "live_inv f (item_update f (Merge b s) sol)"
proof -
  note old = live_invD [OF inv]
  have s: "s < blocks f" using succ_range [OF b(2)] .
  note row = out_row_nth [OF old(2,3) b(1) s]
  let ?sol = "(fst sol, (snd sol)[b := out_row sol b s])"
  have sh: "shaped f (snd ?sol)" using shaped_update [OF old(3) row(1)] by simp
  have lb: "b < length (snd sol)" using old(3) b(1) by (simp add: shaped_def)
  have out: "snd ?sol ! a ! r \<longleftrightarrow> snd sol ! a ! r \<or> (a = b \<and> fst sol ! s ! r)"
    if "r < regs f" for a r
    using row(2) [OF that] lb by (cases "a = b") auto
  show ?thesis unfolding live_inv_def item_update.simps
  proof (intro conjI allI impI)
    fix a r assume a: "a < blocks f" and r: "r < regs f"
    show "in_row f ?sol a ! r" if "fst ?sol ! a ! r"
      using that old(4) [OF a r] in_row_nth [OF old(3) a r] in_row_nth [OF sh a r] out [OF r] by auto
    show "live_before f r a 0" if "fst ?sol ! a ! r" using that old(5) [OF a r] by simp
    show "\<exists>c \<in> set (succ_indices f a). live_before f r c 0" if "snd ?sol ! a ! r"
      using that old(6) [OF a r] old(5) [OF s r] out [OF r] b(2) by auto
  qed (use old(1,2) sh in simp_all)
qed

lemma update_in_grows:
  assumes inv: "live_inv f sol" and b: "b < blocks f"
  shows "live_inv f (item_update f (Update_In b) sol)"
proof -
  note old = live_invD [OF inv]
  note row = length_in_row [OF old(3) b]
  let ?sol = "((fst sol)[b := in_row f sol b], snd sol)"
  have lb: "b < length (fst sol)" using old(2) b by (simp add: shaped_def)
  have same: "in_row f ?sol a = in_row f sol a" for a by (simp add: in_row_def)
  show ?thesis unfolding live_inv_def item_update.simps
  proof (intro conjI allI impI)
    show "shaped f (fst ?sol)" using shaped_update [OF old(2) row] by simp
    fix a r assume a: "a < blocks f" and r: "r < regs f"
    show "in_row f ?sol a ! r" if "fst ?sol ! a ! r"
      using that old(4) [OF a r] lb same [of a] by (cases "a = b") auto
    show "live_before f r a 0" if i: "fst ?sol ! a ! r"
    proof (cases "a = b")
      case False
      then show ?thesis using i old(5) [OF a r] by simp
    next
      case True
      then have "in_row f sol a ! r" using i lb by simp
      then consider "exposed f a r" | "snd sol ! a ! r" "\<not> killed f a r"
        using in_row_nth [OF old(3) a r] by blast
      then show ?thesis
      proof cases
        case 1
        then show ?thesis by (rule exposed_live [OF a])
      next
        case 2
        then obtain c where "c \<in> set (succ_indices f a)" "live_before f r c 0" using old(6) [OF a r] by blast
        then show ?thesis using passed_live [OF old(1) a 2(2)] by blast
      qed
    qed
    show "\<exists>c \<in> set (succ_indices f a). live_before f r c 0" if "snd ?sol ! a ! r"
      using that old(6) [OF a r] by simp
  qed (use old(1,3) in simp_all)
qed

definition to_go :: "solution \<Rightarrow> nat" where
  "to_go sol = missing (fst sol) + missing (snd sol)"

interpretation live_iter: chaotic_iteration "item_step f" "item_update f" "good_items f" "live_inv f" to_go for f
proof
  fix sol i ch assume inv: "live_inv f sol" and i: "i \<in> good_items f"
  note old = live_invD [OF inv]
  obtain ins outs where so: "sol = (ins, outs)" by (cases sol)
  consider (merge) b s where "i = Merge b s" "b < blocks f" "s \<in> set (succ_indices f b)"
    | (upd) b where "i = Update_In b" "b < blocks f" using i by (auto simp: good_items_def)
  note cs = this
  show "item_step f i (sol, ch) = (if item_update f i sol = sol then (sol, ch) else (item_update f i sol, True))"
    using old(2,3)
    by (cases rule: cs) (auto simp: so merge_out_def update_in_def out_row_def in_row_def Let_def
        list_update_same_conv shaped_def)
  show "live_inv f (item_update f i sol)"
    using merge_grows [OF inv] update_in_grows [OF inv] by (cases rule: cs) auto
  show "to_go (item_update f i sol) < to_go sol" if ne: "item_update f i sol \<noteq> sol"
  proof (cases rule: cs)
    case merge
    have s: "s < blocks f" using succ_range [OF merge(3)] .
    note row = out_row_nth [OF old(2,3) merge(2) s]
    have lb: "b < length (snd sol)" using old(3) merge(2) by (simp add: shaped_def)
    have "out_row sol b s \<noteq> snd sol ! b" using ne merge(1) by auto
    then have "count_if Not (out_row sol b s) < count_if Not (snd sol ! b)"
      using row old(3) merge(2) by (intro count_if_Not_mono) (auto simp: shaped_def)
    then show ?thesis using missing_update [OF lb] merge(1) by (simp add: to_go_def)
  next
    case upd
    have lb: "b < length (fst sol)" using old(2) upd(2) by (simp add: shaped_def)
    have "in_row f sol b \<noteq> fst sol ! b" using ne upd(1) by auto
    then have "count_if Not (in_row f sol b) < count_if Not (fst sol ! b)"
      using length_in_row [OF old(3) upd(2)] old(2,4) upd(2) by (intro count_if_Not_mono) (auto simp: shaped_def)
    then show ?thesis using missing_update [OF lb] upd(1) by (simp add: to_go_def)
  qed
qed

section \<open>The result\<close>

lemma live_items_good: "set (live_items f) = good_items f"
  by (auto simp: live_items_def good_items_def)

definition liveness_of :: "ir_function \<Rightarrow> bool list list \<Rightarrow> bool list list \<Rightarrow> bool" where
  "liveness_of f ins outs \<longleftrightarrow> shaped f ins \<and> shaped f outs \<and>
     (\<forall>b < blocks f. \<forall>r < regs f.
        (ins ! b ! r \<longleftrightarrow> live_before f r b 0) \<and>
        (outs ! b ! r \<longleftrightarrow> (\<exists>c \<in> set (succ_indices f b). live_before f r c 0)) \<and>
        (ins ! b ! r \<longleftrightarrow> exposed f b r \<or> (outs ! b ! r \<and> \<not> killed f b r)))"

text \<open>Liveness anywhere in a block, from what the arrays say of its end.\<close>

lemma live_before_cases:
  assumes "live_before f r b k"
    and ins: "\<And>b c. b < blocks f \<Longrightarrow> c \<in> set (succ_indices f b) \<Longrightarrow> ins ! c ! r \<Longrightarrow> outs ! b ! r"
    and eq: "\<And>b. b < blocks f \<Longrightarrow> ins ! b ! r \<longleftrightarrow> exposed f b r \<or> (outs ! b ! r \<and> \<not> killed f b r)"
  shows "(\<exists>m. k \<le> m \<and> m < length (insts_at f b) \<and> r \<in> reads (regs f) (insts_at f b ! m) \<and>
      (\<forall>j. k \<le> j \<and> j < m \<longrightarrow> r \<notin> writes (regs f) (insts_at f b ! j))) \<or>
    (outs ! b ! r \<and> (\<forall>j. k \<le> j \<and> j < length (insts_at f b) \<longrightarrow> r \<notin> writes (regs f) (insts_at f b ! j)))"
  using assms(1)
proof (induction rule: live_before.induct)
  case (read b k)
  then show ?case by (intro disjI1 exI [of _ k]) auto
next
  case (in_block b k)
  have up: "(\<forall>j. k + 1 \<le> j \<and> j < m \<longrightarrow> r \<notin> writes (regs f) (insts_at f b ! j)) \<Longrightarrow>
      (\<forall>j. k \<le> j \<and> j < m \<longrightarrow> r \<notin> writes (regs f) (insts_at f b ! j))" for m
    using in_block(3) by (metis Suc_eq_plus1 Suc_leI le_neq_implies_less)
  from in_block.IH show ?case
  proof (elim disjE exE conjE)
    fix m assume "k + 1 \<le> m" "m < length (insts_at f b)" "r \<in> reads (regs f) (insts_at f b ! m)"
      "\<forall>j. k + 1 \<le> j \<and> j < m \<longrightarrow> r \<notin> writes (regs f) (insts_at f b ! j)"
    then show ?thesis using up [of m] by (intro disjI1 exI [of _ m]) simp
  next
    assume "outs ! b ! r" "\<forall>j. k + 1 \<le> j \<and> j < length (insts_at f b) \<longrightarrow> r \<notin> writes (regs f) (insts_at f b ! j)"
    then show ?thesis using up [of "length (insts_at f b)"] by simp
  qed
next
  case (jump b k c)
  have "ins ! c ! r"
  proof -
    have cl: "c < blocks f" using live_before_range [OF jump(5)] by simp
    have "exposed f c r \<or> (outs ! c ! r \<and> \<not> killed f c r)"
      using jump.IH by (auto simp: exposed_def killed_def in_set_conv_nth)
    then show ?thesis using eq [OF cl] by simp
  qed
  then have "outs ! b ! r" using ins [OF jump(1,4)] by simp
  moreover have "j = k" if "k \<le> j \<and> j < length (insts_at f b)" for j using that jump(2) by simp
  ultimately show ?case using jump(3) by blast
qed

lemma liveness_result:
  assumes ne: "nonempty_blocks f"
  shows "\<exists>ins outs. liveness_fixpoint f = Some (ins, outs) \<and> liveness_of f ins outs"
proof -
  let ?none = "replicate (blocks f) (replicate (regs f) False)"
  have "live_inv f (?none, ?none)" using ne by (simp add: live_inv_def shaped_def)
  from live_iter.iteration_ends [OF this, of "live_items f"] obtain sol where
    w: "while_option snd (\<lambda>(s, ch). fold (item_step f) (live_items f) (s, False)) ((?none, ?none), True) = Some (sol, False)"
    and inv: "live_inv f sol" and st: "\<forall>i \<in> good_items f. item_update f i sol = sol"
    by (auto simp: live_items_good)
  obtain ins outs where so: "sol = (ins, outs)" by (cases sol)
  have fx: "liveness_fixpoint f = Some (ins, outs)"
    using w by (simp add: liveness_fixpoint_def Let_def live_pass_items so)
  note I = live_invD [OF inv, unfolded so fst_conv snd_conv]
  have out_in: "outs ! b ! r" if "b < blocks f" "c \<in> set (succ_indices f b)" "ins ! c ! r" "r < regs f" for b c r
  proof -
    have "item_update f (Merge b c) sol = sol" by (rule st [rule_format]) (use that(1,2) in \<open>simp add: good_items_def\<close>)
    then have "outs[b := out_row sol b c] = outs" by (simp add: so)
    then have "out_row sol b c = outs ! b" using I(3) that(1) by (metis nth_list_update_eq shaped_def)
    then show ?thesis using out_row_nth(2) [of f sol b c r] I(2,3) that succ_range [OF that(2)] by (simp add: so)
  qed
  have in_eq: "ins ! b ! r \<longleftrightarrow> exposed f b r \<or> (outs ! b ! r \<and> \<not> killed f b r)" if "b < blocks f" "r < regs f" for b r
  proof -
    have "item_update f (Update_In b) sol = sol" by (rule st [rule_format]) (use that(1) in \<open>simp add: good_items_def\<close>)
    then have "ins[b := in_row f sol b] = ins" by (simp add: so)
    then have "in_row f sol b = ins ! b" using I(2) that(1) by (metis nth_list_update_eq shaped_def)
    then show ?thesis using in_row_nth [of f sol b r] I(3) that by (simp add: so)
  qed
  have live_in: "ins ! b ! r" if l: "live_before f r b 0" for b r
  proof -
    have range: "b < blocks f" "r < regs f" using live_before_range [OF l] by auto
    have "exposed f b r \<or> (outs ! b ! r \<and> \<not> killed f b r)"
      using live_before_cases [OF l, of ins outs] out_in in_eq range(2)
      by (auto simp: exposed_def killed_def in_set_conv_nth)
    then show ?thesis using in_eq [OF range] by simp
  qed
  have "liveness_of f ins outs" unfolding liveness_of_def
  proof (intro conjI allI impI)
    fix b r assume b: "b < blocks f" and r: "r < regs f"
    show "ins ! b ! r \<longleftrightarrow> live_before f r b 0" using I(5) [OF b r] live_in by blast
    show "outs ! b ! r \<longleftrightarrow> (\<exists>c \<in> set (succ_indices f b). live_before f r c 0)"
      using I(6) [OF b r] out_in [OF b _ _ r] live_in by blast
    show "ins ! b ! r \<longleftrightarrow> exposed f b r \<or> (outs ! b ! r \<and> \<not> killed f b r)" using in_eq [OF b r] .
  qed (use I(2,3) in simp_all)
  then show ?thesis using fx by blast
qed

end
