(* ===== verification/Regalloc_Correct.thy ===== *)
theory Regalloc_Correct
  imports Regalloc_Scan Regalloc_Liveness
begin

text \<open>
  The allocator as a whole: the intervals cover the liveness of the paths, so two registers that
  are live at the same instruction never share a machine register.
\<close>

section \<open>Intervals only grow\<close>

definition grows :: "live_interval \<Rightarrow> live_interval \<Rightarrow> bool" where
  "grows a b \<longleftrightarrow> li_start b \<le> li_start a \<and> li_end a \<le> li_end b \<and> li_phys b = li_phys a \<and>
     li_spilled b = li_spilled a \<and> li_class b = li_class a"

definition widens :: "live_interval list \<Rightarrow> live_interval list \<Rightarrow> bool" where
  "widens s t \<longleftrightarrow> length t = length s \<and> (\<forall>v < length s. grows (s ! v) (t ! v))"

lemma grows_refl [simp]: "grows a a"
  by (simp add: grows_def)

lemma widens_refl [simp]: "widens s s"
  by (simp add: widens_def)

lemma widens_trans: "widens s t \<Longrightarrow> widens t u \<Longrightarrow> widens s u"
  unfolding widens_def grows_def by (metis order_trans)

lemma widens_upd:
  assumes "\<And>iv. grows iv (g iv)"
  shows "widens s (upd v g s)"
proof -
  have "grows (s ! u) (upd v g s ! u)" if "u < length s" for u
    using assms that by (cases "u = v") (simp_all add: upd_def)
  then show ?thesis by (simp add: widens_def)
qed

lemma widens_fold: "(\<And>x s. x \<in> set xs \<Longrightarrow> widens s (h x s)) \<Longrightarrow> widens s (fold h xs s)"
proof (induction xs arbitrary: s)
  case (Cons x xs)
  have "widens (h x s) (fold h xs (h x s))" using Cons.IH Cons.prems by simp
  moreover have "widens s (h x s)" using Cons.prems by simp
  ultimately show ?case using widens_trans by simp
qed simp

text \<open>The length and the marks of untouched intervals; what one step establishes and growing keeps.\<close>

definition sized :: "nat \<Rightarrow> live_interval list \<Rightarrow> bool" where
  "sized n s \<longleftrightarrow> length s = n \<and> (\<forall>v < n. li_start (s ! v) \<le> INT_MAX)"

lemma sized_widens: "sized n s \<Longrightarrow> widens s t \<Longrightarrow> sized n t"
  by (auto simp: sized_def widens_def grows_def intro: order_trans)

lemma fold_establishes:
  assumes "x \<in> set xs" and "sized n s"
    and w: "\<And>y t. y \<in> set xs \<Longrightarrow> widens t (h y t)"
    and e: "\<And>t. sized n t \<Longrightarrow> Q (h x t)"
    and k: "\<And>t u. Q t \<Longrightarrow> widens t u \<Longrightarrow> Q u"
  shows "Q (fold h xs s)"
proof -
  obtain as bs where xs: "xs = as @ x # bs" using split_list [OF assms(1)] by blast
  have "widens s (fold h as s)" using w by (intro widens_fold) (simp add: xs)
  then have q: "Q (h x (fold h as s))" using sized_widens [OF assms(2)] e by blast
  have "widens (h x (fold h as s)) (fold h bs (h x (fold h as s)))" using w by (intro widens_fold) (simp add: xs)
  then show ?thesis using k [OF q] by (simp add: xs)
qed

definition starts_by :: "nat \<Rightarrow> int \<Rightarrow> live_interval list \<Rightarrow> bool" where
  "starts_by v p s \<longleftrightarrow> v < length s \<and> li_start (s ! v) \<le> p"

definition lasts_to :: "nat \<Rightarrow> int \<Rightarrow> live_interval list \<Rightarrow> bool" where
  "lasts_to v p s \<longleftrightarrow> v < length s \<and> p \<le> li_end (s ! v)"

definition touched :: "nat \<Rightarrow> live_interval list \<Rightarrow> bool" where
  "touched v s \<longleftrightarrow> v < length s \<and> li_start (s ! v) < INT_MAX"

lemma keep:
  "starts_by v p s \<Longrightarrow> widens s t \<Longrightarrow> starts_by v p t"
  "lasts_to v p s \<Longrightarrow> widens s t \<Longrightarrow> lasts_to v p t"
  "touched v s \<Longrightarrow> widens s t \<Longrightarrow> touched v t"
  by (auto simp: starts_by_def lasts_to_def touched_def widens_def grows_def intro: order_trans)

lemma grows_steps:
  "grows iv (lower_start p iv)" "grows iv (raise_end p iv)" "grows iv (raise_end p (lower_start p iv))"
  by (auto simp: grows_def lower_start_def raise_end_def)

lemma grows_use: "p < INT_MAX \<Longrightarrow> grows iv (let iv = raise_end p iv in if li_start iv = INT_MAX then iv\<lparr>li_start := p\<rparr> else iv)"
  by (auto simp: grows_def raise_end_def Let_def)

section \<open>Positions\<close>

definition position :: "ir_function \<Rightarrow> nat \<Rightarrow> nat \<Rightarrow> nat" where
  "position f b k = block_start f b + k"

lemma position_nth:
  assumes "b < blocks f" and "k < length (insts_at f b)"
  shows "position f b k < length (all_insts f)" and "all_insts f ! position f b k = insts_at f b ! k"
proof -
  have "fn_blocks f = take b (fn_blocks f) @ fn_blocks f ! b # drop (Suc b) (fn_blocks f)"
    using assms(1) by (simp add: id_take_nth_drop)
  then have "all_insts f = concat (map bb_insts (take b (fn_blocks f))) @ insts_at f b @
      concat (map bb_insts (drop (Suc b) (fn_blocks f)))"
    unfolding all_insts_def by (metis concat.simps(2) concat_append list.simps(9) map_append)
  then show "position f b k < length (all_insts f)" and "all_insts f ! position f b k = insts_at f b ! k"
    using assms(2) by (simp_all add: position_def block_start_def nth_append)
qed

lemma block_end_position:
  "insts_at f b \<noteq> [] \<Longrightarrow> block_end f b = position f b (length (insts_at f b) - 1)"
  by (simp add: block_end_def position_def Let_def Suc_leI)

section \<open>What the intervals cover\<close>

definition numbered :: "ir_function \<Rightarrow> bool" where
  "numbered f \<longleftrightarrow> int (length (all_insts f)) < INT_MAX"

lemma length_set_type [simp]: "length (fold (set_type n) is ivs) = length ivs"
  by (induction "is" arbitrary: ivs) (auto simp: set_type_def split: option.split)

lemma widens_cover_block_reg: "widens ivs (cover_block_reg f ins outs b v ivs)"
  unfolding cover_block_reg_def Let_def
  by (auto intro!: widens_upd widens_trans [OF widens_upd widens_upd] simp: grows_steps)

lemma widens_cover_blocks: "widens ivs (cover_blocks f ins outs ivs)"
  unfolding cover_blocks_def by (intro widens_fold widens_cover_block_reg)

lemma widens_cover_def: "widens ivs (cover_def n p v ivs)"
  by (auto simp: cover_def_def grows_steps intro!: widens_upd split: option.split)

lemma widens_cover_use: "p < INT_MAX \<Longrightarrow> widens ivs (cover_use n p v ivs)"
  by (auto simp: cover_use_def intro!: widens_upd grows_use split: option.split)

lemma widens_cover_inst: "int p < INT_MAX \<Longrightarrow> widens ivs (cover_inst f p ivs)"
  unfolding cover_inst_def Let_def
  by (rule widens_trans [OF widens_cover_def widens_fold]) (rule widens_cover_use)

lemma fold_cover_blocks:
  assumes b: "b < blocks f" and v: "v < regs f" and l: "sized (regs f) ivs"
    and e: "\<And>t. sized (regs f) t \<Longrightarrow> Q (cover_block_reg f ins outs b v t)"
    and k: "\<And>t u. Q t \<Longrightarrow> widens t u \<Longrightarrow> Q u"
  shows "Q (cover_blocks f ins outs ivs)"
  unfolding cover_blocks_def
proof (rule fold_establishes [where x = b and n = "regs f"])
  show "b \<in> set [0..<blocks f]" using b by simp
  show "widens t (fold (cover_block_reg f ins outs y) [0..<regs f] t)" for y t
    by (rule widens_fold) (rule widens_cover_block_reg)
  show "Q (fold (cover_block_reg f ins outs b) [0..<regs f] t)" if "sized (regs f) t" for t
  proof (rule fold_establishes [where x = v and n = "regs f" and h = "cover_block_reg f ins outs b"])
    show "v \<in> set [0..<regs f]" using v by simp
  qed (use that e k widens_cover_block_reg in blast)+
qed (use l k in blast)+

lemma cover_blocks_reach:
  assumes b: "b < blocks f" and v: "v < regs f" and l: "sized (regs f) ivs"
  shows "ins ! b ! v \<Longrightarrow> starts_by v (int (block_start f b)) (cover_blocks f ins outs ivs)"
    and "outs ! b ! v \<Longrightarrow> lasts_to v (int (block_end f b)) (cover_blocks f ins outs ivs)"
proof -
  show "starts_by v (int (block_start f b)) (cover_blocks f ins outs ivs)" if i: "ins ! b ! v"
    by (rule fold_cover_blocks [OF b v l _ keep(1)])
      (use i v in \<open>auto simp: sized_def cover_block_reg_def starts_by_def upd_nth lower_start_def raise_end_def Let_def\<close>)
  show "lasts_to v (int (block_end f b)) (cover_blocks f ins outs ivs)" if o: "outs ! b ! v"
    by (rule fold_cover_blocks [OF b v l _ keep(2)])
      (use o v in \<open>auto simp: sized_def cover_block_reg_def lasts_to_def upd_nth lower_start_def raise_end_def Let_def\<close>)
qed

lemma cover_inst_reach:
  assumes l: "sized (regs f) ivs" and p: "int p < INT_MAX"
  shows "r \<in> writes (regs f) (all_insts f ! p) \<Longrightarrow>
      starts_by r (int p) (cover_inst f p ivs) \<and> lasts_to r (int p) (cover_inst f p ivs)"
    and "r \<in> reads (regs f) (all_insts f ! p) \<Longrightarrow>
      touched r (cover_inst f p ivs) \<and> lasts_to r (int p) (cover_inst f p ivs)"
proof -
  let ?i = "all_insts f ! p" and ?n = "regs f"
  let ?mid = "cover_def ?n (int p) (i_result ?i) ivs"
  have w: "widens t (fold (cover_use ?n (int p)) vs t)" for t vs
    by (rule widens_fold) (rule widens_cover_use [OF p])
  have lm: "sized ?n ?mid" using sized_widens [OF l widens_cover_def] .
  show "starts_by r (int p) (cover_inst f p ivs) \<and> lasts_to r (int p) (cover_inst f p ivs)"
    if r: "r \<in> writes ?n ?i"
  proof -
    have "r < ?n" using writes_range [OF r] .
    then have "starts_by r (int p) ?mid" "lasts_to r (int p) ?mid"
      using r l by (simp_all add: sized_def writes_def cover_def_def starts_by_def lasts_to_def upd_nth
          lower_start_def raise_end_def)
    then show ?thesis unfolding cover_inst_def Let_def using keep(1,2) w by blast
  qed
  show "touched r (cover_inst f p ivs) \<and> lasts_to r (int p) (cover_inst f p ivs)" if r: "r \<in> reads ?n ?i"
  proof -
    obtain v where v: "v \<in> set (operands ?i)" "reg_of ?n v = Some r" using r by (auto simp: reads_def)
    have e: "touched r (cover_use ?n (int p) v t) \<and> lasts_to r (int p) (cover_use ?n (int p) v t)"
      if t: "sized ?n t" for t
    proof -
      have rl: "r < length t" "li_start (t ! r) \<le> INT_MAX" using reads_range [OF r] t by (simp_all add: sized_def)
      show ?thesis using rl p
        by (simp add: cover_use_def v(2) touched_def lasts_to_def upd_nth Let_def raise_end_def)
    qed
    show ?thesis unfolding cover_inst_def Let_def
    proof (rule fold_establishes [where Q = "\<lambda>t. touched r t \<and> lasts_to r (int p) t" and x = v and n = ?n
          and h = "cover_use ?n (int p)"])
      show "widens t (cover_use ?n (int p) y t)" for y t by (rule widens_cover_use [OF p])
      show "v \<in> set (operands ?i)" by (rule v(1))
      show "sized ?n ?mid" by (rule lm)
    qed (use keep(2,3) e in blast)+
  qed
qed

section \<open>The finished intervals\<close>

definition typed_start :: "ir_function \<Rightarrow> live_interval list" where
  "typed_start f = fold (set_type (regs f)) (all_insts f) (map fresh_interval [0..<regs f])"

definition raw_intervals :: "ir_function \<Rightarrow> bool list list \<Rightarrow> bool list list \<Rightarrow> live_interval list" where
  "raw_intervals f ins outs =
     fold (cover_inst f) [0..<length (all_insts f)] (cover_blocks f ins outs (typed_start f))"

lemma build_intervals_raw:
  "build_intervals f ins outs = map (normalize (call_positions f)) (raw_intervals f ins outs)"
  by (simp add: build_intervals_def raw_intervals_def typed_start_def Let_def)

lemma set_type_keeps:
  "map (\<lambda>iv. (li_start iv, li_end iv, li_phys iv, li_spilled iv)) (fold (set_type n) is ivs) =
   map (\<lambda>iv. (li_start iv, li_end iv, li_phys iv, li_spilled iv)) ivs"
proof (induction "is" arbitrary: ivs)
  case (Cons i "is")
  have "map (\<lambda>iv. (li_start iv, li_end iv, li_phys iv, li_spilled iv)) (set_type n i ivs) =
      map (\<lambda>iv. (li_start iv, li_end iv, li_phys iv, li_spilled iv)) ivs"
    by (auto simp: set_type_def intro!: map_update_same split: option.split)
  then show ?case using Cons.IH by simp
qed simp

lemma typed_start_nth:
  assumes "v < regs f"
  shows "length (typed_start f) = regs f" "li_start (typed_start f ! v) = INT_MAX"
    "li_phys (typed_start f ! v) = X86_REG_NONE" "\<not> li_spilled (typed_start f ! v)"
proof -
  let ?k = "\<lambda>iv. (li_start iv, li_end iv, li_phys iv, li_spilled iv)"
  have m: "map ?k (typed_start f) = map ?k (map fresh_interval [0..<regs f])"
    unfolding typed_start_def by (rule set_type_keeps)
  show l: "length (typed_start f) = regs f" by (simp add: typed_start_def)
  have "?k (typed_start f ! v) = ?k (map fresh_interval [0..<regs f] ! v)"
    using m l assms by (metis (no_types, lifting) length_map map_equality_iff length_upt minus_nat.diff_0)
  then show "li_start (typed_start f ! v) = INT_MAX"
    "li_phys (typed_start f ! v) = X86_REG_NONE" "\<not> li_spilled (typed_start f ! v)"
    using assms by (simp_all add: fresh_interval_def)
qed

lemma sized_typed_start: "sized (regs f) (typed_start f)"
  using typed_start_nth by (simp add: sized_def) (simp add: typed_start_def)

lemma widens_raw: "numbered f \<Longrightarrow> widens (typed_start f) (raw_intervals f ins outs)"
  unfolding raw_intervals_def
  by (rule widens_trans [OF widens_cover_blocks widens_fold])
    (auto simp: numbered_def intro!: widens_cover_inst)

lemma raw_reach:
  assumes n: "numbered f"
  shows "\<lbrakk> b < blocks f; v < regs f; ins ! b ! v \<rbrakk> \<Longrightarrow> starts_by v (int (block_start f b)) (raw_intervals f ins outs)"
    and "\<lbrakk> b < blocks f; v < regs f; outs ! b ! v \<rbrakk> \<Longrightarrow> lasts_to v (int (block_end f b)) (raw_intervals f ins outs)"
    and "\<lbrakk> p < length (all_insts f); v \<in> writes (regs f) (all_insts f ! p) \<rbrakk> \<Longrightarrow>
      starts_by v (int p) (raw_intervals f ins outs) \<and> lasts_to v (int p) (raw_intervals f ins outs)"
    and "\<lbrakk> p < length (all_insts f); v \<in> reads (regs f) (all_insts f ! p) \<rbrakk> \<Longrightarrow>
      touched v (raw_intervals f ins outs) \<and> lasts_to v (int p) (raw_intervals f ins outs)"
proof -
  let ?b = "cover_blocks f ins outs (typed_start f)" and ?ps = "[0..<length (all_insts f)]"
  have pm: "int p < INT_MAX" if "p < length (all_insts f)" for p using that n by (simp add: numbered_def)
  have wi: "widens t (cover_inst f p t)" if "p \<in> set ?ps" for p t using that pm by (auto intro: widens_cover_inst)
  have w: "widens ?b (raw_intervals f ins outs)"
    unfolding raw_intervals_def by (rule widens_fold) (rule wi)
  have sz: "sized (regs f) ?b" using sized_widens [OF sized_typed_start widens_cover_blocks] .
  show "starts_by v (int (block_start f b)) (raw_intervals f ins outs)" if "b < blocks f" "v < regs f" "ins ! b ! v"
    using keep(1) [OF cover_blocks_reach(1) [OF that(1,2) sized_typed_start that(3)] w] .
  show "lasts_to v (int (block_end f b)) (raw_intervals f ins outs)" if "b < blocks f" "v < regs f" "outs ! b ! v"
    using keep(2) [OF cover_blocks_reach(2) [OF that(1,2) sized_typed_start that(3)] w] .
  show "starts_by v (int p) (raw_intervals f ins outs) \<and> lasts_to v (int p) (raw_intervals f ins outs)"
    if p: "p < length (all_insts f)" and v: "v \<in> writes (regs f) (all_insts f ! p)"
    unfolding raw_intervals_def
  proof (rule fold_establishes [where Q = "\<lambda>t. starts_by v (int p) t \<and> lasts_to v (int p) t" and x = p
        and n = "regs f" and h = "cover_inst f"])
    show "p \<in> set ?ps" using p by simp
    show "starts_by v (int p) (cover_inst f p t) \<and> lasts_to v (int p) (cover_inst f p t)" if "sized (regs f) t" for t
      by (rule cover_inst_reach(1) [OF that pm [OF p] v])
  qed (use sz wi keep(1,2) in blast)+
  show "touched v (raw_intervals f ins outs) \<and> lasts_to v (int p) (raw_intervals f ins outs)"
    if p: "p < length (all_insts f)" and v: "v \<in> reads (regs f) (all_insts f ! p)"
    unfolding raw_intervals_def
  proof (rule fold_establishes [where Q = "\<lambda>t. touched v t \<and> lasts_to v (int p) t" and x = p
        and n = "regs f" and h = "cover_inst f"])
    show "p \<in> set ?ps" using p by simp
    show "touched v (cover_inst f p t) \<and> lasts_to v (int p) (cover_inst f p t)" if "sized (regs f) t" for t
      by (rule cover_inst_reach(2) [OF that pm [OF p] v])
  qed (use sz wi keep(2,3) in blast)+
qed

lemma normalize_keeps:
  "li_phys (normalize cs iv) = li_phys iv" "li_spilled (normalize cs iv) = li_spilled iv"
  "li_class (normalize cs iv) = li_class iv"
  "li_start iv < INT_MAX \<Longrightarrow> li_start (normalize cs iv) = li_start iv"
  "li_start iv < INT_MAX \<Longrightarrow> li_end iv \<le> li_end (normalize cs iv)"
  by (simp_all add: normalize_def Let_def)

lemma length_build: "numbered f \<Longrightarrow> length (build_intervals f ins outs) = regs f"
  using widens_raw [of f ins outs] typed_start_nth(1) [of _ f]
  by (simp add: build_intervals_raw widens_def) (simp add: typed_start_def)

lemma build_unscanned:
  assumes "numbered f"
  shows "unscanned (build_intervals f ins outs)"
proof -
  have "li_phys (build_intervals f ins outs ! v) = X86_REG_NONE \<and> \<not> li_spilled (build_intervals f ins outs ! v)"
    if v: "v < regs f" for v
  proof -
    have l: "length (typed_start f) = regs f" by (rule typed_start_nth(1) [OF v])
    have "grows (typed_start f ! v) (raw_intervals f ins outs ! v)" "v < length (raw_intervals f ins outs)"
      using widens_raw [OF assms, of ins outs] v l by (simp_all add: widens_def)
    then show ?thesis using typed_start_nth [OF v] by (simp add: build_intervals_raw normalize_keeps grows_def)
  qed
  then show ?thesis using length_build [OF assms] by (simp add: unscanned_def)
qed

lemma build_from_raw:
  assumes s: "starts_by v p (raw_intervals f ins outs)" and p: "p < INT_MAX"
    and e: "lasts_to v q (raw_intervals f ins outs)"
  shows "li_start (build_intervals f ins outs ! v) \<le> p" and "q \<le> li_end (build_intervals f ins outs ! v)"
proof -
  have v: "v < length (raw_intervals f ins outs)" using s by (simp add: starts_by_def)
  have t: "li_start (raw_intervals f ins outs ! v) < INT_MAX" using s p by (simp add: starts_by_def)
  show "li_start (build_intervals f ins outs ! v) \<le> p"
    using s v normalize_keeps(4) [OF t] by (simp add: build_intervals_raw starts_by_def)
  show "q \<le> li_end (build_intervals f ins outs ! v)"
    using e v order_trans [OF _ normalize_keeps(5) [OF t]] by (simp add: build_intervals_raw lasts_to_def)
qed

definition spans :: "live_interval \<Rightarrow> nat \<Rightarrow> bool" where
  "spans iv p \<longleftrightarrow> li_start iv \<le> int p \<and> int p \<le> li_end iv"

lemma live_back: "live_before f r b k \<Longrightarrow> \<forall>j < k. r \<notin> writes (regs f) (insts_at f b ! j) \<Longrightarrow> live_before f r b 0"
proof (induction k)
  case (Suc k)
  have "b < blocks f" "Suc k < length (insts_at f b)" using live_before_range [OF Suc.prems(1)] by simp_all
  then have "live_before f r b k" using live_before.in_block [of b f k r] Suc.prems by simp
  then show ?case using Suc.IH Suc.prems(2) by simp
qed simp

lemma live_start:
  assumes n: "numbered f" and lv: "liveness_of f ins outs" and l: "live_before f r b k"
  shows "starts_by r (int (position f b k)) (raw_intervals f ins outs)"
proof -
  have range: "b < blocks f" "k < length (insts_at f b)" "r < regs f" using live_before_range [OF l] by simp_all
  show ?thesis
  proof (cases "\<exists>j < k. r \<in> writes (regs f) (insts_at f b ! j)")
    case True
    then obtain j where j: "j < k" "r \<in> writes (regs f) (insts_at f b ! j)" by blast
    have "j < length (insts_at f b)" using j(1) range(2) by simp
    then have "starts_by r (int (position f b j)) (raw_intervals f ins outs)"
      using raw_reach(3) [OF n, of "position f b j" r ins outs] position_nth [OF range(1)] j(2) by simp
    then show ?thesis using j(1) by (simp add: starts_by_def position_def)
  next
    case False
    then have "ins ! b ! r" using live_back [OF l] lv range by (simp add: liveness_of_def)
    from raw_reach(1) [OF n range(1,3) this, of outs] show ?thesis by (simp add: starts_by_def position_def)
  qed
qed

lemma live_end:
  assumes n: "numbered f" and lv: "liveness_of f ins outs" and l: "live_before f r b k"
  shows "lasts_to r (int (position f b k)) (raw_intervals f ins outs)"
proof -
  have range: "b < blocks f" "k < length (insts_at f b)" "r < regs f" using live_before_range [OF l] by simp_all
  have i: "ins ! c ! r \<Longrightarrow> outs ! a ! r" if a: "a < blocks f" and c: "c \<in> set (succ_indices f a)" for a c
    using lv a c succ_range [OF c] range(3) unfolding liveness_of_def by blast
  have q: "ins ! a ! r \<longleftrightarrow> exposed f a r \<or> (outs ! a ! r \<and> \<not> killed f a r)" if "a < blocks f" for a
    using lv that range(3) unfolding liveness_of_def by blast
  consider (reading) m where "k \<le> m" "m < length (insts_at f b)" "r \<in> reads (regs f) (insts_at f b ! m)"
    | (leaving) "outs ! b ! r"
    using live_before_cases [OF l, of ins outs] i q by blast
  then show ?thesis
  proof cases
    case m: (reading m)
    have "lasts_to r (int (position f b m)) (raw_intervals f ins outs)"
      using raw_reach(4) [OF n, of "position f b m" r ins outs] position_nth [OF range(1) m(2)] m(3) by simp
    then show ?thesis using m(1) by (simp add: lasts_to_def position_def)
  next
    case o: leaving
    have "block_end f b = position f b (length (insts_at f b) - 1)"
      using range(2) by (intro block_end_position) auto
    then show ?thesis using raw_reach(2) [OF n range(1,3) o, of ins] range(2) by (simp add: lasts_to_def position_def)
  qed
qed

text \<open>The interval of a register spans every instruction it is live before and every one that writes it.\<close>

lemma interval_spans_live:
  assumes n: "numbered f" and lv: "liveness_of f ins outs" and l: "live_before f r b k"
  shows "spans (build_intervals f ins outs ! r) (position f b k)"
proof -
  have "position f b k < length (all_insts f)" using position_nth(1) live_before_range [OF l] by blast
  then have p: "int (position f b k) < INT_MAX" using n by (simp add: numbered_def)
  show ?thesis using build_from_raw [OF live_start [OF assms] p live_end [OF assms]] by (simp add: spans_def)
qed

lemma interval_spans_write:
  assumes n: "numbered f" and b: "b < blocks f" "k < length (insts_at f b)" and w: "r \<in> writes (regs f) (insts_at f b ! k)"
  shows "spans (build_intervals f ins outs ! r) (position f b k)"
proof -
  note at = position_nth [OF b]
  have p: "int (position f b k) < INT_MAX" using at(1) n by (simp add: numbered_def)
  have "starts_by r (int (position f b k)) (raw_intervals f ins outs) \<and> lasts_to r (int (position f b k)) (raw_intervals f ins outs)"
    using raw_reach(3) [OF n at(1)] w at(2) by simp
  then have sl: "starts_by r (int (position f b k)) (raw_intervals f ins outs)"
    "lasts_to r (int (position f b k)) (raw_intervals f ins outs)" by simp_all
  from build_from_raw [OF sl(1) p sl(2)] show ?thesis by (simp add: spans_def)
qed

section \<open>The allocation\<close>

lemma run_result:
  assumes "nonempty_blocks f" and "0 < regs f"
  shows "\<exists>ins outs. liveness_of f ins outs \<and>
    regalloc_run f = Some (result_of_scan f (linear_scan (build_intervals f ins outs)))"
proof -
  obtain ins outs where "liveness_fixpoint f = Some (ins, outs)" "liveness_of f ins outs"
    using liveness_result [OF assms(1)] by blast
  then show ?thesis using assms(2) by (auto simp: regalloc_run_def)
qed

lemma result_regs:
  assumes "r < regs f"
  shows "regalloc_get_phys_reg (result_of_scan f st) r = li_phys (sc_ivs st ! r)"
    and "regalloc_is_spilled (result_of_scan f st) r = li_spilled (sc_ivs st ! r)"
    and "ra_intervals (result_of_scan f st) ! r = sc_ivs st ! r"
  using assms by (simp_all add: regalloc_get_phys_reg_def regalloc_is_spilled_def result_of_scan_def Let_def)

end
