(* ===== verification/Regalloc_Demo.thy ===== *)
theory Regalloc_Demo
  imports Regalloc_Correct
begin

text \<open>
  One run of the allocator, evaluated stage by stage for the witnesses. The function has its
  definition of register 1 in a block behind the block that uses it, as after the creation of a
  loop preheader at the end of the block list.
\<close>

definition demo :: ir_function where
  "demo = \<lparr>fn_name = ''demo'', fn_return_type = Ty_I64, fn_params = [], fn_entry = Some 0,
     fn_heap =
      [\<lparr>bb_name = ''entry'', bb_id = 0, bb_insts =
         [(create_instruction IR_OP_CONST Ty_I64)
            \<lparr>i_lhs := Some (ir_val_const_int None 5), i_result := Some (ir_val_reg Ty_I64 0)\<rparr>,
          (create_instruction IR_OP_PRINT Ty_Void)\<lparr>i_lhs := Some (ir_val_const_int None 1)\<rparr>,
          (create_instruction IR_OP_BR Ty_Void)\<lparr>i_true := Some 2\<rparr>], bb_preds = [], bb_succs = [2]\<rparr>,
       \<lparr>bb_name = ''body'', bb_id = 1, bb_insts =
         [(create_instruction IR_OP_PRINT Ty_Void)\<lparr>i_lhs := Some (ir_val_const_int None 2)\<rparr>,
          (create_instruction IR_OP_ADD Ty_I64)
            \<lparr>i_lhs := Some (ir_val_reg Ty_I64 0), i_rhs := Some (ir_val_reg Ty_I64 1),
              i_result := Some (ir_val_reg Ty_I64 2)\<rparr>,
          (create_instruction IR_OP_RET Ty_I64)\<lparr>i_lhs := Some (ir_val_reg Ty_I64 2)\<rparr>],
        bb_preds = [2], bb_succs = []\<rparr>,
       \<lparr>bb_name = ''preheader'', bb_id = 2, bb_insts =
         [(create_instruction IR_OP_CONST Ty_I64)
            \<lparr>i_lhs := Some (ir_val_const_int None 6), i_result := Some (ir_val_reg Ty_I64 1)\<rparr>,
          (create_instruction IR_OP_BR Ty_Void)\<lparr>i_true := Some 1\<rparr>], bb_preds = [0], bb_succs = [1]\<rparr>],
     fn_order = [0, 1, 2], fn_block_count = 3, fn_next_reg = 3, fn_next_block = 3\<rparr>"

lemmas demo_simps = demo_def create_instruction_def ir_val_reg_def ir_val_const_int_def block_at_def
  fn_blocks_def

lemma demo_consts: "length (fn_order demo) = Suc (Suc (Suc 0))" "fn_next_reg demo = Suc (Suc (Suc 0))"
  by (simp_all add: demo_def)

lemma upt3: "[0..<Suc (Suc (Suc 0))] = [0, Suc 0, Suc (Suc 0)]"
  by (simp add: upt_rec)

lemma upt8: "[0..<8] = [0, 1, 2, 3, 4, 5, 6, 7 :: nat]"
  by (simp add: upt_rec)

section \<open>Liveness\<close>

lemma demo_use_defs:
  "use_defs demo = [([False, False, False], [True, False, False]),
     ([True, True, False], [False, False, True]), ([False, False, False], [False, True, False])]"
  by (simp add: use_defs_def demo_simps block_use_def_def mark_inst_def mark_use_def mark_def_def
      operands_def reg_of_def numeral_3_eq_3 numeral_2_eq_2)

lemma demo_succs: "succ_indices demo 0 = [Suc (Suc 0)]" "succ_indices demo (Suc 0) = []"
  "succ_indices demo (Suc (Suc 0)) = [Suc 0]"
  by (simp_all add: demo_simps succ_indices_def get_block_index_def List.map_filter_def upt_rec)

definition demo_ins :: "bool list list" where
  "demo_ins = [[False, False, False], [True, True, False], [True, False, False]]"

definition demo_outs :: "bool list list" where
  "demo_outs = [[True, False, False], [False, False, False], [True, True, False]]"

lemma demo_liveness: "liveness_fixpoint demo = Some (demo_ins, demo_outs)"
proof -
  let ?none = "replicate (blocks demo) (replicate (regs demo) False)"
  let ?out1 = "[[False, False, False], [False, False, False], [False, False, False]]"
  let ?in1 = "[[False, False, False], [True, True, False], [False, False, False]]"
  let ?pass = "live_pass demo (use_defs demo)"
  note ev = live_pass_def live_block_def demo_consts demo_succs merge_out_def update_in_def
    demo_use_defs upt3 Let_def demo_ins_def demo_outs_def
  have p: "?pass ((?none, ?none), True) = ((?in1, ?out1), True)"
    "?pass ((?in1, ?out1), True) = ((demo_ins, demo_outs), True)"
    "?pass ((demo_ins, demo_outs), True) = ((demo_ins, demo_outs), False)"
    by (simp_all add: ev)
  note w = while_option_unfold [of snd ?pass]
  show ?thesis unfolding liveness_fixpoint_def Let_def
    by (subst w, simp only: p, subst w, simp only: p, subst w, simp only: p, subst w) simp
qed

section \<open>Intervals\<close>

abbreviation demo_interval :: "nat \<Rightarrow> int \<Rightarrow> int \<Rightarrow> live_interval" where
  "demo_interval v s e \<equiv> \<lparr>li_val_id = v, li_type = Some Ty_I64, li_class = REG_CLASS_INT, li_start = s,
     li_end = e, li_crosses = False, li_call_count = 0, li_calls = [], li_phys = X86_REG_NONE,
     li_spilled = False, li_offset = 0\<rparr>"

lemma demo_insts: "all_insts demo = concat (map bb_insts (fn_heap demo))"
  by (simp add: all_insts_def demo_simps)

lemma demo_length: "length (all_insts demo) = 8"
  unfolding demo_insts by (simp add: demo_def)

lemma demo_typed:
  "typed_start demo = [demo_interval 0 INT_MAX (-1), demo_interval (Suc 0) INT_MAX (-1),
     demo_interval (Suc (Suc 0)) INT_MAX (-1)]"
  unfolding typed_start_def demo_consts upt3 demo_insts
  by (simp add: demo_simps fresh_interval_def set_type_def reg_of_def interval_class_def numeral_2_eq_2)

lemma demo_bounds: "block_start demo 0 = 0" "block_start demo (Suc 0) = 3" "block_start demo (Suc (Suc 0)) = 6"
  "block_end demo 0 = 2" "block_end demo (Suc 0) = 5" "block_end demo (Suc (Suc 0)) = 7"
  by (simp_all add: block_start_def block_end_def demo_simps)

lemma demo_cover:
  "cover_blocks demo demo_ins demo_outs (typed_start demo) =
     [demo_interval 0 3 7, demo_interval (Suc 0) 3 7, demo_interval (Suc (Suc 0)) INT_MAX (-1)]"
  by (simp add: demo_typed demo_ins_def demo_outs_def cover_blocks_def demo_consts upt3 cover_block_reg_def
      upd_def lower_start_def raise_end_def demo_bounds INT_MAX_def Let_def)

definition use_at :: "int \<Rightarrow> live_interval \<Rightarrow> live_interval" where
  "use_at p = (\<lambda>iv. let iv = raise_end p iv in if li_start iv = INT_MAX then iv\<lparr>li_start := p\<rparr> else iv)"

definition def_at :: "int \<Rightarrow> live_interval \<Rightarrow> live_interval" where
  "def_at p = raise_end p \<circ> lower_start p"

lemma cover_at:
  "cover_use n p v ivs = (case reg_of n v of Some r \<Rightarrow> upd r (use_at p) ivs | None \<Rightarrow> ivs)"
  "cover_def n p v ivs = (case reg_of n v of Some r \<Rightarrow> upd r (def_at p) ivs | None \<Rightarrow> ivs)"
  unfolding cover_use_def cover_def_def use_at_def def_at_def by (rule refl)+

lemma demo_at:
  "cover_inst demo 0 ivs = upd 0 (def_at 0) ivs"
  "cover_inst demo 1 ivs = ivs" "cover_inst demo 2 ivs = ivs" "cover_inst demo 3 ivs = ivs"
  "cover_inst demo 4 ivs = upd (Suc 0) (use_at 4) (upd 0 (use_at 4) (upd (Suc (Suc 0)) (def_at 4) ivs))"
  "cover_inst demo 5 ivs = upd (Suc (Suc 0)) (use_at 5) ivs"
  "cover_inst demo 6 ivs = upd (Suc 0) (def_at 6) ivs"
  "cover_inst demo 7 ivs = ivs"
  by (simp_all add: cover_inst_def operands_def cover_at demo_insts reg_of_def)
    (simp_all add: demo_simps numeral_2_eq_2)

lemma demo_raw:
  "raw_intervals demo demo_ins demo_outs =
     [demo_interval 0 0 7, demo_interval (Suc 0) 3 7, demo_interval (Suc (Suc 0)) 4 5]"
  unfolding raw_intervals_def demo_cover demo_length upt8
  by (simp only: list.map fold_simps demo_at)
    (simp add: upd_def use_at_def def_at_def lower_start_def raise_end_def INT_MAX_def Let_def)

lemma demo_calls: "call_positions demo = [1, 3]"
  unfolding call_positions_def demo_length upt8
  by (simp add: demo_insts) (simp add: demo_simps is_call_op_def)

definition demo_built :: "live_interval list" where
  "demo_built = [(demo_interval 0 0 7)\<lparr>li_crosses := True, li_call_count := 2, li_calls := [1, 3]\<rparr>,
     demo_interval (Suc 0) 3 7, demo_interval (Suc (Suc 0)) 4 5]"

lemma demo_build: "build_intervals demo demo_ins demo_outs = demo_built"
  unfolding build_intervals_raw demo_raw demo_calls
  by (simp add: normalize_def INT_MAX_def demo_built_def)

section \<open>The scan\<close>

lemma demo_scan:
  "map li_phys (sc_ivs (linear_scan demo_built)) = [X86_REG_RBX, X86_REG_R10, X86_REG_R11]"
  by (simp add: demo_built_def linear_scan_def scan_start_def sorted_intervals_def scan_step_def expire_def
      assign_reg_def reg_pool_def pool_defs insert_active_def upd_def Let_def numeral_2_eq_2)

end
