(* ===== verification/Regalloc_Properties.thy ===== *)
theory Regalloc_Properties
  imports Regalloc_Demo
begin

text \<open>
  The promises of the register allocator, over the functions it exports, each with a run on the
  function of Regalloc_Demo.
\<close>

section \<open>From the intervals to the result\<close>

text \<open>What a result says of a register is what the scan decided on the built intervals.\<close>

lemma run_cases:
  assumes ne: "nonempty_blocks f" and n: "numbered f" and r: "r < regs f" and run: "regalloc_run f = Some res"
  obtains ins outs where "liveness_of f ins outs" "unscanned (build_intervals f ins outs)"
    "length (build_intervals f ins outs) = regs f"
    "res = result_of_scan f (linear_scan (build_intervals f ins outs))"
  using run_result [OF ne, of] r run build_unscanned [OF n] length_build [OF n] by fastforce

lemma demo_ok: "nonempty_blocks demo" "numbered demo"
proof -
  have "insts_at demo b \<noteq> []" if "b < 3" for b
    using that by (auto simp: demo_simps less_Suc_eq numeral_3_eq_3)
  then show "nonempty_blocks demo" by (simp add: nonempty_blocks_def demo_consts numeral_3_eq_3)
  show "numbered demo" by (simp add: numbered_def demo_length INT_MAX_def)
qed

definition demo_result :: regalloc_result where
  "demo_result = result_of_scan demo (linear_scan demo_built)"

lemma demo_run: "regalloc_run demo = Some demo_result"
  by (simp add: regalloc_run_def demo_consts demo_liveness demo_build demo_result_def)

lemma demo_phys:
  "regalloc_get_phys_reg demo_result 0 = X86_REG_RBX" "regalloc_get_phys_reg demo_result (Suc 0) = X86_REG_R10"
proof -
  have "length (sc_ivs (linear_scan demo_built)) = 3" using arg_cong [OF demo_scan, of length] by simp
  then have "li_phys (sc_ivs (linear_scan demo_built) ! i) = [X86_REG_RBX, X86_REG_R10, X86_REG_R11] ! i" if "i < 3" for i
    using demo_scan that by (metis nth_map)
  from this [of 0] this [of 1]
  show "regalloc_get_phys_reg demo_result 0 = X86_REG_RBX" "regalloc_get_phys_reg demo_result (Suc 0) = X86_REG_R10"
    by (simp_all add: demo_result_def result_regs demo_consts)
qed

lemma demo_not_spilled: "\<not> regalloc_is_spilled demo_result 0"
proof -
  have u: "unscanned demo_built" using build_unscanned [OF demo_ok(2), of demo_ins demo_outs] by (simp add: demo_build)
  have l: "0 < length demo_built" by (simp add: demo_built_def)
  show ?thesis using linear_scan_result(3) [OF u l] demo_phys(1) by (simp add: demo_result_def result_regs demo_consts)
qed

lemma demo_blocks: "insts_at demo 0 = bb_insts (fn_heap demo ! 0)" "insts_at demo (Suc 0) = bb_insts (fn_heap demo ! 1)"
  "insts_at demo (Suc (Suc 0)) = bb_insts (fn_heap demo ! 2)"
  by (simp_all add: demo_simps)

lemma demo_live:
  "live_before demo 0 (Suc 0) (Suc 0)" "live_before demo (Suc 0) (Suc 0) (Suc 0)"
  "live_before demo 0 (Suc 0) 0" "live_before demo (Suc 0) (Suc 0) 0"
  "live_before demo 0 0 (Suc (Suc 0))" "live_before demo 0 0 (Suc 0)"
proof -
  note ev = demo_blocks demo_consts reads_def writes_def operands_def reg_of_def
  have s: "Suc 0 \<in> set (succ_indices demo (Suc (Suc 0)))" "Suc (Suc 0) \<in> set (succ_indices demo 0)"
    by (simp_all add: demo_succs)
  show a: "live_before demo 0 (Suc 0) (Suc 0)"
    by (rule live_before.read) (simp_all add: ev, simp_all add: demo_simps)
  show a': "live_before demo (Suc 0) (Suc 0) (Suc 0)"
    by (rule live_before.read) (simp_all add: ev, simp_all add: demo_simps)
  show b: "live_before demo 0 (Suc 0) 0"
    by (rule live_before.in_block) (simp_all add: a, simp_all add: ev, simp_all add: demo_simps)
  show "live_before demo (Suc 0) (Suc 0) 0"
    by (rule live_before.in_block) (simp_all add: a', simp_all add: ev, simp_all add: demo_simps)
  have c: "live_before demo 0 (Suc (Suc 0)) (Suc 0)"
    by (rule live_before.jump [OF _ _ _ s(1) b]) (simp_all add: ev, simp_all add: demo_simps)
  have d: "live_before demo 0 (Suc (Suc 0)) 0"
    by (rule live_before.in_block) (simp_all add: c, simp_all add: ev, simp_all add: demo_simps)
  show e: "live_before demo 0 0 (Suc (Suc 0))"
    by (rule live_before.jump [OF _ _ _ s(2) d]) (simp_all add: ev, simp_all add: demo_simps)
  show "live_before demo 0 0 (Suc 0)"
    by (rule live_before.in_block) (simp_all add: e, simp_all add: ev, simp_all add: demo_simps)
qed

section \<open>Properties\<close>

lemma no_sharing:
  assumes "nonempty_blocks f" and "numbered f" and "regalloc_run f = Some res"
    and "live_before f r b k" and "live_before f s b k \<or> (s \<in> writes (regs f) (insts_at f b ! k))" and "r \<noteq> s"
  shows "regalloc_get_phys_reg res r \<noteq> regalloc_get_phys_reg res s \<or>
    (regalloc_is_spilled res r \<and> regalloc_is_spilled res s)"
proof -
  have range: "b < blocks f" "k < length (insts_at f b)" "r < regs f" using live_before_range [OF assms(4)] by simp_all
  have s: "s < regs f" using assms(5) live_before_range writes_range by blast
  obtain ins outs where I: "liveness_of f ins outs" "unscanned (build_intervals f ins outs)"
      "length (build_intervals f ins outs) = regs f"
      "res = result_of_scan f (linear_scan (build_intervals f ins outs))"
    by (rule run_cases [OF assms(1,2) range(3) assms(3)])
  let ?ivs = "build_intervals f ins outs"
  have sp: "spans (?ivs ! r) (position f b k)" "spans (?ivs ! s) (position f b k)"
    using interval_spans_live [OF assms(2) I(1)] interval_spans_write [OF assms(2) range(1,2)] assms(4,5) by blast+
  have rl: "r < length ?ivs" and sl: "s < length ?ivs" using range(3) s I(3) by simp_all
  note scan = linear_scan_result(2) [OF I(2) rl sl assms(6)] linear_scan_result(3) [OF I(2) rl]
    linear_scan_result(3) [OF I(2) sl]
  show ?thesis using scan sp range(3) s by (auto simp: I(4) result_regs spans_def)
qed

text \<open>Two registers that are live before the same instruction, or one that is live before an
  instruction that writes the other, are never given the same machine register.\<close>

theorem live_registers_never_share:
  assumes "nonempty_blocks f" and "numbered f" and "regalloc_run f = Some res"
    and "live_before f r b k" and "live_before f s b k \<or> (s \<in> writes (regs f) (insts_at f b ! k))" and "r \<noteq> s"
  shows "regalloc_get_phys_reg res r \<noteq> regalloc_get_phys_reg res s \<or>
    (regalloc_is_spilled res r \<and> regalloc_is_spilled res s)"
  by (rule no_sharing [OF assms])

theorem live_registers_never_share_witness:
  "regalloc_get_phys_reg demo_result 0 \<noteq> regalloc_get_phys_reg demo_result 1"
  using live_registers_never_share [OF demo_ok demo_run demo_live(3) disjI1 [OF demo_live(4)]] demo_not_spilled
  by simp

text \<open>C12. The allocation ends on every function without empty blocks. Every register is either
  spilled or has a machine register of its pool, and the callee-saved list is what it uses.\<close>

theorem every_register_gets_a_place:
  assumes "nonempty_blocks f" and "numbered f"
  shows "\<exists>res. regalloc_run f = Some res \<and> distinct (ra_callee_saved res) \<and>
    list_all (\<lambda>r. let p = regalloc_get_phys_reg res r
      in if regalloc_is_spilled res r then p = X86_REG_NONE
         else p \<in> pool_regs (li_class (ra_intervals res ! r)) \<and>
              (p \<in> set CALLEE_SAVED_INT_POOL \<longrightarrow> p \<in> set (ra_callee_saved res))) [0..<regs f]"
proof (cases "regs f = 0")
  case True
  then show ?thesis by (simp add: regalloc_run_def)
next
  case False
  then obtain res where run: "regalloc_run f = Some res" using run_result [OF assms(1)] by blast
  obtain ins outs where I: "unscanned (build_intervals f ins outs)" "length (build_intervals f ins outs) = regs f"
      "res = result_of_scan f (linear_scan (build_intervals f ins outs))"
    using run_cases [OF assms, of 0] False run by blast
  let ?ivs = "build_intervals f ins outs" and ?st = "linear_scan (build_intervals f ins outs)"
  have cs: "ra_callee_saved res = filter (sc_used ?st) CALLEE_SAVED_INT_POOL"
    by (simp add: I(3) result_of_scan_def Let_def)
  have each: "if regalloc_is_spilled res r then regalloc_get_phys_reg res r = X86_REG_NONE
      else regalloc_get_phys_reg res r \<in> pool_regs (li_class (ra_intervals res ! r)) \<and>
        (regalloc_get_phys_reg res r \<in> set CALLEE_SAVED_INT_POOL \<longrightarrow> regalloc_get_phys_reg res r \<in> set (ra_callee_saved res))"
    if r: "r < regs f" for r
  proof -
    have rl: "r < length ?ivs" using r I(2) by simp
    have same: "li_class (sc_ivs ?st ! r) = li_class (?ivs ! r)"
      using unallocated_eq(3) [OF same_static(2) [OF linear_scan_result(1) [OF I(1)] rl]] .
    show ?thesis
      using linear_scan_result(3,4) [OF I(1) rl] r same by (simp add: cs) (simp add: I(3) result_regs)
  qed
  have "distinct CALLEE_SAVED_INT_POOL" by (simp add: pool_defs)
  then have "distinct (ra_callee_saved res)" by (simp add: cs)
  moreover have "list_all (\<lambda>r. let p = regalloc_get_phys_reg res r
      in if regalloc_is_spilled res r then p = X86_REG_NONE
         else p \<in> pool_regs (li_class (ra_intervals res ! r)) \<and>
              (p \<in> set CALLEE_SAVED_INT_POOL \<longrightarrow> p \<in> set (ra_callee_saved res))) [0..<regs f]"
    unfolding list_all_iff Let_def set_upt using each by (simp add: atLeast0LessThan)
  ultimately show ?thesis using run by blast
qed

theorem every_register_gets_a_place_witness:
  "\<exists>res. regalloc_run demo = Some res \<and> distinct (ra_callee_saved res)"
  using every_register_gets_a_place [OF demo_ok] by blast

text \<open>C13. The block liveness of the allocator is liveness along paths: a register is in the set of a
  block exactly when some path from there reads it before a write.\<close>

theorem liveness_is_path_liveness:
  assumes "nonempty_blocks f" and "b < blocks f" and "r < regs f"
  shows "\<exists>ins outs. liveness_fixpoint f = Some (ins, outs) \<and>
    (ins ! b ! r \<longleftrightarrow> live_before f r b 0) \<and>
    (outs ! b ! r \<longleftrightarrow> (\<exists>c. c \<in> set (succ_indices f b) \<and> live_before f r c 0))"
  using liveness_result [OF assms(1)] assms(2,3) unfolding liveness_of_def by blast

theorem liveness_is_path_liveness_witness:
  "\<exists>ins outs. liveness_fixpoint demo = Some (ins, outs) \<and> (ins ! 1 ! 0 \<longleftrightarrow> live_before demo 0 1 0)"
  using liveness_is_path_liveness [OF demo_ok(1), of 1 0] by (auto simp: demo_consts)

definition defined_by :: "ir_function \<Rightarrow> nat \<Rightarrow> ir_inst \<Rightarrow> ir_value \<Rightarrow> bool" where
  "defined_by f r i w \<longleftrightarrow> i \<in> set (all_insts f) \<and> i_result i = Some w \<and> reg_of (regs f) (Some w) = Some r"

lemma class_set_type:
  assumes "r < length ivs" and "\<forall>i \<in> set is. \<forall>w. i_result i = Some w \<longrightarrow> reg_of n (Some w) = Some r \<longrightarrow> interval_class (v_type w) = c"
    and "li_class (ivs ! r) = c \<or> (\<exists>i \<in> set is. \<exists>w. i_result i = Some w \<and> reg_of n (Some w) = Some r)"
  shows "li_class (fold (set_type n) is ivs ! r) = c"
  using assms
proof (induction "is" arbitrary: ivs)
  case (Cons i "is")
  have "li_class (set_type n i ivs ! r) = (case i_result i of
      Some w \<Rightarrow> if reg_of n (Some w) = Some r then interval_class (v_type w) else li_class (ivs ! r)
    | None \<Rightarrow> li_class (ivs ! r))"
    using Cons.prems(1) by (auto simp: set_type_def nth_list_update split: option.split)
  moreover have "length (set_type n i ivs) = length ivs" by (simp add: set_type_def split: option.split)
  ultimately show ?case using Cons.IH [of "set_type n i ivs"] Cons.prems by (fastforce split: option.splits if_splits)
qed simp

text \<open>The machine register of a value is of the class of its type: a floating-point register
  for a value of type f64, an integer register for every other one.\<close>

theorem register_class_matches_type:
  assumes "nonempty_blocks f" and "numbered f" and "regalloc_run f = Some res"
    and "defined_by f r i w" and "\<And>j u. defined_by f r j u \<Longrightarrow> interval_class (v_type u) = interval_class (v_type w)"
  shows "regalloc_is_spilled res r \<or> x86_reg_class (regalloc_get_phys_reg res r) = interval_class (v_type w)"
proof -
  have r: "r < regs f" using assms(4) reg_of_range by (auto simp: defined_by_def)
  obtain ins outs where I: "unscanned (build_intervals f ins outs)" "length (build_intervals f ins outs) = regs f"
      "res = result_of_scan f (linear_scan (build_intervals f ins outs))"
    using run_cases [OF assms(1,2) r assms(3)] by blast
  have rl: "r < length (build_intervals f ins outs)" using r I(2) by simp
  have "li_class (typed_start f ! r) = interval_class (v_type w)"
    unfolding typed_start_def by (rule class_set_type) (use r assms(4,5) in \<open>auto simp: defined_by_def\<close>)
  moreover have "grows (typed_start f ! r) (raw_intervals f ins outs ! r)" "r < length (raw_intervals f ins outs)"
    using widens_raw [OF assms(2), of ins outs] r typed_start_nth(1) [OF r] by (simp_all add: widens_def)
  ultimately have "li_class (build_intervals f ins outs ! r) = interval_class (v_type w)"
    by (simp add: build_intervals_raw normalize_keeps grows_def)
  then show ?thesis
    using linear_scan_result(3,4) [OF I(1) rl] pool_regs_class r by (auto simp: I(3) result_regs)
qed

text \<open>The array of active intervals has room for 64 entries and never holds more than 21, one
  for each machine register of the pools.\<close>

theorem active_array_bound:
  assumes "numbered f"
  shows "length (sc_active (fold scan_step (take m (sorted_intervals (build_intervals f ins outs)))
    (scan_start (build_intervals f ins outs)))) \<le> 21"
  using scan_prefix_inv [OF build_unscanned [OF assms, of ins outs], of m] active_bound by blast

theorem active_array_bound_witness:
  "length (sc_active (fold scan_step (take 2 (sorted_intervals demo_built)) (scan_start demo_built))) \<le> 21"
  using active_array_bound [OF demo_ok(2), of 2 demo_ins demo_outs] by (simp add: demo_build)

lemma normalize_crosses:
  "\<lbrakk> li_start iv < INT_MAX; li_end iv \<ge> li_start iv; c \<in> set cs; li_start iv < c; c < li_end iv \<rbrakk> \<Longrightarrow> li_crosses (normalize cs iv)"
  by (auto simp: normalize_def Let_def filter_empty_conv)

lemma call_position:
  assumes "b < blocks f" and "k < length (insts_at f b)" and "is_call_op (i_op (insts_at f b ! k))"
  shows "int (position f b k) \<in> set (call_positions f)"
  using position_nth [OF assms(1,2)] assms(3) by (auto simp: call_positions_def)

lemma pool_saved: "p \<in> pool_regs c \<Longrightarrow> x86_reg_is_callee_saved p \<or> x86_reg_is_caller_saved p"
  by (cases c) (auto simp: pool_regs_def pool_defs x86_reg_is_caller_saved_def x86_reg_is_callee_saved_def reg_order_defs)

text \<open>C8. A value that is live across a call, and whose interval starts before the call, is kept in
  a callee-saved register or has a stack slot.\<close>

theorem values_survive_calls:
  assumes "nonempty_blocks f" and "numbered f" and "regalloc_run f = Some res"
    and "is_call_op (i_op (insts_at f b ! k))" and "live_before f r b k" and "live_before f r b (k + 1)"
    and "li_start (ra_intervals res ! r) < int (position f b k)"
  shows "x86_reg_is_callee_saved (regalloc_get_phys_reg res r) \<or> needs_slot (ra_intervals res ! r)"
proof -
  have range: "b < blocks f" "k < length (insts_at f b)" "r < regs f" using live_before_range [OF assms(5)] by simp_all
  obtain ins outs where I: "liveness_of f ins outs" "unscanned (build_intervals f ins outs)"
      "length (build_intervals f ins outs) = regs f"
      "res = result_of_scan f (linear_scan (build_intervals f ins outs))"
    by (rule run_cases [OF assms(1,2) range(3) assms(3)])
  let ?raw = "raw_intervals f ins outs" and ?ivs = "build_intervals f ins outs"
  let ?out = "sc_ivs (linear_scan ?ivs) ! r"
  have rl: "r < length ?ivs" using range(3) I(3) by simp
  then have rr: "r < length ?raw" by (simp add: build_intervals_raw)
  have st: "li_start (?raw ! r) \<le> int (position f b k)" and en: "int (position f b k) < li_end (?raw ! r)"
    using live_start [OF assms(2) I(1) assms(5)] live_end [OF assms(2) I(1) assms(6)]
    by (simp_all add: starts_by_def lasts_to_def position_def)
  have t: "li_start (?raw ! r) < INT_MAX"
    using st position_nth(1) [OF range(1,2)] assms(2) by (simp add: numbered_def)
  note same = unallocated_eq [OF same_static(2) [OF linear_scan_result(1) [OF I(2)] rl]]
  have lt: "li_start (?raw ! r) < int (position f b k)"
    using assms(7) same(1) range(3) rr normalize_keeps(4) [OF t] by (simp add: I(4) result_regs build_intervals_raw)
  have "li_crosses (?ivs ! r)"
    using normalize_crosses [OF t _ call_position [OF range(1,2) assms(4)] lt en] st en rr
    by (simp add: build_intervals_raw)
  then have c: "li_crosses ?out" using same(4) by simp
  show ?thesis
    using linear_scan_result(3,4) [OF I(2) rl] pool_saved c range(3) by (auto simp: I(4) result_regs needs_slot_def)
qed

lemma demo_starts: "map li_start (sc_ivs (linear_scan demo_built)) = [0, 3, 4]"
proof -
  have "unscanned demo_built" using build_unscanned [OF demo_ok(2), of demo_ins demo_outs] by (simp add: demo_build)
  note m = linear_scan_result(1) [OF this]
  have "map (\<lambda>iv. li_start (unallocated iv)) (sc_ivs (linear_scan demo_built)) = map (\<lambda>iv. li_start (unallocated iv)) demo_built"
    using arg_cong [OF m, of "map li_start"] by (simp add: o_def)
  then show ?thesis by (simp add: unallocated_def demo_built_def)
qed

theorem values_survive_calls_witness:
  "x86_reg_is_callee_saved (regalloc_get_phys_reg demo_result 0) \<or> needs_slot (ra_intervals demo_result ! 0)"
proof (rule values_survive_calls [OF demo_ok demo_run _ demo_live(6)])
  show "is_call_op (i_op (insts_at demo 0 ! Suc 0))" by (simp add: demo_blocks) (simp add: demo_simps is_call_op_def)
  show "live_before demo 0 0 (Suc 0 + 1)" using demo_live(5) by simp
  have "li_start (sc_ivs (linear_scan demo_built) ! 0) = 0" using demo_starts by (cases "sc_ivs (linear_scan demo_built)") auto
  then show "li_start (ra_intervals demo_result ! 0) < int (position demo 0 (Suc 0))"
    by (simp add: demo_result_def result_regs demo_consts position_def demo_bounds)
qed

text \<open>C35. A value whose interval starts at a call, because a later block defines it, is lost: the
  call counts as crossed only strictly inside the interval, so the value stays in a register the
  call overwrites, without a stack slot.\<close>

theorem value_lost_across_call:
  "is_call_op (i_op (insts_at demo 1 ! 0)) \<and> live_before demo 1 1 0 \<and> live_before demo 1 1 1 \<and>
   (\<exists>res. regalloc_run demo = Some res \<and> \<not> regalloc_is_spilled res 1 \<and>
      x86_reg_is_caller_saved (regalloc_get_phys_reg res 1) \<and> \<not> needs_slot (ra_intervals res ! 1))"
proof -
  have u: "unscanned demo_built" using build_unscanned [OF demo_ok(2), of demo_ins demo_outs] by (simp add: demo_build)
  have l: "Suc 0 < length demo_built" by (simp add: demo_built_def)
  note same = unallocated_eq(4) [OF same_static(2) [OF linear_scan_result(1) [OF u] l]]
  have p: "li_phys (sc_ivs (linear_scan demo_built) ! Suc 0) = X86_REG_R10"
    using demo_phys(2) by (simp add: demo_result_def result_regs demo_consts)
  have s: "\<not> li_spilled (sc_ivs (linear_scan demo_built) ! Suc 0)" using linear_scan_result(3) [OF u l] p by simp
  have c: "\<not> li_crosses (sc_ivs (linear_scan demo_built) ! Suc 0)" using same by (simp add: demo_built_def)
  have "is_call_op (i_op (insts_at demo (Suc 0) ! 0))" by (simp add: demo_blocks) (simp add: demo_simps is_call_op_def)
  moreover have "\<not> regalloc_is_spilled demo_result (Suc 0)" "\<not> needs_slot (ra_intervals demo_result ! Suc 0)"
    using s c by (simp_all add: demo_result_def result_regs demo_consts needs_slot_def)
  moreover have "x86_reg_is_caller_saved (regalloc_get_phys_reg demo_result (Suc 0))"
    by (simp add: demo_phys x86_reg_is_caller_saved_def x86_reg_is_callee_saved_def reg_order_defs)
  ultimately show ?thesis using demo_live demo_run by simp
qed

lemma demo_const_inst: "defined_by demo 0 (bb_insts (fn_heap demo ! 0) ! 0) (ir_val_reg Ty_I64 0)"
  unfolding defined_by_def demo_insts demo_consts by (simp add: demo_simps reg_of_def)

lemma demo_types: "defined_by demo r j u \<Longrightarrow> interval_class (v_type u) = REG_CLASS_INT"
  unfolding defined_by_def demo_insts by (auto simp: demo_simps interval_class_def)

theorem register_class_matches_type_witness:
  "regalloc_is_spilled demo_result 0 \<or> x86_reg_class (regalloc_get_phys_reg demo_result 0) = REG_CLASS_INT"
  using register_class_matches_type [OF demo_ok demo_run demo_const_inst] demo_types demo_const_inst by auto

end
