(* ===== verification/X86_Frame_Correct.thy ===== *)
theory X86_Frame_Correct
  imports X86_Frame Regalloc_Properties
begin

text \<open>
  The frame layout: slots never overlap each other or the saved registers, calls find the stack
  aligned, parameters are where the calling convention puts them, and together with the
  register allocator, values that live at the same time have different homes.
\<close>

section \<open>Slots\<close>

text \<open>
  \<open>placed k n (fr, c)\<close>: below the \<open>k\<close> saved registers down to \<open>c\<close>, and \<open>n\<close> stack parameters above
  the return address.
\<close>

definition slot_ok :: "int \<Rightarrow> nat \<Rightarrow> int \<Rightarrow> stack_slot \<Rightarrow> bool" where
  "slot_ok k n c s \<longleftrightarrow> 8 dvd sl_offset s \<and> sl_size s = 8 \<and>
     (if 0 < sl_offset s then sl_kind s = SLOT_PARAM \<and> 16 \<le> sl_offset s \<and> sl_offset s < 16 + 8 * int n
      else - c \<le> sl_offset s \<and> sl_offset s \<le> - (8 * k) - 8)"

definition placed :: "int \<Rightarrow> nat \<Rightarrow> frame \<times> int \<Rightarrow> bool" where
  "placed k n = (\<lambda>(fr, c). 0 \<le> k \<and> 8 dvd c \<and> 8 * k \<le> c \<and> distinct (map sl_offset (fr_slots fr)) \<and>
     list_all (slot_ok k n c) (fr_slots fr) \<and> fr_count fr = length (fr_slots fr))"

lemma slot_ok_mono: "slot_ok k n c s \<Longrightarrow> n \<le> m \<Longrightarrow> c \<le> d \<Longrightarrow> slot_ok k m d s"
  by (auto simp: slot_ok_def split: if_splits)

lemma slot_ok_range: "slot_ok k n c s \<Longrightarrow> - c \<le> sl_offset s \<and> sl_offset s < 16 + 8 * int n \<or> 0 < sl_offset s \<and> sl_offset s < 16 + 8 * int n"
  by (auto simp: slot_ok_def split: if_splits)

lemma placedD:
  assumes "placed k n (fr, c)"
  shows "0 \<le> k" "8 dvd c" "8 * k \<le> c" "distinct (map sl_offset (fr_slots fr))"
    "s \<in> set (fr_slots fr) \<Longrightarrow> slot_ok k n c s" "fr_count fr = length (fr_slots fr)"
  using assms by (auto simp: placed_def list_all_iff)

text \<open>A slot at an offset no other slot has keeps the layout.\<close>

lemma placed_new_slot:
  assumes "placed k n (fr, c)" and "n \<le> m" and "c \<le> d" and "8 dvd d"
    and "slot_ok k m d new" and "\<And>s. slot_ok k n c s \<Longrightarrow> sl_offset s \<noteq> sl_offset new"
  shows "placed k m (fr\<lparr>fr_slots := new # fr_slots fr, fr_count := fr_count fr + 1\<rparr>, d)"
proof -
  note p = placedD [OF assms(1)]
  have "list_all (slot_ok k m d) (fr_slots fr)"
    using p(5) slot_ok_mono [OF _ assms(2,3)] by (auto simp: list_all_iff)
  moreover have "sl_offset new \<notin> set (map sl_offset (fr_slots fr))" using p(5) assms(6) by fastforce
  ultimately show ?thesis using p(1-4,6) assms(3-5) by (simp add: placed_def)
qed

lemma placed_add_slot:
  assumes "placed k n st"
  shows "placed k n (add_slot kind v name ty st)"
proof -
  obtain fr c where st: "st = (fr, c)" by (cases st)
  note p = placedD [OF assms [unfolded st]]
  show ?thesis unfolding st add_slot_def prod.case
    by (rule placed_new_slot [OF assms [unfolded st]])
      (use p(1-3) in \<open>auto simp: slot_ok_def split: if_splits\<close>)
qed

lemma placed_fixed_slot:
  assumes "placed k n (fr, c)"
  shows "placed k (n + 1) (add_fixed_slot SLOT_PARAM v name ty (16 + int n * 8) fr, c)"
proof -
  note p = placedD [OF assms]
  have "8 dvd 16 + int n * 8" by presburger
  then show ?thesis unfolding add_fixed_slot_def
    by (intro placed_new_slot [OF assms]) (use p(1-3) in \<open>auto simp: slot_ok_def split: if_splits\<close>)
qed

lemma placed_param:
  assumes "placed k (ps_stack st) (ps_frame st)"
  shows "placed k (ps_stack (layout_param ip st)) (ps_frame (layout_param ip st))"
  using assms placed_add_slot placed_fixed_slot
  by (auto simp: layout_param_def home_param_def stack_param_def split: prod.splits)

lemma placed_params:
  "placed k (ps_stack st) (ps_frame st) \<Longrightarrow>
   placed k (ps_stack (fold layout_param ps st)) (ps_frame (fold layout_param ps st))"
  by (induction ps arbitrary: st) (simp_all add: placed_param)

lemma placed_fold:
  assumes "\<And>x st. placed k n st \<Longrightarrow> placed k n (g x st)" and "placed k n st"
  shows "placed k n (fold g xs st)"
  using assms(2) by (induction xs arbitrary: st) (simp_all add: assms(1))

lemma placed_alloca: "placed k n st \<Longrightarrow> placed k n (layout_alloca i st)"
  by (auto simp: layout_alloca_def placed_add_slot split: option.split)

lemma placed_result: "placed k n st \<Longrightarrow> placed k n (layout_result i st)"
  by (auto simp: layout_result_def placed_add_slot split: option.split)

lemma placed_spill: "placed k n (fst s) \<Longrightarrow> placed k n (fst (layout_spill v s))"
  by (auto simp: layout_spill_def placed_add_slot Let_def split: prod.split)

lemma placed_spill_fold: "placed k n (fst s) \<Longrightarrow> placed k n (fst (fold layout_spill vs s))"
  by (induction vs arbitrary: s) (simp_all add: placed_spill)

lemma placed_spills:
  assumes "placed k n st"
  shows "placed k n (layout_spills f ra st)"
proof (cases ra)
  case None
  then show ?thesis by (simp add: layout_spills_def placed_fold [OF placed_result assms])
next
  case (Some res)
  obtain fr c ivs where e: "fold layout_spill [0..<ra_total res] (st, ra_intervals res) = ((fr, c), ivs)"
    by (metis surj_pair)
  have "placed k n (fr, c)" using placed_spill_fold [of k n "(st, ra_intervals res)" "[0..<ra_total res]"] assms e by simp
  then show ?thesis by (simp add: layout_spills_def Some e placed_def)
qed

section \<open>The size of the frame\<close>

lemma and_not_15: "(x :: int) AND (NOT 15) = x - x mod 16"
proof -
  have m: "(15 :: int) = mask 4" by (simp add: mask_eq_exp_minus_1)
  have "x AND NOT 15 = x AND NOT (take_bit 4 x)"
    unfolding m by (rule bit_eqI) (auto simp: bit_simps)
  also have "\<dots> = x - take_bit 4 x" by (rule disjunctive_diff [symmetric]) (simp add: bit_simps)
  finally show ?thesis by (simp add: take_bit_eq_mod)
qed

lemma frame_size_bounds:
  "(8 * k + frame_size k c) mod 16 = 0" "c \<le> 8 * k + frame_size k c" "8 * k + frame_size k c < c + 16"
proof -
  have e: "8 * k + frame_size k c = (c + 15) - (c + 15) mod 16"
    using and_not_15 [of "c + 15"] by (simp add: frame_size_def Let_def algebra_simps)
  show "(8 * k + frame_size k c) mod 16 = 0" "c \<le> 8 * k + frame_size k c" "8 * k + frame_size k c < c + 16"
    unfolding e by presburger+
qed

definition callee_count :: "regalloc_result option \<Rightarrow> int" where
  "callee_count ra = (case ra of Some res \<Rightarrow> int (length (ra_callee_saved res)) | None \<Rightarrow> 0)"

lemma build_placed:
  obtains n c where "placed (callee_count ra) n (x86_frame_build f ra, c)"
    "fr_total (x86_frame_build f ra) = frame_size (callee_count ra) c"
proof -
  let ?k = "callee_count ra"
  let ?ps = "layout_params f (empty_frame f ra, ?k * 8)"
  let ?st = "layout_spills f ra (fold layout_alloca (all_insts f) (ps_frame ?ps))"
  have k: "int (length (fr_callee_saved (empty_frame f ra))) = ?k"
    by (simp add: empty_frame_def callee_count_def split: option.split)
  have "0 \<le> ?k" by (simp add: callee_count_def split: option.split)
  then have "placed ?k 0 (empty_frame f ra, ?k * 8)" by (simp add: placed_def empty_frame_def)
  then have "placed ?k (ps_stack ?ps) (ps_frame ?ps)"
    using placed_params [of ?k "\<lparr>ps_frame = (empty_frame f ra, ?k * 8), ps_int = 0, ps_float = 0, ps_stack = 0\<rparr>"]
    by (simp add: layout_params_def)
  then have p: "placed ?k (ps_stack ?ps) ?st" by (intro placed_spills placed_fold placed_alloca)
  obtain fr c where st: "?st = (fr, c)" by (cases ?st)
  have b: "x86_frame_build f ra = fr\<lparr>fr_total := frame_size ?k c\<rparr>"
    using st by (simp add: x86_frame_build_def Let_def k)
  show ?thesis by (rule that [of "ps_stack ?ps" c]) (use p in \<open>simp_all add: st b placed_def\<close>)
qed

text \<open>C14. Slots never overlap: every slot is 8 aligned bytes of its own, either above the return
  address, for a parameter, or between the saved registers and the bottom of the frame. The
  saved registers and the frame together are a multiple of 16 bytes, so calls are aligned.\<close>

theorem frame_slots_disjoint:
  "distinct (map sl_offset (fr_slots (x86_frame_build f ra))) \<and>
   list_all (\<lambda>s. 8 dvd sl_offset s \<and> sl_size s = 8 \<and>
      (if 0 < sl_offset s then sl_kind s = SLOT_PARAM \<and> 16 \<le> sl_offset s
       else - (8 * callee_count ra + fr_total (x86_frame_build f ra)) \<le> sl_offset s \<and>
            sl_offset s + sl_size s \<le> - (8 * callee_count ra))) (fr_slots (x86_frame_build f ra)) \<and>
   (8 * callee_count ra + fr_total (x86_frame_build f ra)) mod 16 = 0"
proof -
  obtain n c where p: "placed (callee_count ra) n (x86_frame_build f ra, c)"
    "fr_total (x86_frame_build f ra) = frame_size (callee_count ra) c" by (rule build_placed)
  note fs = frame_size_bounds [where k = "callee_count ra" and c = c] and pl = placedD [OF p(1)]
  let ?b = "8 * callee_count ra + fr_total (x86_frame_build f ra)"
  have "8 dvd sl_offset s \<and> sl_size s = 8 \<and> (if 0 < sl_offset s then sl_kind s = SLOT_PARAM \<and> 16 \<le> sl_offset s
      else - ?b \<le> sl_offset s \<and> sl_offset s + sl_size s \<le> - (8 * callee_count ra))"
    if "s \<in> set (fr_slots (x86_frame_build f ra))" for s
    using pl(5) [OF that] fs(2) p(2) by (auto simp: slot_ok_def split: if_splits)
  then have "list_all (\<lambda>s. 8 dvd sl_offset s \<and> sl_size s = 8 \<and>
      (if 0 < sl_offset s then sl_kind s = SLOT_PARAM \<and> 16 \<le> sl_offset s
       else - ?b \<le> sl_offset s \<and> sl_offset s + sl_size s \<le> - (8 * callee_count ra))) (fr_slots (x86_frame_build f ra))"
    unfolding list_all_iff by blast
  then show ?thesis using pl(4) fs(1) p(2) by simp
qed

section \<open>Lookups through the layout\<close>

lemma find_add_slot:
  "find_param_slot (fst (add_slot kind v name ty st)) i =
     (if kind = SLOT_PARAM \<and> v = i then Some (hd (fr_slots (fst (add_slot kind v name ty st)))) else find_param_slot (fst st) i)"
  "find_spill_slot (fst (add_slot kind v name ty st)) i =
     (if kind = SLOT_SPILL \<and> v = i then Some (hd (fr_slots (fst (add_slot kind v name ty st)))) else find_spill_slot (fst st) i)"
  by (auto simp: add_slot_def find_param_slot_def find_spill_slot_def split: prod.split)

lemma find_fixed_slot:
  "find_param_slot (add_fixed_slot SLOT_PARAM v name ty off fr) i =
     (if v = i then Some (hd (fr_slots (add_fixed_slot SLOT_PARAM v name ty off fr))) else find_param_slot fr i)"
  "find_spill_slot (add_fixed_slot SLOT_PARAM v name ty off fr) i = find_spill_slot fr i"
  by (auto simp: add_fixed_slot_def find_param_slot_def find_spill_slot_def)

lemma find_allocas:
  "find_param_slot (fst (fold layout_alloca is st)) i = find_param_slot (fst st) i"
  "find_spill_slot (fst (fold layout_alloca is st)) i = find_spill_slot (fst st) i"
proof -
  have "find_param_slot (fst (layout_alloca x t)) i = find_param_slot (fst t) i \<and>
      find_spill_slot (fst (layout_alloca x t)) i = find_spill_slot (fst t) i" for x t
    by (simp add: layout_alloca_def find_add_slot split: option.split)
  then show "find_param_slot (fst (fold layout_alloca is st)) i = find_param_slot (fst st) i"
    "find_spill_slot (fst (fold layout_alloca is st)) i = find_spill_slot (fst st) i"
    by (induction "is" arbitrary: st) simp_all
qed

lemma find_param_spill: "find_param_slot (fst (fst (fold layout_spill vs s))) i = find_param_slot (fst (fst s)) i"
proof (induction vs arbitrary: s)
  case (Cons v vs)
  have "find_param_slot (fst (fst (layout_spill v s))) i = find_param_slot (fst (fst s)) i"
    by (simp add: layout_spill_def find_add_slot Let_def split: prod.split)
  then show ?case using Cons by simp
qed simp

lemma find_param_result: "find_param_slot (fst (fold layout_result is st)) i = find_param_slot (fst st) i"
proof (induction "is" arbitrary: st)
  case (Cons x "is")
  have "find_param_slot (fst (layout_result x st)) i = find_param_slot (fst st) i"
    by (simp add: layout_result_def find_add_slot split: option.split)
  then show ?case using Cons by simp
qed simp

lemma find_param_spills: "find_param_slot (fst (layout_spills f ra st)) i = find_param_slot (fst st) i"
proof (cases ra)
  case None
  then show ?thesis by (simp add: layout_spills_def find_param_result)
next
  case (Some res)
  obtain fr c ivs where e: "fold layout_spill [0..<ra_total res] (st, ra_intervals res) = ((fr, c), ivs)"
    by (metis surj_pair)
  then show ?thesis using find_param_spill [of "[0..<ra_total res]" "(st, ra_intervals res)" i]
    by (simp add: layout_spills_def Some find_param_slot_def)
qed

lemma build_find:
  "find_param_slot (x86_frame_build f ra) i =
     find_param_slot (fst (ps_frame (layout_params f (empty_frame f ra, callee_count ra * 8)))) i"
  "fr_slots (x86_frame_build f ra) = fr_slots (fst (layout_spills f ra (fold layout_alloca (all_insts f)
     (ps_frame (layout_params f (empty_frame f ra, callee_count ra * 8))))))"
  "fr_regalloc (x86_frame_build f ra) = fr_regalloc (fst (layout_spills f ra (fold layout_alloca (all_insts f)
     (ps_frame (layout_params f (empty_frame f ra, callee_count ra * 8))))))"
proof -
  let ?ps = "layout_params f (empty_frame f ra, callee_count ra * 8)"
  let ?st = "layout_spills f ra (fold layout_alloca (all_insts f) (ps_frame ?ps))"
  have k: "int (length (fr_callee_saved (empty_frame f ra))) = callee_count ra"
    by (simp add: empty_frame_def callee_count_def split: option.split)
  obtain fr c where st: "?st = (fr, c)" by (cases ?st)
  have b: "x86_frame_build f ra = fr\<lparr>fr_total := frame_size (callee_count ra) c\<rparr>"
    using st by (simp add: x86_frame_build_def Let_def k)
  have "find_param_slot fr i = find_param_slot (fst (ps_frame ?ps)) i"
    using find_param_spills [of f ra _ i] find_allocas(1) st by (metis fst_conv)
  then show "find_param_slot (x86_frame_build f ra) i = find_param_slot (fst (ps_frame ?ps)) i"
    by (simp add: b find_param_slot_def)
  show "fr_slots (x86_frame_build f ra) = fr_slots (fst ?st)" "fr_regalloc (x86_frame_build f ra) = fr_regalloc (fst ?st)"
    by (simp_all add: b st)
qed

section \<open>Parameters\<close>

text \<open>
  The System V convention: the first 6 integer and the first 8 floating-point parameters come in
  registers, the others in memory, in order from 16 bytes above the frame pointer.
\<close>

definition in_memory :: "ir_param list \<Rightarrow> nat \<Rightarrow> bool" where
  "in_memory ps i \<longleftrightarrow>
     (if is_float_param (ps ! i) then 8 \<le> length (filter is_float_param (take i ps))
      else 6 \<le> length (filter (\<lambda>p. \<not> is_float_param p) (take i ps)))"

definition conv_slot :: "ir_param list \<Rightarrow> nat \<Rightarrow> stack_slot \<Rightarrow> bool" where
  "conv_slot ps i s \<longleftrightarrow>
     (if in_memory ps i then sl_offset s = 16 + 8 * int (length (filter (in_memory ps) [0..<i]))
      else sl_offset s < 0) \<and> sl_size s = 8"

definition params_inv :: "ir_param list \<Rightarrow> nat \<Rightarrow> param_state \<Rightarrow> bool" where
  "params_inv ps m st \<longleftrightarrow>
     ps_float st = min 8 (length (filter is_float_param (take m ps))) \<and>
     ps_int st = min 6 (length (filter (\<lambda>p. \<not> is_float_param p) (take m ps))) \<and>
     ps_stack st = length (filter (in_memory ps) [0..<m]) \<and> 0 \<le> snd (ps_frame st) \<and>
     (\<forall>i < m. \<exists>s. find_param_slot (fst (ps_frame st)) (int i) = Some s \<and> conv_slot ps i s)"

lemma params_step:
  assumes inv: "params_inv ps m st" and m: "m < length ps"
  shows "params_inv ps (Suc m) (layout_param (m, ps ! m) st)"
proof -
  obtain fr c where fr: "ps_frame st = (fr, c)" by (cases "ps_frame st")
  note I = inv [unfolded params_inv_def]
  have tk: "take (Suc m) ps = take m ps @ [ps ! m]" using m by (simp add: take_Suc_conv_app_nth)
  let ?fl = "length (filter is_float_param (take m ps))" and ?nt = "length (filter (\<lambda>p. \<not> is_float_param p) (take m ps))"
  have old: "\<exists>s. find_param_slot (fst (ps_frame (layout_param (m, ps ! m) st))) (int i) = Some s \<and> conv_slot ps i s"
    if "i < m" for i
    using I that by (auto simp: layout_param_def home_param_def stack_param_def find_add_slot find_fixed_slot fr split: prod.split)
  have new: "\<exists>s. find_param_slot (fst (ps_frame (layout_param (m, ps ! m) st))) (int m) = Some s \<and> conv_slot ps m s"
  proof (cases "in_memory ps m")
    case True
    then have "layout_param (m, ps ! m) st = stack_param m (ps ! m) st"
      using I by (auto simp: layout_param_def in_memory_def X86_64_MAX_ARG_REGS_def X86_64_MAX_FLOAT_ARG_REGS_def)
    then show ?thesis using True I by (simp add: stack_param_def fr find_fixed_slot) (simp add: add_fixed_slot_def conv_slot_def)
  next
    case False
    define u where "u = (if is_float_param (ps ! m) then st\<lparr>ps_float := ps_float st + 1\<rparr> else st\<lparr>ps_int := ps_int st + 1\<rparr>)"
    have u: "layout_param (m, ps ! m) st = home_param m (ps ! m) u" "ps_frame u = (fr, c)"
      using False I fr by (simp_all add: u_def layout_param_def in_memory_def X86_64_MAX_ARG_REGS_def X86_64_MAX_FLOAT_ARG_REGS_def split: if_splits)
    have "0 \<le> c" using I fr by simp
    then show ?thesis using False u by (simp add: home_param_def find_add_slot) (simp add: add_slot_def conv_slot_def)
  qed
  show ?thesis unfolding params_inv_def
  proof (intro conjI allI impI)
    show "\<exists>s. find_param_slot (fst (ps_frame (layout_param (m, ps ! m) st))) (int i) = Some s \<and> conv_slot ps i s"
      if "i < Suc m" for i using that old new by (cases "i = m") auto
  qed (use I in \<open>auto simp: tk layout_param_def home_param_def stack_param_def fr add_slot_def in_memory_def
      X86_64_MAX_ARG_REGS_def X86_64_MAX_FLOAT_ARG_REGS_def\<close>)
qed

lemma params_all:
  assumes "0 \<le> c"
  shows "params_inv (fn_params f) (length (fn_params f)) (layout_params f (fr, c))"
proof -
  let ?s0 = "\<lparr>ps_frame = (fr, c), ps_int = 0, ps_float = 0, ps_stack = 0\<rparr>"
  have "params_inv ps m (fold layout_param (enumerate 0 (take m ps)) ?s0)" if "m \<le> length ps" for m ps
    using that
  proof (induction m)
    case 0
    then show ?case using assms by (simp add: params_inv_def)
  next
    case (Suc m)
    have tk: "take (Suc m) ps = take m ps @ [ps ! m]" using Suc.prems by (simp add: take_Suc_conv_app_nth)
    have "enumerate 0 (take (Suc m) ps) = enumerate 0 (take m ps) @ [(m, ps ! m)]"
      unfolding tk enumerate_append_eq using Suc.prems by simp
    then show ?case using params_step [OF Suc.IH] Suc.prems by simp
  qed
  from this [of "length (fn_params f)" "fn_params f"] show ?thesis by (simp add: layout_params_def)
qed

text \<open>C36. Every parameter has the slot the calling convention gives it: in memory at the offset
  where the caller pushed it, or below the frame pointer when it comes in a register.\<close>

theorem parameters_follow_convention:
  assumes "i < length (fn_params f)" and "v_kind v = IR_VAL_PARAM" and "v_id v = i"
  shows "\<exists>off. x86_frame_get_offset (x86_frame_build f ra) v = Some (off, 8) \<and>
    (if in_memory (fn_params f) i then off = 16 + 8 * int (length (filter (in_memory (fn_params f)) [0..<i]))
     else off < 0)"
proof -
  have "0 \<le> callee_count ra * 8" by (simp add: callee_count_def split: option.split)
  from params_all [OF this, of f "empty_frame f ra"] assms(1) obtain s where
    s: "find_param_slot (x86_frame_build f ra) (int i) = Some s" "conv_slot (fn_params f) i s"
    by (auto simp: params_inv_def build_find(1))
  then show ?thesis using assms(2,3) by (auto simp: x86_frame_get_offset_def slot_offset_def conv_slot_def)
qed

definition seven_params :: ir_function where
  "seven_params = (ir_new_function ''g'' None)
     \<lparr>fn_params := replicate 7 \<lparr>p_name = None, p_type = Ty_I64, p_value = ir_val_param Ty_I64 0 None\<rparr>\<rparr>"

theorem parameters_follow_convention_witness:
  "\<exists>off. x86_frame_get_offset (x86_frame_build seven_params None) (ir_val_param Ty_I64 6 None) = Some (off, 8) \<and> off = 16"
proof -
  have m: "in_memory (fn_params seven_params) i \<longleftrightarrow> 6 \<le> i" if "i < 7" for i
    using that by (simp add: seven_params_def in_memory_def is_float_param_def)
  then have n: "filter (in_memory (fn_params seven_params)) [0..<6] = []" by (auto simp: filter_empty_conv)
  have l: "6 < length (fn_params seven_params)" by (simp add: seven_params_def)
  have v: "v_kind (ir_val_param Ty_I64 6 None) = IR_VAL_PARAM" "v_id (ir_val_param Ty_I64 6 None) = 6"
    by (simp_all add: ir_val_param_def)
  from parameters_follow_convention [OF l v, of None] show ?thesis using m [of 6] n by simp
qed

section \<open>Spill slots\<close>

definition spills_inv :: "live_interval list \<Rightarrow> nat \<Rightarrow> (frame \<times> int) \<times> live_interval list \<Rightarrow> bool" where
  "spills_inv ivs m s \<longleftrightarrow> length (snd s) = length ivs \<and>
     (\<forall>v < length ivs. if v < m \<and> needs_slot (ivs ! v)
        then (\<exists>t. find_spill_slot (fst (fst s)) (int v) = Some t \<and> t \<in> set (fr_slots (fst (fst s))) \<and>
               snd s ! v = (ivs ! v)\<lparr>li_offset := sl_offset t\<rparr>)
        else snd s ! v = ivs ! v \<and> find_spill_slot (fst (fst s)) (int v) = None)"

lemma spills_invD:
  assumes "spills_inv ivs m s" and "v < length ivs"
  shows "if v < m \<and> needs_slot (ivs ! v)
        then (\<exists>t. find_spill_slot (fst (fst s)) (int v) = Some t \<and> t \<in> set (fr_slots (fst (fst s))) \<and>
               snd s ! v = (ivs ! v)\<lparr>li_offset := sl_offset t\<rparr>)
        else snd s ! v = ivs ! v \<and> find_spill_slot (fst (fst s)) (int v) = None"
  using assms unfolding spills_inv_def by blast

lemma spills_step:
  assumes inv: "spills_inv ivs m s" and m: "m < length ivs"
  shows "spills_inv ivs (Suc m) (layout_spill m s)"
proof -
  obtain st cur where s: "s = (st, cur)" by (cases s)
  note I = inv [unfolded spills_inv_def s fst_conv snd_conv]
  have cm: "cur ! m = ivs ! m" using I m by auto
  show ?thesis
  proof (cases "needs_slot (ivs ! m)")
    case False
    then have "layout_spill m s = s" by (simp add: s layout_spill_def cm)
    then show ?thesis using inv False by (auto simp: spills_inv_def less_Suc_eq)
  next
    case True
    define st' where "st' = add_slot SLOT_SPILL (int m) None (li_type (ivs ! m)) st"
    define t where "t = hd (fr_slots (fst st'))"
    have e: "layout_spill m s = (st', cur[m := (ivs ! m)\<lparr>li_offset := sl_offset t\<rparr>])"
      using True by (simp add: s layout_spill_def cm st'_def t_def Let_def)
    have f: "find_spill_slot (fst st') i = (if i = int m then Some t else find_spill_slot (fst st) i)" for i
      using find_add_slot(2) [of SLOT_SPILL "int m" None "li_type (ivs ! m)" st i] by (simp add: st'_def t_def eq_commute)
    have sub: "set (fr_slots (fst st')) = insert t (set (fr_slots (fst st)))"
      by (simp add: st'_def t_def add_slot_def split: prod.split)
    show ?thesis unfolding spills_inv_def e fst_conv snd_conv
    proof (intro conjI allI impI)
      fix v assume v: "v < length ivs"
      show "if v < Suc m \<and> needs_slot (ivs ! v)
        then (\<exists>u. find_spill_slot (fst st') (int v) = Some u \<and> u \<in> set (fr_slots (fst st')) \<and>
               cur[m := (ivs ! m)\<lparr>li_offset := sl_offset t\<rparr>] ! v = (ivs ! v)\<lparr>li_offset := sl_offset u\<rparr>)
        else cur[m := (ivs ! m)\<lparr>li_offset := sl_offset t\<rparr>] ! v = ivs ! v \<and> find_spill_slot (fst st') (int v) = None"
      proof (cases "v = m")
        case True
        then show ?thesis using \<open>needs_slot (ivs ! m)\<close> I m by (auto simp: f sub)
      next
        case False
        have "if v < m \<and> needs_slot (ivs ! v)
          then (\<exists>u. find_spill_slot (fst st) (int v) = Some u \<and> u \<in> set (fr_slots (fst st)) \<and>
                 cur ! v = (ivs ! v)\<lparr>li_offset := sl_offset u\<rparr>)
          else cur ! v = ivs ! v \<and> find_spill_slot (fst st) (int v) = None"
          using I v by blast
        then show ?thesis using False by (auto simp: f sub less_Suc_eq split: if_splits)
      qed
    qed (use I in simp)
  qed
qed

lemma spills_all:
  assumes "\<And>i. find_spill_slot (fst st) i = None"
  shows "m \<le> length ivs \<Longrightarrow> spills_inv ivs m (fold layout_spill [0..<m] (st, ivs))"
proof (induction m)
  case 0
  then show ?case using assms by (simp add: spills_inv_def)
next
  case (Suc m)
  then show ?case using spills_step [of ivs m] by simp
qed

lemma no_spill_before:
  "find_spill_slot (fst (ps_frame (layout_params f (empty_frame f ra, c)))) i = None"
proof -
  have step: "find_spill_slot (fst (ps_frame (layout_param ip st))) i = find_spill_slot (fst (ps_frame st)) i" for ip st
    by (auto simp: layout_param_def home_param_def stack_param_def find_add_slot find_fixed_slot split: prod.splits)
  have "find_spill_slot (fst (ps_frame (fold layout_param ps st))) i = find_spill_slot (fst (ps_frame st)) i" for ps st
    by (induction ps arbitrary: st) (simp_all add: step)
  then show ?thesis by (simp add: layout_params_def empty_frame_def find_spill_slot_def)
qed

text \<open>The intervals the code leaves in the allocation result, with their spill offsets.\<close>

definition framed :: "frame \<Rightarrow> regalloc_result" where
  "framed fr = the (fr_regalloc fr)"

lemma framed_spills:
  assumes l: "length (ra_intervals res) = ra_total res" and v: "v < ra_total res"
  shows "if needs_slot (ra_intervals res ! v)
    then (\<exists>t. find_spill_slot (x86_frame_build f (Some res)) (int v) = Some t \<and>
           t \<in> set (fr_slots (x86_frame_build f (Some res))) \<and>
           ra_intervals (framed (x86_frame_build f (Some res))) ! v = (ra_intervals res ! v)\<lparr>li_offset := sl_offset t\<rparr>)
    else ra_intervals (framed (x86_frame_build f (Some res))) ! v = ra_intervals res ! v \<and>
         find_spill_slot (x86_frame_build f (Some res)) (int v) = None"
    and "ra_total (framed (x86_frame_build f (Some res))) = ra_total res"
proof -
  let ?ps = "layout_params f (empty_frame f (Some res), callee_count (Some res) * 8)"
  let ?al = "fold layout_alloca (all_insts f) (ps_frame ?ps)"
  have none: "find_spill_slot (fst ?al) i = None" for i by (simp add: find_allocas no_spill_before)
  obtain fr c ivs where e: "fold layout_spill [0..<ra_total res] (?al, ra_intervals res) = ((fr, c), ivs)"
    by (metis surj_pair)
  have inv: "spills_inv (ra_intervals res) (ra_total res) ((fr, c), ivs)"
    using spills_all [OF none, of "ra_total res" "ra_intervals res"] l e by simp
  have b: "fr_slots (x86_frame_build f (Some res)) = fr_slots fr"
    "framed (x86_frame_build f (Some res)) = res\<lparr>ra_intervals := ivs\<rparr>"
    unfolding framed_def build_find by (simp_all add: layout_spills_def e)
  have fs: "find_spill_slot (x86_frame_build f (Some res)) i = find_spill_slot fr i" for i
    by (simp add: find_spill_slot_def b(1))
  show "if needs_slot (ra_intervals res ! v)
    then (\<exists>t. find_spill_slot (x86_frame_build f (Some res)) (int v) = Some t \<and>
           t \<in> set (fr_slots (x86_frame_build f (Some res))) \<and>
           ra_intervals (framed (x86_frame_build f (Some res))) ! v = (ra_intervals res ! v)\<lparr>li_offset := sl_offset t\<rparr>)
    else ra_intervals (framed (x86_frame_build f (Some res))) ! v = ra_intervals res ! v \<and>
         find_spill_slot (x86_frame_build f (Some res)) (int v) = None"
    using spills_invD [OF inv, of v] v l by (auto simp: fs b split: if_splits)
  show "ra_total (framed (x86_frame_build f (Some res))) = ra_total res" by (simp add: b(2))
qed

section \<open>Homes\<close>

text \<open>Where the code generator keeps a register: its machine register, or its stack slot.\<close>

definition home :: "regalloc_result \<Rightarrow> nat \<Rightarrow> x86_reg + int" where
  "home res r = (if regalloc_is_spilled res r then Inr (regalloc_get_spill_offset res r)
     else Inl (regalloc_get_phys_reg res r))"

lemma spill_offsets_differ:
  assumes l: "length (ra_intervals res) = ra_total res" and "r < ra_total res" and "s < ra_total res" and "r \<noteq> s"
    and "needs_slot (ra_intervals res ! r)" and "needs_slot (ra_intervals res ! s)"
  shows "li_offset (ra_intervals (framed (x86_frame_build f (Some res))) ! r) \<noteq>
    li_offset (ra_intervals (framed (x86_frame_build f (Some res))) ! s)"
proof -
  let ?fr = "x86_frame_build f (Some res)"
  obtain t u where t: "find_spill_slot ?fr (int r) = Some t" "t \<in> set (fr_slots ?fr)"
      "ra_intervals (framed ?fr) ! r = (ra_intervals res ! r)\<lparr>li_offset := sl_offset t\<rparr>"
    and u: "find_spill_slot ?fr (int s) = Some u" "u \<in> set (fr_slots ?fr)"
      "ra_intervals (framed ?fr) ! s = (ra_intervals res ! s)\<lparr>li_offset := sl_offset u\<rparr>"
    using framed_spills(1) [OF l assms(2), of f] framed_spills(1) [OF l assms(3), of f] assms(5,6) by auto
  have "sl_id t = int r" "sl_id u = int s"
    using t(1) u(1) by (auto simp: find_spill_slot_def dest!: find_SomeD)
  then have "t \<noteq> u" using assms(4) by auto
  moreover obtain n c where "placed (callee_count (Some res)) n (?fr, c)" using build_placed by metis
  ultimately have "sl_offset t \<noteq> sl_offset u"
    using placedD(4) t(2) u(2) by (metis distinct_map inj_onD)
  then show ?thesis using t(3) u(3) by simp
qed

lemma framed_same:
  assumes "length (ra_intervals res) = ra_total res" and "v < ra_total res"
  shows "regalloc_get_phys_reg (framed (x86_frame_build f (Some res))) v = regalloc_get_phys_reg res v"
    and "regalloc_is_spilled (framed (x86_frame_build f (Some res))) v = regalloc_is_spilled res v"
    and "regalloc_get_spill_offset (framed (x86_frame_build f (Some res))) v =
      li_offset (ra_intervals (framed (x86_frame_build f (Some res))) ! v)"
  using framed_spills [OF assms, of f] assms(2)
  by (auto simp: regalloc_get_phys_reg_def regalloc_is_spilled_def regalloc_get_spill_offset_def split: if_splits)

text \<open>C1. Values that are live at the same instruction, or one that is written while the other is
  live, are kept in different places: in different machine registers, in different stack slots,
  or one in a register and one on the stack.\<close>

theorem live_values_have_distinct_homes:
  assumes "nonempty_blocks f" and "numbered f" and "regalloc_run f = Some res"
    and "live_before f r b k" and "live_before f s b k \<or> (s \<in> writes (regs f) (insts_at f b ! k))" and "r \<noteq> s"
  shows "home (framed (x86_frame_build f (Some res))) r \<noteq> home (framed (x86_frame_build f (Some res))) s"
proof -
  have r: "r < regs f" and s: "s < regs f" using assms(4,5) live_before_range writes_range by blast+
  obtain ins outs where u: "unscanned (build_intervals f ins outs)" "length (build_intervals f ins outs) = regs f"
      "res = result_of_scan f (linear_scan (build_intervals f ins outs))"
    by (rule run_cases [OF assms(1,2) r assms(3)])
  have "length (sc_ivs (linear_scan (build_intervals f ins outs))) = regs f"
    using same_static(1) [OF linear_scan_result(1) [OF u(1)]] u(2) by simp
  then have l: "length (ra_intervals res) = ra_total res" "ra_total res = regs f"
    by (simp_all add: u(3) result_of_scan_def Let_def)
  have slot: "needs_slot (ra_intervals res ! v)" if "v < regs f" "regalloc_is_spilled res v" for v
    using that l by (simp add: regalloc_is_spilled_def needs_slot_def)
  note same = framed_same [OF l(1), unfolded l(2), of _ f]
  show ?thesis
    using no_sharing [OF assms] spill_offsets_differ [OF l(1), unfolded l(2), OF r s assms(6), of f]
      slot [OF r] slot [OF s] by (auto simp: home_def same [OF r] same [OF s])
qed

theorem live_values_have_distinct_homes_witness:
  "home (framed (x86_frame_build demo (Some demo_result))) 0 \<noteq>
    home (framed (x86_frame_build demo (Some demo_result))) 1"
  by (rule live_values_have_distinct_homes [OF demo_ok demo_run demo_live(3)]) (simp_all add: demo_live(4))

end
