(* ===== verification/Map_Runtime.thy ===== *)
theory Map_Runtime
  imports Cco_Prelude
begin

text \<open>
  The hash map that compiled programs link against (\<open>src/runtime/map_runtime.h\<close>):
  open addressing with linear probing, tombstones and doubling.

  A \<open>void *\<close> is \<open>K_Int w\<close> (the pointer word itself, as integer keys are stored) or
  \<open>K_Str s\<close> (a pointer to a C string with contents \<open>s\<close>, a list of non-zero characters);
  the null pointer is \<open>K_Int 0\<close>. A value pointer is a \<open>'v option\<close>, \<open>None\<close> being null.
  The C probing loops test only the bucket array, so they are \<open>partial_function\<close>s whose value
  \<open>None\<close> means that the loop never ends. \<open>Inl Undefined\<close> marks a read through null or
  through an integer, \<open>Inl Exit\<close> a call of \<open>exit(1)\<close>. Allocation always succeeds.
  The calls of \<open>free\<close> and of the value destructor are returned as lists.
\<close>

section \<open>State\<close>

datatype bucket_state = Empty | Occupied | Tombstone

datatype map_key = K_Int u64 | K_Str string

abbreviation null_key :: map_key where
  "null_key \<equiv> K_Int 0"

record 'v map_bucket =
  b_state :: bucket_state
  b_key :: map_key
  b_value :: "'v option"

record 'v cco_map =
  m_capacity :: nat
  m_occupied :: nat
  m_tombstones :: nat
  m_key_type :: int
  m_buckets :: "'v map_bucket list"

datatype map_error = Undefined | Exit

definition empty_bucket :: "'v map_bucket" where
  "empty_bucket = \<lparr>b_state = Empty, b_key = null_key, b_value = None\<rparr>"

section \<open>Hashing and key comparison\<close>

fun hash_str_loop :: "string \<Rightarrow> u32 \<Rightarrow> u32" where
  "hash_str_loop [] hash = hash"
| "hash_str_loop (c # cs) hash = hash_str_loop cs ((hash XOR of_char c) * 16777619)"

definition hash_str :: "string \<Rightarrow> u32" where
  "hash_str s = hash_str_loop s 2166136261"

definition hash_int :: "u32 \<Rightarrow> u32" where
  "hash_int key =
     (let x = key;
          x = ((drop_bit 16 x) XOR x) * 0x45d9f3b;
          x = ((drop_bit 16 x) XOR x) * 0x45d9f3b;
          x = (drop_bit 16 x) XOR x
      in x)"

definition key_eq :: "int \<Rightarrow> map_key \<Rightarrow> map_key \<Rightarrow> bool" where
  "key_eq kt k1 k2 =
     (if kt = 1 then
        (if k1 = null_key \<or> k2 = null_key then (k1 = null_key) = (k2 = null_key)
         else (case (k1, k2) of (K_Str s1, K_Str s2) \<Rightarrow> s1 = s2 | _ \<Rightarrow> False))
      else (case (k1, k2) of (K_Int w1, K_Int w2) \<Rightarrow> w1 = w2 | _ \<Rightarrow> False))"

text \<open>\<open>None\<close>: \<open>hash_str\<close> would read through a pointer that is no string.\<close>

definition hash_key :: "int \<Rightarrow> map_key \<Rightarrow> u32 option" where
  "hash_key kt key =
     (if kt = 1 then (case key of K_Str s \<Rightarrow> Some (hash_str s) | K_Int _ \<Rightarrow> None)
      else (case key of K_Int w \<Rightarrow> Some (hash_int (ucast w)) | K_Str _ \<Rightarrow> None))"

section \<open>Operations\<close>

definition map_new :: "int \<Rightarrow> 'v cco_map" where
  "map_new key_type =
     \<lparr>m_capacity = 8, m_occupied = 0, m_tombstones = 0, m_key_type = key_type,
      m_buckets = replicate 8 empty_bucket\<rparr>"

definition next_idx :: "nat \<Rightarrow> nat \<Rightarrow> nat" where
  "next_idx cap idx = (idx + 1) AND (cap - 1)"

definition home_idx :: "nat \<Rightarrow> u32 \<Rightarrow> nat" where
  "home_idx cap h = unat h AND (cap - 1)"

partial_function (option) rehash_probe :: "'v map_bucket list \<Rightarrow> nat \<Rightarrow> nat \<Rightarrow> nat option" where
  "rehash_probe bs cap idx =
     (if b_state (bs ! idx) = Occupied then rehash_probe bs cap (next_idx cap idx) else Some idx)"

fun rehash_loop :: "int \<Rightarrow> nat \<Rightarrow> 'v map_bucket list \<Rightarrow> 'v map_bucket list \<times> nat
    \<Rightarrow> (map_error + 'v map_bucket list \<times> nat) option" where
  "rehash_loop kt cap [] (bs, occ) = Some (Inr (bs, occ))"
| "rehash_loop kt cap (b # old) (bs, occ) =
     (if b_state b = Occupied then
        (case hash_key kt (b_key b) of
           None \<Rightarrow> Some (Inl Undefined)
         | Some h \<Rightarrow>
             (case rehash_probe bs cap (home_idx cap h) of
                None \<Rightarrow> None
              | Some idx \<Rightarrow>
                  rehash_loop kt cap old
                    (bs[idx := \<lparr>b_state = Occupied, b_key = b_key b, b_value = b_value b\<rparr>], occ + 1)))
      else rehash_loop kt cap old (bs, occ))"

definition map_rehash :: "'v cco_map \<Rightarrow> (map_error + 'v cco_map) option" where
  "map_rehash m =
     (let new_cap = m_capacity m * 2 in
      case rehash_loop (m_key_type m) new_cap (m_buckets m) (replicate new_cap empty_bucket, 0) of
        None \<Rightarrow> None
      | Some (Inl e) \<Rightarrow> Some (Inl e)
      | Some (Inr (bs, occ)) \<Rightarrow>
          Some (Inr (m\<lparr>m_buckets := bs, m_capacity := new_cap, m_occupied := occ,
                       m_tombstones := 0\<rparr>)))"

datatype probe_end = Found nat | Missing nat

partial_function (option) put_probe ::
    "int \<Rightarrow> 'v map_bucket list \<Rightarrow> nat \<Rightarrow> map_key \<Rightarrow> nat \<Rightarrow> nat option \<Rightarrow> probe_end option" where
  "put_probe kt bs cap key idx first_tombstone =
     (case b_state (bs ! idx) of
        Empty \<Rightarrow> Some (Missing (case first_tombstone of Some t \<Rightarrow> t | None \<Rightarrow> idx))
      | Tombstone \<Rightarrow>
          put_probe kt bs cap key (next_idx cap idx)
            (if first_tombstone = None then Some idx else first_tombstone)
      | Occupied \<Rightarrow>
          (if key_eq kt (b_key (bs ! idx)) key then Some (Found idx)
           else put_probe kt bs cap key (next_idx cap idx) first_tombstone))"

text \<open>
  \<open>__cco_map_put\<close>: the new map and the values given to \<open>free_fn\<close> (the overwritten value,
  when there is a destructor and the value is not null).
\<close>

definition map_put_core :: "'v cco_map \<Rightarrow> map_key \<Rightarrow> 'v option \<Rightarrow> bool
    \<Rightarrow> (map_error + 'v cco_map \<times> 'v list) option" where
  "map_put_core m key val has_free_fn =
     (case hash_key (m_key_type m) key of
        None \<Rightarrow> Some (Inl Undefined)
      | Some h \<Rightarrow>
          (case put_probe (m_key_type m) (m_buckets m) (m_capacity m) key
                  (home_idx (m_capacity m) h) None of
             None \<Rightarrow> None
           | Some (Found idx) \<Rightarrow>
               (let b = m_buckets m ! idx in
                Some (Inr (m\<lparr>m_buckets := (m_buckets m)[idx := b\<lparr>b_value := val\<rparr>]\<rparr>,
                           if has_free_fn then (case b_value b of Some v \<Rightarrow> [v] | None \<Rightarrow> [])
                           else [])))
           | Some (Missing idx) \<Rightarrow>
               Some (Inr (m\<lparr>m_tombstones := (if b_state (m_buckets m ! idx) = Tombstone
                                             then m_tombstones m - 1 else m_tombstones m),
                            m_buckets := (m_buckets m)
                              [idx := \<lparr>b_state = Occupied, b_key = key, b_value = val\<rparr>],
                            m_occupied := m_occupied m + 1\<rparr>, []))))"

definition map_put_nonnull :: "'v cco_map \<Rightarrow> map_key \<Rightarrow> 'v option \<Rightarrow> bool
    \<Rightarrow> (map_error + 'v cco_map \<times> 'v list) option" where
  "map_put_nonnull m key val has_free_fn =
     (if (m_occupied m + m_tombstones m + 1) * 10 \<ge> m_capacity m * 7 then
        (case map_rehash m of
           None \<Rightarrow> None
         | Some (Inl e) \<Rightarrow> Some (Inl e)
         | Some (Inr m') \<Rightarrow> map_put_core m' key val has_free_fn)
      else map_put_core m key val has_free_fn)"

text \<open>\<open>put\<close> on a null map returns null and stores nothing.\<close>

definition map_put :: "'v cco_map option \<Rightarrow> map_key \<Rightarrow> 'v option \<Rightarrow> bool
    \<Rightarrow> (map_error + 'v cco_map option \<times> 'v list) option" where
  "map_put mo key val has_free_fn =
     (case mo of
        None \<Rightarrow> Some (Inr (None, []))
      | Some m \<Rightarrow>
          map_option (map_sum id (\<lambda>(m', freed). (Some m', freed)))
            (map_put_nonnull m key val has_free_fn))"

text \<open>The loop that \<open>get\<close>, \<open>has\<close> and \<open>remove\<close> share.\<close>

partial_function (option) find_probe ::
    "int \<Rightarrow> 'v map_bucket list \<Rightarrow> nat \<Rightarrow> map_key \<Rightarrow> nat \<Rightarrow> probe_end option" where
  "find_probe kt bs cap key idx =
     (if b_state (bs ! idx) \<noteq> Empty then
        (if b_state (bs ! idx) = Occupied \<and> key_eq kt (b_key (bs ! idx)) key
         then Some (Found idx)
         else find_probe kt bs cap key (next_idx cap idx))
      else Some (Missing idx))"

definition map_find :: "'v cco_map \<Rightarrow> map_key \<Rightarrow> (map_error + probe_end) option" where
  "map_find m key =
     (case hash_key (m_key_type m) key of
        None \<Rightarrow> Some (Inl Undefined)
      | Some h \<Rightarrow>
          map_option Inr (find_probe (m_key_type m) (m_buckets m) (m_capacity m) key
                            (home_idx (m_capacity m) h)))"

definition map_get :: "'v cco_map option \<Rightarrow> map_key \<Rightarrow> (map_error + 'v option) option" where
  "map_get mo key =
     (case mo of
        None \<Rightarrow> Some (Inl Exit)
      | Some m \<Rightarrow>
          (case map_find m key of
             None \<Rightarrow> None
           | Some (Inl e) \<Rightarrow> Some (Inl e)
           | Some (Inr (Found idx)) \<Rightarrow> Some (Inr (b_value (m_buckets m ! idx)))
           | Some (Inr (Missing _)) \<Rightarrow> Some (Inl Exit)))"

definition map_has :: "'v cco_map option \<Rightarrow> map_key \<Rightarrow> (map_error + bool) option" where
  "map_has mo key =
     (case mo of
        None \<Rightarrow> Some (Inr False)
      | Some m \<Rightarrow>
          (case map_find m key of
             None \<Rightarrow> None
           | Some (Inl e) \<Rightarrow> Some (Inl e)
           | Some (Inr (Found _)) \<Rightarrow> Some (Inr True)
           | Some (Inr (Missing _)) \<Rightarrow> Some (Inr False)))"

text \<open>\<open>__cco_map_remove\<close>: the value, the new map and the keys freed.\<close>

definition map_remove :: "'v cco_map option \<Rightarrow> map_key
    \<Rightarrow> (map_error + 'v option \<times> 'v cco_map \<times> map_key list) option" where
  "map_remove mo key =
     (case mo of
        None \<Rightarrow> Some (Inl Exit)
      | Some m \<Rightarrow>
          (case map_find m key of
             None \<Rightarrow> None
           | Some (Inl e) \<Rightarrow> Some (Inl e)
           | Some (Inr (Found idx)) \<Rightarrow>
               (let b = m_buckets m ! idx in
                Some (Inr (b_value b,
                           m\<lparr>m_buckets := (m_buckets m)
                               [idx := \<lparr>b_state = Tombstone, b_key = null_key, b_value = None\<rparr>],
                             m_occupied := m_occupied m - 1,
                             m_tombstones := m_tombstones m + 1\<rparr>,
                           if m_key_type m = 1 then [b_key b] else [])))
           | Some (Inr (Missing _)) \<Rightarrow> Some (Inl Exit)))"

text \<open>\<open>__cco_map_free\<close>: the keys freed and the values destroyed, in bucket order.\<close>

fun map_free_loop :: "int \<Rightarrow> bool \<Rightarrow> 'v map_bucket list \<Rightarrow> map_key list \<times> 'v list" where
  "map_free_loop kt has_free_fn [] = ([], [])"
| "map_free_loop kt has_free_fn (b # bs) =
     (let (ks, vs) = map_free_loop kt has_free_fn bs in
      if b_state b = Occupied then
        ((if kt = 1 \<and> b_key b \<noteq> null_key then [b_key b] else []) @ ks,
         (if has_free_fn then (case b_value b of Some v \<Rightarrow> [v] | None \<Rightarrow> []) else []) @ vs)
      else (ks, vs))"

definition map_free :: "'v cco_map option \<Rightarrow> bool \<Rightarrow> map_key list \<times> 'v list" where
  "map_free mo has_free_fn =
     (case mo of None \<Rightarrow> ([], [])
      | Some m \<Rightarrow> map_free_loop (m_key_type m) has_free_fn (m_buckets m))"

section \<open>Probe sequences\<close>

lemma next_idx_mod: "cap = 2 ^ e \<Longrightarrow> next_idx cap i = Suc i mod cap"
  unfolding next_idx_def Suc_eq_plus1 by (rule and_minus_one_eq_mod)

lemma home_idx_mod: "cap = 2 ^ e \<Longrightarrow> home_idx cap h = unat h mod cap"
  unfolding home_idx_def by (rule and_minus_one_eq_mod)

lemma home_idx_less: "cap = 2 ^ e \<Longrightarrow> home_idx cap h < cap"
  by (simp add: home_idx_mod)

lemma next_idx_shift:
  assumes "cap = 2 ^ e"
  shows "next_idx cap ((i + j) mod cap) = (i + Suc j) mod cap"
  using assms by (simp add: next_idx_mod mod_Suc_eq)

lemma probe_reaches:
  assumes "k < cap"
  shows "\<exists>d < cap. ((i::nat) + d) mod cap = k"
proof (intro exI conjI)
  let ?d = "(k + (cap - i mod cap)) mod cap"
  show "?d < cap" using assms by (intro mod_less_divisor) linarith
  have "i mod cap \<le> cap" using assms by (simp add: less_imp_le)
  then have "i mod cap + (k + (cap - i mod cap)) = k + cap" by simp
  then show "(i + ?d) mod cap = k" using assms
    by (metis mod_add_left_eq mod_add_right_eq mod_add_self2 mod_less)
qed

text \<open>Every search stops: the first index of the probe sequence where a test holds.\<close>

lemma first_stop:
  assumes "k < cap" and "P k"
  obtains d where "d < cap" and "P (((i::nat) + d) mod cap)"
    and "\<forall>j < d. \<not> P ((i + j) mod cap)"
proof -
  obtain d0 where d0: "d0 < cap" "P ((i + d0) mod cap)"
    using probe_reaches [OF assms(1)] assms(2) by metis
  define d where "d = (LEAST d. P ((i + d) mod cap))"
  have "P ((i + d) mod cap)" unfolding d_def by (rule LeastI, rule d0(2))
  moreover have "d \<le> d0" unfolding d_def by (rule Least_le, rule d0(2))
  moreover have "\<forall>j < d. \<not> P ((i + j) mod cap)" unfolding d_def by (blast dest: not_less_Least)
  ultimately show thesis using d0(1) by (intro that [of d]) auto
qed

text \<open>The three loops, run for \<open>d\<close> steps that do not stop.\<close>

definition find_stops :: "int \<Rightarrow> 'v map_bucket list \<Rightarrow> map_key \<Rightarrow> nat \<Rightarrow> bool" where
  "find_stops kt bs key idx \<longleftrightarrow>
     b_state (bs ! idx) = Empty \<or>
     (b_state (bs ! idx) = Occupied \<and> key_eq kt (b_key (bs ! idx)) key)"

definition stop_result :: "int \<Rightarrow> 'v map_bucket list \<Rightarrow> nat \<Rightarrow> probe_end" where
  "stop_result kt bs idx = (if b_state (bs ! idx) = Empty then Missing idx else Found idx)"

lemma find_probe_run:
  assumes "cap = 2 ^ e" and "\<forall>j < d. \<not> find_stops kt bs key ((i + j) mod cap)"
  shows "find_probe kt bs cap key (i mod cap) = find_probe kt bs cap key ((i + d) mod cap)"
  using assms(2)
proof (induction d)
  case 0
  then show ?case by simp
next
  case (Suc d)
  then have "\<not> find_stops kt bs key ((i + d) mod cap)" by simp
  then have "find_probe kt bs cap key ((i + d) mod cap)
      = find_probe kt bs cap key ((i + Suc d) mod cap)"
    by (subst find_probe.simps) (auto simp: find_stops_def next_idx_shift [OF assms(1)])
  with Suc show ?case by simp
qed

lemma find_probe_stops:
  assumes "cap = 2 ^ e" and "\<forall>j < d. \<not> find_stops kt bs key ((i + j) mod cap)"
    and "find_stops kt bs key ((i + d) mod cap)"
  shows "find_probe kt bs cap key (i mod cap) = Some (stop_result kt bs ((i + d) mod cap))"
  using assms(3)
  unfolding find_probe_run [OF assms(1,2)]
  by (subst find_probe.simps) (auto simp: find_stops_def stop_result_def)

lemma rehash_probe_stops:
  assumes "cap = 2 ^ e" and "\<forall>j < d. b_state (bs ! ((i + j) mod cap)) = Occupied"
    and "b_state (bs ! ((i + d) mod cap)) \<noteq> Occupied"
  shows "rehash_probe bs cap (i mod cap) = Some ((i + d) mod cap)"
  using assms(2,3)
proof (induction d arbitrary: i)
  case 0
  then show ?case by (subst rehash_probe.simps) simp
next
  case (Suc d)
  have "rehash_probe bs cap (Suc i mod cap) = Some ((Suc i + d) mod cap)"
  proof (rule Suc.IH)
    show "\<forall>j<d. b_state (bs ! ((Suc i + j) mod cap)) = Occupied"
      using Suc.prems(1) by (auto dest: spec [of _ "Suc _"])
    show "b_state (bs ! ((Suc i + d) mod cap)) \<noteq> Occupied" using Suc.prems(2) by simp
  qed
  moreover have "b_state (bs ! (i mod cap)) = Occupied" using Suc.prems(1) by force
  moreover have "next_idx cap (i mod cap) = Suc i mod cap"
    using next_idx_shift [OF assms(1), of i 0] by simp
  ultimately show ?case by (subst rehash_probe.simps) simp
qed

lemma put_probe_found:
  assumes "cap = 2 ^ e" and "\<forall>j < d. \<not> find_stops kt bs key ((i + j) mod cap)"
    and "b_state (bs ! ((i + d) mod cap)) = Occupied"
    and "key_eq kt (b_key (bs ! ((i + d) mod cap))) key"
  shows "put_probe kt bs cap key (i mod cap) ft = Some (Found ((i + d) mod cap))"
  using assms(2,3,4)
proof (induction d arbitrary: i ft)
  case 0
  then show ?case by (subst put_probe.simps) simp
next
  case (Suc d)
  have step: "put_probe kt bs cap key (Suc i mod cap) ft' = Some (Found ((Suc i + d) mod cap))" for ft'
  proof (rule Suc.IH)
    show "\<forall>j<d. \<not> find_stops kt bs key ((Suc i + j) mod cap)"
      using Suc.prems(1) by (auto dest: spec [of _ "Suc _"])
  qed (use Suc.prems(2,3) in simp_all)
  have "\<not> find_stops kt bs key (i mod cap)" using Suc.prems(1) by force
  moreover have "next_idx cap (i mod cap) = Suc i mod cap"
    using next_idx_shift [OF assms(1), of i 0] by simp
  ultimately show ?case using step
    by (subst put_probe.simps) (auto simp: find_stops_def split: bucket_state.split)
qed

lemma put_probe_missing:
  assumes "cap = 2 ^ e" and "\<forall>j < d. \<not> find_stops kt bs key ((i + j) mod cap)"
    and "b_state (bs ! ((i + d) mod cap)) = Empty"
  shows "\<exists>j \<le> d. put_probe kt bs cap key (i mod cap) ft
           = Some (Missing (case ft of Some t \<Rightarrow> t | None \<Rightarrow> (i + j) mod cap))
         \<and> b_state (bs ! ((i + j) mod cap)) \<noteq> Occupied"
  using assms(2,3)
proof (induction d arbitrary: i ft)
  case 0
  then show ?case by (subst put_probe.simps) (simp split: option.split)
next
  case (Suc d)
  let ?ft = "if b_state (bs ! (i mod cap)) = Tombstone \<and> ft = None then Some (i mod cap) else ft"
  have "\<exists>j \<le> d. put_probe kt bs cap key (Suc i mod cap) ?ft
           = Some (Missing (case ?ft of Some t \<Rightarrow> t | None \<Rightarrow> (Suc i + j) mod cap))
         \<and> b_state (bs ! ((Suc i + j) mod cap)) \<noteq> Occupied"
  proof (rule Suc.IH)
    show "\<forall>j<d. \<not> find_stops kt bs key ((Suc i + j) mod cap)"
      using Suc.prems(1) by (auto dest: spec [of _ "Suc _"])
  qed (use Suc.prems(2) in simp_all)
  then obtain j where j: "j \<le> d"
      "put_probe kt bs cap key (Suc i mod cap) ?ft
         = Some (Missing (case ?ft of Some t \<Rightarrow> t | None \<Rightarrow> (Suc i + j) mod cap))"
      "b_state (bs ! ((Suc i + j) mod cap)) \<noteq> Occupied" by blast
  have ns: "\<not> find_stops kt bs key (i mod cap)" using Suc.prems(1) by force
  have nx: "next_idx cap (i mod cap) = Suc i mod cap"
    using next_idx_shift [OF assms(1), of i 0] by simp
  have here: "put_probe kt bs cap key (i mod cap) ft = put_probe kt bs cap key (Suc i mod cap) ?ft"
    using ns nx by (subst put_probe.simps) (auto simp: find_stops_def split: bucket_state.split)
  show ?case
  proof (cases "b_state (bs ! (i mod cap)) = Tombstone \<and> ft = None")
    case True
    with here j(2) show ?thesis by (intro exI [of _ 0]) simp
  next
    case False
    with here j show ?thesis by (intro exI [of _ "Suc j"]) (auto split: option.split)
  qed
qed

section \<open>Invariant and abstraction\<close>

definition key_ok :: "int \<Rightarrow> map_key \<Rightarrow> bool" where
  "key_ok kt k \<longleftrightarrow> hash_key kt k \<noteq> None"

definition key_home :: "int \<Rightarrow> map_key \<Rightarrow> nat" where
  "key_home kt k = unat (the (hash_key kt k))"

lemma key_eq_iff: "key_ok kt k1 \<Longrightarrow> key_ok kt k2 \<Longrightarrow> key_eq kt k1 k2 \<longleftrightarrow> k1 = k2"
  by (cases k1; cases k2) (auto simp: key_ok_def hash_key_def key_eq_def split: if_splits)

definition occupied_at :: "'v map_bucket list \<Rightarrow> nat \<Rightarrow> bool" where
  "occupied_at bs i \<longleftrightarrow> i < length bs \<and> b_state (bs ! i) = Occupied"

text \<open>
  Every occupied bucket holds a key of the map's kind, no empty bucket lies between the key's
  home and the bucket, and no key is stored twice.
\<close>

definition on_path :: "int \<Rightarrow> nat \<Rightarrow> 'v map_bucket list \<Rightarrow> map_key \<Rightarrow> nat \<Rightarrow> bool" where
  "on_path kt cap bs k i \<longleftrightarrow>
     (\<exists>d < cap. i = (key_home kt k + d) mod cap \<and>
        (\<forall>j < d. b_state (bs ! ((key_home kt k + j) mod cap)) \<noteq> Empty))"

definition probe_inv :: "int \<Rightarrow> nat \<Rightarrow> 'v map_bucket list \<Rightarrow> bool" where
  "probe_inv kt cap bs \<longleftrightarrow>
     length bs = cap \<and>
     (\<forall>i. occupied_at bs i \<longrightarrow> key_ok kt (b_key (bs ! i)) \<and> on_path kt cap bs (b_key (bs ! i)) i) \<and>
     (\<forall>i j. occupied_at bs i \<longrightarrow> occupied_at bs j \<longrightarrow> b_key (bs ! i) = b_key (bs ! j) \<longrightarrow> i = j)"

lemma probe_invI:
  assumes "length bs = cap"
    and "\<And>i. occupied_at bs i \<Longrightarrow> key_ok kt (b_key (bs ! i))"
    and "\<And>i. occupied_at bs i \<Longrightarrow> on_path kt cap bs (b_key (bs ! i)) i"
    and "\<And>i j. occupied_at bs i \<Longrightarrow> occupied_at bs j \<Longrightarrow> b_key (bs ! i) = b_key (bs ! j) \<Longrightarrow> i = j"
  shows "probe_inv kt cap bs"
  using assms unfolding probe_inv_def by blast

lemma probe_invD:
  assumes "probe_inv kt cap bs"
  shows "length bs = cap"
    and "occupied_at bs i \<Longrightarrow> key_ok kt (b_key (bs ! i))"
    and "occupied_at bs i \<Longrightarrow> on_path kt cap bs (b_key (bs ! i)) i"
    and "occupied_at bs i \<Longrightarrow> occupied_at bs j \<Longrightarrow> b_key (bs ! i) = b_key (bs ! j) \<Longrightarrow> i = j"
  using assms unfolding probe_inv_def by blast+

lemma on_path_mono:
  assumes "on_path kt cap bs k i"
    and "\<And>n. b_state (bs ! n) \<noteq> Empty \<Longrightarrow> b_state (bs' ! n) \<noteq> Empty"
  shows "on_path kt cap bs' k i"
  using assms unfolding on_path_def by blast

definition buckets_abs :: "'v map_bucket list \<Rightarrow> (map_key \<rightharpoonup> 'v option)" where
  "buckets_abs bs k =
     map_option b_value (find (\<lambda>b. b_state b = Occupied \<and> b_key b = k) bs)"

definition map_abs :: "'v cco_map \<Rightarrow> (map_key \<rightharpoonup> 'v option)" where
  "map_abs m = buckets_abs (m_buckets m)"

definition map_inv :: "'v cco_map \<Rightarrow> bool" where
  "map_inv m \<longleftrightarrow>
     (\<exists>e \<ge> 3. m_capacity m = 2 ^ e) \<and>
     probe_inv (m_key_type m) (m_capacity m) (m_buckets m) \<and>
     m_occupied m = count_if (\<lambda>b. b_state b = Occupied) (m_buckets m) \<and>
     m_tombstones m = count_if (\<lambda>b. b_state b = Tombstone) (m_buckets m) \<and>
     (m_occupied m + m_tombstones m) * 10 < m_capacity m * 7"

lemma buckets_abs_SomeI:
  assumes "probe_inv kt cap bs" and "occupied_at bs i"
  shows "buckets_abs bs (b_key (bs ! i)) = Some (b_value (bs ! i))"
proof -
  let ?P = "\<lambda>b. b_state b = Occupied \<and> b_key b = b_key (bs ! i)"
  have i: "i < length bs" "b_state (bs ! i) = Occupied" using assms(2) by (auto simp: occupied_at_def)
  then have "find ?P bs \<noteq> None" by (auto simp: find_None_iff)
  then obtain b where b: "find ?P bs = Some b" by blast
  then obtain j where "j < length bs" "?P (bs ! j)" "b = bs ! j" by (auto simp: find_Some_iff)
  moreover from this have "j = i"
    using assms i by (auto simp: probe_inv_def occupied_at_def)
  ultimately show ?thesis using b by (simp add: buckets_abs_def)
qed

lemma buckets_abs_NoneI:
  assumes "\<forall>i. occupied_at bs i \<longrightarrow> b_key (bs ! i) \<noteq> k"
  shows "buckets_abs bs k = None"
  using assms by (auto simp: buckets_abs_def find_None_iff in_set_conv_nth occupied_at_def)

lemma buckets_abs_SomeD:
  assumes "buckets_abs bs k = Some v"
  shows "\<exists>i. occupied_at bs i \<and> b_key (bs ! i) = k \<and> b_value (bs ! i) = v"
  using assms by (auto simp: buckets_abs_def find_Some_iff occupied_at_def)

lemma buckets_abs_eqI:
  assumes inv: "probe_inv kt cap bs"
    and in1: "\<And>i. occupied_at bs i \<Longrightarrow> f (b_key (bs ! i)) = Some (b_value (bs ! i))"
    and out: "\<And>k v. f k = Some v \<Longrightarrow> \<exists>i. occupied_at bs i \<and> b_key (bs ! i) = k"
  shows "buckets_abs bs = f"
proof
  fix k
  show "buckets_abs bs k = f k"
  proof (cases "\<exists>i. occupied_at bs i \<and> b_key (bs ! i) = k")
    case True
    then show ?thesis using buckets_abs_SomeI [OF inv] in1 by metis
  next
    case False
    then have "f k = None" using out by (metis not_None_eq)
    with False show ?thesis by (simp add: buckets_abs_NoneI)
  qed
qed

section \<open>Searching\<close>

lemma search_result:
  assumes cap: "cap = 2 ^ e" and inv: "probe_inv kt cap bs" and ok: "key_ok kt key"
    and ex: "\<exists>i < cap. b_state (bs ! i) = Empty"
  obtains d where "d < cap"
    and "\<forall>j < d. \<not> find_stops kt bs key ((key_home kt key + j) mod cap)"
    and "find_stops kt bs key ((key_home kt key + d) mod cap)"
    and "b_state (bs ! ((key_home kt key + d) mod cap)) = Occupied \<Longrightarrow>
           b_key (bs ! ((key_home kt key + d) mod cap)) = key"
    and "b_state (bs ! ((key_home kt key + d) mod cap)) = Empty \<Longrightarrow>
           \<forall>i. occupied_at bs i \<longrightarrow> b_key (bs ! i) \<noteq> key"
proof -
  let ?h = "key_home kt key"
  obtain k where "k < cap" "find_stops kt bs key k" using ex by (auto simp: find_stops_def)
  from first_stop [where P = "find_stops kt bs key", OF this, of ?h] obtain d where d: "d < cap"
      "find_stops kt bs key ((?h + d) mod cap)"
      "\<forall>j<d. \<not> find_stops kt bs key ((?h + j) mod cap)" by blast
  have len: "length bs = cap" using inv by (simp add: probe_inv_def)
  have pos: "0 < cap" using cap by simp
  have occ: "b_state (bs ! ((?h + d) mod cap)) = Occupied \<Longrightarrow> b_key (bs ! ((?h + d) mod cap)) = key"
  proof -
    assume o: "b_state (bs ! ((?h + d) mod cap)) = Occupied"
    then have "occupied_at bs ((?h + d) mod cap)" using len pos by (simp add: occupied_at_def)
    then have "key_ok kt (b_key (bs ! ((?h + d) mod cap)))" using inv by (simp add: probe_inv_def)
    moreover have "key_eq kt (b_key (bs ! ((?h + d) mod cap))) key"
      using d(2) o by (simp add: find_stops_def)
    ultimately show ?thesis using ok by (simp add: key_eq_iff)
  qed
  have empty: "\<forall>i. occupied_at bs i \<longrightarrow> b_key (bs ! i) \<noteq> key"
    if e: "b_state (bs ! ((?h + d) mod cap)) = Empty"
  proof (intro allI impI notI)
    fix i assume i: "occupied_at bs i" and k: "b_key (bs ! i) = key"
    obtain d' where d': "d' < cap" "i = (?h + d') mod cap"
        "\<forall>j < d'. b_state (bs ! ((?h + j) mod cap)) \<noteq> Empty"
      using probe_invD(3) [OF inv i] k unfolding on_path_def by blast
    have "find_stops kt bs key ((?h + d') mod cap)"
      using i k d'(2) ok by (simp add: find_stops_def occupied_at_def key_eq_iff)
    then have "\<not> d' < d" using d(3) by blast
    moreover have "d' \<noteq> d" using e i d'(2) by (auto simp: occupied_at_def)
    ultimately have "d < d'" by simp
    with d'(3) e show False by blast
  qed
  show thesis by (rule that [OF d(1) d(3) d(2) occ empty])
qed

section \<open>Storing\<close>

lemma occupied_at_update:
  assumes "idx < length bs"
  shows "occupied_at (bs[idx := b]) i \<longleftrightarrow> (if i = idx then b_state b = Occupied else occupied_at bs i)"
  using assms by (auto simp: occupied_at_def)

text \<open>
  Writing an occupied bucket for a key at an index of its probe sequence that no empty bucket
  precedes and no key occupies; and rewriting a bucket without making it empty or changing
  its key.
\<close>

lemma probe_inv_insert:
  assumes inv: "probe_inv kt cap bs" and ok: "key_ok kt key"
    and new: "\<forall>i. occupied_at bs i \<longrightarrow> b_key (bs ! i) \<noteq> key"
    and idx: "idx = (key_home kt key + d) mod cap" "d < cap"
    and free: "b_state (bs ! idx) \<noteq> Occupied"
    and path: "\<forall>j < d. b_state (bs ! ((key_home kt key + j) mod cap)) \<noteq> Empty"
    and b: "b_state b = Occupied" "b_key b = key"
  shows "probe_inv kt cap (bs[idx := b])"
proof -
  let ?bs = "bs[idx := b]"
  have len: "length bs = cap" using inv by (simp add: probe_inv_def)
  have il: "idx < length bs" using idx len by simp
  note occ = occupied_at_update [OF il, of b]
  have keep: "b_state (?bs ! n) \<noteq> Empty" if "b_state (bs ! n) \<noteq> Empty" for n
    using that il b by (cases "n = idx") auto
  have here: "on_path kt cap bs key idx" using idx path by (auto simp: on_path_def)
  have at: "?bs ! idx = b" using il by simp
  have old: "occupied_at bs i" "?bs ! i = bs ! i" if "occupied_at ?bs i" "i \<noteq> idx" for i
    using that occ by auto
  show ?thesis
  proof (rule probe_invI)
    fix i assume i: "occupied_at ?bs i"
    show "key_ok kt (b_key (?bs ! i))"
      by (cases "i = idx") (use ok b at i old probe_invD(2) [OF inv] in auto)
    show "on_path kt cap ?bs (b_key (?bs ! i)) i"
    proof (cases "i = idx")
      case True
      with on_path_mono [OF here keep] at b show ?thesis by simp
    next
      case False
      with on_path_mono [OF probe_invD(3) [OF inv old(1)] keep] i old(2) show ?thesis by simp
    qed
  next
    fix i j assume ij: "occupied_at ?bs i" "occupied_at ?bs j" "b_key (?bs ! i) = b_key (?bs ! j)"
    show "i = j"
    proof (cases "i = idx"; cases "j = idx")
      assume "i \<noteq> idx" "j \<noteq> idx"
      with ij old probe_invD(4) [OF inv, of i j] show ?thesis by simp
    qed (use ij old new b at in auto)
  qed (use len in simp)
qed

lemma buckets_abs_insert:
  assumes inv: "probe_inv kt cap bs" and inv': "probe_inv kt cap (bs[idx := b])"
    and il: "idx < length bs" and free: "b_state (bs ! idx) \<noteq> Occupied"
    and b: "b_state b = Occupied"
  shows "buckets_abs (bs[idx := b]) = (buckets_abs bs)(b_key b \<mapsto> b_value b)"
proof (rule buckets_abs_eqI [OF inv'])
  note occ = occupied_at_update [OF il, of b]
  have uniq: "b_key (bs ! i) \<noteq> b_key b" if "occupied_at bs i" for i
  proof
    assume "b_key (bs ! i) = b_key b"
    moreover have "i \<noteq> idx" using that free by (auto simp: occupied_at_def)
    ultimately have "b_key (bs[idx := b] ! i) = b_key (bs[idx := b] ! idx)" using il by simp
    moreover have "occupied_at (bs[idx := b]) i" "occupied_at (bs[idx := b]) idx"
      using that b occ [of i] occ [of idx] by (simp_all split: if_splits)
    ultimately show False using probe_invD(4) [OF inv'] \<open>i \<noteq> idx\<close> by blast
  qed
  show "((buckets_abs bs)(b_key b \<mapsto> b_value b)) (b_key (bs[idx := b] ! i))
        = Some (b_value (bs[idx := b] ! i))" if "occupied_at (bs[idx := b]) i" for i
  proof (cases "i = idx")
    case False
    with that occ have o: "occupied_at bs i" by simp
    show ?thesis using False uniq [OF o] buckets_abs_SomeI [OF inv o] by simp
  qed (use il in simp)
  show "\<exists>i. occupied_at (bs[idx := b]) i \<and> b_key (bs[idx := b] ! i) = k"
    if k: "((buckets_abs bs)(b_key b \<mapsto> b_value b)) k = Some v" for k v
  proof (cases "k = b_key b")
    case True
    then show ?thesis using occ b il by (intro exI [of _ idx]) auto
  next
    case False
    with k obtain i where "occupied_at bs i" "b_key (bs ! i) = k" by (auto dest: buckets_abs_SomeD)
    moreover from this free have "i \<noteq> idx" by (auto simp: occupied_at_def)
    ultimately show ?thesis using occ by (intro exI [of _ i]) auto
  qed
qed

text \<open>Replacing the value of an occupied bucket, and turning it into a tombstone.\<close>

lemma probe_inv_same_key:
  assumes inv: "probe_inv kt cap bs" and o: "occupied_at bs idx"
    and b: "b_state b = Occupied \<and> b_key b = b_key (bs ! idx) \<or> b_state b = Tombstone"
  shows "probe_inv kt cap (bs[idx := b])"
proof -
  let ?bs = "bs[idx := b]"
  have il: "idx < length bs" using o by (simp add: occupied_at_def)
  note occ = occupied_at_update [OF il, of b]
  have keep: "b_state (?bs ! n) \<noteq> Empty" if "b_state (bs ! n) \<noteq> Empty" for n
    using that il b by (cases "n = idx") auto
  have same: "occupied_at bs i" "b_key (?bs ! i) = b_key (bs ! i)" if "occupied_at ?bs i" for i
    by (cases "i = idx"; use that b o occ il in auto)+
  show ?thesis
  proof (rule probe_invI)
    fix i assume i: "occupied_at ?bs i"
    show "key_ok kt (b_key (?bs ! i))" using probe_invD(2) [OF inv same(1) [OF i]] same(2) [OF i] by simp
    show "on_path kt cap ?bs (b_key (?bs ! i)) i"
      using on_path_mono [OF probe_invD(3) [OF inv same(1) [OF i]] keep] same(2) [OF i] by simp
  next
    fix i j assume "occupied_at ?bs i" "occupied_at ?bs j" "b_key (?bs ! i) = b_key (?bs ! j)"
    then show "i = j" using same probe_invD(4) [OF inv, of i j] by simp
  qed (use probe_invD(1) [OF inv] in simp)
qed

lemma buckets_abs_same_key:
  assumes inv: "probe_inv kt cap bs" and o: "occupied_at bs idx"
    and b: "b_state b = Occupied \<and> b_key b = b_key (bs ! idx) \<or> b_state b = Tombstone"
  shows "buckets_abs (bs[idx := b])
       = (buckets_abs bs)(b_key (bs ! idx) := if b_state b = Occupied then Some (b_value b) else None)"
proof (rule buckets_abs_eqI [OF probe_inv_same_key [OF inv o b]])
  have il: "idx < length bs" using o by (simp add: occupied_at_def)
  note occ = occupied_at_update [OF il, of b]
  have uniq: "b_key (bs ! i) = b_key (bs ! idx) \<Longrightarrow> i = idx" if "occupied_at bs i" for i
    using that o probe_invD(4) [OF inv] by blast
  show "((buckets_abs bs)(b_key (bs ! idx) := if b_state b = Occupied then Some (b_value b) else None))
          (b_key (bs[idx := b] ! i)) = Some (b_value (bs[idx := b] ! i))"
    if "occupied_at (bs[idx := b]) i" for i
  proof (cases "i = idx")
    case True
    with that b occ il show ?thesis by auto
  next
    case False
    with that occ have o: "occupied_at bs i" by simp
    show ?thesis using False uniq [OF o] buckets_abs_SomeI [OF inv o] by auto
  qed
  show "\<exists>i. occupied_at (bs[idx := b]) i \<and> b_key (bs[idx := b] ! i) = k"
    if k: "((buckets_abs bs)(b_key (bs ! idx) := if b_state b = Occupied then Some (b_value b) else None)) k
             = Some v" for k v
  proof (cases "k = b_key (bs ! idx)")
    case True
    with k b occ il show ?thesis by (intro exI [of _ idx]) (auto split: if_splits)
  next
    case False
    with k obtain i where "occupied_at bs i" "b_key (bs ! i) = k" by (auto dest: buckets_abs_SomeD)
    with False occ show ?thesis by (intro exI [of _ i]) auto
  qed
qed

section \<open>Rehashing\<close>

abbreviation is_occ :: "'v map_bucket \<Rightarrow> bool" where
  "is_occ b \<equiv> b_state b = Occupied"

abbreviation is_tomb :: "'v map_bucket \<Rightarrow> bool" where
  "is_tomb b \<equiv> b_state b = Tombstone"

abbreviation bucket_entry :: "'v map_bucket \<Rightarrow> map_key \<times> 'v option" where
  "bucket_entry b \<equiv> (b_key b, b_value b)"

lemma buckets_abs_map_of: "buckets_abs bs = map_of (map bucket_entry (filter is_occ bs))"
proof
  fix k
  show "buckets_abs bs k = map_of (map bucket_entry (filter is_occ bs)) k"
    by (induction bs) (auto simp: buckets_abs_def)
qed

lemma buckets_abs_None_iff:
  assumes "probe_inv kt cap bs"
  shows "buckets_abs bs k = None \<longleftrightarrow> (\<forall>i. occupied_at bs i \<longrightarrow> b_key (bs ! i) \<noteq> k)"
  using buckets_abs_SomeI [OF assms] buckets_abs_NoneI [of bs k] by force

lemma home_idx_key_home:
  "hash_key kt k = Some h \<Longrightarrow> cap = 2 ^ e \<Longrightarrow> home_idx cap h = key_home kt k mod cap"
  by (simp add: home_idx_mod key_home_def)

definition no_tombs :: "'v map_bucket list \<Rightarrow> bool" where
  "no_tombs bs \<longleftrightarrow> count_if is_tomb bs = 0"

lemma no_tombs_nth: "no_tombs bs \<Longrightarrow> i < length bs \<Longrightarrow> \<not> is_tomb (bs ! i)"
  by (simp add: no_tombs_def count_if_def filter_empty_conv)

lemma rehash_insert:
  assumes cap: "cap = 2 ^ e" and inv: "probe_inv kt cap bs" and nt: "no_tombs bs"
    and room: "count_if is_occ bs < cap" and h: "hash_key kt (b_key b) = Some h"
    and new: "buckets_abs bs (b_key b) = None" and b: "is_occ b"
  obtains idx where "rehash_probe bs cap (home_idx cap h) = Some idx" and "idx < length bs"
    and "probe_inv kt cap (bs[idx := b])" and "no_tombs (bs[idx := b])"
    and "count_if is_occ (bs[idx := b]) = Suc (count_if is_occ bs)"
    and "buckets_abs (bs[idx := b]) = (buckets_abs bs)(b_key b \<mapsto> b_value b)"
proof -
  let ?h = "key_home kt (b_key b)"
  have len: "length bs = cap" by (rule probe_invD(1) [OF inv])
  from room len have "count_if is_occ bs < length bs" by simp
  then obtain k where "k < length bs" "\<not> is_occ (bs ! k)" using count_if_less_ex by blast
  then have k: "k < cap" "\<not> is_occ (bs ! k)" using len by simp_all
  obtain d where d: "d < cap"
      "\<not> is_occ (bs ! ((?h + d) mod cap))" "\<forall>j < d. is_occ (bs ! ((?h + j) mod cap))"
    by (rule first_stop [where P = "\<lambda>k. \<not> is_occ (bs ! k)", OF k, of ?h]) simp
  define idx where "idx = (?h + d) mod cap"
  have il: "idx < length bs" using len d(1) by (simp add: idx_def)
  have probe: "rehash_probe bs cap (home_idx cap h) = Some idx"
    unfolding home_idx_key_home [OF h cap] idx_def
    by (rule rehash_probe_stops [OF cap d(3) d(2)])
  have none: "\<forall>i. occupied_at bs i \<longrightarrow> b_key (bs ! i) \<noteq> b_key b"
    using new buckets_abs_None_iff [OF inv] by blast
  have inv': "probe_inv kt cap (bs[idx := b])"
    by (rule probe_inv_insert [OF inv _ none idx_def d(1)])
      (use h d b in \<open>auto simp: key_ok_def idx_def\<close>)
  have free: "b_state (bs ! idx) \<noteq> Occupied" using d(2) by (simp add: idx_def)
  have "no_tombs (bs[idx := b])"
    using count_if_update [OF il, of is_tomb b] nt b by (simp add: no_tombs_def)
  moreover have "count_if is_occ (bs[idx := b]) = Suc (count_if is_occ bs)"
    using count_if_update [OF il, of is_occ b] free b by simp
  moreover have "buckets_abs (bs[idx := b]) = (buckets_abs bs)(b_key b \<mapsto> b_value b)"
    by (rule buckets_abs_insert [OF inv inv' il free b])
  ultimately show thesis using that probe il inv' by blast
qed

lemma rehash_loop_correct:
  assumes cap: "cap = 2 ^ e"
  shows "\<lbrakk> probe_inv kt cap bs; no_tombs bs; count_if is_occ bs + count_if is_occ old < cap;
      \<forall>b \<in> set old. is_occ b \<longrightarrow> key_ok kt (b_key b) \<and> buckets_abs bs (b_key b) = None;
      distinct (map b_key (filter is_occ old)) \<rbrakk> \<Longrightarrow>
    \<exists>bs'. rehash_loop kt cap old (bs, occ) = Some (Inr (bs', occ + count_if is_occ old)) \<and>
      probe_inv kt cap bs' \<and> no_tombs bs' \<and>
      count_if is_occ bs' = count_if is_occ bs + count_if is_occ old \<and>
      buckets_abs bs' = buckets_abs bs ++ map_of (map bucket_entry (filter is_occ old))"
proof (induction old arbitrary: bs occ)
  case Nil
  then show ?case by simp
next
  case (Cons b old)
  show ?case
  proof (cases "is_occ b")
    case False
    with Cons show ?thesis by simp
  next
    case True
    let ?b = "\<lparr>b_state = Occupied, b_key = b_key b, b_value = b_value b\<rparr>"
    from Cons.prems(4) True obtain h where h: "hash_key kt (b_key b) = Some h"
      and new: "buckets_abs bs (b_key b) = None" by (auto simp: key_ok_def)
    have room: "count_if is_occ bs < cap" using Cons.prems(3) True by simp
    obtain idx where idx: "rehash_probe bs cap (home_idx cap h) = Some idx"
        "probe_inv kt cap (bs[idx := ?b])" "no_tombs (bs[idx := ?b])"
        "count_if is_occ (bs[idx := ?b]) = Suc (count_if is_occ bs)"
        "buckets_abs (bs[idx := ?b]) = (buckets_abs bs)(b_key b \<mapsto> b_value b)"
      using rehash_insert [OF cap Cons.prems(1,2) room, of ?b] h new by auto
    have rest: "\<forall>c \<in> set old. is_occ c \<longrightarrow>
        key_ok kt (b_key c) \<and> buckets_abs (bs[idx := ?b]) (b_key c) = None"
    proof (intro ballI impI)
      fix c assume c: "c \<in> set old" "is_occ c"
      then have "b_key c \<in> set (map b_key (filter is_occ old))" by simp
      with Cons.prems(5) True have "b_key c \<noteq> b_key b" by auto
      moreover from c Cons.prems(4) have "key_ok kt (b_key c) \<and> buckets_abs bs (b_key c) = None" by simp
      ultimately show "key_ok kt (b_key c) \<and> buckets_abs (bs[idx := ?b]) (b_key c) = None"
        by (simp add: idx(5))
    qed
    have cnt: "count_if is_occ (bs[idx := ?b]) + count_if is_occ old < cap"
      using Cons.prems(3) True idx(4) by simp
    have dist: "distinct (map b_key (filter is_occ old))" using Cons.prems(5) True by simp
    obtain bs' where bs': "rehash_loop kt cap old (bs[idx := ?b], occ + 1)
          = Some (Inr (bs', occ + 1 + count_if is_occ old))"
        "probe_inv kt cap bs'" "no_tombs bs'"
        "count_if is_occ bs' = count_if is_occ (bs[idx := ?b]) + count_if is_occ old"
        "buckets_abs bs' = buckets_abs (bs[idx := ?b]) ++ map_of (map bucket_entry (filter is_occ old))"
      using Cons.IH [OF idx(2,3) cnt rest dist, of "occ + 1"] by blast
    have key_fresh: "map_of (map bucket_entry (filter is_occ old)) (b_key b) = None"
      using Cons.prems(5) True by (auto simp: map_of_eq_None_iff image_iff)
    have abs: "buckets_abs bs' = buckets_abs bs ++ map_of (map bucket_entry (filter is_occ (b # old)))"
      using bs'(5) idx(5) True key_fresh
      by (auto simp: fun_eq_iff map_add_def split: option.split)
    show ?thesis
      by (intro exI [of _ bs'] conjI abs) (use bs'(1-4) idx(1,4) True h in simp_all)
  qed
qed

lemma distinct_occupied_keys:
  assumes "\<And>i j. occupied_at bs i \<Longrightarrow> occupied_at bs j \<Longrightarrow> b_key (bs ! i) = b_key (bs ! j) \<Longrightarrow> i = j"
  shows "distinct (map b_key (filter is_occ bs))"
  using assms
proof (induction bs)
  case Nil
  then show ?case by simp
next
  case (Cons b bs)
  have "i = j" if "occupied_at bs i" "occupied_at bs j" "b_key (bs ! i) = b_key (bs ! j)" for i j
    using Cons.prems [of "Suc i" "Suc j"] that by (simp add: occupied_at_def)
  then have IH: "distinct (map b_key (filter is_occ bs))" by (rule Cons.IH)
  have "b_key b \<noteq> b_key c" if "is_occ b" "c \<in> set bs" "is_occ c" for c
  proof
    assume eq: "b_key b = b_key c"
    from that obtain i where "i < length bs" "bs ! i = c" by (auto simp: in_set_conv_nth)
    with that eq Cons.prems [of 0 "Suc i"] show False by (simp add: occupied_at_def)
  qed
  with IH show ?case by auto
qed

lemma probe_inv_empty: "probe_inv kt cap (replicate cap empty_bucket)"
  by (rule probe_invI) (auto simp: occupied_at_def empty_bucket_def)

lemma buckets_abs_empty: "buckets_abs (replicate cap empty_bucket) = Map.empty"
  by (simp add: buckets_abs_map_of empty_bucket_def)

theorem map_rehash_correct:
  assumes "map_inv m"
  shows "\<exists>m'. map_rehash m = Some (Inr m') \<and> map_inv m' \<and> map_abs m' = map_abs m \<and>
           m_key_type m' = m_key_type m \<and> m_capacity m' = 2 * m_capacity m \<and>
           m_occupied m' = m_occupied m \<and> m_tombstones m' = 0"
proof -
  let ?kt = "m_key_type m" and ?old = "m_buckets m" and ?cap = "m_capacity m * 2"
  let ?new = "replicate ?cap empty_bucket :: 'a map_bucket list"
  obtain e where e: "3 \<le> e" "m_capacity m = 2 ^ e" using assms by (auto simp: map_inv_def)
  have inv: "probe_inv ?kt (m_capacity m) ?old" using assms by (simp add: map_inv_def)
  have cap: "?cap = 2 ^ Suc e" using e by simp
  have occ: "m_occupied m = count_if is_occ ?old" using assms by (simp add: map_inv_def)
  have load: "m_occupied m * 10 < m_capacity m * 7" using assms by (simp add: map_inv_def)
  have room: "count_if is_occ ?new + count_if is_occ ?old < ?cap"
    using occ load by (simp add: empty_bucket_def)
  have keys: "\<forall>b \<in> set ?old. is_occ b \<longrightarrow> key_ok ?kt (b_key b) \<and> buckets_abs ?new (b_key b) = None"
    using probe_invD(2) [OF inv] by (auto simp: buckets_abs_empty in_set_conv_nth occupied_at_def)
  have dist: "distinct (map b_key (filter is_occ ?old))"
    by (rule distinct_occupied_keys) (rule probe_invD(4) [OF inv])
  have nt: "no_tombs ?new" by (simp add: no_tombs_def empty_bucket_def)
  obtain bs' where bs': "rehash_loop ?kt ?cap ?old (?new, 0) = Some (Inr (bs', 0 + count_if is_occ ?old))"
      "probe_inv ?kt ?cap bs'" "no_tombs bs'"
      "count_if is_occ bs' = count_if is_occ ?new + count_if is_occ ?old"
      "buckets_abs bs' = buckets_abs ?new ++ map_of (map bucket_entry (filter is_occ ?old))"
    using rehash_loop_correct [OF cap probe_inv_empty nt room keys dist, of 0] by blast
  let ?m = "m\<lparr>m_buckets := bs', m_capacity := ?cap, m_occupied := m_occupied m, m_tombstones := 0\<rparr>"
  have "map_rehash m = Some (Inr ?m)" using bs'(1) occ by (simp add: map_rehash_def)
  moreover have "map_inv ?m"
    using bs' occ load cap e(1) unfolding map_inv_def
    by (auto simp: no_tombs_def empty_bucket_def mult.commute [of _ 2] intro!: exI [of _ "Suc e"])
  moreover have "map_abs ?m = map_abs m"
    using bs'(5) by (simp add: map_abs_def buckets_abs_empty buckets_abs_map_of [of ?old])
  ultimately show ?thesis by (intro exI [of _ ?m]) simp
qed

section \<open>The operations against the abstract map\<close>

lemma map_inv_has_empty:
  assumes "map_inv m"
  shows "\<exists>i < m_capacity m. b_state (m_buckets m ! i) = Empty"
proof -
  let ?bs = "m_buckets m"
  have len: "length ?bs = m_capacity m" using assms by (simp add: map_inv_def probe_inv_def)
  have split: "count_if (\<lambda>b. b_state b \<noteq> Empty) bs = count_if is_occ bs + count_if is_tomb bs"
    for bs :: "'a map_bucket list"
  proof (induction bs)
    case (Cons b bs)
    then show ?case by (cases "b_state b") auto
  qed simp
  have "count_if (\<lambda>b. b_state b \<noteq> Empty) ?bs < length ?bs"
    using assms unfolding split len map_inv_def by auto
  then show ?thesis using count_if_less_ex [of "\<lambda>b. b_state b \<noteq> Empty" ?bs] len by auto
qed

text \<open>What the shared search returns: the bucket of a stored key, or that the key is missing.\<close>

lemma map_find_correct:
  assumes inv: "map_inv m" and ok: "key_ok (m_key_type m) k"
  shows "(\<exists>idx. map_find m k = Some (Inr (Found idx)) \<and> occupied_at (m_buckets m) idx \<and>
             b_key (m_buckets m ! idx) = k \<and> map_abs m k = Some (b_value (m_buckets m ! idx))) \<or>
         (\<exists>idx. map_find m k = Some (Inr (Missing idx)) \<and> map_abs m k = None)"
proof -
  let ?kt = "m_key_type m" and ?cap = "m_capacity m" and ?bs = "m_buckets m"
  let ?h = "key_home ?kt k"
  obtain e where e: "?cap = 2 ^ e" using inv by (auto simp: map_inv_def)
  have pinv: "probe_inv ?kt ?cap ?bs" using inv by (simp add: map_inv_def)
  obtain h where h: "hash_key ?kt k = Some h" using ok by (auto simp: key_ok_def)
  from search_result [OF e pinv ok map_inv_has_empty [OF inv]] obtain d where
    d: "d < ?cap" "\<forall>j<d. \<not> find_stops ?kt ?bs k ((?h + j) mod ?cap)"
      "find_stops ?kt ?bs k ((?h + d) mod ?cap)"
      "b_state (?bs ! ((?h + d) mod ?cap)) = Occupied \<Longrightarrow> b_key (?bs ! ((?h + d) mod ?cap)) = k"
      "b_state (?bs ! ((?h + d) mod ?cap)) = Empty \<Longrightarrow> \<forall>i. occupied_at ?bs i \<longrightarrow> b_key (?bs ! i) \<noteq> k"
    by metis
  let ?i = "(?h + d) mod ?cap"
  have find: "map_find m k = Some (Inr (stop_result ?kt ?bs ?i))"
    using find_probe_stops [OF e d(2,3)] h by (simp add: map_find_def home_idx_key_home [OF h e])
  show ?thesis
  proof (cases "b_state (?bs ! ?i) = Empty")
    case True
    with find d(5) show ?thesis by (simp add: stop_result_def map_abs_def buckets_abs_NoneI)
  next
    case False
    with d(3) have o: "b_state (?bs ! ?i) = Occupied" by (simp add: find_stops_def)
    then have at: "occupied_at ?bs ?i"
      using probe_invD(1) [OF pinv] e by (simp add: occupied_at_def)
    from buckets_abs_SomeI [OF pinv at] d(4) [OF o] at find False show ?thesis
      by (auto simp: stop_result_def map_abs_def)
  qed
qed

lemma map_get_spec:
  assumes "map_inv m" and "key_ok (m_key_type m) k"
  shows "map_get (Some m) k
       = Some (case map_abs m k of None \<Rightarrow> Inl Exit | Some v \<Rightarrow> Inr v)"
  using map_find_correct [OF assms] by (auto simp: map_get_def)

lemma map_has_spec:
  assumes "map_inv m" and "key_ok (m_key_type m) k"
  shows "map_has (Some m) k = Some (Inr (map_abs m k \<noteq> None))"
  using map_find_correct [OF assms] by (auto simp: map_has_def)

lemma map_remove_spec:
  assumes inv: "map_inv m" and ok: "key_ok (m_key_type m) k"
  shows "case map_abs m k of
           None \<Rightarrow> map_remove (Some m) k = Some (Inl Exit)
         | Some v \<Rightarrow> (\<exists>m'. map_remove (Some m) k
                = Some (Inr (v, m', if m_key_type m = 1 then [k] else [])) \<and>
              map_inv m' \<and> m_key_type m' = m_key_type m \<and> map_abs m' = (map_abs m)(k := None))"
  using map_find_correct [OF assms]
proof (elim disjE exE conjE)
  fix idx assume f: "map_find m k = Some (Inr (Found idx))" and o: "occupied_at (m_buckets m) idx"
    and key: "b_key (m_buckets m ! idx) = k" and v: "map_abs m k = Some (b_value (m_buckets m ! idx))"
  let ?t = "\<lparr>b_state = Tombstone, b_key = null_key, b_value = None\<rparr> :: 'a map_bucket"
  let ?m = "m\<lparr>m_buckets := (m_buckets m)[idx := ?t], m_occupied := m_occupied m - 1,
              m_tombstones := m_tombstones m + 1\<rparr>"
  have pinv: "probe_inv (m_key_type m) (m_capacity m) (m_buckets m)" using inv by (simp add: map_inv_def)
  have il: "idx < length (m_buckets m)" "is_occ (m_buckets m ! idx)" using o by (auto simp: occupied_at_def)
  have "map_inv ?m"
    using inv probe_inv_same_key [OF pinv o, of ?t]
      count_if_update [OF il(1), of is_occ ?t] count_if_update [OF il(1), of is_tomb ?t] il(2)
    by (auto simp: map_inv_def)
  moreover have "map_abs ?m = (map_abs m)(k := None)"
    using buckets_abs_same_key [OF pinv o, of ?t] key by (simp add: map_abs_def)
  ultimately show ?thesis using f v key by (simp add: map_remove_def Let_def)
next
  fix idx assume "map_find m k = Some (Inr (Missing idx))" "map_abs m k = None"
  then show ?thesis by (simp add: map_remove_def)
qed

definition freed_by_put :: "'v cco_map \<Rightarrow> map_key \<Rightarrow> bool \<Rightarrow> 'v list" where
  "freed_by_put m k has_free_fn =
     (if has_free_fn then (case map_abs m k of Some (Some v) \<Rightarrow> [v] | _ \<Rightarrow> []) else [])"

lemma map_put_core_spec:
  assumes inv: "map_inv m" and ok: "key_ok (m_key_type m) k"
    and room: "(m_occupied m + m_tombstones m + 1) * 10 < m_capacity m * 7"
  shows "\<exists>m'. map_put_core m k v ff = Some (Inr (m', freed_by_put m k ff)) \<and> map_inv m' \<and>
           m_key_type m' = m_key_type m \<and> map_abs m' = (map_abs m)(k \<mapsto> v)"
proof -
  let ?kt = "m_key_type m" and ?cap = "m_capacity m" and ?bs = "m_buckets m"
  let ?h = "key_home ?kt k"
  obtain e where e: "?cap = 2 ^ e" using inv by (auto simp: map_inv_def)
  have pinv: "probe_inv ?kt ?cap ?bs" using inv by (simp add: map_inv_def)
  have len: "length ?bs = ?cap" by (rule probe_invD(1) [OF pinv])
  obtain h where h: "hash_key ?kt k = Some h" using ok by (auto simp: key_ok_def)
  note home = home_idx_key_home [OF h e]
  from search_result [OF e pinv ok map_inv_has_empty [OF inv]] obtain d where
    d: "d < ?cap" "\<forall>j<d. \<not> find_stops ?kt ?bs k ((?h + j) mod ?cap)"
      "find_stops ?kt ?bs k ((?h + d) mod ?cap)"
      "b_state (?bs ! ((?h + d) mod ?cap)) = Occupied \<Longrightarrow> b_key (?bs ! ((?h + d) mod ?cap)) = k"
      "b_state (?bs ! ((?h + d) mod ?cap)) = Empty \<Longrightarrow> \<forall>i. occupied_at ?bs i \<longrightarrow> b_key (?bs ! i) \<noteq> k"
    by metis
  let ?i = "(?h + d) mod ?cap"
  have il: "?i < length ?bs" using len e by simp
  show ?thesis
  proof (cases "b_state (?bs ! ?i) = Empty")
    case False
    with d(3) have o: "is_occ (?bs ! ?i)" and keq: "key_eq ?kt (b_key (?bs ! ?i)) k"
      by (simp_all add: find_stops_def)
    have at: "occupied_at ?bs ?i" using o il by (simp add: occupied_at_def)
    note key = d(4) [OF o]
    let ?b = "(?bs ! ?i)\<lparr>b_value := v\<rparr>"
    let ?m = "m\<lparr>m_buckets := ?bs[?i := ?b]\<rparr>"
    have same: "b_state ?b = Occupied \<and> b_key ?b = b_key (?bs ! ?i) \<or> b_state ?b = Tombstone"
      using o by simp
    have "put_probe ?kt ?bs ?cap k (home_idx ?cap h) None = Some (Found ?i)"
      unfolding home by (rule put_probe_found [OF e d(2) o keq])
    moreover have "map_abs m k = Some (b_value (?bs ! ?i))"
      using buckets_abs_SomeI [OF pinv at] key by (simp add: map_abs_def)
    ultimately have "map_put_core m k v ff = Some (Inr (?m, freed_by_put m k ff))"
      using h by (auto simp: map_put_core_def freed_by_put_def Let_def split: option.split)
    moreover have "map_inv ?m"
      using inv probe_inv_same_key [OF pinv at same] o
        count_if_update [OF il, of is_occ ?b] count_if_update [OF il, of is_tomb ?b]
      by (auto simp: map_inv_def)
    moreover have "map_abs ?m = (map_abs m)(k \<mapsto> v)"
      using buckets_abs_same_key [OF pinv at same] o key by (simp add: map_abs_def)
    ultimately show ?thesis by (intro exI [of _ ?m]) simp
  next
    case True
    note none = d(5) [OF True]
    obtain j where j: "j \<le> d"
        "put_probe ?kt ?bs ?cap k (?h mod ?cap) None = Some (Missing ((?h + j) mod ?cap))"
        "\<not> is_occ (?bs ! ((?h + j) mod ?cap))"
      using put_probe_missing [OF e d(2) True, of None] by auto
    let ?x = "(?h + j) mod ?cap"
    have xl: "?x < length ?bs" using len e by simp
    let ?b = "\<lparr>b_state = Occupied, b_key = k, b_value = v\<rparr>"
    let ?m = "m\<lparr>m_tombstones := (if is_tomb (?bs ! ?x) then m_tombstones m - 1 else m_tombstones m),
                m_buckets := ?bs[?x := ?b], m_occupied := m_occupied m + 1\<rparr>"
    have absent: "map_abs m k = None" using none by (simp add: map_abs_def buckets_abs_NoneI)
    have "map_put_core m k v ff = Some (Inr (?m, freed_by_put m k ff))"
      using h j(2) absent by (simp add: map_put_core_def freed_by_put_def home)
    moreover have path: "\<forall>j' < j. b_state (?bs ! ((?h + j') mod ?cap)) \<noteq> Empty"
      using d(2) j(1) by (auto simp: find_stops_def)
    have pinv': "probe_inv ?kt ?cap (?bs[?x := ?b])"
      by (rule probe_inv_insert [OF pinv ok none refl _ j(3) path]) (use j(1) d(1) in auto)
    have "m_tombstones m > 0" if "is_tomb (?bs ! ?x)"
      using count_if_update [OF xl, of is_tomb ?b] that inv by (auto simp: map_inv_def)
    then have "map_inv ?m"
      using inv pinv' j(3) room
        count_if_update [OF xl, of is_occ ?b] count_if_update [OF xl, of is_tomb ?b]
      by (auto simp: map_inv_def)
    moreover have "map_abs ?m = (map_abs m)(k \<mapsto> v)"
      using buckets_abs_insert [OF pinv pinv' xl j(3)] by (simp add: map_abs_def)
    ultimately show ?thesis by (intro exI [of _ ?m]) simp
  qed
qed

lemma map_put_nonnull_spec:
  assumes inv: "map_inv m" and ok: "key_ok (m_key_type m) k"
  shows "\<exists>m'. map_put_nonnull m k v ff = Some (Inr (m', freed_by_put m k ff)) \<and> map_inv m' \<and>
           m_key_type m' = m_key_type m \<and> map_abs m' = (map_abs m)(k \<mapsto> v)"
proof (cases "m_capacity m * 7 \<le> (m_occupied m + m_tombstones m + 1) * 10")
  case False
  then show ?thesis using map_put_core_spec [OF inv ok, of v ff] by (simp add: map_put_nonnull_def)
next
  case True
  obtain m1 where m1: "map_rehash m = Some (Inr m1)" "map_inv m1" "map_abs m1 = map_abs m"
      "m_key_type m1 = m_key_type m" "m_capacity m1 = 2 * m_capacity m"
      "m_occupied m1 = m_occupied m" "m_tombstones m1 = 0"
    using map_rehash_correct [OF inv] by blast
  obtain e where "3 \<le> e" "m_capacity m = 2 ^ e" using inv by (auto simp: map_inv_def)
  then have "8 \<le> m_capacity m" using power_increasing [of 3 e "2 :: nat"] by simp
  moreover have "m_occupied m * 10 < m_capacity m * 7" using inv by (simp add: map_inv_def)
  ultimately have "(m_occupied m1 + m_tombstones m1 + 1) * 10 < m_capacity m1 * 7"
    using m1 by simp
  moreover have "freed_by_put m1 k ff = freed_by_put m k ff" by (simp add: freed_by_put_def m1(3))
  ultimately show ?thesis
    using map_put_core_spec [OF m1(2), of k v ff] ok m1 True by (simp add: map_put_nonnull_def)
qed

lemma map_new_spec: "map_inv (map_new kt)" "map_abs (map_new kt) = Map.empty" "m_key_type (map_new kt) = kt"
proof -
  show "map_inv (map_new kt)"
    using probe_inv_empty [of kt 8]
    by (auto simp: map_inv_def map_new_def empty_bucket_def intro!: exI [of _ 3])
  show "map_abs (map_new kt) = Map.empty" by (simp add: map_abs_def map_new_def buckets_abs_empty)
  show "m_key_type (map_new kt) = kt" by (simp add: map_new_def)
qed

section \<open>Programs over a map\<close>

text \<open>
  A client is a sequence of operations on one map. The specification is a partial function
  from keys to value pointers: \<open>get\<close> and \<open>remove\<close> of a missing key exit, \<open>put\<close> reports the
  value it destroys, \<open>remove\<close> the string key it frees.
\<close>

datatype 'v map_op =
    Op_Put map_key "'v option" bool
  | Op_Get map_key
  | Op_Has map_key
  | Op_Remove map_key

datatype 'v map_obs =
    Obs_Put "'v list"
  | Obs_Get "'v option"
  | Obs_Has bool
  | Obs_Remove "'v option" "map_key list"

fun op_key :: "'v map_op \<Rightarrow> map_key" where
  "op_key (Op_Put k v ff) = k"
| "op_key (Op_Get k) = k"
| "op_key (Op_Has k) = k"
| "op_key (Op_Remove k) = k"

fun map_step :: "'v cco_map \<Rightarrow> 'v map_op \<Rightarrow> (map_error + 'v cco_map \<times> 'v map_obs) option" where
  "map_step m (Op_Put k v ff) =
     (case map_put (Some m) k v ff of
        None \<Rightarrow> None
      | Some (Inl e) \<Rightarrow> Some (Inl e)
      | Some (Inr (None, freed)) \<Rightarrow> Some (Inl Undefined)
      | Some (Inr (Some m', freed)) \<Rightarrow> Some (Inr (m', Obs_Put freed)))"
| "map_step m (Op_Get k) =
     map_option (map_sum id (\<lambda>v. (m, Obs_Get v))) (map_get (Some m) k)"
| "map_step m (Op_Has k) =
     map_option (map_sum id (\<lambda>b. (m, Obs_Has b))) (map_has (Some m) k)"
| "map_step m (Op_Remove k) =
     map_option (map_sum id (\<lambda>(v, m', ks). (m', Obs_Remove v ks))) (map_remove (Some m) k)"

type_synonym 'v map_spec = "int \<times> (map_key \<rightharpoonup> 'v option)"

fun spec_step :: "'v map_spec \<Rightarrow> 'v map_op \<Rightarrow> map_error + 'v map_spec \<times> 'v map_obs" where
  "spec_step (kt, f) (Op_Put k v ff) =
     Inr ((kt, f(k \<mapsto> v)),
          Obs_Put (if ff then (case f k of Some (Some w) \<Rightarrow> [w] | _ \<Rightarrow> []) else []))"
| "spec_step (kt, f) (Op_Get k) =
     (case f k of None \<Rightarrow> Inl Exit | Some v \<Rightarrow> Inr ((kt, f), Obs_Get v))"
| "spec_step (kt, f) (Op_Has k) = Inr ((kt, f), Obs_Has (f k \<noteq> None))"
| "spec_step (kt, f) (Op_Remove k) =
     (case f k of None \<Rightarrow> Inl Exit
      | Some v \<Rightarrow> Inr ((kt, f(k := None)), Obs_Remove v (if kt = 1 then [k] else [])))"

definition map_alpha :: "'v cco_map \<Rightarrow> 'v map_spec" where
  "map_alpha m = (m_key_type m, map_abs m)"

definition op_valid :: "'v map_spec \<Rightarrow> 'v map_op \<Rightarrow> bool" where
  "op_valid s i \<longleftrightarrow> key_ok (fst s) (op_key i)"

lemma spec_step_kind: "spec_step s i = Inr (s', out) \<Longrightarrow> fst s' = fst s"
  by (cases s; cases i) (auto split: option.splits)

lemma map_step_refines:
  assumes inv: "map_inv m" and ok: "op_valid (map_alpha m) i"
  shows "case spec_step (map_alpha m) i of
           Inl e \<Rightarrow> map_step m i = Some (Inl e)
         | Inr (s', out) \<Rightarrow> (\<exists>m'. map_step m i = Some (Inr (m', out)) \<and> map_inv m' \<and> map_alpha m' = s')"
proof (cases i)
  case (Op_Put k v ff)
  with map_put_nonnull_spec [OF inv, of k v ff] ok show ?thesis
    by (fastforce simp: map_put_def map_alpha_def op_valid_def freed_by_put_def)
next
  case (Op_Get k)
  with map_get_spec [OF inv, of k] inv ok show ?thesis
    by (auto simp: map_alpha_def op_valid_def split: option.split)
next
  case (Op_Has k)
  with map_has_spec [OF inv, of k] inv ok show ?thesis
    by (auto simp: map_alpha_def op_valid_def)
next
  case (Op_Remove k)
  with map_remove_spec [OF inv, of k] ok show ?thesis
    by (fastforce simp: map_alpha_def op_valid_def split: option.splits)
qed

interpretation map_runs: run_refinement map_inv map_alpha op_valid map_step spec_step
proof
  show "map_step m i = Some (Inl e)"
    if "map_inv m" "op_valid (map_alpha m) i" "spec_step (map_alpha m) i = Inl e"
    for m :: "'v cco_map" and i e
    using map_step_refines [OF that(1,2)] that(3) by simp
  show "\<exists>m'. map_step m i = Some (Inr (m', out)) \<and> map_inv m' \<and> map_alpha m' = s'"
    if "map_inv m" "op_valid (map_alpha m) i" "spec_step (map_alpha m) i = Inr (s', out)"
    for m :: "'v cco_map" and i s' out
    using map_step_refines [OF that(1,2)] that(3) by simp
  show "op_valid s' i" if "op_valid s i" "spec_step s j = Inr (s', out)"
    for s s' :: "'v map_spec" and i j out
    using that(1) spec_step_kind [OF that(2)] by (simp add: op_valid_def)
qed

text \<open>
  C3. Every sequence of put, get, has and remove calls on a fresh map, with keys of the map's
  kind, returns (no probing loop runs forever) and shows exactly the outputs, destroyed
  values, freed keys and exits of the same sequence on a partial function.
\<close>

theorem map_program_refines:
  assumes "\<forall>i \<in> set is. key_ok kt (op_key i)"
  shows "\<exists>r. run_concrete map_step (map_new kt) is
             = Some (fst (run_abstract spec_step (kt, Map.empty) is), r) \<and>
           map_sum id map_alpha r = snd (run_abstract spec_step (kt, Map.empty) is) \<and>
           (\<forall>m'. r = Inr m' \<longrightarrow> map_inv m')"
proof -
  have alpha: "map_alpha (map_new kt) = (kt, Map.empty)"
    by (simp add: map_alpha_def map_new_spec)
  show ?thesis
    using map_runs.run_refines [of "map_new kt" "is"] assms
    by (simp add: alpha map_new_spec op_valid_def)
qed

theorem map_program_refines_witness:
  "\<exists>r. run_concrete map_step (map_new 0)
      [Op_Put (K_Int 3) (Some (7::nat)) True, Op_Put (K_Int 3) (Some 8) True, Op_Get (K_Int 3),
       Op_Remove (K_Int 3), Op_Has (K_Int 3), Op_Get (K_Int 3)]
    = Some ([Obs_Put [], Obs_Put [7], Obs_Get (Some 8), Obs_Remove (Some 8) [], Obs_Has False], r)
    \<and> map_sum id map_alpha r = Inl Exit"
  using map_program_refines [of "[Op_Put (K_Int 3) (Some (7::nat)) True, Op_Put (K_Int 3) (Some 8) True,
      Op_Get (K_Int 3), Op_Remove (K_Int 3), Op_Has (K_Int 3), Op_Get (K_Int 3)]" 0]
  by (auto simp: key_ok_def hash_key_def)

text \<open>
  Doubling the bucket array keeps every binding: \<open>rehash\<close> returns, drops all tombstones,
  preserves the invariant and does not change the map it stores.
\<close>

theorem map_rehash_keeps_bindings:
  assumes "map_inv m"
  shows "\<exists>m'. map_rehash m = Some (Inr m') \<and> map_inv m' \<and> map_abs m' = map_abs m \<and>
           m_capacity m' = 2 * m_capacity m \<and> m_tombstones m' = 0"
  using map_rehash_correct [OF assms] by blast

theorem map_rehash_keeps_bindings_witness:
  "\<exists>m'. map_rehash (map_new 1 :: nat cco_map) = Some (Inr m') \<and> m_capacity m' = 16 \<and>
     map_abs m' = Map.empty"
  using map_rehash_keeps_bindings [OF map_new_spec(1), of 1] map_new_spec(2) [of 1]
  by (auto simp: map_new_def)

section \<open>Freeing a map\<close>

lemma map_free_loop_entries:
  assumes "\<forall>b \<in> set bs. is_occ b \<longrightarrow> b_key b \<noteq> null_key"
  shows "map_free_loop 1 True bs =
     (map b_key (filter is_occ bs), List.map_filter b_value (filter is_occ bs))"
  using assms by (induction bs) (auto simp: map_filter_def split: option.split)

text \<open>
  C30. Freeing a string map frees each stored key exactly once and destroys the value bound to
  each key exactly once, null values excepted.
\<close>

theorem map_free_exactly_once:
  assumes inv: "map_inv m" and kt: "m_key_type m = 1"
  shows "case map_free (Some m) True of (ks, vs) \<Rightarrow>
           distinct ks \<and> set ks = dom (map_abs m) \<and>
           vs = List.map_filter (\<lambda>k. the (map_abs m k)) ks"
proof -
  let ?bs = "m_buckets m"
  have pinv: "probe_inv 1 (m_capacity m) ?bs" using inv kt by (simp add: map_inv_def)
  have occ: "\<exists>i. occupied_at ?bs i \<and> ?bs ! i = b" if "b \<in> set ?bs" "is_occ b" for b
    using that by (auto simp: in_set_conv_nth occupied_at_def)
  have nn: "\<forall>b \<in> set ?bs. is_occ b \<longrightarrow> b_key b \<noteq> null_key"
    using occ probe_invD(2) [OF pinv] by (fastforce simp: key_ok_def hash_key_def)
  have val: "map_abs m (b_key b) = Some (b_value b)" if "b \<in> set (filter is_occ ?bs)" for b
    using occ [of b] that buckets_abs_SomeI [OF pinv] by (auto simp: map_abs_def)
  have "distinct (map b_key (filter is_occ ?bs))"
    by (rule distinct_occupied_keys) (rule probe_invD(4) [OF pinv])
  moreover have "set (map b_key (filter is_occ ?bs)) = dom (map_abs m)"
    by (auto simp: map_abs_def buckets_abs_map_of dom_map_of_conv_image_fst image_image)
  moreover have "List.map_filter b_value (filter is_occ ?bs)
      = List.map_filter (\<lambda>k. the (map_abs m k)) (map b_key (filter is_occ ?bs))"
    by (rule map_filter_map_cong [symmetric]) (simp add: val)
  ultimately show ?thesis by (simp add: map_free_def kt map_free_loop_entries [OF nn])
qed

theorem map_free_exactly_once_witness:
  "\<exists>m. map_abs m = [K_Str ''a'' \<mapsto> Some (5 :: nat)] \<and>
     (case map_free (Some m) True of (ks, vs) \<Rightarrow>
        distinct ks \<and> set ks = {K_Str ''a''} \<and> vs = List.map_filter (\<lambda>k. the (map_abs m k)) ks)"
proof -
  have ok: "key_ok (m_key_type (map_new 1 :: nat cco_map)) (K_Str ''a'')"
    by (simp add: map_new_spec key_ok_def hash_key_def)
  obtain m :: "nat cco_map" where m: "map_inv m" "m_key_type m = 1" "map_abs m = [K_Str ''a'' \<mapsto> Some 5]"
    using map_put_nonnull_spec [OF map_new_spec(1) ok, of "Some 5" True]
    by (auto simp: map_new_spec)
  from map_free_exactly_once [OF m(1,2)] m(3) show ?thesis by (intro exI [of _ m]) auto
qed

end
