(* ===== verification/Lexer_Tokens.thy ===== *)
theory Lexer_Tokens
  imports Cco_Prelude "HOL-Library.Char_ord"
begin

text \<open>
  The tokens of \<open>src/frontend/lexer.h\<close> and the tables of \<open>src/frontend/lexer.c\<close>: the enumeration
  \<open>TokenType\<close>, the record \<open>Token\<close>, \<open>check_keyword\<close>, \<open>token_type_to_string\<close>. \<open>strcmp\<close> chains and
  switches over constants are tables searched in the order of the code.
\<close>

section \<open>Tokens\<close>

datatype (plugins only: size) token_type =
    TOKEN_IMPORT | TOKEN_CLASS | TOKEN_STRUCT | TOKEN_SELF | TOKEN_FN | TOKEN_LET | TOKEN_IF
    | TOKEN_ELSE | TOKEN_WHILE | TOKEN_FOR | TOKEN_IN | TOKEN_RETURN | TOKEN_BREAK
    | TOKEN_CONTINUE | TOKEN_PRINT | TOKEN_ALLOC | TOKEN_LIST_NEW | TOKEN_MAP | TOKEN_MAP_NEW
    | TOKEN_ENUM | TOKEN_MATCH | TOKEN_OPERATOR | TOKEN_INTERFACE | TOKEN_IMPL
    | TOKEN_SELF_TYPE | TOKEN_TYPE_INT | TOKEN_TYPE_FLOAT | TOKEN_TYPE_CHAR | TOKEN_TYPE_BOOL
    | TOKEN_TYPE_STRING | TOKEN_TYPE_VOID | TOKEN_TRUE | TOKEN_FALSE | TOKEN_KW_AND
    | TOKEN_KW_OR | TOKEN_KW_NOT | TOKEN_IDENT | TOKEN_INT_LIT | TOKEN_FLOAT_LIT
    | TOKEN_STRING_LIT | TOKEN_FSTRING_LIT | TOKEN_CHAR_LIT | TOKEN_LPAREN | TOKEN_RPAREN
    | TOKEN_LBRACE | TOKEN_RBRACE | TOKEN_LBRACKET | TOKEN_RBRACKET | TOKEN_COMMA
    | TOKEN_COLON | TOKEN_SEMICOLON | TOKEN_ARROW | TOKEN_FAT_ARROW | TOKEN_ASSIGN | TOKEN_EQ
    | TOKEN_NE | TOKEN_LT | TOKEN_GT | TOKEN_LE | TOKEN_GE | TOKEN_PLUS | TOKEN_MINUS
    | TOKEN_STAR | TOKEN_SLASH | TOKEN_PERCENT | TOKEN_PLUS_EQ | TOKEN_MINUS_EQ
    | TOKEN_STAR_EQ | TOKEN_SLASH_EQ | TOKEN_PERCENT_EQ | TOKEN_INCREMENT | TOKEN_DECREMENT
    | TOKEN_NOT | TOKEN_AND | TOKEN_OR | TOKEN_DOT | TOKEN_DOT_DOT | TOKEN_AMP
    | TOKEN_UNDERSCORE | TOKEN_EOF | TOKEN_ERROR

text \<open>The value of an enumeration constant, which decides the equality of two types.\<close>

definition token_types :: "token_type list" where
  "token_types =
    [TOKEN_IMPORT, TOKEN_CLASS, TOKEN_STRUCT, TOKEN_SELF, TOKEN_FN, TOKEN_LET, TOKEN_IF,
     TOKEN_ELSE, TOKEN_WHILE, TOKEN_FOR, TOKEN_IN, TOKEN_RETURN, TOKEN_BREAK, TOKEN_CONTINUE,
     TOKEN_PRINT, TOKEN_ALLOC, TOKEN_LIST_NEW, TOKEN_MAP, TOKEN_MAP_NEW, TOKEN_ENUM,
     TOKEN_MATCH, TOKEN_OPERATOR, TOKEN_INTERFACE, TOKEN_IMPL, TOKEN_SELF_TYPE, TOKEN_TYPE_INT,
     TOKEN_TYPE_FLOAT, TOKEN_TYPE_CHAR, TOKEN_TYPE_BOOL, TOKEN_TYPE_STRING, TOKEN_TYPE_VOID,
     TOKEN_TRUE, TOKEN_FALSE, TOKEN_KW_AND, TOKEN_KW_OR, TOKEN_KW_NOT, TOKEN_IDENT,
     TOKEN_INT_LIT, TOKEN_FLOAT_LIT, TOKEN_STRING_LIT, TOKEN_FSTRING_LIT, TOKEN_CHAR_LIT,
     TOKEN_LPAREN, TOKEN_RPAREN, TOKEN_LBRACE, TOKEN_RBRACE, TOKEN_LBRACKET, TOKEN_RBRACKET,
     TOKEN_COMMA, TOKEN_COLON, TOKEN_SEMICOLON, TOKEN_ARROW, TOKEN_FAT_ARROW, TOKEN_ASSIGN,
     TOKEN_EQ, TOKEN_NE, TOKEN_LT, TOKEN_GT, TOKEN_LE, TOKEN_GE, TOKEN_PLUS, TOKEN_MINUS,
     TOKEN_STAR, TOKEN_SLASH, TOKEN_PERCENT, TOKEN_PLUS_EQ, TOKEN_MINUS_EQ, TOKEN_STAR_EQ,
     TOKEN_SLASH_EQ, TOKEN_PERCENT_EQ, TOKEN_INCREMENT, TOKEN_DECREMENT, TOKEN_NOT, TOKEN_AND,
     TOKEN_OR, TOKEN_DOT, TOKEN_DOT_DOT, TOKEN_AMP, TOKEN_UNDERSCORE, TOKEN_EOF, TOKEN_ERROR]"

primrec token_value :: "token_type \<Rightarrow> nat" where
  "token_value TOKEN_IMPORT = 0"
| "token_value TOKEN_CLASS = 1"
| "token_value TOKEN_STRUCT = 2"
| "token_value TOKEN_SELF = 3"
| "token_value TOKEN_FN = 4"
| "token_value TOKEN_LET = 5"
| "token_value TOKEN_IF = 6"
| "token_value TOKEN_ELSE = 7"
| "token_value TOKEN_WHILE = 8"
| "token_value TOKEN_FOR = 9"
| "token_value TOKEN_IN = 10"
| "token_value TOKEN_RETURN = 11"
| "token_value TOKEN_BREAK = 12"
| "token_value TOKEN_CONTINUE = 13"
| "token_value TOKEN_PRINT = 14"
| "token_value TOKEN_ALLOC = 15"
| "token_value TOKEN_LIST_NEW = 16"
| "token_value TOKEN_MAP = 17"
| "token_value TOKEN_MAP_NEW = 18"
| "token_value TOKEN_ENUM = 19"
| "token_value TOKEN_MATCH = 20"
| "token_value TOKEN_OPERATOR = 21"
| "token_value TOKEN_INTERFACE = 22"
| "token_value TOKEN_IMPL = 23"
| "token_value TOKEN_SELF_TYPE = 24"
| "token_value TOKEN_TYPE_INT = 25"
| "token_value TOKEN_TYPE_FLOAT = 26"
| "token_value TOKEN_TYPE_CHAR = 27"
| "token_value TOKEN_TYPE_BOOL = 28"
| "token_value TOKEN_TYPE_STRING = 29"
| "token_value TOKEN_TYPE_VOID = 30"
| "token_value TOKEN_TRUE = 31"
| "token_value TOKEN_FALSE = 32"
| "token_value TOKEN_KW_AND = 33"
| "token_value TOKEN_KW_OR = 34"
| "token_value TOKEN_KW_NOT = 35"
| "token_value TOKEN_IDENT = 36"
| "token_value TOKEN_INT_LIT = 37"
| "token_value TOKEN_FLOAT_LIT = 38"
| "token_value TOKEN_STRING_LIT = 39"
| "token_value TOKEN_FSTRING_LIT = 40"
| "token_value TOKEN_CHAR_LIT = 41"
| "token_value TOKEN_LPAREN = 42"
| "token_value TOKEN_RPAREN = 43"
| "token_value TOKEN_LBRACE = 44"
| "token_value TOKEN_RBRACE = 45"
| "token_value TOKEN_LBRACKET = 46"
| "token_value TOKEN_RBRACKET = 47"
| "token_value TOKEN_COMMA = 48"
| "token_value TOKEN_COLON = 49"
| "token_value TOKEN_SEMICOLON = 50"
| "token_value TOKEN_ARROW = 51"
| "token_value TOKEN_FAT_ARROW = 52"
| "token_value TOKEN_ASSIGN = 53"
| "token_value TOKEN_EQ = 54"
| "token_value TOKEN_NE = 55"
| "token_value TOKEN_LT = 56"
| "token_value TOKEN_GT = 57"
| "token_value TOKEN_LE = 58"
| "token_value TOKEN_GE = 59"
| "token_value TOKEN_PLUS = 60"
| "token_value TOKEN_MINUS = 61"
| "token_value TOKEN_STAR = 62"
| "token_value TOKEN_SLASH = 63"
| "token_value TOKEN_PERCENT = 64"
| "token_value TOKEN_PLUS_EQ = 65"
| "token_value TOKEN_MINUS_EQ = 66"
| "token_value TOKEN_STAR_EQ = 67"
| "token_value TOKEN_SLASH_EQ = 68"
| "token_value TOKEN_PERCENT_EQ = 69"
| "token_value TOKEN_INCREMENT = 70"
| "token_value TOKEN_DECREMENT = 71"
| "token_value TOKEN_NOT = 72"
| "token_value TOKEN_AND = 73"
| "token_value TOKEN_OR = 74"
| "token_value TOKEN_DOT = 75"
| "token_value TOKEN_DOT_DOT = 76"
| "token_value TOKEN_AMP = 77"
| "token_value TOKEN_UNDERSCORE = 78"
| "token_value TOKEN_EOF = 79"
| "token_value TOKEN_ERROR = 80"

lemma token_value_nth: "token_types ! token_value ty = ty"
  by (cases ty) (simp_all add: token_types_def)

instantiation token_type :: equal
begin

definition equal_token_type :: "token_type \<Rightarrow> token_type \<Rightarrow> bool" where
  "equal_token_type a b \<longleftrightarrow> token_value a = token_value b"

instance
  by standard (metis equal_token_type_def token_value_nth)

end

record token =
  t_type :: token_type
  t_lexeme :: string
  t_line :: nat
  t_col :: nat
  t_end_line :: nat
  t_end_col :: nat

section \<open>Keywords\<close>

definition keyword_table :: "(string \<times> token_type) list" where
  "keyword_table =
    [(''import'', TOKEN_IMPORT), (''class'', TOKEN_CLASS), (''struct'', TOKEN_STRUCT),
     (''self'', TOKEN_SELF), (''fn'', TOKEN_FN), (''let'', TOKEN_LET), (''if'', TOKEN_IF),
     (''else'', TOKEN_ELSE), (''while'', TOKEN_WHILE), (''for'', TOKEN_FOR), (''in'', TOKEN_IN),
     (''return'', TOKEN_RETURN), (''break'', TOKEN_BREAK), (''continue'', TOKEN_CONTINUE),
     (''print'', TOKEN_PRINT), (''alloc'', TOKEN_ALLOC), (''list_new'', TOKEN_LIST_NEW),
     (''map'', TOKEN_MAP), (''map_new'', TOKEN_MAP_NEW), (''enum'', TOKEN_ENUM),
     (''match'', TOKEN_MATCH), (''operator'', TOKEN_OPERATOR), (''interface'', TOKEN_INTERFACE),
     (''impl'', TOKEN_IMPL), (''Self'', TOKEN_SELF_TYPE), (''_'', TOKEN_UNDERSCORE),
     (''int'', TOKEN_TYPE_INT), (''float'', TOKEN_TYPE_FLOAT), (''char'', TOKEN_TYPE_CHAR),
     (''bool'', TOKEN_TYPE_BOOL), (''string'', TOKEN_TYPE_STRING), (''void'', TOKEN_TYPE_VOID),
     (''true'', TOKEN_TRUE), (''false'', TOKEN_FALSE), (''and'', TOKEN_KW_AND),
     (''or'', TOKEN_KW_OR), (''not'', TOKEN_KW_NOT)]"

definition check_keyword :: "string \<Rightarrow> token_type" where
  "check_keyword str = (case map_of keyword_table str of Some t \<Rightarrow> t | None \<Rightarrow> TOKEN_IDENT)"

section \<open>Names\<close>

primrec token_type_to_string :: "token_type \<Rightarrow> string" where
  "token_type_to_string TOKEN_IMPORT = ''import''"
| "token_type_to_string TOKEN_CLASS = ''class''"
| "token_type_to_string TOKEN_STRUCT = ''struct''"
| "token_type_to_string TOKEN_SELF = ''self''"
| "token_type_to_string TOKEN_FN = ''fn''"
| "token_type_to_string TOKEN_LET = ''let''"
| "token_type_to_string TOKEN_IF = ''if''"
| "token_type_to_string TOKEN_ELSE = ''else''"
| "token_type_to_string TOKEN_WHILE = ''while''"
| "token_type_to_string TOKEN_FOR = ''for''"
| "token_type_to_string TOKEN_IN = ''UNKNOWN''"
| "token_type_to_string TOKEN_RETURN = ''return''"
| "token_type_to_string TOKEN_BREAK = ''break''"
| "token_type_to_string TOKEN_CONTINUE = ''continue''"
| "token_type_to_string TOKEN_PRINT = ''print''"
| "token_type_to_string TOKEN_ALLOC = ''alloc''"
| "token_type_to_string TOKEN_LIST_NEW = ''list_new''"
| "token_type_to_string TOKEN_MAP = ''map''"
| "token_type_to_string TOKEN_MAP_NEW = ''map_new''"
| "token_type_to_string TOKEN_ENUM = ''enum''"
| "token_type_to_string TOKEN_MATCH = ''match''"
| "token_type_to_string TOKEN_OPERATOR = ''operator''"
| "token_type_to_string TOKEN_INTERFACE = ''interface''"
| "token_type_to_string TOKEN_IMPL = ''impl''"
| "token_type_to_string TOKEN_SELF_TYPE = ''Self''"
| "token_type_to_string TOKEN_TYPE_INT = ''int''"
| "token_type_to_string TOKEN_TYPE_FLOAT = ''float''"
| "token_type_to_string TOKEN_TYPE_CHAR = ''char''"
| "token_type_to_string TOKEN_TYPE_BOOL = ''bool''"
| "token_type_to_string TOKEN_TYPE_STRING = ''string''"
| "token_type_to_string TOKEN_TYPE_VOID = ''void''"
| "token_type_to_string TOKEN_TRUE = ''true''"
| "token_type_to_string TOKEN_FALSE = ''false''"
| "token_type_to_string TOKEN_KW_AND = ''and''"
| "token_type_to_string TOKEN_KW_OR = ''or''"
| "token_type_to_string TOKEN_KW_NOT = ''not''"
| "token_type_to_string TOKEN_IDENT = ''IDENT''"
| "token_type_to_string TOKEN_INT_LIT = ''INT_LIT''"
| "token_type_to_string TOKEN_FLOAT_LIT = ''FLOAT_LIT''"
| "token_type_to_string TOKEN_STRING_LIT = ''STRING_LIT''"
| "token_type_to_string TOKEN_FSTRING_LIT = ''UNKNOWN''"
| "token_type_to_string TOKEN_CHAR_LIT = ''CHAR_LIT''"
| "token_type_to_string TOKEN_LPAREN = ''(''"
| "token_type_to_string TOKEN_RPAREN = '')''"
| "token_type_to_string TOKEN_LBRACE = ''{''"
| "token_type_to_string TOKEN_RBRACE = ''}''"
| "token_type_to_string TOKEN_LBRACKET = ''[''"
| "token_type_to_string TOKEN_RBRACKET = '']''"
| "token_type_to_string TOKEN_COMMA = '',''"
| "token_type_to_string TOKEN_COLON = '':''"
| "token_type_to_string TOKEN_SEMICOLON = '';''"
| "token_type_to_string TOKEN_ARROW = ''->''"
| "token_type_to_string TOKEN_FAT_ARROW = ''=>''"
| "token_type_to_string TOKEN_ASSIGN = ''=''"
| "token_type_to_string TOKEN_EQ = ''==''"
| "token_type_to_string TOKEN_NE = ''!=''"
| "token_type_to_string TOKEN_LT = ''<''"
| "token_type_to_string TOKEN_GT = ''>''"
| "token_type_to_string TOKEN_LE = ''<=''"
| "token_type_to_string TOKEN_GE = ''>=''"
| "token_type_to_string TOKEN_PLUS = ''+''"
| "token_type_to_string TOKEN_MINUS = ''-''"
| "token_type_to_string TOKEN_STAR = ''*''"
| "token_type_to_string TOKEN_SLASH = ''/''"
| "token_type_to_string TOKEN_PERCENT = ''%''"
| "token_type_to_string TOKEN_PLUS_EQ = ''+=''"
| "token_type_to_string TOKEN_MINUS_EQ = ''-=''"
| "token_type_to_string TOKEN_STAR_EQ = ''*=''"
| "token_type_to_string TOKEN_SLASH_EQ = ''/=''"
| "token_type_to_string TOKEN_PERCENT_EQ = ''%=''"
| "token_type_to_string TOKEN_INCREMENT = ''++''"
| "token_type_to_string TOKEN_DECREMENT = ''--''"
| "token_type_to_string TOKEN_NOT = ''!''"
| "token_type_to_string TOKEN_AND = ''&&''"
| "token_type_to_string TOKEN_OR = ''||''"
| "token_type_to_string TOKEN_DOT = ''.''"
| "token_type_to_string TOKEN_DOT_DOT = ''..''"
| "token_type_to_string TOKEN_AMP = ''&''"
| "token_type_to_string TOKEN_UNDERSCORE = ''_''"
| "token_type_to_string TOKEN_EOF = ''EOF''"
| "token_type_to_string TOKEN_ERROR = ''ERROR''"

end
