(* ===== verification/Lexer.thy ===== *)
theory Lexer
  imports Lexer_Tokens
begin

text \<open>
  The lexer (\<open>src/frontend/lexer.c\<close>): \<open>lex_source\<close> and its helpers.

  The C code indexes a zero-terminated buffer; the model walks the characters before the first
  zero, and reading past them gives the zero character, as \<open>source[pos + 1]\<close> does. Each branch
  of the main loop is one scanning function; \<open>lex_step\<close> is one iteration. A call of
  \<open>fatal_lexer_error\<close> ends the program: it is \<open>Inl\<close> with its code, position and message.
  The growable token array is a list. \<open>isdigit\<close> and \<open>isalpha\<close> are those of the C locale.
\<close>

section \<open>Errors and characters\<close>

record lex_error =
  e_code :: "string option"
  e_line :: nat
  e_col :: nat
  e_msg :: string

abbreviation NUL :: char where "NUL \<equiv> CHR 0x00"
abbreviation TAB :: char where "TAB \<equiv> CHR 0x09"
abbreviation LF :: char where "LF \<equiv> CHR 0x0A"
abbreviation CR :: char where "CR \<equiv> CHR 0x0D"
abbreviation DQ :: char where "DQ \<equiv> CHR 0x22"
abbreviation SQ :: char where "SQ \<equiv> CHR 0x27"
abbreviation BSL :: char where "BSL \<equiv> CHR 0x5C"

definition cstr :: "string \<Rightarrow> string" where
  "cstr s = takeWhile (\<lambda>c. c \<noteq> NUL) s"

fun peek :: "string \<Rightarrow> char" where
  "peek [] = NUL"
| "peek (c # cs) = c"

definition is_digit :: "char \<Rightarrow> bool" where
  "is_digit c \<longleftrightarrow> CHR ''0'' \<le> c \<and> c \<le> CHR ''9''"

definition is_alpha :: "char \<Rightarrow> bool" where
  "is_alpha c \<longleftrightarrow> (CHR ''A'' \<le> c \<and> c \<le> CHR ''Z'') \<or> (CHR ''a'' \<le> c \<and> c \<le> CHR ''z'')"

definition is_ident_start :: "char \<Rightarrow> bool" where
  "is_ident_start c \<longleftrightarrow> is_alpha c \<or> c = CHR ''_''"

definition is_ident_char :: "char \<Rightarrow> bool" where
  "is_ident_char c \<longleftrightarrow> is_alpha c \<or> is_digit c \<or> c = CHR ''_''"

section \<open>Scanning\<close>

text \<open>\<open># ...\<close> and \<open>// ...\<close> up to the end of the line; \<open>/* ... */\<close>, which may run to the end.\<close>

fun skip_line_comment :: "string \<Rightarrow> nat \<Rightarrow> string \<times> nat" where
  "skip_line_comment [] col = ([], col)"
| "skip_line_comment (c # cs) col =
     (if c = LF then (c # cs, col) else skip_line_comment cs (col + 1))"

fun skip_block_comment :: "string \<Rightarrow> nat \<Rightarrow> nat \<Rightarrow> string \<times> nat \<times> nat" where
  "skip_block_comment [] line col = ([], line, col)"
| "skip_block_comment (c # cs) line col =
     (if c = CHR ''*'' \<and> peek cs = CHR ''/'' then (tl cs, line, col + 2)
      else if c = LF then skip_block_comment cs (line + 1) 1
      else skip_block_comment cs line (col + 1))"

text \<open>A string body: its text, what follows the closing quote, and the column there.\<close>

fun scan_string :: "nat \<Rightarrow> nat \<Rightarrow> string \<Rightarrow> nat \<Rightarrow> lex_error + string \<times> string \<times> nat" where
  "scan_string start_line start_col [] col =
     Inl \<lparr>e_code = Some ''E1004'', e_line = start_line, e_col = start_col,
          e_msg = ''unterminated string literal''\<rparr>"
| "scan_string start_line start_col (c # cs) col =
     (if c = DQ then Inr ([], cs, col + 1)
      else if c = BSL \<and> cs \<noteq> [] then
        map_sum id (\<lambda>(body, rest, col'). (c # hd cs # body, rest, col'))
          (scan_string start_line start_col (tl cs) (col + 2))
      else if c = LF then
        Inl \<lparr>e_code = Some ''E1004'', e_line = start_line, e_col = start_col,
             e_msg = ''unterminated string literal''\<rparr>
      else map_sum id (\<lambda>(body, rest, col'). (c # body, rest, col'))
             (scan_string start_line start_col cs (col + 1)))"

record fstring_state =
  f_depth :: nat
  f_open_line :: nat
  f_open_col :: nat

definition fstring_end_error :: "nat \<Rightarrow> nat \<Rightarrow> fstring_state \<Rightarrow> lex_error" where
  "fstring_end_error start_line start_col st =
     (if f_depth st > 0
      then \<lparr>e_code = None, e_line = f_open_line st, e_col = f_open_col st,
            e_msg = ''unbalanced '' @ SQ # ''{'' @ SQ # '' in f-string''\<rparr>
      else \<lparr>e_code = None, e_line = start_line, e_col = start_col,
            e_msg = ''unterminated f-string literal''\<rparr>)"

text \<open>
  An f-string body. A quote inside braces does not end it; doubled braces and a backslash with
  the character after it are skipped; a newline, an unmatched closing brace and the end of the
  input are errors.
\<close>

fun scan_fstring :: "nat \<Rightarrow> nat \<Rightarrow> string \<Rightarrow> nat \<Rightarrow> fstring_state
    \<Rightarrow> lex_error + string \<times> string \<times> nat" where
  "scan_fstring start_line start_col [] col st = Inl (fstring_end_error start_line start_col st)"
| "scan_fstring start_line start_col (c # cs) col st =
     (if c = DQ \<and> f_depth st = 0 then Inr ([], cs, col + 1)
      else if c = CHR ''{'' then
        (if peek cs = CHR ''{'' then
           map_sum id (\<lambda>(body, rest, col'). (c # hd cs # body, rest, col'))
             (scan_fstring start_line start_col (tl cs) (col + 2) st)
         else
           map_sum id (\<lambda>(body, rest, col'). (c # body, rest, col'))
             (scan_fstring start_line start_col cs (col + 1)
               \<lparr>f_depth = f_depth st + 1, f_open_line = start_line, f_open_col = col\<rparr>))
      else if c = CHR ''}'' then
        (if peek cs = CHR ''}'' then
           map_sum id (\<lambda>(body, rest, col'). (c # hd cs # body, rest, col'))
             (scan_fstring start_line start_col (tl cs) (col + 2) st)
         else if f_depth st > 0 then
           map_sum id (\<lambda>(body, rest, col'). (c # body, rest, col'))
             (scan_fstring start_line start_col cs (col + 1) (st\<lparr>f_depth := f_depth st - 1\<rparr>))
         else Inl \<lparr>e_code = None, e_line = start_line, e_col = col,
                   e_msg = ''unmatched '' @ SQ # ''}'' @ SQ # '' in f-string''\<rparr>)
      else if c = BSL \<and> cs \<noteq> [] then
        map_sum id (\<lambda>(body, rest, col'). (c # hd cs # body, rest, col'))
          (scan_fstring start_line start_col (tl cs) (col + 2) st)
      else if c = LF then Inl (fstring_end_error start_line start_col st)
      else map_sum id (\<lambda>(body, rest, col'). (c # body, rest, col'))
             (scan_fstring start_line start_col cs (col + 1) st))"

definition char_error :: "nat \<Rightarrow> nat \<Rightarrow> lex_error" where
  "char_error start_line start_col =
     \<lparr>e_code = None, e_line = start_line, e_col = start_col,
      e_msg = ''unterminated character literal''\<rparr>"

definition unescape_char :: "char \<Rightarrow> char" where
  "unescape_char c =
     (if c = CHR ''n'' then LF else if c = CHR ''t'' then TAB else if c = CHR ''r'' then CR
      else if c = CHR ''0'' then NUL else if c = BSL then BSL else if c = SQ then SQ else c)"

text \<open>A character literal after its opening quote: its value, the rest and the column.\<close>

definition scan_char :: "nat \<Rightarrow> nat \<Rightarrow> string \<Rightarrow> nat \<Rightarrow> lex_error + char \<times> string \<times> nat" where
  "scan_char start_line start_col cs col =
     (let inner =
        (if peek cs = BSL \<and> tl cs \<noteq> [] then Some (unescape_char (hd (tl cs)), tl (tl cs), col + 2)
         else if cs \<noteq> [] \<and> peek cs \<noteq> LF \<and> peek cs \<noteq> SQ then Some (hd cs, tl cs, col + 1)
         else None)
      in case inner of
           None \<Rightarrow> Inl (char_error start_line start_col)
         | Some (v, rest, col') \<Rightarrow>
             (if peek rest = SQ then Inr (v, tl rest, col' + 1)
              else Inl (char_error start_line start_col)))"

text \<open>Digits with at most one dot, stopping before a \<open>..\<close> range operator.\<close>

fun scan_number :: "string \<Rightarrow> nat \<Rightarrow> bool \<Rightarrow> string \<times> string \<times> nat \<times> bool" where
  "scan_number [] col is_float = ([], [], col, is_float)"
| "scan_number (c # cs) col is_float =
     (if is_digit c then
        (case scan_number cs (col + 1) is_float of (body, r) \<Rightarrow> (c # body, r))
      else if c = CHR ''.'' \<and> peek cs \<noteq> CHR ''.'' \<and> \<not> is_float then
        (case scan_number cs (col + 1) True of (body, r) \<Rightarrow> (c # body, r))
      else ([], c # cs, col, is_float))"

fun scan_ident :: "string \<Rightarrow> nat \<Rightarrow> string \<times> string \<times> nat" where
  "scan_ident [] col = ([], [], col)"
| "scan_ident (c # cs) col =
     (if is_ident_char c then (case scan_ident cs (col + 1) of (body, r) \<Rightarrow> (c # body, r))
      else ([], c # cs, col))"

definition two_char_table :: "((char \<times> char) \<times> token_type) list" where
  "two_char_table =
    [((CHR ''-'', CHR ''>''), TOKEN_ARROW), ((CHR ''='', CHR ''>''), TOKEN_FAT_ARROW),
     ((CHR ''='', CHR ''=''), TOKEN_EQ), ((CHR ''!'', CHR ''=''), TOKEN_NE),
     ((CHR ''<'', CHR ''=''), TOKEN_LE), ((CHR ''>'', CHR ''=''), TOKEN_GE),
     ((CHR ''+'', CHR ''+''), TOKEN_INCREMENT), ((CHR ''-'', CHR ''-''), TOKEN_DECREMENT),
     ((CHR ''+'', CHR ''=''), TOKEN_PLUS_EQ), ((CHR ''-'', CHR ''=''), TOKEN_MINUS_EQ),
     ((CHR ''*'', CHR ''=''), TOKEN_STAR_EQ), ((CHR ''/'', CHR ''=''), TOKEN_SLASH_EQ),
     ((CHR ''%'', CHR ''=''), TOKEN_PERCENT_EQ), ((CHR ''&'', CHR ''&''), TOKEN_AND),
     ((CHR ''|'', CHR ''|''), TOKEN_OR), ((CHR ''.'', CHR ''.''), TOKEN_DOT_DOT)]"

definition one_char_table :: "(char \<times> token_type) list" where
  "one_char_table =
    [(CHR ''('', TOKEN_LPAREN), (CHR '')'', TOKEN_RPAREN), (CHR ''{'', TOKEN_LBRACE),
     (CHR ''}'', TOKEN_RBRACE), (CHR ''['', TOKEN_LBRACKET), (CHR '']'', TOKEN_RBRACKET),
     (CHR '','', TOKEN_COMMA), (CHR '':'', TOKEN_COLON), (CHR '';'', TOKEN_SEMICOLON),
     (CHR ''='', TOKEN_ASSIGN), (CHR ''<'', TOKEN_LT), (CHR ''>'', TOKEN_GT),
     (CHR ''+'', TOKEN_PLUS), (CHR ''-'', TOKEN_MINUS), (CHR ''*'', TOKEN_STAR),
     (CHR ''/'', TOKEN_SLASH), (CHR ''%'', TOKEN_PERCENT), (CHR ''!'', TOKEN_NOT),
     (CHR ''.'', TOKEN_DOT), (CHR ''&'', TOKEN_AMP)]"

section \<open>One iteration of the main loop\<close>

definition mk_token :: "token_type \<Rightarrow> string \<Rightarrow> nat \<Rightarrow> nat \<Rightarrow> nat \<Rightarrow> nat \<Rightarrow> token" where
  "mk_token ty lexeme line col end_line end_col =
     \<lparr>t_type = ty, t_lexeme = lexeme, t_line = line, t_col = col,
      t_end_line = end_line, t_end_col = end_col\<rparr>"

type_synonym lex_result = "lex_error + token option \<times> string \<times> nat \<times> nat"

text \<open>Two-character operators, then single characters, then the error.\<close>

definition lex_symbol :: "char \<Rightarrow> string \<Rightarrow> nat \<Rightarrow> nat \<Rightarrow> lex_result" where
  "lex_symbol c cs line col =
     (case map_of two_char_table (c, peek cs) of
        Some ty \<Rightarrow> Inr (Some (mk_token ty [c, peek cs] line col line (col + 2)), tl cs, line, col + 2)
      | None \<Rightarrow>
          (case map_of one_char_table c of
             Some ty \<Rightarrow> Inr (Some (mk_token ty [c] line col line (col + 1)), cs, line, col + 1)
           | None \<Rightarrow> Inl \<lparr>e_code = None, e_line = line, e_col = col,
                         e_msg = ''unexpected character '' @ SQ # c # [SQ]\<rparr>))"

definition lex_step :: "char \<Rightarrow> string \<Rightarrow> nat \<Rightarrow> nat \<Rightarrow> lex_result" where
  "lex_step c cs line col =
     (if c = CHR '' '' \<or> c = TAB \<or> c = CR then Inr (None, cs, line, col + 1)
      else if c = LF then Inr (None, cs, line + 1, 1)
      else if c = CHR ''#'' then
        (case skip_line_comment cs (col + 1) of (rest, col') \<Rightarrow> Inr (None, rest, line, col'))
      else if c = CHR ''/'' \<and> peek cs = CHR ''/'' then
        (case skip_line_comment (tl cs) (col + 2) of (rest, col') \<Rightarrow> Inr (None, rest, line, col'))
      else if c = CHR ''/'' \<and> peek cs = CHR ''*'' then
        (case skip_block_comment (tl cs) line (col + 2) of (rest, line', col') \<Rightarrow>
           Inr (None, rest, line', col'))
      else if c = DQ then
        map_sum id (\<lambda>(body, rest, col').
            (Some (mk_token TOKEN_STRING_LIT body line col line col'), rest, line, col'))
          (scan_string line col cs (col + 1))
      else if c = CHR ''f'' \<and> peek cs = DQ then
        map_sum id (\<lambda>(body, rest, col').
            (Some (mk_token TOKEN_FSTRING_LIT body line col line col'), rest, line, col'))
          (scan_fstring line col (tl cs) (col + 2)
             \<lparr>f_depth = 0, f_open_line = line, f_open_col = col\<rparr>)
      else if c = SQ then
        map_sum id (\<lambda>(v, rest, col').
            (Some (mk_token TOKEN_CHAR_LIT (cstr [v]) line col line col'), rest, line, col'))
          (scan_char line col cs (col + 1))
      else if is_digit c then
        (case scan_number (c # cs) col False of (body, rest, col', is_float) \<Rightarrow>
           Inr (Some (mk_token (if is_float then TOKEN_FLOAT_LIT else TOKEN_INT_LIT) body
                        line col line col'), rest, line, col'))
      else if is_ident_start c then
        (case scan_ident (c # cs) col of (body, rest, col') \<Rightarrow>
           Inr (Some (mk_token (check_keyword body) body line col line col'), rest, line, col'))
      else lex_symbol c cs line col)"


section \<open>The scanners consume a prefix of their input\<close>

fun has_escaped_newline :: "string \<Rightarrow> bool" where
  "has_escaped_newline [] \<longleftrightarrow> False"
| "has_escaped_newline (c # cs) \<longleftrightarrow> c = BSL \<and> peek cs = LF \<or> has_escaped_newline cs"

lemma escaped_newline_tl: "\<not> has_escaped_newline cs \<Longrightarrow> \<not> has_escaped_newline (tl cs)"
  by (cases cs) auto

lemma escaped_newline_append:
  "\<not> has_escaped_newline (xs @ ys) \<Longrightarrow> \<not> has_escaped_newline xs \<and> \<not> has_escaped_newline ys"
  by (induction xs) (auto, case_tac xs, auto)

text \<open>The bodies that the string and f-string scanners accept, as predicates.\<close>

fun string_body :: "string \<Rightarrow> bool" where
  "string_body [] \<longleftrightarrow> True"
| "string_body [c] \<longleftrightarrow> c \<noteq> DQ \<and> c \<noteq> BSL \<and> c \<noteq> LF"
| "string_body (c # d # cs) \<longleftrightarrow>
     (if c = BSL then string_body cs else c \<noteq> DQ \<and> c \<noteq> LF \<and> string_body (d # cs))"

fun fstring_body :: "nat \<Rightarrow> string \<Rightarrow> bool" where
  "fstring_body depth [] \<longleftrightarrow> depth = 0"
| "fstring_body depth [c] \<longleftrightarrow>
     depth = 0 \<and> c \<noteq> DQ \<and> c \<noteq> BSL \<and> c \<noteq> LF \<and> c \<noteq> CHR ''{'' \<and> c \<noteq> CHR ''}''
     \<or> depth = 1 \<and> c = CHR ''}''"
| "fstring_body depth (c # d # cs) \<longleftrightarrow>
     (if c = CHR ''{'' then
        if d = CHR ''{'' then fstring_body depth cs else fstring_body (depth + 1) (d # cs)
      else if c = CHR ''}'' then
        if d = CHR ''}'' then fstring_body depth cs
        else depth > 0 \<and> fstring_body (depth - 1) (d # cs)
      else if c = BSL then fstring_body depth cs
      else (c = DQ \<longrightarrow> depth > 0) \<and> c \<noteq> LF \<and> fstring_body depth (d # cs))"

lemma map_sum_Inr_iff: "map_sum id f x = Inr y \<longleftrightarrow> (\<exists>z. x = Inr z \<and> y = f z)"
  by (cases x) auto

lemma string_body_Cons:
  "string_body (c # cs) \<longleftrightarrow>
     (if c = BSL then cs \<noteq> [] \<and> string_body (tl cs) else c \<noteq> DQ \<and> c \<noteq> LF \<and> string_body cs)"
  by (cases cs) auto

lemma scan_string_sound:
  "scan_string sl sc cs col = Inr (body, rest, col') \<Longrightarrow>
     cs = body @ DQ # rest \<and> string_body body \<and> col' = col + length body + 1"
proof (induction sl sc cs col arbitrary: body rest col' rule: scan_string.induct)
  case (2 sl sc c cs col)
  consider (q) "c = DQ" | (esc) "c = BSL" "cs \<noteq> []"
    | (plain) "c \<noteq> DQ" "c \<noteq> BSL \<or> cs = []"
    by blast
  then show ?case
  proof cases
    case q
    with "2.prems" show ?thesis by auto
  next
    case esc
    then obtain d ds where "cs = d # ds" by (cases cs) auto
    with esc "2.prems" "2.IH"(1) show ?thesis
      by (fastforce simp: map_sum_Inr_iff string_body_Cons)
  next
    case plain
    with "2.prems" "2.IH"(2) show ?thesis
      by (cases "cs = []") (auto simp: map_sum_Inr_iff string_body_Cons split: if_splits)
  qed
qed simp

lemma scan_string_complete:
  "string_body body \<Longrightarrow>
     scan_string sl sc (body @ DQ # rest) col = Inr (body, rest, col + length body + 1)"
  by (induction body arbitrary: col rule: string_body.induct) auto

lemma fstring_body_Cons:
  "fstring_body depth (c # cs) \<longleftrightarrow>
     (if c = CHR ''{'' then
        if peek cs = CHR ''{'' then fstring_body depth (tl cs) else fstring_body (depth + 1) cs
      else if c = CHR ''}'' then
        if peek cs = CHR ''}'' then fstring_body depth (tl cs)
        else depth > 0 \<and> fstring_body (depth - 1) cs
      else if c = BSL then cs \<noteq> [] \<and> fstring_body depth (tl cs)
      else (c = DQ \<longrightarrow> depth > 0) \<and> c \<noteq> LF \<and> fstring_body depth cs)"
  by (cases cs) auto

lemma peek_append: "peek (xs @ ys) = (if xs = [] then peek ys else peek xs)"
  by (cases xs) auto

lemma scan_fstring_sound:
  "scan_fstring sl sc cs col st = Inr (body, rest, col') \<Longrightarrow>
     cs = body @ DQ # rest \<and> fstring_body (f_depth st) body \<and> col' = col + length body + 1"
proof (induction sl sc cs col st arbitrary: body rest col' rule: scan_fstring.induct)
  case (2 sl sc c cs col st)
  consider (q) "c = DQ" "f_depth st = 0"
    | (open2) ds where "c = CHR ''{''" "cs = CHR ''{'' # ds"
    | (open1) "c = CHR ''{''" "peek cs \<noteq> CHR ''{''"
    | (close2) ds where "c = CHR ''}''" "cs = CHR ''}'' # ds"
    | (close1) "c = CHR ''}''" "peek cs \<noteq> CHR ''}''"
    | (esc) d ds where "c = BSL" "cs = d # ds"
    | (plain) "c \<noteq> DQ \<or> f_depth st > 0" "c \<noteq> CHR ''{''" "c \<noteq> CHR ''}''" "c \<noteq> BSL \<or> cs = []"
    by (cases cs) auto
  then show ?case
  proof cases
    case q
    with "2.prems" show ?thesis by auto
  next
    case open2
    with "2.prems" "2.IH"(1) show ?thesis by (fastforce simp: map_sum_Inr_iff fstring_body_Cons)
  next
    case open1
    with "2.prems" "2.IH"(2) show ?thesis
      by (auto simp: map_sum_Inr_iff fstring_body_Cons peek_append split: if_splits)
  next
    case close2
    with "2.prems" "2.IH"(3) show ?thesis by (fastforce simp: map_sum_Inr_iff fstring_body_Cons)
  next
    case close1
    with "2.prems" "2.IH"(4) show ?thesis
      by (auto simp: map_sum_Inr_iff fstring_body_Cons peek_append split: if_splits)
  next
    case esc
    with "2.prems" "2.IH"(5) show ?thesis by (fastforce simp: map_sum_Inr_iff fstring_body_Cons)
  next
    case plain
    with "2.prems" "2.IH"(6) show ?thesis
      by (cases "cs = []") (auto simp: map_sum_Inr_iff fstring_body_Cons split: if_splits)
  qed
qed simp

lemma scan_fstring_complete:
  "fstring_body (f_depth st) body \<Longrightarrow>
     scan_fstring sl sc (body @ DQ # rest) col st = Inr (body, rest, col + length body + 1)"
proof (induction body arbitrary: col st rule: measure_induct_rule [of length])
  case (less body)
  show ?case
  proof (cases body)
    case Nil
    with less.prems show ?thesis by simp
  next
    case (Cons c cs)
    note prems = less.prems [unfolded Cons fstring_body_Cons]
    show ?thesis
    proof (cases "cs \<noteq> [] \<and> (c = CHR ''{'' \<and> peek cs = CHR ''{'' \<or> c = CHR ''}'' \<and> peek cs = CHR ''}'' \<or> c = BSL)")
      case True
      then obtain d ds where cs: "cs = d # ds" by (cases cs) auto
      from True prems cs have "fstring_body (f_depth st) ds" by (auto split: if_splits)
      then have IH: "scan_fstring sl sc (ds @ DQ # rest) (col + 2) st
          = Inr (ds, rest, col + 2 + length ds + 1)"
        using less.IH [of ds st "col + 2"] Cons cs by simp
      from True have "c = CHR ''{'' \<and> peek cs = CHR ''{'' \<or> c = CHR ''}'' \<and> peek cs = CHR ''}'' \<or> c = BSL"
        by blast
      with IH show ?thesis unfolding Cons cs by (elim disjE conjE) simp_all
    next
      case False
      note IH = less.IH [of cs, unfolded Cons, simplified]
      from False prems show ?thesis unfolding Cons
        by (cases "c = CHR ''{''"; cases "c = CHR ''}''"; cases "c = BSL"; cases "cs = []")
          (simp_all add: peek_append IH)
    qed
  qed
qed


lemma is_digit_dot [simp]: "\<not> is_digit (CHR ''.'')" "\<not> is_digit NUL" "\<not> is_ident_char NUL"
  by (simp_all add: is_digit_def is_alpha_def is_ident_char_def less_eq_char_def)

lemma scan_ident_sound:
  "scan_ident cs col = (body, rest, col') \<Longrightarrow>
     cs = body @ rest \<and> list_all is_ident_char body \<and> \<not> is_ident_char (peek rest)
     \<and> col' = col + length body"
  by (induction cs col arbitrary: body rest col' rule: scan_ident.induct)
    (auto split: if_splits prod.splits)

lemma scan_ident_complete:
  "list_all is_ident_char body \<Longrightarrow> \<not> is_ident_char (peek rest) \<Longrightarrow>
     scan_ident (body @ rest) col = (body, rest, col + length body)"
  by (induction body arbitrary: col) (cases rest; auto)+

lemma scan_number_float_sound:
  "scan_number cs col True = (body, rest, col', fl) \<Longrightarrow>
     cs = body @ rest \<and> list_all is_digit body \<and> \<not> is_digit (peek rest) \<and> fl
     \<and> col' = col + length body"
  by (induction cs col True arbitrary: body rest col' fl rule: scan_number.induct)
    (auto split: if_splits prod.splits)

lemma scan_number_float_complete:
  "list_all is_digit body \<Longrightarrow> \<not> is_digit (peek rest) \<Longrightarrow>
     scan_number (body @ rest) col True = (body, rest, col + length body, True)"
  by (induction body arbitrary: col) (cases rest; auto)+

definition number_text :: "bool \<Rightarrow> string \<Rightarrow> string \<Rightarrow> bool" where
  "number_text fl body rest \<longleftrightarrow>
     \<not> is_digit (peek rest) \<and>
     (if fl then \<exists>a b. body = a @ CHR ''.'' # b \<and> list_all is_digit a \<and> list_all is_digit b
                       \<and> peek (b @ rest) \<noteq> CHR ''.''
      else list_all is_digit body \<and> (peek rest = CHR ''.'' \<longrightarrow> peek (tl rest) = CHR ''.''))"

lemma number_text_floatI:
  "list_all is_digit a \<Longrightarrow> list_all is_digit b \<Longrightarrow> peek (b @ rest) \<noteq> CHR ''.'' \<Longrightarrow>
     \<not> is_digit (peek rest) \<Longrightarrow> number_text True (a @ CHR ''.'' # b) rest"
  by (auto simp: number_text_def)

lemma number_text_digit:
  assumes "is_digit c" "number_text fl body rest"
  shows "number_text fl (c # body) rest"
proof (cases fl)
  case True
  with assms(2) obtain a b where "body = a @ CHR ''.'' # b" "list_all is_digit a" "list_all is_digit b"
      "peek (b @ rest) \<noteq> CHR ''.''" "\<not> is_digit (peek rest)"
    by (auto simp: number_text_def)
  with True assms(1) number_text_floatI [of "c # a" b rest] show ?thesis by simp
qed (use assms in \<open>auto simp: number_text_def\<close>)

lemma scan_number_sound:
  "scan_number cs col False = (body, rest, col', fl) \<Longrightarrow>
     cs = body @ rest \<and> number_text fl body rest \<and> col' = col + length body"
proof (induction cs arbitrary: col body)
  case Nil
  then show ?case by (auto simp: number_text_def)
next
  case (Cons c cs)
  consider "is_digit c" | "\<not> is_digit c" "c = CHR ''.''" "peek cs \<noteq> CHR ''.''"
    | "\<not> is_digit c" "c = CHR ''.'' \<longrightarrow> peek cs = CHR ''.''" by blast
  then show ?case
  proof cases
    case 1
    with Cons.prems obtain b where "scan_number cs (col + 1) False = (b, rest, col', fl)" "body = c # b"
      by (auto split: prod.splits)
    with 1 Cons.IH [of "col + 1" b] show ?thesis by (auto dest: number_text_digit)
  next
    case 2
    with Cons.prems obtain b where "scan_number cs (col + 1) True = (b, rest, col', fl)"
        "body = CHR ''.'' # b"
      by (auto split: prod.splits)
    with 2 scan_number_float_sound [of cs "col + 1" b rest col' fl]
        number_text_floatI [of "[]" b rest] show ?thesis by auto
  next
    case 3
    with Cons.prems show ?thesis by (auto simp: number_text_def)
  qed
qed

lemma scan_number_complete_float:
  "list_all is_digit a \<Longrightarrow> list_all is_digit b \<Longrightarrow> peek (b @ rest) \<noteq> CHR ''.'' \<Longrightarrow>
     \<not> is_digit (peek rest) \<Longrightarrow>
     scan_number (a @ CHR ''.'' # b @ rest) col False
       = (a @ CHR ''.'' # b, rest, col + length a + 1 + length b, True)"
  by (induction a arbitrary: col) (auto simp: scan_number_float_complete)

lemma scan_number_complete_int:
  "list_all is_digit a \<Longrightarrow> \<not> is_digit (peek rest) \<Longrightarrow>
     (peek rest = CHR ''.'' \<longrightarrow> peek (tl rest) = CHR ''.'') \<Longrightarrow>
     scan_number (a @ rest) col False = (a, rest, col + length a, False)"
  by (induction a arbitrary: col) (cases rest; auto)+

lemma scan_number_complete:
  "number_text fl body rest \<Longrightarrow>
     scan_number (body @ rest) col False = (body, rest, col + length body, fl)"
  by (cases fl) (auto simp: number_text_def scan_number_complete_int
      scan_number_complete_float [where rest = rest, simplified])

section \<open>Positions\<close>

fun advance :: "nat \<times> nat \<Rightarrow> string \<Rightarrow> nat \<times> nat" where
  "advance p [] = p"
| "advance (line, col) (c # cs) =
     (if c = LF then advance (line + 1, 1) cs else advance (line, col + 1) cs)"

lemma advance_append: "advance p (xs @ ys) = advance (advance p xs) ys"
  by (induction p xs rule: advance.induct) auto

lemma advance_same_line: "LF \<notin> set xs \<Longrightarrow> advance (line, col) xs = (line, col + length xs)"
  by (induction xs arbitrary: col) auto

lemma skip_line_comment_sound:
  "skip_line_comment cs col = (rest, col') \<Longrightarrow>
     \<exists>body. cs = body @ rest \<and> LF \<notin> set body \<and> (rest = [] \<or> peek rest = LF) \<and> col' = col + length body"
proof (induction cs col arbitrary: rest col' rule: skip_line_comment.induct)
  case (2 c cs col)
  show ?case
  proof (cases "c = LF")
    case False
    with 2 obtain body where "cs = body @ rest" "LF \<notin> set body" "rest = [] \<or> peek rest = LF"
        "col' = col + 1 + length body" by auto
    with False show ?thesis by (intro exI [of _ "c # body"]) auto
  qed (use 2 in auto)
qed auto

lemma skip_line_comment_complete:
  "LF \<notin> set body \<Longrightarrow> rest = [] \<or> peek rest = LF \<Longrightarrow>
     skip_line_comment (body @ rest) col = (rest, col + length body)"
  by (induction body arbitrary: col) (cases rest; auto)+

fun has_close :: "string \<Rightarrow> bool" where
  "has_close [] \<longleftrightarrow> False"
| "has_close (c # cs) \<longleftrightarrow> c = CHR ''*'' \<and> peek cs = CHR ''/'' \<or> has_close cs"

lemma has_close_peek:
  "peek cs \<noteq> CHR ''/'' \<Longrightarrow> \<not> (c = CHR ''*'' \<and> peek (cs @ [CHR ''*'']) = CHR ''/'')"
  by (cases cs) auto

lemma skip_block_comment_sound:
  "skip_block_comment cs line col = (rest, p) \<Longrightarrow>
     (\<exists>body. cs = body @ CHR ''*'' # CHR ''/'' # rest \<and> \<not> has_close (body @ [CHR ''*''])
        \<and> p = advance (line, col) (body @ [CHR ''*'', CHR ''/'']))
     \<or> rest = [] \<and> \<not> has_close cs \<and> p = advance (line, col) cs"
proof (induction cs line col arbitrary: rest p rule: skip_block_comment.induct)
  case (2 c cs line col)
  show ?case
  proof (cases "c = CHR ''*'' \<and> peek cs = CHR ''/''")
    case True
    then obtain ds where "cs = CHR ''/'' # ds" by (cases cs) auto
    with True "2.prems" show ?thesis by (intro disjI1 exI [of _ "[]"]) auto
  next
    case False
    let ?q = "if c = LF then (line + 1, 1) else (line, col + 1)"
    from False "2.prems" have *: "skip_block_comment cs (fst ?q) (snd ?q) = (rest, p)"
      by (auto split: if_splits)
    have "(\<exists>body. cs = body @ CHR ''*'' # CHR ''/'' # rest \<and> \<not> has_close (body @ [CHR ''*''])
        \<and> p = advance ?q (body @ [CHR ''*'', CHR ''/'']))
     \<or> rest = [] \<and> \<not> has_close cs \<and> p = advance ?q cs"
      using "2.IH" * False by (cases "c = LF") auto
    then show ?thesis
    proof (elim disjE exE conjE)
      fix body assume b: "cs = body @ CHR ''*'' # CHR ''/'' # rest" "\<not> has_close (body @ [CHR ''*''])"
        "p = advance ?q (body @ [CHR ''*'', CHR ''/''])"
      with False have "\<not> has_close ((c # body) @ [CHR ''*''])"
        by (cases body) auto
      with b show ?thesis by (intro disjI1 exI [of _ "c # body"]) auto
    qed (use False in auto)
  qed
qed auto

lemma skip_block_comment_closed:
  "\<not> has_close (body @ [CHR ''*'']) \<Longrightarrow>
     skip_block_comment (body @ CHR ''*'' # CHR ''/'' # rest) line col
       = (rest, advance (line, col) (body @ [CHR ''*'', CHR ''/'']))"
proof (induction body arbitrary: line col)
  case (Cons c body)
  then show ?case by (cases body) auto
qed auto

lemma skip_block_comment_open:
  "\<not> has_close body \<Longrightarrow> skip_block_comment body line col = ([], advance (line, col) body)"
  by (induction body arbitrary: line col) auto


section \<open>The lexical grammar\<close>

text \<open>
  A declarative account of the language the lexer accepts, independent of the scanning order:
  what a token of each type looks like in the source, given what follows it (so that identifiers,
  numbers and operators are as long as they can be), and what is skipped.
\<close>

inductive token_text :: "token_type \<Rightarrow> string \<Rightarrow> string \<Rightarrow> string \<Rightarrow> bool" where
  text_string: "string_body b \<Longrightarrow> token_text TOKEN_STRING_LIT b (DQ # b @ [DQ]) rest"
| text_fstring: "fstring_body 0 b \<Longrightarrow> token_text TOKEN_FSTRING_LIT b (CHR ''f'' # DQ # b @ [DQ]) rest"
| text_char: "c \<noteq> BSL \<Longrightarrow> c \<noteq> LF \<Longrightarrow> c \<noteq> SQ \<Longrightarrow> token_text TOKEN_CHAR_LIT (cstr [c]) [SQ, c, SQ] rest"
| text_escape: "token_text TOKEN_CHAR_LIT (cstr [unescape_char c]) [SQ, BSL, c, SQ] rest"
| text_number: "is_digit c \<Longrightarrow> number_text fl (c # b) rest \<Longrightarrow>
    token_text (if fl then TOKEN_FLOAT_LIT else TOKEN_INT_LIT) (c # b) (c # b) rest"
| text_word: "is_ident_start c \<Longrightarrow> list_all is_ident_char b \<Longrightarrow> \<not> is_ident_char (peek rest) \<Longrightarrow>
    \<not> (c # b = ''f'' \<and> peek rest = DQ) \<Longrightarrow> token_text (check_keyword (c # b)) (c # b) (c # b) rest"
| text_two: "map_of two_char_table (a, b) = Some ty \<Longrightarrow> token_text ty [a, b] [a, b] rest"
| text_one: "map_of one_char_table c = Some ty \<Longrightarrow> map_of two_char_table (c, peek rest) = None \<Longrightarrow>
    \<not> (c = CHR ''/'' \<and> (peek rest = CHR ''/'' \<or> peek rest = CHR ''*'')) \<Longrightarrow>
    token_text ty [c] [c] rest"

inductive trivia :: "string \<Rightarrow> string \<Rightarrow> bool" where
  trivia_blank: "c = CHR '' '' \<or> c = TAB \<or> c = CR \<or> c = LF \<Longrightarrow> trivia [c] rest"
| trivia_hash: "LF \<notin> set b \<Longrightarrow> rest = [] \<or> peek rest = LF \<Longrightarrow> trivia (CHR ''#'' # b) rest"
| trivia_slashes: "LF \<notin> set b \<Longrightarrow> rest = [] \<or> peek rest = LF \<Longrightarrow>
    trivia (CHR ''/'' # CHR ''/'' # b) rest"
| trivia_block: "\<not> has_close (b @ [CHR ''*'']) \<Longrightarrow>
    trivia (CHR ''/'' # CHR ''*'' # b @ [CHR ''*'', CHR ''/'']) rest"
| trivia_open: "\<not> has_close b \<Longrightarrow> trivia (CHR ''/'' # CHR ''*'' # b) []"

inductive lexed :: "string \<Rightarrow> nat \<times> nat \<Rightarrow> token list \<Rightarrow> bool" where
  lexed_eof: "lexed [] (line, col) [mk_token TOKEN_EOF ''EOF'' line col line col]"
| lexed_trivia: "trivia text rest \<Longrightarrow> lexed rest (advance p text) toks \<Longrightarrow> lexed (text @ rest) p toks"
| lexed_token: "token_text ty lexeme text rest \<Longrightarrow> advance (line, col) text = (line', col') \<Longrightarrow>
    lexed rest (line', col') toks \<Longrightarrow>
    lexed (text @ rest) (line, col) (mk_token ty lexeme line col line' col' # toks)"

inductive_cases token_textE: "token_text ty lexeme text rest"
inductive_cases triviaE: "trivia text rest"

section \<open>The main loop\<close>

lemma ident_start_char: "is_ident_start c \<Longrightarrow> is_ident_char c"
  by (auto simp: is_ident_start_def is_ident_char_def)

lemma scan_ident_start:
  assumes "is_ident_start c" "scan_ident (c # cs) col = (body, rest, col')"
  shows "\<exists>b. body = c # b \<and> cs = b @ rest \<and> list_all is_ident_char b \<and> \<not> is_ident_char (peek rest)
      \<and> col' = col + 1 + length b"
  using scan_ident_sound [OF assms(2)] ident_start_char [OF assms(1)]
  by (cases body) auto

lemma scan_number_start:
  assumes "is_digit c" "scan_number (c # cs) col False = (body, rest, col', fl)"
  shows "\<exists>b. body = c # b \<and> cs = b @ rest \<and> number_text fl (c # b) rest \<and> col' = col + 1 + length b"
  using scan_number_sound [OF assms(2)] assms(1)
  by (cases body) (auto simp: number_text_def)

lemma scan_char_sound:
  assumes "scan_char sl sc cs col = Inr (v, rest, col')"
  shows "\<exists>c. cs = c # SQ # rest \<and> c \<noteq> BSL \<and> c \<noteq> LF \<and> c \<noteq> SQ \<and> v = c \<and> col' = col + 2
      \<or> cs = BSL # c # SQ # rest \<and> v = unescape_char c \<and> col' = col + 3"
  using assms
  by (cases cs; cases "tl cs"; cases "tl (tl cs)")
    (auto simp: scan_char_def Let_def split: if_splits)

definition step_ok :: "char \<Rightarrow> string \<Rightarrow> nat \<times> nat \<Rightarrow> token option \<times> string \<times> nat \<times> nat \<Rightarrow> bool" where
  "step_ok c cs p r \<longleftrightarrow> (case r of (t, rest, q) \<Rightarrow>
     \<exists>text. cs = text @ rest \<and> (\<not> has_escaped_newline (c # text) \<longrightarrow> q = advance p (c # text))
       \<and> (case t of None \<Rightarrow> trivia (c # text) rest
          | Some k \<Rightarrow> \<exists>ty lexeme. k = mk_token ty lexeme (fst p) (snd p) (fst q) (snd q)
              \<and> token_text ty lexeme (c # text) rest))"

lemma step_okI_trivia:
  "trivia (c # text) rest \<Longrightarrow> cs = text @ rest \<Longrightarrow> q = advance p (c # text) \<Longrightarrow>
     step_ok c cs p (None, rest, q)"
  by (auto simp: step_ok_def)

lemma step_okI_token:
  "token_text ty lexeme (c # text) rest \<Longrightarrow> cs = text @ rest \<Longrightarrow>
     (\<not> has_escaped_newline (c # text) \<Longrightarrow> q = advance p (c # text)) \<Longrightarrow>
     step_ok c cs p (Some (mk_token ty lexeme (fst p) (snd p) (fst q) (snd q)), rest, q)"
  by (auto simp: step_ok_def)

lemma string_body_newline:
  "string_body b \<Longrightarrow> \<not> has_escaped_newline b \<Longrightarrow> LF \<notin> set b"
  by (induction b rule: string_body.induct) (auto split: if_splits)

lemma fstring_body_newline:
  "fstring_body d b \<Longrightarrow> \<not> has_escaped_newline b \<Longrightarrow> LF \<notin> set b"
proof (induction d b rule: fstring_body.induct)
  case (3 depth c d cs)
  then show ?case by (cases "c = CHR ''{''"; cases "c = CHR ''}''"; cases "c = BSL") (auto split: if_splits)
qed auto

lemma symbol_start_table:
  "map_of two_char_table (c, d) = Some ty \<Longrightarrow> c \<noteq> LF \<and> d \<noteq> LF"
  "map_of one_char_table c = Some ty \<Longrightarrow> c \<noteq> LF"
  by (auto simp: two_char_table_def one_char_table_def split: if_splits)

lemma lex_symbol_ok:
  assumes "lex_symbol c cs line col = Inr r"
    and "\<not> (c = CHR ''/'' \<and> (peek cs = CHR ''/'' \<or> peek cs = CHR ''*''))"
  shows "step_ok c cs (line, col) r"
proof (cases "map_of two_char_table (c, peek cs)")
  case None
  with assms obtain ty where "map_of one_char_table c = Some ty"
      "r = (Some (mk_token ty [c] line col line (col + 1)), cs, line, col + 1)"
    by (auto simp: lex_symbol_def split: option.splits)
  with None assms(2) step_okI_token [of ty "[c]" c "[]" cs cs "(line, col + 1)" "(line, col)"]
  show ?thesis by (simp add: text_one symbol_start_table)
next
  case (Some ty)
  moreover from Some have "cs \<noteq> []" by (auto simp: two_char_table_def)
  ultimately show ?thesis
    using assms step_okI_token [of ty "[c, peek cs]" c "[peek cs]" "tl cs" cs "(line, col + 2)" "(line, col)"]
    by (cases cs) (auto simp: lex_symbol_def text_two symbol_start_table)
qed


lemma newline_char [simp]: "\<not> is_digit LF" "\<not> is_ident_char LF"
  by (simp_all add: is_digit_def is_alpha_def is_ident_char_def less_eq_char_def)

lemma number_text_newline: "number_text fl b rest \<Longrightarrow> LF \<notin> set b"
  by (cases fl) (force simp: number_text_def list_all_iff)+

lemma lex_step_ok:
  assumes step: "lex_step c cs line col = Inr r"
  shows "step_ok c cs (line, col) r"
proof -
  consider (blank) "c = CHR '' '' \<or> c = TAB \<or> c = CR" | (nl) "c = LF" | (hash) "c = CHR ''#''"
    | (slashes) "c = CHR ''/''" "peek cs = CHR ''/''" | (block) "c = CHR ''/''" "peek cs = CHR ''*''"
    | (str) "c = DQ" | (fstr) "c = CHR ''f''" "peek cs = DQ" | (chr) "c = SQ"
    | (digit) "is_digit c"
    | (word) "is_ident_start c" "\<not> is_digit c" "\<not> (c = CHR ''f'' \<and> peek cs = DQ)"
    | (sym) "c \<noteq> CHR '' ''" "c \<noteq> TAB" "c \<noteq> CR" "c \<noteq> LF" "c \<noteq> CHR ''#''" "c \<noteq> DQ" "c \<noteq> SQ"
        "\<not> is_digit c" "\<not> is_ident_start c"
        "\<not> (c = CHR ''/'' \<and> peek cs = CHR ''/'')" "\<not> (c = CHR ''/'' \<and> peek cs = CHR ''*'')"
    by argo
  then show ?thesis
  proof cases
    case blank
    then show ?thesis using step by (auto simp: lex_step_def intro!: step_okI_trivia trivia_blank)
  next
    case nl
    then show ?thesis using step by (auto simp: lex_step_def intro!: step_okI_trivia trivia_blank)
  next
    case hash
    then show ?thesis using step
      by (auto simp: lex_step_def advance_same_line split: prod.splits dest!: skip_line_comment_sound
          intro!: step_okI_trivia trivia_hash)
  next
    case slashes
    then show ?thesis using step
      by (cases cs) (auto simp: lex_step_def advance_same_line split: prod.splits
          dest!: skip_line_comment_sound intro!: step_okI_trivia trivia_slashes)
  next
    case block
    then obtain ds where cs: "cs = CHR ''*'' # ds" by (cases cs) auto
    from step block cs obtain rest p where sk: "skip_block_comment ds line (col + 2) = (rest, p)"
        and r: "r = (None, rest, p)"
      by (cases "skip_block_comment ds line (col + 2)") (auto simp: lex_step_def)
    from skip_block_comment_sound [OF sk] show ?thesis
    proof (elim disjE exE conjE)
      fix b assume "ds = b @ CHR ''*'' # CHR ''/'' # rest" "\<not> has_close (b @ [CHR ''*''])"
        "p = advance (line, col + 2) (b @ [CHR ''*'', CHR ''/''])"
      with r cs block show ?thesis by (auto intro!: step_okI_trivia [of _ "CHR ''*'' # b @ [CHR ''*'', CHR ''/'']"] trivia_block)
    next
      assume "rest = []" "\<not> has_close ds" "p = advance (line, col + 2) ds"
      with r cs block show ?thesis
        by (auto intro!: step_okI_trivia [of _ "CHR ''*'' # ds"] trivia_open)
    qed
  next
    case str
    with step obtain b rest col' where sc: "scan_string line col cs (col + 1) = Inr (b, rest, col')"
        and r: "r = (Some (mk_token TOKEN_STRING_LIT b line col line col'), rest, line, col')"
      by (auto simp: lex_step_def map_sum_Inr_iff)
    from scan_string_sound [OF sc] have b: "cs = (b @ [DQ]) @ rest" "string_body b"
        "col' = col + length b + 2" by auto
    have "\<not> has_escaped_newline (c # b @ [DQ]) \<Longrightarrow> LF \<notin> set b"
      using string_body_newline [OF b(2)] escaped_newline_append [of b "[DQ]"] by auto
    with step_okI_token [OF _ b(1), of TOKEN_STRING_LIT b c "(line, col')" "(line, col)"] str b r
    show ?thesis by (auto simp: text_string advance_append advance_same_line)
  next
    case fstr
    then obtain ds where cs: "cs = DQ # ds" by (cases cs) auto
    from step fstr cs obtain b rest col' where
        sc: "scan_fstring line col ds (col + 2) \<lparr>f_depth = 0, f_open_line = line, f_open_col = col\<rparr>
          = Inr (b, rest, col')"
        and r: "r = (Some (mk_token TOKEN_FSTRING_LIT b line col line col'), rest, line, col')"
      by (auto simp: lex_step_def map_sum_Inr_iff is_digit_def is_ident_start_def)
    from scan_fstring_sound [OF sc] cs have b: "cs = (DQ # b @ [DQ]) @ rest" "fstring_body 0 b"
        "col' = col + length b + 3" by auto
    have "\<not> has_escaped_newline (c # DQ # b @ [DQ]) \<Longrightarrow> LF \<notin> set b"
      using fstring_body_newline [OF b(2)] escaped_newline_append [of b "[DQ]"] by auto
    with step_okI_token [OF _ b(1), of TOKEN_FSTRING_LIT b c "(line, col')" "(line, col)"] fstr b r
    show ?thesis by (auto simp: text_fstring advance_append advance_same_line)
  next
    case chr
    with step obtain v rest col' where sc: "scan_char line col cs (col + 1) = Inr (v, rest, col')"
        and r: "r = (Some (mk_token TOKEN_CHAR_LIT (cstr [v]) line col line col'), rest, line, col')"
      by (auto simp: lex_step_def map_sum_Inr_iff)
    from scan_char_sound [OF sc] obtain d where
      "cs = d # SQ # rest \<and> d \<noteq> BSL \<and> d \<noteq> LF \<and> d \<noteq> SQ \<and> v = d \<and> col' = col + 3
       \<or> cs = BSL # d # SQ # rest \<and> v = unescape_char d \<and> col' = col + 4" by fastforce
    then show ?thesis
    proof (elim disjE conjE)
      assume "cs = d # SQ # rest" "d \<noteq> BSL" "d \<noteq> LF" "d \<noteq> SQ" "v = d" "col' = col + 3"
      with step_okI_token [of TOKEN_CHAR_LIT "cstr [d]" SQ "[d, SQ]" rest cs "(line, col')" "(line, col)"]
        r chr show ?thesis by (simp add: text_char)
    next
      assume "cs = BSL # d # SQ # rest" "v = unescape_char d" "col' = col + 4"
      with step_okI_token [of TOKEN_CHAR_LIT "cstr [unescape_char d]" SQ "[BSL, d, SQ]" rest cs
          "(line, col')" "(line, col)"]
        r chr show ?thesis by (simp add: text_escape)
    qed
  next
    case digit
    then have "c \<noteq> CHR '' ''" "c \<noteq> TAB" "c \<noteq> CR" "c \<noteq> LF" "c \<noteq> CHR ''#''" "c \<noteq> DQ" "c \<noteq> SQ"
        "c \<noteq> CHR ''/''" "c \<noteq> CHR ''f''"
      by (auto simp: is_digit_def less_eq_char_def)
    with step digit obtain b rest col' fl where
        sc: "scan_number (c # cs) col False = (b, rest, col', fl)"
        and r: "r = (Some (mk_token (if fl then TOKEN_FLOAT_LIT else TOKEN_INT_LIT) b line col line col'),
              rest, line, col')"
      by (auto simp: lex_step_def split: prod.splits)
    from scan_number_start [OF digit sc] obtain d where
      b: "b = c # d" "cs = d @ rest" "number_text fl (c # d) rest" "col' = col + 1 + length d" by auto
    from number_text_newline [OF b(3)] have "LF \<notin> set (c # d)" .
    with step_okI_token [OF text_number, OF digit b(3) b(2), of "(line, col')" "(line, col)"] b r
    show ?thesis by (auto simp: advance_same_line)
  next
    case word
    then have "c \<noteq> CHR '' ''" "c \<noteq> TAB" "c \<noteq> CR" "c \<noteq> LF" "c \<noteq> CHR ''#''" "c \<noteq> DQ" "c \<noteq> SQ"
        "c \<noteq> CHR ''/''"
      by (auto simp: is_ident_start_def is_alpha_def less_eq_char_def)
    with step word obtain b rest col' where
        sc: "scan_ident (c # cs) col = (b, rest, col')"
        and r: "r = (Some (mk_token (check_keyword b) b line col line col'), rest, line, col')"
      by (auto simp: lex_step_def split: prod.splits)
    from scan_ident_start [OF word(1) sc] obtain d where
      b: "b = c # d" "cs = d @ rest" "list_all is_ident_char d" "\<not> is_ident_char (peek rest)"
        "col' = col + 1 + length d" by auto
    then have lf: "LF \<notin> set (c # d)" using ident_start_char [OF word(1)]
      by (force simp: list_all_iff)
    from word(3) b have "\<not> (c # d = ''f'' \<and> peek rest = DQ)" by auto
    from step_okI_token [OF text_word, OF word(1) b(3) b(4) this b(2), of "(line, col')" "(line, col)"] b r lf
    show ?thesis by (auto simp: advance_same_line)
  next
    case sym
    from sym(9) have "c \<noteq> CHR ''f''" by (auto simp: is_ident_start_def is_alpha_def less_eq_char_def)
    with sym step have "lex_symbol c cs line col = Inr r"
      by (cases "c = CHR ''/''") (simp_all add: lex_step_def)
    with lex_symbol_ok [of c cs line col r] sym show ?thesis by blast
  qed
qed


lemma lex_step_length:
  "lex_step c cs line col = Inr (t, rest, q) \<Longrightarrow> length rest \<le> length cs"
  by (auto simp: step_ok_def dest!: lex_step_ok)

function lex_loop :: "string \<Rightarrow> nat \<Rightarrow> nat \<Rightarrow> lex_error + token list" where
  "lex_loop [] line col = Inr [mk_token TOKEN_EOF ''EOF'' line col line col]"
| "lex_loop (c # cs) line col =
     (case lex_step c cs line col of
        Inl e \<Rightarrow> Inl e
      | Inr (t, rest, line', col') \<Rightarrow>
          map_sum id (\<lambda>ts. case t of Some tok \<Rightarrow> tok # ts | None \<Rightarrow> ts) (lex_loop rest line' col'))"
  by pat_completeness auto
termination
  by (relation "measure (\<lambda>(cs, line, col). length cs)")
    (auto dest: lex_step_length simp: less_Suc_eq_le)

definition lex_source :: "string \<Rightarrow> lex_error + token list" where
  "lex_source source = lex_loop (cstr source) 1 1"


section \<open>Printing tokens\<close>

text \<open>The lines that \<open>dump_tokens\<close> prints; \<open>%d\<close> prints a number in decimal.\<close>


definition dump_kind :: "token_type \<Rightarrow> string" where
  "dump_kind ty =
     (if ty \<in> {TOKEN_IMPORT, TOKEN_CLASS, TOKEN_STRUCT, TOKEN_SELF, TOKEN_FN, TOKEN_LET, TOKEN_IF,
          TOKEN_ELSE, TOKEN_WHILE, TOKEN_FOR, TOKEN_IN, TOKEN_RETURN, TOKEN_BREAK, TOKEN_CONTINUE,
          TOKEN_PRINT, TOKEN_ALLOC, TOKEN_LIST_NEW, TOKEN_MAP, TOKEN_MAP_NEW, TOKEN_ENUM,
          TOKEN_MATCH, TOKEN_OPERATOR, TOKEN_INTERFACE, TOKEN_IMPL, TOKEN_SELF_TYPE,
          TOKEN_TYPE_INT, TOKEN_TYPE_FLOAT, TOKEN_TYPE_CHAR, TOKEN_TYPE_BOOL, TOKEN_TYPE_STRING,
          TOKEN_TYPE_VOID, TOKEN_TRUE, TOKEN_FALSE, TOKEN_KW_AND, TOKEN_KW_OR, TOKEN_KW_NOT}
      then ''KEYWORD''
      else if ty = TOKEN_IDENT then ''IDENT'' else if ty = TOKEN_INT_LIT then ''INT''
      else if ty = TOKEN_FLOAT_LIT then ''FLOAT'' else if ty = TOKEN_STRING_LIT then ''STRING''
      else if ty = TOKEN_FSTRING_LIT then ''FSTRING'' else if ty = TOKEN_CHAR_LIT then ''CHAR''
      else if ty = TOKEN_EOF then ''EOF'' else ''SYMBOL'')"

definition dump_token :: "token \<Rightarrow> string" where
  "dump_token tok = decimal (t_line tok) @ '':'' @ decimal (t_col tok) @ '' '' @ dump_kind (t_type tok)
     @ (if t_type tok = TOKEN_EOF then [LF] else '' '' @ t_lexeme tok @ [LF])"

definition dump_tokens :: "token list \<Rightarrow> string" where
  "dump_tokens array = concat (map dump_token array)"

end
