(* ===== verification/Lexer_Grammar.thy ===== *)
theory Lexer_Grammar
  imports Lexer
begin

text \<open>
  The properties of the lexer: \<open>lex_source\<close> produces exactly the token lists of the declarative
  grammar \<open>lexed\<close> of \<open>Lexer\<close>, positions included, for sources without a backslash-newline pair;
  what goes wrong with such a pair; what the token list looks like; keywords and their names.
\<close>

section \<open>Accepting exactly the grammar\<close>

lemma lex_step_trivia:
  assumes "trivia text rest" "text = c # cs"
  shows "lex_step c (cs @ rest) line col = Inr (None, rest, advance (line, col) text)"
  using assms(1)
proof (cases rule: trivia.cases)
  case (trivia_blank d)
  then show ?thesis using assms(2) by (auto simp: lex_step_def)
next
  case (trivia_hash b)
  then have "c = CHR ''#''" "cs = b" using assms(2) by simp_all
  with trivia_hash show ?thesis by (simp add: lex_step_def advance_same_line skip_line_comment_complete)
next
  case (trivia_slashes b)
  then have "c = CHR ''/''" "cs = CHR ''/'' # b" using assms(2) by simp_all
  with trivia_slashes show ?thesis
    by (simp add: lex_step_def advance_same_line skip_line_comment_complete)
next
  case (trivia_block b)
  then have "c = CHR ''/''" "cs = CHR ''*'' # b @ [CHR ''*'', CHR ''/'']" using assms(2) by simp_all
  with trivia_block show ?thesis
    by (simp add: lex_step_def skip_block_comment_closed split: prod.splits)
next
  case (trivia_open b)
  then have "c = CHR ''/''" "cs = CHR ''*'' # b" using assms(2) by simp_all
  with trivia_open show ?thesis
    by (simp add: lex_step_def skip_block_comment_open split: prod.splits)
qed

definition symbol_start :: "char \<Rightarrow> bool" where
  "symbol_start c \<longleftrightarrow> c \<notin> set [CHR '' '', TAB, CR, LF, CHR ''#'', DQ, SQ, CHR ''f'']
     \<and> \<not> is_digit c \<and> \<not> is_ident_start c"

lemma two_char_start: "map_of two_char_table (c, d) = Some ty \<Longrightarrow>
    symbol_start c \<and> \<not> (c = CHR ''/'' \<and> (d = CHR ''/'' \<or> d = CHR ''*''))"
proof -
  have "list_all (\<lambda>((c, d), ty). symbol_start c \<and> \<not> (c = CHR ''/'' \<and> (d = CHR ''/'' \<or> d = CHR ''*'')))
      two_char_table" by code_simp
  then show "map_of two_char_table (c, d) = Some ty \<Longrightarrow>
    symbol_start c \<and> \<not> (c = CHR ''/'' \<and> (d = CHR ''/'' \<or> d = CHR ''*''))"
    by (auto simp: list_all_iff dest: map_of_SomeD)
qed

lemma one_char_start: "map_of one_char_table c = Some ty \<Longrightarrow> symbol_start c"
proof -
  have "list_all (\<lambda>(c, ty). symbol_start c) one_char_table" by code_simp
  then show "map_of one_char_table c = Some ty \<Longrightarrow> symbol_start c"
    by (auto simp: list_all_iff dest: map_of_SomeD)
qed

lemma lex_step_symbol:
  "symbol_start c \<Longrightarrow> \<not> (c = CHR ''/'' \<and> (peek cs = CHR ''/'' \<or> peek cs = CHR ''*'')) \<Longrightarrow>
     lex_step c cs line col = lex_symbol c cs line col"
  by (cases "c = CHR ''/''") (simp_all add: symbol_start_def lex_step_def)

lemma lex_step_token:
  assumes "token_text ty lexeme text rest" "text = c # cs" "\<not> has_escaped_newline text"
    and "advance (line, col) text = (line', col')"
  shows "lex_step c (cs @ rest) line col = Inr (Some (mk_token ty lexeme line col line' col'), rest, line', col')"
  using assms(1)
proof (cases rule: token_text.cases)
  case text_string
  then have c: "c = DQ" "cs = lexeme @ [DQ]" using assms(2) by simp_all
  have "LF \<notin> set lexeme"
    using text_string string_body_newline [of lexeme] escaped_newline_append [of lexeme "[DQ]"] assms(3)
    by simp
  with c text_string assms(2,4) show ?thesis
    by (auto simp: lex_step_def scan_string_complete advance_append advance_same_line)
next
  case text_fstring
  then have c: "c = CHR ''f''" "cs = DQ # lexeme @ [DQ]" using assms(2) by simp_all
  have "LF \<notin> set lexeme"
    using text_fstring fstring_body_newline [of 0 lexeme] escaped_newline_append [of lexeme "[DQ]"] assms(3)
    by simp
  with c text_fstring assms(2,4) show ?thesis
    by (auto simp: lex_step_def scan_fstring_complete advance_append advance_same_line is_digit_def
        is_ident_start_def)
next
  case (text_char d)
  then have "c = SQ" "cs = [d, SQ]" using assms(2) by simp_all
  with text_char assms(4) show ?thesis by (auto simp: lex_step_def scan_char_def)
next
  case (text_escape d)
  then have "c = SQ" "cs = [BSL, d, SQ]" using assms(2) by simp_all
  with text_escape assms(3,4) show ?thesis by (auto simp: lex_step_def scan_char_def)
next
  case (text_number d fl b)
  then have "c \<noteq> CHR '' ''" "c \<noteq> TAB" "c \<noteq> CR" "c \<noteq> LF" "c \<noteq> CHR ''#''" "c \<noteq> DQ" "c \<noteq> SQ"
      "c \<noteq> CHR ''/''" "c \<noteq> CHR ''f''" using assms(2)
    by (auto simp: is_digit_def less_eq_char_def)
  with text_number assms number_text_newline [of fl "c # cs" rest] scan_number_complete [of fl "c # cs" rest col]
  show ?thesis by (simp add: lex_step_def advance_same_line)
next
  case (text_word d b)
  then have "c \<noteq> CHR '' ''" "c \<noteq> TAB" "c \<noteq> CR" "c \<noteq> LF" "c \<noteq> CHR ''#''" "c \<noteq> DQ" "c \<noteq> SQ"
      "c \<noteq> CHR ''/''" "\<not> is_digit c" using assms(2)
    by (auto simp: is_ident_start_def is_alpha_def is_digit_def less_eq_char_def)
  moreover have "LF \<notin> set text" using text_word ident_start_char [of d]
    by (force simp: list_all_iff)
  moreover have "\<not> (c = CHR ''f'' \<and> peek (cs @ rest) = DQ)"
    using text_word assms(2) by (cases cs) (auto simp: is_ident_char_def is_alpha_def is_digit_def less_eq_char_def)
  moreover have "scan_ident (c # cs @ rest) col = (text, rest, col + length text)"
    using text_word assms(2) scan_ident_complete [of "c # cs" rest col] ident_start_char [of d] by simp
  ultimately show ?thesis using text_word assms(2,4)
    by (auto simp: lex_step_def advance_same_line ident_start_char)
next
  case (text_two a b)
  with assms two_char_start [of a b ty] symbol_start_table(1) [of a b ty] show ?thesis
    by (auto simp: lex_step_symbol lex_symbol_def)
next
  case (text_one d)
  with assms one_char_start [of d ty] symbol_start_table(2) [of d ty] show ?thesis
    by (auto simp: lex_step_symbol lex_symbol_def)
qed


lemma lexed_pieces:
  "trivia text rest \<Longrightarrow> text \<noteq> []" "token_text ty lexeme text rest \<Longrightarrow> text \<noteq> []"
  by (auto elim: trivia.cases token_text.cases)

lemma map_of_list_all: "list_all (\<lambda>(k, v). P v) xs \<Longrightarrow> map_of xs k = Some v \<Longrightarrow> P v"
  by (auto simp: list_all_iff dest: map_of_SomeD)

lemma table_types:
  "map_of two_char_table k = Some ty \<Longrightarrow> ty \<noteq> TOKEN_EOF \<and> ty \<noteq> TOKEN_ERROR"
  "map_of one_char_table c = Some ty \<Longrightarrow> ty \<noteq> TOKEN_EOF \<and> ty \<noteq> TOKEN_ERROR"
  "map_of keyword_table w = Some ty \<Longrightarrow> ty \<noteq> TOKEN_EOF \<and> ty \<noteq> TOKEN_ERROR"
  by (erule map_of_list_all [rotated], simp add: two_char_table_def one_char_table_def keyword_table_def)+

lemma token_text_type:
  "token_text ty lexeme text rest \<Longrightarrow> ty \<noteq> TOKEN_EOF \<and> ty \<noteq> TOKEN_ERROR"
  by (erule token_text.cases)
    (auto simp: check_keyword_def dest: table_types split: option.splits if_splits)

lemma lex_stepE:
  assumes "lex_step c cs line col = Inr (t, rest, line', col')"
  obtains p where "cs = p @ rest"
    "\<not> has_escaped_newline (c # p) \<longrightarrow> (line', col') = advance (line, col) (c # p)"
    "case t of None \<Rightarrow> trivia (c # p) rest
      | Some k \<Rightarrow> \<exists>ty lexeme. k = mk_token ty lexeme line col line' col' \<and> token_text ty lexeme (c # p) rest"
proof -
  from lex_step_ok [OF assms] show thesis
    unfolding step_ok_def prod.case fst_conv snd_conv by (elim exE conjE) (rule that)
qed

lemma lex_loop_sound:
  "lex_loop s line col = Inr toks \<Longrightarrow> \<not> has_escaped_newline s \<Longrightarrow> lexed s (line, col) toks"
proof (induction s line col arbitrary: toks rule: lex_loop.induct)
  case (1 line col)
  then show ?case by (auto intro: lexed_eof)
next
  case (2 c cs line col)
  from "2.prems"(1) obtain t rest line' col' ts where
    st: "lex_step c cs line col = Inr (t, rest, line', col')" and l: "lex_loop rest line' col' = Inr ts"
    and toks: "toks = (case t of Some tok \<Rightarrow> tok # ts | None \<Rightarrow> ts)"
    by (auto simp: map_sum_Inr_iff split: sum.splits)
  obtain p where p: "cs = p @ rest"
    "\<not> has_escaped_newline (c # p) \<longrightarrow> (line', col') = advance (line, col) (c # p)"
    "case t of None \<Rightarrow> trivia (c # p) rest
      | Some k \<Rightarrow> \<exists>ty lexeme. k = mk_token ty lexeme line col line' col' \<and> token_text ty lexeme (c # p) rest"
    by (rule lex_stepE [OF st])
  from "2.prems"(2) p(1) escaped_newline_append [of "c # p" rest]
  have nl: "\<not> has_escaped_newline (c # p)" "\<not> has_escaped_newline rest" by simp_all
  note IH = "2.IH" [OF st _ _ _ l nl(2), simplified]
  show ?case
  proof (cases t)
    case None
    with IH p nl toks lexed_trivia [of "c # p" rest "(line, col)" ts] show ?thesis by simp
  next
    case (Some k)
    then obtain ty lexeme where "k = mk_token ty lexeme line col line' col'"
        "token_text ty lexeme (c # p) rest" using p(3) by auto
    with Some IH p nl toks lexed_token [of ty lexeme "c # p" rest line col line' col' ts]
    show ?thesis by simp
  qed
qed

lemma lex_loop_complete:
  "lexed s (line, col) toks \<Longrightarrow> \<not> has_escaped_newline s \<Longrightarrow> lex_loop s line col = Inr toks"
proof (induction s "(line, col)" toks arbitrary: line col rule: lexed.induct)
  case (lexed_eof line col)
  then show ?case by simp
next
  case (lexed_trivia t rest toks)
  obtain line' col' where q: "advance (line, col) t = (line', col')" by fastforce
  from lexed_pieces(1) [OF lexed_trivia.hyps(1)] obtain c cs where t: "t = c # cs" by (cases t) auto
  from lexed_trivia.prems have "\<not> has_escaped_newline rest" by (auto dest: escaped_newline_append)
  with lexed_trivia.hyps(3) [OF q] have "lex_loop rest line' col' = Inr toks" by simp
  with lex_step_trivia [OF lexed_trivia.hyps(1) t, of line col] t q show ?case by simp
next
  case (lexed_token ty lexeme t rest line col line' col' toks)
  from lexed_pieces(2) [OF lexed_token.hyps(1)] obtain c cs where t: "t = c # cs" by (cases t) auto
  from lexed_token.prems have "\<not> has_escaped_newline rest" "\<not> has_escaped_newline t"
    by (auto dest: escaped_newline_append)
  with lexed_token lex_step_token [OF lexed_token.hyps(1) t _ lexed_token.hyps(2)] t
  show ?case by simp
qed

text \<open>
  C7. For a source without a backslash directly before a newline, the lexer returns a token list
  exactly when the grammar derives it: the source is tiled by white space, comments and token
  texts, each token as long as it can be, with its lexeme, its type and its start and end position
  counted over the text before it; every other source is an error.
\<close>

theorem lex_source_iff_grammar:
  assumes "\<not> has_escaped_newline (cstr source)"
  shows "lex_source source = Inr toks \<longleftrightarrow> lexed (cstr source) (1, 1) toks"
  using lex_loop_sound [of "cstr source" 1 1 toks] lex_loop_complete [of "cstr source" 1 1 toks] assms
  by (auto simp: lex_source_def)

lemma lex_loop_types:
  "lex_loop s line col = Inr toks \<Longrightarrow>
     \<exists>ts el ec. toks = ts @ [mk_token TOKEN_EOF ''EOF'' el ec el ec]
       \<and> list_all (\<lambda>t. t_type t \<noteq> TOKEN_EOF \<and> t_type t \<noteq> TOKEN_ERROR) ts"
proof (induction s line col arbitrary: toks rule: lex_loop.induct)
  case (2 c cs line col)
  from "2.prems"(1) obtain t rest line' col' ts where
    st: "lex_step c cs line col = Inr (t, rest, line', col')" and l: "lex_loop rest line' col' = Inr ts"
    and toks: "toks = (case t of Some tok \<Rightarrow> tok # ts | None \<Rightarrow> ts)"
    by (auto simp: map_sum_Inr_iff split: sum.splits)
  from "2.IH" [OF st refl refl refl l] obtain us el ec where
    us: "ts = us @ [mk_token TOKEN_EOF ''EOF'' el ec el ec]"
      "list_all (\<lambda>t. t_type t \<noteq> TOKEN_EOF \<and> t_type t \<noteq> TOKEN_ERROR) us" by auto
  show ?case
  proof (cases t)
    case (Some k)
    with lex_step_ok [OF st] have "t_type k \<noteq> TOKEN_EOF \<and> t_type k \<noteq> TOKEN_ERROR"
      by (auto simp: step_ok_def mk_token_def dest: token_text_type)
    with Some us toks have "toks = (k # us) @ [mk_token TOKEN_EOF ''EOF'' el ec el ec]
       \<and> list_all (\<lambda>t. t_type t \<noteq> TOKEN_EOF \<and> t_type t \<noteq> TOKEN_ERROR) (k # us)" by simp
    then show ?thesis by blast
  qed (use us toks in auto)
qed auto


lemmas lex_run = lex_source_def cstr_def lex_step_def lex_symbol_def two_char_table_def one_char_table_def
  is_digit_def is_alpha_def is_ident_start_def is_ident_char_def less_eq_char_def
  check_keyword_def keyword_table_def mk_token_def

theorem lex_source_iff_grammar_witness:
  "lexed ''x=1..f // c'' (1, 1)
     [mk_token TOKEN_IDENT ''x'' 1 1 1 2, mk_token TOKEN_ASSIGN ''='' 1 2 1 3,
      mk_token TOKEN_INT_LIT ''1'' 1 3 1 4, mk_token TOKEN_DOT_DOT ''..'' 1 4 1 6,
      mk_token TOKEN_IDENT ''f'' 1 6 1 7, mk_token TOKEN_EOF ''EOF'' 1 12 1 12]"
proof -
  have "lex_source ''x=1..f // c'' = Inr
     [mk_token TOKEN_IDENT ''x'' 1 1 1 2, mk_token TOKEN_ASSIGN ''='' 1 2 1 3,
      mk_token TOKEN_INT_LIT ''1'' 1 3 1 4, mk_token TOKEN_DOT_DOT ''..'' 1 4 1 6,
      mk_token TOKEN_IDENT ''f'' 1 6 1 7, mk_token TOKEN_EOF ''EOF'' 1 12 1 12]"
    by (simp add: lex_run)
  moreover have "cstr ''x=1..f // c'' = ''x=1..f // c''" "\<not> has_escaped_newline ''x=1..f // c''"
    by (simp_all add: cstr_def)
  ultimately show ?thesis using lex_source_iff_grammar [of "''x=1..f // c''"] by simp
qed

text \<open>
  A successful lexing ends with one \<open>TOKEN_EOF\<close> whose end is its start; no other token has
  that type, and none is a \<open>TOKEN_ERROR\<close>.
\<close>

theorem lex_source_ends_with_eof:
  assumes "lex_source source = Inr toks"
  shows "\<exists>ts line col. toks = ts @ [mk_token TOKEN_EOF ''EOF'' line col line col]
      \<and> list_all (\<lambda>t. t_type t \<noteq> TOKEN_EOF \<and> t_type t \<noteq> TOKEN_ERROR) ts"
  using lex_loop_types [OF assms [unfolded lex_source_def]] by blast

theorem lex_source_ends_with_eof_witness:
  "\<exists>ts line col. [mk_token TOKEN_AMP ''&'' 1 1 1 2, mk_token TOKEN_EOF ''EOF'' 1 2 1 2]
        = ts @ [mk_token TOKEN_EOF ''EOF'' line col line col]
      \<and> list_all (\<lambda>t. t_type t \<noteq> TOKEN_EOF \<and> t_type t \<noteq> TOKEN_ERROR) ts"
proof (rule lex_source_ends_with_eof)
  show "lex_source ''&'' = Inr [mk_token TOKEN_AMP ''&'' 1 1 1 2, mk_token TOKEN_EOF ''EOF'' 1 2 1 2]"
    by (simp add: lex_run)
qed

lemma advance_line: "fst (advance p xs) = fst p + length (filter (\<lambda>c. c = LF) xs)"
  by (induction p xs rule: advance.induct) auto

text \<open>
  A string literal with an escaped newline in it is one token that ends on the line it starts
  on, so the lexer counts the rest of the file at least one line short: the line it goes on with
  is smaller than that of the text.
\<close>

theorem escaped_newline_loses_line:
  assumes "string_body body" "LF \<in> set body"
  shows "lex_step DQ (body @ DQ # rest) line col
      = Inr (Some (mk_token TOKEN_STRING_LIT body line col line (col + length body + 2)), rest,
          line, col + length body + 2)
    \<and> line < fst (advance (line, col) (DQ # body @ [DQ]))"
proof -
  have "filter (\<lambda>c. c = LF) body \<noteq> []" using assms(2) by (auto simp: filter_empty_conv)
  with assms(1) show ?thesis
    by (simp add: lex_step_def scan_string_complete advance_line)
qed

theorem escaped_newline_loses_line_witness:
  "lex_step DQ ([BSL, LF] @ DQ # ''x'') 1 1
      = Inr (Some (mk_token TOKEN_STRING_LIT [BSL, LF] 1 1 1 (1 + length [BSL, LF] + 2)), ''x'', 1,
          1 + length [BSL, LF] + 2)
    \<and> 1 < fst (advance (1, 1) (DQ # [BSL, LF] @ [DQ]))"
  by (rule escaped_newline_loses_line) simp_all

lemma keyword_table_names:
  "map_of keyword_table w = Some ty \<Longrightarrow>
     ty = TOKEN_IN \<and> w = ''in'' \<or> ty \<noteq> TOKEN_IN \<and> ty \<noteq> TOKEN_IDENT \<and> w = token_type_to_string ty"
proof -
  have "list_all (\<lambda>(w, ty). ty = TOKEN_IN \<and> w = ''in''
      \<or> ty \<noteq> TOKEN_IN \<and> ty \<noteq> TOKEN_IDENT \<and> w = token_type_to_string ty) keyword_table"
    by (simp add: keyword_table_def)
  then show "map_of keyword_table w = Some ty \<Longrightarrow>
     ty = TOKEN_IN \<and> w = ''in'' \<or> ty \<noteq> TOKEN_IN \<and> ty \<noteq> TOKEN_IDENT \<and> w = token_type_to_string ty"
    by (auto simp: list_all_iff dest: map_of_SomeD)
qed

lemma keyword_table_inverse:
  "ty \<in> snd ` set keyword_table \<Longrightarrow> ty \<noteq> TOKEN_IN \<Longrightarrow>
     map_of keyword_table (token_type_to_string ty) = Some ty"
proof -
  have "list_all (\<lambda>(w, ty). ty \<noteq> TOKEN_IN \<longrightarrow>
      map_of keyword_table (token_type_to_string ty) = Some ty) keyword_table"
    by (simp add: keyword_table_def)
  then show "ty \<in> snd ` set keyword_table \<Longrightarrow> ty \<noteq> TOKEN_IN \<Longrightarrow>
     map_of keyword_table (token_type_to_string ty) = Some ty"
    by (auto simp: list_all_iff)
qed

lemma keyword_in: "map_of keyword_table ''in'' = Some TOKEN_IN" by (simp add: keyword_table_def)

lemma token_name_unknown: "token_type_to_string TOKEN_IN = ''UNKNOWN''" by simp

text \<open>
  Every keyword is printed by \<open>token_type_to_string\<close> as the word that \<open>check_keyword\<close> reads
  back as it, but for \<open>in\<close>, which is printed as \<open>UNKNOWN\<close>; every other word is an identifier.
\<close>

theorem keyword_names:
  "(check_keyword w = ty \<longleftrightarrow>
     (if ty = TOKEN_IDENT then map_of keyword_table w = None
      else if ty = TOKEN_IN then w = ''in''
      else ty \<in> snd ` set keyword_table \<and> w = token_type_to_string ty))
   \<and> token_type_to_string TOKEN_IN = ''UNKNOWN''"
proof (cases "map_of keyword_table w")
  case None
  then show ?thesis
    using keyword_table_inverse [of ty]
    by (simp add: check_keyword_def keyword_in token_name_unknown) (metis keyword_in option.distinct(1))
next
  case (Some t)
  then have "t \<in> snd ` set keyword_table" by (force dest: map_of_SomeD)
  with Some keyword_table_names [OF Some] keyword_table_inverse [of ty] keyword_table_inverse [of t]
  show ?thesis
    by (simp add: check_keyword_def token_name_unknown) (metis keyword_in option.inject)
qed

end
