(* ===== verification/X86_Instr.thy ===== *)
theory X86_Instr
  imports X86_Reg
begin

text \<open>
  Machine instructions (\<open>src/backend/x86_64/x86_64_instr.h\<close>) and the functions of
  \<open>x86_64_instr.c\<close> that build them. An instruction list is a list; the \<open>x86_emit\<close> functions
  append to it. \<open>calloc\<close> clears a new instruction: its operands have kind \<open>X86_OPERAND_NONE\<close>, size
  0, register \<open>X86_REG_RAX\<close> (the register of value 0), immediate 0 and no symbol.
\<close>

datatype (plugins only: size code) x86_op =
    X86_OP_LABEL | X86_OP_PUSH | X86_OP_POP | X86_OP_RET | X86_OP_SUB_IMM | X86_OP_ADD_IMM
    | X86_OP_LEA | X86_OP_MOV | X86_OP_MOVB_IMM | X86_OP_MOVSLQ | X86_OP_MOVZBL | X86_OP_CMOVE
    | X86_OP_ADD | X86_OP_SUB | X86_OP_IMUL | X86_OP_IDIV | X86_OP_CLTD | X86_OP_NEG
    | X86_OP_AND | X86_OP_OR | X86_OP_XOR | X86_OP_CMP | X86_OP_CMP_IMM | X86_OP_SETCC
    | X86_OP_ANDB | X86_OP_ORB | X86_OP_JMP | X86_OP_JNE | X86_OP_JE | X86_OP_CALL
    | X86_OP_MOVSD | X86_OP_ADDSD | X86_OP_SUBSD | X86_OP_MULSD | X86_OP_DIVSD | X86_OP_XORPD
    | X86_OP_UCOMISD

datatype x86_cond_code =
    X86_CC_E | X86_CC_NE | X86_CC_L | X86_CC_LE | X86_CC_G | X86_CC_GE | X86_CC_B | X86_CC_BE
    | X86_CC_A | X86_CC_AE | X86_CC_P | X86_CC_NP

datatype x86_operand_kind =
    X86_OPERAND_NONE | X86_OPERAND_REG | X86_OPERAND_IMM | X86_OPERAND_MEM_BASE
    | X86_OPERAND_MEM_RIP | X86_OPERAND_LABEL | X86_OPERAND_SYMBOL

record x86_operand =
  o_kind :: x86_operand_kind
  o_size :: int
  o_reg :: x86_reg
  o_imm :: u64
  o_symbol :: "string option"

record x86_instr =
  i_op :: x86_op
  i_cond :: x86_cond_code
  i_dst :: x86_operand
  i_src :: x86_operand

type_synonym x86_instr_list = "x86_instr list"

definition none_operand :: x86_operand where
  "none_operand = \<lparr>o_kind = X86_OPERAND_NONE, o_size = 0, o_reg = X86_REG_RAX, o_imm = 0, o_symbol = None\<rparr>"

definition x86_instr_create :: "x86_op \<Rightarrow> x86_instr" where
  "x86_instr_create op = \<lparr>i_op = op, i_cond = X86_CC_E, i_dst = none_operand, i_src = none_operand\<rparr>"

definition x86_instr_list_create :: x86_instr_list where
  "x86_instr_list_create = []"

definition x86_instr_list_append :: "x86_instr_list \<Rightarrow> x86_instr \<Rightarrow> x86_instr_list" where
  "x86_instr_list_append xs inst = xs @ [inst]"

text \<open>The operands that the emitters fill in.\<close>

definition reg_operand :: "x86_reg \<Rightarrow> int \<Rightarrow> x86_operand" where
  "reg_operand r sz = none_operand\<lparr>o_kind := X86_OPERAND_REG, o_reg := r, o_size := sz\<rparr>"

definition imm_operand :: "u64 \<Rightarrow> int \<Rightarrow> x86_operand" where
  "imm_operand v sz = none_operand\<lparr>o_kind := X86_OPERAND_IMM, o_imm := v, o_size := sz\<rparr>"

definition mem_operand :: "x86_reg \<Rightarrow> u64 \<Rightarrow> int \<Rightarrow> x86_operand" where
  "mem_operand base off sz =
     none_operand\<lparr>o_kind := X86_OPERAND_MEM_BASE, o_reg := base, o_imm := off, o_size := sz\<rparr>"

definition rip_operand :: "string \<Rightarrow> int \<Rightarrow> x86_operand" where
  "rip_operand nm sz = none_operand\<lparr>o_kind := X86_OPERAND_MEM_RIP, o_symbol := Some nm, o_size := sz\<rparr>"

definition label_operand :: "x86_operand_kind \<Rightarrow> string \<Rightarrow> x86_operand" where
  "label_operand kind nm = none_operand\<lparr>o_kind := kind, o_symbol := Some nm\<rparr>"

lemmas operand_defs [enc_simps] = none_operand_def reg_operand_def imm_operand_def mem_operand_def
  rip_operand_def label_operand_def x86_instr_create_def x86_instr_list_append_def

section \<open>Emitters\<close>

definition x86_emit_label :: "x86_instr_list \<Rightarrow> string \<Rightarrow> x86_instr_list" where
  "x86_emit_label xs name = x86_instr_list_append xs ((x86_instr_create X86_OP_LABEL)
       \<lparr>i_dst := label_operand X86_OPERAND_LABEL name\<rparr>)"

definition x86_emit_push :: "x86_instr_list \<Rightarrow> x86_reg \<Rightarrow> x86_instr_list" where
  "x86_emit_push xs reg = x86_instr_list_append xs ((x86_instr_create X86_OP_PUSH)
       \<lparr>i_dst := reg_operand reg 8\<rparr>)"

definition x86_emit_pop :: "x86_instr_list \<Rightarrow> x86_reg \<Rightarrow> x86_instr_list" where
  "x86_emit_pop xs reg = x86_instr_list_append xs ((x86_instr_create X86_OP_POP)
       \<lparr>i_dst := reg_operand reg 8\<rparr>)"

definition x86_emit_ret :: "x86_instr_list \<Rightarrow> x86_instr_list" where
  "x86_emit_ret xs = x86_instr_list_append xs (x86_instr_create X86_OP_RET)"

definition x86_emit_sub_imm_rsp :: "x86_instr_list \<Rightarrow> 32 word \<Rightarrow> x86_instr_list" where
  "x86_emit_sub_imm_rsp xs imm = x86_instr_list_append xs ((x86_instr_create X86_OP_SUB_IMM)
       \<lparr>i_dst := reg_operand X86_REG_RSP 8, i_src := imm_operand (scast imm) 0\<rparr>)"

definition x86_emit_add_imm_rsp :: "x86_instr_list \<Rightarrow> 32 word \<Rightarrow> x86_instr_list" where
  "x86_emit_add_imm_rsp xs imm = x86_instr_list_append xs ((x86_instr_create X86_OP_ADD_IMM)
       \<lparr>i_dst := reg_operand X86_REG_RSP 8, i_src := imm_operand (scast imm) 0\<rparr>)"

definition x86_emit_lea_mem :: "x86_instr_list \<Rightarrow> x86_reg \<Rightarrow> 32 word \<Rightarrow> x86_reg \<Rightarrow> x86_instr_list" where
  "x86_emit_lea_mem xs base_reg offset dst_reg = x86_instr_list_append xs ((x86_instr_create X86_OP_LEA)
       \<lparr>i_dst := reg_operand dst_reg 8, i_src := mem_operand base_reg (scast offset) 8\<rparr>)"

definition x86_emit_lea_rip :: "x86_instr_list \<Rightarrow> string \<Rightarrow> x86_reg \<Rightarrow> x86_instr_list" where
  "x86_emit_lea_rip xs symbol dst_reg = x86_instr_list_append xs ((x86_instr_create X86_OP_LEA)
       \<lparr>i_dst := reg_operand dst_reg 8, i_src := rip_operand symbol 8\<rparr>)"

definition x86_emit_mov_reg_reg :: "x86_instr_list \<Rightarrow> int \<Rightarrow> x86_reg \<Rightarrow> x86_reg \<Rightarrow> x86_instr_list" where
  "x86_emit_mov_reg_reg xs sz src_reg dst_reg = x86_instr_list_append xs ((x86_instr_create X86_OP_MOV)
       \<lparr>i_dst := reg_operand dst_reg sz, i_src := reg_operand src_reg sz\<rparr>)"

definition x86_emit_mov_imm_reg :: "x86_instr_list \<Rightarrow> int \<Rightarrow> u64 \<Rightarrow> x86_reg \<Rightarrow> x86_instr_list" where
  "x86_emit_mov_imm_reg xs sz imm dst_reg = x86_instr_list_append xs ((x86_instr_create X86_OP_MOV)
       \<lparr>i_dst := reg_operand dst_reg sz, i_src := imm_operand imm sz\<rparr>)"

definition x86_emit_mov_mem_reg :: "x86_instr_list \<Rightarrow> int \<Rightarrow> x86_reg \<Rightarrow> 32 word \<Rightarrow> x86_reg \<Rightarrow> x86_instr_list" where
  "x86_emit_mov_mem_reg xs sz base_reg offset dst_reg = x86_instr_list_append xs ((x86_instr_create X86_OP_MOV)
       \<lparr>i_dst := reg_operand dst_reg sz, i_src := mem_operand base_reg (scast offset) sz\<rparr>)"

definition x86_emit_mov_reg_mem :: "x86_instr_list \<Rightarrow> int \<Rightarrow> x86_reg \<Rightarrow> x86_reg \<Rightarrow> 32 word \<Rightarrow> x86_instr_list" where
  "x86_emit_mov_reg_mem xs sz src_reg base_reg offset = x86_instr_list_append xs ((x86_instr_create X86_OP_MOV)
       \<lparr>i_dst := mem_operand base_reg (scast offset) sz, i_src := reg_operand src_reg sz\<rparr>)"

definition x86_emit_mov_rip_reg :: "x86_instr_list \<Rightarrow> string \<Rightarrow> x86_reg \<Rightarrow> x86_instr_list" where
  "x86_emit_mov_rip_reg xs symbol dst_reg = x86_instr_list_append xs ((x86_instr_create X86_OP_MOV)
       \<lparr>i_dst := reg_operand dst_reg 8, i_src := rip_operand symbol 8\<rparr>)"

definition x86_emit_movb_imm :: "x86_instr_list \<Rightarrow> u8 \<Rightarrow> x86_reg \<Rightarrow> x86_instr_list" where
  "x86_emit_movb_imm xs imm dst_reg = x86_instr_list_append xs ((x86_instr_create X86_OP_MOVB_IMM)
       \<lparr>i_dst := reg_operand dst_reg 1, i_src := imm_operand (ucast imm) 1\<rparr>)"

definition x86_emit_movslq :: "x86_instr_list \<Rightarrow> x86_reg \<Rightarrow> x86_reg \<Rightarrow> x86_instr_list" where
  "x86_emit_movslq xs src_reg dst_reg = x86_instr_list_append xs ((x86_instr_create X86_OP_MOVSLQ)
       \<lparr>i_dst := reg_operand dst_reg 8, i_src := reg_operand src_reg 4\<rparr>)"

definition x86_emit_movzbl :: "x86_instr_list \<Rightarrow> x86_reg \<Rightarrow> x86_reg \<Rightarrow> x86_instr_list" where
  "x86_emit_movzbl xs src_reg dst_reg = x86_instr_list_append xs ((x86_instr_create X86_OP_MOVZBL)
       \<lparr>i_dst := reg_operand dst_reg 4, i_src := reg_operand src_reg 1\<rparr>)"

definition x86_emit_cmove :: "x86_instr_list \<Rightarrow> x86_reg \<Rightarrow> x86_reg \<Rightarrow> x86_instr_list" where
  "x86_emit_cmove xs src_reg dst_reg = x86_instr_list_append xs ((x86_instr_create X86_OP_CMOVE)
       \<lparr>i_dst := reg_operand dst_reg 8, i_src := reg_operand src_reg 8\<rparr>)"

definition x86_emit_add :: "x86_instr_list \<Rightarrow> x86_reg \<Rightarrow> x86_reg \<Rightarrow> x86_instr_list" where
  "x86_emit_add xs src_reg dst_reg = x86_instr_list_append xs ((x86_instr_create X86_OP_ADD)
       \<lparr>i_dst := reg_operand dst_reg 4, i_src := reg_operand src_reg 4\<rparr>)"

definition x86_emit_sub :: "x86_instr_list \<Rightarrow> x86_reg \<Rightarrow> x86_reg \<Rightarrow> x86_instr_list" where
  "x86_emit_sub xs src_reg dst_reg = x86_instr_list_append xs ((x86_instr_create X86_OP_SUB)
       \<lparr>i_dst := reg_operand dst_reg 4, i_src := reg_operand src_reg 4\<rparr>)"

definition x86_emit_imul :: "x86_instr_list \<Rightarrow> x86_reg \<Rightarrow> x86_reg \<Rightarrow> x86_instr_list" where
  "x86_emit_imul xs src_reg dst_reg = x86_instr_list_append xs ((x86_instr_create X86_OP_IMUL)
       \<lparr>i_dst := reg_operand dst_reg 4, i_src := reg_operand src_reg 4\<rparr>)"

definition x86_emit_idiv :: "x86_instr_list \<Rightarrow> x86_reg \<Rightarrow> x86_instr_list" where
  "x86_emit_idiv xs src_reg = x86_instr_list_append xs ((x86_instr_create X86_OP_IDIV)
       \<lparr>i_src := reg_operand src_reg 4\<rparr>)"

definition x86_emit_cltd :: "x86_instr_list \<Rightarrow> x86_instr_list" where
  "x86_emit_cltd xs = x86_instr_list_append xs (x86_instr_create X86_OP_CLTD)"

definition x86_emit_neg :: "x86_instr_list \<Rightarrow> x86_reg \<Rightarrow> x86_instr_list" where
  "x86_emit_neg xs dst_reg = x86_instr_list_append xs ((x86_instr_create X86_OP_NEG)
       \<lparr>i_dst := reg_operand dst_reg 4\<rparr>)"

definition x86_emit_and :: "x86_instr_list \<Rightarrow> x86_reg \<Rightarrow> x86_reg \<Rightarrow> x86_instr_list" where
  "x86_emit_and xs src_reg dst_reg = x86_instr_list_append xs ((x86_instr_create X86_OP_AND)
       \<lparr>i_dst := reg_operand dst_reg 4, i_src := reg_operand src_reg 4\<rparr>)"

definition x86_emit_or :: "x86_instr_list \<Rightarrow> x86_reg \<Rightarrow> x86_reg \<Rightarrow> x86_instr_list" where
  "x86_emit_or xs src_reg dst_reg = x86_instr_list_append xs ((x86_instr_create X86_OP_OR)
       \<lparr>i_dst := reg_operand dst_reg 4, i_src := reg_operand src_reg 4\<rparr>)"

definition x86_emit_xor :: "x86_instr_list \<Rightarrow> x86_reg \<Rightarrow> x86_reg \<Rightarrow> x86_instr_list" where
  "x86_emit_xor xs src_reg dst_reg = x86_instr_list_append xs ((x86_instr_create X86_OP_XOR)
       \<lparr>i_dst := reg_operand dst_reg 4, i_src := reg_operand src_reg 4\<rparr>)"

definition x86_emit_cmp :: "x86_instr_list \<Rightarrow> x86_reg \<Rightarrow> x86_reg \<Rightarrow> x86_instr_list" where
  "x86_emit_cmp xs src_reg dst_reg = x86_instr_list_append xs ((x86_instr_create X86_OP_CMP)
       \<lparr>i_dst := reg_operand dst_reg 4, i_src := reg_operand src_reg 4\<rparr>)"

definition x86_emit_cmp_imm :: "x86_instr_list \<Rightarrow> 32 word \<Rightarrow> x86_reg \<Rightarrow> x86_instr_list" where
  "x86_emit_cmp_imm xs imm dst_reg = x86_instr_list_append xs ((x86_instr_create X86_OP_CMP_IMM)
       \<lparr>i_dst := reg_operand dst_reg 4, i_src := imm_operand (scast imm) 4\<rparr>)"

definition x86_emit_setcc :: "x86_instr_list \<Rightarrow> x86_cond_code \<Rightarrow> x86_reg \<Rightarrow> x86_instr_list" where
  "x86_emit_setcc xs cond dst_reg = x86_instr_list_append xs ((x86_instr_create X86_OP_SETCC)
       \<lparr>i_cond := cond, i_dst := reg_operand dst_reg 1\<rparr>)"

definition x86_emit_andb :: "x86_instr_list \<Rightarrow> x86_reg \<Rightarrow> x86_reg \<Rightarrow> x86_instr_list" where
  "x86_emit_andb xs src_reg dst_reg = x86_instr_list_append xs ((x86_instr_create X86_OP_ANDB)
       \<lparr>i_dst := reg_operand dst_reg 1, i_src := reg_operand src_reg 1\<rparr>)"

definition x86_emit_orb :: "x86_instr_list \<Rightarrow> x86_reg \<Rightarrow> x86_reg \<Rightarrow> x86_instr_list" where
  "x86_emit_orb xs src_reg dst_reg = x86_instr_list_append xs ((x86_instr_create X86_OP_ORB)
       \<lparr>i_dst := reg_operand dst_reg 1, i_src := reg_operand src_reg 1\<rparr>)"

definition x86_emit_jmp :: "x86_instr_list \<Rightarrow> string \<Rightarrow> x86_instr_list" where
  "x86_emit_jmp xs label = x86_instr_list_append xs ((x86_instr_create X86_OP_JMP)
       \<lparr>i_src := label_operand X86_OPERAND_LABEL label\<rparr>)"

definition x86_emit_jne :: "x86_instr_list \<Rightarrow> string \<Rightarrow> x86_instr_list" where
  "x86_emit_jne xs label = x86_instr_list_append xs ((x86_instr_create X86_OP_JNE)
       \<lparr>i_src := label_operand X86_OPERAND_LABEL label\<rparr>)"

definition x86_emit_je :: "x86_instr_list \<Rightarrow> string \<Rightarrow> x86_instr_list" where
  "x86_emit_je xs label = x86_instr_list_append xs ((x86_instr_create X86_OP_JE)
       \<lparr>i_src := label_operand X86_OPERAND_LABEL label\<rparr>)"

definition x86_emit_call :: "x86_instr_list \<Rightarrow> string \<Rightarrow> x86_instr_list" where
  "x86_emit_call xs symbol = x86_instr_list_append xs ((x86_instr_create X86_OP_CALL)
       \<lparr>i_src := label_operand X86_OPERAND_SYMBOL symbol\<rparr>)"

definition x86_emit_movsd_reg_reg :: "x86_instr_list \<Rightarrow> x86_reg \<Rightarrow> x86_reg \<Rightarrow> x86_instr_list" where
  "x86_emit_movsd_reg_reg xs src_reg dst_reg = x86_instr_list_append xs ((x86_instr_create X86_OP_MOVSD)
       \<lparr>i_dst := reg_operand dst_reg 8, i_src := reg_operand src_reg 8\<rparr>)"

definition x86_emit_movsd_mem_reg :: "x86_instr_list \<Rightarrow> x86_reg \<Rightarrow> 32 word \<Rightarrow> x86_reg \<Rightarrow> x86_instr_list" where
  "x86_emit_movsd_mem_reg xs base_reg offset dst_reg = x86_instr_list_append xs ((x86_instr_create X86_OP_MOVSD)
       \<lparr>i_dst := reg_operand dst_reg 8, i_src := mem_operand base_reg (scast offset) 8\<rparr>)"

definition x86_emit_movsd_reg_mem :: "x86_instr_list \<Rightarrow> x86_reg \<Rightarrow> x86_reg \<Rightarrow> 32 word \<Rightarrow> x86_instr_list" where
  "x86_emit_movsd_reg_mem xs src_reg base_reg offset = x86_instr_list_append xs ((x86_instr_create X86_OP_MOVSD)
       \<lparr>i_dst := mem_operand base_reg (scast offset) 8, i_src := reg_operand src_reg 8\<rparr>)"

definition x86_emit_movsd_rip_reg :: "x86_instr_list \<Rightarrow> string \<Rightarrow> x86_reg \<Rightarrow> x86_instr_list" where
  "x86_emit_movsd_rip_reg xs symbol dst_reg = x86_instr_list_append xs ((x86_instr_create X86_OP_MOVSD)
       \<lparr>i_dst := reg_operand dst_reg 8, i_src := rip_operand symbol 8\<rparr>)"

definition x86_emit_addsd :: "x86_instr_list \<Rightarrow> x86_reg \<Rightarrow> x86_reg \<Rightarrow> x86_instr_list" where
  "x86_emit_addsd xs src_reg dst_reg = x86_instr_list_append xs ((x86_instr_create X86_OP_ADDSD)
       \<lparr>i_dst := reg_operand dst_reg 8, i_src := reg_operand src_reg 8\<rparr>)"

definition x86_emit_subsd :: "x86_instr_list \<Rightarrow> x86_reg \<Rightarrow> x86_reg \<Rightarrow> x86_instr_list" where
  "x86_emit_subsd xs src_reg dst_reg = x86_instr_list_append xs ((x86_instr_create X86_OP_SUBSD)
       \<lparr>i_dst := reg_operand dst_reg 8, i_src := reg_operand src_reg 8\<rparr>)"

definition x86_emit_mulsd :: "x86_instr_list \<Rightarrow> x86_reg \<Rightarrow> x86_reg \<Rightarrow> x86_instr_list" where
  "x86_emit_mulsd xs src_reg dst_reg = x86_instr_list_append xs ((x86_instr_create X86_OP_MULSD)
       \<lparr>i_dst := reg_operand dst_reg 8, i_src := reg_operand src_reg 8\<rparr>)"

definition x86_emit_divsd :: "x86_instr_list \<Rightarrow> x86_reg \<Rightarrow> x86_reg \<Rightarrow> x86_instr_list" where
  "x86_emit_divsd xs src_reg dst_reg = x86_instr_list_append xs ((x86_instr_create X86_OP_DIVSD)
       \<lparr>i_dst := reg_operand dst_reg 8, i_src := reg_operand src_reg 8\<rparr>)"

definition x86_emit_xorpd :: "x86_instr_list \<Rightarrow> x86_reg \<Rightarrow> x86_reg \<Rightarrow> x86_instr_list" where
  "x86_emit_xorpd xs src_reg dst_reg = x86_instr_list_append xs ((x86_instr_create X86_OP_XORPD)
       \<lparr>i_dst := reg_operand dst_reg 8, i_src := reg_operand src_reg 8\<rparr>)"

definition x86_emit_ucomisd :: "x86_instr_list \<Rightarrow> x86_reg \<Rightarrow> x86_reg \<Rightarrow> x86_instr_list" where
  "x86_emit_ucomisd xs src_reg dst_reg = x86_instr_list_append xs ((x86_instr_create X86_OP_UCOMISD)
       \<lparr>i_dst := reg_operand dst_reg 8, i_src := reg_operand src_reg 8\<rparr>)"

lemmas emit_defs [enc_simps] =
  x86_emit_label_def x86_emit_push_def x86_emit_pop_def x86_emit_ret_def
  x86_emit_sub_imm_rsp_def x86_emit_add_imm_rsp_def x86_emit_lea_mem_def x86_emit_lea_rip_def
  x86_emit_mov_reg_reg_def x86_emit_mov_imm_reg_def x86_emit_mov_mem_reg_def x86_emit_mov_reg_mem_def
  x86_emit_mov_rip_reg_def x86_emit_movb_imm_def x86_emit_movslq_def x86_emit_movzbl_def
  x86_emit_cmove_def x86_emit_add_def x86_emit_sub_def x86_emit_imul_def
  x86_emit_idiv_def x86_emit_cltd_def x86_emit_neg_def x86_emit_and_def
  x86_emit_or_def x86_emit_xor_def x86_emit_cmp_def x86_emit_cmp_imm_def
  x86_emit_setcc_def x86_emit_andb_def x86_emit_orb_def x86_emit_jmp_def
  x86_emit_jne_def x86_emit_je_def x86_emit_call_def x86_emit_movsd_reg_reg_def
  x86_emit_movsd_mem_reg_def x86_emit_movsd_reg_mem_def x86_emit_movsd_rip_reg_def x86_emit_addsd_def
  x86_emit_subsd_def x86_emit_mulsd_def x86_emit_divsd_def x86_emit_xorpd_def
  x86_emit_ucomisd_def

end
