(* ===== verification/X86_Encode.thy ===== *)
theory X86_Encode
  imports X86_Instr
begin

text \<open>
  The machine-code encoder (\<open>src/backend/x86_64/x86_64_encode.c\<close>): byte buffers, relocations, the
  label map, \<open>encode_single_instruction_internal\<close> and the two passes of \<open>x86_encode_function\<close>.

  The internal encoder writes to a buffer and a relocation list that may both be null, and counts
  the length on its own: \<open>enc_state\<close> holds the three, and every statement of the C code is an action
  on it. The allocation of growable arrays and failing \<open>malloc\<close> calls are not modelled.
\<close>

section \<open>Buffers, relocations, labels\<close>

type_synonym byte_buffer = "u8 list"

definition byte_buf_append_u8 :: "byte_buffer \<Rightarrow> u8 \<Rightarrow> byte_buffer" where
  "byte_buf_append_u8 b byte = b @ [byte]"

definition byte_buf_append_u16 :: "byte_buffer \<Rightarrow> u16 \<Rightarrow> byte_buffer" where
  "byte_buf_append_u16 b val = b @ [ucast (val AND 0xFF), ucast (drop_bit 8 val AND 0xFF)]"

definition byte_buf_append_u32 :: "byte_buffer \<Rightarrow> u32 \<Rightarrow> byte_buffer" where
  "byte_buf_append_u32 b val =
     b @ [ucast (val AND 0xFF), ucast (drop_bit 8 val AND 0xFF),
          ucast (drop_bit 16 val AND 0xFF), ucast (drop_bit 24 val AND 0xFF)]"

definition byte_buf_append_u64 :: "byte_buffer \<Rightarrow> u64 \<Rightarrow> byte_buffer" where
  "byte_buf_append_u64 b val = b @ map (\<lambda>i. ucast (drop_bit (i * 8) val AND 0xFF)) [0..<8]"

definition byte_buf_append_bytes :: "byte_buffer \<Rightarrow> u8 list \<Rightarrow> byte_buffer" where
  "byte_buf_append_bytes b bytes = b @ bytes"

text \<open>The relocation types of the ELF ABI that the encoder uses.\<close>

definition R_X86_64_PC32 :: u32 where "R_X86_64_PC32 = 2"
definition R_X86_64_PLT32 :: u32 where "R_X86_64_PLT32 = 4"

record x86_reloc =
  r_offset :: u64
  r_symbol :: "string option"
  r_type :: u32
  r_addend :: u64

definition x86_reloc_list_append ::
    "x86_reloc list \<Rightarrow> u64 \<Rightarrow> string option \<Rightarrow> u32 \<Rightarrow> u64 \<Rightarrow> x86_reloc list" where
  "x86_reloc_list_append xs offset symbol ty addend =
     xs @ [\<lparr>r_offset = offset, r_symbol = symbol, r_type = ty, r_addend = addend\<rparr>]"

type_synonym label_map = "(string \<times> u64) list"

definition label_map_put :: "label_map \<Rightarrow> string option \<Rightarrow> u64 \<Rightarrow> label_map" where
  "label_map_put m nm offset = (case nm of None \<Rightarrow> m | Some n \<Rightarrow> m @ [(n, offset)])"

definition label_map_get :: "label_map option \<Rightarrow> string option \<Rightarrow> u64 option" where
  "label_map_get m nm =
     (case (m, nm) of (Some es, Some n) \<Rightarrow> map_of es n | _ \<Rightarrow> None)"

section \<open>Actions of the encoder\<close>

record enc_state =
  e_buf :: "byte_buffer option"
  e_relocs :: "x86_reloc list option"
  e_len :: nat

type_synonym enc_action = "enc_state \<Rightarrow> enc_state"

definition seq :: "enc_action list \<Rightarrow> enc_action" where
  "seq as st = fold (\<lambda>a s. a s) as st"

definition put8 :: "u8 \<Rightarrow> enc_action" where
  "put8 v st = st\<lparr>e_buf := map_option (\<lambda>b. byte_buf_append_u8 b v) (e_buf st)\<rparr>"

definition put32 :: "u32 \<Rightarrow> enc_action" where
  "put32 v st = st\<lparr>e_buf := map_option (\<lambda>b. byte_buf_append_u32 b v) (e_buf st)\<rparr>"

definition put64 :: "u64 \<Rightarrow> enc_action" where
  "put64 v st = st\<lparr>e_buf := map_option (\<lambda>b. byte_buf_append_u64 b v) (e_buf st)\<rparr>"

definition add_len :: "nat \<Rightarrow> enc_action" where
  "add_len n st = st\<lparr>e_len := e_len st + n\<rparr>"

text \<open>A relocation at \<open>current_pc + k\<close>, or at \<open>current_pc + len + k\<close>, if both pointers are set.\<close>

definition put_reloc_at :: "u64 \<Rightarrow> string option \<Rightarrow> u32 \<Rightarrow> enc_action" where
  "put_reloc_at pos symbol ty st =
     (if e_buf st = None then st
      else st\<lparr>e_relocs := map_option (\<lambda>l. x86_reloc_list_append l pos symbol ty (- 4)) (e_relocs st)\<rparr>)"

definition put_reloc :: "u64 \<Rightarrow> u64 \<Rightarrow> string option \<Rightarrow> u32 \<Rightarrow> enc_action" where
  "put_reloc current_pc k symbol ty st =
     put_reloc_at (current_pc + of_nat (e_len st) + k) symbol ty st"

definition emit_rex_prefix :: "bool \<Rightarrow> bool \<Rightarrow> bool \<Rightarrow> bool \<Rightarrow> enc_action" where
  "emit_rex_prefix w r x b_bit =
     (let rex = (0x40 :: u8) OR (if w then 0x08 else 0) OR (if r then 0x04 else 0)
                OR (if x then 0x02 else 0) OR (if b_bit then 0x01 else 0)
      in if rex \<noteq> 0x40 \<or> w then seq [put8 rex, add_len 1] else seq [])"

text \<open>\<open>(mod << 6) | ((reg & 7) << 3) | rm\<close>.\<close>

definition modrm :: "u8 \<Rightarrow> u8 \<Rightarrow> u8 \<Rightarrow> u8" where
  "modrm md reg rm = push_bit 6 md OR push_bit 3 (reg AND 7) OR rm"

definition fits8 :: "u64 \<Rightarrow> bool" where
  "fits8 v \<longleftrightarrow> - 128 \<le> sint v \<and> sint v \<le> 127"

definition emit_modrm_sib_disp :: "u8 \<Rightarrow> x86_reg \<Rightarrow> u64 \<Rightarrow> enc_action" where
  "emit_modrm_sib_disp reg_3bit base_reg disp =
     (let rm_3bit = reg_hw_id base_reg AND 7 in
      if rm_3bit = 4 then
        if fits8 disp then
          seq [put8 (modrm 1 reg_3bit 4), put8 0x24, put8 (ucast disp), add_len 3]
        else seq [put8 (modrm 2 reg_3bit 4), put8 0x24, put32 (ucast disp), add_len 6]
      else if rm_3bit = 5 then
        if fits8 disp then seq [put8 (modrm 1 reg_3bit 5), put8 (ucast disp), add_len 2]
        else seq [put8 (modrm 2 reg_3bit 5), put32 (ucast disp), add_len 5]
      else
        if disp = 0 then seq [put8 (modrm 0 reg_3bit rm_3bit), add_len 1]
        else if fits8 disp then seq [put8 (modrm 1 reg_3bit rm_3bit), put8 (ucast disp), add_len 2]
        else seq [put8 (modrm 2 reg_3bit rm_3bit), put32 (ucast disp), add_len 5])"

definition cond_to_opcode_byte :: "x86_cond_code \<Rightarrow> u8" where
  "cond_to_opcode_byte cond =
     (case cond of
        X86_CC_E \<Rightarrow> 0x94 | X86_CC_NE \<Rightarrow> 0x95 | X86_CC_L \<Rightarrow> 0x9C | X86_CC_GE \<Rightarrow> 0x9D
      | X86_CC_LE \<Rightarrow> 0x9E | X86_CC_G \<Rightarrow> 0x9F | X86_CC_B \<Rightarrow> 0x92 | X86_CC_AE \<Rightarrow> 0x93
      | X86_CC_BE \<Rightarrow> 0x96 | X86_CC_A \<Rightarrow> 0x97 | X86_CC_P \<Rightarrow> 0x9A | X86_CC_NP \<Rightarrow> 0x9B)"

section \<open>One instruction\<close>

abbreviation dst_hw :: "x86_instr \<Rightarrow> u8" where "dst_hw inst \<equiv> reg_hw_id (o_reg (i_dst inst))"
abbreviation src_hw :: "x86_instr \<Rightarrow> u8" where "src_hw inst \<equiv> reg_hw_id (o_reg (i_src inst))"

text \<open>\<open>PUSH\<close> and \<open>POP\<close>, with their opcode for the first register.\<close>

definition enc_push_pop :: "u8 \<Rightarrow> x86_instr \<Rightarrow> enc_action" where
  "enc_push_pop opc inst =
     (let hw = dst_hw inst in
      if hw \<ge> 8 then seq [put8 0x41, put8 (opc + (hw AND 7)), add_len 2]
      else seq [put8 (opc + hw), add_len 1])"

text \<open>\<open>SUB_IMM\<close> and \<open>ADD_IMM\<close>, with their ModRM byte.\<close>

definition enc_rsp_imm :: "u8 \<Rightarrow> x86_instr \<Rightarrow> enc_action" where
  "enc_rsp_imm rm inst =
     (let imm = o_imm (i_src inst) in
      if fits8 imm then seq [put8 0x48, put8 0x83, put8 rm, put8 (ucast imm), add_len 4]
      else seq [put8 0x48, put8 0x81, put8 rm, put32 (ucast imm), add_len 7])"

definition enc_lea :: "u64 \<Rightarrow> x86_instr \<Rightarrow> enc_action" where
  "enc_lea current_pc inst =
     (if o_kind (i_src inst) = X86_OPERAND_MEM_BASE then
        seq [emit_rex_prefix True (dst_hw inst \<ge> 8) False (src_hw inst \<ge> 8),
             put8 0x8D, add_len 1,
             emit_modrm_sib_disp (dst_hw inst AND 7) (o_reg (i_src inst)) (o_imm (i_src inst))]
      else if o_kind (i_src inst) = X86_OPERAND_MEM_RIP then
        seq [emit_rex_prefix True (dst_hw inst \<ge> 8) False False,
             put8 0x8D, put8 (modrm 0 (dst_hw inst) 5),
             put_reloc current_pc 2 (o_symbol (i_src inst)) R_X86_64_PC32, put32 0, add_len 6]
      else seq [])"

definition enc_mov :: "u64 \<Rightarrow> x86_instr \<Rightarrow> enc_action" where
  "enc_mov current_pc inst =
     (let is_64 = (o_size (i_dst inst) = 8 \<or> o_size (i_src inst) = 8) in
      if o_kind (i_src inst) = X86_OPERAND_IMM then
        (let imm = o_imm (i_src inst) in
         if \<not> is_64 then
           seq [if dst_hw inst \<ge> 8 then seq [put8 0x41, add_len 1] else seq [],
                put8 (0xB8 + (dst_hw inst AND 7)), put32 (ucast imm), add_len 5]
         else if - 2147483648 \<le> sint imm \<and> sint imm \<le> 2147483647 then
           seq [emit_rex_prefix True False False (dst_hw inst \<ge> 8),
                put8 0xC7, put8 (0xC0 OR (dst_hw inst AND 7)), put32 (ucast imm), add_len 6]
         else
           seq [emit_rex_prefix True False False (dst_hw inst \<ge> 8),
                put8 (0xB8 + (dst_hw inst AND 7)), put64 imm, add_len 9])
      else if o_kind (i_src inst) = X86_OPERAND_REG \<and> o_kind (i_dst inst) = X86_OPERAND_REG then
        seq [emit_rex_prefix is_64 (src_hw inst \<ge> 8) False (dst_hw inst \<ge> 8),
             put8 0x89, put8 (modrm 3 (src_hw inst) (dst_hw inst AND 7)), add_len 2]
      else if o_kind (i_src inst) = X86_OPERAND_MEM_BASE then
        seq [emit_rex_prefix is_64 (dst_hw inst \<ge> 8) False (src_hw inst \<ge> 8),
             put8 0x8B, add_len 1,
             emit_modrm_sib_disp (dst_hw inst AND 7) (o_reg (i_src inst)) (o_imm (i_src inst))]
      else if o_kind (i_dst inst) = X86_OPERAND_MEM_BASE then
        seq [emit_rex_prefix is_64 (src_hw inst \<ge> 8) False (dst_hw inst \<ge> 8),
             put8 0x89, add_len 1,
             emit_modrm_sib_disp (src_hw inst AND 7) (o_reg (i_dst inst)) (o_imm (i_dst inst))]
      else if o_kind (i_src inst) = X86_OPERAND_MEM_RIP then
        seq [emit_rex_prefix True (dst_hw inst \<ge> 8) False False,
             put8 0x8B, put8 (modrm 0 (dst_hw inst) 5),
             put_reloc current_pc 2 (o_symbol (i_src inst)) R_X86_64_PC32, put32 0, add_len 6]
      else seq [])"

definition enc_movb_imm :: "x86_instr \<Rightarrow> enc_action" where
  "enc_movb_imm inst =
     seq [if dst_hw inst \<ge> 8 then seq [put8 0x41, add_len 1] else seq [],
          put8 (0xB0 + (dst_hw inst AND 7)), put8 (ucast (o_imm (i_src inst))), add_len 2]"

text \<open>
  The register-to-register forms: \<open>enc_reg_rm\<close> has the destination in the reg field,
  \<open>enc_rm_reg\<close> the source, \<open>enc_rm\<close> an opcode extension.
\<close>

definition enc_reg_rm :: "bool \<Rightarrow> u8 list \<Rightarrow> nat \<Rightarrow> x86_instr \<Rightarrow> enc_action" where
  "enc_reg_rm w opcode n inst =
     seq [emit_rex_prefix w (dst_hw inst \<ge> 8) False (src_hw inst \<ge> 8),
          seq (map put8 opcode), put8 (modrm 3 (dst_hw inst) (src_hw inst AND 7)), add_len n]"

definition enc_rm_reg :: "u8 \<Rightarrow> x86_instr \<Rightarrow> enc_action" where
  "enc_rm_reg opc inst =
     seq [emit_rex_prefix False (src_hw inst \<ge> 8) False (dst_hw inst \<ge> 8),
          put8 opc, put8 (modrm 3 (src_hw inst) (dst_hw inst AND 7)), add_len 2]"

definition alu_opcode :: "x86_op \<Rightarrow> u8" where
  "alu_opcode op =
     (if op = X86_OP_SUB then 0x29 else if op = X86_OP_AND then 0x21
      else if op = X86_OP_OR then 0x09 else if op = X86_OP_XOR then 0x31
      else if op = X86_OP_CMP then 0x39 else 0x01)"

definition enc_rm :: "u8 list \<Rightarrow> u8 \<Rightarrow> u8 \<Rightarrow> nat \<Rightarrow> enc_action" where
  "enc_rm opcode ext hw n =
     seq [emit_rex_prefix False False False (hw \<ge> 8),
          seq (map put8 opcode), put8 (modrm 3 ext (hw AND 7)), add_len n]"

definition enc_cmp_imm :: "x86_instr \<Rightarrow> enc_action" where
  "enc_cmp_imm inst =
     (let imm = o_imm (i_src inst) in
      seq [emit_rex_prefix False False False (dst_hw inst \<ge> 8),
           if fits8 imm then
             seq [put8 0x83, put8 (modrm 3 7 (dst_hw inst AND 7)), put8 (ucast imm), add_len 3]
           else
             seq [put8 0x81, put8 (modrm 3 7 (dst_hw inst AND 7)), put32 (ucast imm), add_len 6]])"

text \<open>The displacement of a branch whose end is \<open>current_pc + n\<close>: 0 for an unknown label.\<close>

definition branch_disp :: "label_map option \<Rightarrow> string option \<Rightarrow> u64 \<Rightarrow> u64 \<Rightarrow> u32" where
  "branch_disp lmap symbol current_pc n =
     (case label_map_get lmap symbol of
        Some target_pc \<Rightarrow> ucast (target_pc - (current_pc + n))
      | None \<Rightarrow> 0)"

definition enc_jmp :: "label_map option \<Rightarrow> u64 \<Rightarrow> x86_instr \<Rightarrow> enc_action" where
  "enc_jmp lmap current_pc inst =
     seq [put8 0xE9, put32 (branch_disp lmap (o_symbol (i_src inst)) current_pc 5), add_len 5]"

definition enc_jcc :: "label_map option \<Rightarrow> u64 \<Rightarrow> x86_instr \<Rightarrow> enc_action" where
  "enc_jcc lmap current_pc inst =
     seq [put8 0x0F, put8 (if i_op inst = X86_OP_JNE then 0x85 else 0x84),
          put32 (branch_disp lmap (o_symbol (i_src inst)) current_pc 6), add_len 6]"

definition enc_call :: "u64 \<Rightarrow> x86_instr \<Rightarrow> enc_action" where
  "enc_call current_pc inst =
     seq [put8 0xE8, put_reloc_at (current_pc + 1) (o_symbol (i_src inst)) R_X86_64_PLT32,
          put32 0, add_len 5]"

definition enc_movsd :: "u64 \<Rightarrow> x86_instr \<Rightarrow> enc_action" where
  "enc_movsd current_pc inst =
     seq [put8 0xF2, add_len 1,
       if o_kind (i_src inst) = X86_OPERAND_REG \<and> o_kind (i_dst inst) = X86_OPERAND_REG then
         enc_reg_rm False [0x0F, 0x10] 3 inst
       else if o_kind (i_src inst) = X86_OPERAND_MEM_BASE then
         seq [emit_rex_prefix False (dst_hw inst \<ge> 8) False (src_hw inst \<ge> 8),
              put8 0x0F, put8 0x10, add_len 2,
              emit_modrm_sib_disp (dst_hw inst AND 7) (o_reg (i_src inst)) (o_imm (i_src inst))]
       else if o_kind (i_dst inst) = X86_OPERAND_MEM_BASE then
         seq [emit_rex_prefix False (src_hw inst \<ge> 8) False (dst_hw inst \<ge> 8),
              put8 0x0F, put8 0x11, add_len 2,
              emit_modrm_sib_disp (src_hw inst AND 7) (o_reg (i_dst inst)) (o_imm (i_dst inst))]
       else if o_kind (i_src inst) = X86_OPERAND_MEM_RIP then
         seq [emit_rex_prefix False (dst_hw inst \<ge> 8) False False,
              put8 0x0F, put8 0x10, put8 (modrm 0 (dst_hw inst) 5),
              put_reloc current_pc 3 (o_symbol (i_src inst)) R_X86_64_PC32, put32 0, add_len 7]
       else seq []]"

definition enc_sse :: "u8 \<Rightarrow> u8 \<Rightarrow> x86_instr \<Rightarrow> enc_action" where
  "enc_sse prefix_byte opc inst =
     seq [put8 prefix_byte, add_len 1, enc_reg_rm False [0x0F, opc] 3 inst]"

definition encode_inst :: "label_map option \<Rightarrow> u64 \<Rightarrow> x86_instr \<Rightarrow> enc_action" where
  "encode_inst lmap current_pc inst =
     (case i_op inst of
        X86_OP_LABEL \<Rightarrow> seq []
      | X86_OP_PUSH \<Rightarrow> enc_push_pop 0x50 inst
      | X86_OP_POP \<Rightarrow> enc_push_pop 0x58 inst
      | X86_OP_RET \<Rightarrow> seq [put8 0xC3, add_len 1]
      | X86_OP_SUB_IMM \<Rightarrow> enc_rsp_imm 0xEC inst
      | X86_OP_ADD_IMM \<Rightarrow> enc_rsp_imm 0xC4 inst
      | X86_OP_LEA \<Rightarrow> enc_lea current_pc inst
      | X86_OP_MOV \<Rightarrow> enc_mov current_pc inst
      | X86_OP_MOVB_IMM \<Rightarrow> enc_movb_imm inst
      | X86_OP_MOVSLQ \<Rightarrow> enc_reg_rm True [0x63] 2 inst
      | X86_OP_MOVZBL \<Rightarrow> enc_reg_rm False [0x0F, 0xB6] 3 inst
      | X86_OP_CMOVE \<Rightarrow> enc_reg_rm True [0x0F, 0x44] 3 inst
      | X86_OP_ADD \<Rightarrow> enc_rm_reg (alu_opcode (i_op inst)) inst
      | X86_OP_SUB \<Rightarrow> enc_rm_reg (alu_opcode (i_op inst)) inst
      | X86_OP_AND \<Rightarrow> enc_rm_reg (alu_opcode (i_op inst)) inst
      | X86_OP_OR \<Rightarrow> enc_rm_reg (alu_opcode (i_op inst)) inst
      | X86_OP_XOR \<Rightarrow> enc_rm_reg (alu_opcode (i_op inst)) inst
      | X86_OP_CMP \<Rightarrow> enc_rm_reg (alu_opcode (i_op inst)) inst
      | X86_OP_IMUL \<Rightarrow> enc_reg_rm False [0x0F, 0xAF] 3 inst
      | X86_OP_IDIV \<Rightarrow> enc_rm [0xF7] 7 (src_hw inst) 2
      | X86_OP_CLTD \<Rightarrow> seq [put8 0x99, add_len 1]
      | X86_OP_NEG \<Rightarrow> enc_rm [0xF7] 3 (dst_hw inst) 2
      | X86_OP_CMP_IMM \<Rightarrow> enc_cmp_imm inst
      | X86_OP_SETCC \<Rightarrow> enc_rm [0x0F, cond_to_opcode_byte (i_cond inst)] 0 (dst_hw inst) 3
      | X86_OP_ANDB \<Rightarrow> enc_rm_reg 0x20 inst
      | X86_OP_ORB \<Rightarrow> enc_rm_reg 0x08 inst
      | X86_OP_JMP \<Rightarrow> enc_jmp lmap current_pc inst
      | X86_OP_JNE \<Rightarrow> enc_jcc lmap current_pc inst
      | X86_OP_JE \<Rightarrow> enc_jcc lmap current_pc inst
      | X86_OP_CALL \<Rightarrow> enc_call current_pc inst
      | X86_OP_MOVSD \<Rightarrow> enc_movsd current_pc inst
      | X86_OP_ADDSD \<Rightarrow> enc_sse 0xF2 0x58 inst
      | X86_OP_SUBSD \<Rightarrow> enc_sse 0xF2 0x5C inst
      | X86_OP_MULSD \<Rightarrow> enc_sse 0xF2 0x59 inst
      | X86_OP_DIVSD \<Rightarrow> enc_sse 0xF2 0x5E inst
      | X86_OP_XORPD \<Rightarrow> enc_sse 0x66 0x57 inst
      | X86_OP_UCOMISD \<Rightarrow> enc_sse 0x66 0x2E inst)"

definition encode_single_instruction_internal ::
    "x86_instr \<Rightarrow> byte_buffer option \<Rightarrow> x86_reloc list option \<Rightarrow> label_map option \<Rightarrow> u64
      \<Rightarrow> nat \<times> byte_buffer option \<times> x86_reloc list option" where
  "encode_single_instruction_internal inst b relocs lmap current_pc =
     (let st = encode_inst lmap current_pc inst \<lparr>e_buf = b, e_relocs = relocs, e_len = 0\<rparr>
      in (e_len st, e_buf st, e_relocs st))"

text \<open>
  \<open>x86_encode_single_instruction\<close>: the length, the bytes copied out and the relocation filled in;
  the flags say whether the output pointers are set.
\<close>

definition x86_encode_single_instruction ::
    "x86_instr option \<Rightarrow> bool \<Rightarrow> nat \<Rightarrow> bool \<Rightarrow> nat \<times> u8 list option \<times> x86_reloc option" where
  "x86_encode_single_instruction inst out_buf max_len out_reloc =
     (case inst of
        None \<Rightarrow> (0, None, None)
      | Some i \<Rightarrow>
          (case encode_single_instruction_internal i (Some []) (if out_reloc then Some [] else None)
                  None 0 of
             (len, b, relocs) \<Rightarrow>
               (len,
                if len \<le> max_len \<and> out_buf then Some (take len (the b)) else None,
                case relocs of Some (r # _) \<Rightarrow> Some r | _ \<Rightarrow> None)))"

section \<open>A function\<close>

fun measure_labels :: "x86_instr_list \<Rightarrow> label_map \<Rightarrow> u64 \<Rightarrow> label_map" where
  "measure_labels [] lmap pc = lmap"
| "measure_labels (inst # rest) lmap pc =
     (if i_op inst = X86_OP_LABEL
      then measure_labels rest (label_map_put lmap (o_symbol (i_dst inst)) pc) pc
      else measure_labels rest lmap
             (pc + of_nat (fst (encode_single_instruction_internal inst None None None pc))))"

fun encode_loop :: "x86_instr_list \<Rightarrow> label_map \<Rightarrow> u64 \<Rightarrow> byte_buffer \<Rightarrow> x86_reloc list option
    \<Rightarrow> byte_buffer \<times> x86_reloc list option" where
  "encode_loop [] lmap pc code relocs = (code, relocs)"
| "encode_loop (inst # rest) lmap pc code relocs =
     (if i_op inst = X86_OP_LABEL then encode_loop rest lmap pc code relocs
      else (case encode_single_instruction_internal inst (Some code) relocs (Some lmap) pc of
              (_, b, relocs') \<Rightarrow>
                encode_loop rest lmap (pc + of_nat (length (the b) - length code)) (the b) relocs'))"

definition x86_encode_function ::
    "x86_instr_list option \<Rightarrow> byte_buffer option \<Rightarrow> x86_reloc list option
      \<Rightarrow> string + byte_buffer \<times> x86_reloc list option" where
  "x86_encode_function xs out_code out_relocs =
     (case (xs, out_code) of
        (Some insts, Some code) \<Rightarrow>
          (let pc = of_nat (length code);
               lmap = measure_labels insts [] pc
           in Inr (encode_loop insts lmap pc code out_relocs))
      | _ \<Rightarrow> Inl ''null arguments to x86_encode_function'')"

end
