(* ===== verification/X86_Layout.thy ===== *)
theory X86_Layout
  imports X86_Encode
begin

text \<open>
  What the encoder writes where. Every action of the encoder treats the buffer and the relocation
  list uniformly, so the measuring pass, which has neither, counts the bytes that the encoding pass
  writes. From this follow the layout of an encoded function, the targets of its branches and the
  fields of its relocations.
\<close>

section \<open>Uniform actions\<close>

definition at_len :: "nat \<Rightarrow> enc_state" where
  "at_len l = \<lparr>e_buf = Some [], e_relocs = Some [], e_len = l\<rparr>"

definition out_bytes :: "enc_action \<Rightarrow> nat \<Rightarrow> u8 list" where
  "out_bytes f l = the (e_buf (f (at_len l)))"

definition out_relocs :: "enc_action \<Rightarrow> nat \<Rightarrow> x86_reloc list" where
  "out_relocs f l = the (e_relocs (f (at_len l)))"

definition uniform :: "enc_action \<Rightarrow> bool" where
  "uniform f \<longleftrightarrow> (\<forall>st. f st =
     \<lparr>e_buf = map_option (\<lambda>b. b @ out_bytes f (e_len st)) (e_buf st),
      e_relocs = (if e_buf st = None then e_relocs st
                  else map_option (\<lambda>l. l @ out_relocs f (e_len st)) (e_relocs st)),
      e_len = e_len (f (at_len (e_len st)))\<rparr>)"

lemma uniformD:
  "uniform f \<Longrightarrow> f st =
     \<lparr>e_buf = map_option (\<lambda>b. b @ out_bytes f (e_len st)) (e_buf st),
      e_relocs = (if e_buf st = None then e_relocs st
                  else map_option (\<lambda>l. l @ out_relocs f (e_len st)) (e_relocs st)),
      e_len = e_len (f (at_len (e_len st)))\<rparr>"
  unfolding uniform_def by (erule spec)

lemma at_len_sel [simp]: "e_buf (at_len l) = Some []" "e_relocs (at_len l) = Some []" "e_len (at_len l) = l"
  by (simp_all add: at_len_def)

named_theorems uniform_intros

lemma uniformI:
  assumes "\<And>b rl l. f \<lparr>e_buf = b, e_relocs = rl, e_len = l\<rparr> =
     \<lparr>e_buf = map_option (\<lambda>b. b @ bs l) b,
      e_relocs = (if b = None then rl else map_option (\<lambda>xs. xs @ rs l) rl), e_len = len l\<rparr>"
  shows "uniform f"
  unfolding uniform_def
proof
  fix st :: enc_state
  obtain b rl l where "st = \<lparr>e_buf = b, e_relocs = rl, e_len = l\<rparr>" by (cases st) auto
  then show "f st = \<lparr>e_buf = map_option (\<lambda>b. b @ out_bytes f (e_len st)) (e_buf st),
      e_relocs = (if e_buf st = None then e_relocs st
                  else map_option (\<lambda>l. l @ out_relocs f (e_len st)) (e_relocs st)),
      e_len = e_len (f (at_len (e_len st)))\<rparr>"
    by (simp add: assms out_bytes_def out_relocs_def at_len_def)
qed

lemma map_option_append_Nil [simp]: "map_option (\<lambda>xs. xs) o1 = o1"
  by (cases o1) auto

lemma uniform_put8 [uniform_intros]: "uniform (put8 v)"
  by (rule uniformI [where bs = "\<lambda>_. [v]" and rs = "\<lambda>_. []" and len = "\<lambda>l. l"])
    (auto simp: put8_def byte_buf_append_u8_def)

lemma uniform_put32 [uniform_intros]: "uniform (put32 v)"
  by (rule uniformI [where bs = "\<lambda>_. byte_buf_append_u32 [] v" and rs = "\<lambda>_. []" and len = "\<lambda>l. l"])
    (auto simp: put32_def byte_buf_append_u32_def)

lemma uniform_put64 [uniform_intros]: "uniform (put64 v)"
  by (rule uniformI [where bs = "\<lambda>_. byte_buf_append_u64 [] v" and rs = "\<lambda>_. []" and len = "\<lambda>l. l"])
    (auto simp: put64_def byte_buf_append_u64_def)

lemma uniform_add_len [uniform_intros]: "uniform (add_len n)"
  by (rule uniformI [where bs = "\<lambda>_. []" and rs = "\<lambda>_. []" and len = "\<lambda>l. l + n"])
    (auto simp: add_len_def)

lemma uniform_put_reloc_at [uniform_intros]: "uniform (put_reloc_at pos symb ty)"
  by (rule uniformI [where bs = "\<lambda>_. []" and rs = "\<lambda>_. x86_reloc_list_append [] pos symb ty (- 4)"
        and len = "\<lambda>l. l"])
    (auto simp: put_reloc_at_def x86_reloc_list_append_def)

lemma uniform_put_reloc [uniform_intros]: "uniform (put_reloc pc k symb ty)"
  by (rule uniformI [where bs = "\<lambda>_. []" and len = "\<lambda>l. l"
        and rs = "\<lambda>l. x86_reloc_list_append [] (pc + of_nat l + k) symb ty (- 4)"])
    (auto simp: put_reloc_def put_reloc_at_def x86_reloc_list_append_def)

lemma uniform_id: "uniform (\<lambda>st. st)"
  by (rule uniformI [where bs = "\<lambda>_. []" and rs = "\<lambda>_. []" and len = "\<lambda>l. l"]) auto

lemma uniform_comp:
  assumes f: "uniform f" and g: "uniform g"
  shows "uniform (\<lambda>st. g (f st))"
proof (rule uniformI)
  fix b rl l
  let ?l1 = "e_len (f (at_len l))"
  have "f \<lparr>e_buf = b, e_relocs = rl, e_len = l\<rparr> =
     \<lparr>e_buf = map_option (\<lambda>b. b @ out_bytes f l) b,
      e_relocs = (if b = None then rl else map_option (\<lambda>xs. xs @ out_relocs f l) rl), e_len = ?l1\<rparr>"
    using uniformD [OF f, of "\<lparr>e_buf = b, e_relocs = rl, e_len = l\<rparr>"] by simp
  then show "g (f \<lparr>e_buf = b, e_relocs = rl, e_len = l\<rparr>) =
     \<lparr>e_buf = map_option (\<lambda>b. b @ (out_bytes f l @ out_bytes g ?l1)) b,
      e_relocs = (if b = None then rl else map_option (\<lambda>xs. xs @ (out_relocs f l @ out_relocs g ?l1)) rl),
      e_len = e_len (g (at_len ?l1))\<rparr>"
    using uniformD [OF g, of "\<lparr>e_buf = map_option (\<lambda>b. b @ out_bytes f l) b,
      e_relocs = (if b = None then rl else map_option (\<lambda>xs. xs @ out_relocs f l) rl), e_len = ?l1\<rparr>"]
    by (simp add: option.map_comp comp_def)
qed

lemma seq_simps: "seq [] st = st" "seq (a # as) st = seq as (a st)"
  by (simp_all add: seq_def)

lemma uniform_seq [uniform_intros]: "list_all uniform as \<Longrightarrow> uniform (seq as)"
proof (induction as)
  case Nil
  have "seq [] = (\<lambda>st. st)" by (simp add: fun_eq_iff seq_simps)
  then show ?case by (simp add: uniform_id)
next
  case (Cons a as)
  have "seq (a # as) = (\<lambda>st. seq as (a st))" by (simp add: fun_eq_iff seq_simps)
  with Cons show ?case by (simp add: uniform_comp)
qed

lemma uniform_if [uniform_intros]: "(c \<Longrightarrow> uniform f) \<Longrightarrow> (\<not> c \<Longrightarrow> uniform g) \<Longrightarrow> uniform (if c then f else g)"
  by simp

lemma uniform_map_put8 [uniform_intros]: "uniform (seq (map put8 bs))"
  by (rule uniform_seq) (simp add: list_all_iff uniform_put8)

lemma uniform_rex [uniform_intros]: "uniform (emit_rex_prefix w r x b)"
  by (auto simp: emit_rex_prefix_def Let_def intro!: uniform_intros)

lemma uniform_modrm [uniform_intros]: "uniform (emit_modrm_sib_disp r3 base disp)"
  by (simp add: emit_modrm_sib_disp_def Let_def uniform_intros)

lemma uniform_reg_rm [uniform_intros]: "uniform (enc_reg_rm w opcode n inst)"
  by (simp add: enc_reg_rm_def uniform_intros)

lemma uniform_encode_inst: "uniform (encode_inst lmap pc inst)"
  by (cases "i_op inst")
    (simp_all add: encode_inst_def enc_push_pop_def enc_rsp_imm_def enc_lea_def enc_mov_def
      enc_movb_imm_def enc_rm_reg_def enc_rm_def enc_cmp_imm_def enc_jmp_def enc_jcc_def enc_call_def
      enc_movsd_def enc_sse_def Let_def uniform_intros)


lemmas enc_group_defs = enc_push_pop_def enc_rsp_imm_def enc_lea_def enc_mov_def enc_movb_imm_def
  enc_reg_rm_def enc_rm_reg_def enc_rm_def enc_cmp_imm_def enc_jmp_def enc_jcc_def enc_call_def
  enc_movsd_def enc_sse_def

section \<open>Counted and written bytes agree\<close>

definition ahead :: "int \<Rightarrow> enc_state \<Rightarrow> bool" where
  "ahead k st \<longleftrightarrow> (\<exists>b. e_buf st = Some b \<and> int (length b) = int (e_len st) + k)"

lemma ahead_prims:
  "ahead k (put8 v st) = ahead (k - 1) st"
  "ahead k (put32 w st) = ahead (k - 4) st"
  "ahead k (put64 x st) = ahead (k - 8) st"
  "ahead k (add_len n st) = ahead (k + int n) st"
  "ahead k (put_reloc_at pos symb ty st) = ahead k st"
  "ahead k (put_reloc pc j symb ty st) = ahead k st"
  by (auto simp: ahead_def put8_def put32_def put64_def add_len_def put_reloc_def put_reloc_at_def
      byte_buf_append_u8_def byte_buf_append_u32_def byte_buf_append_u64_def)

lemma ahead_rex: "ahead k (emit_rex_prefix w r x b st) = ahead k st"
  by (simp add: emit_rex_prefix_def Let_def seq_simps ahead_prims)

lemma ahead_modrm: "ahead k (emit_modrm_sib_disp r3 base disp st) = ahead k st"
  by (simp add: emit_modrm_sib_disp_def Let_def seq_simps ahead_prims)

lemmas ahead_simps = seq_simps ahead_prims ahead_rex ahead_modrm

lemma ahead_encode_inst: "ahead 0 (encode_inst lmap pc inst st) = ahead 0 st"
  by (cases "i_op inst") (simp_all add: encode_inst_def enc_group_defs Let_def ahead_simps)

lemma len_prims:
  "e_len (put8 v st) = e_len st" "e_len (put32 w st) = e_len st" "e_len (put64 x st) = e_len st"
  "e_len (add_len n st) = e_len st + n"
  "e_len (put_reloc_at pos symb ty st) = e_len st" "e_len (put_reloc pc j symb ty st) = e_len st"
  by (auto simp: put8_def put32_def put64_def add_len_def put_reloc_def put_reloc_at_def)

definition rex_size :: "bool \<Rightarrow> nat" where "rex_size present = (if present then 1 else 0)"

lemma len_rex: "e_len (emit_rex_prefix w r x b st) = e_len st + rex_size (w \<or> r \<or> x \<or> b)"
  by (cases w; cases r; cases x; cases b)
    (simp_all add: emit_rex_prefix_def Let_def seq_simps len_prims rex_size_def)

lemma len_modrm: "e_len (emit_modrm_sib_disp r3 base disp st)
    = e_len st + e_len (emit_modrm_sib_disp r3 base disp (at_len 0))"
  by (simp add: emit_modrm_sib_disp_def Let_def seq_simps len_prims)

definition inst_size :: "x86_instr \<Rightarrow> nat" where
  "inst_size inst = fst (encode_single_instruction_internal inst None None None 0)"

lemma len_encode_inst: "e_len (encode_inst lmap pc inst st) = e_len st + inst_size inst"
  unfolding inst_size_def encode_single_instruction_internal_def Let_def fst_conv
  by (cases "i_op inst")
    (simp_all add: encode_inst_def enc_group_defs Let_def seq_simps len_prims len_rex
      len_modrm [of _ _ _ "put8 _ _"] len_modrm [of _ _ _ "add_len _ _"])

definition inst_bytes :: "label_map option \<Rightarrow> u64 \<Rightarrow> x86_instr \<Rightarrow> u8 list" where
  "inst_bytes lmap pc inst = out_bytes (encode_inst lmap pc inst) 0"

definition inst_relocs :: "label_map option \<Rightarrow> u64 \<Rightarrow> x86_instr \<Rightarrow> x86_reloc list" where
  "inst_relocs lmap pc inst = out_relocs (encode_inst lmap pc inst) 0"

lemma length_inst_bytes: "length (inst_bytes lmap pc inst) = inst_size inst"
proof -
  have "ahead 0 (encode_inst lmap pc inst (at_len 0))"
    by (simp add: ahead_encode_inst) (simp add: ahead_def)
  then show ?thesis
    by (auto simp: ahead_def inst_bytes_def out_bytes_def len_encode_inst)
qed

lemma encode_internal_eq:
  "encode_single_instruction_internal inst b relocs lmap pc =
     (inst_size inst, map_option (\<lambda>b. b @ inst_bytes lmap pc inst) b,
      if b = None then relocs else map_option (\<lambda>l. l @ inst_relocs lmap pc inst) relocs)"
  using uniformD [OF uniform_encode_inst, of lmap pc inst "\<lparr>e_buf = b, e_relocs = relocs, e_len = 0\<rparr>"]
  by (simp add: encode_single_instruction_internal_def Let_def len_encode_inst inst_bytes_def inst_relocs_def)

section \<open>Layout of a function\<close>

text \<open>The offset of instruction \<open>k\<close> when the buffer held \<open>n\<close> bytes before.\<close>

definition inst_pos :: "nat \<Rightarrow> x86_instr_list \<Rightarrow> nat \<Rightarrow> nat" where
  "inst_pos n insts k = n + sum_list (map inst_size (take k insts))"

lemma inst_pos_simps:
  "inst_pos n insts 0 = n"
  "inst_pos n (i # insts) (Suc k) = inst_pos (n + inst_size i) insts k"
  by (simp_all add: inst_pos_def)

lemma inst_pos_Suc: "k < length insts \<Longrightarrow> inst_pos n insts (Suc k) = inst_pos n insts k + inst_size (insts ! k)"
  by (simp add: inst_pos_def take_Suc_conv_app_nth)

fun labels_of :: "nat \<Rightarrow> x86_instr_list \<Rightarrow> label_map" where
  "labels_of n [] = []"
| "labels_of n (i # insts) =
     (case (i_op i = X86_OP_LABEL, o_symbol (i_dst i)) of
        (True, Some nm) \<Rightarrow> [(nm, of_nat n)] | _ \<Rightarrow> []) @ labels_of (n + inst_size i) insts"

fun code_of :: "label_map \<Rightarrow> nat \<Rightarrow> x86_instr_list \<Rightarrow> u8 list" where
  "code_of m n [] = []"
| "code_of m n (i # insts) = inst_bytes (Some m) (of_nat n) i @ code_of m (n + inst_size i) insts"

fun relocs_of :: "label_map \<Rightarrow> nat \<Rightarrow> x86_instr_list \<Rightarrow> x86_reloc list" where
  "relocs_of m n [] = []"
| "relocs_of m n (i # insts) = inst_relocs (Some m) (of_nat n) i @ relocs_of m (n + inst_size i) insts"

lemma label_no_bytes:
  "i_op i = X86_OP_LABEL \<Longrightarrow> inst_size i = 0"
  "i_op i = X86_OP_LABEL \<Longrightarrow> inst_bytes lmap pc i = []"
  "i_op i = X86_OP_LABEL \<Longrightarrow> inst_relocs lmap pc i = []"
  by (simp_all add: inst_size_def encode_single_instruction_internal_def encode_inst_def seq_simps
      inst_bytes_def inst_relocs_def out_bytes_def out_relocs_def)

lemma measure_labels_eq: "measure_labels insts m (of_nat n) = m @ labels_of n insts"
proof (induction insts arbitrary: m n)
  case (Cons i insts)
  have [simp]: "(of_nat n :: u64) + of_nat (inst_size i) = of_nat (n + inst_size i)" by simp
  show ?case
    using Cons [of _ n] Cons [of _ "n + inst_size i"]
    by (auto simp: encode_internal_eq label_no_bytes label_map_put_def simp del: of_nat_add split: option.splits)
qed simp

lemma encode_loop_eq:
  "encode_loop insts m (of_nat (length code)) code relocs =
     (code @ code_of m (length code) insts,
      map_option (\<lambda>l. l @ relocs_of m (length code) insts) relocs)"
proof (induction insts arbitrary: code relocs)
  case (Cons i insts)
  have [simp]: "(of_nat (length code) :: u64) + of_nat (inst_size i) = of_nat (length code + inst_size i)"
    by simp
  show ?case
    using Cons [of code relocs]
      Cons [of "code @ inst_bytes (Some m) (of_nat (length code)) i"
        "map_option (\<lambda>l. l @ inst_relocs (Some m) (of_nat (length code)) i) relocs"]
    by (auto simp: encode_internal_eq label_no_bytes length_inst_bytes option.map_comp comp_def simp del: of_nat_add)
qed simp

lemma encode_function_eq:
  "x86_encode_function (Some insts) (Some code) relocs =
     (let m = labels_of (length code) insts in
      Inr (code @ code_of m (length code) insts,
           map_option (\<lambda>l. l @ relocs_of m (length code) insts) relocs))"
  using measure_labels_eq [of insts "[]" "length code"]
  by (simp add: x86_encode_function_def Let_def encode_loop_eq)

lemma length_code_of: "n + length (code_of m n insts) = inst_pos n insts (length insts)"
  by (induction insts arbitrary: n) (simp_all add: inst_pos_simps length_inst_bytes flip: add.assoc)

lemma code_of_nth:
  "k < length insts \<Longrightarrow>
     take (inst_size (insts ! k)) (drop (inst_pos n insts k - n) (code_of m n insts))
       = inst_bytes (Some m) (of_nat (inst_pos n insts k)) (insts ! k)"
proof (induction insts arbitrary: n k)
  case (Cons i insts)
  show ?case
  proof (cases k)
    case 0
    then show ?thesis by (simp add: inst_pos_simps flip: length_inst_bytes [of "Some m" "of_nat n"])
  next
    case (Suc k')
    have ge: "inst_pos (n + inst_size i) insts k' \<ge> n + inst_size i" by (simp add: inst_pos_def)
    with Suc Cons.prems Cons.IH [of k' "n + inst_size i"] show ?thesis
      by (simp add: inst_pos_simps length_inst_bytes)
  qed
qed simp


lemma encode_function_out:
  assumes "x86_encode_function (Some insts) (Some code) relocs = Inr (out, relocs')"
  shows "out = code @ code_of (labels_of (length code) insts) (length code) insts"
    and "relocs' = map_option (\<lambda>l. l @ relocs_of (labels_of (length code) insts) (length code) insts) relocs"
  using assms by (simp_all add: encode_function_eq Let_def)

lemma out_nth:
  assumes "k < length insts"
  shows "take (inst_size (insts ! k)) (drop (inst_pos (length code) insts k)
            (code @ code_of m (length code) insts))
       = inst_bytes (Some m) (of_nat (inst_pos (length code) insts k)) (insts ! k)"
  using code_of_nth [OF assms, of "length code" m] by (simp add: inst_pos_def)

text \<open>
  The two passes agree: encoding a function keeps the code already in the buffer and puts every
  instruction at the offset that the first pass measured for it, encoded with the program counter
  of that offset and the label map of the first pass; no byte is written elsewhere.
\<close>

theorem encode_function_layout:
  assumes "x86_encode_function (Some insts) (Some code) relocs = Inr (out, relocs')"
  shows "take (length code) out = code
    \<and> length out = inst_pos (length code) insts (length insts)
    \<and> (\<forall>k<length insts.
         take (inst_pos (length code) insts (Suc k) - inst_pos (length code) insts k)
           (drop (inst_pos (length code) insts k) out)
         = the (fst (snd (encode_single_instruction_internal (insts ! k) (Some []) None
             (Some (measure_labels insts [] (of_nat (length code))))
             (of_nat (inst_pos (length code) insts k))))))"
proof -
  note out = encode_function_out(1) [OF assms]
  note m = measure_labels_eq [of insts "[]" "length code", simplified]
  have "length out = inst_pos (length code) insts (length insts)"
    using length_code_of [of "length code" "labels_of (length code) insts" insts] by (simp add: out)
  moreover have "take (inst_pos (length code) insts (Suc k) - inst_pos (length code) insts k)
           (drop (inst_pos (length code) insts k) out)
         = the (fst (snd (encode_single_instruction_internal (insts ! k) (Some []) None
             (Some (measure_labels insts [] (of_nat (length code))))
             (of_nat (inst_pos (length code) insts k)))))" if "k < length insts" for k
    using out_nth [OF that, of code "labels_of (length code) insts"]
    by (simp add: out m encode_internal_eq inst_pos_Suc [OF that])
  ultimately show ?thesis by (simp add: out)
qed

text \<open>A little-endian 32-bit field.\<close>

definition read32 :: "u8 list \<Rightarrow> u32" where
  "read32 bs = (case bs of
     [a, b, c, d] \<Rightarrow> ucast a OR push_bit 8 (ucast b) OR push_bit 16 (ucast c) OR push_bit 24 (ucast d)
   | _ \<Rightarrow> 0)"

lemma ucast_and_ff: "(ucast (x AND 0xFF) :: u8) = ucast (x :: u32)"
proof -
  have "(0xFF :: u32) = mask 8" by (simp add: mask_eq_exp_minus_1)
  then show ?thesis by (auto simp: bit_eq_iff bit_simps)
qed

lemma read32_append_u32: "read32 (byte_buf_append_u32 [] v) = v"
proof (rule bit_word_eqI)
  fix n assume "n < LENGTH(32)"
  then consider "n < 8" | "8 \<le> n" "n < 16" | "16 \<le> n" "n < 24" | "24 \<le> n" "n < 32" by fastforce
  then show "bit (read32 (byte_buf_append_u32 [] v)) n \<longleftrightarrow> bit v n"
    by cases (auto simp: read32_def byte_buf_append_u32_def ucast_and_ff bit_simps)
qed

lemma length_append_u32 [simp]: "length (byte_buf_append_u32 b v) = length b + 4"
  by (simp add: byte_buf_append_u32_def)

section \<open>Branches\<close>

definition is_label :: "string \<Rightarrow> x86_instr \<Rightarrow> bool" where
  "is_label nm i \<longleftrightarrow> i_op i = X86_OP_LABEL \<and> o_symbol (i_dst i) = Some nm"

definition is_branch :: "x86_instr \<Rightarrow> bool" where
  "is_branch i \<longleftrightarrow> i_op i = X86_OP_JMP \<or> i_op i = X86_OP_JNE \<or> i_op i = X86_OP_JE"

lemma labels_of_first:
  "j < length insts \<Longrightarrow> is_label nm (insts ! j) \<Longrightarrow> (\<forall>i<j. \<not> is_label nm (insts ! i)) \<Longrightarrow>
     map_of (labels_of n insts) nm = Some (of_nat (inst_pos n insts j))"
proof (induction insts arbitrary: n j)
  case (Cons i insts)
  show ?case
  proof (cases j)
    case 0
    with Cons.prems show ?thesis by (simp add: is_label_def inst_pos_simps)
  next
    case (Suc j')
    with Cons.prems have "\<not> is_label nm i" "\<forall>i<j'. \<not> is_label nm (insts ! i)" by force+
    with Suc Cons.prems Cons.IH [of j' "n + inst_size i"] show ?thesis
      by (auto simp: inst_pos_simps is_label_def split: option.splits bool.splits)
  qed
qed simp

lemma labels_of_none:
  "\<forall>i\<in>set insts. \<not> is_label nm i \<Longrightarrow> map_of (labels_of n insts) nm = None"
  by (induction insts arbitrary: n) (auto simp: is_label_def split: option.splits bool.splits)

definition branch_size :: "x86_instr \<Rightarrow> nat" where
  "branch_size i = (if i_op i = X86_OP_JMP then 5 else 6)"

lemma branch_bytes:
  assumes "is_branch i"
  shows "\<exists>opc. inst_bytes m pc i
    = opc @ byte_buf_append_u32 [] (branch_disp m (o_symbol (i_src i)) pc (of_nat (branch_size i)))
    \<and> length opc + 4 = branch_size i"
  using assms
  by (auto simp: is_branch_def inst_bytes_def out_bytes_def encode_inst_def enc_jmp_def enc_jcc_def
      seq_simps put8_def put32_def add_len_def branch_size_def byte_buf_append_u8_def byte_buf_append_u32_def)

lemma branch_size_eq:
  assumes "is_branch i" shows "inst_size i = branch_size i"
proof -
  from branch_bytes [OF assms, of None 0] show ?thesis
    by (auto simp flip: length_inst_bytes [of None 0])
qed

lemma sint_disp:
  assumes "a < 2 ^ 31" "b < 2 ^ 31"
  shows "sint (ucast (of_nat a - of_nat b :: u64) :: u32) = int a - int b"
proof -
  have conv: "(of_nat a - of_nat b :: u64) = of_int (int a - int b)" by simp
  have cast: "(ucast (of_int x :: u64) :: u32) = of_int x" for x
    unfolding unsigned_of_int by transfer simp
  have sint: "sint (of_int x :: u32) = x" if "- (2 ^ 31) \<le> x" "x < 2 ^ 31" for x :: int
    using that by (simp add: sint_sbintrunc' signed_take_bit_int_eq_self)
  from assms have "- (2 ^ 31) \<le> int a - int b" "int a - int b < 2 ^ 31" by simp_all
  then show ?thesis unfolding conv cast by (rule sint)
qed

lemma inst_pos_mono: "i \<le> k \<Longrightarrow> inst_pos n insts i \<le> inst_pos n insts k"
proof -
  assume "i \<le> k"
  then obtain d where "k = i + d" using le_Suc_ex by blast
  then show ?thesis by (simp add: inst_pos_def take_add)
qed

lemma branch_field:
  assumes out: "out = code @ code_of m (length code) insts" and k: "k < length insts"
    and br: "is_branch (insts ! k)"
  shows "read32 (take 4 (drop (inst_pos (length code) insts (Suc k) - 4) out))
    = branch_disp (Some m) (o_symbol (i_src (insts ! k))) (of_nat (inst_pos (length code) insts k))
        (of_nat (branch_size (insts ! k)))"
proof -
  let ?p = "inst_pos (length code) insts k"
  from branch_bytes [OF br, of "Some m" "of_nat ?p"] obtain opc where
    b: "inst_bytes (Some m) (of_nat ?p) (insts ! k) = opc @ byte_buf_append_u32 []
      (branch_disp (Some m) (o_symbol (i_src (insts ! k))) (of_nat ?p) (of_nat (branch_size (insts ! k))))"
    and len: "length opc + 4 = branch_size (insts ! k)" by blast
  have pos: "inst_pos (length code) insts (Suc k) - 4 = ?p + length opc"
    using len by (simp add: inst_pos_Suc [OF k] branch_size_eq [OF br])
  have "take 4 (drop (?p + length opc) out)
      = take 4 (drop (length opc) (take (inst_size (insts ! k)) (drop ?p out)))"
    by (simp add: branch_size_eq [OF br] drop_take add.commute flip: len)
  also have "\<dots> = byte_buf_append_u32 []
      (branch_disp (Some m) (o_symbol (i_src (insts ! k))) (of_nat ?p) (of_nat (branch_size (insts ! k))))"
    unfolding out out_nth [OF k, of code m] b by simp
  finally show ?thesis unfolding pos by (simp add: read32_append_u32)
qed

text \<open>
  C9. A branch to a label goes to that label: if the function ends below 2 GiB, the 32-bit
  displacement at the end of a \<open>jmp\<close>, \<open>jne\<close> or \<open>je\<close>, added to the offset after the branch, is the offset
  of the first label of that name.
\<close>

theorem branch_reaches_label:
  assumes enc: "x86_encode_function (Some insts) (Some code) relocs = Inr (out, relocs')"
    and small: "length out < 2 ^ 31"
    and k: "k < length insts" "is_branch (insts ! k)" "o_symbol (i_src (insts ! k)) = Some nm"
    and j: "j < length insts" "is_label nm (insts ! j)" "\<forall>i<j. \<not> is_label nm (insts ! i)"
  shows "int (inst_pos (length code) insts (Suc k))
      + sint (read32 (take 4 (drop (inst_pos (length code) insts (Suc k) - 4) out)))
    = int (inst_pos (length code) insts j)"
proof -
  let ?m = "labels_of (length code) insts"
  note out = encode_function_out(1) [OF enc]
  have len: "length out = inst_pos (length code) insts (length insts)"
    using length_code_of [of "length code" ?m insts] by (simp add: out)
  have lt: "inst_pos (length code) insts (Suc k) < 2 ^ 31" "inst_pos (length code) insts j < 2 ^ 31"
    using inst_pos_mono [of "Suc k" "length insts" "length code" insts]
      inst_pos_mono [of j "length insts" "length code" insts] k(1) j(1) small len by simp_all
  have "branch_disp (Some ?m) (o_symbol (i_src (insts ! k))) (of_nat (inst_pos (length code) insts k))
        (of_nat (branch_size (insts ! k)))
      = ucast (of_nat (inst_pos (length code) insts j) - of_nat (inst_pos (length code) insts (Suc k)) :: u64)"
    by (simp add: branch_disp_def label_map_get_def k(3) labels_of_first [OF j] inst_pos_Suc [OF k(1)]
        branch_size_eq [OF k(2)])
  then show ?thesis
    by (simp add: branch_field [OF out k(1,2)] sint_disp [OF lt(2,1)])
qed

text \<open>
  A branch to a name that no label of the function has is encoded without an error, with
  displacement 0: it goes to the instruction after it.
\<close>

theorem branch_to_missing_label_falls_through:
  assumes "k < length insts" "is_branch (insts ! k)" "o_symbol (i_src (insts ! k)) = Some nm"
    and "\<forall>i\<in>set insts. \<not> is_label nm i"
  shows "\<exists>out relocs'. x86_encode_function (Some insts) (Some code) relocs = Inr (out, relocs')
    \<and> read32 (take 4 (drop (inst_pos (length code) insts (Suc k) - 4) out)) = 0"
  using branch_field [OF refl assms(1,2), of code "labels_of (length code) insts"] assms(3,4)
  by (simp add: encode_function_eq Let_def branch_disp_def label_map_get_def labels_of_none)


section \<open>Relocations\<close>

text \<open>The relocation type an instruction needs, if it has a field for the linker to fill.\<close>

definition reloc_kind :: "x86_instr \<Rightarrow> u32 option" where
  "reloc_kind i =
     (if i_op i = X86_OP_CALL then Some R_X86_64_PLT32
      else if o_kind (i_src i) = X86_OPERAND_MEM_RIP
        \<and> (i_op i = X86_OP_LEA
           \<or> (i_op i = X86_OP_MOV \<or> i_op i = X86_OP_MOVSD) \<and> o_kind (i_dst i) \<noteq> X86_OPERAND_MEM_BASE)
      then Some R_X86_64_PC32 else None)"

lemma relocs_prims:
  "e_relocs (put8 v st) = e_relocs st" "e_relocs (put32 w st) = e_relocs st"
  "e_relocs (put64 x st) = e_relocs st" "e_relocs (add_len n st) = e_relocs st"
  "e_relocs (put_reloc_at pos symb ty st) =
     (if e_buf st = None then e_relocs st
      else map_option (\<lambda>l. x86_reloc_list_append l pos symb ty (- 4)) (e_relocs st))"
  by (auto simp: put8_def put32_def put64_def add_len_def put_reloc_at_def)

lemma relocs_rex: "e_relocs (emit_rex_prefix w r x b st) = e_relocs st"
  by (simp add: emit_rex_prefix_def Let_def seq_simps relocs_prims)

lemma relocs_modrm: "e_relocs (emit_modrm_sib_disp r3 base disp st) = e_relocs st"
  by (simp add: emit_modrm_sib_disp_def Let_def seq_simps relocs_prims)

lemma buf_null_prims:
  "e_buf (put8 v st) = None \<longleftrightarrow> e_buf st = None" "e_buf (put32 w st) = None \<longleftrightarrow> e_buf st = None"
  "e_buf (put64 x st) = None \<longleftrightarrow> e_buf st = None" "e_buf (add_len n st) = None \<longleftrightarrow> e_buf st = None"
  by (auto simp: put8_def put32_def put64_def add_len_def)

lemma buf_null_rex: "e_buf (emit_rex_prefix w r x b st) = None \<longleftrightarrow> e_buf st = None"
  by (simp add: emit_rex_prefix_def Let_def seq_simps buf_null_prims)

lemma inst_relocs_eq:
  "inst_relocs m pc i = (case reloc_kind i of None \<Rightarrow> []
     | Some ty \<Rightarrow> [\<lparr>r_offset = pc + of_nat (inst_size i) - 4, r_symbol = o_symbol (i_src i),
                   r_type = ty, r_addend = - 4\<rparr>])"
proof -
  have "inst_size i = e_len (encode_inst m pc i (at_len 0))" by (simp add: len_encode_inst)
  then show ?thesis
    unfolding inst_relocs_def out_relocs_def
    by (cases "i_op i")
      (simp_all add: encode_inst_def enc_group_defs Let_def seq_simps relocs_prims relocs_rex relocs_modrm
        buf_null_prims buf_null_rex put_reloc_def len_prims len_rex reloc_kind_def x86_reloc_list_append_def)
qed


definition ends_zero :: "enc_state \<Rightarrow> bool" where
  "ends_zero st \<longleftrightarrow> (\<exists>pre. e_buf st = Some (pre @ [0, 0, 0, 0]))"

lemma ends_zero_prims:
  "ends_zero (put32 0 st) \<longleftrightarrow> e_buf st \<noteq> None" "ends_zero (add_len n st) \<longleftrightarrow> ends_zero st"
  by (auto simp: ends_zero_def put32_def byte_buf_append_u32_def add_len_def)

lemma buf_reloc_prims:
  "e_buf (put_reloc_at pos symb ty st) = e_buf st" "e_buf (put_reloc pc k symb ty st) = e_buf st"
  by (simp_all add: put_reloc_at_def put_reloc_def)

lemma reloc_field_zero:
  assumes "reloc_kind i \<noteq> None"
  shows "\<exists>pre. inst_bytes m pc i = pre @ [0, 0, 0, 0]"
proof -
  from assms have "ends_zero (encode_inst m pc i (at_len 0))"
    by (cases "i_op i")
      (simp_all add: encode_inst_def enc_group_defs Let_def seq_simps reloc_kind_def ends_zero_prims
        buf_reloc_prims buf_null_prims buf_null_rex split: if_splits)
  then show ?thesis by (auto simp: ends_zero_def inst_bytes_def out_bytes_def)
qed

lemma relocs_of_eq:
  "relocs_of m n insts
     = concat (map (\<lambda>k. inst_relocs (Some m) (of_nat (inst_pos n insts k)) (insts ! k)) [0..<length insts])"
proof (induction insts arbitrary: n)
  case (Cons i insts)
  have "[0..<length (i # insts)] = 0 # map Suc [0..<length insts]"
    by (simp add: map_Suc_upt upt_conv_Cons del: upt_Suc)
  then show ?case by (simp add: Cons inst_pos_simps comp_def)
qed simp

lemma reloc_size: "reloc_kind i \<noteq> None \<Longrightarrow> 4 \<le> inst_size i"
  using reloc_field_zero [of i None 0] by (auto simp flip: length_inst_bytes [of None 0])

text \<open>
  The relocations of a function are, in the order of the instructions, one for every call and
  every instruction with a RIP-relative operand: for the last four bytes of the instruction, which
  are zero, with the symbol of its source operand, the type \<open>R_X86_64_PLT32\<close> for a call and
  \<open>R_X86_64_PC32\<close> otherwise, and the addend \<open>-4\<close> that makes the linker count from the end.
\<close>

theorem relocations_of_function:
  assumes "x86_encode_function (Some insts) (Some code) (Some rs) = Inr (out, relocs')"
  shows "relocs' = Some (rs @ concat (map (\<lambda>k. case reloc_kind (insts ! k) of None \<Rightarrow> []
        | Some ty \<Rightarrow> [\<lparr>r_offset = of_nat (inst_pos (length code) insts (Suc k) - 4),
            r_symbol = o_symbol (i_src (insts ! k)), r_type = ty, r_addend = - 4\<rparr>]) [0..<length insts]))
    \<and> (\<forall>k<length insts. reloc_kind (insts ! k) \<noteq> None \<longrightarrow>
         take 4 (drop (inst_pos (length code) insts (Suc k) - 4) out) = [0, 0, 0, 0])"
proof
  note out = encode_function_out [OF assms]
  have "inst_relocs (Some m) (of_nat (inst_pos n insts k)) (insts ! k)
      = (case reloc_kind (insts ! k) of None \<Rightarrow> []
         | Some ty \<Rightarrow> [\<lparr>r_offset = of_nat (inst_pos n insts (Suc k) - 4),
            r_symbol = o_symbol (i_src (insts ! k)), r_type = ty, r_addend = - 4\<rparr>])"
    if "k < length insts" for k m n
    using reloc_size [of "insts ! k"]
    by (auto simp: inst_relocs_eq inst_pos_Suc [OF that] of_nat_diff split: option.splits)
  then show "relocs' = Some (rs @ concat (map (\<lambda>k. case reloc_kind (insts ! k) of None \<Rightarrow> []
        | Some ty \<Rightarrow> [\<lparr>r_offset = of_nat (inst_pos (length code) insts (Suc k) - 4),
            r_symbol = o_symbol (i_src (insts ! k)), r_type = ty, r_addend = - 4\<rparr>]) [0..<length insts]))"
    unfolding out(2) relocs_of_eq by (auto intro!: arg_cong [where f = concat] map_cong)
  show "\<forall>k<length insts. reloc_kind (insts ! k) \<noteq> None \<longrightarrow>
         take 4 (drop (inst_pos (length code) insts (Suc k) - 4) out) = [0, 0, 0, 0]"
  proof (intro allI impI)
    fix k assume k: "k < length insts" "reloc_kind (insts ! k) \<noteq> None"
    let ?p = "inst_pos (length code) insts k" and ?m = "labels_of (length code) insts"
    from reloc_field_zero [OF k(2), of "Some ?m" "of_nat ?p"] obtain pre where
      b: "inst_bytes (Some ?m) (of_nat ?p) (insts ! k) = pre @ [0, 0, 0, 0]" by blast
    then have len: "inst_size (insts ! k) = length pre + 4"
      by (simp flip: length_inst_bytes [of "Some ?m" "of_nat ?p"])
    have "take 4 (drop (?p + length pre) out)
        = take 4 (drop (length pre) (take (inst_size (insts ! k)) (drop ?p out)))"
      by (simp add: len drop_take add.commute)
    also have "\<dots> = [0, 0, 0, 0]" unfolding out(1) out_nth [OF k(1)] b by simp
    finally show "take 4 (drop (inst_pos (length code) insts (Suc k) - 4) out) = [0, 0, 0, 0]"
      by (simp add: inst_pos_Suc [OF k(1)] len)
  qed
qed


section \<open>A sample function\<close>

definition sample_insts :: x86_instr_list where
  "sample_insts = x86_emit_ret (x86_emit_label (x86_emit_call (x86_emit_jmp [] ''L'') ''f'') ''L'')"

definition sample_out :: "u8 list" where
  "sample_out = [0x90, 0xE9, 5, 0, 0, 0, 0xE8, 0, 0, 0, 0, 0xC3]"

definition sample_relocs :: "x86_reloc list" where
  "sample_relocs = [\<lparr>r_offset = 7, r_symbol = Some ''f'', r_type = R_X86_64_PLT32, r_addend = - 4\<rparr>]"

lemmas encode_run = x86_encode_function_def Let_def encode_single_instruction_internal_def encode_inst_def
  enc_group_defs seq_simps put8_def put32_def add_len_def put_reloc_at_def x86_reloc_list_append_def
  byte_buf_append_u8_def byte_buf_append_u32_def label_map_put_def label_map_get_def branch_disp_def

lemma sample_encoded:
  "x86_encode_function (Some sample_insts) (Some [0x90]) (Some []) = Inr (sample_out, Some sample_relocs)"
  by (simp add: sample_insts_def enc_simps, simp add: x86_encode_function_def Let_def,
      simp add: encode_run, simp add: sample_out_def sample_relocs_def)

theorem encode_function_layout_witness:
  "take 1 sample_out = [0x90] \<and> length sample_out = inst_pos 1 sample_insts 4
    \<and> take (inst_pos 1 sample_insts 2 - inst_pos 1 sample_insts 1) (drop (inst_pos 1 sample_insts 1) sample_out)
      = the (fst (snd (encode_single_instruction_internal (sample_insts ! 1) (Some []) None
          (Some (measure_labels sample_insts [] 1)) (of_nat (inst_pos 1 sample_insts 1)))))"
proof -
  have len: "length sample_insts = 4" by (simp add: sample_insts_def enc_simps)
  note layout = encode_function_layout [OF sample_encoded, unfolded len]
  from layout have "\<forall>k<4. take (inst_pos 1 sample_insts (Suc k) - inst_pos 1 sample_insts k)
           (drop (inst_pos 1 sample_insts k) sample_out)
         = the (fst (snd (encode_single_instruction_internal (sample_insts ! k) (Some []) None
             (Some (measure_labels sample_insts [] 1)) (of_nat (inst_pos 1 sample_insts k)))))"
    by simp
  from this [rule_format, of 1] layout show ?thesis by (simp add: numeral_2_eq_2)
qed

theorem branch_reaches_label_witness:
  "int (inst_pos 1 sample_insts 1) + sint (read32 (take 4 (drop (inst_pos 1 sample_insts 1 - 4) sample_out)))
    = int (inst_pos 1 sample_insts 2)"
proof -
  have "length sample_out < 2 ^ 31" "0 < length sample_insts" "is_branch (sample_insts ! 0)"
      "o_symbol (i_src (sample_insts ! 0)) = Some ''L''" "2 < length sample_insts"
      "is_label ''L'' (sample_insts ! 2)"
    by (simp_all add: sample_out_def sample_insts_def enc_simps is_branch_def is_label_def)
  moreover have "\<forall>i<2. \<not> is_label ''L'' (sample_insts ! i)"
    by (auto simp: less_2_cases_iff is_label_def sample_insts_def enc_simps)
  ultimately show ?thesis
    using branch_reaches_label [OF sample_encoded, of 0 "''L''" 2] by simp
qed

theorem branch_to_missing_label_falls_through_witness:
  "\<exists>out relocs'. x86_encode_function (Some (x86_emit_je [] ''nowhere'')) (Some []) None = Inr (out, relocs')
    \<and> read32 (take 4 (drop (inst_pos (length ([] :: u8 list)) (x86_emit_je [] ''nowhere'') (Suc 0) - 4) out)) = 0"
  by (rule branch_to_missing_label_falls_through [where nm = "''nowhere''"])
    (simp_all add: enc_simps is_branch_def is_label_def)

theorem relocations_of_function_witness:
  "sample_relocs = concat (map (\<lambda>k. case reloc_kind (sample_insts ! k) of None \<Rightarrow> []
        | Some ty \<Rightarrow> [\<lparr>r_offset = of_nat (inst_pos 1 sample_insts (Suc k) - 4),
            r_symbol = o_symbol (i_src (sample_insts ! k)), r_type = ty, r_addend = - 4\<rparr>]) [0..<4])
    \<and> take 4 (drop (inst_pos 1 sample_insts 2 - 4) sample_out) = [0, 0, 0, 0]"
proof -
  have len: "length sample_insts = 4" "length [0x90 :: u8] = 1" by (simp_all add: sample_insts_def enc_simps)
  note relocs = relocations_of_function [OF sample_encoded, unfolded len]
  have "reloc_kind (sample_insts ! 1) \<noteq> None"
    by (simp add: sample_insts_def enc_simps reloc_kind_def)
  with conjunct2 [OF relocs, rule_format, of 1]
  have "take 4 (drop (inst_pos 1 sample_insts 2 - 4) sample_out) = [0, 0, 0, 0]"
    by (simp add: numeral_2_eq_2)
  with conjunct1 [OF relocs] show ?thesis by (simp only: append_Nil option.inject simp_thms)
qed

end
