(* ===== verification/X86_Decode.thy ===== *)
theory X86_Decode
  imports X86_Layout
begin

text \<open>
  A decoder for the instructions the encoder emits, written from the instruction format of the
  architecture (prefixes, REX, opcode, ModRM, SIB, displacement, immediate) and independent of the
  encoder, and the round trip: the bytes of an instruction decode to the instruction that
  \<open>x86_instr_list_to_asm\<close> prints for it.
\<close>

section \<open>Decoded instructions\<close>

datatype operand = Reg nat | Mem nat int | Rip int

text \<open>A byte register: without a REX prefix the numbers 4 to 7 are \<open>ah\<close>, \<open>ch\<close>, \<open>dh\<close>, \<open>bh\<close>.\<close>

datatype byte_reg = Low nat | High nat

datatype asm =
    A_push nat | A_pop nat | A_ret | A_cltd
  | A_rm_reg string nat operand nat
  | A_reg_rm string nat nat operand
  | A_rm string nat operand
  | A_rm_imm string nat operand int
  | A_mov_imm nat nat int
  | A_movb_imm byte_reg int
  | A_rm8_reg8 string byte_reg byte_reg
  | A_movzbl nat byte_reg
  | A_set nat byte_reg
  | A_jmp int | A_jcc nat int | A_call int
  | A_sse string nat operand
  | A_sse_store string operand nat

text \<open>REX: is it there, and its bits W, R, X, B.\<close>

type_synonym rex = "bool \<times> bool \<times> bool \<times> bool \<times> bool"

fun split_legacy :: "u8 list \<Rightarrow> u8 option \<times> u8 list" where
  "split_legacy (c # bs) = (if c = 0xF2 \<or> c = 0x66 then (Some c, bs) else (None, c # bs))"
| "split_legacy [] = (None, [])"

fun split_rex :: "u8 list \<Rightarrow> rex \<times> u8 list" where
  "split_rex (c # bs) =
     (if c AND 0xF0 = 0x40 then ((True, bit c 3, bit c 2, bit c 1, bit c 0), bs)
      else ((False, False, False, False, False), c # bs))"
| "split_rex [] = ((False, False, False, False, False), [])"

fun take_i8 :: "u8 list \<Rightarrow> (int \<times> u8 list) option" where
  "take_i8 (c # bs) = Some (sint c, bs)"
| "take_i8 _ = None"

fun take_u32 :: "u8 list \<Rightarrow> (u32 \<times> u8 list) option" where
  "take_u32 (a # b # c # d # bs) = Some (read32 [a, b, c, d], bs)"
| "take_u32 _ = None"

definition take_i32 :: "u8 list \<Rightarrow> (int \<times> u8 list) option" where
  "take_i32 bs = map_option (\<lambda>(v, r). (sint v, r)) (take_u32 bs)"

definition take_u64 :: "u8 list \<Rightarrow> (u64 \<times> u8 list) option" where
  "take_u64 bs = (case take_u32 bs of None \<Rightarrow> None
     | Some (lo, r) \<Rightarrow> map_option (\<lambda>(hi, r'). (ucast lo OR push_bit 32 (ucast hi), r')) (take_u32 r))"

definition reg_no :: "bool \<Rightarrow> u8 \<Rightarrow> nat" where
  "reg_no ext field = (if ext then 8 else 0) + unat field"

definition take_disp :: "u8 \<Rightarrow> nat \<Rightarrow> u8 list \<Rightarrow> (operand \<times> u8 list) option" where
  "take_disp md base bs =
     (if md = 0 then Some (Mem base 0, bs)
      else map_option (\<lambda>(d, r). (Mem base d, r)) (if md = 1 then take_i8 bs else take_i32 bs))"

text \<open>ModRM with its SIB byte and displacement: the reg field, the r/m operand, the rest.\<close>

definition take_modrm :: "rex \<Rightarrow> u8 list \<Rightarrow> (nat \<times> operand \<times> u8 list) option" where
  "take_modrm rex bs = (case (rex, bs) of
     ((_, _, r, x, b), m # rest) \<Rightarrow>
       (let md = drop_bit 6 m; reg = reg_no r (drop_bit 3 m AND 7); rm = m AND 7 in
        if md = 3 then Some (reg, Reg (reg_no b rm), rest)
        else if rm = 4 then
          (case rest of
             s # rest' \<Rightarrow>
               (if drop_bit 3 s AND 7 = 4 \<and> \<not> x \<and> \<not> (md = 0 \<and> s AND 7 = 5) then
                  map_option (\<lambda>(op, r). (reg, op, r)) (take_disp md (reg_no b (s AND 7)) rest')
                else None)
           | [] \<Rightarrow> None)
        else if md = 0 \<and> rm = 5 then map_option (\<lambda>(d, r). (reg, Rip d, r)) (take_i32 rest)
        else map_option (\<lambda>(op, r). (reg, op, r)) (take_disp md (reg_no b rm) rest))
   | _ \<Rightarrow> None)"

definition byte_reg :: "bool \<Rightarrow> nat \<Rightarrow> byte_reg" where
  "byte_reg present n = (if \<not> present \<and> 4 \<le> n \<and> n < 8 then High (n - 4) else Low n)"

definition opwidth :: "rex \<Rightarrow> nat" where
  "opwidth rex = (if fst (snd rex) then 64 else 32)"

definition alu_names :: "(u8 \<times> string) list" where
  "alu_names = [(0x01, ''add''), (0x09, ''or''), (0x21, ''and''), (0x29, ''sub''), (0x31, ''xor''),
     (0x39, ''cmp''), (0x89, ''mov'')]"

definition group1_names :: "(nat \<times> string) list" where
  "group1_names = [(0, ''add''), (1, ''or''), (4, ''and''), (5, ''sub''), (6, ''xor''), (7, ''cmp'')]"

definition group3_names :: "(nat \<times> string) list" where
  "group3_names = [(3, ''neg''), (4, ''mul''), (5, ''imul''), (6, ''div''), (7, ''idiv'')]"

definition sse_names :: "((u8 \<times> u8) \<times> string) list" where
  "sse_names = [((0xF2, 0x10), ''movsd''), ((0xF2, 0x58), ''addsd''), ((0xF2, 0x59), ''mulsd''),
     ((0xF2, 0x5C), ''subsd''), ((0xF2, 0x5E), ''divsd''), ((0x66, 0x57), ''xorpd''),
     ((0x66, 0x2E), ''ucomisd'')]"

text \<open>The two-byte opcodes after \<open>0F\<close>.\<close>

definition decode_0f :: "u8 option \<Rightarrow> rex \<Rightarrow> u8 \<Rightarrow> u8 list \<Rightarrow> (asm \<times> u8 list) option" where
  "decode_0f legacy rex opc bs =
     (case legacy of
        Some p \<Rightarrow>
          (case take_modrm rex bs of None \<Rightarrow> None
           | Some (reg, op, r) \<Rightarrow>
               (if p = 0xF2 \<and> opc = 0x11 then Some (A_sse_store ''movsd'' op reg, r)
                else map_option (\<lambda>nm. (A_sse nm reg op, r)) (map_of sse_names (p, opc))))
      | None \<Rightarrow>
          (if opc AND 0xF0 = 0x80 then
             map_option (\<lambda>(d, r). (A_jcc (unat (opc AND 0x0F)) d, r)) (take_i32 bs)
           else (case take_modrm rex bs of None \<Rightarrow> None
             | Some (reg, op, r) \<Rightarrow>
                 (case (op, opc AND 0xF0 = 0x90) of
                    (Reg n, True) \<Rightarrow> Some (A_set (unat (opc AND 0x0F)) (byte_reg (fst rex) n), r)
                  | (Reg n, False) \<Rightarrow>
                      (if opc = 0xB6 then Some (A_movzbl reg (byte_reg (fst rex) n), r)
                       else if opc = 0x44 then Some (A_reg_rm ''cmove'' (opwidth rex) reg op, r)
                       else if opc = 0xAF then Some (A_reg_rm ''imul'' (opwidth rex) reg op, r)
                       else None)
                  | _ \<Rightarrow> None))))"

definition decode_1 :: "rex \<Rightarrow> u8 \<Rightarrow> u8 list \<Rightarrow> (asm \<times> u8 list) option" where
  "decode_1 rex opc bs =
     (case rex of (present, w, _, _, b) \<Rightarrow>
      if opc AND 0xF8 = 0x50 then Some (A_push (reg_no b (opc AND 7)), bs)
      else if opc AND 0xF8 = 0x58 then Some (A_pop (reg_no b (opc AND 7)), bs)
      else if opc AND 0xF8 = 0xB0 then
        map_option (\<lambda>(v, r). (A_movb_imm (byte_reg present (reg_no b (opc AND 7))) v, r)) (take_i8 bs)
      else if opc AND 0xF8 = 0xB8 then
        (if w then map_option (\<lambda>(v, r). (A_mov_imm 64 (reg_no b (opc AND 7)) (uint v), r)) (take_u64 bs)
         else map_option (\<lambda>(v, r). (A_mov_imm 32 (reg_no b (opc AND 7)) (uint v), r)) (take_u32 bs))
      else if opc = 0xC3 then Some (A_ret, bs)
      else if opc = 0x99 then Some (A_cltd, bs)
      else if opc = 0xE8 then map_option (\<lambda>(d, r). (A_call d, r)) (take_i32 bs)
      else if opc = 0xE9 then map_option (\<lambda>(d, r). (A_jmp d, r)) (take_i32 bs)
      else (case take_modrm rex bs of None \<Rightarrow> None
        | Some (reg, op, r) \<Rightarrow>
            (if opc = 0x81 \<or> opc = 0x83 then
               (case map_of group1_names (reg mod 8) of None \<Rightarrow> None
                | Some nm \<Rightarrow> map_option (\<lambda>(v, r'). (A_rm_imm nm (opwidth rex) op v, r'))
                    (if opc = 0x83 then take_i8 r else take_i32 r))
             else if opc = 0xC7 \<and> reg mod 8 = 0 then
               map_option (\<lambda>(v, r'). (A_rm_imm ''mov'' (opwidth rex) op v, r')) (take_i32 r)
             else if opc = 0xF7 then
               map_option (\<lambda>nm. (A_rm nm (opwidth rex) op, r)) (map_of group3_names (reg mod 8))
             else if opc = 0x8D then Some (A_reg_rm ''lea'' (opwidth rex) reg op, r)
             else if opc = 0x8B then Some (A_reg_rm ''mov'' (opwidth rex) reg op, r)
             else if opc = 0x63 then Some (A_reg_rm ''movsxd'' (opwidth rex) reg op, r)
             else if opc = 0x20 \<or> opc = 0x08 then
               (case op of
                  Reg n \<Rightarrow> Some (A_rm8_reg8 (if opc = 0x20 then ''and'' else ''or'')
                              (byte_reg present n) (byte_reg present reg), r)
                | _ \<Rightarrow> None)
             else map_option (\<lambda>nm. (A_rm_reg nm (opwidth rex) op reg, r)) (map_of alu_names opc))))"

definition decode :: "u8 list \<Rightarrow> (asm \<times> u8 list) option" where
  "decode bs =
     (case split_legacy bs of (legacy, bs1) \<Rightarrow>
      case split_rex bs1 of (rex, bs2) \<Rightarrow>
      (case (legacy, bs2) of
         (_, c # d # r) \<Rightarrow> if c = 0x0F then decode_0f legacy rex d r
                         else if legacy = None then decode_1 rex c (d # r) else None
       | (None, [c]) \<Rightarrow> decode_1 rex c []
       | _ \<Rightarrow> None))"


section \<open>Bytes of the encoder's actions\<close>

definition rex_bytes :: "bool \<Rightarrow> bool \<Rightarrow> bool \<Rightarrow> bool \<Rightarrow> u8 list" where
  "rex_bytes w r x b =
     (if w \<or> r \<or> x \<or> b
      then [0x40 OR (if w then 0x08 else 0) OR (if r then 0x04 else 0) OR (if x then 0x02 else 0)
            OR (if b then 0x01 else 0)]
      else [])"

definition le32 :: "u32 \<Rightarrow> u8 list" where "le32 v = byte_buf_append_u32 [] v"
definition le64 :: "u64 \<Rightarrow> u8 list" where "le64 v = byte_buf_append_u64 [] v"

definition mem_bytes :: "u8 \<Rightarrow> x86_reg \<Rightarrow> u64 \<Rightarrow> u8 list" where
  "mem_bytes reg base_reg disp =
     (let rm = reg_hw_id base_reg AND 7 in
      if rm = 4 then
        if fits8 disp then [modrm 1 reg 4, 0x24, ucast disp] else [modrm 2 reg 4, 0x24] @ le32 (ucast disp)
      else if rm = 5 then
        if fits8 disp then [modrm 1 reg 5, ucast disp] else modrm 2 reg 5 # le32 (ucast disp)
      else if disp = 0 then [modrm 0 reg rm]
      else if fits8 disp then [modrm 1 reg rm, ucast disp] else modrm 2 reg rm # le32 (ucast disp))"

lemma buf_prims:
  "e_buf (put8 v st) = map_option (\<lambda>b. b @ [v]) (e_buf st)"
  "e_buf (put32 w st) = map_option (\<lambda>b. b @ le32 w) (e_buf st)"
  "e_buf (put64 x st) = map_option (\<lambda>b. b @ le64 x) (e_buf st)"
  "e_buf (add_len n st) = e_buf st"
  by (simp_all add: put8_def put32_def put64_def add_len_def byte_buf_append_u8_def le32_def
      le64_def byte_buf_append_u32_def byte_buf_append_u64_def)

lemma buf_rex: "e_buf (emit_rex_prefix w r x b st) = map_option (\<lambda>bs. bs @ rex_bytes w r x b) (e_buf st)"
  by (cases w; cases r; cases x; cases b)
    (simp_all add: emit_rex_prefix_def rex_bytes_def Let_def seq_simps buf_prims)

lemma buf_modrm:
  "e_buf (emit_modrm_sib_disp reg base disp st) = map_option (\<lambda>bs. bs @ mem_bytes reg base disp) (e_buf st)"
  by (simp add: emit_modrm_sib_disp_def mem_bytes_def Let_def seq_simps buf_prims option.map_comp comp_def)

lemmas bytes_simps = inst_bytes_def out_bytes_def encode_inst_def enc_group_defs Let_def seq_simps
  buf_prims buf_rex buf_modrm buf_reloc_prims

section \<open>Decoding the pieces\<close>

lemma take_u32_le32: "take_u32 (le32 v @ rest) = Some (v, rest)"
proof -
  obtain a b c d where abcd: "le32 v = [a, b, c, d]" by (simp add: le32_def byte_buf_append_u32_def)
  then have "read32 [a, b, c, d] = v" using read32_append_u32 [of v] by (simp add: le32_def)
  then show ?thesis by (simp add: abcd)
qed

lemma take_i32_le32: "take_i32 (le32 v @ rest) = Some (sint v, rest)"
  by (simp add: take_i32_def take_u32_le32)

lemma take_zero: "take_i32 (0 # 0 # 0 # 0 # rest) = Some (0, rest)"
  by (simp add: take_i32_def read32_def)

lemma le32_zero: "le32 0 = [0, 0, 0, 0]"
  by (simp add: le32_def byte_buf_append_u32_def)

lemma and_ff_64: "(ucast (x AND 0xFF) :: u8) = ucast (x :: u64)"
proof -
  have "(0xFF :: u64) = mask 8" by (simp add: mask_eq_exp_minus_1)
  then show ?thesis by (auto simp: bit_eq_iff bit_simps)
qed

lemma le64_split: "le64 v = le32 (ucast v) @ le32 (ucast (drop_bit 32 v))"
proof -
  have upt: "[0..<8] = [0, 1, 2, 3, 4, 5, 6, 7]" by (simp add: upt_rec)
  have lo: "(ucast (drop_bit n (ucast v :: u32)) :: u8) = ucast (drop_bit n v)" if "n \<le> 24" for n
    using that by (auto simp: bit_eq_iff bit_simps)
  have hi: "(ucast (drop_bit n (ucast (drop_bit 32 v) :: u32)) :: u8) = ucast (drop_bit (n + 32) v)"
    if "n \<le> 24" for n
    using that by (auto simp: bit_eq_iff bit_simps ac_simps)
  show ?thesis
    using lo [of 0] hi [of 0]
    by (simp add: le64_def le32_def byte_buf_append_u64_def byte_buf_append_u32_def ucast_and_ff and_ff_64
        upt lo hi)
qed

lemma take_u64_le64: "take_u64 (le64 v @ rest) = Some (v, rest)"
proof -
  have "ucast (ucast v :: u32) OR push_bit 32 (ucast (ucast (drop_bit 32 v) :: u32)) = v"
    by (auto simp: bit_eq_iff bit_simps)
  then show ?thesis by (simp add: take_u64_def le64_split take_u32_le32)
qed

lemma sint_narrow8: "fits8 v \<Longrightarrow> sint (ucast v :: u8) = sint v"
proof -
  have narrow: "(ucast v :: u8) = of_int (sint v)" by transfer (simp add: take_bit_signed_take_bit)
  have range: "sint (of_int x :: u8) = x" if "- 128 \<le> x" "x \<le> 127" for x :: int
    using that by (simp add: sint_sbintrunc' signed_take_bit_int_eq_self)
  assume "fits8 v"
  then show ?thesis unfolding narrow fits8_def by (intro range) simp_all
qed

definition fits32 :: "u64 \<Rightarrow> bool" where
  "fits32 v \<longleftrightarrow> - 2147483648 \<le> sint v \<and> sint v \<le> 2147483647"

lemma sint_narrow32: "fits32 v \<Longrightarrow> sint (ucast v :: u32) = sint v"
proof -
  have narrow: "(ucast v :: u32) = of_int (sint v)" by transfer (simp add: take_bit_signed_take_bit)
  have range: "sint (of_int x :: u32) = x" if "- 2147483648 \<le> x" "x \<le> 2147483647" for x :: int
    using that by (simp add: sint_sbintrunc' signed_take_bit_int_eq_self)
  assume "fits32 v"
  then show ?thesis unfolding narrow fits32_def by (intro range) simp_all
qed

lemma and_7: "x AND 7 = take_bit 3 (x :: u8)"
  by (simp add: take_bit_eq_mask mask_eq_exp_minus_1)

lemma and_7_less: "(x :: u8) AND 7 < 8"
  by (simp add: and_7 take_bit_eq_mod word_less_nat_alt unat_mod_distrib)

lemma reg_no_hw:
  assumes "hw < 16" shows "reg_no (8 \<le> hw) (hw AND 7) = unat hw"
proof -
  from assms have "unat hw < 16" by (simp add: word_less_nat_alt)
  then have "unat hw mod 8 = (if 8 \<le> unat hw then unat hw - 8 else unat hw)"
    by (auto simp: mod_if le_mod_geq)
  then show ?thesis
    by (simp add: reg_no_def and_7 unsigned_take_bit_eq take_bit_eq_mod word_le_nat_alt unat_mod_distrib)
qed

lemma modrm_fields:
  assumes "md < 4" "rm < 8"
  shows "drop_bit 6 (modrm md reg rm) = md" "drop_bit 3 (modrm md reg rm) AND 7 = reg AND 7"
    "modrm md reg rm AND 7 = rm"
proof -
  have md: "md = take_bit 2 md" and rm: "rm = take_bit 3 rm"
    using assms by (simp_all add: take_bit_eq_mod word_less_nat_alt flip: word_unat_eq_iff) (simp_all add: word_unat_eq_iff unat_mod_distrib)
  have "drop_bit 6 (modrm (take_bit 2 md) reg (take_bit 3 rm)) = take_bit 2 md"
    by (auto simp: modrm_def and_7 bit_eq_iff bit_simps)
  then show "drop_bit 6 (modrm md reg rm) = md" using md rm by simp
  have "drop_bit 3 (modrm (take_bit 2 md) reg (take_bit 3 rm)) AND 7 = reg AND 7"
    by (auto simp: modrm_def and_7 bit_eq_iff bit_simps)
  then show "drop_bit 3 (modrm md reg rm) AND 7 = reg AND 7" using md rm by simp
  have "modrm (take_bit 2 md) reg (take_bit 3 rm) AND 7 = take_bit 3 rm"
    by (auto simp: modrm_def and_7 bit_eq_iff bit_simps)
  then show "modrm md reg rm AND 7 = rm" using md rm by simp
qed


lemma split_rex_bytes:
  "c AND 0xF0 \<noteq> 0x40 \<Longrightarrow>
     split_rex (rex_bytes w r x b @ c # rest) = ((w \<or> r \<or> x \<or> b, w, r, x, b), c # rest)"
  by (cases w; cases r; cases x; cases b) (simp_all add: rex_bytes_def)

lemma split_legacy_bytes:
  "c \<noteq> 0xF2 \<Longrightarrow> c \<noteq> 0x66 \<Longrightarrow>
     split_legacy (rex_bytes w r x b @ c # rest) = (None, rex_bytes w r x b @ c # rest)"
  by (cases w; cases r; cases x; cases b) (simp_all add: rex_bytes_def)

lemma decode_plain:
  "c \<noteq> 0xF2 \<Longrightarrow> c \<noteq> 0x66 \<Longrightarrow> c AND 0xF0 \<noteq> 0x40 \<Longrightarrow> c \<noteq> 0x0F \<Longrightarrow>
     decode (rex_bytes w r x b @ c # rest) = decode_1 (w \<or> r \<or> x \<or> b, w, r, x, b) c rest"
  by (cases rest) (simp_all add: decode_def split_legacy_bytes split_rex_bytes)

lemma decode_plain_0f:
  "decode (rex_bytes w r x b @ 0x0F # d # rest) = decode_0f None (w \<or> r \<or> x \<or> b, w, r, x, b) d rest"
  by (simp add: decode_def split_legacy_bytes split_rex_bytes)

lemma decode_legacy_0f:
  "p = 0xF2 \<or> p = 0x66 \<Longrightarrow>
     decode (p # rex_bytes w r x b @ 0x0F # d # rest) = decode_0f (Some p) (w \<or> r \<or> x \<or> b, w, r, x, b) d rest"
  by (auto simp add: decode_def split_rex_bytes)

text \<open>The same without a prefix, and with the fixed prefixes \<open>41\<close> and \<open>48\<close>.\<close>

lemmas decode_bare = decode_plain [of _ False False False False, unfolded rex_bytes_def, simplified]
  decode_plain_0f [of False False False False, unfolded rex_bytes_def, simplified]
  decode_plain [of _ False False False True, unfolded rex_bytes_def, simplified]
  decode_plain [of _ True False False False, unfolded rex_bytes_def, simplified]

lemma take_modrm_reg:
  "hw < 16 \<Longrightarrow> hw' < 16 \<Longrightarrow>
     take_modrm (p, w, 8 \<le> hw, x, 8 \<le> hw') (modrm 3 hw (hw' AND 7) # rest) = Some (unat hw, Reg (unat hw'), rest)"
  by (simp add: take_modrm_def modrm_fields and_7_less reg_no_hw)


lemma and_7_idem [simp]: "((x :: u8) AND 7) AND 7 = x AND 7"
  by (simp add: and_7)

lemma take_disp_bytes:
  "take_disp 0 base rest = Some (Mem base 0, rest)"
  "take_disp 1 base (c # rest) = Some (Mem base (sint c), rest)"
  "take_disp 2 base (le32 v @ rest) = Some (Mem base (sint v), rest)"
  by (simp_all add: take_disp_def take_i32_le32)

lemma take_modrm_mem:
  assumes "hw < 16" "fits32 disp"
  shows "take_modrm (p, w, 8 \<le> hw, False, 8 \<le> reg_hw_id base) (mem_bytes (hw AND 7) base disp @ rest)
    = Some (unat hw, Mem (unat (reg_hw_id base)) (sint disp), rest)"
proof -
  have no: "reg_no (8 \<le> reg_hw_id base) (reg_hw_id base AND 7) = unat (reg_hw_id base)"
    by (rule reg_no_hw) (rule reg_hw_id_range)
  consider "reg_hw_id base AND 7 = 4" | "reg_hw_id base AND 7 = 5"
    | "reg_hw_id base AND 7 \<noteq> 4" "reg_hw_id base AND 7 \<noteq> 5" by blast
  then show ?thesis
  proof cases
    case 1
    with no show ?thesis
      by (simp add: mem_bytes_def take_modrm_def modrm_fields take_disp_bytes sint_narrow8
          sint_narrow32 reg_no_hw assms)
  next
    case 2
    with no show ?thesis
      by (simp add: mem_bytes_def take_modrm_def modrm_fields take_disp_bytes sint_narrow8
          sint_narrow32 reg_no_hw assms)
  next
    case 3
    with no show ?thesis
      by (simp add: mem_bytes_def take_modrm_def modrm_fields and_7_less take_disp_bytes sint_narrow8
          sint_narrow32 reg_no_hw assms Let_def)
  qed
qed

lemma take_modrm_rip:
  assumes "hw < 16"
  shows "take_modrm (p, w, 8 \<le> hw, x, False) (modrm 0 hw 5 # 0 # 0 # 0 # 0 # rest)
    = Some (unat hw, Rip 0, rest)"
  by (simp add: take_modrm_def modrm_fields take_zero reg_no_hw assms)

section \<open>The instruction that is meant\<close>

definition hw_no :: "x86_operand \<Rightarrow> nat" where
  "hw_no op = unat (reg_hw_id (o_reg op))"

definition operand_of :: "x86_operand \<Rightarrow> operand" where
  "operand_of op =
     (case o_kind op of
        X86_OPERAND_MEM_BASE \<Rightarrow> Mem (hw_no op) (sint (o_imm op))
      | X86_OPERAND_MEM_RIP \<Rightarrow> Rip 0
      | _ \<Rightarrow> Reg (hw_no op))"

definition cc_code :: "x86_cond_code \<Rightarrow> nat" where
  "cc_code cond = (case cond of
        X86_CC_B \<Rightarrow> 2 | X86_CC_AE \<Rightarrow> 3 | X86_CC_E \<Rightarrow> 4 | X86_CC_NE \<Rightarrow> 5 | X86_CC_BE \<Rightarrow> 6
      | X86_CC_A \<Rightarrow> 7 | X86_CC_P \<Rightarrow> 10 | X86_CC_NP \<Rightarrow> 11 | X86_CC_L \<Rightarrow> 12 | X86_CC_GE \<Rightarrow> 13
      | X86_CC_LE \<Rightarrow> 14 | X86_CC_G \<Rightarrow> 15)"

definition asm_of :: "label_map option \<Rightarrow> u64 \<Rightarrow> x86_instr \<Rightarrow> asm" where
  "asm_of lmap pc i =
     (let dst = i_dst i; src = i_src i; imm = sint (o_imm src);
          jump = (\<lambda>n. sint (branch_disp lmap (o_symbol src) pc n)) in
      case i_op i of
        X86_OP_PUSH \<Rightarrow> A_push (hw_no dst)
      | X86_OP_POP \<Rightarrow> A_pop (hw_no dst)
      | X86_OP_RET \<Rightarrow> A_ret
      | X86_OP_CLTD \<Rightarrow> A_cltd
      | X86_OP_SUB_IMM \<Rightarrow> A_rm_imm ''sub'' 64 (Reg 4) imm
      | X86_OP_ADD_IMM \<Rightarrow> A_rm_imm ''add'' 64 (Reg 4) imm
      | X86_OP_LEA \<Rightarrow> A_reg_rm ''lea'' 64 (hw_no dst) (operand_of src)
      | X86_OP_MOV \<Rightarrow>
          (let width = (if o_size dst = 8 \<or> o_size src = 8 then 64 else 32) in
           if o_kind src = X86_OPERAND_IMM then
             (if width = 32 then A_mov_imm 32 (hw_no dst) (uint (ucast (o_imm src) :: u32))
              else if fits32 (o_imm src) then A_rm_imm ''mov'' 64 (Reg (hw_no dst)) imm
              else A_mov_imm 64 (hw_no dst) (uint (o_imm src)))
           else if o_kind src = X86_OPERAND_MEM_RIP
             then A_reg_rm ''mov'' 64 (hw_no dst) (operand_of src)
           else if o_kind src = X86_OPERAND_MEM_BASE
             then A_reg_rm ''mov'' width (hw_no dst) (operand_of src)
           else A_rm_reg ''mov'' width (operand_of dst) (hw_no src))
      | X86_OP_MOVB_IMM \<Rightarrow> A_movb_imm (Low (hw_no dst)) (sint (ucast (o_imm src) :: u8))
      | X86_OP_MOVSLQ \<Rightarrow> A_reg_rm ''movsxd'' 64 (hw_no dst) (Reg (hw_no src))
      | X86_OP_MOVZBL \<Rightarrow> A_movzbl (hw_no dst) (Low (hw_no src))
      | X86_OP_CMOVE \<Rightarrow> A_reg_rm ''cmove'' 64 (hw_no dst) (Reg (hw_no src))
      | X86_OP_ADD \<Rightarrow> A_rm_reg ''add'' 32 (Reg (hw_no dst)) (hw_no src)
      | X86_OP_SUB \<Rightarrow> A_rm_reg ''sub'' 32 (Reg (hw_no dst)) (hw_no src)
      | X86_OP_AND \<Rightarrow> A_rm_reg ''and'' 32 (Reg (hw_no dst)) (hw_no src)
      | X86_OP_OR \<Rightarrow> A_rm_reg ''or'' 32 (Reg (hw_no dst)) (hw_no src)
      | X86_OP_XOR \<Rightarrow> A_rm_reg ''xor'' 32 (Reg (hw_no dst)) (hw_no src)
      | X86_OP_CMP \<Rightarrow> A_rm_reg ''cmp'' 32 (Reg (hw_no dst)) (hw_no src)
      | X86_OP_IMUL \<Rightarrow> A_reg_rm ''imul'' 32 (hw_no dst) (Reg (hw_no src))
      | X86_OP_IDIV \<Rightarrow> A_rm ''idiv'' 32 (Reg (hw_no src))
      | X86_OP_NEG \<Rightarrow> A_rm ''neg'' 32 (Reg (hw_no dst))
      | X86_OP_CMP_IMM \<Rightarrow> A_rm_imm ''cmp'' 32 (Reg (hw_no dst)) imm
      | X86_OP_SETCC \<Rightarrow> A_set (cc_code (i_cond i)) (Low (hw_no dst))
      | X86_OP_ANDB \<Rightarrow> A_rm8_reg8 ''and'' (Low (hw_no dst)) (Low (hw_no src))
      | X86_OP_ORB \<Rightarrow> A_rm8_reg8 ''or'' (Low (hw_no dst)) (Low (hw_no src))
      | X86_OP_JMP \<Rightarrow> A_jmp (jump 5)
      | X86_OP_JE \<Rightarrow> A_jcc 4 (jump 6)
      | X86_OP_JNE \<Rightarrow> A_jcc 5 (jump 6)
      | X86_OP_CALL \<Rightarrow> A_call 0
      | X86_OP_MOVSD \<Rightarrow>
          (if o_kind src = X86_OPERAND_REG \<and> o_kind dst = X86_OPERAND_MEM_BASE
           then A_sse_store ''movsd'' (operand_of dst) (hw_no src)
           else A_sse ''movsd'' (hw_no dst) (operand_of src))
      | X86_OP_ADDSD \<Rightarrow> A_sse ''addsd'' (hw_no dst) (Reg (hw_no src))
      | X86_OP_SUBSD \<Rightarrow> A_sse ''subsd'' (hw_no dst) (Reg (hw_no src))
      | X86_OP_MULSD \<Rightarrow> A_sse ''mulsd'' (hw_no dst) (Reg (hw_no src))
      | X86_OP_DIVSD \<Rightarrow> A_sse ''divsd'' (hw_no dst) (Reg (hw_no src))
      | X86_OP_XORPD \<Rightarrow> A_sse ''xorpd'' (hw_no dst) (Reg (hw_no src))
      | X86_OP_UCOMISD \<Rightarrow> A_sse ''ucomisd'' (hw_no dst) (Reg (hw_no src)))"

text \<open>
  The instructions the encoder has a form for: operand kinds it knows, displacements and
  immediates that fit their field, and byte registers that can be named, which \<open>spl\<close> to \<open>dil\<close>
  (the hardware numbers 4 to 7) cannot without a REX prefix.
\<close>

definition needs_rex_byte :: "nat \<Rightarrow> bool" where
  "needs_rex_byte n \<longleftrightarrow> 4 \<le> n \<and> n < 8"

definition mem_ok :: "x86_operand \<Rightarrow> bool" where
  "mem_ok op \<longleftrightarrow> (o_kind op = X86_OPERAND_MEM_BASE \<longrightarrow> fits32 (o_imm op))"

definition encodable :: "x86_instr \<Rightarrow> bool" where
  "encodable i =
     (let dst = i_dst i; src = i_src i; d = hw_no dst; s = hw_no src in
      case i_op i of
        X86_OP_LABEL \<Rightarrow> False
      | X86_OP_SUB_IMM \<Rightarrow> fits32 (o_imm src)
      | X86_OP_ADD_IMM \<Rightarrow> fits32 (o_imm src)
      | X86_OP_CMP_IMM \<Rightarrow> fits32 (o_imm src)
      | X86_OP_LEA \<Rightarrow> (o_kind src = X86_OPERAND_MEM_BASE \<or> o_kind src = X86_OPERAND_MEM_RIP) \<and> mem_ok src
      | X86_OP_MOV \<Rightarrow> mem_ok src \<and> mem_ok dst
          \<and> (o_kind dst = X86_OPERAND_REG
              \<and> o_kind src \<in> {X86_OPERAND_REG, X86_OPERAND_IMM, X86_OPERAND_MEM_BASE, X86_OPERAND_MEM_RIP}
            \<or> o_kind dst = X86_OPERAND_MEM_BASE \<and> o_kind src = X86_OPERAND_REG)
      | X86_OP_MOVSD \<Rightarrow> mem_ok src \<and> mem_ok dst
          \<and> (o_kind dst = X86_OPERAND_REG
              \<and> o_kind src \<in> {X86_OPERAND_REG, X86_OPERAND_MEM_BASE, X86_OPERAND_MEM_RIP}
            \<or> o_kind dst = X86_OPERAND_MEM_BASE \<and> o_kind src = X86_OPERAND_REG)
      | X86_OP_MOVB_IMM \<Rightarrow> \<not> needs_rex_byte d
      | X86_OP_SETCC \<Rightarrow> \<not> needs_rex_byte d
      | X86_OP_MOVZBL \<Rightarrow> needs_rex_byte s \<longrightarrow> 8 \<le> d
      | X86_OP_ANDB \<Rightarrow> (needs_rex_byte s \<longrightarrow> 8 \<le> d) \<and> (needs_rex_byte d \<longrightarrow> 8 \<le> s)
      | X86_OP_ORB \<Rightarrow> (needs_rex_byte s \<longrightarrow> 8 \<le> d) \<and> (needs_rex_byte d \<longrightarrow> 8 \<le> s)
      | _ \<Rightarrow> True)"


section \<open>Round trip\<close>

lemma byte_cases8: "(v :: u8) < 8 \<Longrightarrow> v = 0 \<or> v = 1 \<or> v = 2 \<or> v = 3 \<or> v = 4 \<or> v = 5 \<or> v = 6 \<or> v = 7"
  unfolding word_less_nat_alt word_unat_eq_iff by simp arith

lemma opcode_plus_reg:
  fixes v :: u8
  assumes "opc = 0x50 \<or> opc = 0x58 \<or> opc = 0xB0 \<or> opc = 0xB8" "v < 8"
  shows "(opc + v) AND 0xF8 = opc" "(opc + v) AND 7 = v" "(opc + v) AND 0xF0 \<noteq> 0x40"
    "opc + v \<noteq> 0xF2" "opc + v \<noteq> 0x66" "opc + v \<noteq> 0x0F"
  using assms(1) byte_cases8 [OF assms(2)] by (elim disjE; simp)+

lemma hw_small: "\<not> 8 \<le> hw \<Longrightarrow> hw < 16 \<Longrightarrow> (hw :: u8) < 8 \<and> hw AND 7 = hw"
  by (simp add: and_7 take_bit_eq_mod word_less_nat_alt word_le_nat_alt word_unat_eq_iff unat_mod_distrib)

lemma decode_plus_reg:
  assumes "opc = 0x50 \<or> opc = 0x58 \<or> opc = 0xB0 \<or> opc = 0xB8"
  shows "decode (rex_bytes w r x b @ (opc + (hw AND 7)) # rest)
    = decode_1 (w \<or> r \<or> x \<or> b, w, r, x, b) (opc + (hw AND 7)) rest"
  using opcode_plus_reg [OF assms and_7_less [of hw]] by (intro decode_plain) simp_all

lemma decode_1_plus_reg:
  "decode_1 (p, w, r, x, b) (0x50 + (hw AND 7)) rest = Some (A_push (reg_no b (hw AND 7)), rest)"
  "decode_1 (p, w, r, x, b) (0x58 + (hw AND 7)) rest = Some (A_pop (reg_no b (hw AND 7)), rest)"
  "decode_1 (p, w, r, x, b) (0xB0 + (hw AND 7)) (c # rest)
    = Some (A_movb_imm (byte_reg p (reg_no b (hw AND 7))) (sint c), rest)"
  "decode_1 (p, False, r, x, b) (0xB8 + (hw AND 7)) (le32 v @ rest)
    = Some (A_mov_imm 32 (reg_no b (hw AND 7)) (uint v), rest)"
  "decode_1 (p, True, r, x, b) (0xB8 + (hw AND 7)) (le64 u @ rest)
    = Some (A_mov_imm 64 (reg_no b (hw AND 7)) (uint u), rest)"
  using opcode_plus_reg(1,2) [OF _ and_7_less [of hw]]
  by (simp_all add: decode_1_def take_u32_le32 take_u64_le64)

lemma hw_16 [simp]: "reg_hw_id r < 16" by (rule reg_hw_id_range)

lemma rt_push_pop:
  assumes "i_op i = X86_OP_PUSH \<or> i_op i = X86_OP_POP"
  shows "decode (inst_bytes lmap pc i @ rest) = Some (asm_of lmap pc i, rest)"
proof -
  let ?hw = "reg_hw_id (o_reg (i_dst i))"
  obtain opc :: u8 where opc: "opc = 0x50 \<and> i_op i = X86_OP_PUSH \<or> opc = 0x58 \<and> i_op i = X86_OP_POP"
    using assms by blast
  then have opc': "opc = 0x50 \<or> opc = 0x58 \<or> opc = 0xB0 \<or> opc = 0xB8" by blast
  have "inst_bytes lmap pc i = rex_bytes False False False (8 \<le> ?hw) @ [opc + (?hw AND 7)]"
    using opc hw_small [of ?hw] by (auto simp: bytes_simps rex_bytes_def)
  then show ?thesis
    using opc decode_plus_reg [OF opc', of False False False "8 \<le> ?hw" ?hw rest]
    by (auto simp: decode_1_plus_reg asm_of_def hw_no_def reg_no_hw)
qed

lemmas dec_simps = decode_plain decode_plain_0f decode_legacy_0f decode_1_def decode_0f_def
  take_modrm_reg take_modrm_mem take_modrm_rip le32_zero take_i32_le32 opwidth_def

lemmas rt_defs = asm_of_def hw_no_def operand_of_def alu_opcode_def

lemma rt_alu:
  assumes "i_op i \<in> {X86_OP_ADD, X86_OP_SUB, X86_OP_AND, X86_OP_OR, X86_OP_XOR, X86_OP_CMP}"
  shows "decode (inst_bytes lmap pc i @ rest) = Some (asm_of lmap pc i, rest)"
  using assms by (auto simp: bytes_simps dec_simps rt_defs alu_names_def)

lemma rt_reg_rm:
  assumes "i_op i \<in> {X86_OP_MOVSLQ, X86_OP_CMOVE, X86_OP_IMUL}"
  shows "decode (inst_bytes lmap pc i @ rest) = Some (asm_of lmap pc i, rest)"
  using assms by (auto simp: bytes_simps dec_simps rt_defs)

lemma rt_sse:
  assumes "i_op i \<in> {X86_OP_ADDSD, X86_OP_SUBSD, X86_OP_MULSD, X86_OP_DIVSD, X86_OP_XORPD, X86_OP_UCOMISD}"
  shows "decode (inst_bytes lmap pc i @ rest) = Some (asm_of lmap pc i, rest)"
  using assms by (auto simp: bytes_simps dec_simps rt_defs sse_names_def)

lemma rt_lea:
  assumes "i_op i = X86_OP_LEA" "encodable i"
  shows "decode (inst_bytes lmap pc i @ rest) = Some (asm_of lmap pc i, rest)"
  using assms by (auto simp: bytes_simps dec_simps rt_defs encodable_def mem_ok_def)

lemma rt_movsd:
  assumes "i_op i = X86_OP_MOVSD" "encodable i"
  shows "decode (inst_bytes lmap pc i @ rest) = Some (asm_of lmap pc i, rest)"
  using assms by (auto simp: bytes_simps dec_simps rt_defs encodable_def mem_ok_def sse_names_def)


lemma take_modrm_ext:
  assumes "ext < 8" "hw < 16"
  shows "take_modrm (p, w, False, x, 8 \<le> hw) (modrm 3 ext (hw AND 7) # rest)
    = Some (unat ext, Reg (unat hw), rest)"
proof -
  from assms(1) have "ext < 16" "\<not> 8 \<le> ext"
    by (simp_all add: word_less_nat_alt word_le_nat_alt)
  with take_modrm_reg [OF this(1) assms(2)] show ?thesis by simp
qed

lemma take_modrm_C0: "take_modrm (p, w, False, x, 8 \<le> reg_hw_id r) ((0xC0 OR (reg_hw_id r AND 7)) # rest)
    = Some (0, Reg (unat (reg_hw_id r)), rest)"
  using take_modrm_ext [of 0 "reg_hw_id r" p w x rest] by (simp add: modrm_def)

lemma take_modrm_rsp:
  "take_modrm (p, w, False, x, False) (0xEC # rest) = Some (5, Reg 4, rest)"
  "take_modrm (p, w, False, x, False) (0xC4 # rest) = Some (0, Reg 4, rest)"
  by (simp_all add: take_modrm_def reg_no_def)

lemmas dec_more = take_modrm_ext take_modrm_C0 take_modrm_rsp group1_names_def group3_names_def
  sint_narrow8 sint_narrow32

lemma rt_rsp:
  assumes "i_op i \<in> {X86_OP_SUB_IMM, X86_OP_ADD_IMM}" "encodable i"
  shows "decode (inst_bytes lmap pc i @ rest) = Some (asm_of lmap pc i, rest)"
  using assms by (auto simp: bytes_simps dec_simps rt_defs dec_more decode_bare encodable_def)

lemma rt_cmp_imm:
  assumes "i_op i = X86_OP_CMP_IMM" "encodable i"
  shows "decode (inst_bytes lmap pc i @ rest) = Some (asm_of lmap pc i, rest)"
  using assms by (auto simp: bytes_simps dec_simps rt_defs dec_more encodable_def)

lemma rt_unary:
  assumes "i_op i \<in> {X86_OP_IDIV, X86_OP_NEG}"
  shows "decode (inst_bytes lmap pc i @ rest) = Some (asm_of lmap pc i, rest)"
  using assms by (auto simp: bytes_simps dec_simps rt_defs dec_more)

lemma rt_jump:
  assumes "i_op i \<in> {X86_OP_JMP, X86_OP_JE, X86_OP_JNE, X86_OP_CALL, X86_OP_RET, X86_OP_CLTD}"
  shows "decode (inst_bytes lmap pc i @ rest) = Some (asm_of lmap pc i, rest)"
  using assms by (auto simp: bytes_simps dec_simps rt_defs dec_more decode_bare take_zero)

lemma rt_mov_imm:
  assumes "i_op i = X86_OP_MOV" "o_kind (i_src i) = X86_OPERAND_IMM"
  shows "decode (inst_bytes lmap pc i @ rest) = Some (asm_of lmap pc i, rest)"
proof -
  let ?d = "reg_hw_id (o_reg (i_dst i))" and ?v = "o_imm (i_src i)"
  let ?is64 = "o_size (i_dst i) = 8 \<or> o_size (i_src i) = 8"
  consider "\<not> ?is64" | "?is64" "fits32 ?v" | "?is64" "\<not> fits32 ?v" by blast
  then show ?thesis
  proof cases
    case 1
    then have "inst_bytes lmap pc i
        = rex_bytes False False False (8 \<le> ?d) @ (0xB8 + (?d AND 7)) # le32 (ucast ?v)"
      using assms by (simp add: bytes_simps rex_bytes_def)
    with 1 assms show ?thesis
      by (simp add: decode_plus_reg decode_1_plus_reg reg_no_hw rt_defs)
  next
    case 2
    then have "inst_bytes lmap pc i
        = rex_bytes True False False (8 \<le> ?d) @ 0xC7 # (0xC0 OR (?d AND 7)) # le32 (ucast ?v)"
      using assms by (auto simp: bytes_simps fits32_def)
    with 2 assms show ?thesis
      by (auto simp: dec_simps dec_more rt_defs)
  next
    case 3
    then have "inst_bytes lmap pc i
        = rex_bytes True False False (8 \<le> ?d) @ (0xB8 + (?d AND 7)) # le64 ?v"
      using assms by (auto simp: bytes_simps fits32_def)
    with 3 assms show ?thesis
      by (auto simp: decode_plus_reg decode_1_plus_reg reg_no_hw rt_defs)
  qed
qed

lemma rt_mov:
  assumes "i_op i = X86_OP_MOV" "o_kind (i_src i) \<noteq> X86_OPERAND_IMM" "encodable i"
  shows "decode (inst_bytes lmap pc i @ rest) = Some (asm_of lmap pc i, rest)"
  using assms by (auto simp: bytes_simps dec_simps rt_defs encodable_def mem_ok_def alu_names_def)

lemma low_byte:
  "\<not> needs_rex_byte n \<or> present \<Longrightarrow> byte_reg present n = Low n"
  by (auto simp: byte_reg_def needs_rex_byte_def)

lemma unat_ge_8: "8 \<le> unat hw \<longleftrightarrow> (8 :: u8) \<le> hw"
  by (simp add: word_le_nat_alt)

lemma rt_byte:
  assumes "i_op i \<in> {X86_OP_ANDB, X86_OP_ORB, X86_OP_MOVZBL}" "encodable i"
  shows "decode (inst_bytes lmap pc i @ rest) = Some (asm_of lmap pc i, rest)"
proof -
  let ?d = "reg_hw_id (o_reg (i_dst i))" and ?s = "reg_hw_id (o_reg (i_src i))"
  have s: "byte_reg (8 \<le> ?d \<or> 8 \<le> ?s) (unat ?s) = Low (unat ?s)"
    using assms by (intro low_byte) (auto simp: encodable_def hw_no_def unat_ge_8 Let_def)
  have d: "byte_reg (8 \<le> ?s \<or> 8 \<le> ?d) (unat ?d) = Low (unat ?d)" if "i_op i \<noteq> X86_OP_MOVZBL"
    using assms that by (intro low_byte) (auto simp: encodable_def hw_no_def unat_ge_8 Let_def)
  have s': "byte_reg (8 \<le> ?s \<or> 8 \<le> ?d) (unat ?s) = Low (unat ?s)" using s by (simp add: disj_commute)
  consider "i_op i = X86_OP_ANDB" | "i_op i = X86_OP_ORB" | "i_op i = X86_OP_MOVZBL"
    using assms(1) by blast
  then show ?thesis
    by cases (simp_all add: bytes_simps dec_simps rt_defs s s' d)
qed

lemma rt_movb:
  assumes "i_op i = X86_OP_MOVB_IMM" "encodable i"
  shows "decode (inst_bytes lmap pc i @ rest) = Some (asm_of lmap pc i, rest)"
proof -
  let ?d = "reg_hw_id (o_reg (i_dst i))"
  have b: "inst_bytes lmap pc i = rex_bytes False False False (8 \<le> ?d) @ [0xB0 + (?d AND 7), ucast (o_imm (i_src i))]"
    using assms by (simp add: bytes_simps rex_bytes_def)
  have "byte_reg (8 \<le> ?d) (unat ?d) = Low (unat ?d)"
    using assms by (intro low_byte) (simp add: encodable_def hw_no_def)
  then show ?thesis
    using assms by (simp add: b decode_plus_reg decode_1_plus_reg reg_no_hw rt_defs)
qed

lemma rt_set:
  assumes "i_op i = X86_OP_SETCC" "encodable i"
  shows "decode (inst_bytes lmap pc i @ rest) = Some (asm_of lmap pc i, rest)"
  using assms by (auto simp: bytes_simps dec_simps rt_defs dec_more encodable_def low_byte cc_code_def cond_to_opcode_byte_def split: x86_cond_code.splits)


text \<open>
  C5. Every instruction the encoder has a form for is encoded to bytes that decode, whatever
  follows them, to that instruction: the operation, its width, its registers by their hardware
  numbers, its displacements and its immediates.
\<close>

theorem encoding_decodes:
  assumes "encodable inst"
  shows "decode (the (fst (snd (encode_single_instruction_internal inst (Some []) None lmap pc))) @ rest)
    = Some (asm_of lmap pc inst, rest)"
proof -
  have "decode (inst_bytes lmap pc inst @ rest) = Some (asm_of lmap pc inst, rest)"
    using assms
    by (cases "i_op inst"; cases "o_kind (i_src inst) = X86_OPERAND_IMM")
      (simp_all add: rt_push_pop rt_alu rt_reg_rm rt_sse rt_lea rt_movsd rt_rsp rt_cmp_imm rt_unary
        rt_jump rt_mov_imm rt_mov rt_byte rt_movb rt_set encodable_def [of inst] Let_def)
  then show ?thesis by (simp add: encode_internal_eq)
qed


theorem encoding_decodes_witness:
  "decode (the (fst (snd (encode_single_instruction_internal
       (hd (x86_emit_mov_mem_reg [] 8 X86_REG_R12 (- 24) X86_REG_RBX)) (Some []) None None 0))) @ [0xC3])
    = Some (A_reg_rm ''mov'' 64 3 (Mem 12 (- 24)), [0xC3])"
proof -
  let ?i = "hd (x86_emit_mov_mem_reg [] 8 X86_REG_R12 (- 24) X86_REG_RBX)"
  have "encodable ?i"
    by (simp add: enc_simps encodable_def mem_ok_def fits32_def)
  from encoding_decodes [OF this, of None 0 "[0xC3]"] show ?thesis
    by (simp add: asm_of_def operand_of_def hw_no_def enc_simps reg_hw_id_def reg_order_defs)
qed

text \<open>
  A condition code set into \<open>spl\<close>, \<open>bpl\<close>, \<open>sil\<close> or \<open>dil\<close> is encoded without the REX prefix that
  names these registers: the bytes set \<open>ah\<close>, \<open>ch\<close>, \<open>dh\<close> or \<open>bh\<close> instead.
\<close>

theorem setcc_without_rex_sets_high_byte:
  assumes "i_op inst = X86_OP_SETCC" "o_reg (i_dst inst) \<in> {X86_REG_RSP, X86_REG_RBP, X86_REG_RSI, X86_REG_RDI}"
  shows "decode (the (fst (snd (encode_single_instruction_internal inst (Some []) None lmap pc))) @ rest)
    = Some (A_set (cc_code (i_cond inst)) (High (hw_no (i_dst inst) - 4)), rest)"
proof -
  let ?hw = "reg_hw_id (o_reg (i_dst inst))"
  from assms(2) have hw: "\<not> 8 \<le> ?hw" "4 \<le> unat ?hw" "unat ?hw < 8"
    by (auto simp: reg_hw_id_def reg_order_defs)
  have "byte_reg (8 \<le> ?hw) (unat ?hw) = High (unat ?hw - 4)"
    using hw by (simp add: byte_reg_def)
  moreover have "cond_to_opcode_byte c AND 0xF0 = 0x90" "unat (cond_to_opcode_byte c AND 0x0F) = cc_code c" for c
    by (cases c; simp add: cond_to_opcode_byte_def cc_code_def)+
  ultimately show ?thesis
    using assms(1) by (simp add: encode_internal_eq bytes_simps dec_simps dec_more hw_no_def)
qed

theorem setcc_without_rex_sets_high_byte_witness:
  "decode (the (fst (snd (encode_single_instruction_internal
       (hd (x86_emit_setcc [] X86_CC_L X86_REG_RSI)) (Some []) None None 0))) @ [])
    = Some (A_set (cc_code X86_CC_L) (High 2), [])"
  using setcc_without_rex_sets_high_byte [of "hd (x86_emit_setcc [] X86_CC_L X86_REG_RSI)" None 0 "[]"]
  by (simp add: enc_simps hw_no_def reg_hw_id_def reg_order_defs)

end
