(* ===== verification/X86_Peephole.thy ===== *)
theory X86_Peephole
  imports X86_Instr
begin

text \<open>
  The peephole optimiser and the assembly printer of \<open>src/backend/x86_64/x86_64_instr.c\<close>. The
  walk over the linked list is a recursion over the list; its rules look only forward, so the
  instructions already passed need no place in the state. Every rule returns the list and
  whether it changed something.
\<close>

section \<open>Rules\<close>

definition is_move :: "x86_instr \<Rightarrow> bool" where
  "is_move i \<longleftrightarrow> i_op i = X86_OP_MOV \<or> i_op i = X86_OP_MOVSD"

text \<open>1: a move of a register to itself.\<close>

definition redundant_move :: "x86_instr \<Rightarrow> bool" where
  "redundant_move i \<longleftrightarrow> is_move i \<and> o_kind (i_dst i) = X86_OPERAND_REG \<and> o_kind (i_src i) = X86_OPERAND_REG \<and>
     o_reg (i_dst i) = o_reg (i_src i) \<and> o_size (i_dst i) = o_size (i_src i)"

text \<open>2: a move of zero into a register.\<close>

definition zero_move :: "x86_instr \<Rightarrow> bool" where
  "zero_move i \<longleftrightarrow> i_op i = X86_OP_MOV \<and> o_kind (i_dst i) = X86_OPERAND_REG \<and>
     (o_size (i_dst i) = 4 \<or> o_size (i_dst i) = 8) \<and> o_kind (i_src i) = X86_OPERAND_IMM \<and> o_imm (i_src i) = 0"

definition to_xor :: "x86_instr \<Rightarrow> x86_instr" where
  "to_xor i = i\<lparr>i_op := X86_OP_XOR, i_dst := (i_dst i)\<lparr>o_size := 4\<rparr>,
     i_src := (i_src i)\<lparr>o_kind := X86_OPERAND_REG, o_reg := o_reg (i_dst i), o_size := 4\<rparr>\<rparr>"

text \<open>3: a store followed by the load of the same place into the same register.\<close>

definition reload_of_store :: "x86_instr \<Rightarrow> x86_instr \<Rightarrow> bool" where
  "reload_of_store c n \<longleftrightarrow>
     is_move c \<and> o_kind (i_dst c) = X86_OPERAND_MEM_BASE \<and> o_kind (i_src c) = X86_OPERAND_REG \<and>
     is_move n \<and> o_kind (i_dst n) = X86_OPERAND_REG \<and> o_kind (i_src n) = X86_OPERAND_MEM_BASE \<and>
     o_reg (i_dst c) = o_reg (i_src n) \<and> o_imm (i_dst c) = o_imm (i_src n) \<and>
     o_reg (i_src c) = o_reg (i_dst n) \<and> o_size (i_dst c) = o_size (i_src n)"

definition same_symbol :: "x86_operand \<Rightarrow> x86_operand \<Rightarrow> bool" where
  "same_symbol a b \<longleftrightarrow> o_symbol a \<noteq> None \<and> o_symbol a = o_symbol b"

text \<open>4: a jump to the label that follows.\<close>

definition jump_to_next :: "x86_instr \<Rightarrow> x86_instr \<Rightarrow> bool" where
  "jump_to_next c n \<longleftrightarrow> i_op c = X86_OP_JMP \<and> i_op n = X86_OP_LABEL \<and>
     o_kind (i_dst c) = X86_OPERAND_LABEL \<and> o_kind (i_dst n) = X86_OPERAND_LABEL \<and>
     same_symbol (i_dst c) (i_dst n)"

text \<open>5: a conditional branch over a jump.\<close>

definition branch_over_jump :: "x86_instr \<Rightarrow> x86_instr \<Rightarrow> x86_instr \<Rightarrow> bool" where
  "branch_over_jump c n l \<longleftrightarrow> (i_op c = X86_OP_JNE \<or> i_op c = X86_OP_JE) \<and> i_op n = X86_OP_JMP \<and>
     i_op l = X86_OP_LABEL \<and> o_kind (i_dst c) = X86_OPERAND_LABEL \<and> o_kind (i_dst n) = X86_OPERAND_LABEL \<and>
     o_kind (i_dst l) = X86_OPERAND_LABEL \<and> o_symbol (i_dst n) \<noteq> None \<and> same_symbol (i_dst c) (i_dst l)"

definition inverted :: "x86_instr \<Rightarrow> x86_instr \<Rightarrow> x86_instr" where
  "inverted c n = c\<lparr>i_op := (if i_op c = X86_OP_JNE then X86_OP_JE else X86_OP_JNE),
     i_dst := (i_dst c)\<lparr>o_symbol := o_symbol (i_dst n)\<rparr>\<rparr>"

section \<open>One pass\<close>

definition rewrite_zero :: "x86_instr \<Rightarrow> x86_instr \<times> bool" where
  "rewrite_zero c = (if zero_move c then (to_xor c, True) else (c, False))"

definition drop_reload :: "x86_instr \<Rightarrow> x86_instr list \<Rightarrow> x86_instr list \<times> bool" where
  "drop_reload c rest = (case rest of n # rest' \<Rightarrow> if reload_of_store c n then (rest', True) else (rest, False)
     | [] \<Rightarrow> (rest, False))"

lemma length_drop_reload: "(ys, d) = drop_reload c rest \<Longrightarrow> length ys \<le> length rest"
  by (auto simp: drop_reload_def split: list.splits if_splits)

function peep :: "x86_instr list \<Rightarrow> x86_instr list \<times> bool" where
  "peep [] = ([], False)"
| "peep (c # rest) =
     (if redundant_move c then (fst (peep rest), True)
      else
        let (c, zeroed) = rewrite_zero c;
            (rest, dropped) = drop_reload c rest;
            touched = zeroed \<or> dropped
        in case rest of
             [] \<Rightarrow> ([c], touched)
           | n # rest' \<Rightarrow>
               if jump_to_next c n then (fst (peep rest), True)
               else
                 (case rest' of
                    l # rest'' \<Rightarrow>
                      if branch_over_jump c n l then (inverted c n # fst (peep rest'), True)
                      else (c # fst (peep rest), touched \<or> snd (peep rest))
                  | [] \<Rightarrow> (c # fst (peep rest), touched \<or> snd (peep rest))))"
  by pat_completeness auto

termination
  by (relation "measure length") (auto dest!: length_drop_reload)

section \<open>Jump chains\<close>

text \<open>6: at most 64 labels that stand before a jump, and where the jump goes.\<close>

fun jump_aliases :: "nat \<Rightarrow> x86_instr list \<Rightarrow> (string \<times> string) list" where
  "jump_aliases 0 xs = []"
| "jump_aliases (Suc k) (l # j # xs) =
     (case (o_symbol (i_dst l), o_symbol (i_dst j)) of
        (Some a, Some b) \<Rightarrow>
          if i_op l = X86_OP_LABEL \<and> i_op j = X86_OP_JMP \<and> a \<noteq> b
          then (snprintf_buf 128 a, snprintf_buf 128 b) # jump_aliases k (j # xs)
          else jump_aliases (Suc k) (j # xs)
      | _ \<Rightarrow> jump_aliases (Suc k) (j # xs))"
| "jump_aliases (Suc k) xs = []"

definition retarget :: "(string \<times> string) list \<Rightarrow> x86_instr \<Rightarrow> x86_instr \<times> bool" where
  "retarget aliases i =
     (case o_symbol (i_dst i) of
        Some s \<Rightarrow>
          if (i_op i = X86_OP_JMP \<or> i_op i = X86_OP_JE \<or> i_op i = X86_OP_JNE) \<and> o_kind (i_dst i) = X86_OPERAND_LABEL
          then (case List.find (\<lambda>(a, b). s = a) aliases of
                  Some (a, b) \<Rightarrow> (i\<lparr>i_dst := (i_dst i)\<lparr>o_symbol := Some b\<rparr>\<rparr>, True)
                | None \<Rightarrow> (i, False))
          else (i, False)
      | None \<Rightarrow> (i, False))"

definition collapse_chains :: "x86_instr list \<Rightarrow> x86_instr list \<times> bool" where
  "collapse_chains xs = (let rs = map (retarget (jump_aliases 64 xs)) xs in (map fst rs, list_ex snd rs))"

section \<open>The optimiser\<close>

fun optimize_rounds :: "nat \<Rightarrow> x86_instr list \<Rightarrow> x86_instr list" where
  "optimize_rounds 0 xs = xs"
| "optimize_rounds (Suc k) xs =
     (let (ys, c1) = peep xs; (zs, c2) = collapse_chains ys
      in if c1 \<or> c2 then optimize_rounds k zs else zs)"

definition x86_instr_list_optimize :: "x86_instr_list \<Rightarrow> x86_instr_list" where
  "x86_instr_list_optimize xs = optimize_rounds 4 xs"

section \<open>Assembly text\<close>

text \<open>A missing symbol prints as the C library prints a null string.\<close>

definition sym_str :: "x86_operand \<Rightarrow> string" where
  "sym_str opd = (case o_symbol opd of Some s \<Rightarrow> s | None \<Rightarrow> ''(null)'')"

definition imm_str :: "x86_operand \<Rightarrow> string" where
  "imm_str opd = decimal_int (sint (o_imm opd))"

definition cond_to_str :: "x86_cond_code \<Rightarrow> string" where
  "cond_to_str c = (case c of X86_CC_E \<Rightarrow> ''sete'' | X86_CC_NE \<Rightarrow> ''setne'' | X86_CC_L \<Rightarrow> ''setl'' | X86_CC_LE \<Rightarrow> ''setle''
     | X86_CC_G \<Rightarrow> ''setg'' | X86_CC_GE \<Rightarrow> ''setge'' | X86_CC_B \<Rightarrow> ''setb'' | X86_CC_BE \<Rightarrow> ''setbe''
     | X86_CC_A \<Rightarrow> ''seta'' | X86_CC_AE \<Rightarrow> ''setae'' | X86_CC_P \<Rightarrow> ''setp'' | X86_CC_NP \<Rightarrow> ''setnp'')"

definition asm_line :: "string \<Rightarrow> string" where
  "asm_line s = snprintf_buf 2048 (''    '' @ s @ [CHR 0x0A])"

definition asm_rr :: "string \<Rightarrow> int \<Rightarrow> int \<Rightarrow> x86_instr \<Rightarrow> string" where
  "asm_rr mnem s d i =
     asm_line (mnem @ '' '' @ x86_reg_to_str (o_reg (i_src i)) s @ '', '' @ x86_reg_to_str (o_reg (i_dst i)) d)"

definition asm_mem :: "x86_operand \<Rightarrow> string" where
  "asm_mem opd = imm_str opd @ ''('' @ x86_reg_to_str (o_reg opd) 8 @ '')''"

definition asm_lea :: "x86_instr \<Rightarrow> string" where
  "asm_lea i =
     (if o_kind (i_src i) = X86_OPERAND_MEM_BASE
      then asm_line (''leaq '' @ asm_mem (i_src i) @ '', '' @ x86_reg_to_str (o_reg (i_dst i)) 8)
      else if o_kind (i_src i) = X86_OPERAND_MEM_RIP
      then asm_line (''leaq '' @ sym_str (i_src i) @ ''(%rip), '' @ x86_reg_to_str (o_reg (i_dst i)) 8)
      else [])"

definition asm_mov :: "x86_instr \<Rightarrow> string" where
  "asm_mov i =
     (let d = i_dst i; s = i_src i;
          q = o_size d = 8 \<or> o_size s = 8;
          mnem = (if q then ''movq '' else ''movl ''); sz = (if q then 8 else 4)
      in if o_kind s = X86_OPERAND_IMM
         then asm_line (mnem @ ''$'' @ imm_str s @ '', '' @ x86_reg_to_str (o_reg d) sz)
         else if o_kind s = X86_OPERAND_REG \<and> o_kind d = X86_OPERAND_REG
         then asm_line (mnem @ x86_reg_to_str (o_reg s) sz @ '', '' @ x86_reg_to_str (o_reg d) sz)
         else if o_kind s = X86_OPERAND_MEM_BASE
         then asm_line (mnem @ asm_mem s @ '', '' @ x86_reg_to_str (o_reg d) sz)
         else if o_kind d = X86_OPERAND_MEM_BASE
         then asm_line (mnem @ x86_reg_to_str (o_reg s) sz @ '', '' @ asm_mem d)
         else if o_kind s = X86_OPERAND_MEM_RIP
         then asm_line (''movq '' @ sym_str s @ ''(%rip), '' @ x86_reg_to_str (o_reg d) 8)
         else [])"

definition asm_movsd :: "x86_instr \<Rightarrow> string" where
  "asm_movsd i =
     (let d = i_dst i; s = i_src i
      in if o_kind s = X86_OPERAND_REG \<and> o_kind d = X86_OPERAND_REG then asm_rr ''movsd'' 8 8 i
         else if o_kind s = X86_OPERAND_MEM_BASE
         then asm_line (''movsd '' @ asm_mem s @ '', '' @ x86_reg_to_str (o_reg d) 8)
         else if o_kind d = X86_OPERAND_MEM_BASE
         then asm_line (''movsd '' @ x86_reg_to_str (o_reg s) 8 @ '', '' @ asm_mem d)
         else if o_kind s = X86_OPERAND_MEM_RIP
         then asm_line (''movsd '' @ sym_str s @ ''(%rip), '' @ x86_reg_to_str (o_reg d) 8)
         else [])"

definition asm_instr :: "x86_instr \<Rightarrow> string" where
  "asm_instr i =
     (case i_op i of
        X86_OP_LABEL \<Rightarrow> snprintf_buf 2048 (sym_str (i_dst i) @ '':'' @ [CHR 0x0A])
      | X86_OP_PUSH \<Rightarrow> asm_line (''pushq '' @ x86_reg_to_str (o_reg (i_dst i)) 8)
      | X86_OP_POP \<Rightarrow> asm_line (''popq '' @ x86_reg_to_str (o_reg (i_dst i)) 8)
      | X86_OP_RET \<Rightarrow> asm_line ''ret''
      | X86_OP_SUB_IMM \<Rightarrow> asm_line (''subq $'' @ imm_str (i_src i) @ '', %rsp'')
      | X86_OP_ADD_IMM \<Rightarrow> asm_line (''addq $'' @ imm_str (i_src i) @ '', %rsp'')
      | X86_OP_LEA \<Rightarrow> asm_lea i
      | X86_OP_MOV \<Rightarrow> asm_mov i
      | X86_OP_MOVB_IMM \<Rightarrow> asm_line (''movb $'' @ decimal (unat (ucast (o_imm (i_src i)) :: u8)) @ '', '' @
          x86_reg_to_str (o_reg (i_dst i)) 1)
      | X86_OP_MOVSLQ \<Rightarrow> asm_rr ''movslq'' 4 8 i
      | X86_OP_MOVZBL \<Rightarrow> asm_rr ''movzbl'' 1 4 i
      | X86_OP_CMOVE \<Rightarrow> asm_rr ''cmoveq'' 8 8 i
      | X86_OP_ADD \<Rightarrow> asm_rr ''addl'' 4 4 i
      | X86_OP_SUB \<Rightarrow> asm_rr ''subl'' 4 4 i
      | X86_OP_IMUL \<Rightarrow> asm_rr ''imull'' 4 4 i
      | X86_OP_IDIV \<Rightarrow> asm_line (''idivl '' @ x86_reg_to_str (o_reg (i_src i)) 4)
      | X86_OP_CLTD \<Rightarrow> asm_line ''cltd''
      | X86_OP_NEG \<Rightarrow> asm_line (''negl '' @ x86_reg_to_str (o_reg (i_dst i)) 4)
      | X86_OP_AND \<Rightarrow> asm_rr ''andl'' 4 4 i
      | X86_OP_OR \<Rightarrow> asm_rr ''orl'' 4 4 i
      | X86_OP_XOR \<Rightarrow> asm_rr ''xorl'' 4 4 i
      | X86_OP_CMP \<Rightarrow> asm_rr ''cmpl'' 4 4 i
      | X86_OP_CMP_IMM \<Rightarrow> asm_line (''cmpl $'' @ imm_str (i_src i) @ '', '' @ x86_reg_to_str (o_reg (i_dst i)) 4)
      | X86_OP_SETCC \<Rightarrow> asm_line (cond_to_str (i_cond i) @ '' '' @ x86_reg_to_str (o_reg (i_dst i)) 1)
      | X86_OP_ANDB \<Rightarrow> asm_rr ''andb'' 1 1 i
      | X86_OP_ORB \<Rightarrow> asm_rr ''orb'' 1 1 i
      | X86_OP_JMP \<Rightarrow> asm_line (''jmp '' @ sym_str (i_src i))
      | X86_OP_JNE \<Rightarrow> asm_line (''jne '' @ sym_str (i_src i))
      | X86_OP_JE \<Rightarrow> asm_line (''je '' @ sym_str (i_src i))
      | X86_OP_CALL \<Rightarrow> asm_line (''call '' @ sym_str (i_src i))
      | X86_OP_MOVSD \<Rightarrow> asm_movsd i
      | X86_OP_ADDSD \<Rightarrow> asm_rr ''addsd'' 8 8 i
      | X86_OP_SUBSD \<Rightarrow> asm_rr ''subsd'' 8 8 i
      | X86_OP_MULSD \<Rightarrow> asm_rr ''mulsd'' 8 8 i
      | X86_OP_DIVSD \<Rightarrow> asm_rr ''divsd'' 8 8 i
      | X86_OP_XORPD \<Rightarrow> asm_rr ''xorpd'' 8 8 i
      | X86_OP_UCOMISD \<Rightarrow> asm_rr ''ucomisd'' 8 8 i)"

definition x86_instr_list_to_asm :: "x86_instr_list \<Rightarrow> string" where
  "x86_instr_list_to_asm xs = concat (map asm_instr xs)"

end
