(* ===== verification/X86_Codegen.thy ===== *)
theory X86_Codegen
  imports X86_Frame X86_Peephole
begin

text \<open>
  The code generator of \<open>src/backend/x86_64/x86_64_codegen.c\<close>: constant pools, labels, the lowering
  of values and of every instruction, the block order for profiles, and whole functions. The
  global pools are part of the state. Dereferencing a null operand, which the verifier excludes,
  is the error \<open>Null_Operand\<close>.
\<close>

section \<open>State\<close>

record codegen =
  cg_list :: x86_instr_list
  cg_strings :: "(nat \<times> string) list"
  cg_floats :: "(nat \<times> u64) list"

datatype gen_error = Unsupported string | Null_Operand

type_synonym gen_result = "gen_error + codegen"

definition emit :: "(x86_instr_list \<Rightarrow> x86_instr_list) \<Rightarrow> codegen \<Rightarrow> codegen" where
  "emit g cg = cg\<lparr>cg_list := g (cg_list cg)\<rparr>"

text \<open>The number of a constant: its position, counted from the first one added.\<close>

definition get_or_add_string :: "string \<Rightarrow> codegen \<Rightarrow> nat \<times> codegen" where
  "get_or_add_string t cg =
     (case List.find (\<lambda>s. snd s = t) (cg_strings cg) of
        Some s \<Rightarrow> (fst s, cg)
      | None \<Rightarrow> let n = length (cg_strings cg) in (n, cg\<lparr>cg_strings := (n, t) # cg_strings cg\<rparr>))"

definition get_or_add_float :: "u64 \<Rightarrow> codegen \<Rightarrow> nat \<times> codegen" where
  "get_or_add_float bits cg =
     (case List.find (\<lambda>f. snd f = bits) (cg_floats cg) of
        Some f \<Rightarrow> (fst f, cg)
      | None \<Rightarrow> let n = length (cg_floats cg) in (n, cg\<lparr>cg_floats := (n, bits) # cg_floats cg\<rparr>))"

definition clear_strings :: "codegen \<Rightarrow> codegen" where
  "clear_strings cg = cg\<lparr>cg_strings := []\<rparr>"

definition clear_floats :: "codegen \<Rightarrow> codegen" where
  "clear_floats cg = cg\<lparr>cg_floats := []\<rparr>"

definition str_symbol :: "nat \<Rightarrow> string" where
  "str_symbol n = snprintf_buf 64 (''.LC_str_'' @ decimal n)"

definition float_symbol :: "nat \<Rightarrow> string" where
  "float_symbol n = snprintf_buf 64 (''.LC_float_'' @ decimal n)"

section \<open>Labels\<close>

definition is_label_char :: "char \<Rightarrow> bool" where
  "is_label_char c \<longleftrightarrow> (let n = of_char c :: nat in
     48 \<le> n \<and> n \<le> 57 \<or> 65 \<le> n \<and> n \<le> 90 \<or> 97 \<le> n \<and> n \<le> 122 \<or> c = CHR ''_'')"

definition sanitize_label :: "string \<Rightarrow> nat \<Rightarrow> string" where
  "sanitize_label s max_len = map (\<lambda>c. if is_label_char c then c else CHR ''_'') (take (max_len - 1) s)"

definition block_symbol :: "string \<Rightarrow> string \<Rightarrow> string" where
  "block_symbol fname bname = snprintf_buf 256 (''.L_'' @ fname @ ''_'' @ sanitize_label bname 128)"

definition epilogue_symbol :: "string \<Rightarrow> string" where
  "epilogue_symbol fname = snprintf_buf 256 (''.L_'' @ fname @ ''_epilogue'')"

definition target_name :: "ir_function \<Rightarrow> nat option \<Rightarrow> string \<Rightarrow> string" where
  "target_name f t dflt = (case t of Some b \<Rightarrow> bb_name (block_at f b) | None \<Rightarrow> dflt)"

section \<open>Values\<close>

definition INT_ARG_REGS :: "x86_reg list" where
  "INT_ARG_REGS = [X86_REG_RDI, X86_REG_RSI, X86_REG_RDX, X86_REG_RCX, X86_REG_R8, X86_REG_R9]"

definition FLOAT_ARG_REGS :: "x86_reg list" where
  "FLOAT_ARG_REGS = [X86_REG_XMM0, X86_REG_XMM1, X86_REG_XMM2, X86_REG_XMM3, X86_REG_XMM4,
     X86_REG_XMM5, X86_REG_XMM6, X86_REG_XMM7]"

definition wide_type :: "ir_type \<Rightarrow> bool" where
  "wide_type ty \<longleftrightarrow> ir_kind ty = IR_TYPE_PTR \<or> ir_kind ty = IR_TYPE_I64"

definition is_val_64 :: "ir_value option \<Rightarrow> bool" where
  "is_val_64 v = (case v of Some w \<Rightarrow> wide_type (v_type w) | None \<Rightarrow> False)"

definition is_val_float :: "ir_value option \<Rightarrow> bool" where
  "is_val_float v = (case v of Some w \<Rightarrow> ir_kind (v_type w) = IR_TYPE_F64 | None \<Rightarrow> False)"

definition get_val_phys_reg :: "frame \<Rightarrow> ir_value option \<Rightarrow> x86_reg" where
  "get_val_phys_reg fr v =
     (case (fr_regalloc fr, v) of
        (Some ra, Some w) \<Rightarrow> if v_kind w = IR_VAL_REG then regalloc_get_phys_reg ra (v_id w) else X86_REG_NONE
      | _ \<Rightarrow> X86_REG_NONE)"

definition slot_of :: "frame \<Rightarrow> ir_value \<Rightarrow> 32 word option" where
  "slot_of fr v = map_option (\<lambda>(off, sz). of_int off) (x86_frame_get_offset fr v)"

definition load_float_slot :: "frame \<Rightarrow> ir_value \<Rightarrow> x86_reg \<Rightarrow> codegen \<Rightarrow> codegen" where
  "load_float_slot fr v target =
     (case slot_of fr v of
        Some off \<Rightarrow> emit (\<lambda>l. x86_emit_movsd_mem_reg l X86_REG_RBP off target)
      | None \<Rightarrow> emit (\<lambda>l. x86_emit_xorpd l target target))"

definition load_float :: "frame \<Rightarrow> ir_value \<Rightarrow> x86_reg \<Rightarrow> codegen \<Rightarrow> codegen" where
  "load_float fr v target cg =
     (case v_kind v of
        IR_VAL_CONST_FLOAT bits \<Rightarrow>
          (case get_or_add_float bits cg of
             (n, cg) \<Rightarrow> emit (\<lambda>l. x86_emit_movsd_rip_reg l (float_symbol n) target) cg)
      | IR_VAL_REG \<Rightarrow>
          let src = get_val_phys_reg fr (Some v)
          in if src \<noteq> X86_REG_NONE
             then (if src \<noteq> target then emit (\<lambda>l. x86_emit_movsd_reg_reg l src target) cg else cg)
             else load_float_slot fr v target cg
      | IR_VAL_PARAM \<Rightarrow> load_float_slot fr v target cg
      | IR_VAL_VAR \<Rightarrow> load_float_slot fr v target cg
      | _ \<Rightarrow> emit (\<lambda>l. x86_emit_xorpd l target target) cg)"

definition load_int_slot :: "frame \<Rightarrow> ir_value \<Rightarrow> int \<Rightarrow> x86_reg \<Rightarrow> codegen \<Rightarrow> codegen" where
  "load_int_slot fr v sz target =
     (case slot_of fr v of
        Some off \<Rightarrow> emit (\<lambda>l. x86_emit_mov_mem_reg l sz X86_REG_RBP off target)
      | None \<Rightarrow> emit (\<lambda>l. x86_emit_mov_imm_reg l sz 0 target))"

definition load_int :: "frame \<Rightarrow> ir_value \<Rightarrow> x86_reg \<Rightarrow> codegen \<Rightarrow> codegen" where
  "load_int fr v target cg =
     (let sz = (if is_val_64 (Some v) then 8 else 4) in
      case v_kind v of
        IR_VAL_CONST_INT n \<Rightarrow> emit (\<lambda>l. x86_emit_mov_imm_reg l sz n target) cg
      | IR_VAL_CONST_BOOL b \<Rightarrow> emit (\<lambda>l. x86_emit_mov_imm_reg l 4 (if b then 1 else 0) target) cg
      | IR_VAL_CONST_CHAR c \<Rightarrow> emit (\<lambda>l. x86_emit_mov_imm_reg l 4 (scast (of_char c :: u8)) target) cg
      | IR_VAL_CONST_STRING s \<Rightarrow>
          (case get_or_add_string (case s of Some t \<Rightarrow> t | None \<Rightarrow> '''') cg of
             (n, cg) \<Rightarrow> emit (\<lambda>l. x86_emit_lea_rip l (str_symbol n) target) cg)
      | IR_VAL_VAR \<Rightarrow>
          (case slot_of fr v of
             Some off \<Rightarrow> emit (\<lambda>l. x86_emit_lea_mem l X86_REG_RBP off target) cg
           | None \<Rightarrow> emit (\<lambda>l. x86_emit_mov_imm_reg l 8 0 target) cg)
      | IR_VAL_REG \<Rightarrow>
          let src = get_val_phys_reg fr (Some v)
          in if src \<noteq> X86_REG_NONE
             then (if src \<noteq> target then emit (\<lambda>l. x86_emit_mov_reg_reg l sz src target) cg else cg)
             else load_int_slot fr v sz target cg
      | IR_VAL_PARAM \<Rightarrow> load_int_slot fr v sz target cg
      | IR_VAL_GLOBAL \<Rightarrow>
          emit (\<lambda>l. x86_emit_mov_rip_reg l (case v_name v of Some s \<Rightarrow> s | None \<Rightarrow> ''global'') target) cg
      | _ \<Rightarrow> emit (\<lambda>l. x86_emit_mov_imm_reg l sz 0 target) cg)"

definition emit_load_val :: "frame \<Rightarrow> ir_value option \<Rightarrow> x86_reg \<Rightarrow> codegen \<Rightarrow> codegen" where
  "emit_load_val fr v target cg =
     (case v of
        None \<Rightarrow> emit (\<lambda>l. x86_emit_mov_imm_reg l 4 0 target) cg
      | Some w \<Rightarrow> if is_val_float v then load_float fr w target cg else load_int fr w target cg)"

text \<open>The slot a register of the allocation is saved in, if it has one.\<close>

definition saved_slot :: "frame \<Rightarrow> nat \<Rightarrow> 32 word option" where
  "saved_slot fr r =
     (case fr_regalloc fr of
        Some ra \<Rightarrow>
          if r < ra_total ra \<and> li_offset (ra_intervals ra ! r) \<noteq> 0
          then Some (of_int (li_offset (ra_intervals ra ! r))) else None
      | None \<Rightarrow> None)"

definition store_float :: "x86_reg \<Rightarrow> 32 word \<Rightarrow> codegen \<Rightarrow> codegen" where
  "store_float src off = emit (\<lambda>l. x86_emit_movsd_reg_mem l src X86_REG_RBP off)"

definition store_int :: "int \<Rightarrow> x86_reg \<Rightarrow> 32 word \<Rightarrow> codegen \<Rightarrow> codegen" where
  "store_int sz src off = emit (\<lambda>l. x86_emit_mov_reg_mem l sz src X86_REG_RBP off)"

definition store_to_slot :: "(32 word \<Rightarrow> codegen \<Rightarrow> codegen) \<Rightarrow> 32 word option \<Rightarrow> codegen \<Rightarrow> codegen" where
  "store_to_slot st off = (case off of Some d \<Rightarrow> st d | None \<Rightarrow> id)"

definition emit_store_result :: "frame \<Rightarrow> ir_value option \<Rightarrow> x86_reg \<Rightarrow> codegen \<Rightarrow> codegen" where
  "emit_store_result fr dst src cg =
     (case dst of
        None \<Rightarrow> cg
      | Some w \<Rightarrow>
          let float = is_val_float dst;
              sz = (if is_val_64 dst then 8 else 4);
              move = (\<lambda>d. if float then emit (\<lambda>l. x86_emit_movsd_reg_reg l src d)
                          else emit (\<lambda>l. x86_emit_mov_reg_reg l sz src d));
              store = (\<lambda>r. if float then store_float r else store_int sz r)
          in case v_kind w of
               IR_VAL_REG \<Rightarrow>
                 let d = get_val_phys_reg fr dst
                 in if d \<noteq> X86_REG_NONE
                    then store_to_slot (store d) (saved_slot fr (v_id w)) (if src \<noteq> d then move d cg else cg)
                    else store_to_slot (store src) (slot_of fr w) cg
             | IR_VAL_VAR \<Rightarrow> store_to_slot (store src) (slot_of fr w) cg
             | _ \<Rightarrow> cg)"

definition reload_after_call :: "frame \<Rightarrow> nat \<Rightarrow> live_interval \<Rightarrow> codegen \<Rightarrow> codegen" where
  "reload_after_call fr idx iv cg =
     (if li_phys iv \<noteq> X86_REG_NONE \<and> x86_reg_is_caller_saved (li_phys iv) \<and>
         li_start iv < int idx \<and> li_end iv > int idx \<and> li_offset iv \<noteq> 0
      then (if li_class iv = REG_CLASS_FLOAT
            then emit (\<lambda>l. x86_emit_movsd_mem_reg l X86_REG_RBP (of_int (li_offset iv)) (li_phys iv)) cg
            else emit (\<lambda>l. x86_emit_mov_mem_reg l
                   (case li_type iv of Some ty \<Rightarrow> if wide_type ty then 8 else 4 | None \<Rightarrow> 4)
                   X86_REG_RBP (of_int (li_offset iv)) (li_phys iv)) cg)
      else cg)"

definition reload_caller_saved_after_call :: "frame \<Rightarrow> nat \<Rightarrow> codegen \<Rightarrow> codegen" where
  "reload_caller_saved_after_call fr idx cg =
     (case fr_regalloc fr of
        Some ra \<Rightarrow> fold (\<lambda>v. reload_after_call fr idx (ra_intervals ra ! v)) [0..<ra_total ra] cg
      | None \<Rightarrow> cg)"
section \<open>Instructions\<close>

definition wide_size :: "ir_inst \<Rightarrow> int" where
  "wide_size i = (if wide_type (i_type i) then 8 else 4)"

definition float_inst :: "ir_inst \<Rightarrow> bool" where
  "float_inst i \<longleftrightarrow> ir_kind (i_type i) = IR_TYPE_F64"

definition float_target :: "x86_reg \<Rightarrow> x86_reg" where
  "float_target d = (if d \<noteq> X86_REG_NONE then d else X86_REG_XMM0)"

definition int_target :: "x86_reg \<Rightarrow> x86_reg" where
  "int_target d = (if d \<noteq> X86_REG_NONE then d else X86_REG_RAX)"

text \<open>The end of most cases: to the slot of a spilled result, or a copy for a value that lives across calls.\<close>

definition finish ::
  "frame \<Rightarrow> ir_value option \<Rightarrow> x86_reg \<Rightarrow> (32 word \<Rightarrow> codegen \<Rightarrow> codegen) \<Rightarrow> x86_reg \<Rightarrow> codegen \<Rightarrow> codegen" where
  "finish fr result d st target cg =
     (if d = X86_REG_NONE then emit_store_result fr result target cg
      else (case result of Some w \<Rightarrow> store_to_slot st (saved_slot fr (v_id w)) cg | None \<Rightarrow> cg))"

definition gen_alloca :: "frame \<Rightarrow> ir_inst \<Rightarrow> codegen \<Rightarrow> gen_result" where
  "gen_alloca fr i cg = Inr
     (case i_result i of
        Some w \<Rightarrow>
          (case (v_kind w, slot_of fr w) of
             (IR_VAL_REG, Some off) \<Rightarrow>
               emit_store_result fr (i_result i) X86_REG_RAX
                 (emit (\<lambda>l. x86_emit_lea_mem l X86_REG_RBP off X86_REG_RAX) cg)
           | _ \<Rightarrow> cg)
      | None \<Rightarrow> cg)"

text \<open>The slot of a variable that is loaded from or stored to directly.\<close>

definition var_slot :: "frame \<Rightarrow> ir_value \<Rightarrow> 32 word option" where
  "var_slot fr v = (if v_kind v = IR_VAL_VAR then slot_of fr v else None)"

definition gen_load :: "frame \<Rightarrow> ir_inst \<Rightarrow> codegen \<Rightarrow> gen_result" where
  "gen_load fr i cg =
     (case i_lhs i of
        None \<Rightarrow> Inl Null_Operand
      | Some p \<Rightarrow>
          let d = get_val_phys_reg fr (i_result i)
          in if float_inst i
             then let t = float_target d;
                      cg = (case var_slot fr p of
                              Some off \<Rightarrow> emit (\<lambda>l. x86_emit_movsd_mem_reg l X86_REG_RBP off t) cg
                            | None \<Rightarrow> emit (\<lambda>l. x86_emit_movsd_mem_reg l X86_REG_RAX 0 t)
                                (emit_load_val fr (Some p) X86_REG_RAX cg))
                  in Inr (finish fr (i_result i) d (store_float d) t cg)
             else let t = int_target d; sz = wide_size i;
                      cg = (case var_slot fr p of
                              Some off \<Rightarrow> emit (\<lambda>l. x86_emit_mov_mem_reg l sz X86_REG_RBP off t) cg
                            | None \<Rightarrow> emit (\<lambda>l. x86_emit_mov_mem_reg l sz X86_REG_RAX 0 t)
                                (emit_load_val fr (Some p) X86_REG_RAX cg))
                  in Inr (finish fr (i_result i) d (store_int sz d) t cg))"

definition gen_store_float :: "frame \<Rightarrow> ir_value option \<Rightarrow> ir_value \<Rightarrow> codegen \<Rightarrow> codegen" where
  "gen_store_float fr v p cg =
     (let src = get_val_phys_reg fr v;
          cg = (if src = X86_REG_NONE then emit_load_val fr v X86_REG_XMM15 cg else cg);
          src = (if src = X86_REG_NONE then X86_REG_XMM15 else src)
      in case var_slot fr p of
           Some off \<Rightarrow> emit (\<lambda>l. x86_emit_movsd_reg_mem l src X86_REG_RBP off) cg
         | None \<Rightarrow> emit (\<lambda>l. x86_emit_movsd_reg_mem l src X86_REG_RAX 0) (emit_load_val fr (Some p) X86_REG_RAX cg))"

definition gen_store_int :: "frame \<Rightarrow> ir_value option \<Rightarrow> ir_value \<Rightarrow> codegen \<Rightarrow> codegen" where
  "gen_store_int fr v p cg =
     (let sz = (if is_val_64 v then 8 else 4); src = get_val_phys_reg fr v
      in case var_slot fr p of
           Some off \<Rightarrow>
             if src \<noteq> X86_REG_NONE then store_int sz src off cg
             else store_int sz X86_REG_RAX off (emit_load_val fr v X86_REG_RAX cg)
         | None \<Rightarrow>
             let cg = emit_load_val fr (Some p) X86_REG_RAX cg
             in if src \<noteq> X86_REG_NONE then emit (\<lambda>l. x86_emit_mov_reg_mem l sz src X86_REG_RAX 0) cg
                else emit (\<lambda>l. x86_emit_mov_reg_mem l sz X86_REG_RDX X86_REG_RAX 0) (emit_load_val fr v X86_REG_RDX cg))"

definition gen_store :: "frame \<Rightarrow> ir_inst \<Rightarrow> codegen \<Rightarrow> gen_result" where
  "gen_store fr i cg =
     (case i_rhs i of
        None \<Rightarrow> Inl Null_Operand
      | Some p \<Rightarrow> Inr (if is_val_float (i_lhs i) then gen_store_float fr (i_lhs i) p cg
                      else gen_store_int fr (i_lhs i) p cg))"

definition gen_const :: "frame \<Rightarrow> ir_inst \<Rightarrow> codegen \<Rightarrow> gen_result" where
  "gen_const fr i cg =
     (let d = get_val_phys_reg fr (i_result i)
      in if float_inst i
         then let t = float_target d
              in Inr (finish fr (i_result i) d (store_float d) t (emit_load_val fr (i_lhs i) t cg))
         else (case i_lhs i of
             None \<Rightarrow> Inl Null_Operand
           | Some v \<Rightarrow>
               let t = int_target d;
                   cg = (case v_kind v of
                           IR_VAL_CONST_STRING s \<Rightarrow>
                             (case get_or_add_string (case s of Some x \<Rightarrow> x | None \<Rightarrow> '''') cg of
                                (n, cg) \<Rightarrow> emit (\<lambda>l. x86_emit_lea_rip l (str_symbol n) t) cg)
                         | _ \<Rightarrow> emit_load_val fr (Some v) t cg)
               in Inr (finish fr (i_result i) d (store_int (wide_size i) d) t cg)))"

text \<open>The operand register of a two-operand instruction, loaded into \<open>scratch\<close> unless it can be used in place.\<close>

definition load_rhs :: "frame \<Rightarrow> ir_value option \<Rightarrow> x86_reg \<Rightarrow> x86_reg \<Rightarrow> codegen \<Rightarrow> x86_reg \<times> codegen" where
  "load_rhs fr v target scratch cg =
     (let r = get_val_phys_reg fr v
      in if r = X86_REG_NONE \<or> r = target then (scratch, emit_load_val fr v scratch cg) else (r, cg))"

definition sse_op :: "ir_opcode \<Rightarrow> x86_reg \<Rightarrow> x86_reg \<Rightarrow> codegen \<Rightarrow> codegen" where
  "sse_op opc src d =
     (if opc = IR_OP_ADD then emit (\<lambda>l. x86_emit_addsd l src d)
      else if opc = IR_OP_SUB then emit (\<lambda>l. x86_emit_subsd l src d)
      else if opc = IR_OP_MUL then emit (\<lambda>l. x86_emit_mulsd l src d)
      else if opc = IR_OP_DIV then emit (\<lambda>l. x86_emit_divsd l src d)
      else id)"

definition gen_float_arith :: "frame \<Rightarrow> ir_inst \<Rightarrow> codegen \<Rightarrow> codegen" where
  "gen_float_arith fr i cg =
     (let d = get_val_phys_reg fr (i_result i); t = float_target d;
          (r, cg) = load_rhs fr (i_rhs i) t X86_REG_XMM15 cg;
          cg = sse_op (ir_inst.i_op i) r t (emit_load_val fr (i_lhs i) t cg)
      in finish fr (i_result i) d (store_float d) t cg)"

definition gen_division :: "frame \<Rightarrow> ir_inst \<Rightarrow> x86_reg \<Rightarrow> codegen \<Rightarrow> codegen" where
  "gen_division fr i outcome cg =
     (let cg = emit x86_emit_cltd (emit_load_val fr (i_lhs i) X86_REG_RAX cg);
          cg = emit (\<lambda>l. x86_emit_idiv l X86_REG_RCX) (emit_load_val fr (i_rhs i) X86_REG_RCX cg)
      in emit_store_result fr (i_result i) outcome cg)"

definition int_op :: "ir_opcode \<Rightarrow> x86_reg \<Rightarrow> x86_reg \<Rightarrow> codegen \<Rightarrow> codegen" where
  "int_op opc src d =
     (if opc = IR_OP_ADD then emit (\<lambda>l. x86_emit_add l src d)
      else if opc = IR_OP_SUB then emit (\<lambda>l. x86_emit_sub l src d)
      else if opc = IR_OP_MUL then emit (\<lambda>l. x86_emit_imul l src d)
      else if opc = IR_OP_AND then emit (\<lambda>l. x86_emit_and l src d)
      else if opc = IR_OP_OR then emit (\<lambda>l. x86_emit_or l src d)
      else id)"

definition gen_int_arith :: "frame \<Rightarrow> ir_inst \<Rightarrow> codegen \<Rightarrow> codegen" where
  "gen_int_arith fr i cg =
     (let d = get_val_phys_reg fr (i_result i); t = int_target d;
          (r, cg) = load_rhs fr (i_rhs i) t X86_REG_RDX cg;
          cg = int_op (ir_inst.i_op i) r t (emit_load_val fr (i_lhs i) t cg)
      in finish fr (i_result i) d (store_int 4 d) t cg)"

definition gen_arith :: "frame \<Rightarrow> ir_inst \<Rightarrow> codegen \<Rightarrow> gen_result" where
  "gen_arith fr i cg = Inr
     (if float_inst i then gen_float_arith fr i cg
      else if ir_inst.i_op i = IR_OP_DIV then gen_division fr i X86_REG_RAX cg
      else gen_int_arith fr i cg)"

definition gen_neg :: "frame \<Rightarrow> ir_inst \<Rightarrow> codegen \<Rightarrow> gen_result" where
  "gen_neg fr i cg = Inr
     (let d = get_val_phys_reg fr (i_result i)
      in if float_inst i
         then let t = float_target d;
                  cg = emit_load_val fr (i_lhs i) t cg;
                  cg = emit (\<lambda>l. x86_emit_movsd_rip_reg l ''.LC_neg_float_mask'' X86_REG_XMM15) cg;
                  cg = emit (\<lambda>l. x86_emit_xorpd l X86_REG_XMM15 t) cg
              in finish fr (i_result i) d (store_float d) t cg
         else let t = int_target d;
                  cg = emit (\<lambda>l. x86_emit_neg l t) (emit_load_val fr (i_lhs i) t cg)
              in finish fr (i_result i) d (store_int 4 d) t cg)"

definition setcc :: "x86_cond_code \<Rightarrow> x86_reg \<Rightarrow> codegen \<Rightarrow> codegen" where
  "setcc cc r = emit (\<lambda>l. x86_emit_setcc l cc r)"

definition to_bool :: "x86_reg \<Rightarrow> codegen \<Rightarrow> codegen" where
  "to_bool t = emit (\<lambda>l. x86_emit_movzbl l X86_REG_RAX t)"

definition and_rdx :: "codegen \<Rightarrow> codegen" where
  "and_rdx = emit (\<lambda>l. x86_emit_andb l X86_REG_RDX X86_REG_RAX)"

definition float_outcome :: "ir_opcode \<Rightarrow> x86_reg \<Rightarrow> codegen \<Rightarrow> codegen" where
  "float_outcome opc t cg =
     (if opc = IR_OP_EQ then to_bool t (and_rdx (setcc X86_CC_E X86_REG_RDX (setcc X86_CC_NP X86_REG_RAX cg)))
      else if opc = IR_OP_NE
      then to_bool t (emit (\<lambda>l. x86_emit_orb l X86_REG_RDX X86_REG_RAX)
             (setcc X86_CC_NE X86_REG_RDX (setcc X86_CC_P X86_REG_RAX cg)))
      else if opc = IR_OP_LT then to_bool t (and_rdx (setcc X86_CC_NP X86_REG_RDX (setcc X86_CC_B X86_REG_RAX cg)))
      else if opc = IR_OP_LE then to_bool t (and_rdx (setcc X86_CC_NP X86_REG_RDX (setcc X86_CC_BE X86_REG_RAX cg)))
      else if opc = IR_OP_GT then to_bool t (setcc X86_CC_A X86_REG_RAX cg)
      else if opc = IR_OP_GE then to_bool t (and_rdx (setcc X86_CC_NP X86_REG_RDX (setcc X86_CC_AE X86_REG_RAX cg)))
      else cg)"

definition int_condition :: "ir_opcode \<Rightarrow> x86_cond_code" where
  "int_condition opc =
     (if opc = IR_OP_NE then X86_CC_NE else if opc = IR_OP_LT then X86_CC_L
      else if opc = IR_OP_LE then X86_CC_LE else if opc = IR_OP_GT then X86_CC_G
      else if opc = IR_OP_GE then X86_CC_GE else X86_CC_E)"

definition gen_compare :: "frame \<Rightarrow> ir_inst \<Rightarrow> codegen \<Rightarrow> gen_result" where
  "gen_compare fr i cg = Inr
     (let d = get_val_phys_reg fr (i_result i); t = int_target d
      in if is_val_float (i_lhs i)
         then let cg = emit_load_val fr (i_rhs i) X86_REG_XMM15 (emit_load_val fr (i_lhs i) X86_REG_XMM14 cg);
                  cg = emit (\<lambda>l. x86_emit_ucomisd l X86_REG_XMM15 X86_REG_XMM14) cg
              in finish fr (i_result i) d (store_int 4 d) t (float_outcome (ir_inst.i_op i) t cg)
         else let cg = emit_load_val fr (i_rhs i) X86_REG_RDX (emit_load_val fr (i_lhs i) X86_REG_RAX cg);
                  cg = emit (\<lambda>l. x86_emit_cmp l X86_REG_RDX X86_REG_RAX) cg;
                  cg = to_bool t (setcc (int_condition (ir_inst.i_op i)) X86_REG_RAX cg)
              in finish fr (i_result i) d (store_int 4 d) t cg)"

definition compare_zero :: "codegen \<Rightarrow> codegen" where
  "compare_zero = emit (\<lambda>l. x86_emit_cmp_imm l 0 X86_REG_RAX)"

definition gen_not :: "frame \<Rightarrow> ir_inst \<Rightarrow> codegen \<Rightarrow> gen_result" where
  "gen_not fr i cg = Inr
     (let d = get_val_phys_reg fr (i_result i); t = int_target d;
          cg = compare_zero (emit_load_val fr (i_lhs i) X86_REG_RAX cg);
          cg = to_bool t (setcc X86_CC_E X86_REG_RAX cg)
      in finish fr (i_result i) d (store_int 4 d) t cg)"

definition gen_br :: "frame \<Rightarrow> ir_inst \<Rightarrow> codegen \<Rightarrow> gen_result" where
  "gen_br fr i cg = Inr
     (let f = fr_fn fr
      in emit (\<lambda>l. x86_emit_jmp l (block_symbol (fn_name f) (target_name f (i_true i) ''block''))) cg)"

definition gen_condbr :: "frame \<Rightarrow> ir_inst \<Rightarrow> codegen \<Rightarrow> gen_result" where
  "gen_condbr fr i cg = Inr
     (let f = fr_fn fr;
          cg = compare_zero (emit_load_val fr (i_lhs i) X86_REG_RAX cg);
          cg = emit (\<lambda>l. x86_emit_jne l (block_symbol (fn_name f) (target_name f (i_true i) ''true_bb''))) cg
      in emit (\<lambda>l. x86_emit_jmp l (block_symbol (fn_name f) (target_name f (i_false i) ''false_bb''))) cg)"

definition gen_ret :: "frame \<Rightarrow> ir_inst \<Rightarrow> codegen \<Rightarrow> gen_result" where
  "gen_ret fr i cg = Inr
     (let cg =
        (case i_lhs i of
           Some v \<Rightarrow>
             if is_val_float (Some v) then emit_load_val fr (Some v) X86_REG_XMM0 cg
             else if \<not> is_val_64 (Some v) \<and> (ir_kind (v_type v) = IR_TYPE_BOOL \<or> ir_kind (v_type v) = IR_TYPE_CHAR)
             then to_bool X86_REG_RAX (emit_load_val fr (Some v) X86_REG_RAX cg)
             else emit_load_val fr (Some v) X86_REG_RAX cg
         | None \<Rightarrow> emit (\<lambda>l. x86_emit_mov_imm_reg l 4 0 X86_REG_RAX) cg)
      in emit (\<lambda>l. x86_emit_jmp l (epilogue_symbol (fn_name (fr_fn fr)))) cg)"
section \<open>Calls\<close>

definition float_arg :: "ir_value \<Rightarrow> bool" where
  "float_arg v \<longleftrightarrow> is_val_float (Some v)"

record arg_state =
  as_int :: nat
  as_float :: nat
  as_stack :: nat

definition count_arg :: "ir_value \<Rightarrow> arg_state \<Rightarrow> arg_state" where
  "count_arg a st =
     (if float_arg a
      then (if as_float st < X86_64_MAX_FLOAT_ARG_REGS then st\<lparr>as_float := as_float st + 1\<rparr>
            else st\<lparr>as_stack := as_stack st + 1\<rparr>)
      else (if as_int st < X86_64_MAX_ARG_REGS then st\<lparr>as_int := as_int st + 1\<rparr>
            else st\<lparr>as_stack := as_stack st + 1\<rparr>))"

definition no_args :: arg_state where
  "no_args = \<lparr>as_int = 0, as_float = 0, as_stack = 0\<rparr>"

definition count_args :: "ir_value list \<Rightarrow> arg_state" where
  "count_args args = fold count_arg args no_args"

definition outgoing_bytes :: "nat \<Rightarrow> int" where
  "outgoing_bytes n = (if n > 0 then (int n * 8 + 15) AND (NOT 15) else 0)"

text \<open>Arguments go to a scratch area first: floating-point registers at 0, integer registers at 64, the stack at 128.\<close>

definition stage_arg :: "frame \<Rightarrow> ir_value \<Rightarrow> codegen \<times> arg_state \<Rightarrow> codegen \<times> arg_state" where
  "stage_arg fr a = (\<lambda>(cg, st).
     let st' = count_arg a st;
         off = (if as_stack st' > as_stack st then 128 + int (as_stack st) * 8
                else if float_arg a then int (as_float st) * 8 else 64 + int (as_int st) * 8)
     in if float_arg a
        then (emit (\<lambda>l. x86_emit_movsd_reg_mem l X86_REG_XMM15 X86_REG_RSP (of_int off))
                (emit_load_val fr (Some a) X86_REG_XMM15 cg), st')
        else let cg = emit_load_val fr (Some a) X86_REG_RAX cg;
                 cg = (if is_val_64 (Some a) then cg else emit (\<lambda>l. x86_emit_movslq l X86_REG_RAX X86_REG_RAX) cg)
             in (emit (\<lambda>l. x86_emit_mov_reg_mem l 8 X86_REG_RAX X86_REG_RSP (of_int off)) cg, st'))"

definition load_arg_regs :: "arg_state \<Rightarrow> codegen \<Rightarrow> codegen" where
  "load_arg_regs st cg =
     (let cg = fold (\<lambda>k. emit (\<lambda>l. x86_emit_movsd_mem_reg l X86_REG_RSP (of_int (int k * 8)) (FLOAT_ARG_REGS ! k)))
                 [0..<as_float st] cg
      in fold (\<lambda>k. emit (\<lambda>l. x86_emit_mov_mem_reg l 8 X86_REG_RSP (of_int (64 + int k * 8)) (INT_ARG_REGS ! k)))
           [0..<as_int st] cg)"

definition gen_args :: "frame \<Rightarrow> ir_value list \<Rightarrow> codegen \<Rightarrow> codegen" where
  "gen_args fr args cg =
     (if args \<noteq> []
      then let out = outgoing_bytes (as_stack (count_args args));
               cg = emit (\<lambda>l. x86_emit_sub_imm_rsp l (of_int (128 + out))) cg;
               (cg, st) = fold (stage_arg fr) args (cg, no_args);
               cg = emit (\<lambda>l. x86_emit_add_imm_rsp l 128) (load_arg_regs st cg)
           in emit (\<lambda>l. x86_emit_movb_imm l (of_nat (as_float st)) X86_REG_RAX) cg
      else emit (\<lambda>l. x86_emit_xor l X86_REG_RAX X86_REG_RAX) cg)"

definition gen_call :: "frame \<Rightarrow> ir_inst \<Rightarrow> nat \<Rightarrow> codegen \<Rightarrow> gen_result" where
  "gen_call fr i idx cg = Inr
     (let out = outgoing_bytes (as_stack (count_args (i_args i)));
          cg = gen_args fr (i_args i) cg;
          cg = emit (\<lambda>l. x86_emit_call l (case i_callee i of Some n \<Rightarrow> n | None \<Rightarrow> ''fn'')) cg;
          cg = emit_store_result fr (i_result i)
                 (if is_val_float (i_result i) then X86_REG_XMM0 else X86_REG_RAX) cg;
          cg = (if out > 0 then emit (\<lambda>l. x86_emit_add_imm_rsp l (of_int out)) cg else cg)
      in reload_caller_saved_after_call fr idx cg)"

definition call_printf :: "codegen \<Rightarrow> codegen" where
  "call_printf = emit (\<lambda>l. x86_emit_call l ''printf'')"

definition clear_rax :: "codegen \<Rightarrow> codegen" where
  "clear_rax = emit (\<lambda>l. x86_emit_xor l X86_REG_RAX X86_REG_RAX)"

definition lea :: "string \<Rightarrow> x86_reg \<Rightarrow> codegen \<Rightarrow> codegen" where
  "lea s r = emit (\<lambda>l. x86_emit_lea_rip l s r)"

definition print_value :: "frame \<Rightarrow> ir_value \<Rightarrow> codegen \<Rightarrow> codegen" where
  "print_value fr v cg =
     (if is_val_float (Some v)
      then let cg = lea ''.LC_fmt_float'' X86_REG_RDI (emit_load_val fr (Some v) X86_REG_XMM0 cg)
           in call_printf (emit (\<lambda>l. x86_emit_movb_imm l 1 X86_REG_RAX) cg)
      else if ir_kind (v_type v) = IR_TYPE_BOOL
      then let cg = compare_zero (emit_load_val fr (Some v) X86_REG_RAX cg);
               cg = lea ''.LC_str_false'' X86_REG_RDX (lea ''.LC_str_true'' X86_REG_RAX cg);
               cg = emit (\<lambda>l. x86_emit_cmove l X86_REG_RDX X86_REG_RAX) cg;
               cg = emit (\<lambda>l. x86_emit_mov_reg_reg l 8 X86_REG_RAX X86_REG_RSI) cg
           in call_printf (clear_rax (lea ''.LC_fmt_str'' X86_REG_RDI cg))
      else if (case ir_elem_type (v_type v) of
                 Some e \<Rightarrow> ir_kind (v_type v) = IR_TYPE_PTR \<and> ir_kind e = IR_TYPE_CHAR | None \<Rightarrow> False)
      then call_printf (clear_rax (lea ''.LC_fmt_str'' X86_REG_RDI (emit_load_val fr (Some v) X86_REG_RSI cg)))
      else let cg = emit (\<lambda>l. x86_emit_movslq l X86_REG_RAX X86_REG_RSI) (emit_load_val fr (Some v) X86_REG_RAX cg)
           in call_printf (clear_rax (lea ''.LC_fmt_int'' X86_REG_RDI cg)))"

definition gen_print :: "frame \<Rightarrow> ir_inst \<Rightarrow> nat \<Rightarrow> codegen \<Rightarrow> gen_result" where
  "gen_print fr i idx cg =
     (case i_lhs i of
        None \<Rightarrow> Inl Null_Operand
      | Some v \<Rightarrow> Inr (reload_caller_saved_after_call fr idx (print_value fr v cg)))"

definition gen_dealloc :: "frame \<Rightarrow> ir_inst \<Rightarrow> nat \<Rightarrow> codegen \<Rightarrow> gen_result" where
  "gen_dealloc fr i idx cg = Inr
     (reload_caller_saved_after_call fr idx
        (emit (\<lambda>l. x86_emit_call l ''free'') (emit_load_val fr (i_lhs i) X86_REG_RDI cg)))"

section \<open>Functions\<close>

definition gen_instruction :: "frame \<Rightarrow> ir_inst \<Rightarrow> nat \<Rightarrow> codegen \<Rightarrow> gen_result" where
  "gen_instruction fr i idx cg =
     (case ir_inst.i_op i of
        IR_OP_ALLOCA \<Rightarrow> gen_alloca fr i cg
      | IR_OP_LOAD \<Rightarrow> gen_load fr i cg
      | IR_OP_STORE \<Rightarrow> gen_store fr i cg
      | IR_OP_CONST \<Rightarrow> gen_const fr i cg
      | IR_OP_ADD \<Rightarrow> gen_arith fr i cg
      | IR_OP_SUB \<Rightarrow> gen_arith fr i cg
      | IR_OP_MUL \<Rightarrow> gen_arith fr i cg
      | IR_OP_DIV \<Rightarrow> gen_arith fr i cg
      | IR_OP_MOD \<Rightarrow> Inr (gen_division fr i X86_REG_RDX cg)
      | IR_OP_AND \<Rightarrow> Inr (gen_int_arith fr i cg)
      | IR_OP_OR \<Rightarrow> Inr (gen_int_arith fr i cg)
      | IR_OP_NEG \<Rightarrow> gen_neg fr i cg
      | IR_OP_EQ \<Rightarrow> gen_compare fr i cg
      | IR_OP_NE \<Rightarrow> gen_compare fr i cg
      | IR_OP_LT \<Rightarrow> gen_compare fr i cg
      | IR_OP_LE \<Rightarrow> gen_compare fr i cg
      | IR_OP_GT \<Rightarrow> gen_compare fr i cg
      | IR_OP_GE \<Rightarrow> gen_compare fr i cg
      | IR_OP_NOT \<Rightarrow> gen_not fr i cg
      | IR_OP_BR \<Rightarrow> gen_br fr i cg
      | IR_OP_CONDBR \<Rightarrow> gen_condbr fr i cg
      | IR_OP_RET \<Rightarrow> gen_ret fr i cg
      | IR_OP_CALL \<Rightarrow> gen_call fr i idx cg
      | IR_OP_PRINT \<Rightarrow> gen_print fr i idx cg
      | IR_OP_FREE \<Rightarrow> gen_dealloc fr i idx cg
      | IR_OP_RELEASE \<Rightarrow> gen_dealloc fr i idx cg
      | _ \<Rightarrow> Inl (Unsupported (snprintf_buf 256
               (''x86-64 backend error: unsupported IR instruction '' @ quoted (ir_opcode_to_string (ir_inst.i_op i)) @
                '' in function '' @ quoted (fn_name (fr_fn fr))))))"

fun gen_insts :: "frame \<Rightarrow> nat \<Rightarrow> ir_inst list \<Rightarrow> codegen \<Rightarrow> gen_result" where
  "gen_insts fr n [] cg = Inr cg"
| "gen_insts fr n (i # is) cg =
     (case gen_instruction fr i n cg of Inl e \<Rightarrow> Inl e | Inr cg \<Rightarrow> gen_insts fr (n + 1) is cg)"

fun gen_blocks :: "frame \<Rightarrow> nat \<Rightarrow> ir_block list \<Rightarrow> codegen \<Rightarrow> gen_result" where
  "gen_blocks fr n [] cg = Inr cg"
| "gen_blocks fr n (bb # bbs) cg =
     (let cg = emit (\<lambda>l. x86_emit_label l (block_symbol (fn_name (fr_fn fr)) (bb_name bb))) cg
      in case gen_insts fr n (bb_insts bb) cg of
           Inl e \<Rightarrow> Inl e
         | Inr cg \<Rightarrow> gen_blocks fr (n + length (bb_insts bb)) bbs cg)"

definition gen_prologue :: "frame \<Rightarrow> codegen \<Rightarrow> codegen" where
  "gen_prologue fr cg =
     (let cg = emit (\<lambda>l. x86_emit_label l (fn_name (fr_fn fr))) cg;
          cg = emit (\<lambda>l. x86_emit_push l X86_REG_RBP) cg;
          cg = emit (\<lambda>l. x86_emit_mov_reg_reg l 8 X86_REG_RSP X86_REG_RBP) cg;
          cg = fold (\<lambda>r. emit (\<lambda>l. x86_emit_push l r)) (fr_callee_saved fr) cg
      in if fr_total fr > 0 then emit (\<lambda>l. x86_emit_sub_imm_rsp l (of_int (fr_total fr))) cg else cg)"

text \<open>The parameters that come in registers go to their slots.\<close>

definition home_arg :: "frame \<Rightarrow> ir_param \<Rightarrow> codegen \<times> nat \<times> nat \<Rightarrow> codegen \<times> nat \<times> nat" where
  "home_arg fr p = (\<lambda>(cg, ni, nf).
     case x86_frame_get_offset fr (p_value p) of
       None \<Rightarrow> (cg, ni, nf)
     | Some (off, sz) \<Rightarrow>
         if is_float_param p
         then (if nf < X86_64_MAX_FLOAT_ARG_REGS
               then (emit (\<lambda>l. x86_emit_movsd_reg_mem l (FLOAT_ARG_REGS ! nf) X86_REG_RBP (of_int off)) cg, ni, nf + 1)
               else (cg, ni, nf))
         else (if ni < X86_64_MAX_ARG_REGS
               then (emit (\<lambda>l. x86_emit_mov_reg_mem l (if sz = 8 \<or> wide_type (p_type p) then 8 else 4)
                        (INT_ARG_REGS ! ni) X86_REG_RBP (of_int off)) cg, ni + 1, nf)
               else (cg, ni, nf)))"

definition gen_params :: "frame \<Rightarrow> codegen \<Rightarrow> codegen" where
  "gen_params fr cg = fst (fold (home_arg fr) (fn_params (fr_fn fr)) (cg, 0, 0))"

definition gen_epilogue :: "frame \<Rightarrow> codegen \<Rightarrow> codegen" where
  "gen_epilogue fr cg =
     (let cg = emit (\<lambda>l. x86_emit_label l (epilogue_symbol (fn_name (fr_fn fr)))) cg;
          k = length (fr_callee_saved fr);
          cg = (if k > 0
                then fold (\<lambda>r. emit (\<lambda>l. x86_emit_pop l r)) (rev (fr_callee_saved fr))
                       (emit (\<lambda>l. x86_emit_lea_mem l X86_REG_RBP (of_int (- (int k * 8))) X86_REG_RSP) cg)
                else if fr_total fr > 0
                then emit (\<lambda>l. x86_emit_mov_reg_reg l 8 X86_REG_RBP X86_REG_RSP) cg
                else cg)
      in emit x86_emit_ret (emit (\<lambda>l. x86_emit_pop l X86_REG_RBP) cg))"

definition gen_body :: "frame \<Rightarrow> codegen \<Rightarrow> gen_result" where
  "gen_body fr cg =
     (case gen_blocks fr 0 (fn_blocks (fr_fn fr)) (gen_params fr (gen_prologue fr (cg\<lparr>cg_list := x86_instr_list_create\<rparr>))) of
        Inl e \<Rightarrow> Inl e
      | Inr cg \<Rightarrow> Inr (gen_epilogue fr cg))"

text \<open>
  The block order for a profile: the entry first, then greedily the hotter successor. The counts
  of a branch come from the profile by the names of function and block, 0 if there are none.
\<close>

definition layout_next ::
  "(string \<Rightarrow> string \<Rightarrow> u64 \<times> u64) \<Rightarrow> ir_function \<Rightarrow> nat list \<Rightarrow> nat \<Rightarrow> nat option" where
  "layout_next counts f unplaced b =
     (let free = (\<lambda>t. case t of Some c \<Rightarrow> c \<in> set unplaced | None \<Rightarrow> False);
          first = (case unplaced of c # _ \<Rightarrow> Some c | [] \<Rightarrow> None)
      in case last_inst (block_at f b) of
           Some i \<Rightarrow>
             if ir_inst.i_op i = IR_OP_CONDBR
             then (case counts (fn_name f) (bb_name (block_at f b)) of
                     (tc, fc) \<Rightarrow>
                       let hot = (if tc \<ge> fc then i_true i else i_false i);
                           cold = (if tc \<ge> fc then i_false i else i_true i)
                       in if free hot then hot else if free cold then cold else first)
             else if ir_inst.i_op i = IR_OP_BR \<and> free (i_true i) then i_true i
             else first
         | None \<Rightarrow> first)"

fun layout_from ::
  "nat \<Rightarrow> (string \<Rightarrow> string \<Rightarrow> u64 \<times> u64) \<Rightarrow> ir_function \<Rightarrow> nat list \<Rightarrow> nat \<Rightarrow> nat list" where
  "layout_from 0 counts f unplaced b = []"
| "layout_from (Suc k) counts f unplaced b =
     (case layout_next counts f unplaced b of
        Some c \<Rightarrow> c # layout_from k counts f (remove1 c unplaced) c
      | None \<Rightarrow> [])"

definition ir_cfg_reorder_blocks_for_layout ::
  "(string \<Rightarrow> string \<Rightarrow> u64 \<times> u64) \<Rightarrow> ir_function \<Rightarrow> ir_function" where
  "ir_cfg_reorder_blocks_for_layout counts f =
     (case fn_order f of
        b # bs \<Rightarrow>
          if length (fn_order f) \<le> 2 then f
          else f\<lparr>fn_order := b # layout_from (length bs) counts f bs b\<rparr>
      | [] \<Rightarrow> f)"

text \<open>\<open>None\<close> if the register allocation did not end; the profile is optional.\<close>

definition gen_function_instructions ::
  "(string \<Rightarrow> string \<Rightarrow> u64 \<times> u64) option \<Rightarrow> ir_function \<Rightarrow> codegen \<Rightarrow> gen_result option" where
  "gen_function_instructions profile f cg =
     (let f = (case profile of Some counts \<Rightarrow> ir_cfg_reorder_blocks_for_layout counts f | None \<Rightarrow> f)
      in case regalloc_run f of
           None \<Rightarrow> None
         | Some ra \<Rightarrow>
             Some (case gen_body (x86_frame_build f (Some ra)) cg of
                     Inl e \<Rightarrow> Inl e
                   | Inr cg \<Rightarrow> Inr (emit x86_instr_list_optimize cg)))"

end
