(* ===== verification/X86_Elf.thy ===== *)
theory X86_Elf
  imports X86_Decode
begin

text \<open>
  The object file writer (\<open>src/backend/x86_64/x86_64_elf.c\<close>): the symbol list, string tables with
  shared suffixes, and the ELF64 relocatable file with its eight sections. The structures of the
  system header \<open>elf.h\<close> are records, written to the file in their little-endian layout. The byte
  contents are a function of the inputs; opening and writing the file is a parameter.
\<close>

section \<open>Bytes\<close>

definition le16 :: "u16 \<Rightarrow> u8 list" where "le16 v = byte_buf_append_u16 [] v"

definition bytes_of :: "string \<Rightarrow> u8 list" where
  "bytes_of s = map of_char s"

text \<open>The C string that starts at an index, and \<open>memcpy\<close> into a buffer.\<close>

definition cstr_at :: "u8 list \<Rightarrow> nat \<Rightarrow> u8 list" where
  "cstr_at t i = takeWhile (\<lambda>b. b \<noteq> 0) (drop i t)"

definition blit :: "u8 list \<Rightarrow> nat \<Rightarrow> u8 list \<Rightarrow> u8 list" where
  "blit file off bs = take off file @ bs @ drop (off + length bs) file"

section \<open>Structures of the file format\<close>

record elf64_sym =
  st_name :: u32
  st_info :: u8
  st_other :: u8
  st_shndx :: u16
  st_value :: u64
  st_size :: u64

record elf64_rela =
  ra_offset :: u64
  ra_info :: u64
  ra_addend :: u64

record elf64_shdr =
  sh_name :: u32
  sh_type :: u32
  sh_flags :: u64
  sh_offset :: u64
  sh_size :: u64
  sh_link :: u32
  sh_info :: u32
  sh_addralign :: u64
  sh_entsize :: u64

record elf64_ehdr =
  eh_type :: u16
  eh_machine :: u16
  eh_entry :: u64
  eh_phoff :: u64
  eh_shoff :: u64
  eh_phentsize :: u16
  eh_phnum :: u16
  eh_shentsize :: u16
  eh_shnum :: u16
  eh_shstrndx :: u16

definition sym_bytes :: "elf64_sym \<Rightarrow> u8 list" where
  "sym_bytes s = le32 (st_name s) @ [st_info s, st_other s] @ le16 (st_shndx s) @ le64 (st_value s) @ le64 (st_size s)"

definition rela_bytes :: "elf64_rela \<Rightarrow> u8 list" where
  "rela_bytes r = le64 (ra_offset r) @ le64 (ra_info r) @ le64 (ra_addend r)"

text \<open>The address of a section, always 0 in the files written here, stands between flags and offset.\<close>

definition shdr_bytes :: "elf64_shdr \<Rightarrow> u8 list" where
  "shdr_bytes s = le32 (sh_name s) @ le32 (sh_type s) @ le64 (sh_flags s) @ le64 0 @ le64 (sh_offset s) @
     le64 (sh_size s) @ le32 (sh_link s) @ le32 (sh_info s) @ le64 (sh_addralign s) @ le64 (sh_entsize s)"

text \<open>The identification: magic, 64 bit, little-endian, version 1, System V. Version 1, no flags, 64 bytes of header.\<close>

definition elf_ident :: "u8 list" where
  "elf_ident = [0x7F, 0x45, 0x4C, 0x46, 2, 1, 1, 0, 0, 0, 0, 0, 0, 0, 0, 0]"

definition ehdr_bytes :: "elf64_ehdr \<Rightarrow> u8 list" where
  "ehdr_bytes h = elf_ident @ le16 (eh_type h) @ le16 (eh_machine h) @ le32 1 @ le64 (eh_entry h) @ le64 (eh_phoff h) @
     le64 (eh_shoff h) @ le32 0 @ le16 64 @ le16 (eh_phentsize h) @ le16 (eh_phnum h) @ le16 (eh_shentsize h) @
     le16 (eh_shnum h) @ le16 (eh_shstrndx h)"

definition ET_REL :: u16 where "ET_REL = 1"
definition ET_EXEC :: u16 where "ET_EXEC = 2"
definition EM_X86_64 :: u16 where "EM_X86_64 = 62"
definition SHT_PROGBITS :: u32 where "SHT_PROGBITS = 1"
definition SHT_SYMTAB :: u32 where "SHT_SYMTAB = 2"
definition SHT_STRTAB :: u32 where "SHT_STRTAB = 3"
definition SHT_RELA :: u32 where "SHT_RELA = 4"
definition SHT_NOBITS :: u32 where "SHT_NOBITS = 8"
definition SHN_UNDEF :: u16 where "SHN_UNDEF = 0"
definition SHN_ABS :: u16 where "SHN_ABS = 0xFFF1"
definition STB_LOCAL :: u8 where "STB_LOCAL = 0"
definition STB_GLOBAL :: u8 where "STB_GLOBAL = 1"
definition STT_NOTYPE :: u8 where "STT_NOTYPE = 0"
definition STT_FUNC :: u8 where "STT_FUNC = 2"
definition STT_SECTION :: u8 where "STT_SECTION = 3"
definition STT_FILE :: u8 where "STT_FILE = 4"

definition ELF64_ST_INFO :: "u8 \<Rightarrow> u8 \<Rightarrow> u8" where
  "ELF64_ST_INFO bind ty = push_bit 4 bind + (ty AND 0xF)"

definition ELF64_ST_BIND :: "u8 \<Rightarrow> u8" where "ELF64_ST_BIND info = drop_bit 4 info"
definition ELF64_ST_TYPE :: "u8 \<Rightarrow> u8" where "ELF64_ST_TYPE info = info AND 0xF"

definition ELF64_R_INFO :: "u32 \<Rightarrow> u32 \<Rightarrow> u64" where
  "ELF64_R_INFO s ty = push_bit 32 (ucast s) + ucast ty"

definition ELF64_R_SYM :: "u64 \<Rightarrow> u32" where "ELF64_R_SYM info = ucast (drop_bit 32 info)"
definition ELF64_R_TYPE :: "u64 \<Rightarrow> u32" where "ELF64_R_TYPE info = ucast info"

section \<open>Symbols and string tables\<close>

record elf_symbol_desc =
  ed_name :: string
  ed_offset :: u64
  ed_size :: u64
  ed_global :: bool
  ed_defined :: bool

text \<open>An undefined symbol is listed once. A null name adds nothing.\<close>

definition elf_symbol_list_add ::
  "elf_symbol_desc list \<Rightarrow> string option \<Rightarrow> u64 \<Rightarrow> u64 \<Rightarrow> bool \<Rightarrow> bool \<Rightarrow> elf_symbol_desc list" where
  "elf_symbol_list_add xs nm offset sz global defined =
     (case nm of
        None \<Rightarrow> xs
      | Some n \<Rightarrow>
          if \<not> defined \<and> list_ex (\<lambda>d. \<not> ed_defined d \<and> ed_name d = n) xs then xs
          else xs @ [\<lparr>ed_name = n, ed_offset = offset, ed_size = sz, ed_global = global, ed_defined = defined\<rparr>])"

text \<open>Offset 0 holds a null byte.\<close>

definition str_table_create :: "u8 list" where
  "str_table_create = [0]"

definition str_table_add :: "u8 list \<Rightarrow> u8 list \<Rightarrow> u32 \<times> u8 list" where
  "str_table_add t s =
     (if s = [] then (0, t)
      else case List.find (\<lambda>i. cstr_at t i = s) [1..<length t - length s] of
             Some i \<Rightarrow> (of_nat i, t)
           | None \<Rightarrow> (of_nat (length t), t @ s @ [0]))"

text \<open>Several strings, with their offsets.\<close>

fun str_table_add_all :: "u8 list \<Rightarrow> u8 list list \<Rightarrow> u32 list \<times> u8 list" where
  "str_table_add_all t [] = ([], t)"
| "str_table_add_all t (s # ss) =
     (case str_table_add t s of (i, t) \<Rightarrow> case str_table_add_all t ss of (is, t) \<Rightarrow> (i # is, t))"

section \<open>The symbol table and the relocations\<close>

definition null_sym :: elf64_sym where
  "null_sym = \<lparr>st_name = 0, st_info = 0, st_other = 0, st_shndx = 0, st_value = 0, st_size = 0\<rparr>"

definition file_sym :: "u32 \<Rightarrow> elf64_sym" where
  "file_sym n = null_sym\<lparr>st_name := n, st_info := ELF64_ST_INFO STB_LOCAL STT_FILE, st_shndx := SHN_ABS\<rparr>"

definition rodata_sym :: elf64_sym where
  "rodata_sym = null_sym\<lparr>st_info := ELF64_ST_INFO STB_LOCAL STT_SECTION, st_shndx := 3\<rparr>"

definition symbol_entry :: "u32 \<Rightarrow> elf_symbol_desc \<Rightarrow> elf64_sym" where
  "symbol_entry n d =
     (if ed_defined d
      then null_sym\<lparr>st_name := n, st_info := ELF64_ST_INFO STB_GLOBAL STT_FUNC, st_shndx := 1,
             st_value := ed_offset d, st_size := ed_size d\<rparr>
      else null_sym\<lparr>st_name := n, st_info := ELF64_ST_INFO STB_GLOBAL STT_NOTYPE, st_shndx := SHN_UNDEF\<rparr>)"

text \<open>Defined functions first, then the undefined symbols.\<close>

definition symbol_order :: "elf_symbol_desc list \<Rightarrow> elf_symbol_desc list" where
  "symbol_order ds = filter ed_defined ds @ filter (\<lambda>d. \<not> ed_defined d) ds"

definition build_symtab :: "string \<Rightarrow> elf_symbol_desc list \<Rightarrow> elf64_sym list \<times> u8 list" where
  "build_symtab source ds =
     (case str_table_add str_table_create (bytes_of source) of
        (file_idx, strtab) \<Rightarrow>
          (case str_table_add_all strtab (map (bytes_of \<circ> ed_name) (symbol_order ds)) of
             (idxs, strtab) \<Rightarrow>
               ([null_sym, file_sym file_idx, rodata_sym] @ map2 symbol_entry idxs (symbol_order ds), strtab)))"

text \<open>The symbol of a relocation: 2 for \<open>.rodata\<close>, else the first of that name from 3 on, 0 if there is none.\<close>

definition reloc_symbol_index :: "elf64_sym list \<Rightarrow> u8 list \<Rightarrow> string \<Rightarrow> u32" where
  "reloc_symbol_index syms strtab s =
     (if s = ''.rodata'' then 2
      else case List.find (\<lambda>k. cstr_at strtab (unat (st_name (syms ! k))) = bytes_of s) [3..<length syms] of
             Some k \<Rightarrow> of_nat k
           | None \<Rightarrow> 0)"

definition rela_entry :: "elf64_sym list \<Rightarrow> u8 list \<Rightarrow> x86_reloc \<Rightarrow> elf64_rela" where
  "rela_entry syms strtab r =
     \<lparr>ra_offset = r_offset r,
      ra_info = ELF64_R_INFO (reloc_symbol_index syms strtab (case r_symbol r of Some s \<Rightarrow> s | None \<Rightarrow> '''')) (r_type r),
      ra_addend = r_addend r\<rparr>"

section \<open>Layout\<close>

definition align_offset :: "u64 \<Rightarrow> u64 \<Rightarrow> u64" where
  "align_offset offset align =
     (if align \<le> 1 then offset else (offset + align - 1) AND NOT (align - 1))"

record elf_layout =
  l_text :: u64
  l_rela :: u64
  l_rodata :: u64
  l_symtab :: u64
  l_strtab :: u64
  l_shstrtab :: u64
  l_shdr :: u64

text \<open>From the sizes of the code, the relocations, the data, the symbols and the two string tables.\<close>

definition layout_sections :: "u64 \<Rightarrow> u64 \<Rightarrow> u64 \<Rightarrow> u64 \<Rightarrow> u64 \<Rightarrow> u64 \<Rightarrow> elf_layout" where
  "layout_sections sz_text sz_rela sz_rodata sz_symtab sz_strtab sz_shstrtab =
     (let off_text = align_offset 64 16;
          off_rela = align_offset (off_text + sz_text) 8;
          off_rodata = align_offset (off_rela + sz_rela) 16;
          off_symtab = align_offset (off_rodata + sz_rodata) 8;
          off_strtab = off_symtab + sz_symtab;
          off_shstrtab = off_strtab + sz_strtab
      in \<lparr>l_text = off_text, l_rela = off_rela, l_rodata = off_rodata, l_symtab = off_symtab,
          l_strtab = off_strtab, l_shstrtab = off_shstrtab, l_shdr = align_offset (off_shstrtab + sz_shstrtab) 8\<rparr>)"

definition section_names :: "string list" where
  "section_names = [''.text'', ''.rela.text'', ''.rodata'', ''.symtab'', ''.strtab'', ''.shstrtab'', ''.note.GNU-stack'']"

definition null_shdr :: elf64_shdr where
  "null_shdr = \<lparr>sh_name = 0, sh_type = 0, sh_flags = 0, sh_offset = 0, sh_size = 0, sh_link = 0, sh_info = 0,
     sh_addralign = 0, sh_entsize = 0\<rparr>"

text \<open>Flags: 2 allocated, 4 executable, \<open>0x40\<close> info is a section.\<close>

definition build_shdrs :: "u32 list \<Rightarrow> elf_layout \<Rightarrow> u64 \<Rightarrow> u64 \<Rightarrow> u64 \<Rightarrow> u64 \<Rightarrow> u64 \<Rightarrow> u64 \<Rightarrow> elf64_shdr list" where
  "build_shdrs names l sz_text sz_rela sz_rodata sz_symtab sz_strtab sz_shstrtab =
     [null_shdr,
      null_shdr\<lparr>sh_name := names ! 0, sh_type := SHT_PROGBITS, sh_flags := 6, sh_offset := l_text l,
        sh_size := sz_text, sh_addralign := 16\<rparr>,
      null_shdr\<lparr>sh_name := names ! 1, sh_type := SHT_RELA, sh_flags := 0x40, sh_offset := l_rela l,
        sh_size := sz_rela, sh_link := 4, sh_info := 1, sh_addralign := 8, sh_entsize := 24\<rparr>,
      null_shdr\<lparr>sh_name := names ! 2, sh_type := SHT_PROGBITS, sh_flags := 2, sh_offset := l_rodata l,
        sh_size := sz_rodata, sh_addralign := 16\<rparr>,
      null_shdr\<lparr>sh_name := names ! 3, sh_type := SHT_SYMTAB, sh_offset := l_symtab l,
        sh_size := sz_symtab, sh_link := 5, sh_info := 3, sh_addralign := 8, sh_entsize := 24\<rparr>,
      null_shdr\<lparr>sh_name := names ! 4, sh_type := SHT_STRTAB, sh_offset := l_strtab l,
        sh_size := sz_strtab, sh_addralign := 1\<rparr>,
      null_shdr\<lparr>sh_name := names ! 5, sh_type := SHT_STRTAB, sh_offset := l_shstrtab l,
        sh_size := sz_shstrtab, sh_addralign := 1\<rparr>,
      null_shdr\<lparr>sh_name := names ! 6, sh_type := SHT_PROGBITS, sh_addralign := 1\<rparr>]"

definition object_ehdr :: "u64 \<Rightarrow> elf64_ehdr" where
  "object_ehdr off_shdr = \<lparr>eh_type = ET_REL, eh_machine = EM_X86_64, eh_entry = 0, eh_phoff = 0, eh_shoff = off_shdr,
     eh_phentsize = 0, eh_phnum = 0, eh_shentsize = 64, eh_shnum = 8, eh_shstrndx = 6\<rparr>"

section \<open>The file\<close>

definition elf_contents ::
  "elf_layout \<Rightarrow> u8 list \<Rightarrow> u8 list \<Rightarrow> u8 list \<Rightarrow> u8 list \<Rightarrow> u8 list \<Rightarrow> u8 list \<Rightarrow> u8 list \<Rightarrow> u8 list" where
  "elf_contents l code rela data symtab strtab shstrtab shdrs =
     (let file = replicate (unat (l_shdr l + 512)) 0;
          file = blit file 0 (ehdr_bytes (object_ehdr (l_shdr l)));
          file = blit file (unat (l_text l)) code;
          file = blit file (unat (l_rela l)) rela;
          file = blit file (unat (l_rodata l)) data;
          file = blit file (unat (l_symtab l)) symtab;
          file = blit file (unat (l_strtab l)) strtab;
          file = blit file (unat (l_shstrtab l)) shstrtab
      in blit file (unat (l_shdr l)) shdrs)"

definition elf64_object_bytes ::
  "string \<Rightarrow> u8 list \<Rightarrow> x86_reloc list \<Rightarrow> u8 list \<Rightarrow> elf_symbol_desc list \<Rightarrow> u8 list" where
  "elf64_object_bytes source code relocs data ds =
     (case str_table_add_all str_table_create (map bytes_of section_names) of
        (names, shstrtab) \<Rightarrow>
          (case build_symtab source ds of
             (syms, strtab) \<Rightarrow>
               let relas = map (rela_entry syms strtab) relocs;
                   sz_text = of_nat (length code); sz_rela = of_nat (length relas) * 24;
                   sz_rodata = of_nat (length data); sz_symtab = of_nat (length syms) * 24;
                   sz_strtab = of_nat (length strtab); sz_shstrtab = of_nat (length shstrtab);
                   l = layout_sections sz_text sz_rela sz_rodata sz_symtab sz_strtab sz_shstrtab;
                   shdrs = build_shdrs names l sz_text sz_rela sz_rodata sz_symtab sz_strtab sz_shstrtab
               in elf_contents l code (concat (map rela_bytes relas)) data (concat (map sym_bytes syms))
                    strtab shstrtab (concat (map shdr_bytes shdrs))))"

text \<open>\<open>write\<close> is the file system: \<open>None\<close> if the file cannot be opened, else the number of bytes written.\<close>

definition elf64_write_object_file ::
  "(string \<Rightarrow> u8 list \<Rightarrow> nat option) \<Rightarrow> string option \<Rightarrow> string option \<Rightarrow> u8 list \<Rightarrow> x86_reloc list \<Rightarrow> u8 list
     \<Rightarrow> elf_symbol_desc list \<Rightarrow> string + bool" where
  "elf64_write_object_file write out_path source code relocs data ds =
     (case out_path of
        None \<Rightarrow> Inl ''null output path for ELF object file''
      | Some path \<Rightarrow>
          let file = elf64_object_bytes (case source of Some s \<Rightarrow> s | None \<Rightarrow> ''program.cco'') code relocs data ds
          in case write path file of
               None \<Rightarrow> Inl (snprintf_buf 256 (''could not open output file '' @ [CHR 0x27] @ path @ [CHR 0x27] @
                 '' for writing''))
             | Some n \<Rightarrow> Inr (n = length file))"

end
