(* ===== verification/X86_Link.thy ===== *)
theory X86_Link
  imports X86_Elf
begin

text \<open>
  The static linker (\<open>src/backend/x86_64/x86_64_link.c\<close>): reading and validating object files, the
  global symbol table, merging sections, addresses, relocations and the executable. An object is
  its bytes with the offsets of its sections in them; a pointer into the file is an offset of 64 bits.
  A read outside of the file, a write outside of a buffer and a second \<open>free\<close> of the same memory have
  no meaning in C: \<open>Undefined\<close> is the result of such an execution. The file system and the embedded
  start-up object, a generated file, are parameters.
\<close>

section \<open>Reading bytes\<close>

datatype link_error = Diagnostic string | Undefined

definition slice :: "u8 list \<Rightarrow> u64 \<Rightarrow> u64 \<Rightarrow> u8 list option" where
  "slice data off n = (if unat off + unat n \<le> length data then Some (take (unat n) (drop (unat off) data)) else None)"

definition le_word :: "u8 list \<Rightarrow> 'a::len word" where
  "le_word bs = foldr (\<lambda>b w. ucast b OR push_bit 8 w) bs 0"

definition part :: "u8 list \<Rightarrow> nat \<Rightarrow> nat \<Rightarrow> 'a::len word" where
  "part bs k n = le_word (take n (drop k bs))"

definition sym_of :: "u8 list \<Rightarrow> elf64_sym" where
  "sym_of bs = \<lparr>st_name = part bs 0 4, st_info = part bs 4 1, st_other = part bs 5 1, st_shndx = part bs 6 2,
     st_value = part bs 8 8, st_size = part bs 16 8\<rparr>"

definition rela_of :: "u8 list \<Rightarrow> elf64_rela" where
  "rela_of bs = \<lparr>ra_offset = part bs 0 8, ra_info = part bs 8 8, ra_addend = part bs 16 8\<rparr>"

definition shdr_of :: "u8 list \<Rightarrow> elf64_shdr" where
  "shdr_of bs = \<lparr>sh_name = part bs 0 4, sh_type = part bs 4 4, sh_flags = part bs 8 8, sh_offset = part bs 24 8,
     sh_size = part bs 32 8, sh_link = part bs 40 4, sh_info = part bs 44 4, sh_addralign = part bs 48 8,
     sh_entsize = part bs 56 8\<rparr>"

definition ehdr_of :: "u8 list \<Rightarrow> elf64_ehdr" where
  "ehdr_of bs = \<lparr>eh_type = part bs 16 2, eh_machine = part bs 18 2, eh_entry = part bs 24 8, eh_phoff = part bs 32 8,
     eh_shoff = part bs 40 8, eh_phentsize = part bs 54 2, eh_phnum = part bs 56 2, eh_shentsize = part bs 58 2,
     eh_shnum = part bs 60 2, eh_shstrndx = part bs 62 2\<rparr>"

definition read_sym :: "u8 list \<Rightarrow> u64 \<Rightarrow> elf64_sym option" where
  "read_sym data off = map_option sym_of (slice data off 24)"

definition read_rela :: "u8 list \<Rightarrow> u64 \<Rightarrow> elf64_rela option" where
  "read_rela data off = map_option rela_of (slice data off 24)"

definition read_shdr :: "u8 list \<Rightarrow> u64 \<Rightarrow> elf64_shdr option" where
  "read_shdr data off = map_option shdr_of (slice data off 64)"

text \<open>
  A string in the file, up to its null byte, and \<open>strcmp\<close> with a constant, which stops at the first
  difference. \<open>None\<close>: the end of the file comes first.
\<close>

definition c_string :: "u8 list \<Rightarrow> u64 \<Rightarrow> u8 list option" where
  "c_string data off = (if 0 \<in> set (drop (unat off) data) then Some (cstr_at data (unat off)) else None)"

fun c_streq :: "u8 list \<Rightarrow> u8 list \<Rightarrow> bool option" where
  "c_streq bs [] = Some True"
| "c_streq [] (c # cs) = None"
| "c_streq (b # bs) (c # cs) = (if b = c then c_streq bs cs else Some False)"

definition is_named :: "u8 list \<Rightarrow> u64 \<Rightarrow> string \<Rightarrow> bool option" where
  "is_named data off s = c_streq (drop (unat off) data) (bytes_of s @ [0])"

fun name_among :: "u8 list \<Rightarrow> u64 \<Rightarrow> string list \<Rightarrow> string option option" where
  "name_among data off [] = Some None"
| "name_among data off (s # ss) =
     (case is_named data off s of
        None \<Rightarrow> None
      | Some True \<Rightarrow> Some (Some s)
      | Some False \<Rightarrow> name_among data off ss)"

definition string_of :: "u8 list \<Rightarrow> string" where
  "string_of bs = map (\<lambda>b. char_of (unat b)) bs"

definition in_quotes :: "string \<Rightarrow> string" where
  "in_quotes s = [CHR 0x27] @ s @ [CHR 0x27]"

fun hexadecimal :: "nat \<Rightarrow> string" where
  "hexadecimal n =
     (let d = n mod 16; c = [char_of (if d < 10 then 48 + d else 87 + d)]
      in if n < 16 then c else hexadecimal (n div 16) @ c)"

declare hexadecimal.simps [simp del]

section \<open>Objects\<close>

text \<open>A section of an object: its data, size and section number, \<open>None\<close> and 0 if there is none.\<close>

record section_ref =
  sr_data :: "u64 option"
  sr_size :: u64
  sr_shndx :: nat

record parsed_object =
  po_name :: string
  po_raw :: "u8 list"
  po_text :: section_ref
  po_rodata :: section_ref
  po_data :: section_ref
  po_bss :: section_ref
  po_symtab :: "u64 option"
  po_sym_count :: u64
  po_strtab :: "u64 option"
  po_strtab_size :: u64
  po_relas :: "u64 option"
  po_rela_count :: u64

definition no_section :: section_ref where
  "no_section = \<lparr>sr_data = None, sr_size = 0, sr_shndx = 0\<rparr>"

definition new_object :: "string \<Rightarrow> u8 list \<Rightarrow> parsed_object" where
  "new_object nm data = \<lparr>po_name = nm, po_raw = data, po_text = no_section, po_rodata = no_section,
     po_data = no_section, po_bss = no_section, po_symtab = None, po_sym_count = 0, po_strtab = None,
     po_strtab_size = 0, po_relas = None, po_rela_count = 0\<rparr>"

text \<open>A rejected file: the message, and whether the reader has freed the buffer with the object.\<close>

datatype read_error = Rejected string bool | Crash

definition size_of :: "u8 list \<Rightarrow> u64" where
  "size_of data = of_nat (length data)"

definition set_symtab :: "u64 \<Rightarrow> u16 \<Rightarrow> elf64_shdr \<Rightarrow> parsed_object \<Rightarrow> read_error + parsed_object" where
  "set_symtab shoff shnum sh obj =
     (let obj = obj\<lparr>po_symtab := Some (sh_offset sh), po_sym_count := sh_size sh div 24\<rparr>
      in if sh_link sh < ucast shnum
         then (case read_shdr (po_raw obj) (shoff + ucast (sh_link sh) * 64) of
                 None \<Rightarrow> Inl Crash
               | Some st \<Rightarrow>
                   if sh_offset st + sh_size st \<le> size_of (po_raw obj)
                   then Inr (obj\<lparr>po_strtab := Some (sh_offset st), po_strtab_size := sh_size st\<rparr>)
                   else Inr obj)
         else Inr obj)"

definition set_section ::
  "u64 \<Rightarrow> u16 \<Rightarrow> u64 \<Rightarrow> nat \<Rightarrow> elf64_shdr \<Rightarrow> parsed_object \<Rightarrow> read_error + parsed_object" where
  "set_section shoff shnum shstrtab i sh obj =
     (let data = po_raw obj; nm = shstrtab + ucast (sh_name sh);
          ref = \<lparr>sr_data = Some (sh_offset sh), sr_size = sh_size sh, sr_shndx = i\<rparr>
      in case name_among data nm [''.text'', ''.rodata'', ''.data'', ''.bss''] of
           None \<Rightarrow> Inl Crash
         | Some (Some s) \<Rightarrow>
             Inr (if s = ''.text'' then obj\<lparr>po_text := ref\<rparr>
                  else if s = ''.rodata'' then obj\<lparr>po_rodata := ref\<rparr>
                  else if s = ''.data'' then obj\<lparr>po_data := ref\<rparr>
                  else obj\<lparr>po_bss := ref\<lparr>sr_data := None\<rparr>\<rparr>)
         | Some None \<Rightarrow>
             if sh_type sh = SHT_SYMTAB then set_symtab shoff shnum sh obj
             else if sh_type sh = SHT_RELA
             then (case is_named data nm ''.rela.text'' of
                     None \<Rightarrow> Inl Crash
                   | Some True \<Rightarrow> Inr (obj\<lparr>po_relas := Some (sh_offset sh), po_rela_count := sh_size sh div 24\<rparr>)
                   | Some False \<Rightarrow> Inr obj)
             else Inr obj)"

definition scan_section ::
  "u64 \<Rightarrow> u16 \<Rightarrow> u64 \<Rightarrow> u64 \<Rightarrow> nat \<Rightarrow> parsed_object \<Rightarrow> read_error + parsed_object" where
  "scan_section shoff shnum shstrtab shstrtab_size i obj =
     (case read_shdr (po_raw obj) (shoff + of_nat i * 64) of
        None \<Rightarrow> Inl Crash
      | Some sh \<Rightarrow>
          if ucast (sh_name sh) \<ge> shstrtab_size then Inr obj
          else if sh_type sh \<noteq> SHT_NOBITS \<and> sh_offset sh + sh_size sh > size_of (po_raw obj)
          then (case c_string (po_raw obj) (shstrtab + ucast (sh_name sh)) of
                  None \<Rightarrow> Inl Crash
                | Some nm \<Rightarrow> Inl (Rejected (snprintf_buf 256
                    (''section '' @ in_quotes (string_of nm) @ '' extends past end of file'')) True))
          else set_section shoff shnum shstrtab i sh obj)"

fun scan_sections ::
  "u64 \<Rightarrow> u16 \<Rightarrow> u64 \<Rightarrow> u64 \<Rightarrow> nat list \<Rightarrow> parsed_object \<Rightarrow> read_error + parsed_object" where
  "scan_sections shoff shnum shstrtab n [] obj = Inr obj"
| "scan_sections shoff shnum shstrtab n (i # is) obj =
     (case scan_section shoff shnum shstrtab n i obj of
        Inl e \<Rightarrow> Inl e | Inr obj \<Rightarrow> scan_sections shoff shnum shstrtab n is obj)"

text \<open>A relocation must lie in the code and name a symbol.\<close>

definition check_rela :: "parsed_object \<Rightarrow> u64 \<Rightarrow> read_error option" where
  "check_rela obj off =
     (case read_rela (po_raw obj) off of
        None \<Rightarrow> Some Crash
      | Some r \<Rightarrow>
          if ra_offset r \<ge> sr_size (po_text obj)
          then Some (Rejected (snprintf_buf 256 (''relocation offset 0x'' @ hexadecimal (unat (ra_offset r)) @
                 '' exceeds .text size in '' @ in_quotes (po_name obj))) True)
          else if ucast (ELF64_R_SYM (ra_info r)) \<ge> po_sym_count obj
          then Some (Rejected (snprintf_buf 256 (''relocation references out-of-bounds symbol index '' @
                 decimal (unat (ELF64_R_SYM (ra_info r))) @ '' in '' @ in_quotes (po_name obj))) True)
          else None)"

fun check_relas :: "parsed_object \<Rightarrow> u64 \<Rightarrow> nat \<Rightarrow> read_error option" where
  "check_relas obj off 0 = None"
| "check_relas obj off (Suc n) =
     (case check_rela obj off of Some e \<Rightarrow> Some e | None \<Rightarrow> check_relas obj (off + 24) n)"

definition reject :: "string \<Rightarrow> read_error + parsed_object" where
  "reject msg = Inl (Rejected msg False)"

definition read_sections :: "u8 list \<Rightarrow> string \<Rightarrow> elf64_ehdr \<Rightarrow> read_error + parsed_object" where
  "read_sections data nm h =
     (if eh_shstrndx h \<ge> eh_shnum h then reject ''invalid section header string table index''
      else case read_shdr data (eh_shoff h + ucast (eh_shstrndx h) * 64) of
        None \<Rightarrow> Inl Crash
      | Some st \<Rightarrow>
          if sh_offset st + sh_size st > size_of data
          then reject ''section header string table extends past end of file''
          else case scan_sections (eh_shoff h) (eh_shnum h) (sh_offset st) (sh_size st) [0..<unat (eh_shnum h)]
                      (new_object nm data) of
                 Inl e \<Rightarrow> Inl e
               | Inr obj \<Rightarrow>
                   case po_relas obj of
                     None \<Rightarrow> Inr obj
                   | Some off \<Rightarrow>
                       case check_relas obj off (unat (po_rela_count obj)) of Some e \<Rightarrow> Inl e | None \<Rightarrow> Inr obj)"

definition elf64_read_object_memory :: "u8 list \<Rightarrow> string \<Rightarrow> read_error + parsed_object" where
  "elf64_read_object_memory data nm =
     (if length data < 64 then reject ''file is too small to be a valid ELF64 header''
      else let h = ehdr_of (take 64 data)
      in if take 4 data \<noteq> [0x7F, 0x45, 0x4C, 0x46] then reject ''invalid ELF magic bytes (not an ELF file)''
         else if data ! 4 \<noteq> 2 then reject ''unsupported ELF class (only 64-bit ELFCLASS64 supported)''
         else if data ! 5 \<noteq> 1
         then reject (''unsupported ELF data encoding (only 2'' @ [CHR 0x27] @ ''s complement little-endian supported)'')
         else if eh_type h \<noteq> ET_REL then reject ''unsupported ELF type (expected relocatable object ET_REL)''
         else if eh_machine h \<noteq> EM_X86_64 then reject ''unsupported architecture (expected x86-64 EM_X86_64)''
         else if eh_shentsize h < 64 then reject ''invalid section header entry size''
         else if eh_shoff h + ucast (eh_shnum h) * ucast (eh_shentsize h) > size_of data
         then reject ''section header table extends past end of file''
         else read_sections data nm h)"

text \<open>
  \<open>fs\<close> gives the contents of a file or the text of the system error. The caller frees the buffer
  of a rejected file; if the reader has freed it already, this is the second time.
\<close>

definition elf64_read_object_file :: "(string \<Rightarrow> string + u8 list) \<Rightarrow> string \<Rightarrow> link_error + parsed_object" where
  "elf64_read_object_file fs path =
     (case fs path of
        Inl e \<Rightarrow> Inl (Diagnostic (snprintf_buf 256 (''could not open input object '' @ in_quotes path @ '': '' @ e)))
      | Inr data \<Rightarrow>
          if length data < 64 then Inl (Diagnostic ''object file too small'')
          else case elf64_read_object_memory data path of
                 Inl (Rejected msg freed) \<Rightarrow> Inl (if freed then Undefined else Diagnostic msg)
               | Inl Crash \<Rightarrow> Inl Undefined
               | Inr obj \<Rightarrow> Inr obj)"

fun read_all :: "(string \<Rightarrow> string + u8 list) \<Rightarrow> string list \<Rightarrow> link_error + parsed_object list" where
  "read_all fs [] = Inr []"
| "read_all fs (p # ps) =
     (case elf64_read_object_file fs p of
        Inl e \<Rightarrow> Inl e
      | Inr obj \<Rightarrow> (case read_all fs ps of Inl e \<Rightarrow> Inl e | Inr objs \<Rightarrow> Inr (obj # objs)))"
section \<open>Global symbols\<close>

datatype symbol_sec_kind = SEC_NONE | SEC_TEXT | SEC_RODATA | SEC_DATA | SEC_BSS

record global_sym =
  gs_name :: "u8 list"
  gs_vaddr :: u64
  gs_size :: u64
  gs_obj :: nat
  gs_offset :: u64
  gs_sec :: symbol_sec_kind
  gs_defined :: bool

definition symtab_find :: "global_sym list \<Rightarrow> u8 list \<Rightarrow> global_sym option" where
  "symtab_find t nm = List.find (\<lambda>g. gs_name g = nm) t"

definition define_sym :: "nat \<Rightarrow> u64 \<Rightarrow> u64 \<Rightarrow> symbol_sec_kind \<Rightarrow> global_sym \<Rightarrow> global_sym" where
  "define_sym obj off sz sec g = g\<lparr>gs_defined := True, gs_obj := obj, gs_offset := off, gs_size := sz, gs_sec := sec\<rparr>"

text \<open>Replaces the first element that satisfies a condition.\<close>

fun update_first :: "('a \<Rightarrow> bool) \<Rightarrow> ('a \<Rightarrow> 'a) \<Rightarrow> 'a list \<Rightarrow> 'a list" where
  "update_first P g [] = []"
| "update_first P g (x # xs) = (if P x then g x # xs else x # update_first P g xs)"

definition symtab_add ::
  "global_sym list \<Rightarrow> u8 list \<Rightarrow> nat \<Rightarrow> u64 \<Rightarrow> u64 \<Rightarrow> symbol_sec_kind \<Rightarrow> bool \<Rightarrow> link_error + global_sym list" where
  "symtab_add t nm obj off sz sec defd =
     (case symtab_find t nm of
        Some g \<Rightarrow>
          if gs_defined g \<and> defd
          then Inl (Diagnostic (snprintf_buf 256 (''duplicate strong definition of symbol '' @ in_quotes (string_of nm))))
          else if \<not> gs_defined g \<and> defd
          then Inr (update_first (\<lambda>g. gs_name g = nm) (define_sym obj off sz sec) t)
          else Inr t
      | None \<Rightarrow> Inr (t @ [\<lparr>gs_name = nm, gs_vaddr = 0, gs_size = sz, gs_obj = obj, gs_offset = off, gs_sec = sec,
                        gs_defined = defd\<rparr>]))"

definition sec_kind :: "parsed_object \<Rightarrow> u16 \<Rightarrow> symbol_sec_kind" where
  "sec_kind obj shndx =
     (let k = unat shndx
      in if k = sr_shndx (po_text obj) then SEC_TEXT
         else if k = sr_shndx (po_rodata obj) then SEC_RODATA
         else if k = sr_shndx (po_data obj) then SEC_DATA
         else if k = sr_shndx (po_bss obj) then SEC_BSS
         else SEC_NONE)"

definition collect_symbol ::
  "nat \<Rightarrow> parsed_object \<Rightarrow> u64 \<Rightarrow> elf64_sym \<Rightarrow> global_sym list \<Rightarrow> link_error + global_sym list" where
  "collect_symbol i obj strtab s t =
     (if st_name s = 0 \<or> ucast (st_name s) \<ge> po_strtab_size obj \<or> ELF64_ST_BIND (st_info s) \<noteq> STB_GLOBAL then Inr t
      else case c_string (po_raw obj) (strtab + ucast (st_name s)) of
             None \<Rightarrow> Inl Undefined
           | Some nm \<Rightarrow>
               if st_shndx s = SHN_UNDEF
               then (if symtab_find t nm = None then symtab_add t nm i 0 0 SEC_NONE False else Inr t)
               else symtab_add t nm i (st_value s) (st_size s) (sec_kind obj (st_shndx s)) True)"

fun collect_symbols ::
  "nat \<Rightarrow> parsed_object \<Rightarrow> u64 \<Rightarrow> u64 \<Rightarrow> nat \<Rightarrow> global_sym list \<Rightarrow> link_error + global_sym list" where
  "collect_symbols i obj strtab off 0 t = Inr t"
| "collect_symbols i obj strtab off (Suc n) t =
     (case read_sym (po_raw obj) off of
        None \<Rightarrow> Inl Undefined
      | Some s \<Rightarrow>
          (case collect_symbol i obj strtab s t of
             Inl e \<Rightarrow> Inl e | Inr t \<Rightarrow> collect_symbols i obj strtab (off + 24) n t))"

definition collect_object :: "nat \<Rightarrow> parsed_object \<Rightarrow> global_sym list \<Rightarrow> link_error + global_sym list" where
  "collect_object i obj t =
     (case (po_symtab obj, po_strtab obj) of
        (Some symtab, Some strtab) \<Rightarrow> collect_symbols i obj strtab symtab (unat (po_sym_count obj)) t
      | _ \<Rightarrow> Inr t)"

fun collect_all :: "nat \<Rightarrow> parsed_object list \<Rightarrow> global_sym list \<Rightarrow> link_error + global_sym list" where
  "collect_all i [] t = Inr t"
| "collect_all i (obj # objs) t =
     (case collect_object i obj t of Inl e \<Rightarrow> Inl e | Inr t \<Rightarrow> collect_all (i + 1) objs t)"

text \<open>Does an object define \<open>_start\<close>, and \<open>main\<close>?\<close>

definition entry_symbol :: "parsed_object \<Rightarrow> u64 \<Rightarrow> elf64_sym \<Rightarrow> bool \<times> bool \<Rightarrow> (bool \<times> bool) option" where
  "entry_symbol obj strtab s = (\<lambda>(start, mn).
     if st_shndx s \<noteq> SHN_UNDEF \<and> ucast (st_name s) < po_strtab_size obj
     then (case (is_named (po_raw obj) (strtab + ucast (st_name s)) ''_start'',
                 is_named (po_raw obj) (strtab + ucast (st_name s)) ''main'') of
             (Some a, Some b) \<Rightarrow> Some (start \<or> a, mn \<or> b)
           | _ \<Rightarrow> None)
     else Some (start, mn))"

fun entry_symbols :: "parsed_object \<Rightarrow> u64 \<Rightarrow> u64 \<Rightarrow> nat \<Rightarrow> bool \<times> bool \<Rightarrow> (bool \<times> bool) option" where
  "entry_symbols obj strtab off 0 st = Some st"
| "entry_symbols obj strtab off (Suc n) st =
     (case read_sym (po_raw obj) off of
        None \<Rightarrow> None
      | Some s \<Rightarrow>
          (case entry_symbol obj strtab s st of
             None \<Rightarrow> None | Some st \<Rightarrow> entry_symbols obj strtab (off + 24) n st))"

fun find_entries :: "parsed_object list \<Rightarrow> bool \<times> bool \<Rightarrow> (bool \<times> bool) option" where
  "find_entries [] st = Some st"
| "find_entries (obj # objs) st =
     (case (po_symtab obj, po_strtab obj) of
        (Some symtab, Some strtab) \<Rightarrow>
          (case entry_symbols obj strtab symtab (unat (po_sym_count obj)) st of
             None \<Rightarrow> None | Some st \<Rightarrow> find_entries objs st)
      | _ \<Rightarrow> find_entries objs st)"

section \<open>Merging sections\<close>

definition align_to :: "u64 \<Rightarrow> u64 \<Rightarrow> u64" where
  "align_to val align = (if align \<le> 1 then val else (val + align - 1) AND NOT (align - 1))"

definition byte_buf_pad_to :: "u8 list \<Rightarrow> u64 \<Rightarrow> u8 \<Rightarrow> u8 list" where
  "byte_buf_pad_to b target pad = b @ replicate (unat target - length b) pad"

text \<open>The buffer and the offset of the section in it.\<close>

definition merge_section :: "u8 list \<Rightarrow> section_ref \<Rightarrow> u8 \<Rightarrow> u8 list \<Rightarrow> (u8 list \<times> u64) option" where
  "merge_section raw sec pad buf =
     (case sr_data sec of
        Some off \<Rightarrow>
          if sr_size sec > 0
          then (case slice raw off (sr_size sec) of
                  None \<Rightarrow> None
                | Some bs \<Rightarrow>
                    let buf = byte_buf_pad_to buf (align_to (size_of buf) 16) pad in Some (buf @ bs, size_of buf))
          else Some (buf, size_of buf)
      | None \<Rightarrow> Some (buf, size_of buf))"

record merged =
  mg_text :: "u8 list"
  mg_rodata :: "u8 list"
  mg_text_offs :: "u64 list"
  mg_rodata_offs :: "u64 list"

definition merge_object :: "parsed_object \<Rightarrow> merged \<Rightarrow> merged option" where
  "merge_object obj m =
     (case (merge_section (po_raw obj) (po_text obj) 0x90 (mg_text m),
            merge_section (po_raw obj) (po_rodata obj) 0 (mg_rodata m)) of
        (Some (t, a), Some (d, b)) \<Rightarrow>
          Some \<lparr>mg_text = t, mg_rodata = d, mg_text_offs = mg_text_offs m @ [a], mg_rodata_offs = mg_rodata_offs m @ [b]\<rparr>
      | _ \<Rightarrow> None)"

fun merge_all :: "parsed_object list \<Rightarrow> merged \<Rightarrow> merged option" where
  "merge_all [] m = Some m"
| "merge_all (obj # objs) m = (case merge_object obj m of None \<Rightarrow> None | Some m \<Rightarrow> merge_all objs m)"

definition nothing_merged :: merged where
  "nothing_merged = \<lparr>mg_text = [], mg_rodata = [], mg_text_offs = [], mg_rodata_offs = []\<rparr>"

section \<open>Addresses\<close>

definition PAGE_SIZE :: u64 where "PAGE_SIZE = 0x1000"
definition BASE_VADDR :: u64 where "BASE_VADDR = 0x400000"
definition TEXT_VADDR_BASE :: u64 where "TEXT_VADDR_BASE = 0x401000"

definition text_page_span :: "merged \<Rightarrow> u64" where
  "text_page_span m = (let n = align_to (size_of (mg_text m)) PAGE_SIZE in if n = 0 then PAGE_SIZE else n)"

definition rodata_vaddr :: "merged \<Rightarrow> u64" where
  "rodata_vaddr m = (if mg_rodata m \<noteq> [] then TEXT_VADDR_BASE + text_page_span m else 0)"

definition rodata_file_offset :: "merged \<Rightarrow> u64" where
  "rodata_file_offset m = (if mg_rodata m \<noteq> [] then PAGE_SIZE + text_page_span m else 0)"

definition text_addr :: "merged \<Rightarrow> nat \<Rightarrow> u64 \<Rightarrow> u64" where
  "text_addr m i off = TEXT_VADDR_BASE + mg_text_offs m ! i + off"

definition rodata_addr :: "merged \<Rightarrow> nat \<Rightarrow> u64 \<Rightarrow> u64" where
  "rodata_addr m i off = rodata_vaddr m + mg_rodata_offs m ! i + off"

definition place_symbol :: "merged \<Rightarrow> global_sym \<Rightarrow> global_sym" where
  "place_symbol m g =
     (if gs_sec g = SEC_TEXT then g\<lparr>gs_vaddr := text_addr m (gs_obj g) (gs_offset g)\<rparr>
      else if gs_sec g = SEC_RODATA then g\<lparr>gs_vaddr := rodata_addr m (gs_obj g) (gs_offset g)\<rparr>
      else g)"

section \<open>Relocations\<close>

definition target_address ::
  "merged \<Rightarrow> global_sym list \<Rightarrow> nat \<Rightarrow> parsed_object \<Rightarrow> elf64_sym \<Rightarrow> link_error + u64" where
  "target_address m t i obj s =
     (let k = unat (st_shndx s)
      in if ELF64_ST_TYPE (st_info s) = STT_SECTION
         then Inr (if k = sr_shndx (po_rodata obj) then rodata_addr m i (st_value s)
                   else if k = sr_shndx (po_text obj) then text_addr m i (st_value s) else 0)
         else if ELF64_ST_BIND (st_info s) = STB_LOCAL
         then Inr (if k = sr_shndx (po_text obj) then text_addr m i (st_value s)
                   else if k = sr_shndx (po_rodata obj) then rodata_addr m i (st_value s) else 0)
         else case po_strtab obj of
                None \<Rightarrow> Inl Undefined
              | Some strtab \<Rightarrow>
                  (case c_string (po_raw obj) (strtab + ucast (st_name s)) of
                     None \<Rightarrow> Inl Undefined
                   | Some nm \<Rightarrow>
                       let unresolved = Inl (Diagnostic (snprintf_buf 256 (''unresolved relocation target '' @
                             in_quotes (string_of nm) @ '' in '' @ in_quotes (po_name obj))))
                       in case symtab_find t nm of
                            Some g \<Rightarrow> if gs_defined g then Inr (gs_vaddr g) else unresolved
                          | None \<Rightarrow> unresolved))"

text \<open>
  The memory of a buffer of a given size: 256 bytes, doubled as often as needed. A field that
  sticks out of the contents but not of the memory is written in part.
\<close>

function buf_capacity :: "nat \<Rightarrow> nat \<Rightarrow> nat" where
  "buf_capacity cap n = (if n \<le> cap \<or> cap = 0 then cap else buf_capacity (2 * cap) n)"
  by pat_completeness auto

termination by (relation "measure (\<lambda>(cap, n). n - cap)") auto

declare buf_capacity.simps [simp del]

definition patch32 :: "u8 list \<Rightarrow> u64 \<Rightarrow> u32 \<Rightarrow> u8 list option" where
  "patch32 code pos v =
     (if unat pos + 4 \<le> buf_capacity 256 (length code)
      then Some (take (length code) (blit code (unat pos) (le32 v))) else None)"

definition apply_rela ::
  "merged \<Rightarrow> global_sym list \<Rightarrow> nat \<Rightarrow> parsed_object \<Rightarrow> elf64_rela \<Rightarrow> u8 list \<Rightarrow> link_error + u8 list" where
  "apply_rela m t i obj r code =
     (let pos = mg_text_offs m ! i + ra_offset r; place = TEXT_VADDR_BASE + pos
      in case po_symtab obj of
           None \<Rightarrow> Inl Undefined
         | Some symtab \<Rightarrow>
             case read_sym (po_raw obj) (symtab + ucast (ELF64_R_SYM (ra_info r)) * 24) of
               None \<Rightarrow> Inl Undefined
             | Some s \<Rightarrow>
                 case target_address m t i obj s of
                   Inl e \<Rightarrow> Inl e
                 | Inr addr \<Rightarrow>
                     let ty = ELF64_R_TYPE (ra_info r); val = addr + ra_addend r - place
                     in if ty = R_X86_64_PC32 \<or> ty = R_X86_64_PLT32
                        then (if sint val < - 2147483648 \<or> sint val > 2147483647
                              then Inl (Diagnostic (snprintf_buf 256 (''PC-relative relocation out of 32-bit range ('' @
                                     decimal_int (sint val) @ '') in '' @ in_quotes (po_name obj))))
                              else case patch32 code pos (ucast val) of
                                     None \<Rightarrow> Inl Undefined | Some code \<Rightarrow> Inr code)
                        else Inl (Diagnostic (snprintf_buf 256 (''unsupported relocation type '' @ decimal (unat ty) @
                               '' in '' @ in_quotes (po_name obj)))))"

fun apply_relas ::
  "merged \<Rightarrow> global_sym list \<Rightarrow> nat \<Rightarrow> parsed_object \<Rightarrow> u64 \<Rightarrow> nat \<Rightarrow> u8 list \<Rightarrow> link_error + u8 list" where
  "apply_relas m t i obj off 0 code = Inr code"
| "apply_relas m t i obj off (Suc n) code =
     (case read_rela (po_raw obj) off of
        None \<Rightarrow> Inl Undefined
      | Some r \<Rightarrow>
          (case apply_rela m t i obj r code of
             Inl e \<Rightarrow> Inl e | Inr code \<Rightarrow> apply_relas m t i obj (off + 24) n code))"

fun relocate_all ::
  "merged \<Rightarrow> global_sym list \<Rightarrow> nat \<Rightarrow> parsed_object list \<Rightarrow> u8 list \<Rightarrow> link_error + u8 list" where
  "relocate_all m t i [] code = Inr code"
| "relocate_all m t i (obj # objs) code =
     (case (case po_relas obj of
              Some off \<Rightarrow> apply_relas m t i obj off (unat (po_rela_count obj)) code | None \<Rightarrow> Inr code) of
        Inl e \<Rightarrow> Inl e | Inr code \<Rightarrow> relocate_all m t (i + 1) objs code)"

section \<open>The executable\<close>

record elf64_phdr =
  ph_type :: u32
  ph_flags :: u32
  ph_offset :: u64
  ph_vaddr :: u64
  ph_filesz :: u64
  ph_align :: u64

text \<open>Physical address and size in memory are those of the virtual address and the file.\<close>

definition phdr_bytes :: "elf64_phdr \<Rightarrow> u8 list" where
  "phdr_bytes p = le32 (ph_type p) @ le32 (ph_flags p) @ le64 (ph_offset p) @ le64 (ph_vaddr p) @ le64 (ph_vaddr p) @
     le64 (ph_filesz p) @ le64 (ph_filesz p) @ le64 (ph_align p)"

definition PT_LOAD :: u32 where "PT_LOAD = 1"
definition PT_GNU_STACK :: u32 where "PT_GNU_STACK = 0x6474E551"

text \<open>Flags: 1 executable, 2 writable, 4 readable.\<close>

definition program_headers :: "merged \<Rightarrow> elf64_phdr list" where
  "program_headers m =
     (let n = (if mg_rodata m \<noteq> [] then 4 else 3)
      in [\<lparr>ph_type = PT_LOAD, ph_flags = 4, ph_offset = 0, ph_vaddr = BASE_VADDR, ph_filesz = 64 + n * 56,
           ph_align = PAGE_SIZE\<rparr>,
          \<lparr>ph_type = PT_LOAD, ph_flags = 5, ph_offset = PAGE_SIZE, ph_vaddr = TEXT_VADDR_BASE,
           ph_filesz = size_of (mg_text m), ph_align = PAGE_SIZE\<rparr>] @
         (if mg_rodata m \<noteq> []
          then [\<lparr>ph_type = PT_LOAD, ph_flags = 4, ph_offset = rodata_file_offset m, ph_vaddr = rodata_vaddr m,
                 ph_filesz = size_of (mg_rodata m), ph_align = PAGE_SIZE\<rparr>]
          else []) @
         [\<lparr>ph_type = PT_GNU_STACK, ph_flags = 6, ph_offset = 0, ph_vaddr = 0, ph_filesz = 0, ph_align = 8\<rparr>])"

definition exec_ehdr :: "u64 \<Rightarrow> u16 \<Rightarrow> elf64_ehdr" where
  "exec_ehdr entry phnum = \<lparr>eh_type = ET_EXEC, eh_machine = EM_X86_64, eh_entry = entry, eh_phoff = 64, eh_shoff = 0,
     eh_phentsize = 56, eh_phnum = phnum, eh_shentsize = 64, eh_shnum = 0, eh_shstrndx = SHN_UNDEF\<rparr>"

definition executable :: "merged \<Rightarrow> u64 \<Rightarrow> u8 list \<Rightarrow> u8 list" where
  "executable m entry code =
     (let phdrs = program_headers m;
          file = ehdr_bytes (exec_ehdr entry (of_nat (length phdrs))) @ concat (map phdr_bytes phdrs);
          file = byte_buf_pad_to file PAGE_SIZE 0 @ code
      in if mg_rodata m \<noteq> [] then byte_buf_pad_to file (rodata_file_offset m) 0 @ mg_rodata m else file)"

section \<open>The linker\<close>

definition add_runtime :: "u8 list \<Rightarrow> bool \<Rightarrow> parsed_object list \<Rightarrow> link_error + parsed_object list" where
  "add_runtime runtime standalone objs =
     (case find_entries objs (False, False) of
        None \<Rightarrow> Inl Undefined
      | Some (start, mn) \<Rightarrow>
          if standalone \<and> \<not> start \<and> mn
          then (case elf64_read_object_memory runtime ''<builtin:runtime_start.o>'' of
                  Inl Crash \<Rightarrow> Inl Undefined
                | Inl (Rejected _ _) \<Rightarrow> Inr objs
                | Inr rt \<Rightarrow> Inr (objs @ [rt]))
          else Inr objs)"

definition entry_point :: "global_sym list \<Rightarrow> u64 option" where
  "entry_point t =
     (case symtab_find t (bytes_of ''_start'') of
        Some g \<Rightarrow> Some (gs_vaddr g)
      | None \<Rightarrow> map_option gs_vaddr (symtab_find t (bytes_of ''main'')))"

definition link_parsed :: "parsed_object list \<Rightarrow> link_error + u8 list" where
  "link_parsed objs =
     (case collect_all 0 objs [] of
        Inl e \<Rightarrow> Inl e
      | Inr t \<Rightarrow>
          case List.find (\<lambda>g. \<not> gs_defined g) t of
            Some g \<Rightarrow> Inl (Diagnostic (snprintf_buf 256 (''undefined symbol '' @ in_quotes (string_of (gs_name g)) @
                        '' (no definition found across input objects)'')))
          | None \<Rightarrow>
              case merge_all objs nothing_merged of
                None \<Rightarrow> Inl Undefined
              | Some m \<Rightarrow>
                  let t = map (place_symbol m) t
                  in case entry_point t of
                       None \<Rightarrow> Inl (Diagnostic ''no valid entry point (_start or main) found in input objects'')
                     | Some entry \<Rightarrow>
                         case relocate_all m t 0 objs (mg_text m) of
                           Inl e \<Rightarrow> Inl e
                         | Inr code \<Rightarrow> Inr (executable m entry code))"

text \<open>The result is the file to write: its path and contents. \<open>open_out\<close> is the system error, if it cannot be opened.\<close>

definition elf64_link_objects ::
  "(string \<Rightarrow> string + u8 list) \<Rightarrow> (string \<Rightarrow> string option) \<Rightarrow> u8 list \<Rightarrow> bool \<Rightarrow> string list \<Rightarrow> string option
     \<Rightarrow> link_error + string \<times> u8 list" where
  "elf64_link_objects fs open_out runtime standalone inputs out_path =
     (case out_path of
        None \<Rightarrow> Inl (Diagnostic ''null linker options or output path'')
      | Some out \<Rightarrow>
          if inputs = [] then Inl (Diagnostic ''no input object files specified for linking'')
          else case read_all fs inputs of
                 Inl e \<Rightarrow> Inl e
               | Inr objs \<Rightarrow>
                   case add_runtime runtime standalone objs of
                     Inl e \<Rightarrow> Inl e
                   | Inr objs \<Rightarrow>
                       case link_parsed objs of
                         Inl e \<Rightarrow> Inl e
                       | Inr exe \<Rightarrow>
                           case open_out out of
                             Some e \<Rightarrow> Inl (Diagnostic (snprintf_buf 256 (''failed to open output file '' @ in_quotes out @
                               '' for writing: '' @ e)))
                           | None \<Rightarrow> Inr (out, exe))"

definition elf64_link_files ::
  "(string \<Rightarrow> string + u8 list) \<Rightarrow> (string \<Rightarrow> string option) \<Rightarrow> u8 list \<Rightarrow> string list \<Rightarrow> string option
     \<Rightarrow> link_error + string \<times> u8 list" where
  "elf64_link_files fs open_out runtime inputs out_path = elf64_link_objects fs open_out runtime True inputs out_path"

definition elf64_link_single_file ::
  "(string \<Rightarrow> string + u8 list) \<Rightarrow> (string \<Rightarrow> string option) \<Rightarrow> u8 list \<Rightarrow> string \<Rightarrow> string option
     \<Rightarrow> link_error + string \<times> u8 list" where
  "elf64_link_single_file fs open_out runtime input out_path = elf64_link_files fs open_out runtime [input] out_path"

end
