(* ===== verification/X86_Module.thy ===== *)
theory X86_Module
  imports X86_Codegen X86_Encode X86_Link
begin

text \<open>
  The two entry points of \<open>src/backend/x86_64/x86_64_codegen.c\<close>: the assembly text of a module and
  its object file. The functions are generated in order with common pools of constants; the object
  file has the pools in \<open>.rodata\<close>, and the relocations that name a constant are turned into
  relocations against that section. The profile of a module is an optional argument and the file
  system a parameter, as for the block order and the object writer.
\<close>

section \<open>All functions\<close>

text \<open>\<open>Crash\<close> is a null pointer dereferenced. The outer option is \<open>None\<close> if a register allocation does not end.\<close>

datatype module_error = Reported string | Crash

primrec module_error_of :: "gen_error \<Rightarrow> module_error" where
  "module_error_of (Unsupported msg) = Reported msg"
| "module_error_of Null_Operand = Crash"

definition start_codegen :: codegen where
  "start_codegen = clear_floats (clear_strings \<lparr>cg_list = [], cg_strings = [], cg_floats = []\<rparr>)"

fun gen_functions ::
  "(string \<Rightarrow> string \<Rightarrow> u64 \<times> u64) option \<Rightarrow> ir_function list \<Rightarrow> codegen
     \<Rightarrow> (module_error + x86_instr_list list \<times> codegen) option" where
  "gen_functions profile [] cg = Some (Inr ([], cg))"
| "gen_functions profile (f # fs) cg =
     (case gen_function_instructions profile f cg of
        None \<Rightarrow> None
      | Some (Inl e) \<Rightarrow> Some (Inl (module_error_of e))
      | Some (Inr cg) \<Rightarrow>
          (case gen_functions profile fs cg of
             None \<Rightarrow> None
           | Some (Inl e) \<Rightarrow> Some (Inl e)
           | Some (Inr (lss, cg')) \<Rightarrow> Some (Inr (cg_list cg # lss, cg'))))"

section \<open>Assembly text\<close>

text \<open>Formatted text goes through a buffer of 1024 bytes.\<close>

definition APPENDF :: "string \<Rightarrow> string" where
  "APPENDF s = snprintf_buf 1024 s"

definition line :: "string \<Rightarrow> string" where
  "line s = s @ newline"

definition in_dquotes :: "string \<Rightarrow> string" where
  "in_dquotes s = [CHR 0x22] @ s @ [CHR 0x22]"

definition hex16 :: "u64 \<Rightarrow> string" where
  "hex16 v = (let s = hexadecimal (unat v) in replicate (16 - length s) (CHR ''0'') @ s)"

definition fixed_rodata_text :: string where
  "fixed_rodata_text =
     line ''    .section .rodata'' @
     line ''.LC_fmt_int:'' @ line (''    .string '' @ in_dquotes (''%ld'' @ [CHR 0x5C, CHR ''n''])) @
     line ''.LC_fmt_float:'' @ line (''    .string '' @ in_dquotes (''%g'' @ [CHR 0x5C, CHR ''n''])) @
     line ''.LC_fmt_str:'' @ line (''    .string '' @ in_dquotes (''%s'' @ [CHR 0x5C, CHR ''n''])) @
     line ''.LC_str_true:'' @ line (''    .string '' @ in_dquotes ''true'') @
     line ''.LC_str_false:'' @ line (''    .string '' @ in_dquotes ''false'') @
     line ''    .align 16'' @ line ''.LC_neg_float_mask:'' @ line ''    .quad 0x8000000000000000'' @ line ''    .quad 0''"

definition string_text :: "nat \<times> string \<Rightarrow> string" where
  "string_text s = APPENDF (line (''.LC_str_'' @ decimal (fst s) @ '':'') @ line (''    .string '' @ in_dquotes (snd s)))"

definition float_text :: "nat \<times> u64 \<Rightarrow> string" where
  "float_text f = APPENDF (line (''.LC_float_'' @ decimal (fst f) @ '':'') @ line (''    .quad 0x'' @ hex16 (snd f)))"

definition function_text :: "string \<Rightarrow> x86_instr_list \<Rightarrow> string" where
  "function_text nm xs =
     APPENDF (newline @ line (''    .globl '' @ nm)) @
     APPENDF (line (''    .type '' @ nm @ '', @function'')) @
     x86_instr_list_to_asm xs @
     APPENDF (line (''    .size '' @ nm @ '', .-'' @ nm))"

definition x86_64_generate_assembly ::
  "(string \<Rightarrow> string \<Rightarrow> u64 \<times> u64) option \<Rightarrow> ir_module option \<Rightarrow> (module_error + string) option" where
  "x86_64_generate_assembly profile mdl =
     (case mdl of
        None \<Rightarrow> Some (Inl (Reported ''x86-64 backend error: null IR module''))
      | Some md \<Rightarrow>
          (case gen_functions profile (m_functions md) start_codegen of
             None \<Rightarrow> None
           | Some (Inl e) \<Rightarrow> Some (Inl e)
           | Some (Inr (lss, cg)) \<Rightarrow> Some (Inr
               (APPENDF (line (''    .file '' @ in_dquotes (m_name md))) @
                fixed_rodata_text @
                concat (map string_text (cg_strings cg)) @
                concat (map float_text (cg_floats cg)) @
                line ''    .text'' @
                concat (map2 function_text (map fn_name (m_functions md)) lss) @
                newline @ line (''    .section .note.GNU-stack,'' @ in_dquotes '''' @ '',@progbits'')))))"

section \<open>Read-only data\<close>

text \<open>The bytes of \<open>.rodata\<close> and the offset of every constant.\<close>

record rodata =
  rd_buf :: byte_buffer
  rd_map :: "(string \<times> u64) list"

definition ADD_RODATA_SYM :: "string \<Rightarrow> u8 list \<Rightarrow> rodata \<Rightarrow> rodata" where
  "ADD_RODATA_SYM nm data rd =
     \<lparr>rd_buf = byte_buf_append_bytes (rd_buf rd) data, rd_map = rd_map rd @ [(nm, of_nat (length (rd_buf rd)))]\<rparr>"

definition neg_mask :: "u8 list" where
  "neg_mask = [0, 0, 0, 0, 0, 0, 0, 0x80, 0, 0, 0, 0, 0, 0, 0, 0]"

definition fixed_constants :: "(string \<times> u8 list) list" where
  "fixed_constants =
     [(''.LC_neg_float_mask'', neg_mask),
      (''.LC_fmt_int'', bytes_of (''%ld'' @ newline) @ [0]), (''.LC_fmt_float'', bytes_of (''%g'' @ newline) @ [0]),
      (''.LC_fmt_str'', bytes_of (''%s'' @ newline) @ [0]), (''.LC_str_true'', bytes_of ''true'' @ [0]),
      (''.LC_str_false'', bytes_of ''false'' @ [0])]"

definition string_constant :: "nat \<times> string \<Rightarrow> string \<times> u8 list" where
  "string_constant s = (str_symbol (fst s), bytes_of (snd s) @ [0])"

definition float_constant :: "nat \<times> u64 \<Rightarrow> string \<times> u8 list" where
  "float_constant f = (float_symbol (fst f), byte_buf_append_u64 [] (snd f))"

definition add_constants :: "(string \<times> u8 list) list \<Rightarrow> rodata \<Rightarrow> rodata" where
  "add_constants cs rd = fold (\<lambda>c. ADD_RODATA_SYM (fst c) (snd c)) cs rd"

text \<open>The floating-point constants start at a multiple of eight.\<close>

definition align_floats :: "rodata \<Rightarrow> rodata" where
  "align_floats rd = rd\<lparr>rd_buf := rd_buf rd @ replicate ((8 - length (rd_buf rd) mod 8) mod 8) 0\<rparr>"

definition build_rodata :: "codegen \<Rightarrow> rodata" where
  "build_rodata cg =
     add_constants (map float_constant (cg_floats cg)) (align_floats
       (add_constants (map string_constant (cg_strings cg))
         (add_constants fixed_constants \<lparr>rd_buf = [], rd_map = []\<rparr>)))"

section \<open>The object file\<close>

text \<open>All functions are encoded into one section; each defines a global symbol.\<close>

fun encode_functions ::
  "(string \<times> x86_instr_list) list \<Rightarrow> byte_buffer \<Rightarrow> x86_reloc list \<Rightarrow> elf_symbol_desc list
     \<Rightarrow> string + byte_buffer \<times> x86_reloc list \<times> elf_symbol_desc list" where
  "encode_functions [] code relocs ds = Inr (code, relocs, ds)"
| "encode_functions ((nm, xs) # fs) code relocs ds =
     (case x86_encode_function (Some xs) (Some code) (Some relocs) of
        Inl e \<Rightarrow> Inl e
      | Inr (code', relocs') \<Rightarrow>
          encode_functions fs code' (the relocs')
            (elf_symbol_list_add ds (Some nm) (of_nat (length code)) (of_nat (length code' - length code)) True True))"

text \<open>
  A relocation against a constant becomes one against \<open>.rodata\<close>; another symbol that is not yet
  listed is listed as undefined. \<open>None\<close> is a null name compared.
\<close>

definition resolve_reloc ::
  "(string \<times> u64) list \<Rightarrow> x86_reloc \<Rightarrow> elf_symbol_desc list \<Rightarrow> (x86_reloc \<times> elf_symbol_desc list) option" where
  "resolve_reloc rdmap r ds =
     (case r_symbol r of
        None \<Rightarrow> None
      | Some s \<Rightarrow>
          Some (case List.find (\<lambda>e. fst e = s) rdmap of
                  Some e \<Rightarrow> (r\<lparr>r_symbol := Some ''.rodata'', r_addend := snd e - 4\<rparr>, ds)
                | None \<Rightarrow>
                    (r, if list_ex (\<lambda>d. ed_name d = s) ds then ds else elf_symbol_list_add ds (Some s) 0 0 True False)))"

fun resolve_relocs ::
  "(string \<times> u64) list \<Rightarrow> x86_reloc list \<Rightarrow> elf_symbol_desc list \<Rightarrow> (x86_reloc list \<times> elf_symbol_desc list) option" where
  "resolve_relocs rdmap [] ds = Some ([], ds)"
| "resolve_relocs rdmap (r # rs) ds =
     (case resolve_reloc rdmap r ds of
        None \<Rightarrow> None
      | Some (r, ds) \<Rightarrow> (case resolve_relocs rdmap rs ds of None \<Rightarrow> None | Some (rs, ds) \<Rightarrow> Some (r # rs, ds)))"

text \<open>What the object writer gets: code, relocations, read-only data, symbols.\<close>

definition object_parts ::
  "(string \<Rightarrow> string \<Rightarrow> u64 \<times> u64) option \<Rightarrow> ir_module
     \<Rightarrow> (module_error + byte_buffer \<times> x86_reloc list \<times> byte_buffer \<times> elf_symbol_desc list) option" where
  "object_parts profile md =
     (case gen_functions profile (m_functions md) start_codegen of
        None \<Rightarrow> None
      | Some (Inl e) \<Rightarrow> Some (Inl e)
      | Some (Inr (lss, cg)) \<Rightarrow>
          Some (case encode_functions (zip (map fn_name (m_functions md)) lss) [] [] [] of
             Inl e \<Rightarrow> Inl (Reported e)
           | Inr (code, relocs, ds) \<Rightarrow>
               (case resolve_relocs (rd_map (build_rodata cg)) relocs ds of
                  None \<Rightarrow> Inl Crash
                | Some (relocs, ds) \<Rightarrow> Inr (code, relocs, rd_buf (build_rodata cg), ds))))"

definition x86_64_emit_object_file ::
  "(string \<Rightarrow> u8 list \<Rightarrow> nat option) \<Rightarrow> (string \<Rightarrow> string \<Rightarrow> u64 \<times> u64) option \<Rightarrow> ir_module option \<Rightarrow> string option
     \<Rightarrow> (module_error + bool) option" where
  "x86_64_emit_object_file write profile mdl out_path =
     (case (mdl, out_path) of
        (Some md, Some path) \<Rightarrow>
          (case object_parts profile md of
             None \<Rightarrow> None
           | Some (Inl e) \<Rightarrow> Some (Inl e)
           | Some (Inr (code, relocs, data, ds)) \<Rightarrow>
               Some (case elf64_write_object_file write (Some path) (Some (m_name md)) code relocs data ds of
                       Inl e \<Rightarrow> Inl (Reported e)
                     | Inr ok \<Rightarrow> Inr ok))
      | _ \<Rightarrow> Some (Inl (Reported ''null module or out_path in x86_64_emit_object_file'')))"

end
