(* ===== verification/X86_Elf_Fields.thy ===== *)
theory X86_Elf_Fields
  imports X86_Link
begin

text \<open>
  What the object writer writes, the linker reads back: fields of structures, sections at their
  offsets, names in string tables, symbols and relocations.
\<close>

section \<open>Little-endian fields\<close>

named_theorems field_simps \<open>reading the fields of a structure back\<close>

lemma le_word_Nil [simp]: "le_word [] = 0"
  by (simp add: le_word_def)

lemma le_word_Cons: "le_word (b # bs) = ucast b OR push_bit 8 (le_word bs)"
  by (simp add: le_word_def)

lemma le_word_bytes:
  "le_word (map (\<lambda>i. ucast (drop_bit (8 * i) v) :: u8) [0..<n]) = take_bit (8 * n) (v :: 'a::len word)"
proof (induction n arbitrary: v)
  case 0
  then show ?case by simp
next
  case (Suc n)
  have upt: "[0..<Suc n] = 0 # map Suc [0..<n]" by (simp add: upt_conv_Cons map_Suc_upt del: upt_Suc)
  have shift: "map (\<lambda>i. ucast (drop_bit (8 * i) v) :: u8) (map Suc [0..<n]) =
      map (\<lambda>i. ucast (drop_bit (8 * i) (drop_bit 8 v)) :: u8) [0..<n]"
    by (simp add: drop_bit_drop_bit add.commute)
  have "le_word (map (\<lambda>i. ucast (drop_bit (8 * i) v) :: u8) [0..<Suc n]) =
      ucast (ucast v :: u8) OR push_bit 8 (le_word (map (\<lambda>i. ucast (drop_bit (8 * i) v) :: u8) (map Suc [0..<n])))"
    by (simp add: upt le_word_Cons del: upt_Suc)
  also have "\<dots> = ucast (ucast v :: u8) OR push_bit 8 (take_bit (8 * n) (drop_bit 8 v))"
    by (simp only: shift Suc.IH)
  also have "\<dots> = take_bit (8 * Suc n) v"
    by (auto simp: bit_eq_iff bit_simps)
  finally show ?case .
qed

lemma le_word_whole:
  fixes v :: "'a::len word"
  shows "8 * n = LENGTH('a) \<Longrightarrow> le_word (map (\<lambda>i. ucast (drop_bit (8 * i) v) :: u8) [0..<n]) = v"
  by (simp add: le_word_bytes take_bit_word_eq_self)

lemma upt_bytes:
  "[0..<Suc 0] = [0]" "[0..<2] = [0, 1]" "[0..<4] = [0, 1, 2, 3]" "[0..<8] = [0, 1, 2, 3, 4, 5, 6, 7 :: nat]"
  by (simp_all add: upt_rec)

lemma and_ff_16: "(ucast (x AND 0xFF) :: u8) = ucast (x :: u16)"
proof -
  have "(0xFF :: u16) = mask 8" by (simp add: mask_eq_exp_minus_1)
  then show ?thesis by (auto simp: bit_eq_iff bit_simps)
qed

lemma le_word_le16 [field_simps]: "le_word (le16 v) = v"
  using le_word_whole [of 2 v] by (simp add: le16_def byte_buf_append_u16_def and_ff_16 upt_bytes)

lemma le_word_le32 [field_simps]: "le_word (le32 v) = v"
  using le_word_whole [of 4 v] by (simp add: le32_def byte_buf_append_u32_def ucast_and_ff upt_bytes)

lemma le_word_le64 [field_simps]: "le_word (le64 v) = v"
proof -
  have "le64 v = map (\<lambda>i. ucast (drop_bit (8 * i) v)) [0..<8]"
    by (simp add: le64_def byte_buf_append_u64_def and_ff_64 mult.commute)
  then show ?thesis using le_word_whole [of 8 v] by simp
qed

lemma le_word_byte [field_simps]: "le_word [b] = (b :: u8)"
  by (simp add: le_word_Cons)

lemma length_le [simp]: "length (le16 v) = 2" "length (le32 w) = 4" "length (le64 x) = 8"
  by (simp_all add: le16_def le32_def le64_def byte_buf_append_u16_def byte_buf_append_u32_def byte_buf_append_u64_def)

lemma part_skip [field_simps]: "length xs \<le> k \<Longrightarrow> part (xs @ ys) k n = part ys (k - length xs) n"
  by (simp add: part_def)

lemma part_here [field_simps]: "length xs = n \<Longrightarrow> part (xs @ ys) 0 n = le_word xs"
  by (simp add: part_def)

lemma part_last [field_simps]: "length xs = n \<Longrightarrow> part xs 0 n = le_word xs"
  by (simp add: part_def)

lemma part_Cons [field_simps]:
  "0 < k \<Longrightarrow> part (b # bs) k n = part bs (k - 1) n" "part (b # bs) 0 (Suc 0) = le_word [b]"
  by (simp_all add: part_def drop_Cons')

section \<open>Structures\<close>

lemma length_sym_bytes [simp]: "length (sym_bytes s) = 24"
  by (simp add: sym_bytes_def)

lemma length_rela_bytes [simp]: "length (rela_bytes r) = 24"
  by (simp add: rela_bytes_def)

lemma length_shdr_bytes [simp]: "length (shdr_bytes s) = 64"
  by (simp add: shdr_bytes_def)

lemma length_ehdr_bytes [simp]: "length (ehdr_bytes h) = 64"
  by (simp add: ehdr_bytes_def elf_ident_def)

lemma sym_of_bytes [simp]: "sym_of (sym_bytes s) = s"
  by (simp add: sym_of_def sym_bytes_def field_simps)

lemma rela_of_bytes [simp]: "rela_of (rela_bytes r) = r"
  by (simp add: rela_of_def rela_bytes_def field_simps)

lemma shdr_of_bytes [simp]: "shdr_of (shdr_bytes s) = s"
  by (simp add: shdr_of_def shdr_bytes_def field_simps)

lemma ehdr_of_bytes [simp]: "ehdr_of (ehdr_bytes h) = h"
  by (simp add: ehdr_of_def ehdr_bytes_def elf_ident_def field_simps)

section \<open>Contents of a file\<close>

definition holds :: "u8 list \<Rightarrow> nat \<Rightarrow> u8 list \<Rightarrow> bool" where
  "holds file off bs \<longleftrightarrow> off + length bs \<le> length file \<and> take (length bs) (drop off file) = bs"

lemma holds_nth: "holds file off bs \<longleftrightarrow> off + length bs \<le> length file \<and> (\<forall>k < length bs. file ! (off + k) = bs ! k)"
  by (auto simp: holds_def list_eq_iff_nth_eq)

lemma length_blit [simp]: "off + length bs \<le> length file \<Longrightarrow> length (blit file off bs) = length file"
  by (simp add: blit_def)

lemma nth_blit:
  "off + length bs \<le> length file \<Longrightarrow> k < length file \<Longrightarrow>
     blit file off bs ! k = (if off \<le> k \<and> k < off + length bs then bs ! (k - off) else file ! k)"
  by (auto simp: blit_def nth_append min_def)

lemma holds_blit_same: "off + length bs \<le> length file \<Longrightarrow> holds (blit file off bs) off bs"
  by (simp add: holds_nth nth_blit)

lemma holds_blit_other:
  assumes "holds file off bs" and "off' + length bs' \<le> length file"
    and "off + length bs \<le> off' \<or> off' + length bs' \<le> off"
  shows "holds (blit file off' bs') off bs"
  using assms by (auto simp: holds_nth nth_blit)

lemma holds_append [simp]: "holds file off (xs @ ys) \<longleftrightarrow> holds file off xs \<and> holds file (off + length xs) ys"
proof
  assume h: "holds file off (xs @ ys)"
  then have a: "off + length xs + length ys \<le> length file"
    and n: "\<And>k. k < length xs + length ys \<Longrightarrow> file ! (off + k) = (xs @ ys) ! k"
    by (auto simp: holds_nth)
  have "file ! (off + k) = xs ! k" if "k < length xs" for k using n [of k] that by (simp add: nth_append)
  moreover have "file ! (off + length xs + k) = ys ! k" if "k < length ys" for k
    using n [of "length xs + k"] that by (simp add: nth_append add.assoc)
  ultimately show "holds file off xs \<and> holds file (off + length xs) ys" using a by (auto simp: holds_nth)
next
  assume h: "holds file off xs \<and> holds file (off + length xs) ys"
  have "file ! (off + k) = (xs @ ys) ! k" if k: "k < length xs + length ys" for k
  proof (cases "k < length xs")
    case True
    then show ?thesis using h by (simp add: holds_nth nth_append)
  next
    case False
    then have "k = length xs + (k - length xs)" "k - length xs < length ys" using k by auto
    then show ?thesis using h unfolding holds_nth by (metis add.assoc nth_append_length_plus)
  qed
  then show "holds file off (xs @ ys)" using h by (auto simp: holds_nth)
qed

lemma holds_extend: "holds file off bs \<Longrightarrow> holds (file @ rest) off bs"
  by (auto simp: holds_nth nth_append)

lemma holds_inside: "holds file off bs \<Longrightarrow> holds bs k cs \<Longrightarrow> holds file (off + k) cs"
  by (auto simp: holds_nth add.assoc)

lemma holds_concat:
  assumes "holds file off (concat (map g xs))" and "\<And>x. length (g x) = w" and "i < length xs"
  shows "holds file (off + i * w) (g (xs ! i))"
  using assms(1,3)
proof (induction xs arbitrary: off i)
  case Nil
  then show ?case by simp
next
  case (Cons x xs)
  then show ?case using assms(2) by (cases i) (auto simp: add.assoc [symmetric])
qed

lemma length_concat_map: "(\<And>x. length (g x) = w) \<Longrightarrow> length (concat (map g xs)) = length xs * w"
  by (induction xs) auto

lemma holds_slice: "holds data (unat off) bs \<Longrightarrow> unat n = length bs \<Longrightarrow> slice data off n = Some bs"
  by (simp add: holds_def slice_def)

lemma read_sym_holds: "holds data (unat off) (sym_bytes s) \<Longrightarrow> read_sym data off = Some s"
  by (simp add: read_sym_def holds_slice)

lemma read_rela_holds: "holds data (unat off) (rela_bytes r) \<Longrightarrow> read_rela data off = Some r"
  by (simp add: read_rela_def holds_slice)

lemma read_shdr_holds: "holds data (unat off) (shdr_bytes s) \<Longrightarrow> read_shdr data off = Some s"
  by (simp add: read_shdr_def holds_slice)

section \<open>Strings\<close>

lemma holds_split: "holds file off bs \<Longrightarrow> drop off file = bs @ drop (off + length bs) file"
  by (metis append_take_drop_id drop_drop add.commute holds_def)

lemma takeWhile_null: "0 \<notin> set s \<Longrightarrow> takeWhile (\<lambda>b. b \<noteq> 0) (s @ (0 :: u8) # rest) = s"
  by (induction s) auto

lemma cstr_holds: "holds data off (s @ [0]) \<Longrightarrow> 0 \<notin> set s \<Longrightarrow> cstr_at data off = s"
  by (drule holds_split) (simp add: cstr_at_def takeWhile_null)

lemma c_string_holds:
  assumes "holds data (unat off) (s @ [0])" and "0 \<notin> set s"
  shows "c_string data off = Some s"
  using holds_split [OF assms(1)] cstr_holds [OF assms] by (simp add: c_string_def)

lemma c_streq_append: "0 \<notin> set s \<Longrightarrow> 0 \<notin> set t \<Longrightarrow> c_streq (s @ 0 # rest) (t @ [0]) = Some (s = t)"
proof (induction s arbitrary: t)
  case Nil
  then show ?case by (cases t) auto
next
  case (Cons x s)
  then show ?case by (cases t) auto
qed

lemma is_named_holds:
  assumes "holds data (unat off) (s @ [0])" and "0 \<notin> set s" and "0 \<notin> set (bytes_of t)"
  shows "is_named data off t = Some (s = bytes_of t)"
  using holds_split [OF assms(1)] c_streq_append [OF assms(2,3)] by (simp add: is_named_def)

lemma bytes_of_inj [simp]: "bytes_of s = bytes_of t \<longleftrightarrow> s = t"
proof -
  have "inj (of_char :: char \<Rightarrow> u8)"
  proof (rule injI)
    fix c d :: char assume "(of_char c :: u8) = of_char d"
    then have "unat (of_char c :: u8) = unat (of_char d :: u8)" by simp
    moreover have "unat (of_char c :: u8) = of_char c" for c :: char
      by (cases c) (simp add: of_char_def)
    ultimately show "c = d" by simp
  qed
  then show ?thesis by (simp add: bytes_of_def inj_map_eq_map)
qed

section \<open>String tables\<close>

lemma holds_cstr:
  assumes "cstr_at t i = s" and "i + length s < length t"
  shows "holds t i (s @ [0])"
proof -
  let ?d = "drop i t"
  have s: "s = takeWhile (\<lambda>b. b \<noteq> 0) ?d" using assms(1) by (simp add: cstr_at_def)
  have len: "length s < length ?d" using assms(2) by simp
  have "?d ! length s = 0" using nth_length_takeWhile [of "\<lambda>b. b \<noteq> 0" ?d] len unfolding s [symmetric] by simp
  moreover have "take (length s) ?d = s" using takeWhile_eq_take [of "\<lambda>b. b \<noteq> 0" ?d] unfolding s [symmetric] by simp
  ultimately have "take (Suc (length s)) ?d = s @ [0]" by (simp only: take_Suc_conv_app_nth [OF len])
  then show ?thesis using assms(2) by (simp add: holds_def)
qed

lemma str_table_add_cases:
  assumes "str_table_add t s = (i, t')"
  obtains (empty) "s = []" "i = 0" "t' = t"
    | (found) j where "s \<noteq> []" "i = of_nat j" "t' = t" "j < length t - length s" "cstr_at t j = s"
    | (added) "s \<noteq> []" "i = of_nat (length t)" "t' = t @ s @ [0]"
proof (cases "s = []")
  case True
  then show ?thesis using assms empty by (simp add: str_table_add_def)
next
  case False
  show ?thesis
  proof (cases "List.find (\<lambda>i. cstr_at t i = s) [1..<length t - length s]")
    case None
    then show ?thesis using assms False added by (simp add: str_table_add_def)
  next
    case (Some j)
    from find_SomeD [OF this] have "j < length t - length s" "cstr_at t j = s" by auto
    then show ?thesis using assms False Some found [of j] by (simp add: str_table_add_def)
  qed
qed

lemma str_table_add_holds:
  assumes "str_table_add t s = (i, t')" and "0 \<notin> set s" and "length t' < 2 ^ 32" and "holds t 0 [0]"
  shows "holds t' (unat i) (s @ [0]) \<and> (\<exists>e. t' = t @ e) \<and> unat i < length t' \<and> length t' \<le> length t + length s + 1"
proof -
  from assms(1) show ?thesis
  proof (cases rule: str_table_add_cases)
    case empty
    moreover have "0 < length t" using assms(4) by (cases t) (simp_all add: holds_def)
    ultimately show ?thesis using assms(4) by simp
  next
    case (found j)
    have u: "unat i = j" using found assms(3) by (simp add: unat_of_nat)
    have "holds t j (s @ [0])" by (rule holds_cstr [OF found(5)]) (use found(4) in simp)
    then show ?thesis using found(3,4) u by simp
  next
    case added
    have u: "unat i = length t" using added assms(3) by (simp add: unat_of_nat)
    have "holds t' (length t) (s @ [0])" unfolding added(3) holds_def by simp
    then show ?thesis using added(3) u by simp
  qed
qed

lemma str_table_add_length: "str_table_add t s = (i, t') \<Longrightarrow> length t \<le> length t'"
  by (erule str_table_add_cases) simp_all

lemma str_table_add_all_length: "str_table_add_all t ss = (is, t') \<Longrightarrow> length t \<le> length t' \<and> length is = length ss"
proof (induction ss arbitrary: t "is" t')
  case Nil
  then show ?case by simp
next
  case (Cons s ss)
  then show ?case by (fastforce split: prod.splits dest: str_table_add_length)
qed

lemma str_table_add_all_holds:
  assumes "str_table_add_all t ss = (is, t')" and "\<forall>s \<in> set ss. 0 \<notin> set s" and "length t' < 2 ^ 32" and "holds t 0 [0]"
  shows "(\<exists>e. t' = t @ e) \<and> (\<forall>k < length ss. holds t' (unat (is ! k)) (ss ! k @ [0]) \<and> unat (is ! k) < length t') \<and>
    length t' \<le> length t + (\<Sum>s \<leftarrow> ss. length s + 1)"
  using assms
proof (induction ss arbitrary: t "is" t')
  case Nil
  then show ?case by simp
next
  case (Cons s ss)
  obtain i t1 where a: "str_table_add t s = (i, t1)" by fastforce
  obtain js t2 where b: "str_table_add_all t1 ss = (js, t2)" by fastforce
  have eq: "is = i # js" "t' = t2" using Cons.prems(1) a b by auto
  have len: "length t1 \<le> length t2" using str_table_add_all_length [OF b] by simp
  have t1: "length t1 < 2 ^ 32" using len Cons.prems(3) eq by simp
  have s: "0 \<notin> set s" using Cons.prems(2) by simp
  note one = str_table_add_holds [OF a s t1 Cons.prems(4)]
  have h1: "holds t1 0 [0]" using one holds_extend [OF Cons.prems(4)] by blast
  have rest: "\<forall>s \<in> set ss. 0 \<notin> set s" using Cons.prems(2) by simp
  have two: "(\<exists>e. t2 = t1 @ e) \<and> (\<forall>k < length ss. holds t2 (unat (js ! k)) (ss ! k @ [0]) \<and> unat (js ! k) < length t2) \<and>
    length t2 \<le> length t1 + (\<Sum>s \<leftarrow> ss. length s + 1)"
    by (rule Cons.IH [OF b rest _ h1]) (use Cons.prems(3) eq in simp)
  have h2: "holds t2 (unat i) (s @ [0])" using one two holds_extend by blast
  show ?case
    unfolding eq
  proof (intro conjI allI impI)
    show "\<exists>e. t2 = t @ e" using one two by auto
    show "length t2 \<le> length t + (\<Sum>s \<leftarrow> s # ss. length s + 1)" using one two by simp
  next
    fix k assume k: "k < length (s # ss)"
    show "holds t2 (unat ((i # js) ! k)) ((s # ss) ! k @ [0])"
      using k h2 two by (cases k) simp_all
    show "unat ((i # js) ! k) < length t2"
      using k one len two by (cases k) simp_all
  qed
qed

section \<open>The layout of the file\<close>

lemma align_offset_bounds:
  assumes "a = 8 \<or> a = 16" and "unat x < 2 ^ 40"
  shows "unat x \<le> unat (align_offset x a)" and "unat (align_offset x a) < unat x + 16"
proof -
  let ?y = "x + a - 1"
  have y: "unat ?y = unat x + unat a - 1" using assms by unat_arith auto
  have r: "align_offset x a = ?y - (?y AND (a - 1))"
  proof -
    have "?y AND NOT (a - 1) = ?y AND NOT (?y AND (a - 1))" by (rule bit_word_eqI) (auto simp: bit_simps)
    also have "\<dots> = ?y - (?y AND (a - 1))" by (rule disjunctive_diff [symmetric]) (simp add: bit_simps)
    moreover have "\<not> a \<le> 1" using assms(1) by (auto simp: word_le_nat_alt)
    ultimately show ?thesis by (simp add: align_offset_def)
  qed
  have le: "?y AND (a - 1) \<le> ?y" "?y AND (a - 1) \<le> a - 1" by (simp_all add: word_and_le1 word_and_le2)
  have a: "unat (a - 1) = unat a - 1" "unat a \<le> 16" "1 \<le> unat a" using assms(1) by auto
  have "unat (align_offset x a) = unat ?y - unat (?y AND (a - 1))" using r le(1) by (simp add: unat_sub)
  moreover have "unat (?y AND (a - 1)) \<le> unat a - 1" using le(2) a(1) by (simp add: word_le_nat_alt)
  ultimately show "unat x \<le> unat (align_offset x a)" "unat (align_offset x a) < unat x + 16" using y a by linarith+
qed

lemma unat_add_small: "unat x + unat y < 2 ^ 64 \<Longrightarrow> unat (x + y :: u64) = unat x + unat y"
  by (rule unat_add_lem [THEN iffD1]) simp

definition ordered_layout :: "elf_layout \<Rightarrow> nat \<Rightarrow> nat \<Rightarrow> nat \<Rightarrow> nat \<Rightarrow> nat \<Rightarrow> nat \<Rightarrow> bool" where
  "ordered_layout l a b c d e f \<longleftrightarrow> 64 \<le> unat (l_text l) \<and> unat (l_text l) + a \<le> unat (l_rela l) \<and>
     unat (l_rela l) + b \<le> unat (l_rodata l) \<and> unat (l_rodata l) + c \<le> unat (l_symtab l) \<and>
     unat (l_symtab l) + d \<le> unat (l_strtab l) \<and> unat (l_strtab l) + e \<le> unat (l_shstrtab l) \<and>
     unat (l_shstrtab l) + f \<le> unat (l_shdr l) \<and> unat (l_shdr l) < 2 ^ 34"

lemma layout_ordered:
  assumes "unat a + unat b + unat c + unat d + unat e + unat f < 2 ^ 33"
  shows "ordered_layout (layout_sections a b c d e f) (unat a) (unat b) (unat c) (unat d) (unat e) (unat f)"
proof -
  define t where "t = align_offset 64 16"
  define r where "r = align_offset (t + a) 8"
  define q where "q = align_offset (r + b) 16"
  define s where "s = align_offset (q + c) 8"
  define h where "h = align_offset (s + d + e + f) 8"
  have t: "64 \<le> unat t" "unat t < 80" using align_offset_bounds [of 16 64] by (simp_all add: t_def)
  have ta: "unat (t + a) = unat t + unat a" using t assms by (intro unat_add_small) simp
  have r: "unat t + unat a \<le> unat r" "unat r < unat t + unat a + 16"
    using align_offset_bounds [of 8 "t + a"] ta t assms by (simp_all add: r_def)
  have rb: "unat (r + b) = unat r + unat b" using r t assms by (intro unat_add_small) simp
  have q: "unat r + unat b \<le> unat q" "unat q < unat r + unat b + 16"
    using align_offset_bounds [of 16 "r + b"] rb r t assms by (simp_all add: q_def)
  have qc: "unat (q + c) = unat q + unat c" using q r t assms by (intro unat_add_small) simp
  have s: "unat q + unat c \<le> unat s" "unat s < unat q + unat c + 16"
    using align_offset_bounds [of 8 "q + c"] qc q r t assms by (simp_all add: s_def)
  have sd: "unat (s + d) = unat s + unat d" using s q r t assms by (intro unat_add_small) simp
  have se: "unat (s + d + e) = unat s + unat d + unat e"
    using unat_add_small [of "s + d" e] sd s q r t assms by simp
  have sf: "unat (s + d + e + f) = unat s + unat d + unat e + unat f"
    using unat_add_small [of "s + d + e" f] se s q r t assms by simp
  have h: "unat s + unat d + unat e + unat f \<le> unat h" "unat h < unat s + unat d + unat e + unat f + 16"
    using align_offset_bounds [of 8 "s + d + e + f"] sf s q r t assms by (simp_all add: h_def)
  have l: "layout_sections a b c d e f = \<lparr>l_text = t, l_rela = r, l_rodata = q, l_symtab = s, l_strtab = s + d,
      l_shstrtab = s + d + e, l_shdr = h\<rparr>"
    by (simp add: layout_sections_def Let_def t_def r_def q_def s_def h_def)
  show ?thesis using t r q s h sd se assms by (simp add: l ordered_layout_def)
qed

text \<open>Regions written in the order of the file do not disturb each other.\<close>

definition blits :: "u8 list \<Rightarrow> (nat \<times> u8 list) list \<Rightarrow> u8 list" where
  "blits file rs = fold (\<lambda>(off, bs) f. blit f off bs) rs file"

fun in_order :: "nat \<Rightarrow> nat \<Rightarrow> (nat \<times> u8 list) list \<Rightarrow> bool" where
  "in_order k n [] \<longleftrightarrow> k \<le> n"
| "in_order k n ((off, bs) # rs) \<longleftrightarrow> k \<le> off \<and> in_order (off + length bs) n rs"

lemma in_order_le: "in_order k n rs \<Longrightarrow> k \<le> n"
  by (induction k n rs rule: in_order.induct) auto

lemma blits_Cons [simp]: "blits file ((off, bs) # rs) = blits (blit file off bs) rs"
  by (simp add: blits_def)

lemma blits_keeps:
  "in_order k (length file) rs \<Longrightarrow> holds file off bs \<Longrightarrow> off + length bs \<le> k \<Longrightarrow> holds (blits file rs) off bs"
proof (induction rs arbitrary: "file" k)
  case Nil
  then show ?case by (simp add: blits_def)
next
  case (Cons r rs)
  obtain off' bs' where r: "r = (off', bs')" by fastforce
  have o: "k \<le> off'" "in_order (off' + length bs') (length file) rs" using Cons.prems(1) r by auto
  have le: "off' + length bs' \<le> length file" using in_order_le [OF o(2)] .
  have "holds (blit file off' bs') off bs"
    by (rule holds_blit_other [OF Cons.prems(2) le]) (use Cons.prems(3) o(1) in simp)
  then show ?case using Cons.IH [of "off' + length bs'" "blit file off' bs'"] o le Cons.prems(3) r by simp
qed

lemma length_blits: "in_order k (length file) rs \<Longrightarrow> length (blits file rs) = length file"
proof (induction rs arbitrary: "file" k)
  case Nil
  then show ?case by (simp add: blits_def)
next
  case (Cons r rs)
  obtain off' bs' where r: "r = (off', bs')" by fastforce
  have o: "in_order (off' + length bs') (length file) rs" using Cons.prems r by auto
  show ?case using Cons.IH [of "off' + length bs'" "blit file off' bs'"] o in_order_le [OF o] r by simp
qed

lemma blits_holds:
  "in_order k (length file) rs \<Longrightarrow> (off, bs) \<in> set rs \<Longrightarrow> holds (blits file rs) off bs"
proof (induction rs arbitrary: "file" k)
  case Nil
  then show ?case by simp
next
  case (Cons r rs)
  obtain off' bs' where r: "r = (off', bs')" by fastforce
  have o: "in_order (off' + length bs') (length file) rs" using Cons.prems(1) r by auto
  have le: "off' + length bs' \<le> length file" using in_order_le [OF o] .
  then have o': "in_order (off' + length bs') (length (blit file off' bs')) rs" using o by simp
  show ?case
    using Cons.prems(2) Cons.IH [OF o'] blits_keeps [OF o' holds_blit_same [OF le]] r by auto
qed

end
