(* ===== verification/X86_Elf_Roundtrip.thy ===== *)
theory X86_Elf_Roundtrip
  imports X86_Elf_Fields
begin

text \<open>
  The linker reads back what the object writer has written: the sections, every symbol with its
  name, and every relocation with the name of its symbol.
\<close>

section \<open>What the writer has put where\<close>

definition object_size :: "string \<Rightarrow> u8 list \<Rightarrow> x86_reloc list \<Rightarrow> u8 list \<Rightarrow> elf_symbol_desc list \<Rightarrow> nat" where
  "object_size source code relocs data ds =
     length source + length code + 24 * length relocs + length data + (\<Sum>d \<leftarrow> ds. length (ed_name d) + 25)"

definition no_null :: "string \<Rightarrow> bool" where
  "no_null s \<longleftrightarrow> CHR 0x00 \<notin> set s"

text \<open>The file, seen from its parts.\<close>

definition written_file ::
  "u8 list \<Rightarrow> elf_layout \<Rightarrow> u8 list \<Rightarrow> elf64_rela list \<Rightarrow> u8 list \<Rightarrow> elf64_sym list \<Rightarrow> u8 list \<Rightarrow> u8 list \<Rightarrow> elf64_shdr list \<Rightarrow> bool" where
  "written_file file l code relas data syms strtab shstrtab shdrs \<longleftrightarrow>
     length file = unat (l_shdr l) + 512 \<and> length shdrs = 8 \<and>
     ordered_layout l (length code) (24 * length relas) (length data) (24 * length syms) (length strtab) (length shstrtab) \<and>
     length code + 24 * length relas + length data + 24 * length syms + length strtab + length shstrtab < 2 ^ 31 \<and>
     holds file 0 (ehdr_bytes (object_ehdr (l_shdr l))) \<and>
     holds file (unat (l_text l)) code \<and>
     holds file (unat (l_rela l)) (concat (map rela_bytes relas)) \<and>
     holds file (unat (l_rodata l)) data \<and>
     holds file (unat (l_symtab l)) (concat (map sym_bytes syms)) \<and>
     holds file (unat (l_strtab l)) strtab \<and>
     holds file (unat (l_shstrtab l)) shstrtab \<and>
     holds file (unat (l_shdr l)) (concat (map shdr_bytes shdrs))"

lemma elf_contents_written:
  assumes "ordered_layout l (length code) (24 * length relas) (length data) (24 * length syms) (length strtab) (length shstrtab)"
    and "length code + 24 * length relas + length data + 24 * length syms + length strtab + length shstrtab < 2 ^ 31"
    and "length shdrs = 8"
  shows "written_file (elf_contents l code (concat (map rela_bytes relas)) data (concat (map sym_bytes syms)) strtab shstrtab
           (concat (map shdr_bytes shdrs))) l code relas data syms strtab shstrtab shdrs"
proof -
  let ?rs = "[(0, ehdr_bytes (object_ehdr (l_shdr l))), (unat (l_text l), code),
      (unat (l_rela l), concat (map rela_bytes relas)), (unat (l_rodata l), data),
      (unat (l_symtab l), concat (map sym_bytes syms)), (unat (l_strtab l), strtab),
      (unat (l_shstrtab l), shstrtab), (unat (l_shdr l), concat (map shdr_bytes shdrs))]"
  let ?z = "replicate (unat (l_shdr l + 512)) (0 :: u8)"
  have len: "length (concat (map rela_bytes relas)) = length relas * 24" "length (concat (map sym_bytes syms)) = length syms * 24"
    "length (concat (map shdr_bytes shdrs)) = 512"
    using assms(3) length_concat_map [of rela_bytes 24] length_concat_map [of sym_bytes 24]
      length_concat_map [of shdr_bytes 64] by simp_all
  have n: "unat (l_shdr l + 512) = unat (l_shdr l) + 512"
    using assms(1) unat_add_small [of "l_shdr l" 512] by (simp add: ordered_layout_def)
  have o: "in_order 0 (length ?z) ?rs"
    using assms(1) n by (simp add: len ordered_layout_def mult.commute)
  have e: "elf_contents l code (concat (map rela_bytes relas)) data (concat (map sym_bytes syms)) strtab shstrtab
      (concat (map shdr_bytes shdrs)) = blits ?z ?rs"
    by (simp add: elf_contents_def Let_def) (simp add: blits_def)
  show ?thesis
    unfolding e written_file_def using length_blits [OF o] blits_holds [OF o] assms n by simp
qed

section \<open>Names and symbols of the object\<close>

lemma bytes_no_null: "no_null s \<Longrightarrow> 0 \<notin> set (bytes_of s)"
proof
  assume n: "no_null s" and "0 \<in> set (bytes_of s)"
  then obtain c where c: "c \<in> set s" "(of_char c :: u8) = 0" by (auto simp: bytes_of_def)
  then have "bytes_of [c] = bytes_of [CHR 0x00]" by (simp add: bytes_of_def)
  then have "c = CHR 0x00" using bytes_of_inj [of "[c]" "[CHR 0x00]"] by blast
  then show False using n c(1) by (simp add: no_null_def)
qed

lemma length_bytes_of [simp]: "length (bytes_of s) = length s"
  by (simp add: bytes_of_def)

lemma str_table_add_bound: "str_table_add t s = (i, t') \<Longrightarrow> length t' \<le> length t + length s + 1"
  by (erule str_table_add_cases) simp_all

lemma str_table_add_all_bound:
  "str_table_add_all t ss = (is, t') \<Longrightarrow> length t' \<le> length t + (\<Sum>s \<leftarrow> ss. length s + 1)"
proof (induction ss arbitrary: t "is" t')
  case Nil
  then show ?case by simp
next
  case (Cons s ss)
  obtain i t1 where a: "str_table_add t s = (i, t1)" by fastforce
  obtain js t2 where b: "str_table_add_all t1 ss = (js, t2)" by fastforce
  show ?case using Cons.prems Cons.IH [OF b] str_table_add_bound [OF a] a b by simp
qed

lemma length_symbol_order [simp]: "length (symbol_order ds) = length ds"
  by (simp add: symbol_order_def sum_length_filter_compl)

lemma set_symbol_order [simp]: "set (symbol_order ds) = set ds"
  by (auto simp: symbol_order_def)

lemma sum_symbol_order: "(\<Sum>d \<leftarrow> symbol_order ds. g d) = (\<Sum>d \<leftarrow> ds. g d :: nat)"
  by (induction ds) (auto simp: symbol_order_def)

lemma build_symtab_facts:
  assumes "build_symtab source ds = (syms, strtab)" and "no_null source" and "list_all (\<lambda>d. no_null (ed_name d)) ds"
    and "length source + (\<Sum>d \<leftarrow> ds. length (ed_name d) + 1) < 2 ^ 31"
  shows "length syms = 3 + length ds" and "syms ! 2 = rodata_sym"
    and "length strtab \<le> 2 + length source + (\<Sum>d \<leftarrow> ds. length (ed_name d) + 1)"
    and "k < length ds \<Longrightarrow> \<exists>n. syms ! (3 + k) = symbol_entry n (symbol_order ds ! k) \<and>
           holds strtab (unat n) (bytes_of (ed_name (symbol_order ds ! k)) @ [0]) \<and> unat n < length strtab"
proof -
  obtain i t where a: "str_table_add str_table_create (bytes_of source) = (i, t)" by fastforce
  let ?ss = "map (bytes_of \<circ> ed_name) (symbol_order ds)"
  obtain js t' where b: "str_table_add_all t ?ss = (js, t')" by fastforce
  have eq: "syms = [null_sym, file_sym i, rodata_sym] @ map2 symbol_entry js (symbol_order ds)" "strtab = t'"
    using assms(1) a b by (simp_all add: build_symtab_def)
  have j: "length js = length ds" using str_table_add_all_length [OF b] by simp
  have sum: "(\<Sum>s \<leftarrow> ?ss. length s + 1) = (\<Sum>d \<leftarrow> ds. length (ed_name d) + 1)"
    using sum_symbol_order [of "\<lambda>d. length (ed_name d) + 1" ds] by (simp add: comp_def)
  have t: "length t \<le> 2 + length source" using str_table_add_bound [OF a] by (simp add: str_table_create_def)
  show len: "length strtab \<le> 2 + length source + (\<Sum>d \<leftarrow> ds. length (ed_name d) + 1)"
    using str_table_add_all_bound [OF b] sum t eq(2) by simp
  show "length syms = 3 + length ds" "syms ! 2 = rodata_sym" using eq(1) j by simp_all
  assume k: "k < length ds"
  have small: "length t' < 2 ^ 32" using len assms(4) eq(2) by simp
  have small': "length t < 2 ^ 32" using str_table_add_all_length [OF b] small by simp
  have z: "holds str_table_create 0 [0]" by (simp add: str_table_create_def holds_def)
  have h0: "holds t 0 [0]"
    using str_table_add_holds [OF a bytes_no_null [OF assms(2)] small' z] holds_extend [OF z] by blast
  have nn: "\<forall>s \<in> set ?ss. 0 \<notin> set s" using assms(3) bytes_no_null by (auto simp: list_all_iff)
  have "holds t' (unat (js ! k)) (?ss ! k @ [0]) \<and> unat (js ! k) < length t'"
    using str_table_add_all_holds [OF b nn small h0] k by simp
  then show "\<exists>n. syms ! (3 + k) = symbol_entry n (symbol_order ds ! k) \<and>
      holds strtab (unat n) (bytes_of (ed_name (symbol_order ds ! k)) @ [0]) \<and> unat n < length strtab"
    using eq j k by (intro exI [of _ "js ! k"]) (simp add: nth_append)
qed

text \<open>The names of the sections.\<close>

definition shstr :: "u32 list \<times> u8 list" where
  "shstr = str_table_add_all str_table_create (map bytes_of section_names)"

lemma section_names_no_null: "list_all no_null section_names"
  by (simp add: section_names_def no_null_def)

lemma shstr_facts:
  shows "length (snd shstr) \<le> 68"
    and "k < 7 \<Longrightarrow> holds (snd shstr) (unat (fst shstr ! k)) (bytes_of (section_names ! k) @ [0])"
    and "k < 7 \<Longrightarrow> unat (fst shstr ! k) < length (snd shstr)"
    and "0 < length (snd shstr)" and "holds (snd shstr) 0 [0]"
proof -
  obtain js t where b: "str_table_add_all str_table_create (map bytes_of section_names) = (js, t)" by fastforce
  then have eq: "shstr = (js, t)" by (simp add: shstr_def)
  show len: "length (snd shstr) \<le> 68"
    using str_table_add_all_bound [OF b] by (simp add: eq section_names_def str_table_create_def eval_nat_numeral)
  have z: "holds str_table_create 0 [0]" by (simp add: str_table_create_def holds_def)
  have nn: "\<forall>s \<in> set (map bytes_of section_names). 0 \<notin> set s"
    using section_names_no_null bytes_no_null by (auto simp: list_all_iff)
  have small: "length t < 2 ^ 32" using len by (simp add: eq)
  note h = str_table_add_all_holds [OF b nn small z]
  have seven: "length (map bytes_of section_names) = 7" by (simp add: section_names_def)
  show "k < 7 \<Longrightarrow> holds (snd shstr) (unat (fst shstr ! k)) (bytes_of (section_names ! k) @ [0])"
    and "k < 7 \<Longrightarrow> unat (fst shstr ! k) < length (snd shstr)"
    using h seven by (simp_all add: eq)
  show "holds (snd shstr) 0 [0]" using h holds_extend [OF z] by (auto simp: eq)
  then show "0 < length (snd shstr)" by (cases "snd shstr") (simp_all add: holds_def)
qed

section \<open>Reading the section headers\<close>

lemma unat_offset:
  assumes "unat off + 24 * k < 2 ^ 63"
  shows "unat (off + of_nat k * 24 :: u64) = unat off + k * 24"
proof -
  have "unat (of_nat k * 24 :: u64) = k * 24" using assms by (simp add: unat_word_ariths unat_of_nat)
  then show ?thesis using assms by (subst unat_add_small) simp_all
qed

lemma unat_offset64:
  assumes "unat off + 64 * k < 2 ^ 63"
  shows "unat (off + of_nat k * 64 :: u64) = unat off + k * 64"
proof -
  have "unat (of_nat k * 64 :: u64) = k * 64" using assms by (simp add: unat_word_ariths unat_of_nat)
  then show ?thesis using assms by (subst unat_add_small) simp_all
qed

lemma written_shdr:
  assumes "written_file file l code relas data syms strtab shstrtab shdrs" and "i < 8"
  shows "read_shdr file (l_shdr l + of_nat i * 64) = Some (shdrs ! i)"
proof (rule read_shdr_holds)
  have "holds file (unat (l_shdr l) + i * 64) (shdr_bytes (shdrs ! i))"
    using assms by (intro holds_concat [where xs = shdrs]) (simp_all add: written_file_def)
  moreover have "unat (l_shdr l + of_nat i * 64) = unat (l_shdr l) + i * 64"
    using assms by (intro unat_offset64) (simp add: written_file_def ordered_layout_def)
  ultimately show "holds file (unat (l_shdr l + of_nat i * 64)) (shdr_bytes (shdrs ! i))" by simp
qed

lemma name_among_holds:
  assumes "holds data (unat off) (bytes_of nm @ [0])" and "no_null nm" and "list_all no_null ss"
  shows "name_among data off ss = Some (List.find (\<lambda>s. nm = s) ss)"
  using assms(3) is_named_holds [OF assms(1) bytes_no_null [OF assms(2)]] bytes_no_null
  by (induction ss) auto

lemma scan_section_named:
  assumes "read_shdr (po_raw obj) (shoff + of_nat i * 64) = Some sh" and "\<not> ucast (sh_name sh) \<ge> n"
    and "sh_offset sh + sh_size sh \<le> size_of (po_raw obj)"
    and "holds (po_raw obj) (unat (str + ucast (sh_name sh))) (bytes_of nm @ [0])" and "no_null nm"
  shows "scan_section shoff shnum str n i obj =
    (let ref = \<lparr>sr_data = Some (sh_offset sh), sr_size = sh_size sh, sr_shndx = i\<rparr>
     in if nm = ''.text'' then Inr (obj\<lparr>po_text := ref\<rparr>)
        else if nm = ''.rodata'' then Inr (obj\<lparr>po_rodata := ref\<rparr>)
        else if nm = ''.data'' then Inr (obj\<lparr>po_data := ref\<rparr>)
        else if nm = ''.bss'' then Inr (obj\<lparr>po_bss := ref\<lparr>sr_data := None\<rparr>\<rparr>)
        else if sh_type sh = SHT_SYMTAB then set_symtab shoff shnum sh obj
        else if sh_type sh = SHT_RELA \<and> nm = ''.rela.text''
        then Inr (obj\<lparr>po_relas := Some (sh_offset sh), po_rela_count := sh_size sh div 24\<rparr>)
        else Inr obj)"
proof -
  have "name_among (po_raw obj) (str + ucast (sh_name sh)) [''.text'', ''.rodata'', ''.data'', ''.bss''] =
      Some (List.find (\<lambda>s. nm = s) [''.text'', ''.rodata'', ''.data'', ''.bss''])"
    by (rule name_among_holds [OF assms(4,5)]) (simp add: no_null_def)
  moreover have "is_named (po_raw obj) (str + ucast (sh_name sh)) ''.rela.text'' = Some (bytes_of nm = bytes_of ''.rela.text'')"
    by (rule is_named_holds [OF assms(4) bytes_no_null [OF assms(5)]]) (rule bytes_no_null, simp add: no_null_def)
  moreover have "\<not> size_of (po_raw obj) < sh_offset sh + sh_size sh" using assms(3) by simp
  ultimately show ?thesis
    using assms(1,2) by (simp add: scan_section_def set_section_def Let_def)
qed

text \<open>The headers that the writer has built, and the name of each section.\<close>

definition object_shdrs :: "elf_layout \<Rightarrow> u8 list \<Rightarrow> elf64_rela list \<Rightarrow> u8 list \<Rightarrow> elf64_sym list \<Rightarrow> u8 list \<Rightarrow> elf64_shdr list" where
  "object_shdrs l code relas data syms strtab =
     build_shdrs (fst shstr) l (of_nat (length code)) (of_nat (length relas) * 24) (of_nat (length data))
       (of_nat (length syms) * 24) (of_nat (length strtab)) (of_nat (length (snd shstr)))"

definition name_of_section :: "nat \<Rightarrow> string" where
  "name_of_section i = (case i of 0 \<Rightarrow> [] | Suc k \<Rightarrow> section_names ! k)"

definition expected_object ::
  "string \<Rightarrow> u8 list \<Rightarrow> elf_layout \<Rightarrow> u8 list \<Rightarrow> elf64_rela list \<Rightarrow> u8 list \<Rightarrow> elf64_sym list \<Rightarrow> u8 list \<Rightarrow> parsed_object" where
  "expected_object nm file l code relas data syms strtab =
     (new_object nm file)\<lparr>po_text := \<lparr>sr_data = Some (l_text l), sr_size = of_nat (length code), sr_shndx = 1\<rparr>,
        po_relas := Some (l_rela l), po_rela_count := of_nat (length relas),
        po_rodata := \<lparr>sr_data = Some (l_rodata l), sr_size = of_nat (length data), sr_shndx = 3\<rparr>,
        po_symtab := Some (l_symtab l), po_sym_count := of_nat (length syms),
        po_strtab := Some (l_strtab l), po_strtab_size := of_nat (length strtab)\<rparr>"

lemma less_8: "(i :: nat) < 8 \<Longrightarrow> i = 0 \<or> i = 1 \<or> i = 2 \<or> i = 3 \<or> i = 4 \<or> i = 5 \<or> i = 6 \<or> i = 7"
  by arith

lemma unat_widen: "unat (ucast (w :: u32) :: u64) = unat w"
proof -
  have "unat w < 2 ^ LENGTH(32)" by (rule unsigned_less)
  then have "unat w < 2 ^ 64" by simp
  then show ?thesis by (simp add: unsigned_ucast_eq take_bit_eq_mod)
qed

lemma section_name_held:
  assumes "written_file file l code relas data syms strtab (snd shstr) (object_shdrs l code relas data syms strtab)" and "i < 8"
  shows "holds file (unat (l_shstrtab l + ucast (sh_name (object_shdrs l code relas data syms strtab ! i))))
           (bytes_of (name_of_section i) @ [0])"
    and "\<not> ucast (sh_name (object_shdrs l code relas data syms strtab ! i)) \<ge> (of_nat (length (snd shstr)) :: u64)"
    and "no_null (name_of_section i)"
proof -
  let ?n = "sh_name (object_shdrs l code relas data syms strtab ! i)"
  have n: "?n = (case i of 0 \<Rightarrow> 0 | Suc k \<Rightarrow> fst shstr ! k)"
    using less_8 [OF assms(2)] by (elim disjE) (simp_all add: object_shdrs_def build_shdrs_def null_shdr_def numeral_nat)
  have h: "holds (snd shstr) (unat ?n) (bytes_of (name_of_section i) @ [0]) \<and> unat ?n < length (snd shstr)"
  proof (cases i)
    case 0
    then show ?thesis using shstr_facts(4,5) n by (simp add: name_of_section_def bytes_of_def)
  next
    case (Suc k)
    then show ?thesis using shstr_facts(2,3) [of k] n assms(2) by (simp add: name_of_section_def)
  qed
  have small: "length (snd shstr) \<le> 68" by (rule shstr_facts(1))
  have u: "unat (l_shstrtab l + ucast ?n) = unat (l_shstrtab l) + unat ?n"
    using assms(1) h small
    by (subst unat_add_small) (simp_all add: unat_widen written_file_def ordered_layout_def)
  have f: "holds file (unat (l_shstrtab l)) (snd shstr)" using assms(1) by (simp add: written_file_def)
  show "holds file (unat (l_shstrtab l + ucast ?n)) (bytes_of (name_of_section i) @ [0])"
    unfolding u by (rule holds_inside [OF f]) (use h in simp)
  show "\<not> ucast ?n \<ge> (of_nat (length (snd shstr)) :: u64)"
    using h small by (simp add: word_le_nat_alt unat_widen unat_of_nat not_le)
  show "no_null (name_of_section i)"
    using less_8 [OF assms(2)] by (elim disjE) (simp_all add: name_of_section_def section_names_def no_null_def numeral_nat)
qed

lemma in_file:
  assumes "unat off + n \<le> length file" and "length file < 2 ^ 40"
  shows "off + of_nat n \<le> size_of file"
proof -
  have n: "unat (of_nat n :: u64) = n" using assms by (simp add: unat_of_nat)
  have "unat (off + of_nat n) = unat off + n" using assms by (subst unat_add_small) (simp_all add: n)
  then show ?thesis using assms by (simp add: word_le_nat_alt size_of_def unat_of_nat)
qed

lemma section_in_file:
  assumes "written_file file l code relas data syms strtab (snd shstr) (object_shdrs l code relas data syms strtab)" and "i < 8"
  shows "sh_offset (object_shdrs l code relas data syms strtab ! i) + sh_size (object_shdrs l code relas data syms strtab ! i)
     \<le> size_of file"
proof -
  have len: "length file < 2 ^ 40" using assms(1) by (simp add: written_file_def ordered_layout_def)
  have o: "ordered_layout l (length code) (24 * length relas) (length data) (24 * length syms) (length strtab) (length (snd shstr))"
    "length file = unat (l_shdr l) + 512" using assms(1) by (simp_all only: written_file_def)
  have b: "unat (l_text l) + length code \<le> length file" "unat (l_rela l) + 24 * length relas \<le> length file"
    "unat (l_rodata l) + length data \<le> length file" "unat (l_symtab l) + 24 * length syms \<le> length file"
    "unat (l_strtab l) + length strtab \<le> length file" "unat (l_shstrtab l) + length (snd shstr) \<le> length file"
    using o(1) unfolding o(2) ordered_layout_def by linarith+
  note f = b [THEN in_file, OF len]
  have m: "of_nat n * (24 :: u64) = of_nat (24 * n)" for n by simp
  show ?thesis
    using less_8 [OF assms(2)]
    by (elim disjE) (simp_all only: object_shdrs_def build_shdrs_def m nth_Cons_0 nth_Cons_Suc numeral_nat null_shdr_def
        elf64_shdr.simps elf64_shdr.update_convs One_nat_def f, simp_all add: f [simplified])
qed

text \<open>The scan over the headers.\<close>

lemma object_shdrs_nth:
  "object_shdrs l code relas data syms strtab ! 0 = null_shdr"
  "object_shdrs l code relas data syms strtab ! Suc 0 = null_shdr\<lparr>sh_name := fst shstr ! 0, sh_type := SHT_PROGBITS,
     sh_flags := 6, sh_offset := l_text l, sh_size := of_nat (length code), sh_addralign := 16\<rparr>"
  "object_shdrs l code relas data syms strtab ! 2 = null_shdr\<lparr>sh_name := fst shstr ! 1, sh_type := SHT_RELA,
     sh_flags := 0x40, sh_offset := l_rela l, sh_size := of_nat (length relas) * 24, sh_link := 4, sh_info := 1,
     sh_addralign := 8, sh_entsize := 24\<rparr>"
  "object_shdrs l code relas data syms strtab ! 3 = null_shdr\<lparr>sh_name := fst shstr ! 2, sh_type := SHT_PROGBITS,
     sh_flags := 2, sh_offset := l_rodata l, sh_size := of_nat (length data), sh_addralign := 16\<rparr>"
  "object_shdrs l code relas data syms strtab ! 4 = null_shdr\<lparr>sh_name := fst shstr ! 3, sh_type := SHT_SYMTAB,
     sh_offset := l_symtab l, sh_size := of_nat (length syms) * 24, sh_link := 5, sh_info := 3, sh_addralign := 8,
     sh_entsize := 24\<rparr>"
  "object_shdrs l code relas data syms strtab ! 5 = null_shdr\<lparr>sh_name := fst shstr ! 4, sh_type := SHT_STRTAB,
     sh_offset := l_strtab l, sh_size := of_nat (length strtab), sh_addralign := 1\<rparr>"
  "object_shdrs l code relas data syms strtab ! 6 = null_shdr\<lparr>sh_name := fst shstr ! 5, sh_type := SHT_STRTAB,
     sh_offset := l_shstrtab l, sh_size := of_nat (length (snd shstr)), sh_addralign := 1\<rparr>"
  "object_shdrs l code relas data syms strtab ! 7 = null_shdr\<lparr>sh_name := fst shstr ! 6, sh_type := SHT_PROGBITS,
     sh_addralign := 1\<rparr>"
  by (simp_all only: object_shdrs_def build_shdrs_def nth_Cons_0 nth_Cons_Suc numeral_nat One_nat_def)

lemma section_name_rules:
  "name_of_section 0 = []" "name_of_section (Suc 0) = ''.text''" "name_of_section 2 = ''.rela.text''"
  "name_of_section 3 = ''.rodata''" "name_of_section 4 = ''.symtab''" "name_of_section 5 = ''.strtab''"
  "name_of_section 6 = ''.shstrtab''" "name_of_section 7 = ''.note.GNU-stack''"
  by (simp_all add: name_of_section_def section_names_def numeral_nat)

lemma scan_object_section:
  assumes "written_file file l code relas data syms strtab (snd shstr) (object_shdrs l code relas data syms strtab)"
    and "i < 8" and "po_raw obj = file" and "sh = object_shdrs l code relas data syms strtab ! i"
    and "ref = \<lparr>sr_data = Some (sh_offset sh), sr_size = sh_size sh, sr_shndx = i\<rparr>"
  shows "scan_section (l_shdr l) 8 (l_shstrtab l) (of_nat (length (snd shstr))) i obj =
    (if i = 1 then Inr (obj\<lparr>po_text := ref\<rparr>)
     else if i = 2 then Inr (obj\<lparr>po_relas := Some (sh_offset sh), po_rela_count := sh_size sh div 24\<rparr>)
     else if i = 3 then Inr (obj\<lparr>po_rodata := ref\<rparr>)
     else if i = 4 then set_symtab (l_shdr l) 8 sh obj
     else Inr obj)"
proof -
  have s: "scan_section (l_shdr l) 8 (l_shstrtab l) (of_nat (length (snd shstr))) i obj =
    (let ref = \<lparr>sr_data = Some (sh_offset sh), sr_size = sh_size sh, sr_shndx = i\<rparr>
     in if name_of_section i = ''.text'' then Inr (obj\<lparr>po_text := ref\<rparr>)
        else if name_of_section i = ''.rodata'' then Inr (obj\<lparr>po_rodata := ref\<rparr>)
        else if name_of_section i = ''.data'' then Inr (obj\<lparr>po_data := ref\<rparr>)
        else if name_of_section i = ''.bss'' then Inr (obj\<lparr>po_bss := ref\<lparr>sr_data := None\<rparr>\<rparr>)
        else if sh_type sh = SHT_SYMTAB then set_symtab (l_shdr l) 8 sh obj
        else if sh_type sh = SHT_RELA \<and> name_of_section i = ''.rela.text''
        then Inr (obj\<lparr>po_relas := Some (sh_offset sh), po_rela_count := sh_size sh div 24\<rparr>)
        else Inr obj)"
    by (rule scan_section_named) (simp_all only: assms(3,4) written_shdr [OF assms(1,2)] section_name_held [OF assms(1,2)]
        section_in_file [OF assms(1,2)] not_False_eq_True)
  have t: "sh_type sh = (if i = 4 then SHT_SYMTAB else if i = 2 then SHT_RELA
      else if i = 0 then 0 else if i = 5 \<or> i = 6 then SHT_STRTAB else SHT_PROGBITS)"
    using less_8 [OF assms(2)] unfolding assms(4) by (elim disjE) (simp_all add: object_shdrs_nth null_shdr_def)
  show ?thesis
    using less_8 [OF assms(2)] unfolding s Let_def assms(5)
    by (elim disjE) (simp_all add: section_name_rules t SHT_RELA_def SHT_SYMTAB_def SHT_STRTAB_def SHT_PROGBITS_def)
qed

lemma word_div_24: "n < 2 ^ 31 \<Longrightarrow> (of_nat n * 24 :: u64) div 24 = of_nat n"
  by (simp add: word_unat_eq_iff unat_div unat_word_ariths unat_of_nat)

lemma set_symtab_object:
  assumes "written_file file l code relas data syms strtab (snd shstr) (object_shdrs l code relas data syms strtab)"
    and "po_raw obj = file"
  shows "set_symtab (l_shdr l) 8 (object_shdrs l code relas data syms strtab ! 4) obj =
     Inr (obj\<lparr>po_symtab := Some (l_symtab l), po_sym_count := of_nat (length syms),
      po_strtab := Some (l_strtab l), po_strtab_size := of_nat (length strtab)\<rparr>)"
proof -
  let ?shs = "object_shdrs l code relas data syms strtab"
  have small: "length syms < 2 ^ 31" using assms by (simp add: written_file_def)
  have st: "read_shdr file (l_shdr l + 320) = Some (?shs ! 5)" using written_shdr [OF assms(1), of 5] by simp
  have stl: "sh_offset (?shs ! 5) + sh_size (?shs ! 5) \<le> size_of file" by (rule section_in_file [OF assms(1)]) simp
  have sh: "sh_offset (?shs ! 4) = l_symtab l" "sh_size (?shs ! 4) = of_nat (length syms) * 24" "sh_link (?shs ! 4) = 5"
    "sh_offset (?shs ! 5) = l_strtab l" "sh_size (?shs ! 5) = of_nat (length strtab)"
    by (simp_all add: object_shdrs_nth)
  show ?thesis
    using st stl assms(2) by (simp add: set_symtab_def Let_def sh word_div_24 [OF small])
qed

lemma scan_object:
  assumes "written_file file l code relas data syms strtab (snd shstr) (object_shdrs l code relas data syms strtab)"
  shows "scan_sections (l_shdr l) 8 (l_shstrtab l) (of_nat (length (snd shstr))) [0..<8] (new_object nm file) =
     Inr (expected_object nm file l code relas data syms strtab)"
proof -
  let ?shs = "object_shdrs l code relas data syms strtab"
  note step = scan_object_section [OF assms _ _ refl refl] and sym = set_symtab_object [OF assms]
  have small: "length relas < 2 ^ 31" using assms by (simp add: written_file_def)
  have sh: "sh_offset (?shs ! 1) = l_text l" "sh_size (?shs ! 1) = of_nat (length code)"
    "sh_offset (?shs ! 2) = l_rela l" "sh_size (?shs ! 2) = of_nat (length relas) * 24"
    "sh_offset (?shs ! 3) = l_rodata l" "sh_size (?shs ! 3) = of_nat (length data)"
    by (simp_all add: object_shdrs_nth)
  have u: "[0..<8] = [0, 1, 2, 3, 4, 5, 6, 7 :: nat]" by (simp add: upt_rec)
  have r: "po_raw (new_object nm file) = file" by (simp add: new_object_def)
  show ?thesis
    unfolding u
    by (simp add: step sym r expected_object_def sh word_div_24 [OF small] del: One_nat_def)
qed

section \<open>Reading the object\<close>

lemma holds_take: "holds file 0 bs \<Longrightarrow> take (length bs) file = bs"
  by (simp add: holds_def)

lemma written_header:
  assumes "written_file file l code relas data syms strtab shstrtab shdrs"
  shows "take 64 file = ehdr_bytes (object_ehdr (l_shdr l))" and "take 4 file = [0x7F, 0x45, 0x4C, 0x46]"
    and "file ! 4 = 2" and "file ! 5 = 1" and "64 \<le> length file"
proof -
  have h: "holds file 0 (ehdr_bytes (object_ehdr (l_shdr l)))" using assms by (simp add: written_file_def)
  show t: "take 64 file = ehdr_bytes (object_ehdr (l_shdr l))" using holds_take [OF h] by simp
  have e: "\<exists>rest. ehdr_bytes (object_ehdr (l_shdr l)) = [0x7F, 0x45, 0x4C, 0x46, 2, 1] @ rest"
    by (simp add: ehdr_bytes_def elf_ident_def)
  then obtain rest where rest: "take 64 file = [0x7F, 0x45, 0x4C, 0x46, 2, 1] @ rest" using t by auto
  have "take 4 file = take 4 (take 64 file)" "file ! 4 = take 64 file ! 4" "file ! 5 = take 64 file ! 5" by simp_all
  then show "take 4 file = [0x7F, 0x45, 0x4C, 0x46]" "file ! 4 = 2" "file ! 5 = 1" unfolding rest by simp_all
  show "64 \<le> length file" using assms by (simp add: written_file_def)
qed

lemma written_rela:
  assumes "written_file file l code relas data syms strtab shstrtab shdrs" and "k < length relas"
  shows "read_rela file (l_rela l + of_nat k * 24) = Some (relas ! k)"
proof (rule read_rela_holds)
  have "holds file (unat (l_rela l) + k * 24) (rela_bytes (relas ! k))"
    using assms by (intro holds_concat [where xs = relas]) (simp_all add: written_file_def)
  moreover have "unat (l_rela l + of_nat k * 24) = unat (l_rela l) + k * 24"
    using assms by (intro unat_offset) (simp add: written_file_def ordered_layout_def)
  ultimately show "holds file (unat (l_rela l + of_nat k * 24)) (rela_bytes (relas ! k))" by simp
qed

lemma written_sym:
  assumes "written_file file l code relas data syms strtab shstrtab shdrs" and "k < length syms"
  shows "read_sym file (l_symtab l + of_nat k * 24) = Some (syms ! k)"
proof (rule read_sym_holds)
  have "holds file (unat (l_symtab l) + k * 24) (sym_bytes (syms ! k))"
    using assms by (intro holds_concat [where xs = syms]) (simp_all add: written_file_def)
  moreover have "unat (l_symtab l + of_nat k * 24) = unat (l_symtab l) + k * 24"
    using assms by (intro unat_offset) (simp add: written_file_def ordered_layout_def)
  ultimately show "holds file (unat (l_symtab l + of_nat k * 24)) (sym_bytes (syms ! k))" by simp
qed

definition relas_valid :: "u8 list \<Rightarrow> elf64_sym list \<Rightarrow> elf64_rela list \<Rightarrow> bool" where
  "relas_valid code syms relas \<longleftrightarrow>
     list_all (\<lambda>r. unat (ra_offset r) < length code \<and> unat (ELF64_R_SYM (ra_info r)) < length syms) relas"

lemma check_relas_pass:
  assumes w: "written_file file l code relas data syms strtab shstrtab shdrs" and v: "relas_valid code syms relas"
    and "j + n \<le> length relas"
  shows "check_relas (expected_object nm file l code relas data syms strtab) (l_rela l + of_nat j * 24) n = None"
  using assms(3)
proof (induction n arbitrary: j)
  case 0
  then show ?case by simp
next
  case (Suc n)
  have small: "length code < 2 ^ 31" "length syms < 2 ^ 31" using w by (simp_all add: written_file_def)
  have r: "unat (ra_offset (relas ! j)) < length code" "unat (ELF64_R_SYM (ra_info (relas ! j))) < length syms"
    using v Suc.prems by (simp_all add: relas_valid_def list_all_length)
  have "check_rela (expected_object nm file l code relas data syms strtab) (l_rela l + of_nat j * 24) = None"
    using written_rela [OF w, of j] Suc.prems r small
    by (simp add: check_rela_def expected_object_def new_object_def word_le_nat_alt unat_of_nat unat_widen)
  moreover have e: "l_rela l + of_nat (Suc j) * 24 = l_rela l + of_nat j * 24 + 24" by (simp add: algebra_simps)
  ultimately show ?case using Suc.IH [of "Suc j", unfolded e] Suc.prems by simp
qed

lemma object_read:
  assumes "written_file file l code relas data syms strtab (snd shstr) (object_shdrs l code relas data syms strtab)"
    and "relas_valid code syms relas"
  shows "elf64_read_object_memory file nm = Inr (expected_object nm file l code relas data syms strtab)"
proof -
  let ?obj = "expected_object nm file l code relas data syms strtab"
  let ?shs = "object_shdrs l code relas data syms strtab"
  note hd = written_header [OF assms(1)]
  have len: "length file = unat (l_shdr l) + 512" "length file < 2 ^ 40"
    using assms(1) by (simp_all add: written_file_def ordered_layout_def)
  have e: "\<not> size_of file < l_shdr l + 512" using in_file [of "l_shdr l" 512 "file"] len by simp
  have st: "read_shdr file (l_shdr l + 384) = Some (?shs ! 6)" using written_shdr [OF assms(1), of 6] by simp
  have sh: "sh_offset (?shs ! 6) = l_shstrtab l" "sh_size (?shs ! 6) = of_nat (length (snd shstr))"
    by (simp_all add: object_shdrs_nth)
  have ste: "\<not> size_of file < l_shstrtab l + of_nat (length (snd shstr))"
    using section_in_file [OF assms(1), of 6] sh by simp
  have relas: "po_relas ?obj = Some (l_rela l)" "unat (po_rela_count ?obj) = length relas"
    using assms(1) by (simp_all add: expected_object_def new_object_def unat_of_nat written_file_def)
  have ck: "check_relas ?obj (l_rela l) (length relas) = None"
    using check_relas_pass [OF assms, of 0 "length relas" nm] by simp
  have "read_sections file nm (object_ehdr (l_shdr l)) = Inr ?obj"
    using st ste scan_object [OF assms(1)] ck
    by (simp add: read_sections_def object_ehdr_def sh relas)
  moreover have "\<not> length file < 64" using hd(5) by simp
  ultimately show ?thesis
    using hd(1-4) e by (simp add: elf64_read_object_memory_def Let_def) (simp add: object_ehdr_def)
qed

section \<open>The contents of an object\<close>

text \<open>
  What an object that has been read says: its code, its data, and its symbols and relocations with
  their names. A symbol has its name, whether it is defined, its value and its size.
\<close>

definition symbol_name :: "parsed_object \<Rightarrow> elf64_sym \<Rightarrow> string option" where
  "symbol_name obj s =
     (case po_strtab obj of
        Some a \<Rightarrow> map_option string_of (c_string (po_raw obj) (a + ucast (st_name s))) | None \<Rightarrow> None)"

definition object_symbol :: "parsed_object \<Rightarrow> nat \<Rightarrow> elf64_sym option" where
  "object_symbol obj k =
     (case po_symtab obj of Some a \<Rightarrow> read_sym (po_raw obj) (a + of_nat k * 24) | None \<Rightarrow> None)"

definition view_symbol :: "parsed_object \<Rightarrow> nat \<Rightarrow> (string \<times> bool \<times> u64 \<times> u64) option" where
  "view_symbol obj k =
     (case object_symbol obj k of
        Some s \<Rightarrow> map_option (\<lambda>n. (n, st_shndx s \<noteq> SHN_UNDEF, st_value s, st_size s)) (symbol_name obj s)
      | None \<Rightarrow> None)"

definition view_rela :: "parsed_object \<Rightarrow> nat \<Rightarrow> (u64 \<times> string \<times> u32 \<times> u64) option" where
  "view_rela obj k =
     (case po_relas obj of
        Some a \<Rightarrow>
          (case read_rela (po_raw obj) (a + of_nat k * 24) of
             Some r \<Rightarrow>
               (case object_symbol obj (unat (ELF64_R_SYM (ra_info r))) of
                  Some s \<Rightarrow>
                    map_option (\<lambda>n. (ra_offset r, n, ELF64_R_TYPE (ra_info r), ra_addend r))
                      (if ELF64_ST_TYPE (st_info s) = STT_SECTION \<and> unat (st_shndx s) = sr_shndx (po_rodata obj)
                       then Some ''.rodata'' else symbol_name obj s)
                | None \<Rightarrow> None)
           | None \<Rightarrow> None)
      | None \<Rightarrow> None)"

definition view_section :: "parsed_object \<Rightarrow> section_ref \<Rightarrow> u8 list option" where
  "view_section obj sec = (case sr_data sec of Some off \<Rightarrow> slice (po_raw obj) off (sr_size sec) | None \<Rightarrow> None)"

text \<open>The symbols from the third on; the first are those of every object.\<close>

definition object_view ::
  "parsed_object \<Rightarrow> (u8 list option \<times> u8 list option \<times> (string \<times> bool \<times> u64 \<times> u64) option list
     \<times> (u64 \<times> string \<times> u32 \<times> u64) option list)" where
  "object_view obj = (view_section obj (po_text obj), view_section obj (po_rodata obj),
     map (view_symbol obj) [3..<unat (po_sym_count obj)], map (view_rela obj) [0..<unat (po_rela_count obj)])"

definition desc_view :: "elf_symbol_desc \<Rightarrow> string \<times> bool \<times> u64 \<times> u64" where
  "desc_view d = (ed_name d, ed_defined d, if ed_defined d then ed_offset d else 0, if ed_defined d then ed_size d else 0)"

definition reloc_view :: "x86_reloc \<Rightarrow> u64 \<times> string \<times> u32 \<times> u64" where
  "reloc_view r = (r_offset r, the (r_symbol r), r_type r, r_addend r)"

text \<open>A relocation lies in the code and names the data section or a symbol.\<close>

definition reloc_ok :: "u8 list \<Rightarrow> elf_symbol_desc list \<Rightarrow> x86_reloc \<Rightarrow> bool" where
  "reloc_ok code ds r \<longleftrightarrow> unat (r_offset r) < length code \<and>
     (case r_symbol r of Some s \<Rightarrow> no_null s \<and> (s = ''.rodata'' \<or> list_ex (\<lambda>d. ed_name d = s) ds) | None \<Rightarrow> False)"

definition object_ok :: "string \<Rightarrow> u8 list \<Rightarrow> x86_reloc list \<Rightarrow> u8 list \<Rightarrow> elf_symbol_desc list \<Rightarrow> bool" where
  "object_ok source code relocs data ds \<longleftrightarrow>
     object_size source code relocs data ds < 2 ^ 30 \<and> no_null source \<and> list_all (\<lambda>d. no_null (ed_name d)) ds \<and>
     list_all (reloc_ok code ds) relocs"

section \<open>Names of relocations\<close>

lemma string_of_bytes [simp]: "string_of (bytes_of s) = s"
proof -
  have "unat (of_char c :: u8) = of_char c" for c by (cases c) (simp add: of_char_def)
  then show ?thesis by (simp add: string_of_def bytes_of_def comp_def)
qed

lemma r_info_parts [simp]: "ELF64_R_SYM (ELF64_R_INFO i t) = i" "ELF64_R_TYPE (ELF64_R_INFO i t) = t"
proof -
  have "ELF64_R_INFO i t = push_bit 32 (ucast i) OR ucast t"
    unfolding ELF64_R_INFO_def by (rule disjunctive_add) (auto simp: bit_simps dest: bit_imp_le_length)
  then show "ELF64_R_SYM (ELF64_R_INFO i t) = i" "ELF64_R_TYPE (ELF64_R_INFO i t) = t"
    by (auto simp: ELF64_R_SYM_def ELF64_R_TYPE_def bit_eq_iff bit_simps dest: bit_imp_le_length)
qed

lemma symbol_entry_rules [simp]:
  "st_name (symbol_entry n d) = n" "st_shndx (symbol_entry n d) = SHN_UNDEF \<longleftrightarrow> \<not> ed_defined d"
  "st_value (symbol_entry n d) = (if ed_defined d then ed_offset d else 0)"
  "st_size (symbol_entry n d) = (if ed_defined d then ed_size d else 0)"
  "ELF64_ST_TYPE (st_info (symbol_entry n d)) = (if ed_defined d then STT_FUNC else STT_NOTYPE)"
  "ELF64_ST_BIND (st_info (symbol_entry n d)) = STB_GLOBAL"
  by (simp_all add: symbol_entry_def null_sym_def SHN_UNDEF_def ELF64_ST_TYPE_def ELF64_ST_BIND_def ELF64_ST_INFO_def
      STB_GLOBAL_def STT_FUNC_def STT_NOTYPE_def)

lemma reloc_symbol_index_found:
  assumes "build_symtab source ds = (syms, strtab)" and "no_null source" and "list_all (\<lambda>d. no_null (ed_name d)) ds"
    and "length source + (\<Sum>d \<leftarrow> ds. length (ed_name d) + 1) < 2 ^ 31" and "length ds < 2 ^ 30"
    and "s \<noteq> ''.rodata''" and "list_ex (\<lambda>d. ed_name d = s) ds"
  obtains k where "k < length ds" "unat (reloc_symbol_index syms strtab s) = 3 + k" "ed_name (symbol_order ds ! k) = s"
proof -
  note f = build_symtab_facts [OF assms(1-4)]
  have name: "cstr_at strtab (unat (st_name (syms ! (3 + k)))) = bytes_of (ed_name (symbol_order ds ! k))"
    if k: "k < length ds" for k
  proof -
    have "no_null (ed_name (symbol_order ds ! k))"
      using assms(3) k nth_mem [of k "symbol_order ds"] by (simp add: list_all_iff)
    then show ?thesis using f(4) [OF k] cstr_holds bytes_no_null by fastforce
  qed
  obtain d where d: "d \<in> set (symbol_order ds)" "ed_name d = s" using assms(7) by (auto simp: list_ex_iff)
  then obtain j where j: "j < length ds" "symbol_order ds ! j = d" by (metis in_set_conv_nth length_symbol_order)
  let ?P = "\<lambda>k. cstr_at strtab (unat (st_name (syms ! k))) = bytes_of s"
  have "?P (3 + j)" using name [OF j(1)] j d by simp
  moreover have "3 + j \<in> set [3..<length syms]" using j f(1) by simp
  ultimately have "List.find ?P [3..<length syms] \<noteq> None" by (auto simp: find_None_iff)
  then obtain i where i: "List.find ?P [3..<length syms] = Some i" by auto
  from find_SomeD [OF this] have range: "3 \<le> i" "i < 3 + length ds" "?P i" using f(1) by auto
  have "ed_name (symbol_order ds ! (i - 3)) = s" using name [of "i - 3"] range by simp
  moreover have "unat (reloc_symbol_index syms strtab s) = 3 + (i - 3)"
    using range assms(5,6) i by (simp add: reloc_symbol_index_def unat_of_nat)
  ultimately show ?thesis using that [of "i - 3"] range by simp
qed

section \<open>The theorem\<close>

lemma sum_bound: "(\<Sum>d \<leftarrow> ds. length (ed_name d) + 1) + 24 * length ds = (\<Sum>d \<leftarrow> ds. length (ed_name d) + 25)"
  by (induction ds) simp_all

lemma object_bytes_written:
  assumes ok: "object_ok source code relocs data ds" and st: "build_symtab source ds = (syms, strtab)"
  shows "\<exists>l. written_file (elf64_object_bytes source code relocs data ds) l code (map (rela_entry syms strtab) relocs) data syms
      strtab (snd shstr) (object_shdrs l code (map (rela_entry syms strtab) relocs) data syms strtab)"
proof -
  let ?relas = "map (rela_entry syms strtab) relocs"
  define l where "l = layout_sections (of_nat (length code)) (of_nat (length ?relas) * 24) (of_nat (length data))
    (of_nat (length syms) * 24) (of_nat (length strtab)) (of_nat (length (snd shstr)))"
  have size: "length source + length code + 24 * length relocs + length data + (\<Sum>d \<leftarrow> ds. length (ed_name d) + 25) < 2 ^ 30"
    using ok by (simp add: object_ok_def object_size_def)
  note f = build_symtab_facts [OF st]
  have small: "length syms = 3 + length ds" "length strtab \<le> 2 + length source + (\<Sum>d \<leftarrow> ds. length (ed_name d) + 1)"
    using f(1,3) ok size sum_bound [of ds] by (simp_all add: object_ok_def)
  have total: "length code + 24 * length ?relas + length data + 24 * length syms + length strtab + length (snd shstr) < 2 ^ 31"
    using small size sum_bound [of ds] shstr_facts(1) by simp
  have u: "unat (of_nat n :: u64) = n" "unat (of_nat n * 24 :: u64) = 24 * n" if "24 * n < 2 ^ 31" for n
    using that by (simp_all add: unat_of_nat unat_word_ariths)
  have u1: "unat (of_nat n :: u64) = n" if "n < 2 ^ 31" for n using that by (simp add: unat_of_nat)
  have o: "ordered_layout l (length code) (24 * length ?relas) (length data) (24 * length syms) (length strtab) (length (snd shstr))"
    using layout_ordered [of "of_nat (length code)" "of_nat (length ?relas) * 24" "of_nat (length data)"
        "of_nat (length syms) * 24" "of_nat (length strtab)" "of_nat (length (snd shstr))"] total
    by (simp add: l_def u u1)
  have len: "length (object_shdrs l code ?relas data syms strtab) = 8" by (simp add: object_shdrs_def build_shdrs_def)
  have e: "elf64_object_bytes source code relocs data ds = elf_contents l code (concat (map rela_bytes ?relas)) data
      (concat (map sym_bytes syms)) strtab (snd shstr) (concat (map shdr_bytes (object_shdrs l code ?relas data syms strtab)))"
    using st by (simp add: elf64_object_bytes_def shstr_def Let_def l_def object_shdrs_def split: prod.split)
  show ?thesis unfolding e using elf_contents_written [OF o total len] by blast
qed

lemma in_strtab:
  fixes n :: u32
  assumes "written_file file l code relas data syms strtab shstrtab shdrs"
    and "holds strtab (unat n) (bytes_of s @ [0])" and "unat n < length strtab" and "no_null s"
  shows "c_string file (l_strtab l + ucast n) = Some (bytes_of s)"
proof (rule c_string_holds)
  have u: "unat (l_strtab l + ucast n) = unat (l_strtab l) + unat n"
    using assms(1,3) by (subst unat_add_small) (simp_all add: unat_widen written_file_def ordered_layout_def)
  have f: "holds file (unat (l_strtab l)) strtab" using assms(1) by (simp add: written_file_def)
  show "holds file (unat (l_strtab l + ucast n)) (bytes_of s @ [0])" unfolding u by (rule holds_inside [OF f assms(2)])
  show "0 \<notin> set (bytes_of s)" by (rule bytes_no_null [OF assms(4)])
qed

text \<open>An object that has been written, with its tables; \<open>relas\<close> and \<open>obj\<close> are its relocations and what the reader makes of it.\<close>

record object_setup =
  os_source :: string
  os_code :: "u8 list"
  os_relocs :: "x86_reloc list"
  os_data :: "u8 list"
  os_symbols :: "elf_symbol_desc list"
  os_syms :: "elf64_sym list"
  os_strtab :: "u8 list"
  os_file :: "u8 list"
  os_layout :: elf_layout
  os_name :: string

definition relas_of :: "object_setup \<Rightarrow> elf64_rela list" where
  "relas_of w = map (rela_entry (os_syms w) (os_strtab w)) (os_relocs w)"

definition object_written :: "object_setup \<Rightarrow> bool" where
  "object_written w \<longleftrightarrow> object_ok (os_source w) (os_code w) (os_relocs w) (os_data w) (os_symbols w) \<and>
     build_symtab (os_source w) (os_symbols w) = (os_syms w, os_strtab w) \<and>
     written_file (os_file w) (os_layout w) (os_code w) (relas_of w) (os_data w) (os_syms w) (os_strtab w) (snd shstr)
       (object_shdrs (os_layout w) (os_code w) (relas_of w) (os_data w) (os_syms w) (os_strtab w))"

definition obj_of :: "object_setup \<Rightarrow> parsed_object" where
  "obj_of w = expected_object (os_name w) (os_file w) (os_layout w) (os_code w) (relas_of w) (os_data w) (os_syms w) (os_strtab w)"

lemma written_setup:
  assumes "object_written w"
  shows "object_ok (os_source w) (os_code w) (os_relocs w) (os_data w) (os_symbols w)"
    and "build_symtab (os_source w) (os_symbols w) = (os_syms w, os_strtab w)"
    and "written_file (os_file w) (os_layout w) (os_code w) (relas_of w) (os_data w) (os_syms w) (os_strtab w) (snd shstr)
       (object_shdrs (os_layout w) (os_code w) (relas_of w) (os_data w) (os_syms w) (os_strtab w))"
  using assms by (simp_all only: object_written_def)

lemma obj_fields:
  "po_raw (obj_of w) = os_file w" "po_relas (obj_of w) = Some (l_rela (os_layout w))" "po_symtab (obj_of w) = Some (l_symtab (os_layout w))"
  "po_strtab (obj_of w) = Some (l_strtab (os_layout w))" "po_sym_count (obj_of w) = of_nat (length (os_syms w))"
  "po_rela_count (obj_of w) = of_nat (length (os_relocs w))" "sr_shndx (po_rodata (obj_of w)) = 3"
  by (simp_all add: obj_of_def expected_object_def new_object_def relas_of_def)

lemma sizes:
  assumes "object_written w"
  shows "length (os_symbols w) < 2 ^ 30" "length (os_source w) + (\<Sum>d \<leftarrow> os_symbols w. length (ed_name d) + 1) < 2 ^ 31"
    "length (os_code w) < 2 ^ 30" "length (os_data w) < 2 ^ 30"
  using written_setup(1) [OF assms] sum_bound [of "os_symbols w"] by (simp_all add: object_ok_def object_size_def)

lemma names:
  assumes "object_written w"
  shows "no_null (os_source w)" "list_all (\<lambda>d. no_null (ed_name d)) (os_symbols w)"
  using written_setup(1) [OF assms] by (simp_all add: object_ok_def)

lemma symbol_facts:
  assumes "object_written w"
  shows "length (os_syms w) = 3 + length (os_symbols w)" and "os_syms w ! 2 = rodata_sym"
    and "k < length (os_symbols w) \<Longrightarrow> \<exists>n. os_syms w ! (3 + k) = symbol_entry n (symbol_order (os_symbols w) ! k) \<and>
      holds (os_strtab w) (unat n) (bytes_of (ed_name (symbol_order (os_symbols w) ! k)) @ [0]) \<and> unat n < length (os_strtab w)"
  using build_symtab_facts [OF written_setup(2) names sizes(2), OF assms assms assms assms] by blast+

lemma symbol_read:
  assumes "object_written w" and "k < length (os_symbols w)"
  shows "object_symbol (obj_of w) (3 + k) = Some (os_syms w ! (3 + k))"
    and "symbol_name (obj_of w) (os_syms w ! (3 + k)) = Some (ed_name (symbol_order (os_symbols w) ! k))"
proof -
  show "object_symbol (obj_of w) (3 + k) = Some (os_syms w ! (3 + k))"
    using written_sym [OF written_setup(3) [OF assms(1)], of "3 + k"] symbol_facts(1) [OF assms(1)] assms(2)
    by (simp add: object_symbol_def obj_fields)
  have n: "no_null (ed_name (symbol_order (os_symbols w) ! k))"
    using names(2) [OF assms(1)] assms(2) nth_mem [of k "symbol_order (os_symbols w)"] by (simp add: list_all_iff)
  show "symbol_name (obj_of w) (os_syms w ! (3 + k)) = Some (ed_name (symbol_order (os_symbols w) ! k))"
    using symbol_facts(3) [OF assms] in_strtab [OF written_setup(3) [OF assms(1)] _ _ n]
    by (auto simp: symbol_name_def obj_fields)
qed

lemma view_symbol_written:
  assumes "object_written w" and "k < length (os_symbols w)"
  shows "view_symbol (obj_of w) (3 + k) = Some (desc_view (symbol_order (os_symbols w) ! k))"
  using symbol_read [OF assms] symbol_facts(3) [OF assms] by (auto simp: view_symbol_def desc_view_def)

lemma reloc_target:
  assumes "object_written w" and "r \<in> set (os_relocs w)"
  obtains (data) "r_symbol r = Some ''.rodata''" "reloc_symbol_index (os_syms w) (os_strtab w) ''.rodata'' = 2"
    | (symbol) k s where "r_symbol r = Some s" "k < length (os_symbols w)" "ed_name (symbol_order (os_symbols w) ! k) = s"
        "unat (reloc_symbol_index (os_syms w) (os_strtab w) s) = 3 + k"
proof -
  have "reloc_ok (os_code w) (os_symbols w) r" using written_setup(1) [OF assms(1)] assms(2) by (simp add: object_ok_def list_all_iff)
  then obtain s where s: "r_symbol r = Some s" "s = ''.rodata'' \<or> list_ex (\<lambda>d. ed_name d = s) (os_symbols w)"
    by (auto simp: reloc_ok_def split: option.splits)
  show ?thesis
  proof (cases "s = ''.rodata''")
    case True
    then show ?thesis using data s by (simp add: reloc_symbol_index_def)
  next
    case False
    then have ex: "list_ex (\<lambda>d. ed_name d = s) (os_symbols w)" using s(2) by simp
    note w = assms(1)
    show ?thesis
      by (rule reloc_symbol_index_found [OF written_setup(2) [OF w] names [OF w] sizes(2,1) [OF w] False ex])
        (rule symbol [OF s(1)], assumption+)
  qed
qed

lemma relas_are_valid:
  assumes "object_written w"
  shows "relas_valid (os_code w) (os_syms w) (relas_of w)"
proof -
  have "unat (ra_offset (rela_entry (os_syms w) (os_strtab w) r)) < length (os_code w) \<and>
      unat (ELF64_R_SYM (ra_info (rela_entry (os_syms w) (os_strtab w) r))) < length (os_syms w)"
    if r: "r \<in> set (os_relocs w)" for r
  proof -
    have "unat (r_offset r) < length (os_code w)"
      using written_setup(1) [OF assms] r by (simp add: object_ok_def list_all_iff reloc_ok_def)
    then show ?thesis
      using symbol_facts(1) [OF assms] by (cases rule: reloc_target [OF assms r]) (simp_all add: rela_entry_def)
  qed
  then show ?thesis by (simp add: relas_valid_def relas_of_def list_all_iff)
qed

lemma view_rela_written:
  assumes "object_written w" and "k < length (os_relocs w)"
  shows "view_rela (obj_of w) k = Some (reloc_view (os_relocs w ! k))"
proof -
  let ?r = "os_relocs w ! k"
  have rd: "read_rela (os_file w) (l_rela (os_layout w) + of_nat k * 24) = Some (rela_entry (os_syms w) (os_strtab w) ?r)"
    using written_rela [OF written_setup(3) [OF assms(1)], of k] assms(2) by (simp add: relas_of_def)
  from assms(2) have "?r \<in> set (os_relocs w)" by simp
  with assms(1) show ?thesis
  proof (cases rule: reloc_target)
    case data
    have s: "object_symbol (obj_of w) 2 = Some rodata_sym"
      using written_sym [OF written_setup(3) [OF assms(1)], of 2] symbol_facts(1,2) [OF assms(1)]
      by (simp add: object_symbol_def obj_fields)
    show ?thesis
      using rd data s by (simp add: view_rela_def obj_fields rela_entry_def reloc_view_def rodata_sym_def
        null_sym_def ELF64_ST_TYPE_def ELF64_ST_INFO_def STT_SECTION_def STB_LOCAL_def)
  next
    case (symbol j s)
    obtain n where n: "os_syms w ! (3 + j) = symbol_entry n (symbol_order (os_symbols w) ! j)"
      using symbol_facts(3) [OF assms(1) symbol(2)] by blast
    show ?thesis
      using rd symbol symbol_read [OF assms(1) symbol(2)] n
      by (simp add: view_rela_def obj_fields rela_entry_def reloc_view_def STT_SECTION_def STT_FUNC_def STT_NOTYPE_def)
  qed
qed

lemma sections_written:
  assumes "object_written w"
  shows "view_section (obj_of w) (po_text (obj_of w)) = Some (os_code w)" "view_section (obj_of w) (po_rodata (obj_of w)) = Some (os_data w)"
proof -
  have h: "holds (os_file w) (unat (l_text (os_layout w))) (os_code w)" "holds (os_file w) (unat (l_rodata (os_layout w))) (os_data w)"
    using written_setup(3) [OF assms] by (simp_all only: written_file_def)
  have n: "unat (of_nat (length (os_code w)) :: u64) = length (os_code w)" "unat (of_nat (length (os_data w)) :: u64) = length (os_data w)"
    using sizes(3,4) [OF assms] by (simp_all add: unat_of_nat)
  show "view_section (obj_of w) (po_text (obj_of w)) = Some (os_code w)" "view_section (obj_of w) (po_rodata (obj_of w)) = Some (os_data w)"
    using holds_slice [OF h(1) n(1)] holds_slice [OF h(2) n(2)]
    by (simp_all add: view_section_def obj_of_def expected_object_def new_object_def)
qed

lemma view_written:
  assumes "object_written w"
  shows "object_view (obj_of w) = (Some (os_code w), Some (os_data w), map (Some \<circ> desc_view) (symbol_order (os_symbols w)),
     map (Some \<circ> reloc_view) (os_relocs w))"
proof -
  have "length (os_syms w) < 2 ^ 31" using written_setup(3) [OF assms] by (simp add: written_file_def)
  then have "unat (of_nat (length (os_syms w)) :: u64) = length (os_syms w)" by (simp add: unat_of_nat)
  then have "unat (po_sym_count (obj_of w)) = 3 + length (os_symbols w)" by (simp only: obj_fields symbol_facts(1) [OF assms])
  then have a: "map (view_symbol (obj_of w)) [3..<unat (po_sym_count (obj_of w))] = map (Some \<circ> desc_view) (symbol_order (os_symbols w))"
    using view_symbol_written [OF assms] by (intro nth_equalityI) simp_all
  have "length (os_relocs w) < 2 ^ 31" using written_setup(3) [OF assms] by (simp add: written_file_def relas_of_def)
  then have "unat (po_rela_count (obj_of w)) = length (os_relocs w)" by (simp add: obj_fields unat_of_nat)
  then have b: "map (view_rela (obj_of w)) [0..<unat (po_rela_count (obj_of w))] = map (Some \<circ> reloc_view) (os_relocs w)"
    using view_rela_written [OF assms] by (intro nth_equalityI) simp_all
  show ?thesis by (simp add: object_view_def sections_written [OF assms] a b)
qed

text \<open>
  C28. An object file written by \<open>elf64_write_object_file\<close> is accepted by the linker's reader, and what
  the reader finds is what was written: the code, the read-only data, every symbol with its name,
  definedness, offset and size (the defined ones first), and every relocation with its offset, type,
  addend and the name of its target, however the names share storage in the string table.
\<close>

theorem object_file_round_trip:
  assumes "object_ok source code relocs data ds"
  shows "\<exists>obj. elf64_read_object_memory (elf64_object_bytes source code relocs data ds) nm = Inr obj \<and>
     object_view obj = (Some code, Some data, map (Some \<circ> desc_view) (symbol_order ds), map (Some \<circ> reloc_view) relocs)"
proof -
  obtain syms strtab where st: "build_symtab source ds = (syms, strtab)" by fastforce
  obtain l where w: "written_file (elf64_object_bytes source code relocs data ds) l code (map (rela_entry syms strtab) relocs)
      data syms strtab (snd shstr) (object_shdrs l code (map (rela_entry syms strtab) relocs) data syms strtab)"
    using object_bytes_written [OF assms st] by blast
  define ob where "ob = \<lparr>os_source = source, os_code = code, os_relocs = relocs, os_data = data, os_symbols = ds,
    os_syms = syms, os_strtab = strtab, os_file = elf64_object_bytes source code relocs data ds, os_layout = l, os_name = nm\<rparr>"
  have ow: "object_written ob" using assms st w by (simp add: object_written_def ob_def relas_of_def)
  have "elf64_read_object_memory (os_file ob) (os_name ob) = Inr (obj_of ob)"
    unfolding obj_of_def by (rule object_read [OF written_setup(3) [OF ow] relas_are_valid [OF ow]])
  then show ?thesis using view_written [OF ow] by (simp add: ob_def)
qed

theorem object_file_round_trip_witness:
  "\<exists>obj. elf64_read_object_memory (elf64_object_bytes ''a.cco'' [0xE8, 0, 0, 0, 0, 0xC3]
        [\<lparr>r_offset = 1, r_symbol = Some ''printf'', r_type = R_X86_64_PLT32, r_addend = - 4\<rparr>] [0x25]
        [\<lparr>ed_name = ''f'', ed_offset = 0, ed_size = 6, ed_global = True, ed_defined = True\<rparr>,
         \<lparr>ed_name = ''printf'', ed_offset = 0, ed_size = 0, ed_global = True, ed_defined = False\<rparr>]) ''a.o'' = Inr obj \<and>
     object_view obj = (Some [0xE8, 0, 0, 0, 0, 0xC3], Some [0x25],
       [Some (''f'', True, 0, 6), Some (''printf'', False, 0, 0)], [Some (1, ''printf'', R_X86_64_PLT32, - 4)])"
  using object_file_round_trip [of "''a.cco''" "[0xE8, 0, 0, 0, 0, 0xC3]"
      "[\<lparr>r_offset = 1, r_symbol = Some ''printf'', r_type = R_X86_64_PLT32, r_addend = - 4\<rparr>]" "[0x25]"
      "[\<lparr>ed_name = ''f'', ed_offset = 0, ed_size = 6, ed_global = True, ed_defined = True\<rparr>,
         \<lparr>ed_name = ''printf'', ed_offset = 0, ed_size = 0, ed_global = True, ed_defined = False\<rparr>]" "''a.o''"]
  by (simp add: object_ok_def object_size_def no_null_def reloc_ok_def desc_view_def reloc_view_def symbol_order_def)

end
