(* ===== verification/X86_Link_Correct.thy ===== *)
theory X86_Link_Correct
  imports X86_Elf_Roundtrip
begin

text \<open>
  What linking does: a symbol is resolved to its only definition, sections keep their contents,
  and every relocated field leads from its place to the address of its symbol. And what it does
  with files that it rejects.
\<close>

section \<open>Symbol resolution\<close>

text \<open>The table defines a name at an offset of a section of an object.\<close>

definition resolves :: "global_sym list \<Rightarrow> u8 list \<Rightarrow> nat \<Rightarrow> u64 \<Rightarrow> symbol_sec_kind \<Rightarrow> bool" where
  "resolves t nm i v sec \<longleftrightarrow>
     (case symtab_find t nm of Some g \<Rightarrow> gs_defined g \<and> gs_obj g = i \<and> gs_offset g = v \<and> gs_sec g = sec | None \<Rightarrow> False)"

lemma find_update_first:
  assumes "\<And>g. gs_name (f g) = gs_name g"
  shows "symtab_find (update_first (\<lambda>g. gs_name g = nm) f t) nm' =
    (if nm' = nm then map_option f (symtab_find t nm) else symtab_find t nm')"
  by (induction t) (auto simp: symtab_find_def assms)

lemma gs_name_define [simp]: "gs_name (define_sym i v sz sec g) = gs_name g"
  by (simp add: define_sym_def)

lemma find_append: "symtab_find (t @ [g]) nm = (case symtab_find t nm of Some h \<Rightarrow> Some h
   | None \<Rightarrow> if gs_name g = nm then Some g else None)"
  by (induction t) (auto simp: symtab_find_def)

lemma symtab_add_keeps:
  assumes "symtab_add t nm i v sz sec defd = Inr t'" and "resolves t nm' j v' sec'"
  shows "resolves t' nm' j v' sec'"
  using assms
  by (auto simp: symtab_add_def resolves_def find_append find_update_first split: option.splits if_splits)

lemma symtab_add_defines:
  assumes "symtab_add t nm i v sz sec True = Inr t'"
  shows "resolves t' nm i v sec"
  using assms
  by (auto simp: symtab_add_def resolves_def find_append find_update_first define_sym_def split: option.splits if_splits)

lemma collect_symbol_keeps:
  "collect_symbol i obj strtab s t = Inr t' \<Longrightarrow> resolves t nm j v sec \<Longrightarrow> resolves t' nm j v sec"
  by (auto simp: collect_symbol_def split: if_splits option.splits dest: symtab_add_keeps)

text \<open>A global symbol that an object defines.\<close>

definition exported :: "parsed_object \<Rightarrow> elf64_sym \<Rightarrow> u8 list \<Rightarrow> bool" where
  "exported obj s nm \<longleftrightarrow> st_name s \<noteq> 0 \<and> ucast (st_name s) < po_strtab_size obj \<and>
     ELF64_ST_BIND (st_info s) = STB_GLOBAL \<and> st_shndx s \<noteq> SHN_UNDEF \<and>
     (case po_strtab obj of Some a \<Rightarrow> c_string (po_raw obj) (a + ucast (st_name s)) = Some nm | None \<Rightarrow> False)"

lemma collect_symbol_defines:
  assumes "collect_symbol i obj strtab s t = Inr t'" and "exported obj s nm" and "po_strtab obj = Some strtab"
  shows "resolves t' nm i (st_value s) (sec_kind obj (st_shndx s))"
proof -
  have "\<not> po_strtab_size obj \<le> ucast (st_name s)" using assms(2) by (simp add: exported_def not_le)
  then show ?thesis using assms by (auto simp: collect_symbol_def exported_def dest: symtab_add_defines)
qed

lemma collect_symbols_keeps:
  "collect_symbols i obj strtab off n t = Inr t' \<Longrightarrow> resolves t nm j v sec \<Longrightarrow> resolves t' nm j v sec"
  by (induction i obj strtab off n t rule: collect_symbols.induct)
    (auto split: option.splits sum.splits dest: collect_symbol_keeps)

lemma offset_Suc: "off + 24 + of_nat k * 24 = (off + of_nat (Suc k) * 24 :: u64)"
  by (simp add: algebra_simps)

lemma collect_symbols_defines:
  assumes "collect_symbols i obj strtab off n t = Inr t'" and "k < n" and "read_sym (po_raw obj) (off + of_nat k * 24) = Some s"
    and "exported obj s nm" and "po_strtab obj = Some strtab"
  shows "resolves t' nm i (st_value s) (sec_kind obj (st_shndx s))"
  using assms(1-3)
proof (induction n arbitrary: off t k)
  case 0
  then show ?case by simp
next
  case (Suc n)
  obtain s0 t0 where s0: "read_sym (po_raw obj) off = Some s0" "collect_symbol i obj strtab s0 t = Inr t0"
      "collect_symbols i obj strtab (off + 24) n t0 = Inr t'"
    using Suc.prems(1) by (auto split: option.splits sum.splits)
  show ?case
  proof (cases k)
    case 0
    then have "s0 = s" using s0(1) Suc.prems(3) by simp
    then show ?thesis using collect_symbols_keeps [OF s0(3)] collect_symbol_defines [OF s0(2) _ assms(5)] assms(4) by blast
  next
    case (Suc j)
    show ?thesis
      by (rule Suc.IH [OF s0(3), of j]) (use Suc.prems Suc in \<open>simp_all add: offset_Suc [symmetric] del: of_nat_Suc\<close>)
  qed
qed

lemma collect_object_keeps:
  "collect_object i obj t = Inr t' \<Longrightarrow> resolves t nm j v sec \<Longrightarrow> resolves t' nm j v sec"
  by (auto simp: collect_object_def split: option.splits dest: collect_symbols_keeps)

lemma collect_all_keeps:
  "collect_all i objs t = Inr t' \<Longrightarrow> resolves t nm j v sec \<Longrightarrow> resolves t' nm j v sec"
  by (induction i objs t rule: collect_all.induct) (auto split: sum.splits dest: collect_object_keeps)

lemma collect_all_defines:
  assumes "collect_all i objs t = Inr t'" and "j < length objs" and "k < unat (po_sym_count (objs ! j))"
    and "object_symbol (objs ! j) k = Some s" and "exported (objs ! j) s nm"
  shows "resolves t' nm (i + j) (st_value s) (sec_kind (objs ! j) (st_shndx s))"
  using assms
proof (induction objs arbitrary: i j t)
  case Nil
  then show ?case by simp
next
  case (Cons obj objs)
  obtain t0 where t0: "collect_object i obj t = Inr t0" "collect_all (i + 1) objs t0 = Inr t'"
    using Cons.prems(1) by (auto split: sum.splits)
  show ?case
  proof (cases j)
    case 0
    obtain a b where ab: "po_symtab obj = Some a" "po_strtab obj = Some b"
      using Cons.prems(4,5) 0 by (auto simp: object_symbol_def exported_def split: option.splits)
    have "resolves t0 nm i (st_value s) (sec_kind obj (st_shndx s))"
      using collect_symbols_defines [of i obj b a "unat (po_sym_count obj)" t t0 k s nm] t0(1) ab Cons.prems(3-5) 0
      by (simp add: collect_object_def object_symbol_def)
    then show ?thesis using collect_all_keeps [OF t0(2)] 0 by simp
  next
    case (Suc m)
    show ?thesis using Cons.IH [OF t0(2), of m] Cons.prems(2-5) Suc by simp
  qed
qed

section \<open>Merged sections\<close>

lemma merge_section_text:
  assumes "merge_section raw sec pad buf = Some (buf', off)"
  shows "\<exists>rest. buf' = buf @ rest"
    and "sr_size sec > 0 \<Longrightarrow> sr_data sec = Some a \<Longrightarrow>
      \<exists>bs k. slice raw a (sr_size sec) = Some bs \<and> holds buf' k bs \<and> off = of_nat k"
proof -
  show "\<exists>rest. buf' = buf @ rest"
    using assms by (auto simp: merge_section_def byte_buf_pad_to_def Let_def split: option.splits if_splits)
  assume "sr_size sec > 0" "sr_data sec = Some a"
  then obtain bs where bs: "slice raw a (sr_size sec) = Some bs"
    "buf' = byte_buf_pad_to buf (align_to (size_of buf) 16) pad @ bs"
    "off = size_of (byte_buf_pad_to buf (align_to (size_of buf) 16) pad)"
    using assms by (auto simp: merge_section_def Let_def split: option.splits)
  then show "\<exists>bs k. slice raw a (sr_size sec) = Some bs \<and> holds buf' k bs \<and> off = of_nat k"
    by (intro exI [of _ bs] exI [of _ "length (byte_buf_pad_to buf (align_to (size_of buf) 16) pad)"])
      (simp add: holds_def size_of_def)
qed

lemma merge_all_keeps:
  "merge_all objs m = Some m' \<Longrightarrow> (\<exists>rest. mg_text m' = mg_text m @ rest) \<and>
     (\<exists>rest. mg_text_offs m' = mg_text_offs m @ rest \<and> length rest = length objs)"
proof (induction objs m rule: merge_all.induct)
  case (1 m)
  then show ?case by simp
next
  case (2 obj objs m)
  obtain m1 where m1: "merge_object obj m = Some m1" "merge_all objs m1 = Some m'"
    using 2(2) by (auto split: option.splits)
  have "(\<exists>rest. mg_text m1 = mg_text m @ rest) \<and> (\<exists>a. mg_text_offs m1 = mg_text_offs m @ [a])"
    using m1(1) merge_section_text(1) by (fastforce simp: merge_object_def split: option.splits prod.splits)
  with 2(1) [OF m1] show ?case by fastforce
qed

text \<open>The code of an object is found at its offset.\<close>

lemma merge_all_text:
  assumes "merge_all objs m = Some m'" and "i < length objs" and "sr_size (po_text (objs ! i)) > 0"
    and "sr_data (po_text (objs ! i)) = Some a"
  shows "\<exists>bs k. slice (po_raw (objs ! i)) a (sr_size (po_text (objs ! i))) = Some bs \<and>
     holds (mg_text m') k bs \<and> mg_text_offs m' ! (length (mg_text_offs m) + i) = of_nat k"
  using assms
proof (induction objs m arbitrary: i rule: merge_all.induct)
  case (1 m)
  then show ?case by simp
next
  case (2 obj objs m)
  obtain m1 where m1: "merge_object obj m = Some m1" "merge_all objs m1 = Some m'"
    using 2(2) by (auto split: option.splits)
  obtain off where off: "merge_section (po_raw obj) (po_text obj) 0x90 (mg_text m) = Some (mg_text m1, off)"
    "mg_text_offs m1 = mg_text_offs m @ [off]"
    using m1(1) by (auto simp: merge_object_def split: option.splits prod.splits)
  show ?case
  proof (cases i)
    case 0
    obtain bs k where bs: "slice (po_raw obj) a (sr_size (po_text obj)) = Some bs" "holds (mg_text m1) k bs" "off = of_nat k"
      using merge_section_text(2) [OF off(1)] 2(4,5) 0 by auto
    obtain r1 r2 where r: "mg_text m' = mg_text m1 @ r1" "mg_text_offs m' = mg_text_offs m1 @ r2"
      using merge_all_keeps [OF m1(2)] by blast
    have "holds (mg_text m') k bs" unfolding r(1) by (rule holds_extend [OF bs(2)])
    moreover have "mg_text_offs m' ! length (mg_text_offs m) = off" unfolding r(2) off(2) by (simp add: nth_append)
    ultimately show ?thesis using bs 0 by auto
  next
    case (Suc j)
    have "length (mg_text_offs m1) = Suc (length (mg_text_offs m))" using off(2) by simp
    then show ?thesis using 2(1) [OF m1, of j] 2(3-5) Suc by simp
  qed
qed

section \<open>Relocation\<close>

definition rela_place :: "merged \<Rightarrow> nat \<Rightarrow> elf64_rela \<Rightarrow> u64" where
  "rela_place m i r = mg_text_offs m ! i + ra_offset r"

definition apart :: "nat \<Rightarrow> nat \<Rightarrow> nat \<Rightarrow> nat \<Rightarrow> bool" where
  "apart p a q b \<longleftrightarrow> p + a \<le> q \<or> q + b \<le> p"

lemma holds_take_length: "holds (blit file q cs) p bs \<Longrightarrow> p + length bs \<le> length file \<Longrightarrow>
    holds (take (length file) (blit file q cs)) p bs"
  by (auto simp: holds_nth)

lemma patch32_keeps:
  assumes "patch32 code pos v = Some code'"
  shows "length code' = length code"
    and "holds code p bs \<Longrightarrow> apart p (length bs) (unat pos) 4 \<Longrightarrow> holds code' p bs"
    and "unat pos + 4 \<le> length code \<Longrightarrow> holds code' (unat pos) (le32 v)"
proof -
  have e: "code' = take (length code) (blit code (unat pos) (le32 v))"
    using assms by (simp add: patch32_def split: if_splits)
  show "length code' = length code" unfolding e by (simp add: blit_def)
  show "unat pos + 4 \<le> length code \<Longrightarrow> holds code' (unat pos) (le32 v)"
    unfolding e using holds_blit_same [of "unat pos" "le32 v" code] by simp
  assume h: "holds code p bs" and a: "apart p (length bs) (unat pos) 4"
  have "code' ! (p + k) = bs ! k" if k: "k < length bs" for k
  proof -
    have "p + k < length code" "code ! (p + k) = bs ! k" using h k by (auto simp: holds_nth)
    moreover have "p + k < unat pos \<or> unat pos + 4 \<le> p + k" using a k by (auto simp: apart_def)
    ultimately show ?thesis unfolding e by (auto simp: blit_def nth_append min_def)
  qed
  then show "holds code' p bs" using h \<open>length code' = length code\<close> by (simp add: holds_nth)
qed

text \<open>A relocation that has been applied: the address found, the field written, everything else kept.\<close>

lemma apply_rela_effect:
  assumes "apply_rela m t i obj r code = Inr code'"
  shows "length code' = length code"
    and "holds code p bs \<Longrightarrow> apart p (length bs) (unat (rela_place m i r)) 4 \<Longrightarrow> holds code' p bs"
    and "\<exists>a s addr. po_symtab obj = Some a \<and> read_sym (po_raw obj) (a + ucast (ELF64_R_SYM (ra_info r)) * 24) = Some s \<and>
      target_address m t i obj s = Inr addr \<and>
      (let val = addr + ra_addend r - (TEXT_VADDR_BASE + rela_place m i r)
       in - 2147483648 \<le> sint val \<and> sint val \<le> 2147483647 \<and>
          (unat (rela_place m i r) + 4 \<le> length code \<longrightarrow> holds code' (unat (rela_place m i r)) (le32 (ucast val))))"
proof -
  obtain a s addr where o: "po_symtab obj = Some a" "read_sym (po_raw obj) (a + ucast (ELF64_R_SYM (ra_info r)) * 24) = Some s"
    "target_address m t i obj s = Inr addr"
    and p: "patch32 code (rela_place m i r) (ucast (addr + ra_addend r - (TEXT_VADDR_BASE + rela_place m i r))) = Some code'"
    and range: "\<not> sint (addr + ra_addend r - (TEXT_VADDR_BASE + rela_place m i r)) < - 2147483648"
      "\<not> sint (addr + ra_addend r - (TEXT_VADDR_BASE + rela_place m i r)) > 2147483647"
    using assms by (auto simp: apply_rela_def Let_def rela_place_def split: option.splits sum.splits if_splits)
  show "length code' = length code"
    and "holds code p bs \<Longrightarrow> apart p (length bs) (unat (rela_place m i r)) 4 \<Longrightarrow> holds code' p bs"
    using patch32_keeps [OF p] by blast+
  show "\<exists>a s addr. po_symtab obj = Some a \<and> read_sym (po_raw obj) (a + ucast (ELF64_R_SYM (ra_info r)) * 24) = Some s \<and>
      target_address m t i obj s = Inr addr \<and>
      (let val = addr + ra_addend r - (TEXT_VADDR_BASE + rela_place m i r)
       in - 2147483648 \<le> sint val \<and> sint val \<le> 2147483647 \<and>
          (unat (rela_place m i r) + 4 \<le> length code \<longrightarrow> holds code' (unat (rela_place m i r)) (le32 (ucast val))))"
    using o range patch32_keeps(3) [OF p] by (simp add: Let_def)
qed

text \<open>All relocations of a list of objects, in the order in which they are applied.\<close>

fun relas_at :: "u8 list \<Rightarrow> u64 \<Rightarrow> nat \<Rightarrow> elf64_rela list" where
  "relas_at raw off 0 = []"
| "relas_at raw off (Suc n) = (case read_rela raw off of Some r \<Rightarrow> r # relas_at raw (off + 24) n | None \<Rightarrow> [])"

definition object_relas :: "parsed_object \<Rightarrow> elf64_rela list" where
  "object_relas obj = (case po_relas obj of Some off \<Rightarrow> relas_at (po_raw obj) off (unat (po_rela_count obj)) | None \<Rightarrow> [])"

fun all_relas :: "nat \<Rightarrow> parsed_object list \<Rightarrow> (nat \<times> parsed_object \<times> elf64_rela) list" where
  "all_relas i [] = []"
| "all_relas i (obj # objs) = map (\<lambda>r. (i, obj, r)) (object_relas obj) @ all_relas (i + 1) objs"

fun apply_all ::
  "merged \<Rightarrow> global_sym list \<Rightarrow> (nat \<times> parsed_object \<times> elf64_rela) list \<Rightarrow> u8 list \<Rightarrow> link_error + u8 list" where
  "apply_all m t [] code = Inr code"
| "apply_all m t ((i, obj, r) # xs) code =
     (case apply_rela m t i obj r code of Inl e \<Rightarrow> Inl e | Inr code \<Rightarrow> apply_all m t xs code)"

lemma apply_all_append:
  "apply_all m t (xs @ ys) code = (case apply_all m t xs code of Inl e \<Rightarrow> Inl e | Inr code \<Rightarrow> apply_all m t ys code)"
  by (induction m t xs code rule: apply_all.induct) (auto split: sum.splits)

lemma apply_relas_flat:
  "apply_relas m t i obj off n code = Inr code' \<Longrightarrow>
     apply_all m t (map (\<lambda>r. (i, obj, r)) (relas_at (po_raw obj) off n)) code = Inr code'"
  by (induction m t i obj off n code rule: apply_relas.induct) (auto split: option.splits sum.splits)

lemma relocate_all_flat:
  "relocate_all m t i objs code = Inr code' \<Longrightarrow> apply_all m t (all_relas i objs) code = Inr code'"
proof (induction m t i objs code rule: relocate_all.induct)
  case (1 m t i code)
  then show ?case by simp
next
  case (2 m t i obj objs code)
  obtain c where c: "(case po_relas obj of
      Some off \<Rightarrow> apply_relas m t i obj off (unat (po_rela_count obj)) code | None \<Rightarrow> Inr code) = Inr c"
    "relocate_all m t (i + 1) objs c = Inr code'"
    using 2(2) by (auto split: sum.splits)
  have "apply_all m t (map (\<lambda>r. (i, obj, r)) (object_relas obj)) code = Inr c"
    using c(1) apply_relas_flat by (auto simp: object_relas_def split: option.splits)
  then show ?case using 2(1) [OF c] by (simp add: apply_all_append)
qed

lemma all_relas_mem: "j < length objs \<Longrightarrow> r \<in> set (object_relas (objs ! j)) \<Longrightarrow> (i + j, objs ! j, r) \<in> set (all_relas i objs)"
proof (induction objs arbitrary: i j)
  case Nil
  then show ?case by simp
next
  case (Cons obj objs)
  then show ?case using Cons.IH [of "j - 1" "i + 1"] by (cases j) auto
qed

text \<open>The fields do not overlap.\<close>

definition fields_apart :: "merged \<Rightarrow> (nat \<times> parsed_object \<times> elf64_rela) list \<Rightarrow> bool" where
  "fields_apart m xs \<longleftrightarrow>
     sorted_wrt (\<lambda>(i, a, r) (j, b, q). apart (unat (rela_place m i r)) 4 (unat (rela_place m j q)) 4) xs"

lemma apply_all_keeps:
  "apply_all m t xs code = Inr code' \<Longrightarrow> holds code p bs \<Longrightarrow>
     (\<And>i obj r. (i, obj, r) \<in> set xs \<Longrightarrow> apart p (length bs) (unat (rela_place m i r)) 4) \<Longrightarrow> holds code' p bs"
proof (induction m t xs code rule: apply_all.induct)
  case (1 m t code)
  then show ?case by simp
next
  case (2 m t i obj r xs code)
  obtain c where c: "apply_rela m t i obj r code = Inr c" "apply_all m t xs c = Inr code'"
    using 2(2) by (auto split: sum.splits)
  have "holds c p bs" by (rule apply_rela_effect(2) [OF c(1) 2(3)]) (rule 2(4) [of i obj r], simp)
  then show ?case by (rule 2(1) [OF c]) (auto intro: 2(4))
qed

definition field_value :: "merged \<Rightarrow> nat \<Rightarrow> elf64_rela \<Rightarrow> u64 \<Rightarrow> u64" where
  "field_value m i r addr = addr + ra_addend r - (TEXT_VADDR_BASE + rela_place m i r)"

lemma apply_all_field:
  assumes "apply_all m t xs code = Inr code'" and "fields_apart m xs" and "(i, obj, r) \<in> set xs"
    and "unat (rela_place m i r) + 4 \<le> length code"
  shows "\<exists>a s addr. po_symtab obj = Some a \<and> read_sym (po_raw obj) (a + ucast (ELF64_R_SYM (ra_info r)) * 24) = Some s \<and>
      target_address m t i obj s = Inr addr \<and> - 2147483648 \<le> sint (field_value m i r addr) \<and>
      sint (field_value m i r addr) \<le> 2147483647 \<and>
      holds code' (unat (rela_place m i r)) (le32 (ucast (field_value m i r addr)))"
  using assms
proof (induction m t xs code rule: apply_all.induct)
  case (1 m t code)
  then show ?case by simp
next
  case (2 m t i' obj' r' xs code)
  obtain c where c: "apply_rela m t i' obj' r' code = Inr c" "apply_all m t xs c = Inr code'"
    using 2(2) by (auto split: sum.splits)
  note eff = apply_rela_effect [OF c(1)]
  have ap: "fields_apart m xs"
    "\<And>j b q. (j, b, q) \<in> set xs \<Longrightarrow> apart (unat (rela_place m i' r')) 4 (unat (rela_place m j q)) 4"
    using 2(3) by (auto simp: fields_apart_def)
  consider "(i, obj, r) = (i', obj', r')" | "(i, obj, r) \<in> set xs" using 2(4) by auto
  then show ?case
  proof cases
    case 1
    then obtain a s addr where o: "po_symtab obj = Some a"
      "read_sym (po_raw obj) (a + ucast (ELF64_R_SYM (ra_info r)) * 24) = Some s" "target_address m t i obj s = Inr addr"
      "- 2147483648 \<le> sint (field_value m i r addr)" "sint (field_value m i r addr) \<le> 2147483647"
      "holds c (unat (rela_place m i r)) (le32 (ucast (field_value m i r addr)))"
      using eff(3) 2(5) by (auto simp: Let_def field_value_def)
    have "holds code' (unat (rela_place m i r)) (le32 (ucast (field_value m i r addr)))"
      by (rule apply_all_keeps [OF c(2) o(6)]) (use 1 in \<open>auto dest: ap(2)\<close>)
    then show ?thesis using o by blast
  next
    case 2
    show ?thesis by (rule "2.IH" [OF c ap(1) 2]) (use "2.prems"(4) eff(1) in simp)
  qed
qed

section \<open>The executable\<close>

lemma executable_text:
  assumes "holds code p bs"
  shows "holds (executable m entry code) (4096 + p) bs"
proof -
  define hdr where "hdr = ehdr_bytes (exec_ehdr entry (of_nat (length (program_headers m)))) @
    concat (map phdr_bytes (program_headers m))"
  have "length (phdr_bytes p) = 56" for p by (simp add: phdr_bytes_def)
  then have "length (concat (map phdr_bytes (program_headers m))) = length (program_headers m) * 56"
    by (rule length_concat_map)
  moreover have "length (program_headers m) \<le> 4" by (simp add: program_headers_def Let_def)
  ultimately have "length hdr \<le> 288" by (simp add: hdr_def)
  then have len: "length (byte_buf_pad_to hdr PAGE_SIZE 0) = 4096" by (simp add: byte_buf_pad_to_def PAGE_SIZE_def)
  obtain rest where e: "executable m entry code = (byte_buf_pad_to hdr PAGE_SIZE 0 @ code) @ rest"
    by (cases "mg_rodata m = []") (auto simp: executable_def hdr_def Let_def byte_buf_pad_to_def)
  have "holds (byte_buf_pad_to hdr PAGE_SIZE 0 @ code) (4096 + p) bs"
    using assms len by (auto simp: holds_nth nth_append)
  then show ?thesis unfolding e by (rule holds_extend)
qed

section \<open>References lead to definitions\<close>

definition name_bytes :: "parsed_object \<Rightarrow> elf64_sym \<Rightarrow> u8 list option" where
  "name_bytes obj s =
     (case po_strtab obj of Some a \<Rightarrow> c_string (po_raw obj) (a + ucast (st_name s)) | None \<Rightarrow> None)"

lemma gs_name_placed [simp]: "gs_name (place_symbol m g) = gs_name g"
  by (simp add: place_symbol_def)

lemma find_placed:
  "symtab_find (map (place_symbol m) t) nm = map_option (place_symbol m) (symtab_find t nm)"
  by (induction t) (auto simp: symtab_find_def)

text \<open>Where a place in the code or the constants of an object is in memory; other sections are not placed.\<close>

definition section_address :: "merged \<Rightarrow> nat \<Rightarrow> symbol_sec_kind \<Rightarrow> u64 \<Rightarrow> u64 option" where
  "section_address m i sec v =
     (case sec of SEC_TEXT \<Rightarrow> Some (text_addr m i v) | SEC_RODATA \<Rightarrow> Some (rodata_addr m i v) | _ \<Rightarrow> None)"

lemma target_of_global:
  assumes "resolves t nm j v sec" and "section_address m j sec v = Some addr'" and "ELF64_ST_TYPE (st_info s) \<noteq> STT_SECTION"
    and "ELF64_ST_BIND (st_info s) \<noteq> STB_LOCAL" and "name_bytes obj s = Some nm"
    and "target_address m (map (place_symbol m) t) i obj s = Inr addr"
  shows "addr = addr'"
proof -
  obtain g where g: "symtab_find t nm = Some g" "gs_defined g" "gs_obj g = j" "gs_offset g = v" "gs_sec g = sec"
    using assms(1) by (auto simp: resolves_def split: option.splits)
  then have "gs_vaddr (place_symbol m g) = addr'"
    using assms(2) by (auto simp: section_address_def place_symbol_def split: symbol_sec_kind.splits)
  moreover have "addr = gs_vaddr (place_symbol m g)"
    using assms(3-6) g(1)
    by (auto simp: target_address_def Let_def name_bytes_def find_placed split: option.splits if_splits)
  ultimately show ?thesis by simp
qed

lemma target_of_own:
  assumes "section_address m i (sec_kind obj (st_shndx s)) (st_value s) = Some addr'"
    and "ELF64_ST_TYPE (st_info s) = STT_SECTION \<or> ELF64_ST_BIND (st_info s) = STB_LOCAL"
    and "sr_shndx (po_text obj) \<noteq> sr_shndx (po_rodata obj)" and "target_address m t i obj s = Inr addr"
  shows "addr = addr'"
  using assms by (auto simp: section_address_def sec_kind_def target_address_def Let_def split: if_splits)

lemma scast_ucast_range:
  fixes val :: u64
  assumes "- 2147483648 \<le> sint val" and "sint val \<le> 2147483647"
  shows "scast (ucast val :: u32) = val"
proof -
  have "sint (ucast val :: u32) = sint val" using sint_narrow32 assms by (simp add: fits32_def)
  then show ?thesis by (simp add: scast_eq)
qed

lemma link_parsed_parts:
  assumes "link_parsed objs = Inr exe"
  obtains t m entry code where "collect_all 0 objs [] = Inr t" "merge_all objs nothing_merged = Some m"
    "relocate_all m (map (place_symbol m) t) 0 objs (mg_text m) = Inr code" "exe = executable m entry code"
  using assms by (auto simp: link_parsed_def Let_def split: sum.splits option.splits)

text \<open>An object exports a name: a global symbol that it defines at an offset of a section.\<close>

definition exports_in :: "parsed_object \<Rightarrow> u8 list \<Rightarrow> symbol_sec_kind \<Rightarrow> u64 \<Rightarrow> bool" where
  "exports_in obj nm sec v \<longleftrightarrow>
     list_ex (\<lambda>k. case object_symbol obj k of
        Some d \<Rightarrow> exported obj d nm \<and> st_value d = v \<and> sec_kind obj (st_shndx d) = sec
      | None \<Rightarrow> False) [0..<unat (po_sym_count obj)]"

text \<open>
  The address that the symbol of a relocation stands for: for a section or a local symbol, its place in the
  object's own code or constants; for any other, the place in the code or the constants of the object
  that exports the name.
\<close>

inductive leads_to :: "parsed_object list \<Rightarrow> merged \<Rightarrow> nat \<Rightarrow> elf64_rela \<Rightarrow> u64 \<Rightarrow> bool" for objs m i r where
  own: "object_symbol (objs ! i) (unat (ELF64_R_SYM (ra_info r))) = Some s \<Longrightarrow>
    ELF64_ST_TYPE (st_info s) = STT_SECTION \<or> ELF64_ST_BIND (st_info s) = STB_LOCAL \<Longrightarrow>
    sr_shndx (po_text (objs ! i)) \<noteq> sr_shndx (po_rodata (objs ! i)) \<Longrightarrow>
    section_address m i (sec_kind (objs ! i) (st_shndx s)) (st_value s) = Some addr \<Longrightarrow> leads_to objs m i r addr"
| other: "object_symbol (objs ! i) (unat (ELF64_R_SYM (ra_info r))) = Some s \<Longrightarrow>
    ELF64_ST_TYPE (st_info s) \<noteq> STT_SECTION \<Longrightarrow> ELF64_ST_BIND (st_info s) \<noteq> STB_LOCAL \<Longrightarrow>
    name_bytes (objs ! i) s = Some nm \<Longrightarrow> j < length objs \<Longrightarrow> exports_in (objs ! j) nm sec v \<Longrightarrow>
    section_address m j sec v = Some addr \<Longrightarrow> leads_to objs m i r addr"

lemma leads_to_target:
  assumes "leads_to objs m i r addr'" and "collect_all 0 objs [] = Inr t"
    and "object_symbol (objs ! i) (unat (ELF64_R_SYM (ra_info r))) = Some s"
    and "target_address m (map (place_symbol m) t) i (objs ! i) s = Inr addr"
  shows "addr = addr'"
  using assms(1)
proof cases
  case (own s')
  then show ?thesis using target_of_own [OF _ _ _ assms(4)] assms(3) by simp
next
  case (other s' nm j sec v)
  obtain k d where d: "k < unat (po_sym_count (objs ! j))" "object_symbol (objs ! j) k = Some d"
    "exported (objs ! j) d nm" "st_value d = v" "sec_kind (objs ! j) (st_shndx d) = sec"
    using other(6) by (auto simp: exports_in_def list_ex_iff split: option.splits)
  have "resolves t nm j v sec" using collect_all_defines [OF assms(2) other(5) d(1-3)] d(4,5) by simp
  then show ?thesis using target_of_global [OF _ other(7) _ _ _ assms(4)] other(1-4) assms(3) by simp
qed

text \<open>
  C27. Linking resolves references to definitions. When the linker succeeds and no two relocated
  fields overlap, then for every relocation of an object whose symbol stands for an address in the
  merged code or constants, whether it is a section, a local symbol or a name that an object
  exports, the field in the executable, at the page of the code, holds the displacement from the field
  to that address, plus the addend of the relocation: for the calls of the encoder, whose addend
  is -4, the place after the call plus the displacement is the first byte of the function called.
  Symbols of .data and .bss are left out: the linker gives them no address.
\<close>

theorem linked_references_reach_definitions:
  assumes "link_parsed objs = Inr exe" and "merge_all objs nothing_merged = Some m"
    and "fields_apart m (all_relas 0 objs)"
    and "i < length objs" and "r \<in> set (object_relas (objs ! i))" and "unat (rela_place m i r) + 4 \<le> length (mg_text m)"
    and "leads_to objs m i r addr"
  shows "\<exists>disp. holds exe (4096 + unat (rela_place m i r)) (le32 disp) \<and>
     TEXT_VADDR_BASE + rela_place m i r + scast disp = addr + ra_addend r"
proof -
  obtain t m' entry code where p: "collect_all 0 objs [] = Inr t" "merge_all objs nothing_merged = Some m'"
    "relocate_all m' (map (place_symbol m') t) 0 objs (mg_text m') = Inr code" "exe = executable m' entry code"
    using link_parsed_parts [OF assms(1)] .
  then have m: "m' = m" using assms(2) by simp
  note rel = relocate_all_flat [OF p(3) [unfolded m]]
  from all_relas_mem [OF assms(4,5), of 0] have mem: "(i, objs ! i, r) \<in> set (all_relas 0 objs)" by simp
  obtain a s at where f: "po_symtab (objs ! i) = Some a"
    "read_sym (po_raw (objs ! i)) (a + ucast (ELF64_R_SYM (ra_info r)) * 24) = Some s"
    "target_address m (map (place_symbol m) t) i (objs ! i) s = Inr at"
    "- 2147483648 \<le> sint (field_value m i r at)" "sint (field_value m i r at) \<le> 2147483647"
    "holds code (unat (rela_place m i r)) (le32 (ucast (field_value m i r at)))"
    using apply_all_field [OF rel assms(3) mem assms(6)] by blast
  have "(of_nat (unat (ELF64_R_SYM (ra_info r))) :: u64) = ucast (ELF64_R_SYM (ra_info r))" by simp
  then have "object_symbol (objs ! i) (unat (ELF64_R_SYM (ra_info r))) = Some s"
    using f(1,2) by (simp add: object_symbol_def)
  then have at: "at = addr" using leads_to_target [OF assms(7) p(1)] f(3) by blast
  have "holds exe (4096 + unat (rela_place m i r)) (le32 (ucast (field_value m i r at)))"
    unfolding p(4) m by (rule executable_text [OF f(6)])
  moreover have "TEXT_VADDR_BASE + rela_place m i r + scast (ucast (field_value m i r at) :: u32) = addr + ra_addend r"
    by (simp only: scast_ucast_range [OF f(4,5)]) (simp add: field_value_def at)
  ultimately show ?thesis by blast
qed

section \<open>A function that calls itself\<close>

definition demo_code :: "u8 list" where
  "demo_code = [0xE8, 0, 0, 0, 0, 0xC3]"

definition demo_sym :: elf64_sym where
  "demo_sym = \<lparr>st_name = 1, st_info = ELF64_ST_INFO STB_GLOBAL STT_FUNC, st_other = 0, st_shndx = 1, st_value = 0, st_size = 6\<rparr>"

definition demo_rela :: elf64_rela where
  "demo_rela = \<lparr>ra_offset = 1, ra_info = ELF64_R_INFO 0 R_X86_64_PLT32, ra_addend = - 4\<rparr>"

definition demo_obj :: parsed_object where
  "demo_obj = \<lparr>po_name = ''demo.o'', po_raw = demo_code @ [0] @ bytes_of ''main'' @ [0] @ sym_bytes demo_sym @ rela_bytes demo_rela,
     po_text = \<lparr>sr_data = Some 0, sr_size = 6, sr_shndx = 1\<rparr>, po_rodata = no_section, po_data = no_section,
     po_bss = no_section, po_symtab = Some 12, po_sym_count = 1, po_strtab = Some 6, po_strtab_size = 6,
     po_relas = Some 36, po_rela_count = 1\<rparr>"

definition demo_merged :: merged where
  "demo_merged = \<lparr>mg_text = demo_code, mg_rodata = [], mg_text_offs = [0], mg_rodata_offs = [0]\<rparr>"

lemma demo_fields [simp]:
  "po_text demo_obj = \<lparr>sr_data = Some 0, sr_size = 6, sr_shndx = 1\<rparr>" "po_rodata demo_obj = no_section"
  "po_data demo_obj = no_section" "po_bss demo_obj = no_section" "po_symtab demo_obj = Some 12" "po_sym_count demo_obj = 1"
  "po_strtab demo_obj = Some 6" "po_strtab_size demo_obj = 6" "po_relas demo_obj = Some 36" "po_rela_count demo_obj = 1"
  by (simp_all add: demo_obj_def)

lemma demo_held:
  "holds (po_raw demo_obj) 0 demo_code" "holds (po_raw demo_obj) 7 (bytes_of ''main'' @ [0])"
  "holds (po_raw demo_obj) 12 (sym_bytes demo_sym)" "holds (po_raw demo_obj) 36 (rela_bytes demo_rela)"
  by (simp_all add: demo_obj_def holds_def demo_code_def bytes_of_def)

lemma demo_reads [simp]:
  "slice (po_raw demo_obj) 0 6 = Some demo_code" "read_sym (po_raw demo_obj) 12 = Some demo_sym"
  "read_rela (po_raw demo_obj) 36 = Some demo_rela" "c_string (po_raw demo_obj) 7 = Some (bytes_of ''main'')"
proof -
  show "slice (po_raw demo_obj) 0 6 = Some demo_code" using demo_held(1) by (intro holds_slice) (simp_all add: demo_code_def)
  show "read_sym (po_raw demo_obj) 12 = Some demo_sym" using demo_held(3) by (intro read_sym_holds) simp
  show "read_rela (po_raw demo_obj) 36 = Some demo_rela" using demo_held(4) by (intro read_rela_holds) simp
  have "0 \<notin> set (bytes_of ''main'')" by (rule bytes_no_null) (simp add: no_null_def)
  then show "c_string (po_raw demo_obj) 7 = Some (bytes_of ''main'')"
    using demo_held(2) by (intro c_string_holds) simp_all
qed

lemma demo_sym_fields [simp]:
  "st_name demo_sym = 1" "st_shndx demo_sym = 1" "st_value demo_sym = 0" "st_size demo_sym = 6"
  "ELF64_ST_TYPE (st_info demo_sym) = STT_FUNC" "ELF64_ST_BIND (st_info demo_sym) = STB_GLOBAL"
  by (simp_all add: demo_sym_def ELF64_ST_TYPE_def ELF64_ST_BIND_def ELF64_ST_INFO_def STB_GLOBAL_def STT_FUNC_def)

lemma demo_rela_fields [simp]:
  "ra_offset demo_rela = 1" "ra_addend demo_rela = - 4" "ELF64_R_SYM (ra_info demo_rela) = 0"
  "ELF64_R_TYPE (ra_info demo_rela) = R_X86_64_PLT32"
  by (simp_all add: demo_rela_def)

lemma demo_sec_kind: "sec_kind demo_obj 1 = SEC_TEXT"
  by (simp add: sec_kind_def)

definition demo_global :: global_sym where
  "demo_global = \<lparr>gs_name = bytes_of ''main'', gs_vaddr = 0, gs_size = 6, gs_obj = 0, gs_offset = 0, gs_sec = SEC_TEXT, gs_defined = True\<rparr>"

lemma demo_collected: "collect_all 0 [demo_obj] [] = Inr [demo_global]"
  by (simp add: collect_object_def collect_symbol_def symtab_add_def symtab_find_def demo_sec_kind SHN_UNDEF_def
      demo_global_def word_le_nat_alt)

lemma demo_merged_fields [simp]: "mg_text demo_merged = demo_code" "mg_text_offs demo_merged = [0]"
  by (simp_all add: demo_merged_def)

lemma demo_merge: "merge_all [demo_obj] nothing_merged = Some demo_merged"
  by (simp add: merge_object_def merge_section_def nothing_merged_def no_section_def byte_buf_pad_to_def align_to_def
      size_of_def demo_merged_def)

lemma demo_relas: "all_relas 0 [demo_obj] = [(0, demo_obj, demo_rela)]"
  by (simp add: object_relas_def)

lemma demo_place: "rela_place demo_merged 0 demo_rela = 1"
  by (simp add: rela_place_def)

lemma demo_target: "target_address demo_merged (map (place_symbol demo_merged) [demo_global]) 0 demo_obj demo_sym = Inr TEXT_VADDR_BASE"
  by (simp add: target_address_def STT_FUNC_def STT_SECTION_def STB_GLOBAL_def STB_LOCAL_def symtab_find_def place_symbol_def
      demo_global_def text_addr_def)

lemma demo_relocated:
  "\<exists>code. relocate_all demo_merged (map (place_symbol demo_merged) [demo_global]) 0 [demo_obj] demo_code = Inr code"
proof -
  have "\<exists>code. apply_rela demo_merged (map (place_symbol demo_merged) [demo_global]) 0 demo_obj demo_rela demo_code = Inr code"
    using demo_target
    by (simp add: apply_rela_def Let_def patch32_def buf_capacity.simps TEXT_VADDR_BASE_def demo_code_def)
  then show ?thesis by auto
qed

lemma demo_linked: "\<exists>exe. link_parsed [demo_obj] = Inr exe"
proof -
  have d: "gs_defined demo_global" "gs_name demo_global = bytes_of ''main''" by (simp_all add: demo_global_def)
  have "bytes_of ''main'' \<noteq> bytes_of ''_start''" by (simp only: bytes_of_inj) simp
  then have "entry_point (map (place_symbol demo_merged) [demo_global]) = Some (gs_vaddr (place_symbol demo_merged demo_global))"
    using d by (simp add: entry_point_def find_placed symtab_find_def)
  moreover obtain code where
    "relocate_all demo_merged (map (place_symbol demo_merged) [demo_global]) 0 [demo_obj] demo_code = Inr code"
    using demo_relocated by blast
  ultimately show ?thesis
    using demo_collected demo_merge d by (simp add: link_parsed_def)
qed

theorem linked_references_reach_definitions_witness:
  "\<exists>exe disp. link_parsed [demo_obj] = Inr exe \<and> holds exe 4097 (le32 disp) \<and>
     TEXT_VADDR_BASE + 1 + scast disp = TEXT_VADDR_BASE - 4"
proof -
  obtain exe where exe: "link_parsed [demo_obj] = Inr exe" using demo_linked by blast
  have a: "fields_apart demo_merged (all_relas 0 [demo_obj])" unfolding demo_relas by (simp add: fields_apart_def)
  have e: "exports_in ([demo_obj] ! 0) (bytes_of ''main'') SEC_TEXT 0"
    by (simp add: exports_in_def object_symbol_def exported_def SHN_UNDEF_def demo_sec_kind)
  have l: "leads_to [demo_obj] demo_merged 0 demo_rela (text_addr demo_merged 0 0)"
    by (rule leads_to.other [where s = demo_sym, OF _ _ _ _ _ e])
      (simp_all add: object_symbol_def name_bytes_def section_address_def STT_FUNC_def STT_SECTION_def STB_GLOBAL_def STB_LOCAL_def)
  have "\<exists>disp. holds exe (4096 + unat (rela_place demo_merged 0 demo_rela)) (le32 disp) \<and>
      TEXT_VADDR_BASE + rela_place demo_merged 0 demo_rela + scast disp = text_addr demo_merged 0 0 + ra_addend demo_rela"
    by (rule linked_references_reach_definitions [OF exe demo_merge a _ _ _ l])
      (simp_all add: demo_place demo_code_def object_relas_def)
  then show ?thesis using exe by (auto simp: demo_place text_addr_def)
qed

section \<open>Rejected files\<close>

text \<open>An object with two sections, the first of them the string table, the second of any type and extent.\<close>

definition two_sections :: "elf64_shdr \<Rightarrow> u8 list" where
  "two_sections sh = ehdr_bytes \<lparr>eh_type = ET_REL, eh_machine = EM_X86_64, eh_entry = 0, eh_phoff = 0, eh_shoff = 64,
       eh_phentsize = 0, eh_phnum = 0, eh_shentsize = 64, eh_shnum = 2, eh_shstrndx = 0\<rparr> @
     shdr_bytes (null_shdr\<lparr>sh_type := SHT_STRTAB, sh_offset := 128, sh_size := 1\<rparr>) @ shdr_bytes sh"

text \<open>
  C37. A file with a section that extends past its end is refused by the reader, which then has freed
  the buffer together with the half-built object; the caller frees it again. The diagnostic that
  the code means to give is never printed: the outcome is undefined.
\<close>

theorem rejected_object_freed_twice:
  assumes "sh_name sh = 0" and "sh_type sh \<noteq> SHT_NOBITS" and "192 < unat (sh_offset sh) + unat (sh_size sh)"
    and "unat (sh_offset sh) + unat (sh_size sh) < 2 ^ 64"
  shows "\<exists>msg. elf64_read_object_memory (two_sections sh) path = Inl (Rejected msg True) \<and>
     elf64_read_object_file (\<lambda>_. Inr (two_sections sh)) path = Inl Undefined"
proof -
  let ?d = "two_sections sh" and ?st = "null_shdr\<lparr>sh_type := SHT_STRTAB, sh_offset := 128, sh_size := 1\<rparr>"
  let ?h = "\<lparr>eh_type = ET_REL, eh_machine = EM_X86_64, eh_entry = 0, eh_phoff = 0, eh_shoff = 64, eh_phentsize = 0,
       eh_phnum = 0, eh_shentsize = 64, eh_shnum = 2, eh_shstrndx = 0\<rparr>"
  have len: "length ?d = 192" by (simp add: two_sections_def)
  have h0: "take 64 ?d = ehdr_bytes ?h" "?d = ehdr_bytes ?h @ shdr_bytes ?st @ shdr_bytes sh" by (simp_all add: two_sections_def)
  have id: "take 4 ?d = [0x7F, 0x45, 0x4C, 0x46]" "?d ! 4 = 2" "?d ! 5 = 1"
    by (simp_all add: two_sections_def ehdr_bytes_def elf_ident_def)
  have held: "holds ?d 64 (shdr_bytes ?st)" "holds ?d 128 (shdr_bytes sh)" by (simp_all add: two_sections_def holds_def)
  then have rd: "read_shdr ?d 64 = Some ?st" "read_shdr ?d 128 = Some sh" by (intro read_shdr_holds; simp)+
  obtain rest where "shdr_bytes sh = [0] @ rest" using assms(1) by (simp add: shdr_bytes_def le32_zero)
  then have z: "holds ?d 128 [0]" using held(2) holds_append [of ?d 128 "[0]" rest] by argo
  have nul: "c_string ?d 128 = Some []" using z c_string_holds [of ?d 128 "[]"] by simp
  have past: "sh_offset sh + sh_size sh > size_of ?d"
    using assms(3,4) len by (simp add: word_less_nat_alt size_of_def unat_add_small)
  have "scan_section 64 2 128 1 0 (new_object path ?d) = Inr (new_object path ?d)"
    using scan_section_named [of "new_object path ?d" 64 0 ?st 1 128 "[]" 2] rd z len
    by (simp add: new_object_def null_shdr_def size_of_def word_le_nat_alt bytes_of_def no_null_def SHT_STRTAB_def
        SHT_SYMTAB_def SHT_RELA_def)
  moreover have "\<exists>msg. scan_section 64 2 128 1 1 (new_object path ?d) = Inl (Rejected msg True)"
    using rd nul past assms(1,2) by (simp add: scan_section_def new_object_def)
  moreover have "[0..<2] = [0, 1 :: nat]" by (simp add: upt_rec)
  ultimately have "\<exists>msg. read_sections ?d path ?h = Inl (Rejected msg True)"
    using rd len by (auto simp: read_sections_def size_of_def word_less_nat_alt)
  then have r: "\<exists>msg. elf64_read_object_memory ?d path = Inl (Rejected msg True)"
    using len id h0(1) by (simp add: elf64_read_object_memory_def Let_def size_of_def word_less_nat_alt)
  then show ?thesis using len by (auto simp: elf64_read_object_file_def)
qed

theorem rejected_object_freed_twice_witness:
  "\<exists>msg. elf64_read_object_memory (two_sections (null_shdr\<lparr>sh_type := SHT_PROGBITS, sh_offset := 192, sh_size := 1\<rparr>)) ''a.o'' =
      Inl (Rejected msg True) \<and>
    elf64_read_object_file (\<lambda>_. Inr (two_sections (null_shdr\<lparr>sh_type := SHT_PROGBITS, sh_offset := 192, sh_size := 1\<rparr>))) ''a.o'' =
      Inl Undefined"
  by (rule rejected_object_freed_twice) (simp_all add: null_shdr_def SHT_PROGBITS_def SHT_NOBITS_def)

end
