(* ===== verification/X86_Codegen_Invariant.thy ===== *)
theory X86_Codegen_Invariant
  imports X86_Module X86_Link_Correct X86_Layout Regalloc_Correct Ir_Verify
begin

text \<open>
  The invariant of the code generator. It follows the generation of a function: the pools number
  their constants in order, labels only get more, and the symbols of the instructions are those of
  labels, of constants in the pools, or of callees and globals. The peephole optimiser keeps it.
  Functions that the verifier accepts and whose instructions are supported are generated.
\<close>

named_theorems gen_keeps \<open>operations of the generator that keep the invariant of its state\<close>

section \<open>The invariant\<close>

definition const_names :: "codegen \<Rightarrow> string set" where
  "const_names cg = fst ` set fixed_constants \<union> (str_symbol \<circ> fst) ` set (cg_strings cg) \<union>
     (float_symbol \<circ> fst) ` set (cg_floats cg)"

definition pools_ok :: "codegen \<Rightarrow> bool" where
  "pools_ok cg \<longleftrightarrow> map fst (cg_strings cg) = rev [0..<length (cg_strings cg)] \<and>
     map fst (cg_floats cg) = rev [0..<length (cg_floats cg)]"

definition is_branch :: "x86_instr \<Rightarrow> bool" where
  "is_branch i \<longleftrightarrow> i_op i = X86_OP_JMP \<or> i_op i = X86_OP_JE \<or> i_op i = X86_OP_JNE"

definition labels :: "x86_instr_list \<Rightarrow> string set" where
  "labels xs = {s. \<exists>i \<in> set xs. i_op i = X86_OP_LABEL \<and> o_symbol (i_dst i) = Some s}"

definition symbol_in :: "string set \<Rightarrow> x86_instr \<Rightarrow> bool" where
  "symbol_in S i \<longleftrightarrow> (case o_symbol (i_src i) of Some s \<Rightarrow> s \<in> S | None \<Rightarrow> False)"

text \<open>Branches go to labels in \<open>L\<close>, constants are in \<open>P\<close>, and whatever is relocated has a symbol.\<close>

definition ref_ok :: "string set \<Rightarrow> string set \<Rightarrow> x86_instr \<Rightarrow> bool" where
  "ref_ok L P i \<longleftrightarrow> (is_branch i \<longrightarrow> symbol_in L i) \<and>
     (i_op i = X86_OP_CALL \<or> o_kind (i_src i) = X86_OPERAND_MEM_RIP \<longrightarrow> o_symbol (i_src i) \<noteq> None) \<and>
     ((i_op i = X86_OP_LEA \<or> i_op i = X86_OP_MOVSD) \<and> o_kind (i_src i) = X86_OPERAND_MEM_RIP \<longrightarrow> symbol_in P i)"

lemma ref_ok_mono: "ref_ok L P i \<Longrightarrow> L \<subseteq> L' \<Longrightarrow> P \<subseteq> P' \<Longrightarrow> ref_ok L' P' i"
  by (auto simp: ref_ok_def symbol_in_def split: option.splits)

definition good :: "string set \<Rightarrow> string set \<Rightarrow> string set \<Rightarrow> codegen \<Rightarrow> bool" where
  "good L P M cg \<longleftrightarrow> pools_ok cg \<and> P \<subseteq> const_names cg \<and> M \<subseteq> labels (cg_list cg) \<and>
     (\<forall>i \<in> set (cg_list cg). ref_ok L (const_names cg) i)"

lemma names_of_emit [simp]: "const_names (emit g cg) = const_names cg" "pools_ok (emit g cg) = pools_ok cg"
    "cg_list (emit g cg) = g (cg_list cg)" "cg_strings (emit g cg) = cg_strings cg" "cg_floats (emit g cg) = cg_floats cg"
  by (simp_all add: emit_def const_names_def pools_ok_def)

lemma labels_append [simp]: "labels (xs @ ys) = labels xs \<union> labels ys"
  by (auto simp: labels_def)

lemma good_append:
  "good L P M cg \<Longrightarrow> ref_ok L (const_names cg) i \<Longrightarrow> good L P M (emit (\<lambda>l. x86_instr_list_append l i) cg)"
  by (auto simp: good_def x86_instr_list_append_def)

text \<open>The instructions of the emitters: those without symbols are always fine.\<close>

lemmas plain_emitters = x86_emit_push_def x86_emit_pop_def x86_emit_ret_def x86_emit_sub_imm_rsp_def
  x86_emit_add_imm_rsp_def x86_emit_lea_mem_def x86_emit_mov_reg_reg_def x86_emit_mov_imm_reg_def
  x86_emit_mov_mem_reg_def x86_emit_mov_reg_mem_def x86_emit_movb_imm_def x86_emit_movslq_def
  x86_emit_movzbl_def x86_emit_cmove_def x86_emit_add_def x86_emit_sub_def x86_emit_imul_def x86_emit_idiv_def
  x86_emit_cltd_def x86_emit_neg_def x86_emit_and_def x86_emit_or_def x86_emit_xor_def x86_emit_cmp_def
  x86_emit_cmp_imm_def x86_emit_setcc_def x86_emit_andb_def x86_emit_orb_def x86_emit_movsd_reg_reg_def
  x86_emit_movsd_mem_reg_def x86_emit_movsd_reg_mem_def x86_emit_addsd_def x86_emit_subsd_def
  x86_emit_mulsd_def x86_emit_divsd_def x86_emit_xorpd_def x86_emit_ucomisd_def

lemma good_plain [gen_keeps]:
  assumes "good L P M cg"
  shows "good L P M (emit (\<lambda>l. x86_emit_push l r) cg)" "good L P M (emit (\<lambda>l. x86_emit_pop l r) cg)"
    "good L P M (emit x86_emit_ret cg)" "good L P M (emit x86_emit_cltd cg)"
    "good L P M (emit (\<lambda>l. x86_emit_sub_imm_rsp l v) cg)" "good L P M (emit (\<lambda>l. x86_emit_add_imm_rsp l v) cg)"
    "good L P M (emit (\<lambda>l. x86_emit_lea_mem l b v r) cg)" "good L P M (emit (\<lambda>l. x86_emit_mov_reg_reg l n r b) cg)"
    "good L P M (emit (\<lambda>l. x86_emit_mov_imm_reg l n w r) cg)" "good L P M (emit (\<lambda>l. x86_emit_mov_mem_reg l n b v r) cg)"
    "good L P M (emit (\<lambda>l. x86_emit_mov_reg_mem l n r b v) cg)" "good L P M (emit (\<lambda>l. x86_emit_movb_imm l u r) cg)"
    "good L P M (emit (\<lambda>l. x86_emit_movslq l r b) cg)" "good L P M (emit (\<lambda>l. x86_emit_movzbl l r b) cg)"
    "good L P M (emit (\<lambda>l. x86_emit_cmove l r b) cg)" "good L P M (emit (\<lambda>l. x86_emit_add l r b) cg)"
    "good L P M (emit (\<lambda>l. x86_emit_sub l r b) cg)" "good L P M (emit (\<lambda>l. x86_emit_imul l r b) cg)"
    "good L P M (emit (\<lambda>l. x86_emit_idiv l r) cg)" "good L P M (emit (\<lambda>l. x86_emit_neg l r) cg)"
    "good L P M (emit (\<lambda>l. x86_emit_and l r b) cg)" "good L P M (emit (\<lambda>l. x86_emit_or l r b) cg)"
    "good L P M (emit (\<lambda>l. x86_emit_xor l r b) cg)" "good L P M (emit (\<lambda>l. x86_emit_cmp l r b) cg)"
    "good L P M (emit (\<lambda>l. x86_emit_cmp_imm l v r) cg)" "good L P M (emit (\<lambda>l. x86_emit_setcc l c r) cg)"
    "good L P M (emit (\<lambda>l. x86_emit_andb l r b) cg)" "good L P M (emit (\<lambda>l. x86_emit_orb l r b) cg)"
    "good L P M (emit (\<lambda>l. x86_emit_movsd_reg_reg l r b) cg)" "good L P M (emit (\<lambda>l. x86_emit_movsd_mem_reg l b v r) cg)"
    "good L P M (emit (\<lambda>l. x86_emit_movsd_reg_mem l r b v) cg)" "good L P M (emit (\<lambda>l. x86_emit_addsd l r b) cg)"
    "good L P M (emit (\<lambda>l. x86_emit_subsd l r b) cg)" "good L P M (emit (\<lambda>l. x86_emit_mulsd l r b) cg)"
    "good L P M (emit (\<lambda>l. x86_emit_divsd l r b) cg)" "good L P M (emit (\<lambda>l. x86_emit_xorpd l r b) cg)"
    "good L P M (emit (\<lambda>l. x86_emit_ucomisd l r b) cg)"
  unfolding plain_emitters [abs_def]
  by (rule good_append [OF assms]; simp add: ref_ok_def is_branch_def x86_instr_create_def reg_operand_def
      imm_operand_def mem_operand_def none_operand_def)+

text \<open>Labels, branches, calls and operands relative to the program counter.\<close>

lemma good_label:
  assumes "good L P M cg"
  shows "good L P (insert s M) (emit (\<lambda>l. x86_emit_label l s) cg)"
  using assms
  by (auto simp: good_def x86_emit_label_def x86_instr_list_append_def labels_def ref_ok_def is_branch_def
      x86_instr_create_def label_operand_def none_operand_def)

lemma good_branch:
  assumes "good L P M cg" and "s \<in> L"
  shows "good L P M (emit (\<lambda>l. x86_emit_jmp l s) cg)" "good L P M (emit (\<lambda>l. x86_emit_jne l s) cg)"
    "good L P M (emit (\<lambda>l. x86_emit_je l s) cg)"
  unfolding x86_emit_jmp_def x86_emit_jne_def x86_emit_je_def
  by (rule good_append [OF assms(1)]; simp add: ref_ok_def is_branch_def x86_instr_create_def label_operand_def
      none_operand_def symbol_in_def assms(2))+

lemma good_symbol [gen_keeps]:
  assumes "good L P M cg"
  shows "good L P M (emit (\<lambda>l. x86_emit_call l s) cg)" "good L P M (emit (\<lambda>l. x86_emit_mov_rip_reg l s r) cg)"
  unfolding x86_emit_call_def x86_emit_mov_rip_reg_def
  by (rule good_append [OF assms]; simp add: ref_ok_def is_branch_def x86_instr_create_def label_operand_def
      rip_operand_def reg_operand_def none_operand_def)+

lemma good_constant:
  assumes "good L P M cg" and "s \<in> const_names cg"
  shows "good L P M (emit (\<lambda>l. x86_emit_lea_rip l s r) cg)" "good L P M (emit (\<lambda>l. x86_emit_movsd_rip_reg l s r) cg)"
  unfolding x86_emit_lea_rip_def x86_emit_movsd_rip_reg_def
  by (rule good_append [OF assms(1)]; simp add: ref_ok_def is_branch_def x86_instr_create_def label_operand_def
      rip_operand_def reg_operand_def none_operand_def symbol_in_def assms(2))+

lemma fixed_names [simp]:
  "''.LC_neg_float_mask'' \<in> const_names cg" "''.LC_fmt_int'' \<in> const_names cg" "''.LC_fmt_float'' \<in> const_names cg"
  "''.LC_fmt_str'' \<in> const_names cg" "''.LC_str_true'' \<in> const_names cg" "''.LC_str_false'' \<in> const_names cg"
  by (simp_all add: const_names_def fixed_constants_def)

section \<open>Pools\<close>

lemma new_string:
  assumes "good L P M cg" and "get_or_add_string t cg = (n, cg')"
  shows "good L P M cg' \<and> str_symbol n \<in> const_names cg'"
proof (cases "List.find (\<lambda>s. snd s = t) (cg_strings cg)")
  case (Some s)
  then have "s \<in> set (cg_strings cg)" using find_SomeD [OF Some] by simp
  then show ?thesis using assms Some by (auto simp: get_or_add_string_def const_names_def)
next
  case None
  let ?cg = "cg\<lparr>cg_strings := (length (cg_strings cg), t) # cg_strings cg\<rparr>"
  have new: "cg' = ?cg" "n = length (cg_strings cg)" using assms(2) None by (auto simp: get_or_add_string_def Let_def)
  have more: "const_names cg \<subseteq> const_names ?cg" by (auto simp: const_names_def)
  have "good L P M ?cg"
    using assms(1) more ref_ok_mono [OF _ subset_refl more] by (auto simp: good_def pools_ok_def)
  moreover have "str_symbol n \<in> const_names ?cg" by (simp add: const_names_def new(2))
  ultimately show ?thesis using new(1) by simp
qed

lemma new_float:
  assumes "good L P M cg" and "get_or_add_float t cg = (n, cg')"
  shows "good L P M cg' \<and> float_symbol n \<in> const_names cg'"
proof (cases "List.find (\<lambda>s. snd s = t) (cg_floats cg)")
  case (Some s)
  then have "s \<in> set (cg_floats cg)" using find_SomeD [OF Some] by simp
  then show ?thesis using assms Some by (auto simp: get_or_add_float_def const_names_def)
next
  case None
  let ?cg = "cg\<lparr>cg_floats := (length (cg_floats cg), t) # cg_floats cg\<rparr>"
  have new: "cg' = ?cg" "n = length (cg_floats cg)" using assms(2) None by (auto simp: get_or_add_float_def Let_def)
  have more: "const_names cg \<subseteq> const_names ?cg" by (auto simp: const_names_def)
  have "good L P M ?cg"
    using assms(1) more ref_ok_mono [OF _ subset_refl more] by (auto simp: good_def pools_ok_def)
  moreover have "float_symbol n \<in> const_names ?cg" by (simp add: const_names_def new(2))
  ultimately show ?thesis using new(1) by simp
qed

lemma good_string [gen_keeps]:
  assumes "good L P M cg"
  shows "good L P M (case get_or_add_string t cg of (n, cg) \<Rightarrow> emit (\<lambda>l. x86_emit_lea_rip l (str_symbol n) r) cg)"
  using new_string [OF assms] good_constant(1) by (auto split: prod.split)

lemma good_float [gen_keeps]:
  assumes "good L P M cg"
  shows "good L P M (case get_or_add_float t cg of (n, cg) \<Rightarrow> emit (\<lambda>l. x86_emit_movsd_rip_reg l (float_symbol n) r) cg)"
  using new_float [OF assms] good_constant(2) by (auto split: prod.split)

lemma good_fixed [gen_keeps]:
  assumes "good L P M cg"
  shows "good L P M (lea ''.LC_fmt_int'' r cg)" "good L P M (lea ''.LC_fmt_float'' r cg)" "good L P M (lea ''.LC_fmt_str'' r cg)"
    "good L P M (lea ''.LC_str_true'' r cg)" "good L P M (lea ''.LC_str_false'' r cg)"
    "good L P M (emit (\<lambda>l. x86_emit_movsd_rip_reg l ''.LC_neg_float_mask'' r) cg)"
  unfolding lea_def by (rule good_constant [OF assms]; simp)+

lemma good_fold:
  assumes "good L P M cg" and "\<And>x cg. x \<in> set xs \<Longrightarrow> good L P M cg \<Longrightarrow> good L P M (g x cg)"
  shows "good L P M (fold g xs cg)"
  using assms by (induction xs arbitrary: cg) auto

section \<open>Values and instructions\<close>

lemma good_load_float [gen_keeps]: "good L P M cg \<Longrightarrow> good L P M (load_float fr v r cg)"
  by (auto simp: load_float_def load_float_slot_def Let_def intro!: gen_keeps split: ir_value_kind.split option.split)

lemma good_load_int [gen_keeps]: "good L P M cg \<Longrightarrow> good L P M (load_int fr v r cg)"
  by (auto simp: load_int_def load_int_slot_def Let_def intro!: gen_keeps
      split: ir_value_kind.split option.split simp del: split_paired_All)

lemma good_load_val [gen_keeps]: "good L P M cg \<Longrightarrow> good L P M (emit_load_val fr v r cg)"
  by (auto simp: emit_load_val_def intro!: gen_keeps split: option.split)

lemma good_store [gen_keeps]:
  "good L P M cg \<Longrightarrow> good L P M (store_float r off cg)" "good L P M cg \<Longrightarrow> good L P M (store_int n r off cg)"
  by (auto simp: store_float_def store_int_def intro!: gen_keeps)

lemma good_to_slot:
  assumes "good L P M cg" and "\<And>off cg. good L P M cg \<Longrightarrow> good L P M (st off cg)"
  shows "good L P M (store_to_slot st off cg)"
  using assms by (auto simp: store_to_slot_def split: option.split)

lemma good_store_to_slot [gen_keeps]:
  "good L P M cg \<Longrightarrow> good L P M (store_to_slot (store_float r) off cg)"
  "good L P M cg \<Longrightarrow> good L P M (store_to_slot (store_int n r) off cg)"
  by (auto intro: good_to_slot gen_keeps)

lemma good_store_result [gen_keeps]: "good L P M cg \<Longrightarrow> good L P M (emit_store_result fr v r cg)"
  by (auto simp: emit_store_result_def Let_def intro!: gen_keeps split: ir_value_kind.split option.split)

lemma good_reload [gen_keeps]: "good L P M cg \<Longrightarrow> good L P M (reload_caller_saved_after_call fr n cg)"
  by (auto simp: reload_caller_saved_after_call_def reload_after_call_def intro!: good_fold gen_keeps split: option.split)

lemma good_finish [gen_keeps]:
  "good L P M cg \<Longrightarrow> good L P M (finish fr v d (store_float r) t cg)"
  "good L P M cg \<Longrightarrow> good L P M (finish fr v d (store_int n r) t cg)"
  by (auto simp: finish_def intro!: gen_keeps split: option.split)

lemma good_load_rhs: "good L P M cg \<Longrightarrow> load_rhs fr v t s cg = (r, cg') \<Longrightarrow> good L P M cg'"
  by (auto simp: load_rhs_def Let_def intro!: gen_keeps split: if_splits)

lemma good_ops [gen_keeps]:
  "good L P M cg \<Longrightarrow> good L P M (sse_op opc r t cg)" "good L P M cg \<Longrightarrow> good L P M (int_op opc r t cg)"
  "good L P M cg \<Longrightarrow> good L P M (setcc c r cg)" "good L P M cg \<Longrightarrow> good L P M (to_bool t cg)"
  "good L P M cg \<Longrightarrow> good L P M (and_rdx cg)" "good L P M cg \<Longrightarrow> good L P M (compare_zero cg)"
  "good L P M cg \<Longrightarrow> good L P M (call_printf cg)" "good L P M cg \<Longrightarrow> good L P M (clear_rax cg)"
  by (auto simp: sse_op_def int_op_def setcc_def to_bool_def and_rdx_def compare_zero_def call_printf_def clear_rax_def
      intro!: gen_keeps)

lemma good_float_outcome [gen_keeps]: "good L P M cg \<Longrightarrow> good L P M (float_outcome opc t cg)"
  by (auto simp: float_outcome_def intro!: gen_keeps)

lemma good_arith [gen_keeps]:
  "good L P M cg \<Longrightarrow> good L P M (gen_float_arith fr i cg)" "good L P M cg \<Longrightarrow> good L P M (gen_int_arith fr i cg)"
  "good L P M cg \<Longrightarrow> good L P M (gen_division fr i r cg)"
  by (auto simp: gen_float_arith_def gen_int_arith_def gen_division_def Let_def intro!: gen_keeps
      dest: good_load_rhs split: prod.split)

lemma good_stores [gen_keeps]:
  "good L P M cg \<Longrightarrow> good L P M (gen_store_float fr v p cg)" "good L P M cg \<Longrightarrow> good L P M (gen_store_int fr v p cg)"
  by (auto simp: gen_store_float_def gen_store_int_def Let_def intro!: gen_keeps split: option.split)

lemma good_memory:
  assumes "good L P M cg"
  shows "gen_alloca fr i cg = Inr cg' \<Longrightarrow> good L P M cg'" "gen_load fr i cg = Inr cg' \<Longrightarrow> good L P M cg'"
    "gen_store fr i cg = Inr cg' \<Longrightarrow> good L P M cg'" "gen_const fr i cg = Inr cg' \<Longrightarrow> good L P M cg'"
  using assms
  by (auto simp: gen_alloca_def gen_load_def gen_store_def gen_const_def Let_def intro!: gen_keeps
      split: option.splits ir_value_kind.splits if_splits)

lemma good_values:
  assumes "good L P M cg"
  shows "gen_arith fr i cg = Inr cg' \<Longrightarrow> good L P M cg'" "gen_neg fr i cg = Inr cg' \<Longrightarrow> good L P M cg'"
    "gen_compare fr i cg = Inr cg' \<Longrightarrow> good L P M cg'" "gen_not fr i cg = Inr cg' \<Longrightarrow> good L P M cg'"
  using assms
  by (auto simp: gen_arith_def gen_neg_def gen_compare_def gen_not_def Let_def intro!: gen_keeps split: if_splits)

lemma good_stage:
  assumes "good L P M (fst s)"
  shows "good L P M (fst (stage_arg fr a s))"
  using assms by (cases s) (auto simp: stage_arg_def Let_def intro!: gen_keeps)

lemma good_stage_all:
  assumes "good L P M (fst s)"
  shows "good L P M (fst (fold (stage_arg fr) as s))"
  using assms by (induction "as" arbitrary: s) (simp_all add: good_stage)

lemma good_args [gen_keeps]:
  assumes "good L P M cg"
  shows "good L P M (gen_args fr as cg)"
proof (cases "as = []")
  case True
  then show ?thesis using assms by (auto simp: gen_args_def intro!: gen_keeps)
next
  case False
  let ?out = "outgoing_bytes (as_stack (count_args as))"
  let ?s = "fold (stage_arg fr) as (emit (\<lambda>l. x86_emit_sub_imm_rsp l (of_int (128 + ?out))) cg, no_args)"
  have "good L P M (fst ?s)" using assms by (intro good_stage_all) (auto intro: gen_keeps)
  then have "good L P M (load_arg_regs (snd ?s) (fst ?s))"
    by (auto simp: load_arg_regs_def Let_def intro!: good_fold gen_keeps)
  then show ?thesis using False
    by (simp add: gen_args_def Let_def case_prod_beta) (auto intro!: gen_keeps)
qed

lemma good_calls:
  assumes "good L P M cg"
  shows "gen_call fr i n cg = Inr cg' \<Longrightarrow> good L P M cg'" "gen_print fr i n cg = Inr cg' \<Longrightarrow> good L P M cg'"
    "gen_dealloc fr i n cg = Inr cg' \<Longrightarrow> good L P M cg'"
  using assms
  by (auto simp: gen_call_def gen_print_def gen_dealloc_def print_value_def Let_def intro!: gen_keeps split: option.splits)

text \<open>The labels that an instruction branches to.\<close>

definition target_symbols :: "ir_function \<Rightarrow> ir_inst \<Rightarrow> string set" where
  "target_symbols f i =
     (if ir_inst.i_op i = IR_OP_BR then {block_symbol (fn_name f) (target_name f (i_true i) ''block'')}
      else if ir_inst.i_op i = IR_OP_CONDBR
      then {block_symbol (fn_name f) (target_name f (i_true i) ''true_bb''), block_symbol (fn_name f) (target_name f (i_false i) ''false_bb'')}
      else if ir_inst.i_op i = IR_OP_RET then {epilogue_symbol (fn_name f)} else {})"

lemma good_control:
  assumes "good L P M cg" and "target_symbols (fr_fn fr) i \<subseteq> L"
  shows "ir_inst.i_op i = IR_OP_BR \<Longrightarrow> gen_br fr i cg = Inr cg' \<Longrightarrow> good L P M cg'"
    "ir_inst.i_op i = IR_OP_CONDBR \<Longrightarrow> gen_condbr fr i cg = Inr cg' \<Longrightarrow> good L P M cg'"
    "ir_inst.i_op i = IR_OP_RET \<Longrightarrow> gen_ret fr i cg = Inr cg' \<Longrightarrow> good L P M cg'"
  using assms
  by (auto simp: gen_br_def gen_condbr_def gen_ret_def target_symbols_def Let_def intro!: good_branch gen_keeps
      split: option.split)

lemma good_instruction:
  assumes "good L P M cg" and "target_symbols (fr_fn fr) i \<subseteq> L" and "gen_instruction fr i n cg = Inr cg'"
  shows "good L P M cg'"
  using assms(3) good_memory [OF assms(1), of fr i cg'] good_values [OF assms(1), of fr i cg']
    good_calls [OF assms(1), of fr i n cg'] good_control [OF assms(1,2), of cg'] good_arith(2,3) [OF assms(1)]
  by (cases "ir_inst.i_op i") (simp_all add: gen_instruction_def, auto)

section \<open>The peephole optimiser\<close>

text \<open>It removes no label, and what it writes keeps the symbols of its sources.\<close>

definition kept :: "(x86_instr \<Rightarrow> bool) \<Rightarrow> x86_instr list \<Rightarrow> x86_instr list \<Rightarrow> bool" where
  "kept ok xs ys \<longleftrightarrow> labels xs \<subseteq> labels ys \<and> (list_all ok xs \<longrightarrow> list_all ok ys)"

lemma labels_Cons: "labels (i # xs) = labels [i] \<union> labels xs"
  by (auto simp: labels_def)

lemma no_label: "i_op i \<noteq> X86_OP_LABEL \<Longrightarrow> labels [i] = {}"
  by (simp add: labels_def)

lemma ref_ok_to_xor: "ref_ok L P (to_xor i)"
  by (simp add: ref_ok_def to_xor_def is_branch_def)

lemma ref_ok_inverted: "ref_ok L P i \<Longrightarrow> branch_over_jump i n l \<Longrightarrow> ref_ok L P (inverted i n)"
  by (auto simp: ref_ok_def inverted_def is_branch_def branch_over_jump_def symbol_in_def)

lemma kept_zero: "rewrite_zero c = (c', z) \<Longrightarrow> labels [c'] = labels [c] \<and> (ref_ok L P c \<longrightarrow> ref_ok L P c')"
  by (auto simp: rewrite_zero_def labels_def zero_move_def to_xor_def ref_ok_to_xor [unfolded to_xor_def] split: if_splits)

lemma kept_reload: "drop_reload c rest = (rest', z) \<Longrightarrow> kept ok rest rest'"
  by (cases rest) (auto simp: drop_reload_def kept_def reload_of_store_def is_move_def labels_def split: if_splits)

lemma kept_Cons:
  "kept ok xs ys \<Longrightarrow> labels [i] = labels [j] \<Longrightarrow> (ok i \<longrightarrow> ok j) \<Longrightarrow> kept ok (i # xs) (j # ys)"
  by (auto simp: kept_def labels_Cons [of _ xs] labels_Cons [of _ ys])

lemma kept_trans: "kept ok xs ys \<Longrightarrow> kept ok ys zs \<Longrightarrow> kept ok xs zs"
  by (auto simp: kept_def)

lemma kept_drop: "kept ok xs ys \<Longrightarrow> i_op i \<noteq> X86_OP_LABEL \<Longrightarrow> kept ok (i # xs) ys"
  by (auto simp: kept_def labels_Cons [of _ xs] no_label)

lemma kept_refl [simp]: "kept ok xs xs"
  by (simp add: kept_def)

lemma kept_peep: "kept (ref_ok L P) xs (fst (peep xs))"
proof (induction xs rule: peep.induct)
  case 1
  show ?case by simp
next
  case (2 c rest)
  show ?case
  proof (cases "redundant_move c")
    case True
    then have "i_op c \<noteq> X86_OP_LABEL" by (auto simp: redundant_move_def is_move_def)
    then show ?thesis using True 2(1) kept_drop by simp
  next
    case False
    obtain c' z where c: "rewrite_zero c = (c', z)" by fastforce
    obtain rest' d where r: "drop_reload c' rest = (rest', d)" by fastforce
    note zero = kept_zero [OF c]
    note IH = 2(2-6) [OF False c [symmetric] refl r [symmetric] refl refl]
    have step: "kept (ref_ok L P) rest' ys \<Longrightarrow> kept (ref_ok L P) (c # rest) (c' # ys)" for ys
      using kept_Cons [OF kept_trans [OF kept_reload [OF r]]] zero by blast
    show ?thesis
    proof (cases rest')
      case Nil
      then show ?thesis using False c r step [of "[]"] by simp
    next
      case (Cons n rest'')
      show ?thesis
      proof (cases "jump_to_next c' n")
        case True
        then have "i_op c' \<noteq> X86_OP_LABEL" by (simp add: jump_to_next_def)
        then have nl: "labels [c] = {}" using zero no_label by blast
        have "kept (ref_ok L P) rest (fst (peep rest'))"
          using kept_trans [OF kept_reload [OF r]] IH(1) [OF Cons True] by blast
        then have "kept (ref_ok L P) (c # rest) (fst (peep rest'))"
          using nl by (auto simp: kept_def labels_Cons [of c rest])
        then show ?thesis using False c r Cons True by simp
      next
        case no: False
        show ?thesis
        proof (cases rest'')
          case Nil
          then show ?thesis using IH(2) [OF Cons no Nil] False c r Cons no step by (simp add: peep.simps(2) [of c rest] del: peep.simps)
        next
          case R: (Cons l rest3)
          show ?thesis
          proof (cases "branch_over_jump c' n l")
            case True
            have inv: "labels [inverted c' n] = labels [c']"
              using True by (auto simp: labels_def inverted_def branch_over_jump_def)
            have "i_op n \<noteq> X86_OP_LABEL" using True by (simp add: branch_over_jump_def)
            then have "kept (ref_ok L P) rest' (fst (peep rest''))"
              using kept_drop [OF IH(4) [OF Cons no R True]] Cons by simp
            then have "kept (ref_ok L P) (c' # rest') (inverted c' n # fst (peep rest''))"
              using inv ref_ok_inverted [OF _ True] by (intro kept_Cons) auto
            then have "kept (ref_ok L P) (c # rest) (inverted c' n # fst (peep rest''))"
              using kept_trans [OF step [of rest']] by simp
            then show ?thesis using c r Cons no R True by (simp add: peep.simps(2) [of c rest] False del: peep.simps)
          next
            case nb: False
            then show ?thesis using IH(5) [OF Cons no R nb] False c r Cons no R step by (simp add: peep.simps(2) [of c rest] del: peep.simps)
          qed
        qed
      qed
    qed
  qed
qed

lemma retarget_keeps: "labels [fst (retarget as i)] = labels [i] \<and> (ref_ok L P i \<longrightarrow> ref_ok L P (fst (retarget as i)))"
  by (auto simp: retarget_def labels_def ref_ok_def is_branch_def symbol_in_def split: option.split)

lemma kept_collapse: "kept (ref_ok L P) xs (fst (collapse_chains xs))"
proof -
  have "kept (ref_ok L P) ys (map (fst \<circ> retarget as) ys)" for as ys
    using retarget_keeps by (induction ys) (auto intro!: kept_Cons)
  then show ?thesis by (simp add: collapse_chains_def Let_def)
qed

lemma kept_rounds: "kept (ref_ok L P) xs (optimize_rounds k xs)"
proof (induction k arbitrary: xs)
  case (Suc k)
  have "kept (ref_ok L P) xs (fst (collapse_chains (fst (peep xs))))"
    using kept_trans [OF kept_peep kept_collapse] .
  then show ?case using Suc kept_trans by (auto simp: Let_def case_prod_beta)
qed simp

lemma good_optimized: "good L P M cg \<Longrightarrow> good L P M (emit x86_instr_list_optimize cg)"
  using kept_rounds [of L "const_names cg" "cg_list cg" 4]
  by (auto simp: good_def x86_instr_list_optimize_def kept_def list_all_iff)

section \<open>Functions\<close>

lemma good_insts:
  assumes "good L P M cg" and "\<forall>i \<in> set is. target_symbols (fr_fn fr) i \<subseteq> L" and "gen_insts fr n is cg = Inr cg'"
  shows "good L P M cg'"
  using assms by (induction fr n "is" cg rule: gen_insts.induct) (auto dest: good_instruction split: sum.splits)

lemma good_blocks:
  assumes "good L P M cg" and "\<forall>bb \<in> set bbs. \<forall>i \<in> set (bb_insts bb). target_symbols (fr_fn fr) i \<subseteq> L"
    and "gen_blocks fr n bbs cg = Inr cg'"
  shows "good L P (M \<union> (\<lambda>bb. block_symbol (fn_name (fr_fn fr)) (bb_name bb)) ` set bbs) cg'"
  using assms
proof (induction bbs arbitrary: n cg M)
  case (Cons bb bbs)
  let ?s = "block_symbol (fn_name (fr_fn fr)) (bb_name bb)"
  obtain cg1 where g: "gen_insts fr n (bb_insts bb) (emit (\<lambda>l. x86_emit_label l ?s) cg) = Inr cg1"
      "gen_blocks fr (n + length (bb_insts bb)) bbs cg1 = Inr cg'"
    using Cons.prems(3) by (auto simp: Let_def split: sum.splits)
  have "good L P (insert ?s M) cg1"
    using good_insts [OF good_label [OF Cons.prems(1)] _ g(1)] Cons.prems(2) by simp
  then have "good L P (insert ?s M \<union> (\<lambda>bb. block_symbol (fn_name (fr_fn fr)) (bb_name bb)) ` set bbs) cg'"
    using Cons.prems(2) by (intro Cons.IH [OF _ _ g(2)]) auto
  then show ?case by simp
qed simp

lemma good_prologue:
  assumes "good L P M cg"
  shows "good L P M (gen_prologue fr cg)"
proof -
  have l: "good L P M (emit (\<lambda>l. x86_emit_label l s) cg)" for s
    using good_label [OF assms, of s] by (auto simp: good_def)
  show ?thesis using l by (auto simp: gen_prologue_def Let_def intro!: gen_keeps good_fold)
qed

lemma good_params:
  assumes "good L P M cg"
  shows "good L P M (gen_params fr cg)"
proof -
  have one: "good L P M (fst s) \<Longrightarrow> good L P M (fst (home_arg fr p s))" for s p
    by (cases s) (auto simp: home_arg_def intro!: gen_keeps split: option.split)
  have "good L P M (fst s) \<Longrightarrow> good L P M (fst (fold (home_arg fr) ps s))" for s ps
    by (induction ps arbitrary: s) (simp_all add: one)
  then show ?thesis using assms by (simp add: gen_params_def)
qed

lemma good_epilogue:
  assumes "good L P M cg"
  shows "good L P (insert (epilogue_symbol (fn_name (fr_fn fr))) M) (gen_epilogue fr cg)"
  using good_label [OF assms] by (auto simp: gen_epilogue_def Let_def intro!: gen_keeps good_fold)

lemma fold_constant: "(\<And>x s. g (h x s) = g s) \<Longrightarrow> g (fold h xs s) = g s"
  by (induction xs arbitrary: s) simp_all

lemma fr_fn_frame [simp]: "fr_fn (x86_frame_build f ra) = f"
proof -
  have add: "fr_fn (fst (add_slot k n nm ty s)) = fr_fn (fst s)" for k n nm ty s
    by (simp add: add_slot_def Let_def case_prod_beta)
  have Q: "fr_fn (fst (ps_frame (layout_param p s))) = fr_fn (fst (ps_frame s))" for p s
    by (cases p) (simp add: layout_param_def home_param_def stack_param_def add_fixed_slot_def Let_def add case_prod_beta)
  have P: "fr_fn (fst (ps_frame (layout_params f s))) = fr_fn (fst s)" for s
    using fold_constant [of "\<lambda>s. fr_fn (fst (ps_frame s))" layout_param, OF Q] by (simp add: layout_params_def)
  have A: "fr_fn (fst (layout_alloca i s)) = fr_fn (fst s)" for i s
    by (auto simp: layout_alloca_def add split: option.split)
  have R: "fr_fn (fst (layout_result i s)) = fr_fn (fst s)" for i s
    by (auto simp: layout_result_def add split: option.split)
  have "fr_fn (fst (fst (layout_spill v s))) = fr_fn (fst (fst s))" for v s
    by (cases s) (simp add: layout_spill_def Let_def add)
  then have S: "fr_fn (fst (fst (fold layout_spill vs s))) = fr_fn (fst (fst s))" for vs s
    by (rule fold_constant [of "\<lambda>s. fr_fn (fst (fst s))"])
  have "fr_fn (fst (layout_spills f ra s)) = fr_fn (fst s)" for s
    using S [of _ "(s, ivs)" for ivs] fold_constant [of "\<lambda>s. fr_fn (fst s)" layout_result, OF R]
    by (auto simp: layout_spills_def case_prod_beta split: option.split)
  then show ?thesis
    using fold_constant [of "\<lambda>s. fr_fn (fst s)" layout_alloca, OF A]
    by (simp add: x86_frame_build_def Let_def case_prod_beta P empty_frame_def)
qed


text \<open>The block order for a profile is a permutation that starts with the same block.\<close>

lemma layout_next_in: "layout_next counts f unplaced b = Some c \<Longrightarrow> c \<in> set unplaced"
  by (auto simp: layout_next_def Let_def split: option.splits list.splits if_splits prod.splits)

lemma layout_next_some:
  assumes "unplaced \<noteq> []"
  shows "\<exists>c. layout_next counts f unplaced b = Some c"
proof -
  obtain u us where "unplaced = u # us" using assms by (cases unplaced) auto
  then show ?thesis by (auto simp: layout_next_def Let_def split: option.splits prod.splits)
qed

lemma layout_from_permutes: "mset (layout_from (length unplaced) counts f unplaced b) = mset unplaced"
proof (induction "length unplaced" arbitrary: unplaced b)
  case (Suc n)
  then have "unplaced \<noteq> []" by auto
  then obtain c where c: "layout_next counts f unplaced b = Some c" using layout_next_some by blast
  have "c \<in> set unplaced" using layout_next_in [OF c] .
  moreover from this have "n = length (remove1 c unplaced)" using Suc(2) by (simp add: length_remove1)
  ultimately show ?case
    using Suc(1) [of "remove1 c unplaced" c] c by (simp add: Suc(2) [symmetric])
qed simp

lemma reorder_permutes:
  "mset (fn_order (ir_cfg_reorder_blocks_for_layout counts f)) = mset (fn_order f)"
  "fn_order f \<noteq> [] \<Longrightarrow> hd (fn_order (ir_cfg_reorder_blocks_for_layout counts f)) = hd (fn_order f)"
  "fn_heap (ir_cfg_reorder_blocks_for_layout counts f) = fn_heap f"
  "fn_name (ir_cfg_reorder_blocks_for_layout counts f) = fn_name f"
  by (auto simp: ir_cfg_reorder_blocks_for_layout_def layout_from_permutes split: list.split)

section \<open>Verified functions\<close>

text \<open>The instructions that the backend implements; the others are the address computations and what the lowering of SSA form removes.\<close>

definition supported_op :: "ir_opcode \<Rightarrow> bool" where
  "supported_op op \<longleftrightarrow> op \<in> {IR_OP_ALLOCA, IR_OP_LOAD, IR_OP_STORE, IR_OP_CONST, IR_OP_ADD, IR_OP_SUB, IR_OP_MUL, IR_OP_DIV,
     IR_OP_MOD, IR_OP_AND, IR_OP_OR, IR_OP_NEG, IR_OP_EQ, IR_OP_NE, IR_OP_LT, IR_OP_LE, IR_OP_GT, IR_OP_GE, IR_OP_NOT,
     IR_OP_BR, IR_OP_CONDBR, IR_OP_RET, IR_OP_CALL, IR_OP_PRINT, IR_OP_FREE, IR_OP_RELEASE}"

definition supported_function :: "ir_function \<Rightarrow> bool" where
  "supported_function f \<longleftrightarrow>
     list_all (\<lambda>b. list_all (\<lambda>i. supported_op (ir_inst.i_op i)) (bb_insts (block_at f b))) (fn_order f)"

definition target_ok :: "ir_function \<Rightarrow> nat option \<Rightarrow> bool" where
  "target_ok f t \<longleftrightarrow> (case t of Some b \<Rightarrow> b \<in> set (fn_order f) | None \<Rightarrow> False)"

definition inst_ready :: "ir_function \<Rightarrow> ir_inst \<Rightarrow> bool" where
  "inst_ready f i \<longleftrightarrow> supported_op (ir_inst.i_op i) \<and>
     (ir_inst.i_op i \<in> {IR_OP_LOAD, IR_OP_CONST, IR_OP_PRINT} \<longrightarrow> i_lhs i \<noteq> None) \<and>
     (ir_inst.i_op i = IR_OP_STORE \<longrightarrow> i_rhs i \<noteq> None) \<and>
     (ir_inst.i_op i = IR_OP_BR \<longrightarrow> target_ok f (i_true i)) \<and>
     (ir_inst.i_op i = IR_OP_CONDBR \<longrightarrow> target_ok f (i_true i) \<and> target_ok f (i_false i))"

definition ready :: "ir_function \<Rightarrow> bool" where
  "ready f \<longleftrightarrow> (\<forall>b \<in> set (fn_order f). bb_insts (block_at f b) \<noteq> [] \<and> (\<forall>i \<in> set (bb_insts (block_at f b)). inst_ready f i))"

lemma typed_ready: "instruction_detail m f i = None \<Longrightarrow> supported_op (ir_inst.i_op i) \<Longrightarrow> inst_ready f i"
  by (cases "ir_inst.i_op i")
     (auto simp: inst_ready_def supported_op_def instruction_detail_def check_load_def check_const_def check_store_def
       check_print_def check_br_def check_condbr_def block_exists_in_fn_def target_ok_def split: option.splits if_splits)

lemma verified_ready:
  assumes "ir_verify_function m f = None" and "supported_function f"
  shows "ready f"
proof -
  have wf: "bb_insts (block_at f b) \<noteq> []" "\<forall>i \<in> set (bb_insts (block_at f b)). instruction_detail m f i = None"
    if "b \<in> set (fn_order f)" for b
    using assms(1) that by (auto simp: verify_function_None well_formed_function_def well_formed_block_def instruction_detail_None)
  have "supported_op (ir_inst.i_op i)" if "b \<in> set (fn_order f)" "i \<in> set (bb_insts (block_at f b))" for b i
    using assms(2) that by (simp add: supported_function_def list_all_iff)
  then show ?thesis unfolding ready_def using wf typed_ready by blast
qed

lemma reorder_ready: "ready f \<Longrightarrow> ready (ir_cfg_reorder_blocks_for_layout counts f)"
  unfolding ready_def inst_ready_def target_ok_def block_at_def reorder_permutes(3)
    mset_eq_setD [OF reorder_permutes(1) [where counts = counts and f = f]] .

text \<open>The labels of a function.\<close>

definition label_symbols :: "ir_function \<Rightarrow> string set" where
  "label_symbols f = insert (epilogue_symbol (fn_name f)) ((\<lambda>bb. block_symbol (fn_name f) (bb_name bb)) ` set (fn_blocks f))"

lemma ready_targets: "inst_ready f i \<Longrightarrow> target_symbols f i \<subseteq> label_symbols f"
  by (auto simp: inst_ready_def target_symbols_def label_symbols_def target_ok_def target_name_def fn_blocks_def
      split: option.splits)

lemma ready_generates: "inst_ready f i \<Longrightarrow> \<exists>cg'. gen_instruction fr i n cg = Inr cg'"
  by (cases "ir_inst.i_op i")
     (auto simp: inst_ready_def supported_op_def gen_instruction_def gen_alloca_def gen_load_def gen_store_def gen_const_def
       gen_arith_def gen_neg_def gen_compare_def gen_not_def gen_br_def gen_condbr_def gen_ret_def gen_call_def
       gen_print_def gen_dealloc_def Let_def split: option.splits)

lemma ready_insts: "\<forall>i \<in> set is. inst_ready f i \<Longrightarrow> \<exists>cg'. gen_insts fr n is cg = Inr cg'"
proof (induction "is" arbitrary: n cg)
  case (Cons i "is")
  then obtain cg1 where "gen_instruction fr i n cg = Inr cg1" using ready_generates by fastforce
  then show ?case using Cons by simp
qed simp

lemma ready_blocks: "\<forall>bb \<in> set bbs. \<forall>i \<in> set (bb_insts bb). inst_ready f i \<Longrightarrow> \<exists>cg'. gen_blocks fr n bbs cg = Inr cg'"
proof (induction bbs arbitrary: n cg)
  case (Cons bb bbs)
  then obtain cg1 where "gen_insts fr n (bb_insts bb)
      (emit (\<lambda>l. x86_emit_label l (block_symbol (fn_name (fr_fn fr)) (bb_name bb))) cg) = Inr cg1"
    using ready_insts by fastforce
  then show ?case using Cons by (simp add: Let_def)
qed simp

text \<open>The register allocation of a function without empty blocks ends.\<close>

lemma allocation_ends: "nonempty_blocks f \<Longrightarrow> \<exists>ra. regalloc_run f = Some ra"
  using run_result [of f] by (cases "regs f = 0") (auto simp: regalloc_run_def)

lemma ready_nonempty: "ready f \<Longrightarrow> nonempty_blocks f"
  by (simp add: ready_def nonempty_blocks_def fn_blocks_def)

lemma ready_gen_body:
  assumes "ready f" and "pools_ok cg"
  shows "\<exists>cg'. gen_body (x86_frame_build f ra) cg = Inr cg' \<and> good (label_symbols f) (const_names cg) (label_symbols f) cg'"
proof -
  let ?fr = "x86_frame_build f ra"
  let ?L = "label_symbols f" and ?P = "const_names cg" and ?cg0 = "gen_params ?fr (gen_prologue ?fr (cg\<lparr>cg_list := x86_instr_list_create\<rparr>))"
  have ok: "\<forall>bb \<in> set (fn_blocks f). \<forall>i \<in> set (bb_insts bb). inst_ready f i"
    using assms(1) by (simp add: ready_def fn_blocks_def)
  then obtain cg1 where g: "gen_blocks ?fr 0 (fn_blocks f) ?cg0 = Inr cg1" using ready_blocks by blast
  have "good ?L ?P {} (cg\<lparr>cg_list := x86_instr_list_create\<rparr>)"
    using assms(2) by (simp add: good_def x86_instr_list_create_def pools_ok_def const_names_def)
  then have "good ?L ?P {} ?cg0" using good_params good_prologue by blast
  then have "good ?L ?P ((\<lambda>bb. block_symbol (fn_name f) (bb_name bb)) ` set (fn_blocks f)) cg1"
    using good_blocks [OF _ _ g] ok ready_targets by fastforce
  then have "good ?L ?P ?L (gen_epilogue ?fr cg1)"
    using good_epilogue [of ?L ?P _ cg1 ?fr] by (simp add: label_symbols_def)
  then show ?thesis using g by (simp add: gen_body_def)
qed

text \<open>What a generated function promises.\<close>

lemma ready_function:
  assumes "ready f" and "pools_ok cg"
  shows "\<exists>cg'. gen_function_instructions profile f cg = Some (Inr cg') \<and>
    good (labels (cg_list cg')) (const_names cg) {} cg'"
proof -
  let ?g = "case profile of Some counts \<Rightarrow> ir_cfg_reorder_blocks_for_layout counts f | None \<Rightarrow> f"
  have g: "ready ?g" using assms(1) reorder_ready by (simp split: option.split)
  obtain ra where ra: "regalloc_run ?g = Some ra" using allocation_ends [OF ready_nonempty [OF g]] by blast
  obtain cg' where gen: "gen_body (x86_frame_build ?g (Some ra)) cg = Inr cg'"
      "good (label_symbols ?g) (const_names cg) (label_symbols ?g) cg'"
    using ready_gen_body [OF g assms(2)] by blast
  let ?cg = "emit x86_instr_list_optimize cg'"
  have "good (label_symbols ?g) (const_names cg) (label_symbols ?g) ?cg" using good_optimized [OF gen(2)] .
  then have "good (labels (cg_list ?cg)) (const_names cg) {} ?cg"
    using ref_ok_mono [of "label_symbols ?g" _ _ "labels (cg_list ?cg)", OF _ _ subset_refl] by (auto simp: good_def)
  then show ?thesis using ra gen(1) by (auto simp: gen_function_instructions_def Let_def)
qed

end
