(* ===== verification/X86_Module_Correct.thy ===== *)
theory X86_Module_Correct
  imports X86_Codegen_Invariant
begin

text \<open>
  What the backend promises of a module: verified modules of supported instructions are compiled,
  every branch names a label of its function, every reference to a constant finds its bytes in
  \<open>.rodata\<close>, and every relocation of the object file names \<open>.rodata\<close> or a symbol of the file.
\<close>

section \<open>Modules\<close>

definition ready_list :: "codegen \<Rightarrow> x86_instr_list \<Rightarrow> bool" where
  "ready_list cg xs \<longleftrightarrow> list_all (ref_ok (labels xs) (const_names cg)) xs"

lemma ready_list_mono: "ready_list cg xs \<Longrightarrow> const_names cg \<subseteq> const_names cg' \<Longrightarrow> ready_list cg' xs"
  using ref_ok_mono [OF _ subset_refl] by (auto simp: ready_list_def list_all_iff)

lemma ready_functions:
  assumes "\<forall>f \<in> set fs. ready f" and "pools_ok cg"
  shows "\<exists>lss cg'. gen_functions profile fs cg = Some (Inr (lss, cg')) \<and> length lss = length fs \<and> pools_ok cg' \<and>
    const_names cg \<subseteq> const_names cg' \<and> (\<forall>xs \<in> set lss. ready_list cg' xs)"
  using assms
proof (induction fs arbitrary: cg)
  case (Cons f fs)
  obtain cg1 where one: "gen_function_instructions profile f cg = Some (Inr cg1)"
      "good (labels (cg_list cg1)) (const_names cg) {} cg1"
    using ready_function [of f cg profile] Cons.prems by auto
  then have "pools_ok cg1" by (simp add: good_def)
  then obtain lss cg' where rest: "gen_functions profile fs cg1 = Some (Inr (lss, cg'))" "length lss = length fs"
      "pools_ok cg'" "const_names cg1 \<subseteq> const_names cg'" "\<forall>xs \<in> set lss. ready_list cg' xs"
    using Cons.IH [of cg1] Cons.prems(1) by auto
  have "ready_list cg1 (cg_list cg1)" using one(2) by (simp add: good_def ready_list_def list_all_iff)
  then have "ready_list cg' (cg_list cg1)" using ready_list_mono rest(4) by blast
  moreover have "const_names cg \<subseteq> const_names cg'" using one(2) rest(4) by (auto simp: good_def)
  ultimately show ?case using one(1) rest by simp
qed simp

text \<open>The relocations and symbols of the encoded functions.\<close>

definition from_lists :: "x86_instr_list list \<Rightarrow> nat \<Rightarrow> x86_reloc \<Rightarrow> bool" where
  "from_lists lss n r \<longleftrightarrow> (\<exists>xs \<in> set lss. \<exists>i \<in> set xs. reloc_kind i \<noteq> None \<and> r_symbol r = o_symbol (i_src i)) \<and>
     (n < 2 ^ 64 \<longrightarrow> unat (r_offset r) + 4 \<le> n)"

lemma from_lists_mono: "from_lists lss n r \<Longrightarrow> set lss \<subseteq> set lss' \<Longrightarrow> n \<le> n' \<Longrightarrow> from_lists lss' n' r"
  by (auto simp: from_lists_def)

lemma relocs_of_from:
  assumes "r \<in> set (relocs_of m n xs)"
  shows "from_lists [xs] (inst_pos n xs (length xs)) r"
proof -
  obtain k where k: "k < length xs" "r \<in> set (inst_relocs (Some m) (of_nat (inst_pos n xs k)) (xs ! k))"
    using assms by (auto simp: relocs_of_eq)
  then have kind: "reloc_kind (xs ! k) \<noteq> None" and sy: "r_symbol r = o_symbol (i_src (xs ! k))"
    and off: "r_offset r = of_nat (inst_pos n xs k) + of_nat (inst_size (xs ! k)) - 4"
    by (cases "reloc_kind (xs ! k)"; auto simp: inst_relocs_eq)+
  have four: "4 \<le> inst_size (xs ! k)" using reloc_size [OF kind] .
  then have pos: "r_offset r = of_nat (inst_pos n xs (Suc k) - 4)"
    using off by (simp add: inst_pos_Suc [OF k(1)] of_nat_diff)
  have ge: "4 \<le> inst_pos n xs (Suc k)" using four by (simp add: inst_pos_Suc [OF k(1)])
  have le: "inst_pos n xs (Suc k) \<le> inst_pos n xs (length xs)"
  proof -
    have "take (length xs) xs = take (Suc k) xs @ drop (Suc k) xs" by simp
    then show ?thesis by (metis inst_pos_def le_add1 map_append sum_list_append add.assoc)
  qed
  have "unat (r_offset r) + 4 \<le> inst_pos n xs (length xs)" if "inst_pos n xs (length xs) < 2 ^ 64"
  proof -
    have "inst_pos n xs (Suc k) - 4 < 2 ^ 64" using that le by linarith
    then have "unat (r_offset r) = inst_pos n xs (Suc k) - 4" by (simp only: pos unat_of_nat) simp
    then show ?thesis using ge le by linarith
  qed
  then show ?thesis using k(1) kind sy nth_mem [OF k(1)] by (auto simp: from_lists_def)
qed

lemma encoded_functions:
  assumes "encode_functions fs code rs ds = Inr (code', rs', ds')"
  shows "length code \<le> length code' \<and> (\<exists>new. rs' = rs @ new \<and> (\<forall>r \<in> set new. from_lists (map snd fs) (length code') r)) \<and>
    set ds \<subseteq> set ds' \<and> (\<forall>nm \<in> fst ` set fs. \<exists>d \<in> set ds'. ed_name d = nm \<and> ed_defined d)"
  using assms
proof (induction fs arbitrary: code rs ds)
  case (Cons f fs)
  obtain nm xs where f: "f = (nm, xs)" by (cases f)
  let ?m = "labels_of (length code) xs"
  let ?code = "code @ code_of ?m (length code) xs" and ?rs = "rs @ relocs_of ?m (length code) xs"
  let ?ds = "elf_symbol_list_add ds (Some nm) (of_nat (length code)) (of_nat (length ?code - length code)) True True"
  have enc: "x86_encode_function (Some xs) (Some code) (Some rs) = Inr (?code, Some ?rs)"
    by (simp add: encode_function_eq Let_def)
  have g: "encode_functions fs ?code ?rs ?ds = Inr (code', rs', ds')" using Cons.prems enc by (simp add: f)
  note IH = Cons.IH [OF g]
  have len: "length ?code = inst_pos (length code) xs (length xs)" using length_code_of by simp
  obtain new where new: "rs' = ?rs @ new" "\<forall>r \<in> set new. from_lists (map snd fs) (length code') r" using IH by auto
  have le: "length ?code \<le> length code'" using IH by simp
  have "from_lists (map snd (f # fs)) (length code') r" if "r \<in> set (relocs_of ?m (length code) xs @ new)" for r
    using that relocs_of_from [of r ?m "length code" xs] new(2) le len
    by (auto intro: from_lists_mono simp: f)
  moreover have "\<exists>d \<in> set ?ds. ed_name d = nm \<and> ed_defined d" and "set ds \<subseteq> set ?ds" by (auto simp: elf_symbol_list_add_def)
  ultimately show ?case using IH new(1) le by (auto simp: f)
qed simp

lemma encode_functions_total: "\<exists>code' rs' ds'. encode_functions fs code rs ds = Inr (code', rs', ds')"
  by (induction fs arbitrary: code rs ds) (auto simp: encode_function_eq Let_def)

section \<open>Read-only data\<close>

definition all_constants :: "codegen \<Rightarrow> (string \<times> u8 list) list" where
  "all_constants cg = fixed_constants @ map string_constant (cg_strings cg) @ map float_constant (cg_floats cg)"

text \<open>A name finds its bytes.\<close>

definition constant_at :: "rodata \<Rightarrow> string \<times> u8 list \<Rightarrow> bool" where
  "constant_at rd c \<longleftrightarrow> (case List.find (\<lambda>e. fst e = fst c) (rd_map rd) of
     Some e \<Rightarrow> holds (rd_buf rd) (unat (snd e)) (snd c) | None \<Rightarrow> False)"

definition entry_holds :: "byte_buffer \<Rightarrow> string \<times> u64 \<Rightarrow> string \<times> u8 list \<Rightarrow> bool" where
  "entry_holds buf e c \<longleftrightarrow> fst e = fst c \<and> holds buf (unat (snd e)) (snd c)"

lemma entry_holds_extend: "list_all2 (entry_holds buf) es cs \<Longrightarrow> list_all2 (entry_holds (buf @ rest)) es cs"
  by (erule list_all2_mono) (auto simp: entry_holds_def holds_extend)

lemma add_constants_grows: "length (rd_buf rd) \<le> length (rd_buf (add_constants cs rd))"
proof (induction cs arbitrary: rd)
  case (Cons c cs)
  have "length (rd_buf rd) \<le> length (rd_buf (ADD_RODATA_SYM (fst c) (snd c) rd))"
    by (simp add: ADD_RODATA_SYM_def byte_buf_append_bytes_def)
  then show ?case using Cons [of "ADD_RODATA_SYM (fst c) (snd c) rd"] by (simp add: add_constants_def)
qed (simp add: add_constants_def)

lemma add_constants_holds:
  assumes "list_all2 (entry_holds (rd_buf rd)) (rd_map rd) cs0" and "length (rd_buf (add_constants cs rd)) < 2 ^ 64"
  shows "list_all2 (entry_holds (rd_buf (add_constants cs rd))) (rd_map (add_constants cs rd)) (cs0 @ cs)"
  using assms
proof (induction cs arbitrary: rd cs0)
  case (Cons c cs)
  let ?rd = "ADD_RODATA_SYM (fst c) (snd c) rd"
  have step: "add_constants (c # cs) rd = add_constants cs ?rd" by (simp add: add_constants_def)
  have "length (rd_buf ?rd) < 2 ^ 64" using Cons.prems(2) le_less_trans [OF add_constants_grows] unfolding step by blast
  then have n: "unat (of_nat (length (rd_buf rd)) :: u64) = length (rd_buf rd)"
    by (simp add: ADD_RODATA_SYM_def byte_buf_append_bytes_def unat_of_nat)
  have "list_all2 (entry_holds (rd_buf rd @ snd c)) (rd_map rd @ [(fst c, of_nat (length (rd_buf rd)))]) (cs0 @ [c])"
    using entry_holds_extend [OF Cons.prems(1)] n
    by (intro list_all2_appendI) (auto simp: entry_holds_def holds_def)
  then have "list_all2 (entry_holds (rd_buf ?rd)) (rd_map ?rd) (cs0 @ [c])"
    by (simp add: ADD_RODATA_SYM_def byte_buf_append_bytes_def)
  then show ?case using Cons.IH [of ?rd "cs0 @ [c]"] Cons.prems(2) by (simp add: step)
qed (simp add: add_constants_def)

lemma rodata_holds:
  assumes "length (rd_buf (build_rodata cg)) < 2 ^ 64"
  shows "list_all2 (entry_holds (rd_buf (build_rodata cg))) (rd_map (build_rodata cg)) (all_constants cg)"
proof -
  let ?r0 = "add_constants fixed_constants \<lparr>rd_buf = [], rd_map = []\<rparr>"
  let ?r1 = "add_constants (map string_constant (cg_strings cg)) ?r0"
  have "length (rd_buf (align_floats ?r1)) < 2 ^ 64"
    using assms le_less_trans [OF add_constants_grows] unfolding build_rodata_def by blast
  then have l1: "length (rd_buf ?r1) < 2 ^ 64" by (simp add: align_floats_def)
  then have "length (rd_buf ?r0) < 2 ^ 64" using le_less_trans [OF add_constants_grows] by blast
  then have "list_all2 (entry_holds (rd_buf ?r0)) (rd_map ?r0) fixed_constants"
    using add_constants_holds [of "\<lparr>rd_buf = [], rd_map = []\<rparr>" "[]" fixed_constants] by simp
  from add_constants_holds [OF this l1] have
    "list_all2 (entry_holds (rd_buf (align_floats ?r1))) (rd_map (align_floats ?r1))
       (fixed_constants @ map string_constant (cg_strings cg))"
    using entry_holds_extend by (simp add: align_floats_def)
  from add_constants_holds [OF this assms [unfolded build_rodata_def]] show ?thesis
    by (simp add: build_rodata_def all_constants_def)
qed

lemma find_entry:
  assumes "list_all2 (entry_holds buf) es cs" and "List.find (\<lambda>c. fst c = s) cs = Some c"
  shows "\<exists>e. List.find (\<lambda>e. fst e = s) es = Some e \<and> holds buf (unat (snd e)) (snd c)"
  using assms by (induction rule: list_all2_induct) (auto simp: entry_holds_def split: if_splits)

text \<open>Different constants have different names, as long as the names fit the buffer.\<close>

lemma symbol_names:
  assumes "n < 10 ^ 50"
  shows "str_symbol n = ''.LC_str_'' @ decimal n" "float_symbol n = ''.LC_float_'' @ decimal n"
  using assms decimal_length [of n 49] by (simp_all add: str_symbol_def float_symbol_def snprintf_buf_def)

lemma decimal_not_word: "decimal n \<noteq> CHR ''t'' # s" "decimal n \<noteq> CHR ''f'' # s"
  using decimal_chars [of "CHR ''t''" n] decimal_chars [of "CHR ''f''" n] by auto

lemma constant_names_distinct:
  assumes "pools_ok cg" and "length (cg_strings cg) \<le> 10 ^ 50" and "length (cg_floats cg) \<le> 10 ^ 50"
  shows "distinct (map fst (all_constants cg))"
proof -
  let ?s = "map fst (cg_strings cg)" and ?f = "map fst (cg_floats cg)"
  have "set ?s = {..<length (cg_strings cg)}" "set ?f = {..<length (cg_floats cg)}"
    using assms(1) unfolding pools_ok_def by (simp_all only: set_rev set_upt atLeast0LessThan)
  then have below: "n \<in> set ?s \<Longrightarrow> n < 10 ^ 50" "n \<in> set ?f \<Longrightarrow> n < 10 ^ 50" for n
    using assms(2,3) by auto
  have ns: "str_symbol n = ''.LC_str_'' @ decimal n" if "n \<in> set ?s" for n
    using symbol_names(1) [OF below(1) [OF that]] .
  have nf: "float_symbol n = ''.LC_float_'' @ decimal n" if "n \<in> set ?f" for n
    using symbol_names(2) [OF below(2) [OF that]] .
  have names: "map fst (all_constants cg) = map fst fixed_constants @ map (\<lambda>n. ''.LC_str_'' @ decimal n) ?s @ map (\<lambda>n. ''.LC_float_'' @ decimal n) ?f"
    using ns nf by (simp add: all_constants_def string_constant_def float_constant_def)
  have dist: "distinct ?s" "distinct ?f" using assms(1) by (simp_all add: pools_ok_def)
  have "distinct (map fst fixed_constants @ map (\<lambda>n. ''.LC_str_'' @ decimal n) ss @ map (\<lambda>n. ''.LC_float_'' @ decimal n) fs)"
    if "distinct ss" "distinct fs" for ss fs
    using that decimal_not_word decimal_not_word [symmetric]
    by (auto simp: fixed_constants_def distinct_map inj_on_def dest: decimal_inj)
  then show ?thesis unfolding names using dist by blast
qed

lemma find_distinct:
  "distinct (map fst cs) \<Longrightarrow> c \<in> set cs \<Longrightarrow> List.find (\<lambda>d. fst d = fst c) cs = Some c"
  by (induction cs) auto

lemma constants_found:
  assumes "pools_ok cg" and "length (cg_strings cg) \<le> 10 ^ 50" and "length (cg_floats cg) \<le> 10 ^ 50"
    and "length (rd_buf (build_rodata cg)) < 2 ^ 64" and "c \<in> set (all_constants cg)"
  shows "constant_at (build_rodata cg) c"
  using find_entry [OF rodata_holds [OF assms(4)] find_distinct [OF constant_names_distinct [OF assms(1-3)] assms(5)]]
  by (auto simp: constant_at_def)

section \<open>Relocations of the object file\<close>

definition named_in :: "elf_symbol_desc list \<Rightarrow> x86_reloc \<Rightarrow> bool" where
  "named_in ds r \<longleftrightarrow> (case r_symbol r of Some s \<Rightarrow> s = ''.rodata'' \<or> list_ex (\<lambda>d. ed_name d = s) ds | None \<Rightarrow> False)"

lemma named_in_mono: "named_in ds r \<Longrightarrow> set ds \<subseteq> set ds' \<Longrightarrow> named_in ds' r"
  by (auto simp: named_in_def list_ex_iff split: option.splits)

lemma resolved_reloc:
  assumes "r_symbol r = Some s"
  obtains r' ds' where "resolve_reloc rdmap r ds = Some (r', ds')" "named_in ds' r'" "set ds \<subseteq> set ds'" "r_offset r' = r_offset r"
proof (cases "List.find (\<lambda>e. fst e = s) rdmap")
  case None
  let ?ds = "if list_ex (\<lambda>d. ed_name d = s) ds then ds else elf_symbol_list_add ds (Some s) 0 0 True False"
  have "resolve_reloc rdmap r ds = Some (r, ?ds)" using None assms by (simp add: resolve_reloc_def)
  moreover have "list_ex (\<lambda>d. ed_name d = s) ?ds" "set ds \<subseteq> set ?ds" by (auto simp: elf_symbol_list_add_def list_ex_iff)
  ultimately show ?thesis using assms that by (simp add: named_in_def)
next
  case (Some e)
  then show ?thesis using assms that [of "r\<lparr>r_symbol := Some ''.rodata'', r_addend := snd e - 4\<rparr>" ds]
    by (simp add: resolve_reloc_def named_in_def)
qed

lemma resolved_relocs:
  assumes "\<forall>r \<in> set rs. r_symbol r \<noteq> None"
  shows "\<exists>rs' ds'. resolve_relocs rdmap rs ds = Some (rs', ds') \<and> list_all (named_in ds') rs' \<and> set ds \<subseteq> set ds' \<and>
    map r_offset rs' = map r_offset rs"
  using assms
proof (induction rs arbitrary: ds)
  case (Cons r rs)
  then obtain s where s: "r_symbol r = Some s" by auto
  obtain r' ds1 where one: "resolve_reloc rdmap r ds = Some (r', ds1)" "named_in ds1 r'" "set ds \<subseteq> set ds1"
      "r_offset r' = r_offset r" by (rule resolved_reloc [OF s])
  obtain rs' ds' where rest: "resolve_relocs rdmap rs ds1 = Some (rs', ds')" "list_all (named_in ds') rs'"
      "set ds1 \<subseteq> set ds'" "map r_offset rs' = map r_offset rs"
    using Cons.IH [of ds1] Cons.prems by auto
  show ?case using one rest named_in_mono [OF one(2) rest(3)] by auto
qed simp

lemma ready_parts:
  assumes "\<forall>f \<in> set (m_functions md). ready f"
  shows "\<exists>code relocs data ds. object_parts profile md = Some (Inr (code, relocs, data, ds)) \<and>
    list_all (named_in ds) relocs \<and> (length code < 2 ^ 64 \<longrightarrow> list_all (\<lambda>r. unat (r_offset r) + 4 \<le> length code) relocs) \<and>
    list_all (\<lambda>f. list_ex (\<lambda>d. ed_name d = fn_name f \<and> ed_defined d) ds) (m_functions md)"
proof -
  have "pools_ok start_codegen" by (simp add: start_codegen_def pools_ok_def clear_floats_def clear_strings_def)
  then obtain lss cg where gen: "gen_functions profile (m_functions md) start_codegen = Some (Inr (lss, cg))"
      "length lss = length (m_functions md)" "\<forall>xs \<in> set lss. ready_list cg xs"
    using ready_functions [OF assms, of start_codegen profile] by auto
  let ?fs = "zip (map fn_name (m_functions md)) lss"
  obtain code rs ds where enc: "encode_functions ?fs [] [] [] = Inr (code, rs, ds)" using encode_functions_total by blast
  have names: "map snd ?fs = lss" "fst ` set ?fs = fn_name ` set (m_functions md)"
    using gen(2) by (simp_all only: map_snd_zip map_fst_zip length_map set_map [symmetric])
  have E: "\<forall>r \<in> set rs. from_lists lss (length code) r"
      "\<forall>nm \<in> fn_name ` set (m_functions md). \<exists>d \<in> set ds. ed_name d = nm \<and> ed_defined d"
    using encoded_functions [OF enc] unfolding names by auto
  have "r_symbol r \<noteq> None" if mem: "r \<in> set rs" for r
  proof -
    obtain xs i where i: "xs \<in> set lss" "i \<in> set xs" "reloc_kind i \<noteq> None" "r_symbol r = o_symbol (i_src i)"
      using bspec [OF E(1) mem] unfolding from_lists_def by blast
    then have "ref_ok (labels xs) (const_names cg) i" using gen(3) by (auto simp: ready_list_def list_all_iff)
    then show ?thesis using i(3,4) by (auto simp: ref_ok_def reloc_kind_def split: if_splits)
  qed
  then obtain relocs ds' where res: "resolve_relocs (rd_map (build_rodata cg)) rs ds = Some (relocs, ds')"
      "list_all (named_in ds') relocs" "set ds \<subseteq> set ds'" "map r_offset relocs = map r_offset rs"
    using resolved_relocs [of rs "rd_map (build_rodata cg)" ds] by blast
  have "list_all (\<lambda>r. unat (r_offset r) + 4 \<le> length code) relocs" if "length code < 2 ^ 64"
  proof -
    have "list_all (\<lambda>off. unat off + 4 \<le> length code) (map r_offset rs)"
      using E(1) that by (auto simp: list_all_iff from_lists_def)
    then show ?thesis unfolding res(4) [symmetric] by (simp add: list.pred_map comp_def)
  qed
  moreover have "list_all (\<lambda>f. list_ex (\<lambda>d. ed_name d = fn_name f \<and> ed_defined d) ds') (m_functions md)"
    using E(2) res(3) by (fastforce simp: list_all_iff list_ex_iff)
  ultimately show ?thesis using gen(1) enc res(1,2) by (simp add: object_parts_def)
qed

section \<open>Properties\<close>

text \<open>A program that prints a string.\<close>

definition hello :: ir_module where
  "hello = (ir_module_create (Some ''hello.cco''))\<lparr>m_functions := [(ir_new_function ''main'' None)\<lparr>fn_heap :=
     [\<lparr>bb_name = ''entry'', bb_id = 0,
       bb_insts = [(create_instruction IR_OP_PRINT Ty_Void)\<lparr>i_lhs := Some (ir_val_const_string (Some ''hi''))\<rparr>,
                   create_instruction IR_OP_RET Ty_Void],
       bb_preds = [], bb_succs = []\<rparr>], fn_order := [0], fn_entry := Some 0\<rparr>]\<rparr>"

lemmas hello_eval = hello_def ir_module_create_def ir_new_function_def create_instruction_def ir_val_const_string_def block_at_def

lemma hello_verified: "ir_verify_module hello = None"
  by (simp add: hello_eval ir_verify_module_def ir_verify_function_def fn_blocks_def verify_block_def
      verify_instruction_def instruction_detail_def check_print_def check_ret_def ir_is_terminator_def ir_type_void_def)

lemma hello_supported: "list_all supported_function (m_functions hello)"
  by (simp add: hello_eval supported_function_def supported_op_def)

lemma verified_functions_ready:
  assumes "ir_verify_module md = None" and "list_all supported_function (m_functions md)"
  shows "\<forall>f \<in> set (m_functions md). ready f"
  using assms verified_ready by (auto simp: ir_verify_module_def first_error_None list_all_iff)

text \<open>
  C29. The backend compiles every module that the verifier accepts, if it has only instructions that
  the backend supports: the register allocation of each function ends, no null operand is
  dereferenced and no error is reported. The object file defines a symbol for every function, and
  every relocation names \<open>.rodata\<close> or a symbol of the file.
\<close>

theorem verified_module_compiles:
  assumes "ir_verify_module md = None" and "list_all supported_function (m_functions md)"
  shows "\<exists>code relocs data ds. object_parts profile md = Some (Inr (code, relocs, data, ds)) \<and>
    list_all (\<lambda>f. list_ex (\<lambda>d. ed_name d = fn_name f \<and> ed_defined d) ds) (m_functions md) \<and>
    list_all (named_in ds) relocs"
  using ready_parts [OF verified_functions_ready [OF assms]] by blast

theorem verified_module_compiles_witness:
  "\<exists>code relocs data ds. object_parts None hello = Some (Inr (code, relocs, data, ds)) \<and>
    list_all (\<lambda>f. list_ex (\<lambda>d. ed_name d = fn_name f \<and> ed_defined d) ds) (m_functions hello) \<and>
    list_all (named_in ds) relocs"
  by (rule verified_module_compiles [OF hello_verified hello_supported])

text \<open>The code of the sample.\<close>

definition hello_main :: ir_function where
  "hello_main = hd (m_functions hello)"

definition hello_regs :: regalloc_result where
  "hello_regs = \<lparr>ra_fn = hello_main, ra_total = 0, ra_intervals = [], ra_used = (\<lambda>_. False), ra_callee_saved = [],
     ra_spilled = 0, ra_int_spilled = 0, ra_float_spilled = 0, ra_spill_bytes = 0, ra_inst_count = 0\<rparr>"

lemma hello_alloc: "regalloc_run hello_main = Some hello_regs"
  by (simp add: regalloc_run_def hello_eval hello_main_def hello_regs_def)

lemma hello_blocks: "fn_blocks hello_main = [\<lparr>bb_name = ''entry'', bb_id = 0,
       bb_insts = [(create_instruction IR_OP_PRINT Ty_Void)\<lparr>i_lhs := Some (ir_val_const_string (Some ''hi''))\<rparr>,
                   create_instruction IR_OP_RET Ty_Void], bb_preds = [], bb_succs = []\<rparr>]"
    "fn_name hello_main = ''main''" "fn_params hello_main = []" "m_functions hello = [hello_main]"
  by (simp_all add: hello_main_def hello_eval fn_blocks_def)

lemma hello_frame: "x86_frame_build hello_main (Some hello_regs) =
    \<lparr>fr_fn = hello_main, fr_regalloc = Some hello_regs, fr_slots = [], fr_total = 0, fr_count = 0, fr_callee_saved = []\<rparr>"
proof -
  have "layout_alloca i st = st" if "i_result i = None" for i st using that by (simp add: layout_alloca_def)
  then have "fold layout_alloca (all_insts hello_main) st = st" for st
    by (simp add: all_insts_def hello_blocks create_instruction_def)
  then show ?thesis
    by (simp add: x86_frame_build_def empty_frame_def Let_def layout_params_def layout_spills_def hello_regs_def
        hello_blocks frame_size_def)
qed

lemma emit_literal: "emit g \<lparr>cg_list = l, cg_strings = ss, cg_floats = fs\<rparr> = \<lparr>cg_list = g l, cg_strings = ss, cg_floats = fs\<rparr>"
  by (simp add: emit_def)

lemmas emit_defs = emit_literal x86_emit_label_def x86_emit_lea_rip_def x86_emit_call_def x86_emit_jmp_def plain_emitters

lemma hello_reload: "reload_caller_saved_after_call
    \<lparr>fr_fn = hello_main, fr_regalloc = Some hello_regs, fr_slots = [], fr_total = 0, fr_count = 0, fr_callee_saved = []\<rparr> n cg = cg"
  by (simp add: reload_caller_saved_after_call_def hello_regs_def)

lemma hello_print: "print_value fr (ir_val_const_string (Some t)) \<lparr>cg_list = l, cg_strings = [], cg_floats = []\<rparr> =
    \<lparr>cg_list = x86_emit_call (x86_emit_xor (x86_emit_lea_rip (x86_emit_lea_rip l (str_symbol 0) X86_REG_RSI)
       ''.LC_fmt_str'' X86_REG_RDI) X86_REG_RAX X86_REG_RAX) ''printf'', cg_strings = [(0, t)], cg_floats = []\<rparr>"
  by (simp add: print_value_def is_val_float_def ir_val_const_string_def emit_load_val_def load_int_def Let_def
      get_or_add_string_def call_printf_def clear_rax_def lea_def emit_literal ir_type_ptr_def ir_type_char_def)

definition hello_code :: x86_instr_list where
  "hello_code = x86_emit_ret (x86_emit_pop (x86_emit_label (x86_emit_jmp (x86_emit_mov_imm_reg (x86_emit_call (x86_emit_xor
     (x86_emit_lea_rip (x86_emit_lea_rip (x86_emit_label (x86_emit_mov_reg_reg (x86_emit_push (x86_emit_label [] ''main'')
       X86_REG_RBP) 8 X86_REG_RSP X86_REG_RBP) (block_symbol ''main'' ''entry'')) (str_symbol 0) X86_REG_RSI)
       ''.LC_fmt_str'' X86_REG_RDI) X86_REG_RAX X86_REG_RAX) ''printf'') 4 0 X86_REG_RAX)
       (epilogue_symbol ''main'')) (epilogue_symbol ''main'')) X86_REG_RBP)"

lemma hello_generated: "gen_body (x86_frame_build hello_main (Some hello_regs)) start_codegen =
    Inr \<lparr>cg_list = hello_code, cg_strings = [(0, ''hi'')], cg_floats = []\<rparr>"
  by (simp add: hello_frame gen_body_def gen_params_def gen_prologue_def gen_epilogue_def hello_blocks Let_def
    gen_instruction_def create_instruction_def gen_print_def gen_ret_def start_codegen_def clear_floats_def clear_strings_def
    hello_reload hello_print emit_literal x86_instr_list_create_def hello_code_def)

lemma hello_functions: "gen_functions None (m_functions hello) start_codegen =
    Some (Inr ([x86_instr_list_optimize hello_code],
      \<lparr>cg_list = x86_instr_list_optimize hello_code, cg_strings = [(0, ''hi'')], cg_floats = []\<rparr>))"
  by (simp add: hello_blocks gen_function_instructions_def hello_alloc hello_generated emit_literal)

text \<open>
  C26. In the code of a verified module every branch names a label of its own function, every call
  and every operand relative to the program counter has a symbol, and the constants that the code
  refers to, like all constants of the module, are found by their names in \<open>.rodata\<close>, at an offset
  that holds their bytes: the two pools, the format strings and the sign mask.
\<close>

theorem references_are_resolved:
  assumes "ir_verify_module md = None" and "list_all supported_function (m_functions md)"
    and "gen_functions profile (m_functions md) start_codegen = Some (Inr (lss, cg))"
    and "length (cg_strings cg) < 2 ^ 31" and "length (cg_floats cg) < 2 ^ 31"
    and "length (rd_buf (build_rodata cg)) < 2 ^ 64"
  shows "list_all (\<lambda>xs. list_all (ref_ok (labels xs) (set (map fst (all_constants cg)))) xs) lss \<and>
    list_all (constant_at (build_rodata cg)) (all_constants cg)"
proof -
  have "pools_ok start_codegen" by (simp add: start_codegen_def pools_ok_def clear_floats_def clear_strings_def)
  then have ok: "pools_ok cg" "\<forall>xs \<in> set lss. ready_list cg xs"
    using ready_functions [OF verified_functions_ready [OF assms(1,2)], of start_codegen profile] assms(3) by auto
  have names: "set (map fst (all_constants cg)) = const_names cg"
    by (auto simp: all_constants_def const_names_def string_constant_def float_constant_def image_iff)
  have "list_all (constant_at (build_rodata cg)) (all_constants cg)"
    using constants_found [OF ok(1) _ _ assms(6)] assms(4,5) by (simp add: list_all_iff)
  then show ?thesis using ok(2) unfolding names by (simp add: ready_list_def list_all_iff)
qed

theorem references_are_resolved_witness:
  "list_all (ref_ok (labels (x86_instr_list_optimize hello_code)) (set (map fst (all_constants
      \<lparr>cg_list = x86_instr_list_optimize hello_code, cg_strings = [(0, ''hi'')], cg_floats = []\<rparr>))))
      (x86_instr_list_optimize hello_code) \<and>
   constant_at (build_rodata \<lparr>cg_list = x86_instr_list_optimize hello_code, cg_strings = [(0, ''hi'')], cg_floats = []\<rparr>)
     (''.LC_str_0'', [0x68, 0x69, 0])"
proof -
  let ?cg = "\<lparr>cg_list = x86_instr_list_optimize hello_code, cg_strings = [(0, ''hi'')], cg_floats = []\<rparr>"
  have "length (rd_buf (build_rodata ?cg)) = 48"
    by (simp add: build_rodata_def add_constants_def align_floats_def ADD_RODATA_SYM_def byte_buf_append_bytes_def
        fixed_constants_def string_constant_def neg_mask_def bytes_of_def newline_def)
  from references_are_resolved [OF hello_verified hello_supported hello_functions] this
  have *: "list_all (\<lambda>xs. list_all (ref_ok (labels xs) (set (map fst (all_constants ?cg)))) xs) [x86_instr_list_optimize hello_code]"
    "list_all (constant_at (build_rodata ?cg)) (all_constants ?cg)" by simp_all
  have zero: "char_of (48 :: nat) = CHR ''0''" by code_simp
  have "(''.LC_str_0'', [0x68, 0x69, 0]) \<in> set (all_constants ?cg)"
    by (simp add: all_constants_def string_constant_def symbol_names decimal.simps bytes_of_def zero)
  then show ?thesis using * by (auto simp: list_all_iff)
qed

end
