(* ===== verification/Spec2Isabelle.thy ===== *)
theory Spec2Isabelle
  imports Ir_Opt_Driver Ir_Ssa_Defects Ir_Ssa_Verify Ir_Loop_Correct Ir_Profile_Roundtrip Ir_Ipa_Correct X86_Frame_Correct Map_Runtime Lexer_Grammar X86_Decode X86_Module_Correct
begin

text \<open>
  The Cco compiler translates a source file to tokens (\<open>src/frontend/lexer.c\<close>), to a syntax tree
  (\<open>parser.c\<close>), checks it (\<open>scope_analysis.c\<close>, \<open>trait_resolver.c\<close>, \<open>module_resolver.c\<close>), and then
  either prints C11 (\<open>backend/c11\<close>) or lowers it to an intermediate representation
  (\<open>ir/ir_lower.c\<close>). The representation is verified, brought to SSA form and back, optimised, and
  compiled to x86-64: register allocation, instruction selection, encoding, an ELF object file,
  and a linked executable. Compiled programs use a hash map of \<open>runtime/map_runtime.h\<close>.
  This development models the lexer, the intermediate representation with its analyses and
  passes, the native backend down to the bytes of the executable, and the hash map.

  \<^bold>\<open>Conventions.\<close> A C structure is a record, an enumeration a datatype. Machine integers are words
  (\<open>u8\<close> to \<open>u64\<close> of \<open>Cco_Prelude\<close>) where they wrap, natural numbers or integers where the code cannot
  reach their bounds. Pointers to blocks are indices into the heap of a function, which never
  shrinks, and linked lists are lists. Errors are values: \<open>Inl\<close> of a message, or \<open>Some\<close> message
  for the checkers that return only errors. \<open>None\<close> as the result of a loop means that it does not
  end, and of a step that C leaves its behaviour undefined. Allocation does not fail.

  \<^bold>\<open>Runtime.\<close> \<open>Map_Runtime\<close> models \<open>map_runtime.h\<close>: hashing, probing with tombstones, growth,
  put, get, has, remove and free. It shows that any sequence of operations behaves as a finite
  map, that every probe ends because a bucket stays empty, that growth keeps the bindings, and
  that every key and value is released once.

  \<^bold>\<open>Lexer.\<close> \<open>Lexer_Tokens\<close> holds the token types and the keywords, \<open>Lexer\<close> the scanners and
  \<open>lex_source\<close>, and \<open>Lexer_Grammar\<close> a lexical grammar that is independent of them, with the
  equivalence of the two, positions included.

  \<^bold>\<open>Intermediate representation.\<close> \<open>Ir\<close> models \<open>ir.h\<close> and the construction functions of \<open>ir.c\<close>,
  \<open>Ir_Cfg\<close> shows what they keep (single definitions, edges in both directions, and terminators last if the
  client emits only allocas after them).
  \<open>Ir_Verify\<close> models \<open>ir_verify.c\<close> with its messages and shows that it decides a typing
  judgement. \<open>Ir_Dominance\<close> models \<open>ir_dominance.c\<close>; \<open>Flow_Graph\<close> is the theory of dominance on
  paths, \<open>Chaotic_Iteration\<close> the termination of the fixed points, and \<open>Ir_Dominance_Correct\<close> and
  \<open>Ir_Dominance_Tree\<close> relate the two. \<open>Ir_Opt\<close> models \<open>ir_opt.c\<close>. \<open>Ir_Semantics\<close> gives a reference
  semantics, a run of blocks with a parameter for memory and calls, in which registers have the types the
  printed C gives them, so that a literal is cut to 32 bits when it is assigned to an i32; \<open>Ir_Simulation\<close> is the
  simulation argument for passes; \<open>Ir_Opt_Correct\<close> and \<open>Ir_Opt_Cfg\<close> show that folding,
  propagation, dead code elimination and the simplification of branches preserve every call that
  returns, propagation only where literals fit their registers, with an execution that it changes where one
  does not, and that the last two end on every function; \<open>Ir_Opt_Driver\<close> has the driver and executions on which the algebraic rules do not.

  \<^bold>\<open>SSA form.\<close> \<open>Ir_Ssa\<close> models \<open>ir_ssa.c\<close>: promotion of variables, the verifier, the small
  optimiser and the way back. \<open>Ir_Ssa_Verify\<close> shows that the verifier decides a form that is
  stated on all register operands of instructions with at most 32 of them, and that leaves the values of
  phis free, as the verifier does. \<open>Ir_Ssa_Copies\<close>
  shows that the copies that replace phis are one parallel assignment, \<open>Ir_Ssa_Split\<close> and \<open>Ir_Ssa_Edges\<close>
  what the splitting of critical edges keeps, and \<open>Ir_Ssa_Lower\<close> that leaving SSA form ends and preserves executions
  of functions that are \<open>destructible\<close>: phis first and a terminator last in each block, at most 64 phis in a
  block, edges that agree with the branches, conditional branches to two different blocks, and phis only where paths meet.
  \<open>Ir_Ssa_Opt\<close> models \<open>ir_ssa_opt.c\<close>; \<open>Ir_Ssa_Dce\<close> shows that dead code
  elimination ends on every function and preserves executions, \<open>Ir_Ssa_Defects\<close> an execution that value numbering changes.
  \<open>Ir_Loop\<close> models \<open>ir_loop.c\<close>, and \<open>Ir_Loop_Correct\<close> relates its loops to the natural loops of the graph.

  \<^bold>\<open>Modules and profiles.\<close> \<open>Ir_Profile\<close> models the tables and files of \<open>ir_profile.c\<close>;
  \<open>Ir_Profile_Roundtrip\<close> shows that counts add up and that a profile is saved with sorted tables of the same entries and read back. \<open>Ir_Ipa\<close> models
  \<open>ir_ipa.c\<close>: the call graph with the search for recursion, reachability and purity, inlining, the removal of
  dead functions and the drivers, with the pipeline of a module of \<open>ir_ssa.c\<close> and the figures that
  \<open>ir_loop.c\<close> takes from a profile. \<open>Ir_Ipa_Correct\<close> shows, for modules whose functions have
  different names, that the graph is always built, that its purities are the worst of what can be called, and that exactly the functions that main cannot reach are
  removed; the depth of its recursion is bounded by the number of functions, which is proved to be enough.

  \<^bold>\<open>Backend.\<close> \<open>X86_Reg\<close> and \<open>X86_Instr\<close> hold registers, operands, instruction lists and the
  printer, \<open>X86_Peephole\<close> the peephole rules. \<open>Regalloc\<close> models \<open>x86_64_regalloc.c\<close>;
  \<open>Regalloc_Scan\<close>, \<open>Regalloc_Liveness\<close> and \<open>Regalloc_Correct\<close> show what the scan, the liveness
  analysis and the intervals guarantee, and \<open>Regalloc_Properties\<close> that values live at the same time do not
  share a register. \<open>X86_Frame\<close> models \<open>x86_64_target.c\<close> and \<open>X86_Frame_Correct\<close> shows that slots
  and registers never overlap. \<open>X86_Codegen\<close> models the selection of instructions and
  \<open>X86_Module\<close> the output of a module; \<open>X86_Codegen_Invariant\<close> and \<open>X86_Module_Correct\<close> show that a verified
  module of supported instructions compiles and that all its references resolve. \<open>X86_Encode\<close> models the
  encoder; \<open>X86_Layout\<close> shows that its two passes agree and that branches reach their labels,
  and \<open>X86_Decode\<close> has a decoder that is independent of it and inverts it.
  \<open>X86_Elf\<close> and \<open>X86_Link\<close> model the object writer and the linker; \<open>X86_Elf_Fields\<close>,
  \<open>X86_Elf_Roundtrip\<close> and \<open>X86_Link_Correct\<close> show that the linker reads back what was written and that linked
  references to sections, local symbols and exported names reach their code or constants.

  \<^bold>\<open>Bounds.\<close> The loops of the code are \<open>while_option\<close> or recursion on the data; each has a proof
  that it ends. Fuel occurs in \<open>Ir_Semantics.run\<close>, where it counts the blocks that a run visits and
  is universally quantified in the theorems, and in the driver of the optimiser, where it is the
  iteration bound 10 of the code. The fixed sizes of buffers in the code (messages of 512 and 1024 bytes,
  64 slots, 64 active intervals) are kept, and the bound of 64 active intervals is shown never to be reached.

  \<^bold>\<open>Not modelled.\<close> The parser, the scope analysis, the trait and module resolvers, the lowering and the
  C11 printer work on the syntax tree of \<open>ast.h\<close>; they are the larger part of the source and are left out as a whole,
  because nothing can be said of one of them without the others. The printers of the representation, the
  dumps and statistics, the generator of instrumented C text in \<open>ir_profile.c\<close>, timing, messages to the
  terminal and the command line are output and are left out too. The model of the inliner has no value for a
  run in which the verifier rejects an inlined function, where the code goes on from an instruction that
  is no longer in the function. The file system, the start-up object that the build generates and the
  arithmetic of doubles are parameters.
\<close>

end
